(* ===== verification/Prelude.thy ===== *)
theory Prelude
  imports Main "HOL-Library.Word"
begin

text \<open>
  Shared vocabulary of the development: the machine integers the Rust code uses, byte strings,
  results, the saturating and checked integer operations of the Rust standard library, big-endian
  encodings and length prefixes, and the generic facts on them that the component theories use.
\<close>

section \<open>Machine integers, bytes, results\<close>

unbundle bit_operations_syntax

type_synonym u8 = "8 word"
type_synonym u32 = "32 word"
type_synonym u64 = "64 word"
type_synonym u128 = "128 word"
type_synonym bytes = "8 word list"

text \<open>
  A Rust \<open>Result<T, E>\<close> is \<open>'e + 'a\<close>, with \<open>Inl\<close> the error. The operator \<open>?\<close> is
  \<open>and_then\<close>, and \<open>ok_or\<close> turns an \<open>Option\<close> into a \<open>Result\<close>.
\<close>

definition and_then :: "'e + 'a \<Rightarrow> ('a \<Rightarrow> 'e + 'b) \<Rightarrow> 'e + 'b" where
  "and_then m f = (case m of Inl e \<Rightarrow> Inl e | Inr x \<Rightarrow> f x)"

definition ok_or :: "'e \<Rightarrow> 'a option \<Rightarrow> 'e + 'a" where
  "ok_or e m = (case m of None \<Rightarrow> Inl e | Some x \<Rightarrow> Inr x)"

definition guard :: "'e \<Rightarrow> bool \<Rightarrow> 'e + unit" where
  "guard e b = (if b then Inr () else Inl e)"

definition is_ok :: "'e + 'a \<Rightarrow> bool" where
  "is_ok r = (case r of Inl _ \<Rightarrow> False | Inr _ \<Rightarrow> True)"

named_theorems result_simps \<open>evaluation of results\<close>

lemma and_then_simps [simp, result_simps]:
  "and_then (Inl e) f = Inl e" "and_then (Inr x) f = f x"
  by (simp_all add: and_then_def)

lemma ok_or_simps [simp, result_simps]: "ok_or e None = Inl e" "ok_or e (Some x) = Inr x"
  by (simp_all add: ok_or_def)

lemma guard_simps [simp, result_simps]: "guard e True = Inr ()" "guard e False = Inl e"
  by (simp_all add: guard_def)

lemma is_ok_simps [simp, result_simps]: "is_ok (Inr x)" "\<not> is_ok (Inl e)"
  by (simp_all add: is_ok_def)

lemma and_then_eq_Inr [simp]:
  "and_then m f = Inr y \<longleftrightarrow> (\<exists>x. m = Inr x \<and> f x = Inr y)"
  by (cases m) simp_all

lemma ok_or_eq_Inr [simp]: "ok_or e m = Inr x \<longleftrightarrow> m = Some x"
  by (cases m) simp_all

lemma ok_or_eq_Inl [simp]: "ok_or e m = Inl e' \<longleftrightarrow> m = None \<and> e' = e"
  by (cases m) auto

lemma guard_eq_Inr [simp]: "guard e b = Inr u \<longleftrightarrow> b"
  by (cases b) simp_all

lemma guard_eq_Inl [simp]: "guard e b = Inl e' \<longleftrightarrow> \<not> b \<and> e' = e"
  by (cases b) auto

lemma is_ok_iff: "is_ok r \<longleftrightarrow> (\<exists>x. r = Inr x)"
  by (cases r) simp_all

lemma find_Some_member: "find P xs = Some x \<Longrightarrow> x \<in> set xs \<and> P x"
  by (induction xs) (auto split: if_splits)

section \<open>Integer operations of the standard library\<close>

definition saturating_add :: "'a::len word \<Rightarrow> 'a word \<Rightarrow> 'a word" where
  "saturating_add a b = (if unat a + unat b < 2 ^ LENGTH('a) then a + b else - 1)"

definition saturating_sub :: "'a::len word \<Rightarrow> 'a word \<Rightarrow> 'a word" where
  "saturating_sub a b = (if b \<le> a then a - b else 0)"

definition abs_diff :: "'a::len word \<Rightarrow> 'a word \<Rightarrow> 'a word" where
  "abs_diff a b = (if b \<le> a then a - b else b - a)"

text \<open>\<open>u64::try_from(x).unwrap_or(u64::MAX)\<close> for a wider unsigned \<open>x\<close>, given as its value.\<close>

definition u64_or_max :: "nat \<Rightarrow> u64" where
  "u64_or_max n = (if n < 2 ^ 64 then word_of_nat n else - 1)"

text \<open>\<open>u32::try_from(len).unwrap_or(u32::MAX)\<close>, the length prefix of every signed record.\<close>

definition u32_or_max :: "nat \<Rightarrow> u32" where
  "u32_or_max n = (if n < 2 ^ 32 then word_of_nat n else - 1)"

lemma unat_saturating_add:
  "unat (saturating_add a b) = min (unat a + unat b) (2 ^ LENGTH('a) - 1)"
  for a b :: "'a::len word"
proof (cases "unat a + unat b < 2 ^ LENGTH('a)")
  case True
  then show ?thesis
    by (simp add: saturating_add_def unat_word_ariths)
next
  case False
  then show ?thesis
    by (simp add: saturating_add_def unsigned_minus_1_eq_mask mask_eq_exp_minus_1)
qed

lemma unat_saturating_sub: "unat (saturating_sub a b) = unat a - unat b"
  by (auto simp: saturating_sub_def unat_sub word_le_nat_alt)

lemma unat_abs_diff: "unat (abs_diff a b) = (if unat b \<le> unat a then unat a - unat b else unat b - unat a)"
  by (auto simp: abs_diff_def unat_sub word_le_nat_alt)

lemma unat_u32_or_max: "n < 2 ^ 32 \<Longrightarrow> unat (u32_or_max n) = n"
  using of_nat_inverse [of n "u32_or_max n"] by (simp add: u32_or_max_def)

lemma unat_u64_or_max: "n < 2 ^ 64 \<Longrightarrow> unat (u64_or_max n) = n"
  using of_nat_inverse [of n "u64_or_max n"] by (simp add: u64_or_max_def)

lemma u32_or_max_inj:
  "u32_or_max m = u32_or_max n \<Longrightarrow> m < 2 ^ 32 \<Longrightarrow> n < 2 ^ 32 \<Longrightarrow> m = n"
  by (metis unat_u32_or_max)

section \<open>Big-endian encodings\<close>

text \<open>\<open>be_bytes n w\<close> is \<open>w.to_be_bytes()\<close> of an integer of \<open>n\<close> bytes.\<close>

definition be_bytes :: "nat \<Rightarrow> 'a::len word \<Rightarrow> bytes" where
  "be_bytes n w = map (\<lambda>i. ucast (drop_bit (8 * i) w)) (rev [0..<n])"

abbreviation be64 :: "u64 \<Rightarrow> bytes" where "be64 w \<equiv> be_bytes 8 w"
abbreviation be32 :: "u32 \<Rightarrow> bytes" where "be32 w \<equiv> be_bytes 4 w"

definition from_be_bytes :: "bytes \<Rightarrow> 'a::len word" where
  "from_be_bytes bs = foldl (\<lambda>acc b. push_bit 8 acc OR ucast b) 0 bs"

lemma length_be_bytes [simp]: "length (be_bytes n w) = n"
  by (simp add: be_bytes_def)

lemma be_bytes_inj:
  fixes v w :: "'a::len word"
  assumes eq: "be_bytes n v = be_bytes n w" and len: "LENGTH('a) \<le> 8 * n"
  shows "v = w"
proof (rule bit_word_eqI)
  fix k assume k: "k < LENGTH('a)"
  let ?i = "k div 8"
  have i: "?i < n" using k len by linarith
  have "map (\<lambda>i. ucast (drop_bit (8 * i) v) :: u8) [0..<n]
      = map (\<lambda>i. ucast (drop_bit (8 * i) w)) [0..<n]"
    using eq unfolding be_bytes_def by (metis rev_map rev_rev_ident)
  with i have "(ucast (drop_bit (8 * ?i) v) :: u8) = ucast (drop_bit (8 * ?i) w)"
    by (metis (no_types, lifting) map_eq_conv set_upt atLeastLessThan_iff le0)
  then have "bit (ucast (drop_bit (8 * ?i) v) :: u8) (k mod 8)
           = bit (ucast (drop_bit (8 * ?i) w) :: u8) (k mod 8)"
    by simp
  then show "bit v k = bit w k"
    by (simp add: bit_ucast_iff bit_drop_bit_eq)
qed

lemma be64_eq_iff [simp]: "be64 v = be64 w \<longleftrightarrow> v = w"
  using be_bytes_inj [of 8 v w] by auto

lemma be32_eq_iff [simp]: "be32 v = be32 w \<longleftrightarrow> v = w"
  using be_bytes_inj [of 4 v w] by auto

lemma be_bytes_Suc: "be_bytes (Suc n) w = ucast (drop_bit (8 * n) w) # be_bytes n w"
  by (simp add: be_bytes_def)

lemma foldl_be_bytes:
  fixes w acc :: "'a::len word"
  shows "foldl (\<lambda>acc b. push_bit 8 acc OR ucast b) acc (be_bytes n w)
    = push_bit (8 * n) acc OR take_bit (8 * n) w"
proof (induction n arbitrary: acc)
  case 0
  show ?case by (simp add: be_bytes_def)
next
  case (Suc n)
  let ?b = "ucast (ucast (drop_bit (8 * n) w) :: u8) :: 'a word"
  have "push_bit (8 * n) (push_bit 8 acc OR ?b) OR take_bit (8 * n) w
      = push_bit (8 * Suc n) acc OR take_bit (8 * Suc n) w"
    by (rule bit_word_eqI)
      (auto simp: bit_or_iff bit_push_bit_iff bit_take_bit_iff bit_ucast_iff bit_drop_bit_eq algebra_simps)
  then show ?case by (simp add: be_bytes_Suc Suc.IH)
qed

lemma from_be_bytes_be_bytes:
  fixes w :: "'a::len word"
  assumes "LENGTH('a) \<le> 8 * n"
  shows "from_be_bytes (be_bytes n w) = w"
proof -
  have "take_bit (8 * n) w = w"
    by (rule bit_word_eqI) (use assms in \<open>auto simp: bit_take_bit_iff\<close>)
  then show ?thesis by (simp add: from_be_bytes_def foldl_be_bytes)
qed

section \<open>Strings as bytes\<close>

text \<open>A Rust string is its UTF-8 bytes; a \<open>char\<close> here is one byte.\<close>

definition str_bytes :: "string \<Rightarrow> bytes" where
  "str_bytes s = map of_char s"

lemma of_char_u8_inj: "c = d" if eq: "(of_char c :: u8) = of_char d"
proof -
  have lt: "(of_char x :: nat) < 2 ^ LENGTH(8)" for x
    by (cases x) simp
  have "unat (of_char x :: u8) = of_char x" for x
    using of_nat_inverse [OF of_nat_of_char lt] by blast
  with eq have "(of_char c :: nat) = of_char d" by metis
  then show "c = d" by simp
qed

lemma length_str_bytes [simp]: "length (str_bytes s) = length s"
  by (simp add: str_bytes_def)

lemma str_bytes_eq_iff [simp]: "str_bytes s = str_bytes t \<longleftrightarrow> s = t"
  unfolding str_bytes_def
  by (meson injI inj_map_eq_map of_char_u8_inj)

section \<open>Length-prefixed fields\<close>

text \<open>
  Every variable-length field of a signed record is written as its length, a big-endian \<open>u32\<close>
  saturated at \<open>u32::MAX\<close>, followed by its bytes.
\<close>

definition len_prefixed :: "bytes \<Rightarrow> bytes" where
  "len_prefixed f = be32 (u32_or_max (length f)) @ f"

lemma len_prefixed_append_inj:
  assumes "len_prefixed f @ xs = len_prefixed g @ ys"
    and "length f < 2 ^ 32" "length g < 2 ^ 32"
  shows "f = g \<and> xs = ys"
proof -
  have "u32_or_max (length f) = u32_or_max (length g)" and r: "f @ xs = g @ ys"
    using assms(1) by (simp_all add: len_prefixed_def)
  then have "length f = length g"
    using assms(2,3) by (blast intro: u32_or_max_inj)
  with r show ?thesis by simp
qed

lemma concat_len_prefixed_inj:
  assumes "concat (map len_prefixed fs) @ xs = concat (map len_prefixed gs) @ ys"
    and "length fs = length gs"
    and "\<forall>f \<in> set fs. length f < 2 ^ 32" and "\<forall>g \<in> set gs. length g < 2 ^ 32"
  shows "fs = gs \<and> xs = ys"
  using assms(2,1,3,4)
proof (induction fs gs rule: list_induct2)
  case Nil
  then show ?case by simp
next
  case (Cons f fs g gs)
  from Cons.prems(1)
  have "len_prefixed f @ (concat (map len_prefixed fs) @ xs)
      = len_prefixed g @ (concat (map len_prefixed gs) @ ys)"
    by simp
  moreover have "length f < 2 ^ 32" "length g < 2 ^ 32"
    using Cons.prems(2,3) by (auto simp only: list.set insert_iff)
  ultimately have fg: "f = g"
    and eq: "concat (map len_prefixed fs) @ xs = concat (map len_prefixed gs) @ ys"
    using len_prefixed_append_inj by blast+
  have "fs = gs \<and> xs = ys"
    by (rule Cons.IH [OF eq]) (use Cons.prems(2,3) in \<open>auto simp only: list.set insert_iff\<close>)
  with fg show ?case by simp
qed

section \<open>Fixed-size arrays\<close>

text \<open>\<open>slice.try_into::<[u8; n]>()\<close>: a slice of any other length is refused.\<close>

definition to_array :: "nat \<Rightarrow> bytes \<Rightarrow> bytes option" where
  "to_array n bs = (if length bs = n then Some bs else None)"

lemma to_array_eq_Some [simp]: "to_array n bs = Some a \<longleftrightarrow> a = bs \<and> length bs = n"
  by (auto simp: to_array_def)

lemma to_array_eq_None [simp]: "to_array n bs = None \<longleftrightarrow> length bs \<noteq> n"
  by (auto simp: to_array_def)

section \<open>Association lists\<close>

lemma map_of_filter:
  "distinct (map fst xs) \<Longrightarrow> map_of (filter P xs) i =
     (case map_of xs i of None \<Rightarrow> None | Some x \<Rightarrow> if P (i, x) then Some x else None)"
proof (induction xs)
  case (Cons a xs)
  obtain j x where a: "a = (j, x)" by fastforce
  have "map_of xs j = None" using Cons.prems a by (simp add: map_of_eq_None_iff)
  with Cons a show ?case by (auto split: option.splits)
qed simp

section \<open>Text\<close>

definition starts_with :: "string \<Rightarrow> string \<Rightarrow> bool" where
  "starts_with s p \<longleftrightarrow> take (length p) s = p"

fun join_with :: "string \<Rightarrow> string list \<Rightarrow> string" where
  "join_with sep [] = []"
| "join_with sep [x] = x"
| "join_with sep (x # y # xs) = x @ sep @ join_with sep (y # xs)"

end
