(* ===== verification/Replay.thy ===== *)
theory Replay
  imports Prelude
begin

text \<open>
  The per-sender sliding-window replay guard of \<open>crates/bowery-whisper/src/replay.rs\<close>: its state,
  its two operations, the set of nonces a window stands for, and the proof that the bitmap
  implements that set exactly. The interface other components rely on is the locale
  \<open>replay_protection\<close>.
\<close>

section \<open>State and operations\<close>

record per_sender_state =
  highest :: u64
  bitmap :: u128

datatype replay = TooOld u64 u64 | AlreadySeen u64

record 'fp replay_guard =
  peers :: "'fp \<Rightarrow> per_sender_state option"

definition WINDOW_BITS :: u64 where
  "WINDOW_BITS = 128"

definition replay_guard_new :: "'fp replay_guard" where
  "replay_guard_new = \<lparr>peers = (\<lambda>_. None)\<rparr>"

definition update :: "per_sender_state \<Rightarrow> u64 \<Rightarrow> replay + per_sender_state" where
  "update s nonce =
     (if nonce > highest s then
        let shift = nonce - highest s in
        Inr \<lparr>highest = nonce,
             bitmap = (if shift \<ge> WINDOW_BITS then 1
                       else push_bit (unat shift) (bitmap s) OR 1)\<rparr>
      else
        let offset = highest s - nonce in
        if offset \<ge> WINDOW_BITS then Inl (TooOld nonce (highest s))
        else
          let mask = push_bit (unat offset) 1 in
          if bitmap s AND mask \<noteq> 0 then Inl (AlreadySeen nonce)
          else Inr (s\<lparr>bitmap := bitmap s OR mask\<rparr>))"

definition check_and_record ::
    "'fp replay_guard \<Rightarrow> 'fp \<Rightarrow> u64 \<Rightarrow> replay + 'fp replay_guard" where
  "check_and_record g sender nonce =
     (case peers g sender of
        None \<Rightarrow> Inr (g\<lparr>peers := (peers g)(sender \<mapsto> \<lparr>highest = nonce, bitmap = 1\<rparr>)\<rparr>)
      | Some s \<Rightarrow>
          (case update s nonce of
             Inl e \<Rightarrow> Inl e
           | Inr s' \<Rightarrow> Inr (g\<lparr>peers := (peers g)(sender \<mapsto> s')\<rparr>)))"

text \<open>A run of a guard: a refused message leaves it as it was. Returned with what was accepted.\<close>

fun run_with ::
    "('g \<Rightarrow> 'fp \<Rightarrow> u64 \<Rightarrow> 'e + 'g) \<Rightarrow> 'g \<Rightarrow> ('fp \<times> u64) list \<Rightarrow> 'g \<times> ('fp \<times> u64) list" where
  "run_with check g [] = (g, [])"
| "run_with check g ((sender, nonce) # ms) =
     (case check g sender nonce of
        Inl _ \<Rightarrow> run_with check g ms
      | Inr g' \<Rightarrow> (let (g'', acc) = run_with check g' ms in (g'', (sender, nonce) # acc)))"

definition nonces_of :: "('fp \<times> u64) list \<Rightarrow> 'fp \<Rightarrow> nat set" where
  "nonces_of acc fp = {unat n | n. (fp, n) \<in> set acc}"

lemma nonces_of_Nil [simp]: "nonces_of [] = (\<lambda>_. {})"
  by (simp add: nonces_of_def fun_eq_iff)

lemma nonces_of_Cons [simp]:
  "nonces_of ((fp, n) # acc) = (nonces_of acc)(fp := insert (unat n) (nonces_of acc fp))"
  by (auto simp: nonces_of_def fun_eq_iff)

section \<open>What a window stands for\<close>

text \<open>
  The abstract guard keeps, per sender, the set of nonces it has accepted. A message is accepted
  when the set is empty, or when its nonce is not in the set and is larger than the largest one
  accepted or less than 128 below it.
\<close>

definition spec_accepts :: "nat set \<Rightarrow> nat \<Rightarrow> bool" where
  "spec_accepts H n \<longleftrightarrow> H = {} \<or> (n \<notin> H \<and> Max H < n + 128)"

definition window_rel :: "nat set \<Rightarrow> per_sender_state \<Rightarrow> bool" where
  "window_rel H s \<longleftrightarrow> finite H \<and> unat (highest s) \<in> H \<and> (\<forall>h \<in> H. h \<le> unat (highest s)) \<and>
     (\<forall>i < 128. bit (bitmap s) i \<longleftrightarrow> i \<le> unat (highest s) \<and> unat (highest s) - i \<in> H)"

lemma window_rel_Max: "window_rel H s \<Longrightarrow> Max H = unat (highest s)"
  unfolding window_rel_def by (blast intro: Max_eqI)

lemma window_rel_start: "window_rel {unat n} \<lparr>highest = n, bitmap = 1\<rparr>"
  by (auto simp: window_rel_def bit_1_iff)

lemma bit_two_power: "k < LENGTH('a) \<Longrightarrow> bit (2 ^ k :: 'a::len word) j \<longleftrightarrow> j = k"
  by (auto simp: bit_exp_iff)

lemma test_bit_mask: "w AND 2 ^ k \<noteq> 0 \<longleftrightarrow> bit w k"
  if "k < LENGTH('a)" for w :: "'a::len word"
proof
  assume "bit w k"
  then have "bit (w AND 2 ^ k) k"
    using that by (simp add: bit_and_iff bit_two_power)
  then show "w AND 2 ^ k \<noteq> 0" by auto
next
  assume "w AND 2 ^ k \<noteq> 0"
  then obtain j where "bit (w AND 2 ^ k) j"
    by (metis bit_eqI bit_0_eq bot_apply bot_bool_def)
  then show "bit w k"
    using that by (auto simp: bit_and_iff bit_two_power)
qed

lemma window_128: "x \<ge> WINDOW_BITS \<longleftrightarrow> 128 \<le> unat x"
  by (simp add: WINDOW_BITS_def word_le_nat_alt)

text \<open>A newer nonce slides the window; what falls off it is out of range of every later read.\<close>

lemma update_newer:
  assumes R: "window_rel H s" and lt: "highest s < n"
  shows "\<exists>s'. update s n = Inr s' \<and> window_rel (insert (unat n) H) s'"
proof -
  let ?h = "unat (highest s)" and ?n = "unat n"
  let ?shift = "n - highest s"
  have hn: "?h < ?n" using lt by (simp add: word_less_nat_alt)
  have sh: "unat ?shift = ?n - ?h" using lt by (simp add: unat_sub less_imp_le)
  let ?b = "if ?shift \<ge> WINDOW_BITS then 1 else push_bit (unat ?shift) (bitmap s) OR 1"
  have fin: "finite H" and mem: "?h \<in> H" and le: "\<forall>h \<in> H. h \<le> ?h"
    and bits: "\<And>i. i < 128 \<Longrightarrow> bit (bitmap s) i \<longleftrightarrow> i \<le> ?h \<and> ?h - i \<in> H"
    using R unfolding window_rel_def by blast+
  have new: "bit ?b i \<longleftrightarrow> i \<le> ?n \<and> ?n - i \<in> insert ?n H" if i: "i < 128" for i
  proof (cases "i = 0")
    case True
    then show ?thesis by (simp add: bit_or_iff bit_1_iff)
  next
    case False
    have "?n - i \<in> H \<and> i \<le> ?n \<longleftrightarrow> ?n - ?h \<le> i \<and> i - (?n - ?h) \<le> ?h \<and> ?h - (i - (?n - ?h)) \<in> H"
    proof
      assume a: "?n - i \<in> H \<and> i \<le> ?n"
      then have "?n - i \<le> ?h" using le by blast
      moreover from this a hn have "?h - (i - (?n - ?h)) = ?n - i" by linarith
      ultimately show "?n - ?h \<le> i \<and> i - (?n - ?h) \<le> ?h \<and> ?h - (i - (?n - ?h)) \<in> H"
        using a hn by auto
    next
      assume a: "?n - ?h \<le> i \<and> i - (?n - ?h) \<le> ?h \<and> ?h - (i - (?n - ?h)) \<in> H"
      then have "?h - (i - (?n - ?h)) = ?n - i" and "i \<le> ?n" using hn by linarith+
      with a show "?n - i \<in> H \<and> i \<le> ?n" by simp
    qed
    moreover have "bit ?b i \<longleftrightarrow> ?n - ?h \<le> i \<and> bit (bitmap s) (i - (?n - ?h))"
      using False i sh by (auto simp: window_128 bit_or_iff bit_1_iff bit_push_bit_iff)
    moreover have "?n - i \<noteq> ?n" if "i \<le> ?n" using that False hn by linarith
    ultimately show ?thesis using bits [of "i - (?n - ?h)"] i by auto
  qed
  have "update s n = Inr \<lparr>highest = n, bitmap = ?b\<rparr>"
    using lt by (simp add: update_def Let_def)
  moreover have "window_rel (insert ?n H) \<lparr>highest = n, bitmap = ?b\<rparr>"
    unfolding window_rel_def using fin le hn new by auto
  ultimately show ?thesis by blast
qed

lemma update_in_window:
  assumes R: "window_rel H s" and le: "n \<le> highest s" and w: "unat (highest s) - unat n < 128"
  shows "update s n = (if unat n \<in> H then Inl (AlreadySeen n)
      else Inr (s\<lparr>bitmap := bitmap s OR push_bit (unat (highest s) - unat n) 1\<rparr>))"
proof -
  have off: "unat (highest s - n) = unat (highest s) - unat n"
    using le by (simp add: unat_sub word_le_nat_alt)
  have "unat n \<le> unat (highest s)" using le by (simp add: word_le_nat_alt)
  then have "bit (bitmap s) (unat (highest s) - unat n) \<longleftrightarrow> unat n \<in> H"
    using R w unfolding window_rel_def by auto
  moreover have "\<not> highest s < n" using le by simp
  ultimately show ?thesis
    using w by (simp add: update_def Let_def window_128 off test_bit_mask [symmetric])
qed

lemma window_rel_insert:
  assumes R: "window_rel H s" and le: "unat n \<le> unat (highest s)"
    and w: "unat (highest s) - unat n < 128"
  shows "window_rel (insert (unat n) H)
    (s\<lparr>bitmap := bitmap s OR push_bit (unat (highest s) - unat n) 1\<rparr>)"
  using assms unfolding window_rel_def
  by (auto simp: bit_or_iff bit_two_power)

lemma update_refines_spec:
  assumes R: "window_rel H s"
  shows "case update s n of
      Inl e \<Rightarrow> \<not> spec_accepts H (unat n) \<and>
        (e = (if unat n \<in> H \<and> unat (highest s) - unat n < 128 then AlreadySeen n
              else TooOld n (highest s)))
    | Inr s' \<Rightarrow> spec_accepts H (unat n) \<and> window_rel (insert (unat n) H) s'"
proof (cases "highest s < n")
  case True
  moreover have "unat n \<notin> H"
    using R True by (auto simp: window_rel_def word_less_nat_alt)
  ultimately show ?thesis
    using update_newer [OF R True] window_rel_Max [OF R]
    by (auto simp: spec_accepts_def word_less_nat_alt)
next
  case False
  then have le: "n \<le> highest s" "unat n \<le> unat (highest s)"
    by (simp_all add: word_le_nat_alt word_less_nat_alt)
  have ne: "H \<noteq> {}" using R by (auto simp: window_rel_def)
  show ?thesis
  proof (cases "unat (highest s) - unat n < 128")
    case True
    then show ?thesis
      using le ne window_rel_Max [OF R] window_rel_insert [OF R le(2) True]
      by (auto simp: update_in_window [OF R le(1) True] spec_accepts_def)
  next
    case far: False
    have "unat (highest s - n) = unat (highest s) - unat n"
      using le by (simp add: unat_sub)
    then have "update s n = Inl (TooOld n (highest s))"
      using False far by (simp add: update_def Let_def window_128)
    then show ?thesis
      using far ne le window_rel_Max [OF R] by (auto simp: spec_accepts_def)
  qed
qed

section \<open>The guard's contract\<close>

text \<open>
  What the envelope layer relies on: the guard stands for the set of nonces accepted so far, a
  nonce already in that set is refused, and accepting one adds exactly it.
\<close>

locale replay_protection =
  fixes new :: 'g
    and check :: "'g \<Rightarrow> 'fp \<Rightarrow> u64 \<Rightarrow> 'e + 'g"
    and represents :: "('fp \<Rightarrow> nat set) \<Rightarrow> 'g \<Rightarrow> bool"
    and accepts :: "nat set \<Rightarrow> nat \<Rightarrow> bool"
  assumes represents_new: "represents (\<lambda>_. {}) new"
    and check_ok: "represents H g \<Longrightarrow> check g fp n = Inr g' \<Longrightarrow>
      accepts (H fp) (unat n) \<and> represents (H(fp := insert (unat n) (H fp))) g'"
    and check_err: "represents H g \<Longrightarrow> check g fp n = Inl e \<Longrightarrow> \<not> accepts (H fp) (unat n)"
    and accepts_fresh: "accepts A k \<Longrightarrow> k \<notin> A"
begin

lemma accepted_is_fresh:
  "represents H g \<Longrightarrow> check g fp n = Inr g' \<Longrightarrow> unat n \<notin> H fp"
  using check_ok accepts_fresh by blast

lemma run_represents:
  "represents H g \<Longrightarrow> run_with check g ms = (g', acc) \<Longrightarrow>
   represents (\<lambda>fp. H fp \<union> nonces_of acc fp) g'"
proof (induction ms arbitrary: H g g' acc)
  case Nil
  then show ?case by simp
next
  case (Cons m ms)
  obtain fp n where m: "m = (fp, n)" by fastforce
  show ?case
  proof (cases "check g fp n")
    case (Inl e)
    with Cons m show ?thesis by simp
  next
    case (Inr g1)
    let ?H1 = "H(fp := insert (unat n) (H fp))"
    obtain g2 acc2 where run: "run_with check g1 ms = (g2, acc2)" by fastforce
    with Cons.prems Inr m have out: "g' = g2" "acc = (fp, n) # acc2" by auto
    have "represents ?H1 g1" using check_ok [OF Cons.prems(1) Inr] by blast
    then have "represents (\<lambda>x. ?H1 x \<union> nonces_of acc2 x) g2" using run by (rule Cons.IH)
    moreover have "(\<lambda>x. ?H1 x \<union> nonces_of acc2 x) = (\<lambda>x. H x \<union> nonces_of acc x)"
      by (auto simp: out fun_eq_iff)
    ultimately show ?thesis by (simp add: out)
  qed
qed

lemma run_accepts_once:
  "represents H g \<Longrightarrow> run_with check g ms = (g', acc) \<Longrightarrow>
   distinct acc \<and> (\<forall>fp n. (fp, n) \<in> set acc \<longrightarrow> unat n \<notin> H fp)"
proof (induction ms arbitrary: H g g' acc)
  case Nil
  then show ?case by simp
next
  case (Cons m ms)
  obtain fp n where m: "m = (fp, n)" by fastforce
  show ?case
  proof (cases "check g fp n")
    case (Inl e)
    with Cons m show ?thesis by simp
  next
    case (Inr g1)
    let ?H1 = "H(fp := insert (unat n) (H fp))"
    obtain g2 acc2 where run: "run_with check g1 ms = (g2, acc2)" by fastforce
    with Cons.prems Inr m have out: "acc = (fp, n) # acc2" by auto
    have "represents ?H1 g1" using check_ok [OF Cons.prems(1) Inr] by blast
    from Cons.IH [OF this run]
    have "distinct acc2" and new: "\<And>q k. (q, k) \<in> set acc2 \<Longrightarrow> unat k \<notin> ?H1 q" by auto
    moreover have "(fp, n) \<notin> set acc2" using new by fastforce
    moreover have "unat k \<notin> H q" if "(q, k) \<in> set acc2" for q k
      using new [OF that] by (auto split: if_splits)
    ultimately show ?thesis
      using accepted_is_fresh [OF Cons.prems(1) Inr] by (auto simp: out)
  qed
qed

end

section \<open>The bitmap guard keeps the contract\<close>

definition guard_rel :: "('fp \<Rightarrow> nat set) \<Rightarrow> 'fp replay_guard \<Rightarrow> bool" where
  "guard_rel H g \<longleftrightarrow> (\<forall>fp. case peers g fp of None \<Rightarrow> H fp = {} | Some s \<Rightarrow> window_rel (H fp) s)"

lemma guard_rel_None: "guard_rel H g \<Longrightarrow> peers g fp = None \<Longrightarrow> H fp = {}"
  unfolding guard_rel_def by (metis option.simps(4))

lemma guard_rel_Some: "guard_rel H g \<Longrightarrow> peers g fp = Some s \<Longrightarrow> window_rel (H fp) s"
  unfolding guard_rel_def by (metis option.simps(5))

lemma guard_rel_update:
  "guard_rel H g \<Longrightarrow> window_rel A s \<Longrightarrow>
   guard_rel (H(fp := A)) (g\<lparr>peers := (peers g)(fp \<mapsto> s)\<rparr>)"
  unfolding guard_rel_def
proof (intro allI)
  fix q
  assume "\<forall>fp. case peers g fp of None \<Rightarrow> H fp = {} | Some s \<Rightarrow> window_rel (H fp) s" "window_rel A s"
  then show "case peers (g\<lparr>peers := (peers g)(fp \<mapsto> s)\<rparr>) q of
      None \<Rightarrow> (H(fp := A)) q = {} | Some s \<Rightarrow> window_rel ((H(fp := A)) q) s"
    by (cases "q = fp"; cases "peers g q") (auto dest: spec [of _ q])
qed

lemma check_and_record_refines:
  assumes R: "guard_rel H g"
  shows "case check_and_record g fp n of
      Inl _ \<Rightarrow> \<not> spec_accepts (H fp) (unat n)
    | Inr g' \<Rightarrow> spec_accepts (H fp) (unat n) \<and> guard_rel (H(fp := insert (unat n) (H fp))) g'"
proof (cases "peers g fp")
  case None
  then show ?thesis
    using guard_rel_update [OF R window_rel_start] guard_rel_None [OF R None]
    by (simp add: check_and_record_def spec_accepts_def)
next
  case (Some s)
  then show ?thesis
    using update_refines_spec [OF guard_rel_Some [OF R Some], of n] guard_rel_update [OF R]
    by (auto simp: check_and_record_def split: sum.splits)
qed

interpretation rg: replay_protection
  replay_guard_new check_and_record guard_rel spec_accepts
proof unfold_locales
  show "guard_rel (\<lambda>_. {}) replay_guard_new"
    by (simp add: guard_rel_def replay_guard_new_def)
next
  fix H :: "'fp \<Rightarrow> nat set" and g g' :: "'fp replay_guard" and fp n
  assume "guard_rel H g" "check_and_record g fp n = Inr g'"
  then show "spec_accepts (H fp) (unat n) \<and> guard_rel (H(fp := insert (unat n) (H fp))) g'"
    using check_and_record_refines [of H g fp n] by simp
next
  fix H :: "'fp \<Rightarrow> nat set" and g :: "'fp replay_guard" and fp n e
  assume "guard_rel H g" "check_and_record g fp n = Inl e"
  then show "\<not> spec_accepts (H fp) (unat n)"
    using check_and_record_refines [of H g fp n] by simp
next
  fix A n assume "spec_accepts A n"
  then show "n \<notin> A"
    unfolding spec_accepts_def by auto
qed

text \<open>Running the guard from its empty state.\<close>

definition guard_run :: "('fp \<times> u64) list \<Rightarrow> 'fp replay_guard \<times> ('fp \<times> u64) list" where
  "guard_run ms = run_with check_and_record replay_guard_new ms"

lemma guard_run_rel: "guard_run ms = (g, acc) \<Longrightarrow> guard_rel (nonces_of acc) g"
  using rg.run_represents [OF rg.represents_new, of ms g acc] by (simp add: guard_run_def)

text \<open>
  Replay protection. Whatever messages arrive, in whatever order and from whatever senders, a
  guard that starts empty accepts each pair of sender and nonce at most once.
\<close>

theorem guard_never_accepts_twice: "distinct (snd (guard_run ms))"
proof -
  obtain g acc where run: "guard_run ms = (g, acc)" by fastforce
  have "distinct acc"
    using rg.run_accepts_once [OF rg.represents_new, of ms g acc] run
    by (simp add: guard_run_def)
  with run show ?thesis by simp
qed

text \<open>
  C3. The 128-bit window implements the documented acceptance rule exactly. After any run, the next
  message is accepted if and only if its sender is new, its nonce is larger than every nonce
  accepted from that sender, or it is less than 128 below the largest and not itself accepted yet.
\<close>

theorem guard_implements_window:
  "is_ok (check_and_record (fst (guard_run ms)) fp n) \<longleftrightarrow>
   spec_accepts (nonces_of (snd (guard_run ms)) fp) (unat n)"
proof -
  obtain g acc where run: "guard_run ms = (g, acc)" by fastforce
  from check_and_record_refines [OF guard_run_rel [OF run], of fp n] run show ?thesis
    by (auto simp: is_ok_def split: sum.splits)
qed

end
