(* ===== verification/Storage.thy ===== *)
theory Storage
  imports Prelude
begin

text \<open>
  The part of the file system the persistent stores use: files with a permission mode, the
  operations of \<open>std::fs\<close> they call, and the ways each of them can fail. A fault is chosen by the
  environment, so every error branch of the code is reachable in the model. The write-to-temporary
  then rename protocol shared by \<open>bowery-crypto\<close> and \<open>known_neighbors.rs\<close> is proved atomic here.
\<close>

section \<open>Files and faults\<close>

type_synonym path = "string list"

record stored_file =
  mode :: nat
  body :: string

type_synonym fs = "path \<Rightarrow> stored_file option"

text \<open>At which call of a save the operating system fails, if at any.\<close>

datatype fault = NoFault | FailMkdir | FailOpen | FailWrite | FailSync | FailRename | FailRead | FailRemove

text \<open>
  \<open>Path::file_name\<close> is absent for the empty path and for one that ends in \<open>..\<close>; then
  \<open>set_file_name\<close> appends.
\<close>

definition tmp_path_for :: "path \<Rightarrow> path" where
  "tmp_path_for p =
     (if p = [] \<or> last p = ''..'' then p @ [''.tmp''] else butlast p @ [last p @ ''.tmp''])"

text \<open>
  \<open>create_new\<close> refuses an existing file. A failed write or a failed sync leaves the file behind,
  with contents the model does not fix.
\<close>

definition write_with_mode ::
    "'e \<Rightarrow> fault \<Rightarrow> string \<Rightarrow> fs \<Rightarrow> path \<Rightarrow> string \<Rightarrow> nat \<Rightarrow> ('e + unit) \<times> fs" where
  "write_with_mode io fault partial fs p contents m =
     (if fs p \<noteq> None \<or> fault = FailOpen then (Inl io, fs)
      else if fault = FailWrite then (Inl io, fs(p \<mapsto> \<lparr>mode = m, body = partial\<rparr>))
      else if fault = FailSync then (Inl io, fs(p \<mapsto> \<lparr>mode = m, body = contents\<rparr>))
      else (Inr (), fs(p \<mapsto> \<lparr>mode = m, body = contents\<rparr>)))"

text \<open>\<open>fs::rename\<close> replaces the target in one step or does nothing.\<close>

definition rename :: "'e \<Rightarrow> fault \<Rightarrow> fs \<Rightarrow> path \<Rightarrow> path \<Rightarrow> ('e + unit) \<times> fs" where
  "rename io fault fs src dst =
     (if fault = FailRename \<or> fs src = None then (Inl io, fs)
      else (Inr (), (fs(dst := fs src))(src := None)))"

lemma tmp_path_for_neq [simp]: "tmp_path_for p \<noteq> p" "p \<noteq> tmp_path_for p"
proof -
  have "butlast p @ [last p @ ''.tmp''] \<noteq> p" if "p \<noteq> []"
    using append_butlast_last_id [OF that] by (metis append_self_conv last_snoc list.distinct(1))
  then show "tmp_path_for p \<noteq> p" by (auto simp: tmp_path_for_def)
  then show "p \<noteq> tmp_path_for p" by metis
qed

section \<open>Atomic replacement\<close>

definition write_then_rename ::
    "'e \<Rightarrow> fault \<Rightarrow> string \<Rightarrow> fs \<Rightarrow> path \<Rightarrow> string \<Rightarrow> nat \<Rightarrow> ('e + unit) \<times> fs" where
  "write_then_rename io fault partial fs p contents m =
     (case write_with_mode io fault partial fs (tmp_path_for p) contents m of
        (Inl e, fs') \<Rightarrow> (Inl e, fs')
      | (Inr _, fs') \<Rightarrow> rename io fault fs' (tmp_path_for p) p)"

lemma write_then_rename_ok:
  "write_then_rename io fault partial fs p contents m = (Inr (), fs') \<Longrightarrow>
   fs' p = Some \<lparr>mode = m, body = contents\<rparr> \<and> fs' (tmp_path_for p) = None"
  by (auto simp: write_then_rename_def write_with_mode_def rename_def split: if_splits)

lemma write_then_rename_err:
  "write_then_rename io fault partial fs p contents m = (Inl e, fs') \<Longrightarrow> fs' p = fs p"
  by (auto simp: write_then_rename_def write_with_mode_def rename_def split: if_splits)

lemma write_then_rename_frame:
  "write_then_rename io fault partial fs p contents m = (r, fs') \<Longrightarrow>
   q \<noteq> p \<Longrightarrow> q \<noteq> tmp_path_for p \<Longrightarrow> fs' q = fs q"
  by (auto simp: write_then_rename_def write_with_mode_def rename_def split: if_splits)

lemma write_then_rename_no_fault:
  "fs (tmp_path_for p) = None \<Longrightarrow>
   fst (write_then_rename io NoFault partial fs p contents m) = Inr ()"
  by (simp add: write_then_rename_def write_with_mode_def rename_def)

lemma write_then_rename_stale:
  "fs (tmp_path_for p) \<noteq> None \<Longrightarrow>
   write_then_rename io fault partial fs p contents m = (Inl io, fs)"
  by (auto simp: write_then_rename_def write_with_mode_def)

end
