(* ===== verification/Crypto.thy ===== *)
theory Crypto
  imports Storage
begin

text \<open>
  Identities, fingerprints and the identity file of \<open>crates/bowery-crypto/src/lib.rs\<close>. The
  cryptography itself (Ed25519, SHA-256) and the text codecs (hex, base64, TOML) are packages the
  code calls: they are the fields of a record every definition takes, and what the code relies on
  is the predicate \<open>crypto_ok\<close>.
\<close>

section \<open>The packages\<close>

record crypto =
  sha256 :: "bytes \<Rightarrow> bytes"
  vk_of :: "bytes \<Rightarrow> bytes"
  ed_sign :: "bytes \<Rightarrow> bytes \<Rightarrow> bytes"
  verify_strict :: "bytes \<Rightarrow> bytes \<Rightarrow> bytes \<Rightarrow> bool"
  vk_from_bytes :: "bytes \<Rightarrow> bytes option"
  hex_encode :: "bytes \<Rightarrow> string"
  hex_decode :: "string \<Rightarrow> bytes option"
  b64_encode :: "bytes \<Rightarrow> string"
  b64_decode :: "string \<Rightarrow> bytes option"

text \<open>
  Documented behaviour: digests have 32 bytes, keys 32 and signatures 64, a signature verifies
  under its own key, the bytes of a key that was generated parse, and the text codecs round-trip.
\<close>

definition crypto_ok :: "crypto \<Rightarrow> bool" where
  "crypto_ok c \<longleftrightarrow> (\<forall>x. length (sha256 c x) = 32) \<and> (\<forall>sk. length (vk_of c sk) = 32) \<and>
     (\<forall>sk m. length (ed_sign c sk m) = 64) \<and>
     (\<forall>sk m. verify_strict c (vk_of c sk) m (ed_sign c sk m)) \<and>
     (\<forall>sk. vk_from_bytes c (vk_of c sk) = Some (vk_of c sk)) \<and>
     (\<forall>bs. hex_decode c (hex_encode c bs) = Some bs) \<and>
     (\<forall>bs. b64_decode c (b64_encode c bs) = Some bs)"

lemma crypto_okD:
  assumes "crypto_ok c"
  shows "length (sha256 c x) = 32" "length (vk_of c sk) = 32" "length (ed_sign c sk m) = 64"
    "verify_strict c (vk_of c sk) m (ed_sign c sk m)"
    "vk_from_bytes c (vk_of c sk) = Some (vk_of c sk)"
    "hex_decode c (hex_encode c bs) = Some bs" "b64_decode c (b64_encode c bs) = Some bs"
  using assms unfolding crypto_ok_def by blast+

text \<open>
  Every message has a signature, so that nobody forges one is a statement about the signatures that
  are ever presented: those in \<open>seen\<close> that verify under a key verify for messages its holder signed,
  of whatever kind these are.
\<close>

definition unforged :: "crypto \<Rightarrow> bytes \<Rightarrow> bytes set \<Rightarrow> bytes set \<Rightarrow> bool" where
  "unforged c vk made seen \<longleftrightarrow> (\<forall>m. \<forall>sg \<in> seen. verify_strict c vk m sg \<longrightarrow> m \<in> made)"

lemma unforgedD: "unforged c vk made seen \<Longrightarrow> sg \<in> seen \<Longrightarrow> verify_strict c vk m sg \<Longrightarrow> m \<in> made"
  by (auto simp: unforged_def)

section \<open>Fingerprints\<close>

type_synonym fingerprint = bytes
type_synonym verifying_key = bytes

datatype crypto_error =
    Io
  | Malformed
  | UnsupportedVersion u32
  | InsecurePermissions nat
  | AlreadyExists path
  | BadSignature

definition from_verifying_key :: "crypto \<Rightarrow> verifying_key \<Rightarrow> fingerprint" where
  "from_verifying_key c vk = sha256 c vk"

definition to_hex :: "crypto \<Rightarrow> fingerprint \<Rightarrow> string" where
  "to_hex c fp = hex_encode c fp"

definition from_hex :: "crypto \<Rightarrow> string \<Rightarrow> crypto_error + fingerprint" where
  "from_hex c s =
     and_then (ok_or Malformed (hex_decode c s)) (\<lambda>bs. ok_or Malformed (to_array 32 bs))"

text \<open>\<open>hex_lower\<close>, the formatting loop three modules carry: two lowercase digits per byte.\<close>

definition hex_digit :: "nat \<Rightarrow> char" where
  "hex_digit n = ''0123456789abcdef'' ! n"

definition hex_lower :: "bytes \<Rightarrow> string" where
  "hex_lower bs =
     foldl (\<lambda>acc b. acc @ [hex_digit (unat b div 16), hex_digit (unat b mod 16)]) [] bs"

lemma from_hex_to_hex:
  "crypto_ok c \<Longrightarrow> length fp = 32 \<Longrightarrow> from_hex c (to_hex c fp) = Inr fp"
  by (simp add: from_hex_def to_hex_def crypto_okD)

lemma from_hex_length: "from_hex c s = Inr fp \<Longrightarrow> length fp = 32"
  by (auto simp: from_hex_def)

lemma length_from_verifying_key [simp]: "crypto_ok c \<Longrightarrow> length (from_verifying_key c vk) = 32"
  by (simp add: from_verifying_key_def crypto_okD)

lemma hex_digit_inj:
  assumes "hex_digit i = hex_digit j" "i < 16" "j < 16"
  shows "i = j"
proof -
  have "distinct ''0123456789abcdef''" by simp
  moreover have "length ''0123456789abcdef'' = 16" by simp
  ultimately show ?thesis
    using assms unfolding hex_digit_def by (metis nth_eq_iff_index_eq)
qed

lemma hex_lower_concat:
  "hex_lower bs = concat (map (\<lambda>b. [hex_digit (unat b div 16), hex_digit (unat b mod 16)]) bs)"
proof -
  have "foldl (\<lambda>acc b. acc @ f b) acc bs = acc @ concat (map f bs)" for f and acc :: string
    by (induction bs arbitrary: acc) simp_all
  from this [of _ "[]"] show ?thesis by (simp add: hex_lower_def)
qed

lemma hex_lower_Nil [simp]: "hex_lower [] = []"
  by (simp add: hex_lower_def)

lemma hex_lower_Cons:
  "hex_lower (b # bs) = hex_digit (unat b div 16) # hex_digit (unat b mod 16) # hex_lower bs"
  by (simp add: hex_lower_concat)

lemma hex_lower_inj: "hex_lower as = hex_lower bs \<Longrightarrow> as = bs"
proof (induction as arbitrary: bs)
  case Nil
  then show ?case by (cases bs) (simp_all add: hex_lower_Cons)
next
  case (Cons a as)
  then obtain b bs' where bs: "bs = b # bs'"
    by (cases bs) (simp_all add: hex_lower_Cons)
  have small: "unat x div 16 < 16" for x :: u8
  proof -
    have "unat x < 2 ^ LENGTH(8)" by (rule unsigned_less)
    then show ?thesis by simp
  qed
  from Cons.prems bs have "unat a div 16 = unat b div 16" "unat a mod 16 = unat b mod 16"
    using hex_digit_inj small by (simp_all add: hex_lower_Cons)
  then have "unat a = unat b" by (metis div_mult_mod_eq)
  then have "a = b" by (simp add: word_unat_eq_iff)
  with Cons bs show ?case by (simp add: hex_lower_Cons)
qed

lemma hex_lower_eq_Nil [simp]: "hex_lower bs = [] \<longleftrightarrow> bs = []"
  by (cases bs) (simp_all add: hex_lower_Cons)

section \<open>Identities\<close>

record identity =
  signing_key :: bytes

definition verifying_key :: "crypto \<Rightarrow> identity \<Rightarrow> verifying_key" where
  "verifying_key c i = vk_of c (signing_key i)"

definition fingerprint_of :: "crypto \<Rightarrow> identity \<Rightarrow> fingerprint" where
  "fingerprint_of c i = from_verifying_key c (verifying_key c i)"

definition sign :: "crypto \<Rightarrow> identity \<Rightarrow> bytes \<Rightarrow> bytes" where
  "sign c i msg = ed_sign c (signing_key i) msg"

definition verify :: "crypto \<Rightarrow> verifying_key \<Rightarrow> bytes \<Rightarrow> bytes \<Rightarrow> crypto_error + unit" where
  "verify c vk msg sig = guard BadSignature (verify_strict c vk msg sig)"

lemma verify_sign: "crypto_ok c \<Longrightarrow> verify c (verifying_key c i) m (sign c i m) = Inr ()"
  by (simp add: verify_def verifying_key_def sign_def crypto_okD)

lemma length_sign [simp]: "crypto_ok c \<Longrightarrow> length (sign c i m) = 64"
  by (simp add: sign_def crypto_okD)

lemma length_fingerprint_of [simp]: "crypto_ok c \<Longrightarrow> length (fingerprint_of c i) = 32"
  by (simp add: fingerprint_of_def)

lemma identity_eta [simp]: "\<lparr>signing_key = signing_key i\<rparr> = i"
  by (cases i) simp

section \<open>The identity file\<close>

record identity_file =
  version :: u32
  algorithm :: string
  created :: string
  fingerprint :: string
  private_key :: string

text \<open>The TOML package, as the save and load paths use it.\<close>

record toml =
  toml_print :: "identity_file \<Rightarrow> string option"
  toml_parse :: "string \<Rightarrow> identity_file option"

definition KEY_FILE_MODE :: nat where
  "KEY_FILE_MODE = 384"

definition CURRENT_VERSION :: u32 where
  "CURRENT_VERSION = 1"

definition SECRET_KEY_LENGTH :: nat where
  "SECRET_KEY_LENGTH = 32"

definition key_file_header :: string where
  "key_file_header =
     ''# Bowery identity key '' @ [CHR 0xE2, CHR 0x80, CHR 0x94] @ '' KEEP SECRET, mode 0600.'' @
     [CHR 0x0A] @ ''# Auto-generated; do not edit.'' @ [CHR 0x0A, CHR 0x0A]"

text \<open>The header is two TOML comments: what follows parses back.\<close>

definition toml_ok :: "toml \<Rightarrow> bool" where
  "toml_ok t \<longleftrightarrow>
     (\<forall>f s. toml_print t f = Some s \<longrightarrow> toml_parse t (key_file_header @ s) = Some f)"

definition identity_save ::
    "crypto \<Rightarrow> toml \<Rightarrow> fault \<Rightarrow> string \<Rightarrow> string option \<Rightarrow> fs \<Rightarrow> path \<Rightarrow> identity
     \<Rightarrow> (crypto_error + unit) \<times> fs" where
  "identity_save c t fault partial now fs p i =
     (if fs p \<noteq> None then (Inl (AlreadyExists p), fs)
      else if fault = FailMkdir \<and> butlast p \<noteq> [] then (Inl Io, fs)
      else case now of
        None \<Rightarrow> (Inl Malformed, fs)
      | Some ts \<Rightarrow>
          (let envelope = \<lparr>version = CURRENT_VERSION, algorithm = ''ed25519'', created = ts,
                 fingerprint = to_hex c (fingerprint_of c i),
                 private_key = b64_encode c (signing_key i)\<rparr>
           in case toml_print t envelope of
             None \<Rightarrow> (Inl Malformed, fs)
           | Some out \<Rightarrow>
               write_then_rename Io fault partial fs p (key_file_header @ out) KEY_FILE_MODE))"

definition identity_load ::
    "crypto \<Rightarrow> toml \<Rightarrow> fault \<Rightarrow> fs \<Rightarrow> path \<Rightarrow> crypto_error + identity" where
  "identity_load c t fault fs p =
     (case fs p of
        None \<Rightarrow> Inl Io
      | Some f \<Rightarrow>
          if mode f \<noteq> KEY_FILE_MODE then Inl (InsecurePermissions (mode f))
          else if fault = FailRead then Inl Io
          else case toml_parse t (body f) of
            None \<Rightarrow> Inl Malformed
          | Some e \<Rightarrow>
              if version e \<noteq> CURRENT_VERSION then Inl (UnsupportedVersion (version e))
              else if algorithm e \<noteq> ''ed25519'' then Inl Malformed
              else case b64_decode c (private_key e) of
                None \<Rightarrow> Inl Malformed
              | Some decoded \<Rightarrow>
                  if length decoded \<noteq> SECRET_KEY_LENGTH then Inl Malformed
                  else let i = \<lparr>signing_key = decoded\<rparr> in
                    if to_hex c (fingerprint_of c i) \<noteq> fingerprint e then Inl Malformed
                    else Inr i)"

definition load_or_generate ::
    "crypto \<Rightarrow> toml \<Rightarrow> fault \<Rightarrow> string \<Rightarrow> string option \<Rightarrow> bytes \<Rightarrow> fs \<Rightarrow> path
     \<Rightarrow> (crypto_error + (identity \<times> bool)) \<times> fs" where
  "load_or_generate c t fault partial now fresh fs p =
     (if fs p \<noteq> None
      then (and_then (identity_load c t fault fs p) (\<lambda>i. Inr (i, False)), fs)
      else let i = \<lparr>signing_key = fresh\<rparr> in
        case identity_save c t fault partial now fs p i of
          (Inl e, fs') \<Rightarrow> (Inl e, fs')
        | (Inr _, fs') \<Rightarrow> (Inr (i, True), fs'))"

lemmas identity_save_defs = identity_save_def Let_def

lemma identity_save_err:
  "identity_save c t fault partial now fs p i = (Inl e, fs') \<Longrightarrow> fs' p = fs p"
  by (auto simp: identity_save_defs split: if_splits option.splits dest: write_then_rename_err)

lemma identity_save_ok:
  assumes "identity_save c t fault partial now fs p i = (Inr (), fs')"
  shows "fs p = None \<and> (\<exists>ts out. toml_print t \<lparr>version = CURRENT_VERSION,
       algorithm = ''ed25519'', created = ts, fingerprint = to_hex c (fingerprint_of c i),
       private_key = b64_encode c (signing_key i)\<rparr> = Some out \<and>
     fs' p = Some \<lparr>mode = KEY_FILE_MODE, body = key_file_header @ out\<rparr>)"
  using assms
  by (auto simp: identity_save_defs split: if_splits option.splits dest: write_then_rename_ok)

lemma identity_load_saved:
  assumes "crypto_ok c" "toml_ok t" "length (signing_key i) = SECRET_KEY_LENGTH"
    and "identity_save c t fault partial now fs p i = (Inr (), fs')"
  shows "identity_load c t NoFault fs' p = Inr i"
proof -
  from identity_save_ok [OF assms(4)] obtain ts out where
    out: "toml_print t \<lparr>version = CURRENT_VERSION, algorithm = ''ed25519'', created = ts,
       fingerprint = to_hex c (fingerprint_of c i),
       private_key = b64_encode c (signing_key i)\<rparr> = Some out"
    and stored: "fs' p = Some \<lparr>mode = KEY_FILE_MODE, body = key_file_header @ out\<rparr>"
    by blast
  from assms(2) out have "toml_parse t (key_file_header @ out) = Some \<lparr>version = CURRENT_VERSION,
       algorithm = ''ed25519'', created = ts, fingerprint = to_hex c (fingerprint_of c i),
       private_key = b64_encode c (signing_key i)\<rparr>"
    unfolding toml_ok_def by blast
  then show ?thesis
    using assms(1,3) stored by (simp add: identity_load_def crypto_okD Let_def)
qed

section \<open>Properties\<close>

text \<open>
  A stand-in for the packages, for evaluating the definitions on concrete inputs. It meets
  \<open>crypto_ok\<close>: digests are padded prefixes, a signature is the key followed by the message's
  digest, and the text codecs write one character per byte.
\<close>

definition pad :: "nat \<Rightarrow> bytes \<Rightarrow> bytes" where
  "pad n bs = take n (bs @ replicate n 0)"

definition demo_crypto :: crypto where
  "demo_crypto = \<lparr>sha256 = pad 32, vk_of = pad 32,
     ed_sign = (\<lambda>sk m. pad 32 sk @ pad 32 (rev m)),
     verify_strict = (\<lambda>vk m s. s = vk @ pad 32 (rev m)),
     vk_from_bytes = to_array 32,
     hex_encode = map (\<lambda>b. char_of (unat b)), hex_decode = (\<lambda>s. Some (str_bytes s)),
     b64_encode = map (\<lambda>b. char_of (unat b)), b64_decode = (\<lambda>s. Some (str_bytes s))\<rparr>"

lemma length_pad [simp]: "length (pad n bs) = n"
  by (simp add: pad_def)

lemma str_bytes_of_bytes: "str_bytes (map (\<lambda>b. char_of (unat b)) bs) = bs"
proof -
  have "(of_char (char_of (unat b)) :: u8) = b" for b :: u8
  proof -
    have "unat b < 2 ^ LENGTH(8)" by (rule unsigned_less)
    then have "(of_char (char_of (unat b)) :: nat) = unat b" by simp
    then have "(word_of_nat (of_char (char_of (unat b))) :: u8) = word_of_nat (unat b)"
      by (simp only:)
    also have "\<dots> = b" by simp
    finally show ?thesis by (simp only: of_nat_of_char)
  qed
  then show ?thesis by (induction bs) (simp_all add: str_bytes_def)
qed

lemma demo_crypto_ok: "crypto_ok demo_crypto"
  by (simp add: crypto_ok_def demo_crypto_def str_bytes_of_bytes)

text \<open>
  A signer for a list of messages: a signature is the key followed by the place of the message in the
  list, so that those of the listed messages are good for nothing else and under no other key.
\<close>

definition place :: "bytes list \<Rightarrow> bytes \<Rightarrow> bytes" where
  "place ms m = pad 32 [word_of_nat (length (takeWhile (\<lambda>x. x \<noteq> m) ms))]"

definition ledger_crypto :: "bytes list \<Rightarrow> crypto" where
  "ledger_crypto ms = demo_crypto\<lparr>ed_sign := (\<lambda>sk m. pad 32 sk @ place ms m),
     verify_strict := (\<lambda>vk m s. s = vk @ place ms m)\<rparr>"

lemma ledger_crypto_ok: "crypto_ok (ledger_crypto ms)"
  by (simp add: crypto_ok_def ledger_crypto_def demo_crypto_def str_bytes_of_bytes place_def)

lemma ledger_simps [simp]:
  "sha256 (ledger_crypto ms) = sha256 demo_crypto" "vk_of (ledger_crypto ms) = vk_of demo_crypto"
  "hex_encode (ledger_crypto ms) = hex_encode demo_crypto" "hex_decode (ledger_crypto ms) = hex_decode demo_crypto"
  "b64_encode (ledger_crypto ms) = b64_encode demo_crypto" "b64_decode (ledger_crypto ms) = b64_decode demo_crypto"
  "fingerprint_of (ledger_crypto ms) i = fingerprint_of demo_crypto i"
  "verifying_key (ledger_crypto ms) i = verifying_key demo_crypto i"
  "from_verifying_key (ledger_crypto ms) vk = from_verifying_key demo_crypto vk"
  "to_hex (ledger_crypto ms) fp = to_hex demo_crypto fp" "from_hex (ledger_crypto ms) t = from_hex demo_crypto t"
  by (simp_all add: ledger_crypto_def fingerprint_of_def from_verifying_key_def verifying_key_def to_hex_def from_hex_def)

lemma place_listed:
  "m \<in> set ms \<Longrightarrow> length (takeWhile (\<lambda>x. x \<noteq> m) ms) < length ms \<and> ms ! length (takeWhile (\<lambda>x. x \<noteq> m) ms) = m"
  by (induction ms) auto

lemma place_inj:
  assumes "place ms m = place ms m'" "m \<in> set ms" "length ms < 256"
  shows "m' = m"
proof -
  let ?n = "\<lambda>m. length (takeWhile (\<lambda>x. x \<noteq> m) ms)"
  have le: "?n m'' \<le> length ms" for m'' by (simp add: length_takeWhile_le)
  have lt: "?n m < length ms" using place_listed [OF assms(2)] by simp
  have "(word_of_nat (?n m) :: u8) = word_of_nat (?n m')"
    using arg_cong [OF assms(1), of hd] by (simp add: place_def pad_def)
  then have "unat (word_of_nat (?n m) :: u8) = unat (word_of_nat (?n m') :: u8)" by (rule arg_cong)
  then have "?n m mod 256 = ?n m' mod 256" by (simp only: unat_of_nat) simp
  moreover have "?n m < 256" "?n m' < 256" using lt le [of m'] assms(3) by simp_all
  ultimately have "?n m = ?n m'" by simp
  with lt have "ms ! ?n m = m" "ms ! ?n m = m'" using place_listed [OF assms(2)]
      nth_length_takeWhile [of "\<lambda>x. x \<noteq> m'" ms] by simp_all
  then show ?thesis by simp
qed

lemma ledger_verify:
  "verify_strict (ledger_crypto ms) (verifying_key demo_crypto i) m (sign (ledger_crypto ms) i m)"
  using verify_sign [OF ledger_crypto_ok, of ms i m] by (simp add: verify_def)

lemma ledger_binds:
  assumes "verify_strict (ledger_crypto ms) vk m' (sign (ledger_crypto ms) i m)" "m \<in> set ms" "length ms < 256"
  shows "m' = m \<and> vk = verifying_key demo_crypto i"
proof -
  have eq: "pad 32 (signing_key i) @ place ms m = vk @ place ms m'"
    using assms(1) by (simp add: ledger_crypto_def sign_def)
  then have "length vk = 32" by (metis add_right_cancel length_append length_pad place_def)
  with eq have "place ms m = place ms m'" "vk = pad 32 (signing_key i)" by simp_all
  with place_inj [OF _ assms(2,3)] show ?thesis by (simp add: verifying_key_def demo_crypto_def)
qed

lemma ledger_unforged:
  assumes "length ms < 256" "seen \<subseteq> sign (ledger_crypto ms) i ` set ms"
  shows "unforged (ledger_crypto ms) vk (set ms) seen"
  unfolding unforged_def
proof (intro allI ballI impI)
  fix m sg assume "sg \<in> seen" "verify_strict (ledger_crypto ms) vk m sg"
  with assms(2) obtain m' where "m' \<in> set ms" "verify_strict (ledger_crypto ms) vk m (sign (ledger_crypto ms) i m')" by auto
  with ledger_binds [OF this(2,1) assms(1)] show "m \<in> set ms" by simp
qed

text \<open>A TOML package that writes the two fields that matter, one after the other.\<close>

definition demo_toml :: "identity_file \<Rightarrow> toml" where
  "demo_toml f = \<lparr>toml_print = (\<lambda>g. if g = f then Some ''k'' else None),
     toml_parse = (\<lambda>s. if s = key_file_header @ ''k'' then Some f else None)\<rparr>"

lemma demo_toml_ok: "toml_ok (demo_toml f)"
  by (simp add: toml_ok_def demo_toml_def)

text \<open>
  The identity file round-trips. If \<open>Identity::save\<close> reports success, for whatever file system
  it ran on, then \<open>Identity::load\<close> of the resulting file returns the same identity; the file has
  mode 0600.
\<close>

theorem identity_roundtrip:
  assumes "crypto_ok c" "toml_ok t" "length (signing_key i) = SECRET_KEY_LENGTH"
    and "identity_save c t fault partial now fs p i = (Inr (), fs')"
  shows "identity_load c t NoFault fs' p = Inr i \<and> map_option mode (fs' p) = Some KEY_FILE_MODE"
  using identity_load_saved [OF assms] identity_save_ok [OF assms(4)] by auto

definition demo_identity :: identity where
  "demo_identity = \<lparr>signing_key = replicate 32 7\<rparr>"

definition demo_key_file :: identity_file where
  "demo_key_file = \<lparr>version = CURRENT_VERSION, algorithm = ''ed25519'', created = ''now'',
     fingerprint = to_hex demo_crypto (fingerprint_of demo_crypto demo_identity),
     private_key = b64_encode demo_crypto (signing_key demo_identity)\<rparr>"

theorem identity_roundtrip_witness:
  "\<exists>fs'. identity_load demo_crypto (demo_toml demo_key_file) NoFault fs' [''key''] = Inr demo_identity \<and>
     map_option mode (fs' [''key'']) = Some KEY_FILE_MODE"
proof -
  let ?r = "identity_save demo_crypto (demo_toml demo_key_file) NoFault [] (Some ''now'')
    (\<lambda>_. None) [''key''] demo_identity"
  have "fst ?r = Inr ()"
    by (simp add: identity_save_defs demo_toml_def demo_key_file_def write_then_rename_no_fault)
  then have saved: "?r = (Inr (), snd ?r)" by (simp add: prod_eq_iff)
  have len: "length (signing_key demo_identity) = SECRET_KEY_LENGTH"
    by (simp add: demo_identity_def SECRET_KEY_LENGTH_def)
  from identity_roundtrip [OF demo_crypto_ok demo_toml_ok len saved] show ?thesis
    by (rule exI [where x = "snd ?r"])
qed

text \<open>
  Saving an identity is atomic and never overwrites. If \<open>Identity::save\<close> fails, at whatever
  call, the key file is exactly what it was before, and an existing key file makes it fail.
\<close>

theorem identity_save_atomic:
  "(case identity_save c t fault partial now fs p i of
      (Inl _, fs') \<Rightarrow> fs' p = fs p
    | (Inr _, fs') \<Rightarrow> fs p = None \<and> fs' p \<noteq> None)
   \<and> (fs p \<noteq> None \<longrightarrow> identity_save c t fault partial now fs p i = (Inl (AlreadyExists p), fs))"
proof (intro conjI impI)
  obtain r fs' where eq: "identity_save c t fault partial now fs p i = (r, fs')"
    by (cases "identity_save c t fault partial now fs p i")
  show "case identity_save c t fault partial now fs p i of
      (Inl _, fs') \<Rightarrow> fs' p = fs p | (Inr _, fs') \<Rightarrow> fs p = None \<and> fs' p \<noteq> None"
  proof (cases r)
    case (Inl e)
    with eq identity_save_err [of c t fault partial now fs p i e fs'] show ?thesis by simp
  next
    case (Inr u)
    with eq identity_save_ok [of c t fault partial now fs p i fs'] show ?thesis by auto
  qed
qed (simp add: identity_save_def)

theorem identity_save_atomic_witness:
  "identity_save demo_crypto (demo_toml demo_key_file) NoFault [] (Some ''now'')
     [[''key''] \<mapsto> \<lparr>mode = 384, body = ''old''\<rparr>] [''key''] demo_identity
   = (Inl (AlreadyExists [''key'']), [[''key''] \<mapsto> \<lparr>mode = 384, body = ''old''\<rparr>])"
  using identity_save_atomic
    [where fs = "[[''key''] \<mapsto> \<lparr>mode = 384, body = ''old''\<rparr>]" and p = "[''key'']"]
  by simp

text \<open>
  A leftover temporary file blocks key generation for good: \<open>write_with_mode\<close> opens it with
  \<open>create_new\<close>, and nothing in \<open>Identity::save\<close> removes it. So once a run has died between writing
  the temporary file and renaming it, every later \<open>load_or_generate\<close> fails and changes nothing.
\<close>

theorem stale_temporary_blocks_generation:
  assumes "fs p = None" "fs (tmp_path_for p) \<noteq> None"
  shows "\<exists>e. load_or_generate c t fault partial now fresh fs p = (Inl e, fs)"
  using assms
  by (auto simp: load_or_generate_def identity_save_defs write_then_rename_stale
      split: option.splits)

theorem stale_temporary_blocks_generation_witness:
  "\<exists>e. load_or_generate demo_crypto (demo_toml demo_key_file) NoFault [] (Some ''now'')
     (replicate 32 7) [[''key.tmp''] \<mapsto> \<lparr>mode = 384, body = []\<rparr>] [''key'']
   = (Inl e, [[''key.tmp''] \<mapsto> \<lparr>mode = 384, body = []\<rparr>])"
  by (rule stale_temporary_blocks_generation) (simp_all add: tmp_path_for_def)

end
