(* ===== verification/Proto.thy ===== *)
theory Proto
  imports Crypto "HOL-Library.Sublist"
begin

text \<open>
  The signed records of \<open>crates/bowery-proto/src/lib.rs\<close> and the bytes each signature covers. The
  layout is what makes a signature mean one thing: the locale \<open>signed_record\<close> states that two
  records with the same signed bytes agree on every signed field and that the bytes start with the
  record's own domain. Every record interprets it, and no two domains overlap.
\<close>

section \<open>Domains\<close>

definition CANONICAL_SIG_DOMAIN :: bytes where
  "CANONICAL_SIG_DOMAIN = str_bytes ''bowery/whisper/envelope/v2''"

definition OPERATOR_AUTHORIZATION_DOMAIN :: bytes where
  "OPERATOR_AUTHORIZATION_DOMAIN = str_bytes ''bowery/operator-authorization/v1''"

definition MEMBERSHIP_GRANT_DOMAIN :: bytes where
  "MEMBERSHIP_GRANT_DOMAIN = str_bytes ''bowery/mesh/membership-grant/v1''"

definition REVOCATION_DOMAIN :: bytes where
  "REVOCATION_DOMAIN = str_bytes ''bowery/mesh/revocation/v1''"

definition LOG_REPORT_DOMAIN :: bytes where
  "LOG_REPORT_DOMAIN = str_bytes ''bowery/mesh/log-report/v1''"

definition ALERT_SILENCE_DOMAIN :: bytes where
  "ALERT_SILENCE_DOMAIN = str_bytes ''bowery/mesh/alert-silence/v1''"

definition AUDIT_SIG_DOMAIN :: bytes where
  "AUDIT_SIG_DOMAIN = str_bytes ''bowery/audit/envelope/v1''"

lemmas domain_defs = CANONICAL_SIG_DOMAIN_def OPERATOR_AUTHORIZATION_DOMAIN_def
  MEMBERSHIP_GRANT_DOMAIN_def REVOCATION_DOMAIN_def LOG_REPORT_DOMAIN_def ALERT_SILENCE_DOMAIN_def
  AUDIT_SIG_DOMAIN_def

definition signing_domains :: "bytes list" where
  "signing_domains = [CANONICAL_SIG_DOMAIN, OPERATOR_AUTHORIZATION_DOMAIN, MEMBERSHIP_GRANT_DOMAIN,
     REVOCATION_DOMAIN, LOG_REPORT_DOMAIN, ALERT_SILENCE_DOMAIN, AUDIT_SIG_DOMAIN]"

section \<open>Records\<close>

record membership_grant =
  mg_agent_fp :: bytes
  mg_cluster_id :: string
  mg_issued_unix_ms :: u64
  mg_expires_unix_ms :: u64
  mg_operator_fp :: bytes
  mg_sig :: bytes

record revocation =
  rv_agent_fp :: bytes
  rv_cluster_id :: string
  rv_issued_unix_ms :: u64
  rv_reason :: string
  rv_operator_fp :: bytes
  rv_sig :: bytes

record log_report =
  lr_host_fp :: bytes
  lr_highest_seq :: u64
  lr_reported_unix_ms :: u64
  lr_signature :: bytes

record alert_silence =
  as_id :: string
  as_cluster_id :: string
  as_rule_id :: string
  as_exe_sha256_hex :: string
  as_exe_path :: string
  as_host_fp :: bytes
  as_weight_permille :: u32
  as_reason :: string
  as_issued_unix_ms :: u64
  as_expires_unix_ms :: u64
  as_operator_fp :: bytes
  as_sig :: bytes

record operator_authorization =
  oa_operator_fp :: bytes
  oa_ts_unix_ms :: u64
  oa_request_id :: string
  oa_command_digest :: bytes
  oa_signature :: bytes

section \<open>Signing inputs\<close>

definition oa_signing_input :: "bytes \<Rightarrow> u64 \<Rightarrow> string \<Rightarrow> bytes \<Rightarrow> bytes" where
  "oa_signing_input operator_fp ts request_id command_digest =
     OPERATOR_AUTHORIZATION_DOMAIN @ operator_fp @ be64 ts @
     be32 (u32_or_max (length request_id)) @ str_bytes request_id @ command_digest"

definition lr_signing_input_for :: "bytes \<Rightarrow> u64 \<Rightarrow> u64 \<Rightarrow> bytes" where
  "lr_signing_input_for host_fp highest_seq reported =
     LOG_REPORT_DOMAIN @ host_fp @ be64 highest_seq @ be64 reported"

definition lr_signing_input :: "log_report \<Rightarrow> bytes option" where
  "lr_signing_input r =
     Option.bind (to_array 32 (lr_host_fp r)) (\<lambda>fp.
     Some (lr_signing_input_for fp (lr_highest_seq r) (lr_reported_unix_ms r)))"

definition mg_signing_input :: "bytes \<Rightarrow> string \<Rightarrow> u64 \<Rightarrow> u64 \<Rightarrow> bytes \<Rightarrow> bytes" where
  "mg_signing_input agent_fp cluster_id issued expires operator_fp =
     MEMBERSHIP_GRANT_DOMAIN @ agent_fp @ be32 (u32_or_max (length cluster_id)) @
     str_bytes cluster_id @ be64 issued @ be64 expires @ operator_fp"

definition mg_to_signing_input :: "membership_grant \<Rightarrow> bytes option" where
  "mg_to_signing_input g =
     Option.bind (to_array 32 (mg_agent_fp g)) (\<lambda>agent.
     Option.bind (to_array 32 (mg_operator_fp g)) (\<lambda>operator.
     Some (mg_signing_input agent (mg_cluster_id g) (mg_issued_unix_ms g) (mg_expires_unix_ms g)
       operator)))"

definition as_FULL_WEIGHT :: u32 where
  "as_FULL_WEIGHT = 1000"

definition as_to_signing_input :: "alert_silence \<Rightarrow> bytes option" where
  "as_to_signing_input s =
     Option.bind (to_array 32 (as_operator_fp s)) (\<lambda>operator.
     Some (ALERT_SILENCE_DOMAIN @
       concat (map (\<lambda>field. be32 (u32_or_max (length field)) @ field)
         [str_bytes (as_id s), str_bytes (as_cluster_id s), str_bytes (as_rule_id s),
          str_bytes (as_exe_sha256_hex s), str_bytes (as_exe_path s), as_host_fp s,
          str_bytes (as_reason s)]) @
       be32 (as_weight_permille s) @ be64 (as_issued_unix_ms s) @ be64 (as_expires_unix_ms s) @
       operator))"

definition rv_signing_input :: "bytes \<Rightarrow> string \<Rightarrow> u64 \<Rightarrow> string \<Rightarrow> bytes \<Rightarrow> bytes" where
  "rv_signing_input agent_fp cluster_id issued reason operator_fp =
     REVOCATION_DOMAIN @ agent_fp @ be32 (u32_or_max (length cluster_id)) @ str_bytes cluster_id @
     be64 issued @ be32 (u32_or_max (length reason)) @ str_bytes reason @ operator_fp"

definition rv_to_signing_input :: "revocation \<Rightarrow> bytes option" where
  "rv_to_signing_input r =
     Option.bind (to_array 32 (rv_agent_fp r)) (\<lambda>agent.
     Option.bind (to_array 32 (rv_operator_fp r)) (\<lambda>operator.
     Some (rv_signing_input agent (rv_cluster_id r) (rv_issued_unix_ms r) (rv_reason r) operator)))"

section \<open>What a signature binds\<close>

text \<open>
  \<open>input\<close> is the record's signing input, \<open>signed\<close> the fields a signature is meant to cover and
  \<open>small\<close> bounds the variable-length fields by \<open>u32::MAX\<close>, beyond which the length prefix saturates.
\<close>

locale signed_record =
  fixes input :: "'r \<Rightarrow> bytes option"
    and signed :: "'r \<Rightarrow> 's"
    and small :: "'r \<Rightarrow> bool"
    and dom :: bytes
  assumes binds: "input r = Some b \<Longrightarrow> input r' = Some b \<Longrightarrow> small r \<Longrightarrow> small r' \<Longrightarrow>
      signed r = signed r'"
    and starts_with_domain: "input r = Some b \<Longrightarrow> \<exists>rest. b = dom @ rest"
    and domain_listed: "dom \<in> set signing_domains"
begin

text \<open>A record altered in a signed field does not keep its signing input.\<close>

lemma tamper_changes_input:
  "small r \<Longrightarrow> small r' \<Longrightarrow> signed r \<noteq> signed r' \<Longrightarrow> input r = Some b \<Longrightarrow> input r' \<noteq> Some b"
  using binds by blast

end

lemma len_prefixed_str:
  "be32 (u32_or_max (length s)) @ str_bytes s @ rest = len_prefixed (str_bytes s) @ rest"
  by (simp add: len_prefixed_def)

lemma len_prefixed_str_inj:
  "len_prefixed (str_bytes s) @ xs = len_prefixed (str_bytes t) @ ys \<Longrightarrow>
   length s < 2 ^ 32 \<Longrightarrow> length t < 2 ^ 32 \<Longrightarrow> s = t \<and> xs = ys"
  using len_prefixed_append_inj [of "str_bytes s" xs "str_bytes t" ys] by simp

definition mg_signed :: "membership_grant \<Rightarrow> bytes \<times> string \<times> u64 \<times> u64 \<times> bytes" where
  "mg_signed g = (mg_agent_fp g, mg_cluster_id g, mg_issued_unix_ms g, mg_expires_unix_ms g,
     mg_operator_fp g)"

definition rv_signed :: "revocation \<Rightarrow> bytes \<times> string \<times> u64 \<times> string \<times> bytes" where
  "rv_signed r = (rv_agent_fp r, rv_cluster_id r, rv_issued_unix_ms r, rv_reason r,
     rv_operator_fp r)"

definition lr_signed :: "log_report \<Rightarrow> bytes \<times> u64 \<times> u64" where
  "lr_signed r = (lr_host_fp r, lr_highest_seq r, lr_reported_unix_ms r)"

text \<open>Everything of a silence but its signature.\<close>

definition as_signed :: "alert_silence \<Rightarrow> alert_silence" where
  "as_signed s = s\<lparr>as_sig := []\<rparr>"

lemma mg_signing_input_inj:
  assumes "mg_signing_input a c i e p = mg_signing_input a' c' i' e' p'"
    and "length a = 32" "length a' = 32" "length c < 2 ^ 32" "length c' < 2 ^ 32"
  shows "a = a' \<and> c = c' \<and> i = i' \<and> e = e' \<and> p = p'"
proof -
  have "a = a'" and rest: "len_prefixed (str_bytes c) @ be64 i @ be64 e @ p
      = len_prefixed (str_bytes c') @ be64 i' @ be64 e' @ p'"
    using assms(1-3) by (simp_all add: mg_signing_input_def len_prefixed_str)
  with len_prefixed_str_inj [OF rest assms(4,5)] show ?thesis by simp
qed

lemma rv_signing_input_inj:
  assumes "rv_signing_input a c i r p = rv_signing_input a' c' i' r' p'"
    and "length a = 32" "length a' = 32" "length c < 2 ^ 32" "length c' < 2 ^ 32"
      "length r < 2 ^ 32" "length r' < 2 ^ 32"
  shows "a = a' \<and> c = c' \<and> i = i' \<and> r = r' \<and> p = p'"
proof -
  have a: "a = a'" and rest: "len_prefixed (str_bytes c) @ be64 i @ len_prefixed (str_bytes r) @ p
      = len_prefixed (str_bytes c') @ be64 i' @ len_prefixed (str_bytes r') @ p'"
    using assms(1-3) by (simp_all add: rv_signing_input_def len_prefixed_str)
  from len_prefixed_str_inj [OF rest assms(4,5)]
  have ci: "c = c'" "i = i'"
    and rest': "len_prefixed (str_bytes r) @ p = len_prefixed (str_bytes r') @ p'"
    by simp_all
  from len_prefixed_str_inj [OF rest' assms(6,7)] a ci show ?thesis by simp
qed

lemma oa_signing_input_inj:
  assumes "oa_signing_input f t r d = oa_signing_input f' t' r' d'"
    and "length f = 32" "length f' = 32" "length r < 2 ^ 32" "length r' < 2 ^ 32"
  shows "f = f' \<and> t = t' \<and> r = r' \<and> d = d'"
proof -
  have "f = f'" "t = t'" and rest: "len_prefixed (str_bytes r) @ d = len_prefixed (str_bytes r') @ d'"
    using assms(1-3) by (simp_all add: oa_signing_input_def len_prefixed_str)
  with len_prefixed_str_inj [OF rest assms(4,5)] show ?thesis by simp
qed

definition as_small :: "alert_silence \<Rightarrow> bool" where
  "as_small s \<longleftrightarrow> (\<forall>f \<in> {as_id s, as_cluster_id s, as_rule_id s, as_exe_sha256_hex s, as_exe_path s,
     as_reason s}. length f < 2 ^ 32) \<and> length (as_host_fp s) < 2 ^ 32"

abbreviation as_fields :: "alert_silence \<Rightarrow> bytes list" where
  "as_fields s \<equiv> [str_bytes (as_id s), str_bytes (as_cluster_id s), str_bytes (as_rule_id s),
     str_bytes (as_exe_sha256_hex s), str_bytes (as_exe_path s), as_host_fp s,
     str_bytes (as_reason s)]"

lemma as_small_fields: "as_small s \<Longrightarrow> \<forall>f \<in> set (as_fields s). length f < 2 ^ 32"
  unfolding as_small_def by (simp only: list.set ball_simps length_str_bytes)

lemma as_signing_input_inj:
  assumes "as_to_signing_input s = Some b" "as_to_signing_input s' = Some b"
    and "as_small s" "as_small s'"
  shows "as_signed s = as_signed s'"
proof -
  let ?tail = "\<lambda>s. be32 (as_weight_permille s) @ be64 (as_issued_unix_ms s) @
    be64 (as_expires_unix_ms s) @ as_operator_fp s"
  have eq: "concat (map len_prefixed (as_fields s)) @ ?tail s
      = concat (map len_prefixed (as_fields s')) @ ?tail s'"
    using assms(1,2)
    by (auto simp: as_to_signing_input_def len_prefixed_def bind_eq_Some_conv)
  have "as_fields s = as_fields s' \<and> ?tail s = ?tail s'"
    by (rule concat_len_prefixed_inj [OF eq _ as_small_fields as_small_fields])
      (simp_all add: assms(3,4))
  then show ?thesis by (simp add: as_signed_def)
qed

interpretation mg: signed_record mg_to_signing_input mg_signed
  "\<lambda>g. length (mg_cluster_id g) < 2 ^ 32" MEMBERSHIP_GRANT_DOMAIN
proof unfold_locales
  fix r r' b
  assume "mg_to_signing_input r = Some b" "mg_to_signing_input r' = Some b"
    "length (mg_cluster_id r) < 2 ^ 32" "length (mg_cluster_id r') < 2 ^ 32"
  then show "mg_signed r = mg_signed r'"
    unfolding mg_signed_def mg_to_signing_input_def bind_eq_Some_conv to_array_eq_Some
    by (metis mg_signing_input_inj option.inject)
next
  fix r b assume "mg_to_signing_input r = Some b"
  then show "\<exists>rest. b = MEMBERSHIP_GRANT_DOMAIN @ rest"
    by (auto simp: mg_to_signing_input_def mg_signing_input_def bind_eq_Some_conv)
qed (simp add: signing_domains_def)

interpretation rv: signed_record rv_to_signing_input rv_signed
  "\<lambda>r. length (rv_cluster_id r) < 2 ^ 32 \<and> length (rv_reason r) < 2 ^ 32" REVOCATION_DOMAIN
proof unfold_locales
  fix r r' b
  assume "rv_to_signing_input r = Some b" "rv_to_signing_input r' = Some b"
    "length (rv_cluster_id r) < 2 ^ 32 \<and> length (rv_reason r) < 2 ^ 32"
    "length (rv_cluster_id r') < 2 ^ 32 \<and> length (rv_reason r') < 2 ^ 32"
  then show "rv_signed r = rv_signed r'"
    unfolding rv_signed_def rv_to_signing_input_def bind_eq_Some_conv to_array_eq_Some
    by (metis rv_signing_input_inj option.inject)
next
  fix r b assume "rv_to_signing_input r = Some b"
  then show "\<exists>rest. b = REVOCATION_DOMAIN @ rest"
    by (auto simp: rv_to_signing_input_def rv_signing_input_def bind_eq_Some_conv)
qed (simp add: signing_domains_def)

interpretation lr: signed_record lr_signing_input lr_signed "\<lambda>_. True" LOG_REPORT_DOMAIN
  by unfold_locales
    (auto simp: lr_signing_input_def lr_signing_input_for_def lr_signed_def bind_eq_Some_conv
      signing_domains_def)

interpretation sil: signed_record as_to_signing_input as_signed as_small ALERT_SILENCE_DOMAIN
proof unfold_locales
  fix r b assume "as_to_signing_input r = Some b"
  then show "\<exists>rest. b = ALERT_SILENCE_DOMAIN @ rest"
    by (auto simp: as_to_signing_input_def bind_eq_Some_conv)
qed (auto simp: signing_domains_def intro: as_signing_input_inj)

section \<open>Properties\<close>

text \<open>
  A signature over a silence covers everything the record says: two silences with the same
  signing input agree on every field but the signature itself, so a relay that rewrites any field,
  or moves bytes across a field boundary, invalidates the operator's signature.
\<close>

theorem silence_signature_binds_all_fields:
  assumes "as_to_signing_input s = Some b" "as_to_signing_input s' = Some b"
    and "as_small s" "as_small s'"
  shows "s' = s\<lparr>as_sig := as_sig s'\<rparr>"
proof -
  have "as_signed s = as_signed s'" using assms by (rule sil.binds)
  then show ?thesis
    by (cases s, cases s') (simp add: as_signed_def)
qed

definition demo_silence :: alert_silence where
  "demo_silence = \<lparr>as_id = ''sil-1'', as_cluster_id = ''prod'', as_rule_id = ''r'',
     as_exe_sha256_hex = ''ab'', as_exe_path = ''/bin/x'', as_host_fp = [], as_weight_permille = 0,
     as_reason = ''benign'', as_issued_unix_ms = 5, as_expires_unix_ms = 100,
     as_operator_fp = replicate 32 9, as_sig = []\<rparr>"

lemma demo_silence_small: "as_small (demo_silence\<lparr>as_sig := x\<rparr>)"
  by (simp add: as_small_def demo_silence_def)

lemma demo_silence_input:
  "\<exists>b. as_to_signing_input (demo_silence\<lparr>as_sig := x\<rparr>) = Some b \<and>
       as_to_signing_input (demo_silence\<lparr>as_sig := y\<rparr>) = Some b"
  by (simp add: as_to_signing_input_def demo_silence_def to_array_def)

theorem silence_signature_binds_all_fields_witness:
  "demo_silence\<lparr>as_sig := [2]\<rparr> = (demo_silence\<lparr>as_sig := [1]\<rparr>)\<lparr>as_sig := [2]\<rparr>"
proof -
  obtain b where "as_to_signing_input (demo_silence\<lparr>as_sig := [1]\<rparr>) = Some b"
    "as_to_signing_input (demo_silence\<lparr>as_sig := [2]\<rparr>) = Some b"
    using demo_silence_input [of "[1]" "[2]"] by blast
  from silence_signature_binds_all_fields [OF this demo_silence_small demo_silence_small]
  show ?thesis by simp
qed

lemma domain_names: "signing_domains = map str_bytes
  [''bowery/whisper/envelope/v2'', ''bowery/operator-authorization/v1'',
   ''bowery/mesh/membership-grant/v1'', ''bowery/mesh/revocation/v1'', ''bowery/mesh/log-report/v1'',
   ''bowery/mesh/alert-silence/v1'', ''bowery/audit/envelope/v1'']"
  by (simp add: signing_domains_def domain_defs)

lemma names_prefix_free:
  "\<forall>s \<in> set [''bowery/whisper/envelope/v2'', ''bowery/operator-authorization/v1'',
   ''bowery/mesh/membership-grant/v1'', ''bowery/mesh/revocation/v1'', ''bowery/mesh/log-report/v1'',
   ''bowery/mesh/alert-silence/v1'', ''bowery/audit/envelope/v1''].
   \<forall>t \<in> set [''bowery/whisper/envelope/v2'', ''bowery/operator-authorization/v1'',
   ''bowery/mesh/membership-grant/v1'', ''bowery/mesh/revocation/v1'', ''bowery/mesh/log-report/v1'',
   ''bowery/mesh/alert-silence/v1'', ''bowery/audit/envelope/v1'']. prefix s t \<longrightarrow> s = t"
  by code_simp

lemma prefix_str_bytes: "prefix (str_bytes s) (str_bytes t) \<longleftrightarrow> prefix s t"
proof
  assume "prefix (str_bytes s) (str_bytes t)"
  then obtain r where "str_bytes t = str_bytes s @ r" by (auto elim: prefixE)
  then have "take (length (str_bytes s)) (str_bytes t) = str_bytes s" by simp
  then have "str_bytes (take (length s) t) = str_bytes s"
    by (simp only: length_str_bytes) (simp add: str_bytes_def take_map)
  then have "take (length s) t = s" by simp
  then show "prefix s t" by (metis take_is_prefix)
qed (auto simp: str_bytes_def elim!: prefixE)

lemma domain_prefix_free: "d \<in> set signing_domains \<Longrightarrow> e \<in> set signing_domains \<Longrightarrow> prefix d e \<Longrightarrow> d = e"
  unfolding domain_names set_map image_iff using names_prefix_free prefix_str_bytes by metis

text \<open>
  Signing domains never overlap: no byte string starts with two different ones of the seven
  domain prefixes, so a signature made for one kind of record is not a signature of another kind.
\<close>

theorem domains_do_not_overlap:
  assumes "d \<in> set signing_domains" "e \<in> set signing_domains" "d @ xs = e @ ys"
  shows "d = e"
proof -
  have "prefix d (e @ ys)" "prefix e (e @ ys)"
    using assms(3) by (metis prefixI)+
  then have "prefix d e \<or> prefix e d" by (rule prefix_same_cases)
  with assms(1,2) show ?thesis using domain_prefix_free by blast
qed

theorem domains_do_not_overlap_witness:
  "REVOCATION_DOMAIN = REVOCATION_DOMAIN \<and> REVOCATION_DOMAIN \<in> set signing_domains"
  using domains_do_not_overlap [of REVOCATION_DOMAIN REVOCATION_DOMAIN "[]" "[]"]
  by (simp add: signing_domains_def)

end
