(* ===== verification/Envelope.thy ===== *)
theory Envelope
  imports Replay Proto
begin

text \<open>
  Sealing and opening of whisper envelopes, \<open>crates/bowery-whisper/src/envelope.rs\<close>: the resolver
  trait and its implementations, the sealer with its nonce counter, and \<open>Verifier::open\<close> with every
  check in the code's order. The protobuf codec is a package; it is the record \<open>codec\<close>, over an
  arbitrary payload type.
\<close>

section \<open>Wire format and errors\<close>

record whisper_envelope =
  we_sender_fingerprint :: bytes
  we_nonce :: u64
  we_ts_unix_ms :: u64
  we_payload :: bytes
  we_signature :: bytes

record 'p codec =
  env_encode :: "whisper_envelope \<Rightarrow> bytes"
  env_decode :: "bytes \<Rightarrow> whisper_envelope option"
  pl_encode :: "'p \<Rightarrow> bytes"
  pl_decode :: "bytes \<Rightarrow> 'p option"

definition codec_ok :: "'p codec \<Rightarrow> bool" where
  "codec_ok k \<longleftrightarrow> (\<forall>e. env_decode k (env_encode k e) = Some e) \<and>
     (\<forall>p. pl_decode k (pl_encode k p) = Some p)"

definition FINGERPRINT_LEN :: nat where "FINGERPRINT_LEN = 32"
definition SIGNATURE_LEN :: nat where "SIGNATURE_LEN = 64"

definition DEFAULT_SKEW :: nat where
  "DEFAULT_SKEW = 5 * 60 * 1000"

datatype env_error =
    Decode
  | BadFingerprintLen nat
  | BadSignatureLen nat
  | UnknownSender
  | EnvBadSignature
  | ClockSkew u64 u64
  | LocalClockBeforeEpoch
  | PayloadDecode
  | ReplayRejected replay

section \<open>Resolvers\<close>

text \<open>
  A resolver turns a fingerprint into the pinned key. Its contract: the key it returns is the key
  that fingerprint names.
\<close>

locale fingerprint_resolver =
  fixes c :: crypto
    and wf :: "'s \<Rightarrow> bool"
    and resolve :: "'s \<Rightarrow> fingerprint \<Rightarrow> verifying_key option"
  assumes resolve_owner: "wf s \<Longrightarrow> resolve s fp = Some vk \<Longrightarrow> from_verifying_key c vk = fp"
begin

text \<open>Two fingerprints never resolve to one key.\<close>

lemma resolve_inj:
  "wf s \<Longrightarrow> wf s' \<Longrightarrow> resolve s fp = Some vk \<Longrightarrow> resolve s' fp' = Some vk \<Longrightarrow> fp = fp'"
  using resolve_owner by blast

end

record static_resolver =
  keys :: "fingerprint \<Rightarrow> verifying_key option"

definition static_new :: static_resolver where
  "static_new = \<lparr>keys = (\<lambda>_. None)\<rparr>"

definition static_insert ::
    "crypto \<Rightarrow> static_resolver \<Rightarrow> verifying_key \<Rightarrow> fingerprint \<times> static_resolver" where
  "static_insert c r vk =
     (let fp = from_verifying_key c vk in (fp, r\<lparr>keys := (keys r)(fp \<mapsto> vk)\<rparr>))"

definition static_resolve :: "static_resolver \<Rightarrow> fingerprint \<Rightarrow> verifying_key option" where
  "static_resolve r fp = keys r fp"

definition static_wf :: "crypto \<Rightarrow> static_resolver \<Rightarrow> bool" where
  "static_wf c r \<longleftrightarrow> (\<forall>fp vk. keys r fp = Some vk \<longrightarrow> from_verifying_key c vk = fp)"

lemma static_wf_new: "static_wf c static_new"
  by (simp add: static_wf_def static_new_def)

lemma static_wf_insert: "static_wf c r \<Longrightarrow> static_wf c (snd (static_insert c r vk))"
  by (simp add: static_wf_def static_insert_def Let_def)

interpretation static: fingerprint_resolver c "static_wf c" static_resolve for c
  by unfold_locales (simp add: static_wf_def static_resolve_def)

text \<open>\<open>CompositeResolver\<close>: the primary store first, then the secondary.\<close>

definition composite_resolve ::
    "('a \<Rightarrow> fingerprint \<Rightarrow> verifying_key option) \<Rightarrow> ('b \<Rightarrow> fingerprint \<Rightarrow> verifying_key option)
     \<Rightarrow> 'a \<times> 'b \<Rightarrow> fingerprint \<Rightarrow> verifying_key option" where
  "composite_resolve ra rb s fp =
     (case ra (fst s) fp of Some vk \<Rightarrow> Some vk | None \<Rightarrow> rb (snd s) fp)"

locale two_resolvers =
  primary: fingerprint_resolver c wfa ra + secondary: fingerprint_resolver c wfb rb
  for c and wfa :: "'a \<Rightarrow> bool" and ra and wfb :: "'b \<Rightarrow> bool" and rb

sublocale two_resolvers \<subseteq> composite: fingerprint_resolver c
  "\<lambda>s. wfa (fst s) \<and> wfb (snd s)" "composite_resolve ra rb"
  by unfold_locales
    (auto simp: composite_resolve_def split: option.splits
      intro: primary.resolve_owner secondary.resolve_owner)

section \<open>Signing input\<close>

definition signing_input :: "bytes \<Rightarrow> bytes \<Rightarrow> u64 \<Rightarrow> u64 \<Rightarrow> bytes \<Rightarrow> bytes" where
  "signing_input recipient_fp sender_fp nonce ts payload =
     CANONICAL_SIG_DOMAIN @ recipient_fp @ sender_fp @ be64 nonce @ be64 ts @ payload"

lemma signing_input_inj:
  assumes "signing_input r s n t p = signing_input r' s' n' t' p'"
    and "length r = length r'" "length s = length s'"
  shows "r = r' \<and> s = s' \<and> n = n' \<and> t = t' \<and> p = p'"
  using assms by (simp add: signing_input_def)

section \<open>Sealer\<close>

record sealer =
  s_identity :: identity
  s_next_nonce :: u64

definition sealer_new :: "u64 option \<Rightarrow> identity \<Rightarrow> sealer" where
  "sealer_new now i = \<lparr>s_identity = i, s_next_nonce = (case now of None \<Rightarrow> 1 | Some ms \<Rightarrow> ms)\<rparr>"

definition seal_for ::
    "crypto \<Rightarrow> 'p codec \<Rightarrow> u64 option \<Rightarrow> sealer \<Rightarrow> fingerprint \<Rightarrow> 'p \<Rightarrow> bytes \<times> sealer" where
  "seal_for c k now s recipient_fp payload =
     (let nonce = s_next_nonce s;
          ts = (case now of None \<Rightarrow> 0 | Some ms \<Rightarrow> ms);
          payload_bytes = pl_encode k payload;
          fp = fingerprint_of c (s_identity s);
          sig = sign c (s_identity s) (signing_input recipient_fp fp nonce ts payload_bytes)
      in (env_encode k \<lparr>we_sender_fingerprint = fp, we_nonce = nonce, we_ts_unix_ms = ts,
            we_payload = payload_bytes, we_signature = sig\<rparr>,
          s\<lparr>s_next_nonce := nonce + 1\<rparr>))"

section \<open>Verifier\<close>

record 'p verified_envelope =
  ve_sender :: fingerprint
  ve_nonce :: u64
  ve_ts_unix_ms :: u64
  ve_payload :: 'p

record 's verifier =
  v_resolver :: 's
  v_self_fp :: fingerprint
  v_skew_ms :: nat
  v_replay :: "fingerprint replay_guard"

definition verifier_with_skew :: "'s \<Rightarrow> fingerprint \<Rightarrow> nat \<Rightarrow> 's verifier" where
  "verifier_with_skew r fp skew =
     \<lparr>v_resolver = r, v_self_fp = fp, v_skew_ms = skew, v_replay = replay_guard_new\<rparr>"

definition verifier_new :: "'s \<Rightarrow> fingerprint \<Rightarrow> 's verifier" where
  "verifier_new r fp = verifier_with_skew r fp DEFAULT_SKEW"

text \<open>Every check of \<open>open\<close> before the replay guard, in order.\<close>

definition open_checked ::
    "crypto \<Rightarrow> 'p codec \<Rightarrow> ('s \<Rightarrow> fingerprint \<Rightarrow> verifying_key option) \<Rightarrow> u64 option
     \<Rightarrow> 's verifier \<Rightarrow> bytes \<Rightarrow> env_error + whisper_envelope" where
  "open_checked c k resolve now v raw =
     and_then (ok_or Decode (env_decode k raw)) (\<lambda>env.
     let sender = we_sender_fingerprint env in
     and_then (guard (BadFingerprintLen (length sender)) (length sender = FINGERPRINT_LEN)) (\<lambda>_.
     and_then (guard (BadSignatureLen (length (we_signature env)))
       (length (we_signature env) = SIGNATURE_LEN)) (\<lambda>_.
     and_then (ok_or UnknownSender (resolve (v_resolver v) sender)) (\<lambda>vk.
     let canonical = signing_input (v_self_fp v) sender (we_nonce env) (we_ts_unix_ms env)
           (we_payload env) in
     and_then (guard EnvBadSignature (verify_strict c vk canonical (we_signature env))) (\<lambda>_.
     and_then (ok_or LocalClockBeforeEpoch now) (\<lambda>local_ms.
     let diff_ms = abs_diff local_ms (we_ts_unix_ms env);
         skew_max = u64_or_max (v_skew_ms v) in
     and_then (guard (ClockSkew diff_ms skew_max) (diff_ms \<le> skew_max)) (\<lambda>_. Inr env)))))))"

text \<open>
  The whole of \<open>open\<close>. The replay guard records the nonce before the payload is decoded, so a
  message whose payload does not decode still uses its nonce up.
\<close>

definition open_envelope ::
    "crypto \<Rightarrow> 'p codec \<Rightarrow> ('s \<Rightarrow> fingerprint \<Rightarrow> verifying_key option) \<Rightarrow> u64 option
     \<Rightarrow> 's verifier \<Rightarrow> bytes \<Rightarrow> (env_error + 'p verified_envelope) \<times> 's verifier" where
  "open_envelope c k resolve now v raw =
     (case open_checked c k resolve now v raw of
        Inl e \<Rightarrow> (Inl e, v)
      | Inr env \<Rightarrow>
          (case check_and_record (v_replay v) (we_sender_fingerprint env) (we_nonce env) of
             Inl e \<Rightarrow> (Inl (ReplayRejected e), v)
           | Inr g \<Rightarrow>
               (case pl_decode k (we_payload env) of
                  None \<Rightarrow> (Inl PayloadDecode, v\<lparr>v_replay := g\<rparr>)
                | Some p \<Rightarrow>
                    (Inr \<lparr>ve_sender = we_sender_fingerprint env, ve_nonce = we_nonce env,
                          ve_ts_unix_ms = we_ts_unix_ms env, ve_payload = p\<rparr>,
                     v\<lparr>v_replay := g\<rparr>))))"

text \<open>
  A verifier's life: messages arrive one after another, each at its own local time and with the trust
  set as it is then.
\<close>

fun open_all ::
    "crypto \<Rightarrow> 'p codec \<Rightarrow> ('s \<Rightarrow> fingerprint \<Rightarrow> verifying_key option) \<Rightarrow> 's verifier
     \<Rightarrow> ('s \<times> u64 option \<times> bytes) list \<Rightarrow> 'p verified_envelope list \<times> 's verifier" where
  "open_all c k resolve v [] = ([], v)"
| "open_all c k resolve v ((trust, now, raw) # ms) =
     (case open_envelope c k resolve now (v\<lparr>v_resolver := trust\<rparr>) raw of
        (Inl _, v') \<Rightarrow> open_all c k resolve v' ms
      | (Inr e, v') \<Rightarrow> (let (es, v'') = open_all c k resolve v' ms in (e # es, v'')))"

lemma open_checked_ok:
  "open_checked c k resolve now v raw = Inr env \<longleftrightarrow>
   env_decode k raw = Some env \<and> length (we_sender_fingerprint env) = FINGERPRINT_LEN \<and>
   length (we_signature env) = SIGNATURE_LEN \<and>
   (\<exists>vk t. resolve (v_resolver v) (we_sender_fingerprint env) = Some vk \<and>
      verify_strict c vk (signing_input (v_self_fp v) (we_sender_fingerprint env) (we_nonce env)
        (we_ts_unix_ms env) (we_payload env)) (we_signature env) \<and>
      now = Some t \<and> abs_diff t (we_ts_unix_ms env) \<le> u64_or_max (v_skew_ms v))"
  by (auto simp: open_checked_def Let_def)

lemma open_envelope_ok:
  assumes "open_envelope c k resolve now v raw = (Inr e, v')"
  obtains env g where "open_checked c k resolve now v raw = Inr env"
    and "check_and_record (v_replay v) (ve_sender e) (ve_nonce e) = Inr g"
    and "pl_decode k (we_payload env) = Some (ve_payload e)"
    and "v' = v\<lparr>v_replay := g\<rparr>"
    and "ve_sender e = we_sender_fingerprint env" "ve_nonce e = we_nonce env"
      "ve_ts_unix_ms e = we_ts_unix_ms env"
  using assms by (auto simp: open_envelope_def split: sum.splits option.splits)

text \<open>
  Opening one message moves the replay guard forward at most one step; a delivered message's nonce
  was not accepted before and is afterwards.
\<close>

lemma open_envelope_guard:
  assumes R: "guard_rel H (v_replay v)" and op: "open_envelope c k resolve now v raw = (r, v')"
  shows "\<exists>H'. guard_rel H' (v_replay v') \<and> (\<forall>fp. H fp \<subseteq> H' fp) \<and>
    (\<forall>e. r = Inr e \<longrightarrow> unat (ve_nonce e) \<notin> H (ve_sender e) \<and> unat (ve_nonce e) \<in> H' (ve_sender e))"
proof (cases "open_checked c k resolve now v raw")
  case (Inl e)
  with op R show ?thesis by (auto simp: open_envelope_def)
next
  case checked: (Inr env)
  let ?fp = "we_sender_fingerprint env" and ?n = "we_nonce env"
  show ?thesis
  proof (cases "check_and_record (v_replay v) ?fp ?n")
    case (Inl e)
    with checked op R show ?thesis by (auto simp: open_envelope_def)
  next
    case g: (Inr g)
    let ?H' = "H(?fp := insert (unat ?n) (H ?fp))"
    have v': "v' = v\<lparr>v_replay := g\<rparr>"
      and r: "\<And>e. r = Inr e \<Longrightarrow> ve_sender e = ?fp \<and> ve_nonce e = ?n"
      using checked g op by (auto simp: open_envelope_def split: option.splits)
    have "guard_rel ?H' (v_replay v')" using rg.check_ok [OF R g] v' by simp
    moreover have "unat ?n \<notin> H ?fp" using R g by (rule rg.accepted_is_fresh)
    ultimately show ?thesis using r by (intro exI [where x = ?H']) auto
  qed
qed

abbreviation delivery_key :: "'p verified_envelope \<Rightarrow> fingerprint \<times> u64" where
  "delivery_key e \<equiv> (ve_sender e, ve_nonce e)"

lemma open_all_fresh:
  "guard_rel H (v_replay v) \<Longrightarrow> open_all c k resolve v ms = (es, v') \<Longrightarrow>
   distinct (map delivery_key es) \<and> (\<forall>e \<in> set es. unat (ve_nonce e) \<notin> H (ve_sender e))"
proof (induction ms arbitrary: H v es v')
  case Nil
  then show ?case by simp
next
  case (Cons m ms)
  obtain trust now raw where m: "m = (trust, now, raw)" by (cases m)
  obtain r v1 where op: "open_envelope c k resolve now (v\<lparr>v_resolver := trust\<rparr>) raw = (r, v1)" by fastforce
  have "guard_rel H (v_replay (v\<lparr>v_resolver := trust\<rparr>))" using Cons.prems(1) by simp
  from open_envelope_guard [OF this op] obtain H1 where
    R1: "guard_rel H1 (v_replay v1)" and sub: "\<And>fp. H fp \<subseteq> H1 fp"
    and new: "\<And>e. r = Inr e \<Longrightarrow> unat (ve_nonce e) \<notin> H (ve_sender e) \<and>
      unat (ve_nonce e) \<in> H1 (ve_sender e)" by blast
  obtain es1 v2 where rest: "open_all c k resolve v1 ms = (es1, v2)" by fastforce
  from Cons.IH [OF R1 rest] have IH: "distinct (map delivery_key es1)"
    "\<And>e. e \<in> set es1 \<Longrightarrow> unat (ve_nonce e) \<notin> H1 (ve_sender e)" by auto
  show ?case
  proof (cases r)
    case (Inl e)
    with Cons.prems(2) m op rest have "es = es1" by simp
    with IH sub show ?thesis by blast
  next
    case (Inr e)
    with Cons.prems(2) m op rest have es: "es = e # es1" by simp
    have "delivery_key e \<notin> set (map delivery_key es1)" using IH(2) new [OF Inr] by fastforce
    with es IH sub new [OF Inr] show ?thesis by (auto simp: subset_iff)
  qed
qed

section \<open>Properties\<close>

text \<open>
  What \<open>Verifier::open\<close> guarantees of a message it returns: the bytes decode to an envelope of
  a 32-byte sender the resolver knows, the signature verifies over this host's own fingerprint, the
  sender, nonce, timestamp and payload, the timestamp is within the skew window of the local clock,
  and the replay guard had not accepted that nonce from that sender.
\<close>

theorem open_envelope_sound:
  assumes "open_envelope c k resolve now v raw = (Inr e, v')"
    and "guard_rel H (v_replay v)"
  shows "\<exists>env vk t. env_decode k raw = Some env \<and> length (ve_sender e) = 32 \<and>
    resolve (v_resolver v) (ve_sender e) = Some vk \<and>
    verify_strict c vk (signing_input (v_self_fp v) (ve_sender e) (ve_nonce e) (ve_ts_unix_ms e)
      (we_payload env)) (we_signature env) \<and>
    pl_decode k (we_payload env) = Some (ve_payload e) \<and>
    now = Some t \<and> abs_diff t (ve_ts_unix_ms e) \<le> u64_or_max (v_skew_ms v) \<and>
    unat (ve_nonce e) \<notin> H (ve_sender e)"
proof -
  from assms(1) obtain env g where *: "open_checked c k resolve now v raw = Inr env"
    and g: "check_and_record (v_replay v) (ve_sender e) (ve_nonce e) = Inr g"
    and p: "pl_decode k (we_payload env) = Some (ve_payload e)"
    and e: "ve_sender e = we_sender_fingerprint env" "ve_nonce e = we_nonce env"
      "ve_ts_unix_ms e = we_ts_unix_ms env"
    by (rule open_envelope_ok)
  have "unat (ve_nonce e) \<notin> H (ve_sender e)" using assms(2) g by (rule rg.accepted_is_fresh)
  with * p e show ?thesis
    unfolding open_checked_ok by (auto simp: FINGERPRINT_LEN_def)
qed

text \<open>A codec that carries one payload, for evaluating the definitions.\<close>

definition demo_codec :: "whisper_envelope \<Rightarrow> unit codec" where
  "demo_codec e = \<lparr>env_encode = (\<lambda>_. [1]), env_decode = (\<lambda>b. if b = [1] then Some e else None),
     pl_encode = (\<lambda>_. [2]), pl_decode = (\<lambda>b. if b = [2] then Some () else None)\<rparr>"

definition demo_sealer :: sealer where
  "demo_sealer = \<lparr>s_identity = demo_identity, s_next_nonce = 40\<rparr>"

definition demo_envelope :: whisper_envelope where
  "demo_envelope = \<lparr>we_sender_fingerprint = fingerprint_of demo_crypto demo_identity, we_nonce = 40,
     we_ts_unix_ms = 1000, we_payload = [2],
     we_signature = sign demo_crypto demo_identity (signing_input (replicate 32 5)
       (fingerprint_of demo_crypto demo_identity) 40 1000 [2])\<rparr>"

definition demo_verifier :: "static_resolver verifier" where
  "demo_verifier = verifier_new
     (snd (static_insert demo_crypto static_new (verifying_key demo_crypto demo_identity)))
     (replicate 32 5)"

lemmas demo_verifier_defs = demo_verifier_def verifier_new_def verifier_with_skew_def

lemma demo_resolves:
  "static_resolve (v_resolver demo_verifier) (fingerprint_of demo_crypto demo_identity)
   = Some (verifying_key demo_crypto demo_identity)"
  by (simp add: demo_verifier_defs static_insert_def static_resolve_def static_new_def
      fingerprint_of_def Let_def)

lemma demo_self: "v_self_fp demo_verifier = replicate 32 5"
  by (simp add: demo_verifier_defs)

lemma demo_skew: "abs_diff 1200 1000 \<le> u64_or_max (v_skew_ms demo_verifier)"
  by (simp add: abs_diff_def u64_or_max_def demo_verifier_defs DEFAULT_SKEW_def)

lemma demo_guard_rel: "guard_rel (\<lambda>_. {}) (v_replay demo_verifier)"
  using rg.represents_new by (simp add: demo_verifier_defs)

lemma demo_open:
  "\<exists>v'. open_envelope demo_crypto (demo_codec demo_envelope) static_resolve (Some 1200)
     demo_verifier [1]
   = (Inr \<lparr>ve_sender = fingerprint_of demo_crypto demo_identity, ve_nonce = 40,
        ve_ts_unix_ms = 1000, ve_payload = ()\<rparr>, v')"
proof -
  have "verify_strict demo_crypto (verifying_key demo_crypto demo_identity) m
      (sign demo_crypto demo_identity m)" for m
    using verify_sign [OF demo_crypto_ok] by (simp add: verify_def)
  moreover note demo_skew demo_self
  ultimately have "open_checked demo_crypto (demo_codec demo_envelope) static_resolve (Some 1200)
      demo_verifier [1] = Inr demo_envelope"
    unfolding open_checked_ok
    by (simp add: demo_codec_def demo_envelope_def demo_resolves FINGERPRINT_LEN_def
        SIGNATURE_LEN_def demo_crypto_ok)
  moreover have "v_replay demo_verifier = replay_guard_new" by (simp add: demo_verifier_defs)
  ultimately show ?thesis
    by (simp add: open_envelope_def check_and_record_def replay_guard_new_def demo_envelope_def
        demo_codec_def)
qed

theorem open_envelope_sound_witness:
  "\<exists>env vk t. env_decode (demo_codec demo_envelope) [1] = Some env \<and>
    static_resolve (v_resolver demo_verifier) (fingerprint_of demo_crypto demo_identity) = Some vk \<and>
    verify_strict demo_crypto vk (signing_input (v_self_fp demo_verifier)
      (fingerprint_of demo_crypto demo_identity) 40 1000 (we_payload env)) (we_signature env) \<and>
    Some (1200::u64) = Some t"
proof -
  obtain v' where "open_envelope demo_crypto (demo_codec demo_envelope) static_resolve (Some 1200)
      demo_verifier [1]
    = (Inr \<lparr>ve_sender = fingerprint_of demo_crypto demo_identity, ve_nonce = 40,
        ve_ts_unix_ms = 1000, ve_payload = ()\<rparr>, v')"
    using demo_open by blast
  from open_envelope_sound [OF this demo_guard_rel] show ?thesis by simp blast
qed

text \<open>
  C1. No message is delivered twice. Over the whole life of a verifier, whatever bytes arrive and
  whatever the clock says, and whoever is trusted from time to time, the pairs of sender and nonce of
  the messages it returns are distinct.
\<close>

theorem open_never_delivers_twice:
  "distinct (map delivery_key (fst (open_all c k resolve (verifier_with_skew r fp skew) ms)))"
proof -
  obtain es v' where es: "open_all c k resolve (verifier_with_skew r fp skew) ms = (es, v')"
    by fastforce
  have "guard_rel (\<lambda>_. {}) (v_replay (verifier_with_skew r fp skew))"
    using rg.represents_new by (simp add: verifier_with_skew_def)
  from open_all_fresh [OF this es] es show ?thesis by simp
qed

text \<open>
  C2. Authenticity and recipient binding. Let the sender's holder have signed the messages in \<open>made\<close>,
  envelopes and whatever else, those that start with the envelopes' domain being the ones sealed in
  \<open>S\<close>; and let the signature that arrives not be forged. Then every message a host accepts from that
  sender is one the sender sealed for that very host, with the nonce, timestamp and payload bytes it was
  sealed with: it cannot be an envelope sealed for another host, nor one altered on the way, nor
  anything else that key has signed.
\<close>

theorem open_envelope_authentic:
  assumes op: "open_envelope c k resolve now v raw = (Inr e, v')"
    and self: "length (v_self_fp v) = 32"
    and key: "resolve (v_resolver v) (ve_sender e) = Some vk"
    and honest: "unforged c vk made {we_signature env | env. env_decode k raw = Some env}"
    and sealed: "\<And>rest. CANONICAL_SIG_DOMAIN @ rest \<in> made \<Longrightarrow> \<exists>r n t p. (r, n, t, p) \<in> S \<and> length r = 32 \<and>
        CANONICAL_SIG_DOMAIN @ rest = signing_input r (ve_sender e) n t p"
  shows "\<exists>p. (v_self_fp v, ve_nonce e, ve_ts_unix_ms e, p) \<in> S \<and>
    pl_decode k p = Some (ve_payload e)"
proof -
  from op obtain env where *: "open_checked c k resolve now v raw = Inr env"
    and p: "pl_decode k (we_payload env) = Some (ve_payload e)"
    and e: "ve_sender e = we_sender_fingerprint env" "ve_nonce e = we_nonce env"
      "ve_ts_unix_ms e = we_ts_unix_ms env"
    by (rule open_envelope_ok)
  let ?m = "signing_input (v_self_fp v) (ve_sender e) (ve_nonce e) (ve_ts_unix_ms e)
    (we_payload env)"
  from * e key have "verify_strict c vk ?m (we_signature env)" "env_decode k raw = Some env"
    unfolding open_checked_ok by auto
  then have "?m \<in> made" using unforgedD [OF honest] by blast
  then obtain rest where rest: "?m = CANONICAL_SIG_DOMAIN @ rest" "CANONICAL_SIG_DOMAIN @ rest \<in> made"
    by (simp add: signing_input_def)
  from sealed [OF rest(2)] obtain r n t q where S: "(r, n, t, q) \<in> S" "length r = 32"
    "?m = signing_input r (ve_sender e) n t q" unfolding rest(1) by blast
  from signing_input_inj [OF S(3)] S self p show ?thesis by auto
qed

lemma canonical_not_log_report: "CANONICAL_SIG_DOMAIN \<noteq> LOG_REPORT_DOMAIN"
  by (simp add: domain_defs str_bytes_def)

text \<open>
  The demonstration host sealed one envelope and published one height of its log with the same key.
\<close>

abbreviation demo_sealed :: bytes where
  "demo_sealed \<equiv> signing_input (replicate 32 5) (fingerprint_of demo_crypto demo_identity) 40 1000 [2]"

definition demo_signed :: "bytes list" where
  "demo_signed = [demo_sealed, lr_signing_input_for (fingerprint_of demo_crypto demo_identity) 3 900]"

definition ledger_envelope :: whisper_envelope where
  "ledger_envelope = demo_envelope\<lparr>we_signature := sign (ledger_crypto demo_signed) demo_identity demo_sealed\<rparr>"

theorem open_envelope_authentic_witness:
  "\<exists>p. (v_self_fp demo_verifier, 40, 1000, p) \<in> {(replicate 32 (5::u8), 40::u64, 1000::u64, [2::u8])} \<and>
    pl_decode (demo_codec ledger_envelope) p = Some ()"
proof -
  let ?c = "ledger_crypto demo_signed" and ?k = "demo_codec ledger_envelope"
  let ?e = "\<lparr>ve_sender = fingerprint_of demo_crypto demo_identity, ve_nonce = 40, ve_ts_unix_ms = 1000, ve_payload = ()\<rparr>"
  have dec: "env_decode ?k [1] = Some ledger_envelope" by (simp add: demo_codec_def)
  have checked: "open_checked ?c ?k static_resolve (Some 1200) demo_verifier [1] = Inr ledger_envelope"
    unfolding open_checked_ok dec
    by (simp add: ledger_envelope_def demo_envelope_def demo_resolves ledger_verify FINGERPRINT_LEN_def
        SIGNATURE_LEN_def demo_crypto_ok ledger_crypto_ok demo_self demo_skew)
  then obtain v' where op: "open_envelope ?c ?k static_resolve (Some 1200) demo_verifier [1] = (Inr ?e, v')"
    by (simp add: open_envelope_def check_and_record_def replay_guard_new_def demo_envelope_def
        ledger_envelope_def demo_codec_def demo_verifier_defs)
  have honest: "unforged ?c (verifying_key demo_crypto demo_identity) (set demo_signed)
      {we_signature env | env. env_decode ?k [1] = Some env}"
    unfolding dec by (rule ledger_unforged [where i = demo_identity]) (simp_all add: demo_signed_def ledger_envelope_def)
  have sealed: "\<exists>r n t p. (r, n, t, p) \<in> {(replicate 32 5, 40, 1000, [2])} \<and> length r = 32 \<and>
      CANONICAL_SIG_DOMAIN @ rest = signing_input r (ve_sender ?e) n t p"
    if "CANONICAL_SIG_DOMAIN @ rest \<in> set demo_signed" for rest
  proof -
    have "CANONICAL_SIG_DOMAIN @ rest \<noteq> lr_signing_input_for fp n t" for fp n t
      using domains_do_not_overlap [of CANONICAL_SIG_DOMAIN LOG_REPORT_DOMAIN rest]
        canonical_not_log_report by (auto simp: lr_signing_input_for_def signing_domains_def)
    then show ?thesis using that by (auto simp: demo_signed_def)
  qed
  show ?thesis using open_envelope_authentic [OF op _ _ honest sealed] demo_resolves demo_self by simp
qed

text \<open>
  A sealed message opens. If a sender seals a payload for a host that pins the sender's key,
  and it arrives within the skew window with a nonce the host has not used up, \<open>open\<close> returns that
  payload under the sender's fingerprint.
\<close>

theorem seal_then_open:
  assumes c: "crypto_ok c" and k: "codec_ok k"
    and pinned: "resolve (v_resolver v) (fingerprint_of c (s_identity s))
      = Some (verifying_key c (s_identity s))"
    and fresh: "is_ok (check_and_record (v_replay v) (fingerprint_of c (s_identity s))
      (s_next_nonce s))"
    and skew: "abs_diff t' t \<le> u64_or_max (v_skew_ms v)"
  shows "fst (open_envelope c k resolve (Some t') v
      (fst (seal_for c k (Some t) s (v_self_fp v) payload)))
    = Inr \<lparr>ve_sender = fingerprint_of c (s_identity s), ve_nonce = s_next_nonce s,
        ve_ts_unix_ms = t, ve_payload = payload\<rparr>"
proof -
  let ?fp = "fingerprint_of c (s_identity s)" and ?p = "pl_encode k payload"
  let ?env = "\<lparr>we_sender_fingerprint = ?fp, we_nonce = s_next_nonce s, we_ts_unix_ms = t,
    we_payload = ?p,
    we_signature = sign c (s_identity s) (signing_input (v_self_fp v) ?fp (s_next_nonce s) t ?p)\<rparr>"
  have seal: "fst (seal_for c k (Some t) s (v_self_fp v) payload) = env_encode k ?env"
    by (simp add: seal_for_def Let_def)
  have "verify_strict c (verifying_key c (s_identity s)) m (sign c (s_identity s) m)" for m
    using verify_sign [OF c] by (simp add: verify_def)
  then have "open_checked c k resolve (Some t') v (env_encode k ?env) = Inr ?env"
    unfolding open_checked_ok
    using k pinned skew c by (simp add: codec_ok_def FINGERPRINT_LEN_def SIGNATURE_LEN_def)
  moreover obtain g where "check_and_record (v_replay v) ?fp (s_next_nonce s) = Inr g"
    using fresh by (auto simp: is_ok_iff)
  moreover have "pl_decode k ?p = Some payload" using k by (simp add: codec_ok_def)
  ultimately show ?thesis by (simp add: seal open_envelope_def)
qed

text \<open>A total wire format, so that the hypothesis on the codec can be met.\<close>

definition wire :: "bytes \<Rightarrow> bytes" where
  "wire bs = concat (map (\<lambda>b. [1, b]) bs) @ [0]"

fun unwire :: "bytes \<Rightarrow> (bytes \<times> bytes) option" where
  "unwire [] = None"
| "unwire (x # r) = (if x = 0 then Some ([], r)
     else case r of [] \<Rightarrow> None
       | b # r' \<Rightarrow> (case unwire r' of None \<Rightarrow> None | Some (bs, r'') \<Rightarrow> Some (b # bs, r'')))"

lemma unwire_wire [simp]: "unwire (wire bs @ r) = Some (bs, r)"
  by (induction bs) (simp_all add: wire_def)

definition wire_codec :: "bytes codec" where
  "wire_codec = \<lparr>
     env_encode = (\<lambda>e. be64 (we_nonce e) @ be64 (we_ts_unix_ms e) @ wire (we_sender_fingerprint e) @
       wire (we_payload e) @ wire (we_signature e)),
     env_decode = (\<lambda>b. Option.bind (unwire (drop 16 b)) (\<lambda>(fp, r).
       Option.bind (unwire r) (\<lambda>(p, r). Option.bind (unwire (r @ [])) (\<lambda>(s, _).
       Some \<lparr>we_sender_fingerprint = fp, we_nonce = from_be_bytes (take 8 b),
         we_ts_unix_ms = from_be_bytes (take 8 (drop 8 b)), we_payload = p, we_signature = s\<rparr>)))),
     pl_encode = (\<lambda>p. p), pl_decode = Some\<rparr>"

lemma wire_codec_ok: "codec_ok wire_codec"
proof -
  have "unwire (wire bs) = Some (bs, [])" for bs
    using unwire_wire [of bs "[]"] by simp
  then have "env_decode wire_codec (env_encode wire_codec e) = Some e" for e
    by (simp add: wire_codec_def from_be_bytes_be_bytes)
  then show ?thesis by (simp add: codec_ok_def wire_codec_def)
qed

theorem seal_then_open_witness:
  "fst (open_envelope demo_crypto wire_codec static_resolve (Some 1200) demo_verifier
      (fst (seal_for demo_crypto wire_codec (Some 1000) demo_sealer (v_self_fp demo_verifier) [3])))
    = Inr \<lparr>ve_sender = fingerprint_of demo_crypto demo_identity, ve_nonce = 40,
        ve_ts_unix_ms = 1000, ve_payload = [3]\<rparr>"
proof -
  have "is_ok (check_and_record (v_replay demo_verifier)
      (fingerprint_of demo_crypto (s_identity demo_sealer)) (s_next_nonce demo_sealer))"
    by (simp add: demo_verifier_defs check_and_record_def replay_guard_new_def)
  moreover note demo_skew
  moreover have "static_resolve (v_resolver demo_verifier)
      (fingerprint_of demo_crypto (s_identity demo_sealer))
    = Some (verifying_key demo_crypto (s_identity demo_sealer))"
    using demo_resolves by (simp add: demo_sealer_def)
  ultimately show ?thesis
    using seal_then_open [OF demo_crypto_ok wire_codec_ok, of static_resolve demo_verifier
        demo_sealer 1200 1000 "[3]"]
    by (simp add: demo_sealer_def)
qed

end
