(* ===== verification/Text_Lines.thy ===== *)
theory Text_Lines
  imports Prelude
begin

text \<open>
  Line-oriented files, as the append-only stores read them: \<open>str::lines\<close> and \<open>str::trim\<close> of the
  Rust standard library, and how appending one line to a file changes what a reader sees.
\<close>

section \<open>Splitting\<close>

definition NL :: char where "NL = CHR 0x0A"
definition CR :: char where "CR = CHR 0x0D"

text \<open>A terminated line loses its line feed and one carriage return before it.\<close>

definition strip_cr :: "string \<Rightarrow> string" where
  "strip_cr l = (if l \<noteq> [] \<and> last l = CR then butlast l else l)"

fun lines_from :: "string \<Rightarrow> string \<Rightarrow> string list" where
  "lines_from acc [] = (if acc = [] then [] else [acc])"
| "lines_from acc (c # s) =
     (if c = NL then strip_cr acc # lines_from [] s else lines_from (acc @ [c]) s)"

definition lines :: "string \<Rightarrow> string list" where
  "lines s = lines_from [] s"

definition is_white :: "char \<Rightarrow> bool" where
  "is_white c \<longleftrightarrow> c \<in> {CHR 0x09, CHR 0x0A, CHR 0x0B, CHR 0x0C, CHR 0x0D, CHR 0x20}"

definition trim :: "string \<Rightarrow> string" where
  "trim s = rev (dropWhile is_white (rev (dropWhile is_white s)))"

text \<open>A file whose last line is terminated, or an empty one.\<close>

definition terminated :: "string \<Rightarrow> bool" where
  "terminated s \<longleftrightarrow> s = [] \<or> last s = NL"

text \<open>A text that is one line and survives trimming: no line feed inside, no blank at either end.\<close>

definition plain_line :: "string \<Rightarrow> bool" where
  "plain_line l \<longleftrightarrow> l \<noteq> [] \<and> NL \<notin> set l \<and> \<not> is_white (hd l) \<and> \<not> is_white (last l)"

section \<open>Facts\<close>

lemma lines_from_line:
  "NL \<notin> set l \<Longrightarrow> lines_from acc (l @ NL # s) = strip_cr (acc @ l) # lines_from [] s"
  by (induction l arbitrary: acc) auto

lemma lines_Nil [simp]: "lines [] = []"
  by (simp add: lines_def)

lemma lines_from_append:
  "s \<noteq> [] \<Longrightarrow> last s = NL \<Longrightarrow> lines_from acc (s @ t) = lines_from acc s @ lines_from [] t"
proof (induction s arbitrary: acc)
  case Nil
  then show ?case by simp
next
  case (Cons c s)
  show ?case
  proof (cases "s = []")
    case True
    with Cons.prems show ?thesis by simp
  next
    case False
    with Cons show ?thesis by simp
  qed
qed

lemma lines_append: "terminated s \<Longrightarrow> lines (s @ t) = lines s @ lines t"
  by (cases "s = []") (simp_all add: terminated_def lines_def lines_from_append)

lemma plain_line_no_NL: "plain_line l \<Longrightarrow> NL \<notin> set l"
  by (simp add: plain_line_def)

lemma strip_cr_plain: "plain_line l \<Longrightarrow> strip_cr l = l"
  by (auto simp: plain_line_def strip_cr_def is_white_def CR_def)

lemma lines_single: "plain_line l \<Longrightarrow> lines (l @ [NL]) = [l]"
  using lines_from_line [of l "[]" "[]"] by (simp add: lines_def plain_line_no_NL strip_cr_plain)

lemma lines_append_line:
  "terminated s \<Longrightarrow> plain_line l \<Longrightarrow> lines (s @ l @ [NL]) = lines s @ [l]"
  by (simp add: lines_append lines_single)

lemma terminated_append_line [simp]: "terminated (s @ l @ [NL])"
  by (simp add: terminated_def)

lemma trim_plain: "plain_line l \<Longrightarrow> trim l = l"
proof -
  assume l: "plain_line l"
  then have "dropWhile is_white l = l" "dropWhile is_white (rev l) = rev l"
    by (simp_all add: plain_line_def dropWhile_eq_self_iff hd_rev)
  then show "trim l = l" by (simp add: trim_def)
qed

text \<open>
  Appending to a file whose last line was cut off joins the new line to what is left of it: the
  reader sees one line that is neither.
\<close>

lemma lines_from_torn:
  "NL \<notin> set r \<Longrightarrow> NL \<notin> set l \<Longrightarrow> lines_from acc (r @ l @ [NL]) = [strip_cr (acc @ r @ l)]"
  using lines_from_line [of "r @ l" acc "[]"] by simp

lemma lines_torn:
  assumes "terminated s" "plain_line r" "plain_line l"
  shows "lines (s @ r @ l @ [NL]) = lines s @ [r @ l]"
proof -
  have "plain_line (r @ l)" using assms(2,3) by (auto simp: plain_line_def)
  from lines_append_line [OF assms(1) this] show ?thesis by simp
qed

lemma lines_concat:
  "\<forall>l \<in> set ls. plain_line l \<Longrightarrow> lines (concat (map (\<lambda>l. l @ [NL]) ls)) = ls"
proof (induction ls)
  case (Cons l ls)
  have "lines ((l @ [NL]) @ concat (map (\<lambda>l. l @ [NL]) ls))
      = lines (l @ [NL]) @ lines (concat (map (\<lambda>l. l @ [NL]) ls))"
    by (rule lines_append) (simp add: terminated_def)
  with Cons show ?case by (simp add: lines_single)
qed simp

end
