(* ===== verification/Mesh_Trust.thy ===== *)
theory Mesh_Trust
  imports Envelope Text_Lines
begin

text \<open>
  Admission and ejection of peers, \<open>crates/bowery-whisper/src/mesh_trust.rs\<close>: the checks on an
  operator-signed membership grant and on a revocation, and the revocation store with its
  append-only file of signed revocations.
\<close>

section \<open>Grants and revocations\<close>

datatype grant_error =
    MalformedFingerprint
  | UntrustedOperator
  | GrantBadSignature
  | IdentityMismatch
  | ClusterMismatch
  | Expired

text \<open>\<open>unix_ms\<close>: a clock before the epoch, or past the range of \<open>u64\<close>, reads 0.\<close>

definition unix_ms :: "nat option \<Rightarrow> u64" where
  "unix_ms t = (case t of None \<Rightarrow> 0 | Some ms \<Rightarrow> if ms < 2 ^ 64 then word_of_nat ms else 0)"

definition verify_grant ::
    "crypto \<Rightarrow> membership_grant \<Rightarrow> fingerprint \<Rightarrow> string
     \<Rightarrow> (fingerprint \<Rightarrow> verifying_key option) \<Rightarrow> nat option \<Rightarrow> grant_error + unit" where
  "verify_grant c grant presenter cluster_id trusted now =
     and_then (ok_or MalformedFingerprint (to_array 32 (mg_agent_fp grant))) (\<lambda>agent_fp.
     and_then (ok_or MalformedFingerprint (to_array 32 (mg_operator_fp grant))) (\<lambda>operator_fp.
     and_then (guard IdentityMismatch (agent_fp = presenter)) (\<lambda>_.
     and_then (guard ClusterMismatch (mg_cluster_id grant = cluster_id)) (\<lambda>_.
     and_then (guard Expired (mg_expires_unix_ms grant = 0 \<or>
       unix_ms now \<le> mg_expires_unix_ms grant)) (\<lambda>_.
     and_then (ok_or UntrustedOperator (trusted operator_fp)) (\<lambda>vk.
     and_then (ok_or GrantBadSignature (to_array 64 (mg_sig grant))) (\<lambda>sig.
     and_then (ok_or MalformedFingerprint (mg_to_signing_input grant)) (\<lambda>input.
     guard GrantBadSignature (is_ok (verify c vk input sig))))))))))"

definition verify_revocation ::
    "crypto \<Rightarrow> revocation \<Rightarrow> string \<Rightarrow> (fingerprint \<Rightarrow> verifying_key option)
     \<Rightarrow> grant_error + fingerprint" where
  "verify_revocation c rvk cluster_id trusted =
     and_then (ok_or MalformedFingerprint (to_array 32 (rv_agent_fp rvk))) (\<lambda>agent_fp.
     and_then (ok_or MalformedFingerprint (to_array 32 (rv_operator_fp rvk))) (\<lambda>operator_fp.
     and_then (guard ClusterMismatch (rv_cluster_id rvk = cluster_id)) (\<lambda>_.
     and_then (ok_or UntrustedOperator (trusted operator_fp)) (\<lambda>vk.
     and_then (ok_or GrantBadSignature (to_array 64 (rv_sig rvk))) (\<lambda>sig.
     and_then (ok_or MalformedFingerprint (rv_to_signing_input rvk)) (\<lambda>input.
     and_then (guard GrantBadSignature (is_ok (verify c vk input sig))) (\<lambda>_.
     Inr agent_fp)))))))"

lemma is_ok_verify [simp]: "is_ok (verify c vk m sg) \<longleftrightarrow> verify_strict c vk m sg"
  by (simp add: verify_def guard_def)

lemma verify_grant_ok:
  "verify_grant c g presenter cluster_id trusted now = Inr () \<longleftrightarrow>
   mg_agent_fp g = presenter \<and> length presenter = 32 \<and> length (mg_operator_fp g) = 32 \<and>
   mg_cluster_id g = cluster_id \<and>
   (mg_expires_unix_ms g = 0 \<or> unix_ms now \<le> mg_expires_unix_ms g) \<and>
   length (mg_sig g) = 64 \<and>
   (\<exists>vk input. trusted (mg_operator_fp g) = Some vk \<and> mg_to_signing_input g = Some input \<and>
      verify_strict c vk input (mg_sig g))"
  by (auto simp: verify_grant_def)

lemma verify_revocation_ok:
  "verify_revocation c r cluster_id trusted = Inr fp \<longleftrightarrow>
   rv_agent_fp r = fp \<and> length fp = 32 \<and> length (rv_operator_fp r) = 32 \<and>
   rv_cluster_id r = cluster_id \<and> length (rv_sig r) = 64 \<and>
   (\<exists>vk input. trusted (rv_operator_fp r) = Some vk \<and> rv_to_signing_input r = Some input \<and>
      verify_strict c vk input (rv_sig r))"
  by (auto simp: verify_revocation_def)

section \<open>The revocation store\<close>

record revoked_entry =
  re_fingerprint :: string
  re_issued_unix_ms :: u64
  re_reason :: string
  re_operator_fp :: string

record revocation_store =
  rs_state :: "fingerprint \<Rightarrow> revoked_entry option"
  rs_path :: path

text \<open>The protobuf codec of a revocation is a package.\<close>

record rev_codec =
  rev_encode :: "revocation \<Rightarrow> bytes"
  rev_decode :: "bytes \<Rightarrow> revocation option"

datatype kn_error =
    KnIo
  | KnMalformed
  | KnInsecurePermissions nat
  | KnUnsupportedVersion u32

definition rev_FILE_MODE :: nat where
  "rev_FILE_MODE = 384"

definition revocations_in_memory :: revocation_store where
  "revocations_in_memory = \<lparr>rs_state = (\<lambda>_. None), rs_path = []\<rparr>"

definition is_revoked :: "revocation_store \<Rightarrow> fingerprint \<Rightarrow> bool" where
  "is_revoked st fp \<longleftrightarrow> rs_state st fp \<noteq> None"

definition rev_record ::
    "crypto \<Rightarrow> revocation_store \<Rightarrow> fingerprint \<Rightarrow> revocation \<Rightarrow> bool \<times> revocation_store" where
  "rev_record c st fp r =
     (if rs_state st fp \<noteq> None then (False, st)
      else (True, st\<lparr>rs_state := (rs_state st)(fp \<mapsto>
        \<lparr>re_fingerprint = to_hex c fp, re_issued_unix_ms = rv_issued_unix_ms r,
         re_reason = rv_reason r, re_operator_fp = hex_lower (rv_operator_fp r)\<rparr>)\<rparr>))"

definition decode_and_verify ::
    "crypto \<Rightarrow> rev_codec \<Rightarrow> string \<Rightarrow> string \<Rightarrow> (fingerprint \<Rightarrow> verifying_key option)
     \<Rightarrow> grant_error + (fingerprint \<times> revocation)" where
  "decode_and_verify c k line cluster_id trusted =
     and_then (ok_or MalformedFingerprint (b64_decode c line)) (\<lambda>raw.
     and_then (ok_or MalformedFingerprint (rev_decode k raw)) (\<lambda>rvk.
     and_then (verify_revocation c rvk cluster_id trusted) (\<lambda>fp. Inr (fp, rvk))))"

text \<open>The body of the loading loop: blank and comment lines are skipped, bad ones too.\<close>

definition load_line ::
    "crypto \<Rightarrow> rev_codec \<Rightarrow> string \<Rightarrow> (fingerprint \<Rightarrow> verifying_key option)
     \<Rightarrow> revocation_store \<Rightarrow> string \<Rightarrow> revocation_store" where
  "load_line c k cluster_id trusted st raw_line =
     (let line = trim raw_line in
      if line = [] \<or> hd line = CHR ''#'' then st
      else case decode_and_verify c k line cluster_id trusted of
        Inr (fp, rvk) \<Rightarrow> snd (rev_record c st fp rvk)
      | Inl _ \<Rightarrow> st)"

definition load_signed ::
    "crypto \<Rightarrow> rev_codec \<Rightarrow> fault \<Rightarrow> fs \<Rightarrow> path \<Rightarrow> string
     \<Rightarrow> (fingerprint \<Rightarrow> verifying_key option) \<Rightarrow> kn_error + revocation_store" where
  "load_signed c k fault fs p cluster_id trusted =
     (let store = \<lparr>rs_state = (\<lambda>_. None), rs_path = p\<rparr> in
      case fs p of
        None \<Rightarrow> Inr store
      | Some f \<Rightarrow>
          if fault = FailRead then Inl KnIo
          else Inr (foldl (load_line c k cluster_id trusted) store (lines (body f))))"

text \<open>
  Recording comes first and persisting second: when the disk fails, the revocation stays in memory
  and is not on disk. The empty path stands for the in-memory store.
\<close>

definition rev_insert ::
    "crypto \<Rightarrow> rev_codec \<Rightarrow> fault \<Rightarrow> string \<Rightarrow> fs \<Rightarrow> revocation_store \<Rightarrow> fingerprint \<Rightarrow> revocation
     \<Rightarrow> (kn_error + bool) \<times> fs \<times> revocation_store" where
  "rev_insert c k fault partial fs st fp r =
     (let (new, st') = rev_record c st fp r in
      if \<not> new then (Inr False, fs, st')
      else if rs_path st = [] then (Inr True, fs, st')
      else
        let line = b64_encode c (rev_encode k r);
            old = (case fs (rs_path st) of
                     None \<Rightarrow> \<lparr>mode = rev_FILE_MODE, body = []\<rparr> | Some f \<Rightarrow> f) in
        if fault = FailMkdir \<and> butlast (rs_path st) \<noteq> [] then (Inl KnIo, fs, st')
        else if fault = FailOpen then (Inl KnIo, fs, st')
        else if fault = FailWrite then
          (Inl KnIo, fs(rs_path st \<mapsto> old\<lparr>body := body old @ partial\<rparr>), st')
        else (Inr True, fs(rs_path st \<mapsto> old\<lparr>body := body old @ line @ [NL]\<rparr>), st'))"

lemma rev_record_keeps: "is_revoked st q \<Longrightarrow> is_revoked (snd (rev_record c st fp r)) q"
  by (auto simp: is_revoked_def rev_record_def)

lemma rev_record_revoked [simp]:
  "is_revoked (snd (rev_record c st fp r)) q \<longleftrightarrow> is_revoked st q \<or> q = fp"
  by (auto simp: is_revoked_def rev_record_def)

text \<open>Which identity a line of the file revokes, if any.\<close>

definition line_revokes ::
    "crypto \<Rightarrow> rev_codec \<Rightarrow> string \<Rightarrow> (fingerprint \<Rightarrow> verifying_key option) \<Rightarrow> string
     \<Rightarrow> fingerprint \<Rightarrow> bool" where
  "line_revokes c k cluster_id trusted raw_line fp \<longleftrightarrow>
     trim raw_line \<noteq> [] \<and> hd (trim raw_line) \<noteq> CHR ''#'' \<and>
     (\<exists>rvk. decode_and_verify c k (trim raw_line) cluster_id trusted = Inr (fp, rvk))"

lemma load_line_revoked:
  "is_revoked (load_line c k cl tr st l) q \<longleftrightarrow> is_revoked st q \<or> line_revokes c k cl tr l q"
  by (auto simp: load_line_def line_revokes_def Let_def split: sum.splits)

lemma foldl_load_line_revoked:
  "is_revoked (foldl (load_line c k cl tr) st ls) q \<longleftrightarrow>
   is_revoked st q \<or> (\<exists>l \<in> set ls. line_revokes c k cl tr l q)"
  by (induction ls arbitrary: st) (auto simp: load_line_revoked)

lemma is_revoked_empty [simp]: "\<not> is_revoked \<lparr>rs_state = (\<lambda>_. None), rs_path = p\<rparr> q"
  by (simp add: is_revoked_def)

lemma load_signed_revoked:
  "load_signed c k fault fs p cl tr = Inr st \<Longrightarrow>
   is_revoked st q \<longleftrightarrow> (\<exists>f. fs p = Some f \<and> (\<exists>l \<in> set (lines (body f)). line_revokes c k cl tr l q))"
  by (auto simp: load_signed_def Let_def foldl_load_line_revoked split: option.splits if_splits)

lemma load_signed_total: "\<exists>st. load_signed c k NoFault fs p cl tr = Inr st"
  by (simp add: load_signed_def Let_def split: option.split)

section \<open>Properties\<close>

text \<open>
  A membership grant is not transferable. If the same grant is accepted from two presenters, in
  whatever clusters and at whatever times, the presenters are one identity: a grant harvested from
  the gossip is of no use to any other key.
\<close>

theorem grant_not_transferable:
  assumes "verify_grant c g p cl tr now = Inr ()" "verify_grant c g p' cl' tr' now' = Inr ()"
  shows "p = p' \<and> cl = cl'"
  using assms unfolding verify_grant_ok by simp

definition demo_operator :: identity where
  "demo_operator = \<lparr>signing_key = replicate 32 9\<rparr>"

definition demo_trusted :: "fingerprint \<Rightarrow> verifying_key option" where
  "demo_trusted = [fingerprint_of demo_crypto demo_operator \<mapsto> verifying_key demo_crypto demo_operator]"

definition demo_agent :: fingerprint where
  "demo_agent = replicate 32 5"

definition demo_grant :: membership_grant where
  "demo_grant = \<lparr>mg_agent_fp = demo_agent, mg_cluster_id = ''prod'', mg_issued_unix_ms = 1,
     mg_expires_unix_ms = 0, mg_operator_fp = fingerprint_of demo_crypto demo_operator,
     mg_sig = sign demo_crypto demo_operator (mg_signing_input demo_agent ''prod'' 1 0
       (fingerprint_of demo_crypto demo_operator))\<rparr>"

lemma demo_signature:
  "verify_strict demo_crypto (verifying_key demo_crypto i) m (sign demo_crypto i m)"
  using verify_sign [OF demo_crypto_ok] by (simp add: verify_def)

lemma demo_grant_ok: "verify_grant demo_crypto demo_grant demo_agent ''prod'' demo_trusted now = Inr ()"
  unfolding verify_grant_ok
  by (simp add: demo_grant_def demo_trusted_def demo_agent_def mg_to_signing_input_def to_array_def
      demo_signature demo_crypto_ok)

theorem grant_not_transferable_witness: "demo_agent = demo_agent \<and> ''prod'' = ''prod''"
  by (rule grant_not_transferable [OF demo_grant_ok demo_grant_ok])

text \<open>
  A grant admits only what an operator signed. Let the trusted operators have signed the messages in
  \<open>made\<close>, those in the domain of grants being the grants in \<open>S\<close>. Then an accepted grant whose
  signature is not forged names the presenting agent, this cluster, and issue and expiry times that are
  in \<open>S\<close>, and it has not expired: no field of it was altered.
\<close>

theorem grant_authorised_by_operator:
  assumes ok: "verify_grant c g p cl tr now = Inr ()"
    and honest: "\<And>vk. tr (mg_operator_fp g) = Some vk \<Longrightarrow> unforged c vk made {mg_sig g}"
    and granted: "\<And>rest. MEMBERSHIP_GRANT_DOMAIN @ rest \<in> made \<Longrightarrow>
      \<exists>a l i e. (a, l, i, e) \<in> S \<and> length a = 32 \<and> length l < 2 ^ 32 \<and>
        MEMBERSHIP_GRANT_DOMAIN @ rest = mg_signing_input a l i e (mg_operator_fp g)"
    and small: "length (mg_cluster_id g) < 2 ^ 32"
  shows "(p, cl, mg_issued_unix_ms g, mg_expires_unix_ms g) \<in> S \<and>
    (mg_expires_unix_ms g = 0 \<or> unix_ms now \<le> mg_expires_unix_ms g)"
proof -
  from ok obtain vk input where g: "mg_agent_fp g = p" "length p = 32" "mg_cluster_id g = cl"
    "mg_expires_unix_ms g = 0 \<or> unix_ms now \<le> mg_expires_unix_ms g"
    "tr (mg_operator_fp g) = Some vk" "mg_to_signing_input g = Some input"
    "verify_strict c vk input (mg_sig g)"
    unfolding verify_grant_ok by blast
  have "input \<in> made" using unforgedD [OF honest [OF g(5)] _ g(7)] by simp
  then obtain rest where rest: "input = MEMBERSHIP_GRANT_DOMAIN @ rest" "MEMBERSHIP_GRANT_DOMAIN @ rest \<in> made"
    using mg.starts_with_domain [OF g(6)] by blast
  from granted [OF rest(2)] obtain a l i e where S: "(a, l, i, e) \<in> S" "length a = 32"
    "length l < 2 ^ 32" "input = mg_signing_input a l i e (mg_operator_fp g)" unfolding rest(1) by blast
  have "mg_signing_input p cl (mg_issued_unix_ms g) (mg_expires_unix_ms g) (mg_operator_fp g)
      = mg_signing_input a l i e (mg_operator_fp g)"
    using g(1,3,6) S(4) by (auto simp: mg_to_signing_input_def bind_eq_Some_conv)
  from mg_signing_input_inj [OF this g(2) S(2)] small g S(1,3) show ?thesis by simp
qed

abbreviation demo_grant_input :: bytes where
  "demo_grant_input \<equiv> mg_signing_input demo_agent ''prod'' 1 0 (fingerprint_of demo_crypto demo_operator)"

definition ledger_grant :: membership_grant where
  "ledger_grant = demo_grant\<lparr>mg_sig := sign (ledger_crypto [demo_grant_input]) demo_operator demo_grant_input\<rparr>"

theorem grant_authorised_by_operator_witness:
  "(demo_agent, ''prod'', mg_issued_unix_ms ledger_grant, mg_expires_unix_ms ledger_grant)
     \<in> {(demo_agent, ''prod'', 1, 0)}"
proof -
  have "verify_grant (ledger_crypto [demo_grant_input]) ledger_grant demo_agent ''prod'' demo_trusted None = Inr ()"
    unfolding verify_grant_ok
    by (simp add: ledger_grant_def demo_grant_def demo_trusted_def demo_agent_def ledger_verify
        mg_to_signing_input_def to_array_def demo_crypto_ok ledger_crypto_ok)
  moreover have "unforged (ledger_crypto [demo_grant_input]) vk {demo_grant_input} {mg_sig ledger_grant}" for vk
    using ledger_unforged [of "[demo_grant_input]" "{mg_sig ledger_grant}" demo_operator vk] by (simp add: ledger_grant_def)
  moreover have "\<exists>a l i e. (a, l, i, e) \<in> {(demo_agent, ''prod'', 1::u64, 0::u64)} \<and> length a = 32 \<and>
      length l < 2 ^ 32 \<and> MEMBERSHIP_GRANT_DOMAIN @ rest = mg_signing_input a l i e (mg_operator_fp ledger_grant)"
    if "MEMBERSHIP_GRANT_DOMAIN @ rest \<in> {demo_grant_input}" for rest
    using that by (simp add: ledger_grant_def demo_grant_def demo_agent_def)
  moreover have "length (mg_cluster_id ledger_grant) < 2 ^ 32" by (simp add: ledger_grant_def demo_grant_def)
  ultimately show ?thesis
    by (rule grant_authorised_by_operator [THEN conjunct1])
qed

text \<open>
  What a loaded revocation store holds. Whatever the file contains, the store that
  \<open>load_signed\<close> returns revokes exactly the identities for which some line of the file, trimmed and
  not a comment, decodes to a revocation of this cluster with a valid signature of a trusted
  operator. A tampered or foreign line adds nothing and costs no other line its effect.
\<close>

theorem load_signed_exact:
  assumes "load_signed c k fault fs p cl tr = Inr st" "fs p = Some f"
  shows "is_revoked st fp \<longleftrightarrow> (\<exists>l \<in> set (lines (body f)). line_revokes c k cl tr l fp)"
  using load_signed_revoked [OF assms(1), of fp] assms(2) by simp

definition demo_rev :: revocation where
  "demo_rev = \<lparr>rv_agent_fp = demo_agent, rv_cluster_id = ''prod'', rv_issued_unix_ms = 1,
     rv_reason = [], rv_operator_fp = fingerprint_of demo_crypto demo_operator,
     rv_sig = sign demo_crypto demo_operator (rv_signing_input demo_agent ''prod'' 1 []
       (fingerprint_of demo_crypto demo_operator))\<rparr>"

definition demo_rev_codec :: rev_codec where
  "demo_rev_codec = \<lparr>rev_encode = (\<lambda>_. [65]), rev_decode = (\<lambda>b. if b = [65] then Some demo_rev else None)\<rparr>"

lemma demo_rev_ok:
  "verify_revocation demo_crypto demo_rev ''prod'' demo_trusted = Inr demo_agent"
  unfolding verify_revocation_ok
  by (simp add: demo_rev_def demo_trusted_def demo_agent_def rv_to_signing_input_def to_array_def
      demo_signature demo_crypto_ok)

lemma demo_b64: "b64_decode demo_crypto ''A'' = Some [65]" "b64_encode demo_crypto [65] = ''A''"
proof -
  show "b64_decode demo_crypto ''A'' = Some [65]" by (simp add: demo_crypto_def str_bytes_def)
  have "char_of (65 :: nat) = CHR ''A''" by code_simp
  then show "b64_encode demo_crypto [65] = ''A''" by (simp add: demo_crypto_def)
qed

lemma demo_line_revokes: "line_revokes demo_crypto demo_rev_codec ''prod'' demo_trusted ''A'' demo_agent"
proof -
  have "trim ''A'' = ''A''" by (rule trim_plain) (simp add: plain_line_def is_white_def NL_def)
  then show ?thesis
    by (simp add: line_revokes_def decode_and_verify_def demo_b64 demo_rev_codec_def demo_rev_ok)
qed

theorem load_signed_exact_witness:
  "is_revoked (foldl (load_line demo_crypto demo_rev_codec ''prod'' demo_trusted)
     \<lparr>rs_state = (\<lambda>_. None), rs_path = [''r'']\<rparr> (lines (''A'' @ [NL]))) demo_agent"
proof -
  have ld: "load_signed demo_crypto demo_rev_codec NoFault
      [[''r''] \<mapsto> \<lparr>mode = 384, body = ''A'' @ [NL]\<rparr>] [''r''] ''prod'' demo_trusted
    = Inr (foldl (load_line demo_crypto demo_rev_codec ''prod'' demo_trusted)
        \<lparr>rs_state = (\<lambda>_. None), rs_path = [''r'']\<rparr> (lines (''A'' @ [NL])))"
    by (simp add: load_signed_def)
  have "lines (''A'' @ [NL]) = [''A'']"
    by (rule lines_single) (simp add: plain_line_def is_white_def NL_def)
  with demo_line_revokes load_signed_exact [OF ld, of "\<lparr>mode = 384, body = ''A'' @ [NL]\<rparr>" demo_agent]
  show ?thesis by simp
qed

text \<open>
  A revocation survives a restart. If a verified revocation is inserted and the insert reports
  success, and the store's file ended in a complete line, then loading that file again, with the
  same operators trusted, yields a store in which the identity is revoked; so is everything the
  file revoked before.
\<close>

theorem revocation_survives_restart:
  assumes c: "crypto_ok c" and k: "rev_decode k (rev_encode k r) = Some r"
    and ver: "verify_revocation c r cl tr = Inr fp"
    and b64: "plain_line (b64_encode c (rev_encode k r))"
      "hd (b64_encode c (rev_encode k r)) \<noteq> CHR ''#''"
    and p: "rs_path st \<noteq> []" and full: "\<forall>f. fs (rs_path st) = Some f \<longrightarrow> terminated (body f)"
    and ins: "rev_insert c k fault partial fs st fp r = (Inr True, fs', st')"
    and load: "load_signed c k NoFault fs' (rs_path st) cl tr = Inr st2"
  shows "is_revoked st2 fp \<and> (\<forall>q st1. load_signed c k NoFault fs (rs_path st) cl tr = Inr st1 \<longrightarrow>
    is_revoked st1 q \<longrightarrow> is_revoked st2 q)"
proof -
  let ?line = "b64_encode c (rev_encode k r)"
  let ?old = "case fs (rs_path st) of None \<Rightarrow> \<lparr>mode = rev_FILE_MODE, body = []\<rparr> | Some f \<Rightarrow> f"
  have fs': "fs' (rs_path st) = Some (?old\<lparr>body := body ?old @ ?line @ [NL]\<rparr>)"
    using ins p by (auto simp: rev_insert_def Let_def split: prod.splits if_splits)
  have whole: "terminated (body ?old)"
    using full by (auto simp: terminated_def split: option.splits)
  have lns: "lines (body ?old @ ?line @ [NL]) = lines (body ?old) @ [?line]"
    using whole b64(1) by (rule lines_append_line)
  have "line_revokes c k cl tr ?line fp"
    using k ver b64 trim_plain [OF b64(1)] crypto_okD(7) [OF c]
    by (auto simp: line_revokes_def decode_and_verify_def plain_line_def)
  moreover have "is_revoked st2 q \<longleftrightarrow>
      (\<exists>l \<in> set (lines (body ?old) @ [?line]). line_revokes c k cl tr l q)" for q
    using load_signed_revoked [OF load] fs' lns by simp
  moreover have "\<exists>l \<in> set (lines (body ?old)). line_revokes c k cl tr l q"
    if "load_signed c k NoFault fs (rs_path st) cl tr = Inr st1" "is_revoked st1 q" for q st1
    using load_signed_revoked [OF that(1), of q] that(2) by auto
  ultimately show ?thesis by auto
qed

theorem revocation_survives_restart_witness:
  "\<exists>fs' st' st2. rev_insert demo_crypto demo_rev_codec NoFault [] (\<lambda>_. None)
      \<lparr>rs_state = (\<lambda>_. None), rs_path = [''r'']\<rparr> demo_agent demo_rev = (Inr True, fs', st') \<and>
    load_signed demo_crypto demo_rev_codec NoFault fs' [''r''] ''prod'' demo_trusted = Inr st2 \<and>
    is_revoked st2 demo_agent"
proof -
  let ?st = "\<lparr>rs_state = (\<lambda>_. None), rs_path = [''r'']\<rparr>"
  let ?ins = "rev_insert demo_crypto demo_rev_codec NoFault [] (\<lambda>_. None) ?st demo_agent demo_rev"
  let ?fs = "fst (snd ?ins)"
  have ins: "?ins = (Inr True, ?fs, snd (snd ?ins))"
    by (simp add: rev_insert_def rev_record_def Let_def)
  have line: "b64_encode demo_crypto (rev_encode demo_rev_codec demo_rev) = ''A''"
    by (simp add: demo_rev_codec_def demo_b64)
  obtain st2 where load: "load_signed demo_crypto demo_rev_codec NoFault ?fs (rs_path ?st) ''prod''
      demo_trusted = Inr st2"
    using load_signed_total by blast
  have "is_revoked st2 demo_agent"
    by (rule revocation_survives_restart [OF demo_crypto_ok _ demo_rev_ok _ _ _ _ ins load,
          THEN conjunct1])
      (simp_all add: line demo_b64 plain_line_def is_white_def NL_def demo_rev_codec_def)
  moreover have "load_signed demo_crypto demo_rev_codec NoFault ?fs [''r''] ''prod'' demo_trusted
      = Inr st2"
    using load by simp
  ultimately show ?thesis using ins by (intro exI conjI)
qed

text \<open>
  A revocation that could not be written is never written. When \<open>insert\<close> fails on the disk, the
  identity is already recorded in memory; every later \<open>insert\<close> of it returns \<open>Ok(false)\<close> and leaves
  the file alone, so the revocation is gone after a restart.
\<close>

theorem failed_insert_is_never_retried:
  assumes "rev_insert c k fault partial fs st fp r = (Inl e, fs', st')"
  shows "is_revoked st' fp \<and>
    rev_insert c k fault2 partial2 fs2 st' fp r2 = (Inr False, fs2, st')"
proof -
  have "is_revoked st' fp"
    using assms by (auto simp: rev_insert_def rev_record_def is_revoked_def Let_def split: if_splits)
  then show ?thesis by (simp add: rev_insert_def rev_record_def is_revoked_def)
qed

theorem failed_insert_is_never_retried_witness:
  "\<exists>fs' st' e. rev_insert demo_crypto demo_rev_codec FailOpen [] (\<lambda>_. None)
      \<lparr>rs_state = (\<lambda>_. None), rs_path = [''r'']\<rparr> demo_agent demo_rev = (Inl e, fs', st') \<and>
    rev_insert demo_crypto demo_rev_codec NoFault [] fs' st' demo_agent demo_rev
      = (Inr False, fs', st')"
proof -
  let ?ins = "rev_insert demo_crypto demo_rev_codec FailOpen [] (\<lambda>_. None)
      \<lparr>rs_state = (\<lambda>_. None), rs_path = [''r'']\<rparr> demo_agent demo_rev"
  have ins: "?ins = (Inl KnIo, fst (snd ?ins), snd (snd ?ins))"
    by (simp add: rev_insert_def rev_record_def Let_def)
  from failed_insert_is_never_retried [OF this] ins show ?thesis by blast
qed

end
