(* ===== verification/Known_Neighbors.thy ===== *)
theory Known_Neighbors
  imports Mesh_Trust "HOL-Library.AList" "HOL-Library.List_Lexorder" "HOL-Library.Char_ord"
    "HOL-Library.Multiset"
begin

text \<open>
  The store of pinned peers, \<open>crates/bowery-whisper/src/known_neighbors.rs\<close>: opening and saving its
  file, pinning under the bootstrap window, the capacity cap and the revocation list, unpinning, and
  resolving. \<open>pin_inner\<close> takes the read lock and the write lock one after the other; the two
  critical sections are separate definitions, so that other threads can run between them.
\<close>

section \<open>State\<close>

datatype pin_outcome = NewlyPinned | AlreadyPinned | BootstrapClosed | AtCapacity | Revoked

record peer =
  p_verifying_key :: verifying_key
  p_pinned_at :: nat

definition DEFAULT_MAX_PINNED_PEERS :: nat where
  "DEFAULT_MAX_PINNED_PEERS = 1024"

text \<open>
  The hash map is an association list with distinct keys; no operation depends on its order, since
  \<open>save\<close> sorts. Times are nanoseconds since the epoch.
\<close>

record known_neighbors =
  kn_path :: path
  kn_state :: "(fingerprint \<times> peer) list"
  kn_bootstrap_until :: nat
  kn_max_pinned :: nat
  kn_revocations :: "revocation_store option"

record pinned_peer_file =
  pf_fingerprint :: string
  pf_verifying_key :: string
  pf_pinned_at :: string

record store_file =
  sf_version :: u32
  sf_bootstrap_until :: string
  sf_peers :: "pinned_peer_file list"

text \<open>The JSON and RFC 3339 packages.\<close>

record kn_codec =
  json_print :: "store_file \<Rightarrow> string option"
  json_parse :: "string \<Rightarrow> store_file option"
  rfc3339_format :: "nat \<Rightarrow> string option"
  rfc3339_parse :: "string \<Rightarrow> nat option"

definition kn_codec_ok :: "kn_codec \<Rightarrow> bool" where
  "kn_codec_ok k \<longleftrightarrow> (\<forall>f s. json_print k f = Some s \<longrightarrow> json_parse k s = Some f) \<and>
     (\<forall>t s. rfc3339_format k t = Some s \<longrightarrow> rfc3339_parse k s = Some t)"

definition kn_FILE_MODE :: nat where "kn_FILE_MODE = 384"
definition kn_FILE_VERSION :: u32 where "kn_FILE_VERSION = 1"

section \<open>Opening\<close>

definition decode_verifying_key :: "crypto \<Rightarrow> string \<Rightarrow> kn_error + verifying_key" where
  "decode_verifying_key c s =
     and_then (ok_or KnMalformed (b64_decode c s)) (\<lambda>bs.
     and_then (ok_or KnMalformed (to_array 32 bs)) (\<lambda>arr.
     ok_or KnMalformed (vk_from_bytes c arr)))"

definition parse_rfc3339 :: "kn_codec \<Rightarrow> string \<Rightarrow> kn_error + nat" where
  "parse_rfc3339 k s = ok_or KnMalformed (rfc3339_parse k s)"

definition format_rfc3339 :: "kn_codec \<Rightarrow> nat \<Rightarrow> kn_error + string" where
  "format_rfc3339 k t = ok_or KnMalformed (rfc3339_format k t)"

text \<open>The body of the loading loop.\<close>

definition load_peer ::
    "crypto \<Rightarrow> kn_codec \<Rightarrow> (fingerprint \<times> peer) list \<Rightarrow> pinned_peer_file
     \<Rightarrow> kn_error + (fingerprint \<times> peer) list" where
  "load_peer c k state entry =
     and_then (decode_verifying_key c (pf_verifying_key entry)) (\<lambda>vk.
     and_then (case from_hex c (pf_fingerprint entry) of Inl _ \<Rightarrow> Inl KnMalformed | Inr fp \<Rightarrow> Inr fp)
       (\<lambda>stored_fp.
     let derived_fp = from_verifying_key c vk in
     and_then (guard KnMalformed (stored_fp = derived_fp)) (\<lambda>_.
     and_then (parse_rfc3339 k (pf_pinned_at entry)) (\<lambda>pinned_at.
     Inr (AList.update derived_fp \<lparr>p_verifying_key = vk, p_pinned_at = pinned_at\<rparr> state)))))"

fun load_peers ::
    "crypto \<Rightarrow> kn_codec \<Rightarrow> (fingerprint \<times> peer) list \<Rightarrow> pinned_peer_file list
     \<Rightarrow> kn_error + (fingerprint \<times> peer) list" where
  "load_peers c k state [] = Inr state"
| "load_peers c k state (entry # es) =
     and_then (load_peer c k state entry) (\<lambda>state'. load_peers c k state' es)"

definition kn_open ::
    "crypto \<Rightarrow> kn_codec \<Rightarrow> fault \<Rightarrow> fs \<Rightarrow> path \<Rightarrow> nat \<Rightarrow> nat \<Rightarrow> kn_error + known_neighbors" where
  "kn_open c k fault fs p window now =
     (case fs p of
        None \<Rightarrow> Inr \<lparr>kn_path = p, kn_state = [], kn_bootstrap_until = now + window,
                   kn_max_pinned = DEFAULT_MAX_PINNED_PEERS, kn_revocations = None\<rparr>
      | Some f \<Rightarrow>
          and_then (guard (KnInsecurePermissions (mode f)) (mode f = kn_FILE_MODE)) (\<lambda>_.
          and_then (guard KnIo (fault \<noteq> FailRead)) (\<lambda>_.
          and_then (ok_or KnMalformed (json_parse k (body f))) (\<lambda>file.
          and_then (guard (KnUnsupportedVersion (sf_version file))
            (sf_version file = kn_FILE_VERSION)) (\<lambda>_.
          and_then (parse_rfc3339 k (sf_bootstrap_until file)) (\<lambda>until.
          and_then (load_peers c k [] (sf_peers file)) (\<lambda>state.
          Inr \<lparr>kn_path = p, kn_state = state, kn_bootstrap_until = until,
               kn_max_pinned = DEFAULT_MAX_PINNED_PEERS, kn_revocations = None\<rparr>)))))))"

definition with_revocations :: "revocation_store \<Rightarrow> known_neighbors \<Rightarrow> known_neighbors" where
  "with_revocations rs kn = kn\<lparr>kn_revocations := Some rs\<rparr>"

definition with_max_pinned :: "nat \<Rightarrow> known_neighbors \<Rightarrow> known_neighbors" where
  "with_max_pinned n kn = kn\<lparr>kn_max_pinned := max n 1\<rparr>"

definition bootstrap_active :: "nat \<Rightarrow> known_neighbors \<Rightarrow> bool" where
  "bootstrap_active now kn \<longleftrightarrow> now < kn_bootstrap_until kn"

definition kn_count :: "known_neighbors \<Rightarrow> nat" where
  "kn_count kn = length (kn_state kn)"

definition kn_fingerprints :: "known_neighbors \<Rightarrow> fingerprint list" where
  "kn_fingerprints kn = map fst (kn_state kn)"

definition kn_resolve :: "known_neighbors \<Rightarrow> fingerprint \<Rightarrow> verifying_key option" where
  "kn_resolve kn fp = map_option p_verifying_key (map_of (kn_state kn) fp)"

section \<open>Saving\<close>

fun pinned_peer_files ::
    "crypto \<Rightarrow> kn_codec \<Rightarrow> (fingerprint \<times> peer) list \<Rightarrow> kn_error + pinned_peer_file list" where
  "pinned_peer_files c k [] = Inr []"
| "pinned_peer_files c k ((fp, peer) # ps) =
     and_then (format_rfc3339 k (p_pinned_at peer)) (\<lambda>at.
     and_then (pinned_peer_files c k ps) (\<lambda>fs.
     Inr (\<lparr>pf_fingerprint = to_hex c fp, pf_verifying_key = b64_encode c (p_verifying_key peer),
           pf_pinned_at = at\<rparr> # fs)))"

text \<open>
  A relative path of one component has no parent directory to create. A leftover temporary file is
  removed first, unless that fails too.
\<close>

definition kn_save ::
    "crypto \<Rightarrow> kn_codec \<Rightarrow> fault \<Rightarrow> string \<Rightarrow> fs \<Rightarrow> known_neighbors \<Rightarrow> (kn_error + unit) \<times> fs" where
  "kn_save c k fault partial fs kn =
     (case and_then (format_rfc3339 k (kn_bootstrap_until kn)) (\<lambda>until.
           and_then (pinned_peer_files c k (kn_state kn)) (\<lambda>peers.
           ok_or KnMalformed (json_print k \<lparr>sf_version = kn_FILE_VERSION,
             sf_bootstrap_until = until, sf_peers = sort_key pf_fingerprint peers\<rparr>))) of
        Inl e \<Rightarrow> (Inl e, fs)
      | Inr contents \<Rightarrow>
          if fault = FailMkdir \<and> butlast (kn_path kn) \<noteq> [] then (Inl KnIo, fs)
          else let fs' = (if fault = FailRemove then fs else fs(tmp_path_for (kn_path kn) := None))
            in write_then_rename KnIo fault partial fs' (kn_path kn) contents kn_FILE_MODE)"

section \<open>Pinning\<close>

text \<open>The checks before the write lock: \<open>Some\<close> is an early return.\<close>

definition pin_read ::
    "crypto \<Rightarrow> known_neighbors \<Rightarrow> verifying_key \<Rightarrow> bool \<Rightarrow> nat \<Rightarrow> pin_outcome option" where
  "pin_read c kn vk bypass_bootstrap now =
     (let fp = from_verifying_key c vk in
      if (case kn_revocations kn of None \<Rightarrow> False | Some r \<Rightarrow> is_revoked r fp) then Some Revoked
      else if map_of (kn_state kn) fp \<noteq> None then Some AlreadyPinned
      else if \<not> bypass_bootstrap \<and> \<not> bootstrap_active now kn then Some BootstrapClosed
      else None)"

text \<open>The section under the write lock.\<close>

definition pin_write ::
    "crypto \<Rightarrow> known_neighbors \<Rightarrow> verifying_key \<Rightarrow> nat \<Rightarrow> pin_outcome \<times> known_neighbors" where
  "pin_write c kn vk now =
     (let fp = from_verifying_key c vk in
      if map_of (kn_state kn) fp \<noteq> None then (AlreadyPinned, kn)
      else if kn_max_pinned kn \<le> length (kn_state kn) then (AtCapacity, kn)
      else (NewlyPinned, kn\<lparr>kn_state := AList.update fp
              \<lparr>p_verifying_key = vk, p_pinned_at = now\<rparr> (kn_state kn)\<rparr>))"

definition pin_inner ::
    "crypto \<Rightarrow> kn_codec \<Rightarrow> fault \<Rightarrow> string \<Rightarrow> fs \<Rightarrow> known_neighbors \<Rightarrow> verifying_key \<Rightarrow> bool \<Rightarrow> nat
     \<Rightarrow> (kn_error + pin_outcome) \<times> fs \<times> known_neighbors" where
  "pin_inner c k fault partial fs kn vk bypass_bootstrap now =
     (case pin_read c kn vk bypass_bootstrap now of
        Some out \<Rightarrow> (Inr out, fs, kn)
      | None \<Rightarrow>
          (case pin_write c kn vk now of
             (NewlyPinned, kn') \<Rightarrow>
               (case kn_save c k fault partial fs kn' of
                  (Inl e, fs') \<Rightarrow> (Inl e, fs', kn')
                | (Inr _, fs') \<Rightarrow> (Inr NewlyPinned, fs', kn'))
           | (out, kn') \<Rightarrow> (Inr out, fs, kn')))"

definition try_pin ::
    "crypto \<Rightarrow> kn_codec \<Rightarrow> fault \<Rightarrow> string \<Rightarrow> fs \<Rightarrow> known_neighbors \<Rightarrow> verifying_key \<Rightarrow> nat
     \<Rightarrow> (kn_error + pin_outcome) \<times> fs \<times> known_neighbors" where
  "try_pin c k fault partial fs kn vk now = pin_inner c k fault partial fs kn vk False now"

definition pin_authorized ::
    "crypto \<Rightarrow> kn_codec \<Rightarrow> fault \<Rightarrow> string \<Rightarrow> fs \<Rightarrow> known_neighbors \<Rightarrow> verifying_key \<Rightarrow> nat
     \<Rightarrow> (kn_error + pin_outcome) \<times> fs \<times> known_neighbors" where
  "pin_authorized c k fault partial fs kn vk now = pin_inner c k fault partial fs kn vk True now"

definition unpin ::
    "crypto \<Rightarrow> kn_codec \<Rightarrow> fault \<Rightarrow> string \<Rightarrow> fs \<Rightarrow> known_neighbors \<Rightarrow> fingerprint
     \<Rightarrow> (kn_error + bool) \<times> fs \<times> known_neighbors" where
  "unpin c k fault partial fs kn fp =
     (let removed = map_of (kn_state kn) fp \<noteq> None;
          kn' = kn\<lparr>kn_state := AList.delete fp (kn_state kn)\<rparr> in
      if \<not> removed then (Inr False, fs, kn')
      else case kn_save c k fault partial fs kn' of
        (Inl e, fs') \<Rightarrow> (Inl e, fs', kn')
      | (Inr _, fs') \<Rightarrow> (Inr True, fs', kn'))"

section \<open>Well-formedness\<close>

definition kn_wf :: "crypto \<Rightarrow> known_neighbors \<Rightarrow> bool" where
  "kn_wf c kn \<longleftrightarrow> distinct (map fst (kn_state kn)) \<and>
     (\<forall>(fp, peer) \<in> set (kn_state kn). from_verifying_key c (p_verifying_key peer) = fp)"

lemma kn_wfD:
  assumes "kn_wf c kn"
  shows "distinct (map fst (kn_state kn))"
    and "map_of (kn_state kn) fp = Some p \<Longrightarrow> from_verifying_key c (p_verifying_key p) = fp"
  using assms by (auto simp: kn_wf_def dest: map_of_SomeD)

lemma kn_wf_update:
  assumes "kn_wf c kn" "from_verifying_key c vk = fp"
  shows "kn_wf c (kn\<lparr>kn_state := AList.update fp \<lparr>p_verifying_key = vk, p_pinned_at = t\<rparr> (kn_state kn)\<rparr>)"
proof -
  let ?s = "AList.update fp \<lparr>p_verifying_key = vk, p_pinned_at = t\<rparr> (kn_state kn)"
  have d: "distinct (map fst ?s)" using kn_wfD(1) [OF assms(1)] by (rule distinct_update)
  have "from_verifying_key c (p_verifying_key p) = q" if "(q, p) \<in> set ?s" for q p
  proof -
    have "map_of ?s q = Some p" using d that by simp
    then show ?thesis
      using kn_wfD(2) [OF assms(1)] assms(2) by (auto simp: update_conv' split: if_splits)
  qed
  with d show ?thesis by (auto simp: kn_wf_def)
qed

lemma kn_wf_delete:
  assumes "kn_wf c kn"
  shows "kn_wf c (kn\<lparr>kn_state := AList.delete fp (kn_state kn)\<rparr>)"
  using assms by (auto simp: kn_wf_def AList.delete_eq intro: distinct_map_filter)

lemma kn_wf_revocations [simp]: "kn_wf c (kn\<lparr>kn_revocations := r\<rparr>) = kn_wf c kn"
  by (simp add: kn_wf_def)

interpretation kn: fingerprint_resolver c "kn_wf c" kn_resolve for c
  by unfold_locales (auto simp: kn_resolve_def dest: kn_wfD(2))

text \<open>The agent's resolver: pinned peers first, then the configured operators.\<close>

interpretation agent_resolver: two_resolvers c "kn_wf c" kn_resolve "static_wf c" static_resolve for c
  by unfold_locales

section \<open>Threads\<close>

text \<open>
  The store is shared between the pin task, the operator handler and the startup code. A state is
  the store together with the keys for which some thread has passed \<open>pin_read\<close> and not yet taken
  the write lock; the steps are the critical sections, in any order.
\<close>

type_synonym kn_sys = "known_neighbors \<times> verifying_key list"

inductive kn_step :: "crypto \<Rightarrow> kn_sys \<Rightarrow> kn_sys \<Rightarrow> bool" for c where
  read_section: "pin_read c kn vk bypass now = None \<Longrightarrow> kn_step c (kn, pend) (kn, vk # pend)"
| write_section: "vk \<in> set pend \<Longrightarrow> pin_write c kn vk now = (out, kn') \<Longrightarrow>
    kn_step c (kn, pend) (kn', remove1 vk pend)"
| unpin_section: "kn_step c (kn, pend) (kn\<lparr>kn_state := AList.delete fp (kn_state kn)\<rparr>, pend)"
| revoke: "kn_revocations kn = Some rs \<Longrightarrow>
    kn_step c (kn, pend) (kn\<lparr>kn_revocations := Some (snd (rev_record c rs fp r))\<rparr>, pend)"

definition kn_revoked :: "known_neighbors \<Rightarrow> fingerprint \<Rightarrow> bool" where
  "kn_revoked kn fp = (case kn_revocations kn of None \<Rightarrow> False | Some r \<Rightarrow> is_revoked r fp)"

lemma pin_read_None:
  "pin_read c kn vk bypass now = None \<longleftrightarrow>
   \<not> kn_revoked kn (from_verifying_key c vk) \<and>
   map_of (kn_state kn) (from_verifying_key c vk) = None \<and> (bypass \<or> bootstrap_active now kn)"
  by (auto simp: pin_read_def kn_revoked_def Let_def)

lemma pin_write_cases:
  assumes "pin_write c kn vk now = (out, kn')"
  obtains "kn' = kn" "out = AlreadyPinned" "map_of (kn_state kn) (from_verifying_key c vk) \<noteq> None"
  | "kn' = kn" "out = AtCapacity" "map_of (kn_state kn) (from_verifying_key c vk) = None"
      "kn_max_pinned kn \<le> length (kn_state kn)"
  | "out = NewlyPinned" "map_of (kn_state kn) (from_verifying_key c vk) = None"
      "length (kn_state kn) < kn_max_pinned kn"
      "kn' = kn\<lparr>kn_state := AList.update (from_verifying_key c vk)
        \<lparr>p_verifying_key = vk, p_pinned_at = now\<rparr> (kn_state kn)\<rparr>"
  using assms by (auto simp: pin_write_def Let_def split: if_splits)

lemma length_update_le: "length (AList.update q v al) \<le> Suc (length al)"
  by (induction al) auto

text \<open>The invariant of the threads, relative to a state with the store \<open>kn0\<close> and the pins \<open>pend0\<close> under way.\<close>

definition kn_inv :: "crypto \<Rightarrow> known_neighbors \<Rightarrow> verifying_key list \<Rightarrow> kn_sys \<Rightarrow> bool" where
  "kn_inv c kn0 pend0 s \<longleftrightarrow> (case s of (kn, pend) \<Rightarrow>
     kn_wf c kn \<and> kn_max_pinned kn = kn_max_pinned kn0 \<and>
     kn_count kn \<le> max (kn_count kn0) (kn_max_pinned kn0) \<and>
     (\<forall>fp. kn_revoked kn0 fp \<longrightarrow> kn_revoked kn fp) \<and>
     (\<forall>fp. kn_revoked kn0 fp \<and> kn_resolve kn0 fp = None \<and> fp \<notin> from_verifying_key c ` set pend0 \<longrightarrow>
        kn_resolve kn fp = None \<and> fp \<notin> from_verifying_key c ` set pend))"

lemma kn_inv_write:
  assumes inv: "kn_inv c kn0 pend0 (kn, pend)" and vk: "vk \<in> set pend"
    and w: "pin_write c kn vk now = (out, kn')"
  shows "kn_inv c kn0 pend0 (kn', remove1 vk pend)"
proof -
  have sub: "set (remove1 vk pend) \<subseteq> set pend" by (rule set_remove1_subset)
  from w show ?thesis
  proof (cases rule: pin_write_cases)
    case 3
    let ?fp = "from_verifying_key c vk"
    have "kn_wf c kn'" using inv unfolding 3 by (intro kn_wf_update) (simp_all add: kn_inv_def)
    moreover have "kn_count kn' \<le> max (kn_count kn0) (kn_max_pinned kn0)"
      using 3(3) inv length_update_le [of ?fp "\<lparr>p_verifying_key = vk, p_pinned_at = now\<rparr>" "kn_state kn"]
      by (simp add: kn_count_def kn_inv_def 3(4))
    moreover have "kn_resolve kn' fp = None \<and> fp \<notin> from_verifying_key c ` set (remove1 vk pend)"
      if "kn_revoked kn0 fp" "kn_resolve kn0 fp = None" "fp \<notin> from_verifying_key c ` set pend0" for fp
    proof -
      have n: "kn_resolve kn fp = None" "fp \<notin> from_verifying_key c ` set pend"
        using inv that by (simp_all add: kn_inv_def)
      then have "fp \<noteq> ?fp" using vk by blast
      with n(1) have "kn_resolve kn' fp = None" by (simp add: kn_resolve_def 3 update_conv')
      with n(2) sub show ?thesis by blast
    qed
    moreover have "kn_revoked kn' = kn_revoked kn" by (simp add: kn_revoked_def 3 fun_eq_iff)
    moreover have "kn_max_pinned kn' = kn_max_pinned kn" by (simp add: 3)
    ultimately show ?thesis using inv by (simp add: kn_inv_def)
  qed (use inv sub in \<open>auto simp: kn_inv_def\<close>)
qed

lemma kn_inv_step:
  assumes "kn_step c s s'" "kn_inv c kn0 pend0 s"
  shows "kn_inv c kn0 pend0 s'"
  using assms(1)
proof (cases rule: kn_step.cases)
  case (read_section kn vk bypass now pend)
  with assms(2) show ?thesis by (auto simp: kn_inv_def pin_read_None)
next
  case (write_section vk pend kn now out kn')
  with assms(2) show ?thesis by (auto intro: kn_inv_write)
next
  case (unpin_section kn pend fp)
  let ?kn = "kn\<lparr>kn_state := AList.delete fp (kn_state kn)\<rparr>"
  have "kn_resolve ?kn q = None \<or> kn_resolve ?kn q = kn_resolve kn q" for q
    by (simp add: kn_resolve_def delete_conv')
  moreover have "kn_count ?kn \<le> kn_count kn" by (simp add: kn_count_def length_delete_le)
  moreover have "kn_revoked ?kn = kn_revoked kn" by (simp add: kn_revoked_def fun_eq_iff)
  ultimately show ?thesis
    using assms(2) unpin_section kn_wf_delete [of c kn fp] by (fastforce simp: kn_inv_def)
next
  case (revoke kn rs pend fp r)
  let ?kn = "kn\<lparr>kn_revocations := Some (snd (rev_record c rs fp r))\<rparr>"
  have "kn_revoked kn q \<Longrightarrow> kn_revoked ?kn q" for q using revoke by (simp add: kn_revoked_def)
  moreover have "kn_resolve ?kn = kn_resolve kn" by (simp add: kn_resolve_def fun_eq_iff)
  moreover have "kn_count ?kn = kn_count kn" by (simp add: kn_count_def)
  ultimately show ?thesis using assms(2) revoke by (simp add: kn_inv_def)
qed

lemma kn_inv_reachable:
  assumes "(kn_step c)\<^sup>*\<^sup>* (kn0, pend0) s" "kn_wf c kn0"
  shows "kn_inv c kn0 pend0 s"
  using assms(1)
proof (induction rule: rtranclp_induct)
  case base
  from assms(2) show ?case by (simp add: kn_inv_def)
next
  case (step s s')
  then show ?case by (blast intro: kn_inv_step)
qed

section \<open>Saving and opening\<close>

text \<open>A key the code holds is one \<open>VerifyingKey::from_bytes\<close> accepts and gives back.\<close>

definition vk_valid :: "crypto \<Rightarrow> verifying_key \<Rightarrow> bool" where
  "vk_valid c vk \<longleftrightarrow> length vk = 32 \<and> vk_from_bytes c vk = Some vk"

definition peer_file :: "crypto \<Rightarrow> kn_codec \<Rightarrow> fingerprint \<times> peer \<Rightarrow> pinned_peer_file" where
  "peer_file c k e = \<lparr>pf_fingerprint = to_hex c (fst e),
     pf_verifying_key = b64_encode c (p_verifying_key (snd e)),
     pf_pinned_at = the (rfc3339_format k (p_pinned_at (snd e)))\<rparr>"

lemma pinned_peer_files_map:
  "pinned_peer_files c k ps = Inr files \<Longrightarrow>
   files = map (peer_file c k) ps \<and> (\<forall>e \<in> set ps. rfc3339_format k (p_pinned_at (snd e)) \<noteq> None)"
  by (induction c k ps arbitrary: files rule: pinned_peer_files.induct)
    (auto simp: format_rfc3339_def peer_file_def)

lemma sort_key_map: "sort_key f (map g xs) = map g (sort_key (\<lambda>x. f (g x)) xs)"
proof (induction xs)
  case (Cons x xs)
  have "insort_key f (g x) (map g ys) = map g (insort_key (\<lambda>x. f (g x)) x ys)" for ys
    by (induction ys) simp_all
  with Cons show ?case by simp
qed simp

lemma load_peer_file:
  assumes "crypto_ok c" "kn_codec_ok k" "vk_valid c (p_verifying_key p)"
    and "from_verifying_key c (p_verifying_key p) = fp" "rfc3339_format k (p_pinned_at p) \<noteq> None"
  shows "load_peer c k st (peer_file c k (fp, p)) = Inr (AList.update fp p st)"
proof -
  obtain s where s: "rfc3339_format k (p_pinned_at p) = Some s" using assms(5) by blast
  with assms(2) have "rfc3339_parse k s = Some (p_pinned_at p)" by (auto simp: kn_codec_ok_def)
  moreover have "from_hex c (to_hex c fp) = Inr fp"
    using assms(1,4) by (auto intro: from_hex_to_hex)
  ultimately show ?thesis
    using assms(1,3,4) s
    by (cases p) (simp add: load_peer_def peer_file_def decode_verifying_key_def parse_rfc3339_def
        vk_valid_def crypto_okD Let_def)
qed

lemma load_peers_map:
  assumes "crypto_ok c" "kn_codec_ok k" "distinct (map fst ps)" "fst ` set ps \<inter> dom (map_of st) = {}"
    and "\<forall>(fp, p) \<in> set ps. vk_valid c (p_verifying_key p) \<and>
      from_verifying_key c (p_verifying_key p) = fp \<and> rfc3339_format k (p_pinned_at p) \<noteq> None"
    and "distinct (map fst st)"
  shows "\<exists>st'. load_peers c k st (map (peer_file c k) ps) = Inr st' \<and> distinct (map fst st') \<and>
    map_of st' = map_of st ++ map_of ps"
  using assms(3-6)
proof (induction ps arbitrary: st)
  case (Cons e ps)
  obtain fp p where e: "e = (fp, p)" by fastforce
  let ?st = "AList.update fp p st"
  have "load_peer c k st (peer_file c k (fp, p)) = Inr ?st"
    by (rule load_peer_file [OF assms(1,2)]) (use Cons.prems e in auto)
  then have step: "load_peers c k st (map (peer_file c k) (e # ps))
      = load_peers c k ?st (map (peer_file c k) ps)"
    by (simp add: e)
  have "fst ` set ps \<inter> dom (map_of ?st) = {}"
    using Cons.prems(1,2) e by (auto simp: update_conv' split: if_splits)
  then obtain st' where "load_peers c k ?st (map (peer_file c k) ps) = Inr st'"
    "distinct (map fst st')" "map_of st' = map_of ?st ++ map_of ps"
    using Cons.IH [of ?st] Cons.prems distinct_update [of st fp p] by auto
  moreover have "map_of ?st ++ map_of ps = map_of st ++ map_of (e # ps)"
  proof -
    have "fp \<notin> dom (map_of ps)" using Cons.prems(1) e by (simp add: dom_map_of_conv_image_fst)
    then show ?thesis by (simp add: e update_conv' map_add_upd_left)
  qed
  ultimately show ?case unfolding step by metis
qed simp

section \<open>Properties\<close>

text \<open>
  C4. The pin set under concurrency. Start from a well-formed store and let any number of threads
  pin, unpin and revoke, their critical sections interleaved in any way. Then the keys of the map
  stay distinct and every pinned key hashes to the fingerprint it is stored under; the number of
  pinned peers never exceeds the larger of the cap and the number the store was opened with; and from
  any moment on at which an identity is revoked, not pinned, and no thread is between its check and its
  write for it, it is never pinned again.
\<close>

theorem pin_set_invariant:
  assumes "(kn_step c)\<^sup>*\<^sup>* (kn0, []) (kn1, pend1)" "(kn_step c)\<^sup>*\<^sup>* (kn1, pend1) (kn, pend)" "kn_wf c kn0"
  shows "kn_wf c kn \<and> kn_count kn \<le> max (kn_count kn0) (kn_max_pinned kn0) \<and>
    (\<forall>fp. kn_revoked kn1 fp \<and> kn_resolve kn1 fp = None \<and> fp \<notin> from_verifying_key c ` set pend1 \<longrightarrow> kn_resolve kn fp = None)"
proof -
  have "kn_inv c kn0 [] (kn, pend)" "kn_inv c kn0 [] (kn1, pend1)"
    using kn_inv_reachable [OF _ assms(3)] assms(1,2) by (meson rtranclp_trans)+
  moreover from this(2) have "kn_inv c kn1 pend1 (kn, pend)" using kn_inv_reachable [OF assms(2)] by (simp add: kn_inv_def)
  ultimately show ?thesis by (simp add: kn_inv_def)
qed

definition demo_kn :: known_neighbors where
  "demo_kn = \<lparr>kn_path = [''kn''], kn_state = [], kn_bootstrap_until = 10, kn_max_pinned = 1,
     kn_revocations = Some \<lparr>rs_state = [demo_agent \<mapsto> \<lparr>re_fingerprint = [], re_issued_unix_ms = 1,
       re_reason = [], re_operator_fp = []\<rparr>], rs_path = []\<rparr>\<rparr>"

definition demo_vk :: verifying_key where
  "demo_vk = replicate 32 7"

lemma demo_kn_wf: "kn_wf c demo_kn"
  by (simp add: kn_wf_def demo_kn_def)

lemma demo_vk_fp: "from_verifying_key demo_crypto demo_vk \<noteq> demo_agent"
  by (simp add: from_verifying_key_def demo_crypto_def pad_def demo_vk_def demo_agent_def
      numeral_eq_Suc)

lemma demo_pin_read: "pin_read demo_crypto demo_kn demo_vk False 5 = None"
  using demo_vk_fp
  by (simp add: pin_read_None kn_revoked_def is_revoked_def demo_kn_def bootstrap_active_def)

theorem pin_set_invariant_witness:
  "\<exists>kn. (kn_step demo_crypto)\<^sup>*\<^sup>* (demo_kn, []) (kn, []) \<and>
     kn_resolve kn (from_verifying_key demo_crypto demo_vk) = Some demo_vk \<and>
     kn_count kn \<le> 1 \<and> kn_resolve kn demo_agent = None"
proof -
  let ?kn = "snd (pin_write demo_crypto demo_kn demo_vk 5)"
  have "kn_step demo_crypto (demo_kn, []) (demo_kn, [demo_vk])"
    by (rule read_section) (rule demo_pin_read)
  moreover have "kn_step demo_crypto (demo_kn, [demo_vk]) (?kn, remove1 demo_vk [demo_vk])"
    by (rule write_section [where now = 5 and out = "fst (pin_write demo_crypto demo_kn demo_vk 5)"])
      simp_all
  ultimately have run: "(kn_step demo_crypto)\<^sup>*\<^sup>* (demo_kn, []) (?kn, [])" by simp
  have "kn_resolve ?kn (from_verifying_key demo_crypto demo_vk) = Some demo_vk"
    by (simp add: pin_write_def demo_kn_def kn_resolve_def Let_def)
  moreover have "kn_revoked demo_kn demo_agent \<and> kn_resolve demo_kn demo_agent = None"
    "max (kn_count demo_kn) (kn_max_pinned demo_kn) = 1"
    by (simp_all add: demo_kn_def kn_revoked_def is_revoked_def kn_resolve_def kn_count_def)
  ultimately show ?thesis
    using pin_set_invariant [OF rtranclp.rtrancl_refl run demo_kn_wf] run by (intro exI [where x = ?kn]) auto
qed

text \<open>
  The last condition is needed: the check for revocation comes before the write lock is taken, so an
  identity that is revoked between a thread's check and its write is pinned although it is revoked.
\<close>

lemma revocation_race_pins:
  "\<exists>kn1 kn. (kn_step demo_crypto)\<^sup>*\<^sup>* (demo_kn, []) (kn1, [demo_vk]) \<and> kn_revoked kn1 (from_verifying_key demo_crypto demo_vk) \<and>
     kn_step demo_crypto (kn1, [demo_vk]) (kn, []) \<and> kn_resolve kn (from_verifying_key demo_crypto demo_vk) = Some demo_vk"
proof -
  let ?fp = "from_verifying_key demo_crypto demo_vk"
  obtain rs where rs: "kn_revocations demo_kn = Some rs" by (simp add: demo_kn_def)
  define kn1 where "kn1 = demo_kn\<lparr>kn_revocations := Some (snd (rev_record demo_crypto rs ?fp demo_rev))\<rparr>"
  define kn where "kn = snd (pin_write demo_crypto kn1 demo_vk 5)"
  have "kn_step demo_crypto (demo_kn, []) (demo_kn, [demo_vk])"
    by (rule read_section) (rule demo_pin_read)
  moreover have "kn_step demo_crypto (demo_kn, [demo_vk]) (kn1, [demo_vk])"
    unfolding kn1_def using rs by (rule revoke)
  moreover have "kn_revoked kn1 ?fp" by (simp add: kn1_def kn_revoked_def)
  moreover have "kn_step demo_crypto (kn1, [demo_vk]) (kn, remove1 demo_vk [demo_vk])"
    by (rule write_section [where now = 5 and out = "fst (pin_write demo_crypto kn1 demo_vk 5)"]) (simp_all add: kn_def)
  moreover have "kn_resolve kn ?fp = Some demo_vk"
    by (simp add: kn_def kn1_def pin_write_def demo_kn_def kn_resolve_def Let_def)
  ultimately show ?thesis by (intro exI [where x = kn1] exI [where x = kn]) (auto intro: converse_rtranclp_into_rtranclp)
qed

text \<open>
  The pin set survives a restart. If \<open>save\<close> reports success for a well-formed store, opening
  the file again, whatever bootstrap window is configured, gives a store with the same peers (key
  and pin time), in which no window restarts: the recorded deadline is kept.
\<close>

theorem kn_reopen:
  assumes "crypto_ok c" "kn_codec_ok k" "kn_wf c kn"
    and valid: "\<forall>(fp, p) \<in> set (kn_state kn). vk_valid c (p_verifying_key p)"
    and saved: "kn_save c k fault partial fs kn = (Inr (), fs')"
  shows "\<exists>kn'. kn_open c k NoFault fs' (kn_path kn) window now = Inr kn' \<and>
    kn_bootstrap_until kn' = kn_bootstrap_until kn \<and>
    map_of (kn_state kn') = map_of (kn_state kn) \<and> kn_wf c kn'"
proof -
  from saved obtain until files contents where
    u: "rfc3339_format k (kn_bootstrap_until kn) = Some until"
    and f: "pinned_peer_files c k (kn_state kn) = Inr files"
    and j: "json_print k \<lparr>sf_version = kn_FILE_VERSION, sf_bootstrap_until = until,
      sf_peers = sort_key pf_fingerprint files\<rparr> = Some contents"
    and w: "fs' (kn_path kn) = Some \<lparr>mode = kn_FILE_MODE, body = contents\<rparr>"
    by (auto simp: kn_save_def format_rfc3339_def Let_def dest!: write_then_rename_ok
        split: sum.splits if_splits)
  define ps where "ps = sort_key (\<lambda>e. pf_fingerprint (peer_file c k e)) (kn_state kn)"
  have sorted: "sort_key pf_fingerprint files = map (peer_file c k) ps"
    using pinned_peer_files_map [OF f] by (simp add: sort_key_map ps_def)
  have set_ps: "set ps = set (kn_state kn)" by (simp add: ps_def)
  have "distinct (map fst (kn_state kn))" using assms(3) by (rule kn_wfD)
  then have d: "distinct (map fst ps)"
    unfolding ps_def by (metis mset_map mset_sort mset_eq_imp_distinct_iff)
  have ok: "\<forall>(fp, p) \<in> set ps. vk_valid c (p_verifying_key p) \<and>
      from_verifying_key c (p_verifying_key p) = fp \<and> rfc3339_format k (p_pinned_at p) \<noteq> None"
    using valid assms(3) pinned_peer_files_map [OF f] unfolding set_ps kn_wf_def by fastforce
  from load_peers_map [OF assms(1,2) d _ ok, of "[]"] obtain st' where
    st': "load_peers c k [] (map (peer_file c k) ps) = Inr st'" "distinct (map fst st')"
      "map_of st' = map_of ps" by auto
  have same: "map_of ps = map_of (kn_state kn)"
    using d kn_wfD(1) [OF assms(3)] set_ps by (rule map_of_inject_set [THEN iffD2])
  let ?kn' = "\<lparr>kn_path = kn_path kn, kn_state = st', kn_bootstrap_until = kn_bootstrap_until kn,
    kn_max_pinned = DEFAULT_MAX_PINNED_PEERS, kn_revocations = None\<rparr>"
  have "kn_open c k NoFault fs' (kn_path kn) window now = Inr ?kn'"
    using assms(2) u j w st'(1) sorted by (simp add: kn_open_def kn_codec_ok_def parse_rfc3339_def)
  moreover have "kn_wf c ?kn'"
    using st' same kn_wfD(2) [OF assms(3)] by (auto simp: kn_wf_def dest: map_of_is_SomeI)
  ultimately show ?thesis using st'(3) same by auto
qed

text \<open>Packages that print one file, for evaluating the definitions.\<close>

definition demo_kn_codec :: "store_file \<Rightarrow> kn_codec" where
  "demo_kn_codec f = \<lparr>json_print = (\<lambda>g. if g = f then Some ''j'' else None),
     json_parse = (\<lambda>s. if s = ''j'' then Some f else None),
     rfc3339_format = (\<lambda>t. Some (replicate t (CHR ''t''))), rfc3339_parse = (\<lambda>s. Some (length s))\<rparr>"

lemma demo_kn_codec_ok: "kn_codec_ok (demo_kn_codec f)"
  by (auto simp: kn_codec_ok_def demo_kn_codec_def)

definition demo_pinned :: known_neighbors where
  "demo_pinned = demo_kn\<lparr>kn_state := [(from_verifying_key demo_crypto demo_vk,
     \<lparr>p_verifying_key = demo_vk, p_pinned_at = 3\<rparr>)]\<rparr>"

definition demo_store_file :: store_file where
  "demo_store_file = \<lparr>sf_version = kn_FILE_VERSION, sf_bootstrap_until = replicate 10 (CHR ''t''),
     sf_peers = [\<lparr>pf_fingerprint = to_hex demo_crypto (from_verifying_key demo_crypto demo_vk),
       pf_verifying_key = b64_encode demo_crypto demo_vk, pf_pinned_at = replicate 3 (CHR ''t'')\<rparr>]\<rparr>"

lemma demo_kn_saves:
  "fst (kn_save demo_crypto (demo_kn_codec demo_store_file) NoFault [] fs demo_pinned) = Inr ()"
proof -
  have "json_print (demo_kn_codec demo_store_file) demo_store_file = Some ''j''"
    by (simp add: demo_kn_codec_def)
  moreover have "kn_bootstrap_until demo_pinned = 10" "kn_path demo_pinned = [''kn'']"
    by (simp_all add: demo_pinned_def demo_kn_def)
  moreover have "format_rfc3339 (demo_kn_codec demo_store_file) t = Inr (replicate t (CHR ''t''))" for t
    by (simp add: format_rfc3339_def demo_kn_codec_def)
  moreover have "write_then_rename KnIo NoFault [] (fs(tmp_path_for p := None)) p s m
      = (Inr (), snd (write_then_rename KnIo NoFault [] (fs(tmp_path_for p := None)) p s m))" for p s m
    by (simp add: write_then_rename_no_fault prod_eq_iff)
  ultimately show ?thesis
    by (simp add: kn_save_def demo_pinned_def write_then_rename_no_fault flip: demo_store_file_def)
qed

theorem kn_reopen_witness:
  "\<exists>fs' kn'. kn_open demo_crypto (demo_kn_codec demo_store_file) NoFault fs' [''kn''] 99 50 = Inr kn' \<and>
     kn_bootstrap_until kn' = 10 \<and>
     kn_resolve kn' (from_verifying_key demo_crypto demo_vk) = Some demo_vk"
proof -
  let ?s = "kn_save demo_crypto (demo_kn_codec demo_store_file) NoFault [] (\<lambda>_. None) demo_pinned"
  have saved: "?s = (Inr (), snd ?s)" using demo_kn_saves by (simp add: prod_eq_iff)
  have wf: "kn_wf demo_crypto demo_pinned" by (simp add: kn_wf_def demo_pinned_def)
  have valid: "\<forall>(fp, p) \<in> set (kn_state demo_pinned). vk_valid demo_crypto (p_verifying_key p)"
    by (simp add: demo_pinned_def vk_valid_def demo_vk_def demo_crypto_def)
  from kn_reopen [OF demo_crypto_ok demo_kn_codec_ok wf valid saved, of 99 50] obtain kn' where
    "kn_open demo_crypto (demo_kn_codec demo_store_file) NoFault (snd ?s) [''kn''] 99 50 = Inr kn'"
    "kn_bootstrap_until kn' = 10" "map_of (kn_state kn') = map_of (kn_state demo_pinned)"
    by (auto simp: demo_pinned_def demo_kn_def)
  moreover from this(3) have "kn_resolve kn' (from_verifying_key demo_crypto demo_vk) = Some demo_vk"
    by (simp add: kn_resolve_def demo_pinned_def)
  ultimately show ?thesis by blast
qed

lemma pin_inner_state:
  "snd (snd (pin_inner c k fault partial fs kn vk bypass now)) =
     (if pin_read c kn vk bypass now = None then snd (pin_write c kn vk now) else kn)"
  by (auto simp: pin_inner_def split: option.split prod.split pin_outcome.split sum.split)

lemma pin_write_resolve:
  "kn_resolve (snd (pin_write c kn vk now)) =
     (if map_of (kn_state kn) (from_verifying_key c vk) = None \<and> kn_count kn < kn_max_pinned kn
      then (kn_resolve kn)(from_verifying_key c vk \<mapsto> vk) else kn_resolve kn)"
  by (auto simp: pin_write_def kn_resolve_def kn_count_def Let_def update_conv' fun_eq_iff)

text \<open>
  Whom \<open>try_pin\<close> and \<open>pin_authorized\<close> admit. After a pin attempt the store resolves what it did
  before, and in addition the given key under its fingerprint precisely when that identity is not
  revoked, not pinned yet, either the bootstrap window is open or the pin is authorised, and there
  is room. This holds for every outcome of the disk: a failed save does not undo the pin in memory.
\<close>

theorem pin_admits_exactly:
  "kn_resolve (snd (snd (pin_inner c k fault partial fs kn vk bypass now))) =
     (if \<not> kn_revoked kn (from_verifying_key c vk) \<and> kn_resolve kn (from_verifying_key c vk) = None \<and>
        (bypass \<or> bootstrap_active now kn) \<and> kn_count kn < kn_max_pinned kn
      then (kn_resolve kn)(from_verifying_key c vk \<mapsto> vk) else kn_resolve kn)"
  by (auto simp: pin_inner_state pin_read_None pin_write_resolve kn_resolve_def)

lemma pin_inner_resolve:
  assumes "kn_resolve (snd (snd (pin_inner c k fault partial fs kn vk bypass now))) fp \<noteq> kn_resolve kn fp"
  shows "fp = from_verifying_key c vk \<and> \<not> kn_revoked kn fp \<and> (bypass \<or> bootstrap_active now kn)"
  using assms
  by (auto simp: pin_inner_state pin_read_None pin_write_resolve split: if_splits)

lemma unpin_resolve:
  "kn_resolve (snd (snd (unpin c k fault partial fs kn fp))) = (kn_resolve kn)(fp := None)"
  by (auto simp: unpin_def kn_resolve_def Let_def delete_conv' fun_eq_iff split: prod.split sum.split)

lemma unpin_frame [simp]:
  "kn_revocations (snd (snd (unpin c k fault partial fs kn fp))) = kn_revocations kn"
  "kn_bootstrap_until (snd (snd (unpin c k fault partial fs kn fp))) = kn_bootstrap_until kn"
  by (auto simp: unpin_def Let_def split: prod.split sum.split)

lemma pin_inner_frame [simp]:
  "kn_revocations (snd (snd (pin_inner c k fault partial fs kn vk bypass now))) = kn_revocations kn"
  "kn_bootstrap_until (snd (snd (pin_inner c k fault partial fs kn vk bypass now))) = kn_bootstrap_until kn"
  by (auto simp: pin_inner_state pin_write_def Let_def)

end
