(* ===== verification/Enrollment.thy ===== *)
theory Enrollment
  imports Known_Neighbors
begin

text \<open>
  How a gossiping peer becomes a pinned one: the peer list the mesh builds from the gossip state
  (\<open>crates/bowery-mesh/src/lib.rs\<close>) and the enrollment decision and pin task of the agent
  (\<open>crates/bowery-agent/src/agent.rs\<close>). The gossip library is not part of the repository; what it
  delivers is a list of node ids with their key/value state.
\<close>

section \<open>Peers seen by the mesh\<close>

record peer_info =
  pi_fingerprint :: fingerprint
  pi_verifying_key :: verifying_key
  pi_whisper_addr :: string
  pi_agent_version :: string
  pi_platform :: string
  pi_role_vector :: "string option"
  pi_bloom_advert :: "string option"
  pi_membership_grant :: "string option"
  pi_log_report :: "string option"

type_synonym node_state = "string \<Rightarrow> string option"

definition KEY_VERSION :: string where "KEY_VERSION = ''version''"
definition KEY_PLATFORM :: string where "KEY_PLATFORM = ''platform''"
definition KEY_WHISPER_ADDR :: string where "KEY_WHISPER_ADDR = ''whisper_addr''"
definition KEY_VERIFYING_KEY :: string where "KEY_VERIFYING_KEY = ''verifying_key''"
definition KEY_ROLE_VECTOR :: string where "KEY_ROLE_VECTOR = ''role_vec''"
definition KEY_LOG_REPORT :: string where "KEY_LOG_REPORT = ''log_report''"
definition KEY_BLOOM_ADVERT :: string where "KEY_BLOOM_ADVERT = ''bloom_advert''"
definition KEY_MEMBERSHIP_GRANT :: string where "KEY_MEMBERSHIP_GRANT = ''membership_grant''"

text \<open>\<open>parse_addr\<close> stands for \<open>SocketAddr::from_str\<close>; the address keeps its text.\<close>

definition peer_info_of ::
    "crypto \<Rightarrow> (string \<Rightarrow> bool) \<Rightarrow> fingerprint \<Rightarrow> string \<times> node_state \<Rightarrow> peer_info option" where
  "peer_info_of c parse_addr self_fp node =
     (case node of (node_id, state) \<Rightarrow>
       Option.bind (case from_hex c node_id of Inl _ \<Rightarrow> None | Inr fp \<Rightarrow> Some fp) (\<lambda>fp.
       if fp = self_fp then None else
       Option.bind (state KEY_VERSION) (\<lambda>agent_version.
       let platform = (case state KEY_PLATFORM of None \<Rightarrow> [] | Some p \<Rightarrow> p) in
       Option.bind (state KEY_WHISPER_ADDR) (\<lambda>addr.
       if \<not> parse_addr addr then None else
       Option.bind (state KEY_VERIFYING_KEY) (\<lambda>vk_b64.
       Option.bind (b64_decode c vk_b64) (\<lambda>bs.
       Option.bind (to_array 32 bs) (\<lambda>arr.
       Option.bind (vk_from_bytes c arr) (\<lambda>vk.
       if from_verifying_key c vk \<noteq> fp then None
       else Some \<lparr>pi_fingerprint = fp, pi_verifying_key = vk, pi_whisper_addr = addr,
         pi_agent_version = agent_version, pi_platform = platform,
         pi_role_vector = state KEY_ROLE_VECTOR, pi_bloom_advert = state KEY_BLOOM_ADVERT,
         pi_membership_grant = state KEY_MEMBERSHIP_GRANT,
         pi_log_report = state KEY_LOG_REPORT\<rparr>))))))))"

definition build_peer_infos ::
    "crypto \<Rightarrow> (string \<Rightarrow> bool) \<Rightarrow> (string \<times> node_state) list \<Rightarrow> fingerprint \<Rightarrow> peer_info list" where
  "build_peer_infos c parse_addr nodes self_fp =
     List.map_filter (peer_info_of c parse_addr self_fp) nodes"

lemma peer_info_of_owner:
  "peer_info_of c parse_addr self_fp node = Some p \<Longrightarrow>
   from_verifying_key c (pi_verifying_key p) = pi_fingerprint p \<and> pi_fingerprint p \<noteq> self_fp"
  by (auto simp: peer_info_of_def Let_def bind_eq_Some_conv split: if_splits sum.splits prod.splits)

lemma build_peer_infos_owner:
  "p \<in> set (build_peer_infos c parse_addr nodes self_fp) \<Longrightarrow>
   from_verifying_key c (pi_verifying_key p) = pi_fingerprint p \<and> pi_fingerprint p \<noteq> self_fp"
proof -
  assume "p \<in> set (build_peer_infos c parse_addr nodes self_fp)"
  then obtain node where "peer_info_of c parse_addr self_fp node = Some p"
    by (auto simp: build_peer_infos_def List.map_filter_def)
  then show ?thesis by (rule peer_info_of_owner)
qed

section \<open>The enrollment decision\<close>

datatype enrollment_policy = TofuPolicy | GrantPolicy

datatype admission = Granted | Tofu | Refused

record enrollment_context =
  ec_policy :: enrollment_policy
  ec_cluster_id :: string
  ec_operators :: static_resolver
  ec_revocations :: revocation_store

definition decode_grant ::
    "crypto \<Rightarrow> (bytes \<Rightarrow> membership_grant option) \<Rightarrow> string option \<Rightarrow> membership_grant option" where
  "decode_grant c grant_decode encoded =
     Option.bind encoded (\<lambda>s. Option.bind (b64_decode c s) grant_decode)"

definition admits ::
    "crypto \<Rightarrow> (bytes \<Rightarrow> membership_grant option) \<Rightarrow> nat option \<Rightarrow> enrollment_context \<Rightarrow> peer_info
     \<Rightarrow> admission" where
  "admits c grant_decode now ec peer =
     (let tofu = (ec_policy ec = TofuPolicy) in
      case decode_grant c grant_decode (pi_membership_grant peer) of
        None \<Rightarrow> if tofu then Tofu else Refused
      | Some grant \<Rightarrow>
          (case verify_grant c grant (pi_fingerprint peer) (ec_cluster_id ec)
             (static_resolve (ec_operators ec)) now of
             Inr _ \<Rightarrow> Granted
           | Inl _ \<Rightarrow> if tofu then Tofu else Refused))"

text \<open>One peer of the snapshot: the body of the loop of \<open>spawn_pin_task\<close>.\<close>

definition pin_peer ::
    "crypto \<Rightarrow> kn_codec \<Rightarrow> (bytes \<Rightarrow> membership_grant option) \<Rightarrow> enrollment_context
     \<Rightarrow> fs \<times> known_neighbors \<Rightarrow> peer_info \<times> fault \<times> string \<times> nat \<Rightarrow> fs \<times> known_neighbors" where
  "pin_peer c k grant_decode ec s ev =
     (case (s, ev) of ((fs, kn), (peer, fault, partial, now)) \<Rightarrow>
       if is_revoked (ec_revocations ec) (pi_fingerprint peer)
       then snd (unpin c k fault partial fs kn (pi_fingerprint peer))
       else case admits c grant_decode (Some (now div 1000000)) ec peer of
         Refused \<Rightarrow> (fs, kn)
       | Granted \<Rightarrow> snd (pin_authorized c k fault partial fs kn (pi_verifying_key peer) now)
       | Tofu \<Rightarrow> snd (try_pin c k fault partial fs kn (pi_verifying_key peer) now))"

definition pin_sweep ::
    "crypto \<Rightarrow> kn_codec \<Rightarrow> (bytes \<Rightarrow> membership_grant option) \<Rightarrow> enrollment_context
     \<Rightarrow> fs \<times> known_neighbors \<Rightarrow> (peer_info \<times> fault \<times> string \<times> nat) list \<Rightarrow> fs \<times> known_neighbors" where
  "pin_sweep c k grant_decode ec s evs = foldl (pin_peer c k grant_decode ec) s evs"

text \<open>The eviction of peers revoked while the agent was down, at startup.\<close>

definition evict_revoked ::
    "crypto \<Rightarrow> kn_codec \<Rightarrow> revocation_store \<Rightarrow> (fingerprint \<Rightarrow> fault \<times> string) \<Rightarrow> fs \<times> known_neighbors
     \<Rightarrow> fs \<times> known_neighbors" where
  "evict_revoked c k revs env s =
     foldl (\<lambda>(fs, kn) fp. if is_revoked revs fp
         then snd (unpin c k (fst (env fp)) (snd (env fp)) fs kn fp) else (fs, kn))
       s (kn_fingerprints (snd s))"

section \<open>Facts\<close>

lemma admits_Granted:
  assumes "admits c gd now ec peer = Granted"
  obtains g where "decode_grant c gd (pi_membership_grant peer) = Some g"
    "verify_grant c g (pi_fingerprint peer) (ec_cluster_id ec) (static_resolve (ec_operators ec)) now
     = Inr ()"
  using assms by (auto simp: admits_def Let_def split: option.splits sum.splits if_splits)

lemma admits_GrantPolicy: "ec_policy ec = GrantPolicy \<Longrightarrow> admits c gd now ec peer \<noteq> Tofu"
  by (auto simp: admits_def Let_def split: option.splits sum.splits)

text \<open>A peer whose admission rests on a verified grant.\<close>

definition holds_grant ::
    "crypto \<Rightarrow> (bytes \<Rightarrow> membership_grant option) \<Rightarrow> enrollment_context \<Rightarrow> nat \<Rightarrow> peer_info \<Rightarrow> bool" where
  "holds_grant c gd ec now peer \<longleftrightarrow> (\<exists>g. decode_grant c gd (pi_membership_grant peer) = Some g \<and>
     verify_grant c g (pi_fingerprint peer) (ec_cluster_id ec) (static_resolve (ec_operators ec))
       (Some (now div 1000000)) = Inr ())"

lemma pin_peer_revoked:
  "is_revoked (ec_revocations ec) (pi_fingerprint peer) \<Longrightarrow>
   kn_resolve (snd (pin_peer c k gd ec (fs, kn) (peer, fault, partial, now)))
   = (kn_resolve kn)(pi_fingerprint peer := None)"
  by (simp add: pin_peer_def unpin_resolve)

lemma pin_peer_adds:
  assumes "kn_resolve (snd (pin_peer c k gd ec (fs, kn) (peer, fault, partial, now))) fp = Some vk"
    and "kn_resolve kn fp \<noteq> Some vk"
  shows "fp = from_verifying_key c (pi_verifying_key peer) \<and>
    \<not> is_revoked (ec_revocations ec) (pi_fingerprint peer) \<and>
    (holds_grant c gd ec now peer \<or> ec_policy ec = TofuPolicy \<and> bootstrap_active now kn)"
proof -
  have nr: "\<not> is_revoked (ec_revocations ec) (pi_fingerprint peer)"
    using assms pin_peer_revoked [of ec peer c k gd fs kn fault partial now]
    by (auto split: if_splits)
  show ?thesis
  proof (cases "admits c gd (Some (now div 1000000)) ec peer")
    case Granted
    with nr assms have "kn_resolve (snd (snd (pin_inner c k fault partial fs kn
        (pi_verifying_key peer) True now))) fp \<noteq> kn_resolve kn fp"
      by (simp add: pin_peer_def pin_authorized_def)
    moreover have "holds_grant c gd ec now peer"
      using Granted by (auto simp: holds_grant_def elim: admits_Granted)
    ultimately show ?thesis using nr by (auto dest: pin_inner_resolve)
  next
    case Tofu
    with nr assms have "kn_resolve (snd (snd (pin_inner c k fault partial fs kn
        (pi_verifying_key peer) False now))) fp \<noteq> kn_resolve kn fp"
      by (simp add: pin_peer_def try_pin_def)
    moreover have "ec_policy ec = TofuPolicy"
      using Tofu admits_GrantPolicy by (cases "ec_policy ec") auto
    ultimately show ?thesis using nr by (auto dest: pin_inner_resolve)
  next
    case Refused
    with nr assms show ?thesis by (simp add: pin_peer_def)
  qed
qed

lemma pin_peer_deadline [simp]:
  "kn_bootstrap_until (snd (pin_peer c k gd ec s ev)) = kn_bootstrap_until (snd s)"
  by (auto simp: pin_peer_def pin_authorized_def try_pin_def split: prod.split admission.split)

lemma pin_sweep_Cons [simp]:
  "pin_sweep c k gd ec s (ev # evs) = pin_sweep c k gd ec (pin_peer c k gd ec s ev) evs"
  by (simp add: pin_sweep_def)

lemma pin_sweep_Nil [simp]: "pin_sweep c k gd ec s [] = s"
  by (simp add: pin_sweep_def)

lemma pin_sweep_adds:
  assumes "kn_resolve (snd (pin_sweep c k gd ec s evs)) fp = Some vk" "kn_resolve (snd s) fp \<noteq> Some vk"
  shows "\<exists>(peer, fault, partial, now) \<in> set evs. fp = from_verifying_key c (pi_verifying_key peer) \<and>
    \<not> is_revoked (ec_revocations ec) (pi_fingerprint peer) \<and>
    (holds_grant c gd ec now peer \<or>
     ec_policy ec = TofuPolicy \<and> now < kn_bootstrap_until (snd s))"
  using assms
proof (induction evs arbitrary: s)
  case (Cons ev evs)
  let ?s = "pin_peer c k gd ec s ev"
  show ?case
  proof (cases "kn_resolve (snd ?s) fp = Some vk")
    case True
    obtain fs kn peer fault partial now where s: "s = (fs, kn)" "ev = (peer, fault, partial, now)"
      by (metis surj_pair)
    from True Cons.prems(2) pin_peer_adds [of c k gd ec fs kn peer fault partial now fp vk]
    show ?thesis by (auto simp: s bootstrap_active_def)
  next
    case False
    with Cons show ?thesis by fastforce
  qed
qed simp

text \<open>A revoked peer of the snapshot is out after the sweep, and no later peer brings it back.\<close>

lemma pin_peer_keeps_out:
  assumes "kn_resolve kn fp = None" "is_revoked (ec_revocations ec) fp"
    and "from_verifying_key c (pi_verifying_key peer) = pi_fingerprint peer"
  shows "kn_resolve (snd (pin_peer c k gd ec (fs, kn) (peer, fault, partial, now))) fp = None"
proof (rule ccontr)
  assume "\<not> ?thesis"
  then obtain vk where "kn_resolve (snd (pin_peer c k gd ec (fs, kn) (peer, fault, partial, now))) fp
    = Some vk" by blast
  from pin_peer_adds [OF this] assms show False by auto
qed

lemma pin_sweep_keeps_out:
  assumes "kn_resolve (snd s) fp = None" "is_revoked (ec_revocations ec) fp"
    and "\<forall>(peer, _) \<in> set evs. from_verifying_key c (pi_verifying_key peer) = pi_fingerprint peer"
  shows "kn_resolve (snd (pin_sweep c k gd ec s evs)) fp = None"
  using assms
proof (induction evs arbitrary: s)
  case (Cons ev evs)
  obtain fs kn peer fault partial now where s: "s = (fs, kn)" "ev = (peer, fault, partial, now)"
    by (metis surj_pair)
  from Cons.prems s have "kn_resolve (snd (pin_peer c k gd ec s ev)) fp = None"
    by (auto intro: pin_peer_keeps_out)
  with Cons show ?case by simp
qed simp

lemma pin_sweep_evicts:
  assumes "(peer, x) \<in> set evs" "is_revoked (ec_revocations ec) (pi_fingerprint peer)"
    and "\<forall>(peer, _) \<in> set evs. from_verifying_key c (pi_verifying_key peer) = pi_fingerprint peer"
  shows "kn_resolve (snd (pin_sweep c k gd ec s evs)) (pi_fingerprint peer) = None"
  using assms
proof (induction evs arbitrary: s)
  case (Cons ev evs)
  show ?case
  proof (cases "ev = (peer, x)")
    case True
    obtain fs kn fault partial now where s: "s = (fs, kn)" "x = (fault, partial, now)"
      by (metis surj_pair)
    have "kn_resolve (snd (pin_peer c k gd ec s ev)) (pi_fingerprint peer) = None"
      using Cons.prems(2) by (simp add: s True pin_peer_revoked)
    then show ?thesis using Cons.prems by (auto intro: pin_sweep_keeps_out)
  next
    case False
    with Cons show ?thesis by simp
  qed
qed simp

lemma evict_fold_resolve:
  "kn_resolve (snd (foldl (\<lambda>(fs, kn) fp. if is_revoked revs fp
       then snd (unpin c k (fst (env fp)) (snd (env fp)) fs kn fp) else (fs, kn)) s L)) q
   = (if q \<in> set L \<and> is_revoked revs q then None else kn_resolve (snd s) q)"
proof (induction L arbitrary: s)
  case (Cons fp L)
  obtain fs kn where "s = (fs, kn)" by fastforce
  with Cons show ?case by (simp add: unpin_resolve)
qed simp

lemma kn_resolve_dom: "kn_resolve kn fp \<noteq> None \<longleftrightarrow> fp \<in> set (kn_fingerprints kn)"
  by (auto simp: kn_resolve_def kn_fingerprints_def map_of_eq_None_iff)

section \<open>Properties\<close>

text \<open>
  C5. Under the grant policy only operator-granted peers are pinned. Let the pin task sweep the
  peers the mesh reports, with any outcome of the disk at each step. Every key that resolves after
  the sweep and did not before belongs to a peer of the snapshot, under that peer's own fingerprint,
  which is not revoked and presented a grant that \<open>verify_grant\<close> accepts for that fingerprint and
  this cluster under a configured operator's key.
\<close>

theorem grant_enrollment_sound:
  assumes policy: "ec_policy ec = GrantPolicy"
    and peers: "\<forall>(peer, _) \<in> set evs. peer \<in> set (build_peer_infos c parse_addr nodes self_fp)"
    and new: "kn_resolve (snd (pin_sweep c k gd ec s evs)) fp = Some vk" "kn_resolve (snd s) fp \<noteq> Some vk"
  shows "\<exists>(peer, fault, partial, now) \<in> set evs. pi_fingerprint peer = fp \<and> fp \<noteq> self_fp \<and>
    \<not> is_revoked (ec_revocations ec) fp \<and> holds_grant c gd ec now peer"
proof -
  from pin_sweep_adds [OF new] policy obtain peer fault partial now where
    ev: "(peer, fault, partial, now) \<in> set evs"
    and p: "fp = from_verifying_key c (pi_verifying_key peer)"
      "\<not> is_revoked (ec_revocations ec) (pi_fingerprint peer)" "holds_grant c gd ec now peer"
    by auto
  from ev peers have "peer \<in> set (build_peer_infos c parse_addr nodes self_fp)" by auto
  from build_peer_infos_owner [OF this] p have "pi_fingerprint peer = fp" "fp \<noteq> self_fp" by simp_all
  with ev p show ?thesis by (auto intro!: bexI [where x = "(peer, fault, partial, now)"])
qed

definition demo_node :: "verifying_key \<Rightarrow> string \<times> node_state" where
  "demo_node vk = (to_hex demo_crypto vk, [KEY_VERSION \<mapsto> ''1'', KEY_WHISPER_ADDR \<mapsto> ''a'',
     KEY_VERIFYING_KEY \<mapsto> b64_encode demo_crypto vk, KEY_MEMBERSHIP_GRANT \<mapsto> ''A''])"

definition demo_peer :: "verifying_key \<Rightarrow> peer_info" where
  "demo_peer vk = \<lparr>pi_fingerprint = vk, pi_verifying_key = vk, pi_whisper_addr = ''a'',
     pi_agent_version = ''1'', pi_platform = [], pi_role_vector = None, pi_bloom_advert = None,
     pi_membership_grant = Some ''A'', pi_log_report = None\<rparr>"

lemma demo_key_is_fp: "length vk = 32 \<Longrightarrow> from_verifying_key demo_crypto vk = vk"
  by (simp add: from_verifying_key_def demo_crypto_def pad_def)

lemmas gossip_keys = KEY_VERSION_def KEY_PLATFORM_def KEY_WHISPER_ADDR_def KEY_VERIFYING_KEY_def
  KEY_ROLE_VECTOR_def KEY_LOG_REPORT_def KEY_BLOOM_ADVERT_def KEY_MEMBERSHIP_GRANT_def

lemma demo_peer_seen:
  assumes "length vk = 32" "vk \<noteq> self"
  shows "build_peer_infos demo_crypto (\<lambda>_. True) [demo_node vk] self = [demo_peer vk]"
proof -
  have "vk_from_bytes demo_crypto vk = Some vk" using assms(1) by (simp add: demo_crypto_def)
  then have "peer_info_of demo_crypto (\<lambda>_. True) self (demo_node vk) = Some (demo_peer vk)"
    using assms from_hex_to_hex [OF demo_crypto_ok assms(1)]
    by (simp add: peer_info_of_def demo_node_def demo_peer_def gossip_keys to_array_def
        demo_key_is_fp crypto_okD [OF demo_crypto_ok])
  then show ?thesis by (simp add: build_peer_infos_def List.map_filter_def)
qed

definition demo_member :: membership_grant where
  "demo_member = \<lparr>mg_agent_fp = demo_vk, mg_cluster_id = ''prod'', mg_issued_unix_ms = 1,
     mg_expires_unix_ms = 0, mg_operator_fp = fingerprint_of demo_crypto demo_operator,
     mg_sig = sign demo_crypto demo_operator (mg_signing_input demo_vk ''prod'' 1 0
       (fingerprint_of demo_crypto demo_operator))\<rparr>"

definition demo_grant_decode :: "bytes \<Rightarrow> membership_grant option" where
  "demo_grant_decode b = (if b = [65] then Some demo_member else None)"

definition demo_context :: enrollment_context where
  "demo_context = \<lparr>ec_policy = GrantPolicy, ec_cluster_id = ''prod'',
     ec_operators = \<lparr>keys = demo_trusted\<rparr>, ec_revocations = the (kn_revocations demo_kn)\<rparr>"

lemma demo_member_ok: "verify_grant demo_crypto demo_member demo_vk ''prod'' demo_trusted now = Inr ()"
  unfolding verify_grant_ok
  by (simp add: demo_member_def demo_trusted_def demo_vk_def mg_to_signing_input_def to_array_def
      demo_signature demo_crypto_ok)

lemma demo_vk_length [simp]: "length demo_vk = 32" "length demo_agent = 32"
  by (simp_all add: demo_vk_def demo_agent_def)

lemma demo_vk_not_agent: "demo_vk \<noteq> demo_agent"
  using demo_vk_fp by (simp add: demo_key_is_fp)

lemma demo_pinned_by_sweep:
  "kn_resolve (snd (pin_sweep demo_crypto k demo_grant_decode demo_context (fs, demo_kn)
     [(demo_peer demo_vk, fault, partial, 20)])) demo_vk = Some demo_vk"
proof -
  have "\<not> is_revoked (ec_revocations demo_context) demo_vk" "\<not> kn_revoked demo_kn demo_vk"
    using demo_vk_not_agent by (simp_all add: demo_context_def is_revoked_def demo_kn_def kn_revoked_def)
  moreover have "static_resolve \<lparr>keys = demo_trusted\<rparr> = demo_trusted"
    by (simp add: static_resolve_def fun_eq_iff)
  then have "admits demo_crypto demo_grant_decode (Some t) demo_context (demo_peer demo_vk) = Granted" for t
    by (simp add: admits_def demo_context_def demo_peer_def decode_grant_def demo_b64
        demo_grant_decode_def demo_member_ok)
  moreover have "map_of (kn_state demo_kn) demo_vk = None" "kn_count demo_kn < kn_max_pinned demo_kn"
    by (simp_all add: demo_kn_def kn_count_def)
  ultimately show ?thesis
    by (simp add: pin_peer_def demo_peer_def pin_authorized_def pin_inner_state pin_read_None
        pin_write_resolve demo_key_is_fp)
qed

theorem grant_enrollment_sound_witness:
  "\<exists>(peer, fault, partial, now) \<in> {(demo_peer demo_vk, NoFault, [], 20)}.
     pi_fingerprint peer = demo_vk \<and>
     holds_grant demo_crypto demo_grant_decode demo_context now peer"
proof -
  have "ec_policy demo_context = GrantPolicy" by (simp add: demo_context_def)
  moreover have "\<forall>(peer, _) \<in> set [(demo_peer demo_vk, NoFault, [] :: string, 20 :: nat)].
      peer \<in> set (build_peer_infos demo_crypto (\<lambda>_. True) [demo_node demo_vk] demo_agent)"
    using demo_peer_seen [of demo_vk demo_agent] demo_vk_not_agent by simp
  moreover have "kn_resolve (snd (\<lambda>_. None, demo_kn)) demo_vk \<noteq> Some demo_vk"
    by (simp add: demo_kn_def kn_resolve_def)
  ultimately show ?thesis
    using grant_enrollment_sound [where k = "demo_kn_codec demo_store_file", OF _ _ demo_pinned_by_sweep]
    by fastforce
qed

text \<open>
  A revoked peer does not keep its pin. After one sweep of the pin task no peer of the snapshot
  that is revoked resolves any more, whatever the disk did; and after the eviction at startup no
  revoked identity at all resolves, while every other pin is untouched.
\<close>

theorem revoked_peers_are_evicted:
  assumes "\<forall>(peer, _) \<in> set evs. peer \<in> set (build_peer_infos c parse_addr nodes self_fp)"
  shows "(\<forall>(peer, _) \<in> set evs. is_revoked (ec_revocations ec) (pi_fingerprint peer) \<longrightarrow>
      kn_resolve (snd (pin_sweep c k gd ec s evs)) (pi_fingerprint peer) = None) \<and>
    kn_resolve (snd (evict_revoked c k revs env s)) fp
      = (if is_revoked revs fp then None else kn_resolve (snd s) fp)"
proof
  have own: "\<forall>(peer, _) \<in> set evs. from_verifying_key c (pi_verifying_key peer) = pi_fingerprint peer"
    using assms build_peer_infos_owner by fast
  then show "\<forall>(peer, _) \<in> set evs. is_revoked (ec_revocations ec) (pi_fingerprint peer) \<longrightarrow>
      kn_resolve (snd (pin_sweep c k gd ec s evs)) (pi_fingerprint peer) = None"
    by (auto intro: pin_sweep_evicts [OF _ _ own])
  show "kn_resolve (snd (evict_revoked c k revs env s)) fp
      = (if is_revoked revs fp then None else kn_resolve (snd s) fp)"
    using kn_resolve_dom [of "snd s" fp] by (auto simp: evict_revoked_def evict_fold_resolve)
qed

theorem revoked_peers_are_evicted_witness:
  "kn_resolve (snd (pin_sweep demo_crypto (demo_kn_codec demo_store_file) demo_grant_decode
     demo_context (\<lambda>_. None, demo_kn\<lparr>kn_state := [(demo_agent, \<lparr>p_verifying_key = demo_agent,
       p_pinned_at = 1\<rparr>)]\<rparr>) [(demo_peer demo_agent, FailWrite, [], 20)])) demo_agent = None"
proof -
  have "\<forall>(peer, _) \<in> set [(demo_peer demo_agent, FailWrite, [] :: string, 20 :: nat)].
      peer \<in> set (build_peer_infos demo_crypto (\<lambda>_. True) [demo_node demo_agent] demo_vk)"
    using demo_peer_seen [of demo_agent demo_vk] demo_vk_not_agent by simp
  moreover have "is_revoked (ec_revocations demo_context) demo_agent"
    by (simp add: demo_context_def demo_kn_def is_revoked_def)
  moreover have "pi_fingerprint (demo_peer demo_agent) = demo_agent" by (simp add: demo_peer_def)
  ultimately show ?thesis
    using revoked_peers_are_evicted [THEN conjunct1, of "[(demo_peer demo_agent, FailWrite, [], 20)]"
        demo_crypto "\<lambda>_. True" "[demo_node demo_agent]" demo_vk]
    by fastforce
qed

end
