(* ===== verification/Response.thy ===== *)
theory Response
  imports Storage "HOL-Library.List_Lexorder" "HOL-Library.Char_ord"
begin

text \<open>
  Autonomous response, \<open>crates/bowery-response/src\<close>: the operator's policy (\<open>policy.rs\<close>), the typed
  actions (\<open>action.rs\<close>), and the engines that carry them out (\<open>engine.rs\<close>, \<open>dry_run.rs\<close>,
  \<open>process_kill.rs\<close>, and \<open>bowery-agent/src/response_bpf.rs\<close> with the block lists of
  \<open>bowery-ebpf-loader/src/lib.rs\<close>). What an engine does to the host is explicit state: the signals
  sent and the keys of the two kernel block lists.
\<close>

section \<open>Actions\<close>

datatype action =
    KillProcess (a_pid: u32) (a_episode: string)
  | BlockExec (a_comm: string) (a_episode: string)
  | BlockExecByInode (a_dev: u64) (a_ino: u64) (a_path: string) (a_episode: string)

fun action_id :: "action \<Rightarrow> string" where
  "action_id (KillProcess _ _) = ''kill_process''"
| "action_id (BlockExec _ _) = ''block_exec''"
| "action_id (BlockExecByInode _ _ _ _) = ''block_exec_by_inode''"

definition known_ids :: "string list" where
  "known_ids = [''kill_process'', ''block_exec'', ''block_exec_by_inode'']"

datatype action_outcome =
    Executed (o_at: u64)
  | AlreadyGone
  | Suppressed (o_reason: string)
  | Failed (o_reason: string)
  | WouldExecute (o_would: string) (o_at: u64)

datatype action_error =
    KillFailed u32 string
  | Unimplemented string
  | Invalid string

text \<open>The clock: milliseconds since the epoch, absent before it.\<close>

definition millis_or_zero :: "nat option \<Rightarrow> u64" where
  "millis_or_zero now = (case now of None \<Rightarrow> 0 | Some ms \<Rightarrow> if ms < 2 ^ 64 then word_of_nat ms else 0)"

definition executed_now :: "nat option \<Rightarrow> action_outcome" where
  "executed_now now = Executed (millis_or_zero now)"

definition would_execute :: "nat option \<Rightarrow> string \<Rightarrow> action_outcome" where
  "would_execute now would = WouldExecute would (millis_or_zero now)"

fun changed_the_host :: "action_outcome \<Rightarrow> bool" where
  "changed_the_host (Executed _) = True"
| "changed_the_host _ = False"

definition from_id :: "string \<Rightarrow> string \<Rightarrow> u32 option \<Rightarrow> string option \<Rightarrow> action option" where
  "from_id i episode_id pid comm =
     (if i = ''kill_process'' then Option.bind pid (\<lambda>pid. Some (KillProcess pid episode_id))
      else if i = ''block_exec'' then Option.bind comm (\<lambda>comm. Some (BlockExec comm episode_id))
      else None)"

definition PROTECTED_EXEC_PREFIXES :: "string list" where
  "PROTECTED_EXEC_PREFIXES =
     [''/usr/sbin/sshd'', ''/usr/lib/openssh/'', ''/usr/bin/sudo'', ''/usr/bin/su'', ''/bin/su'',
      ''/usr/bin/login'', ''/bin/login'', ''/usr/lib/systemd/'', ''/lib/systemd/'',
      ''/usr/bin/systemctl'', ''/sbin/init'', ''/usr/sbin/init'', ''/usr/bin/bowery-agent'',
      ''/usr/bin/bowery'']"

definition is_protected_exec_path :: "string \<Rightarrow> bool" where
  "is_protected_exec_path p = list_ex (starts_with p) PROTECTED_EXEC_PREFIXES"

definition kernel_dev_from_stat_dev :: "u64 \<Rightarrow> u64" where
  "kernel_dev_from_stat_dev st_dev =
     (let major = (drop_bit 8 st_dev AND 0x0fff) OR (drop_bit 32 st_dev AND NOT 0x0fff);
          minor = (st_dev AND 0xff) OR (drop_bit 12 st_dev AND NOT 0xff)
      in push_bit 20 major OR minor)"

text \<open>\<open>std::fs::metadata\<close> of a path: the device as \<open>stat\<close> reports it, and the inode.\<close>

definition block_exec_by_inode_for ::
    "(string \<Rightarrow> (u64 \<times> u64) option) \<Rightarrow> string \<Rightarrow> string \<Rightarrow> action option" where
  "block_exec_by_inode_for metadata p episode_id =
     (if is_protected_exec_path p then None
      else Option.bind (metadata p) (\<lambda>(dev, ino).
        Some (BlockExecByInode (kernel_dev_from_stat_dev dev) ino p episode_id)))"

section \<open>Policy\<close>

definition DEFAULT_BLOCK_EXEC_DENY_LIST :: "string list" where
  "DEFAULT_BLOCK_EXEC_DENY_LIST =
     [''sshd'', ''login'', ''su'', ''sudo'', ''init'', ''systemd'', ''systemd-journald'',
      ''systemd-logind'', ''systemd-udevd'', ''systemd-networkd'', ''systemd-resolved'',
      ''openrc-init'', ''kthreadd'', ''kworker'', ''bowery-agent'']"

record response_policy =
  allowed_actions :: "string list"
  disabled :: bool
  block_exec_deny_list :: "string list"
  require_corroboration :: "string list"

definition default_policy :: response_policy where
  "default_policy = \<lparr>allowed_actions = [], disabled = False, block_exec_deny_list = [],
     require_corroboration = []\<rparr>"

datatype policy_load_error = PolicyIo | PolicyParse

text \<open>What reading the policy file gives: its text, "not found", or another error.\<close>

datatype read_result = Contents string | NotFound | ReadError

definition policy_load ::
    "(string \<Rightarrow> response_policy option) \<Rightarrow> read_result \<Rightarrow> policy_load_error + response_policy" where
  "policy_load parse r =
     (case r of
        Contents s \<Rightarrow> ok_or PolicyParse (parse s)
      | NotFound \<Rightarrow> Inr default_policy
      | ReadError \<Rightarrow> Inl PolicyIo)"

definition permits :: "response_policy \<Rightarrow> string \<Rightarrow> bool" where
  "permits p i = (if disabled p then False else i \<in> set (allowed_actions p))"

definition needs_corroboration :: "response_policy \<Rightarrow> string \<Rightarrow> bool" where
  "needs_corroboration p i \<longleftrightarrow> i \<in> set (require_corroboration p)"

definition permits_block_exec_comm :: "response_policy \<Rightarrow> string \<Rightarrow> bool" where
  "permits_block_exec_comm p comm =
     (if comm \<in> set DEFAULT_BLOCK_EXEC_DENY_LIST then False
      else if comm \<in> set (block_exec_deny_list p) then False
      else True)"

definition effective_block_exec_deny_list :: "response_policy \<Rightarrow> string list" where
  "effective_block_exec_deny_list p =
     remdups_adj (sort (DEFAULT_BLOCK_EXEC_DENY_LIST @ block_exec_deny_list p))"

definition policy_warnings :: "response_policy \<Rightarrow> string list" where
  "policy_warnings p = filter (\<lambda>s. s \<notin> set known_ids) (allowed_actions p)"

section \<open>The host\<close>

text \<open>
  The kernel block lists are LRU maps: an insert may evict entries, which ones the kernel decides.
\<close>

record host =
  h_signalled :: "u32 list"
  h_blocked_comms :: "bytes set"
  h_blocked_inodes :: "(u64 \<times> u64) set"
  h_inode_armed :: bool

datatype kill_result = KillOk | ESRCH | OtherErrno string

text \<open>Everything the engines read from the operating system.\<close>

record os =
  os_now :: "nat option"
  os_pid_comm :: "u32 \<Rightarrow> string option"
  os_kill :: "u32 \<Rightarrow> kill_result"
  os_map_insert :: "string option"
  os_evicted_comms :: "bytes set"
  os_evicted_inodes :: "(u64 \<times> u64) set"

definition comm_key :: "string \<Rightarrow> bytes" where
  "comm_key comm = (let bs = str_bytes comm; n = min (length bs) 15 in take n bs @ replicate (16 - n) 0)"

definition block_comm :: "os \<Rightarrow> string \<Rightarrow> host \<Rightarrow> (string + unit) \<times> host" where
  "block_comm os comm h =
     (case os_map_insert os of
        Some e \<Rightarrow> (Inl e, h)
      | None \<Rightarrow> (Inr (), h\<lparr>h_blocked_comms :=
          insert (comm_key comm) (h_blocked_comms h - os_evicted_comms os)\<rparr>))"

definition unblock_comm :: "string \<Rightarrow> host \<Rightarrow> bool \<times> host" where
  "unblock_comm comm h =
     (if comm_key comm \<in> h_blocked_comms h
      then (True, h\<lparr>h_blocked_comms := h_blocked_comms h - {comm_key comm}\<rparr>) else (False, h))"

definition block_inode :: "os \<Rightarrow> u64 \<Rightarrow> u64 \<Rightarrow> host \<Rightarrow> (string + unit) \<times> host" where
  "block_inode os dev ino h =
     (if \<not> h_inode_armed h then (Inl (''inode matching is not armed on this kernel; '' @
        ''refusing to pretend a block was installed''), h)
      else case os_map_insert os of
        Some e \<Rightarrow> (Inl e, h)
      | None \<Rightarrow> (Inr (), h\<lparr>h_blocked_inodes :=
          insert (dev, ino) (h_blocked_inodes h - os_evicted_inodes os)\<rparr>))"

definition unblock_inode :: "u64 \<Rightarrow> u64 \<Rightarrow> host \<Rightarrow> bool \<times> host" where
  "unblock_inode dev ino h =
     (if (dev, ino) \<in> h_blocked_inodes h
      then (True, h\<lparr>h_blocked_inodes := h_blocked_inodes h - {(dev, ino)}\<rparr>) else (False, h))"

section \<open>Engines\<close>

text \<open>
  A \<open>Box<dyn ResponseEngine>\<close>: which engine it is, with its policy, and for the killing engine the
  agent's own pid. The texts of outcomes are the code's, without the numbers formatted into them.
\<close>

datatype engine =
    NoopEngine response_policy
  | ProcessKillEngine response_policy u32
  | BpfLsmEngine response_policy
  | DryRunEngine engine

primrec engine_policy :: "engine \<Rightarrow> response_policy" where
  "engine_policy (NoopEngine p) = p"
| "engine_policy (ProcessKillEngine p self_pid) = p"
| "engine_policy (BpfLsmEngine p) = p"
| "engine_policy (DryRunEngine e) = engine_policy e"

primrec engine_name :: "engine \<Rightarrow> string" where
  "engine_name (NoopEngine p) = ''noop''"
| "engine_name (ProcessKillEngine p self_pid) = ''process-kill''"
| "engine_name (BpfLsmEngine p) = ''bpf-lsm''"
| "engine_name (DryRunEngine e) = ''dry-run''"

definition noop_execute ::
    "os \<Rightarrow> response_policy \<Rightarrow> action \<Rightarrow> host \<Rightarrow> (action_error + action_outcome) \<times> host" where
  "noop_execute os p a h =
     (if \<not> permits p (action_id a) then (Inr (Suppressed ''policy denied''), h)
      else (Inr (Suppressed ''observe-only engine''), h))"

definition FORBIDDEN_PIDS :: "u32 list" where
  "FORBIDDEN_PIDS = [0, 1, 2]"

text \<open>\<open>trim_end_matches('\n')\<close> on the text of \<open>/proc/<pid>/comm\<close>.\<close>

definition pid_comm :: "os \<Rightarrow> u32 \<Rightarrow> string option" where
  "pid_comm os pid =
     map_option (\<lambda>s. rev (dropWhile (\<lambda>c. c = CHR 0x0A) (rev s))) (os_pid_comm os pid)"

definition process_kill_execute ::
    "os \<Rightarrow> response_policy \<Rightarrow> u32 \<Rightarrow> action \<Rightarrow> host \<Rightarrow> (action_error + action_outcome) \<times> host" where
  "process_kill_execute os p self_pid a h =
     (if \<not> permits p (action_id a) then (Inr (Suppressed ''policy denied''), h)
      else case a of
        KillProcess pid episode_id \<Rightarrow>
          if pid \<in> set FORBIDDEN_PIDS \<or> pid = self_pid
          then (Inr (Suppressed ''pid is on the kill_process forbidden list (init / kthreadd / agent self)''), h)
          else if (case pid_comm os pid of None \<Rightarrow> False | Some comm \<Rightarrow> \<not> permits_block_exec_comm p comm)
          then (Inr (Suppressed ''pid currently maps to a comm on the critical-service deny-list''), h)
          else if \<not> unat pid < 2 ^ 31 then (Inl (Invalid ''pid doesn't fit in i32''), h)
          else (case os_kill os pid of
                  KillOk \<Rightarrow> (Inr (executed_now (os_now os)), h\<lparr>h_signalled := h_signalled h @ [pid]\<rparr>)
                | ESRCH \<Rightarrow> (Inr AlreadyGone, h)
                | OtherErrno e \<Rightarrow> (Inl (KillFailed pid e), h))
      | _ \<Rightarrow> (Inr (Suppressed
          ''process-kill engine doesn't implement exec blocking; switch to bpf-lsm''), h))"

definition bpf_lsm_execute ::
    "os \<Rightarrow> response_policy \<Rightarrow> action \<Rightarrow> host \<Rightarrow> (action_error + action_outcome) \<times> host" where
  "bpf_lsm_execute os p a h =
     (if \<not> permits p (action_id a) then (Inr (Suppressed ''policy denied''), h)
      else case a of
        BlockExec comm episode_id \<Rightarrow>
          if \<not> permits_block_exec_comm p comm
          then (Inr (Suppressed ''comm is on the BlockExec deny-list (critical-service protection)''), h)
          else (case block_comm os comm h of
                  (Inr _, h') \<Rightarrow> (Inr (executed_now (os_now os)), h')
                | (Inl e, h') \<Rightarrow> (Inl (Invalid (''block_comm: '' @ e)), h'))
      | BlockExecByInode dev ino p episode_id \<Rightarrow>
          if \<not> h_inode_armed h
          then (Inr (Suppressed (''inode matching is not armed on this kernel (no BTF, or the exec '' @
            ''struct layout could not be resolved); refusing to substitute a spoofable comm block'')), h)
          else (case block_inode os dev ino h of
                  (Inr _, h') \<Rightarrow> (Inr (executed_now (os_now os)), h')
                | (Inl e, h') \<Rightarrow> (Inl (Invalid (''block_inode: '' @ e)), h'))
      | KillProcess _ _ \<Rightarrow> (Inr (Suppressed
          ''bpf-lsm engine doesn't implement kill_process; switch to process-kill''), h))"

definition dry_run_execute ::
    "os \<Rightarrow> engine \<Rightarrow> action \<Rightarrow> host \<Rightarrow> (action_error + action_outcome) \<times> host" where
  "dry_run_execute os inner a h =
     (if \<not> permits (engine_policy inner) (action_id a)
      then (Inr (Suppressed (''policy does not permit '' @ action_id a @ '' (dry run)'')), h)
      else (Inr (would_execute (os_now os) (engine_name inner)), h))"

text \<open>Dynamic dispatch.\<close>

primrec execute :: "os \<Rightarrow> engine \<Rightarrow> action \<Rightarrow> host \<Rightarrow> (action_error + action_outcome) \<times> host" where
  "execute os (NoopEngine p) a h = noop_execute os p a h"
| "execute os (ProcessKillEngine p self_pid) a h = process_kill_execute os p self_pid a h"
| "execute os (BpfLsmEngine p) a h = bpf_lsm_execute os p a h"
| "execute os (DryRunEngine e) a h = dry_run_execute os e a h"

section \<open>The contract of an engine\<close>

text \<open>A sequence of actions handed to an engine, each with what the system answers at that time.\<close>

primrec run_actions ::
    "(os \<Rightarrow> 'e \<Rightarrow> action \<Rightarrow> host \<Rightarrow> (action_error + action_outcome) \<times> host) \<Rightarrow> 'e
     \<Rightarrow> (os \<times> action) list \<Rightarrow> host \<Rightarrow> (action_error + action_outcome) list \<times> host" where
  "run_actions exec e [] h = ([], h)"
| "run_actions exec e (x # xs) h =
     (let r = exec (fst x) e (snd x) h; rs = run_actions exec e xs (snd r) in
      (fst r # fst rs, snd rs))"

text \<open>
  What the trait \<open>ResponseEngine\<close> asks of an implementation: a denied action is suppressed without
  touching the host, and the host changes only when the outcome says so.
\<close>

locale response_engine =
  fixes policy :: "'e \<Rightarrow> response_policy"
    and exec :: "os \<Rightarrow> 'e \<Rightarrow> action \<Rightarrow> host \<Rightarrow> (action_error + action_outcome) \<times> host"
  assumes denied: "\<not> permits (policy e) (action_id a) \<Longrightarrow> \<exists>r. exec os e a h = (Inr (Suppressed r), h)"
    and honest: "exec os e a h = (r, h') \<Longrightarrow> \<forall>out. r = Inr out \<longrightarrow> \<not> changed_the_host out \<Longrightarrow> h' = h"
begin

lemma run_denied:
  assumes "\<forall>x \<in> set xs. \<not> permits (policy e) (action_id (snd x))"
  shows "snd (run_actions exec e xs h) = h \<and> (\<forall>r \<in> set (fst (run_actions exec e xs h)). \<exists>t. r = Inr (Suppressed t))"
  using assms
proof (induction xs arbitrary: h)
  case (Cons x xs)
  then obtain t where "exec (fst x) e (snd x) h = (Inr (Suppressed t), h)" using denied by fastforce
  with Cons show ?case by (simp add: Let_def)
qed simp

lemma run_honest:
  assumes "\<forall>r \<in> set (fst (run_actions exec e xs h)). \<forall>out. r = Inr out \<longrightarrow> \<not> changed_the_host out"
  shows "snd (run_actions exec e xs h) = h"
  using assms
proof (induction xs arbitrary: h)
  case (Cons x xs)
  obtain r h' where x: "exec (fst x) e (snd x) h = (r, h')" by fastforce
  have "h' = h" by (rule honest [OF x]) (use Cons.prems x in \<open>simp add: Let_def\<close>)
  with Cons x show ?case by (simp add: Let_def)
qed simp

end

lemmas engine_defs = noop_execute_def process_kill_execute_def bpf_lsm_execute_def
  dry_run_execute_def executed_now_def would_execute_def block_comm_def block_inode_def

lemma engine_denied:
  "\<not> permits (engine_policy e) (action_id a) \<Longrightarrow> \<exists>r. execute os e a h = (Inr (Suppressed r), h)"
  by (cases e) (simp_all add: engine_defs)

lemma engine_honest:
  assumes "execute os e a h = (r, h')" "\<forall>out. r = Inr out \<longrightarrow> \<not> changed_the_host out"
  shows "h' = h"
proof (cases e)
  case (ProcessKillEngine p self_pid)
  with assms show ?thesis
    by (auto simp: engine_defs split: if_splits action.splits kill_result.splits)
next
  case (BpfLsmEngine p)
  with assms show ?thesis
    by (auto simp: engine_defs split: if_splits action.splits option.splits)
qed (use assms in \<open>auto simp: engine_defs split: if_splits\<close>)

interpretation re: response_engine engine_policy execute
  by unfold_locales (rule engine_denied, assumption, rule engine_honest)

section \<open>Facts\<close>

lemma permits_iff [simp]: "permits p i \<longleftrightarrow> \<not> disabled p \<and> i \<in> set (allowed_actions p)"
  by (simp add: permits_def)

lemma permits_block_exec_comm_iff:
  "permits_block_exec_comm p comm \<longleftrightarrow>
   comm \<notin> set DEFAULT_BLOCK_EXEC_DENY_LIST \<and> comm \<notin> set (block_exec_deny_list p)"
  by (simp add: permits_block_exec_comm_def)

lemma effective_deny_list:
  "comm \<in> set (effective_block_exec_deny_list p) \<longleftrightarrow> \<not> permits_block_exec_comm p comm"
  by (simp add: effective_block_exec_deny_list_def permits_block_exec_comm_iff)

lemma process_kill_signals:
  assumes "process_kill_execute os p self_pid a h = (r, h')" "pid \<in> set (h_signalled h')"
    "pid \<notin> set (h_signalled h)"
  shows "\<exists>ep. a = KillProcess pid ep \<and> permits p ''kill_process'' \<and> pid \<notin> {0, 1, 2, self_pid} \<and>
    unat pid < 2 ^ 31 \<and> (\<forall>comm. pid_comm os pid = Some comm \<longrightarrow> permits_block_exec_comm p comm) \<and>
    os_kill os pid = KillOk"
proof (cases a)
  case (KillProcess q ep)
  with assms show ?thesis
    unfolding process_kill_execute_def FORBIDDEN_PIDS_def
    by (auto split: if_splits kill_result.splits option.splits simp del: One_nat_def)
qed (use assms in \<open>auto simp: process_kill_execute_def split: if_splits\<close>)

lemma run_process_kill_signals:
  assumes "pid \<in> set (h_signalled (snd (run_actions execute (ProcessKillEngine p self_pid) xs h)))"
    "pid \<notin> set (h_signalled h)"
  shows "\<exists>(os, a) \<in> set xs. (\<exists>ep. a = KillProcess pid ep) \<and> permits p ''kill_process'' \<and>
    pid \<notin> {0, 1, 2, self_pid} \<and> unat pid < 2 ^ 31 \<and>
    (\<forall>comm. pid_comm os pid = Some comm \<longrightarrow> permits_block_exec_comm p comm)"
  using assms
proof (induction xs arbitrary: h)
  case (Cons x xs)
  obtain os a where x: "x = (os, a)" by fastforce
  obtain r h' where k: "process_kill_execute os p self_pid a h = (r, h')" by fastforce
  show ?case
  proof (cases "pid \<in> set (h_signalled h')")
    case True
    from process_kill_signals [OF k True Cons.prems(2)] show ?thesis by (auto simp: x)
  next
    case False
    with Cons.IH [of h'] Cons.prems(1) k show ?thesis by (auto simp: x Let_def)
  qed
qed simp

section \<open>Properties\<close>

text \<open>
  C29. No engine acts against the policy. Whatever engine is installed, a dry run over another one
  included, and whatever sequence of actions it is handed, as long as the policy permits none of
  them the host is exactly as before, and every answer is \<open>Suppressed\<close>. A policy with \<open>disabled\<close>
  set, and the default policy, permit nothing.
\<close>

theorem engines_respect_policy:
  assumes "\<forall>x \<in> set xs. \<not> permits (engine_policy e) (action_id (snd x)) \<or>
    disabled (engine_policy e) \<or> engine_policy e = default_policy"
  shows "snd (run_actions execute e xs h) = h \<and>
    (\<forall>r \<in> set (fst (run_actions execute e xs h)). \<exists>t. r = Inr (Suppressed t))"
  by (rule re.run_denied) (use assms in \<open>auto simp: default_policy_def\<close>)

definition demo_os :: os where
  "demo_os = \<lparr>os_now = Some 1000, os_pid_comm = (\<lambda>_. Some ''cat\<newline>''), os_kill = (\<lambda>_. KillOk),
     os_map_insert = None, os_evicted_comms = {}, os_evicted_inodes = {}\<rparr>"

definition demo_host :: host where
  "demo_host = \<lparr>h_signalled = [], h_blocked_comms = {}, h_blocked_inodes = {}, h_inode_armed = True\<rparr>"

definition demo_policy :: response_policy where
  "demo_policy = \<lparr>allowed_actions = known_ids, disabled = False, block_exec_deny_list = [],
     require_corroboration = []\<rparr>"

theorem engines_respect_policy_witness:
  "snd (run_actions execute (ProcessKillEngine default_policy 77)
     [(demo_os, KillProcess 500 ''e''), (demo_os, KillProcess 1 ''e'')] demo_host) = demo_host"
  using engines_respect_policy [of "[(demo_os, KillProcess 500 ''e''), (demo_os, KillProcess 1 ''e'')]"
      "ProcessKillEngine default_policy 77" demo_host]
  by simp

text \<open>
  What the killing engine can signal. Over any sequence of actions, a pid that receives \<open>SIGKILL\<close>
  was named by a \<open>KillProcess\<close> action the policy permits; it is not 0 (the caller's process group),
  not init, not kthreadd and not the agent itself; it is below 2^31, so it is never read as a
  negative number, that is as a process group; and if \<open>/proc\<close> gave its name at that moment, that name
  is on neither deny list.
\<close>

theorem kill_only_permitted_targets:
  assumes "pid \<in> set (h_signalled (snd (run_actions execute (ProcessKillEngine p self_pid) xs h)))"
    "pid \<notin> set (h_signalled h)"
  shows "\<exists>(os, a) \<in> set xs. (\<exists>ep. a = KillProcess pid ep) \<and> permits p ''kill_process'' \<and>
    pid \<notin> {0, 1, 2, self_pid} \<and> unat pid < 2 ^ 31 \<and>
    (\<forall>comm. pid_comm os pid = Some comm \<longrightarrow>
       comm \<notin> set DEFAULT_BLOCK_EXEC_DENY_LIST \<and> comm \<notin> set (block_exec_deny_list p))"
  using run_process_kill_signals [OF assms] by (simp only: permits_block_exec_comm_iff)

theorem kill_only_permitted_targets_witness:
  "500 \<in> set (h_signalled (snd (run_actions execute (ProcessKillEngine demo_policy 77)
     [(demo_os, KillProcess 500 ''e'')] demo_host))) \<and>
   (\<exists>(os, a) \<in> {(demo_os, KillProcess 500 ''e'')}. (\<exists>ep. a = KillProcess 500 ep) \<and>
     (500::u32) \<notin> {0, 1, 2, 77})"
proof -
  have "pid_comm demo_os 500 = Some ''cat''" by (simp add: pid_comm_def demo_os_def)
  then have "500 \<in> set (h_signalled (snd (run_actions execute (ProcessKillEngine demo_policy 77)
     [(demo_os, KillProcess 500 ''e'')] demo_host)))"
    by (simp add: process_kill_execute_def demo_policy_def known_ids_def FORBIDDEN_PIDS_def
        permits_block_exec_comm_iff DEFAULT_BLOCK_EXEC_DENY_LIST_def demo_os_def Let_def)
  moreover have "500 \<notin> set (h_signalled demo_host)" by (simp add: demo_host_def)
  ultimately show ?thesis using kill_only_permitted_targets by fastforce
qed

text \<open>
  A dry run is harmless. Whatever engine it wraps and whatever it is asked to do, the host is
  untouched, and each action is reported as \<open>WouldExecute\<close> by the wrapped engine exactly when the
  wrapped engine's policy permits its id.
\<close>

theorem dry_run_harmless:
  "snd (run_actions execute (DryRunEngine e) xs h) = h \<and>
   fst (execute os (DryRunEngine e) a h)
     = (if permits (engine_policy e) (action_id a)
        then Inr (WouldExecute (engine_name e) (millis_or_zero (os_now os)))
        else Inr (Suppressed (''policy does not permit '' @ action_id a @ '' (dry run)'')))"
proof
  have "\<forall>r \<in> set (fst (run_actions execute (DryRunEngine e) xs h)).
      \<forall>out. r = Inr out \<longrightarrow> \<not> changed_the_host out"
    by (induction xs arbitrary: h) (auto simp: Let_def engine_defs)
  then show "snd (run_actions execute (DryRunEngine e) xs h) = h" by (rule re.run_honest)
qed (simp add: engine_defs)

text \<open>
  A dry run overstates. The dry run consults the policy's action list and no other gate: asked to
  block \<open>sshd\<close> under a policy that permits \<open>block_exec\<close>, it reports that the block would be executed,
  while the engine it wraps refuses it because of the deny list.
\<close>

theorem dry_run_overstates:
  "(\<exists>t. fst (execute os (DryRunEngine (BpfLsmEngine demo_policy)) (BlockExec ''sshd'' ''e'') h)
      = Inr (WouldExecute ''bpf-lsm'' t)) \<and>
   (\<exists>t. execute os (BpfLsmEngine demo_policy) (BlockExec ''sshd'' ''e'') h = (Inr (Suppressed t), h))"
  by (simp add: engine_defs demo_policy_def known_ids_def permits_block_exec_comm_iff
      DEFAULT_BLOCK_EXEC_DENY_LIST_def)

end
