(* ===== verification/Bpf_Lsm.thy ===== *)
theory Bpf_Lsm
  imports Response
begin

text \<open>
  The kernel side of exec blocking: the LSM hook of \<open>crates/bowery-ebpf/src/main.rs\<close>, which consults
  the two block lists the engine fills, and what the two sides guarantee together. Kernel memory is
  a parameter, read through \<open>bpf_probe_read_kernel\<close>, which may fail at every address.
\<close>

section \<open>The hook\<close>

definition OFF_ARMED_MAGIC :: u32 where "OFF_ARMED_MAGIC = 0xB09E0001"
definition OFF_ARMED :: nat where "OFF_ARMED = 0"
definition OFF_BINPRM_FILE :: nat where "OFF_BINPRM_FILE = 1"
definition OFF_FILE_INODE :: nat where "OFF_FILE_INODE = 2"
definition OFF_INODE_INO :: nat where "OFF_INODE_INO = 3"
definition OFF_INODE_SB :: nat where "OFF_INODE_SB = 4"
definition OFF_SB_DEV :: nat where "OFF_SB_DEV = 5"

text \<open>\<open>offsets\<close> is the array \<open>EXEC_OFFSETS\<close>; \<open>bprm\<close> is argument 0 of the hook.\<close>

record kernel =
  k_offsets :: "u32 list"
  k_bprm :: u64
  k_read_u64 :: "u64 \<Rightarrow> u64 option"
  k_read_u32 :: "u64 \<Rightarrow> u32 option"

definition exec_offset :: "kernel \<Rightarrow> nat \<Rightarrow> u32 option" where
  "exec_offset k i = (if i < length (k_offsets k) then Some (k_offsets k ! i) else None)"

definition read_ptr :: "kernel \<Rightarrow> u64 \<Rightarrow> u64 option" where
  "read_ptr k at = Option.bind (k_read_u64 k at) (\<lambda>p. if p = 0 then None else Some p)"

definition exec_inode :: "kernel \<Rightarrow> (u64 \<times> u64) option" where
  "exec_inode k =
     Option.bind (exec_offset k OFF_ARMED) (\<lambda>armed.
     if armed \<noteq> OFF_ARMED_MAGIC then None else
     Option.bind (exec_offset k OFF_BINPRM_FILE) (\<lambda>off_binprm_file.
     Option.bind (exec_offset k OFF_FILE_INODE) (\<lambda>off_file_inode.
     Option.bind (exec_offset k OFF_INODE_INO) (\<lambda>off_inode_ino.
     Option.bind (exec_offset k OFF_INODE_SB) (\<lambda>off_inode_sb.
     Option.bind (exec_offset k OFF_SB_DEV) (\<lambda>off_sb_dev.
     if k_bprm k = 0 then None else
     Option.bind (read_ptr k (k_bprm k + ucast off_binprm_file)) (\<lambda>f.
     Option.bind (read_ptr k (f + ucast off_file_inode)) (\<lambda>inode.
     Option.bind (k_read_u64 k (inode + ucast off_inode_ino)) (\<lambda>ino.
     Option.bind (read_ptr k (inode + ucast off_inode_sb)) (\<lambda>sb.
     Option.bind (k_read_u32 k (sb + ucast off_sb_dev)) (\<lambda>dev.
     Some (ucast dev, ino))))))))))))"

definition comm_blank :: "u8 \<Rightarrow> bool" where
  "comm_blank b \<longleftrightarrow> b \<in> {0x0A, 0x0D, 0x09, 0x20, 0}"

text \<open>The loop runs from the right; \<open>i\<close> is one more than the index it looks at.\<close>

primrec normalise_from :: "nat \<Rightarrow> bytes \<Rightarrow> bytes" where
  "normalise_from 0 comm = comm"
| "normalise_from (Suc i) comm =
     (if comm_blank (comm ! i) then normalise_from i (comm[i := 0]) else comm)"

definition normalise_comm :: "bytes \<Rightarrow> bytes" where
  "normalise_comm comm = normalise_from (length comm) comm"

text \<open>
  The hook. \<open>comm\<close> is \<open>bpf_get_current_comm\<close>, of the task that calls \<open>execve\<close>; the result is
  \<open>- 1\<close> (\<open>EPERM\<close>) or \<open>0\<close>.
\<close>

definition block_exec :: "host \<Rightarrow> kernel \<Rightarrow> bytes option \<Rightarrow> int" where
  "block_exec h k current_comm =
     (if (case exec_inode k of None \<Rightarrow> False | Some key \<Rightarrow> key \<in> h_blocked_inodes h) then - 1
      else let comm = (case current_comm of None \<Rightarrow> replicate 16 0 | Some c \<Rightarrow> c) in
        if normalise_comm comm \<in> h_blocked_comms h then - 1 else 0)"

section \<open>Task names\<close>

lemma normalise_from_keeps:
  assumes "n < i" "i \<le> length bs" "\<not> comm_blank (bs ! n)" "\<forall>j. n < j \<and> j < i \<longrightarrow> bs ! j = 0"
  shows "normalise_from i bs = bs"
  using assms
proof (induction i)
  case (Suc i)
  show ?case
  proof (cases "n = i")
    case False
    with Suc.prems have z: "bs ! i = 0" by simp
    then have "bs[i := 0] = bs" by (metis list_update_id)
    with z Suc False show ?thesis by (simp add: comm_blank_def)
  qed (use Suc.prems in simp)
qed simp

text \<open>A name whose last byte within the first fifteen is not blank: what a shell command has.\<close>

definition plain_comm :: "string \<Rightarrow> bool" where
  "plain_comm comm \<longleftrightarrow> comm \<noteq> [] \<and> \<not> comm_blank (of_char (last (take 15 comm)))"

lemma length_comm_key [simp]: "length (comm_key comm) = 16"
  by (simp add: comm_key_def Let_def)

lemma normalise_comm_key:
  assumes "plain_comm comm"
  shows "normalise_comm (comm_key comm) = comm_key comm"
proof -
  let ?n = "min (length comm) 15" and ?k = "comm_key comm"
  have k: "?k = str_bytes (take ?n comm) @ replicate (16 - ?n) 0"
    by (simp add: comm_key_def Let_def str_bytes_def take_map)
  have pos: "0 < ?n" using assms by (simp add: plain_comm_def)
  have "take ?n comm = take 15 comm" by (simp add: min_def)
  then have "last (take 15 comm) = take ?n comm ! (?n - 1)"
    using pos by (metis last_conv_nth length_take min.absorb1 min.cobounded1 take_eq_Nil
        less_not_refl2 length_greater_0_conv)
  moreover have "?n - 1 < length comm" "?n - 1 < 15" using pos by linarith+
  then have "?k ! (?n - 1) = of_char (take ?n comm ! (?n - 1))"
    unfolding k by (simp add: nth_append str_bytes_def)
  ultimately have last: "\<not> comm_blank (?k ! (?n - 1))"
    using assms by (simp add: plain_comm_def)
  show ?thesis
    unfolding normalise_comm_def
    by (rule normalise_from_keeps [where n = "?n - 1"])
      (use pos last in \<open>auto simp: k nth_append\<close>)
qed

section \<open>Device numbers\<close>

text \<open>How glibc packs a device number into \<open>st_dev\<close>, as the comment of the conversion states it.\<close>

definition stat_dev :: "u64 \<Rightarrow> u64 \<Rightarrow> u64" where
  "stat_dev major minor = push_bit 32 (major AND NOT 0xfff) OR push_bit 8 (major AND 0xfff) OR
     push_bit 12 (minor AND NOT 0xff) OR (minor AND 0xff)"

lemma masks: "(0xfff :: u64) = mask 12" "(0xff :: u64) = mask 8"
  by (simp_all add: mask_eq_exp_minus_1)

lemma bit_below:
  fixes w :: "'a::len word"
  assumes "unat w < 2 ^ k" "bit w n"
  shows "n < k"
proof -
  have "bit (unat w) n" using assms(2) by (simp add: bit_unsigned_iff possible_bit_nat)
  moreover have "take_bit k (unat w) = unat w" using assms(1) by (rule take_bit_nat_eq_self)
  ultimately show ?thesis by (metis bit_take_bit_iff)
qed

lemma bit_kernel_dev:
  assumes "n < 64"
  shows "bit (kernel_dev_from_stat_dev s) n \<longleftrightarrow>
     20 \<le> n \<and> (n < 32 \<and> bit s (n - 12) \<or> 32 \<le> n \<and> bit s (n + 12)) \<or>
     n < 8 \<and> bit s n \<or> 8 \<le> n \<and> bit s (n + 12)"
proof -
  define M where "M = (drop_bit 8 s AND mask 12) OR (drop_bit 32 s AND NOT (mask 12))"
  define N where "N = (s AND mask 8) OR (drop_bit 12 s AND NOT (mask 8))"
  have M: "bit M k \<longleftrightarrow> k < 12 \<and> bit s (8 + k) \<or> 12 \<le> k \<and> bit s (32 + k)" for k
    unfolding M_def by (auto simp: bit_or_iff bit_and_iff bit_drop_bit_eq bit_not_iff bit_mask_iff dest: bit_imp_le_length)
  have N: "bit N k \<longleftrightarrow> k < 8 \<and> bit s k \<or> 8 \<le> k \<and> bit s (12 + k)" for k
    unfolding N_def by (auto simp: bit_or_iff bit_and_iff bit_drop_bit_eq bit_not_iff bit_mask_iff dest: bit_imp_le_length)
  have "kernel_dev_from_stat_dev s = push_bit 20 M OR N"
    unfolding kernel_dev_from_stat_dev_def Let_def masks M_def N_def ..
  then show ?thesis
    using assms by (auto simp: bit_or_iff bit_push_bit_iff M N add.commute)
qed

lemma bit_stat_dev:
  assumes "unat major < 2 ^ 12" "unat minor < 2 ^ 20"
  shows "bit (stat_dev major minor) n \<longleftrightarrow>
    n < 8 \<and> bit minor n \<or> 8 \<le> n \<and> n < 20 \<and> bit major (n - 8) \<or> 20 \<le> n \<and> bit minor (n - 12)"
proof -
  have a: "bit major k \<Longrightarrow> k < 12" for k using assms(1) by (rule bit_below)
  have b: "bit minor k \<Longrightarrow> k < 20" for k using assms(2) by (rule bit_below)
  define A B C D where "A = push_bit 32 (major AND NOT (mask 12))" and "B = push_bit 8 (major AND mask 12)"
    and "C = push_bit 12 (minor AND NOT (mask 8))" and "D = minor AND mask 8"
  have "\<not> bit A n" unfolding A_def using a
    by (auto simp: bit_and_iff bit_push_bit_iff bit_not_iff bit_mask_iff)
  moreover have "bit B n \<longleftrightarrow> 8 \<le> n \<and> n < 20 \<and> bit major (n - 8)" unfolding B_def using a [of "n - 8"]
    by (auto simp: bit_and_iff bit_push_bit_iff bit_mask_iff)
  moreover have "bit C n \<longleftrightarrow> 20 \<le> n \<and> bit minor (n - 12)" unfolding C_def using b [of "n - 12"]
    by (auto simp: bit_and_iff bit_push_bit_iff bit_not_iff bit_mask_iff)
  moreover have "bit D n \<longleftrightarrow> n < 8 \<and> bit minor n" unfolding D_def using b
    by (auto simp: bit_and_iff bit_mask_iff dest: bit_imp_le_length)
  moreover have "stat_dev major minor = A OR B OR C OR D"
    unfolding stat_dev_def masks A_def B_def C_def D_def ..
  ultimately show ?thesis by (auto simp: bit_or_iff)
qed

lemma kernel_dev_stat_dev:
  assumes "unat major < 2 ^ 12" "unat minor < 2 ^ 20"
  shows "kernel_dev_from_stat_dev (stat_dev major minor) = push_bit 20 major OR minor"
proof (rule bit_word_eqI)
  fix n assume n: "n < LENGTH(64)"
  then have n: "n < 64" by simp
  have a: "bit major k \<Longrightarrow> k < 12" for k using assms(1) by (rule bit_below)
  have b: "bit minor k \<Longrightarrow> k < 20" for k using assms(2) by (rule bit_below)
  have "bit (push_bit 20 major OR minor) n \<longleftrightarrow> 20 \<le> n \<and> bit major (n - 20) \<or> bit minor n"
    using n by (auto simp: bit_or_iff bit_push_bit_iff)
  moreover consider "n < 8" | "8 \<le> n" "n < 20" | "20 \<le> n" "n < 32" | "32 \<le> n" by linarith
  then have "bit (kernel_dev_from_stat_dev (stat_dev major minor)) n
      \<longleftrightarrow> 20 \<le> n \<and> bit major (n - 20) \<or> bit minor n"
  proof cases
    case 3
    moreover from this have "\<not> bit minor n" "8 \<le> n - 12" "n - 12 < 20" using b [of n] by auto
    ultimately show ?thesis by (simp add: bit_kernel_dev [OF n] bit_stat_dev [OF assms])
  next
    case 4
    moreover from this have "\<not> bit minor n" "\<not> bit major (n - 20)" using b [of n] a [of "n - 20"] by auto
    ultimately show ?thesis by (simp add: bit_kernel_dev [OF n] bit_stat_dev [OF assms])
  qed (simp_all add: bit_kernel_dev [OF n] bit_stat_dev [OF assms])
  ultimately show "bit (kernel_dev_from_stat_dev (stat_dev major minor)) n = bit (push_bit 20 major OR minor) n"
    by blast
qed

lemma kernel_dev_fits_u32:
  fixes major minor :: u64
  assumes "unat major < 2 ^ 12" "unat minor < 2 ^ 20"
  shows "(ucast (ucast (push_bit 20 major OR minor) :: u32) :: u64) = push_bit 20 major OR minor"
proof (rule bit_word_eqI)
  fix n assume "n < LENGTH(64)"
  have a: "bit major k \<Longrightarrow> k < 12" for k using assms(1) by (rule bit_below)
  have b: "bit minor k \<Longrightarrow> k < 20" for k using assms(2) by (rule bit_below)
  show "bit (ucast (ucast (push_bit 20 major OR minor) :: u32) :: u64) n = bit (push_bit 20 major OR minor) n"
    using a [of "n - 20"] b [of n] by (auto simp: bit_ucast_iff bit_or_iff bit_push_bit_iff)
qed
lemma kernel_dev_inj:
  fixes major minor major' minor' :: u64
  assumes "push_bit 20 major' OR minor' = push_bit 20 major OR minor"
    and "unat major < 2 ^ 12" "unat minor < 2 ^ 20" "unat major' < 2 ^ 12" "unat minor' < 2 ^ 20"
  shows "major' = major \<and> minor' = minor"
proof -
  have b: "bit (push_bit 20 M OR N) n \<longleftrightarrow> (if n < 20 then bit N n else n < 64 \<and> bit M (n - 20))"
    if "unat N < 2 ^ 20" for M N :: u64 and n
    using bit_below [OF that, of n] by (auto simp: bit_or_iff bit_push_bit_iff dest: bit_imp_le_length)
  have "bit minor' n = bit minor n" for n
    using b [OF assms(3), of major n] b [OF assms(5), of major' n] assms(1)
      bit_below [OF assms(3), of n] bit_below [OF assms(5), of n] by auto
  moreover have "bit major' n = bit major n" for n
    using b [OF assms(3), of major "n + 20"] b [OF assms(5), of major' "n + 20"] assms(1)
      bit_below [OF assms(2), of n] bit_below [OF assms(4), of n] by auto
  ultimately show ?thesis by (auto intro: bit_word_eqI)
qed

section \<open>Properties\<close>

text \<open>
  A blocked name is denied. If the engine reports that a \<open>BlockExec\<close> of a name was executed, and the
  name does not end in blanks, then the name is on neither deny list, and from then on the hook denies
  every exec by a task of that name, whatever kernel memory holds.
\<close>

theorem blocked_comm_is_denied:
  assumes "execute os (BpfLsmEngine p) (BlockExec comm ep) h = (Inr (Executed t), h')" "plain_comm comm"
  shows "permits_block_exec_comm p comm \<and> block_exec h' k (Some (comm_key comm)) = - 1"
proof -
  from assms(1) have "permits_block_exec_comm p comm" and "comm_key comm \<in> h_blocked_comms h'"
    by (auto simp: bpf_lsm_execute_def block_comm_def split: if_splits option.splits)
  then show ?thesis using normalise_comm_key [OF assms(2)] by (simp add: block_exec_def)
qed

lemma demo_block_executes:
  assumes "permits_block_exec_comm demo_policy comm"
  shows "execute demo_os (BpfLsmEngine demo_policy) (BlockExec comm ''e'') demo_host
    = (Inr (Executed 1000), demo_host\<lparr>h_blocked_comms := {comm_key comm}\<rparr>)"
  using assms
  by (simp add: bpf_lsm_execute_def block_comm_def demo_policy_def known_ids_def demo_os_def
      demo_host_def executed_now_def millis_or_zero_def)

theorem blocked_comm_is_denied_witness:
  "block_exec (demo_host\<lparr>h_blocked_comms := {comm_key ''evil''}\<rparr>)
     \<lparr>k_offsets = [], k_bprm = 0, k_read_u64 = (\<lambda>_. None), k_read_u32 = (\<lambda>_. None)\<rparr>
     (Some (comm_key ''evil'')) = - 1"
proof -
  have "permits_block_exec_comm demo_policy ''evil''"
    by (simp add: permits_block_exec_comm_iff DEFAULT_BLOCK_EXEC_DENY_LIST_def demo_policy_def)
  from blocked_comm_is_denied [OF demo_block_executes [OF this]]
  show ?thesis by (simp add: plain_comm_def comm_blank_def)
qed

text \<open>
  A name that ends in a blank is never denied. The hook strips trailing blanks from the name of the
  task, the engine does not strip them from the key it stores. So blocking \<open>evil \<close> (with the space) is
  reported as executed, and a task of exactly that name is still allowed to exec.
\<close>

theorem blank_ended_comm_is_not_denied:
  "\<exists>t h'. execute demo_os (BpfLsmEngine demo_policy) (BlockExec ''evil '' ''e'') demo_host
      = (Inr (Executed t), h') \<and>
    block_exec h' \<lparr>k_offsets = [], k_bprm = 0, k_read_u64 = (\<lambda>_. None), k_read_u32 = (\<lambda>_. None)\<rparr>
      (Some (comm_key ''evil '')) = 0"
proof -
  have permitted: "permits_block_exec_comm demo_policy ''evil ''"
    by (simp add: permits_block_exec_comm_iff DEFAULT_BLOCK_EXEC_DENY_LIST_def demo_policy_def)
  have "normalise_comm (comm_key ''evil '') \<noteq> comm_key ''evil ''"
    by code_simp
  moreover have "h_blocked_inodes demo_host = {}" by (simp add: demo_host_def)
  ultimately have "block_exec (demo_host\<lparr>h_blocked_comms := {comm_key ''evil ''}\<rparr>)
      \<lparr>k_offsets = [], k_bprm = 0, k_read_u64 = (\<lambda>_. None), k_read_u32 = (\<lambda>_. None)\<rparr>
      (Some (comm_key ''evil '')) = 0"
    by (simp add: block_exec_def exec_inode_def exec_offset_def)
  with demo_block_executes [OF permitted] show ?thesis by blast
qed

text \<open>
  The deny list misses names the kernel truncates. A task name has at most fifteen bytes, so the
  journal daemon runs as \<open>systemd-journal\<close>: the deny list holds \<open>systemd-journald\<close> only, hence the
  policy lets the engine block the daemon's real name, with the very key the listed name would have.
\<close>

theorem deny_list_misses_truncated_names:
  "permits_block_exec_comm default_policy ''systemd-journal'' \<and>
   \<not> permits_block_exec_comm default_policy ''systemd-journald'' \<and>
   comm_key ''systemd-journal'' = comm_key ''systemd-journald''"
  by (simp add: permits_block_exec_comm_iff DEFAULT_BLOCK_EXEC_DENY_LIST_def default_policy_def
      comm_key_def str_bytes_def numeral_eq_Suc)

text \<open>
  A blocked file is denied, and no other. Let a file live on the device with major number below
  2^12 and minor number below 2^20 (the kernel's own limits), and let the action built for its path be
  executed by the armed engine. Then the hook denies every exec for which kernel memory yields that
  device and inode, whatever the task's name, and the path was not a protected one; for any other file
  on a device within those limits it decides as before, unless the insert evicted an entry.
\<close>

theorem blocked_inode_is_denied:
  fixes major minor major' minor' :: u64
  assumes dev: "unat major < 2 ^ 12" "unat minor < 2 ^ 20" "unat major' < 2 ^ 12" "unat minor' < 2 ^ 20"
    and md: "metadata p = Some (stat_dev major minor, ino)"
    and act: "block_exec_by_inode_for metadata p ep = Some a"
    and ex: "execute os (BpfLsmEngine pol) a h = (Inr (Executed t), h')"
  shows "\<not> is_protected_exec_path p \<and>
    (exec_inode k = Some (ucast (ucast (push_bit 20 major OR minor) :: u32), ino) \<longrightarrow>
       block_exec h' k comm = - 1) \<and>
    (exec_inode k = Some (ucast (ucast (push_bit 20 major' OR minor') :: u32), ino') \<longrightarrow>
       (major', minor', ino') \<noteq> (major, minor, ino) \<longrightarrow> os_evicted_inodes os = {} \<longrightarrow>
       block_exec h' k comm = block_exec h k comm)"
proof -
  let ?d = "push_bit 20 major OR minor" and ?d' = "push_bit 20 major' OR minor'"
  from act md have np: "\<not> is_protected_exec_path p" and a: "a = BlockExecByInode ?d ino p ep"
    using kernel_dev_stat_dev [OF dev(1,2)] by (auto simp: block_exec_by_inode_for_def split: if_splits)
  from ex a have h': "h' = h\<lparr>h_blocked_inodes := insert (?d, ino) (h_blocked_inodes h - os_evicted_inodes os)\<rparr>"
    by (auto simp: bpf_lsm_execute_def block_inode_def split: if_splits option.splits)
  have u: "(ucast (ucast ?d :: u32) :: u64) = ?d" "(ucast (ucast ?d' :: u32) :: u64) = ?d'"
    using dev by (auto intro: kernel_dev_fits_u32)
  have inj: "?d' = ?d \<Longrightarrow> major' = major \<and> minor' = minor"
    using dev by (auto dest: kernel_dev_inj)
  show ?thesis using np inj unfolding h' u by (auto simp: block_exec_def)
qed

text \<open>A kernel in which the executed file has device (8, 3) and inode 42.\<close>

definition demo_kernel :: kernel where
  "demo_kernel = \<lparr>k_offsets = [OFF_ARMED_MAGIC, 1, 2, 3, 4, 5], k_bprm = 100,
     k_read_u64 = [101 \<mapsto> 200, 202 \<mapsto> 300, 303 \<mapsto> 42, 304 \<mapsto> 400],
     k_read_u32 = [405 \<mapsto> 0x800003]\<rparr>"

lemma demo_exec_inode: "exec_inode demo_kernel = Some (0x800003, 42)"
  by (simp add: exec_inode_def exec_offset_def demo_kernel_def read_ptr_def OFF_ARMED_def
      OFF_BINPRM_FILE_def OFF_FILE_INODE_def OFF_INODE_INO_def OFF_INODE_SB_def OFF_SB_DEV_def)

theorem blocked_inode_is_denied_witness:
  "\<exists>h'. execute demo_os (BpfLsmEngine demo_policy)
      (BlockExecByInode (kernel_dev_from_stat_dev (stat_dev 8 3)) 42 ''/tmp/x'' ''e'') demo_host
      = (Inr (Executed 1000), h') \<and> block_exec h' demo_kernel None = - 1"
proof -
  let ?a = "BlockExecByInode (kernel_dev_from_stat_dev (stat_dev 8 3)) 42 ''/tmp/x'' ''e''"
  let ?r = "execute demo_os (BpfLsmEngine demo_policy) ?a demo_host"
  have ex: "?r = (Inr (Executed 1000), snd ?r)"
    by (simp add: bpf_lsm_execute_def block_inode_def demo_policy_def known_ids_def demo_os_def
        demo_host_def executed_now_def millis_or_zero_def)
  have np: "\<not> is_protected_exec_path ''/tmp/x''"
    by (simp add: is_protected_exec_path_def PROTECTED_EXEC_PREFIXES_def starts_with_def)
  have act: "block_exec_by_inode_for [''/tmp/x'' \<mapsto> (stat_dev 8 3, 42)] ''/tmp/x'' ''e'' = Some ?a"
    using np by (simp add: block_exec_by_inode_for_def)
  have "block_exec (snd ?r) demo_kernel None = - 1"
    using blocked_inode_is_denied [where major' = 0 and minor' = 0 and k = demo_kernel, OF _ _ _ _ _ act ex]
      demo_exec_inode
    by simp
  with ex show ?thesis by blast
qed

end
