(* ===== verification/F32.thy ===== *)
theory F32
  imports Prelude Complex_Main
begin

text \<open>
  The single-precision arithmetic the scores use: IEEE 754 binary32 with round-to-nearest,
  ties-to-even, subnormal numbers, infinities and NaN. Finite values are rationals; the two zeros are
  one value, since no operation used here tells them apart.
\<close>

section \<open>Rounding\<close>

definition pow2 :: "int \<Rightarrow> rat" where
  "pow2 e = (if 0 \<le> e then 2 ^ nat e else 1 / 2 ^ nat (- e))"

text \<open>
  The exponent of a value: the least \<open>e\<close> from -126 with \<open>x < 2^(e+1)\<close>. There are 254 binades, so the
  search needs at most 253 steps.
\<close>

fun binade_from :: "nat \<Rightarrow> int \<Rightarrow> rat \<Rightarrow> int" where
  "binade_from 0 e x = e"
| "binade_from (Suc n) e x = (if x < pow2 (e + 1) then e else binade_from n (e + 1) x)"

definition binade :: "rat \<Rightarrow> int" where
  "binade x = binade_from 253 (- 126) x"

definition round_half_even :: "rat \<Rightarrow> int" where
  "round_half_even r =
     (let f = \<lfloor>r\<rfloor>; d = r - of_int f in
      if d < 1 / 2 then f else if 1 / 2 < d then f + 1 else if even f then f else f + 1)"

text \<open>A value of magnitude \<open>x\<close> is rounded to a multiple of the last place of its binade.\<close>

definition round_mag :: "rat \<Rightarrow> rat" where
  "round_mag x = (let u = pow2 (binade x - 23) in of_int (round_half_even (x / u)) * u)"

definition f32_round :: "rat \<Rightarrow> rat" where
  "f32_round x = (if 0 \<le> x then round_mag x else - round_mag (- x))"

section \<open>Values and operations\<close>

datatype f32 = NaN | Inf bool | Fin rat

definition to_f32 :: "rat \<Rightarrow> f32" where
  "to_f32 x = (let r = f32_round x in if \<bar>r\<bar> < 2 ^ 128 then Fin r else Inf (0 \<le> r))"

fun f32_mul :: "f32 \<Rightarrow> f32 \<Rightarrow> f32" where
  "f32_mul (Fin x) (Fin y) = to_f32 (x * y)"
| "f32_mul NaN _ = NaN"
| "f32_mul _ NaN = NaN"
| "f32_mul (Inf s) (Inf t) = Inf (s = t)"
| "f32_mul (Inf s) (Fin y) = (if y = 0 then NaN else Inf (s = (0 < y)))"
| "f32_mul (Fin x) (Inf t) = (if x = 0 then NaN else Inf (t = (0 < x)))"

fun f32_sub :: "f32 \<Rightarrow> f32 \<Rightarrow> f32" where
  "f32_sub (Fin x) (Fin y) = to_f32 (x - y)"
| "f32_sub NaN _ = NaN"
| "f32_sub _ NaN = NaN"
| "f32_sub (Inf s) (Inf t) = (if s = t then NaN else Inf s)"
| "f32_sub (Inf s) (Fin y) = Inf s"
| "f32_sub (Fin x) (Inf t) = Inf (\<not> t)"

text \<open>Division, as the code uses it: by a finite number other than zero.\<close>

definition f32_div :: "rat \<Rightarrow> rat \<Rightarrow> f32" where
  "f32_div x y = to_f32 (x / y)"

fun f32_less :: "f32 \<Rightarrow> f32 \<Rightarrow> bool" where
  "f32_less (Fin x) (Fin y) \<longleftrightarrow> x < y"
| "f32_less (Inf s) (Fin _) \<longleftrightarrow> \<not> s"
| "f32_less (Fin _) (Inf t) \<longleftrightarrow> t"
| "f32_less (Inf s) (Inf t) \<longleftrightarrow> \<not> s \<and> t"
| "f32_less _ _ \<longleftrightarrow> False"

definition f32_le :: "f32 \<Rightarrow> f32 \<Rightarrow> bool" where
  "f32_le x y \<longleftrightarrow> f32_less x y \<or> x = y \<and> x \<noteq> NaN"

text \<open>\<open>f32::clamp\<close>: a NaN stays NaN.\<close>

definition f32_clamp :: "f32 \<Rightarrow> f32 \<Rightarrow> f32 \<Rightarrow> f32" where
  "f32_clamp lo hi x = (if f32_less x lo then lo else if f32_less hi x then hi else x)"

text \<open>\<open>f32::min\<close>: a NaN loses.\<close>

definition f32_min :: "f32 \<Rightarrow> f32 \<Rightarrow> f32" where
  "f32_min x y = (if x = NaN then y else if y = NaN then x else if f32_less y x then y else x)"

definition f32_max :: "f32 \<Rightarrow> f32 \<Rightarrow> f32" where
  "f32_max x y = (if x = NaN then y else if y = NaN then x else if f32_less x y then y else x)"

text \<open>The values a variable of type \<open>f32\<close> can hold.\<close>

fun f32_wf :: "f32 \<Rightarrow> bool" where
  "f32_wf (Fin x) \<longleftrightarrow> f32_round x = x \<and> \<bar>x\<bar> < 2 ^ 128"
| "f32_wf _ \<longleftrightarrow> True"

section \<open>Monotonicity\<close>

lemma pow2_pos [simp]: "0 < pow2 e"
  by (simp add: pow2_def)

lemma pow2_nonneg [simp]: "0 \<le> pow2 e" "pow2 e \<noteq> 0"
  by (simp_all add: less_imp_le) (simp add: pow2_def)

lemma pow2_add_nat: "pow2 (e + int n) = pow2 e * 2 ^ n"
proof (cases "0 \<le> e")
  case True
  then show ?thesis by (simp add: pow2_def nat_add_distrib power_add)
next
  case False
  show ?thesis
  proof (cases "0 \<le> e + int n")
    case True
    then have "nat (e + int n) + nat (- e) = n" using False by simp
    then have "(2 :: rat) ^ n = 2 ^ nat (e + int n) * 2 ^ nat (- e)" by (metis power_add)
    with True False show ?thesis by (simp add: pow2_def)
  next
    case neg: False
    then have "nat (- e) = nat (- (e + int n)) + n" using False by simp
    then have "(2 :: rat) ^ nat (- e) = 2 ^ nat (- (e + int n)) * 2 ^ n" by (metis power_add)
    with neg False show ?thesis by (simp add: pow2_def)
  qed
qed

lemma pow2_mono: "e \<le> e' \<Longrightarrow> pow2 e \<le> pow2 e'"
proof -
  assume "e \<le> e'"
  then have "pow2 e' = pow2 e * 2 ^ nat (e' - e)" using pow2_add_nat [of e "nat (e' - e)"] by simp
  moreover have "pow2 e * 1 \<le> pow2 e * 2 ^ nat (e' - e)" by (intro mult_left_mono) simp_all
  ultimately show ?thesis by simp
qed

lemma binade_from_ge: "e \<le> binade_from n e x"
  by (induction n e x rule: binade_from.induct) auto

lemma binade_from_le: "binade_from n e x \<le> e + int n"
  by (induction n e x rule: binade_from.induct) auto

lemma binade_from_below: "x < pow2 (e + int n + 1) \<Longrightarrow> x < pow2 (binade_from n e x + 1)"
  by (induction n e x rule: binade_from.induct) (auto simp: algebra_simps)

lemma binade_from_above: "binade_from n e x = e \<or> pow2 (binade_from n e x) \<le> x"
proof (induction n e x rule: binade_from.induct)
  case (2 n e x)
  then show ?case by (auto simp: not_less)
qed simp

lemma binade_from_mono: "x \<le> y \<Longrightarrow> binade_from n e x \<le> binade_from n e y"
  by (induction n e x arbitrary: y rule: binade_from.induct) (auto intro: order_trans [OF _ binade_from_ge])

lemma round_half_even_bounds: "\<lfloor>r\<rfloor> \<le> round_half_even r" "round_half_even r \<le> \<lceil>r\<rceil>"
proof -
  show "\<lfloor>r\<rfloor> \<le> round_half_even r" by (simp add: round_half_even_def Let_def)
  show "round_half_even r \<le> \<lceil>r\<rceil>"
  proof (cases "r = of_int \<lfloor>r\<rfloor>")
    case True
    then have "r - of_int \<lfloor>r\<rfloor> = 0" by simp
    moreover have "\<lceil>r\<rceil> = \<lfloor>r\<rfloor>" using True by (metis ceiling_of_int)
    ultimately show ?thesis by (simp add: round_half_even_def Let_def)
  next
    case False
    then have "\<lceil>r\<rceil> = \<lfloor>r\<rfloor> + 1" by (metis ceiling_altdef)
    then show ?thesis by (auto simp: round_half_even_def Let_def)
  qed
qed

lemma round_half_even_of_int [simp]: "round_half_even (of_int k) = k"
  by (simp add: round_half_even_def Let_def)

lemma round_half_even_mono: "r \<le> s \<Longrightarrow> round_half_even r \<le> round_half_even s"
proof (cases "\<lfloor>r\<rfloor> = \<lfloor>s\<rfloor>")
  case True
  then show "r \<le> s \<Longrightarrow> ?thesis" by (auto simp: round_half_even_def Let_def)
next
  case False
  assume "r \<le> s"
  with False have "\<lfloor>r\<rfloor> < \<lfloor>s\<rfloor>" using floor_mono by fastforce
  moreover have "\<lceil>r\<rceil> \<le> \<lfloor>r\<rfloor> + 1" by linarith
  ultimately show ?thesis
    using round_half_even_bounds(2) [of r] round_half_even_bounds(1) [of s] by linarith
qed

lemma round_mag_le:
  assumes "x < pow2 (binade x + 1)"
  shows "round_mag x \<le> pow2 (binade x + 1)"
proof -
  let ?u = "pow2 (binade x - 23)"
  have p: "pow2 (binade x + 1) = ?u * 2 ^ 24"
    using pow2_add_nat [of "binade x - 23" 24] by (simp add: add.commute)
  with assms have "x / ?u \<le> of_int (2 ^ 24)" by (simp add: field_simps)
  then have "round_half_even (x / ?u) \<le> 2 ^ 24" by (metis round_half_even_mono round_half_even_of_int)
  then have "of_int (round_half_even (x / ?u)) * ?u \<le> of_int (2 ^ 24) * ?u"
    by (intro mult_right_mono) (simp_all only: of_int_le_iff pow2_nonneg)
  then show ?thesis by (simp add: round_mag_def p Let_def mult.commute)
qed

lemma round_mag_ge:
  assumes "pow2 (binade x) \<le> x"
  shows "pow2 (binade x) \<le> round_mag x"
proof -
  let ?u = "pow2 (binade x - 23)"
  have p: "pow2 (binade x) = ?u * 2 ^ 23" using pow2_add_nat [of "binade x - 23" 23] by simp
  with assms have "of_int (2 ^ 23) \<le> x / ?u" by (simp add: field_simps)
  then have "2 ^ 23 \<le> round_half_even (x / ?u)" by (metis round_half_even_mono round_half_even_of_int)
  then have "of_int (2 ^ 23) * ?u \<le> of_int (round_half_even (x / ?u)) * ?u"
    by (intro mult_right_mono) (simp_all only: of_int_le_iff pow2_nonneg)
  then show ?thesis by (simp add: round_mag_def p Let_def mult.commute)
qed

lemma round_mag_mono:
  assumes "x \<le> y" "y < 2 ^ 128"
  shows "round_mag x \<le> round_mag y"
proof (cases "binade x = binade y")
  case True
  have "x / pow2 (binade x - 23) \<le> y / pow2 (binade x - 23)" using assms(1) by (simp add: divide_right_mono)
  then have "round_half_even (x / pow2 (binade x - 23)) \<le> round_half_even (y / pow2 (binade x - 23))"
    by (rule round_half_even_mono)
  then show ?thesis unfolding round_mag_def True Let_def
    by (intro mult_right_mono) (simp_all only: of_int_le_iff pow2_nonneg)
next
  case False
  have "binade x \<le> binade y" unfolding binade_def by (rule binade_from_mono [OF assms(1)])
  with False have lt: "binade x < binade y" by simp
  moreover have "- 126 \<le> binade x" unfolding binade_def by (rule binade_from_ge)
  ultimately have "pow2 (binade y) \<le> y" using binade_from_above [of 253 "- 126" y] by (simp add: binade_def)
  then have "pow2 (binade y) \<le> round_mag y" by (rule round_mag_ge)
  moreover have "x < pow2 (binade x + 1)"
    unfolding binade_def by (rule binade_from_below) (use assms in \<open>simp add: pow2_def\<close>)
  then have "round_mag x \<le> pow2 (binade x + 1)" by (rule round_mag_le)
  moreover have "pow2 (binade x + 1) \<le> pow2 (binade y)" using lt by (intro pow2_mono) simp
  ultimately show ?thesis by linarith
qed

lemma f32_round_mono: "0 \<le> x \<Longrightarrow> x \<le> y \<Longrightarrow> y < 2 ^ 128 \<Longrightarrow> f32_round x \<le> f32_round y"
  by (simp add: f32_round_def round_mag_mono)

lemma f32_round_0 [simp]: "f32_round 0 = 0"
  by (simp add: f32_round_def round_mag_def round_half_even_def Let_def)

lemma f32_round_1 [simp]: "f32_round 1 = 1"
  by code_simp

lemma f32_round_nonneg: "0 \<le> x \<Longrightarrow> x < 2 ^ 128 \<Longrightarrow> 0 \<le> f32_round x"
  using f32_round_mono [of 0 x] by simp

lemma f32_round_unit: "0 \<le> x \<Longrightarrow> x \<le> 1 \<Longrightarrow> 0 \<le> f32_round x \<and> f32_round x \<le> 1"
  using f32_round_mono [of x 1] f32_round_nonneg [of x] by auto

lemma to_f32_unit: "0 \<le> x \<Longrightarrow> x \<le> 1 \<Longrightarrow> to_f32 x = Fin (f32_round x)"
proof -
  assume "0 \<le> x" "x \<le> 1"
  then have "0 \<le> f32_round x \<and> f32_round x \<le> 1" by (rule f32_round_unit)
  then have "\<bar>f32_round x\<bar> < 2 ^ 128" by simp
  then show ?thesis by (simp add: to_f32_def)
qed

section \<open>Rounding is exact on representable values\<close>

lemma pow2_lt_mono: "pow2 e \<le> pow2 e' \<Longrightarrow> e \<le> e'"
proof (rule ccontr)
  assume le: "pow2 e \<le> pow2 e'" and "\<not> e \<le> e'"
  then have "pow2 (e' + 1) \<le> pow2 e" by (intro pow2_mono) simp
  moreover have "pow2 (e' + 1) = pow2 e' * 2" using pow2_add_nat [of e' 1] by simp
  ultimately show False using le pow2_pos [of e'] by linarith
qed

lemma round_mag_of_multiple:
  assumes "x = of_int k * pow2 (binade x - 23)"
  shows "round_mag x = x"
proof -
  let ?u = "pow2 (binade x - 23)"
  have "x / ?u = of_int k" by (subst assms) simp
  then show ?thesis using assms by (simp add: round_mag_def Let_def)
qed

lemma round_mag_exact:
  assumes x: "x = of_int k * pow2 e" and k: "0 \<le> k" "k \<le> 2 ^ 24" and e: "- 149 \<le> e"
  shows "round_mag x = x"
proof -
  define b where "b = binade x"
  have b: "- 126 \<le> b" unfolding b_def binade_def by (rule binade_from_ge)
  have p24: "pow2 (e + 24) = pow2 e * 2 ^ 24" using pow2_add_nat [of e 24] by simp
  show ?thesis
  proof (cases "b - 23 \<le> e")
    case True
    then have "pow2 e = pow2 (b - 23) * 2 ^ nat (e - (b - 23))"
      using pow2_add_nat [of "b - 23" "nat (e - (b - 23))"] by simp
    then have "x = of_int (k * 2 ^ nat (e - (b - 23))) * pow2 (b - 23)" using x by simp
    then show ?thesis unfolding b_def by (rule round_mag_of_multiple)
  next
    case False
    with e b have "b \<noteq> - 126" by linarith
    then have ge: "pow2 b \<le> x" using binade_from_above [of 253 "- 126" x] by (simp add: b_def binade_def)
    have "x \<le> of_int (2 ^ 24) * pow2 e" unfolding x using k by (intro mult_right_mono) (simp_all only: of_int_le_iff pow2_nonneg)
    then have le: "x \<le> pow2 (e + 24)" by (simp add: p24 mult.commute)
    with ge have "pow2 b \<le> pow2 (e + 24)" by linarith
    then have "b \<le> e + 24" by (rule pow2_lt_mono)
    with False have eq: "b = e + 24" by simp
    with ge le have "x = pow2 b" by simp
    also have "\<dots> = of_int (2 ^ 23) * pow2 (b - 23)" using pow2_add_nat [of "b - 23" 23] by simp
    finally show ?thesis unfolding b_def by (rule round_mag_of_multiple)
  qed
qed

lemma f32_round_idem:
  assumes "0 \<le> x" "x \<le> 1"
  shows "f32_round (f32_round x) = f32_round x"
proof -
  let ?b = "binade x" let ?u = "pow2 (?b - 23)" let ?k = "round_half_even (x / ?u)"
  have b: "- 126 \<le> ?b" unfolding binade_def by (rule binade_from_ge)
  have "0 \<le> x / ?u" using assms by simp
  then have k0: "0 \<le> ?k" using round_half_even_mono [of 0 "x / ?u"] by (metis of_int_0 round_half_even_of_int)
  have "x < pow2 (?b + 1)"
    unfolding binade_def by (rule binade_from_below) (use assms in \<open>simp add: pow2_def\<close>)
  moreover have "pow2 (?b + 1) = ?u * 2 ^ 24" using pow2_add_nat [of "?b - 23" 24] by (simp add: add.commute)
  ultimately have "x / ?u \<le> of_int (2 ^ 24)" by (simp add: field_simps)
  then have k1: "?k \<le> 2 ^ 24" by (metis round_half_even_mono round_half_even_of_int)
  have r: "f32_round x = of_int ?k * ?u" using assms by (simp add: f32_round_def round_mag_def Let_def)
  have "round_mag (f32_round x) = f32_round x" unfolding r by (rule round_mag_exact [OF refl k0 k1]) (use b in simp)
  then show ?thesis using f32_round_unit [OF assms] by (simp add: f32_round_def)
qed

section \<open>Evaluating\<close>

lemma binade_eqI:
  assumes "pow2 b \<le> x" "x < pow2 (b + 1)" "- 126 \<le> b" "b \<le> 127"
  shows "binade x = b"
proof -
  have "pow2 (b + 1) \<le> pow2 128" using assms(4) by (intro pow2_mono) simp
  then have "x < pow2 (- 126 + int 253 + 1)" using assms(2) by simp
  then have lt: "x < pow2 (binade x + 1)" unfolding binade_def by (rule binade_from_below)
  then have "pow2 b < pow2 (binade x + 1)" using assms(1) by linarith
  then have "b < binade x + 1" using pow2_mono [of "binade x + 1" b] by linarith
  moreover have "binade x \<le> b"
  proof (cases "binade x = - 126")
    case False
    then have "pow2 (binade x) \<le> x" using binade_from_above [of 253 "- 126" x] by (simp add: binade_def)
    then have "pow2 (binade x) < pow2 (b + 1)" using assms(2) by linarith
    then show ?thesis using pow2_mono [of "b + 1" "binade x"] by linarith
  qed (use assms(3) in simp)
  ultimately show ?thesis by simp
qed

lemma round_half_even_eqI:
  assumes "\<bar>r - of_int k\<bar> < 1 / 2"
  shows "round_half_even r = k"
proof (cases "of_int k \<le> r")
  case True
  then have "\<lfloor>r\<rfloor> = k" using assms by linarith
  with assms True show ?thesis by (simp add: round_half_even_def Let_def)
next
  case False
  then have "\<lfloor>r\<rfloor> = k - 1" using assms by linarith
  with assms False show ?thesis by (simp add: round_half_even_def Let_def)
qed

text \<open>Rounding a number of a known binade to the multiple of its last place that is nearest.\<close>

lemma f32_round_eqI:
  assumes "pow2 b \<le> x" "x < pow2 (b + 1)" "- 126 \<le> b" "b \<le> 127"
    and "\<bar>x / pow2 (b - 23) - of_int k\<bar> < 1 / 2"
  shows "f32_round x = of_int k * pow2 (b - 23)"
proof -
  have "0 \<le> x" using assms(1) pow2_pos [of b] by linarith
  then show ?thesis
    using binade_eqI [OF assms(1-4)] round_half_even_eqI [OF assms(5)] by (simp add: f32_round_def round_mag_def Let_def)
qed

end
