(* ===== verification/Silence.thy ===== *)
theory Silence
  imports Crypto F32 "HOL-Library.AList"
begin

text \<open>
  Alert silencing, the pure half: \<open>crates/bowery-analysis/src/silence.rs\<close>. Which alerts a silence
  covers, which of several silences governs, what it does to a score, and the set of silences with
  its rule that a newer issue of the same judgement replaces an older one.
\<close>

section \<open>Specifications\<close>

record alert_subject =
  sub_rule_id :: string
  sub_exe_sha256_hex :: string
  sub_exe_path :: string
  sub_host_fp_hex :: string

record silence_spec =
  sp_rule_id :: string
  sp_exe_sha256_hex :: string
  sp_exe_path :: string
  sp_host_fp_hex :: string

definition constrains_count :: "silence_spec \<Rightarrow> nat" where
  "constrains_count sp =
     length (filter (\<lambda>f. f \<noteq> []) [sp_rule_id sp, sp_exe_sha256_hex sp, sp_exe_path sp, sp_host_fp_hex sp])"

definition constrains_binary :: "silence_spec \<Rightarrow> bool" where
  "constrains_binary sp \<longleftrightarrow> sp_exe_sha256_hex sp \<noteq> []"

definition spec_id :: "crypto \<Rightarrow> silence_spec \<Rightarrow> string \<Rightarrow> string" where
  "spec_id c sp cluster_id =
     ''sil-'' @ hex_lower (take 16 (sha256 c (concat (map (\<lambda>f. len_prefixed (str_bytes f))
       [cluster_id, sp_rule_id sp, sp_exe_sha256_hex sp, sp_exe_path sp, sp_host_fp_hex sp]))))"

definition field_matches :: "string \<Rightarrow> string \<Rightarrow> bool" where
  "field_matches pattern v \<longleftrightarrow> pattern = [] \<or> pattern = v"

definition spec_matches :: "silence_spec \<Rightarrow> alert_subject \<Rightarrow> bool" where
  "spec_matches sp subject =
     (if constrains_count sp = 0 then False
      else field_matches (sp_rule_id sp) (sub_rule_id subject) \<and>
        field_matches (sp_exe_sha256_hex sp) (sub_exe_sha256_hex subject) \<and>
        field_matches (sp_exe_path sp) (sub_exe_path subject) \<and>
        field_matches (sp_host_fp_hex sp) (sub_host_fp_hex subject))"

section \<open>Silences\<close>

record silence =
  sil_id :: string
  sil_spec :: silence_spec
  sil_weight :: f32
  sil_reason :: string
  sil_issued_unix_ms :: u64
  sil_expires_unix_ms :: u64

definition is_live :: "silence \<Rightarrow> u64 \<Rightarrow> bool" where
  "is_live s now \<longleftrightarrow> now < sil_expires_unix_ms s"

definition sil_apply :: "silence \<Rightarrow> f32 \<Rightarrow> f32" where
  "sil_apply s suspicion =
     f32_clamp (Fin 0) (Fin 1) (f32_mul suspicion (f32_clamp (Fin 0) (Fin 1) (sil_weight s)))"

datatype silence_decision =
    Unaffected
  | Damped (d_silence_id: string) (d_reason: string) (d_from: f32) (d_to: f32)

section \<open>The set\<close>

text \<open>The hash map, as an association list with distinct keys; its order is the iteration order.\<close>

type_synonym silence_set = "(string \<times> silence) list"

definition set_insert :: "silence_set \<Rightarrow> silence \<Rightarrow> silence_set" where
  "set_insert st s =
     (case map_of st (sil_id s) of
        Some existing \<Rightarrow>
          if sil_issued_unix_ms existing > sil_issued_unix_ms s then st
          else AList.update (sil_id s) s st
      | None \<Rightarrow> AList.update (sil_id s) s st)"

definition set_sweep :: "silence_set \<Rightarrow> u64 \<Rightarrow> nat \<times> silence_set" where
  "set_sweep st now =
     (let st' = filter (\<lambda>(_, s). is_live s now) st in (length st - length st', st'))"

definition set_get :: "silence_set \<Rightarrow> string \<Rightarrow> silence option" where
  "set_get st i = map_of st i"

text \<open>\<open>Iterator::max_by\<close>: of several greatest elements, the last one.\<close>

definition more_specific_or_newer :: "silence \<Rightarrow> silence \<Rightarrow> bool" where
  "more_specific_or_newer a b \<longleftrightarrow>
     constrains_count (sil_spec b) < constrains_count (sil_spec a) \<or>
     constrains_count (sil_spec b) = constrains_count (sil_spec a) \<and> sil_issued_unix_ms b < sil_issued_unix_ms a"

fun max_by :: "('a \<Rightarrow> 'a \<Rightarrow> bool) \<Rightarrow> 'a list \<Rightarrow> 'a option" where
  "max_by gt [] = None"
| "max_by gt (x # xs) = Some (foldl (\<lambda>best y. if gt best y then best else y) x xs)"

definition governing :: "silence_set \<Rightarrow> alert_subject \<Rightarrow> u64 \<Rightarrow> silence option" where
  "governing st subject now =
     max_by more_specific_or_newer
       (filter (\<lambda>s. is_live s now \<and> spec_matches (sil_spec s) subject) (map snd st))"

definition set_decide :: "silence_set \<Rightarrow> alert_subject \<Rightarrow> f32 \<Rightarrow> u64 \<Rightarrow> silence_decision" where
  "set_decide st subject suspicion now =
     (case governing st subject now of
        None \<Rightarrow> Unaffected
      | Some s \<Rightarrow> Damped (sil_id s) (sil_reason s) suspicion (sil_apply s suspicion))"

section \<open>Facts\<close>

lemma max_by_foldl:
  assumes total: "\<And>a b. gt a b \<or> gt b a \<or> eqv a b"
    and trans: "\<And>a b c. \<not> gt b a \<Longrightarrow> \<not> gt c b \<Longrightarrow> \<not> gt c a"
    and asym: "\<And>a b. gt a b \<Longrightarrow> \<not> gt b a"
  shows "foldl (\<lambda>best y. if gt best y then best else y) x xs \<in> set (x # xs) \<and>
    (\<forall>y \<in> set (x # xs). \<not> gt y (foldl (\<lambda>best y. if gt best y then best else y) x xs))"
proof (induction xs arbitrary: x)
  case Nil
  show ?case using asym by auto
next
  case (Cons z xs)
  let ?b = "if gt x z then x else z"
  let ?m = "foldl (\<lambda>best y. if gt best y then best else y) ?b xs"
  from Cons [of ?b] have m: "?m \<in> set (?b # xs)" "\<forall>y \<in> set (?b # xs). \<not> gt y ?m" by blast+
  have "\<not> gt x ?m"
  proof (cases "gt x z")
    case False
    then have "\<not> gt z ?m" using m(2) by simp
    with False show ?thesis using trans by blast
  qed (use m(2) in simp)
  moreover have "\<not> gt z ?m"
  proof (cases "gt x z")
    case True
    then have "\<not> gt z x" by (rule asym)
    moreover have "\<not> gt x ?m" using m(2) True by simp
    ultimately show ?thesis using trans by blast
  qed (use m(2) in simp)
  moreover have "?m \<in> set (x # z # xs)" using m(1) by (auto split: if_splits)
  ultimately show ?case using m(2) by auto
qed

lemma governing_Some:
  assumes "governing st subject now = Some s"
  shows "s \<in> snd ` set st \<and> is_live s now \<and> spec_matches (sil_spec s) subject \<and>
    (\<forall>t \<in> snd ` set st. is_live t now \<longrightarrow> spec_matches (sil_spec t) subject \<longrightarrow>
       \<not> more_specific_or_newer t s)"
proof -
  let ?l = "filter (\<lambda>s. is_live s now \<and> spec_matches (sil_spec s) subject) (map snd st)"
  from assms obtain x xs where l: "?l = x # xs"
    and s: "s = foldl (\<lambda>best y. if more_specific_or_newer best y then best else y) x xs"
    by (cases ?l) (auto simp: governing_def)
  have "s \<in> set ?l \<and> (\<forall>y \<in> set ?l. \<not> more_specific_or_newer y s)"
    unfolding l s by (rule max_by_foldl [where eqv = "\<lambda>_ _. True"])
      (auto simp: more_specific_or_newer_def)
  then show ?thesis by auto
qed

lemma governing_None:
  "governing st subject now = None \<longleftrightarrow>
   (\<forall>t \<in> snd ` set st. is_live t now \<longrightarrow> \<not> spec_matches (sil_spec t) subject)"
proof -
  let ?l = "filter (\<lambda>s. is_live s now \<and> spec_matches (sil_spec s) subject) (map snd st)"
  have "governing st subject now = None \<longleftrightarrow> ?l = []" by (cases ?l) (auto simp: governing_def)
  then show ?thesis by (auto simp: filter_empty_conv)
qed

lemma constrains_pos_iff:
  "0 < constrains_count sp \<longleftrightarrow> sp_rule_id sp \<noteq> [] \<or> sp_exe_sha256_hex sp \<noteq> [] \<or> sp_exe_path sp \<noteq> [] \<or>
   sp_host_fp_hex sp \<noteq> []"
  by (simp add: constrains_count_def)

text \<open>The product of two values in the unit interval, rounded, stays there.\<close>

lemma sil_apply_unit:
  assumes "0 \<le> s" "s \<le> 1" "0 \<le> w" "w \<le> 1" "sil_weight x = Fin w"
  shows "sil_apply x (Fin s) = Fin (f32_round (s * w))"
proof -
  have p: "0 \<le> s * w" "s * w \<le> 1" using assms by (simp_all add: mult_le_one)
  have "f32_clamp (Fin 0) (Fin 1) (Fin w) = Fin w" using assms by (auto simp: f32_clamp_def)
  moreover have "f32_clamp (Fin 0) (Fin 1) (Fin (f32_round (s * w))) = Fin (f32_round (s * w))"
    using f32_round_unit [OF p] by (auto simp: f32_clamp_def)
  ultimately show ?thesis using assms(5) to_f32_unit [OF p] by (simp add: sil_apply_def)
qed

lemma sil_apply_lowers:
  assumes "0 \<le> s" "s \<le> 1" "f32_round s = s" "0 \<le> w" "w \<le> 1" "sil_weight x = Fin w"
  shows "\<exists>t. sil_apply x (Fin s) = Fin t \<and> 0 \<le> t \<and> t \<le> s \<and> (w = 0 \<longrightarrow> t = 0) \<and> (w = 1 \<longrightarrow> t = s)"
proof -
  have p: "0 \<le> s * w" "s * w \<le> s" using assms by (simp_all add: mult_left_le)
  have "f32_round (s * w) \<le> f32_round s" using p assms(2) by (intro f32_round_mono) auto
  moreover have "0 \<le> f32_round (s * w)" using p assms(2) by (intro f32_round_nonneg) auto
  ultimately show ?thesis
    using sil_apply_unit [OF assms(1,2,4,5,6)] assms(3) by (intro exI) auto
qed

section \<open>Delivery order\<close>

definition insert_all :: "silence_set \<Rightarrow> silence list \<Rightarrow> silence_set" where
  "insert_all st ss = foldl set_insert st ss"

lemma set_get_insert:
  "set_get (set_insert st s) i =
     (if i = sil_id s \<and> (\<forall>e. set_get st i = Some e \<longrightarrow> \<not> sil_issued_unix_ms e > sil_issued_unix_ms s)
      then Some s else set_get st i)"
  by (auto simp: set_insert_def set_get_def update_conv' split: option.splits)

lemma distinct_set_insert: "distinct (map fst st) \<Longrightarrow> distinct (map fst (set_insert st s))"
  by (auto simp: set_insert_def distinct_update split: option.splits)

text \<open>What the set holds after any deliveries: for each id, one issued last.\<close>

lemma insert_all_newest:
  "(set_get (insert_all [] ss) i = None \<longrightarrow> (\<forall>s \<in> set ss. sil_id s \<noteq> i)) \<and>
   (\<forall>e. set_get (insert_all [] ss) i = Some e \<longrightarrow> e \<in> set ss \<and> sil_id e = i \<and>
      (\<forall>s \<in> set ss. sil_id s = i \<longrightarrow> sil_issued_unix_ms s \<le> sil_issued_unix_ms e))"
proof (induction ss rule: rev_induct)
  case Nil
  show ?case by (simp add: insert_all_def set_get_def)
next
  case (snoc s ss)
  let ?st = "insert_all [] ss"
  have step: "insert_all [] (ss @ [s]) = set_insert ?st s" by (simp add: insert_all_def)
  show ?case
  proof (cases "set_get ?st i")
    case None
    with snoc show ?thesis unfolding step set_get_insert by auto
  next
    case (Some e)
    with snoc have e: "e \<in> set ss" "sil_id e = i"
      "\<forall>s \<in> set ss. sil_id s = i \<longrightarrow> sil_issued_unix_ms s \<le> sil_issued_unix_ms e" by auto
    show ?thesis
    proof (cases "i = sil_id s \<and> \<not> sil_issued_unix_ms s < sil_issued_unix_ms e")
      case True
      with Some e show ?thesis unfolding step set_get_insert by (auto intro: order_trans)
    next
      case False
      with Some e show ?thesis unfolding step set_get_insert by auto
    qed
  qed
qed

section \<open>Properties\<close>

text \<open>
  The order of delivery does not matter. Gossip and relaying deliver silences in any order and
  more than once. If two agents received the same silences, then, as long as no two different
  silences share id and issue time, their sets hold the same silence under every id, namely the one
  issued last; so an older copy that arrives late never undoes a revocation.
\<close>

theorem silences_converge:
  assumes "set xs = set ys"
    and "\<forall>s \<in> set xs. \<forall>t \<in> set xs. sil_id s = sil_id t \<and> sil_issued_unix_ms s = sil_issued_unix_ms t \<longrightarrow> s = t"
  shows "set_get (insert_all [] xs) i = set_get (insert_all [] ys) i \<and>
    (\<forall>e. set_get (insert_all [] xs) i = Some e \<longrightarrow>
      (\<forall>s \<in> set xs. sil_id s = i \<longrightarrow> sil_issued_unix_ms s \<le> sil_issued_unix_ms e))"
proof -
  let ?x = "set_get (insert_all [] xs) i" and ?y = "set_get (insert_all [] ys) i"
  note X = insert_all_newest [of xs i] and Y = insert_all_newest [of ys i]
  have "?x = ?y"
  proof (cases ?x)
    case None
    with X have none: "\<forall>s \<in> set ys. sil_id s \<noteq> i" using assms(1) by simp
    show ?thesis
    proof (cases ?y)
      case (Some e)
      with Y none show ?thesis by blast
    qed (use None in simp)
  next
    case (Some e)
    with X have e: "e \<in> set xs" "sil_id e = i"
      "\<forall>s \<in> set xs. sil_id s = i \<longrightarrow> sil_issued_unix_ms s \<le> sil_issued_unix_ms e" by blast+
    have "?y \<noteq> None" using Y e(1,2) unfolding assms(1) by blast
    then obtain f where f: "?y = Some f" by blast
    with Y have g: "f \<in> set xs" "sil_id f = i"
      "\<forall>s \<in> set xs. sil_id s = i \<longrightarrow> sil_issued_unix_ms s \<le> sil_issued_unix_ms f"
      unfolding assms(1) by blast+
    have "sil_issued_unix_ms e = sil_issued_unix_ms f" using e(3) [rule_format, OF g(1,2)] g(3) [rule_format, OF e(1,2)] by (rule order_antisym [rotated])
    with e(2) g(2) have "e = f" by (intro assms(2) [rule_format, OF e(1) g(1)]) simp
    with Some f show ?thesis by simp
  qed
  with X show ?thesis by blast
qed

definition demo_sil :: "u64 \<Rightarrow> f32 \<Rightarrow> silence" where
  "demo_sil issued w = \<lparr>sil_id = ''sil-1'', sil_spec = \<lparr>sp_rule_id = ''r'', sp_exe_sha256_hex = ''ab'',
     sp_exe_path = [], sp_host_fp_hex = []\<rparr>, sil_weight = w, sil_reason = ''benign'',
     sil_issued_unix_ms = issued, sil_expires_unix_ms = 100\<rparr>"

theorem silences_converge_witness:
  "set_get (insert_all [] [demo_sil 5 (Fin 0), demo_sil 9 (Fin 1)]) ''sil-1''
     = set_get (insert_all [] [demo_sil 9 (Fin 1), demo_sil 5 (Fin 0), demo_sil 5 (Fin 0)]) ''sil-1'' \<and>
   set_get (insert_all [] [demo_sil 5 (Fin 0), demo_sil 9 (Fin 1)]) ''sil-1'' = Some (demo_sil 9 (Fin 1))"
proof
  show "set_get (insert_all [] [demo_sil 5 (Fin 0), demo_sil 9 (Fin 1)]) ''sil-1''
     = set_get (insert_all [] [demo_sil 9 (Fin 1), demo_sil 5 (Fin 0), demo_sil 5 (Fin 0)]) ''sil-1''"
    by (rule silences_converge [THEN conjunct1]) (auto simp: demo_sil_def)
qed (simp add: insert_all_def set_insert_def set_get_def demo_sil_def)

text \<open>
  What a silence can do to a score. If the set damps an alert, then some live silence that
  constrains at least one field covers the alert, no live silence covering it is more specific (or
  as specific and newer), and the score, a number between 0 and 1, only goes down: to 0 under weight
  0, not at all under weight 1. An alert no live silence covers is left alone.
\<close>

theorem silence_only_lowers:
  assumes "0 \<le> s" "s \<le> 1" "f32_wf (Fin s)"
    and weights: "\<forall>t \<in> snd ` set st. \<exists>w. sil_weight t = Fin w \<and> 0 \<le> w \<and> w \<le> 1"
  shows "case set_decide st subject (Fin s) now of
      Unaffected \<Rightarrow> \<forall>t \<in> snd ` set st. is_live t now \<longrightarrow> \<not> spec_matches (sil_spec t) subject
    | Damped i r f t \<Rightarrow> f = Fin s \<and> (\<exists>x w q. x \<in> snd ` set st \<and> sil_id x = i \<and> is_live x now \<and>
        0 < constrains_count (sil_spec x) \<and> spec_matches (sil_spec x) subject \<and>
        (\<forall>y \<in> snd ` set st. is_live y now \<longrightarrow> spec_matches (sil_spec y) subject \<longrightarrow>
           \<not> more_specific_or_newer y x) \<and>
        sil_weight x = Fin w \<and> t = Fin q \<and> 0 \<le> q \<and> q \<le> s \<and> (w = 0 \<longrightarrow> q = 0) \<and> (w = 1 \<longrightarrow> q = s))"
proof (cases "governing st subject now")
  case None
  then show ?thesis using governing_None [of st subject now] by (simp add: set_decide_def)
next
  case (Some x)
  note g = governing_Some [OF Some]
  with weights obtain w where w: "sil_weight x = Fin w" "0 \<le> w" "w \<le> 1" by blast
  have "f32_round s = s" using assms(3) by simp
  from sil_apply_lowers [OF assms(1,2) this w(2,3,1)] obtain q where
    q: "sil_apply x (Fin s) = Fin q" "0 \<le> q" "q \<le> s" "w = 0 \<longrightarrow> q = 0" "w = 1 \<longrightarrow> q = s" by blast
  have "0 < constrains_count (sil_spec x)" using g by (auto simp: spec_matches_def split: if_splits)
  with g w q show ?thesis by (simp add: set_decide_def Some) blast
qed

theorem silence_only_lowers_witness:
  "\<exists>q. set_decide [(''sil-1'', demo_sil 5 (Fin (1 / 2)))] \<lparr>sub_rule_id = ''r'',
     sub_exe_sha256_hex = ''ab'', sub_exe_path = ''/bin/x'', sub_host_fp_hex = ''f''\<rparr> (Fin (3 / 4)) 50
   = Damped ''sil-1'' ''benign'' (Fin (3 / 4)) (Fin q) \<and> 0 \<le> q \<and> q \<le> 3 / 4"
proof -
  let ?st = "[(''sil-1'', demo_sil 5 (Fin (1 / 2)))]"
  let ?sub = "\<lparr>sub_rule_id = ''r'', sub_exe_sha256_hex = ''ab'', sub_exe_path = ''/bin/x'',
    sub_host_fp_hex = ''f''\<rparr>"
  have wf: "f32_wf (Fin (3 / 4))" by code_simp
  have "\<forall>t \<in> snd ` set ?st. \<exists>w. sil_weight t = Fin w \<and> 0 \<le> w \<and> w \<le> 1"
    by (simp add: demo_sil_def) (rule exI [where x = "1 / 2"], simp)
  note low = silence_only_lowers [OF _ _ wf this, where subject = ?sub and now = 50]
  have "governing ?st ?sub 50 = Some (demo_sil 5 (Fin (1 / 2)))"
    by (simp add: governing_def demo_sil_def is_live_def spec_matches_def constrains_count_def
        field_matches_def)
  with low show ?thesis by (auto simp: set_decide_def demo_sil_def)
qed

end
