(* ===== verification/Silence_Store.thy ===== *)
theory Silence_Store
  imports Silence Proto Text_Lines "HOL-Library.List_Lexorder" "HOL-Library.Char_ord"
    "HOL-Library.Countable"
begin

text \<open>
  The silences an agent honours, \<open>crates/bowery-agent/src/silence_store.rs\<close>: the checks on an
  operator-signed silence, the store with its match counters, sweeping, and the file that is
  rewritten on every change and re-verified on load.
\<close>

section \<open>State\<close>

datatype silence_rejected =
    SrMalformed
  | SrUntrustedOperator
  | SrBadSignature
  | SrClusterMismatch
  | SrExpired
  | SrNoExpiry
  | SrUnconstrained
  | SrFull

record counted =
  matched :: u64
  last_matched_unix_ms :: u64

text \<open>The three maps are association lists with distinct keys; the order is the iteration order.\<close>

record silence_store =
  ss_set :: silence_set
  ss_counts :: "(string \<times> counted) list"
  ss_meta :: "(string \<times> (string \<times> alert_silence)) list"
  ss_path :: path
  ss_cluster_id :: string
  ss_max_entries :: nat

text \<open>The protobuf codec of a silence is a package.\<close>

record sil_codec =
  sil_encode :: "alert_silence \<Rightarrow> bytes"
  sil_decode :: "bytes \<Rightarrow> alert_silence option"

definition store_in_memory :: "string \<Rightarrow> silence_store" where
  "store_in_memory cluster_id = \<lparr>ss_set = [], ss_counts = [], ss_meta = [], ss_path = [],
     ss_cluster_id = cluster_id, ss_max_entries = 4096\<rparr>"

definition spec_of :: "alert_silence \<Rightarrow> silence_spec" where
  "spec_of s = \<lparr>sp_rule_id = as_rule_id s, sp_exe_sha256_hex = as_exe_sha256_hex s,
     sp_exe_path = as_exe_path s, sp_host_fp_hex = hex_lower (as_host_fp s)\<rparr>"

definition sil_decode_line :: "crypto \<Rightarrow> sil_codec \<Rightarrow> string \<Rightarrow> silence_rejected + alert_silence" where
  "sil_decode_line c k line =
     and_then (ok_or SrMalformed (b64_decode c line)) (\<lambda>raw. ok_or SrMalformed (sil_decode k raw))"

section \<open>Operations\<close>

definition store_verify ::
    "crypto \<Rightarrow> silence_store \<Rightarrow> alert_silence \<Rightarrow> (fingerprint \<Rightarrow> verifying_key option) \<Rightarrow> u64
     \<Rightarrow> silence_rejected + unit" where
  "store_verify c st s trusted now =
     and_then (guard SrClusterMismatch (as_cluster_id s = ss_cluster_id st)) (\<lambda>_.
     and_then (guard SrNoExpiry (as_expires_unix_ms s \<noteq> 0)) (\<lambda>_.
     and_then (guard SrExpired (now < as_expires_unix_ms s)) (\<lambda>_.
     and_then (guard SrUnconstrained (constrains_count (spec_of s) \<noteq> 0)) (\<lambda>_.
     and_then (ok_or SrMalformed (to_array 32 (as_operator_fp s))) (\<lambda>operator_fp.
     and_then (ok_or SrUntrustedOperator (trusted operator_fp)) (\<lambda>vk.
     and_then (ok_or SrBadSignature (to_array 64 (as_sig s))) (\<lambda>sig.
     and_then (ok_or SrMalformed (as_to_signing_input s)) (\<lambda>input.
     guard SrBadSignature (is_ok (verify c vk input sig))))))))))"

definition convert :: "alert_silence \<Rightarrow> silence" where
  "convert s = \<lparr>sil_id = as_id s, sil_spec = spec_of s,
     sil_weight = f32_div (of_nat (unat (min (as_weight_permille s) as_FULL_WEIGHT))) 1000,
     sil_reason = as_reason s, sil_issued_unix_ms = as_issued_unix_ms s,
     sil_expires_unix_ms = as_expires_unix_ms s\<rparr>"

definition insert_verified :: "silence_store \<Rightarrow> alert_silence \<Rightarrow> bool \<times> silence_store" where
  "insert_verified st s =
     (let previous = set_get (ss_set st) (as_id s);
          set' = set_insert (ss_set st) (convert s);
          changed = (set_get set' (as_id s) \<noteq> previous);
          st' = st\<lparr>ss_set := set'\<rparr> in
      if changed
      then (True, st'\<lparr>ss_meta := AList.update (as_id s) (hex_lower (as_operator_fp s), s) (ss_meta st),
              ss_counts := (case map_of (ss_counts st) (as_id s) of
                Some _ \<Rightarrow> ss_counts st
              | None \<Rightarrow> AList.update (as_id s) \<lparr>matched = 0, last_matched_unix_ms = 0\<rparr> (ss_counts st))\<rparr>)
      else (False, st'))"

definition persist_header :: string where
  "persist_header = ''# operator-signed alert silences; re-verified on load''"

definition persist_line :: "crypto \<Rightarrow> sil_codec \<Rightarrow> alert_silence \<Rightarrow> string" where
  "persist_line c k s = b64_encode c (sil_encode k s)"

text \<open>\<open>std::fs::write\<close>: the file is truncated and rewritten in place, not replaced atomically.\<close>

definition persist :: "crypto \<Rightarrow> sil_codec \<Rightarrow> fault \<Rightarrow> string \<Rightarrow> fs \<Rightarrow> silence_store \<Rightarrow> fs" where
  "persist c k fault partial fs st =
     (if ss_path st = [] then fs
      else let out = persist_header @ [NL] @
             concat (map (\<lambda>(_, _, s). persist_line c k s @ [NL]) (ss_meta st));
           m = (case fs (ss_path st) of None \<Rightarrow> 420 | Some f \<Rightarrow> mode f) in
        if fault = FailOpen then fs
        else if fault = FailWrite then fs(ss_path st \<mapsto> \<lparr>mode = m, body = partial\<rparr>)
        else fs(ss_path st \<mapsto> \<lparr>mode = m, body = out\<rparr>))"

definition store_len :: "silence_store \<Rightarrow> nat" where
  "store_len st = length (ss_set st)"

definition store_accept ::
    "crypto \<Rightarrow> sil_codec \<Rightarrow> fault \<Rightarrow> string \<Rightarrow> fs \<Rightarrow> silence_store \<Rightarrow> alert_silence
     \<Rightarrow> (fingerprint \<Rightarrow> verifying_key option) \<Rightarrow> u64
     \<Rightarrow> (silence_rejected + bool) \<times> fs \<times> silence_store" where
  "store_accept c k fault partial fs st s trusted now =
     (case store_verify c st s trusted now of
        Inl e \<Rightarrow> (Inl e, fs, st)
      | Inr _ \<Rightarrow>
          if ss_max_entries st \<le> store_len st \<and> set_get (ss_set st) (as_id s) = None
          then (Inl SrFull, fs, st)
          else (case insert_verified st s of
            (changed, st') \<Rightarrow>
              (Inr changed, if changed then persist c k fault partial fs st' else fs, st')))"

definition store_load_line ::
    "crypto \<Rightarrow> sil_codec \<Rightarrow> (fingerprint \<Rightarrow> verifying_key option) \<Rightarrow> u64 \<Rightarrow> silence_store \<Rightarrow> string
     \<Rightarrow> silence_store" where
  "store_load_line c k trusted now st raw_line =
     (let line = trim raw_line in
      if line = [] \<or> hd line = CHR ''#'' then st
      else case sil_decode_line c k line of
        Inl _ \<Rightarrow> st
      | Inr s \<Rightarrow> (case store_verify c st s trusted now of
          Inl _ \<Rightarrow> st
        | Inr _ \<Rightarrow> snd (insert_verified st s)))"

definition store_load ::
    "crypto \<Rightarrow> sil_codec \<Rightarrow> fault \<Rightarrow> fs \<Rightarrow> path \<Rightarrow> string \<Rightarrow> (fingerprint \<Rightarrow> verifying_key option) \<Rightarrow> u64
     \<Rightarrow> silence_store" where
  "store_load c k fault fs p cluster_id trusted now =
     (let store = (store_in_memory cluster_id)\<lparr>ss_path := p\<rparr> in
      case fs p of
        None \<Rightarrow> store
      | Some f \<Rightarrow> if fault = FailRead then store
          else foldl (store_load_line c k trusted now) store (lines (body f)))"

definition store_decide ::
    "silence_store \<Rightarrow> alert_subject \<Rightarrow> f32 \<Rightarrow> u64 \<Rightarrow> silence_decision \<times> silence_store" where
  "store_decide st subject suspicion now =
     (let decision = set_decide (ss_set st) subject suspicion now in
      case decision of
        Unaffected \<Rightarrow> (decision, st)
      | Damped i _ _ _ \<Rightarrow>
          (case map_of (ss_counts st) i of
             None \<Rightarrow> (decision, st)
           | Some n \<Rightarrow> (decision, st\<lparr>ss_counts :=
               AList.update i \<lparr>matched = matched n + 1, last_matched_unix_ms = now\<rparr> (ss_counts st)\<rparr>)))"

definition store_sweep ::
    "crypto \<Rightarrow> sil_codec \<Rightarrow> fault \<Rightarrow> string \<Rightarrow> fs \<Rightarrow> silence_store \<Rightarrow> u64 \<Rightarrow> nat \<times> fs \<times> silence_store" where
  "store_sweep c k fault partial fs st now =
     (case set_sweep (ss_set st) now of
        (dropped, set') \<Rightarrow>
          let st' = st\<lparr>ss_set := set'\<rparr> in
          if 0 < dropped
          then let live = map (\<lambda>(_, s). sil_id s) set';
                   st'' = st'\<lparr>ss_counts := filter (\<lambda>(i, _). i \<in> set live) (ss_counts st),
                     ss_meta := filter (\<lambda>(i, _). i \<in> set live) (ss_meta st)\<rparr>
               in (dropped, persist c k fault partial fs st'', st'')
          else (dropped, fs, st'))"

text \<open>A silence as an operator sees it.\<close>

record silence_row =
  row_silence :: silence
  row_operator_fp_hex :: string
  row_matched :: u64
  row_last_matched_unix_ms :: "u64 option"

definition row_of :: "silence_store \<Rightarrow> silence \<Rightarrow> silence_row" where
  "row_of st s =
     (let (m, l) = (case map_of (ss_counts st) (sil_id s) of
                      None \<Rightarrow> (0, 0) | Some n \<Rightarrow> (matched n, last_matched_unix_ms n)) in
      \<lparr>row_silence = s,
       row_operator_fp_hex = (case map_of (ss_meta st) (sil_id s) of None \<Rightarrow> [] | Some (op, _) \<Rightarrow> op),
       row_matched = m, row_last_matched_unix_ms = (if 0 < l then Some l else None)\<rparr>)"

definition store_rows :: "silence_store \<Rightarrow> silence_row list" where
  "store_rows st = sort_key (\<lambda>r. sil_id (row_silence r)) (map (row_of st) (map snd (ss_set st)))"

section \<open>The invariant\<close>

lemma store_verify_ok:
  "store_verify c st s trusted now = Inr () \<longleftrightarrow>
   as_cluster_id s = ss_cluster_id st \<and> as_expires_unix_ms s \<noteq> 0 \<and> now < as_expires_unix_ms s \<and>
   constrains_count (spec_of s) \<noteq> 0 \<and> length (as_operator_fp s) = 32 \<and> length (as_sig s) = 64 \<and>
   (\<exists>vk input. trusted (as_operator_fp s) = Some vk \<and> as_to_signing_input s = Some input \<and>
      verify_strict c vk input (as_sig s))"
  by (auto simp: store_verify_def verify_def is_ok_iff)

text \<open>
  Every silence of the set is the converted form of the signed record kept beside it, and that record
  verified when it was accepted.
\<close>

definition store_inv :: "crypto \<Rightarrow> (fingerprint \<Rightarrow> verifying_key option) \<Rightarrow> silence_store \<Rightarrow> bool" where
  "store_inv c trusted st \<longleftrightarrow>
     distinct (map fst (ss_set st)) \<and> distinct (map fst (ss_meta st)) \<and>
     (\<forall>i. set_get (ss_set st) i = map_option (\<lambda>m. convert (snd m)) (map_of (ss_meta st) i)) \<and>
     (\<forall>i op s. (i, op, s) \<in> set (ss_meta st) \<longrightarrow> as_id s = i \<and>
        (\<exists>t. store_verify c st s trusted t = Inr ()))"

lemma store_invD:
  assumes "store_inv c trusted st"
  shows "distinct (map fst (ss_set st))" "distinct (map fst (ss_meta st))"
    "set_get (ss_set st) i = map_option (\<lambda>m. convert (snd m)) (map_of (ss_meta st) i)"
    "(i, op, s) \<in> set (ss_meta st) \<Longrightarrow> as_id s = i"
    "(i, op, s) \<in> set (ss_meta st) \<Longrightarrow> \<exists>t. store_verify c st s trusted t = Inr ()"
  using assms unfolding store_inv_def by blast+

lemma store_verify_cong:
  "ss_cluster_id st = ss_cluster_id st' \<Longrightarrow> store_verify c st s tr t = store_verify c st' s tr t"
  by (simp add: store_verify_def)

lemma insert_verified_frame [simp]:
  "ss_path (snd (insert_verified st s)) = ss_path st"
  "ss_cluster_id (snd (insert_verified st s)) = ss_cluster_id st"
  "ss_max_entries (snd (insert_verified st s)) = ss_max_entries st"
  by (simp_all add: insert_verified_def Let_def)

lemma insert_verified_get:
  "set_get (ss_set (snd (insert_verified st s))) i = set_get (set_insert (ss_set st) (convert s)) i"
  by (simp add: insert_verified_def Let_def)

lemma sil_id_convert [simp]: "sil_id (convert s) = as_id s"
  by (simp add: convert_def)

lemma insert_verified_inv:
  assumes inv: "store_inv c trusted st" and ok: "store_verify c st s trusted now = Inr ()"
  shows "store_inv c trusted (snd (insert_verified st s))"
proof (cases "set_get (set_insert (ss_set st) (convert s)) (as_id s) = set_get (ss_set st) (as_id s)")
  case True
  then have eq: "snd (insert_verified st s) = st\<lparr>ss_set := set_insert (ss_set st) (convert s)\<rparr>"
    by (simp add: insert_verified_def Let_def)
  have "set_get (set_insert (ss_set st) (convert s)) i = set_get (ss_set st) i" for i
    using True by (cases "i = as_id s") (simp_all add: set_get_insert)
  then show ?thesis
    using inv distinct_set_insert [OF store_invD(1) [OF inv]] unfolding eq store_inv_def
    by (simp add: store_verify_def)
next
  case False
  let ?st = "snd (insert_verified st s)"
  have m: "ss_meta ?st = AList.update (as_id s) (hex_lower (as_operator_fp s), s) (ss_meta st)"
    and st: "ss_set ?st = set_insert (ss_set st) (convert s)"
    using False by (simp_all add: insert_verified_def Let_def)
  have new: "set_get (set_insert (ss_set st) (convert s)) (as_id s) = Some (convert s)"
    using False by (auto simp: set_get_insert split: if_splits)
  have "set_get (ss_set ?st) i = map_option (\<lambda>m. convert (snd m)) (map_of (ss_meta ?st) i)" for i
    using new store_invD(3) [OF inv, of i]
    by (cases "i = as_id s") (simp_all add: st m update_conv' set_get_insert)
  moreover have "as_id r = i \<and> (\<exists>t. store_verify c ?st r trusted t = Inr ())"
    if "(i, op, r) \<in> set (ss_meta ?st)" for i op r
  proof -
    have "distinct (map fst (ss_meta ?st))" unfolding m by (rule distinct_update [OF store_invD(2) [OF inv]])
    then have "map_of (ss_meta ?st) i = Some (op, r)" using that by simp
    then have "i = as_id s \<and> r = s \<or> (i, op, r) \<in> set (ss_meta st)"
      by (auto simp: m update_conv' split: if_splits dest: map_of_SomeD)
    then show ?thesis using ok store_invD(4,5) [OF inv] store_verify_cong [of ?st st] by auto
  qed
  ultimately show ?thesis
    unfolding store_inv_def using distinct_set_insert [OF store_invD(1) [OF inv]]
      distinct_update [OF store_invD(2) [OF inv]] by (simp add: st m)
qed

lemma store_sweep_inv:
  assumes inv: "store_inv c trusted st"
  shows "store_inv c trusted (snd (snd (store_sweep c' k fault partial fs st now)))"
proof -
  let ?set = "filter (\<lambda>(_, s). is_live s now) (ss_set st)"
  have key: "sil_id x = i" if "(i, x) \<in> set (ss_set st)" for i x
  proof -
    have "set_get (ss_set st) i = Some x" using that store_invD(1) [OF inv] by (simp add: set_get_def)
    then have "map_option (\<lambda>m. convert (snd m)) (map_of (ss_meta st) i) = Some x"
      unfolding store_invD(3) [OF inv, of i] .
    then obtain op s where "map_of (ss_meta st) i = Some (op, s)" "x = convert s" by auto
    with store_invD(4) [OF inv] show ?thesis by (auto dest: map_of_SomeD)
  qed
  show ?thesis
  proof (cases "length (ss_set st) - length ?set")
    case 0
    then have "?set = ss_set st" by (metis diff_is_0_eq filter_True length_filter_less linorder_not_less)
    then have "snd (snd (store_sweep c' k fault partial fs st now)) = st"
      by (simp add: store_sweep_def set_sweep_def Let_def)
    with inv show ?thesis by simp
  next
    case (Suc n)
    let ?live = "(\<lambda>(_, s). sil_id s) ` set ?set"
    let ?meta = "filter (\<lambda>(i, _). i \<in> ?live) (ss_meta st)"
    let ?st = "st\<lparr>ss_set := ?set, ss_counts := filter (\<lambda>(i, _). i \<in> ?live) (ss_counts st), ss_meta := ?meta\<rparr>"
    have eq: "snd (snd (store_sweep c' k fault partial fs st now)) = ?st"
      using Suc by (simp add: store_sweep_def set_sweep_def Let_def)
    have live: "i \<in> ?live \<longleftrightarrow> (\<exists>x. map_of (ss_set st) i = Some x \<and> is_live x now)" for i
      using key store_invD(1) [OF inv] by (force simp: image_iff)
    have d: "distinct (map fst ?set)" "distinct (map fst ?meta)"
      using store_invD(1,2) [OF inv] by (auto intro: distinct_map_filter)
    have "map_of ?set i = map_option (\<lambda>m. convert (snd m)) (map_of ?meta i)" for i
      using live [of i] store_invD(3) [OF inv, of i]
      unfolding map_of_filter [OF store_invD(1) [OF inv]] map_of_filter [OF store_invD(2) [OF inv]]
      by (auto simp: set_get_def split: option.splits)
    moreover have "as_id s = i \<and> (\<exists>t. store_verify c ?st s trusted t = Inr ())"
      if "(i, op, s) \<in> set ?meta" for i op s
      using that store_invD(4,5) [OF inv, of i op s] store_verify_cong [of ?st st] by auto
    ultimately show ?thesis
      unfolding eq store_inv_def using d by (auto simp: set_get_def)
  qed
qed

section \<open>The file\<close>

text \<open>
  What the code relies on of the packages: a record that expires encodes to a non-empty line of
  base64, which decodes back.
\<close>

definition sil_codec_ok :: "crypto \<Rightarrow> sil_codec \<Rightarrow> bool" where
  "sil_codec_ok c k \<longleftrightarrow> (\<forall>s. as_expires_unix_ms s \<noteq> 0 \<longrightarrow>
     sil_decode k (sil_encode k s) = Some s \<and> plain_line (persist_line c k s) \<and>
     hd (persist_line c k s) \<noteq> CHR ''#'')"

text \<open>The file holds exactly the records of the store; no file stands for an empty store.\<close>

definition disk_ok :: "crypto \<Rightarrow> sil_codec \<Rightarrow> fs \<Rightarrow> silence_store \<Rightarrow> bool" where
  "disk_ok c k fs st \<longleftrightarrow> (case fs (ss_path st) of
     None \<Rightarrow> ss_meta st = []
   | Some f \<Rightarrow> lines (body f) = persist_header # map (\<lambda>(_, _, s). persist_line c k s) (ss_meta st))"

lemma header_plain: "plain_line persist_header" "hd persist_header = CHR ''#''"
  by (simp_all add: persist_header_def plain_line_def is_white_def NL_def)

lemma persist_disk_ok:
  assumes "sil_codec_ok c k" "store_inv c tr st" "ss_path st \<noteq> []"
  shows "disk_ok c k (persist c k NoFault partial fs st) st"
proof -
  let ?ls = "map (\<lambda>(_, _, s). persist_line c k s) (ss_meta st)"
  have "plain_line l" if "l \<in> set ?ls" for l
  proof -
    from that obtain i op s where m: "(i, op, s) \<in> set (ss_meta st)" and l: "l = persist_line c k s"
      by auto
    from store_invD(5) [OF assms(2) m] have "as_expires_unix_ms s \<noteq> 0" by (auto simp: store_verify_ok)
    with assms(1) l show ?thesis by (simp add: sil_codec_ok_def)
  qed
  then have "lines (concat (map (\<lambda>l. l @ [NL]) (persist_header # ?ls))) = persist_header # ?ls"
    by (intro lines_concat) (simp add: header_plain)
  moreover have "concat (map (\<lambda>l. l @ [NL]) (persist_header # ?ls))
      = persist_header @ [NL] @ concat (map (\<lambda>(_, _, s). persist_line c k s @ [NL]) (ss_meta st))"
    by (simp add: comp_def case_prod_unfold)
  ultimately show ?thesis using assms(3) by (simp add: disk_ok_def persist_def Let_def)
qed

lemma store_load_line_record:
  assumes "crypto_ok c" "sil_codec_ok c k" "as_expires_unix_ms s \<noteq> 0"
  shows "store_load_line c k tr now st (persist_line c k s) =
    (if is_ok (store_verify c st s tr now) then snd (insert_verified st s) else st)"
proof -
  have p: "plain_line (persist_line c k s)" "hd (persist_line c k s) \<noteq> CHR ''#''"
    "sil_decode k (sil_encode k s) = Some s"
    using assms(2,3) by (simp_all add: sil_codec_ok_def)
  have "sil_decode_line c k (persist_line c k s) = Inr s"
    using p(3) crypto_okD(7) [OF assms(1)] by (simp add: sil_decode_line_def persist_line_def)
  moreover have "persist_line c k s \<noteq> []" using p(1) by (simp add: plain_line_def)
  ultimately show ?thesis
    using p(2) by (simp add: store_load_line_def trim_plain [OF p(1)] is_ok_def split: sum.split)
qed

text \<open>Loading the records of a store, in any order, gives those that are still live.\<close>

lemma load_records:
  assumes "crypto_ok c" "sil_codec_ok c k"
    and "distinct (map fst ms)" "\<forall>i op s. (i, op, s) \<in> set ms \<longrightarrow> as_id s = i \<and> as_expires_unix_ms s \<noteq> 0"
    and "\<forall>i \<in> fst ` set ms. set_get (ss_set st) i = None"
  shows "set_get (ss_set (foldl (store_load_line c k tr now) st
      (map (\<lambda>(_, _, s). persist_line c k s) ms))) i =
    (case map_of ms i of
       None \<Rightarrow> set_get (ss_set st) i
     | Some (_, s) \<Rightarrow> if is_ok (store_verify c st s tr now) then Some (convert s) else None)"
  using assms(3-)
proof (induction ms arbitrary: st)
  case (Cons m ms)
  obtain j op s where m: "m = (j, op, s)" by (metis surj_pair)
  have s: "as_id s = j" "as_expires_unix_ms s \<noteq> 0" "set_get (ss_set st) j = None" "j \<notin> fst ` set ms"
    using Cons.prems m by auto
  let ?st = "store_load_line c k tr now st (persist_line c k s)"
  have eq: "?st = (if is_ok (store_verify c st s tr now) then snd (insert_verified st s) else st)"
    by (rule store_load_line_record [OF assms(1,2) s(2)])
  have get: "set_get (ss_set ?st) i = (if i = j \<and> is_ok (store_verify c st s tr now)
      then Some (convert s) else set_get (ss_set st) i)" for i
    using s(1,3) by (simp add: eq insert_verified_get set_get_insert)
  have cl: "ss_cluster_id ?st = ss_cluster_id st" by (simp add: eq)
  have "\<forall>i \<in> fst ` set ms. set_get (ss_set ?st) i = None" using Cons.prems(3) s(4) m get by auto
  moreover have "distinct (map fst ms)" using Cons.prems(1) by simp
  moreover have "\<forall>i op s. (i, op, s) \<in> set ms \<longrightarrow> as_id s = i \<and> as_expires_unix_ms s \<noteq> 0"
    using Cons.prems(2) by simp
  ultimately have IH: "set_get (ss_set (foldl (store_load_line c k tr now) ?st
      (map (\<lambda>(_, _, s). persist_line c k s) ms))) i =
    (case map_of ms i of None \<Rightarrow> set_get (ss_set ?st) i
     | Some (_, s) \<Rightarrow> if is_ok (store_verify c ?st s tr now) then Some (convert s) else None)"
    by (intro Cons.IH)
  have none: "map_of ms j = None" using s(4) by (simp add: map_of_eq_None_iff)
  have vc: "store_verify c ?st r tr now = store_verify c st r tr now" for r
    by (rule store_verify_cong [OF cl])
  show ?case
  proof (cases "i = j")
    case True
    then show ?thesis using IH get none s(3) by (simp add: m)
  next
    case False
    then have "set_get (ss_set ?st) i = set_get (ss_set st) i" unfolding get by simp
    with IH False show ?thesis unfolding vc by (simp add: m split: option.splits)
  qed
qed simp

lemma store_load_get:
  assumes c: "crypto_ok c" and k: "sil_codec_ok c k" and inv: "store_inv c tr st" and disk: "disk_ok c k fs st"
  shows "set_get (ss_set (store_load c k NoFault fs (ss_path st) (ss_cluster_id st) tr now)) i =
    (case set_get (ss_set st) i of None \<Rightarrow> None | Some s \<Rightarrow> if is_live s now then Some s else None)"
proof -
  let ?st0 = "(store_in_memory (ss_cluster_id st))\<lparr>ss_path := ss_path st\<rparr>"
  let ?ls = "map (\<lambda>(_, _, s). persist_line c k s) (ss_meta st)"
  have empty: "set_get (ss_set ?st0) j = None" for j by (simp add: store_in_memory_def set_get_def)
  have "store_load c k NoFault fs (ss_path st) (ss_cluster_id st) tr now
      = foldl (store_load_line c k tr now) ?st0 ?ls"
  proof (cases "fs (ss_path st)")
    case None
    with disk show ?thesis by (simp add: store_load_def disk_ok_def)
  next
    case (Some f)
    have "store_load_line c k tr now ?st0 persist_header = ?st0"
      using header_plain by (simp add: store_load_line_def trim_plain Let_def)
    with Some disk show ?thesis by (simp add: store_load_def disk_ok_def)
  qed
  moreover have "\<forall>i op s. (i, op, s) \<in> set (ss_meta st) \<longrightarrow> as_id s = i \<and> as_expires_unix_ms s \<noteq> 0"
    using store_invD(4,5) [OF inv] by (fastforce simp: store_verify_ok)
  ultimately have get: "set_get (ss_set (store_load c k NoFault fs (ss_path st) (ss_cluster_id st) tr now)) i
    = (case map_of (ss_meta st) i of None \<Rightarrow> None
       | Some (_, s) \<Rightarrow> if is_ok (store_verify c ?st0 s tr now) then Some (convert s) else None)"
    using load_records [OF c k store_invD(2) [OF inv], of ?st0 tr now i] empty
    by (auto split: option.splits)
  have "is_ok (store_verify c ?st0 s tr now) \<longleftrightarrow> is_live (convert s) now"
    if "map_of (ss_meta st) i = Some (op, s)" for op s
  proof -
    from store_invD(5) [OF inv map_of_SomeD [OF that]] obtain t where "store_verify c st s tr t = Inr ()"
      by blast
    then show ?thesis
      by (auto simp: store_verify_ok is_ok_iff is_live_def convert_def store_in_memory_def)
  qed
  with get store_invD(3) [OF inv, of i] show ?thesis by (auto split: option.splits)
qed

section \<open>The life of a store\<close>

datatype store_op = Accept alert_silence u64 | Sweep u64 | Decide alert_subject f32 u64

definition store_step ::
    "crypto \<Rightarrow> sil_codec \<Rightarrow> (fingerprint \<Rightarrow> verifying_key option) \<Rightarrow> fs \<times> silence_store \<Rightarrow> store_op
     \<Rightarrow> fs \<times> silence_store" where
  "store_step c k tr s opn =
     (case opn of
        Accept r now \<Rightarrow> snd (store_accept c k NoFault [] (fst s) (snd s) r tr now)
      | Sweep now \<Rightarrow> snd (store_sweep c k NoFault [] (fst s) (snd s) now)
      | Decide subject x now \<Rightarrow> (fst s, snd (store_decide (snd s) subject x now)))"

definition store_good :: "crypto \<Rightarrow> sil_codec \<Rightarrow> (fingerprint \<Rightarrow> verifying_key option) \<Rightarrow> path \<Rightarrow> string
    \<Rightarrow> fs \<times> silence_store \<Rightarrow> bool" where
  "store_good c k tr p cl s \<longleftrightarrow> store_inv c tr (snd s) \<and> disk_ok c k (fst s) (snd s) \<and>
     ss_path (snd s) = p \<and> ss_cluster_id (snd s) = cl"

lemma insert_verified_unchanged:
  "\<not> fst (insert_verified st s) \<Longrightarrow> ss_meta (snd (insert_verified st s)) = ss_meta st"
  by (simp add: insert_verified_def Let_def split: if_splits)

lemma disk_ok_cong:
  "ss_meta st = ss_meta st' \<Longrightarrow> ss_path st = ss_path st' \<Longrightarrow> disk_ok c k fs st = disk_ok c k fs st'"
  by (simp add: disk_ok_def split: option.split)

lemma store_accept_good:
  assumes k: "sil_codec_ok c k" and p: "p \<noteq> []" and good: "store_good c k tr p cl (fs, st)"
  shows "store_good c k tr p cl (snd (store_accept c k NoFault [] fs st r tr now))"
proof -
  note g = good [unfolded store_good_def, simplified]
  show ?thesis
  proof (cases "store_verify c st r tr now = Inr () \<and>
      \<not> (ss_max_entries st \<le> store_len st \<and> set_get (ss_set st) (as_id r) = None)")
    case False
    then have "snd (store_accept c k NoFault [] fs st r tr now) = (fs, st)"
      by (auto simp: store_accept_def split: sum.splits)
    with good show ?thesis by simp
  next
    case True
    obtain ch st' where i: "insert_verified st r = (ch, st')" by fastforce
    then have st': "st' = snd (insert_verified st r)" by simp
    have inv: "store_inv c tr st'" unfolding st' using g True by (auto intro: insert_verified_inv)
    have fr: "ss_path st' = p" "ss_cluster_id st' = cl" using g by (simp_all add: st')
    have eq: "snd (store_accept c k NoFault [] fs st r tr now)
        = (if ch then persist c k NoFault [] fs st' else fs, st')"
      using True by (auto simp: store_accept_def i)
    have "disk_ok c k (if ch then persist c k NoFault [] fs st' else fs) st'"
    proof (cases ch)
      case True
      then show ?thesis using persist_disk_ok [OF k inv] fr p by simp
    next
      case False
      then have "ss_meta st' = ss_meta st" using insert_verified_unchanged [of st r] i by simp
      with False g fr show ?thesis using disk_ok_cong [of st' st c k fs] by simp
    qed
    with inv fr show ?thesis by (simp add: store_good_def eq)
  qed
qed

lemma store_sweep_good:
  assumes k: "sil_codec_ok c k" and p: "p \<noteq> []" and good: "store_good c k tr p cl (fs, st)"
  shows "store_good c k tr p cl (snd (store_sweep c k NoFault [] fs st now))"
proof -
  note g = good [unfolded store_good_def, simplified]
  obtain d fs' st' where sw: "store_sweep c k NoFault [] fs st now = (d, fs', st')" by (metis surj_pair)
  have inv: "store_inv c tr st'" using store_sweep_inv [of c tr st c k NoFault "[]" fs now] g sw by simp
  have fr: "ss_path st' = p" "ss_cluster_id st' = cl"
    using g sw by (auto simp: store_sweep_def set_sweep_def Let_def split: if_splits)
  have "disk_ok c k fs' st'"
  proof (cases "0 < d")
    case True
    then have "fs' = persist c k NoFault [] fs st'"
      using sw by (auto simp: store_sweep_def set_sweep_def Let_def split: if_splits)
    then show ?thesis using persist_disk_ok [OF k inv] fr p by simp
  next
    case False
    then have "fs' = fs" "ss_meta st' = ss_meta st"
      using sw by (auto simp: store_sweep_def set_sweep_def Let_def split: if_splits)
    with g fr show ?thesis using disk_ok_cong [of st' st c k fs] by simp
  qed
  with inv fr sw show ?thesis by (simp add: store_good_def)
qed

lemma store_decide_frame:
  "ss_set (snd (store_decide st sub x now)) = ss_set st"
  "ss_meta (snd (store_decide st sub x now)) = ss_meta st"
  "ss_path (snd (store_decide st sub x now)) = ss_path st"
  "ss_cluster_id (snd (store_decide st sub x now)) = ss_cluster_id st"
  by (auto simp: store_decide_def Let_def split: silence_decision.split option.split)

lemma store_step_good:
  assumes "sil_codec_ok c k" "p \<noteq> []" "store_good c k tr p cl s"
  shows "store_good c k tr p cl (store_step c k tr s opn)"
proof (cases opn)
  case (Accept r now)
  with assms show ?thesis by (cases s) (simp add: store_step_def store_accept_good)
next
  case (Sweep now)
  with assms show ?thesis by (cases s) (simp add: store_step_def store_sweep_good)
next
  case (Decide sub x now)
  have "store_inv c tr (snd (store_decide (snd s) sub x now)) = store_inv c tr (snd s)"
    using store_verify_cong [of "snd (store_decide (snd s) sub x now)" "snd s"]
    by (simp add: store_inv_def store_decide_frame)
  moreover have "disk_ok c k (fst s) (snd (store_decide (snd s) sub x now)) = disk_ok c k (fst s) (snd s)"
    by (rule disk_ok_cong) (simp_all add: store_decide_frame)
  ultimately show ?thesis
    using Decide assms(3) by (simp add: store_step_def store_good_def store_decide_frame)
qed

lemma store_run_good:
  assumes "sil_codec_ok c k" "p \<noteq> []" "store_good c k tr p cl s"
  shows "store_good c k tr p cl (foldl (store_step c k tr) s ops)"
  using assms(3)
proof (induction ops arbitrary: s)
  case (Cons opn ops)
  from Cons.IH [OF store_step_good [OF assms(1,2) Cons.prems]] show ?case by simp
qed simp

section \<open>Properties\<close>

text \<open>
  C16. Silences survive a restart, and only until they expire. Start with no file, and let the agent
  accept, sweep and consult silences in any order, while no access to the disk fails. Loading the file at any later time, under the same
  operators, gives a store that holds under every id exactly what the running store holds there, if it
  is still live then, and nothing otherwise.
\<close>

theorem silences_survive_restart:
  assumes "crypto_ok c" "sil_codec_ok c k" "p \<noteq> []" "fs p = None"
    and run: "foldl (store_step c k tr) (fs, (store_in_memory cl)\<lparr>ss_path := p\<rparr>) ops = (fs', st')"
  shows "set_get (ss_set (store_load c k NoFault fs' p cl tr now)) i =
    (case set_get (ss_set st') i of None \<Rightarrow> None | Some s \<Rightarrow> if is_live s now then Some s else None)"
proof -
  have "store_good c k tr p cl (fs, (store_in_memory cl)\<lparr>ss_path := p\<rparr>)"
    using assms(4) by (simp add: store_good_def store_inv_def store_in_memory_def set_get_def disk_ok_def)
  from store_run_good [OF assms(2,3) this, of ops] run
  have "store_inv c tr st'" "disk_ok c k fs' st'" "ss_path st' = p" "ss_cluster_id st' = cl"
    by (simp_all add: store_good_def)
  with store_load_get [OF assms(1,2)] show ?thesis by fastforce
qed

text \<open>Packages that meet \<open>sil_codec_ok\<close>: a record is its number, written in unary.\<close>

type_synonym silence_tuple = "string \<times> string \<times> string \<times> string \<times> string \<times> bytes \<times> u32 \<times> string \<times> u64 \<times>
  u64 \<times> bytes \<times> bytes"

definition silence_tuple :: "alert_silence \<Rightarrow> silence_tuple" where
  "silence_tuple s = (as_id s, as_cluster_id s, as_rule_id s, as_exe_sha256_hex s, as_exe_path s,
     as_host_fp s, as_weight_permille s, as_reason s, as_issued_unix_ms s, as_expires_unix_ms s,
     as_operator_fp s, as_sig s)"

definition tuple_silence :: "silence_tuple \<Rightarrow> alert_silence" where
  "tuple_silence t = (case t of (i, cl, r, h, p, fp, w, re, iss, e, op, sg) \<Rightarrow>
     \<lparr>as_id = i, as_cluster_id = cl, as_rule_id = r, as_exe_sha256_hex = h, as_exe_path = p,
      as_host_fp = fp, as_weight_permille = w, as_reason = re, as_issued_unix_ms = iss,
      as_expires_unix_ms = e, as_operator_fp = op, as_sig = sg\<rparr>)"

definition demo_sil_codec :: sil_codec where
  "demo_sil_codec = \<lparr>sil_encode = (\<lambda>s. replicate (Suc (to_nat (silence_tuple s))) 65),
     sil_decode = (\<lambda>b. Some (tuple_silence (from_nat (length b - 1))))\<rparr>"

lemma tuple_silence_inverse [simp]: "tuple_silence (silence_tuple s) = s"
  by (simp add: tuple_silence_def silence_tuple_def)

lemma demo_sil_codec_ok: "sil_codec_ok demo_crypto demo_sil_codec"
proof -
  have "char_of (65 :: nat) = CHR ''A''" by code_simp
  then have l: "persist_line demo_crypto demo_sil_codec s
      = replicate (Suc (to_nat (silence_tuple s))) (CHR ''A'')" for s
    by (simp add: persist_line_def demo_sil_codec_def demo_crypto_def)
  have "plain_line (replicate (Suc n) (CHR ''A''))" for n
    by (simp add: plain_line_def is_white_def NL_def)
  then show ?thesis unfolding sil_codec_ok_def l by (simp add: demo_sil_codec_def)
qed

definition signed_silence :: alert_silence where
  "signed_silence = (let s = demo_silence\<lparr>as_operator_fp := fingerprint_of demo_crypto demo_identity\<rparr> in
     s\<lparr>as_sig := sign demo_crypto demo_identity (the (as_to_signing_input s))\<rparr>)"

definition sil_trusted :: "fingerprint \<Rightarrow> verifying_key option" where
  "sil_trusted = [fingerprint_of demo_crypto demo_identity \<mapsto> verifying_key demo_crypto demo_identity]"

lemma signed_silence_fields:
  "as_id signed_silence = ''sil-1'' \<and> as_cluster_id signed_silence = ''prod'' \<and>
   as_expires_unix_ms signed_silence = 100 \<and> as_rule_id signed_silence = ''r'' \<and>
   as_operator_fp signed_silence = fingerprint_of demo_crypto demo_identity"
  by (simp add: signed_silence_def demo_silence_def Let_def)

lemma signed_silence_signature:
  "\<exists>m. as_to_signing_input signed_silence = Some m \<and>
     as_sig signed_silence = sign demo_crypto demo_identity m"
  by (simp add: signed_silence_def demo_silence_def as_to_signing_input_def to_array_def demo_crypto_ok
      Let_def)

lemma signed_silence_verifies:
  assumes "ss_cluster_id st = ''prod''" "now < 100"
  shows "store_verify demo_crypto st signed_silence sil_trusted now = Inr ()"
proof -
  obtain m where m: "as_to_signing_input signed_silence = Some m"
    "as_sig signed_silence = sign demo_crypto demo_identity m" using signed_silence_signature by blast
  have "verify_strict demo_crypto (verifying_key demo_crypto demo_identity) m (sign demo_crypto demo_identity m)"
    using verify_sign [OF demo_crypto_ok] by (simp add: verify_def)
  moreover have "constrains_count (spec_of signed_silence) \<noteq> 0"
    using signed_silence_fields by (simp add: constrains_count_def spec_of_def)
  ultimately show ?thesis
    unfolding store_verify_ok using assms signed_silence_fields m
    by (simp add: demo_crypto_ok sil_trusted_def)
qed

theorem silences_survive_restart_witness:
  "\<exists>fs' st'. foldl (store_step demo_crypto demo_sil_codec sil_trusted)
      (\<lambda>_. None, (store_in_memory ''prod'')\<lparr>ss_path := [''s'']\<rparr>) [Accept signed_silence 50] = (fs', st') \<and>
    set_get (ss_set (store_load demo_crypto demo_sil_codec NoFault fs' [''s''] ''prod'' sil_trusted 60))
      ''sil-1'' = Some (convert signed_silence) \<and>
    set_get (ss_set (store_load demo_crypto demo_sil_codec NoFault fs' [''s''] ''prod'' sil_trusted 100))
      ''sil-1'' = None"
proof -
  let ?st0 = "(store_in_memory ''prod'')\<lparr>ss_path := [''s'']\<rparr>"
  obtain fs' st' where run: "foldl (store_step demo_crypto demo_sil_codec sil_trusted)
      (\<lambda>_. None, ?st0) [Accept signed_silence 50] = (fs', st')" by fastforce
  have v: "store_verify demo_crypto ?st0 signed_silence sil_trusted 50 = Inr ()"
    by (rule signed_silence_verifies) (simp_all add: store_in_memory_def)
  have "snd (store_accept demo_crypto demo_sil_codec NoFault [] (\<lambda>_. None) ?st0 signed_silence sil_trusted 50)
      = (fs', st')"
    using run by (simp add: store_step_def)
  moreover have "\<not> ss_max_entries ?st0 \<le> store_len ?st0" by (simp add: store_len_def store_in_memory_def)
  ultimately have "st' = snd (insert_verified ?st0 signed_silence)"
    unfolding store_accept_def v by (auto split: prod.splits)
  moreover have "set_get (ss_set ?st0) i = None" for i by (simp add: store_in_memory_def set_get_def)
  ultimately have "set_get (ss_set st') ''sil-1'' = Some (convert signed_silence)"
    using signed_silence_fields by (simp add: insert_verified_get set_get_insert)
  moreover have "is_live (convert signed_silence) 60" "\<not> is_live (convert signed_silence) 100"
    using signed_silence_fields by (simp_all add: is_live_def convert_def)
  ultimately show ?thesis
    using silences_survive_restart [OF demo_crypto_ok demo_sil_codec_ok _ _ run] run by auto
qed

text \<open>
  Whatever touches the store: a silence that arrives, a start from whatever file is there, a sweep, an
  alert that is looked up. Writes and reads may fail.
\<close>

datatype store_event = SeAccept fault string alert_silence u64 | SeLoad fault path string u64
  | SeSweep fault string u64 | SeDecide alert_subject f32 u64

fun store_event_step ::
    "crypto \<Rightarrow> sil_codec \<Rightarrow> (fingerprint \<Rightarrow> verifying_key option) \<Rightarrow> fs \<times> silence_store \<Rightarrow> store_event
     \<Rightarrow> bool \<times> fs \<times> silence_store" where
  "store_event_step c k tr (fs, st) (SeAccept fault partial s now) =
     (case store_accept c k fault partial fs st s tr now of (res, fs', st') \<Rightarrow> (is_ok res, fs', st'))"
| "store_event_step c k tr (fs, st) (SeLoad fault p cl now) = (True, fs, store_load c k fault fs p cl tr now)"
| "store_event_step c k tr (fs, st) (SeSweep fault partial now) = (True, snd (store_sweep c k fault partial fs st now))"
| "store_event_step c k tr (fs, st) (SeDecide sub x now) = (True, fs, snd (store_decide st sub x now))"

text \<open>The signed records an event presents, and the time it happens at.\<close>

fun presented :: "crypto \<Rightarrow> sil_codec \<Rightarrow> fs \<Rightarrow> store_event \<Rightarrow> (alert_silence \<times> u64) set" where
  "presented c k fs (SeAccept fault partial s now) = {(s, now)}"
| "presented c k fs (SeLoad fault p cl now) = {(s, now) | s. \<exists>f l. fs p = Some f \<and> l \<in> set (lines (body f)) \<and>
     sil_decode_line c k (trim l) = Inr s}"
| "presented c k fs (SeSweep fault partial now) = {}"
| "presented c k fs (SeDecide sub x now) = {}"

lemma verified_was_signed:
  assumes v: "store_verify c st s tr now = Inr ()"
    and honest: "\<And>op vk. tr op = Some vk \<Longrightarrow> unforged c vk made {as_sig s}"
    and signed: "\<And>rest. ALERT_SILENCE_DOMAIN @ rest \<in> made \<Longrightarrow>
      \<exists>x \<in> S. as_small x \<and> as_to_signing_input x = Some (ALERT_SILENCE_DOMAIN @ rest)"
    and small: "as_small s"
  shows "\<exists>x \<in> S. s = x\<lparr>as_sig := as_sig s\<rparr> \<and> as_cluster_id x = ss_cluster_id st \<and> now < as_expires_unix_ms x \<and>
    0 < constrains_count (spec_of x) \<and> convert s = convert x"
proof -
  from v obtain vk m where m: "tr (as_operator_fp s) = Some vk" "as_to_signing_input s = Some m"
    "verify_strict c vk m (as_sig s)" unfolding store_verify_ok by blast
  have "m \<in> made" using unforgedD [OF honest [OF m(1)] _ m(3)] by simp
  moreover obtain rest where "m = ALERT_SILENCE_DOMAIN @ rest" using sil.starts_with_domain [OF m(2)] by blast
  ultimately obtain x where x: "x \<in> S" "as_small x" "as_to_signing_input x = Some m" using signed by blast
  have "as_signed s = as_signed x" using m(2) x(3) small x(2) by (rule sil.binds)
  then have eq: "s = x\<lparr>as_sig := as_sig s\<rparr>" by (cases s, cases x) (simp add: as_signed_def)
  then have "spec_of s = spec_of x" "convert s = convert x" "as_cluster_id s = as_cluster_id x"
      "as_expires_unix_ms s = as_expires_unix_ms x"
    by (cases s, cases x, simp add: spec_of_def convert_def)+
  with x(1) v eq show ?thesis unfolding store_verify_ok by (intro bexI [where x = x]) simp_all
qed

lemma alist_update_member: "(i, y) \<in> set (AList.update j v xs) \<Longrightarrow> (i, y) \<in> set xs \<or> y = v"
  by (induction xs) (auto split: if_splits)

lemma insert_verified_gets:
  "(i, y) \<in> set (ss_set (snd (insert_verified st s))) \<Longrightarrow> (i, y) \<in> set (ss_set st) \<or> y = convert s"
  by (auto simp: insert_verified_def set_insert_def Let_def split: if_splits option.splits dest: alist_update_member)

lemma store_load_lines_hold:
  assumes "\<And>l s st'. l \<in> set ls \<Longrightarrow> sil_decode_line c k (trim l) = Inr s \<Longrightarrow> ss_cluster_id st' = ss_cluster_id st \<Longrightarrow>
      store_verify c st' s tr now = Inr () \<Longrightarrow> Q (convert s)"
    and "\<And>i y. (i, y) \<in> set (ss_set st) \<Longrightarrow> Q y"
    and "(i, y) \<in> set (ss_set (foldl (store_load_line c k tr now) st ls))"
  shows "Q y"
  using assms
proof (induction ls arbitrary: st)
  case (Cons l ls)
  let ?st = "store_load_line c k tr now st l"
  have cl: "ss_cluster_id ?st = ss_cluster_id st"
    by (auto simp: store_load_line_def Let_def split: sum.splits)
  have "?st = st \<or> (\<exists>s. sil_decode_line c k (trim l) = Inr s \<and> store_verify c st s tr now = Inr () \<and> ?st = snd (insert_verified st s))"
    by (auto simp: store_load_line_def Let_def split: sum.splits)
  then have "Q z" if "(j, z) \<in> set (ss_set ?st)" for j z
    using that Cons.prems(1) [of l _ st] Cons.prems(2) insert_verified_gets by fastforce
  then show ?case
    using Cons.prems(1,3) cl by (intro Cons.IH [of ?st]) (simp_all, metis)
qed simp

text \<open>
  C30. Only an operator can silence. Let the trusted operators have signed the messages in \<open>made\<close>, of
  whatever kind, those in the domain of silences being the silences in \<open>S\<close>, and let no presented
  signature be forged. Whatever happens to the store, be it a silence that arrives, a start from a file
  anybody may have written, a sweep or a lookup, and whatever reads and writes fail: a silence the store
  holds afterwards and did not hold before is one of \<open>S\<close>, is for the cluster of the store, has not expired
  at that time and constrains at least one field; and a silence that is refused changes neither the
  store nor the file.
\<close>

theorem silence_enters_authorised:
  assumes step: "store_event_step c k tr (fs, st) ev = (ok, fs', st')"
    and honest: "\<And>op vk. tr op = Some vk \<Longrightarrow> unforged c vk made {as_sig s | s now. (s, now) \<in> presented c k fs ev}"
    and signed: "\<And>rest. ALERT_SILENCE_DOMAIN @ rest \<in> made \<Longrightarrow>
      \<exists>x \<in> S. as_small x \<and> as_to_signing_input x = Some (ALERT_SILENCE_DOMAIN @ rest)"
    and small: "\<And>s now. (s, now) \<in> presented c k fs ev \<Longrightarrow> as_small s"
  shows "(ok \<or> fs' = fs \<and> st' = st) \<and>
    (\<forall>i y. (i, y) \<in> set (ss_set st') \<longrightarrow> (i, y) \<in> set (ss_set st) \<or>
       (\<exists>x \<in> S. \<exists>s now. (s, now) \<in> presented c k fs ev \<and> s = x\<lparr>as_sig := as_sig s\<rparr> \<and> y = convert x \<and>
          as_cluster_id x = ss_cluster_id st' \<and> now < as_expires_unix_ms x \<and> 0 < constrains_count (spec_of x)))"
proof -
  define Q where "Q cl y \<longleftrightarrow> (\<exists>x \<in> S. \<exists>s now. (s, now) \<in> presented c k fs ev \<and> s = x\<lparr>as_sig := as_sig s\<rparr> \<and> y = convert x \<and>
    as_cluster_id x = cl \<and> now < as_expires_unix_ms x \<and> 0 < constrains_count (spec_of x))" for cl y
  have enters: "Q (ss_cluster_id st0) (convert s)"
    if p: "(s, now) \<in> presented c k fs ev" and v: "store_verify c st0 s tr now = Inr ()" for s now st0
  proof -
    have "unforged c vk made {as_sig s}" if "tr op = Some vk" for op vk
      using honest [OF that] p unfolding unforged_def by blast
    from verified_was_signed [OF v this signed small [OF p]] show ?thesis using p unfolding Q_def by metis
  qed
  show ?thesis unfolding Q_def [symmetric]
  proof (cases ev)
    case (SeAccept fault partial s now)
    obtain res where acc: "store_accept c k fault partial fs st s tr now = (res, fs', st')" "ok = is_ok res"
      using step SeAccept by (auto split: prod.splits)
    show "(ok \<or> fs' = fs \<and> st' = st) \<and> (\<forall>i y. (i, y) \<in> set (ss_set st') \<longrightarrow> (i, y) \<in> set (ss_set st) \<or> Q (ss_cluster_id st') y)"
    proof (cases "is_ok res")
      case True
      then have v: "store_verify c st s tr now = Inr ()" and st': "st' = snd (insert_verified st s)"
        using acc(1) by (auto simp: store_accept_def split: sum.splits if_splits prod.splits)
      show ?thesis using acc(2) True enters [of s now st] v insert_verified_gets [where st = st and s = s] SeAccept st' by auto
    next
      case False
      then have "fs' = fs" "st' = st"
        using acc(1) by (auto simp: store_accept_def split: sum.splits if_splits prod.splits)
      then show ?thesis by simp
    qed
  next
    case (SeLoad fault p cl now)
    have eq: "ok" "st' = store_load c k fault fs p cl tr now" using step SeLoad by auto
    have "Q (ss_cluster_id st') y" if g: "(i, y) \<in> set (ss_set st')" for i y
    proof -
      let ?st0 = "(store_in_memory cl)\<lparr>ss_path := p\<rparr>"
      have empty: "ss_set ?st0 = []" by (simp add: store_in_memory_def)
      then obtain f where f: "fs p = Some f" and st': "st' = foldl (store_load_line c k tr now) ?st0 (lines (body f))"
        using g eq(2) by (auto simp: store_load_def Let_def split: option.splits if_splits)
      have cl: "ss_cluster_id (foldl (store_load_line c k tr now) st0 ls) = ss_cluster_id st0" for st0 ls
        by (induction ls arbitrary: st0) (simp_all add: store_load_line_def Let_def split: sum.split)
      have "Q (ss_cluster_id ?st0) y"
      proof (rule store_load_lines_hold [where st = ?st0 and ls = "lines (body f)" and Q = "Q (ss_cluster_id ?st0)"])
        fix l s st2 assume "l \<in> set (lines (body f))" "sil_decode_line c k (trim l) = Inr s"
          "ss_cluster_id st2 = ss_cluster_id ?st0" "store_verify c st2 s tr now = Inr ()"
        then show "Q (ss_cluster_id ?st0) (convert s)" using enters [of s now st2] f SeLoad by auto
      qed (use g st' empty in auto)
      then show ?thesis unfolding st' cl .
    qed
    with eq(1) show "(ok \<or> fs' = fs \<and> st' = st) \<and> (\<forall>i y. (i, y) \<in> set (ss_set st') \<longrightarrow> (i, y) \<in> set (ss_set st) \<or> Q (ss_cluster_id st') y)"
      by simp
  next
    case (SeSweep fault partial now)
    have "(i, y) \<in> set (ss_set st)" if "(i, y) \<in> set (ss_set st')" for i y
      using that step SeSweep by (auto simp: store_sweep_def set_sweep_def Let_def split: if_splits)
    then show "(ok \<or> fs' = fs \<and> st' = st) \<and> (\<forall>i y. (i, y) \<in> set (ss_set st') \<longrightarrow> (i, y) \<in> set (ss_set st) \<or> Q (ss_cluster_id st') y)"
      using step SeSweep by auto
  next
    case (SeDecide sub x now)
    then show "(ok \<or> fs' = fs \<and> st' = st) \<and> (\<forall>i y. (i, y) \<in> set (ss_set st') \<longrightarrow> (i, y) \<in> set (ss_set st) \<or> Q (ss_cluster_id st') y)"
      using step by (auto simp: store_decide_frame)
  qed
qed

text \<open>
  An operator who signed one silence and revoked one agent with the same key; the silence enters from a
  file.
\<close>

abbreviation ledger_unsigned :: alert_silence where
  "ledger_unsigned \<equiv> demo_silence\<lparr>as_operator_fp := fingerprint_of demo_crypto demo_identity\<rparr>"

definition silence_signed_bytes :: "bytes list" where
  "silence_signed_bytes = [the (as_to_signing_input ledger_unsigned),
     rv_signing_input (replicate 32 7) ''prod'' 1 [] (fingerprint_of demo_crypto demo_identity)]"

definition ledger_silence :: alert_silence where
  "ledger_silence = ledger_unsigned\<lparr>as_sig := sign (ledger_crypto silence_signed_bytes) demo_identity (hd silence_signed_bytes)\<rparr>"

lemma ledger_silence_fields:
  "as_id ledger_silence = ''sil-1'' \<and> as_cluster_id ledger_silence = ''prod'' \<and> as_expires_unix_ms ledger_silence = 100 \<and>
   as_rule_id ledger_silence = ''r'' \<and> as_operator_fp ledger_silence = fingerprint_of demo_crypto demo_identity \<and>
   as_small ledger_silence \<and> as_to_signing_input ledger_silence = Some (hd silence_signed_bytes)"
  by (simp add: ledger_silence_def demo_silence_def as_small_def silence_signed_bytes_def as_to_signing_input_def
      to_array_def demo_crypto_ok)

lemma ledger_silence_verifies:
  "store_verify (ledger_crypto silence_signed_bytes) ((store_in_memory ''prod'')\<lparr>ss_path := p\<rparr>) ledger_silence sil_trusted 50 = Inr ()"
proof -
  have "constrains_count (spec_of ledger_silence) \<noteq> 0"
    using ledger_silence_fields by (simp add: constrains_count_def spec_of_def)
  moreover have "length (as_sig ledger_silence) = 64" "as_sig ledger_silence = sign (ledger_crypto silence_signed_bytes) demo_identity (hd silence_signed_bytes)"
    by (simp_all add: ledger_silence_def ledger_crypto_ok)
  ultimately show ?thesis
    unfolding store_verify_ok using ledger_silence_fields
    by (simp add: demo_crypto_ok sil_trusted_def ledger_verify store_in_memory_def)
qed

lemma silence_not_revocation: "ALERT_SILENCE_DOMAIN @ rest \<noteq> rv_signing_input a cl i r f"
proof
  assume "ALERT_SILENCE_DOMAIN @ rest = rv_signing_input a cl i r f"
  then have "ALERT_SILENCE_DOMAIN = REVOCATION_DOMAIN"
    unfolding rv_signing_input_def by (rule domains_do_not_overlap [rotated 2]) (simp_all add: signing_domains_def)
  then show False by (simp add: domain_defs str_bytes_def)
qed

definition ledger_line :: string where
  "ledger_line = persist_line demo_crypto demo_sil_codec ledger_silence"

lemma ledger_line: "plain_line ledger_line" "hd ledger_line \<noteq> CHR ''#''"
  "sil_decode_line (ledger_crypto ms) demo_sil_codec ledger_line = Inr ledger_silence"
  using demo_sil_codec_ok ledger_silence_fields crypto_okD(7) [OF demo_crypto_ok]
  by (simp_all add: ledger_line_def sil_codec_ok_def sil_decode_line_def persist_line_def)

theorem silence_enters_authorised_witness:
  "\<exists>i y. (i, y) \<in> set (ss_set (store_load (ledger_crypto silence_signed_bytes) demo_sil_codec NoFault
       [[''s''] \<mapsto> \<lparr>mode = 420, body = ledger_line @ [NL]\<rparr>] [''s''] ''prod'' sil_trusted 50)) \<and>
     y = convert ledger_unsigned \<and> 50 < as_expires_unix_ms ledger_unsigned"
proof -
  let ?c = "ledger_crypto silence_signed_bytes" and ?fs = "[[''s''] \<mapsto> \<lparr>mode = 420, body = ledger_line @ [NL]\<rparr>]"
  let ?ev = "SeLoad NoFault [''s''] ''prod'' 50" and ?new = "(store_in_memory ''prod'')\<lparr>ss_path := [''s'']\<rparr>"
  let ?st = "store_load ?c demo_sil_codec NoFault ?fs [''s''] ''prod'' sil_trusted 50"
  have lines: "lines (ledger_line @ [NL]) = [ledger_line]" using ledger_line(1) by (rule lines_single)
  have tr: "trim ledger_line = ledger_line" "ledger_line \<noteq> []" using ledger_line(1) by (simp_all add: trim_plain plain_line_def)
  have shown: "presented ?c demo_sil_codec ?fs ?ev = {(ledger_silence, 50)}"
    by (auto simp: lines tr ledger_line(3))
  have "?st = snd (insert_verified ?new ledger_silence)"
    using ledger_silence_verifies [of "[''s'']"]
    by (simp add: store_load_def lines store_load_line_def tr ledger_line(2,3) Let_def)
  then have mem: "(''sil-1'', convert ledger_silence) \<in> set (ss_set ?st)"
    using ledger_silence_fields
    by (simp add: insert_verified_def set_insert_def store_in_memory_def Let_def)
  have step: "store_event_step ?c demo_sil_codec sil_trusted (?fs, store_in_memory ''prod'') ?ev = (True, ?fs, ?st)" by simp
  have "(True \<or> ?fs = ?fs \<and> ?st = store_in_memory ''prod'') \<and>
    (\<forall>i y. (i, y) \<in> set (ss_set ?st) \<longrightarrow> (i, y) \<in> set (ss_set (store_in_memory ''prod'')) \<or>
       (\<exists>x \<in> {ledger_unsigned}. \<exists>s now. (s, now) \<in> presented ?c demo_sil_codec ?fs ?ev \<and> s = x\<lparr>as_sig := as_sig s\<rparr> \<and> y = convert x \<and>
          as_cluster_id x = ss_cluster_id ?st \<and> now < as_expires_unix_ms x \<and> 0 < constrains_count (spec_of x)))"
  proof (rule silence_enters_authorised [OF step, where made = "set silence_signed_bytes"])
    have "{as_sig s | s now. (s, now) \<in> presented ?c demo_sil_codec ?fs ?ev} \<subseteq> sign ?c demo_identity ` set silence_signed_bytes"
      unfolding shown by (auto simp: ledger_silence_def silence_signed_bytes_def)
    then show "unforged ?c vk (set silence_signed_bytes) {as_sig s | s now. (s, now) \<in> presented ?c demo_sil_codec ?fs ?ev}" for vk
      by (rule ledger_unforged [rotated]) (simp add: silence_signed_bytes_def)
    show "as_small s" if "(s, now) \<in> presented ?c demo_sil_codec ?fs ?ev" for s now
      using that ledger_silence_fields unfolding shown by simp
    show "\<exists>x \<in> {ledger_unsigned}. as_small x \<and> as_to_signing_input x = Some (ALERT_SILENCE_DOMAIN @ rest)"
      if "ALERT_SILENCE_DOMAIN @ rest \<in> set silence_signed_bytes" for rest
      using that silence_not_revocation
      by (auto simp: silence_signed_bytes_def as_small_def demo_silence_def as_to_signing_input_def to_array_def demo_crypto_ok)
  qed
  from this [THEN conjunct2, rule_format, OF mem] mem show ?thesis
    by (auto simp: shown store_in_memory_def)
qed

end
