(* ===== verification/Baseline.thy ===== *)
theory Baseline
  imports Prelude "HOL-Library.List_Lexorder" "HOL-Library.Char_ord"
begin

text \<open>
  What a host remembers of itself, \<open>crates/bowery-baseline/src/lib.rs\<close>: the binaries it has run, what
  each hash was, the destinations it has contacted, the parent and child pairs it has seen, and how
  often each detection rule fired. The tables are lists of rows in the order they were inserted, and
  each operation is what its SQL statements say. A statement that fails leaves the tables alone,
  because the code works in transactions; that failure is the flag \<open>fails\<close>.
\<close>

section \<open>Tables\<close>

text \<open>Time stored in a table is whole seconds since the epoch, as a signed 64-bit integer.\<close>

definition system_time_to_secs :: "nat option \<Rightarrow> int" where
  "system_time_to_secs t = (case t of None \<Rightarrow> 0 | Some secs \<Rightarrow> min (int secs) (2 ^ 63 - 1))"

text \<open>\<open>SystemTime\<close> in nanoseconds since the epoch.\<close>

definition secs_to_system_time :: "int \<Rightarrow> nat" where
  "secs_to_system_time secs = (if 0 \<le> secs then nat secs * 1000000000 else 0)"

record ('k, 'x) counted_row =
  cr_key :: 'k
  cr_data :: 'x
  cr_first_seen :: int
  cr_last_seen :: int
  cr_seen_count :: nat

record descriptor_row =
  dr_sha256 :: bytes
  dr_exe_path :: "string option"
  dr_size_bytes :: "int option"
  dr_pkg :: "string option"
  dr_platform :: "string option"
  dr_recorded :: int

record stats_row =
  st_rule_id :: string
  st_fired :: int
  st_first_seen :: int
  st_last_seen :: int

record baseline =
  t_binaries :: "(bytes, unit) counted_row list"
  t_descriptors :: "descriptor_row list"
  t_lineage :: "(bytes \<times> bytes, unit) counted_row list"
  t_net_destinations :: "(string, string \<times> nat) counted_row list"
  t_detection_stats :: "stats_row list"

definition open_in_memory :: baseline where
  "open_in_memory = \<lparr>t_binaries = [], t_descriptors = [], t_lineage = [], t_net_destinations = [],
     t_detection_stats = []\<rparr>"

datatype upsert_outcome = Inserted | Updated nat

text \<open>The statements the three counting tables share.\<close>

definition find_row :: "'k \<Rightarrow> ('k, 'x) counted_row list \<Rightarrow> ('k, 'x) counted_row option" where
  "find_row key rows = find (\<lambda>r. cr_key r = key) rows"

definition upsert_row ::
    "'k \<Rightarrow> 'x \<Rightarrow> int \<Rightarrow> ('k, 'x) counted_row list \<Rightarrow> upsert_outcome \<times> ('k, 'x) counted_row list" where
  "upsert_row key x now rows =
     (case find_row key rows of
        Some prev \<Rightarrow> (Updated (cr_seen_count prev + 1),
          map (\<lambda>r. if cr_key r = key then r\<lparr>cr_last_seen := now, cr_seen_count := cr_seen_count r + 1\<rparr> else r) rows)
      | None \<Rightarrow> (Inserted, rows @ [\<lparr>cr_key = key, cr_data = x, cr_first_seen = now, cr_last_seen = now,
          cr_seen_count = 1\<rparr>]))"

section \<open>Binaries\<close>

record binary_record =
  br_sha256 :: bytes
  br_first_seen :: nat
  br_last_seen :: nat
  br_seen_count :: u64

definition upsert_binary :: "bool \<Rightarrow> baseline \<Rightarrow> bytes \<Rightarrow> nat option \<Rightarrow> upsert_outcome option \<times> baseline" where
  "upsert_binary fails db sha now =
     (if fails then (None, db)
      else case upsert_row sha () (system_time_to_secs now) (t_binaries db) of
        (out, rows) \<Rightarrow> (Some out, db\<lparr>t_binaries := rows\<rparr>))"

definition get_binary :: "baseline \<Rightarrow> bytes \<Rightarrow> binary_record option" where
  "get_binary db sha =
     map_option (\<lambda>r. \<lparr>br_sha256 = sha, br_first_seen = secs_to_system_time (cr_first_seen r),
        br_last_seen = secs_to_system_time (cr_last_seen r), br_seen_count = word_of_nat (cr_seen_count r)\<rparr>)
       (find_row sha (t_binaries db))"

definition count_binaries :: "baseline \<Rightarrow> nat" where
  "count_binaries db = length (t_binaries db)"

definition binary_record_of :: "(bytes, unit) counted_row \<Rightarrow> binary_record" where
  "binary_record_of r =
     \<lparr>br_sha256 = (if length (cr_key r) = 32 then cr_key r else replicate 32 0),
      br_first_seen = secs_to_system_time (cr_first_seen r),
      br_last_seen = secs_to_system_time (cr_last_seen r), br_seen_count = word_of_nat (cr_seen_count r)\<rparr>"

text \<open>A scan visits the rows one by one; \<open>stop = Some n\<close> is a scan that fails after \<open>n\<close> of them.\<close>

record baseline_scan =
  visited :: "binary_record list"
  scan_ok :: bool

definition for_each_binary :: "baseline \<Rightarrow> nat option \<Rightarrow> baseline_scan" where
  "for_each_binary db stop =
     (let recs = map binary_record_of (t_binaries db) in
      case stop of
        None \<Rightarrow> \<lparr>visited = recs, scan_ok = True\<rparr>
      | Some n \<Rightarrow> \<lparr>visited = take n recs, scan_ok = False\<rparr>)"

definition snapshot_binaries :: "baseline \<Rightarrow> nat option \<Rightarrow> binary_record list option" where
  "snapshot_binaries db stop =
     (if stop = None then Some (map binary_record_of (t_binaries db)) else None)"

section \<open>Descriptors\<close>

record binary_descriptor =
  bd_exe_path :: "string option"
  bd_size_bytes :: "u64 option"
  bd_pkg :: "string option"
  bd_platform :: "string option"

definition coalesce :: "'a option \<Rightarrow> 'a option \<Rightarrow> 'a option" where
  "coalesce a b = (case a of Some _ \<Rightarrow> a | None \<Rightarrow> b)"

definition record_descriptor ::
    "bool \<Rightarrow> baseline \<Rightarrow> bytes \<Rightarrow> binary_descriptor \<Rightarrow> nat option \<Rightarrow> unit option \<times> baseline" where
  "record_descriptor fails db sha d now =
     (if fails then (None, db)
      else let new = \<lparr>dr_sha256 = sha, dr_exe_path = bd_exe_path d,
             dr_size_bytes = map_option (\<lambda>v. min (uint v) (2 ^ 63 - 1)) (bd_size_bytes d), dr_pkg = bd_pkg d,
             dr_platform = bd_platform d, dr_recorded = system_time_to_secs now\<rparr>;
             rows = t_descriptors db in
        (Some (), db\<lparr>t_descriptors :=
           (if sha \<in> dr_sha256 ` set rows
            then map (\<lambda>r. if dr_sha256 r = sha then new\<lparr>dr_pkg := coalesce (dr_pkg new) (dr_pkg r)\<rparr> else r) rows
            else rows @ [new])\<rparr>))"

definition descriptor :: "baseline \<Rightarrow> bytes \<Rightarrow> binary_descriptor option" where
  "descriptor db sha =
     map_option (\<lambda>r. \<lparr>bd_exe_path = dr_exe_path r,
        bd_size_bytes = map_option (\<lambda>v. if 0 \<le> v then word_of_int v else 0) (dr_size_bytes r),
        bd_pkg = dr_pkg r, bd_platform = dr_platform r\<rparr>)
       (find (\<lambda>r. dr_sha256 r = sha) (t_descriptors db))"

text \<open>\<open>ORDER BY recorded DESC LIMIT n\<close>, and only the blobs of 32 bytes.\<close>

definition newest_hashes :: "nat \<Rightarrow> descriptor_row list \<Rightarrow> bytes list" where
  "newest_hashes limit rows =
     filter (\<lambda>b. length b = 32) (map dr_sha256 (take limit (sort_key (\<lambda>r. - dr_recorded r) rows)))"

definition hashes_for_package :: "bool \<Rightarrow> baseline \<Rightarrow> string \<Rightarrow> nat \<Rightarrow> bytes list option" where
  "hashes_for_package fails db pkg limit =
     (if fails then None
      else Some (newest_hashes limit (filter (\<lambda>r. dr_pkg r = Some pkg) (t_descriptors db))))"

definition hashes_for_path :: "bool \<Rightarrow> baseline \<Rightarrow> string \<Rightarrow> nat \<Rightarrow> bytes list option" where
  "hashes_for_path fails db p limit =
     (if fails then None
      else Some (newest_hashes limit (filter (\<lambda>r. dr_exe_path r = Some p) (t_descriptors db))))"

section \<open>Destinations and lineage\<close>

text \<open>\<open>dec\<close> is the decimal formatting of a port.\<close>

fun dec :: "nat \<Rightarrow> string" where
  "dec n = (if n < 10 then [char_of (48 + n)] else dec (n div 10) @ [char_of (48 + n mod 10)])"

declare dec.simps [simp del]

definition destination_key :: "string \<Rightarrow> nat \<Rightarrow> string" where
  "destination_key addr port = addr @ '':'' @ dec port"

record net_destination_record =
  nd_dst_key :: string
  nd_addr :: string
  nd_port :: nat
  nd_first_seen :: nat
  nd_last_seen :: nat
  nd_seen_count :: u64

definition upsert_net_destination ::
    "bool \<Rightarrow> baseline \<Rightarrow> string \<Rightarrow> nat \<Rightarrow> nat option \<Rightarrow> upsert_outcome option \<times> baseline" where
  "upsert_net_destination fails db addr port now =
     (if fails then (None, db)
      else case upsert_row (destination_key addr port) (addr, port) (system_time_to_secs now)
                  (t_net_destinations db) of
        (out, rows) \<Rightarrow> (Some out, db\<lparr>t_net_destinations := rows\<rparr>))"

definition net_record_of :: "(string, string \<times> nat) counted_row \<Rightarrow> net_destination_record" where
  "net_record_of r = \<lparr>nd_dst_key = cr_key r, nd_addr = fst (cr_data r), nd_port = snd (cr_data r),
     nd_first_seen = secs_to_system_time (cr_first_seen r), nd_last_seen = secs_to_system_time (cr_last_seen r),
     nd_seen_count = word_of_nat (cr_seen_count r)\<rparr>"

definition net_destination :: "baseline \<Rightarrow> string \<Rightarrow> nat \<Rightarrow> net_destination_record option" where
  "net_destination db addr port =
     map_option net_record_of (find_row (destination_key addr port) (t_net_destinations db))"

definition snapshot_net_destinations :: "baseline \<Rightarrow> net_destination_record list" where
  "snapshot_net_destinations db = map net_record_of (t_net_destinations db)"

record lineage_record =
  lr_parent_sha :: bytes
  lr_child_sha :: bytes
  lr_first_seen :: nat
  lr_last_seen :: nat
  lr_seen_count :: u64

definition record_lineage ::
    "bool \<Rightarrow> baseline \<Rightarrow> bytes \<Rightarrow> bytes \<Rightarrow> nat option \<Rightarrow> upsert_outcome option \<times> baseline" where
  "record_lineage fails db parent child now =
     (if fails then (None, db)
      else case upsert_row (parent, child) () (system_time_to_secs now) (t_lineage db) of
        (out, rows) \<Rightarrow> (Some out, db\<lparr>t_lineage := rows\<rparr>))"

definition get_lineage :: "baseline \<Rightarrow> bytes \<Rightarrow> bytes \<Rightarrow> lineage_record option" where
  "get_lineage db parent child =
     map_option (\<lambda>r. \<lparr>lr_parent_sha = parent, lr_child_sha = child,
        lr_first_seen = secs_to_system_time (cr_first_seen r),
        lr_last_seen = secs_to_system_time (cr_last_seen r), lr_seen_count = word_of_nat (cr_seen_count r)\<rparr>)
       (find_row (parent, child) (t_lineage db))"

definition count_lineage_edges :: "baseline \<Rightarrow> nat" where
  "count_lineage_edges db = length (t_lineage db)"

section \<open>Detection statistics\<close>

definition add_detection_count ::
    "int \<Rightarrow> stats_row list \<Rightarrow> string \<times> u64 \<times> u64 option \<Rightarrow> stats_row list" where
  "add_detection_count now rows entry =
     (case entry of (rule_id, delta, last_ms) \<Rightarrow>
      if delta = 0
      then (if rule_id \<in> st_rule_id ` set rows then rows
            else rows @ [\<lparr>st_rule_id = rule_id, st_fired = 0, st_first_seen = now, st_last_seen = now\<rparr>])
      else let last = (case last_ms of None \<Rightarrow> now | Some ms \<Rightarrow> uint (ms div 1000));
               new = \<lparr>st_rule_id = rule_id, st_fired = min (uint delta) (2 ^ 63 - 1), st_first_seen = now,
                 st_last_seen = last\<rparr> in
        if rule_id \<in> st_rule_id ` set rows
        then map (\<lambda>r. if st_rule_id r = rule_id
                      then r\<lparr>st_fired := st_fired r + st_fired new, st_last_seen := max (st_last_seen r) last\<rparr>
                      else r) rows
        else rows @ [new])"

definition add_detection_counts ::
    "bool \<Rightarrow> baseline \<Rightarrow> (string \<times> u64 \<times> u64 option) list \<Rightarrow> nat option \<Rightarrow> unit option \<times> baseline" where
  "add_detection_counts fails db counts now =
     (if counts = [] then (Some (), db)
      else if fails then (None, db)
      else (Some (), db\<lparr>t_detection_stats :=
              foldl (add_detection_count (system_time_to_secs now)) (t_detection_stats db) counts\<rparr>))"

definition detection_counts :: "baseline \<Rightarrow> (string \<times> u64 \<times> u64) list" where
  "detection_counts db =
     map (\<lambda>r. (st_rule_id r, if 0 \<le> st_fired r then word_of_int (st_fired r) else 0,
               if 0 \<le> st_last_seen r then word_of_int (st_last_seen r) else 0))
       (sort_key st_rule_id (t_detection_stats db))"

section \<open>Counting tables\<close>

text \<open>Everything the agent does to its baseline, one operation at a time.\<close>

datatype baseline_op =
    OpBinary bool bytes "nat option"
  | OpDescriptor bool bytes binary_descriptor "nat option"
  | OpDestination bool string nat "nat option"
  | OpLineage bool bytes bytes "nat option"
  | OpStats bool "(string \<times> u64 \<times> u64 option) list" "nat option"

fun baseline_step :: "baseline \<Rightarrow> baseline_op \<Rightarrow> baseline" where
  "baseline_step db (OpBinary fails sha now) = snd (upsert_binary fails db sha now)"
| "baseline_step db (OpDescriptor fails sha d now) = snd (record_descriptor fails db sha d now)"
| "baseline_step db (OpDestination fails addr port now) = snd (upsert_net_destination fails db addr port now)"
| "baseline_step db (OpLineage fails parent child now) = snd (record_lineage fails db parent child now)"
| "baseline_step db (OpStats fails counts now) = snd (add_detection_counts fails db counts now)"

text \<open>What a counting table promises: the first time, the last time, and how often.\<close>

type_synonym summary = "int \<times> int \<times> nat"

definition touch :: "int \<Rightarrow> summary option \<Rightarrow> summary" where
  "touch t old = (case old of None \<Rightarrow> (t, t, 1) | Some (f, _, n) \<Rightarrow> (f, t, n + 1))"

definition summarise :: "int list \<Rightarrow> summary option" where
  "summarise ts = (if ts = [] then None else Some (hd ts, last ts, length ts))"

lemma summarise_snoc: "summarise (ts @ [t]) = Some (touch t (summarise ts))"
  by (cases ts) (simp_all add: summarise_def touch_def)

locale counted_store =
  fixes look :: "'s \<Rightarrow> 'k \<Rightarrow> summary option" and step :: "'s \<Rightarrow> 'op \<Rightarrow> 's"
    and seen :: "'op \<Rightarrow> ('k \<times> int) option" and init :: 's
  assumes look_init: "look init k = None"
    and look_step: "look (step s a) k =
      (case seen a of Some (j, t) \<Rightarrow> if j = k then Some (touch t (look s k)) else look s k | None \<Rightarrow> look s k)"
begin

definition times :: "'op list \<Rightarrow> 'k \<Rightarrow> int list" where
  "times as k = map snd (filter (\<lambda>(j, _). j = k) (List.map_filter seen as))"

lemma history: "look (foldl step init as) k = summarise (times as k)"
proof (induction as rule: rev_induct)
  case Nil
  show ?case by (simp add: times_def summarise_def look_init map_filter_simps)
next
  case (snoc a as)
  have "List.map_filter seen (as @ [a]) =
      List.map_filter seen as @ (case seen a of None \<Rightarrow> [] | Some x \<Rightarrow> [x])"
    by (simp add: List.map_filter_def split: option.splits)
  then have "times (as @ [a]) k = times as k @ (case seen a of None \<Rightarrow> [] | Some (j, t) \<Rightarrow> if j = k then [t] else [])"
    by (auto simp: times_def split: option.splits)
  with snoc show ?case by (auto simp: look_step summarise_snoc split: option.splits)
qed

end

definition row_summary :: "('k, 'x) counted_row \<Rightarrow> summary" where
  "row_summary r = (cr_first_seen r, cr_last_seen r, cr_seen_count r)"

definition look_row :: "('k, 'x) counted_row list \<Rightarrow> 'k \<Rightarrow> summary option" where
  "look_row rows k = map_option row_summary (find_row k rows)"

lemma find_row_map:
  "(\<And>r. cr_key (f r) = cr_key r) \<Longrightarrow> find_row j (map f rows) = map_option f (find_row j rows)"
  by (induction rows) (simp_all add: find_row_def)

lemma find_row_key: "find_row k rows = Some r \<Longrightarrow> cr_key r = k"
  by (auto simp: find_row_def find_Some_iff)

lemma find_row_append:
  "find_row j (rows @ [r]) = (case find_row j rows of None \<Rightarrow> if cr_key r = j then Some r else None | Some x \<Rightarrow> Some x)"
  by (induction rows) (simp_all add: find_row_def)

lemma look_upsert:
  "look_row (snd (upsert_row k x t rows)) j = (if j = k then Some (touch t (look_row rows k)) else look_row rows j)"
proof (cases "find_row k rows")
  case None
  then show ?thesis
    by (auto simp: upsert_row_def look_row_def find_row_append row_summary_def touch_def split: option.splits)
next
  case (Some r)
  then show ?thesis
    by (auto simp: upsert_row_def look_row_def find_row_map row_summary_def touch_def
        option.map_comp dest: find_row_key intro!: map_option_cong)
qed

lemma upsert_outcome:
  "fst (upsert_row k x t rows) = (case look_row rows k of None \<Rightarrow> Inserted | Some (_, _, n) \<Rightarrow> Updated (n + 1))"
  by (auto simp: upsert_row_def look_row_def row_summary_def split: option.splits)

definition undec :: "string \<Rightarrow> nat" where
  "undec s = foldl (\<lambda>a c. 10 * a + (of_char c - 48)) 0 s"

lemma digit: "m < 10 \<Longrightarrow> of_char (char_of (48 + m) :: char) = (48 + m :: nat)"
  by simp

lemma undec_dec: "undec (dec n) = n"
proof (induction n rule: dec.induct)
  case (1 n)
  show ?case
  proof (cases "n < 10")
    case False
    then have "undec (dec n) = 10 * undec (dec (n div 10)) + n mod 10"
      by (subst dec.simps) (simp add: undec_def digit)
    with 1 False show ?thesis by simp
  qed (subst dec.simps, simp add: undec_def digit)
qed

lemma dec_digits: "c \<in> set (dec n) \<Longrightarrow> c \<noteq> CHR '':''"
proof (induction n rule: dec.induct)
  case (1 n)
  have d: "char_of (48 + m) \<noteq> CHR '':''" if "m < 10" for m :: nat
  proof
    assume "char_of (48 + m) = CHR '':''"
    then have "of_char (char_of (48 + m) :: char) = (58 :: nat)" by simp
    with digit [OF that] that show False by simp
  qed
  show ?case
  proof (cases "n < 10")
    case True
    with 1 d [OF True] show ?thesis by (subst (asm) dec.simps) auto
  next
    case False
    with 1 d [of "n mod 10"] show ?thesis by (subst (asm) (2) dec.simps) auto
  qed
qed

lemma split_last:
  assumes "\<forall>c \<in> set d. c \<noteq> x" "\<forall>c \<in> set e. c \<noteq> x" "a @ x # d = b @ x # e"
  shows "a = b \<and> d = e"
proof -
  have "takeWhile (\<lambda>c. c \<noteq> x) (rev (a @ x # d)) = rev d" "takeWhile (\<lambda>c. c \<noteq> x) (rev (b @ x # e)) = rev e"
    using assms(1,2) by (simp_all add: takeWhile_append)
  with assms(3) have "d = e" by (metis rev_rev_ident)
  with assms(3) show ?thesis by simp
qed

text \<open>A destination's key determines the address and the port, also for addresses with colons.\<close>

lemma destination_key_inj: "destination_key a p = destination_key b q \<longleftrightarrow> a = b \<and> p = q"
proof
  assume "destination_key a p = destination_key b q"
  then have "a = b \<and> dec p = dec q"
    unfolding destination_key_def using split_last [of "dec p" "CHR '':''" "dec q" a b] dec_digits by auto
  then show "a = b \<and> p = q" by (metis undec_dec)
qed simp

fun binary_seen :: "baseline_op \<Rightarrow> (bytes \<times> int) option" where
  "binary_seen (OpBinary fails sha now) = (if fails then None else Some (sha, system_time_to_secs now))"
| "binary_seen _ = None"

fun destination_seen :: "baseline_op \<Rightarrow> ((string \<times> nat) \<times> int) option" where
  "destination_seen (OpDestination fails addr port now) =
     (if fails then None else Some ((addr, port), system_time_to_secs now))"
| "destination_seen _ = None"

fun lineage_seen :: "baseline_op \<Rightarrow> ((bytes \<times> bytes) \<times> int) option" where
  "lineage_seen (OpLineage fails parent child now) =
     (if fails then None else Some ((parent, child), system_time_to_secs now))"
| "lineage_seen _ = None"

lemmas baseline_ops = upsert_binary_def record_descriptor_def upsert_net_destination_def record_lineage_def
  add_detection_counts_def

lemma step_binaries:
  "t_binaries (baseline_step db a) = (case binary_seen a of
     Some (sha, t) \<Rightarrow> snd (upsert_row sha () t (t_binaries db)) | None \<Rightarrow> t_binaries db)"
  by (cases a) (auto simp: baseline_ops Let_def split: prod.splits)

lemma step_destinations:
  "t_net_destinations (baseline_step db a) = (case destination_seen a of
     Some ((addr, port), t) \<Rightarrow> snd (upsert_row (destination_key addr port) (addr, port) t (t_net_destinations db))
   | None \<Rightarrow> t_net_destinations db)"
  by (cases a) (auto simp: baseline_ops Let_def split: prod.splits)

lemma step_lineage:
  "t_lineage (baseline_step db a) = (case lineage_seen a of
     Some (edge, t) \<Rightarrow> snd (upsert_row edge () t (t_lineage db)) | None \<Rightarrow> t_lineage db)"
  by (cases a) (auto simp: baseline_ops Let_def split: prod.splits)

lemma look_row_Nil [simp]: "look_row [] k = None"
  by (simp add: look_row_def find_row_def)

interpretation bin: counted_store "\<lambda>db. look_row (t_binaries db)" baseline_step binary_seen open_in_memory
  by unfold_locales (auto simp: open_in_memory_def step_binaries look_upsert split: option.splits prod.splits)

interpretation net: counted_store
  "\<lambda>db (addr, port). look_row (t_net_destinations db) (destination_key addr port)"
  baseline_step destination_seen open_in_memory
  by unfold_locales
    (auto simp: open_in_memory_def step_destinations look_upsert destination_key_inj split: option.splits prod.splits)

interpretation edge: counted_store "\<lambda>db. look_row (t_lineage db)" baseline_step lineage_seen open_in_memory
  by unfold_locales (auto simp: open_in_memory_def step_lineage look_upsert split: option.splits prod.splits)

section \<open>Properties\<close>

text \<open>When the operations that succeeded saw a key, in order.\<close>

definition seen_times :: "(baseline_op \<Rightarrow> ('k \<times> int) option) \<Rightarrow> baseline_op list \<Rightarrow> 'k \<Rightarrow> int list" where
  "seen_times seen as k = map snd (filter (\<lambda>(j, _). j = k) (List.map_filter seen as))"

lemma seen_times_eq:
  "bin.times = seen_times binary_seen" "net.times = seen_times destination_seen" "edge.times = seen_times lineage_seen"
  by (simp_all add: fun_eq_iff bin.times_def net.times_def edge.times_def seen_times_def)

lemma history_binaries:
  "look_row (t_binaries (foldl baseline_step open_in_memory as)) sha = summarise (seen_times binary_seen as sha)"
  using bin.history by (simp add: seen_times_eq)

lemma history_lineage:
  "look_row (t_lineage (foldl baseline_step open_in_memory as)) e = summarise (seen_times lineage_seen as e)"
  using edge.history by (simp add: seen_times_eq)

lemma history_destinations:
  "look_row (t_net_destinations (foldl baseline_step open_in_memory as)) (destination_key addr port) =
     summarise (seen_times destination_seen as (addr, port))"
  using net.history [of as "(addr, port)"] by (simp add: seen_times_eq)

lemma get_binary_look:
  "get_binary db sha = map_option (\<lambda>(f, l, n). \<lparr>br_sha256 = sha, br_first_seen = secs_to_system_time f,
     br_last_seen = secs_to_system_time l, br_seen_count = word_of_nat n\<rparr>) (look_row (t_binaries db) sha)"
  by (simp add: get_binary_def look_row_def row_summary_def option.map_comp comp_def)

lemma get_lineage_look:
  "get_lineage db p c = map_option (\<lambda>(f, l, n). \<lparr>lr_parent_sha = p, lr_child_sha = c,
     lr_first_seen = secs_to_system_time f, lr_last_seen = secs_to_system_time l, lr_seen_count = word_of_nat n\<rparr>)
     (look_row (t_lineage db) (p, c))"
  by (simp add: get_lineage_def look_row_def row_summary_def option.map_comp comp_def)

lemma net_destination_look:
  "map_option (\<lambda>r. (nd_first_seen r, nd_last_seen r, nd_seen_count r)) (net_destination db addr port) =
   map_option (\<lambda>(f, l, n). (secs_to_system_time f, secs_to_system_time l, word_of_nat n))
     (look_row (t_net_destinations db) (destination_key addr port))"
  by (simp add: net_destination_def look_row_def row_summary_def net_record_of_def option.map_comp comp_def)

text \<open>
  C32. The baseline is an exact count of what was observed. Take any sequence of operations on a new
  baseline, on any of its tables, some of which fail. For every binary, destination and process pair,
  the record that a query returns is absent exactly if no successful operation saw it, and otherwise
  holds the time of its first observation, the time of its last, and the number of them. The next
  observation reports "inserted", the sign of novelty the scoring rests on, exactly if there was none.
\<close>

theorem baseline_counts_observations:
  "let db = foldl baseline_step open_in_memory as in
   get_binary db sha =
     map_option (\<lambda>(f, l, n). \<lparr>br_sha256 = sha, br_first_seen = secs_to_system_time f,
       br_last_seen = secs_to_system_time l, br_seen_count = word_of_nat n\<rparr>)
       (summarise (seen_times binary_seen as sha)) \<and>
   get_lineage db p c =
     map_option (\<lambda>(f, l, n). \<lparr>lr_parent_sha = p, lr_child_sha = c, lr_first_seen = secs_to_system_time f,
       lr_last_seen = secs_to_system_time l, lr_seen_count = word_of_nat n\<rparr>)
       (summarise (seen_times lineage_seen as (p, c))) \<and>
   map_option (\<lambda>r. (nd_first_seen r, nd_last_seen r, nd_seen_count r)) (net_destination db addr port) =
     map_option (\<lambda>(f, l, n). (secs_to_system_time f, secs_to_system_time l, word_of_nat n))
       (summarise (seen_times destination_seen as (addr, port))) \<and>
   fst (upsert_binary False db sha now) =
     Some (if seen_times binary_seen as sha = [] then Inserted
           else Updated (length (seen_times binary_seen as sha) + 1))"
proof -
  have "fst (upsert_binary False db sha now) = Some (fst (upsert_row sha () (system_time_to_secs now) (t_binaries db)))"
    for db by (simp add: upsert_binary_def split: prod.splits)
  then show ?thesis
    by (simp add: Let_def get_binary_look get_lineage_look net_destination_look history_binaries
        history_lineage history_destinations upsert_outcome summarise_def)
qed

end
