(* ===== verification/Bloom.thy ===== *)
theory Bloom
  imports Enrollment Baseline
begin

text \<open>
  Tier-1 fingerprints and the filter over them, \<open>crates/bowery-whisper/src/fingerprint.rs\<close>, with the
  two places that use the filter: the advert an agent publishes of what it has run
  (\<open>bowery-agent/src/bloom_publisher.rs\<close>), and the asker's test of a peer's advert
  (\<open>bloom_says_definitely_no\<close> in \<open>whisper_qa.rs\<close>).
\<close>

section \<open>Tier-1 fingerprints\<close>

type_synonym tier1 = bytes

definition TIER1_DOMAIN :: bytes where
  "TIER1_DOMAIN = str_bytes ''bowery/whisper/tier1/v1''"

definition TIER1_LEN :: nat where "TIER1_LEN = 8"

definition derive :: "crypto \<Rightarrow> bytes \<Rightarrow> tier1" where
  "derive c tier2 = take TIER1_LEN (sha256 c (TIER1_DOMAIN @ tier2))"

definition as_u64 :: "tier1 \<Rightarrow> u64" where
  "as_u64 fp = from_be_bytes fp"

section \<open>The filter\<close>

definition DEFAULT_BIT_COUNT :: nat where "DEFAULT_BIT_COUNT = 64 * 1024"
definition DEFAULT_K :: u8 where "DEFAULT_K = 6"
definition MAX_BIT_COUNT :: nat where "MAX_BIT_COUNT = 256 * 1024 * 8"
definition MIN_K :: u8 where "MIN_K = 1"
definition MAX_K :: u8 where "MAX_K = 32"

datatype bloom_error =
    NotByteAligned nat
  | TooLarge nat
  | BloomEmpty
  | BadK u8
  | LengthMismatch nat nat nat

record bloom_filter =
  bf_bits :: bytes
  bf_bit_count :: nat
  bf_k :: u8

definition validate_params :: "nat \<Rightarrow> u8 \<Rightarrow> bloom_error + unit" where
  "validate_params bit_count k =
     and_then (guard BloomEmpty (bit_count \<noteq> 0)) (\<lambda>_.
     and_then (guard (NotByteAligned bit_count) (bit_count mod 8 = 0)) (\<lambda>_.
     and_then (guard (TooLarge bit_count) (bit_count \<le> MAX_BIT_COUNT)) (\<lambda>_.
     guard (BadK k) (MIN_K \<le> k \<and> k \<le> MAX_K))))"

definition bloom_new :: "nat \<Rightarrow> u8 \<Rightarrow> bloom_error + bloom_filter" where
  "bloom_new bit_count k =
     and_then (validate_params bit_count k) (\<lambda>_.
     Inr \<lparr>bf_bits = replicate (bit_count div 8) 0, bf_bit_count = bit_count, bf_k = k\<rparr>)"

definition bloom_from_bytes :: "bytes \<Rightarrow> nat \<Rightarrow> u8 \<Rightarrow> bloom_error + bloom_filter" where
  "bloom_from_bytes bs bit_count k =
     and_then (validate_params bit_count k) (\<lambda>_.
     let expected_bytes = bit_count div 8 in
     and_then (guard (LengthMismatch (length bs) bit_count expected_bytes) (length bs = expected_bytes)) (\<lambda>_.
     Inr \<lparr>bf_bits = bs, bf_bit_count = bit_count, bf_k = k\<rparr>))"

definition bloom_indices :: "tier1 \<Rightarrow> nat \<Rightarrow> u8 \<Rightarrow> nat list" where
  "bloom_indices fp bit_count k =
     (let h = as_u64 fp;
          h1 = (ucast (drop_bit 32 h) :: u32);
          h2 = (ucast (h AND 0xFFFFFFFF) :: u32)
      in map (\<lambda>i. unat ((ucast h1 + word_of_nat i * ucast h2 :: u64) mod word_of_nat bit_count))
           [0..<unat k])"

definition set_bit_at :: "bytes \<Rightarrow> nat \<Rightarrow> bytes" where
  "set_bit_at bits idx = bits[idx div 8 := (bits ! (idx div 8)) OR push_bit (idx mod 8) 1]"

definition bloom_insert :: "bloom_filter \<Rightarrow> tier1 \<Rightarrow> bloom_filter" where
  "bloom_insert f fp = f\<lparr>bf_bits := foldl set_bit_at (bf_bits f) (bloom_indices fp (bf_bit_count f) (bf_k f))\<rparr>"

definition bloom_contains :: "bloom_filter \<Rightarrow> tier1 \<Rightarrow> bool" where
  "bloom_contains f fp =
     list_all (\<lambda>idx. bf_bits f ! (idx div 8) AND push_bit (idx mod 8) 1 \<noteq> 0)
       (bloom_indices fp (bf_bit_count f) (bf_k f))"

definition bloom_merge :: "bloom_filter \<Rightarrow> bloom_filter \<Rightarrow> (bloom_error + unit) \<times> bloom_filter" where
  "bloom_merge f g =
     (if bf_bit_count f \<noteq> bf_bit_count g
      then (Inl (LengthMismatch (bf_bit_count g) (bf_bit_count f) (length (bf_bits f))), f)
      else if bf_k f \<noteq> bf_k g then (Inl (BadK (bf_k g)), f)
      else (Inr (), f\<lparr>bf_bits := map2 (OR) (bf_bits f) (bf_bits g)
              @ drop (length (bf_bits g)) (bf_bits f)\<rparr>))"

section \<open>Adverts\<close>

record bloom_advert =
  adv_epoch :: u64
  adv_bit_count :: u32
  adv_k :: u32
  adv_bits :: bytes

text \<open>The protobuf codec of an advert is a package.\<close>

record advert_codec =
  adv_encode :: "bloom_advert \<Rightarrow> bytes"
  adv_decode :: "bytes \<Rightarrow> bloom_advert option"

definition advert_codec_ok :: "advert_codec \<Rightarrow> bool" where
  "advert_codec_ok k \<longleftrightarrow> (\<forall>a. adv_decode k (adv_encode k a) = Some a)"

datatype publish_error = PubBloom bloom_error | PubBaseline | PubSizeOverflow

definition publish_one ::
    "crypto \<Rightarrow> advert_codec \<Rightarrow> baseline_scan \<Rightarrow> nat \<Rightarrow> u8 \<Rightarrow> u64 \<Rightarrow> publish_error + string" where
  "publish_one c ac scan bit_count k epoch =
     (case bloom_new bit_count k of
        Inl e \<Rightarrow> Inl (PubBloom e)
      | Inr f0 \<Rightarrow>
          let f = foldl (\<lambda>f rec. bloom_insert f (derive c (br_sha256 rec))) f0 (visited scan) in
          if \<not> scan_ok scan then Inl PubBaseline
          else if \<not> bf_bit_count f < 2 ^ 32 then Inl PubSizeOverflow
          else Inr (b64_encode c (adv_encode ac \<lparr>adv_epoch = epoch, adv_bit_count = word_of_nat (bf_bit_count f),
                 adv_k = ucast (bf_k f), adv_bits = bf_bits f\<rparr>)))"

definition bloom_says_definitely_no :: "crypto \<Rightarrow> advert_codec \<Rightarrow> peer_info \<Rightarrow> tier1 \<Rightarrow> bool" where
  "bloom_says_definitely_no c ac peer fp =
     (case pi_bloom_advert peer of
        None \<Rightarrow> False
      | Some s \<Rightarrow>
        (case b64_decode c s of
           None \<Rightarrow> False
         | Some raw \<Rightarrow>
           (case adv_decode ac raw of
              None \<Rightarrow> False
            | Some advert \<Rightarrow>
              if \<not> adv_k advert < 256 then False
              else (case bloom_from_bytes (adv_bits advert) (unat (adv_bit_count advert)) (ucast (adv_k advert)) of
                      Inl _ \<Rightarrow> False
                    | Inr f \<Rightarrow> \<not> bloom_contains f fp))))"

section \<open>What the bits mean\<close>

definition bloom_wf :: "bloom_filter \<Rightarrow> bool" where
  "bloom_wf f \<longleftrightarrow> is_ok (validate_params (bf_bit_count f) (bf_k f)) \<and> length (bf_bits f) = bf_bit_count f div 8"

definition bit_set_at :: "bytes \<Rightarrow> nat \<Rightarrow> bool" where
  "bit_set_at bits i \<longleftrightarrow> i div 8 < length bits \<and> bit (bits ! (i div 8)) (i mod 8)"

definition view :: "bloom_filter \<Rightarrow> nat set" where
  "view f = {i. bit_set_at (bf_bits f) i}"

lemma validate_params_ok:
  "is_ok (validate_params n k) \<longleftrightarrow> n \<noteq> 0 \<and> n mod 8 = 0 \<and> n \<le> MAX_BIT_COUNT \<and> MIN_K \<le> k \<and> k \<le> MAX_K"
  by (auto simp: validate_params_def is_ok_iff)

lemma bloom_new_wf: "bloom_new n k = Inr f \<Longrightarrow> bloom_wf f \<and> view f = {} \<and> bf_bit_count f = n \<and> bf_k f = k"
  by (auto simp: bloom_new_def bloom_wf_def is_ok_iff view_def bit_set_at_def)

lemma bloom_from_bytes_wf:
  "bloom_from_bytes bs n k = Inr f \<longleftrightarrow> bloom_wf f \<and> f = \<lparr>bf_bits = bs, bf_bit_count = n, bf_k = k\<rparr>"
  by (auto simp: bloom_from_bytes_def bloom_wf_def is_ok_iff Let_def)

lemma indices_in_range:
  assumes "bloom_wf f" "i \<in> set (bloom_indices fp (bf_bit_count f) (bf_k f))"
  shows "i < bf_bit_count f" "i div 8 < length (bf_bits f)"
proof -
  let ?n = "bf_bit_count f"
  have n: "0 < ?n" "?n mod 8 = 0" "?n < 2 ^ 64" "length (bf_bits f) = ?n div 8"
    using assms(1) by (auto simp: bloom_wf_def validate_params_ok MAX_BIT_COUNT_def)
  then have u: "unat (word_of_nat ?n :: u64) = ?n" by (simp add: unat_of_nat take_bit_nat_eq_self)
  from assms(2) obtain w :: u64 where "i = unat (w mod word_of_nat ?n)"
    by (auto simp: bloom_indices_def Let_def)
  then show "i < ?n" using u n(1) by (simp add: unat_mod_distrib)
  then show "i div 8 < length (bf_bits f)" using n by (auto simp: div_less_iff_less_mult)
qed

lemma contains_view:
  assumes "bloom_wf f"
  shows "bloom_contains f fp \<longleftrightarrow> set (bloom_indices fp (bf_bit_count f) (bf_k f)) \<subseteq> view f"
  using indices_in_range(2) [OF assms]
  by (auto simp: bloom_contains_def list_all_iff view_def bit_set_at_def and_exp_eq_0_iff_not_bit)

lemma set_bit_at_get:
  assumes "i div 8 < length bits"
  shows "bit_set_at (set_bit_at bits i) j \<longleftrightarrow> j = i \<or> bit_set_at bits j"
proof (cases "j div 8 = i div 8")
  case True
  then have "j = i \<longleftrightarrow> j mod 8 = i mod 8" by (metis div_mult_mod_eq)
  with True assms show ?thesis
    by (auto simp: bit_set_at_def set_bit_at_def bit_or_iff bit_exp_iff)
next
  case False
  then show ?thesis by (auto simp: bit_set_at_def set_bit_at_def nth_list_update)
qed

lemma set_bits_get:
  "\<forall>i \<in> set is. i div 8 < length bits \<Longrightarrow>
   length (foldl set_bit_at bits is) = length bits \<and>
   (bit_set_at (foldl set_bit_at bits is) j \<longleftrightarrow> j \<in> set is \<or> bit_set_at bits j)"
proof (induction "is" arbitrary: bits)
  case (Cons i "is")
  have "length (set_bit_at bits i) = length bits" by (simp add: set_bit_at_def)
  with Cons show ?case by (auto simp: set_bit_at_get)
qed simp

lemma insert_view:
  assumes "bloom_wf f"
  shows "bloom_wf (bloom_insert f fp)"
    "view (bloom_insert f fp) = view f \<union> set (bloom_indices fp (bf_bit_count f) (bf_k f))"
    "bf_bit_count (bloom_insert f fp) = bf_bit_count f" "bf_k (bloom_insert f fp) = bf_k f"
  using assms set_bits_get [of "bloom_indices fp (bf_bit_count f) (bf_k f)" "bf_bits f"]
    indices_in_range(2) [OF assms, of _ fp]
  by (auto simp: bloom_insert_def bloom_wf_def view_def)

lemma merge_view:
  assumes "bloom_wf f" "bloom_wf g" "bloom_merge f g = (Inr (), h)"
  shows "bloom_wf h" "view h = view f \<union> view g" "bf_bit_count h = bf_bit_count f" "bf_k h = bf_k f"
    "bf_bit_count g = bf_bit_count f" "bf_k g = bf_k f"
proof -
  from assms(3) show same: "bf_bit_count g = bf_bit_count f" "bf_k g = bf_k f"
    by (auto simp: bloom_merge_def split: if_splits)
  have len: "length (bf_bits f) = length (bf_bits g)" using assms(1,2) same by (simp add: bloom_wf_def)
  with assms(3) have h: "h = f\<lparr>bf_bits := map2 (OR) (bf_bits f) (bf_bits g)\<rparr>"
    by (auto simp: bloom_merge_def split: if_splits)
  then show "bf_bit_count h = bf_bit_count f" "bf_k h = bf_k f" by simp_all
  from h assms(1) len show "bloom_wf h" by (simp add: bloom_wf_def)
  from h len show "view h = view f \<union> view g"
    by (auto simp: view_def bit_set_at_def bit_or_iff)
qed

section \<open>A set that forgets nothing\<close>

text \<open>
  What the users of the filter rely on: membership after an insertion, and that neither insertion nor
  merging loses a member. The filter may claim members it was never given.
\<close>

locale approximate_set =
  fixes ok :: "'f \<Rightarrow> bool" and ins :: "'f \<Rightarrow> 'k \<Rightarrow> 'f" and mem :: "'f \<Rightarrow> 'k \<Rightarrow> bool"
  assumes ins_ok: "ok f \<Longrightarrow> ok (ins f x)"
    and ins_mem: "ok f \<Longrightarrow> mem (ins f x) x"
    and ins_keeps: "ok f \<Longrightarrow> mem f y \<Longrightarrow> mem (ins f x) y"
begin

lemma foldl_ok: "ok f \<Longrightarrow> ok (foldl ins f xs)"
  by (induction xs arbitrary: f) (simp_all add: ins_ok)

lemma foldl_keeps: "ok f \<Longrightarrow> mem f y \<Longrightarrow> mem (foldl ins f xs) y"
  by (induction xs arbitrary: f) (simp_all add: ins_ok ins_keeps)

lemma foldl_mem: "ok f \<Longrightarrow> x \<in> set xs \<Longrightarrow> mem (foldl ins f xs) x"
proof (induction xs arbitrary: f)
  case (Cons a xs)
  then show ?case by (cases "x = a") (auto simp: ins_ok ins_mem intro: foldl_keeps)
qed simp

end

interpretation bloom: approximate_set bloom_wf bloom_insert bloom_contains
proof
  fix f x y
  assume wf: "bloom_wf f"
  note i = insert_view [OF wf, of x] contains_view [OF wf] contains_view [OF insert_view(1) [OF wf, of x]]
  show "bloom_wf (bloom_insert f x)" by (rule i)
  show "bloom_contains (bloom_insert f x) x" using i by simp
  show "bloom_contains f y \<Longrightarrow> bloom_contains (bloom_insert f x) y" using i by auto
qed

lemma foldl_insert_params:
  "bloom_wf f \<Longrightarrow> bf_bit_count (foldl bloom_insert f xs) = bf_bit_count f \<and> bf_k (foldl bloom_insert f xs) = bf_k f"
  by (induction xs arbitrary: f) (simp_all add: insert_view)

section \<open>Properties\<close>

text \<open>
  A filter has no false negatives, and merging is union. Build two filters of the same dimensions
  by inserting fingerprints; each reports every fingerprint inserted into it. Merging succeeds, and the
  result reports every fingerprint inserted into either one; a fingerprint that the merged filter does
  not report is in neither.
\<close>

theorem bloom_no_false_negatives:
  assumes new: "bloom_new n k = Inr f0" and "f = foldl bloom_insert f0 xs" "g = foldl bloom_insert f0 ys"
  shows "\<exists>h. bloom_merge f g = (Inr (), h) \<and> (\<forall>x \<in> set xs. bloom_contains f x) \<and>
    (\<forall>x \<in> set xs \<union> set ys. bloom_contains h x) \<and>
    (\<forall>x. bloom_contains f x \<or> bloom_contains g x \<longrightarrow> bloom_contains h x) \<and> view h = view f \<union> view g"
proof -
  have f0: "bloom_wf f0" using bloom_new_wf [OF new] by simp
  have wf: "bloom_wf f" "bloom_wf g" using assms(2,3) bloom.foldl_ok [OF f0] by simp_all
  have par: "bf_bit_count g = bf_bit_count f" "bf_k g = bf_k f"
    using assms(2,3) foldl_insert_params [OF f0] by simp_all
  then obtain h where h: "bloom_merge f g = (Inr (), h)" by (simp add: bloom_merge_def)
  note m = merge_view [OF wf h]
  have sub: "\<forall>x. bloom_contains f x \<or> bloom_contains g x \<longrightarrow> bloom_contains h x"
    using m par by (auto simp: contains_view [OF wf(1)] contains_view [OF wf(2)] contains_view [OF m(1)])
  have "\<forall>x \<in> set xs. bloom_contains f x" "\<forall>x \<in> set ys. bloom_contains g x"
    using assms(2,3) bloom.foldl_mem [OF f0] by auto
  with sub h m(2) show ?thesis by auto
qed

theorem bloom_no_false_negatives_witness:
  "\<exists>f0 h. bloom_new 64 2 = Inr f0 \<and>
     bloom_merge (foldl bloom_insert f0 [[0, 0, 0, 9, 0, 0, 0, 7]]) (foldl bloom_insert f0 [[0, 0, 0, 3, 0, 0, 0, 1]])
       = (Inr (), h) \<and>
     bloom_contains h [0, 0, 0, 9, 0, 0, 0, 7] \<and> bloom_contains h [0, 0, 0, 3, 0, 0, 0, 1] \<and>
     \<not> bloom_contains h [0, 0, 0, 5, 0, 0, 0, 1]"
proof -
  obtain f0 where f0: "bloom_new 64 2 = Inr f0"
    by (simp add: bloom_new_def validate_params_def and_then_def guard_def MAX_BIT_COUNT_def MIN_K_def MAX_K_def)
  from bloom_no_false_negatives [OF f0 refl refl, of "[[0, 0, 0, 9, 0, 0, 0, 7]]" "[[0, 0, 0, 3, 0, 0, 0, 1]]"]
  obtain h where h: "bloom_merge (foldl bloom_insert f0 [[0, 0, 0, 9, 0, 0, 0, 7]])
      (foldl bloom_insert f0 [[0, 0, 0, 3, 0, 0, 0, 1]]) = (Inr (), h)"
    "bloom_contains h [0, 0, 0, 9, 0, 0, 0, 7]" "bloom_contains h [0, 0, 0, 3, 0, 0, 0, 1]" by auto
  have "f0 = \<lparr>bf_bits = replicate 8 0, bf_bit_count = 64, bf_k = 2\<rparr>"
    using f0 by (auto simp: bloom_new_def)
  moreover have "\<not> bloom_contains (snd (bloom_merge
      (foldl bloom_insert \<lparr>bf_bits = replicate 8 0, bf_bit_count = 64, bf_k = 2\<rparr> [[0, 0, 0, 9, 0, 0, 0, 7]])
      (foldl bloom_insert \<lparr>bf_bits = replicate 8 0, bf_bit_count = 64, bf_k = 2\<rparr> [[0, 0, 0, 3, 0, 0, 0, 1]])))
      [0, 0, 0, 5, 0, 0, 0, 1]" by code_simp
  ultimately have "\<not> bloom_contains h [0, 0, 0, 5, 0, 0, 0, 1]" using h(1) by simp
  with f0 h show ?thesis by blast
qed

text \<open>
  Skipping a peer on its advert is safe. If an agent published an advert from its baseline, and an
  asker who reads that advert decides that the peer has definitely not seen a fingerprint, then no
  binary the scan of the baseline visited has that fingerprint.
\<close>

theorem bloom_skip_is_sound:
  assumes ok: "crypto_ok c" "advert_codec_ok ac"
    and pub: "publish_one c ac scan n k epoch = Inr s"
    and peer: "pi_bloom_advert peer = Some s" and no: "bloom_says_definitely_no c ac peer fp"
  shows "scan_ok scan \<and> (\<forall>rec \<in> set (visited scan). derive c (br_sha256 rec) \<noteq> fp)"
proof -
  let ?xs = "map (\<lambda>rec. derive c (br_sha256 rec)) (visited scan)"
  from pub obtain f0 where f0: "bloom_new n k = Inr f0" by (auto simp: publish_one_def split: sum.splits)
  define f where "f = foldl bloom_insert f0 ?xs"
  have fold: "foldl (\<lambda>f rec. bloom_insert f (derive c (br_sha256 rec))) f0 (visited scan) = f"
    by (simp add: f_def foldl_map)
  let ?a = "\<lparr>adv_epoch = epoch, adv_bit_count = word_of_nat (bf_bit_count f), adv_k = ucast (bf_k f),
    adv_bits = bf_bits f\<rparr>"
  from pub f0 fold have sc: "scan_ok scan" and n: "bf_bit_count f < 2 ^ 32"
    and s: "s = b64_encode c (adv_encode ac ?a)"
    by (auto simp: publish_one_def split: if_splits)
  have wf0: "bloom_wf f0" using bloom_new_wf [OF f0] by simp
  then have wf: "bloom_wf f" unfolding f_def by (rule bloom.foldl_ok)
  have k: "ucast (ucast (bf_k f) :: u32) = bf_k f" by (rule bit_word_eqI) (auto simp: bit_ucast_iff)
  have "unat (word_of_nat (bf_bit_count f) :: u32) = bf_bit_count f"
    using n by (simp add: unat_of_nat take_bit_nat_eq_self)
  with wf k have fb: "bloom_from_bytes (adv_bits ?a) (unat (adv_bit_count ?a)) (ucast (adv_k ?a)) = Inr f"
    by (simp add: bloom_from_bytes_wf)
  have "b64_decode c s = Some (adv_encode ac ?a)" "adv_decode ac (adv_encode ac ?a) = Some ?a"
    using s crypto_okD(7) [OF ok(1)] ok(2) by (simp_all add: advert_codec_ok_def)
  with no peer fb have "\<not> bloom_contains f fp"
    by (simp add: bloom_says_definitely_no_def split: if_splits)
  with bloom.foldl_mem [OF wf0, of fp ?xs] sc show ?thesis by (auto simp: f_def)
qed

text \<open>A codec that meets \<open>advert_codec_ok\<close>: the three integers in big-endian order, then the bits.\<close>

definition demo_advert_codec :: advert_codec where
  "demo_advert_codec = \<lparr>
     adv_encode = (\<lambda>a. be64 (adv_epoch a) @ be32 (adv_bit_count a) @ be32 (adv_k a) @ adv_bits a),
     adv_decode = (\<lambda>b. Some \<lparr>adv_epoch = from_be_bytes (take 8 b),
       adv_bit_count = from_be_bytes (take 4 (drop 8 b)), adv_k = from_be_bytes (take 4 (drop 12 b)),
       adv_bits = drop 16 b\<rparr>)\<rparr>"

lemma demo_advert_codec_ok: "advert_codec_ok demo_advert_codec"
  by (simp add: advert_codec_ok_def demo_advert_codec_def from_be_bytes_be_bytes)

definition demo_scan :: baseline_scan where
  "demo_scan = \<lparr>visited = [\<lparr>br_sha256 = [], br_first_seen = 0, br_last_seen = 0, br_seen_count = 1\<rparr>],
     scan_ok = True\<rparr>"

theorem bloom_skip_is_sound_witness:
  "\<exists>s. publish_one demo_crypto demo_advert_codec demo_scan 8 1 5 = Inr s \<and>
     bloom_says_definitely_no demo_crypto demo_advert_codec ((demo_peer demo_vk)\<lparr>pi_bloom_advert := Some s\<rparr>)
       (replicate 8 0) \<and>
     (\<forall>rec \<in> set (visited demo_scan). derive demo_crypto (br_sha256 rec) \<noteq> replicate 8 0)"
proof -
  let ?a = "\<lparr>adv_epoch = 5, adv_bit_count = 8, adv_k = 1, adv_bits = [32]\<rparr>"
  let ?s = "b64_encode demo_crypto (adv_encode demo_advert_codec ?a)"
  let ?f = "\<lparr>bf_bits = [32], bf_bit_count = 8, bf_k = 1\<rparr>"
  let ?peer = "(demo_peer demo_vk)\<lparr>pi_bloom_advert := Some ?s\<rparr>"
  have val: "validate_params 8 1 = Inr ()"
    by (simp add: validate_params_def MAX_BIT_COUNT_def MIN_K_def MAX_K_def)
  then have new: "bloom_new 8 1 = Inr \<lparr>bf_bits = [0], bf_bit_count = 8, bf_k = 1\<rparr>"
    by (simp add: bloom_new_def)
  have "bloom_insert \<lparr>bf_bits = [0], bf_bit_count = 8, bf_k = 1\<rparr> (derive demo_crypto []) = ?f" by code_simp
  then have pub: "publish_one demo_crypto demo_advert_codec demo_scan 8 1 5 = Inr ?s"
    by (simp add: publish_one_def new demo_scan_def)
  have "bloom_from_bytes [32] 8 1 = Inr ?f" by (simp add: bloom_from_bytes_def val)
  moreover have "\<not> bloom_contains ?f (replicate 8 0)" by code_simp
  moreover have "adv_decode demo_advert_codec (adv_encode demo_advert_codec ?a) = Some ?a"
    using demo_advert_codec_ok by (simp add: advert_codec_ok_def)
  ultimately have no: "bloom_says_definitely_no demo_crypto demo_advert_codec ?peer (replicate 8 0)"
    by (simp add: bloom_says_definitely_no_def crypto_okD(7) [OF demo_crypto_ok])
  have peer: "pi_bloom_advert ?peer = Some ?s" by simp
  from bloom_skip_is_sound [OF demo_crypto_ok demo_advert_codec_ok pub peer no] pub no show ?thesis by blast
qed

end
