(* ===== verification/Bounded_Map.thy ===== *)
theory Bounded_Map
  imports Prelude "HOL-Library.AList"
begin

text \<open>
  Hash maps that are emptied when they are full. Several tables of the agent (the suppressor, the
  process table, the trackers of the detections) bound their memory this way: before a new key enters a
  map with as many entries as it may hold, the whole map is dropped. A map is the list of its entries
  with distinct keys; the order of the list is the iteration order.
\<close>

section \<open>Insertion\<close>

definition empty_if_full :: "nat \<Rightarrow> 'k \<Rightarrow> ('k \<times> 'v) list \<Rightarrow> ('k \<times> 'v) list" where
  "empty_if_full cap k m = (if cap \<le> length m \<and> map_of m k = None then [] else m)"

definition put_bounded :: "nat \<Rightarrow> 'k \<Rightarrow> 'v \<Rightarrow> ('k \<times> 'v) list \<Rightarrow> ('k \<times> 'v) list" where
  "put_bounded cap k v m = AList.update k v (empty_if_full cap k m)"

definition table_wf :: "nat \<Rightarrow> ('k \<times> 'v) list \<Rightarrow> bool" where
  "table_wf cap m \<longleftrightarrow> distinct (map fst m) \<and> length m \<le> cap"

lemma table_wf_Nil [simp]: "table_wf cap []"
  by (simp add: table_wf_def)

lemma alist_update_length: "length (AList.update k v m) = (if map_of m k = None then Suc (length m) else length m)"
  by (induction m) auto

lemma empty_if_full_wf: "table_wf cap m \<Longrightarrow> table_wf cap (empty_if_full cap k m)"
  by (simp add: empty_if_full_def)

lemma put_bounded_wf:
  assumes "table_wf cap m" "0 < cap"
  shows "table_wf cap (put_bounded cap k v m)"
  using assms by (auto simp: table_wf_def put_bounded_def empty_if_full_def alist_update_length distinct_update)

lemma table_update_wf:
  assumes "table_wf cap m" "map_of m k \<noteq> None"
  shows "table_wf cap (AList.update k v m)"
  using assms by (auto simp: table_wf_def alist_update_length distinct_update)

lemma table_delete_wf: "table_wf cap m \<Longrightarrow> table_wf cap (AList.delete k m)"
  by (auto simp: table_wf_def distinct_delete intro: le_trans [OF length_delete_le])

lemma map_of_put_bounded:
  "map_of (put_bounded cap k v m) j = (if j = k then Some v else map_of (empty_if_full cap k m) j)"
  by (simp add: put_bounded_def update_conv')

lemma map_of_empty_if_full_Some: "map_of (empty_if_full cap k m) j = Some v \<Longrightarrow> map_of m j = Some v"
  by (auto simp: empty_if_full_def split: if_splits)

lemma empty_if_full_known: "map_of m k \<noteq> None \<Longrightarrow> empty_if_full cap k m = m"
  by (auto simp: empty_if_full_def)

text \<open>While the keys in use fit into the table, nothing is dropped.\<close>

lemma empty_if_full_fits:
  assumes "distinct (map fst m)" "fst ` set m \<subseteq> K" "k \<in> K" "finite K" "card K \<le> cap"
  shows "empty_if_full cap k m = m"
proof (cases "map_of m k = None")
  case True
  then have "fst ` set m \<subset> K" using assms(2,3) by (auto simp: map_of_eq_None_iff)
  from psubset_card_mono [OF assms(4) this] have "card (fst ` set m) < cap" using assms(5) by simp
  moreover have "card (fst ` set m) = length m" using distinct_card [OF assms(1)] by simp
  ultimately show ?thesis by (simp add: empty_if_full_def)
qed (simp add: empty_if_full_known)

end
