(* ===== verification/Provenance.thy ===== *)
theory Provenance
  imports F32 Bounded_Map Text_Lines Crypto "HOL-Library.Sublist"
begin

text \<open>
  Where a binary comes from, \<open>crates/bowery-analysis/src/provenance.rs\<close>: the index of the package
  database, the cache in front of it, and the findings and scores that rest on it. The file system is
  passed in: \<open>mt\<close> gives the two modification times of a database directory, the digest of a file is what
  reading it returned. Times are nanoseconds on the wall clock.
\<close>

section \<open>Paths and text\<close>

fun split_slash :: "string \<Rightarrow> string list" where
  "split_slash [] = [[]]"
| "split_slash (c # s) =
     (if c = CHR ''/'' then [] # split_slash s
      else (case split_slash s of [] \<Rightarrow> [[c]] | w # ws \<Rightarrow> (c # w) # ws))"

text \<open>
  Paths are compared by their components: repeated and trailing separators do not count, nor does \<open>.\<close>
  other than at the beginning of a relative path.
\<close>

type_synonym path_key = "string list"

definition path_key :: "string \<Rightarrow> path_key" where
  "path_key p =
     (let real = filter (\<lambda>s. s \<noteq> [] \<and> s \<noteq> ''.'') in
      case p of [] \<Rightarrow> []
      | c # s \<Rightarrow>
          if c = CHR ''/'' then ''/'' # real (split_slash s)
          else hd (split_slash p) # real (tl (split_slash p)))"

text \<open>The two parts of a file name around its last dot; a name that begins with its only dot has no extension.\<close>

definition rsplit_dot :: "string \<Rightarrow> string \<times> string option" where
  "rsplit_dot name =
     (let after = rev (takeWhile (\<lambda>c. c \<noteq> CHR ''.'') (rev name));
          before = take (length name - length after - 1) name
      in if CHR ''.'' \<notin> set name \<or> before = [] then (name, None) else (before, Some after))"

fun split_two_blanks :: "string \<Rightarrow> (string \<times> string) option" where
  "split_two_blanks (a # b # s) =
     (if a = CHR '' '' \<and> b = CHR '' '' then Some ([], s)
      else map_option (\<lambda>(x, y). (a # x, y)) (split_two_blanks (b # s)))"
| "split_two_blanks _ = None"

definition first_word :: "string \<Rightarrow> string option" where
  "first_word l = (let w = takeWhile (\<lambda>c. \<not> is_white c) (dropWhile is_white l) in if w = [] then None else Some w)"

text \<open>One byte in hexadecimal; the library's parser takes a sign before the digits.\<close>

definition hex_value :: "char \<Rightarrow> nat option" where
  "hex_value ch =
     (let n = (of_char ch :: nat) in
      if 48 \<le> n \<and> n \<le> 57 then Some (n - 48)
      else if 97 \<le> n \<and> n \<le> 102 then Some (n - 87)
      else if 65 \<le> n \<and> n \<le> 70 then Some (n - 55)
      else None)"

definition hex_byte :: "char \<Rightarrow> char \<Rightarrow> u8 option" where
  "hex_byte a b =
     (if a = CHR ''+'' then map_option of_nat (hex_value b)
      else (case (hex_value a, hex_value b) of (Some x, Some y) \<Rightarrow> Some (of_nat (16 * x + y)) | _ \<Rightarrow> None))"

fun hex_bytes :: "string \<Rightarrow> bytes option" where
  "hex_bytes [] = Some []"
| "hex_bytes [a] = None"
| "hex_bytes (a # b # s) =
     (case (hex_byte a b, hex_bytes s) of (Some x, Some xs) \<Rightarrow> Some (x # xs) | _ \<Rightarrow> None)"

definition parse_md5 :: "string \<Rightarrow> bytes option" where
  "parse_md5 hex = (if length hex \<noteq> 32 then None else hex_bytes hex)"

section \<open>The index\<close>

datatype provenance = PackagedIntact | PackagedModified | Unpackaged | Unknown

definition provenance_label :: "provenance \<Rightarrow> string" where
  "provenance_label p = (case p of
       PackagedIntact \<Rightarrow> ''distro-packaged, unmodified''
     | PackagedModified \<Rightarrow> ''distro-packaged but MODIFIED''
     | Unpackaged \<Rightarrow> ''not owned by any package''
     | Unknown \<Rightarrow> ''provenance unknown'')"

type_synonym db_mtimes = "int option \<times> int option"

record db_stamp =
  ds_dir :: string
  ds_mtimes :: db_mtimes

record package_index =
  px_by_path :: "path_key \<rightharpoonup> bytes"
  px_pkg_by_path :: "path_key \<rightharpoonup> string"
  px_pkg_names :: "string list"
  px_conffiles :: "path_key \<rightharpoonup> string"
  px_stamp :: "db_stamp option"
  px_available :: bool

definition is_executable_path :: "string \<Rightarrow> bool" where
  "is_executable_path rel \<longleftrightarrow>
     list_ex (\<lambda>d. prefix d rel) [''bin/'', ''sbin/'', ''usr/bin/'', ''usr/sbin/'', ''usr/libexec/'', ''usr/games/''] \<or>
     (prefix ''usr/lib/'' rel \<or> prefix ''lib/'' rel) \<and> \<not> sublist ''.so'' rel"

definition merged_usr_alias :: "string \<Rightarrow> string option" where
  "merged_usr_alias rel =
     (if list_ex (\<lambda>d. prefix d rel) [''bin/'', ''sbin/'', ''lib/''] then Some (''/usr/'' @ rel) else None)"

definition TRANSACTION_WINDOW :: int where "TRANSACTION_WINDOW = 120000000000"

definition index_unavailable :: package_index where
  "index_unavailable = \<lparr>px_by_path = Map.empty, px_pkg_by_path = Map.empty, px_pkg_names = [], px_conffiles = Map.empty,
     px_stamp = None, px_available = False\<rparr>"

text \<open>One line of a \<open>conffiles\<close> and of an \<open>md5sums\<close> file.\<close>

definition add_conffile :: "string \<Rightarrow> string \<Rightarrow> package_index \<Rightarrow> package_index" where
  "add_conffile pkg line px =
     (case first_word line of None \<Rightarrow> px
      | Some f \<Rightarrow> if prefix ''/'' f then px\<lparr>px_conffiles := (px_conffiles px)(path_key f \<mapsto> pkg)\<rparr> else px)"

definition add_path :: "string \<Rightarrow> bytes \<Rightarrow> string \<Rightarrow> package_index \<Rightarrow> package_index" where
  "add_path pkg md5 p px =
     px\<lparr>px_pkg_by_path := (px_pkg_by_path px)(path_key p \<mapsto> pkg), px_by_path := (px_by_path px)(path_key p \<mapsto> md5)\<rparr>"

definition add_md5sum :: "string \<Rightarrow> string \<Rightarrow> package_index \<Rightarrow> package_index" where
  "add_md5sum pkg line px =
     (case split_two_blanks line of None \<Rightarrow> px
      | Some (digest, rel) \<Rightarrow>
          if \<not> is_executable_path rel then px
          else (case parse_md5 digest of None \<Rightarrow> px
            | Some md5 \<Rightarrow>
                let px1 = add_path pkg md5 (CHR ''/'' # rel) (px\<lparr>px_pkg_names := List.insert pkg (px_pkg_names px)\<rparr>) in
                (case merged_usr_alias rel of None \<Rightarrow> px1 | Some alias \<Rightarrow> add_path pkg md5 alias px1)))"

text \<open>
  One entry of the directory: its name and its contents, if they could be read. Names that are not
  UTF-8 have no extension and are passed over before they get here.
\<close>

definition add_file :: "string \<times> string option \<Rightarrow> package_index \<Rightarrow> package_index" where
  "add_file f px =
     (case f of (name, contents) \<Rightarrow>
        case rsplit_dot name of (stem, kind) \<Rightarrow>
          if kind \<noteq> Some ''md5sums'' \<and> kind \<noteq> Some ''conffiles'' then px
          else let pkg = takeWhile (\<lambda>ch. ch \<noteq> CHR '':'') stem in
            (case contents of None \<Rightarrow> px
             | Some txt \<Rightarrow>
                 if kind = Some ''conffiles'' then fold (add_conffile pkg) (lines txt) px
                 else fold (add_md5sum pkg) (lines txt) px))"

definition load_dpkg :: "(string \<Rightarrow> db_mtimes) \<Rightarrow> string \<Rightarrow> (string \<times> string option) list option \<Rightarrow> package_index" where
  "load_dpkg mt dir listing =
     (let mtimes = mt dir;
          stamp = (if fst mtimes \<noteq> None \<or> snd mtimes \<noteq> None then Some \<lparr>ds_dir = dir, ds_mtimes = mtimes\<rparr> else None)
      in case listing of None \<Rightarrow> index_unavailable
         | Some files \<Rightarrow> fold add_file files (index_unavailable\<lparr>px_stamp := stamp, px_available := True\<rparr>))"

definition index_classify :: "package_index \<Rightarrow> path_key \<Rightarrow> bytes option \<Rightarrow> provenance" where
  "index_classify px p file_md5 =
     (if \<not> px_available px then Unknown
      else case (px_by_path px p, file_md5) of
        (None, _) \<Rightarrow> Unpackaged
      | (Some _, None) \<Rightarrow> Unknown
      | (Some expected, Some actual) \<Rightarrow> if expected = actual then PackagedIntact else PackagedModified)"

definition package_for :: "package_index \<Rightarrow> string \<Rightarrow> string option" where
  "package_for px p = (if \<not> px_available px then None else px_pkg_by_path px (path_key p))"

definition has_package :: "package_index \<Rightarrow> string \<Rightarrow> bool" where
  "has_package px n = (if \<not> px_available px \<or> n = [] then False else n \<in> set (px_pkg_names px))"

definition has_path :: "package_index \<Rightarrow> string \<Rightarrow> bool" where
  "has_path px p \<longleftrightarrow> px_available px \<and> px_by_path px (path_key p) \<noteq> None"

definition conffile_package :: "package_index \<Rightarrow> string \<Rightarrow> string option" where
  "conffile_package px p = (if \<not> px_available px then None else px_conffiles px (path_key p))"

definition newest :: "db_mtimes \<Rightarrow> int option" where
  "newest m = (case m of (Some a, Some b) \<Rightarrow> Some (max a b) | (Some a, None) \<Rightarrow> Some a | (None, b) \<Rightarrow> b)"

definition transaction_active :: "(string \<Rightarrow> db_mtimes) \<Rightarrow> int \<Rightarrow> package_index \<Rightarrow> bool" where
  "transaction_active mt now px =
     (case px_stamp px of None \<Rightarrow> False
      | Some stamp \<Rightarrow> (case newest (mt (ds_dir stamp)) of None \<Rightarrow> False
          | Some n \<Rightarrow> n \<le> now \<and> now - n \<le> TRANSACTION_WINDOW))"

definition database_moved :: "(string \<Rightarrow> db_mtimes) \<Rightarrow> package_index \<Rightarrow> bool" where
  "database_moved mt px = (case px_stamp px of None \<Rightarrow> False | Some stamp \<Rightarrow> mt (ds_dir stamp) \<noteq> ds_mtimes stamp)"

section \<open>The cache\<close>

record provenance_cache =
  pc_index :: package_index
  pc_memo :: "(path_key \<times> (bytes \<times> provenance)) list"
  pc_max_entries :: nat

definition cache_empty :: provenance_cache where
  "cache_empty = \<lparr>pc_index = index_unavailable, pc_memo = [], pc_max_entries = 8192\<rparr>"

definition cache_install :: "package_index \<Rightarrow> provenance_cache \<Rightarrow> provenance_cache" where
  "cache_install px pc = pc\<lparr>pc_index := px, pc_memo := []\<rparr>"

definition settle_provenance :: "(string \<Rightarrow> db_mtimes) \<Rightarrow> package_index \<Rightarrow> provenance \<Rightarrow> provenance" where
  "settle_provenance mt px p = (if p = PackagedModified \<and> database_moved mt px then Unknown else p)"

definition memoised :: "provenance_cache \<Rightarrow> string \<Rightarrow> bytes \<Rightarrow> provenance option" where
  "memoised pc p sha =
     (case map_of (pc_memo pc) (path_key p) of
        Some (cached_sha, prov) \<Rightarrow> if cached_sha = sha then Some prov else None | None \<Rightarrow> None)"

definition cache_classify ::
    "(string \<Rightarrow> db_mtimes) \<Rightarrow> bytes option \<Rightarrow> string \<Rightarrow> bytes \<Rightarrow> provenance_cache \<Rightarrow> provenance \<times> provenance_cache" where
  "cache_classify mt file_md5 p sha pc =
     (if \<not> px_available (pc_index pc) then (Unknown, pc)
      else case memoised pc p sha of
        Some prov \<Rightarrow> (prov, pc)
      | None \<Rightarrow>
          let prov = settle_provenance mt (pc_index pc) (index_classify (pc_index pc) (path_key p) file_md5);
              memo = (if pc_max_entries pc \<le> length (pc_memo pc) then [] else pc_memo pc)
          in (prov, pc\<lparr>pc_memo := AList.update (path_key p) (sha, prov) memo\<rparr>))"

definition housekeeping :: "(string \<Rightarrow> db_mtimes) \<Rightarrow> int \<Rightarrow> provenance_cache \<Rightarrow> string \<Rightarrow> provenance option \<Rightarrow> string option" where
  "housekeeping mt now pc p actor =
     (if (case actor of None \<Rightarrow> False | Some q \<Rightarrow> q \<noteq> PackagedIntact) then None
      else case conffile_package (pc_index pc) p of None \<Rightarrow> None
        | Some pkg \<Rightarrow>
            if \<not> transaction_active mt now (pc_index pc) then None
            else Some (''damped: a package transaction is running and this is a conffile of `'' @ pkg @
              (case actor of Some _ \<Rightarrow> ''`, touched by a binary the package manager vouches for''
               | None \<Rightarrow> ''`; the watcher sees the change without seeing who made it'')))"

section \<open>Findings and scores\<close>

text \<open>\<open>md\<close> is the owner and the mode of the file, if it could be read.\<close>

definition setid_bits :: "(u32 \<times> u32) option \<Rightarrow> (bool \<times> bool) option" where
  "setid_bits md = map_option (\<lambda>(uid, mode). (uid = 0 \<and> mode AND 0x800 \<noteq> 0, uid = 0 \<and> mode AND 0x400 \<noteq> 0)) md"

definition MODIFIED_RULE :: string where "MODIFIED_RULE = ''integrity.packaged_modified''"

definition provenance_rule_ids :: "string list" where
  "provenance_rule_ids = [MODIFIED_RULE, ''privesc.setid_packaged_modified'', ''privesc.setid_unpackaged'', ''privesc.setid_unknown_provenance'']"

definition modified_finding :: "string \<times> f32" where
  "modified_finding = (MODIFIED_RULE, Fin 1)"

definition TAMPER_RULES :: "string list" where
  "TAMPER_RULES = [MODIFIED_RULE, ''privesc.setid_packaged_modified'']"

definition is_privilege_helper :: "bool \<Rightarrow> provenance \<Rightarrow> bool" where
  "is_privilege_helper setuid prov \<longleftrightarrow> setuid \<and> prov = PackagedIntact"

definition setid_finding :: "bool \<Rightarrow> bool \<Rightarrow> provenance \<Rightarrow> (string \<times> f32) option" where
  "setid_finding setuid setgid prov =
     (if \<not> setuid \<and> \<not> setgid then None
      else case prov of
        PackagedIntact \<Rightarrow> None
      | PackagedModified \<Rightarrow> Some (''privesc.setid_packaged_modified'', Fin 1)
      | Unpackaged \<Rightarrow> Some (''privesc.setid_unpackaged'', to_f32 (95 / 100))
      | Unknown \<Rightarrow> Some (''privesc.setid_unknown_provenance'', to_f32 (6 / 10)))"

definition damp_housekeeping :: "f32 \<Rightarrow> f32" where
  "damp_housekeeping severity = f32_mul severity (to_f32 (15 / 100))"

definition adjust_score :: "f32 \<Rightarrow> provenance \<Rightarrow> f32 \<times> string" where
  "adjust_score score prov = (case prov of
       PackagedIntact \<Rightarrow> (f32_mul score (to_f32 (15 / 100)), ''damped: distro-packaged and unmodified, so a first execution says nothing'')
     | PackagedModified \<Rightarrow> (Fin 1, ''a packaged system binary no longer matches what the package installed'')
     | Unpackaged \<Rightarrow> (score, ''no package owns this path'')
     | Unknown \<Rightarrow> (score, ''provenance could not be established''))"

section \<open>What the index knows\<close>

text \<open>A line of an \<open>md5sums\<close> file lists a path if it can be run, under the name given and the one below \<open>/usr\<close>.\<close>

definition line_lists :: "path_key \<Rightarrow> string \<Rightarrow> bool" where
  "line_lists p line \<longleftrightarrow>
     (case split_two_blanks line of None \<Rightarrow> False
      | Some (digest, rel) \<Rightarrow> is_executable_path rel \<and> parse_md5 digest \<noteq> None \<and>
          (p = path_key (CHR ''/'' # rel) \<or> map_option path_key (merged_usr_alias rel) = Some p))"

definition file_lists :: "path_key \<Rightarrow> string \<times> string option \<Rightarrow> bool" where
  "file_lists p f \<longleftrightarrow> snd (rsplit_dot (fst f)) = Some ''md5sums'' \<and>
     (\<exists>txt. snd f = Some txt \<and> (\<exists>line \<in> set (lines txt). line_lists p line))"

lemma add_path_simps [simp]:
  "px_by_path (add_path pkg md5 q px) p = (if p = path_key q then Some md5 else px_by_path px p)"
  "px_available (add_path pkg md5 q px) = px_available px"
  "px_stamp (add_path pkg md5 q px) = px_stamp px"
  by (simp_all add: add_path_def)

lemma add_md5sum_known: "px_by_path (add_md5sum pkg line px) p = None \<longleftrightarrow> px_by_path px p = None \<and> \<not> line_lists p line"
  by (cases "split_two_blanks line")
    (auto simp: add_md5sum_def line_lists_def Let_def split: option.splits prod.splits if_splits)

lemma add_conffile_by_path [simp]: "px_by_path (add_conffile pkg line px) = px_by_path px"
  by (simp add: add_conffile_def split: option.split)

lemma add_line_frame [simp]:
  "px_available (add_md5sum pkg line px) = px_available px" "px_stamp (add_md5sum pkg line px) = px_stamp px"
  "px_available (add_conffile pkg line px) = px_available px" "px_stamp (add_conffile pkg line px) = px_stamp px"
  by (auto simp: add_md5sum_def add_conffile_def Let_def split: option.splits prod.splits)

lemma fold_md5sum_known:
  "px_by_path (fold (add_md5sum pkg) ls px) p = None \<longleftrightarrow> px_by_path px p = None \<and> (\<forall>line \<in> set ls. \<not> line_lists p line)"
  by (induction ls arbitrary: px) (simp_all add: add_md5sum_known)

lemma fold_line_frame [simp]:
  "px_available (fold (add_md5sum pkg) ls px) = px_available px" "px_stamp (fold (add_md5sum pkg) ls px) = px_stamp px"
  "px_available (fold (add_conffile pkg) ls px) = px_available px" "px_stamp (fold (add_conffile pkg) ls px) = px_stamp px"
  "px_by_path (fold (add_conffile pkg) ls px) = px_by_path px"
  by (induction ls arbitrary: px) simp_all

lemma add_file_frame [simp]: "px_available (add_file f px) = px_available px" "px_stamp (add_file f px) = px_stamp px"
  by (simp_all add: add_file_def Let_def split: prod.split option.split)

lemma add_file_known: "px_by_path (add_file f px) p = None \<longleftrightarrow> px_by_path px p = None \<and> \<not> file_lists p f"
proof -
  obtain name contents where f: "f = (name, contents)" by (cases f)
  obtain stem kind where k: "rsplit_dot name = (stem, kind)" by (cases "rsplit_dot name")
  show ?thesis
  proof (cases "kind = Some ''md5sums''")
    case True
    then show ?thesis
      using fold_md5sum_known [of "takeWhile (\<lambda>ch. ch \<noteq> CHR '':'') stem" _ px p] by (cases contents) (simp_all add: f k add_file_def file_lists_def Let_def)
  next
    case False
    then show ?thesis by (cases contents) (simp_all add: f k add_file_def file_lists_def Let_def)
  qed
qed

lemma fold_files_known:
  "px_by_path (fold add_file fs px) p = None \<longleftrightarrow> px_by_path px p = None \<and> (\<forall>f \<in> set fs. \<not> file_lists p f)"
  by (induction fs arbitrary: px) (simp_all add: add_file_known)

lemma fold_files_frame: "px_available (fold add_file fs px) = px_available px" "px_stamp (fold add_file fs px) = px_stamp px"
  by (induction fs arbitrary: px) simp_all

text \<open>
  The index calls a path unpackaged exactly if no package lists it. Whatever the files of the
  database hold, a path counts as owned if and only if some readable \<open>md5sums\<close> file has a well-formed
  line for it, written as the package shipped it or with the \<open>/usr\<close> of a merged system in front; and
  without a database nothing is said about any path.
\<close>

theorem unpackaged_exactly:
  "(index_classify (load_dpkg mt dir (Some fs)) p md5 = Unpackaged \<longleftrightarrow> (\<forall>f \<in> set fs. \<not> file_lists p f)) \<and>
   index_classify (load_dpkg mt dir None) p md5 = Unknown"
proof -
  let ?px = "load_dpkg mt dir (Some fs)"
  have known: "px_by_path ?px p = None \<longleftrightarrow> (\<forall>f \<in> set fs. \<not> file_lists p f)"
    by (simp add: load_dpkg_def Let_def fold_files_known) (simp add: index_unavailable_def)
  have "px_available ?px" by (simp add: load_dpkg_def Let_def fold_files_frame)
  then have "index_classify ?px p md5 = Unpackaged \<longleftrightarrow> px_by_path ?px p = None"
    by (simp add: index_classify_def split: option.split)
  moreover have "index_classify (load_dpkg mt dir None) p md5 = Unknown"
    by (simp add: load_dpkg_def Let_def index_classify_def index_unavailable_def)
  ultimately show ?thesis using known by simp
qed

theorem unpackaged_exactly_witness:
  "let fs = [(''systemd.md5sums'', Some (''00112233445566778899aabbccddeeff  lib/systemd/systemd'' @ [NL]))] in
   index_classify (load_dpkg (\<lambda>_. (None, None)) ''/var/lib/dpkg/info'' (Some fs)) (path_key ''/usr/lib/systemd/systemd'') None \<noteq> Unpackaged"
proof -
  let ?line = "''00112233445566778899aabbccddeeff  lib/systemd/systemd''"
  let ?p = "path_key ''/usr/lib/systemd/systemd''"
  have l: "lines (?line @ [NL]) = [?line]" by (rule lines_single) (simp add: plain_line_def NL_def is_white_def)
  have s: "\<not> sublist ''.so'' ''lib/systemd/systemd''" by code_simp
  have "line_lists ?p ?line"
    by (simp add: line_lists_def is_executable_path_def merged_usr_alias_def parse_md5_def hex_byte_def hex_value_def s)
  then have "file_lists ?p (''systemd.md5sums'', Some (?line @ [NL]))"
    unfolding file_lists_def fst_conv snd_conv using l by (auto simp: rsplit_dot_def)
  then show ?thesis
    using unpackaged_exactly [of "\<lambda>_. (None, None)" "''/var/lib/dpkg/info''" "[(''systemd.md5sums'', Some (?line @ [NL]))]" ?p None]
    by (simp add: Let_def)
qed

section \<open>What the cache adds\<close>

lemma cache_classify_cases:
  assumes "cache_classify mt m p sha pc = (prov, pc')" "px_available (pc_index pc)"
  obtains (hit) "map_of (pc_memo pc) (path_key p) = Some (sha, prov)" "pc' = pc"
  | (miss) memo where "prov = settle_provenance mt (pc_index pc) (index_classify (pc_index pc) (path_key p) m)"
      "pc' = pc\<lparr>pc_memo := AList.update (path_key p) (sha, prov) memo\<rparr>" "memo = [] \<or> memo = pc_memo pc"
proof (cases "memoised pc p sha")
  case None
  let ?memo = "if pc_max_entries pc \<le> length (pc_memo pc) then [] else pc_memo pc"
  from None assms have "prov = settle_provenance mt (pc_index pc) (index_classify (pc_index pc) (path_key p) m)"
    "pc' = pc\<lparr>pc_memo := AList.update (path_key p) (sha, prov) ?memo\<rparr>"
    unfolding cache_classify_def Let_def by auto
  moreover have "?memo = [] \<or> ?memo = pc_memo pc" by simp
  ultimately show ?thesis by (rule miss)
next
  case (Some q)
  with assms have "map_of (pc_memo pc) (path_key p) = Some (sha, prov)" "pc' = pc"
    by (auto simp: cache_classify_def memoised_def split: option.splits if_splits)
  then show ?thesis by (rule hit)
qed

text \<open>Calls in order: the path, the contents of the file and the state of the database at that moment.\<close>

type_synonym lookup = "string \<times> bytes \<times> (string \<Rightarrow> db_mtimes)"

fun cache_run :: "(bytes \<Rightarrow> bytes) \<Rightarrow> (bytes \<Rightarrow> bytes) \<Rightarrow> lookup list \<Rightarrow> provenance_cache \<Rightarrow> provenance list \<times> provenance_cache" where
  "cache_run sha md5 [] pc = ([], pc)"
| "cache_run sha md5 ((p, contents, mt) # qs) pc =
     (case cache_classify mt (Some (md5 contents)) p (sha contents) pc of (r, pc1) \<Rightarrow>
        case cache_run sha md5 qs pc1 of (rs, pc2) \<Rightarrow> (r # rs, pc2))"

definition memo_ok :: "(bytes \<Rightarrow> bytes) \<Rightarrow> (bytes \<Rightarrow> bytes) \<Rightarrow> bytes set \<Rightarrow> provenance_cache \<Rightarrow> bool" where
  "memo_ok sha md5 C pc \<longleftrightarrow> (\<forall>k s r. map_of (pc_memo pc) k = Some (s, r) \<longrightarrow>
     (\<exists>x \<in> C. s = sha x \<and> r = index_classify (pc_index pc) k (Some (md5 x))))"

lemma cache_classify_transparent:
  assumes run: "cache_classify mt (Some (md5 x)) p (sha x) pc = (r, pc')"
    and av: "px_available (pc_index pc)" and still: "\<not> database_moved mt (pc_index pc)"
    and inv: "memo_ok sha md5 C pc" and x: "x \<in> C" and inj: "inj_on sha C"
  shows "r = index_classify (pc_index pc) (path_key p) (Some (md5 x)) \<and> memo_ok sha md5 C pc' \<and> pc_index pc' = pc_index pc"
  using run av
proof (cases rule: cache_classify_cases)
  case hit
  with inv obtain y where y: "y \<in> C" "sha x = sha y" "r = index_classify (pc_index pc) (path_key p) (Some (md5 y))"
    unfolding memo_ok_def by blast
  from inj_onD [OF inj y(2) x y(1)] y(3) hit inv show ?thesis by simp
next
  case (miss memo)
  have r: "r = index_classify (pc_index pc) (path_key p) (Some (md5 x))" using miss(1) still by (simp add: settle_provenance_def)
  have "memo_ok sha md5 C pc'"
    unfolding memo_ok_def
  proof (intro allI impI)
    fix k s q
    assume e: "map_of (pc_memo pc') k = Some (s, q)"
    show "\<exists>z \<in> C. s = sha z \<and> q = index_classify (pc_index pc') k (Some (md5 z))"
    proof (cases "k = path_key p")
      case True
      with e miss(2) r x show ?thesis by (auto simp: update_conv')
    next
      case False
      with e miss(2,3) have "map_of (pc_memo pc) k = Some (s, q)" by (auto simp: update_conv')
      with inv miss(2) show ?thesis by (simp add: memo_ok_def)
    qed
  qed
  with r miss(2) show ?thesis by simp
qed

text \<open>
  C25. Remembering a classification changes no answer. Whatever binaries are asked about in whatever
  order and however often their contents change, as long as both digests of a call are taken of the same
  contents and the package database has not moved since the index was read, the cache answers what the
  index says of the contents at that moment. SHA-256 is assumed to tell the contents that occur apart.
\<close>

theorem cache_is_transparent:
  assumes "px_available px" "inj_on sha (set (map (fst \<circ> snd) qs))"
    and "\<forall>(_, _, mt) \<in> set qs. \<not> database_moved mt px"
  shows "fst (cache_run sha md5 qs (cache_install px cache_empty)) =
    map (\<lambda>(p, x, _). index_classify px (path_key p) (Some (md5 x))) qs"
proof -
  let ?C = "set (map (fst \<circ> snd) qs)"
  have "fst (cache_run sha md5 qs' pc) = map (\<lambda>(p, x, _). index_classify px (path_key p) (Some (md5 x))) qs'"
    if "set qs' \<subseteq> set qs" "memo_ok sha md5 ?C pc" "pc_index pc = px" for qs' pc
    using that
  proof (induction qs' arbitrary: pc)
    case (Cons q qs')
    obtain p x mt where q: "q = (p, x, mt)" by (cases q)
    obtain r pc1 where c: "cache_classify mt (Some (md5 x)) p (sha x) pc = (r, pc1)"
      by (cases "cache_classify mt (Some (md5 x)) p (sha x) pc")
    have "x \<in> ?C" "\<not> database_moved mt px" using Cons.prems(1) q assms(3) by force+
    from cache_classify_transparent [OF c _ _ Cons.prems(2) this(1) assms(2)] this(2) Cons.prems(3) assms(1)
    have t: "r = index_classify px (path_key p) (Some (md5 x))" "memo_ok sha md5 ?C pc1" "pc_index pc1 = px" by simp_all
    from Cons.IH [OF _ t(2,3)] Cons.prems(1) t(1) show ?case by (simp add: q c case_prod_beta)
  qed simp
  then show ?thesis by (simp add: cache_install_def memo_ok_def)
qed

definition demo_index :: package_index where
  "demo_index = index_unavailable\<lparr>px_by_path := [path_key ''/usr/bin/su'' \<mapsto> [1]], px_available := True\<rparr>"

theorem cache_is_transparent_witness:
  "fst (cache_run id id [(''/usr/bin/su'', [1], \<lambda>_. (None, None)), (''/usr/bin/su'', [2], \<lambda>_. (None, None)),
       (''/usr/bin/su'', [1], \<lambda>_. (None, None))] (cache_install demo_index cache_empty)) =
   [PackagedIntact, PackagedModified, PackagedIntact]"
  by (subst cache_is_transparent) (simp_all add: demo_index_def index_unavailable_def database_moved_def index_classify_def)

text \<open>
  The two digests are taken by reading the file twice, so they need not be of the same contents, and
  what the cache remembers is then wrong for good. A file that is swapped for the packaged one between
  the two reads is classified as intact under the digest of the other contents; from then on the other
  contents are intact, whatever the package says of them.
\<close>

theorem swapped_file_poisons_cache:
  assumes "px_available px" "px_by_path px (path_key p) = Some (md5 good)" "md5 evil \<noteq> md5 good"
  shows "index_classify px (path_key p) (Some (md5 evil)) = PackagedModified \<and>
    fst (cache_classify mt' (Some (md5 evil)) p (sha evil)
      (snd (cache_classify mt (Some (md5 good)) p (sha evil) (cache_install px cache_empty)))) = PackagedIntact"
  using assms by (simp add: index_classify_def cache_classify_def cache_install_def cache_empty_def settle_provenance_def memoised_def)

theorem swapped_file_poisons_cache_witness:
  "fst (cache_classify (\<lambda>_. (None, None)) (Some [9]) ''/usr/bin/su'' [9]
     (snd (cache_classify (\<lambda>_. (None, None)) (Some [1]) ''/usr/bin/su'' [9] (cache_install demo_index cache_empty)))) = PackagedIntact"
  using swapped_file_poisons_cache [of demo_index "''/usr/bin/su''" id "[1]" "[9]" "\<lambda>_. (None, None)" id "\<lambda>_. (None, None)"]
  by (simp add: demo_index_def index_unavailable_def)

text \<open>
  A verdict is remembered with the state of the database it was reached in: once the database has moved
  on, a remembered accusation is still served, where a fresh one would be withdrawn; and a file that
  could not be read once stays unknown.
\<close>

lemma remembered_accusation:
  assumes "px_available px" "px_by_path px (path_key p) = Some good" "good \<noteq> m" "\<not> database_moved mt px"
  shows "fst (cache_classify mt' (Some m) p s (snd (cache_classify mt (Some m) p s (cache_install px cache_empty)))) = PackagedModified \<and>
    (database_moved mt' px \<longrightarrow> fst (cache_classify mt' (Some m) p s (cache_install px cache_empty)) = Unknown)"
  using assms by (simp add: index_classify_def cache_classify_def cache_install_def cache_empty_def settle_provenance_def memoised_def)

lemma unreadable_once_is_remembered:
  assumes "px_available px" "px_by_path px (path_key p) = Some good"
  shows "fst (cache_classify mt' (Some good) p s (snd (cache_classify mt None p s (cache_install px cache_empty)))) = Unknown"
  using assms by (simp add: index_classify_def cache_classify_def cache_install_def cache_empty_def settle_provenance_def memoised_def)

text \<open>A file is called modified for the first time only if it differs from its package and the database has not moved.\<close>

lemma accusation_is_fresh:
  assumes "cache_classify mt m p sha pc = (PackagedModified, pc')" "map_of (pc_memo pc) (path_key p) = None"
  shows "\<not> database_moved mt (pc_index pc) \<and> (\<exists>e a. px_by_path (pc_index pc) (path_key p) = Some e \<and> m = Some a \<and> e \<noteq> a)"
  using assms by (auto simp: cache_classify_def memoised_def settle_provenance_def index_classify_def Let_def split: if_splits option.splits)

lemma housekeeping_conditions:
  assumes "housekeeping mt now pc p actor = Some why"
  shows "(actor = None \<or> actor = Some PackagedIntact) \<and> transaction_active mt now (pc_index pc) \<and>
    (\<exists>pkg. conffile_package (pc_index pc) p = Some pkg)"
  using assms by (auto simp: housekeeping_def split: option.splits if_splits)

end
