(* ===== verification/Whisper_Round.thy ===== *)
theory Whisper_Round
  imports Bloom Provenance Envelope
begin

text \<open>
  A whisper round: an agent asks its neighbours whether they have seen a binary, and counts the
  answers against a quorum. The question and its answer on the wire and the asker's checks are
  \<open>bowery-whisper/src/qa.rs\<close>; what a responder can honestly say is \<open>local_knowledge\<close> and
  \<open>program_knowledge\<close> in \<open>bowery-agent/src/whisper_qa.rs\<close> with \<open>respond_to_question\<close> in \<open>operator.rs\<close>;
  choosing the peers, reading their answers and the verdict are \<open>run_round\<close>, \<open>comparable\<close> and
  \<open>quorum_verdict\<close>.
\<close>

section \<open>Messages\<close>

record question =
  q_episode_id :: bytes
  q_tier1_fp :: bytes
  q_ttl_ms :: u64
  q_note :: string
  q_asker_platform :: string
  q_pkg :: string
  q_exe_path :: string

record answer =
  an_episode_id :: bytes
  an_tier1_fp :: bytes
  an_seen_count :: u64
  an_first_seen_unix_ms :: u64
  an_last_seen_unix_ms :: u64
  an_note :: string
  an_refused :: string
  an_platform :: string
  an_pkg_match :: bool
  an_pkg_builds :: u32
  an_path_match :: bool

text \<open>The body of a payload; the bodies the round does not use are known by their name only.\<close>

datatype body = BQuestion question | BAnswer answer | BOther string

fun kind_name :: "body \<Rightarrow> string" where
  "kind_name (BQuestion _) = ''Question''"
| "kind_name (BAnswer _) = ''Answer''"
| "kind_name (BOther n) = n"

section \<open>Asking\<close>

datatype ask_error =
    AskTimeout
  | AskEnvelope env_error
  | AskTransport
  | AskUnexpectedBody string
  | WrongFingerprint bytes
  | WrongEpisodeId
  | AskMissingBody

definition ttl_deadline_ms :: "u64 option \<Rightarrow> u64 \<Rightarrow> u64" where
  "ttl_deadline_ms now rel_ms = saturating_add (case now of None \<Rightarrow> 0 | Some ms \<Rightarrow> ms) rel_ms"

text \<open>\<open>episode\<close> is what the random generator returned.\<close>

definition build_question :: "bytes \<Rightarrow> u64 option \<Rightarrow> string \<Rightarrow> tier1 \<Rightarrow> nat \<Rightarrow> string \<Rightarrow> question" where
  "build_question episode now platform fp ttl note =
     \<lparr>q_episode_id = episode, q_tier1_fp = fp, q_ttl_ms = ttl_deadline_ms now (u64_or_max ttl), q_note = note,
      q_asker_platform = platform, q_pkg = [], q_exe_path = []\<rparr>"

definition check_answer :: "question \<Rightarrow> body option \<Rightarrow> ask_error + answer" where
  "check_answer q payload =
     (case payload of
        None \<Rightarrow> Inl AskMissingBody
      | Some (BAnswer a) \<Rightarrow>
          if an_episode_id a \<noteq> q_episode_id q then Inl WrongEpisodeId
          else if an_tier1_fp a \<noteq> q_tier1_fp q then Inl (WrongFingerprint (an_tier1_fp a))
          else Inr a
      | Some other \<Rightarrow> Inl (AskUnexpectedBody (kind_name other)))"

text \<open>What the connection gave back within the timeout.\<close>

datatype exchange = GotReply bytes | TransportFailed | TimedOut

definition ask ::
    "crypto \<Rightarrow> body option codec \<Rightarrow> ('s \<Rightarrow> fingerprint \<Rightarrow> verifying_key option) \<Rightarrow> u64 option \<Rightarrow> 's verifier
     \<Rightarrow> question \<Rightarrow> exchange \<Rightarrow> (ask_error + answer) \<times> 's verifier" where
  "ask c k resolve now v q ex =
     (case ex of
        TimedOut \<Rightarrow> (Inl AskTimeout, v)
      | TransportFailed \<Rightarrow> (Inl AskTransport, v)
      | GotReply answer_bytes \<Rightarrow>
          (case open_envelope c k resolve now v answer_bytes of
             (Inl e, v') \<Rightarrow> (Inl (AskEnvelope e), v')
           | (Inr opened, v') \<Rightarrow> (check_answer q (ve_payload opened), v')))"

section \<open>What a responder knows\<close>

record local_sighting =
  ls_seen_count :: u64
  ls_first_seen_unix_ms :: u64
  ls_last_seen_unix_ms :: u64

definition no_sighting :: local_sighting where
  "no_sighting = \<lparr>ls_seen_count = 0, ls_first_seen_unix_ms = 0, ls_last_seen_unix_ms = 0\<rparr>"

text \<open>\<open>cb_min_age\<close> and ages are in nanoseconds.\<close>

record coverage_bar =
  cb_min_binaries :: u64
  cb_min_age :: nat

datatype local_knowledge = KnowsObserved local_sighting | KnowsInsufficient nat nat

definition sys_millis :: "nat \<Rightarrow> u64" where
  "sys_millis t = (if t div 1000000 < 2 ^ 64 then word_of_nat (t div 1000000) else 0)"

definition oldest_first_seen :: "binary_record list \<Rightarrow> nat option" where
  "oldest_first_seen recs = foldl (\<lambda>old rec. Some (case old of
       Some prev \<Rightarrow> if prev \<le> br_first_seen rec then prev else br_first_seen rec
     | None \<Rightarrow> br_first_seen rec)) None recs"

definition baseline_age :: "int \<Rightarrow> binary_record list \<Rightarrow> nat" where
  "baseline_age now recs =
     (case oldest_first_seen recs of
        None \<Rightarrow> 0
      | Some t \<Rightarrow> if int t \<le> now then nat (now - int t) else 0)"

definition local_knowledge :: "crypto \<Rightarrow> baseline_scan \<Rightarrow> tier1 \<Rightarrow> coverage_bar \<Rightarrow> int \<Rightarrow> local_knowledge" where
  "local_knowledge c scan target bar now =
     (let recs = visited scan;
          hits = filter (\<lambda>rec. derive c (br_sha256 rec) = target) recs;
          age = baseline_age now recs in
      if hits = [] \<and> (length recs < unat (cb_min_binaries bar) \<or> age < cb_min_age bar)
      then KnowsInsufficient (length recs) age
      else if hits = [] then KnowsObserved no_sighting
      else KnowsObserved \<lparr>
        ls_seen_count = foldl saturating_add 0 (map br_seen_count hits),
        ls_first_seen_unix_ms = foldl min (- 1) (map (\<lambda>rec. sys_millis (br_first_seen rec)) hits),
        ls_last_seen_unix_ms = foldl max 0 (map (\<lambda>rec. sys_millis (br_last_seen rec)) hits)\<rparr>)"

record program_knowledge =
  pk_pkg_match :: bool
  pk_pkg_builds :: u32
  pk_path_match :: bool

definition program_knowledge ::
    "bool \<Rightarrow> bool \<Rightarrow> baseline \<Rightarrow> package_index \<Rightarrow> string \<Rightarrow> string \<Rightarrow> program_knowledge" where
  "program_knowledge pkg_fails path_fails db px pkg exe_path =
     (let hashes = (if pkg = [] then [] else
            case hashes_for_package pkg_fails db pkg 64 of None \<Rightarrow> [] | Some h \<Rightarrow> h) in
      \<lparr>pk_pkg_match = (hashes \<noteq> [] \<or> pkg \<noteq> [] \<and> has_package px pkg),
       pk_pkg_builds = u32_or_max (length hashes),
       pk_path_match = (exe_path \<noteq> [] \<and>
         ((case hashes_for_path path_fails db exe_path 8 of None \<Rightarrow> False | Some h \<Rightarrow> h \<noteq> []) \<or>
          has_path px exe_path))\<rparr>)"

text \<open>What can go wrong while a responder looks: the scan task panics, or a query fails.\<close>

record lookup_faults =
  lf_panics :: bool
  lf_stop :: "nat option"
  lf_pkg_fails :: bool
  lf_path_fails :: bool

definition refusal :: "nat \<Rightarrow> nat \<Rightarrow> string" where
  "refusal binaries age = ''observed '' @ dec binaries @ '' binaries over '' @
     dec (age div 1000000000 div 3600) @ ''h; too little to say whether this is rare''"

definition respond_to_question ::
    "crypto \<Rightarrow> lookup_faults \<Rightarrow> baseline \<Rightarrow> package_index \<Rightarrow> coverage_bar \<Rightarrow> string \<Rightarrow> u64 option \<Rightarrow> int
     \<Rightarrow> question \<Rightarrow> answer option" where
  "respond_to_question c fl db px bar platform now_ms now q =
     (if length (q_tier1_fp q) \<noteq> TIER1_LEN then None
      else if q_ttl_ms q < (case now_ms of None \<Rightarrow> - 1 | Some ms \<Rightarrow> ms) then None
      else if lf_panics fl then None
      else let p = program_knowledge (lf_pkg_fails fl) (lf_path_fails fl) db px (q_pkg q) (q_exe_path q) in
        Some (case local_knowledge c (for_each_binary db (lf_stop fl)) (q_tier1_fp q) bar now of
          KnowsObserved s \<Rightarrow>
            \<lparr>an_episode_id = q_episode_id q, an_tier1_fp = q_tier1_fp q, an_seen_count = ls_seen_count s,
             an_first_seen_unix_ms = ls_first_seen_unix_ms s, an_last_seen_unix_ms = ls_last_seen_unix_ms s,
             an_note = [], an_refused = [], an_platform = platform, an_pkg_match = pk_pkg_match p,
             an_pkg_builds = pk_pkg_builds p, an_path_match = pk_path_match p\<rparr>
        | KnowsInsufficient binaries age \<Rightarrow>
            \<lparr>an_episode_id = q_episode_id q, an_tier1_fp = q_tier1_fp q, an_seen_count = 0,
             an_first_seen_unix_ms = 0, an_last_seen_unix_ms = 0, an_note = [],
             an_refused = refusal binaries age, an_platform = platform, an_pkg_match = False,
             an_pkg_builds = 0, an_path_match = False\<rparr>))"

section \<open>Choosing the peers\<close>

text \<open>
  \<open>similarity\<close> stands for the role vectors: what the comparison of a published vector with the local
  one gives, or \<open>None\<close> if the vector does not decode.
\<close>

definition round_candidates ::
    "known_neighbors \<Rightarrow> fingerprint \<Rightarrow> (string \<Rightarrow> f32 option) \<Rightarrow> peer_info list \<Rightarrow> (peer_info \<times> f32) list" where
  "round_candidates kn local_fp similarity mesh_peers =
     List.map_filter (\<lambda>peer.
       if pi_fingerprint peer = local_fp then None
       else if pi_fingerprint peer \<notin> set (kn_fingerprints kn) then None
       else (case pi_role_vector peer of
               None \<Rightarrow> None
             | Some rv \<Rightarrow> map_option (\<lambda>s. (peer, s)) (similarity rv))) mesh_peers"

fun rank_insert :: "'a \<times> f32 \<Rightarrow> ('a \<times> f32) list \<Rightarrow> ('a \<times> f32) list" where
  "rank_insert x [] = [x]"
| "rank_insert x (y # ys) = (if f32_less (snd y) (snd x) then x # y # ys else y # rank_insert x ys)"

definition rank_by_similarity :: "('a \<times> f32) list \<Rightarrow> nat \<Rightarrow> f32 \<Rightarrow> ('a \<times> f32) list" where
  "rank_by_similarity scored top_k min_similarity =
     take top_k (foldl (\<lambda>acc x. rank_insert x acc) []
       (filter (\<lambda>(_, s). s \<noteq> NaN \<and> \<not> f32_less s min_similarity) scored))"

record qa_config =
  qc_fanout :: nat
  qc_min_similarity :: f32
  qc_quorum :: nat

definition peers_to_ask ::
    "crypto \<Rightarrow> advert_codec \<Rightarrow> qa_config \<Rightarrow> known_neighbors \<Rightarrow> fingerprint \<Rightarrow> (string \<Rightarrow> f32 option)
     \<Rightarrow> tier1 \<Rightarrow> peer_info list \<Rightarrow> (peer_info \<times> f32) list" where
  "peers_to_ask c ac cfg kn local_fp similarity fp mesh_peers =
     (let ranked = rank_by_similarity (round_candidates kn local_fp similarity mesh_peers)
            (qc_fanout cfg) (qc_min_similarity cfg) in
      if 0 < qc_quorum cfg then ranked
      else filter (\<lambda>(peer, _). \<not> bloom_says_definitely_no c ac peer fp) ranked)"

section \<open>Reading the answers\<close>

datatype peer_reply =
    Observed local_sighting
  | Refused string
  | Incomparable string
  | Familiar u32 bool
  | Silent

record peer_sighting =
  ps_peer :: fingerprint
  ps_similarity :: f32
  ps_reply :: peer_reply
  ps_note :: string

definition comparable :: "string \<Rightarrow> string \<Rightarrow> bool" where
  "comparable asker peer \<longleftrightarrow> asker \<noteq> [] \<and> peer \<noteq> [] \<and> asker = peer"

definition read_outcome :: "string \<Rightarrow> ask_error + answer \<Rightarrow> peer_reply \<times> string" where
  "read_outcome asker_platform outcome =
     (case outcome of
        Inl _ \<Rightarrow> (Silent, [])
      | Inr a \<Rightarrow>
          if an_refused a \<noteq> [] then (Refused (an_refused a), an_note a)
          else if 0 < an_seen_count a
          then (Observed \<lparr>ls_seen_count = an_seen_count a, ls_first_seen_unix_ms = an_first_seen_unix_ms a,
                  ls_last_seen_unix_ms = an_last_seen_unix_ms a\<rparr>, an_note a)
          else if an_pkg_match a \<or> an_path_match a
          then (Familiar (an_pkg_builds a) (\<not> an_pkg_match a), an_note a)
          else if \<not> comparable asker_platform (an_platform a)
          then (Incomparable (if an_platform a = [] then ''unknown'' else an_platform a), an_note a)
          else (Observed \<lparr>ls_seen_count = 0, ls_first_seen_unix_ms = an_first_seen_unix_ms a,
                  ls_last_seen_unix_ms = an_last_seen_unix_ms a\<rparr>, an_note a))"

record whisper_context =
  wc_episode_id :: string
  wc_tier1_fp :: tier1
  wc_peers :: "peer_sighting list"
  wc_total_seen_count :: u64
  wc_corroborating_peers :: nat

text \<open>
  The round with the peers asked and what came of each, in the order asked. With no candidate the
  code takes a shortcut to the same context.
\<close>

definition round_context ::
    "string \<Rightarrow> string \<Rightarrow> tier1 \<Rightarrow> (peer_info \<times> f32 \<times> (ask_error + answer)) list \<Rightarrow> whisper_context" where
  "round_context episode asker_platform fp results =
     (let positive = List.map_filter (\<lambda>(_, _, out).
            case fst (read_outcome asker_platform out) of
              Observed s \<Rightarrow> if 0 < ls_seen_count s then Some (ls_seen_count s) else None
            | _ \<Rightarrow> None) results in
      \<lparr>wc_episode_id = episode, wc_tier1_fp = fp,
       wc_peers = map (\<lambda>(peer, sim, out). \<lparr>ps_peer = pi_fingerprint peer, ps_similarity = sim,
          ps_reply = fst (read_outcome asker_platform out), ps_note = snd (read_outcome asker_platform out)\<rparr>) results,
       wc_total_seen_count = foldl saturating_add 0 positive,
       wc_corroborating_peers = length positive\<rparr>)"

section \<open>The verdict\<close>

record alert_confirmation =
  peers_asked :: u32
  peers_unseen :: u32
  peers_seen :: u32
  peers_no_reply :: u32
  peers_refused :: u32
  peers_incomparable :: u32
  peers_familiar :: u32
  ac_quorum :: u32
  confirmed :: bool

definition ac_comparable :: "alert_confirmation \<Rightarrow> u32" where
  "ac_comparable v = saturating_add (saturating_add (peers_unseen v) (peers_seen v)) (peers_familiar v)"

definition ac_recognised :: "alert_confirmation \<Rightarrow> u32" where
  "ac_recognised v = saturating_add (peers_seen v) (peers_familiar v)"

fun tally :: "alert_confirmation \<Rightarrow> peer_reply \<Rightarrow> alert_confirmation" where
  "tally t (Observed s) = (if 0 < ls_seen_count s then t\<lparr>peers_seen := peers_seen t + 1\<rparr>
     else t\<lparr>peers_unseen := peers_unseen t + 1\<rparr>)"
| "tally t (Refused _) = t\<lparr>peers_refused := peers_refused t + 1\<rparr>"
| "tally t (Incomparable _) = t\<lparr>peers_incomparable := peers_incomparable t + 1\<rparr>"
| "tally t (Familiar _ _) = t\<lparr>peers_familiar := peers_familiar t + 1\<rparr>"
| "tally t Silent = t\<lparr>peers_no_reply := peers_no_reply t + 1\<rparr>"

definition quorum_verdict :: "peer_sighting list \<Rightarrow> nat \<Rightarrow> alert_confirmation" where
  "quorum_verdict ps quorum =
     (let quorum_u32 = u32_or_max quorum;
          t = foldl tally \<lparr>peers_asked = u32_or_max (length ps), peers_unseen = 0, peers_seen = 0,
                peers_no_reply = 0, peers_refused = 0, peers_incomparable = 0, peers_familiar = 0,
                ac_quorum = quorum_u32, confirmed = False\<rparr> (map ps_reply ps)
      in t\<lparr>confirmed := (0 < quorum \<and> quorum_u32 \<le> peers_unseen t)\<rparr>)"

definition nothing_comparable :: "alert_confirmation \<Rightarrow> bool" where
  "nothing_comparable v \<longleftrightarrow> ac_comparable v = 0 \<and> 0 < peers_incomparable v"


section \<open>Counting\<close>

text \<open>The six kinds of reply; every reply is of exactly one.\<close>

fun is_unseen :: "peer_reply \<Rightarrow> bool" where
  "is_unseen (Observed s) \<longleftrightarrow> ls_seen_count s = 0"
| "is_unseen _ \<longleftrightarrow> False"

fun is_seen :: "peer_reply \<Rightarrow> bool" where
  "is_seen (Observed s) \<longleftrightarrow> ls_seen_count s \<noteq> 0"
| "is_seen _ \<longleftrightarrow> False"

fun is_familiar :: "peer_reply \<Rightarrow> bool" where
  "is_familiar (Familiar _ _) \<longleftrightarrow> True"
| "is_familiar _ \<longleftrightarrow> False"

lemma tally_counts:
  "peers_unseen (foldl tally t rs) = peers_unseen t + word_of_nat (length (filter is_unseen rs)) \<and>
   peers_seen (foldl tally t rs) = peers_seen t + word_of_nat (length (filter is_seen rs)) \<and>
   peers_familiar (foldl tally t rs) = peers_familiar t + word_of_nat (length (filter is_familiar rs)) \<and>
   peers_asked (foldl tally t rs) = peers_asked t"
proof (induction rs arbitrary: t)
  case (Cons r rs)
  show ?case by (cases r) (simp_all add: Cons word_gt_0)
qed simp

definition tally_total :: "alert_confirmation \<Rightarrow> u32" where
  "tally_total t = peers_unseen t + peers_seen t + peers_no_reply t + peers_refused t + peers_incomparable t +
     peers_familiar t"

lemma tally_partition: "tally_total (foldl tally t rs) = tally_total t + word_of_nat (length rs)"
proof (induction rs arbitrary: t)
  case (Cons r rs)
  have "tally_total (tally t r) = tally_total t + 1" by (cases r) (simp_all add: tally_total_def)
  with Cons show ?case by simp
qed simp

definition is_denial :: "string \<Rightarrow> ask_error + answer \<Rightarrow> bool" where
  "is_denial asker_platform out =
     (case out of Inl _ \<Rightarrow> False
      | Inr a \<Rightarrow> an_refused a = [] \<and> an_seen_count a = 0 \<and> \<not> an_pkg_match a \<and> \<not> an_path_match a \<and>
          an_platform a = asker_platform \<and> asker_platform \<noteq> [])"

lemma unseen_is_denial: "is_unseen (fst (read_outcome plat out)) \<longleftrightarrow> is_denial plat out"
  by (cases out) (auto simp: read_outcome_def is_denial_def comparable_def word_gt_0)

lemma replies_of_context:
  "map ps_reply (wc_peers (round_context ep plat fp results)) = map (\<lambda>(_, _, out). fst (read_outcome plat out)) results"
  by (simp add: round_context_def Let_def case_prod_unfold)

lemma u32_or_max_le:
  assumes "n < 2 ^ 32 - 1"
  shows "u32_or_max q \<le> word_of_nat n \<longleftrightarrow> q \<le> n"
proof -
  have n: "unat (word_of_nat n :: u32) = n" using assms by (simp add: unat_of_nat take_bit_nat_eq_self)
  have m: "unat (- 1 :: u32) = 2 ^ 32 - 1" by (simp add: unsigned_minus_1_eq_mask mask_eq_exp_minus_1)
  show ?thesis
  proof (cases "q < 2 ^ 32")
    case True
    then show ?thesis using n unat_u32_or_max [OF True] by (simp add: word_le_nat_alt)
  next
    case False
    then have "u32_or_max q = - 1" by (simp add: u32_or_max_def)
    with n m assms False show ?thesis by (simp add: word_le_nat_alt)
  qed
qed

section \<open>Honest answers\<close>

lemma saturating_add_eq_0 [simp]: "saturating_add (a :: 'a::len word) b = 0 \<longleftrightarrow> a = 0 \<and> b = 0"
proof (cases "unat a + unat b < 2 ^ LENGTH('a)")
  case True
  then have "unat (a + b) = unat a + unat b" by (simp add: unat_word_ariths(1))
  then have "a + b = 0 \<longleftrightarrow> unat a + unat b = 0" by (metis unat_eq_0)
  with True show ?thesis by (simp add: saturating_add_def unat_eq_0)
qed (auto simp: saturating_add_def)

lemma foldl_saturating_eq_0:
  "foldl saturating_add (a :: u64) xs = 0 \<longleftrightarrow> a = 0 \<and> (\<forall>x \<in> set xs. x = 0)"
  by (induction xs arbitrary: a) auto

lemma row_counts_positive:
  "r \<in> set (t_binaries (foldl baseline_step open_in_memory as)) \<Longrightarrow>
   0 < cr_seen_count r \<and> cr_seen_count r \<le> length as"
proof (induction as arbitrary: r rule: rev_induct)
  case Nil
  then show ?case by (simp add: open_in_memory_def)
next
  case (snoc a as)
  let ?db = "foldl baseline_step open_in_memory as"
  show ?case
  proof (cases "binary_seen a")
    case None
    then show ?thesis using snoc by (fastforce simp: step_binaries)
  next
    case (Some x)
    obtain sha t where x: "x = (sha, t)" by fastforce
    from snoc.prems Some x have r: "r \<in> set (snd (upsert_row sha () t (t_binaries ?db)))"
      by (simp add: step_binaries)
    show ?thesis
    proof (cases "find_row sha (t_binaries ?db)")
      case None
      with r snoc.IH show ?thesis by (fastforce simp: upsert_row_def)
    next
      case (Some p)
      with r obtain r0 where "r0 \<in> set (t_binaries ?db)" "cr_seen_count r \<le> cr_seen_count r0 + 1"
        "cr_seen_count r0 \<le> cr_seen_count r"
        by (fastforce simp: upsert_row_def split: if_splits)
      with snoc.IH [of r0] show ?thesis by simp
    qed
  qed
qed

lemma seen_has_row:
  assumes "seen_times binary_seen as sha \<noteq> []"
  shows "\<exists>r \<in> set (t_binaries (foldl baseline_step open_in_memory as)). cr_key r = sha"
proof -
  have "look_row (t_binaries (foldl baseline_step open_in_memory as)) sha \<noteq> None"
    using assms by (simp add: history_binaries summarise_def)
  then show ?thesis by (auto simp: look_row_def find_row_def find_Some_iff)
qed

lemma refusal_nonempty [simp]: "refusal n age \<noteq> []"
  by (simp add: refusal_def)

lemma local_knowledge_zero:
  assumes "local_knowledge c scan target bar now = KnowsObserved s" "ls_seen_count s = 0"
    and pos: "\<forall>rec \<in> set (visited scan). br_seen_count rec \<noteq> 0"
  shows "unat (cb_min_binaries bar) \<le> length (visited scan) \<and> cb_min_age bar \<le> baseline_age now (visited scan) \<and>
    (\<forall>rec \<in> set (visited scan). derive c (br_sha256 rec) \<noteq> target)"
proof (cases "filter (\<lambda>rec. derive c (br_sha256 rec) = target) (visited scan) = []")
  case True
  with assms(1) show ?thesis
    by (auto simp: local_knowledge_def Let_def filter_empty_conv split: if_splits)
next
  case False
  then obtain rec where "rec \<in> set (visited scan)" "derive c (br_sha256 rec) = target"
    by (auto simp: filter_empty_conv)
  with False assms show ?thesis
    by (force simp: local_knowledge_def Let_def foldl_saturating_eq_0)
qed

section \<open>Properties\<close>

lemma verdict_counts:
  assumes "length results < 2 ^ 32 - 1"
  shows "let v = quorum_verdict (wc_peers (round_context ep plat fp results)) quorum in
    (confirmed v \<longleftrightarrow> 0 < quorum \<and> quorum \<le> length (filter (\<lambda>(_, _, out). is_denial plat out) results)) \<and>
    unat (peers_unseen v) = length (filter (\<lambda>(_, _, out). is_denial plat out) results) \<and>
    tally_total v = peers_asked v \<and> unat (peers_asked v) = length results"
proof -
  define rs where "rs = map (\<lambda>(_, _, out). fst (read_outcome plat out)) results"
  let ?n = "length (filter (\<lambda>(_, _, out). is_denial plat out) results)"
  have den: "length (filter is_unseen rs) = ?n" and lrs: "length rs = length results"
    by (simp_all add: rs_def filter_map comp_def case_prod_unfold unseen_is_denial)
  have n: "?n < 2 ^ 32 - 1" using assms length_filter_le [of _ results] by (rule le_less_trans [rotated])
  have len: "length (wc_peers (round_context ep plat fp results)) = length results"
    by (simp add: round_context_def Let_def)
  have un: "unat (word_of_nat ?n :: u32) = ?n" using n by (simp add: unat_of_nat take_bit_nat_eq_self)
  have total: "tally_total (r\<lparr>confirmed := b\<rparr>) = tally_total r" for r b by (simp add: tally_total_def)
  have asked: "u32_or_max (length results) = word_of_nat (length results)"
    "unat (u32_or_max (length results)) = length results"
    using assms unat_u32_or_max [of "length results"] by (simp_all add: u32_or_max_def)
  show ?thesis
    unfolding quorum_verdict_def replies_of_context len Let_def total rs_def [symmetric]
    using un asked by (simp add: tally_counts tally_partition den lrs u32_or_max_le [OF n]) (simp add: tally_total_def)
qed

lemma confirmed_by_denials:
  "length results < 2 ^ 32 - 1 \<Longrightarrow>
   confirmed (quorum_verdict (wc_peers (round_context ep plat fp results)) quorum) \<longleftrightarrow>
   0 < quorum \<and> quorum \<le> length (filter (\<lambda>(_, _, out). is_denial plat out) results)"
  using verdict_counts [of results ep plat fp quorum] by (simp add: Let_def)

text \<open>
  C10. What confirms an alert. Count, among the peers asked in a round, those whose answer is a denial:
  it verified, was not declined, reports no sighting, recognises neither the package nor the path, and
  comes from the asker's own platform. The alert is confirmed exactly if confirmation is enabled and
  there are at least as many denials as the quorum demands. Refusals, timeouts, transport errors,
  other platforms and familiar programs never count towards it, and every peer asked is in exactly one
  of the six counts.
\<close>

theorem confirmed_exactly_by_denials:
  assumes "length results < 2 ^ 32 - 1"
  shows "let v = quorum_verdict (wc_peers (round_context ep plat fp results)) quorum in
    (confirmed v \<longleftrightarrow> 0 < quorum \<and> quorum \<le> length (filter (\<lambda>(_, _, out). is_denial plat out) results)) \<and>
    unat (peers_unseen v) = length (filter (\<lambda>(_, _, out). is_denial plat out) results) \<and>
    tally_total v = peers_asked v \<and> unat (peers_asked v) = length results"
  using assms by (rule verdict_counts)

definition demo_denial :: answer where
  "demo_denial = \<lparr>an_episode_id = [1], an_tier1_fp = replicate 8 0, an_seen_count = 0,
     an_first_seen_unix_ms = 0, an_last_seen_unix_ms = 0, an_note = [], an_refused = [],
     an_platform = ''x86_64/linux'', an_pkg_match = False, an_pkg_builds = 0, an_path_match = False\<rparr>"

theorem confirmed_exactly_by_denials_witness:
  "let p = demo_peer demo_vk;
       results = [(p, Fin 1, Inr demo_denial), (p, Fin 1, Inl AskTimeout),
         (p, Fin 1, Inr (demo_denial\<lparr>an_platform := ''aarch64/linux''\<rparr>)),
         (p, Fin 1, Inr (demo_denial\<lparr>an_refused := ''no''\<rparr>))] in
   \<not> confirmed (quorum_verdict (wc_peers (round_context ''e'' ''x86_64/linux'' [] results)) 2) \<and>
   confirmed (quorum_verdict (wc_peers (round_context ''e'' ''x86_64/linux'' [] results)) 1)"
proof -
  let ?p = "demo_peer demo_vk"
  let ?rs = "[(?p, Fin 1, Inr demo_denial), (?p, Fin 1, Inl AskTimeout),
         (?p, Fin 1, Inr (demo_denial\<lparr>an_platform := ''aarch64/linux''\<rparr>)),
         (?p, Fin 1, Inr (demo_denial\<lparr>an_refused := ''no''\<rparr>))]"
  have "length (filter (\<lambda>(_, _, out). is_denial ''x86_64/linux'' out) ?rs) = 1"
    by (simp add: is_denial_def demo_denial_def)
  moreover have "length ?rs < 2 ^ 32 - 1" by simp
  ultimately show ?thesis
    using confirmed_exactly_by_denials [of ?rs "''e''" "''x86_64/linux''" "[]" 1]
      confirmed_exactly_by_denials [of ?rs "''e''" "''x86_64/linux''" "[]" 2]
    unfolding Let_def by presburger
qed

text \<open>
  C11. A denial is honest evidence. A responder keeps its baseline by any sequence of operations, and
  its scan does not fail. If its answer counts as a denial on the asker's side, then the two run on
  the same platform, the responder has seen at least as many binaries, and for at least as long, as
  its coverage bar demands, and it never recorded any binary whose fingerprint is the one asked about.
  A host that observed nothing, or too little, cannot help to confirm an alert.
\<close>

theorem no_blind_witness:
  assumes resp: "respond_to_question c fl db px bar plat now_ms now q = Some a"
    and den: "is_denial asker (Inr a)"
    and db: "db = foldl baseline_step open_in_memory as" "length as < 2 ^ 63" and scan: "lf_stop fl = None"
  shows "asker = plat \<and> unat (cb_min_binaries bar) \<le> count_binaries db \<and>
    cb_min_age bar \<le> baseline_age now (map binary_record_of (t_binaries db)) \<and>
    (\<forall>sha. length sha = 32 \<and> derive c sha = q_tier1_fp q \<longrightarrow> seen_times binary_seen as sha = [])"
proof -
  have sc: "visited (for_each_binary db (lf_stop fl)) = map binary_record_of (t_binaries db)"
    by (simp add: for_each_binary_def scan)
  from resp den obtain s where s: "local_knowledge c (for_each_binary db (lf_stop fl)) (q_tier1_fp q) bar now
      = KnowsObserved s" and zero: "ls_seen_count s = 0" and plat: "asker = plat"
    by (auto simp: respond_to_question_def Let_def is_denial_def split: if_splits local_knowledge.splits)
  have "(word_of_nat (cr_seen_count r) :: u64) \<noteq> 0" if "r \<in> set (t_binaries db)" for r
  proof -
    have "0 < cr_seen_count r" "cr_seen_count r < 2 ^ 64"
      using row_counts_positive [of r as] that db by simp_all
    then have "unat (word_of_nat (cr_seen_count r) :: u64) = cr_seen_count r"
      by (simp add: unat_of_nat take_bit_nat_eq_self)
    with \<open>0 < cr_seen_count r\<close> show ?thesis by (metis less_irrefl unat_0)
  qed
  then have "\<forall>rec \<in> set (visited (for_each_binary db (lf_stop fl))). br_seen_count rec \<noteq> 0"
    unfolding sc by (auto simp: binary_record_of_def)
  note k = local_knowledge_zero [OF s zero this, unfolded sc]
  have "seen_times binary_seen as sha = []" if "length sha = 32" "derive c sha = q_tier1_fp q" for sha
  proof (rule ccontr)
    assume "seen_times binary_seen as sha \<noteq> []"
    then obtain r where "r \<in> set (t_binaries db)" "cr_key r = sha" using seen_has_row db(1) by blast
    with k that show False by (auto simp: binary_record_of_def)
  qed
  with k plat show ?thesis by (auto simp: count_binaries_def)
qed

definition demo_faults :: lookup_faults where
  "demo_faults = \<lparr>lf_panics = False, lf_stop = None, lf_pkg_fails = False, lf_path_fails = False\<rparr>"

definition demo_question :: question where
  "demo_question = \<lparr>q_episode_id = [1], q_tier1_fp = replicate 8 0, q_ttl_ms = 100, q_note = [],
     q_asker_platform = ''x86_64/linux'', q_pkg = [], q_exe_path = []\<rparr>"

definition empty_index :: package_index where
  "empty_index = index_unavailable"

definition demo_row :: "u8 \<Rightarrow> (bytes, unit) counted_row" where
  "demo_row b = \<lparr>cr_key = replicate 32 b, cr_data = (), cr_first_seen = 0, cr_last_seen = 0, cr_seen_count = 1\<rparr>"

definition demo_observe :: "u8 \<Rightarrow> baseline_op" where
  "demo_observe b = OpBinary False (replicate 32 b) (Some 0)"

lemma demo_baseline:
  "t_binaries (foldl baseline_step open_in_memory [demo_observe 1]) = [demo_row 1]"
  "t_binaries (foldl baseline_step open_in_memory [demo_observe 1, demo_observe 2]) = [demo_row 1, demo_row 2]"
  by (simp_all add: demo_observe_def demo_row_def upsert_binary_def upsert_row_def find_row_def
      open_in_memory_def system_time_to_secs_def)

text \<open>What a scan that saw one row, of another binary, makes a responder say.\<close>

lemma demo_response:
  assumes "visited (for_each_binary db (lf_stop fl)) = [binary_record_of (demo_row b)]"
    and "derive c (replicate 32 b) \<noteq> q_tier1_fp q" "length (q_tier1_fp q) = 8"
    and "q = demo_question\<lparr>q_tier1_fp := fp\<rparr>" "lf_panics fl = False"
  shows "respond_to_question c fl db empty_index \<lparr>cb_min_binaries = 1, cb_min_age = 5\<rparr> ''x86_64/linux'' (Some 9) 7 q
    = Some (demo_denial\<lparr>an_tier1_fp := fp\<rparr>)"
proof -
  have rec: "binary_record_of (demo_row b) = \<lparr>br_sha256 = replicate 32 b, br_first_seen = 0, br_last_seen = 0,
      br_seen_count = 1\<rparr>"
    by (simp add: binary_record_of_def demo_row_def secs_to_system_time_def)
  have "local_knowledge c (for_each_binary db (lf_stop fl)) (q_tier1_fp q) \<lparr>cb_min_binaries = 1, cb_min_age = 5\<rparr> 7
      = KnowsObserved no_sighting"
    using assms(1,2) unfolding rec
    by (simp add: local_knowledge_def Let_def baseline_age_def oldest_first_seen_def)
  with assms(3-5) show ?thesis
    by (simp add: respond_to_question_def demo_question_def demo_denial_def no_sighting_def TIER1_LEN_def
        program_knowledge_def u32_or_max_def Let_def)
qed

theorem no_blind_witness_witness:
  "let as = [demo_observe 1] in
   respond_to_question demo_crypto demo_faults (foldl baseline_step open_in_memory as) empty_index
     \<lparr>cb_min_binaries = 1, cb_min_age = 5\<rparr> ''x86_64/linux'' (Some 9) 7 demo_question = Some demo_denial \<and>
   (\<forall>sha. length sha = 32 \<and> derive demo_crypto sha = replicate 8 0 \<longrightarrow> seen_times binary_seen as sha = [])"
proof -
  let ?as = "[demo_observe 1]"
  have "derive demo_crypto (replicate 32 1) \<noteq> replicate 8 0" by code_simp
  then have r: "respond_to_question demo_crypto demo_faults (foldl baseline_step open_in_memory ?as) empty_index
     \<lparr>cb_min_binaries = 1, cb_min_age = 5\<rparr> ''x86_64/linux'' (Some 9) 7 demo_question = Some demo_denial"
    by (subst demo_response [where b = 1 and fp = "replicate 8 0"])
      (simp_all add: for_each_binary_def demo_baseline demo_faults_def demo_question_def demo_denial_def
        del: foldl_Cons)
  have d: "is_denial ''x86_64/linux'' (Inr demo_denial)" by (simp add: is_denial_def demo_denial_def)
  have "length ?as < 2 ^ 63" "lf_stop demo_faults = None" by (simp_all add: demo_faults_def)
  from no_blind_witness [OF r d refl this] r show ?thesis unfolding Let_def by (simp add: demo_question_def)
qed

definition tail_crypto :: crypto where
  "tail_crypto = demo_crypto\<lparr>sha256 := (\<lambda>m. pad 32 (rev m))\<rparr>"

text \<open>
  A scan that fails still denies. The responder drops the result of the scan and answers from the
  rows it reached: a host that recorded the binary, but whose scan stops before that row, gives an
  answer that counts as a denial.
\<close>

theorem failed_scan_denies:
  "let as = [demo_observe 1, demo_observe 2];
       q = demo_question\<lparr>q_tier1_fp := derive tail_crypto (replicate 32 2)\<rparr> in
   \<exists>a. respond_to_question tail_crypto (demo_faults\<lparr>lf_stop := Some 1\<rparr>) (foldl baseline_step open_in_memory as)
       empty_index \<lparr>cb_min_binaries = 1, cb_min_age = 5\<rparr> ''x86_64/linux'' (Some 9) 7 q = Some a \<and>
     is_denial ''x86_64/linux'' (Inr a) \<and> seen_times binary_seen as (replicate 32 2) \<noteq> []"
proof -
  have d: "derive tail_crypto (replicate 32 1) \<noteq> derive tail_crypto (replicate 32 2)"
    "length (derive tail_crypto (replicate 32 2)) = 8" by code_simp+
  have "visited (for_each_binary (foldl baseline_step open_in_memory [demo_observe 1, demo_observe 2]) (Some 1))
      = [binary_record_of (demo_row 1)]"
    unfolding for_each_binary_def demo_baseline by simp
  with d have "respond_to_question tail_crypto (demo_faults\<lparr>lf_stop := Some 1\<rparr>)
      (foldl baseline_step open_in_memory [demo_observe 1, demo_observe 2])
      empty_index \<lparr>cb_min_binaries = 1, cb_min_age = 5\<rparr> ''x86_64/linux'' (Some 9) 7
      (demo_question\<lparr>q_tier1_fp := derive tail_crypto (replicate 32 2)\<rparr>)
      = Some (demo_denial\<lparr>an_tier1_fp := derive tail_crypto (replicate 32 2)\<rparr>)"
    by (intro demo_response [where b = 1]) (simp_all add: demo_faults_def del: foldl_Cons)
  moreover have "is_denial ''x86_64/linux'' (Inr (demo_denial\<lparr>an_tier1_fp := x\<rparr>))" for x
    by (simp add: is_denial_def demo_denial_def)
  moreover have "seen_times binary_seen [demo_observe 1, demo_observe 2] (replicate 32 2) \<noteq> []"
    by (simp add: seen_times_def demo_observe_def List.map_filter_def)
  ultimately show ?thesis unfolding Let_def by blast
qed

definition demo_ranked_node :: "string \<times> node_state" where
  "demo_ranked_node = (fst (demo_node demo_vk), (snd (demo_node demo_vk))(KEY_ROLE_VECTOR \<mapsto> ''r''))"

text \<open>
  One host can be a quorum. The gossip state is keyed by node, generation and address, and a host
  that restarts, or publishes itself twice, has two entries with the same fingerprint. Both become
  candidates, both are asked, and both answers are counted: two denials by the same host confirm an
  alert at a quorum of two.
\<close>

theorem one_host_can_be_a_quorum:
  "let self = replicate 32 9;
       kn = demo_kn\<lparr>kn_state := [(demo_vk, p)]\<rparr>;
       cfg = \<lparr>qc_fanout = 4, qc_min_similarity = Fin 0, qc_quorum = 2\<rparr>;
       mesh_peers = build_peer_infos demo_crypto (\<lambda>_. True) [demo_ranked_node, demo_ranked_node] self;
       asked = peers_to_ask demo_crypto ac cfg kn self (\<lambda>_. Some (Fin 1)) fp mesh_peers;
       v = quorum_verdict (wc_peers (round_context ep ''x86_64/linux'' fp
             (map (\<lambda>(peer, sim). (peer, sim, Inr demo_denial)) asked))) (qc_quorum cfg)
   in map (\<lambda>(peer, _). pi_fingerprint peer) asked = [demo_vk, demo_vk] \<and> confirmed v"
proof -
  let ?peer = "(demo_peer demo_vk)\<lparr>pi_role_vector := Some ''r''\<rparr>"
  have len: "length demo_vk = 32" and ne: "demo_vk \<noteq> replicate 32 9" by (simp_all add: demo_vk_def)
  have "vk_from_bytes demo_crypto demo_vk = Some demo_vk" using len by (simp add: demo_crypto_def)
  then have "peer_info_of demo_crypto (\<lambda>_. True) (replicate 32 9) demo_ranked_node = Some ?peer"
    using len ne from_hex_to_hex [OF demo_crypto_ok len]
    by (simp add: peer_info_of_def demo_ranked_node_def demo_node_def demo_peer_def gossip_keys to_array_def
        demo_key_is_fp crypto_okD [OF demo_crypto_ok])
  then have "build_peer_infos demo_crypto (\<lambda>_. True) [demo_ranked_node, demo_ranked_node] (replicate 32 9)
      = [?peer, ?peer]"
    by (simp add: build_peer_infos_def List.map_filter_def)
  moreover have "is_denial ''x86_64/linux'' (Inr demo_denial)" by (simp add: is_denial_def demo_denial_def)
  ultimately show ?thesis
    using confirmed_by_denials [of "[(?peer, Fin 1, Inr demo_denial), (?peer, Fin 1, Inr demo_denial)]"] ne
    by (simp add: peers_to_ask_def round_candidates_def List.map_filter_def kn_fingerprints_def
        rank_by_similarity_def demo_peer_def)
qed

end
