(* ===== verification/Audit_Log.thy ===== *)
theory Audit_Log
  imports Proto Response Text_Lines "HOL-Library.Countable"
begin

text \<open>
  The audit log: signed, hash-chained records of every action attempt
  (\<open>crates/bowery-response/src/audit.rs\<close>) and the operator's verifier for such a log
  (\<open>crates/bowery-cli/src/audit.rs\<close>). The JSON package is a parameter.
\<close>

section \<open>Records and envelopes\<close>

record audit_record =
  ar_version :: u32
  ar_host_fp_hex :: string
  ar_seq :: u64
  ar_prev_sig_hex :: string
  ar_engine :: string
  ar_episode_id :: string
  ar_action_id :: string
  ar_action :: action
  ar_outcome :: action_outcome
  ar_recorded_at_unix_ms :: u64

record audit_envelope =
  ae_record :: audit_record
  ae_sig_hex :: string

datatype audit_error =
    AuditEncode
  | AuditUnsupportedVersion u32
  | AuditMalformedFingerprint
  | AuditMalformedSignature
  | AuditFingerprintMismatch
  | AuditBadSignature
  | AuditIo

text \<open>
  JSON: a record as the bytes that are signed, an envelope as one line of the log. What the code
  relies on: a printed envelope parses back, different records print differently, and a printed
  envelope is one line with no blank at either end (it starts and ends with a brace).
\<close>

record audit_codec =
  record_json :: "audit_record \<Rightarrow> bytes option"
  envelope_json :: "audit_envelope \<Rightarrow> string option"
  envelope_parse :: "string \<Rightarrow> audit_envelope option"

definition audit_codec_ok :: "audit_codec \<Rightarrow> bool" where
  "audit_codec_ok k \<longleftrightarrow>
     (\<forall>e l. envelope_json k e = Some l \<longrightarrow> plain_line l \<and> envelope_parse k l = Some e) \<and>
     (\<forall>r r' b. record_json k r = Some b \<longrightarrow> record_json k r' = Some b \<longrightarrow> r = r') \<and>
     (\<forall>r. record_json k r \<noteq> None) \<and> (\<forall>e. envelope_json k e \<noteq> None)"

definition audit_VERSION :: u32 where "audit_VERSION = 2"

definition record_with_now ::
    "crypto \<Rightarrow> fingerprint \<Rightarrow> string \<Rightarrow> string \<Rightarrow> action \<Rightarrow> action_outcome \<Rightarrow> u64 \<Rightarrow> audit_record" where
  "record_with_now c host_fp engine episode_id a out now =
     \<lparr>ar_version = audit_VERSION, ar_host_fp_hex = to_hex c host_fp, ar_seq = 0, ar_prev_sig_hex = [],
      ar_engine = engine, ar_episode_id = episode_id, ar_action_id = action_id a, ar_action = a,
      ar_outcome = out, ar_recorded_at_unix_ms = now\<rparr>"

definition ar_signing_input :: "audit_codec \<Rightarrow> audit_record \<Rightarrow> audit_error + bytes" where
  "ar_signing_input k r =
     and_then (ok_or AuditEncode (record_json k r)) (\<lambda>b. Inr (AUDIT_SIG_DOMAIN @ b))"

definition ae_sign :: "crypto \<Rightarrow> audit_codec \<Rightarrow> audit_record \<Rightarrow> identity \<Rightarrow> audit_error + audit_envelope" where
  "ae_sign c k r i =
     and_then (ar_signing_input k r) (\<lambda>input.
     Inr \<lparr>ae_record = r, ae_sig_hex = hex_encode c (sign c i input)\<rparr>)"

definition ae_verify :: "crypto \<Rightarrow> audit_codec \<Rightarrow> audit_envelope \<Rightarrow> verifying_key \<Rightarrow> audit_error + unit" where
  "ae_verify c k e vk =
     and_then (guard (AuditUnsupportedVersion (ar_version (ae_record e)))
       (ar_version (ae_record e) = audit_VERSION)) (\<lambda>_.
     and_then (case from_hex c (ar_host_fp_hex (ae_record e)) of
         Inl _ \<Rightarrow> Inl AuditMalformedFingerprint | Inr fp \<Rightarrow> Inr fp) (\<lambda>claimed_fp.
     and_then (guard AuditFingerprintMismatch (claimed_fp = from_verifying_key c vk)) (\<lambda>_.
     and_then (ok_or AuditMalformedSignature (hex_decode c (ae_sig_hex e))) (\<lambda>sig_bytes.
     and_then (ok_or AuditMalformedSignature (to_array 64 sig_bytes)) (\<lambda>sig.
     and_then (ar_signing_input k (ae_record e)) (\<lambda>input.
     guard AuditBadSignature (verify_strict c vk input sig)))))))"

section \<open>The file sink\<close>

record chain_state =
  next_seq :: u64
  last_sig_hex :: string

definition chain_default :: chain_state where
  "chain_default = \<lparr>next_seq = 0, last_sig_hex = []\<rparr>"

record jsonl_sink =
  js_path :: path
  js_chain :: chain_state

definition chain_after :: "audit_envelope \<Rightarrow> chain_state" where
  "chain_after e = \<lparr>next_seq = saturating_add (ar_seq (ae_record e)) 1, last_sig_hex = ae_sig_hex e\<rparr>"

text \<open>The body of the recovery loop.\<close>

definition recover_line :: "audit_codec \<Rightarrow> chain_state \<Rightarrow> string \<Rightarrow> chain_state" where
  "recover_line k st line =
     (if trim line = [] then st
      else case envelope_parse k line of Some e \<Rightarrow> chain_after e | None \<Rightarrow> st)"

text \<open>A file that cannot be opened counts as absent; one that cannot be read is an error.\<close>

definition recover_chain_state :: "audit_codec \<Rightarrow> fault \<Rightarrow> fs \<Rightarrow> path \<Rightarrow> audit_error + chain_state" where
  "recover_chain_state k fault fs p =
     (case fs p of
        None \<Rightarrow> Inr chain_default
      | Some f \<Rightarrow>
          if fault = FailOpen then Inr chain_default
          else if fault = FailRead then Inl AuditIo
          else Inr (foldl (recover_line k) chain_default (lines (body f))))"

definition append_file :: "fs \<Rightarrow> path \<Rightarrow> string \<Rightarrow> fs" where
  "append_file fs p s =
     fs(p \<mapsto> (case fs p of None \<Rightarrow> \<lparr>mode = 420, body = s\<rparr> | Some f \<Rightarrow> f\<lparr>body := body f @ s\<rparr>))"

definition sink_open :: "audit_codec \<Rightarrow> fault \<Rightarrow> fs \<Rightarrow> path \<Rightarrow> (audit_error + jsonl_sink) \<times> fs" where
  "sink_open k fault fs p =
     (case recover_chain_state k fault fs p of
        Inl e \<Rightarrow> (Inl e, fs)
      | Inr chain \<Rightarrow>
          if fault = FailOpen then (Inl AuditIo, fs)
          else (Inr \<lparr>js_path = p, js_chain = chain\<rparr>, append_file fs p []))"

text \<open>Appending one line: \<open>write_all\<close>, then \<open>sync_data\<close>, then the chain state.\<close>

definition write_line ::
    "audit_codec \<Rightarrow> fault \<Rightarrow> string \<Rightarrow> fs \<Rightarrow> jsonl_sink \<Rightarrow> audit_envelope
     \<Rightarrow> (audit_error + unit) \<times> fs \<times> jsonl_sink" where
  "write_line k fault partial fs sk e =
     (case envelope_json k e of
        None \<Rightarrow> (Inl AuditEncode, fs, sk)
      | Some line \<Rightarrow>
          if fault = FailWrite then (Inl AuditIo, append_file fs (js_path sk) partial, sk)
          else let fs' = append_file fs (js_path sk) (line @ [NL]) in
            if fault = FailSync then (Inl AuditIo, fs', sk)
            else (Inr (), fs', sk\<lparr>js_chain := chain_after e\<rparr>))"

definition sink_write ::
    "audit_codec \<Rightarrow> fault \<Rightarrow> string \<Rightarrow> fs \<Rightarrow> jsonl_sink \<Rightarrow> audit_envelope
     \<Rightarrow> (audit_error + unit) \<times> fs \<times> jsonl_sink" where
  "sink_write k fault partial fs sk e = write_line k fault partial fs sk e"

definition record_signed ::
    "crypto \<Rightarrow> audit_codec \<Rightarrow> fault \<Rightarrow> string \<Rightarrow> fs \<Rightarrow> jsonl_sink \<Rightarrow> identity \<Rightarrow> audit_record
     \<Rightarrow> (audit_error + unit) \<times> fs \<times> jsonl_sink" where
  "record_signed c k fault partial fs sk i r =
     (let r' = r\<lparr>ar_seq := next_seq (js_chain sk), ar_prev_sig_hex := last_sig_hex (js_chain sk)\<rparr> in
      case ae_sign c k r' i of
        Inl e \<Rightarrow> (Inl e, fs, sk)
      | Inr e \<Rightarrow> write_line k fault partial fs sk e)"

text \<open>\<open>record\<close>: build, sign, persist; an error is logged and dropped.\<close>

definition audit_record_action ::
    "crypto \<Rightarrow> audit_codec \<Rightarrow> fault \<Rightarrow> string \<Rightarrow> nat option \<Rightarrow> fs \<Rightarrow> jsonl_sink \<Rightarrow> identity
     \<Rightarrow> string \<Rightarrow> string \<Rightarrow> action \<Rightarrow> action_outcome \<Rightarrow> fs \<times> jsonl_sink" where
  "audit_record_action c k fault partial now fs sk i engine episode_id a out =
     (let r = record_with_now c (fingerprint_of c i) engine episode_id a out (millis_or_zero now) in
      snd (record_signed c k fault partial fs sk i r))"

section \<open>The verifier\<close>

record verify_state =
  vs_total :: nat
  vs_ok :: nat
  vs_failed :: nat
  vs_expected_seq :: u64
  vs_last_sig_hex :: string

definition check_chain :: "audit_envelope \<Rightarrow> u64 \<Rightarrow> string \<Rightarrow> string + unit" where
  "check_chain e expected_seq last_sig =
     and_then (guard ''gap or out-of-order entries'' (ar_seq (ae_record e) = expected_seq)) (\<lambda>_.
     guard ''prev_sig_hex doesn't match previous entry's sig'' (ar_prev_sig_hex (ae_record e) = last_sig))"

definition verify_audit_line ::
    "crypto \<Rightarrow> audit_codec \<Rightarrow> verifying_key \<Rightarrow> verify_state \<Rightarrow> string \<Rightarrow> verify_state" where
  "verify_audit_line c k vk st line =
     (if trim line = [] then st
      else let st = st\<lparr>vs_total := Suc (vs_total st)\<rparr> in
        case envelope_parse k line of
          Some e \<Rightarrow>
            if is_ok (ae_verify c k e vk) \<and> is_ok (check_chain e (vs_expected_seq st) (vs_last_sig_hex st))
            then st\<lparr>vs_ok := Suc (vs_ok st), vs_expected_seq := saturating_add (ar_seq (ae_record e)) 1,
                   vs_last_sig_hex := ae_sig_hex e\<rparr>
            else st\<lparr>vs_failed := Suc (vs_failed st)\<rparr>
        | None \<Rightarrow> st\<lparr>vs_failed := Suc (vs_failed st)\<rparr>)"

definition verify_start :: verify_state where
  "verify_start = \<lparr>vs_total = 0, vs_ok = 0, vs_failed = 0, vs_expected_seq = 0, vs_last_sig_hex = []\<rparr>"

definition verify_lines :: "crypto \<Rightarrow> audit_codec \<Rightarrow> verifying_key \<Rightarrow> string list \<Rightarrow> verify_state" where
  "verify_lines c k vk ls = foldl (verify_audit_line c k vk) verify_start ls"

text \<open>\<open>bowery audit verify\<close>: the exit code is success if no line failed.\<close>

definition audit_verify :: "crypto \<Rightarrow> audit_codec \<Rightarrow> verifying_key \<Rightarrow> string \<Rightarrow> bool" where
  "audit_verify c k vk log = (vs_failed (verify_lines c k vk (lines log)) = 0)"

datatype pubkey_error = BadBase64 | BadLength | BadKey | BadIdentity crypto_error | BothGiven | NoneGiven

definition load_pubkey ::
    "crypto \<Rightarrow> (path \<Rightarrow> crypto_error + identity) \<Rightarrow> string option \<Rightarrow> path option
     \<Rightarrow> pubkey_error + verifying_key" where
  "load_pubkey c load b64 from =
     (case (b64, from) of
        (Some s, None) \<Rightarrow>
          and_then (ok_or BadBase64 (b64_decode c (trim s))) (\<lambda>bs.
          and_then (ok_or BadLength (to_array 32 bs)) (\<lambda>arr.
          ok_or BadKey (vk_from_bytes c arr)))
      | (None, Some p) \<Rightarrow>
          (case load p of Inl e \<Rightarrow> Inl (BadIdentity e) | Inr i \<Rightarrow> Inr (verifying_key c i))
      | (Some _, Some _) \<Rightarrow> Inl BothGiven
      | (None, None) \<Rightarrow> Inl NoneGiven)"

section \<open>Chains\<close>

text \<open>What the verifier accepts: valid signatures, consecutive numbers, linked signatures.\<close>

fun chain_ok ::
    "crypto \<Rightarrow> audit_codec \<Rightarrow> verifying_key \<Rightarrow> u64 \<Rightarrow> string \<Rightarrow> audit_envelope list \<Rightarrow> bool" where
  "chain_ok c k vk n s [] = True"
| "chain_ok c k vk n s (e # es) \<longleftrightarrow>
     is_ok (ae_verify c k e vk) \<and> ar_seq (ae_record e) = n \<and> ar_prev_sig_hex (ae_record e) = s \<and>
     chain_ok c k vk (saturating_add n 1) (ae_sig_hex e) es"

text \<open>The envelopes of a log, blank lines left out; the log parses if all its lines do.\<close>

definition parses_to :: "audit_codec \<Rightarrow> string list \<Rightarrow> audit_envelope list \<Rightarrow> bool" where
  "parses_to k ls es \<longleftrightarrow> map (envelope_parse k) (filter (\<lambda>l. trim l \<noteq> []) ls) = map Some es"

lemma is_ok_check_chain [simp]:
  "is_ok (check_chain e n s) \<longleftrightarrow> ar_seq (ae_record e) = n \<and> ar_prev_sig_hex (ae_record e) = s"
  by (simp add: check_chain_def is_ok_iff)

lemma verify_audit_line_failed_mono: "vs_failed st \<le> vs_failed (verify_audit_line c k vk st l)"
  by (simp add: verify_audit_line_def Let_def split: option.split)

lemma verify_failed_mono: "vs_failed st \<le> vs_failed (foldl (verify_audit_line c k vk) st ls)"
proof (induction ls arbitrary: st)
  case (Cons l ls)
  from Cons [of "verify_audit_line c k vk st l"] verify_audit_line_failed_mono [of st c k vk l]
  show ?case by simp
qed simp

lemma verify_failed_zero:
  "vs_failed (foldl (verify_audit_line c k vk) st ls) = 0 \<longleftrightarrow>
   vs_failed st = 0 \<and> (\<exists>es. parses_to k ls es \<and>
     chain_ok c k vk (vs_expected_seq st) (vs_last_sig_hex st) es)"
proof (induction ls arbitrary: st)
  case Nil
  show ?case by (simp add: parses_to_def)
next
  case (Cons l ls)
  let ?st = "verify_audit_line c k vk st l"
  have pos: "0 < vs_failed ?st \<Longrightarrow> 0 < vs_failed (foldl (verify_audit_line c k vk) ?st ls)"
    using verify_failed_mono [of ?st c k vk ls] by simp
  show ?case
  proof (cases "trim l = []")
    case True
    then show ?thesis using Cons [of st] by (simp add: verify_audit_line_def parses_to_def)
  next
    case blank: False
    show ?thesis
    proof (cases "envelope_parse k l")
      case None
      with blank have "0 < vs_failed ?st" by (simp add: verify_audit_line_def Let_def)
      moreover have "\<not> parses_to k (l # ls) es" for es
        using blank None by (cases es) (simp_all add: parses_to_def)
      ultimately show ?thesis using pos by auto
    next
      case (Some e)
      have parses: "parses_to k (l # ls) es \<longleftrightarrow> (\<exists>es'. es = e # es' \<and> parses_to k ls es')" for es
        using blank Some by (cases es) (auto simp: parses_to_def)
      show ?thesis
      proof (cases "is_ok (ae_verify c k e vk) \<and> ar_seq (ae_record e) = vs_expected_seq st \<and>
          ar_prev_sig_hex (ae_record e) = vs_last_sig_hex st")
        case True
        with blank Some have "?st = st\<lparr>vs_total := Suc (vs_total st), vs_ok := Suc (vs_ok st),
            vs_expected_seq := saturating_add (vs_expected_seq st) 1, vs_last_sig_hex := ae_sig_hex e\<rparr>"
          by (simp add: verify_audit_line_def Let_def)
        with Cons [of ?st] True show ?thesis unfolding parses by auto
      next
        case False
        with blank Some have "0 < vs_failed ?st" by (auto simp: verify_audit_line_def Let_def)
        with pos False show ?thesis unfolding parses by auto
      qed
    qed
  qed
qed

lemma audit_verify_iff:
  "audit_verify c k vk log \<longleftrightarrow> (\<exists>es. parses_to k (lines log) es \<and> chain_ok c k vk 0 [] es)"
  by (simp add: audit_verify_def verify_lines_def verify_failed_zero verify_start_def)

lemma chain_ok_append:
  "chain_ok c k vk n s (es @ [e]) \<longleftrightarrow> chain_ok c k vk n s es \<and> is_ok (ae_verify c k e vk) \<and>
   (if es = [] then ar_seq (ae_record e) = n \<and> ar_prev_sig_hex (ae_record e) = s
    else ar_seq (ae_record e) = saturating_add (ar_seq (ae_record (last es))) 1 \<and>
      ar_prev_sig_hex (ae_record e) = ae_sig_hex (last es))"
  by (induction es arbitrary: n s) auto

section \<open>An undisturbed log\<close>

definition chain_of :: "audit_envelope list \<Rightarrow> chain_state" where
  "chain_of es = (if es = [] then chain_default else chain_after (last es))"

text \<open>The file holds exactly the envelopes \<open>es\<close>, and the sink continues their chain.\<close>

definition log_holds ::
    "crypto \<Rightarrow> audit_codec \<Rightarrow> verifying_key \<Rightarrow> fs \<Rightarrow> jsonl_sink \<Rightarrow> audit_envelope list \<Rightarrow> bool" where
  "log_holds c k vk fs sk es \<longleftrightarrow> (\<exists>f. fs (js_path sk) = Some f \<and> terminated (body f) \<and>
     lines (body f) = map (\<lambda>e. the (envelope_json k e)) es) \<and>
     chain_ok c k vk 0 [] es \<and> js_chain sk = chain_of es"

lemma chain_ok_continues:
  "chain_ok c k vk 0 [] (es @ [e]) \<longleftrightarrow> chain_ok c k vk 0 [] es \<and> is_ok (ae_verify c k e vk) \<and>
   ar_seq (ae_record e) = next_seq (chain_of es) \<and> ar_prev_sig_hex (ae_record e) = last_sig_hex (chain_of es)"
  by (auto simp: chain_ok_append chain_of_def chain_default_def chain_after_def)

lemma ae_sign_verifies:
  assumes "crypto_ok c" "ae_sign c k r i = Inr e" "ar_version r = audit_VERSION"
    "ar_host_fp_hex r = to_hex c (fingerprint_of c i)"
  shows "is_ok (ae_verify c k e (verifying_key c i)) \<and> ae_record e = r"
proof -
  from assms(2) obtain input where i: "ar_signing_input k r = Inr input"
    and e: "e = \<lparr>ae_record = r, ae_sig_hex = hex_encode c (sign c i input)\<rparr>"
    by (auto simp: ae_sign_def)
  have "verify_strict c (verifying_key c i) input (sign c i input)"
    using verify_sign [OF assms(1)] by (simp add: verify_def)
  moreover have "from_hex c (to_hex c (fingerprint_of c i)) = Inr (fingerprint_of c i)"
    by (simp add: assms(1) from_hex_to_hex)
  ultimately show ?thesis
    using assms(3,4) i crypto_okD(6) [OF assms(1)] length_sign [OF assms(1)]
    by (simp add: e ae_verify_def to_array_def fingerprint_of_def)
qed

lemma ae_sign_total:
  "audit_codec_ok k \<Longrightarrow> \<exists>e. ae_sign c k r i = Inr e"
  by (auto simp: audit_codec_ok_def ae_sign_def ar_signing_input_def)

lemma record_signed_holds:
  assumes c: "crypto_ok c" and k: "audit_codec_ok k"
    and inv: "log_holds c k (verifying_key c i) fs sk es"
    and r: "ar_version r = audit_VERSION" "ar_host_fp_hex r = to_hex c (fingerprint_of c i)"
    and rs: "record_signed c k NoFault partial fs sk i r = (res, fs', sk')"
  shows "res = Inr () \<and> js_path sk' = js_path sk \<and>
    (\<exists>e. log_holds c k (verifying_key c i) fs' sk' (es @ [e]) \<and>
      ae_record e = r\<lparr>ar_seq := next_seq (chain_of es), ar_prev_sig_hex := last_sig_hex (chain_of es)\<rparr>)"
proof -
  let ?r = "r\<lparr>ar_seq := next_seq (chain_of es), ar_prev_sig_hex := last_sig_hex (chain_of es)\<rparr>"
  have sk: "js_chain sk = chain_of es" using inv by (simp add: log_holds_def)
  obtain e where e: "ae_sign c k ?r i = Inr e" using ae_sign_total [OF k] by blast
  obtain l where l: "envelope_json k e = Some l" and "plain_line l"
    using k unfolding audit_codec_ok_def by (metis option.exhaust)
  have v: "is_ok (ae_verify c k e (verifying_key c i))" and rec: "ae_record e = ?r"
    using ae_sign_verifies [OF c e] r by simp_all
  from inv obtain f where f: "fs (js_path sk) = Some f" "terminated (body f)"
    "lines (body f) = map (\<lambda>e. the (envelope_json k e)) es" "chain_ok c k (verifying_key c i) 0 [] es"
    by (auto simp: log_holds_def)
  from rs have eq: "res = Inr ()" "fs' = append_file fs (js_path sk) (l @ [NL])"
    "sk' = sk\<lparr>js_chain := chain_after e\<rparr>"
    by (simp_all add: record_signed_def sk e write_line_def l Let_def)
  have "lines (body f @ l @ [NL]) = map (\<lambda>e. the (envelope_json k e)) (es @ [e])"
    using lines_append_line [OF f(2) \<open>plain_line l\<close>] f(3) l by simp
  moreover have "chain_ok c k (verifying_key c i) 0 [] (es @ [e])"
    unfolding chain_ok_continues using f(4) v by (simp add: rec)
  ultimately have "log_holds c k (verifying_key c i) fs' sk' (es @ [e])"
    by (simp add: log_holds_def eq append_file_def f(1) chain_of_def)
  with rec show ?thesis by (auto simp: eq)
qed

text \<open>What happens to a log over time: action attempts are recorded, and the agent restarts.\<close>

datatype audit_event = Attempt "nat option" string string action action_outcome | Restart

definition audit_step ::
    "crypto \<Rightarrow> audit_codec \<Rightarrow> identity \<Rightarrow> fs \<times> jsonl_sink \<Rightarrow> audit_event \<Rightarrow> fs \<times> jsonl_sink" where
  "audit_step c k i s ev =
     (case ev of
        Attempt now engine ep a out \<Rightarrow>
          audit_record_action c k NoFault [] now (fst s) (snd s) i engine ep a out
      | Restart \<Rightarrow>
          (case sink_open k NoFault (fst s) (js_path (snd s)) of
             (Inl _, fs') \<Rightarrow> (fs', snd s)
           | (Inr sk', fs') \<Rightarrow> (fs', sk')))"

fun attempt_of :: "crypto \<Rightarrow> identity \<Rightarrow> audit_event \<Rightarrow> audit_record list" where
  "attempt_of c i (Attempt now engine ep a out) =
     [record_with_now c (fingerprint_of c i) engine ep a out (millis_or_zero now)]"
| "attempt_of c i Restart = []"

text \<open>A record without its place in the chain.\<close>

definition unchained :: "audit_record \<Rightarrow> audit_record" where
  "unchained r = r\<lparr>ar_seq := 0, ar_prev_sig_hex := []\<rparr>"

lemma recover_holds:
  assumes "audit_codec_ok k"
  shows "foldl (recover_line k) chain_default (map (\<lambda>e. the (envelope_json k e)) es) = chain_of es"
proof (induction es rule: rev_induct)
  case (snoc e es)
  obtain l where l: "envelope_json k e = Some l" "plain_line l" "envelope_parse k l = Some e"
    using assms unfolding audit_codec_ok_def by (metis option.exhaust)
  then have "trim l \<noteq> []" using trim_plain [OF l(2)] by (simp add: plain_line_def)
  with l snoc show ?case by (simp add: recover_line_def chain_of_def)
qed (simp add: chain_of_def)

lemma restart_holds:
  assumes k: "audit_codec_ok k" and inv: "log_holds c k vk fs sk es"
  shows "\<exists>fs' sk'. sink_open k NoFault fs (js_path sk) = (Inr sk', fs') \<and>
    js_path sk' = js_path sk \<and> log_holds c k vk fs' sk' es"
proof -
  from inv obtain f where f: "fs (js_path sk) = Some f" "terminated (body f)"
    "lines (body f) = map (\<lambda>e. the (envelope_json k e)) es" by (auto simp: log_holds_def)
  then have "recover_chain_state k NoFault fs (js_path sk) = Inr (chain_of es)"
    by (simp add: recover_chain_state_def recover_holds [OF k])
  then show ?thesis
    using inv f by (auto simp: sink_open_def log_holds_def append_file_def)
qed

lemma record_with_now_fields [simp]:
  "ar_version (record_with_now c fp en ep a out now) = audit_VERSION"
  "ar_host_fp_hex (record_with_now c fp en ep a out now) = to_hex c fp"
  "unchained (record_with_now c fp en ep a out now) = record_with_now c fp en ep a out now"
  by (simp_all add: record_with_now_def unchained_def)

lemma unchained_idem [simp]: "unchained (r\<lparr>ar_seq := n, ar_prev_sig_hex := s\<rparr>) = unchained r"
  by (simp add: unchained_def)

lemma audit_step_holds:
  assumes c: "crypto_ok c" and k: "audit_codec_ok k"
    and inv: "log_holds c k (verifying_key c i) fs sk es"
  shows "\<exists>es'. log_holds c k (verifying_key c i) (fst (audit_step c k i (fs, sk) ev))
      (snd (audit_step c k i (fs, sk) ev)) (es @ es') \<and>
    js_path (snd (audit_step c k i (fs, sk) ev)) = js_path sk \<and>
    map (\<lambda>e. unchained (ae_record e)) es' = attempt_of c i ev"
proof (cases ev)
  case (Attempt now engine ep a out)
  let ?r = "record_with_now c (fingerprint_of c i) engine ep a out (millis_or_zero now)"
  obtain res fs' sk' where rs: "record_signed c k NoFault [] fs sk i ?r = (res, fs', sk')"
    by (metis surj_pair)
  from record_signed_holds [OF c k inv _ _ rs] obtain e where
    e: "js_path sk' = js_path sk" "log_holds c k (verifying_key c i) fs' sk' (es @ [e])"
      "unchained (ae_record e) = ?r" by auto
  have "audit_step c k i (fs, sk) ev = (fs', sk')"
    by (simp add: audit_step_def Attempt audit_record_action_def rs)
  with e show ?thesis by (intro exI [where x = "[e]"]) (simp add: Attempt)
next
  case Restart
  with restart_holds [OF k inv] show ?thesis by (auto simp: audit_step_def intro!: exI [where x = "[]"])
qed

lemma audit_run_holds:
  assumes c: "crypto_ok c" and k: "audit_codec_ok k"
    and inv: "log_holds c k (verifying_key c i) (fst s) (snd s) es"
  shows "\<exists>es'. log_holds c k (verifying_key c i) (fst (foldl (audit_step c k i) s evs))
      (snd (foldl (audit_step c k i) s evs)) (es @ es') \<and>
    js_path (snd (foldl (audit_step c k i) s evs)) = js_path (snd s) \<and>
    map (\<lambda>e. unchained (ae_record e)) es' = concat (map (attempt_of c i) evs)"
  using inv
proof (induction evs arbitrary: s es)
  case Nil
  then show ?case by (auto intro!: exI [where x = "[]"])
next
  case (Cons ev evs)
  obtain fs sk where s: "s = (fs, sk)" by fastforce
  from audit_step_holds [OF c k, of i fs sk es ev] Cons.prems s obtain es1 where
    1: "log_holds c k (verifying_key c i) (fst (audit_step c k i s ev)) (snd (audit_step c k i s ev))
        (es @ es1)" "js_path (snd (audit_step c k i s ev)) = js_path sk"
      "map (\<lambda>e. unchained (ae_record e)) es1 = attempt_of c i ev" by auto
  from Cons.IH [OF 1(1)] obtain es2 where
    "log_holds c k (verifying_key c i) (fst (foldl (audit_step c k i) s (ev # evs)))
        (snd (foldl (audit_step c k i) s (ev # evs))) ((es @ es1) @ es2)"
    "js_path (snd (foldl (audit_step c k i) s (ev # evs))) = js_path sk"
    "map (\<lambda>e. unchained (ae_record e)) es2 = concat (map (attempt_of c i) evs)"
    using 1(2) by auto
  with 1(3) s show ?case by (intro exI [where x = "es1 @ es2"]) simp
qed

lemma parses_to_printed:
  assumes "audit_codec_ok k"
  shows "parses_to k (map (\<lambda>e. the (envelope_json k e)) es) es"
proof (induction es)
  case (Cons e es)
  obtain l where l: "envelope_json k e = Some l" "plain_line l" "envelope_parse k l = Some e"
    using assms unfolding audit_codec_ok_def by (metis option.exhaust)
  then have "trim l \<noteq> []" using trim_plain [OF l(2)] by (simp add: plain_line_def)
  with l Cons show ?case by (simp add: parses_to_def)
qed (simp add: parses_to_def)

section \<open>Tampering\<close>

lemma ae_verify_signed:
  assumes "is_ok (ae_verify c k e vk)"
  shows "\<exists>m sg. ar_signing_input k (ae_record e) = Inr m \<and> hex_decode c (ae_sig_hex e) = Some sg \<and> verify_strict c vk m sg"
  using assms by (auto simp: ae_verify_def is_ok_iff)

lemma ar_signing_input_inj:
  "audit_codec_ok k \<Longrightarrow> ar_signing_input k r = Inr m \<Longrightarrow> ar_signing_input k r' = Inr m \<Longrightarrow> r = r'"
  unfolding audit_codec_ok_def ar_signing_input_def by auto

lemma saturating_add_of_nat:
  assumes "Suc n < 2 ^ 64"
  shows "saturating_add (word_of_nat n :: u64) 1 = word_of_nat (Suc n)"
proof -
  have "unat (word_of_nat n :: u64) = n" using assms by (simp add: unat_of_nat)
  then show ?thesis using assms by (simp add: saturating_add_def)
qed

lemma word_of_nat_u64_inj:
  "(word_of_nat m :: u64) = word_of_nat n \<Longrightarrow> m < 2 ^ 64 \<Longrightarrow> n < 2 ^ 64 \<Longrightarrow> m = n"
  by (metis unat_u64_or_max u64_or_max_def)

text \<open>The entries of an accepted chain by their position.\<close>

lemma chain_ok_entry:
  assumes "chain_ok c k vk n s es" "i < length es"
  shows "is_ok (ae_verify c k (es ! i) vk) \<and>
    ar_prev_sig_hex (ae_record (es ! i)) = (if i = 0 then s else ae_sig_hex (es ! (i - 1)))"
  using assms
proof (induction es arbitrary: i n s)
  case (Cons e es)
  show ?case
  proof (cases i)
    case (Suc j)
    have ch: "chain_ok c k vk (saturating_add n 1) (ae_sig_hex e) es" and j: "j < length es"
      using Cons.prems Suc by simp_all
    from Cons.IH [OF ch j] show ?thesis by (cases j) (simp_all add: Suc)
  qed (use Cons.prems in simp)
qed simp

lemma chain_ok_seq:
  assumes "chain_ok c k vk (word_of_nat d) s es" "i < length es" "d + length es < 2 ^ 64"
  shows "ar_seq (ae_record (es ! i)) = word_of_nat (d + i)"
  using assms
proof (induction es arbitrary: i d s)
  case (Cons e es)
  have "saturating_add (word_of_nat d :: u64) 1 = word_of_nat (Suc d)"
    by (rule saturating_add_of_nat) (use Cons.prems(3) in simp)
  then have ch: "chain_ok c k vk (word_of_nat (Suc d)) (ae_sig_hex e) es" using Cons.prems(1) by (metis chain_ok.simps(2))
  show ?case
  proof (cases i)
    case (Suc j)
    from Cons.IH [OF ch, of j] Cons.prems(2,3) Suc show ?thesis by simp
  qed (use Cons.prems in simp)
qed simp

text \<open>
  Two accepted chains that share a record agree up to it: its link to the signature before it fixes
  the record before it, and so on to the start.
\<close>

lemma chains_agree_below:
  assumes k: "audit_codec_ok k"
    and ch: "chain_ok c k vk n s es" "chain_ok c k vk n s es'"
    and binds: "\<And>e m m' sg. e \<in> set es \<Longrightarrow> hex_decode c (ae_sig_hex e) = Some sg \<Longrightarrow>
      verify_strict c vk m sg \<Longrightarrow> verify_strict c vk m' sg \<Longrightarrow> m = m'"
    and i: "i < length es" "i < length es'" "ae_record (es ! i) = ae_record (es' ! i)"
  shows "j \<le> i \<Longrightarrow> ae_record (es ! j) = ae_record (es' ! j)"
  using i
proof (induction i arbitrary: j)
  case (Suc i)
  have "ae_sig_hex (es ! i) = ae_sig_hex (es' ! i)"
    using chain_ok_entry [OF ch(1) Suc.prems(2)] chain_ok_entry [OF ch(2) Suc.prems(3)] Suc.prems(4) by simp
  moreover have "is_ok (ae_verify c k (es ! i) vk)" "is_ok (ae_verify c k (es' ! i) vk)"
    using chain_ok_entry [OF ch(1), of i] chain_ok_entry [OF ch(2), of i] Suc.prems by simp_all
  moreover have "es ! i \<in> set es" using Suc.prems(2) by simp
  ultimately have "\<exists>m. ar_signing_input k (ae_record (es ! i)) = Inr m \<and> ar_signing_input k (ae_record (es' ! i)) = Inr m"
    using ae_verify_signed [of c k "es ! i" vk] ae_verify_signed [of c k "es' ! i" vk] binds [of "es ! i"] by (metis option.inject)
  then have "ae_record (es ! i) = ae_record (es' ! i)" using ar_signing_input_inj [OF k] by blast
  with Suc.IH [of j] Suc.prems show ?case by (cases "j = Suc i") simp_all
qed simp

lemma parses_to_unique: "parses_to k ls es \<Longrightarrow> parses_to k ls es' \<Longrightarrow> es = es'"
  unfolding parses_to_def by (metis list.inj_map_strong option.inject)

section \<open>Properties\<close>

text \<open>
  C28. An undisturbed audit log verifies. Start with no log file; let the agent record any action
  attempts and restart in between, any number of times. Then \<open>bowery audit verify\<close> under the agent's
  key accepts the log, and what the log holds is exactly the attempts, in order.
\<close>

theorem audit_log_verifies:
  assumes c: "crypto_ok c" and k: "audit_codec_ok k" and "fs p = None"
    and run: "foldl (audit_step c k i) (append_file fs p [], \<lparr>js_path = p, js_chain = chain_default\<rparr>) evs
      = (fs', sk')"
  shows "sink_open k NoFault fs p
      = (Inr \<lparr>js_path = p, js_chain = chain_default\<rparr>, append_file fs p []) \<and>
    (\<exists>f es. fs' p = Some f \<and> audit_verify c k (verifying_key c i) (body f) \<and>
      parses_to k (lines (body f)) es \<and>
      map (\<lambda>e. unchained (ae_record e)) es = concat (map (attempt_of c i) evs))"
proof
  let ?s = "(append_file fs p [], \<lparr>js_path = p, js_chain = chain_default\<rparr>)"
  show "sink_open k NoFault fs p
      = (Inr \<lparr>js_path = p, js_chain = chain_default\<rparr>, append_file fs p [])"
    using assms(3) by (simp add: sink_open_def recover_chain_state_def)
  have "log_holds c k (verifying_key c i) (fst ?s) (snd ?s) []"
    using assms(3) by (simp add: log_holds_def append_file_def terminated_def chain_of_def)
  from audit_run_holds [OF c k this, of evs] run obtain es where
    es: "log_holds c k (verifying_key c i) fs' sk' es" "js_path sk' = p"
      "map (\<lambda>e. unchained (ae_record e)) es = concat (map (attempt_of c i) evs)" by auto
  then obtain f where f: "fs' p = Some f" "lines (body f) = map (\<lambda>e. the (envelope_json k e)) es"
    "chain_ok c k (verifying_key c i) 0 [] es" by (auto simp: log_holds_def)
  have p: "parses_to k (lines (body f)) es" unfolding f(2) by (rule parses_to_printed [OF k])
  with f have "audit_verify c k (verifying_key c i) (body f)" unfolding audit_verify_iff by blast
  with f(1) p es(3) show "\<exists>f es. fs' p = Some f \<and> audit_verify c k (verifying_key c i) (body f) \<and>
      parses_to k (lines (body f)) es \<and>
      map (\<lambda>e. unchained (ae_record e)) es = concat (map (attempt_of c i) evs)"
    by blast
qed

text \<open>
  A JSON stand-in that meets \<open>audit_codec_ok\<close>: records are numbered, and a line is that many letters
  between braces.
\<close>

instance action :: countable
  by countable_datatype

instance action_outcome :: countable
  by countable_datatype

type_synonym record_tuple = "u32 \<times> string \<times> u64 \<times> string \<times> string \<times> string \<times> string \<times> action \<times> action_outcome \<times> u64"

definition record_tuple :: "audit_record \<Rightarrow> record_tuple" where
  "record_tuple r = (ar_version r, ar_host_fp_hex r, ar_seq r, ar_prev_sig_hex r, ar_engine r,
     ar_episode_id r, ar_action_id r, ar_action r, ar_outcome r, ar_recorded_at_unix_ms r)"

definition tuple_record :: "record_tuple \<Rightarrow> audit_record" where
  "tuple_record t = (case t of (v, h, n, p, en, ep, ai, a, out, at) \<Rightarrow>
     \<lparr>ar_version = v, ar_host_fp_hex = h, ar_seq = n, ar_prev_sig_hex = p, ar_engine = en,
      ar_episode_id = ep, ar_action_id = ai, ar_action = a, ar_outcome = out,
      ar_recorded_at_unix_ms = at\<rparr>)"

definition demo_audit_codec :: audit_codec where
  "demo_audit_codec = \<lparr>
     record_json = (\<lambda>r. Some (replicate (to_nat (record_tuple r)) 120)),
     envelope_json = (\<lambda>e. Some (CHR ''{'' #
       replicate (to_nat (record_tuple (ae_record e), ae_sig_hex e)) (CHR ''x'') @ ''}'')),
     envelope_parse = (\<lambda>s. case s of [] \<Rightarrow> None | ch # l \<Rightarrow>
       if ch = CHR ''{'' then (case from_nat (length l - 1) of (t, g) \<Rightarrow>
         Some \<lparr>ae_record = tuple_record t, ae_sig_hex = g\<rparr>) else None)\<rparr>"

lemma tuple_record_inverse [simp]: "tuple_record (record_tuple r) = r"
  by (simp add: tuple_record_def record_tuple_def)

lemma record_tuple_inj: "record_tuple r = record_tuple r' \<Longrightarrow> r = r'"
  by (metis tuple_record_inverse)

lemma demo_audit_codec_ok: "audit_codec_ok demo_audit_codec"
proof -
  have "replicate m (120 :: u8) = replicate n 120 \<Longrightarrow> m = n" for m n by (metis length_replicate)
  then have "record_json demo_audit_codec r = Some b \<Longrightarrow> record_json demo_audit_codec r' = Some b \<Longrightarrow> r = r'"
    for r r' b by (auto simp: demo_audit_codec_def intro: record_tuple_inj)
  moreover have "plain_line l \<and> envelope_parse demo_audit_codec l = Some e"
    if "envelope_json demo_audit_codec e = Some l" for e l
    using that by (auto simp: demo_audit_codec_def plain_line_def is_white_def NL_def)
  ultimately show ?thesis unfolding audit_codec_ok_def by (auto simp: demo_audit_codec_def)
qed

definition demo_events :: "audit_event list" where
  "demo_events = [Attempt (Some 5) ''noop'' ''e1'' (KillProcess 9 ''e1'') AlreadyGone, Restart,
     Attempt (Some 6) ''noop'' ''e2'' (KillProcess 8 ''e2'') AlreadyGone]"

theorem audit_log_verifies_witness:
  "\<exists>(f :: stored_file) es. audit_verify demo_crypto demo_audit_codec (verifying_key demo_crypto demo_identity) (body f) \<and>
     parses_to demo_audit_codec (lines (body f)) es \<and>
     map (\<lambda>e. unchained (ae_record e)) es
       = concat (map (attempt_of demo_crypto demo_identity) demo_events) \<and> length es = 2"
proof -
  let ?s = "foldl (audit_step demo_crypto demo_audit_codec demo_identity)
    (append_file (\<lambda>_. None) [''log''] [], \<lparr>js_path = [''log''], js_chain = chain_default\<rparr>) demo_events"
  obtain fs' sk' where run: "?s = (fs', sk')" by fastforce
  from audit_log_verifies [OF demo_crypto_ok demo_audit_codec_ok refl run]
  obtain f :: stored_file and es where
    es: "audit_verify demo_crypto demo_audit_codec (verifying_key demo_crypto demo_identity) (body f)"
      "parses_to demo_audit_codec (lines (body f)) es"
      "map (\<lambda>e. unchained (ae_record e)) es
        = concat (map (attempt_of demo_crypto demo_identity) demo_events)" by blast
  from arg_cong [OF es(3), of length] have "length es = 2" by (simp add: demo_events_def)
  with es show ?thesis by blast
qed

text \<open>
  C27. The audit log is tamper-evident. Let the host's key have signed the messages in \<open>made\<close>, of
  whatever kind, those in the domain of audit records being the records in \<open>R\<close>, and let no signature in
  the two logs be forged or good for two messages. If \<open>bowery audit verify\<close> accepts a log, whoever wrote
  it, then all its records are in \<open>R\<close>; and as soon as it shares one record with another log it accepts,
  such as the host's own, the two have the same records from the start up to that one: none before it
  was altered, inserted, reordered or removed. Nothing is assumed about how the host numbered its
  records, so this holds after failed and torn writes too.
\<close>

theorem audit_log_tamper_evident:
  assumes k: "audit_codec_ok k"
    and ok: "audit_verify c k vk log" "audit_verify c k vk log'"
    and es: "parses_to k (lines log) es" "parses_to k (lines log') es'"
    and len: "length es < 2 ^ 64" "length es' < 2 ^ 64"
    and seen: "seen = {sg. \<exists>e \<in> set (es @ es'). hex_decode c (ae_sig_hex e) = Some sg}"
    and honest: "unforged c vk made seen"
    and binds: "\<And>m m' sg. sg \<in> seen \<Longrightarrow> verify_strict c vk m sg \<Longrightarrow> verify_strict c vk m' sg \<Longrightarrow> m = m'"
    and recorded: "\<And>rest. AUDIT_SIG_DOMAIN @ rest \<in> made \<Longrightarrow> \<exists>r \<in> R. ar_signing_input k r = Inr (AUDIT_SIG_DOMAIN @ rest)"
  shows "set (map ae_record es') \<subseteq> R \<and>
    (\<forall>i j. i < length es \<and> j < length es' \<and> ae_record (es ! i) = ae_record (es' ! j) \<longrightarrow>
       i = j \<and> take (Suc i) (map ae_record es) = take (Suc i) (map ae_record es'))"
proof (intro conjI allI impI subsetI)
  have ch: "chain_ok c k vk 0 [] es" "chain_ok c k vk 0 [] es'"
    using ok es parses_to_unique unfolding audit_verify_iff by blast+
  fix r assume "r \<in> set (map ae_record es')"
  then obtain i where i: "i < length es'" "r = ae_record (es' ! i)" by (auto simp: in_set_conv_nth)
  from chain_ok_entry [OF ch(2) i(1)] ae_verify_signed obtain m sg where
    m: "ar_signing_input k r = Inr m" "hex_decode c (ae_sig_hex (es' ! i)) = Some sg" "verify_strict c vk m sg"
    unfolding i(2) by blast
  have "sg \<in> seen" unfolding seen using m(2) i(1) nth_mem [OF i(1)] by auto
  then have "m \<in> made" using unforgedD [OF honest _ m(3)] by simp
  moreover obtain rest where "m = AUDIT_SIG_DOMAIN @ rest" using m(1) by (auto simp: ar_signing_input_def)
  ultimately obtain r' where "r' \<in> R" "ar_signing_input k r' = Inr m" using recorded by blast
  with ar_signing_input_inj [OF k m(1)] show "r \<in> R" by blast
next
  have ch: "chain_ok c k vk (word_of_nat 0) [] es" "chain_ok c k vk (word_of_nat 0) [] es'"
    using ok es parses_to_unique unfolding audit_verify_iff by fastforce+
  fix i j assume ij: "i < length es \<and> j < length es' \<and> ae_record (es ! i) = ae_record (es' ! j)"
  have "(word_of_nat i :: u64) = word_of_nat j"
    using chain_ok_seq [OF ch(1)] chain_ok_seq [OF ch(2)] ij len by (metis add.left_neutral)
  then show eq: "i = j" by (rule word_of_nat_u64_inj) (use ij len in linarith)+
  have "ae_record (es ! n) = ae_record (es' ! n)" if n: "n \<le> i" for n
  proof (rule chains_agree_below [OF k ch _ _ _ _ n])
    show "m = m'" if "e \<in> set es" "hex_decode c (ae_sig_hex e) = Some sg" "verify_strict c vk m sg" "verify_strict c vk m' sg"
      for e m m' sg using binds [of sg m m'] that unfolding seen by auto
  qed (use ij eq in auto)
  then show "take (Suc i) (map ae_record es) = take (Suc i) (map ae_record es')"
    using ij eq by (intro nth_equalityI) auto
qed

text \<open>A host that recorded two attempts, and the log without the second.\<close>

definition demo_record :: audit_record where
  "demo_record = record_with_now demo_crypto (fingerprint_of demo_crypto demo_identity) ''noop'' ''e''
     (KillProcess 9 ''e'') AlreadyGone 5"

abbreviation audit_input :: "audit_record \<Rightarrow> bytes" where
  "audit_input r \<equiv> AUDIT_SIG_DOMAIN @ the (record_json demo_audit_codec r)"

definition demo_sig_hex :: string where
  "demo_sig_hex = hex_encode demo_crypto (pad 32 (signing_key demo_identity) @ pad 32 [0])"

definition demo_next_record :: audit_record where
  "demo_next_record = demo_record\<lparr>ar_seq := 1, ar_prev_sig_hex := demo_sig_hex\<rparr>"

abbreviation demo_audit_signed :: "bytes list" where
  "demo_audit_signed \<equiv> [audit_input demo_record, audit_input demo_next_record,
     lr_signing_input_for (fingerprint_of demo_crypto demo_identity) 3 900]"

definition demo_entry :: "audit_record \<Rightarrow> audit_envelope" where
  "demo_entry r = \<lparr>ae_record = r, ae_sig_hex = hex_encode demo_crypto (sign (ledger_crypto demo_audit_signed) demo_identity (audit_input r))\<rparr>"

lemma demo_entry_ok:
  assumes "ar_version r = audit_VERSION" "ar_host_fp_hex r = to_hex demo_crypto (fingerprint_of demo_crypto demo_identity)"
  shows "is_ok (ae_verify (ledger_crypto demo_audit_signed) demo_audit_codec (demo_entry r) (verifying_key demo_crypto demo_identity))"
proof -
  let ?e = "demo_entry r" and ?c = "ledger_crypto demo_audit_signed"
  have "ae_sign ?c demo_audit_codec r demo_identity = Inr ?e"
    by (simp add: ae_sign_def ar_signing_input_def demo_audit_codec_def demo_entry_def)
  from ae_sign_verifies [OF ledger_crypto_ok this assms(1)] assms(2) show ?thesis by simp
qed

lemma demo_first_sig: "ae_sig_hex (demo_entry demo_record) = demo_sig_hex"
  by (simp add: demo_entry_def demo_sig_hex_def sign_def ledger_crypto_def place_def)

definition demo_log :: "audit_record list \<Rightarrow> string" where
  "demo_log rs = concat (map (\<lambda>r. the (envelope_json demo_audit_codec (demo_entry r)) @ [NL]) rs)"

lemma demo_log_parses: "parses_to demo_audit_codec (lines (demo_log rs)) (map demo_entry rs)"
proof -
  have "plain_line (the (envelope_json demo_audit_codec e))" for e
    using demo_audit_codec_ok unfolding audit_codec_ok_def by (metis option.collapse)
  then have "lines (demo_log rs) = map (\<lambda>e. the (envelope_json demo_audit_codec e)) (map demo_entry rs)"
    using lines_concat [of "map (\<lambda>r. the (envelope_json demo_audit_codec (demo_entry r))) rs"]
    by (simp add: demo_log_def o_def)
  with parses_to_printed [OF demo_audit_codec_ok] show ?thesis by metis
qed

lemma demo_log_accepted:
  "audit_verify (ledger_crypto demo_audit_signed) demo_audit_codec (verifying_key demo_crypto demo_identity) (demo_log [demo_record, demo_next_record])"
  "audit_verify (ledger_crypto demo_audit_signed) demo_audit_codec (verifying_key demo_crypto demo_identity) (demo_log [demo_record])"
proof -
  have r: "ae_record (demo_entry r) = r" for r by (simp add: demo_entry_def)
  have ok: "is_ok (ae_verify (ledger_crypto demo_audit_signed) demo_audit_codec (demo_entry demo_record) (verifying_key demo_crypto demo_identity))"
    "is_ok (ae_verify (ledger_crypto demo_audit_signed) demo_audit_codec (demo_entry demo_next_record) (verifying_key demo_crypto demo_identity))"
    by (rule demo_entry_ok; simp add: demo_next_record_def demo_record_def)+
  have f: "ar_seq demo_record = 0" "ar_prev_sig_hex demo_record = []" "ar_seq demo_next_record = 1"
    "ar_prev_sig_hex demo_next_record = demo_sig_hex" "saturating_add (0 :: u64) 1 = 1"
    by (simp_all add: demo_next_record_def demo_record_def record_with_now_def saturating_add_def)
  show "audit_verify (ledger_crypto demo_audit_signed) demo_audit_codec (verifying_key demo_crypto demo_identity) (demo_log [demo_record, demo_next_record])"
    unfolding audit_verify_iff
    by (intro exI conjI, rule demo_log_parses) (simp add: r ok f demo_first_sig)
  show "audit_verify (ledger_crypto demo_audit_signed) demo_audit_codec (verifying_key demo_crypto demo_identity) (demo_log [demo_record])"
    unfolding audit_verify_iff
    by (intro exI conjI, rule demo_log_parses) (simp add: r ok f)
qed

lemma audit_not_log_report: "AUDIT_SIG_DOMAIN @ rest \<noteq> lr_signing_input_for fp n t"
proof
  assume "AUDIT_SIG_DOMAIN @ rest = lr_signing_input_for fp n t"
  then have "AUDIT_SIG_DOMAIN = LOG_REPORT_DOMAIN"
    unfolding lr_signing_input_for_def by (rule domains_do_not_overlap [rotated 2]) (simp_all add: signing_domains_def)
  then show False by (simp add: domain_defs str_bytes_def)
qed

theorem audit_log_tamper_evident_witness:
  "set (map ae_record [demo_entry demo_record]) \<subseteq> {demo_record, demo_next_record} \<and>
   take 1 (map ae_record (map demo_entry [demo_record, demo_next_record])) = take 1 (map ae_record [demo_entry demo_record])"
proof -
  let ?c = "ledger_crypto demo_audit_signed" and ?vk = "verifying_key demo_crypto demo_identity"
  let ?es = "map demo_entry [demo_record, demo_next_record]" and ?es' = "map demo_entry [demo_record]"
  let ?seen = "{sg. \<exists>e \<in> set (?es @ ?es'). hex_decode ?c (ae_sig_hex e) = Some sg}"
  have seen: "?seen \<subseteq> sign ?c demo_identity ` set demo_audit_signed"
    by (auto simp: demo_entry_def crypto_okD(6) [OF demo_crypto_ok])
  have honest: "unforged ?c ?vk (set demo_audit_signed) ?seen"
    by (rule ledger_unforged [OF _ seen]) simp
  have binds: "m = m'" if "sg \<in> ?seen" "verify_strict ?c ?vk m sg" "verify_strict ?c ?vk m' sg" for m m' sg
  proof -
    from seen that(1) obtain x where x: "sg = sign ?c demo_identity x" "x \<in> set demo_audit_signed" by blast
    have "length demo_audit_signed < 256" by simp
    with ledger_binds [OF _ x(2), of ?vk m demo_identity] ledger_binds [OF _ x(2), of ?vk m' demo_identity] that(2,3) x(1)
    show ?thesis by metis
  qed
  have rec: "\<exists>r \<in> {demo_record, demo_next_record}. ar_signing_input demo_audit_codec r = Inr (AUDIT_SIG_DOMAIN @ rest)"
    if "AUDIT_SIG_DOMAIN @ rest \<in> set demo_audit_signed" for rest
    using that audit_not_log_report by (auto simp: ar_signing_input_def demo_audit_codec_def)
  have len: "length ?es < 2 ^ 64" "length ?es' < 2 ^ 64" by simp_all
  have agree: "set (map ae_record ?es') \<subseteq> {demo_record, demo_next_record} \<and>
    (\<forall>i j. i < length ?es \<and> j < length ?es' \<and> ae_record (?es ! i) = ae_record (?es' ! j) \<longrightarrow>
       i = j \<and> take (Suc i) (map ae_record ?es) = take (Suc i) (map ae_record ?es'))"
    by (rule audit_log_tamper_evident [OF demo_audit_codec_ok demo_log_accepted demo_log_parses demo_log_parses len refl honest])
      (use binds rec in blast)+
  have "take (Suc 0) (map ae_record ?es) = take (Suc 0) (map ae_record ?es')"
    using agree [THEN conjunct2, rule_format, of 0 0] by simp
  with agree [THEN conjunct1] show ?thesis by simp
qed

text \<open>
  A torn write costs the next entry too. If a write stopped half-way, leaving an unterminated piece
  of a line at the end of the log, then the next entry, although \<open>record_signed\<close> reports success, is
  written onto that piece: as long as the two together do not parse, recovery after a restart does
  not see the entry, so its number is given out a second time, and the log never verifies again.
\<close>

theorem torn_write_swallows_entry:
  assumes torn: "fs (js_path sk) = Some f" "body f = s @ r" "terminated s" "plain_line r"
    and k: "audit_codec_ok k"
    and rs: "record_signed c k NoFault partial fs sk i rec = (Inr (), fs', sk')"
    and garbage: "\<forall>l. envelope_parse k (r @ l) = None"
  shows "\<exists>f'. fs' (js_path sk) = Some f' \<and> \<not> audit_verify c k vk (body f') \<and>
    recover_chain_state k NoFault fs' (js_path sk)
      = recover_chain_state k NoFault (fs(js_path sk \<mapsto> f\<lparr>body := s\<rparr>)) (js_path sk)"
proof -
  from rs obtain e l where l: "envelope_json k e = Some l"
    and fs': "fs' = append_file fs (js_path sk) (l @ [NL])"
    by (auto simp: record_signed_def write_line_def Let_def split: sum.splits option.splits)
  have "plain_line l" using k l by (simp add: audit_codec_ok_def)
  then have ln: "lines (body f @ l @ [NL]) = lines s @ [r @ l]"
    using lines_torn [OF torn(3,4)] torn(2) by simp
  have "plain_line (r @ l)" using torn(4) \<open>plain_line l\<close> by (auto simp: plain_line_def)
  then have nb: "trim (r @ l) \<noteq> []" using torn(4) by (simp add: trim_plain plain_line_def)
  with garbage have "\<not> parses_to k (lines s @ [r @ l]) es" for es
    unfolding parses_to_def by (cases es rule: rev_cases) auto
  then have bad: "\<not> audit_verify c k vk (body f @ l @ [NL])" unfolding audit_verify_iff ln by blast
  have rec: "foldl (recover_line k) chain_default (lines (body f @ l @ [NL]))
      = foldl (recover_line k) chain_default (lines s)"
    using garbage nb by (simp add: ln recover_line_def)
  show ?thesis
    using torn(1) bad rec by (simp add: fs' append_file_def recover_chain_state_def)
qed

theorem torn_write_swallows_entry_witness:
  "\<exists>fs' sk' f'. record_signed demo_crypto demo_audit_codec NoFault []
      [[''log''] \<mapsto> \<lparr>mode = 420, body = ''torn''\<rparr>] \<lparr>js_path = [''log''], js_chain = chain_default\<rparr>
      demo_identity demo_record = (Inr (), fs', sk') \<and> fs' [''log''] = Some f' \<and>
    \<not> audit_verify demo_crypto demo_audit_codec (verifying_key demo_crypto demo_identity) (body f')"
proof -
  let ?sk = "\<lparr>js_path = [''log''], js_chain = chain_default\<rparr>"
  let ?fs = "[[''log''] \<mapsto> \<lparr>mode = 420, body = ''torn''\<rparr>]"
  let ?r = "record_signed demo_crypto demo_audit_codec NoFault [] ?fs ?sk demo_identity demo_record"
  have "fst ?r = Inr ()"
    by (simp add: record_signed_def ae_sign_def ar_signing_input_def write_line_def demo_audit_codec_def Let_def)
  then have rs: "?r = (Inr (), fst (snd ?r), snd (snd ?r))" by (simp add: prod_eq_iff)
  have garbage: "\<forall>l. envelope_parse demo_audit_codec (''torn'' @ l) = None"
    by (simp add: demo_audit_codec_def)
  have "\<exists>f'. fst (snd ?r) (js_path ?sk) = Some f' \<and>
      \<not> audit_verify demo_crypto demo_audit_codec (verifying_key demo_crypto demo_identity) (body f')"
    using torn_write_swallows_entry [OF _ _ _ _ demo_audit_codec_ok rs garbage,
        of "\<lparr>mode = 420, body = ''torn''\<rparr>" "[]" "verifying_key demo_crypto demo_identity"]
    by (auto simp: terminated_def plain_line_def is_white_def NL_def)
  then obtain f' where "fst (snd ?r) [''log''] = Some f'"
    "\<not> audit_verify demo_crypto demo_audit_codec (verifying_key demo_crypto demo_identity) (body f')"
    by auto
  with rs show ?thesis by blast
qed

end
