(* ===== verification/Response_Path.thy ===== *)
theory Response_Path
  imports Whisper_Round Response Audit_Log
begin

text \<open>
  How a suggested action reaches an engine. Actions whose policy demands corroboration are parked
  (\<open>crates/bowery-agent/src/pending_actions.rs\<close>) by the handler of the model's verdicts
  (\<open>handle_llm_outcome\<close> in \<open>agent.rs\<close>), released or dropped when a whisper round finishes
  (\<open>finish_round\<close> in \<open>whisper_qa.rs\<close>), and carried out, or recorded as abandoned, by the release task
  (\<open>spawn_action_release_task\<close> in \<open>agent.rs\<close>); the routing of an exec to a round and to the model is
  \<open>process_exec\<close> in \<open>pipeline.rs\<close>.
\<close>

section \<open>Parked actions\<close>

text \<open>Times are readings of a monotonic clock in nanoseconds.\<close>

definition DEFAULT_TTL :: nat where "DEFAULT_TTL = 2 * 60 * 1000000000"

datatype dropped = NotCorroborated | NotComparable | Expired

fun dropped_reason :: "dropped \<Rightarrow> string" where
  "dropped_reason NotCorroborated = ''held for corroboration; the neighbourhood did not confirm''"
| "dropped_reason NotComparable = ''held for corroboration; no peer could compare (different platform)''"
| "dropped_reason Expired = ''held for corroboration; no whisper round confirmed it in time''"

record release =
  rel_episode_id :: string
  rel_action :: action
  rel_dropped :: "dropped option"

record parked =
  pk_actions :: "action list"
  pk_at :: nat

record pending_actions =
  pd_inner :: "(string \<times> parked) list"
  pd_ttl :: nat
  pd_max_tracked :: nat

definition pending_new :: "nat \<Rightarrow> pending_actions" where
  "pending_new ttl = \<lparr>pd_inner = [], pd_ttl = ttl, pd_max_tracked = 1024\<rparr>"

definition oldest_key :: "(string \<times> parked) list \<Rightarrow> string option" where
  "oldest_key inner = (case inner of [] \<Rightarrow> None
     | x # xs \<Rightarrow> Some (fst (foldl (\<lambda>m y. if pk_at (snd y) < pk_at (snd m) then y else m) x xs)))"

definition make_room :: "pending_actions \<Rightarrow> (string \<times> parked) list" where
  "make_room p =
     (if pd_max_tracked p \<le> length (pd_inner p)
      then (case oldest_key (pd_inner p) of None \<Rightarrow> pd_inner p | Some k \<Rightarrow> AList.delete k (pd_inner p))
      else pd_inner p)"

definition park :: "pending_actions \<Rightarrow> string \<Rightarrow> action list \<Rightarrow> nat \<Rightarrow> pending_actions" where
  "park p ep acts now =
     (if acts = [] then p
      else let inner = make_room p
        in p\<lparr>pd_inner := (case map_of inner ep of
             None \<Rightarrow> inner @ [(ep, \<lparr>pk_actions = acts, pk_at = now\<rparr>)]
           | Some e \<Rightarrow> AList.update ep (e\<lparr>pk_actions := pk_actions e @ acts\<rparr>) inner)\<rparr>)"

definition release_held :: "pending_actions \<Rightarrow> string \<Rightarrow> nat \<Rightarrow> action list \<times> pending_actions" where
  "release_held p ep now =
     (case map_of (pd_inner p) ep of
        None \<Rightarrow> ([], p)
      | Some e \<Rightarrow> (if pd_ttl p < now - pk_at e then [] else pk_actions e,
                  p\<lparr>pd_inner := AList.delete ep (pd_inner p)\<rparr>))"

definition discard_held :: "pending_actions \<Rightarrow> string \<Rightarrow> action list \<times> pending_actions" where
  "discard_held p ep =
     (case map_of (pd_inner p) ep of
        None \<Rightarrow> ([], p)
      | Some e \<Rightarrow> (pk_actions e, p\<lparr>pd_inner := AList.delete ep (pd_inner p)\<rparr>))"

definition take_expired :: "pending_actions \<Rightarrow> nat \<Rightarrow> (string \<times> action list) list \<times> pending_actions" where
  "take_expired p now =
     (map (\<lambda>(ep, e). (ep, pk_actions e)) (filter (\<lambda>(_, e). pd_ttl p < now - pk_at e) (pd_inner p)),
      p\<lparr>pd_inner := filter (\<lambda>(_, e). \<not> pd_ttl p < now - pk_at e) (pd_inner p)\<rparr>)"

section \<open>The tasks\<close>

text \<open>
  The state the tasks share: what is parked, the bounded queue between the whisper task and the
  release task, the actions being carried out in tasks of their own, every call of the engine so far,
  what was handed to the audit log, and the host.
\<close>

record hold_state =
  hs_pending :: pending_actions
  hs_queue :: "release list"
  hs_spawned :: "(string \<times> action) list"
  hs_executed :: "(string \<times> action) list"
  hs_log :: "audit_event list"
  hs_host :: host

definition RELEASE_CAPACITY :: nat where "RELEASE_CAPACITY = 256"

fun action_error_string :: "action_error \<Rightarrow> string" where
  "action_error_string (KillFailed pid reason) =
     ''kill_process: signal delivery failed for pid '' @ dec (unat pid) @ '': '' @ reason"
| "action_error_string (Unimplemented i) = ''action `'' @ i @ ''` is not implemented in this engine''"
| "action_error_string (Invalid reason) = ''action input rejected: '' @ reason"

text \<open>Executing an action and recording the attempt; an error is recorded as \<open>Failed\<close>.\<close>

definition attempt :: "os \<Rightarrow> engine \<Rightarrow> string \<Rightarrow> action \<Rightarrow> hold_state \<Rightarrow> hold_state" where
  "attempt os eng ep a s =
     (case execute os eng a (hs_host s) of
        (res, h) \<Rightarrow>
          let outcome = (case res of Inr out \<Rightarrow> out | Inl e \<Rightarrow> Failed (action_error_string e)) in
          s\<lparr>hs_host := h, hs_executed := hs_executed s @ [(ep, a)],
            hs_log := hs_log s @ [Attempt (os_now os) (engine_name eng) ep a outcome]\<rparr>)"

definition process_release :: "os \<Rightarrow> engine \<Rightarrow> release \<Rightarrow> hold_state \<Rightarrow> hold_state" where
  "process_release os eng r s =
     (case rel_dropped r of
        Some why \<Rightarrow> s\<lparr>hs_log := hs_log s @ [Attempt (os_now os) (engine_name eng) (rel_episode_id r)
            (rel_action r) (Suppressed (dropped_reason why))]\<rparr>
      | None \<Rightarrow> attempt os eng (rel_episode_id r) (rel_action r) s)"

text \<open>The loop of \<open>handle_llm_outcome\<close> over the suggested actions of a verdict.\<close>

definition suggest_action ::
    "engine \<Rightarrow> string \<Rightarrow> u32 option \<Rightarrow> string option \<Rightarrow> nat \<Rightarrow> hold_state \<Rightarrow> string \<Rightarrow> hold_state" where
  "suggest_action eng ep pid comm now s i =
     (case from_id i ep pid comm of
        None \<Rightarrow> s
      | Some a \<Rightarrow>
          if needs_corroboration (engine_policy eng) (action_id a)
          then s\<lparr>hs_pending := park (hs_pending s) ep [a] now\<rparr>
          else s\<lparr>hs_spawned := hs_spawned s @ [(ep, a)]\<rparr>)"

text \<open>The part of \<open>finish_round\<close> that settles what is parked; \<open>try_send\<close> drops when the queue is full.\<close>

definition try_send :: "release list \<Rightarrow> release \<Rightarrow> release list" where
  "try_send q r = (if length q < RELEASE_CAPACITY then q @ [r] else q)"

definition settle_round :: "nat \<Rightarrow> whisper_context \<Rightarrow> nat \<Rightarrow> hold_state \<Rightarrow> hold_state" where
  "settle_round quorum ctx now s =
     (let ep = wc_episode_id ctx;
          v = quorum_verdict (wc_peers ctx) quorum;
          (acts, p) = (if confirmed v then release_held (hs_pending s) ep now
                       else discard_held (hs_pending s) ep);
          why = (if confirmed v then None
                 else Some (if nothing_comparable v then NotComparable else NotCorroborated))
      in s\<lparr>hs_pending := p, hs_queue := foldl try_send (hs_queue s)
             (map (\<lambda>a. \<lparr>rel_episode_id = ep, rel_action = a, rel_dropped = why\<rparr>) acts)\<rparr>)"

definition expired_releases :: "(string \<times> action list) list \<Rightarrow> release list" where
  "expired_releases stale = concat (map (\<lambda>(ep, acts). map (\<lambda>a. \<lparr>rel_episode_id = ep, rel_action = a,
     rel_dropped = Some Expired\<rparr>) acts) stale)"

definition sweep_expired :: "os \<Rightarrow> engine \<Rightarrow> nat \<Rightarrow> hold_state \<Rightarrow> hold_state" where
  "sweep_expired os eng now s =
     (case take_expired (hs_pending s) now of
        (stale, p) \<Rightarrow>
          foldl (\<lambda>s r. process_release os eng r s) (s\<lparr>hs_pending := p\<rparr>) (expired_releases stale))"

datatype hold_event =
    HVerdict string "string list" "u32 option" "string option" nat
  | HRound whisper_context nat
  | HRecv os
  | HSweep os nat
  | HSpawned os nat

fun hold_step :: "engine \<Rightarrow> nat \<Rightarrow> hold_state \<Rightarrow> hold_event \<Rightarrow> hold_state" where
  "hold_step eng quorum s (HVerdict ep ids pid comm now) = foldl (suggest_action eng ep pid comm now) s ids"
| "hold_step eng quorum s (HRound ctx now) = settle_round quorum ctx now s"
| "hold_step eng quorum s (HRecv os) =
     (case hs_queue s of [] \<Rightarrow> s | r # q \<Rightarrow> process_release os eng r (s\<lparr>hs_queue := q\<rparr>))"
| "hold_step eng quorum s (HSweep os now) = sweep_expired os eng now s"
| "hold_step eng quorum s (HSpawned os i) =
     (if i < length (hs_spawned s)
      then attempt os eng (fst (hs_spawned s ! i)) (snd (hs_spawned s ! i))
             (s\<lparr>hs_spawned := take i (hs_spawned s) @ drop (Suc i) (hs_spawned s)\<rparr>)
      else s)"

definition hold_init :: "host \<Rightarrow> hold_state" where
  "hold_init h = \<lparr>hs_pending = pending_new DEFAULT_TTL, hs_queue = [], hs_spawned = [], hs_executed = [],
     hs_log = [], hs_host = h\<rparr>"

section \<open>What each operation keeps\<close>

text \<open>The actions parked for an episode, as pairs of the episode and the action.\<close>

definition held :: "pending_actions \<Rightarrow> (string \<times> action) set" where
  "held p = {(ep, a). \<exists>e. (ep, e) \<in> set (pd_inner p) \<and> a \<in> set (pk_actions e)}"

lemma set_delete: "set (AList.delete k xs) = {x \<in> set xs. fst x \<noteq> k}"
  by (auto simp: AList.delete_eq)

lemma set_update_subset: "set (AList.update k v xs) \<subseteq> insert (k, v) (set xs)"
  by (induction xs) auto

lemma park_entries:
  assumes "(ep', e') \<in> set (pd_inner (park p ep acts now))"
  shows "(ep', e') \<in> set (pd_inner p) \<or>
    ep' = ep \<and> (pk_at e' = now \<and> pk_actions e' = acts \<or>
      (\<exists>e. (ep, e) \<in> set (pd_inner p) \<and> pk_at e' = pk_at e \<and> pk_actions e' = pk_actions e @ acts))"
proof (cases "acts = []")
  case False
  define inner where "inner = make_room p"
  have sub: "set inner \<subseteq> set (pd_inner p)" by (auto simp: inner_def make_room_def set_delete split: option.splits)
  have park: "pd_inner (park p ep acts now) = (case map_of inner ep of
      None \<Rightarrow> inner @ [(ep, \<lparr>pk_actions = acts, pk_at = now\<rparr>)]
    | Some e \<Rightarrow> AList.update ep (e\<lparr>pk_actions := pk_actions e @ acts\<rparr>) inner)"
    unfolding inner_def park_def Let_def using False by simp
  show ?thesis
  proof (cases "map_of inner ep")
    case None
    with assms sub park show ?thesis by auto
  next
    case (Some e)
    with assms park set_update_subset [of ep "e\<lparr>pk_actions := pk_actions e @ acts\<rparr>" inner]
    have "(ep', e') \<in> insert (ep, e\<lparr>pk_actions := pk_actions e @ acts\<rparr>) (set inner)" by auto
    moreover have "(ep, e) \<in> set (pd_inner p)" using Some sub map_of_SomeD by fastforce
    ultimately show ?thesis using sub by auto
  qed
qed (use assms in \<open>simp add: park_def\<close>)

lemma park_ttl [simp]: "pd_ttl (park p ep acts now) = pd_ttl p"
  by (simp add: park_def Let_def)

lemma release_held_entries:
  assumes "release_held p ep now = (acts, p')"
  shows "set (pd_inner p') \<subseteq> set (pd_inner p) \<and> pd_ttl p' = pd_ttl p \<and>
    (acts \<noteq> [] \<longrightarrow> (\<exists>e. (ep, e) \<in> set (pd_inner p) \<and> acts = pk_actions e \<and> now - pk_at e \<le> pd_ttl p))"
  using assms
  by (auto simp: release_held_def set_delete split: option.splits if_splits dest: map_of_SomeD)

lemma discard_held_entries:
  assumes "discard_held p ep = (acts, p')"
  shows "set (pd_inner p') \<subseteq> set (pd_inner p) \<and> pd_ttl p' = pd_ttl p"
  using assms by (auto simp: discard_held_def set_delete split: option.splits)

lemma try_send_set: "set (foldl try_send q rs) \<subseteq> set q \<union> set rs"
proof (induction rs arbitrary: q)
  case (Cons r rs)
  have "set (try_send q r) \<subseteq> insert r (set q)" by (auto simp: try_send_def)
  with Cons [of "try_send q r"] show ?case by auto
qed simp

lemma attempt_fields [simp]:
  "hs_pending (attempt os eng ep a s) = hs_pending s" "hs_queue (attempt os eng ep a s) = hs_queue s"
  "hs_spawned (attempt os eng ep a s) = hs_spawned s"
  "hs_executed (attempt os eng ep a s) = hs_executed s @ [(ep, a)]"
  by (simp_all add: attempt_def Let_def split: prod.splits)

lemma process_release_fields [simp]:
  "hs_pending (process_release os eng r s) = hs_pending s" "hs_queue (process_release os eng r s) = hs_queue s"
  "hs_spawned (process_release os eng r s) = hs_spawned s"
  "hs_executed (process_release os eng r s) = hs_executed s @
     (if rel_dropped r = None then [(rel_episode_id r, rel_action r)] else [])"
  by (simp_all add: process_release_def split: option.splits)

lemma process_dropped:
  "\<forall>r \<in> set rs. rel_dropped r \<noteq> None \<Longrightarrow>
   hs_executed (foldl (\<lambda>s r. process_release os eng r s) s rs) = hs_executed s \<and>
   hs_pending (foldl (\<lambda>s r. process_release os eng r s) s rs) = hs_pending s \<and>
   hs_queue (foldl (\<lambda>s r. process_release os eng r s) s rs) = hs_queue s \<and>
   hs_spawned (foldl (\<lambda>s r. process_release os eng r s) s rs) = hs_spawned s"
  by (induction rs arbitrary: s) auto

lemma sweep_fields [simp]:
  "hs_executed (sweep_expired os eng now s) = hs_executed s"
  "hs_pending (sweep_expired os eng now s) = snd (take_expired (hs_pending s) now)"
  "hs_queue (sweep_expired os eng now s) = hs_queue s" "hs_spawned (sweep_expired os eng now s) = hs_spawned s"
proof -
  obtain stale p where t: "take_expired (hs_pending s) now = (stale, p)" by fastforce
  have "\<forall>r \<in> set (expired_releases stale). rel_dropped r \<noteq> None" by (auto simp: expired_releases_def)
  note d = process_dropped [OF this, of os eng "s\<lparr>hs_pending := p\<rparr>"]
  show "hs_executed (sweep_expired os eng now s) = hs_executed s"
    "hs_pending (sweep_expired os eng now s) = snd (take_expired (hs_pending s) now)"
    "hs_queue (sweep_expired os eng now s) = hs_queue s" "hs_spawned (sweep_expired os eng now s) = hs_spawned s"
    using d by (simp_all add: sweep_expired_def t)
qed

section \<open>Only a quorum releases\<close>

definition suggested :: "hold_event list \<Rightarrow> string \<Rightarrow> action \<Rightarrow> bool" where
  "suggested evs ep a \<longleftrightarrow> (\<exists>ids pid comm t i. HVerdict ep ids pid comm t \<in> set evs \<and> i \<in> set ids \<and>
     from_id i ep pid comm = Some a)"

definition judged_at :: "hold_event list \<Rightarrow> string \<Rightarrow> nat \<Rightarrow> bool" where
  "judged_at evs ep t \<longleftrightarrow> (\<exists>ids pid comm. HVerdict ep ids pid comm t \<in> set evs)"

definition corroborated :: "nat \<Rightarrow> nat \<Rightarrow> hold_event list \<Rightarrow> string \<Rightarrow> action \<Rightarrow> bool" where
  "corroborated quorum ttl evs ep a \<longleftrightarrow> (\<exists>before ctx now after t.
     evs = before @ HRound ctx now # after \<and> wc_episode_id ctx = ep \<and>
     confirmed (quorum_verdict (wc_peers ctx) quorum) \<and> suggested before ep a \<and>
     judged_at before ep t \<and> now - t \<le> ttl)"

lemma suggested_mono: "suggested evs ep a \<Longrightarrow> suggested (evs @ es) ep a"
  by (fastforce simp: suggested_def)

lemma judged_mono: "judged_at evs ep t \<Longrightarrow> judged_at (evs @ es) ep t"
  by (fastforce simp: judged_at_def)

lemma corroborated_mono: "corroborated q ttl evs ep a \<Longrightarrow> corroborated q ttl (evs @ es) ep a"
  unfolding corroborated_def by (metis append_Cons append_assoc)

definition hold_inv :: "engine \<Rightarrow> nat \<Rightarrow> hold_event list \<Rightarrow> hold_state \<Rightarrow> bool" where
  "hold_inv eng quorum evs s \<longleftrightarrow> pd_ttl (hs_pending s) = DEFAULT_TTL \<and>
     (\<forall>(ep, e) \<in> set (pd_inner (hs_pending s)). judged_at evs ep (pk_at e) \<and>
        (\<forall>a \<in> set (pk_actions e). suggested evs ep a)) \<and>
     (\<forall>r \<in> set (hs_queue s). rel_dropped r = None \<longrightarrow>
        corroborated quorum DEFAULT_TTL evs (rel_episode_id r) (rel_action r)) \<and>
     (\<forall>(ep, a) \<in> set (hs_spawned s). \<not> needs_corroboration (engine_policy eng) (action_id a)) \<and>
     (\<forall>(ep, a) \<in> set (hs_executed s). needs_corroboration (engine_policy eng) (action_id a) \<longrightarrow>
        corroborated quorum DEFAULT_TTL evs ep a)"

lemma hold_invD:
  assumes "hold_inv eng q evs s"
  shows "pd_ttl (hs_pending s) = DEFAULT_TTL"
    and "(ep, e) \<in> set (pd_inner (hs_pending s)) \<Longrightarrow> judged_at evs ep (pk_at e)"
    and "(ep, e) \<in> set (pd_inner (hs_pending s)) \<Longrightarrow> a \<in> set (pk_actions e) \<Longrightarrow> suggested evs ep a"
    and "r \<in> set (hs_queue s) \<Longrightarrow> rel_dropped r = None \<Longrightarrow>
      corroborated q DEFAULT_TTL evs (rel_episode_id r) (rel_action r)"
    and "(ep, a) \<in> set (hs_spawned s) \<Longrightarrow> \<not> needs_corroboration (engine_policy eng) (action_id a)"
    and "(ep, a) \<in> set (hs_executed s) \<Longrightarrow> needs_corroboration (engine_policy eng) (action_id a) \<Longrightarrow>
      corroborated q DEFAULT_TTL evs ep a"
  using assms unfolding hold_inv_def by blast+

lemma hold_inv_mono: "hold_inv eng q evs s \<Longrightarrow> hold_inv eng q (evs @ es) s"
  unfolding hold_inv_def using suggested_mono judged_mono corroborated_mono by fast

lemma suggest_inv:
  assumes inv: "hold_inv eng q evs s" and ev: "HVerdict ep ids pid comm now \<in> set evs" "i \<in> set ids"
  shows "hold_inv eng q evs (suggest_action eng ep pid comm now s i)"
proof (cases "from_id i ep pid comm")
  case None
  with inv show ?thesis by (simp add: suggest_action_def)
next
  case (Some a)
  have sg: "suggested evs ep a" using ev Some by (auto simp: suggested_def)
  have jd: "judged_at evs ep now" using ev by (auto simp: judged_at_def)
  show ?thesis
  proof (cases "needs_corroboration (engine_policy eng) (action_id a)")
    case True
    have "judged_at evs ep' (pk_at e') \<and> (\<forall>b \<in> set (pk_actions e'). suggested evs ep' b)"
      if "(ep', e') \<in> set (pd_inner (park (hs_pending s) ep [a] now))" for ep' e'
      using park_entries [OF that] hold_invD(2,3) [OF inv] sg jd by auto
    then show ?thesis using inv True Some by (auto simp: hold_inv_def suggest_action_def)
  next
    case False
    with inv Some show ?thesis by (auto simp: hold_inv_def suggest_action_def)
  qed
qed

lemma suggest_all_inv:
  "hold_inv eng q evs s \<Longrightarrow> HVerdict ep ids pid comm now \<in> set evs \<Longrightarrow> set is \<subseteq> set ids \<Longrightarrow>
   hold_inv eng q evs (foldl (suggest_action eng ep pid comm now) s is)"
  by (induction "is" arbitrary: s) (simp_all add: suggest_inv)

lemma settle_inv:
  assumes inv: "hold_inv eng q evs s"
  shows "hold_inv eng q (evs @ [HRound ctx now]) (settle_round q ctx now s)"
proof -
  let ?ep = "wc_episode_id ctx" and ?v = "quorum_verdict (wc_peers ctx) q" and ?evs = "evs @ [HRound ctx now]"
  obtain acts p where ap: "(if confirmed ?v then release_held (hs_pending s) ?ep now
      else discard_held (hs_pending s) ?ep) = (acts, p)" by fastforce
  define why where "why = (if confirmed ?v then None
    else Some (if nothing_comparable ?v then NotComparable else NotCorroborated))"
  let ?rs = "map (\<lambda>a. \<lparr>rel_episode_id = ?ep, rel_action = a, rel_dropped = why\<rparr>) acts"
  have s': "settle_round q ctx now s = s\<lparr>hs_pending := p, hs_queue := foldl try_send (hs_queue s) ?rs\<rparr>"
    unfolding settle_round_def Let_def ap why_def by simp
  have p: "set (pd_inner p) \<subseteq> set (pd_inner (hs_pending s))" "pd_ttl p = pd_ttl (hs_pending s)"
    using ap release_held_entries discard_held_entries by (metis (no_types))+
  have rel: "corroborated q DEFAULT_TTL ?evs ?ep a" if "a \<in> set acts" "why = None" for a
  proof -
    have c: "confirmed ?v" using that(2) by (simp add: why_def split: if_splits)
    with ap that(1) release_held_entries [of "hs_pending s" ?ep now acts p]
    obtain e where e: "(?ep, e) \<in> set (pd_inner (hs_pending s))" "a \<in> set (pk_actions e)"
      "now - pk_at e \<le> DEFAULT_TTL" using hold_invD(1) [OF inv] by auto
    with hold_invD(2,3) [OF inv] have "suggested evs ?ep a" "judged_at evs ?ep (pk_at e)" by blast+
    with c e(3) show ?thesis unfolding corroborated_def by blast
  qed
  have "corroborated q DEFAULT_TTL ?evs (rel_episode_id r) (rel_action r)"
    if "r \<in> set (foldl try_send (hs_queue s) ?rs)" "rel_dropped r = None" for r
    using that try_send_set [of "hs_queue s" ?rs] hold_invD(4) [OF inv] rel corroborated_mono by fastforce
  moreover have "\<forall>x \<in> set (pd_inner p). x \<in> set (pd_inner (hs_pending s))" using p(1) by blast
  ultimately show ?thesis using p(2) hold_inv_mono [OF inv, of "[HRound ctx now]"]
    unfolding s' hold_inv_def by fastforce
qed

lemma hold_step_inv:
  assumes inv: "hold_inv eng q evs s"
  shows "hold_inv eng q (evs @ [ev]) (hold_step eng q s ev)"
proof (cases ev)
  case (HVerdict ep ids pid comm now)
  with hold_inv_mono [OF inv, of "[ev]"] show ?thesis
    using suggest_all_inv [of eng q "evs @ [ev]" s ep ids pid comm now ids] by simp
next
  case (HRound ctx now)
  with settle_inv [OF inv] show ?thesis by simp
next
  case (HRecv os)
  show ?thesis
  proof (cases "hs_queue s")
    case Nil
    with HRecv hold_inv_mono [OF inv] show ?thesis by simp
  next
    case (Cons r qs)
    with HRecv hold_inv_mono [OF inv, of "[ev]"] show ?thesis by (auto simp: hold_inv_def)
  qed
next
  case (HSweep os now)
  with hold_inv_mono [OF inv, of "[ev]"] show ?thesis by (auto simp: hold_inv_def take_expired_def)
next
  case (HSpawned os i)
  show ?thesis
  proof (cases "i < length (hs_spawned s)")
    case True
    then have "hs_spawned s ! i \<in> set (hs_spawned s)" by simp
    then have "\<not> needs_corroboration (engine_policy eng) (action_id (snd (hs_spawned s ! i)))"
      using hold_invD(5) [OF inv] by (metis surjective_pairing)
    moreover have "set (take i (hs_spawned s) @ drop (Suc i) (hs_spawned s)) \<subseteq> set (hs_spawned s)"
      by (auto dest: in_set_takeD in_set_dropD)
    ultimately show ?thesis using True HSpawned hold_inv_mono [OF inv, of "[ev]"]
      by (auto simp: hold_inv_def)
  qed (use HSpawned hold_inv_mono [OF inv] in simp)
qed

lemma hold_run_inv: "hold_inv eng q evs (foldl (hold_step eng q) (hold_init h) evs)"
proof (induction evs rule: rev_induct)
  case Nil
  show ?case by (simp add: hold_inv_def hold_init_def pending_new_def)
next
  case (snoc ev evs)
  from hold_step_inv [OF snoc, of ev] show ?case by simp
qed

section \<open>Nothing is forgotten while there is room\<close>

abbreviation distinct_keys :: "pending_actions \<Rightarrow> bool" where
  "distinct_keys p \<equiv> distinct (map fst (pd_inner p))"

lemma make_room_distinct: "distinct_keys p \<Longrightarrow> distinct (map fst (make_room p))"
  by (auto simp: make_room_def distinct_delete split: option.splits)

lemma park_distinct: "distinct_keys p \<Longrightarrow> distinct_keys (park p ep acts now)"
  using make_room_distinct [of p]
  by (auto simp: park_def Let_def map_of_eq_None_iff distinct_update split: option.splits)

lemma suggest_distinct:
  "distinct_keys (hs_pending s) \<Longrightarrow> distinct_keys (hs_pending (suggest_action eng ep pid comm now s i))"
  by (auto simp: suggest_action_def park_distinct split: option.splits)

lemma suggest_all_distinct:
  "distinct_keys (hs_pending s) \<Longrightarrow>
   distinct_keys (hs_pending (foldl (suggest_action eng ep pid comm now) s is))"
  by (induction "is" arbitrary: s) (simp_all add: suggest_distinct)

lemma settle_distinct:
  "distinct_keys (hs_pending s) \<Longrightarrow> distinct_keys (hs_pending (settle_round q ctx now s))"
  by (auto simp: settle_round_def Let_def release_held_def discard_held_def distinct_delete split: option.splits)

lemma hold_step_distinct:
  "distinct_keys (hs_pending s) \<Longrightarrow> distinct_keys (hs_pending (hold_step eng q s ev))"
  by (cases ev) (auto simp: suggest_all_distinct settle_distinct take_expired_def distinct_map_filter
      split: list.splits)

text \<open>
  The three ways the code loses a held action without a record: the oldest episode is evicted when
  1024 are tracked, \<open>release\<close> returns nothing once the wait is over, and \<open>try_send\<close> drops when 256
  releases are queued. An event has room if none of the three can happen.
\<close>

fun roomy :: "hold_state \<Rightarrow> hold_event \<Rightarrow> bool" where
  "roomy s (HVerdict ep ids pid comm now) \<longleftrightarrow>
     length (pd_inner (hs_pending s)) + length ids \<le> pd_max_tracked (hs_pending s)"
| "roomy s (HRound ctx now) \<longleftrightarrow>
     (case map_of (pd_inner (hs_pending s)) (wc_episode_id ctx) of
        None \<Rightarrow> True
      | Some e \<Rightarrow> now - pk_at e \<le> pd_ttl (hs_pending s) \<and>
          length (hs_queue s) + length (pk_actions e) \<le> RELEASE_CAPACITY)"
| "roomy s _ \<longleftrightarrow> True"

fun roomy_run :: "engine \<Rightarrow> nat \<Rightarrow> hold_state \<Rightarrow> hold_event list \<Rightarrow> bool" where
  "roomy_run eng q s [] \<longleftrightarrow> True"
| "roomy_run eng q s (ev # evs) \<longleftrightarrow> roomy s ev \<and> roomy_run eng q (hold_step eng q s ev) evs"

definition accounted :: "hold_state \<Rightarrow> string \<Rightarrow> action \<Rightarrow> bool" where
  "accounted s ep a \<longleftrightarrow> (ep, a) \<in> held (hs_pending s) \<or>
     (\<exists>r \<in> set (hs_queue s). rel_episode_id r = ep \<and> rel_action r = a) \<or>
     (\<exists>now name out. Attempt now name ep a out \<in> set (hs_log s))"

lemma update_keeps: "set xs \<subseteq> insert (k, the (map_of xs k)) (set (AList.update k v xs))"
  by (induction xs) auto

lemma update_mem: "(k, v) \<in> set (AList.update k v xs)"
  by (induction xs) auto

lemma update_length: "length (AList.update k v xs) \<le> Suc (length xs)"
  by (induction xs) auto

lemma park_held:
  assumes "length (pd_inner p) < pd_max_tracked p"
  shows "held p \<union> {ep} \<times> set acts \<subseteq> held (park p ep acts now)"
    "length (pd_inner (park p ep acts now)) \<le> Suc (length (pd_inner p))"
    "pd_max_tracked (park p ep acts now) = pd_max_tracked p"
proof -
  have room: "make_room p = pd_inner p" using assms by (simp add: make_room_def)
  show "held p \<union> {ep} \<times> set acts \<subseteq> held (park p ep acts now)"
  proof (cases "acts = []")
    case True
    then show ?thesis by (simp add: park_def)
  next
    case ne: False
    show ?thesis
    proof (cases "map_of (pd_inner p) ep")
      case None
      with ne room show ?thesis by (auto simp: park_def Let_def held_def)
    next
      case (Some e)
      let ?e = "e\<lparr>pk_actions := pk_actions e @ acts\<rparr>"
      have "(ep, ?e) \<in> set (AList.update ep ?e (pd_inner p))" by (rule update_mem)
      moreover have "set (pd_inner p) \<subseteq> insert (ep, e) (set (AList.update ep ?e (pd_inner p)))"
        using update_keeps [of "pd_inner p" ep ?e] Some by simp
      ultimately show ?thesis using ne room Some by (fastforce simp: park_def Let_def held_def)
    qed
  qed
  show "length (pd_inner (park p ep acts now)) \<le> Suc (length (pd_inner p))"
    "pd_max_tracked (park p ep acts now) = pd_max_tracked p"
    using room by (auto simp: park_def Let_def update_length split: option.splits)
qed

lemma suggest_accounted:
  assumes "length (pd_inner (hs_pending s)) < pd_max_tracked (hs_pending s)"
  shows "accounted s ep' a' \<Longrightarrow> accounted (suggest_action eng ep pid comm now s i) ep' a'"
    and "from_id i ep pid comm = Some a \<Longrightarrow> needs_corroboration (engine_policy eng) (action_id a) \<Longrightarrow>
      accounted (suggest_action eng ep pid comm now s i) ep a"
    and "length (pd_inner (hs_pending (suggest_action eng ep pid comm now s i))) \<le>
      Suc (length (pd_inner (hs_pending s)))"
    and "pd_max_tracked (hs_pending (suggest_action eng ep pid comm now s i)) = pd_max_tracked (hs_pending s)"
proof -
  note p = park_held [OF assms, of ep _ now]
  show "accounted s ep' a' \<Longrightarrow> accounted (suggest_action eng ep pid comm now s i) ep' a'"
    using p(1) by (auto simp: suggest_action_def accounted_def split: option.splits)
  show "from_id i ep pid comm = Some a \<Longrightarrow> needs_corroboration (engine_policy eng) (action_id a) \<Longrightarrow>
      accounted (suggest_action eng ep pid comm now s i) ep a"
    using p(1) [of "[a]"] by (auto simp: suggest_action_def accounted_def)
  show "length (pd_inner (hs_pending (suggest_action eng ep pid comm now s i))) \<le>
      Suc (length (pd_inner (hs_pending s)))"
    "pd_max_tracked (hs_pending (suggest_action eng ep pid comm now s i)) = pd_max_tracked (hs_pending s)"
    using p(2,3) by (auto simp: suggest_action_def split: option.splits)
qed

lemma suggest_all_accounted:
  "length (pd_inner (hs_pending s)) + length is \<le> pd_max_tracked (hs_pending s) \<Longrightarrow>
   (accounted s ep' a' \<longrightarrow> accounted (foldl (suggest_action eng ep pid comm now) s is) ep' a') \<and>
   (\<forall>i \<in> set is. \<forall>a. from_id i ep pid comm = Some a \<longrightarrow> needs_corroboration (engine_policy eng) (action_id a) \<longrightarrow>
      accounted (foldl (suggest_action eng ep pid comm now) s is) ep a)"
proof (induction "is" arbitrary: s ep' a')
  case (Cons j js)
  let ?s = "suggest_action eng ep pid comm now s j"
  have lt: "length (pd_inner (hs_pending s)) < pd_max_tracked (hs_pending s)" using Cons.prems by simp
  note sa = suggest_accounted [OF lt, where i = j and eng = eng and ep = ep and pid = pid and comm = comm and now = now]
  have "length (pd_inner (hs_pending ?s)) + length js \<le> pd_max_tracked (hs_pending ?s)"
    using sa(3,4) Cons.prems by simp
  note ih = Cons.IH [OF this]
  show ?case using ih sa(1,2) by auto
qed simp

lemma try_send_keeps:
  "set q \<subseteq> set (foldl try_send q rs) \<and> (length q + length rs \<le> RELEASE_CAPACITY \<longrightarrow> foldl try_send q rs = q @ rs)"
proof (induction rs arbitrary: q)
  case (Cons r rs)
  from Cons [of "try_send q r"] show ?case by (auto simp: try_send_def)
qed simp

lemma settle_accounted:
  assumes d: "distinct_keys (hs_pending s)" and room: "roomy s (HRound ctx now)" and acc: "accounted s ep a"
  shows "accounted (settle_round q ctx now s) ep a"
proof (cases "map_of (pd_inner (hs_pending s)) (wc_episode_id ctx)")
  case None
  with acc show ?thesis
    by (auto simp: settle_round_def Let_def release_held_def discard_held_def accounted_def)
next
  case (Some e)
  define why where "why = (if confirmed (quorum_verdict (wc_peers ctx) q) then None
    else Some (if nothing_comparable (quorum_verdict (wc_peers ctx) q) then NotComparable else NotCorroborated))"
  let ?rs = "map (\<lambda>a. \<lparr>rel_episode_id = wc_episode_id ctx, rel_action = a, rel_dropped = why\<rparr>) (pk_actions e)"
  have s': "settle_round q ctx now s = s\<lparr>hs_pending := (hs_pending s)\<lparr>pd_inner :=
      AList.delete (wc_episode_id ctx) (pd_inner (hs_pending s))\<rparr>, hs_queue := foldl try_send (hs_queue s) ?rs\<rparr>"
    using Some room by (simp add: settle_round_def Let_def release_held_def discard_held_def why_def)
  have q: "foldl try_send (hs_queue s) ?rs = hs_queue s @ ?rs"
    using room Some try_send_keeps [of "hs_queue s" ?rs] by simp
  have "e' = e" if "(wc_episode_id ctx, e') \<in> set (pd_inner (hs_pending s))" for e'
    using that Some d by simp
  then have "(ep, a) \<in> held (hs_pending s) \<Longrightarrow> (ep, a) \<notin> held (hs_pending (settle_round q ctx now s)) \<Longrightarrow>
      \<lparr>rel_episode_id = ep, rel_action = a, rel_dropped = why\<rparr> \<in> set ?rs"
    by (auto simp: held_def s' set_delete)
  moreover have "hs_queue (settle_round q ctx now s) = hs_queue s @ ?rs" "hs_log (settle_round q ctx now s) = hs_log s"
    by (simp_all add: s' q)
  ultimately show ?thesis using acc unfolding accounted_def
    by (metis (no_types, lifting) Un_iff set_append release.select_convs(1,2))
qed

lemma attempt_log:
  "set (hs_log s) \<subseteq> set (hs_log (attempt os eng ep a s))"
  "\<exists>now name out. Attempt now name ep a out \<in> set (hs_log (attempt os eng ep a s))"
  by (auto simp: attempt_def Let_def split: prod.splits)

lemma process_log:
  "set (hs_log s) \<subseteq> set (hs_log (process_release os eng r s))"
  "\<exists>now name out. Attempt now name (rel_episode_id r) (rel_action r) out \<in> set (hs_log (process_release os eng r s))"
  using attempt_log [where s = s and os = os and eng = eng and ep = "rel_episode_id r" and a = "rel_action r"]
  by (auto simp: process_release_def split: option.splits)

lemma process_all_log:
  "set (hs_log s) \<subseteq> set (hs_log (foldl (\<lambda>s r. process_release os eng r s) s rs)) \<and>
   (\<forall>r \<in> set rs. \<exists>now name out. Attempt now name (rel_episode_id r) (rel_action r) out
      \<in> set (hs_log (foldl (\<lambda>s r. process_release os eng r s) s rs)))"
proof (induction rs arbitrary: s)
  case (Cons r rs)
  from Cons [of "process_release os eng r s"] process_log [where s = s and os = os and eng = eng and r = r] show ?case by fastforce
qed simp

lemma sweep_accounted:
  assumes "accounted s ep a"
  shows "accounted (sweep_expired os eng now s) ep a"
proof -
  obtain stale p where t: "take_expired (hs_pending s) now = (stale, p)" by fastforce
  let ?s = "sweep_expired os eng now s"
  have log: "set (hs_log s) \<subseteq> set (hs_log ?s)"
    "\<forall>r \<in> set (expired_releases stale). \<exists>now name out.
       Attempt now name (rel_episode_id r) (rel_action r) out \<in> set (hs_log ?s)"
    using process_all_log [of "s\<lparr>hs_pending := p\<rparr>" os eng "expired_releases stale"]
    by (simp_all add: sweep_expired_def t)
  have "\<lparr>rel_episode_id = ep, rel_action = a, rel_dropped = Some Expired\<rparr> \<in> set (expired_releases stale)"
    if "(ep, a) \<in> held (hs_pending s)" "(ep, a) \<notin> held (hs_pending ?s)"
  proof -
    from that(1) obtain e where e: "(ep, e) \<in> set (pd_inner (hs_pending s))" "a \<in> set (pk_actions e)"
      by (auto simp: held_def)
    with that(2) have "pd_ttl (hs_pending s) < now - pk_at e"
      by (auto simp: held_def take_expired_def)
    with e t show ?thesis by (force simp: take_expired_def expired_releases_def)
  qed
  then show ?thesis using assms log unfolding accounted_def by fastforce
qed

lemma hold_step_accounted:
  assumes "distinct_keys (hs_pending s)" "roomy s ev" "accounted s ep a"
  shows "accounted (hold_step eng q s ev) ep a"
proof (cases ev)
  case (HVerdict ep' ids pid comm now)
  with assms suggest_all_accounted [of s ids ep a] show ?thesis by simp
next
  case (HRound ctx now)
  with settle_accounted [of s ctx now ep a] assms show ?thesis by simp
next
  case (HRecv os)
  show ?thesis
  proof (cases "hs_queue s")
    case (Cons r qs)
    with HRecv assms(3) process_log [where s = "s\<lparr>hs_queue := qs\<rparr>" and os = os and eng = eng and r = r] show ?thesis
      by (fastforce simp: accounted_def)
  qed (use HRecv assms(3) in simp)
next
  case (HSweep os now)
  with sweep_accounted [OF assms(3)] show ?thesis by simp
next
  case (HSpawned os i)
  with assms(3) show ?thesis
    using attempt_log(1) [of "s\<lparr>hs_spawned := take i (hs_spawned s) @ drop (Suc i) (hs_spawned s)\<rparr>" os eng
      "fst (hs_spawned s ! i)" "snd (hs_spawned s ! i)"]
    by (auto simp: accounted_def)
qed

lemma hold_run_accounted:
  "distinct_keys (hs_pending s) \<Longrightarrow> roomy_run eng q s evs \<Longrightarrow>
   accounted s ep a \<or> suggested evs ep a \<and> needs_corroboration (engine_policy eng) (action_id a) \<Longrightarrow>
   accounted (foldl (hold_step eng q) s evs) ep a"
proof (induction evs arbitrary: s)
  case Nil
  then show ?case by (simp add: suggested_def)
next
  case (Cons ev evs)
  let ?s = "hold_step eng q s ev"
  have room: "roomy s ev" and run: "roomy_run eng q ?s evs" using Cons.prems by simp_all
  have "accounted ?s ep a \<or> suggested evs ep a \<and> needs_corroboration (engine_policy eng) (action_id a)"
  proof (cases "accounted s ep a")
    case True
    with hold_step_accounted Cons.prems(1) room show ?thesis by blast
  next
    case False
    with Cons.prems(3) have sg: "suggested (ev # evs) ep a" and n: "needs_corroboration (engine_policy eng) (action_id a)"
      by simp_all
    show ?thesis
    proof (cases "suggested evs ep a")
      case False
      with sg obtain ids pid comm t i where ev: "ev = HVerdict ep ids pid comm t" "i \<in> set ids"
        "from_id i ep pid comm = Some a" unfolding suggested_def by (metis set_ConsD)
      with room suggest_all_accounted [of s ids] n show ?thesis by simp
    qed (use n in simp)
  qed
  with Cons.IH [OF hold_step_distinct [OF Cons.prems(1)] run] show ?case by simp
qed

lemma drain_queue:
  "length (hs_queue s) \<le> n \<Longrightarrow>
   hs_queue (foldl (hold_step eng q) s (replicate n (HRecv os))) = [] \<and>
   hs_pending (foldl (hold_step eng q) s (replicate n (HRecv os))) = hs_pending s"
proof (induction n arbitrary: s)
  case (Suc n)
  then show ?case by (cases "hs_queue s") simp_all
qed simp

lemma roomy_recv: "roomy_run eng q s (replicate n (HRecv os))"
  by (induction n arbitrary: s) simp_all

section \<open>Where the rounds and the verdicts come from\<close>

text \<open>
  An exec that reaches the whisper threshold goes to a round, which hands it to the model when it is
  over; one that only reaches the model's threshold goes to the model directly, and so does a file
  finding. Episode identifiers are made from the process and the time of the event, so each is used
  for one event. A round may be shed before it starts, and a model's job may be lost. \<open>flow_step\<close> lets the
  tasks of the agent take their steps in any order: the pipeline routes an exec or a file finding, the
  task of \<open>whisper_qa.rs\<close> takes a trigger and sheds it or runs its round, the worker of the model answers,
  and the release task receives, sweeps and runs.
\<close>

record flow_config =
  fc_whisper_threshold :: f32
  fc_llm_threshold :: f32

record agent_flow =
  fl_used :: "string list"
  fl_triggers :: "(string \<times> f32) list"
  fl_llm :: "string list"
  fl_hold :: hold_state

definition route_exec :: "flow_config \<Rightarrow> string \<Rightarrow> f32 \<Rightarrow> agent_flow \<Rightarrow> agent_flow" where
  "route_exec cfg ep suspicion s =
     (let going_through_whisper = f32_le (fc_whisper_threshold cfg) suspicion in
      s\<lparr>fl_used := ep # fl_used s,
        fl_triggers := (if going_through_whisper then fl_triggers s @ [(ep, suspicion)] else fl_triggers s),
        fl_llm := (if \<not> going_through_whisper \<and> f32_le (fc_llm_threshold cfg) suspicion
                   then fl_llm s @ [ep] else fl_llm s)\<rparr>)"

definition finish_round :: "flow_config \<Rightarrow> nat \<Rightarrow> f32 \<Rightarrow> whisper_context \<Rightarrow> nat \<Rightarrow> agent_flow \<Rightarrow> agent_flow" where
  "finish_round cfg quorum suspicion ctx now s =
     s\<lparr>fl_hold := settle_round quorum ctx now (fl_hold s),
       fl_llm := (if f32_le (fc_llm_threshold cfg) suspicion then fl_llm s @ [wc_episode_id ctx] else fl_llm s)\<rparr>"

inductive flow_step :: "flow_config \<Rightarrow> engine \<Rightarrow> nat \<Rightarrow> agent_flow \<Rightarrow> agent_flow \<Rightarrow> bool"
  for cfg eng quorum where
  exec: "ep \<notin> set (fl_used s) \<Longrightarrow> flow_step cfg eng quorum s (route_exec cfg ep suspicion s)"
| file_finding: "ep \<notin> set (fl_used s) \<Longrightarrow>
    flow_step cfg eng quorum s (s\<lparr>fl_used := ep # fl_used s, fl_llm := fl_llm s @ [ep]\<rparr>)"
| round_shed: "x \<in> set (fl_triggers s) \<Longrightarrow>
    flow_step cfg eng quorum s (s\<lparr>fl_triggers := remove1 x (fl_triggers s)\<rparr>)"
| round_done: "(wc_episode_id ctx, suspicion) \<in> set (fl_triggers s) \<Longrightarrow>
    flow_step cfg eng quorum s (finish_round cfg quorum suspicion ctx now
      (s\<lparr>fl_triggers := remove1 (wc_episode_id ctx, suspicion) (fl_triggers s)\<rparr>))"
| verdict_lost: "ep \<in> set (fl_llm s) \<Longrightarrow>
    flow_step cfg eng quorum s (s\<lparr>fl_llm := remove1 ep (fl_llm s)\<rparr>)"
| verdict: "ep \<in> set (fl_llm s) \<Longrightarrow>
    flow_step cfg eng quorum s (s\<lparr>fl_llm := remove1 ep (fl_llm s),
      fl_hold := hold_step eng quorum (fl_hold s) (HVerdict ep ids pid comm now)\<rparr>)"
| recv: "flow_step cfg eng quorum s (s\<lparr>fl_hold := hold_step eng quorum (fl_hold s) (HRecv os)\<rparr>)"
| sweep: "flow_step cfg eng quorum s (s\<lparr>fl_hold := hold_step eng quorum (fl_hold s) (HSweep os now)\<rparr>)"
| spawned: "flow_step cfg eng quorum s (s\<lparr>fl_hold := hold_step eng quorum (fl_hold s) (HSpawned os i)\<rparr>)"

definition flow_init :: "host \<Rightarrow> agent_flow" where
  "flow_init h = \<lparr>fl_used = [], fl_triggers = [], fl_llm = [], fl_hold = hold_init h\<rparr>"

inductive flow_reachable :: "flow_config \<Rightarrow> engine \<Rightarrow> nat \<Rightarrow> host \<Rightarrow> agent_flow \<Rightarrow> bool"
  for cfg eng quorum h where
  start: "flow_reachable cfg eng quorum h (flow_init h)"
| step: "flow_reachable cfg eng quorum h s \<Longrightarrow> flow_step cfg eng quorum s s' \<Longrightarrow>
    flow_reachable cfg eng quorum h s'"

definition parked_episodes :: "agent_flow \<Rightarrow> string set" where
  "parked_episodes s = fst ` set (pd_inner (hs_pending (fl_hold s)))"

definition no_release :: "engine \<Rightarrow> hold_state \<Rightarrow> bool" where
  "no_release eng s \<longleftrightarrow> (\<forall>r \<in> set (hs_queue s). rel_dropped r \<noteq> None) \<and>
     (\<forall>(ep, a) \<in> set (hs_spawned s) \<union> set (hs_executed s). \<not> needs_corroboration (engine_policy eng) (action_id a))"

text \<open>While an episode waits for its round, the model has not seen it and nothing is parked for it.\<close>

definition flow_inv :: "engine \<Rightarrow> agent_flow \<Rightarrow> bool" where
  "flow_inv eng s \<longleftrightarrow> distinct (map fst (fl_triggers s)) \<and>
     fst ` set (fl_triggers s) \<union> set (fl_llm s) \<union> parked_episodes s \<subseteq> set (fl_used s) \<and>
     fst ` set (fl_triggers s) \<inter> (set (fl_llm s) \<union> parked_episodes s) = {} \<and> no_release eng (fl_hold s)"

lemma suggest_flow:
  assumes "no_release eng s"
  shows "no_release eng (foldl (suggest_action eng ep pid comm now) s ids) \<and>
    fst ` set (pd_inner (hs_pending (foldl (suggest_action eng ep pid comm now) s ids)))
      \<subseteq> insert ep (fst ` set (pd_inner (hs_pending s)))"
  using assms
proof (induction ids arbitrary: s)
  case (Cons i ids)
  let ?s = "suggest_action eng ep pid comm now s i"
  have "no_release eng ?s" using Cons.prems by (auto simp: suggest_action_def no_release_def split: option.splits)
  moreover have "fst ` set (pd_inner (hs_pending ?s)) \<subseteq> insert ep (fst ` set (pd_inner (hs_pending s)))"
  proof
    fix k assume "k \<in> fst ` set (pd_inner (hs_pending ?s))"
    then obtain e where e: "(k, e) \<in> set (pd_inner (hs_pending ?s))" by force
    show "k \<in> insert ep (fst ` set (pd_inner (hs_pending s)))"
    proof (cases "from_id i ep pid comm")
      case (Some a)
      have "k = ep \<or> (k, e) \<in> set (pd_inner (hs_pending s))"
        using e Some park_entries [of k e "hs_pending s" ep "[a]" now]
        by (auto simp: suggest_action_def split: if_splits)
      then show ?thesis by force
    qed (use e in \<open>force simp: suggest_action_def\<close>)
  qed
  ultimately show ?case using Cons.IH [of ?s] unfolding foldl.simps by blast
qed auto

lemma settle_nothing_parked:
  "wc_episode_id ctx \<notin> fst ` set (pd_inner (hs_pending s)) \<Longrightarrow> settle_round q ctx now s = s"
proof -
  assume "wc_episode_id ctx \<notin> fst ` set (pd_inner (hs_pending s))"
  then have "map_of (pd_inner (hs_pending s)) (wc_episode_id ctx) = None" by (simp add: map_of_eq_None_iff)
  then show ?thesis by (simp add: settle_round_def Let_def release_held_def discard_held_def)
qed

lemma hold_step_no_release:
  assumes "no_release eng s" and "\<And>ctx now. ev \<noteq> HRound ctx now"
  shows "no_release eng (hold_step eng q s ev)"
proof (cases ev)
  case (HVerdict ep ids pid comm now)
  with suggest_flow [OF assms(1)] show ?thesis by simp
next
  case (HRecv os)
  with assms show ?thesis by (auto simp: no_release_def split: list.splits)
next
  case (HSweep os now)
  with assms show ?thesis by (auto simp: no_release_def)
next
  case (HSpawned os i)
  show ?thesis
  proof (cases "i < length (hs_spawned s)")
    case True
    let ?rest = "take i (hs_spawned s) @ drop (Suc i) (hs_spawned s)"
    have "set ?rest \<subseteq> set (hs_spawned s)" "hs_spawned s ! i \<in> set (hs_spawned s)"
      using True by (auto dest: in_set_takeD in_set_dropD)
    then have "\<forall>(ep, a) \<in> set ?rest \<union> set (hs_executed s @ [hs_spawned s ! i]).
        \<not> needs_corroboration (engine_policy eng) (action_id a)"
      using assms(1) unfolding no_release_def by (simp del: append_take_drop_id) blast
    then show ?thesis using assms(1) True HSpawned unfolding no_release_def by simp
  qed (use assms HSpawned in simp)
qed (use assms in simp)

lemma flow_inv_shrink:
  assumes "flow_inv eng s" "no_release eng (fl_hold s')" "fl_triggers s' = fl_triggers s" "fl_used s' = fl_used s"
    and "set (fl_llm s') \<subseteq> set (fl_llm s)" "parked_episodes s' \<subseteq> parked_episodes s \<union> set (fl_llm s)"
  shows "flow_inv eng s'"
  using assms unfolding flow_inv_def by auto

lemma background_flow:
  assumes "flow_inv eng s" "ev = HRecv os \<or> ev = HSweep os now \<or> ev = HSpawned os i"
  shows "flow_inv eng (s\<lparr>fl_hold := hold_step eng q (fl_hold s) ev\<rparr>)"
proof -
  have "parked_episodes (s\<lparr>fl_hold := hold_step eng q (fl_hold s) ev\<rparr>) \<subseteq> parked_episodes s"
    using assms(2) by (auto simp: parked_episodes_def take_expired_def split: list.splits if_splits)
  moreover have "no_release eng (hold_step eng q (fl_hold s) ev)"
    using assms hold_step_no_release [of eng "fl_hold s" ev q] by (auto simp: flow_inv_def)
  ultimately show ?thesis using assms(1) by - (rule flow_inv_shrink [of eng s], auto)
qed

lemma remove_trigger:
  assumes "distinct (map fst ts)" "x \<in> set ts"
  shows "distinct (map fst (remove1 x ts))" "fst ` set (remove1 x ts) = fst ` set ts - {fst x}"
proof -
  have d: "distinct ts" using assms(1) by (simp add: distinct_map)
  then have r: "set (remove1 x ts) = set ts - {x}" by (rule set_remove1_eq)
  have inj: "inj_on fst (set ts)" using assms(1) by (simp add: distinct_map)
  show "distinct (map fst (remove1 x ts))"
    using d inj r by (simp add: distinct_map distinct_remove1 inj_on_diff)
  show "fst ` set (remove1 x ts) = fst ` set ts - {fst x}"
    using inj assms(2) r by (simp add: inj_on_image_set_diff)
qed

lemma flow_step_inv:
  assumes "flow_step cfg eng q s s'" "flow_inv eng s"
  shows "flow_inv eng s'"
  using assms
proof (induction rule: flow_step.induct)
  case (exec ep s suspicion)
  then show ?case by (auto simp: flow_inv_def route_exec_def Let_def parked_episodes_def)
next
  case (file_finding ep s)
  then show ?case by (auto simp: flow_inv_def parked_episodes_def)
next
  case (round_shed x s)
  then show ?case using remove_trigger [of "fl_triggers s" x] by (auto simp: flow_inv_def parked_episodes_def)
next
  case (round_done ctx suspicion s now)
  let ?ep = "wc_episode_id ctx" and ?s = "s\<lparr>fl_triggers := remove1 (wc_episode_id ctx, suspicion) (fl_triggers s)\<rparr>"
  have "?ep \<in> fst ` set (fl_triggers s)" using round_done.hyps by force
  then have "?ep \<notin> parked_episodes s" "?ep \<in> set (fl_used s)" using round_done.prems by (auto simp: flow_inv_def)
  then have "fl_hold (finish_round cfg q suspicion ctx now ?s) = fl_hold s"
    by (simp add: finish_round_def settle_nothing_parked parked_episodes_def)
  then show ?case
    using round_done.prems remove_trigger [OF _ round_done.hyps] \<open>?ep \<in> set (fl_used s)\<close>
    by (auto simp: flow_inv_def parked_episodes_def finish_round_def)
next
  case (verdict_lost ep s)
  moreover have "set (remove1 ep (fl_llm s)) \<subseteq> set (fl_llm s)" by (rule set_remove1_subset)
  ultimately show ?case by - (rule flow_inv_shrink [of eng s], auto simp: flow_inv_def parked_episodes_def)
next
  case (verdict ep s ids pid comm now)
  let ?h = "hold_step eng q (fl_hold s) (HVerdict ep ids pid comm now)"
  have llm: "set (remove1 ep (fl_llm s)) \<subseteq> set (fl_llm s)" by (rule set_remove1_subset)
  have "no_release eng ?h"
    "fst ` set (pd_inner (hs_pending ?h)) \<subseteq> insert ep (fst ` set (pd_inner (hs_pending (fl_hold s))))"
    using verdict.prems suggest_flow [of eng "fl_hold s"] by (simp_all add: flow_inv_def)
  with verdict llm show ?case
    by - (rule flow_inv_shrink [of eng s], simp_all add: parked_episodes_def, blast)
next
  case (recv s os)
  then show ?case using background_flow by blast
next
  case (sweep s os now)
  then show ?case using background_flow by blast
next
  case (spawned s os i)
  then show ?case using background_flow by blast
qed

lemma flow_reachable_inv: "flow_reachable cfg eng q h s \<Longrightarrow> flow_inv eng s"
proof (induction rule: flow_reachable.induct)
  case start
  show ?case
    by (simp add: flow_inv_def flow_init_def hold_init_def pending_new_def parked_episodes_def no_release_def)
next
  case (step s s')
  then show ?case by (blast intro: flow_step_inv)
qed

section \<open>Properties\<close>

text \<open>
  C6. An action that must wait for the fleet is carried out only after the fleet confirmed it. In any
  interleaving of verdicts, finished rounds, releases, sweeps and spawned tasks: if the engine was
  called with an action that needs corroboration, then the quorum is enabled, the model suggested
  that action for that episode, and a later round for the same episode was confirmed, at most the
  waiting time after the first verdict that parked something for it.
\<close>

theorem held_actions_need_quorum:
  assumes "(ep, a) \<in> set (hs_executed (foldl (hold_step eng quorum) (hold_init h) evs))"
    and "needs_corroboration (engine_policy eng) (action_id a)"
  shows "0 < quorum \<and> corroborated quorum DEFAULT_TTL evs ep a"
proof -
  from hold_invD(6) [OF hold_run_inv assms] have c: "corroborated quorum DEFAULT_TTL evs ep a" .
  then obtain ctx :: whisper_context where "confirmed (quorum_verdict (wc_peers ctx) quorum)"
    unfolding corroborated_def by blast
  then have "0 < quorum" by (simp add: quorum_verdict_def Let_def)
  with c show ?thesis by simp
qed

definition cautious_engine :: engine where
  "cautious_engine = NoopEngine \<lparr>allowed_actions = [''kill_process''], disabled = False,
     block_exec_deny_list = [], require_corroboration = [''kill_process'']\<rparr>"

definition demo_round :: whisper_context where
  "demo_round = round_context ''e'' ''x86_64/linux'' [] [(demo_peer demo_vk, Fin 1, Inr demo_denial)]"

lemma demo_round_confirmed: "confirmed (quorum_verdict (wc_peers demo_round) 1)"
  unfolding demo_round_def by (subst confirmed_by_denials) (simp_all add: is_denial_def demo_denial_def)

lemma demo_round_episode [simp]: "wc_episode_id demo_round = ''e''"
  by (simp add: demo_round_def round_context_def Let_def)

abbreviation demo_held :: "hold_event list" where
  "demo_held \<equiv> [HVerdict ''e'' [''kill_process''] (Some 42) None 5]"

lemma cautious_needs: "needs_corroboration (engine_policy cautious_engine) ''kill_process''"
  by (simp add: cautious_engine_def needs_corroboration_def)

lemma demo_parked:
  "foldl (hold_step cautious_engine q) (hold_init h) demo_held =
     (hold_init h)\<lparr>hs_pending := \<lparr>pd_inner = [(''e'', \<lparr>pk_actions = [KillProcess 42 ''e''], pk_at = 5\<rparr>)],
       pd_ttl = DEFAULT_TTL, pd_max_tracked = 1024\<rparr>\<rparr>"
  using cautious_needs
  by (simp add: suggest_action_def from_id_def park_def make_room_def hold_init_def pending_new_def Let_def)

theorem held_actions_need_quorum_witness:
  "let evs = demo_held @ [HRound demo_round 9, HRecv demo_os] in
   (''e'', KillProcess 42 ''e'') \<in> set (hs_executed (foldl (hold_step cautious_engine 1) (hold_init demo_host) evs)) \<and>
   corroborated 1 DEFAULT_TTL evs ''e'' (KillProcess 42 ''e'')"
proof -
  let ?evs = "demo_held @ [HRound demo_round 9, HRecv demo_os]"
  have "hs_executed (foldl (hold_step cautious_engine 1) (hold_init demo_host) ?evs) = [(''e'', KillProcess 42 ''e'')]"
    unfolding foldl_append demo_parked
    by (simp add: settle_round_def Let_def demo_round_confirmed release_held_def try_send_def
        RELEASE_CAPACITY_def hold_init_def DEFAULT_TTL_def del: One_nat_def)
  then have x: "(''e'', KillProcess 42 ''e'') \<in> set (hs_executed (foldl (hold_step cautious_engine 1) (hold_init demo_host) ?evs))"
    by simp
  have "needs_corroboration (engine_policy cautious_engine) (action_id (KillProcess 42 ''e''))"
    using cautious_needs by simp
  from held_actions_need_quorum [OF x this] x show ?thesis unfolding Let_def by blast
qed

text \<open>
  A held action is settled. Consider a run in which the bounds are never hit: the store has room
  for what is parked, no round confirms after the waiting time, and the release queue has room. Then
  after one sweep at which everything parked has waited too long, and one pass over the queue, every
  action that was ever suggested and had to wait is in the audit log, executed or with the reason it
  was not, and nothing is parked or queued any more.
\<close>

theorem held_actions_are_settled:
  assumes room: "roomy_run eng quorum (hold_init h) evs"
    and sug: "suggested evs ep a" "needs_corroboration (engine_policy eng) (action_id a)"
    and s: "s = foldl (hold_step eng quorum) (hold_init h) evs"
    and late: "\<forall>(_, e) \<in> set (pd_inner (hs_pending s)). DEFAULT_TTL < now - pk_at e"
    and n: "length (hs_queue s) \<le> n"
  shows "let s' = foldl (hold_step eng quorum) s (HSweep os now # replicate n (HRecv os)) in
    (\<exists>t name out. Attempt t name ep a out \<in> set (hs_log s')) \<and> pd_inner (hs_pending s') = [] \<and> hs_queue s' = []"
proof -
  let ?s1 = "hold_step eng quorum s (HSweep os now)"
  let ?s2 = "foldl (hold_step eng quorum) ?s1 (replicate n (HRecv os))"
  have d: "distinct_keys (hs_pending s)"
    unfolding s by (induction evs rule: rev_induct) (simp_all add: hold_init_def pending_new_def hold_step_distinct)
  have "accounted s ep a"
    unfolding s using hold_run_accounted [OF _ room] sug by (simp add: hold_init_def pending_new_def)
  then have "accounted ?s1 ep a" by (simp add: sweep_accounted)
  then have acc: "accounted ?s2 ep a"
    using hold_run_accounted [OF hold_step_distinct [OF d] roomy_recv] by blast
  have "pd_ttl (hs_pending s) = DEFAULT_TTL" using hold_invD(1) [OF hold_run_inv] s by simp
  then have "pd_inner (hs_pending ?s1) = []" using late by (auto simp: take_expired_def filter_empty_conv)
  moreover have "hs_queue ?s1 = hs_queue s" by simp
  ultimately have "pd_inner (hs_pending ?s2) = []" "hs_queue ?s2 = []"
    using drain_queue [of ?s1 n eng quorum os] n by simp_all
  with acc show ?thesis unfolding Let_def foldl.simps by (auto simp: accounted_def held_def)
qed

theorem held_actions_are_settled_witness:
  "let s' = foldl (hold_step cautious_engine 1) (foldl (hold_step cautious_engine 1) (hold_init demo_host) demo_held)
       (HSweep demo_os (6 + DEFAULT_TTL) # replicate 0 (HRecv demo_os)) in
    (\<exists>t name out. Attempt t name ''e'' (KillProcess 42 ''e'') out \<in> set (hs_log s')) \<and>
    pd_inner (hs_pending s') = [] \<and> hs_queue s' = []"
proof (rule held_actions_are_settled)
  show "roomy_run cautious_engine 1 (hold_init demo_host) demo_held"
    by (simp add: hold_init_def pending_new_def)
  show "suggested demo_held ''e'' (KillProcess 42 ''e'')"
    by (simp add: suggested_def from_id_def)
  show "needs_corroboration (engine_policy cautious_engine) (action_id (KillProcess 42 ''e''))"
    using cautious_needs by simp
  show "\<forall>(_, e) \<in> set (pd_inner (hs_pending (foldl (hold_step cautious_engine 1) (hold_init demo_host) demo_held))).
      DEFAULT_TTL < 6 + DEFAULT_TTL - pk_at e"
    unfolding demo_parked by simp
  show "length (hs_queue (foldl (hold_step cautious_engine 1) (hold_init demo_host) demo_held)) \<le> 0"
    unfolding demo_parked by (simp add: hold_init_def)
qed (rule refl)

text \<open>
  A confirmation that comes too late loses the action without a trace. An action is parked, and a
  round confirms it after the waiting time but before a sweep: it is neither released, nor parked,
  nor in the audit log.
\<close>

theorem late_confirmation_loses_action:
  "let s = foldl (hold_step cautious_engine 1) (hold_init h) (demo_held @ [HRound demo_round (6 + DEFAULT_TTL)]) in
   suggested demo_held ''e'' (KillProcess 42 ''e'') \<and> confirmed (quorum_verdict (wc_peers demo_round) 1) \<and>
   pd_inner (hs_pending s) = [] \<and> hs_queue s = [] \<and> hs_log s = []"
proof -
  have "foldl (hold_step cautious_engine 1) (hold_init h) (demo_held @ [HRound demo_round (6 + DEFAULT_TTL)]) = hold_init h"
    unfolding foldl_append demo_parked
    by (simp add: settle_round_def Let_def demo_round_confirmed release_held_def hold_init_def pending_new_def
        del: One_nat_def)
  then show ?thesis
    by (simp add: Let_def demo_round_confirmed suggested_def from_id_def hold_init_def pending_new_def
        del: One_nat_def foldl_append)
qed

text \<open>
  C31. With the agent's routing, an action that must wait is never carried out. The model sees an
  episode only when its round is over, or without a round, so what its verdict parks waits for a round
  that has already been settled. In every reachable state, whatever the neighbourhood answers, the
  engine was never called with an action that needs corroboration.
\<close>

theorem corroborated_actions_never_run:
  assumes "flow_reachable cfg eng quorum h s"
  shows "\<forall>(ep, a) \<in> set (hs_executed (fl_hold s)). \<not> needs_corroboration (engine_policy eng) (action_id a)"
  using flow_reachable_inv [OF assms] by (auto simp: flow_inv_def no_release_def)

definition demo_flow :: flow_config where
  "demo_flow = \<lparr>fc_whisper_threshold = Fin 0, fc_llm_threshold = Fin 0\<rparr>"

text \<open>One episode from its exec, through a confirming round, to the verdict that parks its action.\<close>

lemma demo_flow_parked:
  "\<exists>s. flow_reachable demo_flow cautious_engine 1 demo_host s \<and>
     held (hs_pending (fl_hold s)) = {(''e'', KillProcess 42 ''e'')}"
proof -
  let ?step = "flow_step demo_flow cautious_engine 1"
  let ?s1 = "(flow_init demo_host)\<lparr>fl_used := [''e''], fl_triggers := [(''e'', Fin 1)]\<rparr>"
  let ?s2 = "(flow_init demo_host)\<lparr>fl_used := [''e''], fl_llm := [''e'']\<rparr>"
  let ?s3 = "(flow_init demo_host)\<lparr>fl_used := [''e''],
    fl_hold := foldl (hold_step cautious_engine 1) (hold_init demo_host) demo_held\<rparr>"
  have "route_exec demo_flow ''e'' (Fin 1) (flow_init demo_host) = ?s1"
    by (simp add: route_exec_def demo_flow_def f32_le_def flow_init_def)
  then have 1: "?step (flow_init demo_host) ?s1"
    using flow_step.exec [of "''e''" "flow_init demo_host" demo_flow cautious_engine 1 "Fin 1"]
    by (simp add: flow_init_def)
  have "finish_round demo_flow 1 (Fin 1) demo_round 9 (?s1\<lparr>fl_triggers := []\<rparr>) = ?s2"
    by (simp add: finish_round_def settle_nothing_parked demo_flow_def f32_le_def flow_init_def hold_init_def pending_new_def)
  then have 2: "?step ?s1 ?s2"
    using flow_step.round_done [of demo_round "Fin 1" ?s1 demo_flow cautious_engine 1 9] by simp
  have 3: "?step ?s2 ?s3"
    using flow_step.verdict [of "''e''" ?s2 demo_flow cautious_engine 1 "[''kill_process'']" "Some 42" None 5]
    by (simp add: flow_init_def)
  have "flow_reachable demo_flow cautious_engine 1 demo_host ?s3"
    by (rule flow_reachable.step [OF flow_reachable.step [OF flow_reachable.step [OF flow_reachable.start 1] 2] 3])
  moreover have "held (hs_pending (fl_hold ?s3)) = {(''e'', KillProcess 42 ''e'')}"
    unfolding agent_flow.simps demo_parked by (simp add: held_def)
  ultimately show ?thesis by blast
qed

theorem corroborated_actions_never_run_witness:
  "\<exists>s. flow_reachable demo_flow cautious_engine 1 demo_host s \<and>
     (''e'', KillProcess 42 ''e'') \<in> held (hs_pending (fl_hold s)) \<and>
     (\<forall>(ep, a) \<in> set (hs_executed (fl_hold s)). \<not> needs_corroboration (engine_policy cautious_engine) (action_id a))"
proof -
  from demo_flow_parked obtain s where s: "flow_reachable demo_flow cautious_engine 1 demo_host s"
    "held (hs_pending (fl_hold s)) = {(''e'', KillProcess 42 ''e'')}" by (elim exE conjE)
  from corroborated_actions_never_run [OF s(1)] s show ?thesis by (intro exI [of _ s]) simp
qed

end
