(* ===== verification/Inbox.thy ===== *)
theory Inbox
  imports Silence_Store Whisper_Round
begin

text \<open>
  The alerts of an agent: how one is built (\<open>crates/bowery-agent/src/alert_builder.rs\<close>), the bounded
  ring every alert passes through (\<open>inbox.rs\<close>) with the operator's silences, the verdict of the
  neighbourhood carried over from earlier alerts of the episode, the damping of recognised programs,
  the model's verdict applied to standing alerts, the reader's cursor, and how a response to
  \<open>Subscribe\<close> is cut into envelopes and put together again (\<open>chunk_alerts\<close> in \<open>agent.rs\<close>, \<open>poll_once\<close> in
  \<open>bowery-cli/src/alerts.rs\<close>). A string is the list of the bytes of its UTF-8 encoding.
\<close>

section \<open>Strings\<close>

text \<open>\<open>{:.2}\<close>: the exact value rounded to two decimals, ties to even.\<close>

definition fmt2 :: "f32 \<Rightarrow> string" where
  "fmt2 v = (case v of
     NaN \<Rightarrow> ''NaN''
   | Inf s \<Rightarrow> (if s then ''inf'' else ''-inf'')
   | Fin x \<Rightarrow> (let c = nat (round_half_even (\<bar>x\<bar> * 100)) in
       (if x < 0 then ''-'' else []) @ dec (c div 100) @ ''.'' @ dec (c div 10 mod 10) @ dec (c mod 10)))"

fun str_contains :: "string \<Rightarrow> string \<Rightarrow> bool" where
  "str_contains p [] \<longleftrightarrow> p = []"
| "str_contains p (c # s) \<longleftrightarrow> take (length p) (c # s) = p \<or> str_contains p s"

text \<open>\<open>chars().take(n)\<close>: a character is a byte that does not continue another, with those that continue it.\<close>

definition is_continuation :: "char \<Rightarrow> bool" where
  "is_continuation c \<longleftrightarrow> of_char c div (64 :: nat) = 2"

fun take_chars :: "nat \<Rightarrow> string \<Rightarrow> string" where
  "take_chars n [] = []"
| "take_chars n (c # s) =
     (if is_continuation c then c # take_chars n s
      else case n of 0 \<Rightarrow> [] | Suc m \<Rightarrow> c # take_chars m s)"

definition em_dash :: string where "em_dash = [CHR 0xE2, CHR 0x80, CHR 0x94]"

section \<open>Alerts\<close>

record attribute =
  at_key :: string
  at_value :: string

record alert =
  al_originator_fp :: bytes
  al_episode_id :: string
  al_exe_sha256_hex :: string
  al_exe_path :: string
  al_suspicion :: f32
  al_rationale :: string
  al_suggested_actions :: "string list"
  al_ts_unix_ms :: u64
  al_backend :: string
  al_confirmation :: "alert_confirmation option"
  al_context :: "attribute list"
  al_rule_id :: string
  al_model_explanation :: string

text \<open>
  Both constructors of the builder end in \<open>raw\<close>; they differ in a debug assertion on the rule. The
  time stamp is taken here, not when the alert is appended.
\<close>

definition builder_raw ::
    "u64 \<Rightarrow> fingerprint \<Rightarrow> string \<Rightarrow> string \<Rightarrow> string \<Rightarrow> f32 \<Rightarrow> string \<Rightarrow> alert" where
  "builder_raw now fp backend rule ep suspicion rationale =
     \<lparr>al_originator_fp = fp, al_episode_id = ep, al_exe_sha256_hex = [], al_exe_path = [],
      al_suspicion = suspicion, al_rationale = rationale, al_suggested_actions = [], al_ts_unix_ms = now,
      al_backend = backend, al_confirmation = None, al_context = [], al_rule_id = rule,
      al_model_explanation = []\<rparr>"

definition builder_subject :: "string \<Rightarrow> alert \<Rightarrow> alert" where
  "builder_subject p a = a\<lparr>al_exe_path := p\<rparr>"

definition builder_exe_sha256_hex :: "string \<Rightarrow> alert \<Rightarrow> alert" where
  "builder_exe_sha256_hex h a = a\<lparr>al_exe_sha256_hex := h\<rparr>"

definition builder_context :: "attribute list \<Rightarrow> alert \<Rightarrow> alert" where
  "builder_context cs a = a\<lparr>al_context := cs\<rparr>"

definition builder_model_explanation :: "string \<Rightarrow> alert \<Rightarrow> alert" where
  "builder_model_explanation t a = a\<lparr>al_model_explanation := t\<rparr>"

definition builder_confirmation :: "alert_confirmation \<Rightarrow> alert \<Rightarrow> alert" where
  "builder_confirmation c a = a\<lparr>al_confirmation := Some c\<rparr>"

definition builder_suggested_actions :: "string list \<Rightarrow> alert \<Rightarrow> alert" where
  "builder_suggested_actions acts a = a\<lparr>al_suggested_actions := acts\<rparr>"

section \<open>Recognition\<close>

definition RECOGNITION_MARKER :: string where
  "RECOGNITION_MARKER = ''the neighbourhood recognises this program''"

definition u16_or_max :: "u32 \<Rightarrow> nat" where
  "u16_or_max w = min (unat w) 65535"

definition recognised_fraction :: "alert_confirmation \<Rightarrow> f32" where
  "recognised_fraction c =
     f32_div (of_nat (u16_or_max (peers_familiar c))) (of_nat (u16_or_max (max (peers_asked c) 1)))"

definition explained_suspicion :: "f32 \<Rightarrow> alert_confirmation \<Rightarrow> f32" where
  "explained_suspicion pre c =
     f32_mul pre (f32_sub (Fin 1) (f32_mul (to_f32 (6 / 10))
       (f32_clamp (Fin 0) (Fin 1) (recognised_fraction c))))"

definition recognition_note :: "alert_confirmation \<Rightarrow> f32 \<Rightarrow> f32 \<Rightarrow> string" where
  "recognition_note c from lowered =
     '' | '' @ RECOGNITION_MARKER @ '': '' @ dec (unat (peers_familiar c)) @ '' of '' @
     dec (unat (peers_asked c)) @ '' peers know this one '' @ em_dash @
     '' the same program built differently, or the same behaviour on their own schedule '' @ em_dash @
     '' so '' @ fmt2 from @ '' was lowered to '' @ fmt2 lowered @
     ''. What the fleet does is not what this copy is: provenance, not prevalence, says whether anything here was tampered with.''"

definition damp_for_recognition :: "alert \<Rightarrow> alert" where
  "damp_for_recognition a =
     (if al_rule_id a \<in> set TAMPER_RULES then a
      else case al_confirmation a of
        None \<Rightarrow> a
      | Some c \<Rightarrow>
          if confirmed c \<or> peers_familiar c = 0 \<or> str_contains RECOGNITION_MARKER (al_rationale a) then a
          else let lowered = explained_suspicion (al_suspicion a) c in
            a\<lparr>al_suspicion := lowered,
              al_rationale := al_rationale a @ recognition_note c (al_suspicion a) lowered\<rparr>)"

definition inherit_confirmation :: "alert list \<Rightarrow> alert \<Rightarrow> alert" where
  "inherit_confirmation items a =
     (if al_confirmation a \<noteq> None \<or> al_episode_id a = [] then a
      else case find (\<lambda>e. al_episode_id e = al_episode_id a \<and> al_confirmation e \<noteq> None) (rev items) of
        None \<Rightarrow> a
      | Some prior \<Rightarrow> a\<lparr>al_confirmation := al_confirmation prior\<rparr>)"

section \<open>The inbox\<close>

datatype appended = Stored | SuppressedBy string

definition stored :: "appended \<Rightarrow> bool" where
  "stored r \<longleftrightarrow> r = Stored"

text \<open>The retention is in milliseconds.\<close>

record inbox =
  ib_items :: "alert list"
  ib_capacity :: nat
  ib_retention :: nat
  ib_silences :: "silence_store option"
  ib_alert_threshold :: f32

definition inbox_new :: "nat \<Rightarrow> nat \<Rightarrow> inbox" where
  "inbox_new capacity retention = \<lparr>ib_items = [], ib_capacity = max capacity 1, ib_retention = retention,
     ib_silences = None, ib_alert_threshold = Fin 0\<rparr>"

definition with_silences :: "silence_store \<Rightarrow> f32 \<Rightarrow> inbox \<Rightarrow> inbox" where
  "with_silences st threshold ib = ib\<lparr>ib_silences := Some st, ib_alert_threshold := threshold\<rparr>"

definition inbox_with_defaults :: inbox where
  "inbox_with_defaults = inbox_new 10000 (72 * 3600 * 1000)"

definition damped_note :: "string \<Rightarrow> string \<Rightarrow> f32 \<Rightarrow> f32 \<Rightarrow> string" where
  "damped_note i reason from lowered =
     '' [scored '' @ fmt2 from @ '', reduced to '' @ fmt2 lowered @ '' by silence '' @ take_chars 16 i @
     '' '' @ em_dash @ '' '' @ [CHR 0x22] @ reason @ [CHR 0x22] @ '']''"

definition subject_of :: "alert \<Rightarrow> alert_subject" where
  "subject_of a = \<lparr>sub_rule_id = al_rule_id a, sub_exe_sha256_hex = al_exe_sha256_hex a,
     sub_exe_path = al_exe_path a, sub_host_fp_hex = hex_lower (al_originator_fp a)\<rparr>"

definition apply_silences :: "u64 \<Rightarrow> alert \<Rightarrow> inbox \<Rightarrow> (string + alert) \<times> inbox" where
  "apply_silences now a ib =
     (case ib_silences ib of
        None \<Rightarrow> (Inr a, ib)
      | Some st \<Rightarrow>
          (case store_decide st (subject_of a) (al_suspicion a) now of
             (decision, st') \<Rightarrow>
               let ib' = ib\<lparr>ib_silences := Some st'\<rparr> in
               (case decision of
                  Unaffected \<Rightarrow> (Inr a, ib')
                | Damped i reason from lowered \<Rightarrow>
                    if f32_less lowered (ib_alert_threshold ib) then (Inl i, ib')
                    else (Inr (a\<lparr>al_rationale := al_rationale a @ damped_note i reason from lowered,
                               al_suspicion := lowered\<rparr>), ib'))))"

definition push_alert :: "alert \<Rightarrow> inbox \<Rightarrow> inbox" where
  "push_alert a ib =
     ib\<lparr>ib_items := (if ib_capacity ib \<le> length (ib_items ib) then tl (ib_items ib) else ib_items ib) @ [a]\<rparr>"

definition inbox_append :: "u64 \<Rightarrow> alert \<Rightarrow> inbox \<Rightarrow> appended \<times> inbox" where
  "inbox_append now a ib =
     (case apply_silences now a ib of
        (Inl i, ib') \<Rightarrow> (SuppressedBy i, ib')
      | (Inr a', ib') \<Rightarrow>
          (Stored, push_alert (damp_for_recognition (inherit_confirmation (ib_items ib') a')) ib'))"

definition MODEL_MARKER :: string where
  "MODEL_MARKER = ''the local model explained this''"

definition model_verdict_on :: "f32 \<Rightarrow> string \<Rightarrow> string \<Rightarrow> alert \<Rightarrow> alert" where
  "model_verdict_on to_score why backend a =
     (if al_model_explanation a \<noteq> [] then a
      else let a1 = a\<lparr>al_model_explanation := take_chars 300 why\<rparr>;
               a2 = (if backend \<noteq> [] then a1\<lparr>al_backend := backend\<rparr> else a1);
               from = al_suspicion a2
        in if f32_le from to_score then a2
           else let lowered = f32_max to_score (f32_mul from (to_f32 (4 / 10)))
             in a2\<lparr>al_suspicion := lowered,
               al_rationale := al_rationale a2 @ '' | '' @ MODEL_MARKER @ '': '' @ fmt2 from @ '' lowered to '' @
                 fmt2 lowered\<rparr>)"

definition apply_model_verdict :: "string \<Rightarrow> f32 \<Rightarrow> string \<Rightarrow> string \<Rightarrow> inbox \<Rightarrow> nat \<times> inbox" where
  "apply_model_verdict ep to_score why backend ib =
     (if ep = [] then (0, ib)
      else (length (filter (\<lambda>a. al_episode_id a = ep \<and> al_model_explanation a = []) (ib_items ib)),
        ib\<lparr>ib_items := map (\<lambda>a. if al_episode_id a = ep then model_verdict_on to_score why backend a else a)
             (ib_items ib)\<rparr>))"

section \<open>Reading\<close>

text \<open>The loop over the ring: what is due, up to the cap, and the greatest time stamp seen.\<close>

fun collect :: "u64 \<Rightarrow> nat \<Rightarrow> alert list \<Rightarrow> u64 \<Rightarrow> alert list \<Rightarrow> alert list \<times> u64" where
  "collect since cap [] m out = (out, m)"
| "collect since cap (a # rest) m out =
     (if al_ts_unix_ms a < since then collect since cap rest m out
      else let m' = (if m < al_ts_unix_ms a then al_ts_unix_ms a else m); out' = out @ [a] in
        if cap \<le> length out' then (out', m') else collect since cap rest m' out')"

definition sweep :: "u64 \<Rightarrow> inbox \<Rightarrow> inbox" where
  "sweep now ib =
     ib\<lparr>ib_items := dropWhile (\<lambda>a. al_ts_unix_ms a < saturating_sub now (u64_or_max (ib_retention ib))) (ib_items ib)\<rparr>"

definition read_since :: "u64 \<Rightarrow> u64 \<Rightarrow> nat \<Rightarrow> inbox \<Rightarrow> (alert list \<times> u64) \<times> inbox" where
  "read_since now since max_items ib =
     (let ib' = sweep now ib;
          cap = (if max_items = 0 then 2 ^ 64 - 1 else max_items);
          (out, m) = collect since cap (ib_items ib') since []
      in ((out, if out = [] then since else saturating_add m 1), ib'))"

section \<open>Delivery\<close>

text \<open>The size of an encoded alert is the codec's.\<close>

definition ALERTS_CHUNK_BUDGET_BYTES :: nat where "ALERTS_CHUNK_BUDGET_BYTES = 48 * 1024"

definition chunk_step ::
    "(alert \<Rightarrow> nat) \<Rightarrow> nat \<Rightarrow> alert list list \<times> alert list \<times> nat \<Rightarrow> alert \<Rightarrow> alert list list \<times> alert list \<times> nat" where
  "chunk_step encoded_len budget s a =
     (case s of (batches, batch, batch_bytes) \<Rightarrow>
        if batch \<noteq> [] \<and> budget < batch_bytes + encoded_len a
        then (batches @ [batch], [a], encoded_len a)
        else (batches, batch @ [a], batch_bytes + encoded_len a))"

definition chunk_alerts :: "(alert \<Rightarrow> nat) \<Rightarrow> alert list \<Rightarrow> nat \<Rightarrow> alert list list" where
  "chunk_alerts encoded_len items budget =
     (case foldl (chunk_step encoded_len budget) ([], [], 0) items of
        (batches, batch, _) \<Rightarrow> batches @ [batch])"

record alerts_msg =
  am_items :: "alert list"
  am_cursor_unix_ms :: u64
  am_end :: bool

definition alerts_chunks :: "(alert \<Rightarrow> nat) \<Rightarrow> alert list \<Rightarrow> u64 \<Rightarrow> alerts_msg list" where
  "alerts_chunks encoded_len items cursor =
     (let batches = chunk_alerts encoded_len items ALERTS_CHUNK_BUDGET_BYTES; l = length batches - 1 in
      map (\<lambda>(i, batch). \<lparr>am_items = batch, am_cursor_unix_ms = (if i = l then cursor else 0), am_end = (i = l)\<rparr>)
        (enumerate 0 batches))"

text \<open>
  The operator's side. What arrives on the connection: an envelope that opened to an \<open>Alerts\<close> body, one
  that did not, or nothing within the timeout or after the connection closed.
\<close>

datatype received = RecvAlerts alerts_msg | RecvBad | RecvNothing

datatype poll_error = PollNoResponse | PollBadEnvelope

fun poll_loop :: "alert list \<Rightarrow> u64 \<Rightarrow> received list \<Rightarrow> poll_error + (alert list \<times> u64)" where
  "poll_loop acc cursor [] = (if acc = [] then Inl PollNoResponse else Inr (acc, cursor))"
| "poll_loop acc cursor (RecvNothing # _) = (if acc = [] then Inl PollNoResponse else Inr (acc, cursor))"
| "poll_loop acc cursor (RecvBad # _) = Inl PollBadEnvelope"
| "poll_loop acc cursor (RecvAlerts m # rest) =
     (if am_end m then Inr (acc @ am_items m, am_cursor_unix_ms m)
      else poll_loop (acc @ am_items m) cursor rest)"

section \<open>Scores\<close>

text \<open>A score: a single-precision number between zero and one.\<close>

definition score :: "f32 \<Rightarrow> rat \<Rightarrow> bool" where
  "score v x \<longleftrightarrow> v = Fin x \<and> f32_round x = x \<and> 0 \<le> x \<and> x \<le> 1"

lemma f32_mul_unit:
  "0 \<le> x \<Longrightarrow> x \<le> 1 \<Longrightarrow> 0 \<le> y \<Longrightarrow> y \<le> 1 \<Longrightarrow> f32_mul (Fin x) (Fin y) = Fin (f32_round (x * y))"
  by (simp add: to_f32_unit mult_le_one)

lemma f32_mul_unit_bounds:
  assumes "score (Fin x) x" "0 \<le> k" "k \<le> y" "y \<le> 1"
  shows "f32_round (x * k) \<le> f32_round (x * y)" "f32_round (x * y) \<le> x"
proof -
  have x: "0 \<le> x" "x \<le> 1" "f32_round x = x" using assms(1) by (simp_all add: score_def)
  have le: "x * k \<le> x * y" "x * y \<le> x" "0 \<le> x * k"
    using x assms(2-) by (simp_all add: mult_left_mono mult_left_le)
  then show "f32_round (x * k) \<le> f32_round (x * y)" using x by (intro f32_round_mono) auto
  have "f32_round (x * y) \<le> f32_round x" using le x by (intro f32_round_mono) auto
  with x show "f32_round (x * y) \<le> x" by simp
qed

lemma to_f32_6_10: "to_f32 (6 / 10) = Fin (10066330 / 16777216)"
  using f32_round_eqI [of "- 1" "6 / 10" 10066330] to_f32_unit [of "6 / 10"] by (simp add: pow2_def)

lemma to_f32_4_10: "to_f32 (4 / 10) = Fin (13421773 / 33554432)"
  using f32_round_eqI [of "- 2" "4 / 10" 13421773] to_f32_unit [of "4 / 10"] by (simp add: pow2_def)

text \<open>The least factor recognition leaves: one minus the single-precision 0.6.\<close>

definition recognition_floor :: rat where
  "recognition_floor = 6710886 / 16777216"

lemma round_recognition_floor: "f32_round recognition_floor = recognition_floor"
  using f32_round_eqI [of "- 2" recognition_floor 13421772] by (simp add: pow2_def recognition_floor_def)

lemma clamp_unit:
  assumes "x \<noteq> NaN"
  obtains y where "f32_clamp (Fin 0) (Fin 1) x = Fin y" "0 \<le> y" "y \<le> 1"
proof (cases x)
  case (Fin r)
  consider "r < 0" | "1 < r" | "0 \<le> r" "r \<le> 1" by linarith
  then show ?thesis using Fin that by cases (auto simp: f32_clamp_def)
next
  case (Inf b)
  then show ?thesis using that by (cases b) (auto simp: f32_clamp_def)
qed (use assms in simp)

lemma explained_factor:
  obtains f where "f32_sub (Fin 1) (f32_mul (to_f32 (6 / 10)) (f32_clamp (Fin 0) (Fin 1) (recognised_fraction c))) = Fin f"
    "recognition_floor \<le> f" "f \<le> 1"
proof -
  have "recognised_fraction c \<noteq> NaN" by (simp add: recognised_fraction_def f32_div_def to_f32_def Let_def)
  then obtain y where y: "f32_clamp (Fin 0) (Fin 1) (recognised_fraction c) = Fin y" "0 \<le> y" "y \<le> 1"
    by (rule clamp_unit)
  let ?c = "10066330 / 16777216 :: rat"
  have c: "score (Fin ?c) ?c" using f32_round_eqI [of "- 1" ?c 10066330] by (simp add: pow2_def score_def)
  have m: "f32_mul (to_f32 (6 / 10)) (Fin y) = Fin (f32_round (?c * y))"
    unfolding to_f32_6_10 using y by (intro f32_mul_unit) simp_all
  have b: "0 \<le> f32_round (?c * y)" "f32_round (?c * y) \<le> ?c"
    using f32_mul_unit_bounds [OF c, of 0 y] y by simp_all
  let ?d = "1 - f32_round (?c * y)"
  have d: "recognition_floor \<le> ?d" "?d \<le> 1" "0 \<le> recognition_floor"
    using b by (simp_all add: recognition_floor_def)
  have "f32_sub (Fin 1) (Fin (f32_round (?c * y))) = Fin (f32_round ?d)"
    using d by (simp add: to_f32_unit)
  moreover have "recognition_floor \<le> f32_round ?d"
    using f32_round_mono [of recognition_floor ?d] d by (simp add: round_recognition_floor)
  moreover have "f32_round ?d \<le> 1" using f32_round_unit [of ?d] d by linarith
  ultimately show ?thesis using that m y by simp
qed

lemma explained_bounds:
  assumes "score v x"
  shows "\<exists>y. explained_suspicion v c = Fin y \<and> f32_round (x * recognition_floor) \<le> y \<and> y \<le> x"
proof -
  obtain f where f: "f32_sub (Fin 1) (f32_mul (to_f32 (6 / 10)) (f32_clamp (Fin 0) (Fin 1) (recognised_fraction c))) = Fin f"
    "recognition_floor \<le> f" "f \<le> 1" by (rule explained_factor)
  have x: "v = Fin x" "score (Fin x) x" "0 \<le> x" "x \<le> 1" using assms by (simp_all add: score_def)
  have "explained_suspicion v c = Fin (f32_round (x * f))"
    unfolding explained_suspicion_def f(1) x(1) using x f by (intro f32_mul_unit) (simp_all add: recognition_floor_def)
  moreover have "f32_round (x * recognition_floor) \<le> f32_round (x * f)" "f32_round (x * f) \<le> x"
    using f32_mul_unit_bounds [OF x(2) _ f(2,3)] by (simp_all add: recognition_floor_def)
  ultimately show ?thesis by simp
qed

section \<open>What damping keeps\<close>

lemma str_contains_iff: "str_contains p s \<longleftrightarrow> (\<exists>a b. s = a @ p @ b)"
proof (induction s)
  case (Cons c s)
  have "take (length p) (c # s) = p \<longleftrightarrow> (\<exists>b. c # s = p @ b)"
    by (metis append_eq_conv_conj append_take_drop_id)
  moreover have "(\<exists>a b. c # s = a @ p @ b) \<longleftrightarrow> (\<exists>b. c # s = p @ b) \<or> (\<exists>a b. s = a @ p @ b)"
    by (metis append_Cons append_Nil list.exhaust list.inject)
  ultimately show ?case using Cons by simp
qed auto

lemma recognition_note_marked: "str_contains RECOGNITION_MARKER (r @ recognition_note c x y)"
  unfolding str_contains_iff recognition_note_def by (metis append.assoc)

lemma damp_fields [simp]:
  "al_rule_id (damp_for_recognition a) = al_rule_id a" "al_episode_id (damp_for_recognition a) = al_episode_id a"
  "al_ts_unix_ms (damp_for_recognition a) = al_ts_unix_ms a"
  "al_confirmation (damp_for_recognition a) = al_confirmation a"
  "al_model_explanation (damp_for_recognition a) = al_model_explanation a"
  "\<exists>r. al_rationale (damp_for_recognition a) = al_rationale a @ r"
  by (auto simp: damp_for_recognition_def Let_def split: option.splits)

lemma damp_idempotent: "damp_for_recognition (damp_for_recognition a) = damp_for_recognition a"
  by (auto simp: damp_for_recognition_def Let_def recognition_note_marked split: option.splits)

lemma damp_tamper: "al_rule_id a \<in> set TAMPER_RULES \<Longrightarrow> damp_for_recognition a = a"
  by (simp add: damp_for_recognition_def)

lemma damp_bounds:
  assumes "score (al_suspicion a) x"
  shows "\<exists>y. al_suspicion (damp_for_recognition a) = Fin y \<and> f32_round (x * recognition_floor) \<le> y \<and> y \<le> x"
proof -
  have x: "al_suspicion a = Fin x" "score (Fin x) x" using assms by (simp_all add: score_def)
  have "f32_round (x * recognition_floor) \<le> x"
    using f32_mul_unit_bounds(2) [OF x(2), of 0 recognition_floor] by (simp add: recognition_floor_def)
  then show ?thesis
    using explained_bounds [OF assms] x(1) by (auto simp: damp_for_recognition_def Let_def split: option.splits)
qed

lemma inherit_fields [simp]:
  "al_rule_id (inherit_confirmation items a) = al_rule_id a"
  "al_episode_id (inherit_confirmation items a) = al_episode_id a"
  "al_ts_unix_ms (inherit_confirmation items a) = al_ts_unix_ms a"
  "al_suspicion (inherit_confirmation items a) = al_suspicion a"
  "al_rationale (inherit_confirmation items a) = al_rationale a"
  "al_model_explanation (inherit_confirmation items a) = al_model_explanation a"
  by (auto simp: inherit_confirmation_def split: option.splits)

lemma inherit_own: "al_confirmation a \<noteq> None \<Longrightarrow> inherit_confirmation items a = a"
  by (auto simp: inherit_confirmation_def)

text \<open>What a later alert of the episode carries: its own verdict, or the latest one standing.\<close>

definition standing_verdict :: "alert list \<Rightarrow> string \<Rightarrow> alert_confirmation option" where
  "standing_verdict items ep =
     (case filter (\<lambda>e. al_episode_id e = ep \<and> al_confirmation e \<noteq> None) items of
        [] \<Rightarrow> None | es \<Rightarrow> al_confirmation (last es))"

lemma find_rev: "find P (rev xs) = (case filter P xs of [] \<Rightarrow> None | ys \<Rightarrow> Some (last ys))"
  by (induction xs rule: rev_induct) (auto simp: split: list.splits)

lemma inherit_confirmation_verdict:
  assumes "al_episode_id a \<noteq> []"
  shows "al_confirmation (inherit_confirmation items a) =
    (case al_confirmation a of Some c \<Rightarrow> Some c | None \<Rightarrow> standing_verdict items (al_episode_id a))"
  using assms by (cases "al_confirmation a")
    (auto simp: inherit_confirmation_def standing_verdict_def find_rev split: option.splits list.splits)

lemma push_alert_items:
  "ib_items (push_alert a ib) =
     (if ib_capacity ib \<le> length (ib_items ib) then tl (ib_items ib) else ib_items ib) @ [a]"
  "ib_capacity (push_alert a ib) = ib_capacity ib" "ib_retention (push_alert a ib) = ib_retention ib"
  "ib_silences (push_alert a ib) = ib_silences ib" "ib_alert_threshold (push_alert a ib) = ib_alert_threshold ib"
  by (simp_all add: push_alert_def)

lemma apply_silences_fields:
  assumes "apply_silences now a ib = (r, ib')"
  shows "ib_items ib' = ib_items ib" "ib_capacity ib' = ib_capacity ib" "ib_retention ib' = ib_retention ib"
    "ib_alert_threshold ib' = ib_alert_threshold ib" "r = Inr a' \<Longrightarrow> al_episode_id a' = al_episode_id a"
    "r = Inr a' \<Longrightarrow> al_rule_id a' = al_rule_id a" "r = Inr a' \<Longrightarrow> al_ts_unix_ms a' = al_ts_unix_ms a"
    "r = Inr a' \<Longrightarrow> al_confirmation a' = al_confirmation a"
    "r = Inr a' \<Longrightarrow> al_model_explanation a' = al_model_explanation a"
  using assms unfolding apply_silences_def
  by (auto simp: Let_def split: option.splits prod.splits silence_decision.splits if_splits)

definition unsilenced :: "u64 \<Rightarrow> alert \<Rightarrow> inbox \<Rightarrow> bool" where
  "unsilenced now a ib \<longleftrightarrow> (\<forall>st. ib_silences ib = Some st \<longrightarrow>
     (\<forall>s \<in> snd ` set (ss_set st). is_live s now \<longrightarrow> \<not> spec_matches (sil_spec s) (subject_of a)))"

lemma apply_silences_unsilenced:
  assumes "unsilenced now a ib"
  shows "apply_silences now a ib = (Inr a, ib)"
proof (cases "ib_silences ib")
  case (Some st)
  with assms have "governing (ss_set st) (subject_of a) now = None"
    unfolding governing_None unsilenced_def by blast
  then have "store_decide st (subject_of a) (al_suspicion a) now = (Unaffected, st)"
    by (simp add: store_decide_def set_decide_def)
  with Some show ?thesis by (cases ib) (simp add: apply_silences_def)
qed (simp add: apply_silences_def)

text \<open>
  C33. Without an operator's silence, no finding is hidden. If no live silence of the store matches an
  alert, the inbox stores it, as the newest entry, with its rule, episode and time; the text of its
  rationale is kept and at most extended, its score is at most the one it was raised with and at least
  0.39999998 of it, and a finding that a packaged file was rewritten keeps its score whatever the
  neighbourhood says.
\<close>

theorem unsilenced_finding_is_kept:
  assumes "unsilenced now a ib" "score (al_suspicion a) x"
  shows "\<exists>ib' a' y r. inbox_append now a ib = (Stored, ib') \<and> last (ib_items ib') = a' \<and>
    al_rule_id a' = al_rule_id a \<and> al_episode_id a' = al_episode_id a \<and> al_ts_unix_ms a' = al_ts_unix_ms a \<and>
    al_rationale a' = al_rationale a @ r \<and>
    al_suspicion a' = Fin y \<and> f32_round (x * recognition_floor) \<le> y \<and> y \<le> x \<and>
    (al_rule_id a \<in> set TAMPER_RULES \<longrightarrow> y = x \<and> r = [])"
proof -
  let ?i = "inherit_confirmation (ib_items ib) a" let ?a = "damp_for_recognition ?i"
  have app: "inbox_append now a ib = (Stored, push_alert ?a ib)"
    by (simp add: inbox_append_def apply_silences_unsilenced [OF assms(1)])
  have sc: "score (al_suspicion ?i) x" using assms(2) by simp
  obtain y where y: "al_suspicion ?a = Fin y" "f32_round (x * recognition_floor) \<le> y" "y \<le> x"
    using damp_bounds [OF sc] by blast
  obtain r where r: "al_rationale ?a = al_rationale a @ r" using damp_fields(6) [of ?i] by auto
  have "y = x \<and> r = []" if "al_rule_id a \<in> set TAMPER_RULES"
  proof -
    have "?a = ?i" by (rule damp_tamper) (simp add: that)
    with y(1) r sc show ?thesis by (simp add: score_def)
  qed
  with app y r show ?thesis by (auto simp: push_alert_items)
qed

definition demo_verdict :: alert_confirmation where
  "demo_verdict = \<lparr>peers_asked = 2, peers_unseen = 0, peers_seen = 0, peers_no_reply = 0, peers_refused = 0,
     peers_incomparable = 0, peers_familiar = 2, ac_quorum = 2, confirmed = False\<rparr>"

definition demo_alert :: "string \<Rightarrow> u64 \<Rightarrow> alert" where
  "demo_alert rule now = builder_confirmation demo_verdict
     (builder_raw now [1] ''pre-filter'' rule ''ep-1'' (Fin (1 / 2)) ''found'')"

lemma score_half: "score (Fin (1 / 2)) (1 / 2)"
  using f32_round_eqI [of "- 1" "1 / 2" 8388608] by (simp add: pow2_def score_def)

theorem unsilenced_finding_is_kept_witness:
  "\<exists>ib a. inbox_append 7 (demo_alert ''integrity.packaged_modified'' 7) (inbox_new 2 1000) = (Stored, ib) \<and>
     last (ib_items ib) = a \<and> al_suspicion a = Fin (1 / 2) \<and> al_rationale a = ''found''"
proof -
  let ?a = "demo_alert ''integrity.packaged_modified'' 7"
  have "unsilenced 7 ?a (inbox_new 2 1000)" by (simp add: unsilenced_def inbox_new_def)
  moreover have "score (al_suspicion ?a) (1 / 2)"
    using score_half by (simp add: demo_alert_def builder_confirmation_def builder_raw_def)
  ultimately have "\<exists>ib' a' y r. inbox_append 7 ?a (inbox_new 2 1000) = (Stored, ib') \<and> last (ib_items ib') = a' \<and>
    al_rule_id a' = al_rule_id ?a \<and> al_episode_id a' = al_episode_id ?a \<and> al_ts_unix_ms a' = al_ts_unix_ms ?a \<and>
    al_rationale a' = al_rationale ?a @ r \<and>
    al_suspicion a' = Fin y \<and> f32_round (1 / 2 * recognition_floor) \<le> y \<and> y \<le> 1 / 2 \<and>
    (al_rule_id ?a \<in> set TAMPER_RULES \<longrightarrow> y = 1 / 2 \<and> r = [])" by (rule unsilenced_finding_is_kept)
  moreover have "al_rule_id ?a \<in> set TAMPER_RULES" "al_rationale ?a = ''found''"
    by (simp_all add: demo_alert_def builder_confirmation_def builder_raw_def TAMPER_RULES_def MODIFIED_RULE_def)
  ultimately show ?thesis by auto
qed

lemma store_inv_live:
  assumes inv: "store_inv c tr st" and s: "s \<in> snd ` set (ss_set st)"
  shows "\<exists>op m. (sil_id s, op, m) \<in> set (ss_meta st) \<and> s = convert m \<and>
    (\<exists>t. store_verify c st m tr t = Inr ())"
proof -
  from s obtain i where i: "(i, s) \<in> set (ss_set st)" by force
  then have "set_get (ss_set st) i = Some s" using store_invD(1) [OF inv] by (simp add: set_get_def)
  then have "map_option (\<lambda>m. convert (snd m)) (map_of (ss_meta st) i) = Some s"
    unfolding store_invD(3) [OF inv, of i] .
  then obtain op m where m: "(i, op, m) \<in> set (ss_meta st)" "s = convert m" by (auto dest: map_of_SomeD)
  with store_invD(4,5) [OF inv m(1)] show ?thesis by auto
qed

text \<open>
  Only an operator's live signature hides a finding. If the inbox suppresses an alert, it holds
  exactly what it held before, and the store holds a silence whose signature by a trusted operator
  verifies, which has not expired, matches the alert's rule, binary, path and host, and takes its score
  below the alert threshold. Without a silence store, nothing is ever suppressed.
\<close>

theorem suppression_needs_operator:
  assumes "inbox_append now a ib = (SuppressedBy i, ib')"
    and "\<forall>st. ib_silences ib = Some st \<longrightarrow> store_inv c tr st"
  shows "ib_items ib' = ib_items ib \<and>
    (\<exists>st op m vk input. ib_silences ib = Some st \<and> (i, op, m) \<in> set (ss_meta st) \<and>
       now < as_expires_unix_ms m \<and> spec_matches (spec_of m) (subject_of a) \<and>
       f32_less (sil_apply (convert m) (al_suspicion a)) (ib_alert_threshold ib) \<and>
       tr (as_operator_fp m) = Some vk \<and> as_to_signing_input m = Some input \<and>
       verify_strict c vk input (as_sig m))"
proof -
  from assms(1) have ap: "apply_silences now a ib = (Inl i, ib')"
    by (auto simp: inbox_append_def split: prod.splits sum.splits)
  then obtain st where st: "ib_silences ib = Some st"
    by (auto simp: apply_silences_def split: option.splits)
  let ?d = "set_decide (ss_set st) (subject_of a) (al_suspicion a) now"
  have fst_d: "fst (store_decide st (subject_of a) (al_suspicion a) now) = ?d"
    by (simp add: store_decide_def Let_def split: silence_decision.splits option.splits)
  from ap st obtain reason orig lowered where d: "?d = Damped i reason orig lowered"
    and less: "f32_less lowered (ib_alert_threshold ib)"
    unfolding fst_d [symmetric]
    by (auto simp: apply_silences_def Let_def split: prod.splits silence_decision.splits if_splits)
  from d obtain s where g: "governing (ss_set st) (subject_of a) now = Some s" and i: "sil_id s = i"
    and lo: "lowered = sil_apply s (al_suspicion a)"
    by (auto simp: set_decide_def split: option.splits)
  from governing_Some [OF g] have s: "s \<in> snd ` set (ss_set st)" "is_live s now"
    "spec_matches (sil_spec s) (subject_of a)" by simp_all
  have inv: "store_inv c tr st" using assms(2) st by blast
  from store_inv_live [OF inv s(1)] obtain op m t where m: "(i, op, m) \<in> set (ss_meta st)" "s = convert m"
    "store_verify c st m tr t = Inr ()" using i by auto
  from m(3) obtain vk input where "tr (as_operator_fp m) = Some vk" "as_to_signing_input m = Some input"
    "verify_strict c vk input (as_sig m)" by (auto simp: store_verify_ok)
  moreover have "now < as_expires_unix_ms m" "spec_matches (spec_of m) (subject_of a)"
    using s(2,3) by (simp_all add: m(2) convert_def is_live_def)
  ultimately show ?thesis
    using st m(1) less apply_silences_fields(1) [OF ap] by (auto simp: lo m(2))
qed

definition silenced_inbox :: inbox where
  "silenced_inbox = with_silences (snd (insert_verified (store_in_memory ''prod'') signed_silence)) (Fin (1 / 2))
     (inbox_new 2 1000)"

definition silenced_alert :: alert where
  "silenced_alert = builder_exe_sha256_hex ''ab'' (builder_subject ''/bin/x'' (demo_alert ''r'' 50))"

lemma signed_silence_spec:
  "spec_matches (sil_spec (convert signed_silence)) (subject_of silenced_alert)"
  "sil_weight (convert signed_silence) = Fin 0" "is_live (convert signed_silence) 50"
  by (simp_all add: spec_matches_def constrains_count_def field_matches_def convert_def spec_of_def subject_of_def
      silenced_alert_def demo_alert_def builder_exe_sha256_hex_def builder_subject_def builder_confirmation_def
      builder_raw_def signed_silence_def demo_silence_def Let_def is_live_def f32_div_def to_f32_def as_FULL_WEIGHT_def)

lemma silenced_inbox_suppresses:
  "\<exists>ib'. inbox_append 50 silenced_alert silenced_inbox = (SuppressedBy ''sil-1'', ib')"
proof -
  let ?st = "snd (insert_verified (store_in_memory ''prod'') signed_silence)"
  have set: "ss_set ?st = [(''sil-1'', convert signed_silence)]"
    using signed_silence_fields by (simp add: insert_verified_def store_in_memory_def set_insert_def Let_def)
  have susp: "al_suspicion silenced_alert = Fin (1 / 2)"
    by (simp add: silenced_alert_def demo_alert_def builder_exe_sha256_hex_def builder_subject_def
        builder_confirmation_def builder_raw_def)
  have "governing (ss_set ?st) (subject_of silenced_alert) 50 = Some (convert signed_silence)"
    unfolding governing_def set using signed_silence_spec by simp
  moreover have "sil_apply (convert signed_silence) (Fin (1 / 2)) = Fin 0"
    using sil_apply_unit [of "1 / 2" 0 "convert signed_silence"] signed_silence_spec(2) by simp
  ultimately have "set_decide (ss_set ?st) (subject_of silenced_alert) (Fin (1 / 2)) 50 =
      Damped ''sil-1'' (sil_reason (convert signed_silence)) (Fin (1 / 2)) (Fin 0)"
    using signed_silence_fields by (simp add: set_decide_def)
  then have "fst (store_decide ?st (subject_of silenced_alert) (Fin (1 / 2)) 50) =
      Damped ''sil-1'' (sil_reason (convert signed_silence)) (Fin (1 / 2)) (Fin 0)"
    by (simp add: store_decide_def Let_def split: option.splits)
  then obtain st' where "store_decide ?st (subject_of silenced_alert) (Fin (1 / 2)) 50 =
      (Damped ''sil-1'' (sil_reason (convert signed_silence)) (Fin (1 / 2)) (Fin 0), st')"
    by (metis prod.collapse)
  then show ?thesis
    by (simp add: inbox_append_def apply_silences_def silenced_inbox_def with_silences_def susp Let_def)
qed

theorem suppression_needs_operator_witness:
  "\<exists>ib'. inbox_append 50 silenced_alert silenced_inbox = (SuppressedBy ''sil-1'', ib') \<and>
     ib_items ib' = ib_items silenced_inbox \<and>
     (\<exists>m vk input. sil_trusted (as_operator_fp m) = Some vk \<and> as_to_signing_input m = Some input \<and>
        verify_strict demo_crypto vk input (as_sig m) \<and> spec_matches (spec_of m) (subject_of silenced_alert))"
proof -
  obtain ib' where app: "inbox_append 50 silenced_alert silenced_inbox = (SuppressedBy ''sil-1'', ib')"
    using silenced_inbox_suppresses by blast
  have "store_inv demo_crypto sil_trusted (store_in_memory ''prod'')"
    by (simp add: store_inv_def store_in_memory_def set_get_def)
  then have "store_inv demo_crypto sil_trusted (snd (insert_verified (store_in_memory ''prod'') signed_silence))"
    by (rule insert_verified_inv [OF _ signed_silence_verifies [of _ 50]]) (simp_all add: store_in_memory_def)
  then have inv: "\<forall>st. ib_silences silenced_inbox = Some st \<longrightarrow> store_inv demo_crypto sil_trusted st"
    by (simp add: silenced_inbox_def with_silences_def)
  from suppression_needs_operator [OF app inv] show ?thesis using app by blast
qed

section \<open>The model's verdicts\<close>

text \<open>A verdict: the episode, the model's score, its reason and its name.\<close>

type_synonym model_verdict = "string \<times> f32 \<times> string \<times> string"

definition judge :: "inbox \<Rightarrow> model_verdict \<Rightarrow> inbox" where
  "judge ib v = (case v of (ep, to_score, why, backend) \<Rightarrow> snd (apply_model_verdict ep to_score why backend ib))"

definition judge_alert :: "alert \<Rightarrow> model_verdict \<Rightarrow> alert" where
  "judge_alert a v = (case v of (ep, to_score, why, backend) \<Rightarrow>
     if ep \<noteq> [] \<and> al_episode_id a = ep then model_verdict_on to_score why backend a else a)"

lemma judge_items: "ib_items (judge ib v) = map (\<lambda>a. judge_alert a v) (ib_items ib)"
  by (cases v) (auto simp: judge_def judge_alert_def apply_model_verdict_def)

lemma judge_all_items: "ib_items (foldl judge ib vs) = map (\<lambda>a. foldl judge_alert a vs) (ib_items ib)"
  by (induction vs arbitrary: ib) (simp_all add: judge_items comp_def)

lemma judged_once:
  "al_model_explanation a \<noteq> [] \<Longrightarrow> foldl judge_alert a vs = a"
  by (induction vs) (auto simp: judge_alert_def model_verdict_on_def split: prod.splits)

lemma model_verdict_fields:
  "al_episode_id (model_verdict_on t w b a) = al_episode_id a" "al_rule_id (model_verdict_on t w b a) = al_rule_id a"
  "al_ts_unix_ms (model_verdict_on t w b a) = al_ts_unix_ms a"
  "\<exists>r. al_rationale (model_verdict_on t w b a) = al_rationale a @ r"
  "al_model_explanation a = [] \<Longrightarrow> al_model_explanation (model_verdict_on t w b a) = take_chars 300 w"
  by (auto simp: model_verdict_on_def Let_def)

text \<open>The single-precision 0.4.\<close>

definition model_floor :: rat where "model_floor = 13421773 / 33554432"

lemma model_verdict_bounds:
  assumes "score (al_suspicion a) x"
  shows "\<exists>y. al_suspicion (model_verdict_on t w b a) = Fin y \<and> f32_round (x * model_floor) \<le> y \<and> y \<le> x"
proof -
  have x: "al_suspicion a = Fin x" "score (Fin x) x" "0 \<le> x" "x \<le> 1" using assms by (simp_all add: score_def)
  let ?m = "f32_round (x * model_floor)"
  have m: "f32_mul (Fin x) (to_f32 (4 / 10)) = Fin ?m"
    unfolding to_f32_4_10 model_floor_def using x by (intro f32_mul_unit) simp_all
  have le: "?m \<le> x" using f32_mul_unit_bounds(2) [OF x(2), of 0 model_floor] by (simp add: model_floor_def)
  show ?thesis
  proof (cases "al_model_explanation a \<noteq> [] \<or> f32_le (Fin x) t")
    case True
    then have "al_suspicion (model_verdict_on t w b a) = Fin x"
      using x(1) by (auto simp: model_verdict_on_def Let_def)
    with le show ?thesis by simp
  next
    case False
    then have "al_suspicion (model_verdict_on t w b a) = f32_max t (Fin ?m)"
      using x(1) m by (simp add: model_verdict_on_def Let_def)
    with False le show ?thesis by (cases t) (auto simp: f32_max_def f32_le_def)
  qed
qed

lemma take_chars_Suc_Nil [simp]: "take_chars (Suc n) w = [] \<longleftrightarrow> w = []"
  by (cases w) simp_all

lemma judge_alert_cases:
  assumes "fst (snd (snd v)) \<noteq> []"
  shows "judge_alert a v = a \<or>
    (\<exists>t w b. judge_alert a v = model_verdict_on t w b a \<and> al_model_explanation (judge_alert a v) \<noteq> [])"
proof (cases "judge_alert a v = a")
  case False
  obtain ep t w b where v: "v = (ep, t, w, b)" by (cases v)
  from False have m: "judge_alert a v = model_verdict_on t w b a" by (auto simp: judge_alert_def v split: if_splits)
  moreover have "model_verdict_on t w b a = a" if "al_model_explanation a \<noteq> []" using that by (simp add: model_verdict_on_def)
  ultimately have "al_model_explanation a = []" using False by auto
  then have "al_model_explanation (model_verdict_on t w b a) \<noteq> []"
    using model_verdict_fields(5) [of a t w b] assms by (simp add: v eval_nat_numeral del: take_chars.simps)
  with m show ?thesis by auto
qed simp

lemma judge_all_cases:
  assumes "\<forall>v \<in> set vs. fst (snd (snd v)) \<noteq> []"
  shows "foldl judge_alert a vs = a \<or> (\<exists>t w b. foldl judge_alert a vs = model_verdict_on t w b a)"
  using assms
proof (induction vs)
  case (Cons v vs)
  from judge_alert_cases [of v a] Cons.prems consider "judge_alert a v = a"
    | t w b where "judge_alert a v = model_verdict_on t w b a" "al_model_explanation (judge_alert a v) \<noteq> []"
    by auto
  then show ?case
  proof cases
    case 2
    then show ?thesis using judged_once [OF 2(2), of vs] by auto
  qed (use Cons in simp)
qed simp

text \<open>
  C36. The model can make a finding quieter, but not make it go away. Apply any verdicts of the model, on
  any episodes, each with some explanation. The inbox still holds the same alerts in the same places,
  with their rules, episodes, times and the text of their rationales; no score has risen, and none is
  below the single-precision product of the original score and 0.4, however often the model spoke.
\<close>

theorem model_cannot_erase:
  assumes "\<forall>v \<in> set vs. fst (snd (snd v)) \<noteq> []" "i < length (ib_items ib)"
    and "score (al_suspicion (ib_items ib ! i)) x"
  shows "length (ib_items (foldl judge ib vs)) = length (ib_items ib) \<and>
    (\<exists>y r. al_suspicion (ib_items (foldl judge ib vs) ! i) = Fin y \<and> f32_round (x * model_floor) \<le> y \<and> y \<le> x \<and>
       al_rationale (ib_items (foldl judge ib vs) ! i) = al_rationale (ib_items ib ! i) @ r \<and>
       al_rule_id (ib_items (foldl judge ib vs) ! i) = al_rule_id (ib_items ib ! i) \<and>
       al_episode_id (ib_items (foldl judge ib vs) ! i) = al_episode_id (ib_items ib ! i) \<and>
       al_ts_unix_ms (ib_items (foldl judge ib vs) ! i) = al_ts_unix_ms (ib_items ib ! i))"
proof -
  let ?a = "ib_items ib ! i"
  have nth: "ib_items (foldl judge ib vs) ! i = foldl judge_alert ?a vs" using assms(2) by (simp add: judge_all_items)
  have x: "al_suspicion ?a = Fin x" "f32_round (x * model_floor) \<le> x"
    using f32_mul_unit_bounds(2) [of x 0 model_floor] assms(3) by (simp_all add: score_def model_floor_def)
  from judge_all_cases [OF assms(1), of ?a] show ?thesis
    unfolding nth
  proof
    assume "\<exists>t w b. foldl judge_alert ?a vs = model_verdict_on t w b ?a"
    then obtain t w b where m: "foldl judge_alert ?a vs = model_verdict_on t w b ?a" by blast
    from model_verdict_fields(4) [of t w b ?a] obtain r where r: "al_rationale (model_verdict_on t w b ?a) = al_rationale ?a @ r" ..
    show "length (ib_items (foldl judge ib vs)) = length (ib_items ib) \<and> (\<exists>y r. al_suspicion (foldl judge_alert ?a vs) = Fin y \<and>
       f32_round (x * model_floor) \<le> y \<and> y \<le> x \<and> al_rationale (foldl judge_alert ?a vs) = al_rationale ?a @ r \<and>
       al_rule_id (foldl judge_alert ?a vs) = al_rule_id ?a \<and> al_episode_id (foldl judge_alert ?a vs) = al_episode_id ?a \<and>
       al_ts_unix_ms (foldl judge_alert ?a vs) = al_ts_unix_ms ?a)"
      using model_verdict_bounds [OF assms(3), of t w b] r unfolding m by (simp add: judge_all_items model_verdict_fields)
  qed (use x in \<open>simp add: judge_all_items\<close>)
qed

definition demo_inbox :: inbox where
  "demo_inbox = snd (inbox_append 7 (builder_raw 7 [1] ''pre-filter'' ''r'' ''ep-1'' (Fin (1 / 2)) ''found'') (inbox_new 2 1000))"

lemma demo_inbox_items:
  "ib_items demo_inbox = [builder_raw 7 [1] ''pre-filter'' ''r'' ''ep-1'' (Fin (1 / 2)) ''found'']"
  by (simp add: demo_inbox_def inbox_append_def apply_silences_def inbox_new_def push_alert_def
      inherit_confirmation_def damp_for_recognition_def builder_raw_def)

theorem model_cannot_erase_witness:
  "\<exists>y. al_suspicion (ib_items (foldl judge demo_inbox
      [(''ep-1'', Fin 0, ''routine'', ''m''), (''ep-1'', Fin 0, ''again'', ''m'')]) ! 0) = Fin y \<and> 1 / 5 \<le> y"
proof -
  let ?vs = "[(''ep-1'', Fin 0, ''routine'', ''m''), (''ep-1'', Fin 0, ''again'', ''m'')]"
  have "score (al_suspicion (ib_items demo_inbox ! 0)) (1 / 2)"
    using score_half by (simp add: demo_inbox_items builder_raw_def)
  then obtain y where y: "al_suspicion (ib_items (foldl judge demo_inbox ?vs) ! 0) = Fin y" "f32_round (1 / 2 * model_floor) \<le> y"
    using model_cannot_erase [of ?vs 0 demo_inbox "1 / 2"] by (auto simp: demo_inbox_items)
  have "1 / 5 \<le> f32_round (1 / 2 * model_floor)"
    using f32_round_eqI [of "- 3" "1 / 2 * model_floor" 13421773] by (simp add: pow2_def model_floor_def)
  with y show ?thesis by auto
qed

text \<open>
  A verdict without an explanation escapes that floor. The explanation doubles as the mark that an
  alert was already judged, so a verdict whose explanation is empty leaves no mark: three of them take a
  score of one half below 0.033, where one alone, or any number with an explanation, leaves 0.2.
\<close>

theorem unexplained_verdicts_compound:
  "\<exists>y. al_suspicion (ib_items (foldl judge demo_inbox (replicate 3 (''ep-1'', Fin 0, [], ''m''))) ! 0) = Fin y \<and>
     y < 33 / 1000 \<and> y < f32_round (1 / 2 * model_floor)"
proof -
  let ?v = "(''ep-1'', Fin 0, [], ''m'')"
  have step: "al_suspicion (judge_alert a ?v) = Fin (f32_round (s * model_floor)) \<and>
      al_episode_id (judge_alert a ?v) = ''ep-1'' \<and> al_model_explanation (judge_alert a ?v) = []"
    if "al_episode_id a = ''ep-1''" "al_model_explanation a = []" "al_suspicion a = Fin s" "0 < s" "s \<le> 1"
      "0 < f32_round (s * model_floor)" for a s
  proof -
    have "f32_mul (Fin s) (to_f32 (4 / 10)) = Fin (f32_round (s * model_floor))"
      unfolding to_f32_4_10 model_floor_def using that by (intro f32_mul_unit) simp_all
    with that show ?thesis
      by (simp add: judge_alert_def model_verdict_on_def Let_def f32_le_def f32_max_def)
  qed
  have r: "f32_round (1 / 2 * model_floor) = 13421773 / 67108864"
    "f32_round (13421773 / 67108864 * model_floor) = 10737419 / 134217728"
    "f32_round (10737419 / 134217728 * model_floor) = 8589935 / 268435456"
    using f32_round_eqI [of "- 3" "1 / 2 * model_floor" 13421773]
      f32_round_eqI [of "- 4" "13421773 / 67108864 * model_floor" 10737419]
      f32_round_eqI [of "- 5" "10737419 / 134217728 * model_floor" 8589935]
    by (simp_all add: pow2_def model_floor_def)
  let ?a = "ib_items demo_inbox ! 0"
  have a: "al_suspicion ?a = Fin (1 / 2)" "al_episode_id ?a = ''ep-1''" "al_model_explanation ?a = []"
    by (simp_all add: demo_inbox_items builder_raw_def)
  note s1 = step [OF a(2,3,1), unfolded r(1)]
  note s3 = step [of "judge_alert (judge_alert ?a ?v) ?v" "10737419 / 134217728", unfolded r(3)]
  have "al_suspicion (foldl judge_alert ?a (replicate 3 ?v)) = Fin (8589935 / 268435456)"
    using s1 step [of "judge_alert ?a ?v" "13421773 / 67108864", unfolded r(2)] s3 by (simp add: eval_nat_numeral)
  then have "al_suspicion (ib_items (foldl judge demo_inbox (replicate 3 ?v)) ! 0) = Fin (8589935 / 268435456)"
    by (simp add: judge_all_items demo_inbox_items)
  then show ?thesis unfolding r(1) by (intro exI [of _ "8589935 / 268435456"]) simp
qed

section \<open>Reading and the cursor\<close>

lemma collect_gen:
  "length out < cap \<Longrightarrow> collect since cap items m out =
    (let due = take (cap - length out) (filter (\<lambda>a. since \<le> al_ts_unix_ms a) items) in
      (out @ due, foldl max m (map al_ts_unix_ms due)))"
proof (induction since cap items m out rule: collect.induct)
  case (2 since cap a rest m out)
  show ?case
  proof (cases "al_ts_unix_ms a < since")
    case True
    then show ?thesis using 2 by (simp add: not_less [symmetric])
  next
    case False
    then have le: "since \<le> al_ts_unix_ms a" by (simp only: not_less)
    have m: "(if m < al_ts_unix_ms a then al_ts_unix_ms a else m) = max m (al_ts_unix_ms a)" by (auto simp: max_def)
    obtain n where n: "cap - length out = Suc n" using 2(3) by (metis Suc_diff_Suc)
    show ?thesis
    proof (cases "cap \<le> length (out @ [a])")
      case True
      then have "n = 0" using n 2(3) by simp
      with True False le n m show ?thesis by (simp add: Let_def)
    next
      case c: False
      then have "n = cap - length (out @ [a])" using n by simp
      with 2(2) [OF False refl refl c] c False le n m show ?thesis by (simp add: Let_def)
    qed
  qed
qed simp

definition page_cap :: "nat \<Rightarrow> nat" where
  "page_cap max_items = (if max_items = 0 then 2 ^ 64 - 1 else max_items)"

definition due :: "u64 \<Rightarrow> u64 \<Rightarrow> nat \<Rightarrow> inbox \<Rightarrow> alert list" where
  "due now since max_items ib = take (page_cap max_items) (filter (\<lambda>a. since \<le> al_ts_unix_ms a) (ib_items (sweep now ib)))"

lemma read_since_eq:
  "read_since now since max_items ib =
    ((due now since max_items ib,
      if due now since max_items ib = [] then since
      else saturating_add (foldl max since (map al_ts_unix_ms (due now since max_items ib))) 1), sweep now ib)"
proof -
  have "length ([] :: alert list) < page_cap max_items" by (simp add: page_cap_def)
  note c = collect_gen [OF this, of since "ib_items (sweep now ib)" since]
  have p: "page_cap max_items = (if max_items = 0 then 2 ^ 64 - 1 else max_items)" by (simp add: page_cap_def)
  show ?thesis unfolding read_since_def Let_def p [symmetric] c by (simp add: due_def)
qed

lemma foldl_max_ge: "m \<le> foldl max m xs" for m :: u64
  by (induction xs arbitrary: m) (auto intro: order_trans [OF max.cobounded1])

lemma saturating_add_ge: "a \<le> saturating_add a b" for a b :: "'a::len word"
proof -
  have "unat a < 2 ^ LENGTH('a)" by (rule unsigned_less)
  then have "unat a \<le> 2 ^ LENGTH('a) - 1" by linarith
  then show ?thesis unfolding word_le_nat_alt unat_saturating_add by simp
qed

text \<open>Readers and writers of one inbox; a reader keeps the cursor of its last page.\<close>

datatype inbox_event = Arrive u64 alert | Judged model_verdict | Drain u64 nat

definition inbox_step :: "inbox \<times> u64 \<times> alert list \<Rightarrow> inbox_event \<Rightarrow> inbox \<times> u64 \<times> alert list" where
  "inbox_step s ev = (case s of (ib, cursor, got) \<Rightarrow>
     (case ev of
        Arrive now a \<Rightarrow> (snd (inbox_append now a ib), cursor, got)
      | Judged v \<Rightarrow> (judge ib v, cursor, got)
      | Drain now n \<Rightarrow> (case read_since now cursor n ib of ((out, cursor'), ib') \<Rightarrow> (ib', cursor', got @ out))))"

lemma cursor_step:
  assumes "inbox_step (ib, cur, got) ev = (ib', cur', got')"
  shows "cur \<le> cur' \<and> (\<exists>new. got' = got @ new \<and> (\<forall>a \<in> set new. cur \<le> al_ts_unix_ms a))"
proof (cases ev)
  case (Drain now n)
  with assms have "got' = got @ due now cur n ib" and c: "cur' = (if due now cur n ib = [] then cur
      else saturating_add (foldl max cur (map al_ts_unix_ms (due now cur n ib))) 1)"
    by (simp_all add: inbox_step_def read_since_eq)
  moreover have "\<forall>a \<in> set (due now cur n ib). cur \<le> al_ts_unix_ms a" by (auto simp: due_def dest!: in_set_takeD)
  moreover have "cur \<le> cur'" unfolding c
    using order_trans [OF foldl_max_ge [of cur] saturating_add_ge] by simp
  ultimately show ?thesis by blast
qed (use assms in \<open>auto simp: inbox_step_def\<close>)

lemma cursor_run:
  assumes "foldl inbox_step (ib, cur, got) evs = (ib', cur', got')"
  shows "cur \<le> cur' \<and> (\<exists>new. got' = got @ new \<and> (\<forall>a \<in> set new. cur \<le> al_ts_unix_ms a))"
  using assms
proof (induction evs arbitrary: ib cur got)
  case (Cons ev evs)
  obtain ib1 cur1 got1 where s: "inbox_step (ib, cur, got) ev = (ib1, cur1, got1)" by (cases "inbox_step (ib, cur, got) ev")
  from cursor_step [OF s] Cons.IH [of ib1 cur1 got1] Cons.prems s show ?case
    by (fastforce intro: order_trans)
qed simp

text \<open>What of an alert no operation of the inbox changes.\<close>

definition alert_key :: "alert \<Rightarrow> u64 \<times> string \<times> string" where
  "alert_key a = (al_ts_unix_ms a, al_episode_id a, al_rule_id a)"

lemma judge_alert_key [simp]: "alert_key (judge_alert a v) = alert_key a"
  by (auto simp: judge_alert_def alert_key_def model_verdict_fields split: prod.splits)

lemma inbox_append_items:
  obtains (Stored) a' where "fst (inbox_append now a ib) = Stored" "alert_key a' = alert_key a"
      "ib_items (snd (inbox_append now a ib)) =
         (if ib_capacity ib \<le> length (ib_items ib) then tl (ib_items ib) else ib_items ib) @ [a']"
  | (Suppressed) i where "fst (inbox_append now a ib) = SuppressedBy i" "ib_items (snd (inbox_append now a ib)) = ib_items ib"
proof -
  obtain r ib' where ap: "apply_silences now a ib = (r, ib')" by fastforce
  note f = apply_silences_fields [OF ap]
  show ?thesis
  proof (cases r)
    case (Inl i)
    then show ?thesis using that(2) ap f(1) by (simp add: inbox_append_def)
  next
    case (Inr a1)
    let ?a = "damp_for_recognition (inherit_confirmation (ib_items ib') a1)"
    have "alert_key ?a = alert_key a" using f(5-7) [OF Inr] by (simp add: alert_key_def)
    then show ?thesis using that(1) [of ?a] ap f(1,2) Inr by (simp add: inbox_append_def push_alert_items)
  qed
qed

lemma inbox_append_frame:
  "ib_capacity (snd (inbox_append now a ib)) = ib_capacity ib" "ib_retention (snd (inbox_append now a ib)) = ib_retention ib"
proof -
  obtain r ib' where ap: "apply_silences now a ib = (r, ib')" by fastforce
  note f = apply_silences_fields [OF ap]
  show "ib_capacity (snd (inbox_append now a ib)) = ib_capacity ib" "ib_retention (snd (inbox_append now a ib)) = ib_retention ib"
    using ap f(2,3) by (cases r; simp add: inbox_append_def push_alert_items)+
qed

lemma judge_frame: "ib_capacity (judge ib v) = ib_capacity ib" "ib_retention (judge ib v) = ib_retention ib"
  by (cases v; simp add: judge_def apply_model_verdict_def)+

lemma sweep_simps:
  "set (ib_items (sweep now ib)) \<subseteq> set (ib_items ib)" "length (ib_items (sweep now ib)) \<le> length (ib_items ib)"
  "ib_capacity (sweep now ib) = ib_capacity ib" "ib_retention (sweep now ib) = ib_retention ib"
  by (auto simp: sweep_def length_dropWhile_le dest: set_dropWhileD)

text \<open>
  What holds at any time for a reader who always asks for everything, as long as no alert arrives
  behind its cursor: what the ring still holds from before the cursor was delivered.
\<close>

fun punctual :: "inbox \<times> u64 \<times> alert list \<Rightarrow> inbox_event list \<Rightarrow> bool" where
  "punctual s [] \<longleftrightarrow> True"
| "punctual s (ev # evs) \<longleftrightarrow>
     (case ev of Arrive _ a \<Rightarrow> fst (snd s) \<le> al_ts_unix_ms a | Judged _ \<Rightarrow> True | Drain _ n \<Rightarrow> n = 0) \<and>
     punctual (inbox_step s ev) evs"

definition delivered_inv :: "inbox \<times> u64 \<times> alert list \<Rightarrow> bool" where
  "delivered_inv s \<longleftrightarrow> (case s of (ib, cur, got) \<Rightarrow>
     0 < ib_capacity ib \<and> ib_capacity ib < 2 ^ 64 \<and> length (ib_items ib) \<le> ib_capacity ib \<and>
     (\<forall>a \<in> set (ib_items ib). al_ts_unix_ms a < cur \<longrightarrow> alert_key a \<in> alert_key ` set got))"

lemma delivered_drain:
  assumes "delivered_inv (ib, cur, got)" "inbox_step (ib, cur, got) (Drain now 0) = (ib', cur', got')"
  shows "delivered_inv (ib', cur', got') \<and> alert_key ` set (ib_items ib') \<subseteq> alert_key ` set got'"
proof -
  let ?f = "filter (\<lambda>a. cur \<le> al_ts_unix_ms a) (ib_items (sweep now ib))"
  have eq: "ib' = sweep now ib" "got' = got @ due now cur 0 ib"
    using assms(2) by (simp_all add: inbox_step_def read_since_eq)
  have inv: "0 < ib_capacity ib" "ib_capacity ib < 2 ^ 64" "length (ib_items ib) \<le> ib_capacity ib"
    "\<And>a. a \<in> set (ib_items ib) \<Longrightarrow> al_ts_unix_ms a < cur \<Longrightarrow> alert_key a \<in> alert_key ` set got"
    using assms(1) by (auto simp: delivered_inv_def)
  have len: "length (ib_items ib') \<le> ib_capacity ib" using sweep_simps(2) [of now ib] inv(3) eq by simp
  have "length ?f \<le> 2 ^ 64 - 1"
    using length_filter_le [of "\<lambda>a. cur \<le> al_ts_unix_ms a" "ib_items ib'"] len inv(2) unfolding eq by linarith
  then have due: "due now cur 0 ib = ?f" by (simp add: due_def page_cap_def)
  have all: "alert_key a \<in> alert_key ` set got'" if "a \<in> set (ib_items ib')" for a
  proof (cases "al_ts_unix_ms a < cur")
    case True
    with that sweep_simps(1) [of now ib] eq inv(4) [of a] show ?thesis by auto
  next
    case False
    with that show ?thesis by (auto simp: eq due not_less)
  qed
  then show ?thesis using inv len sweep_simps(3) [of now ib] eq by (auto simp: delivered_inv_def)
qed

lemma in_set_tlD: "x \<in> set (tl xs) \<Longrightarrow> x \<in> set xs"
  by (cases xs) auto

lemma delivered_step:
  assumes inv: "delivered_inv s" and ok: "punctual s [ev]"
  shows "delivered_inv (inbox_step s ev)"
proof -
  obtain ib cur got where s: "s = (ib, cur, got)" by (cases s)
  show ?thesis
  proof (cases ev)
    case (Arrive now a)
    note fr = inbox_append_frame [of now a ib]
    show ?thesis
    proof (rule inbox_append_items [of now a ib])
      fix a' assume k: "alert_key a' = alert_key a" and it: "ib_items (snd (inbox_append now a ib)) =
         (if ib_capacity ib \<le> length (ib_items ib) then tl (ib_items ib) else ib_items ib) @ [a']"
      from k ok have "\<not> al_ts_unix_ms a' < cur" by (auto simp: s Arrive alert_key_def)
      then show ?thesis using inv it fr
        by (auto simp: s Arrive inbox_step_def delivered_inv_def dest: in_set_tlD)
    qed (use inv fr in \<open>auto simp: s Arrive inbox_step_def delivered_inv_def\<close>)
  next
    case (Judged v)
    have "al_ts_unix_ms (judge_alert a v) = al_ts_unix_ms a" for a
      using judge_alert_key [of a v] by (simp only: alert_key_def prod.inject)
    with inv show ?thesis by (auto simp: s Judged inbox_step_def delivered_inv_def judge_items judge_frame)
  next
    case (Drain now n)
    obtain ib' cur' got' where st: "inbox_step (ib, cur, got) (Drain now 0) = (ib', cur', got')"
      by (cases "inbox_step (ib, cur, got) (Drain now 0)")
    from ok Drain have "n = 0" by simp
    with delivered_drain [OF _ st] inv s Drain st show ?thesis by simp
  qed
qed

lemma punctual_append: "punctual s (evs @ evs') \<longleftrightarrow> punctual s evs \<and> punctual (foldl inbox_step s evs) evs'"
  by (induction evs arbitrary: s) auto

lemma delivered_run: "delivered_inv s \<Longrightarrow> punctual s evs \<Longrightarrow> delivered_inv (foldl inbox_step s evs)"
  by (induction evs arbitrary: s) (use delivered_step in auto)

lemma inbox_new_delivered: "n < 2 ^ 64 \<Longrightarrow> delivered_inv (inbox_new n ret, cur, [])"
  by (simp add: delivered_inv_def inbox_new_def)

text \<open>
  An operator who follows the cursor sees every alert. Let alerts arrive and be judged, and let a
  reader that always asks for everything read at any times with the cursor of its last page. If no
  alert arrives with a time stamp behind the cursor of that moment, then after each read everything the
  inbox still holds has been delivered; the inbox never holds more alerts than its capacity.
\<close>

theorem following_reader_sees_all:
  assumes "n < 2 ^ 64" "punctual (inbox_new n ret, cur, []) evs"
    and "foldl inbox_step (inbox_new n ret, cur, []) (evs @ [Drain now 0]) = (ib', cur', got')"
  shows "alert_key ` set (ib_items ib') \<subseteq> alert_key ` set got' \<and> length (ib_items ib') \<le> max n 1"
proof -
  obtain ib1 cur1 got1 where run: "foldl inbox_step (inbox_new n ret, cur, []) evs = (ib1, cur1, got1)"
    by (cases "foldl inbox_step (inbox_new n ret, cur, []) evs")
  have inv: "delivered_inv (ib1, cur1, got1)"
    using delivered_run [OF inbox_new_delivered assms(2)] assms(1) run by simp
  have last: "inbox_step (ib1, cur1, got1) (Drain now 0) = (ib', cur', got')" using assms(3) run by simp
  have cap: "ib_capacity (fst (foldl inbox_step s evs)) = ib_capacity (fst s)" for s
    by (induction evs arbitrary: s) (auto simp: inbox_step_def read_since_eq inbox_append_frame judge_frame sweep_simps
        split: prod.splits inbox_event.splits)
  have "ib_capacity ib1 = max n 1" using cap [of "(inbox_new n ret, cur, [])"] run by (simp add: inbox_new_def)
  moreover have "ib_capacity ib' = ib_capacity ib1" using last by (auto simp: inbox_step_def read_since_eq sweep_simps)
  ultimately show ?thesis using delivered_drain [OF inv last] by (simp add: delivered_inv_def)
qed

theorem following_reader_sees_all_witness:
  "\<exists>ib' cur' got'. foldl inbox_step (inbox_new 2 1000, 0, [])
      ([Arrive 7 (demo_alert ''r'' 7), Drain 7 0, Arrive 8 (demo_alert ''r'' 8)] @ [Drain 8 0]) = (ib', cur', got') \<and>
    alert_key ` set (ib_items ib') \<subseteq> alert_key ` set got' \<and> length (ib_items ib') \<le> max 2 1"
proof -
  let ?s = "(inbox_new 2 1000, 0, [])" let ?evs = "[Arrive 7 (demo_alert ''r'' 7), Drain 7 0, Arrive 8 (demo_alert ''r'' 8)]"
  obtain ib' cur' got' where run: "foldl inbox_step ?s (?evs @ [Drain 8 0]) = (ib', cur', got')"
    by (cases "foldl inbox_step ?s (?evs @ [Drain 8 0])")
  obtain ib1 a' where s1: "inbox_step ?s (Arrive 7 (demo_alert ''r'' 7)) = (ib1, 0, [])" "ib_items ib1 = [a']" "alert_key a' = alert_key (demo_alert ''r'' 7)"
    by (rule inbox_append_items [of 7 "demo_alert ''r'' 7" "inbox_new 2 1000"])
      (auto simp: inbox_step_def inbox_new_def inbox_append_def apply_silences_def)
  have ts: "al_ts_unix_ms (demo_alert ''r'' t) = t" for t by (simp add: demo_alert_def builder_confirmation_def builder_raw_def)
  then have "al_ts_unix_ms a' = 7" using s1(3) by (simp add: alert_key_def)
  then have "due 7 0 0 ib1 = take (page_cap 0) (ib_items (sweep 7 ib1))" and "\<And>b. b \<in> set (ib_items (sweep 7 ib1)) \<Longrightarrow> al_ts_unix_ms b = 7"
    using s1(2) sweep_simps(1) [of 7 ib1] by (auto simp: due_def)
  then have d: "\<And>b. b \<in> set (due 7 0 0 ib1) \<Longrightarrow> al_ts_unix_ms b = 7" by (auto dest: in_set_takeD)
  have "foldl max 0 (map al_ts_unix_ms xs) \<le> 7" if "\<And>b. b \<in> set xs \<Longrightarrow> al_ts_unix_ms b = 7" for xs
    using that by (induction xs rule: rev_induct) auto
  then have m: "foldl max 0 (map al_ts_unix_ms (due 7 0 0 ib1)) \<le> 7" using d by blast
  have "saturating_add m 1 \<le> (8 :: u64)" if "m \<le> 7" for m
    using that unfolding word_le_nat_alt unat_saturating_add by simp
  with m have "fst (snd (inbox_step (ib1, 0, []) (Drain 7 0))) \<le> 8"
    by (simp add: inbox_step_def read_since_eq)
  then have "punctual ?s ?evs" using s1(1) by (simp add: ts)
  then show ?thesis using following_reader_sees_all [OF _ _ run] run by auto
qed

text \<open>
  An alert that arrives behind the cursor is never delivered. Time stamps are taken when an alert is
  built, the cursor is one past the greatest one read; an alert built no later than the newest one read,
  even in the same millisecond, but appended after the read, is stored, and no later page of that reader
  has an alert of its time, whatever happens.
\<close>

theorem late_alert_never_delivered:
  assumes "inbox_append now a ib = (Stored, ib1)" "al_ts_unix_ms a < cur"
    and "foldl inbox_step (ib1, cur, got) evs = (ib', cur', got')"
  shows "al_ts_unix_ms (last (ib_items ib1)) = al_ts_unix_ms a \<and>
    (\<exists>new. got' = got @ new \<and> (\<forall>b \<in> set new. al_ts_unix_ms b \<noteq> al_ts_unix_ms a))"
proof -
  have "alert_key (last (ib_items ib1)) = alert_key a"
    using assms(1) by (cases rule: inbox_append_items [of now a ib]) auto
  moreover from cursor_run [OF assms(3)] obtain new where "got' = got @ new"
    "\<forall>b \<in> set new. cur \<le> al_ts_unix_ms b" by blast
  ultimately show ?thesis using assms(2) by (auto simp: alert_key_def)
qed

theorem late_alert_never_delivered_witness:
  "\<exists>ib1 ib2 ib' cur' got'. inbox_step (demo_inbox, 0, []) (Drain 7 0) = (ib1, 8, ib_items demo_inbox) \<and>
     inbox_append 8 (builder_raw 7 [1] ''pre-filter'' ''r2'' ''ep-2'' (Fin 1) ''late'') ib1 = (Stored, ib2) \<and>
     foldl inbox_step (ib2, 8, []) [Drain 9 0, Drain 10 0] = (ib', cur', got') \<and>
     (\<forall>b \<in> set got'. al_ts_unix_ms b \<noteq> 7)"
proof -
  let ?a = "builder_raw 7 [1] ''pre-filter'' ''r2'' ''ep-2'' (Fin 1) ''late''"
  have ret: "ib_retention demo_inbox = 1000" by (simp add: demo_inbox_def inbox_append_frame inbox_new_def)
  have sw: "sweep 7 demo_inbox = demo_inbox" using ret by (simp add: sweep_def demo_inbox_items u64_or_max_def saturating_sub_def)
  have sil: "ib_silences demo_inbox = None"
    by (simp add: demo_inbox_def inbox_append_def apply_silences_def inbox_new_def push_alert_items)
  have "due 7 0 0 demo_inbox = ib_items demo_inbox" by (simp add: due_def sw demo_inbox_items page_cap_def)
  then have s1: "inbox_step (demo_inbox, 0, []) (Drain 7 0) = (demo_inbox, 8, ib_items demo_inbox)"
    by (simp add: inbox_step_def read_since_eq sw demo_inbox_items builder_raw_def saturating_add_def)
  obtain ib2 where ap: "inbox_append 8 ?a demo_inbox = (Stored, ib2)"
    by (simp add: inbox_append_def apply_silences_def sil)
  obtain ib' cur' got' where run: "foldl inbox_step (ib2, 8, []) [Drain 9 0, Drain 10 0] = (ib', cur', got')"
    by (cases "foldl inbox_step (ib2, 8, []) [Drain 9 0, Drain 10 0]")
  have "al_ts_unix_ms ?a < 8" "al_ts_unix_ms ?a = 7" by (simp_all add: builder_raw_def)
  with late_alert_never_delivered [OF ap _ run] s1 ap run show ?thesis by auto
qed

section \<open>Envelopes\<close>

definition batch_bytes :: "(alert \<Rightarrow> nat) \<Rightarrow> alert list \<Rightarrow> nat" where
  "batch_bytes encoded_len b = sum_list (map encoded_len b)"

definition chunk_inv :: "(alert \<Rightarrow> nat) \<Rightarrow> nat \<Rightarrow> alert list \<Rightarrow> alert list list \<times> alert list \<times> nat \<Rightarrow> bool" where
  "chunk_inv len budget items s \<longleftrightarrow> (case s of (bs, b, n) \<Rightarrow>
     concat bs @ b = items \<and> n = batch_bytes len b \<and> (\<forall>c \<in> set bs. c \<noteq> []) \<and>
     (\<forall>c \<in> set (b # bs). batch_bytes len c \<le> budget \<or> length c = 1))"

lemma chunk_step_inv:
  assumes "chunk_inv len budget items s"
  shows "chunk_inv len budget (items @ [a]) (chunk_step len budget s a)"
proof -
  obtain bs b n where s: "s = (bs, b, n)" by (cases s)
  show ?thesis
  proof (cases "b = []")
    case True
    with assms show ?thesis by (auto simp: s chunk_inv_def chunk_step_def batch_bytes_def)
  next
    case False
    with assms show ?thesis by (auto simp: s chunk_inv_def chunk_step_def batch_bytes_def)
  qed
qed

lemma chunk_fold_inv: "chunk_inv len budget items (foldl (chunk_step len budget) ([], [], 0) items)"
  by (induction items rule: rev_induct) (simp_all add: chunk_step_inv, simp add: chunk_inv_def batch_bytes_def)

lemma chunk_alerts_spec:
  "concat (chunk_alerts len items budget) = items" "chunk_alerts len items budget \<noteq> []"
  "c \<in> set (chunk_alerts len items budget) \<Longrightarrow> batch_bytes len c \<le> budget \<or> length c = 1"
  "c \<in> set (butlast (chunk_alerts len items budget)) \<Longrightarrow> c \<noteq> []"
proof -
  obtain bs b n where f: "foldl (chunk_step len budget) ([], [], 0) items = (bs, b, n)"
    by (cases "foldl (chunk_step len budget) ([], [], 0) items")
  from chunk_fold_inv [of len budget items] have inv: "concat bs @ b = items" "\<forall>c \<in> set bs. c \<noteq> []"
    "\<forall>c \<in> set (b # bs). batch_bytes len c \<le> budget \<or> length c = 1" by (auto simp: f chunk_inv_def)
  have c: "chunk_alerts len items budget = bs @ [b]" by (simp add: chunk_alerts_def f)
  show "concat (chunk_alerts len items budget) = items" "chunk_alerts len items budget \<noteq> []" using inv by (simp_all add: c)
  show "c \<in> set (chunk_alerts len items budget) \<Longrightarrow> batch_bytes len c \<le> budget \<or> length c = 1"
    "c \<in> set (butlast (chunk_alerts len items budget)) \<Longrightarrow> c \<noteq> []" using inv by (auto simp: c)
qed

lemma poll_loop_more:
  "\<forall>m \<in> set ms. \<not> am_end m \<Longrightarrow>
   poll_loop acc cur (map RecvAlerts ms @ rest) = poll_loop (acc @ concat (map am_items ms)) cur rest"
  by (induction ms arbitrary: acc) simp_all

lemma alerts_chunks_split:
  "\<exists>ms b. alerts_chunks len items cursor = ms @ [\<lparr>am_items = b, am_cursor_unix_ms = cursor, am_end = True\<rparr>] \<and>
     (\<forall>m \<in> set ms. \<not> am_end m) \<and> concat (map am_items ms) @ b = items \<and>
     map am_items ms @ [b] = chunk_alerts len items ALERTS_CHUNK_BUDGET_BYTES"
proof -
  let ?c = "chunk_alerts len items ALERTS_CHUNK_BUDGET_BYTES"
  define bs where "bs = butlast ?c"
  define b where "b = last ?c"
  have c: "?c = bs @ [b]" using chunk_alerts_spec(2) [of len items] by (simp add: bs_def b_def)
  let ?f = "\<lambda>(i, batch). \<lparr>am_items = batch, am_cursor_unix_ms = (if i = length bs then cursor else 0), am_end = (i = length bs)\<rparr>"
  let ?ms = "map ?f (enumerate 0 bs)"
  have "alerts_chunks len items cursor = ?ms @ [\<lparr>am_items = b, am_cursor_unix_ms = cursor, am_end = True\<rparr>]"
    by (simp add: alerts_chunks_def c Let_def enumerate_append_eq)
  moreover have "\<forall>m \<in> set ?ms. \<not> am_end m" by (auto simp: in_set_enumerate_eq)
  moreover have items: "map am_items ?ms = bs" by (simp add: comp_def case_prod_unfold)
  moreover have "concat bs @ b = items" using chunk_alerts_spec(1) [of len items ALERTS_CHUNK_BUDGET_BYTES] by (simp add: c)
  ultimately show ?thesis using c by (intro exI conjI) auto
qed

text \<open>
  A response of any size is put together again. The envelopes an agent cuts a page into hold, in
  order, exactly the alerts of the page, each within the budget or with a single alert, and the operator's
  loop returns that page and its cursor. If the connection ends before the last envelope, the operator
  has the alerts that came, if any came, and its old cursor, so the rest is asked for again.
\<close>

theorem alerts_response_roundtrip:
  "poll_loop [] since (map RecvAlerts (alerts_chunks len items cursor)) = Inr (items, cursor) \<and>
   (\<forall>m \<in> set (alerts_chunks len items cursor).
      batch_bytes len (am_items m) \<le> ALERTS_CHUNK_BUDGET_BYTES \<or> length (am_items m) = 1) \<and>
   (\<forall>k < length (alerts_chunks len items cursor). \<exists>got rest. items = got @ rest \<and>
      poll_loop [] since (map RecvAlerts (take k (alerts_chunks len items cursor)) @ [RecvNothing]) =
        (if got = [] then Inl PollNoResponse else Inr (got, since)))"
proof -
  obtain ms b where ch: "alerts_chunks len items cursor = ms @ [\<lparr>am_items = b, am_cursor_unix_ms = cursor, am_end = True\<rparr>]"
    and more: "\<forall>m \<in> set ms. \<not> am_end m" and all: "concat (map am_items ms) @ b = items"
    and bs: "map am_items ms @ [b] = chunk_alerts len items ALERTS_CHUNK_BUDGET_BYTES"
    using alerts_chunks_split [of len items cursor] by blast
  have "batch_bytes len c \<le> ALERTS_CHUNK_BUDGET_BYTES \<or> length c = 1" if "c \<in> set (map am_items ms @ [b])" for c
    using chunk_alerts_spec(3) [of c len items ALERTS_CHUNK_BUDGET_BYTES] that unfolding bs by simp
  then have budget: "\<forall>m \<in> set (alerts_chunks len items cursor).
      batch_bytes len (am_items m) \<le> ALERTS_CHUNK_BUDGET_BYTES \<or> length (am_items m) = 1" by (auto simp: ch)
  have "\<exists>got rest. items = got @ rest \<and> poll_loop [] since (map RecvAlerts (take k (alerts_chunks len items cursor)) @ [RecvNothing]) =
      (if got = [] then Inl PollNoResponse else Inr (got, since))" if "k < length (alerts_chunks len items cursor)" for k
  proof (intro exI conjI)
    have t: "take k (alerts_chunks len items cursor) = take k ms" using that by (simp add: ch)
    show "items = concat (map am_items (take k ms)) @ (concat (map am_items (drop k ms)) @ b)"
      using all by (metis append.assoc append_take_drop_id concat_append map_append)
    have "\<forall>m \<in> set (take k ms). \<not> am_end m" using more by (meson in_set_takeD)
    from poll_loop_more [OF this, of "[]" since "[RecvNothing]"]
    show "poll_loop [] since (map RecvAlerts (take k (alerts_chunks len items cursor)) @ [RecvNothing]) =
      (if concat (map am_items (take k ms)) = [] then Inl PollNoResponse else Inr (concat (map am_items (take k ms)), since))"
      unfolding t by simp
  qed
  moreover have "poll_loop [] since (map RecvAlerts (alerts_chunks len items cursor)) = Inr (items, cursor)"
    using poll_loop_more [OF more, of "[]" since] all by (simp add: ch)
  ultimately show ?thesis using budget by blast
qed

theorem alerts_response_roundtrip_witness:
  "\<exists>got rest. [demo_alert ''r'' 7, demo_alert ''r'' 8] = got @ rest \<and> got \<noteq> [] \<and>
     poll_loop [] 3 (map RecvAlerts (take 1 (alerts_chunks (\<lambda>_. 30000) [demo_alert ''r'' 7, demo_alert ''r'' 8] 9)) @
       [RecvNothing]) = Inr (got, 3)"
proof -
  let ?items = "[demo_alert ''r'' 7, demo_alert ''r'' 8]"
  have ch: "alerts_chunks (\<lambda>_. 30000) ?items 9 =
      [\<lparr>am_items = [demo_alert ''r'' 7], am_cursor_unix_ms = 0, am_end = False\<rparr>,
       \<lparr>am_items = [demo_alert ''r'' 8], am_cursor_unix_ms = 9, am_end = True\<rparr>]"
    by (simp add: alerts_chunks_def chunk_alerts_def chunk_step_def ALERTS_CHUNK_BUDGET_BYTES_def)
  then have "1 < length (alerts_chunks (\<lambda>_. 30000) ?items 9)" by simp
  with alerts_response_roundtrip [of 3 "\<lambda>_. 30000" ?items 9] obtain got rest where g: "?items = got @ rest"
    "poll_loop [] 3 (map RecvAlerts (take 1 (alerts_chunks (\<lambda>_. 30000) ?items 9)) @ [RecvNothing]) =
      (if got = [] then Inl PollNoResponse else Inr (got, 3))" by blast
  moreover have "poll_loop [] 3 (map RecvAlerts (take 1 (alerts_chunks (\<lambda>_. 30000) ?items 9)) @ [RecvNothing]) =
      Inr ([demo_alert ''r'' 7], 3)" by (simp add: ch)
  ultimately have "got \<noteq> []" by auto
  with g show ?thesis by auto
qed

end
