(* ===== verification/Seen.thy ===== *)
theory Seen
  imports Prelude "HOL-Library.AList"
begin

text \<open>
  The bounded, expiring set of keys an agent has already handled,
  \<open>crates/bowery-agent/src/seen.rs\<close>: it cuts the loops of rule distribution and collapses repeated
  corroboration claims. Times are readings of a monotonic clock in nanoseconds.
\<close>

section \<open>The set\<close>

record recently_seen =
  sn_seen :: "((string \<times> string) \<times> nat) list"
  sn_ttl :: nat
  sn_max_entries :: nat

definition seen_new :: "nat \<Rightarrow> nat \<Rightarrow> recently_seen" where
  "seen_new ttl max_entries = \<lparr>sn_seen = [], sn_ttl = ttl, sn_max_entries = max_entries\<rparr>"

text \<open>\<open>min_by_key\<close>: of several oldest entries, the first in iteration order.\<close>

definition oldest_seen :: "((string \<times> string) \<times> nat) list \<Rightarrow> (string \<times> string) option" where
  "oldest_seen es = (case es of [] \<Rightarrow> None
     | x # xs \<Rightarrow> Some (fst (foldl (\<lambda>m y. if snd y < snd m then y else m) x xs)))"

definition check_and_record_seen :: "nat \<Rightarrow> string \<Rightarrow> string \<Rightarrow> recently_seen \<Rightarrow> bool \<times> recently_seen" where
  "check_and_record_seen now scope i s =
     (let live = filter (\<lambda>(_, first). now - first < sn_ttl s) (sn_seen s);
          kept = (if sn_max_entries s \<le> length live
                  then (case oldest_seen live of None \<Rightarrow> live | Some k \<Rightarrow> AList.delete k live)
                  else live)
      in (map_of kept (scope, i) = None, s\<lparr>sn_seen := AList.update (scope, i) now kept\<rparr>))"

definition seen_len :: "recently_seen \<Rightarrow> nat" where
  "seen_len s = length (sn_seen s)"

section \<open>Facts\<close>

definition seen_wf :: "recently_seen \<Rightarrow> bool" where
  "seen_wf s \<longleftrightarrow> distinct (map fst (sn_seen s)) \<and> length (sn_seen s) \<le> sn_max_entries s \<and> 0 < sn_max_entries s"

lemma seen_new_wf: "0 < n \<Longrightarrow> seen_wf (seen_new ttl n)"
  by (simp add: seen_wf_def seen_new_def)

lemma oldest_seen_mem: "es \<noteq> [] \<Longrightarrow> \<exists>k. oldest_seen es = Some k \<and> k \<in> fst ` set es"
proof -
  have "foldl (\<lambda>m y. if snd y < snd m then y else m) x xs \<in> set (x # xs)" for x :: "('a \<times> 'b) \<times> nat" and xs
    by (induction xs arbitrary: x) (auto split: if_splits)
  then show "es \<noteq> [] \<Longrightarrow> ?thesis" by (cases es) (fastforce simp: oldest_seen_def)+
qed

lemma update_length_le: "length (AList.update k v xs) \<le> Suc (length xs)"
  by (induction xs) auto

lemma delete_length_less: "k \<in> fst ` set xs \<Longrightarrow> length (AList.delete k xs) < length xs"
  unfolding AList.delete_eq by (auto intro: length_filter_less)

text \<open>What is left of the entries before the new one is recorded.\<close>

definition seen_kept :: "nat \<Rightarrow> recently_seen \<Rightarrow> ((string \<times> string) \<times> nat) list" where
  "seen_kept now s =
     (let live = filter (\<lambda>(_, first). now - first < sn_ttl s) (sn_seen s) in
      if sn_max_entries s \<le> length live
      then (case oldest_seen live of None \<Rightarrow> live | Some k \<Rightarrow> AList.delete k live)
      else live)"

lemma check_and_record_seen_eq:
  "check_and_record_seen now scope i s =
     (map_of (seen_kept now s) (scope, i) = None, s\<lparr>sn_seen := AList.update (scope, i) now (seen_kept now s)\<rparr>)"
  by (simp add: check_and_record_seen_def seen_kept_def Let_def)

lemma seen_kept_wf:
  assumes "seen_wf s"
  shows "distinct (map fst (seen_kept now s))" "length (seen_kept now s) < sn_max_entries s"
    "set (seen_kept now s) \<subseteq> set (sn_seen s)"
proof -
  let ?live = "filter (\<lambda>(_, first). now - first < sn_ttl s) (sn_seen s)"
  have d: "distinct (map fst ?live)" using assms by (simp add: seen_wf_def distinct_map_filter)
  have l: "length ?live \<le> sn_max_entries s" using assms le_trans [OF length_filter_le, of "sn_seen s" "sn_max_entries s"] by (auto simp: seen_wf_def)
  show "distinct (map fst (seen_kept now s))"
    using d by (auto simp: seen_kept_def Let_def distinct_delete split: option.splits)
  show "set (seen_kept now s) \<subseteq> set (sn_seen s)"
    by (auto simp: seen_kept_def Let_def AList.delete_eq split: option.splits if_splits)
  show "length (seen_kept now s) < sn_max_entries s"
  proof (cases "sn_max_entries s \<le> length ?live")
    case True
    then have "?live \<noteq> []" using assms by (auto simp: seen_wf_def)
    from oldest_seen_mem [OF this] obtain k where "oldest_seen ?live = Some k" "k \<in> fst ` set ?live" by blast
    with delete_length_less [of k ?live] l True show ?thesis by (simp add: seen_kept_def Let_def)
  qed (simp add: seen_kept_def Let_def)
qed

lemma check_and_record_wf:
  assumes "seen_wf s"
  shows "seen_wf (snd (check_and_record_seen now scope i s))"
  using seen_kept_wf [OF assms, of now] assms update_length_le [of "(scope, i)" now "seen_kept now s"]
  by (auto simp: check_and_record_seen_eq seen_wf_def distinct_update)

text \<open>With room for one more, an entry is there exactly until it expires.\<close>

lemma seen_kept_roomy:
  assumes "length (sn_seen s) < sn_max_entries s"
  shows "seen_kept now s = filter (\<lambda>(_, first). now - first < sn_ttl s) (sn_seen s)"
proof -
  have "length (filter (\<lambda>(_, first). now - first < sn_ttl s) (sn_seen s)) < sn_max_entries s"
    using le_less_trans [OF length_filter_le assms] .
  then show ?thesis by (simp add: seen_kept_def Let_def)
qed

lemma check_and_record_repeat:
  assumes "seen_wf s" "length (sn_seen s) < sn_max_entries s" "map_of (sn_seen s) (scope, i) = Some t"
  shows "fst (check_and_record_seen now scope i s) \<longleftrightarrow> sn_ttl s \<le> now - t"
  using assms(1,3) map_of_filter [of "sn_seen s" _ "(scope, i)"]
  by (auto simp: check_and_record_seen_eq seen_kept_roomy [OF assms(2)] seen_wf_def not_less)

section \<open>Repeats\<close>

text \<open>Calls in order, each with its time, and what they answered.\<close>

fun seen_run :: "recently_seen \<Rightarrow> (nat \<times> string \<times> string) list \<Rightarrow> (nat \<times> string \<times> string \<times> bool) list" where
  "seen_run s [] = []"
| "seen_run s ((now, scope, i) # evs) =
     (case check_and_record_seen now scope i s of (new, s') \<Rightarrow> (now, scope, i, new) # seen_run s' evs)"

text \<open>The set never fills up during the calls.\<close>

fun roomy :: "recently_seen \<Rightarrow> (nat \<times> string \<times> string) list \<Rightarrow> bool" where
  "roomy s [] \<longleftrightarrow> True"
| "roomy s ((now, scope, i) # evs) \<longleftrightarrow>
     length (sn_seen s) < sn_max_entries s \<and> roomy (snd (check_and_record_seen now scope i s)) evs"

text \<open>No two calls for the key, nor the calls between them, are a lifetime apart.\<close>

fun steady :: "nat \<Rightarrow> string \<times> string \<Rightarrow> nat \<Rightarrow> (nat \<times> string \<times> string) list \<Rightarrow> bool" where
  "steady ttl k t [] \<longleftrightarrow> True"
| "steady ttl k t ((now, scope, i) # evs) \<longleftrightarrow>
     now - t < ttl \<and> steady ttl k (if (scope, i) = k then now else t) evs"

lemma check_and_record_entry:
  assumes "seen_wf s" "length (sn_seen s) < sn_max_entries s" "map_of (sn_seen s) k = Some t" "now - t < sn_ttl s"
  shows "map_of (sn_seen (snd (check_and_record_seen now scope i s))) k = Some (if (scope, i) = k then now else t)"
proof -
  have "map_of (seen_kept now s) k = Some t"
    using assms map_of_filter [of "sn_seen s" _ k]
    by (simp add: seen_kept_roomy [OF assms(2)] seen_wf_def)
  then show ?thesis by (simp add: check_and_record_seen_eq update_conv')
qed

lemma steady_repeats_refused:
  assumes "seen_wf s" "map_of (sn_seen s) k = Some t" "steady (sn_ttl s) k t evs" "roomy s evs"
    and "(now, scope, i, new) \<in> set (seen_run s evs)" "(scope, i) = k"
  shows "\<not> new"
  using assms(1-5)
proof (induction evs arbitrary: s t)
  case (Cons ev evs)
  obtain now' scope' i' where ev: "ev = (now', scope', i')" by (cases ev)
  obtain b s' where c: "check_and_record_seen now' scope' i' s = (b, s')" by fastforce
  have room: "length (sn_seen s) < sn_max_entries s" "roomy s' evs" using Cons.prems(4) c ev by auto
  have t: "now' - t < sn_ttl s" using Cons.prems(3) ev by simp
  have "sn_ttl s' = sn_ttl s" using c by (auto simp: check_and_record_seen_eq)
  then have IH: "(now, scope, i, new) \<in> set (seen_run s' evs) \<Longrightarrow> \<not> new"
    using Cons.IH [of s' "if (scope', i') = k then now' else t"] check_and_record_wf [OF Cons.prems(1)]
      check_and_record_entry [OF Cons.prems(1) room(1) Cons.prems(2) t] Cons.prems(3) room(2) c ev
    by (metis (no_types, lifting) snd_conv steady.simps(2))
  have "\<not> b" if "(scope', i') = k"
    using check_and_record_repeat [OF Cons.prems(1) room(1), of scope' i' t now'] Cons.prems(2) that t c by auto
  then show ?case using Cons.prems(5) IH assms(6) c ev by auto
qed simp

text \<open>
  A repeated key never expires. The set keeps an entry for its lifetime, but every repeat renews it:
  once a key was recorded, each later call for it is refused as already handled, as long as the calls
  keep coming with gaps below the lifetime and the set does not fill up, however long that goes on.
\<close>

theorem repeats_renew_forever:
  assumes "seen_wf s" "length (sn_seen s) < sn_max_entries s"
    and "check_and_record_seen t scope i s = (True, s')" "steady (sn_ttl s) (scope, i) t evs" "roomy s' evs"
  shows "\<forall>(now, sc, j, new) \<in> set (seen_run s' evs). (sc, j) = (scope, i) \<longrightarrow> \<not> new"
proof -
  have "seen_wf s'" "map_of (sn_seen s') (scope, i) = Some t" "sn_ttl s' = sn_ttl s"
    using check_and_record_wf [OF assms(1), of t scope i] assms(3)
    by (auto simp: check_and_record_seen_eq update_conv')
  with steady_repeats_refused [of s' "(scope, i)" t evs] assms(4,5) show ?thesis by fastforce
qed

theorem repeats_renew_forever_witness:
  "\<forall>(now, sc, j, new) \<in> set (seen_run (snd (check_and_record_seen 0 ''k'' ''x'' (seen_new 5 8)))
      [(4, ''k'', ''x''), (8, ''k'', ''x''), (12, ''k'', ''x'')]). (sc, j) = (''k'', ''x'') \<longrightarrow> \<not> new"
proof -
  have c: "check_and_record_seen t ''k'' ''x'' (\<lparr>sn_seen = es, sn_ttl = 5, sn_max_entries = 8\<rparr>) =
      (es = [], \<lparr>sn_seen = [((''k'', ''x''), t)], sn_ttl = 5, sn_max_entries = 8\<rparr>)"
    if "es = [] \<or> (\<exists>u. es = [((''k'', ''x''), u)] \<and> t - u < 5)" for t es
    using that by (auto simp: check_and_record_seen_def Let_def)
  have c0: "check_and_record_seen 0 ''k'' ''x'' (seen_new 5 8) =
      (True, \<lparr>sn_seen = [((''k'', ''x''), 0)], sn_ttl = 5, sn_max_entries = 8\<rparr>)"
    using c [of "[]" 0] by (simp add: seen_new_def)
  let ?evs = "[(4, ''k'', ''x''), (8, ''k'', ''x''), (12, ''k'', ''x'')]"
  have "roomy (snd (check_and_record_seen 0 ''k'' ''x'' (seen_new 5 8))) ?evs" unfolding c0 using c by simp
  moreover have "steady (sn_ttl (seen_new 5 8)) (''k'', ''x'') 0 ?evs" "length (sn_seen (seen_new 5 8)) < sn_max_entries (seen_new 5 8)"
    by (simp_all add: seen_new_def)
  ultimately show ?thesis
    by - (rule repeats_renew_forever [OF seen_new_wf [of 8 5]], simp_all add: c0 del: roomy.simps steady.simps)
qed

end
