(* ===== verification/Yara_Store.thy ===== *)
theory Yara_Store
  imports Crypto Seen "HOL-Library.List_Lexorder" "HOL-Library.Char_ord"
    "HOL-Library.Multiset" "HOL-Library.Countable"
begin

text \<open>
  The rules operators distribute, \<open>crates/bowery-agent/src/yara_store.rs\<close>: one file per rule named by
  the digest of its bytes, and an index that is rewritten whenever a rule is added and read on open.
\<close>

section \<open>State\<close>

datatype yara_error =
    YaraIo
  | YaraMalformed
  | YaraUnsupportedVersion u32
  | YaraTooLarge string nat nat
  | YaraRuleIdMismatch string string
  | YaraAtCapacity nat

record stored_rule =
  sr_rule_id :: string
  sr_bytes_len :: nat
  sr_received_unix :: u64
  sr_source_operator_fp :: string
  sr_request_id :: string

record index_file =
  if_version :: u32
  if_rules :: "stored_rule list"

text \<open>The map of rules is an association list with distinct keys.\<close>

record yara_store =
  ys_dir :: path
  ys_max_rules :: nat
  ys_max_rule_bytes :: nat
  ys_rules :: "(string \<times> stored_rule) list"

text \<open>The JSON package.\<close>

record index_codec =
  index_print :: "index_file \<Rightarrow> string option"
  index_parse :: "string \<Rightarrow> index_file option"

definition yara_FILE_MODE :: nat where "yara_FILE_MODE = 384"
definition INDEX_NAME :: string where "INDEX_NAME = ''index.json''"
definition INDEX_VERSION :: u32 where "INDEX_VERSION = 1"

section \<open>Files\<close>

definition bytes_str :: "bytes \<Rightarrow> string" where
  "bytes_str bs = map (\<lambda>b. char_of (unat b)) bs"

text \<open>\<open>Path::with_extension\<close>: what follows the last dot of the name is replaced; a leading dot is no extension.\<close>

definition file_stem :: "string \<Rightarrow> string" where
  "file_stem n = (let r = dropWhile (\<lambda>c. c \<noteq> CHR ''.'') (rev n) in if length r \<le> 1 then n else rev (tl r))"

definition with_extension_tmp :: "path \<Rightarrow> path" where
  "with_extension_tmp p = (if p = [] then p else butlast p @ [file_stem (last p) @ ''.tmp''])"

definition write_atomic :: "fault \<Rightarrow> string \<Rightarrow> fs \<Rightarrow> path \<Rightarrow> string \<Rightarrow> (yara_error + unit) \<times> fs" where
  "write_atomic fault partial fs p contents =
     (let tmp = with_extension_tmp p;
          fs1 = (if fault = FailRemove then fs else fs(tmp := None)) in
      case write_with_mode YaraIo fault partial fs1 tmp contents yara_FILE_MODE of
        (Inl e, fs2) \<Rightarrow> (Inl e, fs2)
      | (Inr _, fs2) \<Rightarrow> rename YaraIo fault fs2 tmp p)"

section \<open>Operations\<close>

definition yara_open ::
    "index_codec \<Rightarrow> fault \<Rightarrow> fs \<Rightarrow> path \<Rightarrow> nat \<Rightarrow> nat \<Rightarrow> yara_error + yara_store" where
  "yara_open k fault fs dir max_rules max_rule_bytes =
     (let store = (\<lambda>rs. \<lparr>ys_dir = dir, ys_max_rules = max_rules, ys_max_rule_bytes = max_rule_bytes, ys_rules = rs\<rparr>) in
      case fs (dir @ [INDEX_NAME]) of
        None \<Rightarrow> Inr (store [])
      | Some f \<Rightarrow>
          if fault = FailRead then Inl YaraIo
          else and_then (ok_or YaraMalformed (index_parse k (body f))) (\<lambda>file.
            and_then (guard (YaraUnsupportedVersion (if_version file)) (if_version file = INDEX_VERSION)) (\<lambda>_.
            Inr (store (foldl (\<lambda>m r. AList.update (sr_rule_id r) r m) [] (if_rules file))))))"

definition rule_id_for :: "crypto \<Rightarrow> bytes \<Rightarrow> string" where
  "rule_id_for c bs = hex_lower (sha256 c bs)"

definition yara_contains :: "yara_store \<Rightarrow> string \<Rightarrow> bool" where
  "yara_contains st i \<longleftrightarrow> map_of (ys_rules st) i \<noteq> None"

definition yara_list :: "yara_store \<Rightarrow> stored_rule list" where
  "yara_list st = sort_key sr_rule_id (map snd (ys_rules st))"

definition rule_path :: "yara_store \<Rightarrow> string \<Rightarrow> path" where
  "rule_path st i = ys_dir st @ [i @ ''.yar'']"

definition yara_load_bytes :: "fault \<Rightarrow> fs \<Rightarrow> yara_store \<Rightarrow> string \<Rightarrow> yara_error + bytes" where
  "yara_load_bytes fault fs st i =
     (case fs (rule_path st i) of
        None \<Rightarrow> Inl YaraIo
      | Some f \<Rightarrow> if fault = FailRead then Inl YaraIo else Inr (str_bytes (body f)))"

definition save_index :: "index_codec \<Rightarrow> fault \<Rightarrow> string \<Rightarrow> fs \<Rightarrow> yara_store \<Rightarrow> (yara_error + unit) \<times> fs" where
  "save_index k fault partial fs st =
     (case index_print k \<lparr>if_version = INDEX_VERSION, if_rules = yara_list st\<rparr> of
        None \<Rightarrow> (Inl YaraMalformed, fs)
      | Some contents \<Rightarrow> write_atomic fault partial fs (ys_dir st @ [INDEX_NAME]) contents)"

text \<open>The faults and the partial contents of the two writes are separate.\<close>

definition yara_put ::
    "crypto \<Rightarrow> index_codec \<Rightarrow> fault \<Rightarrow> fault \<Rightarrow> string \<Rightarrow> fs \<Rightarrow> yara_store \<Rightarrow> string \<Rightarrow> bytes \<Rightarrow> string \<Rightarrow> string
     \<Rightarrow> u64 \<Rightarrow> (yara_error + bool) \<times> fs \<times> yara_store" where
  "yara_put c k f1 f2 partial fs st i bs op request_id received =
     (if ys_max_rule_bytes st < length bs then (Inl (YaraTooLarge i (length bs) (ys_max_rule_bytes st)), fs, st)
      else if rule_id_for c bs \<noteq> i then (Inl (YaraRuleIdMismatch i (rule_id_for c bs)), fs, st)
      else if yara_contains st i then (Inr False, fs, st)
      else if ys_max_rules st \<le> length (ys_rules st) then (Inl (YaraAtCapacity (ys_max_rules st)), fs, st)
      else if f1 = FailMkdir then (Inl YaraIo, fs, st)
      else case write_atomic f1 partial fs (rule_path st i) (bytes_str bs) of
        (Inl e, fs1) \<Rightarrow> (Inl e, fs1, st)
      | (Inr _, fs1) \<Rightarrow>
          let st' = st\<lparr>ys_rules := AList.update i \<lparr>sr_rule_id = i, sr_bytes_len = length bs,
                sr_received_unix = received, sr_source_operator_fp = op, sr_request_id = request_id\<rparr> (ys_rules st)\<rparr> in
          (case save_index k f2 partial fs1 st' of
             (Inl e, fs2) \<Rightarrow> (Inl e, fs2, st')
           | (Inr _, fs2) \<Rightarrow> (Inr True, fs2, st')))"

section \<open>Facts\<close>

lemma str_bytes_bytes_str [simp]: "str_bytes (bytes_str bs) = bs"
proof -
  have "of_char (char_of (unat b)) = b" for b :: u8
  proof -
    have "unat b < 256" using unsigned_less [of b, where 'a = nat] by simp
    then have "of_char (char_of (unat b)) = (of_nat (unat b) :: u8)"
      by (metis mod_less of_char_of of_nat_of_char)
    then show ?thesis by simp
  qed
  then show ?thesis by (simp add: str_bytes_def bytes_str_def comp_def)
qed

lemma file_stem_yar [simp]: "file_stem (i @ ''.yar'') = (if i = [] then ''.yar'' else i)"
  by (simp add: file_stem_def Let_def)

lemma with_extension_tmp_rule [simp]:
  "i \<noteq> [] \<Longrightarrow> with_extension_tmp (rule_path st i) = ys_dir st @ [i @ ''.tmp'']"
  by (simp add: with_extension_tmp_def rule_path_def)

lemma with_extension_tmp_index [simp]: "with_extension_tmp (d @ [INDEX_NAME]) = d @ [''index.tmp'']"
  by (simp add: with_extension_tmp_def INDEX_NAME_def file_stem_def)

lemma write_atomic_result:
  assumes "write_atomic fault partial fs p contents = (r, fs')" "with_extension_tmp p \<noteq> p"
  shows "q \<noteq> p \<Longrightarrow> q \<noteq> with_extension_tmp p \<Longrightarrow> fs' q = fs q"
    and "r = Inr () \<Longrightarrow> fs' p = Some \<lparr>mode = yara_FILE_MODE, body = contents\<rparr>"
    and "r = Inl e \<Longrightarrow> fs' p = fs p"
  using assms by (auto simp: write_atomic_def write_with_mode_def rename_def Let_def split: if_splits prod.splits sum.splits)

text \<open>An id that is a digest names a file that is neither the index nor its temporary.\<close>

lemma rule_path_neq:
  assumes "crypto_ok c"
  shows "rule_id_for c bs \<noteq> []" "rule_path st (rule_id_for c bs) \<noteq> ys_dir st @ [INDEX_NAME]"
    "rule_path st (rule_id_for c bs) \<noteq> ys_dir st @ [''index.tmp'']"
    "ys_dir st @ [rule_id_for c bs @ ''.tmp''] \<noteq> ys_dir st @ [INDEX_NAME]"
proof -
  have len: "length (hex_lower ys) = 2 * length ys" for ys by (induction ys) (simp_all add: hex_lower_Cons)
  then have l: "length (rule_id_for c bs) = 64" using crypto_okD(1) [OF assms] by (simp add: rule_id_for_def)
  then show "rule_id_for c bs \<noteq> []" by auto
  have "length x \<noteq> length y \<Longrightarrow> ys_dir st @ [x] \<noteq> ys_dir st @ [y]" for x y by auto
  then show "rule_path st (rule_id_for c bs) \<noteq> ys_dir st @ [INDEX_NAME]"
    "rule_path st (rule_id_for c bs) \<noteq> ys_dir st @ [''index.tmp'']"
    "ys_dir st @ [rule_id_for c bs @ ''.tmp''] \<noteq> ys_dir st @ [INDEX_NAME]"
    using l by (auto simp: rule_path_def INDEX_NAME_def)
qed

text \<open>Every rule of the store has its file, and the file's digest is the rule's id.\<close>

definition yara_inv :: "crypto \<Rightarrow> fs \<Rightarrow> yara_store \<Rightarrow> bool" where
  "yara_inv c fs st \<longleftrightarrow> distinct (map fst (ys_rules st)) \<and> length (ys_rules st) \<le> ys_max_rules st \<and>
     (\<forall>(i, r) \<in> set (ys_rules st). sr_rule_id r = i \<and>
        (\<exists>bs. i = rule_id_for c bs \<and> fs (rule_path st i) = Some \<lparr>mode = yara_FILE_MODE, body = bytes_str bs\<rparr>))"

lemma yara_invD:
  assumes "yara_inv c fs st" "(i, r) \<in> set (ys_rules st)"
  shows "sr_rule_id r = i" "\<exists>bs. i = rule_id_for c bs \<and> fs (rule_path st i) = Some \<lparr>mode = yara_FILE_MODE, body = bytes_str bs\<rparr>"
  using assms by (auto simp: yara_inv_def)

lemma update_new: "k \<notin> fst ` set xs \<Longrightarrow> AList.update k v xs = xs @ [(k, v)]"
  by (induction xs) auto

definition index_path :: "yara_store \<Rightarrow> path" where
  "index_path st = ys_dir st @ [INDEX_NAME]"

lemma save_index_frame:
  assumes "crypto_ok c" "save_index k f partial fs st = (r, fs')"
  shows "fs' (rule_path st (rule_id_for c bs)) = fs (rule_path st (rule_id_for c bs))"
proof (cases "index_print k \<lparr>if_version = INDEX_VERSION, if_rules = yara_list st\<rparr>")
  case (Some contents)
  with assms(2) have w: "write_atomic f partial fs (ys_dir st @ [INDEX_NAME]) contents = (r, fs')"
    by (simp add: save_index_def)
  have "with_extension_tmp (ys_dir st @ [INDEX_NAME]) \<noteq> ys_dir st @ [INDEX_NAME]"
    unfolding with_extension_tmp_index by (simp add: INDEX_NAME_def)
  from write_atomic_result(1) [OF w this] rule_path_neq [OF assms(1)] show ?thesis by simp
qed (use assms(2) in \<open>simp add: save_index_def\<close>)

lemma yara_put_cases:
  assumes c: "crypto_ok c" and put: "yara_put c k f1 f2 partial fs st i bs op rid t = (res, fs', st')"
  obtains (refused) "st' = st" "fs' = fs" "res \<noteq> Inr True"
  | (failed) "st' = st" "res = Inl YaraIo" "i = rule_id_for c bs" "\<not> yara_contains st i"
      "\<And>p. p \<noteq> ys_dir st @ [i @ ''.tmp''] \<Longrightarrow> fs' p = fs p"
  | (stored) fs1 r where "i = rule_id_for c bs" "\<not> yara_contains st i" "length (ys_rules st) < ys_max_rules st"
      "sr_rule_id r = i" "st' = st\<lparr>ys_rules := ys_rules st @ [(i, r)]\<rparr>"
      "fs1 (rule_path st i) = Some \<lparr>mode = yara_FILE_MODE, body = bytes_str bs\<rparr>"
      "\<And>p. p \<noteq> rule_path st i \<Longrightarrow> p \<noteq> ys_dir st @ [i @ ''.tmp''] \<Longrightarrow> fs1 p = fs p"
      "save_index k f2 partial fs1 st' = (map_sum id (\<lambda>_. ()) res, fs')" "res = Inr True \<or> (\<exists>e. res = Inl e)"
proof (cases "ys_max_rule_bytes st < length bs \<or> rule_id_for c bs \<noteq> i \<or> yara_contains st i \<or>
    ys_max_rules st \<le> length (ys_rules st) \<or> f1 = FailMkdir")
  case True
  then show ?thesis using put refused by (auto simp: yara_put_def split: if_splits)
next
  case False
  then have i: "i = rule_id_for c bs" and new: "\<not> yara_contains st i" and room: "length (ys_rules st) < ys_max_rules st" by auto
  obtain w fs1 where wr: "write_atomic f1 partial fs (rule_path st i) (bytes_str bs) = (w, fs1)" by fastforce
  have ne: "i \<noteq> []" using rule_path_neq(1) [OF c] i by simp
  then have tmp: "with_extension_tmp (rule_path st i) = ys_dir st @ [i @ ''.tmp'']" by simp
  have neq: "with_extension_tmp (rule_path st i) \<noteq> rule_path st i" unfolding tmp by (simp add: rule_path_def)
  note wres = write_atomic_result [OF wr neq, unfolded tmp]
  show ?thesis
  proof (cases w)
    case (Inl e)
    have "e = YaraIo" using wr Inl by (auto simp: write_atomic_def write_with_mode_def rename_def Let_def split: if_splits prod.splits sum.splits)
    moreover have "fs1 p = fs p" if "p \<noteq> ys_dir st @ [i @ ''.tmp'']" for p
      using wres(1) [of p] wres(3) [OF Inl] that by (cases "p = rule_path st i") auto
    ultimately show ?thesis using failed put False wr Inl i new by (simp add: yara_put_def)
  next
    case (Inr u)
    let ?r = "\<lparr>sr_rule_id = i, sr_bytes_len = length bs, sr_received_unix = t, sr_source_operator_fp = op, sr_request_id = rid\<rparr>"
    let ?st = "st\<lparr>ys_rules := ys_rules st @ [(i, ?r)]\<rparr>"
    have up: "AList.update i ?r (ys_rules st) = ys_rules st @ [(i, ?r)]"
      using new by (intro update_new) (auto simp: yara_contains_def map_of_eq_None_iff)
    obtain v fs2 where sv: "save_index k f2 partial fs1 ?st = (v, fs2)" by fastforce
    have "st' = ?st \<and> fs' = fs2 \<and> res = (case v of Inl e \<Rightarrow> Inl e | Inr _ \<Rightarrow> Inr True)"
      using put False wr Inr sv up by (auto simp: yara_put_def Let_def split: sum.splits)
    with sv show ?thesis
      using stored [of ?r fs1] i new room wres(1,2) Inr by (cases v) auto
  qed
qed

lemma yara_put_inv:
  assumes c: "crypto_ok c" and inv: "yara_inv c fs st" and put: "yara_put c k f1 f2 partial fs st i bs op rid t = (res, fs', st')"
  shows "yara_inv c fs' st'"
proof -
  have keep: "fs' (rule_path st j) = fs (rule_path st j)"
    if "\<And>p. p \<noteq> ys_dir st @ [i @ ''.tmp''] \<Longrightarrow> fs' p = fs p" for j
    by (rule that) (auto simp: rule_path_def)
  from c put show ?thesis
  proof (cases rule: yara_put_cases)
    case refused
    with inv show ?thesis by simp
  next
    case failed
    with inv keep show ?thesis by (simp add: yara_inv_def)
  next
    case (stored fs1 r)
    have path: "rule_path st' j = rule_path st j" for j using stored(5) by (simp add: rule_path_def)
    have fr: "fs' (rule_path st j) = fs1 (rule_path st j)" if "j = rule_id_for c b" for j b
      using save_index_frame [OF c stored(8), of b] that unfolding path by simp
    have "sr_rule_id q = j \<and> (\<exists>b. j = rule_id_for c b \<and> fs' (rule_path st' j) = Some \<lparr>mode = yara_FILE_MODE, body = bytes_str b\<rparr>)"
      if "(j, q) \<in> set (ys_rules st')" for j q
    proof (cases "(j, q) \<in> set (ys_rules st)")
      case True
      from yara_invD [OF inv True] obtain b where b: "sr_rule_id q = j" "j = rule_id_for c b"
        "fs (rule_path st j) = Some \<lparr>mode = yara_FILE_MODE, body = bytes_str b\<rparr>" by blast
      have "j \<noteq> i" using True stored(2) by (force simp: yara_contains_def map_of_eq_None_iff)
      then have "fs1 (rule_path st j) = fs (rule_path st j)" by (intro stored(7)) (auto simp: rule_path_def)
      with b fr [OF b(2)] show ?thesis by (auto simp: path)
    next
      case False
      then have "j = i" "q = r" using that stored(5) by auto
      then show ?thesis using stored(1,4,6) fr [OF stored(1)] by (auto simp: path)
    qed
    moreover have "distinct (map fst (ys_rules st'))" "length (ys_rules st') \<le> ys_max_rules st'"
      using inv stored(2,3,5) by (auto simp: yara_inv_def yara_contains_def map_of_eq_None_iff)
    ultimately show ?thesis by (auto simp: yara_inv_def)
  qed
qed

section \<open>Reopening\<close>

text \<open>What the code relies on of the JSON package: an index prints, and parses back.\<close>

definition index_codec_ok :: "index_codec \<Rightarrow> bool" where
  "index_codec_ok k \<longleftrightarrow> (\<forall>f. \<exists>s. index_print k f = Some s \<and> index_parse k s = Some f)"

definition index_ok :: "index_codec \<Rightarrow> fs \<Rightarrow> yara_store \<Rightarrow> bool" where
  "index_ok k fs st \<longleftrightarrow> (case fs (index_path st) of
     None \<Rightarrow> ys_rules st = []
   | Some f \<Rightarrow> index_parse k (body f) = Some \<lparr>if_version = INDEX_VERSION, if_rules = yara_list st\<rparr>)"

lemma save_index_ok:
  assumes "index_codec_ok k" "save_index k NoFault partial fs st = (r, fs')"
  shows "r = Inr () \<and> index_ok k fs' st"
proof -
  obtain s where s: "index_print k \<lparr>if_version = INDEX_VERSION, if_rules = yara_list st\<rparr> = Some s"
    "index_parse k s = Some \<lparr>if_version = INDEX_VERSION, if_rules = yara_list st\<rparr>"
    using assms(1) by (auto simp: index_codec_ok_def)
  have ne: "ys_dir st @ [''index.tmp''] \<noteq> ys_dir st @ [INDEX_NAME]" by (simp add: INDEX_NAME_def)
  show ?thesis
    using assms(2) s ne
    by (auto simp: save_index_def write_atomic_def write_with_mode_def rename_def index_ok_def index_path_def Let_def)
qed

lemma yara_put_index_ok:
  assumes c: "crypto_ok c" and k: "index_codec_ok k" and ok: "index_ok k fs st"
    and put: "yara_put c k f1 NoFault partial fs st i bs op rid t = (res, fs', st')"
  shows "index_ok k fs' st'"
  using c put
proof (cases rule: yara_put_cases)
  case failed
  have "fs' (index_path st) = fs (index_path st)"
    by (rule failed(5)) (use rule_path_neq(4) [OF c, of st bs] failed(3) in \<open>simp add: index_path_def eq_commute\<close>)
  with ok failed(1) show ?thesis by (simp add: index_ok_def)
next
  case (stored fs1 r)
  from save_index_ok [OF k stored(8)] show ?thesis by simp
qed (use ok in simp)

lemma foldl_update_rules:
  "distinct (map sr_rule_id rs) \<Longrightarrow> fst ` set m \<inter> sr_rule_id ` set rs = {} \<Longrightarrow>
   foldl (\<lambda>m r. AList.update (sr_rule_id r) r m) m rs = m @ map (\<lambda>r. (sr_rule_id r, r)) rs"
proof (induction rs arbitrary: m)
  case (Cons r rs)
  have "AList.update (sr_rule_id r) r m = m @ [(sr_rule_id r, r)]" using Cons.prems(2) by (intro update_new) auto
  moreover have "fst ` set (m @ [(sr_rule_id r, r)]) \<inter> sr_rule_id ` set rs = {}" using Cons.prems by auto
  ultimately show ?case using Cons.IH [of "m @ [(sr_rule_id r, r)]"] Cons.prems(1) by simp
qed simp

lemma yara_open_ok:
  assumes inv: "yara_inv c fs st" and ok: "index_ok k fs st"
  shows "\<exists>st2. yara_open k NoFault fs (ys_dir st) mr mb = Inr st2 \<and> ys_dir st2 = ys_dir st \<and>
    map_of (ys_rules st2) = map_of (ys_rules st)"
proof (cases "fs (index_path st)")
  case None
  with ok show ?thesis by (simp add: yara_open_def index_ok_def index_path_def)
next
  case (Some f)
  let ?l = "yara_list st"
  have ids: "sr_rule_id r = i" if "(i, r) \<in> set (ys_rules st)" for i r using yara_invD(1) [OF inv that] .
  have set_l: "set ?l = snd ` set (ys_rules st)" by (simp add: yara_list_def)
  have m: "map sr_rule_id (map snd (ys_rules st)) = map fst (ys_rules st)" using ids by (auto simp: comp_def)
  have "mset (map sr_rule_id ?l) = mset (map fst (ys_rules st))" unfolding yara_list_def m [symmetric]
    by (simp add: multiset.map_comp)
  then have d: "distinct (map sr_rule_id ?l)" using inv by (metis mset_eq_imp_distinct_iff yara_inv_def)
  have rules: "foldl (\<lambda>m r. AList.update (sr_rule_id r) r m) [] ?l = map (\<lambda>r. (sr_rule_id r, r)) ?l"
    using foldl_update_rules [OF d, of "[]"] by simp
  have "set (map (\<lambda>r. (sr_rule_id r, r)) ?l) = set (ys_rules st)"
    using ids by (force simp: set_l image_iff)
  then have "map_of (map (\<lambda>r. (sr_rule_id r, r)) ?l) = map_of (ys_rules st)"
    using d inv by (intro map_of_inject_set [THEN iffD2]) (auto simp: comp_def yara_inv_def)
  then show ?thesis using ok Some by (simp add: yara_open_def index_ok_def index_path_def rules)
qed

text \<open>Pushes of rules to a store in an empty directory; the write of a rule's file may fail.\<close>

type_synonym yara_push_event = "fault \<times> string \<times> bytes \<times> string \<times> string \<times> u64"

definition yara_step :: "crypto \<Rightarrow> index_codec \<Rightarrow> fs \<times> yara_store \<Rightarrow> yara_push_event \<Rightarrow> fs \<times> yara_store" where
  "yara_step c k s ev = (case ev of (f1, i, bs, op, rid, t) \<Rightarrow>
     snd (yara_put c k f1 NoFault [] (fst s) (snd s) i bs op rid t))"

lemma yara_put_config:
  assumes "crypto_ok c" "yara_put c k f1 f2 partial fs st i bs op rid t = (res, fs', st')"
  shows "ys_dir st' = ys_dir st" "ys_max_rules st' = ys_max_rules st"
  using assms by (cases rule: yara_put_cases; simp)+

lemma yara_run_good:
  assumes c: "crypto_ok c" and k: "index_codec_ok k" and inv: "yara_inv c fs st" "index_ok k fs st"
    and run: "foldl (yara_step c k) (fs, st) evs = (fs', st')"
  shows "yara_inv c fs' st' \<and> index_ok k fs' st' \<and> ys_dir st' = ys_dir st \<and> ys_max_rules st' = ys_max_rules st"
  using inv run
proof (induction evs arbitrary: fs st)
  case (Cons ev evs)
  obtain f1 i bs op rid t where ev: "ev = (f1, i, bs, op, rid, t)" by (cases ev)
  obtain res fs1 st1 where put: "yara_put c k f1 NoFault [] fs st i bs op rid t = (res, fs1, st1)"
    by (cases "yara_put c k f1 NoFault [] fs st i bs op rid t")
  have "yara_step c k (fs, st) ev = (fs1, st1)" by (simp add: yara_step_def ev put)
  with Cons.IH [of fs1 st1] yara_put_inv [OF c Cons.prems(1) put] yara_put_index_ok [OF c k Cons.prems(2) put]
    yara_put_config [OF c put] Cons.prems(3) show ?case by simp
qed simp

text \<open>
  Distributed rules survive a restart, unaltered. Start with an empty directory and let rules be
  pushed in any order, under right and wrong ids, some writes of a rule's file failing. Opening the
  directory again gives exactly the rules the store had, at most as many as it may hold, and every one
  of them loads to bytes whose digest is its id.
\<close>

theorem yara_rules_survive_restart:
  assumes "crypto_ok c" "index_codec_ok k" "fs (dir @ [INDEX_NAME]) = None"
    and "foldl (yara_step c k) (fs, \<lparr>ys_dir = dir, ys_max_rules = mr, ys_max_rule_bytes = mb, ys_rules = []\<rparr>) evs = (fs', st')"
  shows "\<exists>st2. yara_open k NoFault fs' dir mr mb = Inr st2 \<and> map_of (ys_rules st2) = map_of (ys_rules st') \<and>
    length (ys_rules st') \<le> mr \<and>
    (\<forall>i. yara_contains st2 i \<longrightarrow> (\<exists>bs. yara_load_bytes NoFault fs' st2 i = Inr bs \<and> rule_id_for c bs = i))"
proof -
  let ?st = "\<lparr>ys_dir = dir, ys_max_rules = mr, ys_max_rule_bytes = mb, ys_rules = []\<rparr>"
  have "yara_inv c fs ?st" "index_ok k fs ?st" using assms(3) by (simp_all add: yara_inv_def index_ok_def index_path_def)
  from yara_run_good [OF assms(1,2) this assms(4)]
  have g: "yara_inv c fs' st'" "index_ok k fs' st'" "ys_dir st' = dir" "ys_max_rules st' = mr" by simp_all
  from yara_open_ok [OF g(1,2), of mr mb] obtain st2 where st2: "yara_open k NoFault fs' dir mr mb = Inr st2"
    "ys_dir st2 = dir" "map_of (ys_rules st2) = map_of (ys_rules st')" using g(3) by auto
  have "\<exists>bs. yara_load_bytes NoFault fs' st2 i = Inr bs \<and> rule_id_for c bs = i" if "yara_contains st2 i" for i
  proof -
    from that st2(3) obtain r where "(i, r) \<in> set (ys_rules st')" by (auto simp: yara_contains_def dest: map_of_SomeD)
    from yara_invD(2) [OF g(1) this] show ?thesis
      using st2(2) g(3) by (auto simp: yara_load_bytes_def rule_path_def)
  qed
  with st2 g show ?thesis by (auto simp: yara_inv_def)
qed

text \<open>A package that meets \<open>index_codec_ok\<close>: an index is its number, written in unary.\<close>

type_synonym index_tuple = "u32 \<times> (string \<times> nat \<times> u64 \<times> string \<times> string) list"

definition index_tuple :: "index_file \<Rightarrow> index_tuple" where
  "index_tuple f = (if_version f, map (\<lambda>r. (sr_rule_id r, sr_bytes_len r, sr_received_unix r,
     sr_source_operator_fp r, sr_request_id r)) (if_rules f))"

definition tuple_index :: "index_tuple \<Rightarrow> index_file" where
  "tuple_index t = \<lparr>if_version = fst t, if_rules = map (\<lambda>(i, n, u, op, rid). \<lparr>sr_rule_id = i, sr_bytes_len = n,
     sr_received_unix = u, sr_source_operator_fp = op, sr_request_id = rid\<rparr>) (snd t)\<rparr>"

definition demo_index_codec :: index_codec where
  "demo_index_codec = \<lparr>index_print = (\<lambda>f. Some (replicate (to_nat (index_tuple f)) (CHR ''x''))),
     index_parse = (\<lambda>s. Some (tuple_index (from_nat (length s))))\<rparr>"

lemma demo_index_codec_ok: "index_codec_ok demo_index_codec"
proof -
  have "tuple_index (index_tuple f) = f" for f
    by (cases f) (auto simp: tuple_index_def index_tuple_def comp_def intro: map_idI)
  then show ?thesis by (simp add: index_codec_ok_def demo_index_codec_def)
qed

theorem yara_rules_survive_restart_witness:
  "\<exists>fs' st' st2. foldl (yara_step demo_crypto demo_index_codec)
      (\<lambda>_. None, \<lparr>ys_dir = [''y''], ys_max_rules = 4, ys_max_rule_bytes = 10, ys_rules = []\<rparr>)
      [(NoFault, rule_id_for demo_crypto [1], [1], ''op'', ''r1'', 5), (NoFault, ''wrong'', [2], ''op'', ''r2'', 6)] = (fs', st') \<and>
    yara_open demo_index_codec NoFault fs' [''y''] 4 10 = Inr st2 \<and> map_of (ys_rules st2) = map_of (ys_rules st')"
proof -
  let ?s = "(\<lambda>_. None, \<lparr>ys_dir = [''y''], ys_max_rules = 4, ys_max_rule_bytes = 10, ys_rules = []\<rparr>)"
  let ?evs = "[(NoFault, rule_id_for demo_crypto [1], [1], ''op'', ''r1'', 5), (NoFault, ''wrong'', [2], ''op'', ''r2'', 6)]"
  obtain fs' st' where run: "foldl (yara_step demo_crypto demo_index_codec) ?s ?evs = (fs', st')"
    by (cases "foldl (yara_step demo_crypto demo_index_codec) ?s ?evs")
  from yara_rules_survive_restart [OF demo_crypto_ok demo_index_codec_ok _ run] run show ?thesis by auto
qed

end
