(* ===== verification/Operator.thy ===== *)
theory Operator
  imports Inbox Yara_Store
begin

text \<open>
  What an agent does for an operator: the commands and results of the wire protocol
  (\<open>bowery-proto/src/lib.rs\<close>), the operator's authorisation that a relay carries along
  (\<open>bowery-whisper/src/forwarding.rs\<close>), and the handlers of \<open>bowery-agent/src/operator.rs\<close>: who is
  the operator behind a command, SQL with fan-out, distribution of YARA rules, and the spreading of
  revocations and silences.
\<close>

section \<open>Commands and results\<close>

record sql_query =
  sq_sql :: string
  sq_fanout :: bool
  sq_peers :: "bytes list"

record yara_push =
  yp_rule_id :: string
  yp_rules :: bytes
  yp_targets :: "string list"
  yp_fanout :: bool
  yp_ttl :: u32

record revoke_push =
  rp_revocation :: bytes
  rp_fanout :: bool
  rp_ttl :: u32

record silence_push =
  sp_silence :: bytes
  sp_ttl :: u32
  sp_fanout :: bool

datatype command_body =
    CSql sql_query
  | CYara yara_push
  | CRevoke revoke_push
  | CSilence silence_push

record operator_command =
  oc_request_id :: string
  oc_timeout_ms :: u32
  oc_forwarded_from_operator :: bytes
  oc_command :: "command_body option"

text \<open>A real number is its bit pattern: no code here computes with it.\<close>

datatype sql_value = VNull | VInteger int | VReal u64 | VText string | VBlob bytes

record sql_chunk =
  sc_columns :: "string list"
  sc_rows :: "sql_value list list"
  sc_end :: bool
  sc_agent_fp :: bytes

record yara_match =
  ym_rule_name :: string
  ym_path :: string
  ym_tags :: "string list"

record yara_report =
  yr_agent_fp :: bytes
  yr_rule_id :: string
  yr_matches :: "yara_match list"
  yr_scanned :: u32
  yr_errors :: "string list"
  yr_end :: bool

text \<open>Why a push was not applied; the wire carries the message.\<close>

datatype push_error = Undecodable | Unverifiable grant_error | Persisting kn_error | Rejected silence_rejected

record revoke_report =
  rr_agent_fp :: bytes
  rr_accepted :: bool
  rr_already_known :: bool
  rr_evicted :: bool
  rr_error :: "push_error option"
  rr_end :: bool

record silence_report =
  sl_agent_fp :: bytes
  sl_accepted :: bool
  sl_already_known :: bool
  sl_error :: "push_error option"
  sl_end :: bool

datatype op_result =
    ResError string
  | ResSql sql_chunk
  | ResYara yara_report
  | ResRevoke revoke_report
  | ResSilence silence_report

section \<open>Authorisations\<close>

text \<open>The codecs of the protobuf package.\<close>

record op_codec =
  cmd_encode :: "operator_command \<Rightarrow> bytes"
  auth_encode :: "operator_authorization \<Rightarrow> bytes"
  auth_decode :: "bytes \<Rightarrow> operator_authorization option"
  oc_rev :: rev_codec
  oc_sil :: sil_codec
  oc_kn :: kn_codec
  oc_index :: index_codec

text \<open>What a relay changes on the way is left out of what is signed.\<close>

fun normalise_body :: "command_body \<Rightarrow> command_body" where
  "normalise_body (CSql q) = CSql (q\<lparr>sq_fanout := False, sq_peers := []\<rparr>)"
| "normalise_body (CYara p) = CYara (p\<lparr>yp_fanout := False, yp_ttl := 0\<rparr>)"
| "normalise_body (CRevoke p) = CRevoke (p\<lparr>rp_fanout := False, rp_ttl := 0\<rparr>)"
| "normalise_body (CSilence p) = CSilence (p\<lparr>sp_fanout := False, sp_ttl := 0\<rparr>)"

definition command_body_digest :: "crypto \<Rightarrow> op_codec \<Rightarrow> command_body \<Rightarrow> bytes" where
  "command_body_digest c k b =
     sha256 c (cmd_encode k \<lparr>oc_request_id = [], oc_timeout_ms = 0, oc_forwarded_from_operator = [],
       oc_command = Some (normalise_body b)\<rparr>)"

definition forward_unix_ms :: "nat option \<Rightarrow> u64" where
  "forward_unix_ms t = (case t of None \<Rightarrow> 0 | Some ms \<Rightarrow> u64_or_max ms)"

definition sign_operator_authorization ::
    "crypto \<Rightarrow> op_codec \<Rightarrow> nat option \<Rightarrow> identity \<Rightarrow> string \<Rightarrow> command_body \<Rightarrow> operator_authorization" where
  "sign_operator_authorization c k now i request_id b =
     (let fp = fingerprint_of c i; ts = forward_unix_ms now; d = command_body_digest c k b in
      \<lparr>oa_operator_fp = fp, oa_ts_unix_ms = ts, oa_request_id = request_id, oa_command_digest = d,
       oa_signature = sign c i (oa_signing_input fp ts request_id d)\<rparr>)"

definition verify_operator_authorization :: "crypto \<Rightarrow> operator_authorization \<Rightarrow> verifying_key \<Rightarrow> string + fingerprint" where
  "verify_operator_authorization c a vk =
     and_then (guard ''bad operator_fp length'' (length (oa_operator_fp a) = 32)) (\<lambda>_.
     and_then (guard ''bad command_digest length'' (length (oa_command_digest a) = 32)) (\<lambda>_.
     and_then (guard ''bad signature length'' (length (oa_signature a) = 64)) (\<lambda>_.
     and_then (guard ''signature verification failed'' (verify_strict c vk
       (oa_signing_input (oa_operator_fp a) (oa_ts_unix_ms a) (oa_request_id a) (oa_command_digest a)) (oa_signature a))) (\<lambda>_.
     Inr (oa_operator_fp a)))))"

datatype auth_error =
    AuthDecode | AuthFpLength | AuthDigestLength | AuthSigLength | AuthRequestId | AuthUnknownOperator
  | AuthEmptyCommand | AuthDigest | AuthSkew | AuthSignature

definition resolve_effective_operator ::
    "crypto \<Rightarrow> op_codec \<Rightarrow> nat option \<Rightarrow> static_resolver \<Rightarrow> operator_command \<Rightarrow> fingerprint \<Rightarrow> auth_error + fingerprint" where
  "resolve_effective_operator c k now operators cmd sender =
     (if oc_forwarded_from_operator cmd = [] then Inr sender
      else
        and_then (ok_or AuthDecode (auth_decode k (oc_forwarded_from_operator cmd))) (\<lambda>auth.
        and_then (guard AuthFpLength (length (oa_operator_fp auth) = 32)) (\<lambda>_.
        and_then (guard AuthDigestLength (length (oa_command_digest auth) = 32)) (\<lambda>_.
        and_then (guard AuthSigLength (length (oa_signature auth) = 64)) (\<lambda>_.
        and_then (guard AuthRequestId (oa_request_id auth = oc_request_id cmd)) (\<lambda>_.
        and_then (ok_or AuthUnknownOperator (static_resolve operators (oa_operator_fp auth))) (\<lambda>vk.
        and_then (ok_or AuthEmptyCommand (oc_command cmd)) (\<lambda>body.
        and_then (guard AuthDigest (command_body_digest c k body = oa_command_digest auth)) (\<lambda>_.
        and_then (guard AuthSkew (abs_diff (forward_unix_ms now) (oa_ts_unix_ms auth) \<le> 5 * 60 * 1000)) (\<lambda>_.
        and_then (guard AuthSignature (verify_strict c vk
          (oa_signing_input (oa_operator_fp auth) (oa_ts_unix_ms auth) (oa_request_id auth) (oa_command_digest auth))
          (oa_signature auth))) (\<lambda>_.
        Inr (oa_operator_fp auth))))))))))))"

section \<open>The server\<close>

text \<open>
  The revocation store is the one the pin store consults, and the silence store the one the inbox
  consults; each is kept where it is consulted, and its absence stands for a disabled command.
\<close>

record yara_context =
  yc_store :: yara_store
  yc_seen :: recently_seen
  yc_max_rule_bytes :: nat
  yc_max_ttl :: u32
  yc_originator_fp :: fingerprint

record server =
  sv_self :: fingerprint
  sv_operators :: static_resolver
  sv_cluster_id :: string
  sv_kn :: known_neighbors
  sv_inbox :: inbox
  sv_yara :: "yara_context option"
  sv_relay :: "peer_info list option"
  sv_sql :: bool
  sv_max_timeout :: nat
  sv_fs :: fs

text \<open>
  What the world contributes to one request: the clocks, what the rate limiter answers, where the
  disk fails, what SQLite and the YARA engine return, and which replies reach the operator.
\<close>

datatype sql_error = SqlTimeout | SqlRowCap | SqlSqlite | SqlOther

record world =
  wd_now :: "nat option"
  wd_now_ms :: u64
  wd_instant :: nat
  wd_admitted :: bool
  wd_rev_fault :: fault
  wd_pin_fault :: fault
  wd_sil_fault :: fault
  wd_rule_fault :: fault
  wd_index_fault :: fault
  wd_partial :: string
  wd_sql :: "string \<Rightarrow> sql_error + (string \<times> sql_value) list list"
  wd_scan :: "bytes \<Rightarrow> string list \<Rightarrow> (string list \<times> u32 \<times> yara_match list)"
  wd_up :: "nat \<Rightarrow> bool"

text \<open>
  A handler changes the state and plans what to send, in order. The plan is carried out up to the
  first reply that fails; a forwarded command goes to a peer in a task of its own.
\<close>

datatype effect =
    Reply fingerprint string op_result
  | Forward fingerprint operator_command

fun perform :: "(nat \<Rightarrow> bool) \<Rightarrow> nat \<Rightarrow> effect list \<Rightarrow> effect list" where
  "perform up n [] = []"
| "perform up n (Reply fp i r # es) = (if up n then Reply fp i r # perform up (Suc n) es else [])"
| "perform up n (Forward fp cmd # es) = Forward fp cmd # perform up n es"

text \<open>The peers a relay may forward to: pinned, and not this agent.\<close>

definition relay_targets :: "server \<Rightarrow> peer_info list \<Rightarrow> peer_info list" where
  "relay_targets s ps =
     filter (\<lambda>p. pi_fingerprint p \<noteq> sv_self s) (filter (\<lambda>p. kn_resolve (sv_kn s) (pi_fingerprint p) \<noteq> None) ps)"

definition forward_command :: "string \<Rightarrow> nat \<Rightarrow> bytes \<Rightarrow> command_body \<Rightarrow> operator_command" where
  "forward_command request_id timeout auth b = \<lparr>oc_request_id = request_id, oc_timeout_ms = u32_or_max timeout,
     oc_forwarded_from_operator = auth, oc_command = Some b\<rparr>"

definition relay_push :: "server \<Rightarrow> string \<Rightarrow> nat \<Rightarrow> bytes \<Rightarrow> command_body \<Rightarrow> effect list" where
  "relay_push s request_id timeout auth onward =
     (case sv_relay s of
        None \<Rightarrow> []
      | Some ps \<Rightarrow> map (\<lambda>p. Forward (pi_fingerprint p) (forward_command request_id timeout auth onward)) (relay_targets s ps))"

section \<open>SQL\<close>

definition SQL_CHUNK_ROW_LIMIT :: nat where "SQL_CHUNK_ROW_LIMIT = 256"
definition MAX_CELL_BYTES :: nat where "MAX_CELL_BYTES = 16 * 1024"

fun encode_cell :: "sql_value \<Rightarrow> sql_value" where
  "encode_cell (VText s) = (if MAX_CELL_BYTES < length s
     then VText (''<truncated '' @ dec (length s) @ '' bytes>'') else VText s)"
| "encode_cell (VBlob b) = (if MAX_CELL_BYTES < length b
     then VText (''<truncated '' @ dec (length b) @ '' bytes>'') else VBlob b)"
| "encode_cell v = v"

definition encode_row :: "(string \<times> sql_value) list \<Rightarrow> sql_value list" where
  "encode_row row = map (\<lambda>(_, v). encode_cell v) row"

text \<open>The loop over the rows; the column names go with the first chunk.\<close>

fun sql_chunks :: "nat \<Rightarrow> string list \<Rightarrow> bytes \<Rightarrow> (string \<times> sql_value) list list \<Rightarrow> sql_chunk list" where
  "sql_chunks 0 columns fp rows = []"
| "sql_chunks (Suc n) columns fp rows =
     (if rows = [] then []
      else \<lparr>sc_columns = columns, sc_rows = map encode_row (take SQL_CHUNK_ROW_LIMIT rows),
             sc_end = (drop SQL_CHUNK_ROW_LIMIT rows = []), sc_agent_fp = fp\<rparr>
           # sql_chunks n [] fp (drop SQL_CHUNK_ROW_LIMIT rows))"

definition local_chunks :: "bytes \<Rightarrow> (string \<times> sql_value) list list \<Rightarrow> sql_chunk list" where
  "local_chunks fp rows =
     (let columns = (case rows of [] \<Rightarrow> [] | r # _ \<Rightarrow> map fst r) in
      if rows = [] then [\<lparr>sc_columns = columns, sc_rows = [], sc_end = True, sc_agent_fp = fp\<rparr>]
      else sql_chunks (length rows) columns fp rows)"

definition sql_terminator :: sql_chunk where
  "sql_terminator = \<lparr>sc_columns = [], sc_rows = [], sc_end = True, sc_agent_fp = []\<rparr>"

definition sql_relay_targets :: "server \<Rightarrow> bytes list \<Rightarrow> peer_info list \<Rightarrow> peer_info list" where
  "sql_relay_targets s peer_filter ps =
     relay_targets s (if peer_filter = [] then ps
       else filter (\<lambda>p. pi_fingerprint p \<in> set (filter (\<lambda>fp. length fp = 32) peer_filter)) ps)"

definition stream_sql_response ::
    "world \<Rightarrow> server \<Rightarrow> fingerprint \<Rightarrow> string \<Rightarrow> sql_query \<Rightarrow> bytes \<Rightarrow> nat \<Rightarrow> effect list" where
  "stream_sql_response w s operator request_id q auth timeout =
     (if \<not> sv_sql s then [Reply operator request_id (ResError ''policy_denied'')]
      else case wd_sql w (sq_sql q) of
        Inl e \<Rightarrow> [Reply operator request_id (ResError (case e of SqlTimeout \<Rightarrow> ''timeout''
           | SqlRowCap \<Rightarrow> ''row_cap_exceeded'' | SqlSqlite \<Rightarrow> ''sql_error'' | SqlOther \<Rightarrow> ''handler_error''))]
      | Inr rows \<Rightarrow>
          map (\<lambda>ch. Reply operator request_id (ResSql ch)) (local_chunks (sv_self s) rows) @
          (if sq_fanout q then (case sv_relay s of
              None \<Rightarrow> []
            | Some ps \<Rightarrow> map (\<lambda>p. Forward (pi_fingerprint p) (forward_command request_id timeout auth
                (CSql \<lparr>sq_sql = sq_sql q, sq_fanout = False, sq_peers = []\<rparr>))) (sql_relay_targets s (sq_peers q) ps))
           else []) @
          (if sq_fanout q then [Reply operator request_id (ResSql sql_terminator)] else []))"

section \<open>Pushes\<close>

definition revoke_base :: "server \<Rightarrow> revoke_report" where
  "revoke_base s = \<lparr>rr_agent_fp = sv_self s, rr_accepted = False, rr_already_known = False, rr_evicted = False,
     rr_error = None, rr_end = True\<rparr>"

text \<open>Deciding about a revocation: the report, whether it is to be forwarded, and the state.\<close>

definition apply_revocation ::
    "crypto \<Rightarrow> op_codec \<Rightarrow> world \<Rightarrow> server \<Rightarrow> revocation_store \<Rightarrow> bytes \<Rightarrow> revoke_report \<times> bool \<times> server" where
  "apply_revocation c k w s rs raw =
     (case rev_decode (oc_rev k) raw of
        None \<Rightarrow> ((revoke_base s)\<lparr>rr_error := Some Undecodable\<rparr>, False, s)
      | Some rvk \<Rightarrow>
          (case verify_revocation c rvk (sv_cluster_id s) (static_resolve (sv_operators s)) of
             Inl e \<Rightarrow> ((revoke_base s)\<lparr>rr_error := Some (Unverifiable e)\<rparr>, False, s)
           | Inr target \<Rightarrow>
               (case rev_insert c (oc_rev k) (wd_rev_fault w) (wd_partial w) (sv_fs s) rs target rvk of
                  (Inl e, fs1, rs1) \<Rightarrow>
                    ((revoke_base s)\<lparr>rr_error := Some (Persisting e)\<rparr>, False,
                     s\<lparr>sv_fs := fs1, sv_kn := (sv_kn s)\<lparr>kn_revocations := Some rs1\<rparr>\<rparr>)
                | (Inr new, fs1, rs1) \<Rightarrow>
                    (case unpin c (oc_kn k) (wd_pin_fault w) (wd_partial w) fs1
                         ((sv_kn s)\<lparr>kn_revocations := Some rs1\<rparr>) target of
                       (out, fs2, kn2) \<Rightarrow>
                         ((revoke_base s)\<lparr>rr_accepted := True, rr_already_known := \<not> new,
                            rr_evicted := (case out of Inl _ \<Rightarrow> False | Inr b \<Rightarrow> b)\<rparr>, new,
                          s\<lparr>sv_fs := fs2, sv_kn := kn2\<rparr>)))))"

definition handle_revoke_push ::
    "crypto \<Rightarrow> op_codec \<Rightarrow> world \<Rightarrow> server \<Rightarrow> revocation_store \<Rightarrow> fingerprint \<Rightarrow> string \<Rightarrow> revoke_push \<Rightarrow> bytes \<Rightarrow> nat
     \<Rightarrow> effect list \<times> server" where
  "handle_revoke_push c k w s rs operator request_id push auth timeout =
     (case apply_revocation c k w s rs (rp_revocation push) of
        (report, is_new, s') \<Rightarrow>
          ([Reply operator request_id (ResRevoke report)] @
           (if rp_fanout push \<and> 0 < rp_ttl push \<and> is_new
            then relay_push s' request_id timeout auth (CRevoke \<lparr>rp_revocation = rp_revocation push,
                   rp_fanout = True, rp_ttl = saturating_sub (rp_ttl push) 1\<rparr>)
            else []) @
           (if rp_fanout push then [Reply operator request_id (ResRevoke ((revoke_base s)\<lparr>rr_agent_fp := []\<rparr>))] else []),
           s'))"

definition silence_base :: "server \<Rightarrow> silence_report" where
  "silence_base s = \<lparr>sl_agent_fp = sv_self s, sl_accepted = False, sl_already_known = False, sl_error = None, sl_end = True\<rparr>"

definition apply_silence_push ::
    "crypto \<Rightarrow> op_codec \<Rightarrow> world \<Rightarrow> server \<Rightarrow> silence_store \<Rightarrow> bytes \<Rightarrow> silence_report \<times> bool \<times> server" where
  "apply_silence_push c k w s st raw =
     (case sil_decode (oc_sil k) raw of
        None \<Rightarrow> ((silence_base s)\<lparr>sl_error := Some Undecodable\<rparr>, False, s)
      | Some silence \<Rightarrow>
          (case store_accept c (oc_sil k) (wd_sil_fault w) (wd_partial w) (sv_fs s) st silence
               (static_resolve (sv_operators s)) (wd_now_ms w) of
             (Inl e, fs1, st1) \<Rightarrow> ((silence_base s)\<lparr>sl_error := Some (Rejected e)\<rparr>, False,
                s\<lparr>sv_fs := fs1, sv_inbox := (sv_inbox s)\<lparr>ib_silences := Some st1\<rparr>\<rparr>)
           | (Inr changed, fs1, st1) \<Rightarrow>
               ((silence_base s)\<lparr>sl_accepted := True, sl_already_known := \<not> changed\<rparr>, changed,
                s\<lparr>sv_fs := fs1, sv_inbox := (sv_inbox s)\<lparr>ib_silences := Some st1\<rparr>\<rparr>)))"

definition handle_silence_push ::
    "crypto \<Rightarrow> op_codec \<Rightarrow> world \<Rightarrow> server \<Rightarrow> silence_store \<Rightarrow> fingerprint \<Rightarrow> string \<Rightarrow> silence_push \<Rightarrow> bytes \<Rightarrow> nat
     \<Rightarrow> effect list \<times> server" where
  "handle_silence_push c k w s st operator request_id push auth timeout =
     (case apply_silence_push c k w s st (sp_silence push) of
        (report, is_new, s') \<Rightarrow>
          ([Reply operator request_id (ResSilence report)] @
           (if sp_fanout push \<and> 0 < sp_ttl push \<and> is_new
            then relay_push s' request_id timeout auth (CSilence \<lparr>sp_silence = sp_silence push,
                   sp_ttl = saturating_sub (sp_ttl push) 1, sp_fanout = True\<rparr>)
            else []) @
           (if sp_fanout push then [Reply operator request_id (ResSilence ((silence_base s)\<lparr>sl_agent_fp := []\<rparr>))] else []),
           s'))"

definition yara_base :: "server \<Rightarrow> yara_push \<Rightarrow> yara_report" where
  "yara_base s p = \<lparr>yr_agent_fp = sv_self s, yr_rule_id = yp_rule_id p, yr_matches = [], yr_scanned = 0, yr_errors = [],
     yr_end = True\<rparr>"

definition yara_alert :: "world \<Rightarrow> yara_context \<Rightarrow> yara_push \<Rightarrow> yara_match \<Rightarrow> alert" where
  "yara_alert w y p m = builder_subject (ym_path m)
     (builder_raw (wd_now_ms w) (yc_originator_fp y) ''yara'' ''yara.match''
       (''yara-'' @ yp_rule_id p @ ''-'' @ dec (unat (wd_now_ms w))) (Fin 1)
       (''yara rule `'' @ ym_rule_name m @ ''` matched '' @ ym_path m))"

definition handle_yara_push ::
    "crypto \<Rightarrow> op_codec \<Rightarrow> world \<Rightarrow> server \<Rightarrow> yara_context \<Rightarrow> fingerprint \<Rightarrow> string \<Rightarrow> yara_push \<Rightarrow> bytes \<Rightarrow> nat
     \<Rightarrow> effect list \<times> server" where
  "handle_yara_push c k w s y operator request_id push auth timeout =
     (case check_and_record_seen (wd_instant w) (to_hex c operator) request_id (yc_seen y) of
        (first, seen) \<Rightarrow>
          let s1 = s\<lparr>sv_yara := Some (y\<lparr>yc_seen := seen\<rparr>)\<rparr> in
          if \<not> first then
            ([Reply operator request_id (ResYara ((yara_base s push)\<lparr>yr_errors := [''already handled (duplicate push)'']\<rparr>))], s1)
          else if yc_max_rule_bytes y < length (yp_rules push) then
            ([Reply operator request_id (ResError ''rule_too_large'')], s1)
          else (case yara_put c (oc_index k) (wd_rule_fault w) (wd_index_fault w) (wd_partial w) (sv_fs s) (yc_store y)
                    (yp_rule_id push) (yp_rules push) (to_hex c operator) request_id (wd_now_ms w div 1000) of
            (Inl e, fs1, st1) \<Rightarrow>
              ([Reply operator request_id (ResError ''rule_rejected'')],
               s1\<lparr>sv_fs := fs1, sv_yara := Some (y\<lparr>yc_seen := seen, yc_store := st1\<rparr>)\<rparr>)
          | (Inr _, fs1, st1) \<Rightarrow>
              (case (if yp_targets push = [] then ([], 0, []) else wd_scan w (yp_rules push) (yp_targets push)) of
                 (errors, scanned, matches) \<Rightarrow>
                   let s2 = s1\<lparr>sv_fs := fs1, sv_yara := Some (y\<lparr>yc_seen := seen, yc_store := st1\<rparr>),
                         sv_inbox := foldl (\<lambda>ib m. snd (inbox_append (wd_now_ms w) (yara_alert w y push m) ib)) (sv_inbox s) matches\<rparr>
                   in ([Reply operator request_id (ResYara ((yara_base s push)\<lparr>yr_matches := matches, yr_scanned := scanned,
                          yr_errors := errors\<rparr>))] @
                       (if yp_fanout push \<and> 0 < yp_ttl push
                        then relay_push s2 request_id timeout auth (CYara (push\<lparr>yp_fanout := True,
                               yp_ttl := saturating_sub (yp_ttl push) 1\<rparr>)) else []) @
                       (if yp_fanout push
                        then [Reply operator request_id (ResYara ((yara_base s push)\<lparr>yr_agent_fp := []\<rparr>))] else []),
                       s2))))"

section \<open>Dispatch\<close>

definition MAX_REVOKE_TTL :: u32 where "MAX_REVOKE_TTL = 8"

text \<open>In milliseconds.\<close>

definition effective_timeout :: "server \<Rightarrow> operator_command \<Rightarrow> nat" where
  "effective_timeout s cmd = max (min (unat (oc_timeout_ms cmd)) (sv_max_timeout s)) 100"

definition is_direct_operator :: "server \<Rightarrow> fingerprint \<Rightarrow> bool" where
  "is_direct_operator s sender \<longleftrightarrow> static_resolve (sv_operators s) sender \<noteq> None"

definition rate_limited :: "world \<Rightarrow> server \<Rightarrow> fingerprint \<Rightarrow> bool \<Rightarrow> bool" where
  "rate_limited w s sender fanout \<longleftrightarrow> fanout \<and> is_direct_operator s sender \<and> \<not> wd_admitted w"

definition run_command ::
    "crypto \<Rightarrow> op_codec \<Rightarrow> world \<Rightarrow> server \<Rightarrow> fingerprint \<Rightarrow> fingerprint \<Rightarrow> operator_command \<Rightarrow> effect list \<times> server" where
  "run_command c k w s sender operator cmd =
     (let request_id = oc_request_id cmd; auth = oc_forwarded_from_operator cmd; t = effective_timeout s cmd;
          deny = (\<lambda>why. ([Reply operator request_id (ResError why)], s)) in
      case oc_command cmd of
        Some (CRevoke p) \<Rightarrow>
          (case kn_revocations (sv_kn s) of
             None \<Rightarrow> deny ''policy_denied''
           | Some rs \<Rightarrow>
               if rate_limited w s sender (rp_fanout p) then deny ''rate_limited''
               else handle_revoke_push c k w s rs operator request_id (p\<lparr>rp_ttl := min (rp_ttl p) MAX_REVOKE_TTL\<rparr>) auth t)
      | Some (CSilence p) \<Rightarrow>
          (case ib_silences (sv_inbox s) of
             None \<Rightarrow> deny ''policy_denied''
           | Some st \<Rightarrow>
               if rate_limited w s sender (sp_fanout p) then deny ''rate_limited''
               else handle_silence_push c k w s st operator request_id (p\<lparr>sp_ttl := min (sp_ttl p) MAX_REVOKE_TTL\<rparr>) auth t)
      | Some (CYara p) \<Rightarrow>
          (case sv_yara s of
             None \<Rightarrow> deny ''policy_denied''
           | Some y \<Rightarrow>
               if rate_limited w s sender (yp_fanout p) then deny ''rate_limited''
               else handle_yara_push c k w s y operator request_id (p\<lparr>yp_ttl := min (yp_ttl p) (yc_max_ttl y)\<rparr>) auth t)
      | Some (CSql q) \<Rightarrow>
          if rate_limited w s sender (sq_fanout q) then deny ''rate_limited''
          else (stream_sql_response w s operator request_id q auth t, s)
      | None \<Rightarrow> deny ''unsupported_command'')"

definition respond_to_operator_command ::
    "crypto \<Rightarrow> op_codec \<Rightarrow> world \<Rightarrow> server \<Rightarrow> fingerprint \<Rightarrow> operator_command \<Rightarrow> effect list \<times> server" where
  "respond_to_operator_command c k w s sender cmd =
     (case resolve_effective_operator c k (wd_now w) (sv_operators s) cmd sender of
        Inl e \<Rightarrow> ([Reply sender (oc_request_id cmd) (ResError ''forwarding_invalid'')], s)
      | Inr operator \<Rightarrow>
          if \<not> is_direct_operator s sender \<and>
             (case oc_command cmd of Some (CSql q) \<Rightarrow> sq_fanout q | _ \<Rightarrow> False)
          then ([Reply sender (oc_request_id cmd) (ResError ''policy_denied'')], s)
          else run_command c k w s sender operator cmd)"

text \<open>What arrives on a unidirectional stream, from an authenticated sender.\<close>

record subscribe =
  sub_since_unix_ms :: u64
  sub_max_items :: u32

datatype uni_body = USubscribe subscribe | UCommand operator_command | UOther

datatype served = Ignored | Served "effect list" | Delivered "alerts_msg list"

definition serve_uni ::
    "crypto \<Rightarrow> op_codec \<Rightarrow> (alert \<Rightarrow> nat) \<Rightarrow> world \<Rightarrow> server \<Rightarrow> fingerprint \<Rightarrow> uni_body \<Rightarrow> served \<times> server" where
  "serve_uni c k encoded_len w s sender b =
     (case b of
        UOther \<Rightarrow> (Ignored, s)
      | USubscribe sub \<Rightarrow>
          if \<not> is_direct_operator s sender then (Ignored, s)
          else (case read_since (wd_now_ms w) (sub_since_unix_ms sub) (unat (sub_max_items sub)) (sv_inbox s) of
            ((items, cursor), ib) \<Rightarrow> (Delivered (alerts_chunks encoded_len items cursor), s\<lparr>sv_inbox := ib\<rparr>))
      | UCommand cmd \<Rightarrow>
          if \<not> is_direct_operator s sender \<and> oc_forwarded_from_operator cmd = [] then (Ignored, s)
          else (case respond_to_operator_command c k w s sender cmd of
            (es, s') \<Rightarrow> (Served (perform (wd_up w) 0 es), s')))"

section \<open>Who is behind a command\<close>

lemma resolve_effective_ok:
  "resolve_effective_operator c k now operators cmd sender = Inr fp \<longleftrightarrow>
   (if oc_forwarded_from_operator cmd = [] then fp = sender
    else \<exists>auth vk body. auth_decode k (oc_forwarded_from_operator cmd) = Some auth \<and> oa_operator_fp auth = fp \<and>
      length fp = 32 \<and> length (oa_command_digest auth) = 32 \<and> length (oa_signature auth) = 64 \<and>
      oa_request_id auth = oc_request_id cmd \<and> static_resolve operators fp = Some vk \<and> oc_command cmd = Some body \<and>
      command_body_digest c k body = oa_command_digest auth \<and>
      abs_diff (forward_unix_ms now) (oa_ts_unix_ms auth) \<le> 5 * 60 * 1000 \<and>
      verify_strict c vk (oa_signing_input fp (oa_ts_unix_ms auth) (oa_request_id auth) (oa_command_digest auth)) (oa_signature auth))"
  unfolding resolve_effective_operator_def by auto

text \<open>What an agent may do without an operator: nothing, or tell the sender that it refused.\<close>

definition refused_only :: "fingerprint \<Rightarrow> effect list \<Rightarrow> bool" where
  "refused_only sender es \<longleftrightarrow> (\<exists>rid why. es = [Reply sender rid (ResError why)])"

lemma perform_refused: "refused_only sender es \<Longrightarrow> perform up n es = [] \<or> perform up n es = es"
  by (auto simp: refused_only_def)

lemma perform_mem: "e \<in> set (perform up n es) \<Longrightarrow> e \<in> set es"
  by (induction up n es rule: perform.induct) (auto split: if_splits)

lemma relay_push_forwards: "Reply fp i r \<notin> set (relay_push s rid t auth b)"
  by (auto simp: relay_push_def split: option.splits)

lemma run_command_replies:
  assumes "run_command c k w s sender operator cmd = (es, s')" "Reply fp i r \<in> set es"
  shows "fp = operator"
proof (cases "oc_command cmd")
  case None
  with assms show ?thesis by (auto simp: run_command_def)
next
  case (Some b)
  show ?thesis
  proof (cases b)
    case (CSql q)
    with assms Some show ?thesis
      by (auto simp: run_command_def Let_def stream_sql_response_def split: if_splits sum.splits option.splits)
  next
    case (CYara p)
    with assms Some relay_push_forwards show ?thesis
      by (auto simp: run_command_def Let_def handle_yara_push_def split: if_splits sum.splits option.splits prod.splits)
  next
    case (CRevoke p)
    with assms Some relay_push_forwards show ?thesis
      by (auto simp: run_command_def Let_def handle_revoke_push_def split: if_splits option.splits prod.splits)
  next
    case (CSilence p)
    with assms Some relay_push_forwards show ?thesis
      by (auto simp: run_command_def Let_def handle_silence_push_def split: if_splits option.splits prod.splits)
  qed
qed

text \<open>
  C7. Nothing is done without an operator. Let the configured operators have signed the messages in
  \<open>made\<close>, of whatever kind, those in the domain of authorisations being the authorisations in \<open>S\<close>; let
  the attached signature not be forged, and the received command have the digest of a signed one only
  if they agree up to what relays may change. Whatever command arrives from whatever authenticated
  sender, either the agent changes nothing and sends at most a refusal back to the sender, or the sender
  is a configured operator and no authorisation is attached, or an operator signed an authorisation of
  this very command, up to fan-out and hop count, under this request id and within five minutes of now;
  and then every reply is sealed for the operator who signed, also when it is another operator who
  dials. (The comment in the code gives a direct dial's replies to the dialler; see
  \<open>attached_authorisation_wins\<close>.)
\<close>

theorem commands_need_operator:
  assumes run: "serve_uni c k encoded_len w s sender (UCommand cmd) = (Served es, s')"
    and honest: "\<And>op vk. static_resolve (sv_operators s) op = Some vk \<Longrightarrow>
      unforged c vk (made op) {oa_signature auth | auth. auth_decode k (oc_forwarded_from_operator cmd) = Some auth}"
    and signed: "\<And>op rest. OPERATOR_AUTHORIZATION_DOMAIN @ rest \<in> made op \<Longrightarrow> \<exists>ts rid b. (op, ts, rid, b) \<in> S \<and>
      length rid < 2 ^ 32 \<and> OPERATOR_AUTHORIZATION_DOMAIN @ rest = oa_signing_input op ts rid (command_body_digest c k b)"
    and no_collision: "\<And>op ts rid b body. (op, ts, rid, b) \<in> S \<Longrightarrow> oc_command cmd = Some body \<Longrightarrow>
      command_body_digest c k b = command_body_digest c k body \<Longrightarrow> normalise_body b = normalise_body body"
    and small: "length (oc_request_id cmd) < 2 ^ 32"
  shows "s' = s \<and> (es = [] \<or> refused_only sender es) \<or>
    is_direct_operator s sender \<and> oc_forwarded_from_operator cmd = [] \<or>
    (\<exists>op ts b body. (op, ts, oc_request_id cmd, b) \<in> S \<and> oc_command cmd = Some body \<and>
       normalise_body b = normalise_body body \<and> abs_diff (forward_unix_ms (wd_now w)) ts \<le> 5 * 60 * 1000 \<and>
       (\<forall>fp i r. Reply fp i r \<in> set es \<longrightarrow> fp = op))"
proof -
  let ?res = "resolve_effective_operator c k (wd_now w) (sv_operators s) cmd sender"
  have gate: "is_direct_operator s sender \<or> oc_forwarded_from_operator cmd \<noteq> []"
    using run by (auto simp: serve_uni_def split: if_splits)
  obtain es0 where resp: "respond_to_operator_command c k w s sender cmd = (es0, s')" "es = perform (wd_up w) 0 es0"
    using run by (auto simp: serve_uni_def split: if_splits prod.splits)
  consider "s' = s" "refused_only sender es0" | op where "?res = Inr op" "run_command c k w s sender op cmd = (es0, s')"
    using resp(1) by (auto simp: respond_to_operator_command_def refused_only_def split: sum.splits if_splits)
  then show ?thesis
  proof cases
    case 1
    then show ?thesis using perform_refused [OF 1(2), of "wd_up w" 0] resp(2) by auto
  next
    case (2 op)
    show ?thesis
    proof (cases "oc_forwarded_from_operator cmd = []")
      case True
      with gate show ?thesis by auto
    next
      case False
      from 2(1) [unfolded resolve_effective_ok if_not_P [OF False]] obtain auth :: operator_authorization and vk body
        where a: "length op = 32" "oa_request_id auth = oc_request_id cmd"
        "static_resolve (sv_operators s) op = Some vk" "oc_command cmd = Some body"
        "command_body_digest c k body = oa_command_digest auth"
        "abs_diff (forward_unix_ms (wd_now w)) (oa_ts_unix_ms auth) \<le> 5 * 60 * 1000"
        "verify_strict c vk (oa_signing_input op (oa_ts_unix_ms auth) (oa_request_id auth) (oa_command_digest auth)) (oa_signature auth)"
        "auth_decode k (oc_forwarded_from_operator cmd) = Some auth"
        by blast
      have "oa_signing_input op (oa_ts_unix_ms auth) (oa_request_id auth) (oa_command_digest auth) \<in> made op"
        using unforgedD [OF honest [OF a(3)] _ a(7)] a(8) by blast
      then obtain rest where "OPERATOR_AUTHORIZATION_DOMAIN @ rest \<in> made op"
        "oa_signing_input op (oa_ts_unix_ms auth) (oa_request_id auth) (oa_command_digest auth) = OPERATOR_AUTHORIZATION_DOMAIN @ rest"
        by (simp add: oa_signing_input_def)
      with signed [of rest op] obtain ts rid b where b: "(op, ts, rid, b) \<in> S" "length rid < 2 ^ 32"
        "oa_signing_input op (oa_ts_unix_ms auth) (oa_request_id auth) (oa_command_digest auth) =
         oa_signing_input op ts rid (command_body_digest c k b)" by auto
      from oa_signing_input_inj [OF b(3) a(1) a(1)] small b(2) a(2)
      have eq: "oa_ts_unix_ms auth = ts" "rid = oc_request_id cmd" "oa_command_digest auth = command_body_digest c k b" by auto
      have "normalise_body b = normalise_body body" using no_collision [OF b(1) a(4)] a(5) eq(3) by simp
      moreover have "\<forall>fp i r. Reply fp i r \<in> set es \<longrightarrow> fp = op"
        using run_command_replies [OF 2(2)] perform_mem resp(2) by blast
      ultimately show ?thesis using b(1) a(4,6) eq(1,2) by blast
    qed
  qed
qed

text \<open>A command that was relayed to this agent and asks for data is not relayed further.\<close>

lemma relayed_sql_is_not_forwarded:
  assumes "respond_to_operator_command c k w s sender cmd = (es, s')" "\<not> is_direct_operator s sender"
    and "oc_command cmd = Some (CSql q)"
  shows "Forward fp cmd' \<notin> set es"
  using assms
  by (auto simp: respond_to_operator_command_def run_command_def stream_sql_response_def rate_limited_def Let_def
      split: sum.splits if_splits)

text \<open>
  An operator may act under another operator's name: with an authorisation of the other attached, the
  effective operator is the other, who is charged for the fan-out and receives the replies.
\<close>

lemma attached_authorisation_wins:
  assumes "resolve_effective_operator c k now operators cmd sender = Inr op"
    and "auth_decode k (oc_forwarded_from_operator cmd) = Some auth" "oc_forwarded_from_operator cmd \<noteq> []"
  shows "op = oa_operator_fp auth"
  using assms unfolding resolve_effective_ok by auto

section \<open>A demonstration\<close>

definition demo_op_codec :: op_codec where
  "demo_op_codec = \<lparr>cmd_encode = (\<lambda>_. [1]), auth_encode = (\<lambda>_. [2]), auth_decode = (\<lambda>b. None),
     oc_rev = demo_rev_codec, oc_sil = demo_sil_codec,
     oc_kn = \<lparr>json_print = (\<lambda>_. None), json_parse = (\<lambda>_. None), rfc3339_format = (\<lambda>_. None), rfc3339_parse = (\<lambda>_. None)\<rparr>,
     oc_index = demo_index_codec\<rparr>"

definition demo_op_fp :: fingerprint where
  "demo_op_fp = fingerprint_of demo_crypto demo_operator"

definition demo_body :: command_body where
  "demo_body = CSql \<lparr>sq_sql = ''SELECT 1'', sq_fanout = False, sq_peers = []\<rparr>"

text \<open>The operator signed this authorisation and, with the same key, a silence.\<close>

definition auth_signed :: "bytes list" where
  "auth_signed = [oa_signing_input demo_op_fp 7 ''r'' (command_body_digest demo_crypto demo_op_codec demo_body),
     the (as_to_signing_input (demo_silence\<lparr>as_operator_fp := demo_op_fp\<rparr>))]"

abbreviation auth_signer :: crypto where
  "auth_signer \<equiv> ledger_crypto auth_signed"

definition demo_auth :: operator_authorization where
  "demo_auth = sign_operator_authorization auth_signer demo_op_codec (Some 7) demo_operator ''r'' demo_body"

definition demo_auth_codec :: op_codec where
  "demo_auth_codec = demo_op_codec\<lparr>auth_decode := (\<lambda>_. Some demo_auth)\<rparr>"

definition demo_server :: server where
  "demo_server = \<lparr>sv_self = replicate 32 1, sv_operators = \<lparr>keys = demo_trusted\<rparr>, sv_cluster_id = ''prod'',
     sv_kn = demo_kn, sv_inbox = inbox_new 2 1000, sv_yara = None, sv_relay = None, sv_sql = True, sv_max_timeout = 5000,
     sv_fs = (\<lambda>_. None)\<rparr>"

definition demo_world :: world where
  "demo_world = \<lparr>wd_now = Some 9, wd_now_ms = 9, wd_instant = 0, wd_admitted = True, wd_rev_fault = NoFault,
     wd_pin_fault = NoFault, wd_sil_fault = NoFault, wd_rule_fault = NoFault, wd_index_fault = NoFault, wd_partial = [],
     wd_sql = (\<lambda>_. Inr []), wd_scan = (\<lambda>_ _. ([], 0, [])), wd_up = (\<lambda>_. True)\<rparr>"

definition demo_command :: operator_command where
  "demo_command = forward_command ''r'' 1000 [2] demo_body"

lemma demo_digest: "command_body_digest (ledger_crypto ms) k b = command_body_digest demo_crypto k b"
  "command_body_digest c demo_auth_codec b = command_body_digest c demo_op_codec b"
  by (simp_all add: command_body_digest_def demo_auth_codec_def demo_op_codec_def)

lemma demo_auth_fields:
  "oa_operator_fp demo_auth = demo_op_fp" "oa_ts_unix_ms demo_auth = 7" "oa_request_id demo_auth = ''r''"
  "oa_command_digest demo_auth = command_body_digest demo_crypto demo_op_codec demo_body"
  "oa_signature demo_auth = sign auth_signer demo_operator (hd auth_signed)"
  by (simp_all add: demo_auth_def sign_operator_authorization_def demo_op_fp_def forward_unix_ms_def u64_or_max_def Let_def
      auth_signed_def demo_digest)

lemma demo_command_resolves:
  "resolve_effective_operator auth_signer demo_auth_codec (Some 9) \<lparr>keys = demo_trusted\<rparr> demo_command sender = Inr demo_op_fp"
proof -
  note f = demo_auth_fields
  have auth: "auth_decode demo_auth_codec [2] = Some demo_auth" by (simp add: demo_auth_codec_def)
  have "length demo_op_fp = 32" "length (oa_command_digest demo_auth) = 32" "length (oa_signature demo_auth) = 64"
    unfolding f by (simp_all add: demo_op_fp_def demo_crypto_ok ledger_crypto_ok command_body_digest_def crypto_okD(1) [OF demo_crypto_ok])
  moreover have "static_resolve \<lparr>keys = demo_trusted\<rparr> demo_op_fp = Some (verifying_key demo_crypto demo_operator)"
    by (simp add: static_resolve_def demo_trusted_def demo_op_fp_def)
  moreover have "verify_strict auth_signer (verifying_key demo_crypto demo_operator)
      (oa_signing_input demo_op_fp 7 ''r'' (command_body_digest demo_crypto demo_op_codec demo_body)) (sign auth_signer demo_operator (hd auth_signed))"
    using ledger_verify [of auth_signed demo_operator "hd auth_signed"] by (simp add: auth_signed_def)
  ultimately show ?thesis
    unfolding resolve_effective_ok using auth f
    by (simp add: demo_command_def forward_command_def demo_digest forward_unix_ms_def u64_or_max_def abs_diff_def)
qed

text \<open>The theorem applies to a command that another agent relays, with the operator's authorisation.\<close>

lemma demo_served:
  "serve_uni auth_signer demo_auth_codec (\<lambda>_. 0) demo_world demo_server (replicate 32 2) (UCommand demo_command) =
   (Served [Reply demo_op_fp ''r'' (ResSql \<lparr>sc_columns = [], sc_rows = [], sc_end = True, sc_agent_fp = replicate 32 1\<rparr>)], demo_server)"
proof -
  have r: "resolve_effective_operator auth_signer demo_auth_codec (wd_now demo_world) (sv_operators demo_server) demo_command sender =
    Inr demo_op_fp" for sender using demo_command_resolves by (simp add: demo_world_def demo_server_def)
  have f: "sv_sql demo_server" "sv_self demo_server = replicate 32 1" "wd_sql demo_world q = Inr []" "wd_up demo_world n" for q n
    by (simp_all add: demo_server_def demo_world_def)
  have "oc_command demo_command = Some demo_body" "oc_forwarded_from_operator demo_command = [2]" "oc_request_id demo_command = ''r''"
    by (simp_all add: demo_command_def forward_command_def)
  then show ?thesis
    by (simp add: serve_uni_def respond_to_operator_command_def r run_command_def demo_body_def Let_def rate_limited_def
        stream_sql_response_def local_chunks_def f)
qed

lemma authorization_not_silence:
  "OPERATOR_AUTHORIZATION_DOMAIN @ rest \<noteq> the (as_to_signing_input (demo_silence\<lparr>as_operator_fp := demo_op_fp\<rparr>))"
proof
  assume eq: "OPERATOR_AUTHORIZATION_DOMAIN @ rest = the (as_to_signing_input (demo_silence\<lparr>as_operator_fp := demo_op_fp\<rparr>))"
  have "\<exists>r. the (as_to_signing_input (demo_silence\<lparr>as_operator_fp := demo_op_fp\<rparr>)) = ALERT_SILENCE_DOMAIN @ r"
    by (simp add: as_to_signing_input_def to_array_def demo_op_fp_def demo_crypto_ok)
  then obtain r where "OPERATOR_AUTHORIZATION_DOMAIN @ rest = ALERT_SILENCE_DOMAIN @ r" using eq by auto
  then have "OPERATOR_AUTHORIZATION_DOMAIN = ALERT_SILENCE_DOMAIN"
    by (rule domains_do_not_overlap [rotated 2]) (simp_all add: signing_domains_def)
  then show False by (simp add: domain_defs str_bytes_def)
qed

theorem commands_need_operator_witness:
  "\<exists>op ts b body. (op, ts, oc_request_id demo_command, b) \<in> {(demo_op_fp, 7::u64, ''r'', demo_body)} \<and>
     oc_command demo_command = Some body \<and> normalise_body b = normalise_body body \<and> op = demo_op_fp"
proof -
  have honest: "unforged auth_signer vk (if op = demo_op_fp then set auth_signed else {})
      {oa_signature auth | auth. auth_decode demo_auth_codec (oc_forwarded_from_operator demo_command) = Some auth}"
    if "static_resolve (sv_operators demo_server) op = Some vk" for op vk
  proof -
    have "op = demo_op_fp"
      using that by (simp add: static_resolve_def demo_server_def demo_trusted_def demo_op_fp_def split: if_splits)
    moreover have "{oa_signature auth | auth. auth_decode demo_auth_codec (oc_forwarded_from_operator demo_command) = Some auth}
        \<subseteq> sign auth_signer demo_operator ` set auth_signed"
      by (auto simp: demo_auth_codec_def demo_auth_fields auth_signed_def)
    ultimately show ?thesis using ledger_unforged [of auth_signed _ demo_operator] by (simp add: auth_signed_def)
  qed
  have signed: "\<exists>ts rid b. (op, ts, rid, b) \<in> {(demo_op_fp, 7, ''r'', demo_body)} \<and> length rid < 2 ^ 32 \<and>
      OPERATOR_AUTHORIZATION_DOMAIN @ rest = oa_signing_input op ts rid (command_body_digest auth_signer demo_auth_codec b)"
    if "OPERATOR_AUTHORIZATION_DOMAIN @ rest \<in> (if op = demo_op_fp then set auth_signed else {})" for op rest
    using that authorization_not_silence by (auto simp: auth_signed_def demo_digest split: if_splits)
  have "oc_command demo_command = Some demo_body" by (simp add: demo_command_def forward_command_def)
  moreover have "\<not> refused_only (replicate 32 2)
      [Reply demo_op_fp ''r'' (ResSql \<lparr>sc_columns = [], sc_rows = [], sc_end = True, sc_agent_fp = replicate 32 1\<rparr>)]"
    by (simp add: refused_only_def)
  moreover have "oc_forwarded_from_operator demo_command \<noteq> []" "length (oc_request_id demo_command) < 2 ^ 32"
    by (simp_all add: demo_command_def forward_command_def)
  ultimately show ?thesis
    using commands_need_operator [where S = "{(demo_op_fp, 7, ''r'', demo_body)}", OF demo_served honest signed] by fastforce
qed

end
