(* ===== verification/Flooding.thy ===== *)
theory Flooding
  imports Prelude
begin

text \<open>
  How a signed record spreads from agent to agent (\<open>bowery-agent/src/operator.rs\<close>, the relays of
  revocations and silences). The agents and the messages on their way form a network that is run by
  delivering or losing one message at a time, in any order. The laws of one agent's handler are the
  assumptions of two interfaces: the first gives that the flood ends, the second that it reaches every
  agent. The handlers that obey them are in \<open>Propagation\<close>.
\<close>

section \<open>Networks\<close>

type_synonym ('n, 's, 'm) net = "('n \<Rightarrow> 's) \<times> ('n \<times> 'm) list"

text \<open>A handler takes what the world contributes, the state of the agent and a message to the messages it sends.\<close>

type_synonym ('w, 'n, 's, 'm) handler = "'w \<Rightarrow> 's \<Rightarrow> 'm \<Rightarrow> ('n \<times> 'm) list \<times> 's"

datatype 'w net_event = Deliver 'w nat | Lose nat

definition without :: "nat \<Rightarrow> 'a list \<Rightarrow> 'a list" where
  "without i xs = take i xs @ drop (Suc i) xs"

fun net_step :: "('w, 'n, 's, 'm) handler \<Rightarrow> 'w net_event \<Rightarrow> ('n, 's, 'm) net \<Rightarrow> ('n, 's, 'm) net" where
  "net_step h (Deliver w i) (A, fl) =
     (case fl ! i of (n, m) \<Rightarrow> case h w (A n) m of (out, s') \<Rightarrow> (A(n := s'), without i fl @ out))"
| "net_step h (Lose i) (A, fl) = (A, without i fl)"

fun event_index :: "'w net_event \<Rightarrow> nat" where
  "event_index (Deliver _ i) = i"
| "event_index (Lose i) = i"

inductive net_run :: "('w, 'n, 's, 'm) handler \<Rightarrow> ('n, 's, 'm) net \<Rightarrow> 'w net_event list \<Rightarrow> ('n, 's, 'm) net \<Rightarrow> bool"
  for h N where
  net_start: "net_run h N [] N"
| net_next: "net_run h N es N' \<Longrightarrow> event_index e < length (snd N') \<Longrightarrow> net_run h N (es @ [e]) (net_step h e N')"

text \<open>A run that loses nothing and delivers in the given worlds only.\<close>

definition lossless :: "('w \<Rightarrow> bool) \<Rightarrow> 'w net_event list \<Rightarrow> bool" where
  "lossless fair es \<longleftrightarrow> (\<forall>e \<in> set es. case e of Deliver w _ \<Rightarrow> fair w | Lose _ \<Rightarrow> False)"

lemma without_mset: "i < length xs \<Longrightarrow> set xs = insert (xs ! i) (set (without i xs))"
  unfolding without_def by (metis id_take_nth_drop list.simps(15) set_append Un_insert_right)

lemma without_length: "i < length xs \<Longrightarrow> Suc (length (without i xs)) = length xs"
  by (simp add: without_def)

lemma net_run_one: "event_index e < length (snd N) \<Longrightarrow> net_run h N [e] (net_step h e N)"
  using net_next [OF net_start] by simp

lemma net_run_trans: "net_run h N1 es2 N2 \<Longrightarrow> net_run h N0 es1 N1 \<Longrightarrow> net_run h N0 (es1 @ es2) N2"
  by (induction rule: net_run.induct) (auto simp flip: append_assoc intro: net_run.intros)

lemma net_run_snoc:
  assumes "net_run h N0 es N1" "i < length (snd N1)"
  shows "net_run h N0 (es @ [Deliver w i]) (net_step h (Deliver w i) N1)"
  using assms by (auto intro: net_next)

section \<open>Floods that end\<close>

text \<open>
  An agent that has the record sends nothing; one that has not sends at most one message to each of its
  neighbours, and then has it. This much holds whatever the world does.
\<close>

locale bounded_flooding =
  fixes h :: "('w, 'n, 's, 'm) handler"
    and V :: "'n set"
    and wf :: "'n \<Rightarrow> 's \<Rightarrow> bool"
    and known :: "'s \<Rightarrow> bool"
    and good :: "'m \<Rightarrow> bool"
    and nbrs :: "'n \<Rightarrow> 'n list"
  assumes finite_V: "finite V"
    and closed: "n \<in> V \<Longrightarrow> p \<in> set (nbrs n) \<Longrightarrow> p \<in> V"
    and keeps: "wf n s \<Longrightarrow> good m \<Longrightarrow> h w s m = (out, s') \<Longrightarrow> wf n s' \<and> (known s \<longrightarrow> known s')"
    and sends: "wf n s \<Longrightarrow> good m \<Longrightarrow> h w s m = (out, s') \<Longrightarrow>
      out = [] \<or> \<not> known s \<and> known s' \<and> map fst out = nbrs n \<and> (\<forall>x \<in> set out. good (snd x))"
begin

definition ok :: "('n, 's, 'm) net \<Rightarrow> bool" where
  "ok N \<longleftrightarrow> (\<forall>n \<in> V. wf n (fst N n)) \<and> (\<forall>(n, m) \<in> set (snd N). n \<in> V \<and> good m)"

definition ignorant :: "('n \<Rightarrow> 's) \<Rightarrow> 'n set" where
  "ignorant A = {n \<in> V. \<not> known (A n)}"

definition budget :: "('n, 's, 'm) net \<Rightarrow> nat" where
  "budget N = length (snd N) + (\<Sum>n \<in> ignorant (fst N). length (nbrs n))"

lemma finite_ignorant [simp]: "finite (ignorant A)"
  using finite_V by (simp add: ignorant_def)

lemma deliverE:
  assumes "ok (A, fl)" "i < length fl"
  obtains n m out s' where "fl ! i = (n, m)" "h w (A n) m = (out, s')" "n \<in> V" "wf n (A n)" "good m"
    "net_step h (Deliver w i) (A, fl) = (A(n := s'), without i fl @ out)"
proof -
  obtain n m where nm: "fl ! i = (n, m)" by force
  moreover obtain out s' where h: "h w (A n) m = (out, s')" by force
  moreover have "(n, m) \<in> set fl" using nm assms(2) nth_mem by force
  ultimately show thesis using that [OF nm h] assms(1) by (auto simp: ok_def)
qed

lemma step_ok:
  assumes "ok N" "event_index e < length (snd N)"
  shows "ok (net_step h e N)"
proof (cases N)
  case [simp]: (Pair A fl)
  show ?thesis
  proof (cases e)
    case (Lose i)
    then show ?thesis using assms by (auto simp: ok_def without_def dest: in_set_takeD in_set_dropD)
  next
    case (Deliver w i)
    with assms have i: "ok (A, fl)" "i < length fl" by simp_all
    from deliverE [OF i, of w] obtain n m out s' where d: "h w (A n) m = (out, s')" "n \<in> V" "wf n (A n)" "good m"
      "net_step h (Deliver w i) (A, fl) = (A(n := s'), without i fl @ out)" by metis
    have "p \<in> V \<and> good m'" if x: "(p, m') \<in> set out" for p m'
    proof -
      have "out \<noteq> []" using x by auto
      with sends [OF d(3,4,1)] have "map fst out = nbrs n" "\<forall>x \<in> set out. good (snd x)" by simp_all
      moreover have "p \<in> set (map fst out)" using x by force
      ultimately show ?thesis using x closed [OF d(2), of p] by fastforce
    qed
    moreover have "set (without i fl) \<subseteq> set fl" using without_mset [OF i(2)] by auto
    ultimately show ?thesis using i(1) keeps [OF d(3,4,1)] d(5) Deliver by (auto simp: ok_def)
  qed
qed

lemma step_budget:
  assumes "ok N" "event_index e < length (snd N)"
  shows "Suc (budget (net_step h e N)) \<le> budget N"
proof (cases N)
  case [simp]: (Pair A fl)
  show ?thesis
  proof (cases e)
    case (Lose i)
    then show ?thesis using assms without_length [of i fl] by (simp add: budget_def)
  next
    case (Deliver w i)
    with assms have i: "ok (A, fl)" "i < length fl" by simp_all
    from deliverE [OF i, of w] obtain n m out s' where d: "h w (A n) m = (out, s')" "n \<in> V" "wf n (A n)" "good m"
      "net_step h (Deliver w i) (A, fl) = (A(n := s'), without i fl @ out)" by metis
    have sub: "ignorant (A(n := s')) \<subseteq> ignorant A"
      using keeps [OF d(3,4,1)] by (auto simp: ignorant_def)
    have "length out + (\<Sum>n \<in> ignorant (A(n := s')). length (nbrs n)) \<le> (\<Sum>n \<in> ignorant A. length (nbrs n))"
    proof (cases "out = []")
      case True
      moreover have "(\<Sum>n \<in> ignorant (A(n := s')). length (nbrs n)) \<le> (\<Sum>n \<in> ignorant A. length (nbrs n))"
        by (rule sum_mono2) (use sub in auto)
      ultimately show ?thesis by simp
    next
      case False
      with sends [OF d(3,4,1)] have s: "\<not> known (A n)" "known s'" "length out = length (nbrs n)" by (auto dest: arg_cong [where f = length])
      then have "ignorant A = insert n (ignorant (A(n := s')))" "n \<notin> ignorant (A(n := s'))"
        using d(2) by (auto simp: ignorant_def)
      with s(3) show ?thesis by simp
    qed
    with without_length [OF i(2)] show ?thesis using Deliver d(5) by (simp add: budget_def)
  qed
qed

lemma run_bounded: "net_run h N es N' \<Longrightarrow> ok N \<Longrightarrow> ok N' \<and> length es + budget N' \<le> budget N"
proof (induction rule: net_run.induct)
  case (net_next es N' e)
  with step_ok [OF _ net_next(2)] step_budget [OF _ net_next(2)] show ?case by force
qed simp

end

section \<open>Floods that reach everyone\<close>

text \<open>
  In a fair world an authorised message is learned from, and an agent that learns passes it on while
  hops are left.
\<close>

locale flooding = bounded_flooding h V wf known good nbrs
  for h :: "('w, 'n, 's, 'm) handler"
    and V :: "'n set"
    and wf :: "'n \<Rightarrow> 's \<Rightarrow> bool"
    and known :: "'s \<Rightarrow> bool"
    and good :: "'m \<Rightarrow> bool"
    and nbrs :: "'n \<Rightarrow> 'n list" +
  fixes fair :: "'w \<Rightarrow> bool"
    and valid :: "'m \<Rightarrow> bool"
    and ttl :: "'m \<Rightarrow> nat"
  assumes valid_good: "valid m \<Longrightarrow> good m"
    and learns: "wf n s \<Longrightarrow> valid m \<Longrightarrow> fair w \<Longrightarrow> h w s m = (out, s') \<Longrightarrow> known s'"
    and floods: "wf n s \<Longrightarrow> valid m \<Longrightarrow> fair w \<Longrightarrow> h w s m = (out, s') \<Longrightarrow> \<not> known s \<Longrightarrow> 0 < ttl m \<Longrightarrow>
      map fst out = nbrs n \<and> (\<forall>x \<in> set out. valid (snd x) \<and> Suc (ttl (snd x)) = ttl m)"
    and spent: "wf n s \<Longrightarrow> valid m \<Longrightarrow> fair w \<Longrightarrow> h w s m = (out, s') \<Longrightarrow> ttl m = 0 \<Longrightarrow> out = []"
begin

definition informed :: "('n \<Rightarrow> 's) \<Rightarrow> 'n set" where
  "informed A = {n \<in> V. known (A n)}"

text \<open>
  Every message still has as many hops as the flood started with, less the agents that have the record:
  each hop used one agent up. While there are hops, what an agent knows its neighbours know or will hear.
\<close>

definition covers :: "nat \<Rightarrow> 'n \<Rightarrow> ('n, 's, 'm) net \<Rightarrow> bool" where
  "covers T src N \<longleftrightarrow> ok N \<and> (\<forall>(n, m) \<in> set (snd N). valid m \<and> T \<le> ttl m + card (informed (fst N))) \<and>
     (T < card (informed (fst N)) \<or>
      (src \<in> informed (fst N) \<or> src \<in> fst ` set (snd N)) \<and>
      (\<forall>n \<in> informed (fst N). \<forall>p \<in> set (nbrs n). p \<in> informed (fst N) \<or> p \<in> fst ` set (snd N)))"

lemma finite_informed [simp]: "finite (informed A)"
  using finite_V by (simp add: informed_def)

lemma informed_update: "n \<in> V \<Longrightarrow> known s' \<Longrightarrow> informed (A(n := s')) = insert n (informed A)"
  by (auto simp: informed_def)

lemma step_covers:
  assumes c: "covers T src N" and i: "i < length (snd N)" and fw: "fair w"
  shows "covers T src (net_step h (Deliver w i) N)"
proof -
  obtain A fl where N [simp]: "N = (A, fl)" by force
  have ok: "ok (A, fl)" "i < length fl" using c i by (simp_all add: covers_def)
  from deliverE [OF ok, of w] obtain n m out s' where
    d: "fl ! i = (n, m)" "h w (A n) m = (out, s')" "n \<in> V" "wf n (A n)" "good m"
      "net_step h (Deliver w i) (A, fl) = (A(n := s'), without i fl @ out)" by metis
  have fl: "set fl = insert (n, m) (set (without i fl))" using without_mset [OF ok(2)] d(1) by simp
  then have m: "valid m" "T \<le> ttl m + card (informed A)"
    using c by (auto simp: covers_def)
  note law = d(4) m(1) fw d(2)
  let ?K = "informed (A(n := s'))"
  have K: "?K = insert n (informed A)" using informed_update [OF d(3) learns [OF law]] .
  have card: "card (informed A) \<le> card ?K" unfolding K by (rule card_mono) auto
  have fresh: "card ?K = Suc (card (informed A))" if "\<not> known (A n)"
  proof -
    have "n \<notin> informed A" using that by (simp add: informed_def)
    then show ?thesis unfolding K by simp
  qed
  have old: "\<forall>(p, m') \<in> set (without i fl). valid m' \<and> T \<le> ttl m' + card ?K"
    using c card fl by (fastforce simp: covers_def)
  have new: "\<forall>(p, m') \<in> set out. valid m' \<and> T \<le> ttl m' + card ?K"
  proof (cases "out = []")
    case False
    then have nk: "\<not> known (A n)" "0 < ttl m" using sends [OF d(4,5,2)] spent [OF law] by auto
    from floods [OF law this] fresh [OF nk(1)] m(2) show ?thesis by fastforce
  qed simp
  have cover: "T < card ?K \<or> (src \<in> ?K \<or> src \<in> fst ` set (without i fl @ out)) \<and>
      (\<forall>q \<in> ?K. \<forall>p \<in> set (nbrs q). p \<in> ?K \<or> p \<in> fst ` set (without i fl @ out))"
  proof (cases "T < card (informed A) \<or> \<not> known (A n) \<and> ttl m = 0")
    case True
    with card m(2) fresh show ?thesis by fastforce
  next
    case False
    then have past: "src \<in> informed A \<or> src \<in> fst ` set fl"
      "\<forall>q \<in> informed A. \<forall>p \<in> set (nbrs q). p \<in> informed A \<or> p \<in> fst ` set fl"
      using c by (auto simp: covers_def)
    have still: "p \<in> ?K \<or> p \<in> fst ` set (without i fl @ out)" if "p \<in> informed A \<or> p \<in> fst ` set fl" for p
      using that unfolding K fl by auto
    have "p \<in> ?K \<or> p \<in> fst ` set (without i fl @ out)" if "p \<in> set (nbrs n)" for p
    proof (cases "known (A n)")
      case True
      with past(2) that d(3) still show ?thesis by (auto simp: informed_def)
    next
      case nk: False
      with False have "map fst out = nbrs n" using floods [OF law nk] by simp
      with that show ?thesis by (metis UnI2 image_Un list.set_map set_append)
    qed
    with past still show ?thesis unfolding K by blast
  qed
  from old new have all: "\<forall>(p, m') \<in> set (without i fl @ out). valid m' \<and> T \<le> ttl m' + card ?K" by auto
  from all cover step_ok [OF ok(1), of "Deliver w i"] ok(2) show ?thesis
    unfolding N d(6) by (simp add: covers_def d(6) del: net_step.simps)
qed

lemma run_covers: "net_run h N es N' \<Longrightarrow> lossless fair es \<Longrightarrow> covers T src N \<Longrightarrow> covers T src N'"
proof (induction rule: net_run.induct)
  case (net_next es N' e)
  then obtain w i where "e = Deliver w i" "fair w" by (cases e) (auto simp: lossless_def)
  with net_next show ?case using step_covers [of T src N' i w] by (simp add: lossless_def)
qed simp

text \<open>When the flood is over, every agent that can be reached has the record, if there were hops enough.\<close>

lemma flood_complete:
  assumes run: "net_run h (A, [(src, m)]) es (A', [])" and fairly: "lossless fair es"
    and start: "\<forall>n \<in> V. wf n (A n) \<and> \<not> known (A n)" "src \<in> V" "valid m"
    and hops: "card V \<le> Suc (ttl m)"
    and path: "(src, n) \<in> {(a, b). b \<in> set (nbrs a)}\<^sup>*"
  shows "known (A' n)"
proof -
  have none: "informed A = {}" using start(1) by (auto simp: informed_def)
  have "covers (ttl m) src (A, [(src, m)])"
    using start valid_good [OF start(3)] by (auto simp: covers_def ok_def none)
  from run_covers [OF run fairly this] have c: "ttl m < card (informed A') \<or>
      src \<in> informed A' \<and> (\<forall>n \<in> informed A'. \<forall>p \<in> set (nbrs n). p \<in> informed A')"
    by (auto simp: covers_def)
  have inV: "n \<in> V" using path start(2) by (induction rule: rtrancl_induct) (auto dest: closed)
  show ?thesis
  proof (cases "ttl m < card (informed A')")
    case True
    have "informed A' = V"
      by (rule card_seteq [OF finite_V]) (use True hops in \<open>auto simp: informed_def\<close>)
    with inV show ?thesis by (auto simp: informed_def)
  next
    case False
    with c have c: "src \<in> informed A'" "\<And>n p. n \<in> informed A' \<Longrightarrow> p \<in> set (nbrs n) \<Longrightarrow> p \<in> informed A'" by auto
    from path c(1) have "n \<in> informed A'" by (induction rule: rtrancl_induct) (auto dest: c(2))
    then show ?thesis by (simp add: informed_def)
  qed
qed

text \<open>One delivery more.\<close>

lemma deliver_next:
  assumes run: "net_run h N es (A, fl)" "lossless fair es" and i: "i < length fl" "fl ! i = (n, m)"
    and law: "wf n (A n)" "valid m" "fair w"
  obtains s' out where "net_run h N (es @ [Deliver w i]) (A(n := s'), without i fl @ out)" "lossless fair (es @ [Deliver w i])"
    "wf n s'" "known s'" "known (A n) \<or> ttl m = 0 \<Longrightarrow> out = []"
    "\<not> known (A n) \<Longrightarrow> 0 < ttl m \<Longrightarrow> map fst out = nbrs n \<and> (\<forall>x \<in> set out. valid (snd x) \<and> Suc (ttl (snd x)) = ttl m)"
proof -
  obtain out s' where h: "h w (A n) m = (out, s')" by force
  note l = law h
  show thesis
  proof (rule that)
    show "net_run h N (es @ [Deliver w i]) (A(n := s'), without i fl @ out)"
      using net_run_snoc [OF run(1), of i w] i h by simp
    show "lossless fair (es @ [Deliver w i])" using run(2) law(3) by (simp add: lossless_def)
    show "wf n s'" using keeps [OF law(1) valid_good [OF law(2)] h] by simp
    show "known s'" by (rule learns [OF l])
    show "known (A n) \<or> ttl m = 0 \<Longrightarrow> out = []"
      using spent [OF l] sends [OF law(1) valid_good [OF law(2)] h] by auto
    show "\<not> known (A n) \<Longrightarrow> 0 < ttl m \<Longrightarrow> map fst out = nbrs n \<and> (\<forall>x \<in> set out. valid (snd x) \<and> Suc (ttl (snd x)) = ttl m)"
      by (rule floods [OF l])
  qed
qed

text \<open>
  The bound on the hops cannot be improved. With one agent more than hops, let the first agent be
  connected to the last but one directly and through a chain of all the others. When the direct message
  is slow, the one along the chain gets there first with no hops left, and the direct one then finds an
  agent that has the record already: the last agent is never told.
\<close>

definition detour :: "(nat \<Rightarrow> 'n) \<Rightarrow> nat \<Rightarrow> bool" where
  "detour f T \<longleftrightarrow> inj_on f {..Suc T} \<and> 0 < T \<and> nbrs (f 0) = [f T, f 1] \<and> (\<forall>i. 1 \<le> i \<and> i \<le> T \<longrightarrow> nbrs (f i) = [f (Suc i)])"

lemma detour_chain:
  assumes d: "detour f T" and start: "\<forall>j \<le> Suc T. wf (f j) (A (f j)) \<and> \<not> known (A (f j))"
    and m: "valid m" "ttl m = T" and fw: "fair w"
  shows "i < T \<Longrightarrow> \<exists>es A' m1 m2. net_run h (A, [(f 0, m)]) es (A', [(f T, m1), (f (Suc i), m2)]) \<and> lossless fair es \<and>
    (\<forall>j \<le> Suc T. wf (f j) (A' (f j)) \<and> (known (A' (f j)) \<longleftrightarrow> j \<le> i)) \<and> valid m1 \<and> valid m2 \<and> ttl m2 + Suc i = T"
proof (induction i)
  case 0
  have r: "net_run h (A, [(f 0, m)]) [] (A, [(f 0, m)])" "lossless fair []" by (auto intro: net_start simp: lossless_def)
  have wf0: "wf (f 0) (A (f 0))" "\<not> known (A (f 0))" using start by auto
  have pos: "0 < ttl m" using m 0 by simp
  from deliver_next [OF r, of 0 "f 0" m w] wf0 m(1) fw pos obtain s' out where
    n: "net_run h (A, [(f 0, m)]) [Deliver w 0] (A(f 0 := s'), out)" "lossless fair [Deliver w 0]" "wf (f 0) s'" "known s'"
      "map fst out = nbrs (f 0)" "\<forall>x \<in> set out. valid (snd x) \<and> Suc (ttl (snd x)) = ttl m"
    by (simp add: without_def) metis
  from n(5) d obtain m1 m2 where out: "out = [(f T, m1), (f 1, m2)]" by (auto simp: detour_def map_eq_Cons_conv)
  have "f j \<noteq> f 0" if "j \<le> Suc T" "j \<noteq> 0" for j using d that by (auto simp: detour_def inj_on_def)
  then have "\<forall>j \<le> Suc T. wf (f j) ((A(f 0 := s')) (f j)) \<and> (known ((A(f 0 := s')) (f j)) \<longleftrightarrow> j \<le> 0)"
    using start n(3,4) by (metis fun_upd_other fun_upd_same le_0_eq)
  moreover have "valid m1" "valid m2" "ttl m2 + Suc 0 = T" using n(6) m(2) by (auto simp: out)
  ultimately show ?case using n(1,2)
    by - (rule exI [of _ "[Deliver w 0]"], rule exI [of _ "A(f 0 := s')"], rule exI [of _ m1], rule exI [of _ m2], simp add: out del: fun_upd_apply)
next
  case (Suc i)
  then obtain es A' m1 m2 where IH: "net_run h (A, [(f 0, m)]) es (A', [(f T, m1), (f (Suc i), m2)])" "lossless fair es"
    "\<forall>j \<le> Suc T. wf (f j) (A' (f j)) \<and> (known (A' (f j)) \<longleftrightarrow> j \<le> i)" "valid m1" "valid m2" "ttl m2 + Suc i = T" by auto
  have wf1: "wf (f (Suc i)) (A' (f (Suc i)))" "\<not> known (A' (f (Suc i)))" using IH(3) Suc.prems by auto
  have pos: "0 < ttl m2" using IH(6) Suc.prems by simp
  from deliver_next [OF IH(1,2), of 1 "f (Suc i)" m2 w] wf1 IH(5) fw pos obtain s' out where
    n: "net_run h (A, [(f 0, m)]) (es @ [Deliver w 1]) (A'(f (Suc i) := s'), [(f T, m1)] @ out)" "lossless fair (es @ [Deliver w 1])"
      "wf (f (Suc i)) s'" "known s'" "map fst out = nbrs (f (Suc i))" "\<forall>x \<in> set out. valid (snd x) \<and> Suc (ttl (snd x)) = ttl m2"
    by (simp add: without_def) metis
  from n(5) d Suc.prems obtain m3 where out: "out = [(f (Suc (Suc i)), m3)]" by (auto simp: detour_def map_eq_Cons_conv)
  have "f j \<noteq> f (Suc i)" if "j \<le> Suc T" "j \<noteq> Suc i" for j using d that Suc.prems by (auto simp: detour_def inj_on_def)
  then have "\<forall>j \<le> Suc T. wf (f j) ((A'(f (Suc i) := s')) (f j)) \<and> (known ((A'(f (Suc i) := s')) (f j)) \<longleftrightarrow> j \<le> Suc i)"
    using IH(3) n(3,4) by (auto simp: le_Suc_eq)
  moreover have "valid m3" "ttl m3 + Suc (Suc i) = T" using n(6) IH(6) by (auto simp: out)
  ultimately show ?case using n(1,2) IH(4)
    by - (rule exI [of _ "es @ [Deliver w 1]"], rule exI [of _ "A'(f (Suc i) := s')"], rule exI [of _ m1], rule exI [of _ m3], simp add: out del: fun_upd_apply)
qed

lemma detour_misses:
  assumes d: "detour f T" and start: "\<forall>j \<le> Suc T. wf (f j) (A (f j)) \<and> \<not> known (A (f j))"
    and m: "valid m" "ttl m = T" and fw: "fair w"
  shows "\<exists>es A'. net_run h (A, [(f 0, m)]) es (A', []) \<and> lossless fair es \<and> \<not> known (A' (f (Suc T)))"
proof -
  have T: "0 < T" and "inj_on f {..Suc T}" using d by (auto simp: detour_def)
  then have inj: "f T \<noteq> f (Suc T)" using inj_on_eq_iff [of f "{..Suc T}" T "Suc T"] by simp
  from detour_chain [OF d start m fw, of "T - 1"] T obtain es A' m1 m2 where
    c: "net_run h (A, [(f 0, m)]) es (A', [(f T, m1), (f T, m2)])" "lossless fair es"
      "wf (f T) (A' (f T))" "\<not> known (A' (f (Suc T)))" "valid m1" "valid m2" "ttl m2 = 0" by auto
  from deliver_next [OF c(1,2), of 1 "f T" m2 w] c(3,6,7) fw obtain s1 where
    n: "net_run h (A, [(f 0, m)]) (es @ [Deliver w 1]) (A'(f T := s1), [(f T, m1)])" "lossless fair (es @ [Deliver w 1])"
      "wf (f T) s1" "known s1" by (auto simp: without_def)
  from deliver_next [OF n(1,2), of 0 "f T" m1 w] n(3,4) c(5) fw obtain s2 where
    "net_run h (A, [(f 0, m)]) (es @ [Deliver w 1, Deliver w 0]) (A'(f T := s1, f T := s2), [])"
      "lossless fair (es @ [Deliver w 1, Deliver w 0])" by (auto simp: without_def)
  moreover have "\<not> known ((A'(f T := s1, f T := s2)) (f (Suc T)))" using inj c(4) by simp
  ultimately show ?thesis by blast
qed

end

end
