(* ===== verification/Propagation.thy ===== *)
theory Propagation
  imports Operator Flooding
begin

text \<open>
  Agents that pass an operator's revocation or silence on (\<open>bowery-agent/src/operator.rs\<close>): what one
  agent does with a relayed command obeys the laws of \<open>Flooding\<close>, so the flood ends whatever the
  network loses, and reaches every agent when nothing is lost and the hop budget is at least the number
  of agents less one. The bound is tight, and the code caps the budget at eight hops.
\<close>

section \<open>An agent as a node\<close>

text \<open>A message on its way is the sender and the command; the replies go to the operator and are left out.\<close>

fun onward :: "fingerprint \<Rightarrow> effect list \<Rightarrow> (fingerprint \<times> fingerprint \<times> operator_command) list" where
  "onward self [] = []"
| "onward self (Reply fp i r # es) = onward self es"
| "onward self (Forward fp cmd # es) = (fp, self, cmd) # onward self es"

definition agent_handle ::
    "crypto \<Rightarrow> op_codec \<Rightarrow> (alert \<Rightarrow> nat) \<Rightarrow> (world, fingerprint, server, fingerprint \<times> operator_command) handler" where
  "agent_handle c k encoded_len w s m =
     (case serve_uni c k encoded_len w s (fst m) (UCommand (snd m)) of
        (Served es, s') \<Rightarrow> (onward (sv_self s) es, s')
      | (_, s') \<Rightarrow> ([], s'))"

lemma onward_append [simp]: "onward self (xs @ ys) = onward self xs @ onward self ys"
  by (induction self xs rule: onward.induct) auto

lemma onward_relay_push:
  "onward self (relay_push s rid t auth b) =
   (case sv_relay s of None \<Rightarrow> []
    | Some ps \<Rightarrow> map (\<lambda>p. (pi_fingerprint p, self, forward_command rid t auth b)) (relay_targets s ps))"
proof -
  have "onward self (map (\<lambda>p. Forward (pi_fingerprint p) x) ps) = map (\<lambda>p. (pi_fingerprint p, self, x)) ps" for x and ps :: "peer_info list"
    by (induction ps) auto
  then show ?thesis by (simp add: relay_push_def split: option.split)
qed

lemma perform_all: "(\<And>n. up n) \<Longrightarrow> perform up i es = es"
  by (induction up i es rule: perform.induct) auto

text \<open>A lost reply cuts the plan short: the forwards that happen are a prefix of those planned.\<close>

lemma onward_perform_push:
  "onward self (perform up n ([Reply a i r] @ relay_push s rid t auth b @ (if q then [Reply a' i' r'] else []))) =
   (if up n then onward self (relay_push s rid t auth b) else [])"
proof -
  have f: "onward self (perform up m (map (\<lambda>p. Forward (pi_fingerprint p) x) ps @ es)) = onward self (map (\<lambda>p. Forward (pi_fingerprint p) x) ps)"
    if "es = [] \<or> es = [Reply a' i' r']" for m x es and ps :: "peer_info list"
    using that by (induction ps) auto
  show ?thesis
    using f [of "[]"] f [of "[Reply a' i' r']"] by (cases q) (simp_all add: relay_push_def split: option.split)
qed

lemma kn_resolve_revocations [simp]: "kn_resolve (kn\<lparr>kn_revocations := x\<rparr>) = kn_resolve kn"
  by (simp add: kn_resolve_def fun_eq_iff)

text \<open>An authorisation of a command is one of every command that differs only in what relays change.\<close>

lemma resolve_onward:
  assumes "resolve_effective_operator c k now ops cmd sender = Inr fp"
    and "oc_forwarded_from_operator cmd \<noteq> []" "oc_command cmd = Some b" "normalise_body b' = normalise_body b"
  shows "resolve_effective_operator c k now ops (forward_command (oc_request_id cmd) t (oc_forwarded_from_operator cmd) b') sender' = Inr fp"
proof -
  have "command_body_digest c k b' = command_body_digest c k b" by (simp add: command_body_digest_def assms(4))
  with assms(1-3) show ?thesis by (simp add: resolve_effective_operator_def forward_command_def)
qed

lemma resolve_later:
  assumes "resolve_effective_operator c k now ops cmd sender = Inr fp" "oc_forwarded_from_operator cmd \<noteq> []"
    and "auth_decode k (oc_forwarded_from_operator cmd) = Some auth"
    and "abs_diff (forward_unix_ms now') (oa_ts_unix_ms auth) \<le> 5 * 60 * 1000"
  shows "resolve_effective_operator c k now' ops cmd sender' = Inr fp"
  using assms unfolding resolve_effective_ok by auto

text \<open>The agents a node relays to, restricted to the network under consideration.\<close>

definition among :: "'n list \<Rightarrow> ('n \<Rightarrow> 'n list) \<Rightarrow> 'n \<Rightarrow> 'n list" where
  "among vs nbrs n = filter (\<lambda>p. p \<in> set vs) (nbrs n)"

definition relays_to :: "server \<Rightarrow> fingerprint list" where
  "relays_to s = (case sv_relay s of None \<Rightarrow> [] | Some ps \<Rightarrow> map pi_fingerprint (relay_targets s ps))"

section \<open>Revocations\<close>

lemma rev_insert_result:
  assumes "rev_insert c k fault partial fs st fp r = (out, fs', st')"
  shows "is_revoked st' q \<longleftrightarrow> is_revoked st q \<or> q = fp"
    and "out = Inr True \<Longrightarrow> \<not> is_revoked st fp"
    and "fault = NoFault \<Longrightarrow> out = Inr (\<not> is_revoked st fp)"
  using assms by (auto simp: rev_insert_def rev_record_def is_revoked_def Let_def split: if_splits)

lemma apply_revocation_result:
  assumes run: "apply_revocation c k w s rs raw = (report, new, s')"
    and dec: "rev_decode (oc_rev k) raw = Some rvk"
    and ver: "verify_revocation c rvk (sv_cluster_id s) (static_resolve (sv_operators s)) = Inr target"
  shows "\<exists>rs'. kn_revocations (sv_kn s') = Some rs' \<and> (\<forall>q. is_revoked rs' q \<longleftrightarrow> is_revoked rs q \<or> q = target)"
    and "q \<noteq> target \<Longrightarrow> kn_resolve (sv_kn s') q = kn_resolve (sv_kn s) q"
    and "new \<Longrightarrow> \<not> is_revoked rs target \<and> kn_resolve (sv_kn s') target = None"
    and "wd_rev_fault w = NoFault \<Longrightarrow> new \<longleftrightarrow> \<not> is_revoked rs target"
    and "sv_self s' = sv_self s" "sv_operators s' = sv_operators s" "sv_cluster_id s' = sv_cluster_id s" "sv_relay s' = sv_relay s"
proof -
  obtain out fs1 rs1 where i: "rev_insert c (oc_rev k) (wd_rev_fault w) (wd_partial w) (sv_fs s) rs target rvk = (out, fs1, rs1)"
    by (cases "rev_insert c (oc_rev k) (wd_rev_fault w) (wd_partial w) (sv_fs s) rs target rvk") auto
  obtain out2 fs2 kn2 where u: "unpin c (oc_kn k) (wd_pin_fault w) (wd_partial w) fs1 ((sv_kn s)\<lparr>kn_revocations := Some rs1\<rparr>) target = (out2, fs2, kn2)"
    by (cases "unpin c (oc_kn k) (wd_pin_fault w) (wd_partial w) fs1 ((sv_kn s)\<lparr>kn_revocations := Some rs1\<rparr>) target") auto
  note r = rev_insert_result [OF i]
  have kn2: "kn_revocations kn2 = Some rs1" "kn_resolve kn2 = (kn_resolve (sv_kn s))(target := None)"
    using unpin_frame(1) [of c "oc_kn k" "wd_pin_fault w" "wd_partial w" fs1 "(sv_kn s)\<lparr>kn_revocations := Some rs1\<rparr>" target]
      unpin_resolve [of c "oc_kn k" "wd_pin_fault w" "wd_partial w" fs1 "(sv_kn s)\<lparr>kn_revocations := Some rs1\<rparr>" target]
    by (simp_all add: u)
  have eq: "new = (out = Inr True)"
      "s' = (if is_ok out then s\<lparr>sv_fs := fs2, sv_kn := kn2\<rparr>
             else s\<lparr>sv_fs := fs1, sv_kn := (sv_kn s)\<lparr>kn_revocations := Some rs1\<rparr>\<rparr>)"
    using run by (auto simp: apply_revocation_def dec ver i u split: sum.splits)
  show "\<exists>rs'. kn_revocations (sv_kn s') = Some rs' \<and> (\<forall>q. is_revoked rs' q \<longleftrightarrow> is_revoked rs q \<or> q = target)"
    using r(1) kn2(1) by (simp add: eq)
  show "q \<noteq> target \<Longrightarrow> kn_resolve (sv_kn s') q = kn_resolve (sv_kn s) q"
    using kn2(2) by (simp add: eq)
  show "new \<Longrightarrow> \<not> is_revoked rs target \<and> kn_resolve (sv_kn s') target = None"
    using r(2) kn2(2) by (simp add: eq)
  show "wd_rev_fault w = NoFault \<Longrightarrow> new \<longleftrightarrow> \<not> is_revoked rs target" using r(3) by (simp add: eq)
  show "sv_self s' = sv_self s" "sv_operators s' = sv_operators s" "sv_cluster_id s' = sv_cluster_id s" "sv_relay s' = sv_relay s"
    by (simp_all add: eq)
qed

text \<open>
  The setting of a flood: every agent trusts the operators who signed, the revocation verifies, and the
  neighbours, the target of the revocation apart, are the agents it relays to.
\<close>

definition rev_wf ::
    "crypto \<Rightarrow> op_codec \<Rightarrow> static_resolver \<Rightarrow> bytes \<Rightarrow> fingerprint \<Rightarrow> (fingerprint \<Rightarrow> fingerprint list) \<Rightarrow> fingerprint \<Rightarrow> server \<Rightarrow> bool" where
  "rev_wf c k ops raw target nbrs n s \<longleftrightarrow> sv_self s = n \<and> sv_operators s = ops \<and> kn_revocations (sv_kn s) \<noteq> None \<and>
     (\<exists>rvk. rev_decode (oc_rev k) raw = Some rvk \<and>
        verify_revocation c rvk (sv_cluster_id s) (static_resolve ops) = Inr target) \<and>
     filter (\<lambda>p. p \<noteq> target) (relays_to s) = nbrs n"

definition rev_message :: "bytes \<Rightarrow> fingerprint \<times> operator_command \<Rightarrow> bool" where
  "rev_message raw m \<longleftrightarrow> (case oc_command (snd m) of Some (CRevoke p) \<Rightarrow> rp_revocation p = raw | _ \<Rightarrow> False)"

definition rev_ttl :: "fingerprint \<times> operator_command \<Rightarrow> nat" where
  "rev_ttl m = (case oc_command (snd m) of Some (CRevoke p) \<Rightarrow> unat (min (rp_ttl p) MAX_REVOKE_TTL) | _ \<Rightarrow> 0)"

text \<open>A message the operator authorised, to be passed on.\<close>

definition authorised :: "crypto \<Rightarrow> op_codec \<Rightarrow> static_resolver \<Rightarrow> operator_authorization \<Rightarrow> fingerprint \<times> operator_command \<Rightarrow> bool" where
  "authorised c k ops auth m \<longleftrightarrow> oc_forwarded_from_operator (snd m) \<noteq> [] \<and>
     auth_decode k (oc_forwarded_from_operator (snd m)) = Some auth \<and>
     (\<exists>now fp. resolve_effective_operator c k now ops (snd m) (fst m) = Inr fp)"

definition rev_valid ::
    "crypto \<Rightarrow> op_codec \<Rightarrow> static_resolver \<Rightarrow> operator_authorization \<Rightarrow> bytes \<Rightarrow> fingerprint \<times> operator_command \<Rightarrow> bool" where
  "rev_valid c k ops auth raw m \<longleftrightarrow> rev_message raw m \<and> authorised c k ops auth m \<and>
     (case oc_command (snd m) of Some (CRevoke p) \<Rightarrow> rp_fanout p | _ \<Rightarrow> False)"

text \<open>A world that lets a push through: the clock is near the authorisation, and nothing fails.\<close>

definition fair_world :: "operator_authorization \<Rightarrow> world \<Rightarrow> bool" where
  "fair_world auth w \<longleftrightarrow> wd_admitted w \<and> (\<forall>n. wd_up w n) \<and> wd_rev_fault w = NoFault \<and> wd_sil_fault w = NoFault \<and>
     abs_diff (forward_unix_ms (wd_now w)) (oa_ts_unix_ms auth) \<le> 5 * 60 * 1000"

lemma serve_uni_cases:
  assumes "agent_handle c k len w s m = (out, s')"
  obtains (idle) "out = []" "s' = s"
  | (run) op es where "run_command c k w s (fst m) op (snd m) = (es, s')" "out = onward (sv_self s) (perform (wd_up w) 0 es)"
proof -
  show thesis
    using assms that
    by (auto simp: agent_handle_def serve_uni_def respond_to_operator_command_def split: if_splits sum.splits prod.splits)
qed

lemma onward_handle_revoke_push:
  assumes "handle_revoke_push c k w s rs op rid push auth t = (es, s')"
  obtains report new where "apply_revocation c k w s rs (rp_revocation push) = (report, new, s')"
    "onward self (perform up 0 es) = (if rp_fanout push \<and> 0 < rp_ttl push \<and> new \<and> up 0
       then map (\<lambda>fp. (fp, self, forward_command rid t auth (CRevoke \<lparr>rp_revocation = rp_revocation push, rp_fanout = True,
              rp_ttl = saturating_sub (rp_ttl push) 1\<rparr>))) (relays_to s')
       else [])"
proof -
  obtain report new s1 where a: "apply_revocation c k w s rs (rp_revocation push) = (report, new, s1)"
    by (cases "apply_revocation c k w s rs (rp_revocation push)") auto
  let ?b = "CRevoke \<lparr>rp_revocation = rp_revocation push, rp_fanout = True, rp_ttl = saturating_sub (rp_ttl push) 1\<rparr>"
  let ?tail = "if rp_fanout push then [Reply op rid (ResRevoke ((revoke_base s)\<lparr>rr_agent_fp := []\<rparr>))] else []"
  have s1: "s1 = s'" using assms a by (auto simp: handle_revoke_push_def)
  have es: "es = [Reply op rid (ResRevoke report)] @
      (if rp_fanout push \<and> 0 < rp_ttl push \<and> new then relay_push s' rid t auth ?b else []) @ ?tail"
    using assms a by (auto simp: handle_revoke_push_def)
  have quiet: "onward self (perform up 0 ([Reply op rid (ResRevoke report)] @ ?tail)) = []" by simp
  show thesis
  proof (rule that [OF a [unfolded s1]])
    show "onward self (perform up 0 es) = (if rp_fanout push \<and> 0 < rp_ttl push \<and> new \<and> up 0
       then map (\<lambda>fp. (fp, self, forward_command rid t auth ?b)) (relays_to s') else [])"
    proof (cases "rp_fanout push \<and> 0 < rp_ttl push \<and> new")
      case True
      then have "onward self (perform up 0 es) = (if up 0 then onward self (relay_push s' rid t auth ?b) else [])"
        using onward_perform_push [where q = True] by (simp only: es) simp
      with True show ?thesis by (auto simp: onward_relay_push relays_to_def o_def split: option.splits)
    next
      case False
      then have "es = [Reply op rid (ResRevoke report)] @ ?tail" by (simp only: es if_False append_Nil)
      with False quiet show ?thesis by auto
    qed
  qed
qed

definition rev_onward :: "server \<Rightarrow> fingerprint \<Rightarrow> operator_command \<Rightarrow> revoke_push \<Rightarrow> operator_command" where
  "rev_onward s n cmd p = forward_command (oc_request_id cmd) (effective_timeout s cmd) (oc_forwarded_from_operator cmd)
     (CRevoke \<lparr>rp_revocation = rp_revocation p, rp_fanout = True, rp_ttl = saturating_sub (min (rp_ttl p) MAX_REVOKE_TTL) 1\<rparr>)"

text \<open>An agent that is sent the revocation does nothing, or applies it and passes it on.\<close>

lemma rev_run_cases:
  assumes p: "oc_command cmd = Some (CRevoke p)" and rs: "kn_revocations (sv_kn s) = Some rs"
    and run: "run_command c k w s sender op cmd = (es, s')"
  obtains (limited) "\<not> wd_admitted w" "onward n (perform (wd_up w) 0 es) = []" "s' = s"
  | (push) report new where "apply_revocation c k w s rs (rp_revocation p) = (report, new, s')"
    "onward n (perform (wd_up w) 0 es) = (if rp_fanout p \<and> 0 < rev_ttl (sender, cmd) \<and> new \<and> wd_up w 0
       then map (\<lambda>fp. (fp, n, rev_onward s n cmd p)) (relays_to s') else [])"
proof (cases "rate_limited w s sender (rp_fanout p)")
  case True
  with run have "es = [Reply op (oc_request_id cmd) (ResError ''rate_limited'')]" "s' = s"
    by (simp_all add: run_command_def p rs Let_def)
  with True show thesis by (intro limited) (simp_all add: rate_limited_def)
next
  case False
  have ttl: "0 < rev_ttl (sender, cmd) \<longleftrightarrow> 0 < min (rp_ttl p) MAX_REVOKE_TTL" by (simp add: rev_ttl_def p word_less_nat_alt)
  let ?push = "p\<lparr>rp_ttl := min (rp_ttl p) MAX_REVOKE_TTL\<rparr>"
  have h: "handle_revoke_push c k w s rs op (oc_request_id cmd) ?push (oc_forwarded_from_operator cmd) (effective_timeout s cmd) = (es, s')"
    using run False by (simp add: run_command_def p rs Let_def)
  show thesis
  proof (rule onward_handle_revoke_push [OF h, of n "wd_up w"])
    fix report new
    assume a: "apply_revocation c k w s rs (rp_revocation ?push) = (report, new, s')" and
      out: "onward n (perform (wd_up w) 0 es) = (if rp_fanout ?push \<and> 0 < rp_ttl ?push \<and> new \<and> wd_up w 0
       then map (\<lambda>fp. (fp, n, forward_command (oc_request_id cmd) (effective_timeout s cmd) (oc_forwarded_from_operator cmd)
          (CRevoke \<lparr>rp_revocation = rp_revocation ?push, rp_fanout = True, rp_ttl = saturating_sub (rp_ttl ?push) 1\<rparr>))) (relays_to s')
       else [])"
    show thesis
    proof (rule push)
      show "apply_revocation c k w s rs (rp_revocation p) = (report, new, s')" using a by simp
      show "onward n (perform (wd_up w) 0 es) = (if rp_fanout p \<and> 0 < rev_ttl (sender, cmd) \<and> new \<and> wd_up w 0
         then map (\<lambda>fp. (fp, n, rev_onward s n cmd p)) (relays_to s') else [])"
        unfolding out ttl rev_onward_def by simp
    qed
  qed
qed

lemma rev_messageE:
  assumes "rev_wf c k ops raw target nbrs n s" "rev_message raw m"
  obtains p rs where "oc_command (snd m) = Some (CRevoke p)" "rp_revocation p = raw" "kn_revocations (sv_kn s) = Some rs" "sv_self s = n"
  using assms by (auto simp: rev_message_def rev_wf_def split: option.splits command_body.splits)

text \<open>The agents an agent relays to are the pinned ones: unpinning one takes it off the list.\<close>

lemma relays_to_unpinned:
  assumes "sv_relay s' = sv_relay s" "sv_self s' = sv_self s"
    and "\<And>q. q \<noteq> target \<Longrightarrow> kn_resolve (sv_kn s') q = kn_resolve (sv_kn s) q"
  shows "filter (\<lambda>p. p \<noteq> target) (relays_to s') = filter (\<lambda>p. p \<noteq> target) (relays_to s)"
    and "kn_resolve (sv_kn s') target = None \<Longrightarrow> relays_to s' = filter (\<lambda>p. p \<noteq> target) (relays_to s)"
proof -
  have same: "(q \<noteq> target \<and> kn_resolve (sv_kn s') q \<noteq> None) = (q \<noteq> target \<and> kn_resolve (sv_kn s) q \<noteq> None)" for q
    using assms(3) by metis
  show "filter (\<lambda>p. p \<noteq> target) (relays_to s') = filter (\<lambda>p. p \<noteq> target) (relays_to s)"
    using assms(1,2) same by (auto simp: relays_to_def relay_targets_def filter_map o_def split: option.split intro!: filter_cong arg_cong [where f = "map _"])
  show "relays_to s' = filter (\<lambda>p. p \<noteq> target) (relays_to s)" if "kn_resolve (sv_kn s') target = None"
  proof -
    have "(kn_resolve (sv_kn s') q \<noteq> None) = (q \<noteq> target \<and> kn_resolve (sv_kn s) q \<noteq> None)" for q
      using that same by metis
    then show ?thesis
      using assms(1,2) by (auto simp: relays_to_def relay_targets_def filter_map o_def split: option.split intro!: filter_cong arg_cong [where f = "map _"])
  qed
qed

lemma rev_apply_laws:
  assumes wf: "rev_wf c k ops raw target nbrs n s" and rs: "kn_revocations (sv_kn s) = Some rs"
    and run: "apply_revocation c k w s rs raw = (report, new, s')"
  shows "rev_wf c k ops raw target nbrs n s'" "kn_revoked (sv_kn s') target"
    and "new \<Longrightarrow> \<not> kn_revoked (sv_kn s) target \<and> relays_to s' = nbrs n"
    and "wd_rev_fault w = NoFault \<Longrightarrow> new \<longleftrightarrow> \<not> kn_revoked (sv_kn s) target"
proof -
  obtain rvk where v: "rev_decode (oc_rev k) raw = Some rvk"
    "verify_revocation c rvk (sv_cluster_id s) (static_resolve (sv_operators s)) = Inr target"
    using wf by (auto simp: rev_wf_def)
  note r = apply_revocation_result [OF run v]
  note t = relays_to_unpinned [OF r(8,5,2)]
  show "rev_wf c k ops raw target nbrs n s'" using wf r(1,5,6,7) t(1) by (auto simp: rev_wf_def)
  show "kn_revoked (sv_kn s') target" using r(1) by (auto simp: kn_revoked_def)
  show "new \<Longrightarrow> \<not> kn_revoked (sv_kn s) target \<and> relays_to s' = nbrs n"
    using r(3) t(2) wf rs by (auto simp: kn_revoked_def rev_wf_def)
  show "wd_rev_fault w = NoFault \<Longrightarrow> new \<longleftrightarrow> \<not> kn_revoked (sv_kn s) target"
    using r(4) rs by (simp add: kn_revoked_def)
qed

text \<open>In a fair world the authorised command is carried out.\<close>

lemma fair_handle:
  assumes auth: "authorised c k ops auth m" and fair: "fair_world auth w" and ops: "sv_operators s = ops"
    and body: "oc_command (snd m) = Some b" "\<And>q. b \<noteq> CSql q"
  obtains op where "agent_handle c k len w s m =
    (case run_command c k w s (fst m) op (snd m) of (es, s') \<Rightarrow> (onward (sv_self s) (perform (wd_up w) 0 es), s'))"
proof -
  obtain now fp where a: "resolve_effective_operator c k now ops (snd m) (fst m) = Inr fp"
    "oc_forwarded_from_operator (snd m) \<noteq> []" "auth_decode k (oc_forwarded_from_operator (snd m)) = Some auth"
    using auth by (auto simp: authorised_def)
  have "resolve_effective_operator c k (wd_now w) ops (snd m) (fst m) = Inr fp"
    by (rule resolve_later [OF a]) (use fair in \<open>simp add: fair_world_def\<close>)
  then show thesis
    using a(2) body ops
    by (intro that [of fp])
       (simp add: agent_handle_def serve_uni_def respond_to_operator_command_def split: prod.split command_body.split)
qed

lemma authorised_onward:
  assumes "authorised c k ops auth m" "oc_command (snd m) = Some b" "normalise_body b' = normalise_body b"
  shows "authorised c k ops auth (n, forward_command (oc_request_id (snd m)) t (oc_forwarded_from_operator (snd m)) b')"
proof -
  obtain now fp where a: "resolve_effective_operator c k now ops (snd m) (fst m) = Inr fp"
    "oc_forwarded_from_operator (snd m) \<noteq> []" "auth_decode k (oc_forwarded_from_operator (snd m)) = Some auth"
    using assms(1) by (auto simp: authorised_def)
  with resolve_onward [OF a(1,2) assms(2,3), of t n] show ?thesis by (auto simp: authorised_def forward_command_def)
qed

lemma capped_ttl:
  fixes t :: u32
  shows "0 < unat (min t MAX_REVOKE_TTL) \<Longrightarrow> Suc (unat (min (saturating_sub (min t MAX_REVOKE_TTL) 1) MAX_REVOKE_TTL)) = unat (min t MAX_REVOKE_TTL)"
  by (auto simp: min_def word_le_nat_alt unat_saturating_sub split: if_splits)

lemma rev_onward_valid:
  assumes valid: "rev_valid c k ops auth raw m" and p: "oc_command (snd m) = Some (CRevoke p)" "rp_revocation p = raw"
    and ttl: "0 < rev_ttl m"
  shows "rev_valid c k ops auth raw (n, rev_onward s n (snd m) p)" "Suc (rev_ttl (n, rev_onward s n (snd m) p)) = rev_ttl m"
proof -
  have "authorised c k ops auth (n, rev_onward s n (snd m) p)"
    unfolding rev_onward_def by (rule authorised_onward) (use valid p in \<open>auto simp: rev_valid_def\<close>)
  then show "rev_valid c k ops auth raw (n, rev_onward s n (snd m) p)"
    by (simp add: rev_valid_def rev_message_def rev_onward_def forward_command_def p)
  show "Suc (rev_ttl (n, rev_onward s n (snd m) p)) = rev_ttl m"
    using ttl capped_ttl [of "rp_ttl p"] by (simp add: rev_ttl_def rev_onward_def forward_command_def p)
qed

lemma rev_handle_fair:
  assumes wf: "rev_wf c k ops raw target nbrs n s" and valid: "rev_valid c k ops auth raw m"
    and fair: "fair_world auth w" and run: "agent_handle c k len w s m = (out, s')"
  obtains p where "rev_wf c k ops raw target nbrs n s'" "kn_revoked (sv_kn s') target"
    "oc_command (snd m) = Some (CRevoke p)" "rp_revocation p = raw"
    "out = (if 0 < rev_ttl m \<and> \<not> kn_revoked (sv_kn s) target then map (\<lambda>fp. (fp, n, rev_onward s n (snd m) p)) (nbrs n) else [])"
proof -
  have "rev_message raw m" "authorised c k ops auth m" using valid by (auto simp: rev_valid_def)
  from rev_messageE [OF wf this(1)] obtain p rs where p: "oc_command (snd m) = Some (CRevoke p)" "rp_revocation p = raw"
    and rs: "kn_revocations (sv_kn s) = Some rs" and n: "sv_self s = n" .
  have fan: "rp_fanout p" using valid p by (simp add: rev_valid_def)
  have ops: "sv_operators s = ops" using wf by (simp add: rev_wf_def)
  obtain op where op: "agent_handle c k len w s m =
      (case run_command c k w s (fst m) op (snd m) of (es, s') \<Rightarrow> (onward (sv_self s) (perform (wd_up w) 0 es), s'))"
    by (rule fair_handle [OF \<open>authorised c k ops auth m\<close> fair ops p(1), of len]) auto
  then obtain es where es: "run_command c k w s (fst m) op (snd m) = (es, s')" "out = onward n (perform (wd_up w) 0 es)"
    using run by (auto simp: n split: prod.splits)
  from p(1) rs es(1) show thesis
  proof (cases rule: rev_run_cases [where n = n])
    case limited
    with fair show thesis by (simp add: fair_world_def)
  next
    case (push report new)
    note laws = rev_apply_laws [OF wf rs push(1) [unfolded p(2)]]
    have "new \<longleftrightarrow> \<not> kn_revoked (sv_kn s) target" "wd_up w 0" using laws(4) fair by (auto simp: fair_world_def)
    with push(2) es(2) laws(3) fan show thesis by (intro that [OF laws(1,2) p]) auto
  qed
qed

interpretation flood: flooding "agent_handle c k len" "set vs" "rev_wf c k ops raw target (among vs nbrs)"
    "\<lambda>s. kn_revoked (sv_kn s) target" "rev_message raw" "among vs nbrs" "fair_world auth" "rev_valid c k ops auth raw" rev_ttl
  for c k len vs ops raw target nbrs auth
proof
  fix n s m w out s'
  assume wf: "rev_wf c k ops raw target (among vs nbrs) n s" and run: "agent_handle c k len w s m = (out, s')"
  { assume msg: "rev_message raw m"
    from rev_messageE [OF wf msg] obtain p rs where p: "oc_command (snd m) = Some (CRevoke p)" "rp_revocation p = raw"
      and rs: "kn_revocations (sv_kn s) = Some rs" and n: "sv_self s = n" .
    have "(rev_wf c k ops raw target (among vs nbrs) n s' \<and> (kn_revoked (sv_kn s) target \<longrightarrow> kn_revoked (sv_kn s') target)) \<and>
      (out = [] \<or> \<not> kn_revoked (sv_kn s) target \<and> kn_revoked (sv_kn s') target \<and> map fst out = among vs nbrs n \<and>
        (\<forall>x \<in> set out. rev_message raw (snd x)))"
    using run proof (cases rule: serve_uni_cases)
      case idle
      with wf show ?thesis by simp
    next
      case (run op es)
      from p(1) rs run(1) show ?thesis
      proof (cases rule: rev_run_cases [where n = n])
        case limited
        with wf run(2) n show ?thesis by simp
      next
        case (push report new)
        note laws = rev_apply_laws [OF wf rs push(1) [unfolded p(2)]]
        have "rev_message raw (n, rev_onward s n (snd m) p)" by (simp add: rev_message_def rev_onward_def forward_command_def p)
        with laws(1-3) push(2) run(2) n show ?thesis by (auto simp: o_def)
      qed
    qed }
  then show "rev_message raw m \<Longrightarrow> rev_wf c k ops raw target (among vs nbrs) n s' \<and> (kn_revoked (sv_kn s) target \<longrightarrow> kn_revoked (sv_kn s') target)"
    and "rev_message raw m \<Longrightarrow> out = [] \<or> \<not> kn_revoked (sv_kn s) target \<and> kn_revoked (sv_kn s') target \<and>
      map fst out = among vs nbrs n \<and> (\<forall>x \<in> set out. rev_message raw (snd x))" by blast+
  assume valid: "rev_valid c k ops auth raw m" and fair: "fair_world auth w"
  from rev_handle_fair [OF wf valid fair run] obtain p where
    h: "kn_revoked (sv_kn s') target" "oc_command (snd m) = Some (CRevoke p)" "rp_revocation p = raw"
      "out = (if 0 < rev_ttl m \<and> \<not> kn_revoked (sv_kn s) target
              then map (\<lambda>fp. (fp, n, rev_onward s n (snd m) p)) (among vs nbrs n) else [])" .
  show "kn_revoked (sv_kn s') target" by (rule h(1))
  show "rev_ttl m = 0 \<Longrightarrow> out = []" using h(4) by simp
  show "map fst out = among vs nbrs n \<and> (\<forall>x \<in> set out. rev_valid c k ops auth raw (snd x) \<and> Suc (rev_ttl (snd x)) = rev_ttl m)"
    if "\<not> kn_revoked (sv_kn s) target" "0 < rev_ttl m"
    using h(4) that rev_onward_valid [OF valid h(2,3) that(2), of n s] by (auto simp: o_def)
qed (auto simp: among_def rev_valid_def)

lemma among_id: "set (nbrs n) \<subseteq> set vs \<Longrightarrow> among vs nbrs n = nbrs n"
  by (simp add: among_def subset_iff filter_id_conv)

lemma rev_wf_among: "set (nbrs n) \<subseteq> set vs \<Longrightarrow> rev_wf c k ops raw target (among vs nbrs) n = rev_wf c k ops raw target nbrs n"
  by (simp add: rev_wf_def fun_eq_iff among_id)

text \<open>
  C9. A revocation does not echo forever. Among finitely many agents that relay to one another, let
  commands with the same revocation be on their way, authorised or not. However the network delivers or
  loses them, whatever fails on the agents, and whatever the hop budgets say, at most as many deliveries
  happen as there are messages now plus links of agents that do not have the revocation yet.
\<close>

theorem revocation_flood_ends:
  assumes run: "net_run (agent_handle c k len) N es N'"
    and agents: "\<forall>n \<in> set vs. rev_wf c k ops raw target nbrs n (fst N n) \<and> set (nbrs n) \<subseteq> set vs"
    and flight: "\<forall>(n, m) \<in> set (snd N). n \<in> set vs \<and> rev_message raw m"
  shows "length es + length (snd N') \<le>
    length (snd N) + (\<Sum>n | n \<in> set vs \<and> \<not> kn_revoked (sv_kn (fst N n)) target. length (nbrs n))"
proof -
  have "flood.ok vs c k ops raw target nbrs N"
    using agents flight by (auto simp: flood.ok_def rev_wf_among)
  from conjunct2 [OF flood.run_bounded [OF run this]]
  have "length es + length (snd N') \<le> length (snd N) + (\<Sum>n \<in> {n \<in> set vs. \<not> kn_revoked (sv_kn (fst N n)) target}. length (among vs nbrs n))"
    by (simp add: flood.budget_def flood.ignorant_def)
  also have "(\<Sum>n \<in> {n \<in> set vs. \<not> kn_revoked (sv_kn (fst N n)) target}. length (among vs nbrs n)) =
      (\<Sum>n | n \<in> set vs \<and> \<not> kn_revoked (sv_kn (fst N n)) target. length (nbrs n))"
    using agents by (intro sum.cong) (auto simp: among_id)
  finally show ?thesis .
qed


text \<open>
  A lost report strands a revocation. When the connection to the operator breaks before the first
  report is through, the agent has applied the revocation but passed it on to nobody; and whatever push
  of the same revocation it receives later, in whatever circumstances, it never will, since it only
  passes on what is new to it. A mesh that hangs on this agent stays uninformed.
\<close>

theorem lost_report_strands_revocation:
  assumes wf: "rev_wf c k ops raw target nbrs n s" and msg: "rev_message raw m"
    and lost: "\<not> wd_up w 0" and run: "agent_handle c k len w s m = (out, s')" and applied: "kn_revoked (sv_kn s') target"
    and later: "rev_message raw m2" "agent_handle c k len w2 s' m2 = (out2, s2)"
    and closed: "set (nbrs n) \<subseteq> set vs"
  shows "out = [] \<and> out2 = []"
proof
  obtain p rs where p: "oc_command (snd m) = Some (CRevoke p)" "rp_revocation p = raw"
    and rs: "kn_revocations (sv_kn s) = Some rs" and n: "sv_self s = n" using rev_messageE [OF wf msg] .
  from run show "out = []"
  proof (cases rule: serve_uni_cases)
    case (run op es)
    from p(1) rs run(1) show ?thesis
      by (cases rule: rev_run_cases [where n = n]) (use run(2) n lost in auto)
  qed
  have wf': "rev_wf c k ops raw target (among vs nbrs) n s" using wf closed by (simp add: rev_wf_among)
  then have "rev_wf c k ops raw target (among vs nbrs) n s'" using flood.keeps [OF _ msg run] by blast
  then show "out2 = []" using flood.sends [OF _ later] applied by blast
qed

section \<open>A mesh of ten agents\<close>

definition hop :: "nat \<Rightarrow> fingerprint" where
  "hop i = replicate 32 (of_nat (100 + i))"

definition hop_nbrs :: "fingerprint \<Rightarrow> fingerprint list" where
  "hop_nbrs n = (let i = unat (hd n) - 100 in if i = 0 then [hop 8, hop 1] else if i \<le> 8 then [hop (Suc i)] else [])"

definition hop_server :: "fingerprint \<Rightarrow> server" where
  "hop_server n = demo_server\<lparr>sv_self := n, sv_relay := Some (map demo_peer (hop_nbrs n)),
     sv_kn := demo_kn\<lparr>kn_state := map (\<lambda>p. (p, \<lparr>p_verifying_key = p, p_pinned_at = 0\<rparr>)) (hop_nbrs n),
       kn_revocations := Some revocations_in_memory\<rparr>\<rparr>"

definition hop_push :: command_body where
  "hop_push = CRevoke \<lparr>rp_revocation = [65], rp_fanout = True, rp_ttl = 1000\<rparr>"

definition hop_auth :: operator_authorization where
  "hop_auth = sign_operator_authorization demo_crypto demo_op_codec (Some 7) demo_operator ''r'' hop_push"

definition hop_codec :: op_codec where
  "hop_codec = demo_op_codec\<lparr>auth_decode := (\<lambda>_. Some hop_auth)\<rparr>"

definition hop_message :: "fingerprint \<times> operator_command" where
  "hop_message = (demo_op_fp, forward_command ''r'' 1000 [2] hop_push)"

lemma hop_index:
  assumes "i \<le> 9"
  shows "unat (hd (hop i)) = 100 + i"
proof -
  have "unat (of_nat (100 + i) :: u8) = (100 + i) mod 2 ^ 8" by (simp only: unat_of_nat) simp
  with assms show ?thesis by (simp add: hop_def del: of_nat_add)
qed

lemma hop_eq: "i \<le> 9 \<Longrightarrow> j \<le> 9 \<Longrightarrow> hop i = hop j \<longleftrightarrow> i = j"
  by (metis hop_index add_left_cancel)

lemma hop_not_target: "i \<le> 9 \<Longrightarrow> hop i \<noteq> demo_agent"
  using hop_index [of i] by (auto simp: demo_agent_def dest: arg_cong [where f = "\<lambda>x. unat (hd x)"])

lemma hop_nbrs: "i \<le> 9 \<Longrightarrow> hop_nbrs (hop i) = (if i = 0 then [hop 8, hop 1] else if i \<le> 8 then [hop (Suc i)] else [])"
  by (simp add: hop_nbrs_def hop_index)

lemma hop_resolves: "\<exists>fp. resolve_effective_operator demo_crypto hop_codec (Some 9) \<lparr>keys = demo_trusted\<rparr> (snd hop_message) sender = Inr fp"
proof -
  have dig: "command_body_digest demo_crypto hop_codec b = command_body_digest demo_crypto demo_op_codec b" for b
    by (simp add: command_body_digest_def hop_codec_def)
  have f: "oa_operator_fp hop_auth = demo_op_fp" "oa_ts_unix_ms hop_auth = 7" "oa_request_id hop_auth = ''r''"
    "oa_command_digest hop_auth = command_body_digest demo_crypto demo_op_codec hop_push"
    "oa_signature hop_auth = sign demo_crypto demo_operator (oa_signing_input demo_op_fp 7 ''r''
       (command_body_digest demo_crypto demo_op_codec hop_push))"
    by (simp_all add: hop_auth_def sign_operator_authorization_def demo_op_fp_def forward_unix_ms_def u64_or_max_def Let_def)
  have "length demo_op_fp = 32" "length (oa_command_digest hop_auth) = 32" "length (oa_signature hop_auth) = 64"
    unfolding f by (simp_all add: demo_op_fp_def demo_crypto_ok command_body_digest_def crypto_okD(1) [OF demo_crypto_ok])
  moreover have "static_resolve \<lparr>keys = demo_trusted\<rparr> demo_op_fp = Some (verifying_key demo_crypto demo_operator)"
    by (simp add: static_resolve_def demo_trusted_def demo_op_fp_def)
  moreover have "auth_decode hop_codec [2] = Some hop_auth" by (simp add: hop_codec_def)
  ultimately show ?thesis
    unfolding resolve_effective_ok using f
    by (simp add: hop_message_def forward_command_def dig demo_signature forward_unix_ms_def u64_or_max_def abs_diff_def)
qed

lemma hop_valid: "rev_valid demo_crypto hop_codec \<lparr>keys = demo_trusted\<rparr> hop_auth [65] hop_message" "rev_ttl hop_message = 8"
proof -
  have "authorised demo_crypto hop_codec \<lparr>keys = demo_trusted\<rparr> hop_auth hop_message"
    using hop_resolves [of "fst hop_message"] by (auto simp: authorised_def hop_message_def hop_codec_def forward_command_def)
  then show "rev_valid demo_crypto hop_codec \<lparr>keys = demo_trusted\<rparr> hop_auth [65] hop_message"
    by (simp add: rev_valid_def rev_message_def hop_message_def forward_command_def hop_push_def)
  show "rev_ttl hop_message = 8"
    by (simp add: rev_ttl_def hop_message_def forward_command_def hop_push_def MAX_REVOKE_TTL_def min_def)
qed

lemma hop_fair: "fair_world hop_auth demo_world"
  by (simp add: fair_world_def demo_world_def hop_auth_def sign_operator_authorization_def forward_unix_ms_def u64_or_max_def
      abs_diff_def Let_def)

lemma static_resolve_keys: "static_resolve \<lparr>keys = f\<rparr> = f"
  by (simp add: fun_eq_iff static_resolve_def)

lemma hop_wf:
  assumes "i \<le> 9"
  shows "rev_wf demo_crypto hop_codec \<lparr>keys = demo_trusted\<rparr> [65] demo_agent hop_nbrs (hop i) (hop_server (hop i))"
    and "\<not> kn_revoked (sv_kn (hop_server (hop i))) demo_agent"
proof -
  have "hop i \<notin> set (hop_nbrs (hop i))" "demo_agent \<notin> set (hop_nbrs (hop i))"
    using assms hop_eq hop_not_target by (auto simp: hop_nbrs dest!: sym [of demo_agent])
  moreover have "relays_to (hop_server (hop i)) = hop_nbrs (hop i)"
    using calculation by (auto simp: relays_to_def relay_targets_def hop_server_def demo_server_def kn_resolve_def map_of_map_restrict
        demo_peer_def o_def filter_map filter_id_conv)
  moreover have "filter (\<lambda>p. p \<noteq> demo_agent) (hop_nbrs (hop i)) = hop_nbrs (hop i)"
    using calculation by (auto simp: filter_id_conv)
  ultimately show "rev_wf demo_crypto hop_codec \<lparr>keys = demo_trusted\<rparr> [65] demo_agent hop_nbrs (hop i) (hop_server (hop i))"
    using demo_rev_ok static_resolve_keys [of demo_trusted]
    by (simp add: rev_wf_def hop_server_def demo_server_def hop_codec_def demo_op_codec_def demo_rev_codec_def)
  show "\<not> kn_revoked (sv_kn (hop_server (hop i))) demo_agent"
    by (simp add: kn_revoked_def hop_server_def revocations_in_memory_def)
qed

lemma hop_detour: "flood.detour vs hop_nbrs hop 8" if "set vs = hop ` {..9}" for vs
proof -
  have "inj_on hop {..Suc 8}" using hop_eq by (auto simp: inj_on_def)
  moreover have "among vs hop_nbrs (hop i) = hop_nbrs (hop i)" if "i \<le> 9" for i
    by (rule among_id) (use that \<open>set vs = hop ` {..9}\<close> in \<open>auto simp: hop_nbrs\<close>)
  ultimately show ?thesis by (auto simp: flood.detour_def hop_nbrs)
qed

lemma hop_agents: "set (map hop [0..<10]) = hop ` {..9}"
proof -
  have "{0..<10} = {..9 :: nat}" by auto
  then show ?thesis by (simp only: set_map set_upt)
qed

lemma hop_closed: "i \<le> 9 \<Longrightarrow> set (hop_nbrs (hop i)) \<subseteq> hop ` {..9}"
  by (auto simp: hop_nbrs)

text \<open>
  Eight hops are not enough for ten agents. There is a mesh of ten agents in which an authorised
  push with a budget of a thousand hops, delivered without any loss or failure, leaves an agent without
  the revocation, although relaying links lead to it in two hops: a detour of eight hops arrives first
  at its only neighbour and uses the budget up.
\<close>

theorem revocation_can_miss_agent:
  "\<exists>es A'. net_run (agent_handle demo_crypto hop_codec (\<lambda>_. 0)) (hop_server, [(hop 0, hop_message)]) es (A', []) \<and>
     lossless (fair_world hop_auth) es \<and> (hop 0, hop 8) \<in> {(a, b). b \<in> set (hop_nbrs a)} \<and>
     (hop 8, hop 9) \<in> {(a, b). b \<in> set (hop_nbrs a)} \<and> \<not> kn_revoked (sv_kn (A' (hop 9))) demo_agent"
proof -
  let ?vs = "map hop [0..<10]"
  have wf: "rev_wf demo_crypto hop_codec \<lparr>keys = demo_trusted\<rparr> [65] demo_agent (among ?vs hop_nbrs) (hop j) (hop_server (hop j)) \<and>
      \<not> kn_revoked (sv_kn (hop_server (hop j))) demo_agent" if "j \<le> Suc 8" for j
    using that hop_wf [of j] hop_closed [of j] rev_wf_among [of hop_nbrs "hop j" ?vs] by (simp only: hop_agents) simp
  from flood.detour_misses [OF hop_detour [OF hop_agents] _ hop_valid hop_fair, where A = hop_server and target = demo_agent and len = "\<lambda>_. 0"] wf
  obtain es A' where "net_run (agent_handle demo_crypto hop_codec (\<lambda>_. 0)) (hop_server, [(hop 0, hop_message)]) es (A', [])"
    "lossless (fair_world hop_auth) es" "\<not> kn_revoked (sv_kn (A' (hop (Suc 8)))) demo_agent" by blast
  then show ?thesis by (auto simp: hop_nbrs)
qed

text \<open>The theorems on this mesh, and on the part of it that two agents form.\<close>

theorem revocation_flood_ends_witness:
  "\<not> (\<exists>es N'. net_run (agent_handle demo_crypto hop_codec (\<lambda>_. 0)) (hop_server, [(hop 0, hop_message)]) es N' \<and> 12 \<le> length es)"
proof
  let ?vs = "map hop [0..<10]"
  assume "\<exists>es N'. net_run (agent_handle demo_crypto hop_codec (\<lambda>_. 0)) (hop_server, [(hop 0, hop_message)]) es N' \<and> 12 \<le> length es"
  then obtain es N' where run: "net_run (agent_handle demo_crypto hop_codec (\<lambda>_. 0)) (hop_server, [(hop 0, hop_message)]) es N'"
    and long: "12 \<le> length es" by blast
  have agents: "\<forall>n \<in> set ?vs. rev_wf demo_crypto hop_codec \<lparr>keys = demo_trusted\<rparr> [65] demo_agent hop_nbrs n (hop_server n) \<and>
      set (hop_nbrs n) \<subseteq> set ?vs"
    unfolding hop_agents using hop_wf(1) hop_closed by auto
  have flight: "\<forall>(n, m) \<in> set [(hop 0, hop_message)]. n \<in> set ?vs \<and> rev_message [65] m"
    unfolding hop_agents using hop_valid(1) by (auto simp: rev_valid_def)
  have "{n. n \<in> set ?vs \<and> \<not> kn_revoked (sv_kn (hop_server n)) demo_agent} = hop ` {..9}"
    unfolding hop_agents using hop_wf(2) by auto
  moreover have "(\<Sum>n \<in> hop ` {..9}. length (hop_nbrs n)) = 10"
  proof -
    have "(\<Sum>n \<in> hop ` {..9}. length (hop_nbrs n)) = (\<Sum>i \<le> 9. length (hop_nbrs (hop i)))"
      using hop_eq by (subst sum.reindex) (auto simp: inj_on_def)
    also have "\<dots> = (\<Sum>i \<le> 9 :: nat. if i = 0 then 2 else if i \<le> 8 then 1 else 0)" by (rule sum.cong) (auto simp: hop_nbrs)
    also have "\<dots> = 10" by (simp add: numeral_eq_Suc)
    finally show ?thesis .
  qed
  moreover note revocation_flood_ends [OF run, unfolded fst_conv snd_conv, OF agents flight]
  ultimately show False using long by (simp only:) simp
qed


theorem lost_report_strands_revocation_witness:
  "\<exists>s'. kn_revoked (sv_kn s') demo_agent \<and>
     fst (agent_handle demo_crypto hop_codec (\<lambda>_. 0) (demo_world\<lparr>wd_up := (\<lambda>_. False)\<rparr>) (hop_server (hop 0)) hop_message) = [] \<and>
     fst (agent_handle demo_crypto hop_codec (\<lambda>_. 0) demo_world s' hop_message) = []"
proof -
  let ?h = "agent_handle demo_crypto hop_codec (\<lambda>_. 0)" and ?w = "demo_world\<lparr>wd_up := (\<lambda>_. False)\<rparr>"
  let ?s = "hop_server (hop 0)" and ?c = demo_crypto and ?ops = "\<lparr>keys = demo_trusted\<rparr>"
  have wf: "rev_wf ?c hop_codec ?ops [65] demo_agent hop_nbrs (hop 0) ?s" using hop_wf(1) [of 0] by simp
  have msg: "rev_message [65] hop_message" using hop_valid(1) by (simp add: rev_valid_def)
  obtain out s' where run: "?h ?w ?s hop_message = (out, s')" by force
  obtain p rs where p: "oc_command (snd hop_message) = Some (CRevoke p)" "rp_revocation p = [65]"
    and rs: "kn_revocations (sv_kn ?s) = Some rs" and n: "sv_self ?s = hop 0" using rev_messageE [OF wf msg] .
  obtain op where op: "resolve_effective_operator ?c hop_codec (Some 9) ?ops (snd hop_message) (fst hop_message) = Inr op"
    using hop_resolves by blast
  have ops: "sv_operators ?s = ?ops" "wd_now ?w = Some 9" "oc_forwarded_from_operator (snd hop_message) = [2]" "wd_admitted ?w"
    by (simp_all add: hop_server_def demo_server_def demo_world_def hop_message_def forward_command_def)
  obtain es where es: "run_command ?c hop_codec ?w ?s (fst hop_message) op (snd hop_message) = (es, s')"
    using run op ops p(1) by (auto simp: agent_handle_def serve_uni_def respond_to_operator_command_def simp del: resolve_effective_ok split: prod.splits)
  from p(1) rs es have revoked: "kn_revoked (sv_kn s') demo_agent"
  proof (cases rule: rev_run_cases [where n = "hop 0"])
    case (push report new)
    from rev_apply_laws(2) [OF wf rs push(1) [unfolded p(2)]] show ?thesis .
  qed (use ops in simp)
  obtain out2 s2 where run2: "?h demo_world s' hop_message = (out2, s2)" by force
  have lost: "\<not> wd_up ?w 0" by simp
  have "out = [] \<and> out2 = []"
    by (rule lost_report_strands_revocation [OF wf msg lost run revoked msg run2, of "hop_nbrs (hop 0)"]) simp
  with run run2 revoked show ?thesis by (intro exI [of _ s']) simp
qed

end
