(* ===== verification/Events.thy ===== *)
theory Events
  imports Prelude
begin

text \<open>
  What the sensors report, \<open>crates/bowery-events/src/lib.rs\<close>. Times are nanoseconds since the epoch on
  the wall clock and may lie before it; an address is identified with the text the standard library
  prints for it, which differs for different addresses.
\<close>

type_synonym u16 = "16 word"
type_synonym ip_addr = string

record process_exec =
  ev_pid :: u32
  ev_ppid :: u32
  ev_parent_comm :: string
  ev_uid :: u32
  ev_comm :: string
  ev_exe_path :: "string option"
  ev_args :: "string list"
  ev_ts :: int

record fork_event =
  fk_parent_pid :: u32
  fk_child_pid :: u32
  fk_ts :: int

record ptrace_event =
  pte_pid :: u32
  pte_comm :: string
  pte_target_pid :: u32
  pte_request :: u32
  pte_ts :: int

record module_load =
  ml_pid :: u32
  ml_comm :: string
  ml_name :: string
  ml_taints :: u32
  ml_ts :: int

record process_exit =
  ex_pid :: u32
  ex_exit_code :: "32 word"
  ex_ts :: int

record file_open =
  fo_pid :: u32
  fo_comm :: string
  fo_path :: string
  fo_flags :: u32
  fo_truncated :: bool
  fo_sensitive_read :: bool
  fo_ts :: int

datatype net_direction = Outbound | Inbound
datatype net_family = V4 | V6

record network_connect =
  nc_pid :: u32
  nc_comm :: string
  nc_family :: net_family
  nc_daddr :: ip_addr
  nc_local_addr :: ip_addr
  nc_dport :: u16
  nc_local_port :: u16
  nc_direction :: net_direction
  nc_ts :: int

datatype file_op = FModify | FAttrib | FDelete | FMove | FCreate

record file_change =
  fc_path :: string
  fc_op :: file_op
  fc_ts :: int

datatype event =
    ProcessExec process_exec
  | ProcessExit process_exit
  | FileOpen file_open
  | NetworkConnect network_connect
  | FileChange file_change
  | ModuleLoad module_load
  | Ptrace ptrace_event
  | Fork fork_event

definition direction_label :: "net_direction \<Rightarrow> string" where
  "direction_label d = (case d of Outbound \<Rightarrow> ''out'' | Inbound \<Rightarrow> ''in'')"

definition TAINT_OOT :: u32 where "TAINT_OOT = push_bit 12 1"
definition TAINT_UNSIGNED :: u32 where "TAINT_UNSIGNED = push_bit 13 1"

definition is_untrusted :: "module_load \<Rightarrow> bool" where
  "is_untrusted m \<longleftrightarrow> and (ml_taints m) (or TAINT_OOT TAINT_UNSIGNED) \<noteq> 0"

definition taint_reason :: "module_load \<Rightarrow> string option" where
  "taint_reason m =
     (case (and (ml_taints m) TAINT_OOT \<noteq> 0, and (ml_taints m) TAINT_UNSIGNED \<noteq> 0) of
        (True, True) \<Rightarrow> Some ''built out of tree AND unsigned''
      | (True, False) \<Rightarrow> Some ''built out of tree''
      | (False, True) \<Rightarrow> Some ''unsigned''
      | (False, False) \<Rightarrow> None)"

fun event_pid :: "event \<Rightarrow> u32" where
  "event_pid (ProcessExec e) = ev_pid e"
| "event_pid (ProcessExit e) = ex_pid e"
| "event_pid (FileOpen e) = fo_pid e"
| "event_pid (NetworkConnect e) = nc_pid e"
| "event_pid (ModuleLoad e) = ml_pid e"
| "event_pid (Ptrace e) = pte_pid e"
| "event_pid (Fork e) = fk_child_pid e"
| "event_pid (FileChange e) = 0"

fun event_timestamp :: "event \<Rightarrow> int" where
  "event_timestamp (ProcessExec e) = ev_ts e"
| "event_timestamp (ProcessExit e) = ex_ts e"
| "event_timestamp (FileOpen e) = fo_ts e"
| "event_timestamp (NetworkConnect e) = nc_ts e"
| "event_timestamp (ModuleLoad e) = ml_ts e"
| "event_timestamp (Ptrace e) = pte_ts e"
| "event_timestamp (Fork e) = fk_ts e"
| "event_timestamp (FileChange e) = fc_ts e"

lemma untrusted_has_reason: "is_untrusted m \<longleftrightarrow> taint_reason m \<noteq> None"
  by (auto simp: is_untrusted_def taint_reason_def bit.conj_disj_distrib or_eq_0_iff split: bool.splits)

end
