(* ===== verification/Corroborate.thy ===== *)
theory Corroborate
  imports Events Inbox Seen Enrollment
begin

text \<open>
  Asking other hosts to account for an observation: the messages and their checks
  (\<open>crates/bowery-whisper/src/corroborate.rs\<close>, \<open>bowery-proto\<close>), and the engine of the agent
  (\<open>crates/bowery-agent/src/corroboration/mod.rs\<close>, \<open>stats.rs\<close>) that takes claims, finds who can answer
  them, counts the answers and raises or lowers an alert. The kinds of claims are in \<open>Claims\<close>.
  Times are milliseconds since the epoch; \<open>ip\<close> gives the address of a peer's socket address.
\<close>

section \<open>Messages\<close>

datatype corroboration = CUnspecified | Corroborated | Denied | CRefused | Habitual

definition corroboration_code :: "corroboration \<Rightarrow> 32 word" where
  "corroboration_code x = (case x of CUnspecified \<Rightarrow> 0 | Corroborated \<Rightarrow> 1 | Denied \<Rightarrow> 2 | CRefused \<Rightarrow> 3 | Habitual \<Rightarrow> 4)"

record corroboration_query =
  cq_query_id :: string
  cq_kind :: string
  cq_deadline_unix_ms :: u64
  cq_window_start_unix_ms :: u64
  cq_window_end_unix_ms :: u64
  cq_subject :: "attribute list"

record corroboration_answer =
  ca_query_id :: string
  ca_kind :: string
  ca_outcome :: "32 word"
  ca_evidence :: "attribute list"
  ca_reason :: string

definition corroboration_of :: "corroboration_answer \<Rightarrow> corroboration" where
  "corroboration_of a =
     (if ca_outcome a = 1 then Corroborated else if ca_outcome a = 2 then Denied else if ca_outcome a = 3 then CRefused
      else if ca_outcome a = 4 then Habitual else CUnspecified)"

definition attribute_new :: "string \<Rightarrow> string \<Rightarrow> attribute" where
  "attribute_new k v = \<lparr>at_key = k, at_value = v\<rparr>"

definition attribute_value :: "attribute list \<Rightarrow> string \<Rightarrow> string option" where
  "attribute_value attrs key = map_option at_value (find (\<lambda>a. at_key a = key) attrs)"

datatype query_rejection = NoQueryId | NoKind | QueryExpired | InvertedWindow | TooManyAttributes

definition MAX_SUBJECT_ATTRIBUTES :: nat where "MAX_SUBJECT_ATTRIBUTES = 32"

text \<open>\<open>query_id\<close> is what the random generator returned, in hexadecimal.\<close>

definition build_query :: "string \<Rightarrow> u64 \<Rightarrow> string \<Rightarrow> attribute list \<Rightarrow> u64 \<Rightarrow> u64 \<Rightarrow> nat \<Rightarrow> corroboration_query" where
  "build_query query_id now kind subject ws we ttl =
     \<lparr>cq_query_id = query_id, cq_kind = kind, cq_deadline_unix_ms = saturating_add now (u64_or_max ttl),
      cq_window_start_unix_ms = ws, cq_window_end_unix_ms = we, cq_subject = subject\<rparr>"

definition check_query :: "u64 \<Rightarrow> corroboration_query \<Rightarrow> query_rejection + unit" where
  "check_query now q =
     (if cq_query_id q = [] then Inl NoQueryId
      else if cq_kind q = [] then Inl NoKind
      else if MAX_SUBJECT_ATTRIBUTES < length (cq_subject q) then Inl TooManyAttributes
      else if cq_window_end_unix_ms q < cq_window_start_unix_ms q then Inl InvertedWindow
      else if cq_deadline_unix_ms q < now then Inl QueryExpired
      else Inr ())"

definition refuse :: "corroboration_query \<Rightarrow> string \<Rightarrow> corroboration_answer" where
  "refuse q reason = \<lparr>ca_query_id = cq_query_id q, ca_kind = cq_kind q, ca_outcome = corroboration_code CRefused,
     ca_evidence = [], ca_reason = reason\<rparr>"

definition corr_answer :: "corroboration_query \<Rightarrow> corroboration \<Rightarrow> attribute list \<Rightarrow> corroboration_answer" where
  "corr_answer q outcome evidence = \<lparr>ca_query_id = cq_query_id q, ca_kind = cq_kind q,
     ca_outcome = corroboration_code outcome, ca_evidence = evidence, ca_reason = []\<rparr>"

datatype corr_body = BCorroborationAnswer corroboration_answer | BOtherBody string

datatype corr_ask_error =
    CorrTimeout
  | CorrEnvelope env_error
  | CorrTransport
  | CorrUnexpectedBody string
  | CorrMissingBody
  | WrongQueryId
  | WrongKind string string

definition check_corr_answer :: "corroboration_query \<Rightarrow> corr_body option \<Rightarrow> corr_ask_error + corroboration_answer" where
  "check_corr_answer q payload =
     (case payload of
        Some (BCorroborationAnswer a) \<Rightarrow>
          if ca_query_id a \<noteq> cq_query_id q then Inl WrongQueryId
          else if ca_kind a \<noteq> cq_kind q then Inl (WrongKind (cq_kind q) (ca_kind a))
          else Inr a
      | Some (BOtherBody n) \<Rightarrow> Inl (CorrUnexpectedBody n)
      | None \<Rightarrow> Inl CorrMissingBody)"

definition corr_ask ::
    "crypto \<Rightarrow> corr_body option codec \<Rightarrow> ('s \<Rightarrow> fingerprint \<Rightarrow> verifying_key option) \<Rightarrow> u64 option \<Rightarrow> 's verifier
     \<Rightarrow> corroboration_query \<Rightarrow> exchange \<Rightarrow> (corr_ask_error + corroboration_answer) \<times> 's verifier" where
  "corr_ask c k resolve now v q ex =
     (case ex of
        TimedOut \<Rightarrow> (Inl CorrTimeout, v)
      | TransportFailed \<Rightarrow> (Inl CorrTransport, v)
      | GotReply bs \<Rightarrow>
          (case open_envelope c k resolve now v bs of
             (Inl e, v') \<Rightarrow> (Inl (CorrEnvelope e), v')
           | (Inr opened, v') \<Rightarrow> (check_corr_answer q (ve_payload opened), v')))"

text \<open>A failed dial and every failed ask tell nothing.\<close>

definition ask_one ::
    "crypto \<Rightarrow> corr_body option codec \<Rightarrow> ('s \<Rightarrow> fingerprint \<Rightarrow> verifying_key option) \<Rightarrow> u64 option \<Rightarrow> 's verifier
     \<Rightarrow> corroboration_query \<Rightarrow> exchange option \<Rightarrow> corroboration_answer option \<times> 's verifier" where
  "ask_one c k resolve now v q dialled =
     (case dialled of
        None \<Rightarrow> (None, v)
      | Some ex \<Rightarrow> (case corr_ask c k resolve now v q ex of (Inl _, v') \<Rightarrow> (None, v') | (Inr a, v') \<Rightarrow> (Some a, v')))"

section \<open>Claims\<close>

datatype audience = PeerAtAddress ip_addr | Neighbourhood nat

record corr_rule =
  ru_deny_quorum :: nat
  ru_corroboration_clears :: bool

record claim =
  cl_kind :: string
  cl_subject :: "attribute list"
  cl_window_start_unix_ms :: u64
  cl_window_end_unix_ms :: u64
  cl_audience :: audience
  cl_rule :: corr_rule
  cl_dedup_key :: string
  cl_summary :: string
  cl_suspicion :: f32
  cl_supersedes :: "string option"
  cl_explained_suspicion :: f32

definition deny_alerts :: corr_rule where
  "deny_alerts = \<lparr>ru_deny_quorum = 1, ru_corroboration_clears = True\<rparr>"

record corr_tally =
  ty_asked :: nat
  ty_corroborated :: nat
  ty_denied :: nat
  ty_refused :: nat
  ty_no_reply :: nat
  ty_habitual :: nat

definition tally_start :: "nat \<Rightarrow> corr_tally" where
  "tally_start n = \<lparr>ty_asked = n, ty_corroborated = 0, ty_denied = 0, ty_refused = 0, ty_no_reply = 0, ty_habitual = 0\<rparr>"

definition rule_confirms :: "corr_rule \<Rightarrow> corr_tally \<Rightarrow> bool" where
  "rule_confirms r t =
     (if ru_deny_quorum r = 0 then False
      else if ru_corroboration_clears r \<and> 0 < ty_corroborated t then False
      else ru_deny_quorum r \<le> ty_denied t)"

definition tally_record :: "corroboration \<Rightarrow> corr_tally \<Rightarrow> corr_tally" where
  "tally_record x t =
     (case x of
        Corroborated \<Rightarrow> t\<lparr>ty_corroborated := Suc (ty_corroborated t)\<rparr>
      | Denied \<Rightarrow> t\<lparr>ty_denied := Suc (ty_denied t)\<rparr>
      | CRefused \<Rightarrow> t\<lparr>ty_refused := Suc (ty_refused t)\<rparr>
      | Habitual \<Rightarrow> t\<lparr>ty_habitual := Suc (ty_habitual t)\<rparr>
      | CUnspecified \<Rightarrow> t\<lparr>ty_no_reply := Suc (ty_no_reply t)\<rparr>)"

definition to_confirmation :: "corr_tally \<Rightarrow> corr_rule \<Rightarrow> bool \<Rightarrow> alert_confirmation" where
  "to_confirmation t r conf =
     \<lparr>peers_asked = u32_or_max (ty_asked t), peers_unseen = u32_or_max (ty_denied t), peers_seen = u32_or_max (ty_corroborated t),
      peers_no_reply = u32_or_max (ty_no_reply t), peers_refused = u32_or_max (ty_refused t), peers_incomparable = 0,
      peers_familiar = u32_or_max (ty_habitual t), ac_quorum = u32_or_max (ru_deny_quorum r), confirmed = conf\<rparr>"

section \<open>Counters\<close>

record corr_counters =
  ct_raised :: nat
  ct_no_audience :: nat
  ct_deduped :: nat
  ct_shed :: nat
  ct_rounds :: nat
  ct_corroborated :: nat
  ct_denied :: nat
  ct_refused :: nat
  ct_no_reply :: nat
  ct_habitual :: nat

definition counters_zero :: corr_counters where
  "counters_zero = \<lparr>ct_raised = 0, ct_no_audience = 0, ct_deduped = 0, ct_shed = 0, ct_rounds = 0, ct_corroborated = 0,
     ct_denied = 0, ct_refused = 0, ct_no_reply = 0, ct_habitual = 0\<rparr>"

type_synonym corr_stats = "string \<Rightarrow> corr_counters option"

definition stats_with_kinds :: "string list \<Rightarrow> corr_stats" where
  "stats_with_kinds kinds k = (if k \<in> set kinds then Some counters_zero else None)"

definition bump :: "string \<Rightarrow> (corr_counters \<Rightarrow> corr_counters) \<Rightarrow> corr_stats \<Rightarrow> corr_stats" where
  "bump kind f st = st(kind \<mapsto> f (case st kind of None \<Rightarrow> counters_zero | Some c \<Rightarrow> c))"

definition stats_round :: "string \<Rightarrow> corr_tally \<Rightarrow> corr_stats \<Rightarrow> corr_stats" where
  "stats_round kind t =
     bump kind (\<lambda>c. c\<lparr>ct_rounds := Suc (ct_rounds c), ct_corroborated := ct_corroborated c + ty_corroborated t,
       ct_denied := ct_denied c + ty_denied t, ct_refused := ct_refused c + ty_refused t,
       ct_no_reply := ct_no_reply c + ty_no_reply t, ct_habitual := ct_habitual c + ty_habitual t\<rparr>)"

section \<open>The responder's side\<close>

text \<open>\<open>reason\<close> is the text of a rejection.\<close>

type_synonym responder = "fingerprint \<Rightarrow> corroboration_query \<Rightarrow> corroboration_answer"

definition corr_dispatch ::
    "(query_rejection \<Rightarrow> string) \<Rightarrow> u64 \<Rightarrow> (string \<Rightarrow> responder option) \<Rightarrow> fingerprint \<Rightarrow> corroboration_query
     \<Rightarrow> corroboration_answer option" where
  "corr_dispatch reason now by_kind asker q =
     (case check_query now q of
        Inl e \<Rightarrow> (if e = QueryExpired then None else Some (refuse q (reason e)))
      | Inr _ \<Rightarrow>
          (case by_kind (cq_kind q) of
             None \<Rightarrow> Some (refuse q ''unknown kind'')
           | Some handler \<Rightarrow> Some (handler asker q)))"

section \<open>The engine\<close>

record corr_config =
  cc_timeout_ms :: nat
  cc_queue_capacity :: nat
  cc_max_concurrent_rounds :: nat
  cc_dedup_window :: nat
  cc_dedup_entries :: nat

record corr_engine =
  en_queue :: "claim list"
  en_capacity :: nat
  en_shed :: nat
  en_permits :: nat
  en_seen :: recently_seen
  en_stats :: corr_stats

definition engine_spawn :: "corr_config \<Rightarrow> corr_stats \<Rightarrow> corr_engine" where
  "engine_spawn cfg st = \<lparr>en_queue = [], en_capacity = max (cc_queue_capacity cfg) 1, en_shed = 0,
     en_permits = max (cc_max_concurrent_rounds cfg) 1,
     en_seen = seen_new (cc_dedup_window cfg) (cc_dedup_entries cfg), en_stats = st\<rparr>"

definition raise_claim :: "claim \<Rightarrow> corr_engine \<Rightarrow> bool \<times> corr_engine" where
  "raise_claim cl en =
     (let en1 = en\<lparr>en_stats := bump (cl_kind cl) (\<lambda>c. c\<lparr>ct_raised := Suc (ct_raised c)\<rparr>) (en_stats en)\<rparr> in
      if length (en_queue en1) < en_capacity en1 then (True, en1\<lparr>en_queue := en_queue en1 @ [cl]\<rparr>)
      else (False, en1\<lparr>en_stats := bump (cl_kind cl) (\<lambda>c. c\<lparr>ct_shed := Suc (ct_shed c)\<rparr>) (en_stats en1),
        en_shed := Suc (en_shed en1)\<rparr>))"

definition resolve_audience ::
    "(string \<Rightarrow> ip_addr) \<Rightarrow> audience \<Rightarrow> peer_info list \<Rightarrow> fingerprint \<Rightarrow> (fingerprint \<Rightarrow> bool) \<Rightarrow> peer_info list" where
  "resolve_audience ip aud mesh local_fp is_pinned =
     (let eligible = filter (\<lambda>p. pi_fingerprint p \<noteq> local_fp \<and> is_pinned (pi_fingerprint p)) mesh in
      case aud of
        PeerAtAddress addr \<Rightarrow> filter (\<lambda>p. ip (pi_whisper_addr p) = addr) eligible
      | Neighbourhood limit \<Rightarrow> take limit eligible)"

text \<open>
  One turn of the loop: the next claim is taken, and either dropped or given to a round with its
  targets. \<open>now\<close> is the monotonic clock of the set of handled keys.
\<close>

definition engine_turn ::
    "(string \<Rightarrow> ip_addr) \<Rightarrow> peer_info list \<Rightarrow> fingerprint \<Rightarrow> (fingerprint \<Rightarrow> bool) \<Rightarrow> nat \<Rightarrow> corr_engine
     \<Rightarrow> (claim \<times> peer_info list) option \<times> corr_engine" where
  "engine_turn ip mesh local_fp is_pinned now en =
     (case en_queue en of
        [] \<Rightarrow> (None, en)
      | cl # rest \<Rightarrow>
          let en1 = en\<lparr>en_queue := rest\<rparr>; targets = resolve_audience ip (cl_audience cl) mesh local_fp is_pinned in
          if targets = []
          then (None, en1\<lparr>en_stats := bump (cl_kind cl) (\<lambda>c. c\<lparr>ct_no_audience := Suc (ct_no_audience c)\<rparr>) (en_stats en1)\<rparr>)
          else case check_and_record_seen now (cl_kind cl) (cl_dedup_key cl) (en_seen en1) of
            (new, seen) \<Rightarrow>
              let en2 = en1\<lparr>en_seen := seen\<rparr> in
              if \<not> new
              then (None, en2\<lparr>en_stats := bump (cl_kind cl) (\<lambda>c. c\<lparr>ct_deduped := Suc (ct_deduped c)\<rparr>) (en_stats en2)\<rparr>)
              else if en_permits en2 = 0 then (None, en2)
              else (Some (cl, targets), en2\<lparr>en_permits := en_permits en2 - 1\<rparr>))"

section \<open>A round\<close>

text \<open>Which kinds there are, and their rules in the coverage map.\<close>

definition KIND_FILE_ACCESS_CLAIM :: string where "KIND_FILE_ACCESS_CLAIM = ''file.access''"
definition KIND_INBOUND_CLAIM :: string where "KIND_INBOUND_CLAIM = ''net.inbound_connect''"

definition corr_KINDS :: "string list" where
  "corr_KINDS = [KIND_FILE_ACCESS_CLAIM, KIND_INBOUND_CLAIM]"

definition rule_id_for_kind :: "string \<Rightarrow> string" where
  "rule_id_for_kind kind =
     (if kind = KIND_FILE_ACCESS_CLAIM then ''corroborate.file_access'' else ''corroborate.net_inbound_connect'')"

definition corr_rationale :: "claim \<Rightarrow> corr_tally \<Rightarrow> string" where
  "corr_rationale cl t =
     cl_summary cl @ '' '' @ em_dash @ '' '' @ dec (ty_denied t) @ '' of '' @ dec (ty_asked t) @ '' peer'' @
     (if ty_asked t = 1 then [] else ''s'') @ '' asked have no record of it'' @
     (if 0 < ty_refused t then '', '' @ dec (ty_refused t) @ '' declined to answer'' else []) @
     (if 0 < ty_no_reply t then '', '' @ dec (ty_no_reply t) @ '' did not reply'' else [])"

definition explained_rationale :: "claim \<Rightarrow> corr_tally \<Rightarrow> string" where
  "explained_rationale cl t =
     cl_summary cl @ '' '' @ em_dash @ '' but '' @ dec (ty_corroborated t) @ '' of '' @ dec (ty_asked t) @
     '' peers asked report the same, so this is how this fleet behaves rather than something this host is doing alone''"

text \<open>The answers in the order of the peers asked; \<open>None\<close> is a peer that told nothing.\<close>

definition count_answer :: "corroboration_answer option \<Rightarrow> corr_tally \<Rightarrow> corr_tally" where
  "count_answer a t =
     (case a of None \<Rightarrow> t\<lparr>ty_no_reply := Suc (ty_no_reply t)\<rparr> | Some x \<Rightarrow> tally_record (corroboration_of x) t)"

definition round_tally :: "corroboration_answer option list \<Rightarrow> corr_tally" where
  "round_tally answers = fold count_answer answers (tally_start (length answers))"

definition first_evidence :: "corroboration_answer option list \<Rightarrow> attribute list" where
  "first_evidence answers =
     (case find (\<lambda>e. e \<noteq> []) (map ca_evidence (filter (\<lambda>x. corroboration_of x = Corroborated) (List.map_filter id answers))) of
        None \<Rightarrow> [] | Some e \<Rightarrow> e)"

record round_outcome =
  ro_kind :: string
  ro_query_id :: string
  ro_dedup_key :: string
  ro_tally :: corr_tally
  ro_confirmed :: bool
  ro_evidence :: "attribute list"

record round_host =
  rh_originator_fp :: fingerprint
  rh_backend :: string

text \<open>
  What a round leaves behind: the inbox, the counters, the episodes whose alert was announced with its
  score, the episode handed to the model, and the outcome. \<open>now1\<close> and \<open>now2\<close> read the clock when an alert
  is built and when it is stored.
\<close>

record round_result =
  rr_inbox :: inbox
  rr_stats :: corr_stats
  rr_emitted :: "(string \<times> f32) list"
  rr_model :: "string option"
  rr_outcome :: round_outcome

definition corr_episode :: "claim \<Rightarrow> string \<Rightarrow> string" where
  "corr_episode cl query_id = ''corr-'' @ cl_kind cl @ ''-'' @ query_id"

definition confirmed_alert :: "round_host \<Rightarrow> u64 \<Rightarrow> claim \<Rightarrow> string \<Rightarrow> corr_tally \<Rightarrow> alert" where
  "confirmed_alert h now cl query_id t =
     builder_confirmation (to_confirmation t (cl_rule cl) True)
       (builder_raw now (rh_originator_fp h) (rh_backend h) (rule_id_for_kind (cl_kind cl)) (corr_episode cl query_id)
         (cl_suspicion cl) (corr_rationale cl t))"

definition explained_alert :: "round_host \<Rightarrow> u64 \<Rightarrow> claim \<Rightarrow> string \<Rightarrow> corr_tally \<Rightarrow> alert" where
  "explained_alert h now cl ep t =
     builder_confirmation (to_confirmation t (cl_rule cl) False)
       (builder_raw now (rh_originator_fp h) (rh_backend h) (rule_id_for_kind (cl_kind cl)) ep
         (cl_explained_suspicion cl) (explained_rationale cl t))"

definition append_and_tell :: "u64 \<Rightarrow> alert \<Rightarrow> f32 \<Rightarrow> inbox \<Rightarrow> (string \<times> f32) list \<times> inbox" where
  "append_and_tell now a susp ib =
     (case inbox_append now a ib of (r, ib') \<Rightarrow> (if stored r then [(al_episode_id a, susp)] else [], ib'))"

definition finish_corr_round ::
    "round_host \<Rightarrow> u64 \<Rightarrow> u64 \<Rightarrow> claim \<Rightarrow> string \<Rightarrow> corroboration_answer option list \<Rightarrow> inbox \<Rightarrow> corr_stats \<Rightarrow> round_result" where
  "finish_corr_round h now1 now2 cl query_id answers ib st =
     (let t = round_tally answers;
          st1 = stats_round (cl_kind cl) t st;
          conf = rule_confirms (cl_rule cl) t;
          (em1, ib1) = (if conf then append_and_tell now2 (confirmed_alert h now1 cl query_id t) (cl_suspicion cl) ib else ([], ib));
          (em2, ib2) = (case cl_supersedes cl of
             Some ep \<Rightarrow>
               if \<not> conf \<and> 0 < ty_corroborated t
               then append_and_tell now2 (explained_alert h now1 cl ep t) (cl_explained_suspicion cl) ib1 else ([], ib1)
           | None \<Rightarrow> ([], ib1));
          answered = ty_corroborated t + ty_denied t + ty_refused t + ty_habitual t
      in \<lparr>rr_inbox = ib2, rr_stats = st1, rr_emitted = em1 @ em2,
          rr_model = (if 0 < answered then cl_supersedes cl else None),
          rr_outcome = \<lparr>ro_kind = cl_kind cl, ro_query_id = query_id, ro_dedup_key = cl_dedup_key cl, ro_tally = t,
            ro_confirmed = conf, ro_evidence = first_evidence answers\<rparr>\<rparr>)"

definition claim_query :: "string \<Rightarrow> u64 \<Rightarrow> nat \<Rightarrow> claim \<Rightarrow> corroboration_query" where
  "claim_query query_id now timeout cl =
     build_query query_id now (cl_kind cl) (cl_subject cl) (cl_window_start_unix_ms cl) (cl_window_end_unix_ms cl) timeout"

definition window_around :: "u64 \<Rightarrow> int \<Rightarrow> nat \<Rightarrow> u64 \<times> u64" where
  "window_around now at_ns half_ms =
     (let at_ms = (if at_ns < 0 \<or> 2 ^ 64 \<le> at_ns div 1000000 then now else word_of_int (at_ns div 1000000));
          half = (if half_ms < 2 ^ 64 then word_of_nat half_ms else 0)
      in (saturating_sub at_ms half, saturating_add at_ms half))"

section \<open>Counting\<close>

lemma corroboration_roundtrip [simp]: "corroboration_of (corr_answer q x ev) = x"
  by (cases x) (simp_all add: corroboration_of_def corr_answer_def corroboration_code_def)

lemma corroboration_refuse [simp]: "corroboration_of (refuse q r) = CRefused"
  by (simp add: corroboration_of_def refuse_def corroboration_code_def)

definition says :: "corroboration \<Rightarrow> corroboration_answer option \<Rightarrow> bool" where
  "says x a = (case a of None \<Rightarrow> x = CUnspecified | Some b \<Rightarrow> corroboration_of b = x)"

definition how_many :: "corroboration \<Rightarrow> corroboration_answer option list \<Rightarrow> nat" where
  "how_many x as = length (filter (says x) as)"

lemma fold_count_answer:
  "fold count_answer as t =
     t\<lparr>ty_corroborated := ty_corroborated t + how_many Corroborated as, ty_denied := ty_denied t + how_many Denied as,
       ty_refused := ty_refused t + how_many CRefused as, ty_no_reply := ty_no_reply t + how_many CUnspecified as,
       ty_habitual := ty_habitual t + how_many Habitual as\<rparr>"
proof (induction as arbitrary: t)
  case (Cons a as)
  then show ?case
    by (cases a; cases "corroboration_of (the a)") (simp_all add: how_many_def count_answer_def says_def tally_record_def)
qed (simp add: how_many_def)

lemma round_tally_eq:
  "round_tally as = \<lparr>ty_asked = length as, ty_corroborated = how_many Corroborated as, ty_denied = how_many Denied as,
     ty_refused = how_many CRefused as, ty_no_reply = how_many CUnspecified as, ty_habitual = how_many Habitual as\<rparr>"
  by (simp add: round_tally_def fold_count_answer tally_start_def)

lemma how_many_total:
  "how_many Corroborated as + how_many Denied as + how_many CRefused as + how_many CUnspecified as + how_many Habitual as = length as"
proof (induction as)
  case (Cons a as)
  then show ?case
    by (cases a; cases "corroboration_of (the a)") (simp_all add: how_many_def says_def)
qed (simp add: how_many_def)

lemma how_many_pos: "0 < how_many x as \<longleftrightarrow> (\<exists>a \<in> set as. says x a)"
  by (simp add: how_many_def filter_empty_conv)

lemma ro_tally_finish [simp]: "ro_tally (rr_outcome (finish_corr_round h n1 n2 cl qid as ib st)) = round_tally as"
  by (simp add: finish_corr_round_def Let_def case_prod_beta)

lemma ro_confirmed_finish [simp]:
  "ro_confirmed (rr_outcome (finish_corr_round h n1 n2 cl qid as ib st)) = rule_confirms (cl_rule cl) (round_tally as)"
  by (simp add: finish_corr_round_def Let_def case_prod_beta)

lemma rule_confirms_answers:
  "rule_confirms r (round_tally as) \<longleftrightarrow>
     0 < ru_deny_quorum r \<and> (ru_corroboration_clears r \<longrightarrow> how_many Corroborated as = 0) \<and> ru_deny_quorum r \<le> how_many Denied as"
  by (auto simp: rule_confirms_def round_tally_eq)

lemma finish_alerts:
  "(rr_emitted (finish_corr_round h n1 n2 cl qid as ib st), rr_inbox (finish_corr_round h n1 n2 cl qid as ib st)) =
     (if rule_confirms (cl_rule cl) (round_tally as)
      then append_and_tell n2 (confirmed_alert h n1 cl qid (round_tally as)) (cl_suspicion cl) ib
      else case cl_supersedes cl of
        Some ep \<Rightarrow> (if 0 < how_many Corroborated as
          then append_and_tell n2 (explained_alert h n1 cl ep (round_tally as)) (cl_explained_suspicion cl) ib else ([], ib))
      | None \<Rightarrow> ([], ib))"
  by (simp add: finish_corr_round_def Let_def case_prod_beta round_tally_eq split: option.splits)

lemma append_and_tell_emits: "length (fst (append_and_tell now a susp ib)) \<le> 1"
  by (simp add: append_and_tell_def split: prod.split)

text \<open>
  Silence is never evidence. A round confirms its claim exactly if its rule asks for denials at all, no
  peer corroborated when the rule says that clears it, and at least as many peers as the quorum answered
  with a denial; the counts it reports partition the peers asked, and peers that did not answer, refused,
  answered unintelligibly or do the same on their own schedule are in none of the two counts that decide.
  The inbox changes only if the round confirmed or a peer corroborated a claim that may revise an alert.
\<close>

theorem round_decides_by_denials:
  "let res = finish_corr_round h now1 now2 cl query_id answers ib st; t = ro_tally (rr_outcome res) in
     (ro_confirmed (rr_outcome res) \<longleftrightarrow>
        0 < ru_deny_quorum (cl_rule cl) \<and> (ru_corroboration_clears (cl_rule cl) \<longrightarrow> how_many Corroborated answers = 0) \<and>
        ru_deny_quorum (cl_rule cl) \<le> how_many Denied answers) \<and>
     ty_asked t = length answers \<and> ty_denied t = how_many Denied answers \<and> ty_corroborated t = how_many Corroborated answers \<and>
     ty_corroborated t + ty_denied t + ty_refused t + ty_no_reply t + ty_habitual t = ty_asked t \<and>
     (rr_inbox res \<noteq> ib \<longrightarrow>
        ro_confirmed (rr_outcome res) \<or> (cl_supersedes cl \<noteq> None \<and> 0 < how_many Corroborated answers)) \<and>
     length (rr_emitted res) \<le> 1"
proof -
  define res where "res = finish_corr_round h now1 now2 cl query_id answers ib st"
  have al: "(rr_emitted res, rr_inbox res) =
     (if rule_confirms (cl_rule cl) (round_tally answers)
      then append_and_tell now2 (confirmed_alert h now1 cl query_id (round_tally answers)) (cl_suspicion cl) ib
      else case cl_supersedes cl of
        Some ep \<Rightarrow> (if 0 < how_many Corroborated answers
          then append_and_tell now2 (explained_alert h now1 cl ep (round_tally answers)) (cl_explained_suspicion cl) ib else ([], ib))
      | None \<Rightarrow> ([], ib))" unfolding res_def by (rule finish_alerts)
  have "length (rr_emitted res) \<le> 1"
    using arg_cong[OF al, of fst] append_and_tell_emits by (auto split: if_splits option.splits)
  moreover have "rr_inbox res \<noteq> ib \<longrightarrow>
      rule_confirms (cl_rule cl) (round_tally answers) \<or> (cl_supersedes cl \<noteq> None \<and> 0 < how_many Corroborated answers)"
    using arg_cong[OF al, of snd] by (auto split: if_splits option.splits)
  ultimately show ?thesis
    using how_many_total[of answers] rule_confirms_answers[of "cl_rule cl" answers]
    by (simp add: Let_def res_def round_tally_eq)
qed

definition demo_claim :: claim where
  "demo_claim = \<lparr>cl_kind = KIND_INBOUND_CLAIM, cl_subject = [], cl_window_start_unix_ms = 0, cl_window_end_unix_ms = 10,
     cl_audience = PeerAtAddress ''10.0.0.1'', cl_rule = deny_alerts, cl_dedup_key = ''k'', cl_summary = [], cl_suspicion = Fin 1,
     cl_supersedes = None, cl_explained_suspicion = Fin 0\<rparr>"

definition demo_round :: "corroboration_answer option list \<Rightarrow> round_result" where
  "demo_round answers = finish_corr_round \<lparr>rh_originator_fp = [1], rh_backend = []\<rparr> 5 5 demo_claim ''q'' answers
     (inbox_new 2 1000) (\<lambda>_. None)"

theorem round_decides_by_denials_witness:
  "ro_confirmed (rr_outcome (demo_round [Some (corr_answer (claim_query ''q'' 0 5 demo_claim) Denied []), None])) \<and>
   \<not> ro_confirmed (rr_outcome (demo_round [Some (refuse (claim_query ''q'' 0 5 demo_claim) []), None])) \<and>
   rr_inbox (demo_round [Some (refuse (claim_query ''q'' 0 5 demo_claim) []), None]) = inbox_new 2 1000"
  using round_decides_by_denials[of "\<lparr>rh_originator_fp = [1], rh_backend = []\<rparr>" 5 5 demo_claim "''q''"
      "[Some (corr_answer (claim_query ''q'' 0 5 demo_claim) Denied []), None]" "inbox_new 2 1000" "\<lambda>_. None"]
    round_decides_by_denials[of "\<lparr>rh_originator_fp = [1], rh_backend = []\<rparr>" 5 5 demo_claim "''q''"
      "[Some (refuse (claim_query ''q'' 0 5 demo_claim) []), None]" "inbox_new 2 1000" "\<lambda>_. None"]
  unfolding demo_round_def[symmetric] by (auto simp: Let_def how_many_def says_def demo_claim_def deny_alerts_def)

section \<open>The engine's losses\<close>

lemma bump_same [simp]: "bump k f st k = Some (f (case st k of None \<Rightarrow> counters_zero | Some c \<Rightarrow> c))"
  by (simp add: bump_def)

text \<open>
  A question that was never asked can silence its repeats. When all permits are taken, a claim that
  somebody could answer is dropped after its key was recorded: no counter moves, and while the key lives
  the same claim is dropped as a repeat, even when permits are free again.
\<close>

theorem unasked_claim_is_deduped:
  assumes "en_queue en = [cl]" "en_permits en = 0"
    and "resolve_audience ip (cl_audience cl) mesh local_fp is_pinned \<noteq> []"
    and "seen_wf (en_seen en)" "Suc (length (sn_seen (en_seen en))) < sn_max_entries (en_seen en)"
    and "fst (check_and_record_seen now (cl_kind cl) (cl_dedup_key cl) (en_seen en))"
    and "now' - now < sn_ttl (en_seen en)"
    and "engine_turn ip mesh local_fp is_pinned now en = (r, en1)"
  shows "r = None \<and> en_stats en1 = en_stats en \<and>
    fst (engine_turn ip mesh local_fp is_pinned now' (en1\<lparr>en_queue := [cl], en_permits := free\<rparr>)) = None"
proof -
  define s where "s = snd (check_and_record_seen now (cl_kind cl) (cl_dedup_key cl) (en_seen en))"
  have cr: "check_and_record_seen now (cl_kind cl) (cl_dedup_key cl) (en_seen en) = (True, s)"
    using assms(6) by (simp add: s_def prod_eq_iff)
  have en1: "r = None" "en1 = en\<lparr>en_queue := [], en_seen := s\<rparr>"
    using assms(1-3,8) cr by (simp_all add: engine_turn_def Let_def)
  have s: "map_of (sn_seen s) (cl_kind cl, cl_dedup_key cl) = Some now" "sn_ttl s = sn_ttl (en_seen en)"
    "sn_max_entries s = sn_max_entries (en_seen en)"
    using cr by (auto simp: check_and_record_seen_eq update_conv')
  have "length (seen_kept now (en_seen en)) \<le> length (sn_seen (en_seen en))"
    using assms(5) by (simp add: seen_kept_roomy)
  then have "length (sn_seen s) \<le> Suc (length (sn_seen (en_seen en)))"
    using cr le_trans[OF update_length_le[of "(cl_kind cl, cl_dedup_key cl)" now "seen_kept now (en_seen en)"]]
    by (auto simp: check_and_record_seen_eq)
  then have room: "length (sn_seen s) < sn_max_entries s" using assms(5) s(3) by simp
  have "seen_wf s" using check_and_record_wf[OF assms(4)] by (simp add: s_def)
  from check_and_record_repeat[OF this room s(1), of now']
  have "\<not> fst (check_and_record_seen now' (cl_kind cl) (cl_dedup_key cl) s)" using assms(7) s(2) by simp
  then show ?thesis using en1 assms(3) by (auto simp: engine_turn_def Let_def split: prod.splits)
qed

definition demo_engine :: corr_engine where
  "demo_engine = \<lparr>en_queue = [demo_claim], en_capacity = 4, en_shed = 0, en_permits = 0, en_seen = seen_new 100 8,
     en_stats = (\<lambda>_. None)\<rparr>"

definition demo_mesh_peer :: peer_info where
  "demo_mesh_peer = \<lparr>pi_fingerprint = [7], pi_verifying_key = [], pi_whisper_addr = ''10.0.0.1'', pi_agent_version = [],
     pi_platform = [], pi_role_vector = None, pi_bloom_advert = None, pi_membership_grant = None, pi_log_report = None\<rparr>"

theorem unasked_claim_is_deduped_witness:
  "let (r, en1) = engine_turn id [demo_mesh_peer] [1] (\<lambda>_. True) 5 demo_engine in
     r = None \<and> en_stats en1 = en_stats demo_engine \<and>
     fst (engine_turn id [demo_mesh_peer] [1] (\<lambda>_. True) 50 (en1\<lparr>en_queue := [demo_claim], en_permits := 3\<rparr>)) = None"
proof -
  have "fst (check_and_record_seen 5 (cl_kind demo_claim) (cl_dedup_key demo_claim) (en_seen demo_engine))"
    by (simp add: check_and_record_seen_def seen_new_def demo_engine_def)
  moreover have "resolve_audience id (cl_audience demo_claim) [demo_mesh_peer] [1] (\<lambda>_. True) \<noteq> []"
    by (simp add: resolve_audience_def demo_claim_def demo_mesh_peer_def)
  ultimately show ?thesis
    using unasked_claim_is_deduped[where en = demo_engine and cl = demo_claim and ip = id and mesh = "[demo_mesh_peer]"
        and local_fp = "[1]" and is_pinned = "\<lambda>_. True" and now = 5 and now' = 50 and free = 3]
    by (auto simp: demo_engine_def seen_wf_def seen_new_def split: prod.splits)
qed

end
