(* ===== verification/Eventlog.thy ===== *)
theory Eventlog
  imports Events Baseline
begin

text \<open>
  The history of a host, \<open>crates/bowery-eventlog/src/lib.rs\<close>, and the queue in front of it,
  \<open>crates/bowery-agent/src/eventlog_writer.rs\<close>. The table is the list of its rows in the order of their
  sequence numbers; every operation is what its SQL statements do to that list, and a transaction that
  fails changes nothing. Opening and migrating the database file is left to SQLite. Stored integers are
  64-bit and signed.
\<close>

section \<open>Rows\<close>

definition KIND_EXEC :: string where "KIND_EXEC = ''exec''"
definition KIND_EXIT :: string where "KIND_EXIT = ''exit''"
definition KIND_CONNECT :: string where "KIND_CONNECT = ''connect''"
definition KIND_FILE_OPEN :: string where "KIND_FILE_OPEN = ''file_open''"
definition KIND_FILE_CHANGE :: string where "KIND_FILE_CHANGE = ''file_change''"
definition KIND_FILE_ACCESS :: string where "KIND_FILE_ACCESS = ''file_access''"
definition KIND_MODULE_LOAD :: string where "KIND_MODULE_LOAD = ''module_load''"
definition KIND_PTRACE :: string where "KIND_PTRACE = ''ptrace''"

record event_row =
  er_ts_unix_ms :: int
  er_kind :: string
  er_pid :: "int option"
  er_ppid :: "int option"
  er_uid :: "int option"
  er_comm :: "string option"
  er_exe_path :: "string option"
  er_args :: "string option"
  er_exit_code :: "int option"
  er_net_family :: "string option"
  er_dst_addr :: "string option"
  er_dst_port :: "int option"
  er_local_port :: "int option"
  er_local_addr :: "string option"
  er_direction :: "string option"
  er_path :: "string option"
  er_file_op :: "string option"
  er_open_flags :: "int option"

definition I64_MAX :: int where "I64_MAX = 2 ^ 63 - 1"

definition system_time_to_unix_ms :: "int \<Rightarrow> int" where
  "system_time_to_unix_ms ts = (if ts < 0 then 0 else let ms = ts div 1000000 in if ms \<le> I64_MAX then ms else 0)"

definition blank_row :: "int \<Rightarrow> event_row" where
  "blank_row ts = \<lparr>er_ts_unix_ms = ts, er_kind = KIND_EXEC, er_pid = None, er_ppid = None, er_uid = None, er_comm = None,
     er_exe_path = None, er_args = None, er_exit_code = None, er_net_family = None, er_dst_addr = None, er_dst_port = None,
     er_local_port = None, er_local_addr = None, er_direction = None, er_path = None, er_file_op = None, er_open_flags = None\<rparr>"

fun join_args :: "string list \<Rightarrow> string" where
  "join_args [] = []"
| "join_args [a] = a"
| "join_args (a # b # as) = a @ '' '' @ join_args (b # as)"

definition family_label :: "net_family \<Rightarrow> string" where
  "family_label f = (case f of V4 \<Rightarrow> ''v4'' | V6 \<Rightarrow> ''v6'')"

definition file_op_label :: "file_op \<Rightarrow> string" where
  "file_op_label x = (case x of FModify \<Rightarrow> ''modify'' | FAttrib \<Rightarrow> ''attrib'' | FDelete \<Rightarrow> ''delete'' | FMove \<Rightarrow> ''move''
     | FCreate \<Rightarrow> ''create'')"

text \<open>The mark of a shortened path is the ellipsis, three bytes in UTF-8.\<close>

definition ELLIPSIS :: string where "ELLIPSIS = [CHR 0xE2, CHR 0x80, CHR 0xA6]"

definition row_from_event :: "event \<Rightarrow> event_row" where
  "row_from_event ev =
     (let r = blank_row (system_time_to_unix_ms (event_timestamp ev)) in
      case ev of
        Fork _ \<Rightarrow> r
      | ProcessExec e \<Rightarrow> r\<lparr>er_kind := KIND_EXEC, er_pid := Some (uint (ev_pid e)), er_ppid := Some (uint (ev_ppid e)),
          er_uid := Some (uint (ev_uid e)), er_comm := Some (ev_comm e), er_exe_path := ev_exe_path e,
          er_args := Some (join_args (ev_args e))\<rparr>
      | ProcessExit e \<Rightarrow> r\<lparr>er_kind := KIND_EXIT, er_pid := Some (uint (ex_pid e)), er_exit_code := Some (sint (ex_exit_code e))\<rparr>
      | NetworkConnect e \<Rightarrow> r\<lparr>er_kind := KIND_CONNECT, er_pid := Some (uint (nc_pid e)),
          er_comm := (if nc_comm e \<noteq> [] then Some (nc_comm e) else None), er_net_family := Some (family_label (nc_family e)),
          er_dst_addr := Some (nc_daddr e), er_dst_port := Some (uint (nc_dport e)), er_local_port := Some (uint (nc_local_port e)),
          er_local_addr := Some (nc_local_addr e), er_direction := Some (direction_label (nc_direction e))\<rparr>
      | FileOpen e \<Rightarrow> r\<lparr>er_kind := KIND_FILE_OPEN, er_pid := Some (uint (fo_pid e)), er_comm := Some (fo_comm e),
          er_path := Some (if fo_truncated e then fo_path e @ ELLIPSIS else fo_path e), er_open_flags := Some (uint (fo_flags e))\<rparr>
      | Ptrace e \<Rightarrow> r\<lparr>er_kind := KIND_PTRACE, er_pid := Some (uint (pte_pid e)), er_comm := Some (pte_comm e),
          er_ppid := Some (uint (pte_target_pid e)), er_open_flags := Some (uint (pte_request e))\<rparr>
      | ModuleLoad e \<Rightarrow> r\<lparr>er_kind := KIND_MODULE_LOAD, er_pid := Some (uint (ml_pid e)), er_comm := Some (ml_comm e),
          er_path := Some (ml_name e), er_open_flags := Some (uint (ml_taints e))\<rparr>
      | FileChange e \<Rightarrow> r\<lparr>er_kind := KIND_FILE_CHANGE, er_path := Some (fc_path e), er_file_op := Some (file_op_label (fc_op e))\<rparr>)"

section \<open>The store\<close>

record event_log =
  elg_rows :: "(nat \<times> event_row) list"
  elg_seq :: nat

definition eventlog_open :: event_log where
  "eventlog_open = \<lparr>elg_rows = [], elg_seq = 0\<rparr>"

definition insert_row :: "event_row \<Rightarrow> event_log \<Rightarrow> event_log" where
  "insert_row r el = el\<lparr>elg_rows := elg_rows el @ [(Suc (elg_seq el), r)], elg_seq := Suc (elg_seq el)\<rparr>"

definition is_fork :: "event \<Rightarrow> bool" where
  "is_fork ev = (case ev of Fork _ \<Rightarrow> True | _ \<Rightarrow> False)"

text \<open>\<open>None\<close> is the error of a failed transaction.\<close>

definition append_batch :: "bool \<Rightarrow> event list \<Rightarrow> event_log \<Rightarrow> nat option \<times> event_log" where
  "append_batch fails evs el =
     (if evs = [] then (Some 0, el)
      else if fails then (None, el)
      else (Some (length evs), fold (\<lambda>ev. insert_row (row_from_event ev)) (filter (\<lambda>ev. \<not> is_fork ev) evs) el))"

record retention =
  rt_max_age_secs :: u64
  rt_max_rows :: u64

definition retention_default :: retention where
  "retention_default = \<lparr>rt_max_age_secs = 7 * 24 * 3600, rt_max_rows = 500000\<rparr>"

definition saturating_mul_1000 :: "u64 \<Rightarrow> u64" where
  "saturating_mul_1000 w = u64_or_max (unat w * 1000)"

definition i64_or :: "int \<Rightarrow> u64 \<Rightarrow> int" where
  "i64_or d w = (if uint w \<le> I64_MAX then uint w else d)"

definition prune_age :: "retention \<Rightarrow> u64 \<Rightarrow> (nat \<times> event_row) list \<Rightarrow> (nat \<times> event_row) list" where
  "prune_age rt now_ms rows =
     (if 0 < rt_max_age_secs rt
      then let cutoff = i64_or I64_MAX (saturating_sub now_ms (saturating_mul_1000 (rt_max_age_secs rt)))
           in filter (\<lambda>(_, r). \<not> er_ts_unix_ms r < cutoff) rows
      else rows)"

text \<open>The row at the offset, counted from the newest, and everything before it is deleted.\<close>

definition prune_rows :: "retention \<Rightarrow> (nat \<times> event_row) list \<Rightarrow> (nat \<times> event_row) list" where
  "prune_rows rt rows =
     (if 0 < rt_max_rows rt
      then let keep = nat (i64_or I64_MAX (rt_max_rows rt)) in
           (if keep < length rows then let s = fst (rev rows ! keep) in filter (\<lambda>(n, _). \<not> n \<le> s) rows else rows)
      else rows)"

definition prune :: "bool \<Rightarrow> retention \<Rightarrow> u64 \<Rightarrow> event_log \<Rightarrow> nat option \<times> event_log" where
  "prune fails rt now_ms el =
     (if fails then (None, el)
      else let rows = prune_rows rt (prune_age rt now_ms (elg_rows el)) in
        (Some (length (elg_rows el) - length rows), el\<lparr>elg_rows := rows\<rparr>))"

record log_stats =
  lst_rows :: nat
  lst_oldest :: "int option"
  lst_newest :: "int option"
  lst_highest_seq :: nat

definition oldest_ts :: "event_log \<Rightarrow> int option" where
  "oldest_ts el = (case map (er_ts_unix_ms \<circ> snd) (elg_rows el) of [] \<Rightarrow> None | t # ts \<Rightarrow> Some (foldl min t ts))"

definition newest_ts :: "event_log \<Rightarrow> int option" where
  "newest_ts el = (case map (er_ts_unix_ms \<circ> snd) (elg_rows el) of [] \<Rightarrow> None | t # ts \<Rightarrow> Some (foldl max t ts))"

definition eventlog_stats :: "event_log \<Rightarrow> log_stats" where
  "eventlog_stats el = \<lparr>lst_rows = length (elg_rows el), lst_oldest = oldest_ts el, lst_newest = newest_ts el, lst_highest_seq = elg_seq el\<rparr>"

definition covers_since :: "bool \<Rightarrow> u64 \<Rightarrow> event_log \<Rightarrow> bool option" where
  "covers_since fails ts el =
     (if fails then None
      else Some (case oldest_ts el of Some oldest \<Rightarrow> (if 0 \<le> oldest then oldest else 0) \<le> uint ts | None \<Rightarrow> False))"

record connection_match =
  cm_ts_unix_ms :: u64
  cm_pid :: u32
  cm_comm :: string
  cm_exe_path :: string

definition str_or_empty :: "string option \<Rightarrow> string" where
  "str_or_empty s = (case s of None \<Rightarrow> [] | Some x \<Rightarrow> x)"

definition match_of :: "event_row \<Rightarrow> connection_match" where
  "match_of r = \<lparr>cm_ts_unix_ms = (if 0 \<le> er_ts_unix_ms r then of_int (er_ts_unix_ms r) else 0),
     cm_pid = (case er_pid r of None \<Rightarrow> 0 | Some p \<Rightarrow> if 0 \<le> p \<and> p < 2 ^ 32 then of_int p else 0),
     cm_comm = str_or_empty (er_comm r), cm_exe_path = str_or_empty (er_exe_path r)\<rparr>"

definition in_span :: "u64 \<Rightarrow> u64 \<Rightarrow> event_row \<Rightarrow> bool" where
  "in_span start stop r \<longleftrightarrow> i64_or 0 start \<le> er_ts_unix_ms r \<and> er_ts_unix_ms r \<le> i64_or I64_MAX stop"

definition find_outbound_to :: "bool \<Rightarrow> string \<Rightarrow> u16 \<Rightarrow> u64 \<Rightarrow> u64 \<Rightarrow> event_log \<Rightarrow> connection_match option option" where
  "find_outbound_to fails addr port start stop el =
     (if fails then None
      else Some (map_option (match_of \<circ> snd) (find (\<lambda>(_, r). er_kind r = KIND_CONNECT \<and> er_direction r = Some ''out'' \<and>
        er_dst_addr r = Some addr \<and> er_dst_port r = Some (uint port) \<and> in_span start stop r) (rev (elg_rows el)))))"

datatype access_evidence = Seen | NotSeen | CannotAttribute

record access_habit =
  ah_count :: nat
  ah_last_unix_ms :: int

definition op_label :: "bool \<Rightarrow> string" where
  "op_label is_read = (if is_read then ''read'' else ''write'')"

definition access_row :: "string \<Rightarrow> string \<Rightarrow> bool \<Rightarrow> event_row \<Rightarrow> bool" where
  "access_row exe path is_read r \<longleftrightarrow> er_kind r = KIND_FILE_ACCESS \<and> er_exe_path r = Some exe \<and> er_path r = Some path \<and>
     er_file_op r = Some (op_label is_read)"

definition file_access_evidence :: "bool \<Rightarrow> string \<Rightarrow> string list \<Rightarrow> string \<Rightarrow> bool \<Rightarrow> u64 \<Rightarrow> u64 \<Rightarrow> event_log \<Rightarrow> access_evidence option" where
  "file_access_evidence fails exe also_exe path is_read start stop el =
     (let rows = map snd (elg_rows el) in
      if fails then None
      else if list_ex (\<lambda>candidate. list_ex (\<lambda>r. access_row candidate path is_read r \<and> in_span start stop r) rows) (exe # also_exe)
      then Some Seen
      else if list_ex (\<lambda>r. er_kind r = KIND_FILE_ACCESS \<and> in_span start stop r) rows then Some NotSeen
      else Some CannotAttribute)"

fun habit_in :: "string list \<Rightarrow> string \<Rightarrow> bool \<Rightarrow> event_row list \<Rightarrow> access_habit option" where
  "habit_in [] path is_read rows = None"
| "habit_in (candidate # cs) path is_read rows =
     (case map er_ts_unix_ms (filter (access_row candidate path is_read) rows) of
        t # ts \<Rightarrow> Some \<lparr>ah_count = Suc (length ts), ah_last_unix_ms = (let l = foldl max t ts in if 0 \<le> l then l else 0)\<rparr>
      | [] \<Rightarrow> habit_in cs path is_read rows)"

definition file_access_habit :: "bool \<Rightarrow> string \<Rightarrow> string list \<Rightarrow> string \<Rightarrow> bool \<Rightarrow> event_log \<Rightarrow> access_habit option option" where
  "file_access_habit fails exe also_exe path is_read el =
     (if fails then None else Some (habit_in (exe # also_exe) path is_read (map snd (elg_rows el))))"

definition record_file_access :: "bool \<Rightarrow> u32 \<Rightarrow> string \<Rightarrow> string \<Rightarrow> string \<Rightarrow> bool \<Rightarrow> int \<Rightarrow> event_log \<Rightarrow> event_log" where
  "record_file_access fails pid comm exe path is_read ts el =
     (if fails then el
      else let ms = (if ts < 0 then 0 else ts div 1000000) in
        insert_row ((blank_row (if ms \<le> I64_MAX then ms else I64_MAX))\<lparr>er_kind := KIND_FILE_ACCESS, er_pid := Some (uint pid),
          er_comm := Some comm, er_exe_path := Some exe, er_path := Some path, er_file_op := Some (op_label is_read)\<rparr>) el)"

section \<open>The queue\<close>

definition MAX_BATCH :: nat where "MAX_BATCH = 512"

record log_writer =
  lw_queue :: "event list"
  lw_capacity :: nat
  lw_dropped :: nat
  lw_failed :: nat
  lw_log :: event_log

definition writer_new :: "nat \<Rightarrow> event_log \<Rightarrow> log_writer" where
  "writer_new capacity el = \<lparr>lw_queue = [], lw_capacity = max capacity 1, lw_dropped = 0, lw_failed = 0, lw_log = el\<rparr>"

definition log_record :: "event \<Rightarrow> log_writer \<Rightarrow> log_writer" where
  "log_record ev w =
     (if lw_capacity w \<le> length (lw_queue w) then w\<lparr>lw_dropped := Suc (lw_dropped w)\<rparr>
      else w\<lparr>lw_queue := lw_queue w @ [ev]\<rparr>)"

definition writer_batch :: "bool \<Rightarrow> log_writer \<Rightarrow> log_writer" where
  "writer_batch fails w =
     (let batch = take MAX_BATCH (lw_queue w); w1 = w\<lparr>lw_queue := drop MAX_BATCH (lw_queue w)\<rparr> in
      case append_batch fails batch (lw_log w1) of
        (Some _, el) \<Rightarrow> w1\<lparr>lw_log := el\<rparr>
      | (None, el) \<Rightarrow> w1\<lparr>lw_failed := lw_failed w1 + length batch, lw_log := el\<rparr>)"

definition writer_maintain :: "bool \<Rightarrow> retention \<Rightarrow> u64 \<Rightarrow> log_writer \<Rightarrow> log_writer" where
  "writer_maintain fails rt now_ms w = w\<lparr>lw_log := snd (prune fails rt now_ms (lw_log w))\<rparr>"

section \<open>What the log still holds\<close>

text \<open>
  A history of a log: the rows of the transactions that succeeded, in their order. Reads do not change it.
\<close>

abbreviation row_ts :: "event_row \<Rightarrow> int" where "row_ts \<equiv> er_ts_unix_ms"

definition rows_of :: "event list \<Rightarrow> event_row list" where
  "rows_of evs = map row_from_event (filter (\<lambda>ev. \<not> is_fork ev) evs)"

definition access_entry :: "u32 \<Rightarrow> string \<Rightarrow> string \<Rightarrow> string \<Rightarrow> bool \<Rightarrow> int \<Rightarrow> event_row" where
  "access_entry pid comm exe path is_read ts =
     (let ms = (if ts < 0 then 0 else ts div 1000000) in
      (blank_row (if ms \<le> I64_MAX then ms else I64_MAX))\<lparr>er_kind := KIND_FILE_ACCESS, er_pid := Some (uint pid),
        er_comm := Some comm, er_exe_path := Some exe, er_path := Some path, er_file_op := Some (op_label is_read)\<rparr>)"

inductive log_history :: "event_row list \<Rightarrow> event_log \<Rightarrow> bool" where
  opened: "log_history [] eventlog_open"
| appended: "log_history h el \<Longrightarrow> log_history (if fails then h else h @ rows_of evs) (snd (append_batch fails evs el))"
| accessed: "log_history h el \<Longrightarrow>
    log_history (if fails then h else h @ [access_entry pid comm exe path is_read ts]) (record_file_access fails pid comm exe path is_read ts el)"
| pruned: "log_history h el \<Longrightarrow> log_history h (snd (prune fails rt now_ms el))"

text \<open>Rows may be appended out of the order of their times, by at most \<open>d\<close> milliseconds.\<close>

definition skewed :: "int \<Rightarrow> event_row list \<Rightarrow> bool" where
  "skewed d h \<longleftrightarrow> sorted_wrt (\<lambda>a b. row_ts a \<le> row_ts b + d) h"

definition log_ok :: "int \<Rightarrow> event_row list \<Rightarrow> event_log \<Rightarrow> bool" where
  "log_ok d h el \<longleftrightarrow> sorted_wrt (\<lambda>a b. fst a < fst b \<and> row_ts (snd a) \<le> row_ts (snd b) + d) (elg_rows el) \<and>
     (\<forall>x \<in> set (elg_rows el). fst x \<le> elg_seq el \<and> snd x \<in> set h) \<and>
     (\<forall>r \<in> set h. r \<in> snd ` set (elg_rows el) \<or> (\<forall>x \<in> set (elg_rows el). row_ts r \<le> row_ts (snd x) + d))"

lemma log_okI [intro?]:
  assumes "sorted_wrt (\<lambda>a b. fst a < fst b \<and> row_ts (snd a) \<le> row_ts (snd b) + d) (elg_rows el)"
    and "\<And>x. x \<in> set (elg_rows el) \<Longrightarrow> fst x \<le> elg_seq el \<and> snd x \<in> set h"
    and "\<And>r x. r \<in> set h \<Longrightarrow> r \<notin> snd ` set (elg_rows el) \<Longrightarrow> x \<in> set (elg_rows el) \<Longrightarrow> row_ts r \<le> row_ts (snd x) + d"
  shows "log_ok d h el"
  using assms unfolding log_ok_def by blast

lemma log_ok_insert:
  assumes ok: "log_ok d h el" and skew: "skewed d (h @ [r])"
  shows "log_ok d (h @ [r]) (insert_row r el)"
proof
  show "sorted_wrt (\<lambda>a b. fst a < fst b \<and> row_ts (snd a) \<le> row_ts (snd b) + d) (elg_rows (insert_row r el))"
    using ok skew by (auto simp: log_ok_def insert_row_def sorted_wrt_append skewed_def less_Suc_eq_le)
next
  show "fst x \<le> elg_seq (insert_row r el) \<and> snd x \<in> set (h @ [r])" if "x \<in> set (elg_rows (insert_row r el))" for x
    using that ok by (auto simp: insert_row_def log_ok_def le_Suc_eq)
next
  show "row_ts q \<le> row_ts (snd x) + d"
    if "q \<in> set (h @ [r])" "q \<notin> snd ` set (elg_rows (insert_row r el))" "x \<in> set (elg_rows (insert_row r el))" for q x
    using that ok skew by (auto simp: insert_row_def log_ok_def skewed_def sorted_wrt_append)
qed

lemma log_ok_inserts:
  "log_ok d h el \<Longrightarrow> skewed d (h @ rs) \<Longrightarrow> log_ok d (h @ rs) (fold insert_row rs el)"
proof (induction rs arbitrary: h el)
  case (Cons r rs)
  have "skewed d (h @ [r])" using Cons.prems(2) by (auto simp: skewed_def sorted_wrt_append)
  then show ?case using Cons.IH[of "h @ [r]"] Cons.prems log_ok_insert by simp
qed simp

lemma log_ok_drop:
  assumes ok: "log_ok d h el"
    and lost: "\<And>x y. x \<in> set (elg_rows el) \<Longrightarrow> y \<in> set (elg_rows el) \<Longrightarrow> \<not> P x \<Longrightarrow> P y \<Longrightarrow>
      row_ts (snd x) \<le> row_ts (snd y) + d"
  shows "log_ok d h (el\<lparr>elg_rows := filter P (elg_rows el)\<rparr>)"
proof
  show "sorted_wrt (\<lambda>a b. fst a < fst b \<and> row_ts (snd a) \<le> row_ts (snd b) + d)
      (elg_rows (el\<lparr>elg_rows := filter P (elg_rows el)\<rparr>))"
    using ok by (simp add: log_ok_def sorted_wrt_filter)
next
  show "fst x \<le> elg_seq (el\<lparr>elg_rows := filter P (elg_rows el)\<rparr>) \<and> snd x \<in> set h"
    if "x \<in> set (elg_rows (el\<lparr>elg_rows := filter P (elg_rows el)\<rparr>))" for x
    using that ok by (simp add: log_ok_def)
next
  fix r x assume r: "r \<in> set h" "r \<notin> snd ` set (elg_rows (el\<lparr>elg_rows := filter P (elg_rows el)\<rparr>))"
    and x: "x \<in> set (elg_rows (el\<lparr>elg_rows := filter P (elg_rows el)\<rparr>))"
  show "row_ts r \<le> row_ts (snd x) + d"
  proof (cases "r \<in> snd ` set (elg_rows el)")
    case True
    then obtain y where "y \<in> set (elg_rows el)" "r = snd y" by blast
    then show ?thesis using r(2) x lost[of y x] by auto
  next
    case False
    then show ?thesis using r(1) x ok unfolding log_ok_def by auto
  qed
qed

lemma sorted_wrt_fst_less:
  assumes "sorted_wrt (\<lambda>a b. fst a < (fst b :: nat) \<and> R a b) xs" "x \<in> set xs" "y \<in> set xs" "fst x < fst y"
  shows "R x y"
proof -
  obtain i j where ij: "i < length xs" "j < length xs" "x = xs ! i" "y = xs ! j"
    using assms(2,3) by (auto simp: in_set_conv_nth)
  have "fst (xs ! j) < fst (xs ! i)" if "j < i" using that assms(1) ij(1) by (simp add: sorted_wrt_iff_nth_less)
  then have "i < j" using assms(4) ij(3,4) by (metis less_asym' nat_neq_iff)
  then show ?thesis using assms(1) ij by (simp add: sorted_wrt_iff_nth_less)
qed

lemma prune_age_filter:
  "\<exists>c. prune_age rt now_ms rows = filter (\<lambda>x. c \<le> row_ts (snd x)) rows \<or> prune_age rt now_ms rows = rows"
  unfolding prune_age_def Let_def not_less split_beta' by auto

lemma log_ok_prune_age:
  assumes "log_ok d h el" "0 \<le> d"
  shows "log_ok d h (el\<lparr>elg_rows := prune_age rt now_ms (elg_rows el)\<rparr>)"
proof -
  obtain c where c: "prune_age rt now_ms (elg_rows el) = filter (\<lambda>x. c \<le> row_ts (snd x)) (elg_rows el) \<or>
      prune_age rt now_ms (elg_rows el) = elg_rows el"
    using prune_age_filter by blast
  have "log_ok d h (el\<lparr>elg_rows := filter (\<lambda>x. c \<le> row_ts (snd x)) (elg_rows el)\<rparr>)"
    using assms by (intro log_ok_drop) auto
  then show ?thesis using c assms(1) by auto
qed

lemma log_ok_prune_rows:
  assumes "log_ok d h el"
  shows "log_ok d h (el\<lparr>elg_rows := prune_rows rt (elg_rows el)\<rparr>)"
proof -
  have "log_ok d h (el\<lparr>elg_rows := filter (\<lambda>x. \<not> fst x \<le> s) (elg_rows el)\<rparr>)" for s
    using assms by (intro log_ok_drop) (auto simp: log_ok_def dest: sorted_wrt_fst_less)
  then show ?thesis using assms unfolding prune_rows_def Let_def split_beta' by simp
qed

lemma log_ok_prune:
  assumes "log_ok d h el" "0 \<le> d"
  shows "log_ok d h (snd (prune fails rt now_ms el))"
  using log_ok_prune_rows[OF log_ok_prune_age[OF assms], of rt rt now_ms] assms(1) by (simp add: prune_def Let_def)

lemma append_batch_rows:
  "snd (append_batch fails evs el) = (if fails then el else fold insert_row (rows_of evs) el)"
  by (simp add: append_batch_def rows_of_def fold_map comp_def)

lemma record_file_access_row:
  "record_file_access fails pid comm exe path is_read ts el =
     (if fails then el else insert_row (access_entry pid comm exe path is_read ts) el)"
  by (simp add: record_file_access_def access_entry_def Let_def)

lemma skewed_prefix: "skewed d (h @ rs) \<Longrightarrow> skewed d h"
  by (simp add: skewed_def sorted_wrt_append)

lemma history_ok:
  assumes "log_history h el" "skewed d h" "0 \<le> d"
  shows "log_ok d h el"
  using assms
proof (induction rule: log_history.induct)
  case opened
  show ?case by (simp add: log_ok_def eventlog_open_def)
next
  case (appended h el fails evs)
  then show ?case using log_ok_inserts skewed_prefix by (auto simp: append_batch_rows split: if_splits)
next
  case (accessed h el fails pid comm exe path is_read ts)
  then show ?case using log_ok_insert skewed_prefix by (auto simp: record_file_access_row split: if_splits)
next
  case (pruned h el fails rt now_ms)
  then show ?case using log_ok_prune by blast
qed

lemma foldl_min_le: "foldl min t ts = (t :: int) \<or> foldl min t ts \<in> set ts"
  by (induction ts arbitrary: t) (auto simp: min_def split: if_splits)

lemma oldest_tsD:
  assumes "oldest_ts el = Some m"
  shows "\<exists>x \<in> set (elg_rows el). row_ts (snd x) = m"
proof (cases "elg_rows el")
  case Nil
  then show ?thesis using assms by (simp add: oldest_ts_def)
next
  case (Cons x xs)
  then have "m = row_ts (snd x) \<or> m \<in> set (map (row_ts \<circ> snd) xs)"
    using assms foldl_min_le[of "row_ts (snd x)" "map (row_ts \<circ> snd) xs"] by (auto simp: oldest_ts_def)
  then show ?thesis using Cons by auto
qed

lemma covers_sinceD:
  assumes "covers_since fails start el = Some True"
  shows "\<exists>x \<in> set (elg_rows el). row_ts (snd x) \<le> uint start"
proof -
  obtain m where m: "oldest_ts el = Some m" "(if 0 \<le> m then m else 0) \<le> uint start"
    using assms by (auto simp: covers_since_def split: if_splits option.splits)
  have "m \<le> uint start" using m(2) uint_ge_0[of start] by (cases "0 \<le> m") (simp, linarith)
  then show ?thesis using oldest_tsD[OF m(1)] by auto
qed

lemma covered_rows_present:
  assumes "log_history h el" "skewed d h" "0 \<le> d" "covers_since fails start el = Some True"
    and "r \<in> set h" "uint start + d < row_ts r"
  shows "r \<in> snd ` set (elg_rows el)"
proof -
  obtain x where "x \<in> set (elg_rows el)" "row_ts (snd x) \<le> uint start" using covers_sinceD[OF assms(4)] by blast
  then show ?thesis using history_ok[OF assms(1-3)] assms(5,6) by (force simp: log_ok_def)
qed

lemma system_time_to_unix_ms_range: "0 \<le> system_time_to_unix_ms t \<and> system_time_to_unix_ms t \<le> I64_MAX"
  by (simp add: system_time_to_unix_ms_def Let_def I64_MAX_def pos_imp_zdiv_nonneg_iff)

lemma row_ts_row_from_event: "row_ts (row_from_event ev) = system_time_to_unix_ms (event_timestamp ev)"
  by (cases ev) (simp_all add: row_from_event_def blank_row_def Let_def)

definition connects_to :: "string \<Rightarrow> u16 \<Rightarrow> event \<Rightarrow> bool" where
  "connects_to addr port ev =
     (case ev of NetworkConnect e \<Rightarrow> nc_direction e = Outbound \<and> nc_daddr e = addr \<and> nc_dport e = port | _ \<Rightarrow> False)"

lemma connects_to_row:
  assumes "connects_to addr port ev"
  shows "\<not> is_fork ev" "er_kind (row_from_event ev) = KIND_CONNECT" "er_direction (row_from_event ev) = Some ''out''"
    "er_dst_addr (row_from_event ev) = Some addr" "er_dst_port (row_from_event ev) = Some (uint port)"
  using assms by (auto simp: connects_to_def is_fork_def row_from_event_def blank_row_def Let_def direction_label_def split: event.splits)

lemma in_spanI:
  assumes "uint start \<le> row_ts r" "row_ts r \<le> uint stop" "row_ts r \<le> I64_MAX"
  shows "in_span start stop r"
  using assms uint_ge_0[of start] by (auto simp: in_span_def i64_or_def)

lemma present_connect_is_found:
  assumes "connects_to addr port ev" "row_from_event ev \<in> snd ` set (elg_rows el)"
    and "uint start \<le> system_time_to_unix_ms (event_timestamp ev)" "system_time_to_unix_ms (event_timestamp ev) \<le> uint stop"
  shows "\<exists>m. find_outbound_to False addr port start stop el = Some (Some m)"
proof -
  have span: "in_span start stop (row_from_event ev)"
    using assms(3,4) system_time_to_unix_ms_range by (intro in_spanI) (simp_all add: row_ts_row_from_event)
  have "find_outbound_to False addr port start stop el \<noteq> Some None"
    using assms(2) connects_to_row[OF assms(1)] span by (fastforce simp: find_outbound_to_def find_None_iff)
  then show ?thesis by (cases "find_outbound_to False addr port start stop el") (auto simp: find_outbound_to_def)
qed

lemma found_connect_is_recorded:
  assumes "find_outbound_to fails addr port start stop el = Some (Some m)"
  shows "\<exists>x \<in> set (elg_rows el). er_kind (snd x) = KIND_CONNECT \<and> er_direction (snd x) = Some ''out'' \<and>
    er_dst_addr (snd x) = Some addr \<and> er_dst_port (snd x) = Some (uint port) \<and> in_span start stop (snd x) \<and> m = match_of (snd x)"
  using assms unfolding find_outbound_to_def split_beta' by (auto split: if_splits dest!: find_Some_member)

section \<open>The way through the queue\<close>

text \<open>
  What was handed to the writer, the history of the log, and the writer. Accesses are recorded without
  the queue.
\<close>

inductive writer_run :: "event list \<Rightarrow> event_row list \<Rightarrow> log_writer \<Rightarrow> bool" where
  started: "log_history h el \<Longrightarrow> writer_run [] h (writer_new capacity el)"
| recorded: "writer_run evs h w \<Longrightarrow> writer_run (evs @ [ev]) h (log_record ev w)"
| written: "writer_run evs h w \<Longrightarrow>
    writer_run evs (if fails then h else h @ rows_of (take MAX_BATCH (lw_queue w))) (writer_batch fails w)"
| maintained: "writer_run evs h w \<Longrightarrow> writer_run evs h (writer_maintain fails rt now_ms w)"
| noted: "writer_run evs h w \<Longrightarrow>
    writer_run evs (if fails then h else h @ [access_entry pid comm exe path is_read ts])
      (w\<lparr>lw_log := record_file_access fails pid comm exe path is_read ts (lw_log w)\<rparr>)"

lemma writer_batch_log: "lw_log (writer_batch fails w) = snd (append_batch fails (take MAX_BATCH (lw_queue w)) (lw_log w))"
  by (simp add: writer_batch_def Let_def split: prod.split option.split)

lemma writer_run_history:
  assumes "writer_run evs h w"
  shows "log_history h (lw_log w)"
  using assms
proof (induction rule: writer_run.induct)
  case (written evs h w fails)
  then show ?case using log_history.appended[of h "lw_log w" fails "take MAX_BATCH (lw_queue w)"] by (simp add: writer_batch_log)
qed (simp_all add: writer_new_def log_record_def writer_maintain_def log_history.accessed log_history.pruned)

lemma rows_of_append [simp]: "rows_of (xs @ ys) = rows_of xs @ rows_of ys"
  by (simp add: rows_of_def)

text \<open>Every event is in the history, in the queue, or counted as lost.\<close>

definition nothing_lost :: "log_writer \<Rightarrow> bool" where
  "nothing_lost w \<longleftrightarrow> lw_dropped w = 0 \<and> lw_failed w = 0"

lemma writer_batch_lost:
  assumes "nothing_lost (writer_batch fails w)"
  shows "nothing_lost w" "fails \<Longrightarrow> lw_queue w = []"
  using assms by (auto simp: nothing_lost_def writer_batch_def append_batch_def MAX_BATCH_def Let_def min_def split: if_splits)

lemma writer_run_complete:
  assumes "writer_run evs h w" "nothing_lost w"
  shows "set (rows_of evs) \<subseteq> set h \<union> set (rows_of (lw_queue w))"
  using assms
proof (induction rule: writer_run.induct)
  case (written evs h w fails)
  have q: "lw_queue (writer_batch fails w) = drop MAX_BATCH (lw_queue w)"
    by (simp add: writer_batch_def Let_def split: prod.split option.split)
  have "set (rows_of (lw_queue w)) = set (rows_of (take MAX_BATCH (lw_queue w))) \<union> set (rows_of (drop MAX_BATCH (lw_queue w)))"
    by (metis append_take_drop_id rows_of_append set_append)
  then show ?case using written writer_batch_lost[OF written.prems] by (auto simp: q)
qed (auto simp: nothing_lost_def log_record_def writer_maintain_def rows_of_def split: if_splits)

lemma recorded_rows_found:
  assumes "writer_run evs h w" "nothing_lost w" "lw_queue w = []"
    and "skewed d h" "0 \<le> d"
    and "ev \<in> set evs" "connects_to addr port ev"
    and "covers_since fails start (lw_log w) = Some True"
    and "uint start + d < system_time_to_unix_ms (event_timestamp ev)" "system_time_to_unix_ms (event_timestamp ev) \<le> uint stop"
  shows "\<exists>m. find_outbound_to False addr port start stop (lw_log w) = Some (Some m)"
proof -
  have "row_from_event ev \<in> set (rows_of evs)"
    using assms(6) connects_to_row(1)[OF assms(7)] by (auto simp: rows_of_def)
  then have "row_from_event ev \<in> set h" using writer_run_complete[OF assms(1,2)] assms(3) by (auto simp: rows_of_def)
  then have "row_from_event ev \<in> snd ` set (elg_rows (lw_log w))"
    using covered_rows_present[OF writer_run_history[OF assms(1)] assms(4,5,8)] assms(9) by (simp add: row_ts_row_from_event)
  then show ?thesis using present_connect_is_found[OF assms(7)] assms(5,9,10) by simp
qed

definition sample_exec :: "int \<Rightarrow> event" where
  "sample_exec ts = ProcessExec \<lparr>ev_pid = 9, ev_ppid = 1, ev_parent_comm = [], ev_uid = 0, ev_comm = ''sh'', ev_exe_path = None,
     ev_args = [], ev_ts = ts\<rparr>"

definition sample_connect :: "int \<Rightarrow> event" where
  "sample_connect ts = NetworkConnect \<lparr>nc_pid = 9, nc_comm = ''sh'', nc_family = V4, nc_daddr = ''10.0.0.2'',
     nc_local_addr = ''10.0.0.1'', nc_dport = 22, nc_local_port = 0, nc_direction = Outbound, nc_ts = ts\<rparr>"

lemmas sample_defs = sample_exec_def sample_connect_def row_from_event_def blank_row_def system_time_to_unix_ms_def I64_MAX_def
  rows_of_def is_fork_def writer_new_def log_record_def writer_batch_def append_batch_def insert_row_def eventlog_open_def MAX_BATCH_def

definition sample_writer :: log_writer where
  "sample_writer = writer_batch False (log_record (sample_connect 5000000) (log_record (sample_exec 1000000) (writer_new 4 eventlog_open)))"

lemma sample_run: "writer_run [sample_exec 1000000, sample_connect 5000000] (rows_of [sample_exec 1000000, sample_connect 5000000]) sample_writer"
proof -
  have "writer_run [sample_exec 1000000, sample_connect 5000000] []
      (log_record (sample_connect 5000000) (log_record (sample_exec 1000000) (writer_new 4 eventlog_open)))"
    using writer_run.recorded[OF writer_run.recorded[OF writer_run.started[OF log_history.opened]]] by simp
  from writer_run.written[OF this, of False] show ?thesis
    by (simp add: sample_writer_def writer_new_def log_record_def MAX_BATCH_def)
qed

section \<open>Retention\<close>

lemma prune_rows_length:
  assumes "log_ok d h el" "0 < rt_max_rows rt" "uint (rt_max_rows rt) \<le> I64_MAX"
  shows "length (prune_rows rt (elg_rows el)) \<le> unat (rt_max_rows rt)"
proof -
  define k where "k = unat (rt_max_rows rt)"
  have k: "nat (i64_or I64_MAX (rt_max_rows rt)) = k" using assms(3) by (simp add: k_def i64_or_def)
  show ?thesis
  proof (cases "k < length (elg_rows el)")
    case True
    define i where "i = length (elg_rows el) - Suc k"
    have i: "rev (elg_rows el) ! k = elg_rows el ! i" "i < length (elg_rows el)" using True by (simp_all add: rev_nth i_def)
    have le: "fst x \<le> fst (elg_rows el ! i)" if x: "x \<in> set (take (Suc i) (elg_rows el))" for x
    proof -
      obtain j where j: "j \<le> i" "x = elg_rows el ! j" using x by (auto simp: in_set_conv_nth less_Suc_eq_le)
      then show ?thesis using assms(1) i(2) by (cases "j = i") (auto simp: log_ok_def sorted_wrt_iff_nth_less less_imp_le)
    qed
    have "filter (\<lambda>x. \<not> fst x \<le> fst (elg_rows el ! i)) (take (Suc i) (elg_rows el) @ drop (Suc i) (elg_rows el)) =
        filter (\<lambda>x. \<not> fst x \<le> fst (elg_rows el ! i)) (drop (Suc i) (elg_rows el))"
      unfolding filter_append using le by simp
    then have "length (prune_rows rt (elg_rows el)) \<le> length (drop (Suc i) (elg_rows el))"
      using assms(2) True i(1) k length_filter_le[of _ "drop (Suc i) (elg_rows el)"] by (simp add: prune_rows_def Let_def split_beta')
    then show ?thesis using True by (simp add: i_def k_def)
  next
    case False
    then show ?thesis using k by (simp add: prune_rows_def k_def)
  qed
qed

lemma prune_is_bounded:
  assumes "log_history h el" "skewed d h" "0 \<le> d" "0 < rt_max_rows rt" "uint (rt_max_rows rt) \<le> I64_MAX"
  shows "length (elg_rows (snd (prune False rt now_ms el))) \<le> unat (rt_max_rows rt)"
  using prune_rows_length[OF log_ok_prune_age[OF history_ok[OF assms(1-3)] assms(3)] assms(4,5), of rt now_ms]
  by (simp add: prune_def Let_def)

text \<open>
  A log can deny what it recorded. When the clock was set back between a connection and the row after
  it, and the row limit then drops the connection, the remaining row makes the log report that it reaches
  back to before the connection, while the search no longer finds it.
\<close>

theorem clock_step_forges_denial:
  fixes now_ms :: u64
  assumes "connects_to addr port ev" "\<not> is_fork later"
    and "system_time_to_unix_ms (event_timestamp later) \<le> uint start"
    and "er_kind (row_from_event later) \<noteq> KIND_CONNECT"
    and "uint start < system_time_to_unix_ms (event_timestamp ev)" "system_time_to_unix_ms (event_timestamp ev) \<le> uint stop"
    and "rt_max_age_secs rt = 0" "rt_max_rows rt = 1"
  defines "el \<equiv> snd (prune False rt now_ms (snd (append_batch False [ev, later] eventlog_open)))"
  shows "covers_since False start el = Some True \<and> find_outbound_to False addr port start stop el = Some None"
proof -
  have "elg_rows el = [(2, row_from_event later)]"
    using assms(2,7,8) connects_to_row(1)[OF assms(1)]
    by (simp add: el_def prune_def append_batch_def insert_row_def eventlog_open_def prune_age_def prune_rows_def i64_or_def
        I64_MAX_def Let_def numeral_2_eq_2)
  then show ?thesis using assms(3,4) system_time_to_unix_ms_range
    by (simp add: covers_since_def oldest_ts_def row_ts_row_from_event find_outbound_to_def)
qed

theorem clock_step_forges_denial_witness:
  "let el = snd (prune False \<lparr>rt_max_age_secs = 0, rt_max_rows = 1\<rparr> 0
       (snd (append_batch False [sample_connect 5000000, sample_exec 1000000] eventlog_open)))
   in covers_since False 2 el = Some True \<and> find_outbound_to False ''10.0.0.2'' 22 2 10 el = Some None"
  unfolding Let_def
  by (rule clock_step_forges_denial) (simp_all add: connects_to_def sample_defs KIND_EXEC_def KIND_CONNECT_def)

end
