(* ===== verification/File_Watch.thy ===== *)
theory File_Watch
  imports Provenance Events
begin

text \<open>
  Which file accesses are findings: the open hook of \<open>bowery-ebpf/src/main.rs\<close>, which ships writes and
  those reads whose path ends like a credential, the decoding in \<open>bowery-ebpf-loader/src/lib.rs\<close>, and
  the watch sets of \<open>bowery-analysis/src/file_watch.rs\<close>. The explanatory texts of the rules are left out.
\<close>

section \<open>The watch sets\<close>

datatype file_watch_category = Persistence | PrivilegeEscalation | Credential | DefenseEvasion

datatype watch_match = MPrefix string | MExact string | MSuffix string

record watch_rule =
  wr_id :: string
  wr_m :: watch_match
  wr_category :: file_watch_category
  wr_severity :: f32
  wr_readers :: "string list"

record file_watch_hit =
  fh_rule_id :: string
  fh_category :: file_watch_category
  fh_severity :: f32
  fh_sanctioned_readers :: "string list"

definition category_label :: "file_watch_category \<Rightarrow> string" where
  "category_label c = (case c of Persistence \<Rightarrow> ''persistence'' | PrivilegeEscalation \<Rightarrow> ''privilege-escalation''
     | Credential \<Rightarrow> ''credential-access'' | DefenseEvasion \<Rightarrow> ''defense-evasion'')"

definition file_rule :: "string \<Rightarrow> watch_match \<Rightarrow> file_watch_category \<Rightarrow> f32 \<Rightarrow> string list \<Rightarrow> watch_rule" where
  "file_rule i m c s rs = \<lparr>wr_id = i, wr_m = m, wr_category = c, wr_severity = s, wr_readers = rs\<rparr>"

definition NOBODY :: "string list" where "NOBODY = []"

definition PASSWORD_TOOLS :: "string list" where
  "PASSWORD_TOOLS = [
     ''/usr/sbin/sshd'', ''/usr/lib/openssh/sshd-session'', ''/usr/lib/openssh/sshd-auth'',
     ''/usr/sbin/unix_chkpwd'', ''/usr/bin/unix_chkpwd'', ''/usr/sbin/unix_update'', ''/bin/su'', ''/usr/bin/su'',
     ''/bin/login'', ''/usr/bin/login'', ''/usr/bin/passwd'', ''/usr/bin/sudo'', ''/usr/bin/chsh'',
     ''/usr/bin/chfn'', ''/usr/bin/gpasswd'', ''/usr/bin/newgrp'', ''/usr/sbin/chpasswd'', ''/usr/sbin/usermod'',
     ''/usr/sbin/useradd'', ''/usr/sbin/userdel'', ''/usr/sbin/groupadd'', ''/usr/sbin/groupdel'',
     ''/usr/sbin/vipw'', ''/usr/sbin/pwck'', ''/usr/sbin/grpck'', ''/usr/sbin/cron'', ''/usr/bin/systemd-sysusers'',
     ''/usr/lib/systemd/systemd-sysusers'', ''/usr/lib/systemd/systemd'', ''/lib/systemd/systemd'',
     ''/usr/sbin/lightdm'', ''/usr/sbin/gdm3'', ''/usr/libexec/gdm-session-worker'',
     ''/usr/lib/gdm3/gdm-session-worker'', ''/usr/libexec/lightdm-session'', ''/usr/lib/lightdm/lightdm-session'',
     ''/usr/bin/polkit-agent-helper-1'', ''/usr/lib/policykit-1/polkit-agent-helper-1'',
     ''/usr/libexec/accounts-daemon'', ''/usr/lib/accountsservice/accounts-daemon'', ''/usr/sbin/accounts-daemon'',
     ''/usr/lib/polkit-1/polkitd'', ''/usr/libexec/polkitd'']"

definition SSH_DAEMON :: "string list" where
  "SSH_DAEMON = [
     ''/usr/sbin/sshd'', ''/usr/lib/openssh/sshd-session'', ''/usr/lib/openssh/sshd-auth'', ''/usr/bin/ssh-keygen'']"

definition SSH_CLIENT :: "string list" where
  "SSH_CLIENT = [
     ''/usr/bin/ssh'', ''/usr/bin/ssh-add'', ''/usr/bin/ssh-keygen'', ''/usr/bin/ssh-copy-id'', ''/usr/bin/scp'',
     ''/usr/bin/sftp'', ''/usr/sbin/sshd'', ''/usr/lib/openssh/sshd-session'']"

definition SUDO_TOOLS :: "string list" where
  "SUDO_TOOLS = [
     ''/usr/bin/sudo'', ''/usr/sbin/visudo'', ''/usr/bin/sudoedit'', ''/usr/bin/sudoreplay'']"

definition GIT_TOOLS :: "string list" where
  "GIT_TOOLS = [
     ''/usr/lib/git-core/git-remote-http'']"

definition GPG_TOOLS :: "string list" where
  "GPG_TOOLS = [
     ''/usr/bin/gpg'', ''/usr/bin/gpg2'', ''/usr/bin/gpg-agent'', ''/usr/lib/gnupg/gpg-agent'', ''/usr/bin/gpgconf'',
     ''/usr/bin/gpgsm'', ''/usr/bin/dirmngr'']"

definition RULES :: "watch_rule list" where
  "RULES = [
     file_rule ''evade.watchdog_disarm'' (MPrefix ''/dev/watchdog'') DefenseEvasion (to_f32 (8 / 10)) NOBODY,
     file_rule ''persist.ld_preload'' (MExact ''/etc/ld.so.preload'') Persistence (to_f32 (97 / 100)) NOBODY,
     file_rule ''persist.systemd_unit'' (MPrefix ''/etc/systemd/system/'') Persistence (to_f32 (85 / 100)) NOBODY,
     file_rule ''persist.systemd_unit_lib'' (MPrefix ''/usr/lib/systemd/system/'') Persistence (to_f32 (85 / 100)) NOBODY,
     file_rule ''persist.cron'' (MPrefix ''/etc/cron'') Persistence (to_f32 (9 / 10)) NOBODY,
     file_rule ''persist.authorized_keys'' (MSuffix ''/.ssh/authorized_keys'') Persistence (to_f32 (95 / 100)) NOBODY,
     file_rule ''persist.pam'' (MPrefix ''/etc/pam.d/'') Persistence (to_f32 (93 / 100)) NOBODY,
     file_rule ''persist.udev'' (MPrefix ''/etc/udev/rules.d/'') Persistence (to_f32 (8 / 10)) NOBODY,
     file_rule ''persist.shell_profile'' (MPrefix ''/etc/profile.d/'') Persistence (to_f32 (8 / 10)) NOBODY,
     file_rule ''persist.user_rc'' (MSuffix ''/.bashrc'') Persistence (to_f32 (7 / 10)) NOBODY,
     file_rule ''persist.user_profile'' (MSuffix ''/.bash_profile'') Persistence (to_f32 (7 / 10)) NOBODY,
     file_rule ''privesc.sudoers'' (MPrefix ''/etc/sudoers'') PrivilegeEscalation (to_f32 (95 / 100)) NOBODY,
     file_rule ''cred.shadow'' (MExact ''/etc/shadow'') Credential (to_f32 (9 / 10)) NOBODY,
     file_rule ''cred.passwd'' (MExact ''/etc/passwd'') Credential (to_f32 (88 / 100)) NOBODY,
     file_rule ''cred.ssh_private_key'' (MSuffix ''/.ssh/id_rsa'') Credential (to_f32 (85 / 100)) NOBODY,
     file_rule ''defense_evasion.proc_mem_write'' (MSuffix ''/mem'') DefenseEvasion (to_f32 (92 / 100)) NOBODY,
     file_rule ''evade.auth_log'' (MPrefix ''/var/log/auth'') DefenseEvasion (to_f32 (85 / 100)) NOBODY,
     file_rule ''evade.wtmp'' (MPrefix ''/var/log/wtmp'') DefenseEvasion (to_f32 (85 / 100)) NOBODY]"

definition READ_RULES :: "watch_rule list" where
  "READ_RULES = [
     file_rule ''cred.read_shadow'' (MPrefix ''/etc/shadow'') Credential (to_f32 (9 / 10)) PASSWORD_TOOLS,
     file_rule ''cred.read_gshadow'' (MPrefix ''/etc/gshadow'') Credential (to_f32 (88 / 100)) PASSWORD_TOOLS,
     file_rule ''cred.read_opasswd'' (MExact ''/etc/security/opasswd'') Credential (to_f32 (9 / 10)) PASSWORD_TOOLS,
     file_rule ''cred.read_ssh_host_key'' (MPrefix ''/etc/ssh/ssh_host_'') Credential (to_f32 (85 / 100)) SSH_DAEMON,
     file_rule ''cred.read_ssh_private_key'' (MSuffix ''/.ssh/id_rsa'') Credential (to_f32 (9 / 10)) SSH_CLIENT,
     file_rule ''cred.read_aws'' (MSuffix ''/.aws/credentials'') Credential (to_f32 (9 / 10)) NOBODY,
     file_rule ''cred.read_kube'' (MSuffix ''/.kube/config'') Credential (to_f32 (88 / 100)) NOBODY,
     file_rule ''cred.read_netrc'' (MSuffix ''/.netrc'') Credential (to_f32 (85 / 100)) GIT_TOOLS,
     file_rule ''cred.read_pgpass'' (MSuffix ''/.pgpass'') Credential (to_f32 (85 / 100)) NOBODY,
     file_rule ''cred.read_mysql'' (MSuffix ''/.my.cnf'') Credential (to_f32 (85 / 100)) NOBODY,
     file_rule ''cred.read_git'' (MSuffix ''/.git-credentials'') Credential (to_f32 (85 / 100)) NOBODY,
     file_rule ''cred.read_docker'' (MSuffix ''/.dockercfg'') Credential (to_f32 (85 / 100)) NOBODY,
     file_rule ''cred.read_gnupg'' (MSuffix ''/secring.gpg'') Credential (to_f32 (88 / 100)) GPG_TOOLS,
     file_rule ''cred.read_rails_master_key'' (MSuffix ''/master.key'') Credential (to_f32 (85 / 100)) NOBODY,
     file_rule ''cred.read_htpasswd'' (MSuffix ''/.htpasswd'') Credential (to_f32 (8 / 10)) NOBODY,
     file_rule ''recon.read_sudoers'' (MPrefix ''/etc/sudoers'') PrivilegeEscalation (to_f32 (7 / 10)) SUDO_TOOLS,
     file_rule ''cred.read_authorized_keys'' (MSuffix ''/.ssh/authorized_keys'') Credential (to_f32 (6 / 10)) SSH_DAEMON]"

definition reader_is_sanctioned :: "file_watch_hit \<Rightarrow> string option \<Rightarrow> provenance \<Rightarrow> bool" where
  "reader_is_sanctioned hit exe prov =
     (case exe of None \<Rightarrow> False
      | Some e \<Rightarrow> if prov \<noteq> PackagedIntact then False else e \<in> set (fh_sanctioned_readers hit))"

definition is_matchable :: "string \<Rightarrow> bool" where
  "is_matchable path \<longleftrightarrow> prefix ''/'' path"

fun watch_matches :: "watch_match \<Rightarrow> string \<Rightarrow> bool" where
  "watch_matches (MPrefix p) path \<longleftrightarrow> prefix p path"
| "watch_matches (MExact p) path \<longleftrightarrow> path = p"
| "watch_matches (MSuffix p) path \<longleftrightarrow> suffix p path"

definition hit_of :: "watch_rule \<Rightarrow> file_watch_hit" where
  "hit_of r = \<lparr>fh_rule_id = wr_id r, fh_category = wr_category r, fh_severity = wr_severity r, fh_sanctioned_readers = wr_readers r\<rparr>"

definition classify_in :: "watch_rule list \<Rightarrow> string \<Rightarrow> file_watch_hit option" where
  "classify_in rules path =
     (if \<not> is_matchable path then None else map_option hit_of (find (\<lambda>r. watch_matches (wr_m r) path) rules))"

definition classify :: "string \<Rightarrow> file_watch_hit option" where
  "classify path = classify_in RULES path"

definition classify_read :: "string \<Rightarrow> file_watch_hit option" where
  "classify_read path = classify_in READ_RULES path"

definition rule_ids :: "string list" where
  "rule_ids = map wr_id (RULES @ READ_RULES)"

definition KERNEL_SECRET_SUFFIXES :: "string list" where
  "KERNEL_SECRET_SUFFIXES = [
     ''/shadow'', ''/gshadow'', ''/opasswd'', ''/sudoers'', ''/id_rsa'', ''/id_dsa'', ''/id_ecdsa'', ''/id_ed25519'',
     ''_key'', ''/authorized_keys'', ''/credentials'', ''/kubeconfig'', ''/.kube/config'', ''/master.key'',
     ''/.netrc'', ''/.pgpass'', ''/.my.cnf'', ''/.git-credentials'', ''/.htpasswd'', ''/.dockercfg'', ''/secring.gpg'']"

definition kernel_ships_read :: "string \<Rightarrow> bool" where
  "kernel_ships_read path \<longleftrightarrow> list_ex (\<lambda>s. suffix s path) KERNEL_SECRET_SUFFIXES"

definition READ_RULE_EXAMPLES :: "(string \<times> string) list" where
  "READ_RULE_EXAMPLES = [
     (''cred.read_shadow'', ''/etc/shadow''), (''cred.read_gshadow'', ''/etc/gshadow''),
     (''cred.read_opasswd'', ''/etc/security/opasswd''),
     (''cred.read_ssh_host_key'', ''/etc/ssh/ssh_host_ed25519_key''),
     (''cred.read_ssh_private_key'', ''/home/someone/.ssh/id_rsa''),
     (''cred.read_authorized_keys'', ''/home/someone/.ssh/authorized_keys''),
     (''cred.read_aws'', ''/home/someone/.aws/credentials''), (''cred.read_kube'', ''/home/someone/.kube/config''),
     (''cred.read_netrc'', ''/home/someone/.netrc''), (''cred.read_pgpass'', ''/home/someone/.pgpass''),
     (''cred.read_mysql'', ''/home/someone/.my.cnf''), (''cred.read_git'', ''/home/someone/.git-credentials''),
     (''cred.read_docker'', ''/home/someone/.dockercfg''),
     (''cred.read_gnupg'', ''/home/someone/.gnupg/secring.gpg''),
     (''cred.read_rails_master_key'', ''/srv/app/config/master.key''),
     (''cred.read_htpasswd'', ''/var/www/.htpasswd''), (''recon.read_sudoers'', ''/etc/sudoers'')]"

section \<open>The sensor\<close>

definition FILE_PATH_LEN :: nat where "FILE_PATH_LEN = 256"

text \<open>Masking with the buffer length less one, a power of two, is the remainder.\<close>

fun ends_loop :: "bytes \<Rightarrow> nat \<Rightarrow> bytes \<Rightarrow> nat \<Rightarrow> bool" where
  "ends_loop buf start [] i = True"
| "ends_loop buf start (p # ps) i = (if buf ! ((start + i) mod FILE_PATH_LEN) \<noteq> p then False else ends_loop buf start ps (Suc i))"

definition ebpf_ends_with :: "bytes \<Rightarrow> nat \<Rightarrow> bytes \<Rightarrow> bool" where
  "ebpf_ends_with buf len pat =
     (if len < length pat \<or> FILE_PATH_LEN < len then False else ends_loop buf (len - length pat) pat 0)"

definition is_secret_path :: "bytes \<Rightarrow> nat \<Rightarrow> bool" where
  "is_secret_path buf len =
     (let e = (\<lambda>p. ebpf_ends_with buf len (str_bytes p)) in
      e ''/shadow'' \<or>
      e ''/gshadow'' \<or>
      e ''/opasswd'' \<or>
      e ''/sudoers'' \<or>
      e ''/id_rsa'' \<or>
      e ''/id_dsa'' \<or>
      e ''/id_ecdsa'' \<or>
      e ''/id_ed25519'' \<or>
      e ''_key'' \<or>
      e ''/authorized_keys'' \<or>
      e ''/credentials'' \<or>
      e ''/kubeconfig'' \<or>
      e ''/.kube/config'' \<or>
      e ''/master.key'' \<or>
      e ''/.netrc'' \<or>
      e ''/.pgpass'' \<or>
      e ''/.my.cnf'' \<or>
      e ''/.git-credentials'' \<or>
      e ''/.htpasswd'' \<or>
      e ''/.dockercfg'' \<or>
      e ''/secring.gpg'')"

definition O_ACCMODE :: u64 where "O_ACCMODE = 3"
definition O_WRONLY :: u64 where "O_WRONLY = 1"
definition O_RDWR :: u64 where "O_RDWR = 2"
definition O_CREAT :: u64 where "O_CREAT = 64"
definition O_TRUNC :: u64 where "O_TRUNC = 512"
definition O_APPEND :: u64 where "O_APPEND = 1024"
definition ACCESS_WRITE :: u8 where "ACCESS_WRITE = 0"
definition ACCESS_SENSITIVE_READ :: u8 where "ACCESS_SENSITIVE_READ = 1"

definition write_intent :: "u64 \<Rightarrow> bool" where
  "write_intent flags =
     (let accmode = flags AND O_ACCMODE;
          writes = (accmode = O_WRONLY \<or> accmode = O_RDWR);
          creates = (flags AND (O_CREAT OR O_TRUNC OR O_APPEND) \<noteq> 0)
      in writes \<or> creates)"

record file_event =
  fe_pid :: u32
  fe_flags :: u32
  fe_truncated :: u8
  fe_access :: u8
  fe_comm :: bytes
  fe_path :: bytes

text \<open>
  The helper copies the name up to its NUL, one byte less than the buffer at most, and terminates it;
  what was in the scratch buffer stays behind it.
\<close>

definition probe_read_str :: "bytes \<Rightarrow> bytes \<Rightarrow> bytes \<times> nat" where
  "probe_read_str scratch name =
     (let s = take (FILE_PATH_LEN - 1) (takeWhile (\<lambda>b. b \<noteq> 0) name) in (s @ [0] @ drop (Suc (length s)) scratch, length s))"

text \<open>A null or unreadable name is \<open>None\<close>; \<open>room\<close> says whether the ring has a free record.\<close>

definition try_openat :: "bytes \<Rightarrow> bool \<Rightarrow> u32 \<Rightarrow> bytes \<Rightarrow> u64 \<Rightarrow> bytes option \<Rightarrow> unit + file_event option" where
  "try_openat scratch room pid comm flags filename =
     (case filename of
        None \<Rightarrow> Inr None
      | Some name \<Rightarrow>
          (case probe_read_str scratch name of (buf, len) \<Rightarrow>
             if \<not> write_intent flags \<and> \<not> is_secret_path buf len then Inr None
             else if \<not> room then Inl ()
             else Inr (Some \<lparr>fe_pid = pid, fe_flags = ucast flags,
                    fe_truncated = (if FILE_PATH_LEN - 1 \<le> len then 1 else 0),
                    fe_access = (if write_intent flags then ACCESS_WRITE else ACCESS_SENSITIVE_READ),
                    fe_comm = comm, fe_path = buf\<rparr>)))"

text \<open>
  Userspace reads the buffer up to its NUL. \<open>lossy\<close> is the standard library's conversion, which keeps
  valid UTF-8 and replaces the rest; only its behaviour on ASCII is relied on below.
\<close>

definition cstr_to_string :: "(bytes \<Rightarrow> string) \<Rightarrow> bytes \<Rightarrow> string" where
  "cstr_to_string lossy buf = lossy (takeWhile (\<lambda>b. b \<noteq> 0) buf)"

definition parse_file :: "(bytes \<Rightarrow> string) \<Rightarrow> int \<Rightarrow> file_event \<Rightarrow> file_open option" where
  "parse_file lossy now ev =
     (let path = cstr_to_string lossy (fe_path ev) in
      if path = [] then None
      else Some \<lparr>fo_pid = fe_pid ev, fo_comm = cstr_to_string lossy (fe_comm ev), fo_path = path, fo_flags = fe_flags ev,
             fo_truncated = (fe_truncated ev \<noteq> 0), fo_sensitive_read = (fe_access ev = 1), fo_ts = now\<rparr>)"

text \<open>The rule a reported open falls under (\<open>process_file_open\<close> of \<open>bowery-agent/src/pipeline.rs\<close>).\<close>

definition open_hit :: "file_open \<Rightarrow> file_watch_hit option" where
  "open_hit fo = (if fo_sensitive_read fo then classify_read (fo_path fo) else classify (fo_path fo))"

section \<open>The kernel filter and its mirror\<close>

lemma ends_loop_iff:
  assumes "start + i + length ps \<le> FILE_PATH_LEN" "length buf = FILE_PATH_LEN"
  shows "ends_loop buf start ps i \<longleftrightarrow> take (length ps) (drop (start + i) buf) = ps"
  using assms
proof (induction ps arbitrary: i)
  case (Cons p ps)
  then have "start + i < length buf" by simp
  then have d: "drop (start + i) buf = buf ! (start + i) # drop (start + Suc i) buf" by (simp add: Cons_nth_drop_Suc)
  have "(start + i) mod FILE_PATH_LEN = start + i" using Cons.prems by simp
  then show ?case using Cons.IH [of "Suc i"] Cons.prems by (simp add: d)
qed simp

lemma suffix_drop: "suffix p xs \<longleftrightarrow> length p \<le> length xs \<and> drop (length xs - length p) xs = p"
  by (auto simp: suffix_def) (metis append_take_drop_id)

lemma ebpf_ends_with_iff:
  assumes "length buf = FILE_PATH_LEN" "len \<le> FILE_PATH_LEN"
  shows "ebpf_ends_with buf len pat \<longleftrightarrow> suffix pat (take len buf)"
proof (cases "len < length pat")
  case True
  with assms show ?thesis by (simp add: ebpf_ends_with_def suffix_drop)
next
  case False
  with assms have "ends_loop buf (len - length pat) pat 0 \<longleftrightarrow> take (length pat) (drop (len - length pat) buf) = pat"
    by (subst ends_loop_iff) simp_all
  moreover have "take (length pat) (drop (len - length pat) buf) = drop (len - length pat) (take len buf)"
    using False by (simp add: drop_take)
  ultimately show ?thesis using False assms by (simp add: ebpf_ends_with_def suffix_drop)
qed

lemma suffix_str_bytes: "suffix (str_bytes p) (str_bytes n) \<longleftrightarrow> suffix p n"
proof -
  have "drop k (str_bytes n) = str_bytes (drop k n)" for k by (simp add: str_bytes_def drop_map)
  then show ?thesis by (simp add: suffix_drop)
qed

lemma is_secret_path_iff:
  assumes "length buf = FILE_PATH_LEN" "len \<le> FILE_PATH_LEN" "take len buf = str_bytes name"
  shows "is_secret_path buf len \<longleftrightarrow> kernel_ships_read name"
  unfolding is_secret_path_def ebpf_ends_with_iff [OF assms(1,2)] assms(3) suffix_str_bytes Let_def
  by (simp add: kernel_ships_read_def KERNEL_SECRET_SUFFIXES_def)

text \<open>ASCII names without NUL that fit the buffer.\<close>

definition plain_path :: "string \<Rightarrow> bool" where
  "plain_path s \<longleftrightarrow> s \<noteq> [] \<and> length s < FILE_PATH_LEN \<and> (\<forall>c \<in> set s. c \<noteq> CHR 0x00 \<and> (of_char c :: nat) < 128)"

definition lossy_ok :: "(bytes \<Rightarrow> string) \<Rightarrow> bool" where
  "lossy_ok lossy \<longleftrightarrow> (\<forall>s. (\<forall>c \<in> set s. (of_char c :: nat) < 128) \<longrightarrow> lossy (str_bytes s) = s)"

lemma str_bytes_nonzero: "(\<forall>c \<in> set s. c \<noteq> CHR 0x00) \<Longrightarrow> b \<in> set (str_bytes s) \<Longrightarrow> b \<noteq> 0"
proof -
  assume a: "\<forall>c \<in> set s. c \<noteq> CHR 0x00" "b \<in> set (str_bytes s)"
  have z: "(0 :: u8) = of_char (CHR 0x00)" by simp
  from a obtain c where c: "c \<in> set s" "b = of_char c" by (auto simp: str_bytes_def)
  show "b \<noteq> 0"
  proof
    assume "b = 0"
    then have "str_bytes [c] = str_bytes [CHR 0x00]" using c(2) z by (simp add: str_bytes_def)
    with a(1) c(1) show False by simp
  qed
qed

lemma probe_read_plain:
  assumes "plain_path s" "length scratch = FILE_PATH_LEN"
  shows "\<exists>buf. probe_read_str scratch (str_bytes s @ 0 # rest) = (buf, length s) \<and> length buf = FILE_PATH_LEN \<and>
    take (length s) buf = str_bytes s \<and> takeWhile (\<lambda>b. b \<noteq> 0) buf = str_bytes s"
proof -
  have nz: "\<forall>b \<in> set (str_bytes s). b \<noteq> 0" using assms(1) str_bytes_nonzero by (auto simp: plain_path_def)
  then have "takeWhile (\<lambda>b. b \<noteq> 0) (str_bytes s @ 0 # rest) = str_bytes s" by (simp add: takeWhile_append2)
  moreover have "takeWhile (\<lambda>b. b \<noteq> 0) (str_bytes s @ 0 # x) = str_bytes s" for x using nz by (simp add: takeWhile_append2)
  ultimately show ?thesis using assms by (auto simp: probe_read_str_def plain_path_def FILE_PATH_LEN_def)
qed

text \<open>What the agent gets to see of an open: the hook, the ring, the decoder.\<close>

definition sensed :: "(bytes \<Rightarrow> string) \<Rightarrow> int \<Rightarrow> bytes \<Rightarrow> u32 \<Rightarrow> bytes \<Rightarrow> u64 \<Rightarrow> bytes \<Rightarrow> file_open option" where
  "sensed lossy now scratch pid comm flags name =
     (case try_openat scratch True pid comm flags (Some name) of
        Inr (Some ev) \<Rightarrow> parse_file lossy now ev | _ \<Rightarrow> None)"

lemma sensed_plain:
  assumes "lossy_ok lossy" "plain_path s" "length scratch = FILE_PATH_LEN"
  shows "sensed lossy now scratch pid comm flags (str_bytes s @ 0 # rest) =
    (if write_intent flags \<or> kernel_ships_read s
     then Some \<lparr>fo_pid = pid, fo_comm = cstr_to_string lossy comm, fo_path = s, fo_flags = ucast flags,
            fo_truncated = (length s = FILE_PATH_LEN - 1), fo_sensitive_read = (\<not> write_intent flags), fo_ts = now\<rparr>
     else None)"
proof -
  obtain buf where b: "probe_read_str scratch (str_bytes s @ 0 # rest) = (buf, length s)" "length buf = FILE_PATH_LEN"
    "take (length s) buf = str_bytes s" "takeWhile (\<lambda>b. b \<noteq> 0) buf = str_bytes s" using probe_read_plain [OF assms(2,3)] by blast
  have ne: "s \<noteq> []" and lt: "length s < FILE_PATH_LEN" using assms(2) unfolding plain_path_def by (simp_all only: simp_thms)
  from lt have len: "length s \<le> FILE_PATH_LEN" "length s \<le> FILE_PATH_LEN - 1" by linarith+
  have secret: "is_secret_path buf (length s) \<longleftrightarrow> kernel_ships_read s" by (rule is_secret_path_iff [OF b(2) len(1) b(3)])
  have "lossy (str_bytes s) = s" using assms(1,2) by (simp add: lossy_ok_def plain_path_def)
  then have path: "cstr_to_string lossy buf = s" using b(4) by (simp add: cstr_to_string_def)
  have trunc: "FILE_PATH_LEN - 1 \<le> length s \<longleftrightarrow> length s = FILE_PATH_LEN - 1" using len(2) by linarith
  show ?thesis
  proof (cases "write_intent flags \<or> kernel_ships_read s")
    case True
    with ne show ?thesis
      by - (cases "write_intent flags", simp_all add: sensed_def try_openat_def b(1) secret parse_file_def path trunc
          ACCESS_WRITE_def ACCESS_SENSITIVE_READ_def del: One_nat_def)
  next
    case False
    then show ?thesis by (simp add: sensed_def try_openat_def b(1) secret)
  qed
qed

text \<open>
  C24. The kernel's filter and the copy of it in userspace agree. For every name of at most 255 ASCII
  bytes, whatever the scratch buffer held before, the agent is told of the open with the name unaltered
  exactly if the flags ask for writing or the userspace list of credential suffixes has one the name
  ends with; and it learns correctly which of the two it was.
\<close>

theorem kernel_filter_agrees:
  assumes "lossy_ok lossy" "plain_path s" "length scratch = FILE_PATH_LEN"
  shows "case sensed lossy now scratch pid comm flags (str_bytes s @ 0 # rest) of
      None \<Rightarrow> \<not> write_intent flags \<and> \<not> kernel_ships_read s
    | Some fo \<Rightarrow> (write_intent flags \<or> kernel_ships_read s) \<and> fo_path fo = s \<and> fo_pid fo = pid \<and>
        (fo_sensitive_read fo \<longleftrightarrow> \<not> write_intent flags)"
  using sensed_plain [OF assms] by simp

definition ascii_lossy :: "bytes \<Rightarrow> string" where
  "ascii_lossy bs = map (\<lambda>b. char_of (unat b)) bs"

lemma ascii_lossy_ok: "lossy_ok ascii_lossy"
proof -
  have "char_of (unat (of_char c :: u8)) = c" for c :: char
  proof -
    have "(of_char c :: nat) < 2 ^ LENGTH(8)" by simp
    from of_nat_inverse [OF of_nat_of_char this] show ?thesis by simp
  qed
  then show ?thesis by (simp add: lossy_ok_def ascii_lossy_def str_bytes_def o_def)
qed

theorem kernel_filter_agrees_witness:
  "sensed ascii_lossy 0 (replicate 256 0) 7 [] 0 (str_bytes ''/etc/shadow'' @ 0 # []) \<noteq> None \<and> kernel_ships_read ''/etc/shadow''"
proof -
  have k: "kernel_ships_read ''/etc/shadow''" by (simp add: kernel_ships_read_def KERNEL_SECRET_SUFFIXES_def suffix_drop)
  have p: "plain_path ''/etc/shadow''" by (simp add: plain_path_def FILE_PATH_LEN_def)
  show ?thesis
    using kernel_filter_agrees [OF ascii_lossy_ok p, where now = 0 and scratch = "replicate 256 0" and pid = 7 and comm = "[]" and flags = 0 and rest = "[]"] k
    by (cases "sensed ascii_lossy 0 (replicate 256 0) 7 [] 0 (str_bytes ''/etc/shadow'' @ 0 # [])") (simp_all add: FILE_PATH_LEN_def)
qed

section \<open>Which watched reads arrive\<close>

lemma kernel_ships_read_suffix: "kernel_ships_read p \<Longrightarrow> suffix p s \<Longrightarrow> kernel_ships_read s"
  by (auto simp: kernel_ships_read_def list_ex_iff intro: suffix_order.trans)

lemma read_matches:
  "map wr_m READ_RULES = [MPrefix ''/etc/shadow'', MPrefix ''/etc/gshadow'', MExact ''/etc/security/opasswd'', MPrefix ''/etc/ssh/ssh_host_'',
     MSuffix ''/.ssh/id_rsa'', MSuffix ''/.aws/credentials'', MSuffix ''/.kube/config'', MSuffix ''/.netrc'', MSuffix ''/.pgpass'',
     MSuffix ''/.my.cnf'', MSuffix ''/.git-credentials'', MSuffix ''/.dockercfg'', MSuffix ''/secring.gpg'', MSuffix ''/master.key'',
     MSuffix ''/.htpasswd'', MPrefix ''/etc/sudoers'', MSuffix ''/.ssh/authorized_keys'']"
  by (simp add: READ_RULES_def file_rule_def)

fun shippable :: "watch_match \<Rightarrow> bool" where
  "shippable (MPrefix p) = False"
| "shippable (MExact p) = kernel_ships_read p"
| "shippable (MSuffix p) = kernel_ships_read p"

lemma shippable_reads: "m \<in> set (map wr_m READ_RULES) \<Longrightarrow> (\<exists>p. m = MPrefix p) \<or> shippable m"
  unfolding read_matches by (auto simp: kernel_ships_read_def KERNEL_SECRET_SUFFIXES_def suffix_drop)

lemma shippable_matches: "shippable m \<Longrightarrow> watch_matches m s \<Longrightarrow> kernel_ships_read s"
  by (cases m) (auto intro: kernel_ships_read_suffix)

lemma classify_in_Some:
  "classify_in rs s = Some h \<longleftrightarrow> is_matchable s \<and> (\<exists>r. find (\<lambda>r. watch_matches (wr_m r) s) rs = Some r \<and> h = hit_of r)"
  by (auto simp: classify_in_def)

lemma classify_read_ships:
  assumes "classify_read s = Some h"
  shows "kernel_ships_read s \<or> (\<exists>p \<in> {''/etc/shadow'', ''/etc/gshadow'', ''/etc/ssh/ssh_host_'', ''/etc/sudoers''}. prefix p s)"
proof -
  from assms obtain r where r: "r \<in> set READ_RULES" "watch_matches (wr_m r) s"
    by (auto simp: classify_read_def classify_in_Some dest: find_Some_member)
  from r(1) have m: "wr_m r \<in> set (map wr_m READ_RULES)" by simp
  show ?thesis
  proof (cases "shippable (wr_m r)")
    case True
    with r(2) show ?thesis by (simp add: shippable_matches)
  next
    case False
    with shippable_reads [OF m] obtain p where p: "wr_m r = MPrefix p" by blast
    with m have "p \<in> {''/etc/shadow'', ''/etc/gshadow'', ''/etc/ssh/ssh_host_'', ''/etc/sudoers''}"
      unfolding read_matches by auto
    with p r(2) show ?thesis by auto
  qed
qed

text \<open>
  Every watched access the sensor is meant to catch reaches its rule. An open for writing is
  classified exactly as its path is, whatever the path. A read that a read rule matches is reported and
  classified the same, except below the four prefixes of \<open>/etc\<close> where the rule is wider than the
  kernel's list of suffixes; nothing else of the read rules is unreachable.
\<close>

theorem watched_accesses_are_seen:
  assumes "lossy_ok lossy" "plain_path s" "length scratch = FILE_PATH_LEN"
  shows "(write_intent flags \<longrightarrow>
      map_option open_hit (sensed lossy now scratch pid comm flags (str_bytes s @ 0 # rest)) = Some (classify s)) \<and>
    (\<not> write_intent flags \<and> classify_read s = Some h \<and>
      \<not> (\<exists>p \<in> {''/etc/shadow'', ''/etc/gshadow'', ''/etc/ssh/ssh_host_'', ''/etc/sudoers''}. prefix p s) \<longrightarrow>
      map_option open_hit (sensed lossy now scratch pid comm flags (str_bytes s @ 0 # rest)) = Some (Some h))"
  using classify_read_ships [of s h] by (auto simp: sensed_plain [OF assms] open_hit_def)

theorem watched_accesses_are_seen_witness:
  "map_option open_hit (sensed ascii_lossy 0 (replicate 256 0) 7 [] 0 (str_bytes ''/root/.netrc'' @ 0 # [])) =
     Some (classify_read ''/root/.netrc'') \<and> classify_read ''/root/.netrc'' \<noteq> None"
proof -
  have c: "map_option fh_rule_id (classify_read ''/root/.netrc'') = Some ''cred.read_netrc''"
    by (simp add: classify_read_def classify_in_def is_matchable_def READ_RULES_def file_rule_def suffix_drop hit_of_def)
  then obtain h where h: "classify_read ''/root/.netrc'' = Some h" by auto
  have p: "plain_path ''/root/.netrc''" by (simp add: plain_path_def FILE_PATH_LEN_def)
  have "\<not> write_intent 0" by (simp add: write_intent_def O_WRONLY_def O_RDWR_def)
  with watched_accesses_are_seen [OF ascii_lossy_ok p, where now = 0 and scratch = "replicate 256 0" and pid = 7 and comm = "[]" and flags = 0
      and rest = "[]" and h = h] h
  show ?thesis by (simp add: FILE_PATH_LEN_def)
qed

text \<open>
  Two gaps between the lists. A read of \<open>/etc/shadow-\<close>, the backup with the same hashes, matches
  the shadow rule and never reaches it. A read of an Ed25519 user key is reported by the kernel and then
  classified as nothing: the rule for private keys names \<open>id_rsa\<close> only.
\<close>

theorem unseen_reads:
  "map_option fh_rule_id (classify_read ''/etc/shadow-'') = Some ''cred.read_shadow'' \<and>
   sensed ascii_lossy 0 (replicate 256 0) pid comm 0 (str_bytes ''/etc/shadow-'' @ [0]) = None \<and>
   map_option open_hit (sensed ascii_lossy 0 (replicate 256 0) pid comm 0 (str_bytes ''/root/.ssh/id_ed25519'' @ [0])) = Some None"
proof -
  have a: "plain_path ''/etc/shadow-''" and b: "plain_path ''/root/.ssh/id_ed25519''" by (simp_all add: plain_path_def FILE_PATH_LEN_def)
  have w: "\<not> write_intent 0" by (simp add: write_intent_def O_WRONLY_def O_RDWR_def)
  have ka: "\<not> kernel_ships_read ''/etc/shadow-''" and kb: "kernel_ships_read ''/root/.ssh/id_ed25519''"
    by (simp_all add: kernel_ships_read_def KERNEL_SECRET_SUFFIXES_def suffix_drop)
  have "map_option fh_rule_id (classify_read ''/etc/shadow-'') = Some ''cred.read_shadow''"
    "classify_read ''/root/.ssh/id_ed25519'' = None"
    by (simp_all add: classify_read_def classify_in_def is_matchable_def READ_RULES_def file_rule_def suffix_drop hit_of_def)
  then show ?thesis
    using w ka kb sensed_plain [OF ascii_lossy_ok a, where now = 0 and scratch = "replicate 256 0"] sensed_plain [OF ascii_lossy_ok b, where now = 0 and scratch = "replicate 256 0"]
    by (simp add: FILE_PATH_LEN_def open_hit_def)
qed

text \<open>An exempt reader is one of the paths the rule lists, run from an intact package, and never a writer.\<close>

lemma sanctioned_reader_is_listed:
  "reader_is_sanctioned h exe prov \<longleftrightarrow> prov = PackagedIntact \<and> (\<exists>e. exe = Some e \<and> e \<in> set (fh_sanctioned_readers h))"
  by (auto simp: reader_is_sanctioned_def split: option.splits)

lemma write_rules_sanction_nobody: "r \<in> set RULES \<Longrightarrow> wr_readers r = []"
  by (auto simp: RULES_def file_rule_def NOBODY_def)

lemma no_writer_is_sanctioned: "classify s = Some h \<Longrightarrow> \<not> reader_is_sanctioned h exe prov"
  by (auto simp: classify_def classify_in_Some hit_of_def sanctioned_reader_is_listed write_rules_sanction_nobody dest!: find_Some_member)

lemma read_rule_examples_fire:
  "list_all (\<lambda>(i, p). map_option fh_rule_id (classify_read p) = Some i \<and> kernel_ships_read p) READ_RULE_EXAMPLES"
  by (simp add: READ_RULE_EXAMPLES_def classify_read_def classify_in_def is_matchable_def READ_RULES_def file_rule_def
      suffix_drop hit_of_def kernel_ships_read_def KERNEL_SECRET_SUFFIXES_def)

end
