(* ===== verification/Claims.thy ===== *)
theory Claims
  imports Corroborate Eventlog File_Watch "HOL-Library.Char_ord" "HOL-Library.List_Lexorder"
begin

text \<open>
  The two kinds of claims an agent raises: that a peer opened a connection to this host
  (\<open>crates/bowery-agent/src/corroboration/net_inbound.rs\<close>), and that a program touched a watched file
  (\<open>file_access.rs\<close>); each with how the claim is made and how the other host answers it from its own
  history. An address is identified with its text.
\<close>

section \<open>Inbound connections\<close>

definition ATTR_DST_ADDR :: string where "ATTR_DST_ADDR = ''dst_addr''"
definition ATTR_DST_PORT :: string where "ATTR_DST_PORT = ''dst_port''"
definition ATTR_PID :: string where "ATTR_PID = ''pid''"
definition ATTR_COMM :: string where "ATTR_COMM = ''comm''"
definition ATTR_EXE_PATH :: string where "ATTR_EXE_PATH = ''exe_path''"
definition ATTR_TS :: string where "ATTR_TS = ''ts_unix_ms''"

definition NET_MAX_WINDOW_MS :: u64 where "NET_MAX_WINDOW_MS = 10 * 60 * 1000"

definition is_unspecified :: "ip_addr \<Rightarrow> bool" where
  "is_unspecified a \<longleftrightarrow> a = ''0.0.0.0'' \<or> a = ''::''"

definition net_claim_for :: "u64 \<Rightarrow> network_connect \<Rightarrow> nat \<Rightarrow> f32 \<Rightarrow> claim option" where
  "net_claim_for now e half_window suspicion =
     (if nc_direction e \<noteq> Inbound then None
      else if is_unspecified (nc_local_addr e) then None
      else case window_around now (nc_ts e) half_window of (ws, we) \<Rightarrow>
        Some \<lparr>cl_kind = KIND_INBOUND_CLAIM,
          cl_subject = [attribute_new ATTR_DST_ADDR (nc_local_addr e), attribute_new ATTR_DST_PORT (dec (unat (nc_local_port e)))],
          cl_window_start_unix_ms = ws, cl_window_end_unix_ms = we, cl_audience = PeerAtAddress (nc_daddr e),
          cl_rule = deny_alerts, cl_dedup_key = nc_daddr e @ ''->'' @ dec (unat (nc_local_port e)),
          cl_summary = ''inbound connection from '' @ nc_daddr e @ '' to '' @ nc_local_addr e @ '':'' @ dec (unat (nc_local_port e)),
          cl_suspicion = suspicion, cl_supersedes = None, cl_explained_suspicion = Fin 0\<rparr>)"

definition asker_owns :: "(string \<Rightarrow> ip_addr) \<Rightarrow> peer_info list \<Rightarrow> fingerprint \<Rightarrow> string \<Rightarrow> bool" where
  "asker_owns ip mesh asker addr \<longleftrightarrow> list_ex (\<lambda>p. ip (pi_whisper_addr p) = addr) (filter (\<lambda>p. pi_fingerprint p = asker) mesh)"

text \<open>\<open>str::parse\<close> for an unsigned number of 16 bits: an optional plus and at least one digit.\<close>

definition digit_value :: "char \<Rightarrow> nat option" where
  "digit_value c = (let v = of_char c :: nat in if 48 \<le> v \<and> v \<le> 57 then Some (v - 48) else None)"

fun digits_value :: "nat \<Rightarrow> string \<Rightarrow> nat option" where
  "digits_value acc [] = Some acc"
| "digits_value acc (c # cs) = Option.bind (digit_value c) (\<lambda>d. digits_value (acc * 10 + d) cs)"

definition parse_u16 :: "string \<Rightarrow> u16 option" where
  "parse_u16 s =
     (let ds = (if take 1 s = ''+'' then drop 1 s else s) in
      if ds = [] then None
      else Option.bind (digits_value 0 ds) (\<lambda>n. if n < 2 ^ 16 then Some (word_of_nat n) else None))"

text \<open>What can go wrong in the lookup: either query, with the text of its error, or the task itself.\<close>

datatype lookup_fault = NoFault | CoversFails string | SearchFails string | TaskPanics

definition clamp_start :: "u64 \<Rightarrow> corroboration_query \<Rightarrow> u64" where
  "clamp_start longest q = max (cq_window_start_unix_ms q) (saturating_sub (cq_window_end_unix_ms q) longest)"

definition net_evidence :: "connection_match \<Rightarrow> attribute list" where
  "net_evidence m = [attribute_new ATTR_PID (dec (unat (cm_pid m))), attribute_new ATTR_COMM (cm_comm m),
     attribute_new ATTR_EXE_PATH (cm_exe_path m), attribute_new ATTR_TS (dec (unat (cm_ts_unix_ms m)))]"

definition net_respond ::
    "(string \<Rightarrow> ip_addr) \<Rightarrow> lookup_fault \<Rightarrow> peer_info list \<Rightarrow> event_log \<Rightarrow> fingerprint \<Rightarrow> corroboration_query
     \<Rightarrow> corroboration_answer" where
  "net_respond ip fault mesh el asker q =
     (case attribute_value (cq_subject q) ATTR_DST_ADDR of
        None \<Rightarrow> refuse q ''missing dst_addr''
      | Some dst_addr \<Rightarrow>
          (case Option.bind (attribute_value (cq_subject q) ATTR_DST_PORT) parse_u16 of
             None \<Rightarrow> refuse q ''missing or invalid dst_port''
           | Some port \<Rightarrow>
               if \<not> asker_owns ip mesh asker dst_addr then refuse q ''dst_addr is not an address of the asker''
               else let stop = cq_window_end_unix_ms q; start = clamp_start NET_MAX_WINDOW_MS q in
                 (case fault of
                    TaskPanics \<Rightarrow> refuse q ''lookup task failed''
                  | CoversFails e \<Rightarrow> refuse q (''lookup failed: '' @ e)
                  | _ \<Rightarrow>
                      if covers_since False start el \<noteq> Some True
                      then refuse q ''history does not cover the requested window''
                      else (case fault of
                        SearchFails e \<Rightarrow> refuse q (''lookup failed: '' @ e)
                      | _ \<Rightarrow>
                          (case find_outbound_to False dst_addr port start stop el of
                             Some (Some m) \<Rightarrow> corr_answer q Corroborated (net_evidence m)
                           | _ \<Rightarrow> corr_answer q Denied [])))))"

section \<open>File accesses\<close>

definition ATTR_EXE :: string where "ATTR_EXE = ''exe''"
definition ATTR_PATH :: string where "ATTR_PATH = ''path''"
definition ATTR_ACCESS :: string where "ATTR_ACCESS = ''access''"
definition ATTR_PKG :: string where "ATTR_PKG = ''pkg''"

definition FILE_MAX_WINDOW_MS :: u64 where "FILE_MAX_WINDOW_MS = 6 * 60 * 60 * 1000"
definition FANOUT :: nat where "FANOUT = 3"

definition file_claim_for ::
    "u64 \<Rightarrow> string option \<Rightarrow> string option \<Rightarrow> string \<Rightarrow> bool \<Rightarrow> string \<Rightarrow> int \<Rightarrow> nat \<Rightarrow> f32 \<Rightarrow> claim option" where
  "file_claim_for now exe_opt pkg path is_read episode_id ts half_window explained =
     Option.bind exe_opt (\<lambda>exe.
       if exe = [] \<or> take 1 path \<noteq> ''/'' then None
       else let access = op_label is_read in
         case window_around now ts half_window of (ws, we) \<Rightarrow>
           Some \<lparr>cl_kind = KIND_FILE_ACCESS_CLAIM,
             cl_subject = [attribute_new ATTR_EXE exe, attribute_new ATTR_PKG (str_or_empty pkg), attribute_new ATTR_PATH path,
               attribute_new ATTR_ACCESS access],
             cl_window_start_unix_ms = ws, cl_window_end_unix_ms = we, cl_audience = Neighbourhood FANOUT,
             cl_rule = \<lparr>ru_deny_quorum = 0, ru_corroboration_clears = True\<rparr>,
             cl_dedup_key = access @ '':'' @ exe @ '':'' @ path, cl_summary = exe @ '' '' @ access @ '' '' @ path,
             cl_suspicion = Fin 0, cl_supersedes = Some episode_id, cl_explained_suspicion = explained\<rparr>)"

text \<open>
  \<open>paths_for_package\<close>: the paths of at most 32 binaries of the package, sorted and without repetition.
  \<open>fails\<close> says which lookups fail; a failing one counts as an absent descriptor.
\<close>

definition paths_for_package :: "(bytes option \<Rightarrow> bool) \<Rightarrow> baseline \<Rightarrow> string \<Rightarrow> string list" where
  "paths_for_package fails db pkg =
     (case hashes_for_package (fails None) db pkg 32 of
        None \<Rightarrow> []
      | Some hashes \<Rightarrow>
          remdups_adj (sort (List.map_filter bd_exe_path
            (List.map_filter (\<lambda>sha. if fails (Some sha) then None else descriptor db sha) hashes))))"

text \<open>Which of the three queries of the lookup fail, or whether its task panics.\<close>

record access_faults =
  af_covers :: bool
  af_evidence :: bool
  af_habit :: bool
  af_panics :: bool

definition access_lookup ::
    "access_faults \<Rightarrow> string \<Rightarrow> string list \<Rightarrow> string \<Rightarrow> bool \<Rightarrow> u64 \<Rightarrow> u64 \<Rightarrow> event_log \<Rightarrow> (access_evidence \<times> access_habit option) option" where
  "access_lookup f exe also_exe path is_read start stop el =
     (if covers_since (af_covers f) start el \<noteq> Some True then None
      else Option.bind (file_access_evidence (af_evidence f) exe also_exe path is_read start stop el) (\<lambda>evidence.
        Some (evidence, if evidence = Seen then None
          else case file_access_habit (af_habit f) exe also_exe path is_read el of None \<Rightarrow> None | Some h \<Rightarrow> h)))"

definition file_respond ::
    "access_faults \<Rightarrow> (string \<Rightarrow> string list) \<Rightarrow> event_log \<Rightarrow> fingerprint \<Rightarrow> corroboration_query \<Rightarrow> corroboration_answer" where
  "file_respond f package_paths el asker q =
     (case attribute_value (cq_subject q) ATTR_EXE of None \<Rightarrow> refuse q ''missing exe'' | Some exe \<Rightarrow>
      (case attribute_value (cq_subject q) ATTR_PATH of None \<Rightarrow> refuse q ''missing path'' | Some path \<Rightarrow>
      (case attribute_value (cq_subject q) ATTR_ACCESS of None \<Rightarrow> refuse q ''missing access'' | Some access \<Rightarrow>
       if access \<noteq> ''read'' \<and> access \<noteq> ''write'' then refuse q ''access must be read or write''
       else let is_read = (access = ''read'') in
       if (if is_read then classify_read path else classify path) = None
       then refuse q ''path is not in the built-in watch set''
       else let stop = cq_window_end_unix_ms q; start = clamp_start FILE_MAX_WINDOW_MS q;
                pkg = str_or_empty (attribute_value (cq_subject q) ATTR_PKG);
                also_exe = (if pkg = [] then [] else package_paths pkg) in
       if af_panics f then refuse q ''lookup failed''
       else (case access_lookup f exe also_exe path is_read start stop el of
          None \<Rightarrow> refuse q ''history does not cover the requested window on this host''
        | Some (Seen, _) \<Rightarrow> corr_answer q Corroborated []
        | Some (_, Some habit) \<Rightarrow> corr_answer q Habitual [attribute_new ''times'' (dec (ah_count habit)),
            attribute_new ''last_unix_ms'' (dec (nat (ah_last_unix_ms habit)))]
        | Some (NotSeen, None) \<Rightarrow> corr_answer q Denied []
        | Some (CannotAttribute, None) \<Rightarrow> refuse q
            ''this host has attributed no file access to a binary in that window, so its silence is not evidence''))))"

section \<open>The handlers of an agent\<close>

text \<open>Without a history nothing is registered.\<close>

definition agent_responders ::
    "(string \<Rightarrow> ip_addr) \<Rightarrow> lookup_fault \<Rightarrow> access_faults \<Rightarrow> (bytes option \<Rightarrow> bool) \<Rightarrow> baseline \<Rightarrow> peer_info list
     \<Rightarrow> event_log option \<Rightarrow> string \<Rightarrow> responder option" where
  "agent_responders ip nf af fails db mesh store =
     (case store of
        None \<Rightarrow> (\<lambda>_. None)
      | Some el \<Rightarrow> [KIND_INBOUND_CLAIM \<mapsto> net_respond ip nf mesh el,
          KIND_FILE_ACCESS_CLAIM \<mapsto> file_respond af (paths_for_package fails db) el])"

section \<open>Answers are about the question\<close>

locale responder_contract =
  fixes respond :: responder
  assumes echo_id: "ca_query_id (respond asker q) = cq_query_id q"
    and echo_kind: "ca_kind (respond asker q) = cq_kind q"
begin

lemma accepted: "check_corr_answer q (Some (BCorroborationAnswer (respond asker q))) = Inr (respond asker q)"
  by (simp add: check_corr_answer_def echo_id echo_kind)

end

lemmas echo_defs = refuse_def corr_answer_def

interpretation net_handler: responder_contract "net_respond ip fault mesh el" for ip fault mesh el
  by unfold_locales (simp_all add: net_respond_def echo_defs Let_def split: option.split lookup_fault.split)

interpretation file_handler: responder_contract "file_respond f package_paths el" for f package_paths el
  by unfold_locales (simp_all add: file_respond_def echo_defs Let_def split: option.split access_evidence.split)

lemma dispatched_answer_accepted:
  assumes "corr_dispatch reason now (agent_responders ip nf af fails db mesh store) asker q = Some a"
  shows "check_corr_answer q (Some (BCorroborationAnswer a)) = Inr a"
  using assms
  by (auto simp: corr_dispatch_def agent_responders_def check_corr_answer_def refuse_def
      net_handler.echo_id net_handler.echo_kind file_handler.echo_id file_handler.echo_kind
      split: sum.splits option.splits if_splits)

section \<open>What an asker can learn\<close>

lemma find_filter: "(\<And>x. P x \<Longrightarrow> Q x) \<Longrightarrow> find P (filter Q xs) = find P xs"
  by (induction xs) auto

lemma list_ex_filter: "(\<And>x. P x \<Longrightarrow> Q x) \<Longrightarrow> list_ex P (filter Q xs) = list_ex P xs"
  by (induction xs) auto

lemma find_outbound_own_rows:
  "find_outbound_to fails addr port start stop el =
   find_outbound_to fails addr port start stop (el\<lparr>elg_rows := filter (\<lambda>x. er_dst_addr (snd x) = Some addr) (elg_rows el)\<rparr>)"
  unfolding find_outbound_to_def split_beta' by (simp add: rev_filter) (subst find_filter, auto)

lemma covers_since_oldest: "oldest_ts el1 = oldest_ts el2 \<Longrightarrow> covers_since fails start el1 = covers_since fails start el2"
  by (simp add: covers_since_def)

definition access_rows :: "event_log \<Rightarrow> event_row list" where
  "access_rows el = filter (\<lambda>r. er_kind r = KIND_FILE_ACCESS) (map snd (elg_rows el))"

lemma habit_in_access_rows:
  "habit_in cs path is_read (filter (\<lambda>r. er_kind r = KIND_FILE_ACCESS) rows) = habit_in cs path is_read rows"
proof (induction cs)
  case (Cons c cs)
  have "filter (access_row c path is_read) (filter (\<lambda>r. er_kind r = KIND_FILE_ACCESS) rows) = filter (access_row c path is_read) rows"
    by (auto simp: access_row_def intro: filter_cong)
  then show ?case using Cons by (simp split: list.split)
qed simp

lemma access_lookup_rows:
  assumes "oldest_ts el1 = oldest_ts el2" "access_rows el1 = access_rows el2"
  shows "access_lookup f exe also_exe path is_read start stop el1 = access_lookup f exe also_exe path is_read start stop el2"
proof -
  have ev: "file_access_evidence b exe also_exe path is_read start stop el =
      (if b then None
       else if list_ex (\<lambda>c. list_ex (\<lambda>r. access_row c path is_read r \<and> in_span start stop r) (access_rows el)) (exe # also_exe)
       then Some Seen
       else if list_ex (\<lambda>r. er_kind r = KIND_FILE_ACCESS \<and> in_span start stop r) (access_rows el) then Some NotSeen
       else Some CannotAttribute)" for b el
    unfolding file_access_evidence_def access_rows_def Let_def
    by (subst list_ex_filter, simp add: access_row_def)+ simp
  have "file_access_habit b exe also_exe path is_read el = (if b then None else Some (habit_in (exe # also_exe) path is_read (access_rows el)))" for b el
    unfolding file_access_habit_def access_rows_def habit_in_access_rows ..
  then show ?thesis using assms ev covers_since_oldest[OF assms(1)] by (simp add: access_lookup_def)
qed

text \<open>
  C20. A peer learns only about its own traffic. Whatever a peer asks, the answer is the same for two hosts
  whose histories agree on where they begin, on the connections to addresses that the mesh view gives to
  this peer, and on the accesses to watched files.
\<close>

theorem answers_reveal_own_traffic_only:
  assumes "oldest_ts el1 = oldest_ts el2"
    and "\<And>addr. asker_owns ip mesh asker addr \<Longrightarrow>
      filter (\<lambda>x. er_dst_addr (snd x) = Some addr) (elg_rows el1) = filter (\<lambda>x. er_dst_addr (snd x) = Some addr) (elg_rows el2)"
    and "access_rows el1 = access_rows el2"
  shows "corr_dispatch reason now (agent_responders ip nf af fails db mesh (Some el1)) asker q =
    corr_dispatch reason now (agent_responders ip nf af fails db mesh (Some el2)) asker q"
proof -
  have net: "net_respond ip nf mesh el1 asker q = net_respond ip nf mesh el2 asker q"
  proof -
    have "find_outbound_to False addr port start stop el1 = find_outbound_to False addr port start stop el2"
      if "asker_owns ip mesh asker addr" for addr port start stop
      using assms(2)[OF that] find_outbound_own_rows[of False addr port start stop]
      by (simp add: find_outbound_to_def)
    then show ?thesis using covers_since_oldest[OF assms(1)]
      by (auto simp: net_respond_def Let_def split: option.split lookup_fault.split)
  qed
  have "file_respond af pp el1 asker q = file_respond af pp el2 asker q" for pp
    unfolding file_respond_def access_lookup_rows[OF assms(1,3)] ..
  then show ?thesis using net by (simp add: corr_dispatch_def agent_responders_def split: sum.split)
qed

text \<open>Two histories that differ in a connection to a third host.\<close>

definition demo_history :: "string \<Rightarrow> event_log" where
  "demo_history addr = \<lparr>elg_rows = [(1, row_from_event (sample_exec 1000000)),
     (2, (row_from_event (sample_connect 5000000))\<lparr>er_dst_addr := Some addr\<rparr>)], elg_seq = 2\<rparr>"

definition demo_asker :: peer_info where
  "demo_asker = demo_mesh_peer\<lparr>pi_whisper_addr := ''10.0.0.2''\<rparr>"

theorem answers_reveal_own_traffic_only_witness:
  "\<forall>q. corr_dispatch (\<lambda>_. []) 0 (agent_responders id NoFault \<lparr>af_covers = False, af_evidence = False, af_habit = False, af_panics = False\<rparr>
       (\<lambda>_. False) open_in_memory [demo_asker] (Some (demo_history ''10.0.0.9''))) [7] q =
   corr_dispatch (\<lambda>_. []) 0 (agent_responders id NoFault \<lparr>af_covers = False, af_evidence = False, af_habit = False, af_panics = False\<rparr>
       (\<lambda>_. False) open_in_memory [demo_asker] (Some (demo_history ''10.0.0.8''))) [7] q"
  by (rule allI, rule answers_reveal_own_traffic_only)
    (simp_all add: demo_history_def demo_asker_def demo_mesh_peer_def asker_owns_def oldest_ts_def access_rows_def
      sample_defs KIND_EXEC_def KIND_CONNECT_def KIND_FILE_ACCESS_def)

section \<open>From the observation to the answer\<close>

lemma digits_value_append:
  "digits_value acc (xs @ ys) = Option.bind (digits_value acc xs) (\<lambda>a. digits_value a ys)"
  by (induction xs arbitrary: acc) (auto split: bind_split)

lemma digit_value_digit: "d < 10 \<Longrightarrow> digit_value (char_of (48 + d)) = Some d"
  by (simp add: digit_value_def)

lemma digits_value_dec: "digits_value 0 (dec n) = Some n"
proof (induction n rule: dec.induct)
  case (1 n)
  show ?case
  proof (cases "n < 10")
    case True
    then show ?thesis by (simp add: dec.simps[of n] digit_value_digit)
  next
    case False
    then show ?thesis using 1 by (simp add: dec.simps[of n] digits_value_append digit_value_digit)
  qed
qed

lemma dec_head_digit: "\<exists>(d :: nat) r. d < 10 \<and> dec n = char_of (48 + d) # r"
proof (induction n rule: dec.induct)
  case (1 n)
  show ?case
  proof (cases "n < 10")
    case False
    then obtain d :: nat and r where "d < 10" "dec (n div 10) = char_of (48 + d) # r" using 1 by blast
    then show ?thesis using False by (auto simp: dec.simps[of n])
  qed (auto simp: dec.simps[of n])
qed

lemma parse_u16_dec: "parse_u16 (dec (unat p)) = Some p"
proof -
  obtain d :: nat and r where d: "d < 10" "dec (unat p) = char_of (48 + d) # r" using dec_head_digit by blast
  have "char_of (48 + d) \<noteq> CHR ''+''" using d(1) by (auto dest: arg_cong[of _ _ "of_char :: char \<Rightarrow> nat"])
  then have "take 1 (dec (unat p)) \<noteq> ''+''" by (simp add: d(2))
  then show ?thesis using digits_value_dec[of "unat p"] unsigned_less[of p] d(2) by (simp add: parse_u16_def Let_def)
qed

text \<open>The time of an event as the agents exchange it.\<close>

definition event_ms :: "int \<Rightarrow> nat" where
  "event_ms ts = nat (ts div 1000000)"

lemma net_claimD:
  assumes "net_claim_for now e half susp = Some cl"
  shows "nc_direction e = Inbound" "\<not> is_unspecified (nc_local_addr e)" "cl_kind cl = KIND_INBOUND_CLAIM" "cl_rule cl = deny_alerts"
    "attribute_value (cl_subject cl) ATTR_DST_ADDR = Some (nc_local_addr e)"
    "attribute_value (cl_subject cl) ATTR_DST_PORT = Some (dec (unat (nc_local_port e)))"
    "cl_window_start_unix_ms cl = fst (window_around now (nc_ts e) half)"
    "cl_window_end_unix_ms cl = snd (window_around now (nc_ts e) half)" "cl_supersedes cl = None"
  using assms
  by (auto simp: net_claim_for_def attribute_value_def attribute_new_def ATTR_DST_ADDR_def ATTR_DST_PORT_def
      split: if_splits prod.splits)

lemma window_around_unat:
  assumes "0 \<le> ts" "event_ms ts + half < 2 ^ 64"
  shows "unat (fst (window_around now ts half)) = event_ms ts - half" "unat (snd (window_around now ts half)) = event_ms ts + half"
proof -
  have ts: "0 \<le> ts div 1000000" using assms(1) by (simp add: pos_imp_zdiv_nonneg_iff)
  have "ts div 1000000 < 2 ^ 64" using assms(2) by (simp add: event_ms_def)
  moreover have "word_of_int (ts div 1000000) = (word_of_nat (event_ms ts) :: u64)"
    using ts by (simp add: event_ms_def)
  moreover have "unat (word_of_nat (event_ms ts) :: u64) = event_ms ts" "unat (word_of_nat half :: u64) = half"
    using assms(2) by (simp_all add: of_nat_inverse)
  ultimately show "unat (fst (window_around now ts half)) = event_ms ts - half"
    "unat (snd (window_around now ts half)) = event_ms ts + half"
    using assms by (simp_all add: window_around_def Let_def unat_saturating_sub unat_saturating_add)
qed

lemma unat_max: "unat (max a b) = max (unat a) (unat b)"
  by (simp add: max_def word_le_nat_alt)

lemma net_clamp_start:
  assumes "net_claim_for now e half susp = Some cl" "0 \<le> nc_ts e" "event_ms (nc_ts e) + half < 2 ^ 64"
  shows "unat (clamp_start NET_MAX_WINDOW_MS (claim_query qid now2 ttl cl)) =
    max (event_ms (nc_ts e) - half) (event_ms (nc_ts e) + half - 600000)"
  using window_around_unat[OF assms(2,3)] net_claimD[OF assms(1)]
  by (simp add: clamp_start_def claim_query_def build_query_def unat_max unat_saturating_sub NET_MAX_WINDOW_MS_def)

lemma net_respond_claim:
  assumes "net_claim_for now e half susp = Some cl"
  shows "net_respond ip NoFault mesh el asker (claim_query qid now2 ttl cl) =
    (let q = claim_query qid now2 ttl cl; start = clamp_start NET_MAX_WINDOW_MS q in
     if \<not> asker_owns ip mesh asker (nc_local_addr e) then refuse q ''dst_addr is not an address of the asker''
     else if covers_since False start el \<noteq> Some True then refuse q ''history does not cover the requested window''
     else case find_outbound_to False (nc_local_addr e) (nc_local_port e) start (cq_window_end_unix_ms q) el of
       Some (Some m) \<Rightarrow> corr_answer q Corroborated (net_evidence m) | _ \<Rightarrow> corr_answer q Denied [])"
  using net_claimD[OF assms] parse_u16_dec[of "nc_local_port e"]
  by (simp add: net_respond_def claim_query_def build_query_def Let_def)

lemma faulty_lookup_never_denies:
  assumes "fault \<noteq> NoFault"
  shows "corroboration_of (net_respond ip fault mesh el asker q) \<noteq> Denied"
  using assms by (cases fault) (simp_all add: net_respond_def Let_def split: option.split)

text \<open>
  C19. A healthy host is not accused of a connection it made. Let a connection from one host to another be
  recorded at both ends, at the answering end through a queue from which nothing was lost and which has
  been drained, into a log pruned in any way whose rows are out of order by at most \<open>d\<close> milliseconds. If the
  clocks differ by less than the half window less \<open>d\<close>, and that half window is at most five minutes, then the
  answer to the claim is no denial, whatever lookup fails, and a round in which only this host answers does
  not confirm the claim.
\<close>

theorem healthy_host_is_not_accused:
  assumes run: "writer_run evs h w" "nothing_lost w" "lw_queue w = []" "skewed d h" "0 \<le> d"
    and outbound: "ev \<in> set evs" "connects_to (nc_local_addr e) (nc_local_port e) ev"
    and claim: "net_claim_for now e half susp = Some cl" "0 \<le> nc_ts e" "event_ms (nc_ts e) + half < 2 ^ 64" "half \<le> 300000"
    and clocks: "int (event_ms (nc_ts e)) - int half + d < system_time_to_unix_ms (event_timestamp ev)"
      "system_time_to_unix_ms (event_timestamp ev) \<le> int (event_ms (nc_ts e)) + int half"
      "d < system_time_to_unix_ms (event_timestamp ev)"
    and answer: "a = net_respond ip fault mesh (lw_log w) asker (claim_query qid now2 ttl cl)"
      "set answers \<subseteq> {None, Some a}"
  shows "corroboration_of a \<noteq> Denied \<and> \<not> ro_confirmed (rr_outcome (finish_corr_round rh now3 now4 cl qid answers ib st))"
proof -
  let ?start = "clamp_start NET_MAX_WINDOW_MS (claim_query qid now2 ttl cl)"
  have start: "uint ?start = int (event_ms (nc_ts e) - half)"
    using net_clamp_start[OF claim(1-3), of qid now2 ttl] claim(4) by (simp add: uint_nat)
  have stop: "uint (cl_window_end_unix_ms cl) = int (event_ms (nc_ts e) + half)"
    using window_around_unat(2)[OF claim(2,3)] net_claimD(8)[OF claim(1)] by (simp add: uint_nat)
  have found: "\<exists>m. find_outbound_to False (nc_local_addr e) (nc_local_port e) ?start (cl_window_end_unix_ms cl) (lw_log w) = Some (Some m)"
    if cov: "covers_since False ?start (lw_log w) = Some True"
  proof -
    have "uint ?start + d < system_time_to_unix_ms (event_timestamp ev)"
      using clocks(1,3) start by (cases "half \<le> event_ms (nc_ts e)") (simp_all add: of_nat_diff)
    moreover have "system_time_to_unix_ms (event_timestamp ev) \<le> uint (cl_window_end_unix_ms cl)"
      using clocks(2) stop by simp
    ultimately show ?thesis by (rule recorded_rows_found[OF run outbound cov])
  qed
  have no_denial: "corroboration_of a \<noteq> Denied"
  proof (cases "fault = NoFault")
    case True
    then show ?thesis using found net_respond_claim[OF claim(1), of ip mesh "lw_log w" asker qid now2 ttl]
      by (auto simp: answer(1) Let_def claim_query_def build_query_def split: option.splits)
  next
    case False
    then show ?thesis using faulty_lookup_never_denies by (simp add: answer(1))
  qed
  then have "how_many Denied answers = 0" using answer(2) by (auto simp: how_many_def filter_empty_conv says_def)
  then show ?thesis using no_denial net_claimD(4)[OF claim(1)] by (simp add: rule_confirms_answers deny_alerts_def)
qed

definition demo_inbound :: network_connect where
  "demo_inbound = \<lparr>nc_pid = 0, nc_comm = [], nc_family = V4, nc_daddr = ''10.0.0.1'', nc_local_addr = ''10.0.0.2'', nc_dport = 46620,
     nc_local_port = 22, nc_direction = Inbound, nc_ts = 5000000\<rparr>"

definition demo_inbound_claim :: "nat \<Rightarrow> claim" where
  "demo_inbound_claim half = the (net_claim_for 0 demo_inbound half (Fin 1))"

lemma demo_inbound_claim_eq: "net_claim_for 0 demo_inbound half (Fin 1) = Some (demo_inbound_claim half)"
  by (simp add: demo_inbound_claim_def net_claim_for_def demo_inbound_def is_unspecified_def split: prod.split)

theorem healthy_host_is_not_accused_witness:
  "let a = net_respond id NoFault [demo_asker] (lw_log sample_writer) [7] (claim_query ''q'' 0 5 (demo_inbound_claim 300000)) in
     corroboration_of a \<noteq> Denied \<and>
     \<not> ro_confirmed (rr_outcome (finish_corr_round \<lparr>rh_originator_fp = [7], rh_backend = []\<rparr> 9 9 (demo_inbound_claim 300000) ''q''
       [Some a] (inbox_new 2 1000) (\<lambda>_. None)))"
  unfolding Let_def
proof (rule healthy_host_is_not_accused[where d = 0 and e = demo_inbound and ev = "sample_connect 5000000" and half = 300000,
      OF sample_run _ _ _ _ _ _ demo_inbound_claim_eq])
  show "nothing_lost sample_writer" "lw_queue sample_writer = []"
    by (simp_all add: nothing_lost_def sample_writer_def sample_defs)
  show "skewed 0 (rows_of [sample_exec 1000000, sample_connect 5000000])" by (simp add: skewed_def sample_defs)
  show "connects_to (nc_local_addr demo_inbound) (nc_local_port demo_inbound) (sample_connect 5000000)"
    by (simp add: connects_to_def demo_inbound_def sample_connect_def)
qed (simp_all add: demo_inbound_def event_ms_def sample_connect_def system_time_to_unix_ms_def I64_MAX_def)

text \<open>
  A generous search window makes healthy hosts deny. The responder searches only the last ten minutes of
  the window it is asked about. With a half window above ten minutes these lie after the observation: a host
  whose whole history up to that moment is in its log denies the claim, even if the connection is in it, and
  the round raises the alert.
\<close>

theorem wide_window_forges_denial:
  assumes "net_claim_for now e half susp = Some cl" "0 \<le> nc_ts e" "event_ms (nc_ts e) + half < 2 ^ 63" "600000 < half"
    and "asker_owns ip mesh asker (nc_local_addr e)"
    and "elg_rows el \<noteq> []" "\<forall>x \<in> set (elg_rows el). row_ts (snd x) \<le> int (event_ms (nc_ts e))"
    and "a = net_respond ip NoFault mesh el asker (claim_query qid now2 ttl cl)"
  shows "corroboration_of a = Denied \<and> ro_confirmed (rr_outcome (finish_corr_round rh now3 now4 cl qid [Some a] ib st))"
proof -
  let ?start = "clamp_start NET_MAX_WINDOW_MS (claim_query qid now2 ttl cl)"
  have "event_ms (nc_ts e) + half < 2 ^ 64" using assms(3) by simp
  from net_clamp_start[OF assms(1,2) this, of qid now2 ttl] assms(3,4)
  have start: "int (event_ms (nc_ts e)) < uint ?start" "uint ?start \<le> I64_MAX" by (auto simp: uint_nat I64_MAX_def max_def)
  obtain m where m: "oldest_ts el = Some m" using assms(6) by (cases "elg_rows el") (simp_all add: oldest_ts_def)
  obtain x where "x \<in> set (elg_rows el)" "row_ts (snd x) = m" using oldest_tsD[OF m] by blast
  then have "m < uint ?start" using assms(7) start(1) by fastforce
  then have cov: "covers_since False ?start el = Some True" using m uint_ge_0[of ?start] by (simp add: covers_since_def)
  have "\<not> in_span ?start stop (snd x)" if "x \<in> set (elg_rows el)" for x stop
    using that assms(7) start by (force simp: in_span_def i64_or_def)
  then have none: "find_outbound_to False addr port ?start stop el = Some None" for addr port stop
    unfolding find_outbound_to_def split_beta' by (auto simp: find_None_iff)
  have a: "corroboration_of a = Denied"
    using net_respond_claim[OF assms(1), of ip mesh el asker qid now2 ttl] assms(5) cov none by (simp add: assms(8) Let_def)
  then show ?thesis using net_claimD(4)[OF assms(1)]
    by (simp add: rule_confirms_answers deny_alerts_def how_many_def says_def)
qed

theorem wide_window_forges_denial_witness:
  "let a = net_respond id NoFault [demo_asker] (lw_log sample_writer) [7] (claim_query ''q'' 0 5 (demo_inbound_claim 600001)) in
     corroboration_of a = Denied \<and>
     ro_confirmed (rr_outcome (finish_corr_round \<lparr>rh_originator_fp = [7], rh_backend = []\<rparr> 9 9 (demo_inbound_claim 600001) ''q''
       [Some a] (inbox_new 2 1000) (\<lambda>_. None)))"
  unfolding Let_def
  by (rule wide_window_forges_denial[OF demo_inbound_claim_eq, where el = "lw_log sample_writer" and ip = id and mesh = "[demo_asker]" and asker = "[7]"])
    (simp_all add: demo_inbound_def event_ms_def asker_owns_def demo_asker_def demo_mesh_peer_def sample_writer_def sample_defs)

section \<open>Rounds about files\<close>

lemma file_claim_never_confirms:
  assumes "file_claim_for now exe pkg path is_read ep ts half explained = Some cl"
  shows "\<not> ro_confirmed (rr_outcome (finish_corr_round rh now3 now4 cl qid answers ib st)) \<and>
    cl_supersedes cl = Some ep \<and> cl_explained_suspicion cl = explained"
proof -
  have "cl_rule cl = \<lparr>ru_deny_quorum = 0, ru_corroboration_clears = True\<rparr>" "cl_supersedes cl = Some ep"
    "cl_explained_suspicion cl = explained"
    using assms by (auto simp: file_claim_for_def Let_def bind_eq_Some_conv split: if_splits prod.splits)
  then show ?thesis by (simp add: rule_confirms_answers)
qed

text \<open>A denial about a file: the history reaches back, attributes accesses in the window, and has no such access at all.\<close>

lemma file_denial_is_absence:
  assumes "corroboration_of (file_respond f package_paths el asker q) = Denied" "\<not> af_habit f"
    and "attribute_value (cq_subject q) ATTR_EXE = Some exe" "attribute_value (cq_subject q) ATTR_PATH = Some path"
    and "attribute_value (cq_subject q) ATTR_ACCESS = Some (op_label is_read)"
  shows "\<not> list_ex (access_row exe path is_read) (access_rows el) \<and> access_rows el \<noteq> []"
proof -
  have op: "op_label is_read = ''read'' \<longleftrightarrow> is_read" "op_label is_read = ''read'' \<or> op_label is_read = ''write''"
    by (auto simp: op_label_def)
  obtain also_exe where l: "access_lookup f exe also_exe path is_read (clamp_start FILE_MAX_WINDOW_MS q) (cq_window_end_unix_ms q) el
      = Some (NotSeen, None)"
    using assms(1) op by (auto simp: file_respond_def assms(3-5) Let_def split: if_splits option.splits access_evidence.splits)
  then have "habit_in (exe # also_exe) path is_read (map snd (elg_rows el)) = None"
    using assms(2) by (auto simp: access_lookup_def file_access_habit_def bind_eq_Some_conv split: if_splits)
  then have "filter (access_row exe path is_read) (map snd (elg_rows el)) = []"
    by (auto split: list.splits)
  moreover have "access_rows el \<noteq> []"
    using l by (auto simp: access_lookup_def file_access_evidence_def bind_eq_Some_conv Let_def access_rows_def list_ex_iff filter_empty_conv
        split: if_splits)
  ultimately show ?thesis by (auto simp: access_rows_def list_ex_iff filter_empty_conv)
qed

end
