(* ===== verification/Detections.thy ===== *)
theory Detections
  imports Prelude
begin

text \<open>
  How often each rule fired, \<open>crates/bowery-agent/src/detection_stats.rs\<close>. The set of rules is fixed when the
  counters are made. The counters are unbounded: a 64-bit one would need that many firings to overflow.
\<close>

section \<open>The counters\<close>

record rule_counters =
  rc_fired :: nat
  rc_flushed :: nat
  rc_last_unix_ms :: u64

record rule_stat =
  rst_fired :: nat
  rst_last_unix_ms :: "u64 option"

type_synonym detection_stats = "string \<Rightarrow> rule_counters option"

definition detections_new :: "string list \<Rightarrow> detection_stats" where
  "detections_new ids r = (if r \<in> set ids then Some \<lparr>rc_fired = 0, rc_flushed = 0, rc_last_unix_ms = 0\<rparr> else None)"

definition detection_record :: "u64 \<Rightarrow> string \<Rightarrow> detection_stats \<Rightarrow> detection_stats" where
  "detection_record now r ds =
     (case ds r of None \<Rightarrow> ds | Some c \<Rightarrow> ds(r \<mapsto> c\<lparr>rc_fired := Suc (rc_fired c), rc_last_unix_ms := now\<rparr>))"

definition last_fired :: "rule_counters \<Rightarrow> u64 option" where
  "last_fired c = (if 0 < rc_last_unix_ms c then Some (rc_last_unix_ms c) else None)"

definition detections_snapshot :: "detection_stats \<Rightarrow> string \<Rightarrow> rule_stat option" where
  "detections_snapshot ds r = map_option (\<lambda>c. \<lparr>rst_fired = rc_fired c, rst_last_unix_ms = last_fired c\<rparr>) (ds r)"

definition detections_unflushed :: "detection_stats \<Rightarrow> string \<Rightarrow> nat option" where
  "detections_unflushed ds r = map_option (\<lambda>c. rc_fired c - rc_flushed c) (ds r)"

definition detections_drain :: "detection_stats \<Rightarrow> (string \<Rightarrow> (nat \<times> u64 option) option) \<times> detection_stats" where
  "detections_drain ds =
     (\<lambda>r. map_option (\<lambda>c. (rc_fired c - rc_flushed c, last_fired c)) (ds r),
      \<lambda>r. map_option (\<lambda>c. c\<lparr>rc_flushed := rc_fired c\<rparr>) (ds r))"

section \<open>No firing is lost or counted twice\<close>

datatype stats_op = Fired u64 string | Drained

fun stats_run :: "stats_op list \<Rightarrow> detection_stats \<Rightarrow> (string \<Rightarrow> nat) \<times> detection_stats" where
  "stats_run [] ds = (\<lambda>_. 0, ds)"
| "stats_run (Fired now r # xs) ds = stats_run xs (detection_record now r ds)"
| "stats_run (Drained # xs) ds =
     (case detections_drain ds of (out, ds1) \<Rightarrow> case stats_run xs ds1 of (tot, ds2) \<Rightarrow>
        (\<lambda>r. tot r + (case out r of None \<Rightarrow> 0 | Some (d, _) \<Rightarrow> d), ds2))"

definition firings :: "string \<Rightarrow> stats_op list \<Rightarrow> nat" where
  "firings r xs = length (filter (\<lambda>x. case x of Fired _ q \<Rightarrow> q = r | Drained \<Rightarrow> False) xs)"

lemma stats_run_counts:
  assumes "ds r = Some c" "rc_flushed c \<le> rc_fired c" "stats_run xs ds = (tot, ds')"
  shows "\<exists>c'. ds' r = Some c' \<and> rc_flushed c' \<le> rc_fired c' \<and> rc_fired c' = rc_fired c + firings r xs \<and>
    tot r + rc_fired c = rc_flushed c' + (rc_fired c - rc_flushed c)"
  using assms
proof (induction xs arbitrary: ds c tot)
  case (Cons x xs)
  show ?case
  proof (cases x)
    case (Fired now q)
    obtain c1 where c1: "detection_record now q ds r = Some c1" "rc_flushed c1 = rc_flushed c"
      "rc_fired c1 = rc_fired c + (if q = r then 1 else 0)"
      using Cons.prems(1) by (cases "q = r"; cases "ds q") (auto simp: detection_record_def)
    then have "stats_run xs (detection_record now q ds) = (tot, ds')" "rc_flushed c1 \<le> rc_fired c1"
      using Cons.prems Fired by auto
    from Cons.IH[OF c1(1) this(2,1)] show ?thesis using c1 Cons.prems(2) Fired by (auto simp: firings_def)
  next
    case Drained
    obtain tot1 where tot1: "stats_run xs (snd (detections_drain ds)) = (tot1, ds')"
      "tot r = tot1 r + (rc_fired c - rc_flushed c)"
      using Cons.prems(1,3) Drained by (auto simp: detections_drain_def split: prod.splits)
    have "snd (detections_drain ds) r = Some (c\<lparr>rc_flushed := rc_fired c\<rparr>)"
      using Cons.prems(1) by (simp add: detections_drain_def)
    from Cons.IH[OF this _ tot1(1)] show ?thesis using tot1(2) Drained Cons.prems(2) by (auto simp: firings_def)
  qed
qed (auto simp: firings_def)

theorem flushed_counts_add_up:
  assumes "r \<in> set ids" "stats_run xs (detections_new ids) = (tot, ds)"
  shows "\<exists>st n. detections_snapshot ds r = Some st \<and> rst_fired st = firings r xs \<and>
    detections_unflushed ds r = Some n \<and> tot r + n = firings r xs"
proof -
  have "detections_new ids r = Some \<lparr>rc_fired = 0, rc_flushed = 0, rc_last_unix_ms = 0\<rparr>" using assms(1) by (simp add: detections_new_def)
  from stats_run_counts[OF this _ assms(2)] obtain c where "ds r = Some c" "rc_flushed c \<le> rc_fired c"
    "rc_fired c = firings r xs" "tot r = rc_flushed c" by auto
  then show ?thesis by (auto simp: detections_snapshot_def detections_unflushed_def)
qed

end
