(* ===== verification/Suppress.thy ===== *)
theory Suppress
  imports Bounded_Map Baseline
begin

text \<open>
  Folding of repeated findings, \<open>crates/bowery-analysis/src/suppress.rs\<close>. Times are readings of a
  monotonic clock in nanoseconds; differences of instants saturate at zero, as the library's do. The
  counters are unbounded: a 64-bit one would need that many occurrences within one window to overflow.
\<close>

section \<open>The suppressor\<close>

datatype suppress_decision = Report nat | Suppress

type_synonym sup_key = "string \<times> string \<times> string"

record sup_entry =
  se_reported_at :: nat
  se_folded :: nat

record alert_suppressor =
  as_inner :: "(sup_key \<times> sup_entry) list"
  as_window :: nat
  as_max_tracked :: nat

definition suppressor_new :: "nat \<Rightarrow> alert_suppressor" where
  "suppressor_new window = \<lparr>as_inner = [], as_window = window, as_max_tracked = 4096\<rparr>"

definition sup_key :: "string \<Rightarrow> string \<Rightarrow> string option \<Rightarrow> sup_key" where
  "sup_key rule_id path exe = (rule_id, path, case exe of None \<Rightarrow> [] | Some e \<Rightarrow> e)"

definition observe_key :: "sup_key \<Rightarrow> nat \<Rightarrow> alert_suppressor \<Rightarrow> suppress_decision \<times> alert_suppressor" where
  "observe_key key now s =
     (let inner = empty_if_full (as_max_tracked s) key (as_inner s) in
      case map_of inner key of
        None \<Rightarrow> (Report 0, s\<lparr>as_inner := AList.update key \<lparr>se_reported_at = now, se_folded = 0\<rparr> inner\<rparr>)
      | Some entry \<Rightarrow>
          if as_window s \<le> now - se_reported_at entry
          then (Report (se_folded entry),
                s\<lparr>as_inner := AList.update key \<lparr>se_reported_at = now, se_folded = 0\<rparr> inner\<rparr>)
          else (Suppress, s\<lparr>as_inner := AList.update key (entry\<lparr>se_folded := Suc (se_folded entry)\<rparr>) inner\<rparr>))"

definition observe :: "string \<Rightarrow> string \<Rightarrow> string option \<Rightarrow> nat \<Rightarrow> alert_suppressor \<Rightarrow> suppress_decision \<times> alert_suppressor" where
  "observe rule_id path exe now s = observe_key (sup_key rule_id path exe) now s"

definition folded_note :: "nat \<Rightarrow> nat \<Rightarrow> string" where
  "folded_note folded window =
     (if folded = 0 then []
      else let secs = window div 1000000000;
               span = (if 3600 \<le> secs then dec (secs div 3600) @ ''h''
                       else if 60 \<le> secs then dec (secs div 60) @ ''m''
                       else dec secs @ ''s'')
           in '' ('' @ dec folded @ '' further occurrence'' @ (if folded = 1 then [] else ''s'') @
              '' in the preceding '' @ span @ '', folded into this one)'')"

section \<open>Sequences of occurrences\<close>

text \<open>Occurrences in the order they are observed, and what was decided about each.\<close>

fun observe_run :: "(sup_key \<times> nat) list \<Rightarrow> alert_suppressor \<Rightarrow> (sup_key \<times> nat \<times> suppress_decision) list \<times> alert_suppressor" where
  "observe_run [] s = ([], s)"
| "observe_run ((k, now) # evs) s =
     (case observe_key k now s of (d, s1) \<Rightarrow> case observe_run evs s1 of (h, s2) \<Rightarrow> ((k, now, d) # h, s2))"

fun stands_for :: "suppress_decision \<Rightarrow> nat" where
  "stands_for (Report n) = Suc n"
| "stands_for Suppress = 0"

definition accounted :: "sup_key \<Rightarrow> (sup_key \<times> nat \<times> suppress_decision) list \<Rightarrow> nat" where
  "accounted k h = sum_list (map (\<lambda>(j, _, d). if j = k then stands_for d else 0) h)"

definition pending :: "sup_key \<Rightarrow> alert_suppressor \<Rightarrow> nat" where
  "pending k s = (case map_of (as_inner s) k of None \<Rightarrow> 0 | Some e \<Rightarrow> se_folded e)"

definition occurrences :: "sup_key \<Rightarrow> (sup_key \<times> nat) list \<Rightarrow> nat" where
  "occurrences k evs = length (filter (\<lambda>(j, _). j = k) evs)"

lemma observe_key_frame:
  "observe_key k now s = (d, s') \<Longrightarrow> as_window s' = as_window s \<and> as_max_tracked s' = as_max_tracked s"
  by (auto simp: observe_key_def Let_def split: option.splits if_splits)

lemma update_keys: "fst ` set (AList.update k v m) = insert k (fst ` set m)"
  by (simp add: dom_update)

lemma observe_key_cases:
  assumes "observe_key k now s = (d, s')"
  obtains (new) "map_of (empty_if_full (as_max_tracked s) k (as_inner s)) k = None" "d = Report 0"
      "as_inner s' = AList.update k \<lparr>se_reported_at = now, se_folded = 0\<rparr> (empty_if_full (as_max_tracked s) k (as_inner s))"
  | (again) e where "map_of (empty_if_full (as_max_tracked s) k (as_inner s)) k = Some e" "d = Report (se_folded e)"
      "as_inner s' = AList.update k \<lparr>se_reported_at = now, se_folded = 0\<rparr> (empty_if_full (as_max_tracked s) k (as_inner s))"
  | (fold) e where "map_of (empty_if_full (as_max_tracked s) k (as_inner s)) k = Some e" "d = Suppress" "now - se_reported_at e < as_window s"
      "as_inner s' = AList.update k (e\<lparr>se_folded := Suc (se_folded e)\<rparr>) (empty_if_full (as_max_tracked s) k (as_inner s))"
proof (cases "map_of (empty_if_full (as_max_tracked s) k (as_inner s)) k")
  case None
  with assms show ?thesis by - (rule new, auto simp: observe_key_def)
next
  case (Some e)
  show ?thesis
  proof (cases "as_window s \<le> now - se_reported_at e")
    case True
    with assms Some show ?thesis by - (rule again, auto simp: observe_key_def)
  next
    case False
    with assms Some show ?thesis by - (rule fold, auto simp: observe_key_def)
  qed
qed

lemma observe_key_fits:
  assumes "distinct (map fst (as_inner s))" "fst ` set (as_inner s) \<subseteq> K" "k \<in> K" "finite K" "card K \<le> as_max_tracked s"
    and obs: "observe_key k now s = (d, s')"
  shows "distinct (map fst (as_inner s')) \<and> fst ` set (as_inner s') \<subseteq> K \<and>
    (if j = k then stands_for d + pending j s' = Suc (pending j s) else pending j s' = pending j s)"
proof -
  have room: "empty_if_full (as_max_tracked s) k (as_inner s) = as_inner s" by (rule empty_if_full_fits [OF assms(1-5)])
  from obs show ?thesis
  proof (cases rule: observe_key_cases)
    case new
    with room assms(1-3) show ?thesis by (simp add: pending_def update_conv' update_keys distinct_update)
  next
    case (again e)
    with room assms(1-3) show ?thesis by (simp add: pending_def update_conv' update_keys distinct_update)
  next
    case (fold e)
    with room assms(1-3) show ?thesis by (simp add: pending_def update_conv' update_keys distinct_update)
  qed
qed

lemma observe_run_accounts:
  assumes "distinct (map fst (as_inner s))" "fst ` set (as_inner s) \<subseteq> K" "fst ` set evs \<subseteq> K" "finite K" "card K \<le> as_max_tracked s"
    and "observe_run evs s = (h, s')"
  shows "occurrences k evs + pending k s = accounted k h + pending k s'"
  using assms
proof (induction evs arbitrary: s h s')
  case (Cons ev evs)
  obtain j now where ev: "ev = (j, now)" by (cases ev)
  obtain d s1 where o1: "observe_key j now s = (d, s1)" by (cases "observe_key j now s")
  obtain h1 s2 where r: "observe_run evs s1 = (h1, s2)" by (cases "observe_run evs s1")
  from Cons.prems(6) ev o1 r have h: "h = (j, now, d) # h1" "s' = s2" by simp_all
  have jK: "j \<in> K" using Cons.prems(3) ev by simp
  note fit = observe_key_fits [OF Cons.prems(1,2) jK Cons.prems(4,5) o1, of k]
  have "occurrences k evs + pending k s1 = accounted k h1 + pending k s'"
    using Cons.prems(3-5) fit r h observe_key_frame [OF o1] by (intro Cons.IH) auto
  with fit show ?case by (cases "j = k") (simp_all add: ev h occurrences_def accounted_def)
qed (simp add: occurrences_def accounted_def)

text \<open>Every entry of the table records a report that was made.\<close>

lemma observe_key_reported:
  assumes "observe_key k now s = (d, s')"
    and inv: "\<And>j e. map_of (as_inner s) j = Some e \<Longrightarrow> \<exists>n. (j, se_reported_at e, Report n) \<in> set h"
  shows "(d = Suppress \<longrightarrow> (\<exists>t n. (k, t, Report n) \<in> set h \<and> now - t < as_window s)) \<and>
    (\<forall>j e. map_of (as_inner s') j = Some e \<longrightarrow> (\<exists>n. (j, se_reported_at e, Report n) \<in> set (h @ [(k, now, d)])))"
proof -
  have room: "\<exists>n. (j, se_reported_at e, Report n) \<in> set h" if "map_of (empty_if_full (as_max_tracked s) k (as_inner s)) j = Some e" for j e
    using map_of_empty_if_full_Some [OF that] inv by blast
  from assms(1) show ?thesis
  proof (cases rule: observe_key_cases)
    case new
    then show ?thesis using room by (simp add: update_conv') blast
  next
    case (again e)
    then show ?thesis using room by (simp add: update_conv') blast
  next
    case (fold e)
    then show ?thesis using room [OF fold(1)] room by (simp add: update_conv') blast
  qed
qed

lemma observe_run_reported:
  assumes "observe_run evs s = (h', s')"
    and "\<And>j e. map_of (as_inner s) j = Some e \<Longrightarrow> \<exists>n. (j, se_reported_at e, Report n) \<in> set h"
    and "h' = a @ (k, now, Suppress) # b"
  shows "\<exists>t n. (k, t, Report n) \<in> set (h @ a) \<and> now - t < as_window s"
  using assms
proof (induction evs arbitrary: s h h' a s')
  case (Cons ev evs)
  obtain j t where ev: "ev = (j, t)" by (cases ev)
  obtain d s1 where o1: "observe_key j t s = (d, s1)" by (cases "observe_key j t s")
  obtain h1 s2 where r: "observe_run evs s1 = (h1, s2)" by (cases "observe_run evs s1")
  from Cons.prems(1) ev o1 r have h: "h' = (j, t, d) # h1" by simp
  note rep = observe_key_reported [OF o1 Cons.prems(2)]
  show ?case
  proof (cases a)
    case Nil
    with h Cons.prems(3) rep show ?thesis by auto
  next
    case (Cons x a')
    with h Cons.prems(3) have "x = (j, t, d)" "h1 = a' @ (k, now, Suppress) # b" by simp_all
    with Cons.IH [OF r, of "h @ [(j, t, d)]" a'] rep show ?thesis
      by (auto simp: Cons observe_key_frame [OF o1])
  qed
qed simp

text \<open>
  Folding loses nothing while the table is large enough. Whatever findings occur in whatever order,
  if their distinct keys number at most 4096, then every occurrence of a finding is one that a report
  was made for, one that a report says it stands for, or one that is counted for the next report.
\<close>

theorem folding_accounts_for_all:
  assumes "card (fst ` set evs) \<le> 4096" "observe_run evs (suppressor_new window) = (h, s)"
  shows "occurrences k evs = accounted k h + pending k s"
  using observe_run_accounts [of "suppressor_new window" "fst ` set evs" evs h s k] assms
  by (simp add: suppressor_new_def pending_def)

theorem folding_accounts_for_all_witness:
  "let k = (''r'', ''/p'', ''e''); evs = [(k, 0), (k, 5), (k, 7), (k, 12)]; (h, s) = observe_run evs (suppressor_new 10) in
   accounted k h + pending k s = 4 \<and> (k, 12, Report 2) \<in> set h"
proof -
  let ?k = "(''r'', ''/p'', ''e'')" and ?evs = "[((''r'', ''/p'', ''e''), 0), ((''r'', ''/p'', ''e''), 5), ((''r'', ''/p'', ''e''), 7), ((''r'', ''/p'', ''e''), 12)]"
  obtain h s where r: "observe_run ?evs (suppressor_new 10) = (h, s)" by (cases "observe_run ?evs (suppressor_new 10)")
  then have "(?k, 12, Report 2) \<in> set h" by (auto simp: observe_key_def suppressor_new_def empty_if_full_def)
  moreover have "accounted ?k h + pending ?k s = 4"
    using folding_accounts_for_all [OF _ r, of ?k] by (simp add: occurrences_def)
  ultimately show ?thesis using r by (simp add: Let_def)
qed

text \<open>
  A suppressed occurrence always has a report of the same finding less than one window before it, even
  when the table had to be emptied in between.
\<close>

lemma suppressed_is_recently_reported:
  assumes "observe_run evs (suppressor_new window) = (a @ (k, now, Suppress) # b, s)"
  shows "\<exists>t n. (k, t, Report n) \<in> set a \<and> now - t < window"
  using observe_run_reported [OF assms, of "[]" a k now b] by (simp add: suppressor_new_def)

text \<open>
  What emptying the table costs: the count of a finding that was being folded is gone, and its next
  report says that it stands for nothing but itself.
\<close>

lemma emptying_loses_counts:
  assumes "map_of (as_inner s) k = Some e" "as_max_tracked s \<le> length (as_inner s)" "map_of (as_inner s) j = None" "1 < as_max_tracked s"
  shows "fst (observe_key k t' (snd (observe_key j t s))) = Report 0"
  using assms by (auto simp: observe_key_def empty_if_full_def update_conv')

end
