(* ===== verification/Proc_Table.thy ===== *)
theory Proc_Table
  imports Bounded_Map
begin

text \<open>
  The table that names processes which have already exited, \<open>crates/bowery-agent/src/proc_table.rs\<close>,
  and the two lookups \<open>crates/bowery-agent/src/pipeline.rs\<close> builds on it. Times are nanoseconds since
  the epoch on the wall clock, which may go backwards; the two mutexes make each operation on a map
  atomic.
\<close>

section \<open>The table\<close>

definition EXIT_GRACE :: int where "EXIT_GRACE = 2000000000"
definition PROC_DEFAULT_TTL :: int where "PROC_DEFAULT_TTL = 300000000000"

record proc_entry =
  pe_current :: "string \<times> int"
  pe_exited_at :: "int option"
  pe_previous :: "(string \<times> int) option"

record proc_table =
  pt_inner :: "(u32 \<times> proc_entry) list"
  pt_forks :: "(u32 \<times> (u32 \<times> int)) list"
  pt_ttl :: int
  pt_max_tracked :: nat

definition proc_new :: "int \<Rightarrow> proc_table" where
  "proc_new ttl = \<lparr>pt_inner = [], pt_forks = [], pt_ttl = ttl, pt_max_tracked = 8192\<rparr>"

definition proc_record :: "u32 \<Rightarrow> string \<Rightarrow> int \<Rightarrow> proc_table \<Rightarrow> proc_table" where
  "proc_record pid exe ts t =
     (let inner = empty_if_full (pt_max_tracked t) pid (pt_inner t);
          previous = map_option pe_current (map_of inner pid)
      in t\<lparr>pt_inner := AList.update pid \<lparr>pe_current = (exe, ts), pe_exited_at = None, pe_previous = previous\<rparr> inner\<rparr>)"

definition previous_exe :: "proc_table \<Rightarrow> u32 \<Rightarrow> int \<Rightarrow> string option" where
  "previous_exe t pid at =
     (case map_of (pt_inner t) pid of None \<Rightarrow> None
      | Some entry \<Rightarrow> (case pe_previous entry of None \<Rightarrow> None
          | Some (exe, ts) \<Rightarrow> if at < ts then None else if pt_ttl t < at - ts then None else Some exe))"

definition record_fork :: "u32 \<Rightarrow> u32 \<Rightarrow> int \<Rightarrow> proc_table \<Rightarrow> proc_table" where
  "record_fork parent child ts t = t\<lparr>pt_forks := put_bounded (pt_max_tracked t) child (parent, ts) (pt_forks t)\<rparr>"

definition forked_from :: "proc_table \<Rightarrow> u32 \<Rightarrow> int \<Rightarrow> u32 option" where
  "forked_from t child at =
     (case map_of (pt_forks t) child of None \<Rightarrow> None
      | Some (parent, ts) \<Rightarrow> if at < ts then None else if pt_ttl t < at - ts then None else Some parent)"

definition exe_at :: "proc_table \<Rightarrow> u32 \<Rightarrow> int \<Rightarrow> string option" where
  "exe_at t pid at =
     (case map_of (pt_inner t) pid of None \<Rightarrow> None
      | Some entry \<Rightarrow>
          if (case pe_exited_at entry of None \<Rightarrow> False | Some exited \<Rightarrow> exited \<le> at \<and> EXIT_GRACE < at - exited) then None
          else (case pe_current entry of (exe, ts) \<Rightarrow>
                 if at < ts then None else if pt_ttl t < at - ts then None else Some exe))"

definition forget :: "u32 \<Rightarrow> int \<Rightarrow> proc_table \<Rightarrow> proc_table" where
  "forget pid ts t =
     (let t1 = t\<lparr>pt_forks := AList.delete pid (pt_forks t)\<rparr> in
      case map_of (pt_inner t1) pid of None \<Rightarrow> t1
      | Some entry \<Rightarrow> t1\<lparr>pt_inner := AList.update pid (entry\<lparr>pe_exited_at := Some ts\<rparr>) (pt_inner t1)\<rparr>)"

text \<open>The binary of a parent, for a privilege transition.\<close>

definition remembered_parent_exe :: "proc_table \<Rightarrow> u32 \<Rightarrow> int \<Rightarrow> string option" where
  "remembered_parent_exe t ppid ts =
     (case exe_at t ppid ts of Some e \<Rightarrow> Some e
      | None \<Rightarrow> (case forked_from t ppid ts of None \<Rightarrow> None | Some origin \<Rightarrow> exe_at t origin ts))"

text \<open>
  The binary behind a file access: what \<open>/proc\<close> says, if the process still exists, else the exec that
  was seen, else the exec of the process it was forked from.
\<close>

definition accessor_exe :: "(u32 \<Rightarrow> string option) \<Rightarrow> proc_table \<Rightarrow> u32 \<Rightarrow> int \<Rightarrow> string option" where
  "accessor_exe pid_exe_path t pid ts =
     (case pid_exe_path pid of Some e \<Rightarrow> Some e
      | None \<Rightarrow> (case exe_at t pid ts of Some e \<Rightarrow> Some e
          | None \<Rightarrow> (case forked_from t pid ts of None \<Rightarrow> None | Some parent \<Rightarrow> exe_at t parent ts)))"

text \<open>The process events of the pipeline, in the order they are received.\<close>

datatype proc_event = PExec u32 string int | PFork u32 u32 int | PExit u32 int

fun proc_step :: "proc_event \<Rightarrow> proc_table \<Rightarrow> proc_table" where
  "proc_step (PExec pid exe ts) t = proc_record pid exe ts t"
| "proc_step (PFork parent child ts) t = record_fork parent child ts t"
| "proc_step (PExit pid ts) t = forget pid ts t"

section \<open>What the lookups answer\<close>

text \<open>
  The reference: a history of events with the newest first, and for a process its last exec with the
  exit that followed, the exec before, and the fork it came from unless it has exited since.
\<close>

fun last_exec :: "proc_event list \<Rightarrow> u32 \<Rightarrow> (string \<times> int \<times> int option) option" where
  "last_exec [] pid = None"
| "last_exec (PExec p e ts # h) pid = (if p = pid then Some (e, ts, None) else last_exec h pid)"
| "last_exec (PFork p c ts # h) pid = last_exec h pid"
| "last_exec (PExit p ts # h) pid =
     (if p = pid then map_option (\<lambda>(e, t0, _). (e, t0, Some ts)) (last_exec h pid) else last_exec h pid)"

fun exec_before :: "proc_event list \<Rightarrow> u32 \<Rightarrow> (string \<times> int) option" where
  "exec_before [] pid = None"
| "exec_before (PExec p e ts # h) pid =
     (if p = pid then map_option (\<lambda>(e, t0, _). (e, t0)) (last_exec h pid) else exec_before h pid)"
| "exec_before (_ # h) pid = exec_before h pid"

fun last_fork :: "proc_event list \<Rightarrow> u32 \<Rightarrow> (u32 \<times> int) option" where
  "last_fork [] pid = None"
| "last_fork (PExec p e ts # h) pid = last_fork h pid"
| "last_fork (PFork p c ts # h) pid = (if c = pid then Some (p, ts) else last_fork h pid)"
| "last_fork (PExit p ts # h) pid = (if p = pid then None else last_fork h pid)"

definition fresh :: "int \<Rightarrow> int \<Rightarrow> int \<Rightarrow> bool" where
  "fresh ttl at ts \<longleftrightarrow> ts \<le> at \<and> at - ts \<le> ttl"

definition exe_spec :: "int \<Rightarrow> proc_event list \<Rightarrow> u32 \<Rightarrow> int \<Rightarrow> string option" where
  "exe_spec ttl h pid at =
     (case last_exec h pid of
        Some (e, ts, exited) \<Rightarrow>
          if fresh ttl at ts \<and> (case exited of None \<Rightarrow> True | Some x \<Rightarrow> at \<le> x + EXIT_GRACE) then Some e else None
      | None \<Rightarrow> None)"

text \<open>
  A map that is full is emptied before a new process enters it. So each lookup sees the part of the
  history since its map was last emptied: the processes that have executed in it, and those that have
  been forked and have not exited, are the keys.
\<close>

fun exec_pids :: "proc_event list \<Rightarrow> u32 set" where
  "exec_pids [] = {}"
| "exec_pids (PExec p e ts # h) = insert p (exec_pids h)"
| "exec_pids (PFork p c ts # h) = exec_pids h"
| "exec_pids (PExit p ts # h) = exec_pids h"

fun fork_pids :: "proc_event list \<Rightarrow> u32 set" where
  "fork_pids [] = {}"
| "fork_pids (PExec p e ts # h) = fork_pids h"
| "fork_pids (PFork p c ts # h) = insert c (fork_pids h)"
| "fork_pids (PExit p ts # h) = fork_pids h - {p}"

fun exec_era :: "nat \<Rightarrow> proc_event list \<Rightarrow> proc_event list" where
  "exec_era cap [] = []"
| "exec_era cap (PExec p e ts # h) =
     (let r = exec_era cap h in if cap \<le> card (exec_pids r) \<and> p \<notin> exec_pids r then [PExec p e ts] else PExec p e ts # r)"
| "exec_era cap (PFork p c ts # h) = PFork p c ts # exec_era cap h"
| "exec_era cap (PExit p ts # h) = PExit p ts # exec_era cap h"

fun fork_era :: "nat \<Rightarrow> proc_event list \<Rightarrow> proc_event list" where
  "fork_era cap [] = []"
| "fork_era cap (PExec p e ts # h) = PExec p e ts # fork_era cap h"
| "fork_era cap (PFork p c ts # h) =
     (let r = fork_era cap h in if cap \<le> card (fork_pids r) \<and> c \<notin> fork_pids r then [PFork p c ts] else PFork p c ts # r)"
| "fork_era cap (PExit p ts # h) = PExit p ts # fork_era cap h"

definition execs_abstract :: "proc_event list \<Rightarrow> proc_table \<Rightarrow> bool" where
  "execs_abstract h t \<longleftrightarrow> distinct (map fst (pt_inner t)) \<and> fst ` set (pt_inner t) = exec_pids h \<and>
     (\<forall>pid. map_option (\<lambda>e. (fst (pe_current e), snd (pe_current e), pe_exited_at e)) (map_of (pt_inner t) pid) = last_exec h pid \<and>
        (case map_of (pt_inner t) pid of None \<Rightarrow> None | Some e \<Rightarrow> pe_previous e) = exec_before h pid)"

definition forks_abstract :: "proc_event list \<Rightarrow> proc_table \<Rightarrow> bool" where
  "forks_abstract h t \<longleftrightarrow> distinct (map fst (pt_forks t)) \<and> fst ` set (pt_forks t) = fork_pids h \<and>
     (\<forall>pid. map_of (pt_forks t) pid = last_fork h pid)"

lemma execs_abstractD:
  assumes "execs_abstract h t"
  shows "distinct (map fst (pt_inner t))" "fst ` set (pt_inner t) = exec_pids h"
    "map_option (\<lambda>e. (fst (pe_current e), snd (pe_current e), pe_exited_at e)) (map_of (pt_inner t) pid) = last_exec h pid"
    "(case map_of (pt_inner t) pid of None \<Rightarrow> None | Some e \<Rightarrow> pe_previous e) = exec_before h pid"
  using assms by (simp_all add: execs_abstract_def)

lemma map_full:
  assumes "distinct (map fst m)"
  shows "(cap \<le> length m \<and> map_of m k = None) = (cap \<le> card (fst ` set m) \<and> k \<notin> fst ` set m)"
  using distinct_card [OF assms] by (simp add: map_of_eq_None_iff)

lemma execs_abstract_exec:
  assumes a: "execs_abstract (exec_era (pt_max_tracked t) h) t"
  shows "execs_abstract (exec_era (pt_max_tracked t) (PExec pid e ts # h)) (proc_record pid e ts t)"
proof -
  let ?r = "exec_era (pt_max_tracked t) h"
  note d = execs_abstractD [OF a]
  let ?full = "pt_max_tracked t \<le> card (exec_pids ?r) \<and> pid \<notin> exec_pids ?r"
  have room: "empty_if_full (pt_max_tracked t) pid (pt_inner t) = (if ?full then [] else pt_inner t)"
    unfolding empty_if_full_def map_full [OF d(1)] d(2) ..
  show ?thesis
  proof (cases ?full)
    case True
    then have "pt_inner (proc_record pid e ts t) = [(pid, \<lparr>pe_current = (e, ts), pe_exited_at = None, pe_previous = None\<rparr>)]"
      by (simp add: proc_record_def room Let_def)
    with True show ?thesis by (simp add: execs_abstract_def Let_def)
  next
    case False
    have prev: "map_option pe_current (map_of (pt_inner t) pid) = map_option (\<lambda>(e, t0, _). (e, t0)) (last_exec ?r pid)"
      unfolding d(3) [symmetric] by (cases "map_of (pt_inner t) pid") simp_all
    have inner: "pt_inner (proc_record pid e ts t) =
        AList.update pid \<lparr>pe_current = (e, ts), pe_exited_at = None, pe_previous = map_option pe_current (map_of (pt_inner t) pid)\<rparr> (pt_inner t)"
      using False by (simp only: proc_record_def room Let_def) simp
    have era: "exec_era (pt_max_tracked t) (PExec pid e ts # h) = PExec pid e ts # ?r" using False by (auto simp: Let_def)
    show ?thesis
      unfolding execs_abstract_def era inner
      by (intro conjI allI) (use d(1,2) in \<open>simp_all add: update_conv' distinct_update dom_update d(3,4) prev\<close>)
  qed
qed

lemma forks_abstract_fork:
  assumes a: "forks_abstract (fork_era (pt_max_tracked t) h) t"
  shows "forks_abstract (fork_era (pt_max_tracked t) (PFork parent child ts # h)) (record_fork parent child ts t)"
proof -
  let ?r = "fork_era (pt_max_tracked t) h"
  have d: "distinct (map fst (pt_forks t))" "fst ` set (pt_forks t) = fork_pids ?r" "\<And>pid. map_of (pt_forks t) pid = last_fork ?r pid"
    using a by (simp_all add: forks_abstract_def)
  let ?full = "pt_max_tracked t \<le> card (fork_pids ?r) \<and> child \<notin> fork_pids ?r"
  have room: "empty_if_full (pt_max_tracked t) child (pt_forks t) = (if ?full then [] else pt_forks t)"
    unfolding empty_if_full_def map_full [OF d(1)] d(2) ..
  show ?thesis
  proof (cases ?full)
    case True
    then have "pt_forks (record_fork parent child ts t) = [(child, (parent, ts))]"
      by (simp add: record_fork_def put_bounded_def room)
    with True show ?thesis by (simp add: forks_abstract_def Let_def)
  next
    case False
    then have forks: "pt_forks (record_fork parent child ts t) = AList.update child (parent, ts) (pt_forks t)"
      by (simp only: record_fork_def put_bounded_def room) simp
    have era: "fork_era (pt_max_tracked t) (PFork parent child ts # h) = PFork parent child ts # ?r" using False by (auto simp: Let_def)
    show ?thesis
      unfolding forks_abstract_def era forks
      by (intro conjI allI) (use d(1,2) in \<open>simp_all add: update_conv' distinct_update dom_update d(3)\<close>)
  qed
qed

lemma execs_abstract_exit:
  assumes a: "execs_abstract h t"
  shows "execs_abstract (PExit pid ts # h) (forget pid ts t)"
proof (cases "map_of (pt_inner t) pid")
  case None
  note d = execs_abstractD [OF a]
  have "last_exec h pid = None" using d(3) [of pid] None by simp
  moreover have "pt_inner (forget pid ts t) = pt_inner t" using None by (simp add: forget_def)
  ultimately show ?thesis unfolding execs_abstract_def by (auto simp: d)
next
  case (Some entry)
  note d = execs_abstractD [OF a]
  have k: "pid \<in> fst ` set (pt_inner t)" using Some by (metis map_of_eq_None_iff option.distinct(1))
  have le: "last_exec h pid = Some (fst (pe_current entry), snd (pe_current entry), pe_exited_at entry)"
    and eb: "exec_before h pid = pe_previous entry" using d(3,4) [of pid] Some by simp_all
  have eq: "pt_inner (forget pid ts t) = AList.update pid (entry\<lparr>pe_exited_at := Some ts\<rparr>) (pt_inner t)" by (simp add: forget_def Some)
  show ?thesis
    unfolding execs_abstract_def eq
    by (intro conjI allI) (use d(1,2) k in \<open>auto simp: update_conv' distinct_update dom_update d(3,4) le eb\<close>)
qed

lemma forks_abstract_exit:
  assumes "forks_abstract h t"
  shows "forks_abstract (PExit pid ts # h) (forget pid ts t)"
proof -
  have eq: "pt_forks (forget pid ts t) = AList.delete pid (pt_forks t)" by (simp add: forget_def Let_def split: option.split)
  have "fst ` set (AList.delete pid (pt_forks t)) = fst ` set (pt_forks t) - {pid}"
    by (induction "pt_forks t") (auto simp: AList.delete_eq)
  then show ?thesis
    using assms unfolding forks_abstract_def eq
    by (simp add: distinct_delete AList.delete_conv')
qed

lemma proc_step_frame: "pt_ttl (proc_step ev t) = pt_ttl t \<and> pt_max_tracked (proc_step ev t) = pt_max_tracked t"
  by (cases ev) (simp_all add: proc_record_def record_fork_def forget_def Let_def split: option.split)

lemma abstracts_run:
  assumes "execs_abstract [] t" "forks_abstract [] t"
  shows "execs_abstract (exec_era (pt_max_tracked t) h) (foldr proc_step h t) \<and>
    forks_abstract (fork_era (pt_max_tracked t) h) (foldr proc_step h t) \<and>
    pt_ttl (foldr proc_step h t) = pt_ttl t \<and> pt_max_tracked (foldr proc_step h t) = pt_max_tracked t"
proof (induction h)
  case (Cons ev h)
  let ?t = "foldr proc_step h t"
  have ih: "execs_abstract (exec_era (pt_max_tracked ?t) h) ?t" "forks_abstract (fork_era (pt_max_tracked ?t) h) ?t"
    "pt_ttl ?t = pt_ttl t" "pt_max_tracked ?t = pt_max_tracked t" using Cons by simp_all
  have "execs_abstract (exec_era (pt_max_tracked ?t) (ev # h)) (proc_step ev ?t) \<and> forks_abstract (fork_era (pt_max_tracked ?t) (ev # h)) (proc_step ev ?t)"
  proof (cases ev)
    case (PExec p e ts)
    have "forks_abstract (PExec p e ts # g) (proc_record p e ts ?t) = forks_abstract g ?t" for g
      by (simp add: forks_abstract_def proc_record_def Let_def)
    with PExec ih execs_abstract_exec [of ?t h p e ts] show ?thesis by simp
  next
    case (PFork p c ts)
    have "execs_abstract (PFork p c ts # g) (record_fork p c ts ?t) = execs_abstract g ?t" for g
      by (simp add: execs_abstract_def record_fork_def)
    with PFork ih forks_abstract_fork [of ?t h p c ts] show ?thesis by simp
  next
    case (PExit p ts)
    with ih show ?thesis by (simp add: execs_abstract_exit forks_abstract_exit)
  qed
  with ih show ?case by (simp add: proc_step_frame)
qed (simp add: assms)

text \<open>While no more processes than the cap are involved, an era is the whole history.\<close>

lemma finite_pids [simp]: "finite (exec_pids h)" "finite (fork_pids h)"
  by (induction h rule: exec_pids.induct) simp_all

lemma exec_era_all: "card (exec_pids h) \<le> cap \<Longrightarrow> exec_era cap h = h"
proof (induction cap h rule: exec_era.induct)
  case (2 cap p e ts h)
  have "card (exec_pids h) \<le> card (exec_pids (PExec p e ts # h))" by (simp add: card_insert_le)
  with 2 have "exec_era cap h = h" by simp
  with 2 show ?case by (auto simp: Let_def card_insert_if)
qed simp_all

lemma exe_at_spec:
  assumes "execs_abstract h t"
  shows "exe_at t pid at = exe_spec (pt_ttl t) h pid at"
  using execs_abstractD(3) [OF assms, of pid]
  by (cases "map_of (pt_inner t) pid")
    (auto simp: exe_at_def exe_spec_def fresh_def EXIT_GRACE_def split: option.splits prod.splits)

lemma forked_from_spec:
  assumes "forks_abstract h t"
  shows "forked_from t pid at = (case last_fork h pid of Some (p, ts) \<Rightarrow> if fresh (pt_ttl t) at ts then Some p else None | None \<Rightarrow> None)"
  using assms by (auto simp: forks_abstract_def forked_from_def fresh_def split: option.splits)

lemma previous_exe_spec:
  assumes "execs_abstract h t"
  shows "previous_exe t pid at = (case exec_before h pid of Some (e, ts) \<Rightarrow> if fresh (pt_ttl t) at ts then Some e else None | None \<Rightarrow> None)"
  unfolding execs_abstractD(4) [OF assms, of pid, symmetric]
  by (cases "map_of (pt_inner t) pid") (auto simp: previous_exe_def fresh_def split: option.splits)

text \<open>
  C26. The process table implements its specification. After any history of execs, forks and exits, however
  many processes it has, a process is named by its last exec since the map of execs was last emptied,
  exactly if that is neither in the future nor older than the limit and the process has not been gone for
  more than the grace of two seconds; the exec before that is answered under the same limits, and so is
  the fork it came from, since the map of forks was last emptied. Emptied is a map only when a process
  would be its 8193rd: while at most 8192 processes execute, the execs are those of the whole history.
\<close>

theorem proc_table_implements_history:
  fixes h ttl
  defines "t \<equiv> foldr proc_step h (proc_new ttl)"
  shows "exe_at t pid at = exe_spec ttl (exec_era 8192 h) pid at \<and>
    previous_exe t pid at =
      (case exec_before (exec_era 8192 h) pid of Some (e, ts) \<Rightarrow> if fresh ttl at ts then Some e else None | None \<Rightarrow> None) \<and>
    forked_from t pid at =
      (case last_fork (fork_era 8192 h) pid of Some (p, ts) \<Rightarrow> if fresh ttl at ts then Some p else None | None \<Rightarrow> None) \<and>
    (card (exec_pids h) \<le> 8192 \<longrightarrow> exec_era 8192 h = h)"
proof -
  have "execs_abstract [] (proc_new ttl)" "forks_abstract [] (proc_new ttl)"
    by (simp_all add: execs_abstract_def forks_abstract_def proc_new_def)
  from abstracts_run [OF this, of h]
  have "execs_abstract (exec_era 8192 h) t" "forks_abstract (fork_era 8192 h) t" "pt_ttl t = ttl"
    unfolding t_def by (simp_all add: proc_new_def)
  then show ?thesis using exec_era_all [of h 8192] by (simp add: exe_at_spec previous_exe_spec forked_from_spec split: option.split)
qed

theorem proc_table_implements_history_witness:
  "exe_at (foldr proc_step [PExit 7 1000, PExec 7 ''/usr/sbin/unix_chkpwd'' 990] (proc_new PROC_DEFAULT_TTL)) 7 1005 = Some ''/usr/sbin/unix_chkpwd''"
  using proc_table_implements_history [of "[PExit 7 1000, PExec 7 ''/usr/sbin/unix_chkpwd'' 990]" PROC_DEFAULT_TTL 7 1005]
  by (simp add: exe_spec_def fresh_def EXIT_GRACE_def PROC_DEFAULT_TTL_def)

section \<open>Two weaknesses of the fork records\<close>

text \<open>
  A reader can be credited with a binary it never ran. A process that runs some file forks a child
  and executes a second file itself; the child reads and exits. Nobody ever executed the second file in
  the child, but the access is attributed to it: the parent's binary is looked up at the time of the
  access, not of the fork.
\<close>

theorem fork_attribution_is_late:
  assumes "evil \<noteq> trusted" "parent \<noteq> child" "pid_exe_path child = None"
    and "t0 \<le> t1" "t1 \<le> t2" "t2 \<le> at" "at - t0 \<le> ttl"
  shows "exe_spec ttl [PFork parent child t1, PExec parent evil t0] parent t1 = Some evil \<and>
    accessor_exe pid_exe_path
      (foldr proc_step [PExec parent trusted t2, PFork parent child t1, PExec parent evil t0] (proc_new ttl)) child at = Some trusted"
  using assms by (auto simp: exe_spec_def accessor_exe_def exe_at_def forked_from_def fresh_def proc_new_def proc_record_def
      record_fork_def put_bounded_def empty_if_full_def)

theorem fork_attribution_is_late_witness:
  "accessor_exe (\<lambda>_. None)
     (foldr proc_step [PExec 1 ''/usr/sbin/cron'' 2, PFork 1 2 1, PExec 1 ''/tmp/x'' 0] (proc_new PROC_DEFAULT_TTL)) 2 3 = Some ''/usr/sbin/cron''"
  using fork_attribution_is_late [of "''/tmp/x''" "''/usr/sbin/cron''" 1 2 "\<lambda>_. None" 0 1 2 3 PROC_DEFAULT_TTL]
  by (simp add: PROC_DEFAULT_TTL_def)

text \<open>
  The exec of an exited process keeps answering for the accesses still under way, its fork does not: a
  forked child whose exit is received before its access is not named at all.
\<close>

lemma exit_forgets_fork: "forked_from (forget pid ts t) pid at = None"
  by (simp add: forget_def forked_from_def Let_def AList.delete_conv' split: option.split)

end
