(* ===== verification/Mass_Write.thy ===== *)
theory Mass_Write
  imports Provenance
begin

text \<open>
  Encryption sweeps and ransom notes, \<open>crates/bowery-analysis/src/mass_write.rs\<close>. Every write-intent
  open of a process goes into a window of its own; a window reports at most one sweep (many files in
  many directories with one unusual extension) and at most one note (one file name in many unrelated
  directories). Times are readings of a monotonic clock. The 64-bit hash of a path is a parameter; so is
  the order in which a hash map is iterated, which decides between extensions that are equally frequent.
  The texts of the alerts are left out.
\<close>

section \<open>Names\<close>

definition COMMON_EXTENSIONS :: "string list" where
  "COMMON_EXTENSIONS = [
     ''rs'', ''c'', ''h'', ''cc'', ''cpp'', ''hpp'', ''go'', ''py'', ''pyc'', ''pyo'', ''js'', ''mjs'', ''cjs'',
     ''ts'', ''tsx'', ''jsx'', ''java'', ''class'', ''jar'', ''rb'', ''php'', ''pl'', ''sh'', ''bash'', ''lua'',
     ''sql'', ''swift'', ''kt'', ''cs'', ''vb'', ''scala'', ''clj'', ''ex'', ''exs'', ''erl'', ''hs'', ''ml'', ''r'',
     ''m'', ''mm'', ''o'', ''a'', ''so'', ''lib'', ''dll'', ''exe'', ''obj'', ''d'', ''rlib'', ''rmeta'', ''bc'',
     ''ll'', ''s'', ''asm'', ''map'', ''pdb'', ''md'', ''rst'', ''txt'', ''html'', ''htm'', ''xml'', ''json'',
     ''yaml'', ''yml'', ''toml'', ''ini'', ''cfg'', ''conf'', ''properties'', ''lock'', ''csv'', ''tsv'', ''log'',
     ''pdf'', ''doc'', ''docx'', ''xls'', ''xlsx'', ''ppt'', ''pptx'', ''odt'', ''ods'', ''tex'', ''bib'', ''png'',
     ''jpg'', ''jpeg'', ''gif'', ''bmp'', ''svg'', ''ico'', ''webp'', ''tiff'', ''raw'', ''psd'', ''mp3'', ''wav'',
     ''flac'', ''ogg'', ''opus'', ''aac'', ''mp4'', ''mkv'', ''avi'', ''mov'', ''webm'', ''ttf'', ''otf'', ''woff'',
     ''woff2'', ''gz'', ''bz2'', ''xz'', ''zst'', ''zip'', ''tar'', ''7z'', ''rar'', ''deb'', ''rpm'', ''apk'',
     ''whl'', ''egg'', ''iso'', ''img'', ''db'', ''sqlite'', ''sqlite3'', ''parquet'', ''avro'', ''orc'', ''pb'',
     ''bin'', ''dat'', ''idx'', ''pack'', ''tmp'', ''temp'', ''bak'', ''swp'', ''part'', ''cache'', ''pid'', ''sock'',
     ''journal'', ''wal'', ''shm'', ''dpkg-new'', ''dpkg-old'', ''dpkg-tmp'', ''dpkg-dist'', ''ucf-new'', ''ucf-old'',
     ''ucf-dist'', ''rpmnew'', ''rpmsave'', ''rpmorig'']"

definition PACKAGE_TOOLS :: "string list" where
  "PACKAGE_TOOLS = [''/usr/bin/dpkg'', ''/usr/bin/mandb'', ''/usr/bin/apt-key'', ''/usr/bin/unsquashfs'']"

definition writer_is_package_tool :: "string option \<Rightarrow> provenance \<Rightarrow> bool" where
  "writer_is_package_tool exe prov =
     (case exe of None \<Rightarrow> False | Some e \<Rightarrow> prov = PackagedIntact \<and> e \<in> set PACKAGE_TOOLS)"

definition MAX_DIRS_PER_NAME :: nat where "MAX_DIRS_PER_NAME = 16"
definition MAX_NAMES :: nat where "MAX_NAMES = 256"
definition PSEUDO_FS :: "string list" where "PSEUDO_FS = [''/proc/'', ''/sys/'', ''/dev/'', ''/run/'']"
definition SWEEP_RULE_ID :: string where "SWEEP_RULE_ID = ''impact.mass_write_new_extension''"
definition NOTE_RULE_ID :: string where "NOTE_RULE_ID = ''impact.ransom_note_fanout''"

definition rsplit_once :: "char \<Rightarrow> string \<Rightarrow> (string \<times> string) option" where
  "rsplit_once ch s =
     (if ch \<notin> set s then None
      else let after = rev (takeWhile (\<lambda>d. d \<noteq> ch) (rev s)) in Some (take (length s - length after - 1) s, after))"

definition ascii_alphanumeric :: "char \<Rightarrow> bool" where
  "ascii_alphanumeric ch \<longleftrightarrow>
     (let n = (of_char ch :: nat) in 48 \<le> n \<and> n \<le> 57 \<or> 65 \<le> n \<and> n \<le> 90 \<or> 97 \<le> n \<and> n \<le> 122)"

definition ascii_lower :: "char \<Rightarrow> char" where
  "ascii_lower ch = (let n = (of_char ch :: nat) in if 65 \<le> n \<and> n \<le> 90 then char_of (n + 32) else ch)"

definition final_extension :: "string \<Rightarrow> string option" where
  "final_extension name =
     (case rsplit_once (CHR ''.'') name of None \<Rightarrow> None
      | Some (stem, ext) \<Rightarrow>
          if stem = [] \<or> ext = [] \<or> 16 < length ext then None
          else if \<not> list_all (\<lambda>ch. ascii_alphanumeric ch \<or> ch = CHR ''-'' \<or> ch = CHR ''_'') ext then None
          else Some (map ascii_lower ext))"

definition is_common :: "string \<Rightarrow> bool" where
  "is_common ext \<longleftrightarrow> ext \<in> set COMMON_EXTENSIONS"

definition dir_parts :: "string \<Rightarrow> string list" where
  "dir_parts d = (let slash = (\<lambda>ch. ch = CHR ''/'') in split_slash (rev (dropWhile slash (rev (dropWhile slash d)))))"

definition shared_depth :: "string list \<Rightarrow> string list \<Rightarrow> nat" where
  "shared_depth a b = length (takeWhile (\<lambda>(x, y). x = y) (zip a b))"

fun common_depth :: "string list \<Rightarrow> nat" where
  "common_depth [] = 0"
| "common_depth (d # ds) =
     foldl (\<lambda>depth other. min depth (shared_depth (dir_parts d) (dir_parts other))) (length (dir_parts d)) ds"

section \<open>The tracker\<close>

record note_fanout =
  nf_pid :: u32
  nf_name :: string
  nf_dirs :: nat
  nf_common_ancestor :: string
  nf_samples :: "string list"

record mass_write_burst =
  mb_pid :: u32
  mb_files :: nat
  mb_dirs :: nat
  mb_extension :: string
  mb_extension_files :: nat
  mb_samples :: "string list"

datatype impact_finding = Sweep mass_write_burst | Note note_fanout

record name_watch =
  nw_dirs :: "string list"
  nw_samples :: "string list"

record write_window =
  ww_started :: nat
  ww_paths :: "u64 list"
  ww_dirs :: "u64 list"
  ww_extensions :: "(string \<times> nat) list"
  ww_names :: "(string \<times> name_watch) list"
  ww_samples :: "string list"
  ww_reported :: bool
  ww_note_reported :: bool

definition window_new :: "nat \<Rightarrow> write_window" where
  "window_new now = \<lparr>ww_started = now, ww_paths = [], ww_dirs = [], ww_extensions = [], ww_names = [], ww_samples = [],
     ww_reported = False, ww_note_reported = False\<rparr>"

record mass_write_tracker =
  mw_inner :: "(u32 \<times> write_window) list"
  mw_window :: nat
  mw_min_files :: nat
  mw_min_dirs :: nat
  mw_min_share :: f32
  mw_max_tracked :: nat
  mw_min_note_dirs :: nat
  mw_max_note_depth :: nat

definition mass_write_new :: "nat \<Rightarrow> nat \<Rightarrow> nat \<Rightarrow> mass_write_tracker" where
  "mass_write_new window min_files min_dirs =
     \<lparr>mw_inner = [], mw_window = window, mw_min_files = max min_files 2, mw_min_dirs = max min_dirs 1,
      mw_min_share = to_f32 (7 / 10), mw_max_tracked = 512, mw_min_note_dirs = 6, mw_max_note_depth = 3\<rparr>"

record hashing =
  hs_hash :: "string \<Rightarrow> u64"
  hs_order :: "(string \<times> nat) list \<Rightarrow> (string \<times> nat) list"

text \<open>The directory a name was written in enters its watch, while there is room.\<close>

definition watch_dir :: "string \<Rightarrow> string \<Rightarrow> name_watch \<Rightarrow> name_watch" where
  "watch_dir dir path w =
     (if dir \<in> set (nw_dirs w) then w
      else w\<lparr>nw_dirs := (if length (nw_dirs w) < MAX_DIRS_PER_NAME then nw_dirs w @ [dir] else nw_dirs w),
             nw_samples := (if length (nw_samples w) < 3 then nw_samples w @ [path] else nw_samples w)\<rparr>)"

definition note_of :: "mass_write_tracker \<Rightarrow> u32 \<Rightarrow> string \<Rightarrow> name_watch \<Rightarrow> note_fanout option" where
  "note_of t pid name w =
     (if length (nw_dirs w) < mw_min_note_dirs t then None
      else let depth = common_depth (nw_dirs w) in
        if mw_max_note_depth t < depth then None
        else let ancestor = foldl (\<lambda>acc part. acc @ ''/'' @ part) [] (take depth (dir_parts (hd (nw_dirs w)))) in
          Some \<lparr>nf_pid = pid, nf_name = name, nf_dirs = length (nw_dirs w),
            nf_common_ancestor = (if ancestor = [] then ''/'' else ancestor), nf_samples = nw_samples w\<rparr>)"

definition track_name :: "mass_write_tracker \<Rightarrow> u32 \<Rightarrow> string \<Rightarrow> string \<Rightarrow> string \<Rightarrow> write_window \<Rightarrow> note_fanout option \<times> write_window" where
  "track_name t pid path dir name w =
     (if ww_note_reported w \<or> name = [] \<or> list_ex (\<lambda>pre. prefix pre path) PSEUDO_FS then (None, w)
      else if length (ww_names w) < MAX_NAMES \<or> map_of (ww_names w) name \<noteq> None
      then let watch = watch_dir dir path (case map_of (ww_names w) name of Some x \<Rightarrow> x | None \<Rightarrow> \<lparr>nw_dirs = [], nw_samples = []\<rparr>);
               w1 = w\<lparr>ww_names := AList.update name watch (ww_names w)\<rparr>
           in (case note_of t pid name watch of None \<Rightarrow> (None, w1) | Some n \<Rightarrow> (Some n, w1\<lparr>ww_note_reported := True\<rparr>))
      else (None, w))"

text \<open>\<open>max_by_key\<close>: of several most frequent extensions, the last one in iteration order.\<close>

fun most_frequent :: "(string \<times> nat) list \<Rightarrow> (string \<times> nat) option" where
  "most_frequent [] = None"
| "most_frequent (x # xs) = Some (foldl (\<lambda>m y. if snd m \<le> snd y then y else m) x xs)"

definition sweep_of :: "hashing \<Rightarrow> mass_write_tracker \<Rightarrow> u32 \<Rightarrow> write_window \<Rightarrow> mass_write_burst option" where
  "sweep_of hs t pid w =
     (if length (ww_paths w) < mw_min_files t \<or> length (ww_dirs w) < mw_min_dirs t then None
      else case most_frequent (hs_order hs (ww_extensions w)) of None \<Rightarrow> None
        | Some (ext, count) \<Rightarrow>
            if f32_less (f32_div (f32_round (of_nat count)) (f32_round (of_nat (length (ww_paths w))))) (mw_min_share t) \<or> is_common ext then None
            else Some \<lparr>mb_pid = pid, mb_files = length (ww_paths w), mb_dirs = length (ww_dirs w), mb_extension = ext,
                   mb_extension_files = count, mb_samples = ww_samples w\<rparr>)"

definition count_extension :: "string \<Rightarrow> write_window \<Rightarrow> write_window" where
  "count_extension name w =
     (case final_extension name of None \<Rightarrow> w
      | Some ext \<Rightarrow> w\<lparr>ww_extensions := AList.update ext
            (Suc (case map_of (ww_extensions w) ext of Some n \<Rightarrow> n | None \<Rightarrow> 0)) (ww_extensions w)\<rparr>)"

definition track_sweep :: "hashing \<Rightarrow> mass_write_tracker \<Rightarrow> u32 \<Rightarrow> string \<Rightarrow> string \<Rightarrow> write_window \<Rightarrow> mass_write_burst option \<times> write_window" where
  "track_sweep hs t pid path name w =
     (if ww_reported w then (None, w)
      else let w1 = count_extension name w;
               w2 = w1\<lparr>ww_samples := (if length (ww_samples w1) < 5 then ww_samples w1 @ [path] else ww_samples w1)\<rparr>
           in (case sweep_of hs t pid w2 of None \<Rightarrow> (None, w2) | Some b \<Rightarrow> (Some b, w2\<lparr>ww_reported := True\<rparr>)))"

definition window_observe :: "hashing \<Rightarrow> mass_write_tracker \<Rightarrow> u32 \<Rightarrow> string \<Rightarrow> write_window \<Rightarrow> impact_finding option \<times> write_window" where
  "window_observe hs t pid path w =
     (if ww_reported w \<and> ww_note_reported w then (None, w)
      else case rsplit_once (CHR ''/'') path of None \<Rightarrow> (None, w)
        | Some (dir, name) \<Rightarrow>
            if hs_hash hs path \<in> set (ww_paths w) then (None, w)
            else let w1 = w\<lparr>ww_paths := ww_paths w @ [hs_hash hs path], ww_dirs := List.insert (hs_hash hs dir) (ww_dirs w)\<rparr> in
              (case track_name t pid path dir name w1 of
                 (Some n, w2) \<Rightarrow> (Some (Note n), w2)
               | (None, w2) \<Rightarrow> (case track_sweep hs t pid path name w2 of (b, w3) \<Rightarrow> (map_option Sweep b, w3))))"

definition mass_observe :: "hashing \<Rightarrow> u32 \<Rightarrow> string \<Rightarrow> nat \<Rightarrow> mass_write_tracker \<Rightarrow> impact_finding option \<times> mass_write_tracker" where
  "mass_observe hs pid path now t =
     (if \<not> prefix ''/'' path then (None, t)
      else let inner = empty_if_full (mw_max_tracked t) pid (mw_inner t);
               w0 = (case map_of inner pid of Some w \<Rightarrow> w | None \<Rightarrow> window_new now);
               w1 = (if mw_window t < now - ww_started w0 then window_new now else w0)
           in (case window_observe hs t pid path w1 of (r, w2) \<Rightarrow> (r, t\<lparr>mw_inner := AList.update pid w2 inner\<rparr>)))"

definition mass_forget :: "u32 \<Rightarrow> mass_write_tracker \<Rightarrow> mass_write_tracker" where
  "mass_forget pid t = t\<lparr>mw_inner := AList.delete pid (mw_inner t)\<rparr>"

section \<open>Runs\<close>

text \<open>Write-intent opens of several processes in the order they are observed, and what was found at each.\<close>

fun mass_run :: "hashing \<Rightarrow> (u32 \<times> string \<times> nat) list \<Rightarrow> mass_write_tracker \<Rightarrow> impact_finding option list \<times> mass_write_tracker" where
  "mass_run hs [] t = ([], t)"
| "mass_run hs ((pid, path, now) # evs) t =
     (case mass_observe hs pid path now t of (r, t1) \<Rightarrow> case mass_run hs evs t1 of (rs, t2) \<Rightarrow> (r # rs, t2))"

definition hashing_ok :: "hashing \<Rightarrow> bool" where
  "hashing_ok hs \<longleftrightarrow> (\<forall>xs. set (hs_order hs xs) = set xs \<and> length (hs_order hs xs) = length xs)"

definition dir_of :: "string \<Rightarrow> string" where
  "dir_of path = (case rsplit_once (CHR ''/'') path of Some (d, _) \<Rightarrow> d | None \<Rightarrow> [])"

definition ext_of :: "string \<Rightarrow> string option" where
  "ext_of path = (case rsplit_once (CHR ''/'') path of Some (_, n) \<Rightarrow> final_extension n | None \<Rightarrow> None)"

lemma rsplit_once_absolute: "prefix ''/'' path \<Longrightarrow> \<exists>d n. rsplit_once (CHR ''/'') path = Some (d, n)"
  by (auto simp: rsplit_once_def prefix_def Let_def)

text \<open>The window a process is in when it is observed, and what becomes of the others.\<close>

definition window_for :: "u32 \<Rightarrow> nat \<Rightarrow> mass_write_tracker \<Rightarrow> write_window" where
  "window_for pid now t =
     (let w0 = (case map_of (empty_if_full (mw_max_tracked t) pid (mw_inner t)) pid of Some w \<Rightarrow> w | None \<Rightarrow> window_new now)
      in if mw_window t < now - ww_started w0 then window_new now else w0)"

lemma mass_observe_window:
  assumes "prefix ''/'' path"
  shows "mass_observe hs pid path now t =
    (fst (window_observe hs t pid path (window_for pid now t)),
     t\<lparr>mw_inner := AList.update pid (snd (window_observe hs t pid path (window_for pid now t))) (empty_if_full (mw_max_tracked t) pid (mw_inner t))\<rparr>)"
  using assms by (simp add: mass_observe_def window_for_def Let_def case_prod_beta)

lemma mass_observe_relative: "\<not> prefix ''/'' path \<Longrightarrow> mass_observe hs pid path now t = (None, t)"
  by (simp add: mass_observe_def)

lemma mass_observe_params:
  assumes "mass_observe hs pid path now t = (r, t')"
  shows "mw_window t' = mw_window t" "mw_min_files t' = mw_min_files t" "mw_min_dirs t' = mw_min_dirs t" "mw_min_share t' = mw_min_share t"
    "mw_max_tracked t' = mw_max_tracked t" "mw_min_note_dirs t' = mw_min_note_dirs t" "mw_max_note_depth t' = mw_max_note_depth t"
  using assms mass_observe_window [of path hs pid now t] mass_observe_relative [of path hs pid now t]
  by (cases "prefix ''/'' path"; auto)+

text \<open>While the processes fit into the table, observing one leaves the windows of the others alone.\<close>

definition tracked_in :: "u32 set \<Rightarrow> mass_write_tracker \<Rightarrow> bool" where
  "tracked_in K t \<longleftrightarrow> distinct (map fst (mw_inner t)) \<and> fst ` set (mw_inner t) \<subseteq> K \<and> finite K \<and> card K \<le> mw_max_tracked t"

lemma tracked_room: "tracked_in K t \<Longrightarrow> pid \<in> K \<Longrightarrow> empty_if_full (mw_max_tracked t) pid (mw_inner t) = mw_inner t"
  unfolding tracked_in_def by (rule empty_if_full_fits [of _ K]) simp_all

lemma mass_observe_tracked:
  assumes "tracked_in K t" "pid \<in> K" "mass_observe hs pid path now t = (r, t')"
  shows "tracked_in K t' \<and> (\<forall>q. q \<noteq> pid \<longrightarrow> map_of (mw_inner t') q = map_of (mw_inner t) q)"
proof (cases "prefix ''/'' path")
  case True
  have "mw_inner t' = AList.update pid (snd (window_observe hs t pid path (window_for pid now t))) (mw_inner t)"
    using assms(3) tracked_room [OF assms(1,2)] by (auto simp: mass_observe_window [OF True])
  with assms(1,2) show ?thesis
    by (simp add: tracked_in_def mass_observe_params [OF assms(3)] distinct_update dom_update update_conv')
qed (use assms in \<open>simp add: mass_observe_relative\<close>)

section \<open>A sweep is reported\<close>

definition sweep_inv :: "hashing \<Rightarrow> mass_write_tracker \<Rightarrow> string \<Rightarrow> nat \<Rightarrow> string set \<Rightarrow> write_window \<Rightarrow> bool" where
  "sweep_inv hs t e t0 P w \<longleftrightarrow> ww_started w = t0 \<and> \<not> ww_reported w \<and> \<not> ww_note_reported w \<and>
     distinct (ww_paths w) \<and> set (ww_paths w) = hs_hash hs ` P \<and>
     distinct (ww_dirs w) \<and> set (ww_dirs w) = hs_hash hs ` dir_of ` P \<and>
     ww_extensions w = (if P = {} then [] else [(e, length (ww_paths w))]) \<and>
     (length (ww_paths w) < mw_min_files t \<or> length (ww_dirs w) < mw_min_dirs t)"

lemma sweep_inv_new: "0 < mw_min_files t \<Longrightarrow> sweep_inv hs t e t0 {} (window_new t0)"
  by (simp add: sweep_inv_def window_new_def)

lemma track_name_silent:
  assumes "track_name t pid path dir name w = (None, w')"
  shows "\<exists>names. w' = w\<lparr>ww_names := names\<rparr>"
proof -
  have "w = w\<lparr>ww_names := ww_names w\<rparr>" by simp
  then have "w' = w \<Longrightarrow> ?thesis" by metis
  then show ?thesis using assms unfolding track_name_def Let_def by (auto split: if_splits option.splits)
qed

lemma distinct_u64_length: "distinct (xs :: u64 list) \<Longrightarrow> length xs \<le> 2 ^ 64"
  using card_mono [of UNIV "set xs"] distinct_card [of xs] by (simp add: card_word)

lemma f32_round_ge_1: "1 \<le> x \<Longrightarrow> x < 2 ^ 128 \<Longrightarrow> 1 \<le> f32_round x"
  using f32_round_mono [of 1 x] by simp

lemma full_share:
  assumes "0 < n" "n \<le> 2 ^ 64" "f32_le s (Fin 1)"
  shows "\<not> f32_less (f32_div (f32_round (of_nat n)) (f32_round (of_nat n))) s"
proof -
  have "(of_nat n :: rat) \<le> of_nat (2 ^ 64)" using assms(2) by (simp only: of_nat_le_iff)
  then have "(of_nat n :: rat) < 2 ^ 128" by simp
  moreover have "1 \<le> (of_nat n :: rat)" using assms(1) by simp
  ultimately have "1 \<le> f32_round (of_nat n)" by (rule f32_round_ge_1 [rotated])
  then have "f32_div (f32_round (of_nat n)) (f32_round (of_nat n)) = Fin 1" by (simp add: f32_div_def to_f32_def)
  with assms(3) show ?thesis by (cases s) (auto simp: f32_le_def)
qed

lemma singleton_order: "hashing_ok hs \<Longrightarrow> hs_order hs [x] = [x]"
proof -
  assume "hashing_ok hs"
  then have "set (hs_order hs [x]) = {x}" "length (hs_order hs [x]) = 1" by (auto simp: hashing_ok_def)
  then show ?thesis by (cases "hs_order hs [x]") auto
qed

lemma sweep_window_step:
  assumes hs: "hashing_ok hs" and inj: "inj_on (hs_hash hs) S" and PS: "insert p P \<subseteq> S"
    and abs: "prefix ''/'' p" and e: "ext_of p = Some e" "\<not> is_common e" and share: "f32_le (mw_min_share t) (Fin 1)"
    and inv: "sweep_inv hs t e t0 P w" and run: "window_observe hs t pid p w = (None, w')"
  shows "sweep_inv hs t e t0 (insert p P) w'"
proof (cases "p \<in> P")
  case True
  then have "hs_hash hs p \<in> set (ww_paths w)" using inv by (simp add: sweep_inv_def)
  moreover obtain d n where "rsplit_once (CHR ''/'') p = Some (d, n)" using rsplit_once_absolute [OF abs] by blast
  ultimately have "w' = w" using run inv by (simp add: window_observe_def sweep_inv_def)
  with True inv show ?thesis by (simp add: insert_absorb)
next
  case False
  obtain d n where dn: "rsplit_once (CHR ''/'') p = Some (d, n)" using rsplit_once_absolute [OF abs] by blast
  have new: "hs_hash hs p \<notin> set (ww_paths w)" using False PS inj inv by (auto simp: sweep_inv_def inj_on_def)
  have d: "dir_of p = d" and n: "final_extension n = Some e" using dn e by (simp_all add: dir_of_def ext_of_def)
  let ?w1 = "w\<lparr>ww_paths := ww_paths w @ [hs_hash hs p], ww_dirs := List.insert (hs_hash hs d) (ww_dirs w)\<rparr>"
  obtain r1 w2 where tn: "track_name t pid p d n ?w1 = (r1, w2)" by (cases "track_name t pid p d n ?w1")
  have "\<not> (ww_reported w \<and> ww_note_reported w)" using inv by (simp add: sweep_inv_def)
  with run new dn tn have r1: "r1 = None" and ts: "track_sweep hs t pid p n w2 = (None, w')"
    by (auto simp: window_observe_def split: option.splits prod.splits)
  from track_name_silent [OF tn [unfolded r1]] obtain names where w2: "w2 = ?w1\<lparr>ww_names := names\<rparr>" by blast
  let ?n = "length (ww_paths w) + 1"
  let ?w3 = "(count_extension n w2)\<lparr>ww_samples := (if length (ww_samples w2) < 5 then ww_samples w2 @ [p] else ww_samples w2)\<rparr>"
  have ext: "ww_extensions (count_extension n w2) = [(e, ?n)]"
    using inv by (cases "P = {}") (auto simp: count_extension_def n w2 sweep_inv_def)
  have w3: "ww_extensions ?w3 = [(e, ?n)]" "ww_paths ?w3 = ww_paths w @ [hs_hash hs p]" "ww_dirs ?w3 = List.insert (hs_hash hs d) (ww_dirs w)"
    "ww_started ?w3 = t0" "\<not> ww_reported ?w3" "\<not> ww_note_reported ?w3"
    using ext inv by (simp_all add: count_extension_def n w2 sweep_inv_def)
  have dist: "distinct (ww_paths w @ [hs_hash hs p])" using inv new by (simp add: sweep_inv_def)
  have so: "sweep_of hs t pid ?w3 = None" and w': "w' = ?w3"
    using ts inv by (auto simp: track_sweep_def Let_def w2 count_extension_def n sweep_inv_def split: option.splits if_splits)
  have "length (ww_paths ?w3) < mw_min_files t \<or> length (ww_dirs ?w3) < mw_min_dirs t"
  proof (rule ccontr)
    assume a: "\<not> ?thesis"
    have "?n \<le> 2 ^ 64" using distinct_u64_length [OF dist] by simp
    from full_share [OF _ this share] have "sweep_of hs t pid ?w3 \<noteq> None"
      using a e(2) unfolding sweep_of_def w3(1,2) singleton_order [OF hs] by (auto simp: w3(3))
    with so show False by simp
  qed
  moreover have "set (ww_dirs ?w3) = hs_hash hs ` dir_of ` insert p P" "distinct (ww_dirs ?w3)"
    using inv d by (simp_all add: w3(3) sweep_inv_def)
  moreover have "set (ww_paths ?w3) = hs_hash hs ` insert p P" using inv by (simp add: w3(2) sweep_inv_def)
  ultimately show ?thesis unfolding sweep_inv_def w' using w3 dist by simp
qed

text \<open>What the writes of one process have to be like, as long as nothing is reported of it.\<close>

definition paths_of :: "u32 \<Rightarrow> (u32 \<times> string \<times> nat) list \<Rightarrow> string set" where
  "paths_of pid evs = {p. \<exists>now. (pid, p, now) \<in> set evs}"

definition quiet :: "u32 \<Rightarrow> (u32 \<times> string \<times> nat) list \<Rightarrow> impact_finding option list \<Rightarrow> bool" where
  "quiet pid evs rs \<longleftrightarrow> (\<forall>i < length evs. fst (evs ! i) = pid \<longrightarrow> rs ! i = None)"

lemma quiet_Cons: "quiet pid (ev # evs) (r # rs) \<longleftrightarrow> (fst ev = pid \<longrightarrow> r = None) \<and> quiet pid evs rs"
  by (auto simp: quiet_def nth_Cons split: nat.split)

lemma paths_of_Cons: "paths_of pid ((q, p, now) # evs) = (if q = pid then insert p (paths_of pid evs) else paths_of pid evs)"
  by (auto simp: paths_of_def)

definition encrypting :: "u32 \<Rightarrow> string \<Rightarrow> (u32 \<times> string \<times> nat) list \<Rightarrow> bool" where
  "encrypting pid e evs \<longleftrightarrow> \<not> is_common e \<and> (\<forall>(q, p, now) \<in> set evs. q = pid \<longrightarrow> prefix ''/'' p \<and> ext_of p = Some e)"

lemma encrypting_Cons:
  "encrypting pid e ((q, p, now) # evs) \<longleftrightarrow> (q = pid \<longrightarrow> prefix ''/'' p \<and> ext_of p = Some e) \<and> encrypting pid e evs"
  by (auto simp: encrypting_def)

lemma sweep_observe:
  assumes hs: "hashing_ok hs" and inj: "inj_on (hs_hash hs) S" and PS: "insert p P \<subseteq> S" and ex: "encrypting pid e [(pid, p, now)]"
    and share: "f32_le (mw_min_share t) (Fin 1)" and K: "tracked_in K t" "pid \<in> K"
    and inv: "sweep_inv hs t e t0 P (window_for pid now t)" and run: "mass_observe hs pid p now t = (None, t')"
  shows "\<exists>w'. map_of (mw_inner t') pid = Some w' \<and> sweep_inv hs t' e t0 (insert p P) w'"
proof -
  have p: "prefix ''/'' p" "ext_of p = Some e" "\<not> is_common e" using ex by (simp_all add: encrypting_def)
  obtain w' where w': "window_observe hs t pid p (window_for pid now t) = (None, w')"
    using run by (cases "window_observe hs t pid p (window_for pid now t)") (auto simp: mass_observe_window [OF p(1)])
  have "sweep_inv hs t e t0 (insert p P) w'" by (rule sweep_window_step [OF hs inj PS p share inv w'])
  moreover have "map_of (mw_inner t') pid = Some w'" using run w' by (auto simp: mass_observe_window [OF p(1)] update_conv')
  moreover have "sweep_inv hs t' e t0 (insert p P) w' \<longleftrightarrow> sweep_inv hs t e t0 (insert p P) w'"
    by (simp add: sweep_inv_def mass_observe_params [OF run])
  ultimately show ?thesis by simp
qed

lemma sweep_run:
  assumes "hashing_ok hs" "inj_on (hs_hash hs) S" "f32_le (mw_min_share t) (Fin 1)" "tracked_in K t" "fst ` set evs \<subseteq> K" "pid \<in> K"
    and "encrypting pid e evs" "P \<union> paths_of pid evs \<subseteq> S" "\<forall>(q, p, now) \<in> set evs. q = pid \<longrightarrow> now - t0 \<le> mw_window t"
    and "map_of (mw_inner t) pid = Some w" "sweep_inv hs t e t0 P w"
    and "mass_run hs evs t = (rs, t')" "quiet pid evs rs"
  shows "\<exists>w'. map_of (mw_inner t') pid = Some w' \<and> sweep_inv hs t e t0 (P \<union> paths_of pid evs) w'"
  using assms
proof (induction evs arbitrary: t P w rs)
  case (Cons ev evs)
  obtain q p now where ev: "ev = (q, p, now)" by (cases ev)
  obtain r t1 where o1: "mass_observe hs q p now t = (r, t1)" by (cases "mass_observe hs q p now t")
  obtain rs1 where r1: "mass_run hs evs t1 = (rs1, t')" "rs = r # rs1"
    using Cons.prems(12) o1 by (auto simp: ev split: prod.splits)
  note par = mass_observe_params [OF o1]
  have qK: "q \<in> K" using Cons.prems(5) ev by simp
  note tr = mass_observe_tracked [OF Cons.prems(4) qK o1]
  have same: "sweep_inv hs t1 e t0 Q x = sweep_inv hs t e t0 Q x" for Q x by (simp add: sweep_inv_def par)
  have enc: "encrypting pid e evs" and qt: "quiet pid evs rs1"
    using Cons.prems(7,13) by (simp_all add: ev r1 encrypting_Cons quiet_Cons)
  have step: "\<exists>w1. map_of (mw_inner t1) pid = Some w1 \<and> sweep_inv hs t1 e t0 (P \<union> paths_of pid [ev]) w1"
  proof (cases "q = pid")
    case True
    have now: "now - t0 \<le> mw_window t" using Cons.prems(9) True by (simp add: ev)
    have "window_for pid now t = w"
      using Cons.prems(10,11) now tracked_room [OF Cons.prems(4,6)] by (simp add: window_for_def sweep_inv_def)
    moreover have "r = None" using Cons.prems(13) True by (simp add: ev r1 quiet_Cons)
    moreover have "insert p P \<subseteq> S" using Cons.prems(8) True by (simp add: ev paths_of_Cons)
    moreover have "encrypting pid e [(pid, p, now)]" using Cons.prems(7) True by (auto simp: ev encrypting_def)
    ultimately show ?thesis
      using sweep_observe [OF Cons.prems(1,2) _ _ Cons.prems(3,4,6), of p P e now t0 t1] Cons.prems(11) o1 True
      by (simp add: ev paths_of_def)
  next
    case False
    then have "map_of (mw_inner t1) pid = Some w" using tr Cons.prems(10) by auto
    with Cons.prems(11) False show ?thesis by (simp add: ev same paths_of_def)
  qed
  then obtain w1 where w1: "map_of (mw_inner t1) pid = Some w1" "sweep_inv hs t1 e t0 (P \<union> paths_of pid [ev]) w1" by blast
  have sub: "P \<union> paths_of pid [ev] \<union> paths_of pid evs = P \<union> paths_of pid (ev # evs)" by (auto simp: ev paths_of_def)
  have "\<exists>w'. map_of (mw_inner t') pid = Some w' \<and> sweep_inv hs t1 e t0 (P \<union> paths_of pid [ev] \<union> paths_of pid evs) w'"
    by (rule Cons.IH [OF Cons.prems(1,2) _ _ _ Cons.prems(6) enc _ _ w1 r1(1) qt])
      (use Cons.prems(3,5,8,9) tr par sub in \<open>auto simp: ev\<close>)
  then show ?case by (simp add: same sub)
qed (auto simp: paths_of_def)

lemma sweep_first:
  assumes "hashing_ok hs" "inj_on (hs_hash hs) S" "f32_le (mw_min_share t) (Fin 1)" "tracked_in K t" "fst ` set evs \<subseteq> K" "pid \<in> K"
    and "encrypting pid e evs" "paths_of pid evs \<subseteq> S" "paths_of pid evs \<noteq> {}" "0 < mw_min_files t"
    and "\<forall>(q, p, a) \<in> set evs. \<forall>(q', p', b) \<in> set evs. q = pid \<and> q' = pid \<longrightarrow> b - a \<le> mw_window t"
    and "map_of (mw_inner t) pid = None"
    and "mass_run hs evs t = (rs, t')" "quiet pid evs rs"
  shows "\<exists>w' t0. sweep_inv hs t e t0 (paths_of pid evs) w'"
  using assms
proof (induction evs arbitrary: t rs)
  case (Cons ev evs)
  obtain q p now where ev: "ev = (q, p, now)" by (cases ev)
  obtain r t1 where o1: "mass_observe hs q p now t = (r, t1)" by (cases "mass_observe hs q p now t")
  obtain rs1 where r1: "mass_run hs evs t1 = (rs1, t')" "rs = r # rs1"
    using Cons.prems(13) o1 by (auto simp: ev split: prod.splits)
  note par = mass_observe_params [OF o1]
  have qK: "q \<in> K" using Cons.prems(5) ev by simp
  note tr = mass_observe_tracked [OF Cons.prems(4) qK o1]
  have same: "sweep_inv hs t1 e t0 Q x = sweep_inv hs t e t0 Q x" for Q x t0 by (simp add: sweep_inv_def par)
  have enc: "encrypting pid e evs" and qt: "quiet pid evs rs1"
    using Cons.prems(7,14) by (simp_all add: ev r1 encrypting_Cons quiet_Cons)
  show ?case
  proof (cases "q = pid")
    case True
    have "window_for pid now t = window_new now"
      using Cons.prems(12) tracked_room [OF Cons.prems(4,6)] by (simp add: window_for_def)
    then have "sweep_inv hs t e now {} (window_for pid now t)" using sweep_inv_new [OF Cons.prems(10)] by simp
    moreover have "r = None" using Cons.prems(14) True by (simp add: ev r1 quiet_Cons)
    moreover have "insert p {} \<subseteq> S" using Cons.prems(8) True by (simp add: ev paths_of_Cons)
    moreover have "encrypting pid e [(pid, p, now)]" using Cons.prems(7) True by (auto simp: ev encrypting_def)
    ultimately obtain w1 where w1: "map_of (mw_inner t1) pid = Some w1" "sweep_inv hs t1 e now {p} w1"
      using sweep_observe [OF Cons.prems(1,2) _ _ Cons.prems(3,4,6), of p "{}" e now now t1] o1 True by auto
    have "\<exists>w'. map_of (mw_inner t') pid = Some w' \<and> sweep_inv hs t1 e now ({p} \<union> paths_of pid evs) w'"
      by (rule sweep_run [OF Cons.prems(1,2) _ _ _ Cons.prems(6) enc _ _ w1 r1(1) qt])
        (use Cons.prems(3,5,8,11) tr par True in \<open>auto simp: ev paths_of_Cons\<close>)
    then show ?thesis by (auto simp: same ev True paths_of_Cons)
  next
    case False
    then have pe: "paths_of pid (ev # evs) = paths_of pid evs" by (simp add: ev paths_of_Cons)
    have "\<exists>w' t0. sweep_inv hs t1 e t0 (paths_of pid evs) w'"
      by (rule Cons.IH [OF Cons.prems(1,2) _ _ _ Cons.prems(6) enc _ _ _ _ _ r1(1) qt])
        (use Cons.prems(3,5,8-12) tr par False pe in \<open>auto simp: ev\<close>)
    then show ?thesis by (simp add: same pe)
  qed
qed (simp add: paths_of_def)

lemma default_share: "f32_le (to_f32 (7 / 10)) (Fin 1)"
  using f32_round_unit [of "7 / 10"] by (auto simp: to_f32_unit f32_le_def)

text \<open>
  C21. A process that writes enough files under one unusual extension is reported. Whatever else happens
  on the host, as long as at most 512 processes write: if all absolute paths a process opens for writing
  within one window end in the same uncommon extension and there are at least the configured numbers of
  distinct files and directories, then at one of these opens a finding about that process is raised.
  The hash is assumed to tell these paths and directories apart.
\<close>

theorem sweep_is_reported:
  assumes "hashing_ok hs" "inj_on (hs_hash hs) (paths_of pid evs)" "inj_on (hs_hash hs) (dir_of ` paths_of pid evs)"
    and "card (fst ` set evs) \<le> 512" "encrypting pid e evs"
    and "\<forall>(q, p, a) \<in> set evs. \<forall>(q', p', b) \<in> set evs. q = pid \<and> q' = pid \<longrightarrow> b - a \<le> window"
    and "max min_files 2 \<le> card (paths_of pid evs)" "max min_dirs 1 \<le> card (dir_of ` paths_of pid evs)"
    and "mass_run hs evs (mass_write_new window min_files min_dirs) = (rs, t')"
  shows "\<exists>i < length evs. fst (evs ! i) = pid \<and> rs ! i \<noteq> None"
proof (rule ccontr)
  let ?t = "mass_write_new window min_files min_dirs" and ?P = "paths_of pid evs"
  assume "\<not> ?thesis"
  then have q: "quiet pid evs rs" by (auto simp: quiet_def)
  have ne: "?P \<noteq> {}" using assms(7) by auto
  then have pid: "pid \<in> fst ` set evs" by (force simp: paths_of_def)
  have "\<exists>w' t0. sweep_inv hs ?t e t0 ?P w'"
    by (rule sweep_first [OF assms(1,2) _ _ subset_refl pid assms(5) subset_refl ne _ _ _ assms(9) q])
      (use assms(4,6) default_share in \<open>auto simp: mass_write_new_def tracked_in_def\<close>)
  then obtain w t0 where inv: "sweep_inv hs ?t e t0 ?P w" by blast
  have "length (ww_paths w) = card ?P" using inv distinct_card [of "ww_paths w"] card_image [OF assms(2)] by (simp add: sweep_inv_def)
  moreover have "length (ww_dirs w) = card (dir_of ` ?P)"
    using inv distinct_card [of "ww_dirs w"] card_image [OF assms(3)] by (simp add: sweep_inv_def)
  ultimately show False using inv assms(7,8) by (auto simp: sweep_inv_def mass_write_new_def less_max_iff_disj)
qed

definition demo_hashing :: hashing where
  "demo_hashing = \<lparr>hs_hash = (\<lambda>s. of_nat (foldl (\<lambda>a ch. a * 256 + of_char ch) 0 s)), hs_order = id\<rparr>"

theorem sweep_is_reported_witness:
  "let evs = [(7, ''/a/x.lkd'', 0), (7, ''/b/y.lkd'', 2), (9, ''/tmp/z'', 2), (7, ''/b/z.lkd'', 3)] in
   \<exists>i < length evs. fst (evs ! i) = 7 \<and> fst (mass_run demo_hashing evs (mass_write_new 60 3 2)) ! i \<noteq> None"
proof -
  let ?evs = "[(7, ''/a/x.lkd'', 0), (7, ''/b/y.lkd'', 2), (9, ''/tmp/z'', 2), (7, ''/b/z.lkd'', 3)] :: (u32 \<times> string \<times> nat) list"
  have P: "paths_of 7 ?evs = {''/a/x.lkd'', ''/b/y.lkd'', ''/b/z.lkd''}" by (auto simp: paths_of_Cons) (auto simp: paths_of_def)
  have D: "dir_of ''/a/x.lkd'' = ''/a''" "dir_of ''/b/y.lkd'' = ''/b''" "dir_of ''/b/z.lkd'' = ''/b''" by (simp_all add: dir_of_def rsplit_once_def)
  have K: "card (fst ` set ?evs) \<le> 512" using le_trans [OF card_length [of "map fst ?evs"], of 512] by simp
  have ok: "hashing_ok demo_hashing" by (simp add: hashing_ok_def demo_hashing_def)
  have i1: "inj_on (hs_hash demo_hashing) {''/a/x.lkd'', ''/b/y.lkd'', ''/b/z.lkd''}" by (simp add: inj_on_def demo_hashing_def)
  have i2: "inj_on (hs_hash demo_hashing) {''/a'', ''/b''}" by (simp add: inj_on_def demo_hashing_def)
  have e: "encrypting 7 ''lkd'' ?evs"
    by (simp add: encrypting_def is_common_def COMMON_EXTENSIONS_def ext_of_def rsplit_once_def final_extension_def
        ascii_alphanumeric_def ascii_lower_def)
  obtain rs t' where r: "mass_run demo_hashing ?evs (mass_write_new 60 3 2) = (rs, t')"
    by (cases "mass_run demo_hashing ?evs (mass_write_new 60 3 2)")
  have "\<exists>i < length ?evs. fst (?evs ! i) = 7 \<and> rs ! i \<noteq> None"
    by (rule sweep_is_reported [OF ok _ _ K e _ _ _ r]) (use i1 i2 in \<open>simp_all add: P D\<close>)
  with r show ?thesis by (simp add: Let_def)
qed

section \<open>What a report of a sweep is worth\<close>

definition with_ext :: "string set \<Rightarrow> string \<Rightarrow> string set" where
  "with_ext Q x = {p \<in> Q. ext_of p = Some x}"

definition sound_inv :: "hashing \<Rightarrow> string set \<Rightarrow> write_window \<Rightarrow> bool" where
  "sound_inv hs Q w \<longleftrightarrow> finite Q \<and> distinct (ww_paths w) \<and> set (ww_paths w) = hs_hash hs ` Q \<and>
     distinct (ww_dirs w) \<and> set (ww_dirs w) = hs_hash hs ` dir_of ` Q \<and> distinct (map fst (ww_extensions w)) \<and>
     (\<forall>x n. map_of (ww_extensions w) x = Some n \<longrightarrow> n \<le> card (with_ext Q x))"

lemma sound_inv_new: "sound_inv hs {} (window_new now)"
  by (simp add: sound_inv_def window_new_def)

lemma most_frequent_in: "most_frequent xs = Some x \<Longrightarrow> x \<in> set xs"
proof (cases xs)
  case (Cons y ys)
  have "foldl (\<lambda>m y. if snd m \<le> snd y then y else m) y ys \<in> set (y # ys)" for y :: "string \<times> nat"
    by (induction ys arbitrary: y) (auto split: if_splits)
  from this [of y] show "most_frequent xs = Some x \<Longrightarrow> x \<in> set xs" using Cons by simp
qed simp

lemma track_name_frame:
  assumes "track_name t pid path dir name w = (r, w')"
  shows "ww_started w' = ww_started w" "ww_paths w' = ww_paths w" "ww_dirs w' = ww_dirs w" "ww_extensions w' = ww_extensions w"
  using assms unfolding track_name_def Let_def by (auto split: if_splits option.splits)

text \<open>The finding describes the files counted in the window.\<close>

definition burst_describes :: "mass_write_tracker \<Rightarrow> mass_write_burst \<Rightarrow> string set \<Rightarrow> bool" where
  "burst_describes t b Q \<longleftrightarrow> mw_min_files t \<le> mb_files b \<and> mb_files b \<le> card Q \<and>
     mw_min_dirs t \<le> mb_dirs b \<and> mb_dirs b \<le> card (dir_of ` Q) \<and> \<not> is_common (mb_extension b) \<and>
     mb_extension_files b \<le> card (with_ext Q (mb_extension b)) \<and>
     \<not> f32_less (f32_div (f32_round (of_nat (mb_extension_files b))) (f32_round (of_nat (mb_files b)))) (mw_min_share t)"

lemma sweep_of_describes:
  assumes hs: "hashing_ok hs" and inv: "sound_inv hs Q w" and b: "sweep_of hs t pid w = Some b"
  shows "burst_describes t b Q \<and> mb_pid b = pid"
proof -
  obtain ext n where m: "most_frequent (hs_order hs (ww_extensions w)) = Some (ext, n)"
    and thr: "\<not> length (ww_paths w) < mw_min_files t" "\<not> length (ww_dirs w) < mw_min_dirs t"
    and sh: "\<not> f32_less (f32_div (f32_round (of_nat n)) (f32_round (of_nat (length (ww_paths w))))) (mw_min_share t)" "\<not> is_common ext"
    and beq: "b = \<lparr>mb_pid = pid, mb_files = length (ww_paths w), mb_dirs = length (ww_dirs w), mb_extension = ext,
                   mb_extension_files = n, mb_samples = ww_samples w\<rparr>"
    using b unfolding sweep_of_def by (auto split: if_splits option.splits)
  from most_frequent_in [OF m] hs have "(ext, n) \<in> set (ww_extensions w)" by (simp add: hashing_ok_def)
  then have "map_of (ww_extensions w) ext = Some n" using inv by (simp add: sound_inv_def)
  then have n: "n \<le> card (with_ext Q ext)" using inv by (simp add: sound_inv_def)
  have fin: "finite Q" using inv by (simp add: sound_inv_def)
  have "length (ww_paths w) \<le> card Q"
    using inv distinct_card [of "ww_paths w"] card_image_le [OF fin, of "hs_hash hs"] by (simp add: sound_inv_def)
  moreover have "length (ww_dirs w) \<le> card (dir_of ` Q)"
    using inv distinct_card [of "ww_dirs w"] card_image_le [of "dir_of ` Q" "hs_hash hs"] fin by (simp add: sound_inv_def)
  ultimately show ?thesis using thr sh n by (simp add: burst_describes_def beq)
qed

lemma sound_count:
  assumes inv: "sound_inv hs Q w" and p: "p \<notin> Q" and new: "hs_hash hs p \<notin> set (ww_paths w)"
    and dn: "rsplit_once (CHR ''/'') p = Some (d, n)"
    and w2: "ww_paths w2 = ww_paths w @ [hs_hash hs p]" "ww_dirs w2 = List.insert (hs_hash hs d) (ww_dirs w)" "ww_extensions w2 = ww_extensions w"
  shows "sound_inv hs (insert p Q) w2 \<and> sound_inv hs (insert p Q) (count_extension n w2)"
proof -
  have fin: "finite Q" using inv by (simp add: sound_inv_def)
  have d: "dir_of p = d" and e: "ext_of p = final_extension n" using dn by (simp_all add: dir_of_def ext_of_def)
  have more: "card (with_ext (insert p Q) x) = (if ext_of p = Some x then 1 else 0) + card (with_ext Q x)" for x
  proof -
    have "with_ext (insert p Q) x = (if ext_of p = Some x then insert p (with_ext Q x) else with_ext Q x)" by (auto simp: with_ext_def)
    moreover have "finite (with_ext Q x)" "p \<notin> with_ext Q x" using fin p by (simp_all add: with_ext_def)
    ultimately show ?thesis by simp
  qed
  have "sound_inv hs (insert p Q) w2"
    using inv new fin by (auto simp: sound_inv_def w2 d more trans_le_add2)
  moreover have "sound_inv hs (insert p Q) (count_extension n w2)"
  proof (cases "final_extension n")
    case None
    with calculation show ?thesis by (simp add: count_extension_def)
  next
    case (Some x)
    have "n' \<le> card (with_ext (insert p Q) y)" if "map_of (ww_extensions (count_extension n w2)) y = Some n'" for y n'
      using that inv Some e by (auto simp: more count_extension_def w2 update_conv' sound_inv_def trans_le_add2 split: if_splits option.splits)
    then show ?thesis
      using calculation Some by (simp add: sound_inv_def count_extension_def w2 distinct_update)
  qed
  ultimately show ?thesis by blast
qed

lemma sound_samples: "sound_inv hs Q (w\<lparr>ww_samples := x\<rparr>) = sound_inv hs Q w" "sound_inv hs Q (w\<lparr>ww_reported := y\<rparr>) = sound_inv hs Q w"
  by (simp_all add: sound_inv_def)

lemma track_sweep_sound:
  assumes "hashing_ok hs" "sound_inv hs Q w" "sound_inv hs Q (count_extension n w)" "track_sweep hs t pid p n w = (b, w')"
  shows "sound_inv hs Q w' \<and> ww_started w' = ww_started w \<and> (\<forall>x. b = Some x \<longrightarrow> burst_describes t x Q \<and> mb_pid x = pid)"
proof (cases "ww_reported w")
  case True
  with assms show ?thesis by (simp add: track_sweep_def)
next
  case False
  let ?w1 = "count_extension n w"
  let ?w2 = "?w1\<lparr>ww_samples := (if length (ww_samples ?w1) < 5 then ww_samples ?w1 @ [p] else ww_samples ?w1)\<rparr>"
  have i2: "sound_inv hs Q ?w2" using assms(3) by (simp only: sound_samples)
  have st: "ww_started ?w2 = ww_started w" by (simp add: count_extension_def split: option.split)
  have "b = sweep_of hs t pid ?w2" and "w' = ?w2 \<or> w' = ?w2\<lparr>ww_reported := True\<rparr>"
    using assms(4) False unfolding track_sweep_def Let_def by (auto split: option.splits)
  with i2 st sweep_of_describes [OF assms(1) i2, of t pid] show ?thesis by (auto simp: sound_samples)
qed

lemma window_observe_sound:
  assumes hs: "hashing_ok hs" and inv: "sound_inv hs Q w" and abs: "prefix ''/'' p" and run: "window_observe hs t pid p w = (r, w')"
  shows "\<exists>Q'. Q' \<subseteq> insert p Q \<and> sound_inv hs Q' w' \<and> ww_started w' = ww_started w \<and>
    (\<forall>b. r = Some (Sweep b) \<longrightarrow> burst_describes t b Q' \<and> mb_pid b = pid)"
proof -
  obtain d n where dn: "rsplit_once (CHR ''/'') p = Some (d, n)" using rsplit_once_absolute [OF abs] by blast
  let ?w1 = "w\<lparr>ww_paths := ww_paths w @ [hs_hash hs p], ww_dirs := List.insert (hs_hash hs d) (ww_dirs w)\<rparr>"
  show ?thesis
  proof (cases "ww_reported w \<and> ww_note_reported w \<or> hs_hash hs p \<in> set (ww_paths w)")
    case True
    then have "r = None" "w' = w" using run dn by (auto simp: window_observe_def split: if_splits)
    with inv show ?thesis by (intro exI [of _ Q]) auto
  next
    case False
    then have new: "hs_hash hs p \<notin> set (ww_paths w)" and "p \<notin> Q" using inv by (auto simp: sound_inv_def)
    obtain r1 w2 where tn: "track_name t pid p d n ?w1 = (r1, w2)" by (cases "track_name t pid p d n ?w1")
    note fr = track_name_frame [OF tn]
    have cnt: "sound_inv hs (insert p Q) w2 \<and> sound_inv hs (insert p Q) (count_extension n w2)"
      by (rule sound_count [OF inv \<open>p \<notin> Q\<close> new dn]) (simp_all add: fr)
    have st: "ww_started w2 = ww_started w" by (simp add: fr)
    show ?thesis
    proof (cases r1)
      case None
      obtain b w3 where ts: "track_sweep hs t pid p n w2 = (b, w3)" by (cases "track_sweep hs t pid p n w2")
      have "r = map_option Sweep b" "w' = w3" using run False dn tn None ts by (auto simp: window_observe_def split: if_splits)
      with track_sweep_sound [OF hs conjunct1 [OF cnt] conjunct2 [OF cnt] ts] st show ?thesis
        by (intro exI [of _ "insert p Q"]) auto
    next
      case (Some x)
      then have "r = Some (Note x)" "w' = w2" using run False dn tn by (auto simp: window_observe_def split: if_splits)
      with cnt st show ?thesis by (intro exI [of _ "insert p Q"]) auto
    qed
  qed
qed

definition tracker_sound :: "hashing \<Rightarrow> (u32 \<times> string \<times> nat) set \<Rightarrow> nat \<Rightarrow> mass_write_tracker \<Rightarrow> bool" where
  "tracker_sound hs H T t \<longleftrightarrow> (\<forall>pid w. map_of (mw_inner t) pid = Some w \<longrightarrow>
     ww_started w \<le> T \<and> (\<exists>Q. sound_inv hs Q w \<and> (\<forall>p \<in> Q. \<exists>a. (pid, p, a) \<in> H \<and> ww_started w \<le> a)))"

lemma window_for_sound:
  assumes "tracker_sound hs H T t" "T \<le> now"
  shows "\<exists>Q. sound_inv hs Q (window_for pid now t) \<and> (\<forall>p \<in> Q. \<exists>a. (pid, p, a) \<in> H \<and> ww_started (window_for pid now t) \<le> a)"
    "ww_started (window_for pid now t) \<le> now" "now - ww_started (window_for pid now t) \<le> mw_window t"
proof -
  have new: "\<exists>Q. sound_inv hs Q (window_new now) \<and> (\<forall>p \<in> Q. \<exists>a. (pid, p, a) \<in> H \<and> ww_started (window_new now) \<le> a)"
    using sound_inv_new [of hs now] by (intro exI [of _ "{}"]) simp
  have st: "ww_started (window_new now) = now" by (simp add: window_new_def)
  show "\<exists>Q. sound_inv hs Q (window_for pid now t) \<and> (\<forall>p \<in> Q. \<exists>a. (pid, p, a) \<in> H \<and> ww_started (window_for pid now t) \<le> a)"
  proof (cases "window_for pid now t = window_new now")
    case False
    then have "map_of (empty_if_full (mw_max_tracked t) pid (mw_inner t)) pid = Some (window_for pid now t)"
      by (auto simp: window_for_def Let_def split: option.splits if_splits)
    from map_of_empty_if_full_Some [OF this] assms(1) show ?thesis by (simp add: tracker_sound_def)
  qed (use new in simp)
  show "ww_started (window_for pid now t) \<le> now"
    using assms st by (auto simp: window_for_def Let_def tracker_sound_def dest!: map_of_empty_if_full_Some split: option.split) force
  show "now - ww_started (window_for pid now t) \<le> mw_window t" using st by (simp add: window_for_def Let_def)
qed

lemma mass_observe_sound:
  assumes hs: "hashing_ok hs" and inv: "tracker_sound hs H T t" and T: "T \<le> now" and run: "mass_observe hs pid p now t = (r, t')"
  shows "tracker_sound hs (insert (pid, p, now) H) now t' \<and>
    (\<forall>b. r = Some (Sweep b) \<longrightarrow> mb_pid b = pid \<and>
      (\<exists>Q. (\<forall>q \<in> Q. \<exists>a. (pid, q, a) \<in> insert (pid, p, now) H \<and> now - a \<le> mw_window t) \<and> burst_describes t b Q))"
proof (cases "prefix ''/'' p")
  case False
  with run inv T show ?thesis by (fastforce simp: mass_observe_relative tracker_sound_def)
next
  case True
  let ?w = "window_for pid now t"
  obtain w' where w': "window_observe hs t pid p ?w = (r, w')"
    and inner: "mw_inner t' = AList.update pid w' (empty_if_full (mw_max_tracked t) pid (mw_inner t))"
    using run by (cases "window_observe hs t pid p ?w") (auto simp: mass_observe_window [OF True])
  from window_for_sound [OF inv T, of pid] obtain Q where Q: "sound_inv hs Q ?w"
    "\<forall>q \<in> Q. \<exists>a. (pid, q, a) \<in> H \<and> ww_started ?w \<le> a" "ww_started ?w \<le> now" "now - ww_started ?w \<le> mw_window t" by blast
  from window_observe_sound [OF hs Q(1) True w'] obtain Q' where Q': "Q' \<subseteq> insert p Q" "sound_inv hs Q' w'" "ww_started w' = ww_started ?w"
    and sw: "\<forall>b. r = Some (Sweep b) \<longrightarrow> burst_describes t b Q' \<and> mb_pid b = pid" by blast
  have hist: "\<forall>q \<in> Q'. \<exists>a. (pid, q, a) \<in> insert (pid, p, now) H \<and> ww_started ?w \<le> a" using Q' Q by blast
  have "tracker_sound hs (insert (pid, p, now) H) now t'"
    unfolding tracker_sound_def
  proof (intro allI impI)
    fix j v
    assume v: "map_of (mw_inner t') j = Some v"
    show "ww_started v \<le> now \<and> (\<exists>Q. sound_inv hs Q v \<and> (\<forall>q \<in> Q. \<exists>a. (j, q, a) \<in> insert (pid, p, now) H \<and> ww_started v \<le> a))"
    proof (cases "j = pid")
      case True
      with v inner have "v = w'" by (simp add: update_conv')
      with True Q' Q(3) hist show ?thesis by auto
    next
      case False
      with v inner have "map_of (empty_if_full (mw_max_tracked t) pid (mw_inner t)) j = Some v" by (simp add: update_conv')
      from map_of_empty_if_full_Some [OF this] inv T show ?thesis unfolding tracker_sound_def by (meson insertI2 le_trans)
    qed
  qed
  moreover have "\<forall>q \<in> Q'. \<exists>a. (pid, q, a) \<in> insert (pid, p, now) H \<and> now - a \<le> mw_window t"
    using hist Q(4) by (meson diff_le_mono2 le_trans)
  ultimately show ?thesis using sw by blast
qed

lemma mass_run_sound:
  assumes "hashing_ok hs" "tracker_sound hs H T t" "sorted (map (snd \<circ> snd) evs)" "\<forall>ev \<in> set evs. T \<le> snd (snd ev)"
    and "mass_run hs evs t = (rs, t')" "i < length evs" "evs ! i = (pid, p, now)" "rs ! i = Some (Sweep b)"
  shows "mb_pid b = pid \<and> (\<exists>Q. (\<forall>q \<in> Q. \<exists>a. (pid, q, a) \<in> set (take (Suc i) evs) \<union> H \<and> now - a \<le> mw_window t) \<and> burst_describes t b Q)"
  using assms
proof (induction evs arbitrary: t H T rs i)
  case (Cons ev evs)
  obtain q x a where ev: "ev = (q, x, a)" by (cases ev)
  obtain r t1 where o1: "mass_observe hs q x a t = (r, t1)" by (cases "mass_observe hs q x a t")
  obtain rs1 where r1: "mass_run hs evs t1 = (rs1, t')" "rs = r # rs1" using Cons.prems(5) o1 by (auto simp: ev split: prod.splits)
  have "T \<le> a" using Cons.prems(4) by (simp add: ev)
  note snd1 = mass_observe_sound [OF Cons.prems(1,2) this o1]
  note par = mass_observe_params [OF o1]
  show ?case
  proof (cases i)
    case 0
    with Cons.prems(7,8) r1(2) ev snd1 show ?thesis by auto
  next
    case (Suc j)
    have "mb_pid b = pid \<and> (\<exists>Q. (\<forall>q \<in> Q. \<exists>c. (pid, q, c) \<in> set (take (Suc j) evs) \<union> insert (q', x, a) H \<and> now - c \<le> mw_window t1) \<and>
        burst_describes t1 b Q)" if "q' = q" for q'
      by (rule Cons.IH [OF Cons.prems(1) _ _ _ r1(1)]) (use snd1 that Cons.prems(3,6-8) r1(2) Suc in \<open>auto simp: ev\<close>)
    from this [OF refl] show ?thesis by (simp add: Suc ev par burst_describes_def)
  qed
qed simp

text \<open>
  A reported sweep is one. Whatever processes write in whatever order, when a sweep of a process is
  reported there are files that this very process opened for writing within the last window, at least as
  many as reported and as configured, in at least as many directories as reported and as configured, and
  the reported number of them, no less than seven tenths, has the reported extension, which is not a
  common one.
\<close>

theorem sweep_report_is_sound:
  assumes "hashing_ok hs" "sorted (map (snd \<circ> snd) evs)"
    and "mass_run hs evs (mass_write_new window min_files min_dirs) = (rs, t')"
    and "i < length evs" "evs ! i = (pid, p, now)" "rs ! i = Some (Sweep b)"
  shows "\<exists>Q. (\<forall>q \<in> Q. \<exists>a. (pid, q, a) \<in> set (take (Suc i) evs) \<and> now - a \<le> window) \<and>
    mb_pid b = pid \<and> max min_files 2 \<le> mb_files b \<and> mb_files b \<le> card Q \<and>
    max min_dirs 1 \<le> mb_dirs b \<and> mb_dirs b \<le> card (dir_of ` Q) \<and>
    mb_extension_files b \<le> card {q \<in> Q. ext_of q = Some (mb_extension b)} \<and> \<not> is_common (mb_extension b) \<and>
    \<not> f32_less (f32_div (f32_round (of_nat (mb_extension_files b))) (f32_round (of_nat (mb_files b)))) (to_f32 (7 / 10))"
proof -
  let ?t = "mass_write_new window min_files min_dirs"
  have "tracker_sound hs {} 0 ?t" by (simp add: tracker_sound_def mass_write_new_def)
  from mass_run_sound [OF assms(1) this assms(2) _ assms(3-6)] obtain Q where
    "mb_pid b = pid" "\<forall>q \<in> Q. \<exists>a. (pid, q, a) \<in> set (take (Suc i) evs) \<and> now - a \<le> mw_window ?t" "burst_describes ?t b Q" by auto
  then show ?thesis by (intro exI [of _ Q]) (simp add: burst_describes_def with_ext_def mass_write_new_def)
qed

definition demo_writes :: "(u32 \<times> string \<times> nat) list" where
  "demo_writes = [(7, ''/a/x.lkd'', 0), (7, ''/b/y.lkd'', 2), (9, ''/tmp/z'', 2), (7, ''/b/z.lkd'', 3)]"

lemma demo_name: "rsplit_once (CHR ''/'') ''/a/x.lkd'' = Some (''/a'', ''x.lkd'')" "rsplit_once (CHR ''/'') ''/b/y.lkd'' = Some (''/b'', ''y.lkd'')"
  "rsplit_once (CHR ''/'') ''/b/z.lkd'' = Some (''/b'', ''z.lkd'')" "rsplit_once (CHR ''/'') ''/tmp/z'' = Some (''/tmp'', ''z'')"
  "final_extension ''x.lkd'' = Some ''lkd''" "final_extension ''y.lkd'' = Some ''lkd''" "final_extension ''z.lkd'' = Some ''lkd''" "final_extension ''z'' = None"
  by (simp_all add: rsplit_once_def final_extension_def ascii_alphanumeric_def ascii_lower_def)

lemma demo_sweep:
  "case fst (mass_run demo_hashing demo_writes (mass_write_new 60 3 2)) ! 3 of Some (Sweep b) \<Rightarrow> mb_extension b = ''lkd'' | _ \<Rightarrow> False"
proof -
  have share: "\<not> f32_less (f32_div (f32_round 3) (f32_round 3)) (to_f32 (7 / 10))"
    using full_share [of 3 "to_f32 (7 / 10)"] default_share by simp
  show ?thesis
    by (simp add: demo_writes_def mass_observe_def mass_write_new_def empty_if_full_def window_new_def window_observe_def demo_name demo_hashing_def
        track_name_def PSEUDO_FS_def MAX_NAMES_def MAX_DIRS_PER_NAME_def watch_dir_def note_of_def track_sweep_def count_extension_def sweep_of_def
        is_common_def COMMON_EXTENSIONS_def share)
qed

theorem sweep_report_is_sound_witness:
  "\<exists>b Q. fst (mass_run demo_hashing demo_writes (mass_write_new 60 3 2)) ! 3 = Some (Sweep b) \<and>
     (\<forall>q \<in> Q. \<exists>a. (7, q, a) \<in> set demo_writes \<and> 3 - a \<le> 60) \<and> 3 \<le> card Q"
proof -
  obtain rs t' where r: "mass_run demo_hashing demo_writes (mass_write_new 60 3 2) = (rs, t')"
    by (cases "mass_run demo_hashing demo_writes (mass_write_new 60 3 2)")
  obtain b where b: "rs ! 3 = Some (Sweep b)" using demo_sweep r by (auto split: option.splits impact_finding.splits)
  have ok: "hashing_ok demo_hashing" by (simp add: hashing_ok_def demo_hashing_def)
  have s: "sorted (map (snd \<circ> snd) demo_writes)" and l: "3 < length demo_writes" and e: "demo_writes ! 3 = (7, ''/b/z.lkd'', 3)"
    by (simp_all add: demo_writes_def)
  have t: "take (Suc 3) demo_writes = demo_writes" by (simp add: demo_writes_def)
  from sweep_report_is_sound [OF ok s r l e b] obtain Q where
    "\<forall>q \<in> Q. \<exists>a. (7, q, a) \<in> set (take (Suc 3) demo_writes) \<and> 3 - a \<le> 60" "max 3 2 \<le> mb_files b" "mb_files b \<le> card Q" by blast
  with r b t show ?thesis by (intro exI [of _ b] exI [of _ Q]) auto
qed

section \<open>A note that is not reported\<close>

lemma common_depth_append: "xs \<noteq> [] \<Longrightarrow> common_depth (xs @ ys) \<le> common_depth xs"
proof (cases xs)
  case (Cons d ds)
  have "foldl (\<lambda>depth other. min depth (shared_depth a (dir_parts other))) m zs \<le> m" for a m zs
  proof (induction zs arbitrary: m)
    case (Cons z zs)
    from Cons.IH [of "min m (shared_depth a (dir_parts z))"] show ?case by simp
  qed simp
  with Cons show "common_depth (xs @ ys) \<le> common_depth xs" by simp
qed simp

lemma rsplit_once_name: "ch \<notin> set name \<Longrightarrow> rsplit_once ch (d @ ch # name) = Some (d, name)"
  by (simp add: rsplit_once_def takeWhile_append)

text \<open>The writes of one name into a list of directories, and the watch they leave.\<close>

definition drops :: "u32 \<Rightarrow> nat \<Rightarrow> string \<Rightarrow> string list \<Rightarrow> (u32 \<times> string \<times> nat) list" where
  "drops pid now name ds = map (\<lambda>d. (pid, d @ CHR ''/'' # name, now)) ds"

definition note_inv :: "hashing \<Rightarrow> string \<Rightarrow> nat \<Rightarrow> string list \<Rightarrow> write_window \<Rightarrow> bool" where
  "note_inv hs name now ds w \<longleftrightarrow> ww_started w = now \<and> \<not> ww_note_reported w \<and> length (ww_names w) \<le> 1 \<and>
     (\<forall>x. map_of (ww_names w) x \<noteq> None \<longrightarrow> x = name) \<and>
     (case map_of (ww_names w) name of None \<Rightarrow> [] | Some x \<Rightarrow> nw_dirs x) = ds"

lemma note_of_deep: "ds \<noteq> [] \<Longrightarrow> nw_dirs w = ds \<Longrightarrow> mw_max_note_depth t < common_depth ds \<Longrightarrow> note_of t pid name w = None"
  by (simp add: note_of_def Let_def)

definition grown :: "string \<Rightarrow> string list \<Rightarrow> string list" where
  "grown d ds = (if d \<in> set ds \<or> MAX_DIRS_PER_NAME \<le> length ds then ds else ds @ [d])"

lemma track_sweep_frame:
  assumes "track_sweep hs t pid p n w = (b, w')"
  shows "ww_started w' = ww_started w" "ww_names w' = ww_names w" "ww_note_reported w' = ww_note_reported w" "ww_paths w' = ww_paths w"
  using assms by (auto simp: track_sweep_def Let_def count_extension_def split: option.splits if_splits)

lemma track_name_deep:
  assumes inv: "note_inv hs name now ds w" and name: "name \<noteq> []"
    and deep: "grown d ds \<noteq> []" "mw_max_note_depth t < common_depth (grown d ds)"
    and run: "track_name t pid path d name w = (r, w')"
  shows "r = None \<and> ww_paths w' = ww_paths w \<and>
    note_inv hs name now (if list_ex (\<lambda>pre. prefix pre path) PSEUDO_FS then ds else grown d ds) w'"
proof (cases "list_ex (\<lambda>pre. prefix pre path) PSEUDO_FS")
  case True
  with run inv show ?thesis by (simp add: track_name_def)
next
  case False
  let ?old = "case map_of (ww_names w) name of Some x \<Rightarrow> x | None \<Rightarrow> \<lparr>nw_dirs = [], nw_samples = []\<rparr>"
  let ?watch = "watch_dir d path ?old"
  have old: "nw_dirs ?old = ds" using inv by (auto simp: note_inv_def split: option.splits)
  then have dirs: "nw_dirs ?watch = grown d ds" by (auto simp: watch_dir_def grown_def)
  have room: "length (ww_names w) < MAX_NAMES" using inv by (simp add: note_inv_def MAX_NAMES_def)
  have nn: "\<not> ww_note_reported w" using inv by (simp add: note_inv_def)
  from note_of_deep [OF deep(1) dirs deep(2)] run nn room name False
  have r: "r = None" and w': "w' = w\<lparr>ww_names := AList.update name ?watch (ww_names w)\<rparr>"
    unfolding track_name_def Let_def by auto
  have "length (AList.update name ?watch (ww_names w)) \<le> 1"
  proof (cases "ww_names w")
    case (Cons x xs)
    then have "fst x = name" "xs = []" using inv by (auto simp: note_inv_def split: if_splits)
    with Cons show ?thesis by (simp add: alist_update_length)
  qed (simp add: alist_update_length)
  then show ?thesis using False inv dirs by (simp add: r w' note_inv_def update_conv')
qed

lemma note_step:
  assumes inv: "note_inv hs name now ds w" and name: "CHR ''/'' \<notin> set name" "name \<noteq> []"
    and deep: "grown d ds \<noteq> []" "mw_max_note_depth t < common_depth (grown d ds)"
    and run: "window_observe hs t pid (d @ CHR ''/'' # name) w = (r, w')"
  shows "(\<forall>n. r \<noteq> Some (Note n)) \<and> set (ww_paths w') \<subseteq> insert (hs_hash hs (d @ CHR ''/'' # name)) (set (ww_paths w)) \<and>
    note_inv hs name now
      (if hs_hash hs (d @ CHR ''/'' # name) \<in> set (ww_paths w) \<or> list_ex (\<lambda>pre. prefix pre (d @ CHR ''/'' # name)) PSEUDO_FS
       then ds else grown d ds) w'"
proof (cases "hs_hash hs (d @ CHR ''/'' # name) \<in> set (ww_paths w)")
  case True
  with run inv rsplit_once_name [OF name(1), of d] show ?thesis by (auto simp: window_observe_def note_inv_def)
next
  case False
  let ?p = "d @ CHR ''/'' # name"
  let ?w1 = "w\<lparr>ww_paths := ww_paths w @ [hs_hash hs ?p], ww_dirs := List.insert (hs_hash hs d) (ww_dirs w)\<rparr>"
  have inv1: "note_inv hs name now ds ?w1" using inv by (simp add: note_inv_def)
  obtain r1 w2 where tn: "track_name t pid ?p d name ?w1 = (r1, w2)" by (cases "track_name t pid ?p d name ?w1")
  note td = track_name_deep [OF inv1 name(2) deep tn]
  obtain b w3 where ts: "track_sweep hs t pid ?p name w2 = (b, w3)" by (cases "track_sweep hs t pid ?p name w2")
  have "r = map_option Sweep b" "w' = w3"
    using run False td tn ts inv rsplit_once_name [OF name(1), of d] by (auto simp: window_observe_def note_inv_def)
  with td track_sweep_frame [OF ts] False show ?thesis by (auto simp: note_inv_def)
qed

lemma window_for_known:
  assumes "map_of (mw_inner t) pid = Some w" "note_inv hs name now ds w" "tracked_in {pid} t"
  shows "window_for pid now t = w"
  using assms tracked_room [OF assms(3), of pid] by (simp add: window_for_def note_inv_def)

lemma note_observe:
  assumes w: "window_for pid now t = w" and inv: "note_inv hs name now ds w"
    and name: "CHR ''/'' \<notin> set name" "name \<noteq> []" and abs: "prefix ''/'' d"
    and deep: "grown d ds \<noteq> []" "mw_max_note_depth t < common_depth (grown d ds)"
    and run: "mass_observe hs pid (d @ CHR ''/'' # name) now t = (r, t')"
  shows "\<exists>w'. map_of (mw_inner t') pid = Some w' \<and> (\<forall>n. r \<noteq> Some (Note n)) \<and>
    set (ww_paths w') \<subseteq> insert (hs_hash hs (d @ CHR ''/'' # name)) (set (ww_paths w)) \<and>
    note_inv hs name now
      (if hs_hash hs (d @ CHR ''/'' # name) \<in> set (ww_paths w) \<or> list_ex (\<lambda>pre. prefix pre (d @ CHR ''/'' # name)) PSEUDO_FS
       then ds else grown d ds) w'"
proof -
  have p: "prefix ''/'' (d @ CHR ''/'' # name)" using abs by (rule prefix_order.trans) simp
  obtain w' where "window_observe hs t pid (d @ CHR ''/'' # name) (window_for pid now t) = (r, w')" "map_of (mw_inner t') pid = Some w'"
    using run by (cases "window_observe hs t pid (d @ CHR ''/'' # name) (window_for pid now t)") (auto simp: mass_observe_window [OF p] update_conv')
  then show ?thesis using note_step [OF inv name deep, of pid r w'] w by auto
qed

text \<open>Once sixteen directories are remembered, nothing changes any more.\<close>

lemma full_watch_run:
  assumes "map_of (mw_inner t) pid = Some w" "note_inv hs name now ds w" "tracked_in {pid} t" "MAX_DIRS_PER_NAME \<le> length ds"
    and "mw_max_note_depth t < common_depth ds" "CHR ''/'' \<notin> set name" "name \<noteq> []" "\<forall>d \<in> set es. prefix ''/'' d"
    and "mass_run hs (drops pid now name es) t = (rs, t')"
  shows "\<forall>n. Some (Note n) \<notin> set rs"
  using assms
proof (induction es arbitrary: t w rs)
  case (Cons d es)
  have ne: "ds \<noteq> []" using Cons.prems(4) by (auto simp: MAX_DIRS_PER_NAME_def)
  have g: "grown d ds = ds" using Cons.prems(4) by (simp add: grown_def)
  obtain r t1 where o1: "mass_observe hs pid (d @ CHR ''/'' # name) now t = (r, t1)" by (cases "mass_observe hs pid (d @ CHR ''/'' # name) now t")
  obtain rs1 where r1: "mass_run hs (drops pid now name es) t1 = (rs1, t')" "rs = r # rs1"
    using Cons.prems(9) o1 by (auto simp: drops_def split: prod.splits)
  have d: "prefix ''/'' d" and es: "\<forall>d \<in> set es. prefix ''/'' d" using Cons.prems(8) by simp_all
  from note_observe [OF window_for_known [OF Cons.prems(1-3)] Cons.prems(2,6,7) d _ _ o1] ne g Cons.prems(5) obtain w1 where w1:
    "map_of (mw_inner t1) pid = Some w1" "\<forall>n. r \<noteq> Some (Note n)" "note_inv hs name now ds w1" by (auto split: if_splits)
  have "tracked_in {pid} t1" using mass_observe_tracked [OF Cons.prems(3) _ o1] by simp
  from Cons.IH [OF w1(1,3) this Cons.prems(4) _ Cons.prems(6,7) es r1(1)] Cons.prems(5) w1(2)
  show ?case by (auto simp: mass_observe_params [OF o1] r1(2))
qed (simp add: drops_def)

text \<open>The first sixteen directories are remembered in the order they come.\<close>

lemma fill_watch_run:
  assumes "window_for pid now t = w" "note_inv hs name now ds0 w" "tracked_in {pid} t"
    and "distinct (ds0 @ ds)" "length (ds0 @ ds) \<le> MAX_DIRS_PER_NAME" "ds0 @ ds \<noteq> []" "mw_max_note_depth t < common_depth (ds0 @ ds)"
    and "CHR ''/'' \<notin> set name" "name \<noteq> []" "\<forall>d \<in> set ds. prefix ''/'' d \<and> \<not> list_ex (\<lambda>pre. prefix pre (d @ CHR ''/'' # name)) PSEUDO_FS"
    and "inj_on (hs_hash hs) ((\<lambda>d. d @ CHR ''/'' # name) ` set (ds0 @ ds))" "set (ww_paths w) \<subseteq> (\<lambda>d. hs_hash hs (d @ CHR ''/'' # name)) ` set ds0"
    and "mass_run hs (drops pid now name ds) t = (rs, t')"
  shows "(\<forall>n. Some (Note n) \<notin> set rs) \<and> tracked_in {pid} t' \<and> mw_max_note_depth t' = mw_max_note_depth t \<and>
    note_inv hs name now (ds0 @ ds) (window_for pid now t')"
  using assms
proof (induction ds arbitrary: t w rs ds0)
  case Nil
  then show ?case by (simp add: drops_def)
next
  case (Cons d ds)
  let ?p = "d @ CHR ''/'' # name"
  have dd: "prefix ''/'' d" "\<not> list_ex (\<lambda>pre. prefix pre ?p) PSEUDO_FS" using Cons.prems(10) by simp_all
  have g: "grown d ds0 = ds0 @ [d]" using Cons.prems(4,5) by (simp add: grown_def MAX_DIRS_PER_NAME_def)
  have deep: "mw_max_note_depth t < common_depth (ds0 @ [d])" using Cons.prems(7) common_depth_append [of "ds0 @ [d]" ds] by simp
  obtain r t1 where o1: "mass_observe hs pid ?p now t = (r, t1)" by (cases "mass_observe hs pid ?p now t")
  obtain rs1 where r1: "mass_run hs (drops pid now name ds) t1 = (rs1, t')" "rs = r # rs1"
    using Cons.prems(13) o1 by (auto simp: drops_def split: prod.splits)
  have new: "hs_hash hs ?p \<notin> set (ww_paths w)"
  proof
    assume "hs_hash hs ?p \<in> set (ww_paths w)"
    then obtain x where x: "x \<in> set ds0" "hs_hash hs ?p = hs_hash hs (x @ CHR ''/'' # name)" using Cons.prems(12) by auto
    with inj_onD [OF Cons.prems(11) x(2)] have "x = d" by simp
    with x(1) Cons.prems(4) show False by simp
  qed
  from note_observe [OF Cons.prems(1,2,8,9) dd(1) _ _ o1] g deep new dd(2) obtain w1 where w1:
    "map_of (mw_inner t1) pid = Some w1" "\<forall>n. r \<noteq> Some (Note n)" "note_inv hs name now (ds0 @ [d]) w1"
    "set (ww_paths w1) \<subseteq> insert (hs_hash hs ?p) (set (ww_paths w))" by auto
  have tr: "tracked_in {pid} t1" using mass_observe_tracked [OF Cons.prems(3) _ o1] by simp
  note par = mass_observe_params [OF o1]
  have "(\<forall>n. Some (Note n) \<notin> set rs1) \<and> tracked_in {pid} t' \<and> mw_max_note_depth t' = mw_max_note_depth t1 \<and>
      note_inv hs name now ((ds0 @ [d]) @ ds) (window_for pid now t')"
    by (rule Cons.IH [OF window_for_known [OF w1(1,3) tr] w1(3) tr _ _ _ _ Cons.prems(8,9) _ _ _ r1(1)])
      (use Cons.prems(4,5,7,10,11,12) w1(4) par in auto)
  with w1(2) par show ?case by (auto simp: r1(2))
qed

lemma mass_run_append:
  "mass_run hs (xs @ ys) t = (case mass_run hs xs t of (rs, t1) \<Rightarrow> case mass_run hs ys t1 of (rs', t2) \<Rightarrow> (rs @ rs', t2))"
  by (induction xs arbitrary: t) (auto split: prod.splits)

text \<open>
  A note can be spread over the whole host without being found. If the first sixteen directories a
  process writes it to lie below one root more than three levels deep, no later directory is looked at
  in that window, wherever it is, although the shared ancestor may by then be the root directory.
\<close>

theorem deep_start_hides_fanout:
  assumes "length ds = 16" "distinct ds" "3 < common_depth ds"
    and "\<forall>d \<in> set ds. prefix ''/'' d \<and> \<not> list_ex (\<lambda>pre. prefix pre (d @ CHR ''/'' # name)) PSEUDO_FS" "\<forall>d \<in> set es. prefix ''/'' d"
    and "CHR ''/'' \<notin> set name" "name \<noteq> []" "inj_on (hs_hash hs) ((\<lambda>d. d @ CHR ''/'' # name) ` set ds)"
  shows "\<forall>n. Some (Note n) \<notin> set (fst (mass_run hs (drops pid now name (ds @ es)) (mass_write_new window min_files min_dirs)))"
proof -
  let ?t = "mass_write_new window min_files min_dirs"
  obtain rs1 t1 where r1: "mass_run hs (drops pid now name ds) ?t = (rs1, t1)" by (cases "mass_run hs (drops pid now name ds) ?t")
  obtain rs2 t2 where r2: "mass_run hs (drops pid now name es) t1 = (rs2, t2)" by (cases "mass_run hs (drops pid now name es) t1")
  have w: "window_for pid now ?t = window_new now" by (simp add: window_for_def mass_write_new_def empty_if_full_def)
  have fill: "(\<forall>n. Some (Note n) \<notin> set rs1) \<and> tracked_in {pid} t1 \<and> mw_max_note_depth t1 = mw_max_note_depth ?t \<and>
      note_inv hs name now ([] @ ds) (window_for pid now t1)"
    by (rule fill_watch_run [OF w _ _ _ _ _ _ assms(6,7,4) _ _ r1])
      (use assms(1-3,8) in \<open>auto simp: note_inv_def window_new_def tracked_in_def mass_write_new_def MAX_DIRS_PER_NAME_def\<close>)
  have "\<forall>n. Some (Note n) \<notin> set rs2"
  proof (cases "map_of (mw_inner t1) pid")
    case None
    with fill have "note_inv hs name now ds (window_new now)" by (simp add: window_for_def empty_if_full_def split: if_splits)
    then show ?thesis using assms(1) by (auto simp: note_inv_def window_new_def)
  next
    case (Some w1)
    have "window_for pid now t1 = w1 \<or> window_for pid now t1 = window_new now"
      using Some fill tracked_room [of "{pid}" t1 pid] by (simp add: window_for_def)
    moreover have "window_for pid now t1 \<noteq> window_new now" using fill assms(1) by (auto simp: note_inv_def window_new_def)
    ultimately have "note_inv hs name now ds w1" using fill by simp
    then show ?thesis
      using full_watch_run [OF Some _ _ _ _ assms(6,7,5) r2] fill assms(1,3) by (simp add: MAX_DIRS_PER_NAME_def mass_write_new_def)
  qed
  moreover have "drops pid now name (ds @ es) = drops pid now name ds @ drops pid now name es" by (simp add: drops_def)
  ultimately show ?thesis using fill by (simp add: mass_run_append r1 r2)
qed

definition deep_dirs :: "string list" where
  "deep_dirs = map (\<lambda>ch. ''/s/a/b/c/'' @ [ch]) ''abcdefghijklmnop''"

theorem deep_start_hides_fanout_witness:
  "\<forall>n. Some (Note n) \<notin> set (fst (mass_run demo_hashing (drops 7 0 ''PAY'' (deep_dirs @ [''/home/u'', ''/srv'', ''/etc'']))
      (mass_write_new 60 50 5)))"
proof (rule deep_start_hides_fanout)
  show "length deep_dirs = 16" "distinct deep_dirs" by (simp_all add: deep_dirs_def)
  show "3 < common_depth deep_dirs" by (simp add: deep_dirs_def dir_parts_def shared_depth_def)
  show "\<forall>d \<in> set deep_dirs. prefix ''/'' d \<and> \<not> list_ex (\<lambda>pre. prefix pre (d @ CHR ''/'' # ''PAY'')) PSEUDO_FS"
    by (simp add: deep_dirs_def PSEUDO_FS_def)
  show "inj_on (hs_hash demo_hashing) ((\<lambda>d. d @ CHR ''/'' # ''PAY'') ` set deep_dirs)" by (simp add: deep_dirs_def inj_on_def demo_hashing_def)
qed simp_all

end
