(* ===== verification/Exec_Rules.thy ===== *)
theory Exec_Rules
  imports Inbox Events Mass_Write Baseline
begin

text \<open>
  What an exec looks like before anything else is known about it: \<open>bowery-analysis/src/rule.rs\<close> (bands of
  severity, the built-in rules and the operator's rules), \<open>episode.rs\<close>, \<open>score.rs\<close> (rarity in the baseline),
  \<open>analyzer.rs\<close>, and the choice of the leading rule in \<open>agent.rs\<close>. Scores are binary32 numbers. The lower-case
  conversion of Unicode text is the argument \<open>lower\<close>; texts are UTF-8 bytes and paths are shown as they are.
\<close>

section \<open>Bands of severity\<close>

datatype rule_severity = SevInfo | SevLow | SevMedium | SevHigh

fun sev_weight :: "rule_severity \<Rightarrow> f32" where
  "sev_weight SevInfo = to_f32 (1 / 10)"
| "sev_weight SevLow = to_f32 (3 / 10)"
| "sev_weight SevMedium = to_f32 (6 / 10)"
| "sev_weight SevHigh = to_f32 (9 / 10)"

text \<open>\<open>f32::abs\<close>, and \<open>f32::total_cmp\<close> on its results.\<close>

fun f32_abs :: "f32 \<Rightarrow> f32" where
  "f32_abs (Fin x) = Fin \<bar>x\<bar>"
| "f32_abs (Inf s) = Inf True"
| "f32_abs NaN = NaN"

definition total_less :: "f32 \<Rightarrow> f32 \<Rightarrow> bool" where
  "total_less x y \<longleftrightarrow> f32_less x y \<or> x \<noteq> NaN \<and> y = NaN"

text \<open>\<open>min_by\<close>: the first of the least elements.\<close>

fun min_by :: "('a \<Rightarrow> 'a \<Rightarrow> bool) \<Rightarrow> 'a \<Rightarrow> 'a list \<Rightarrow> 'a" where
  "min_by lt best [] = best"
| "min_by lt best (x # xs) = min_by lt (if lt x best then x else best) xs"

definition from_weight :: "f32 \<Rightarrow> rule_severity" where
  "from_weight w =
     min_by (\<lambda>a b. total_less (f32_abs (f32_sub (sev_weight a) w)) (f32_abs (f32_sub (sev_weight b) w)))
       SevHigh [SevMedium, SevLow, SevInfo]"

section \<open>Rules\<close>

record rule_hit =
  rh_rule_id :: string
  rh_severity :: rule_severity
  rh_reason :: string

record episode =
  ep_id :: string
  ep_root :: process_exec

definition system_time_nanos :: "int \<Rightarrow> nat" where
  "system_time_nanos t = (if 0 \<le> t then nat t else 0)"

definition from_exec :: "process_exec \<Rightarrow> episode" where
  "from_exec exec =
     \<lparr>ep_id = ''ep-'' @ dec (unat (ev_pid exec)) @ ''-'' @ dec (system_time_nanos (ev_ts exec)), ep_root = exec\<rparr>"

record operator_process_rule =
  or_id :: string
  or_exe_prefix :: "string option"
  or_comm :: "string option"
  or_arg_substr :: "string option"
  or_severity :: rule_severity

datatype exec_rule = ExecFromWritablePath | ExecMissingExePath | ExecWithSuspiciousArgs | OperatorProcess operator_process_rule

definition default_rules :: "exec_rule list" where
  "default_rules = [ExecFromWritablePath, ExecMissingExePath, ExecWithSuspiciousArgs]"

definition WRITABLE_PREFIXES :: "string list" where
  "WRITABLE_PREFIXES = [''/tmp/'', ''/var/tmp/'', ''/dev/shm/'']"

definition SUSPICIOUS_ARGS :: "string list" where
  "SUSPICIOUS_ARGS = [''bash -i'', ''sh -i'', ''/bin/bash -i'', '' -e /bin/sh'', '' -e /bin/bash'',
     ''curl | sh'', ''wget | sh'', ''curl | bash'', ''wget | bash'']"

definition rule_exec_ids :: "string list" where
  "rule_exec_ids = [''exec_from_writable_path'', ''exec_missing_exe_path'', ''exec_suspicious_args'']"

definition writable_path_check :: "episode \<Rightarrow> rule_hit option" where
  "writable_path_check e =
     (case ev_exe_path (ep_root e) of None \<Rightarrow> None
      | Some p \<Rightarrow>
          map_option (\<lambda>pre. \<lparr>rh_rule_id = ''exec_from_writable_path'', rh_severity = SevMedium,
              rh_reason = ''exec from world-writable path '' @ pre @ '' ('' @ p @ '')''\<rparr>)
            (find (starts_with p) WRITABLE_PREFIXES))"

definition missing_path_check :: "episode \<Rightarrow> rule_hit option" where
  "missing_path_check e =
     (if ev_exe_path (ep_root e) \<noteq> None then None
      else Some \<lparr>rh_rule_id = ''exec_missing_exe_path'', rh_severity = SevLow,
        rh_reason = ''ProcessExec for pid '' @ dec (unat (ev_pid (ep_root e))) @ '' has no exe_path; downstream enrichment will be blind''\<rparr>)"

definition suspicious_args_check :: "(string \<Rightarrow> string) \<Rightarrow> episode \<Rightarrow> rule_hit option" where
  "suspicious_args_check lower e =
     (if ev_args (ep_root e) = [] then None
      else let joined = lower (join_with '' '' (ev_args (ep_root e))) in
        map_option (\<lambda>hit. \<lparr>rh_rule_id = ''exec_suspicious_args'', rh_severity = SevHigh, rh_reason = ''suspicious argv pattern: '' @ hit\<rparr>)
          (find (\<lambda>n. str_contains n joined) SUSPICIOUS_ARGS))"

definition operator_rule_check :: "operator_process_rule \<Rightarrow> episode \<Rightarrow> rule_hit option" where
  "operator_rule_check r e =
     (let path_why = (case or_exe_prefix r of None \<Rightarrow> Some []
            | Some pre \<Rightarrow> (case ev_exe_path (ep_root e) of None \<Rightarrow> None
                | Some p \<Rightarrow> if starts_with p pre then Some [''exe_prefix='' @ pre] else None));
          comm_why = (case or_comm r of None \<Rightarrow> Some []
            | Some comm \<Rightarrow> if ev_comm (ep_root e) = comm then Some [''comm='' @ comm] else None);
          arg_why = (case or_arg_substr r of None \<Rightarrow> Some []
            | Some needle \<Rightarrow> if list_ex (str_contains needle) (ev_args (ep_root e)) then Some [''arg_substr='' @ needle] else None)
      in case (path_why, comm_why, arg_why) of
           (Some a, Some b, Some c) \<Rightarrow>
             if a @ b @ c = [] then None
             else Some \<lparr>rh_rule_id = or_id r, rh_severity = or_severity r,
               rh_reason = ''operator rule matched ('' @ join_with '', '' (a @ b @ c) @ '')''\<rparr>
         | _ \<Rightarrow> None)"

fun rule_check :: "(string \<Rightarrow> string) \<Rightarrow> exec_rule \<Rightarrow> episode \<Rightarrow> rule_hit option" where
  "rule_check lower ExecFromWritablePath e = writable_path_check e"
| "rule_check lower ExecMissingExePath e = missing_path_check e"
| "rule_check lower ExecWithSuspiciousArgs e = suspicious_args_check lower e"
| "rule_check lower (OperatorProcess r) e = operator_rule_check r e"

definition evaluate_all :: "(string \<Rightarrow> string) \<Rightarrow> exec_rule list \<Rightarrow> episode \<Rightarrow> rule_hit list" where
  "evaluate_all lower rules e = List.map_filter (\<lambda>r. rule_check lower r e) rules"

section \<open>Rarity\<close>

record binary_score =
  bs_value :: f32
  bs_seen_count :: nat
  bs_reason :: string

definition DEFAULT_HALF_LIFE :: rat where "DEFAULT_HALF_LIFE = 8"

text \<open>\<open>1 / (1 + n / k)\<close>, each operation rounded; \<open>fin\<close> passes on what is not a finite number.\<close>

definition fin :: "f32 \<Rightarrow> (rat \<Rightarrow> f32) \<Rightarrow> f32" where
  "fin x f = (case x of Fin q \<Rightarrow> f q | _ \<Rightarrow> x)"

definition rarity :: "rat \<Rightarrow> nat \<Rightarrow> f32" where
  "rarity half_life n =
     fin (to_f32 (of_nat n)) (\<lambda>x. fin (f32_div x half_life) (\<lambda>q. fin (to_f32 (1 + q)) (\<lambda>d. f32_div 1 d)))"

text \<open>\<open>lookup\<close> is the error of the query, if it fails.\<close>

definition score_or_default :: "string option \<Rightarrow> rat \<Rightarrow> baseline \<Rightarrow> bytes \<Rightarrow> binary_score" where
  "score_or_default lookup half_life b exe_sha =
     (case lookup of
        Some err \<Rightarrow> \<lparr>bs_value = to_f32 (1 / 2), bs_seen_count = 0, bs_reason = ''baseline lookup failed: '' @ err\<rparr>
      | None \<Rightarrow>
          (case get_binary b exe_sha of
             None \<Rightarrow> \<lparr>bs_value = Fin 1, bs_seen_count = 0, bs_reason = ''binary never seen on this host''\<rparr>
           | Some rec \<Rightarrow> \<lparr>bs_value = rarity half_life (unat (br_seen_count rec)), bs_seen_count = unat (br_seen_count rec),
               bs_reason = ''binary seen '' @ dec (unat (br_seen_count rec)) @ '' times before''\<rparr>))"

section \<open>The verdict of the pre-filter\<close>

record verdict =
  vd_episode_id :: string
  vd_suspicion :: f32
  vd_score :: binary_score
  vd_rule_hits :: "rule_hit list"

definition rule_hits_weight :: "rule_hit list \<Rightarrow> f32" where
  "rule_hits_weight hits = foldl f32_max (Fin 0) (map (\<lambda>h. sev_weight (rh_severity h)) hits)"

record analyzer =
  an_rules :: "exec_rule list"
  an_half_life :: rat

definition analyzer_of :: "operator_process_rule list \<Rightarrow> analyzer" where
  "analyzer_of process_rules = \<lparr>an_rules = default_rules @ map OperatorProcess process_rules, an_half_life = DEFAULT_HALF_LIFE\<rparr>"

definition analyze :: "(string \<Rightarrow> string) \<Rightarrow> string option \<Rightarrow> analyzer \<Rightarrow> baseline \<Rightarrow> episode \<Rightarrow> bytes \<Rightarrow> verdict" where
  "analyze lower lookup an b e exe_sha =
     (let hits = evaluate_all lower (an_rules an) e; sc = score_or_default lookup (an_half_life an) b exe_sha in
      \<lparr>vd_episode_id = ep_id e, vd_suspicion = f32_max (bs_value sc) (rule_hits_weight hits), vd_score = sc, vd_rule_hits = hits\<rparr>)"

text \<open>The most severe hit, the first of them on a tie.\<close>

definition leading_hit :: "verdict \<Rightarrow> rule_hit option" where
  "leading_hit v =
     (case vd_rule_hits v of [] \<Rightarrow> None
      | h # hs \<Rightarrow> Some (foldl (\<lambda>best x. if f32_less (sev_weight (rh_severity best)) (sev_weight (rh_severity x)) then x else best) h hs))"

definition leading_rule_id :: "verdict \<Rightarrow> string" where
  "leading_rule_id v = (case leading_hit v of None \<Rightarrow> ''baseline.rarity'' | Some h \<Rightarrow> rh_rule_id h)"

definition leading_rule_message :: "verdict \<Rightarrow> string option" where
  "leading_rule_message v = map_option (\<lambda>h. rh_rule_id h @ '': '' @ rh_reason h) (leading_hit v)"

section \<open>Bands and weights\<close>

fun band :: "rule_severity \<Rightarrow> rat" where
  "band SevInfo = 13421773 / 134217728"
| "band SevLow = 10066330 / 33554432"
| "band SevMedium = 10066330 / 16777216"
| "band SevHigh = 15099494 / 16777216"

lemma sev_weight_band: "sev_weight v = Fin (band v)"
  using f32_round_eqI[of "- 4" "1 / 10" 13421773] f32_round_eqI[of "- 2" "3 / 10" 10066330]
    f32_round_eqI[of "- 1" "6 / 10" 10066330] f32_round_eqI[of "- 1" "9 / 10" 15099494]
  by (cases v) (simp_all add: to_f32_unit pow2_def)

declare sev_weight.simps [simp del]

lemma band_bounds: "0 < band v" "band v < 1"
  by (cases v; simp)+

lemma f32_round_minus: "f32_round (- x) = - f32_round x"
proof (cases "x = 0")
  case True
  then show ?thesis using f32_round_0 by simp
qed (auto simp: f32_round_def)

lemma f32_abs_sub:
  assumes "\<bar>x - y\<bar> \<le> 1"
  shows "f32_abs (f32_sub (Fin x) (Fin y)) = Fin (f32_round \<bar>x - y\<bar>)"
proof -
  have r: "0 \<le> f32_round \<bar>x - y\<bar>" "f32_round \<bar>x - y\<bar> \<le> 1" using f32_round_unit[of "\<bar>x - y\<bar>"] assms by simp_all
  have "\<bar>f32_round (x - y)\<bar> = f32_round \<bar>x - y\<bar>"
  proof (cases "0 \<le> x - y")
    case False
    then have "f32_round (x - y) = - f32_round \<bar>x - y\<bar>" using f32_round_minus[of "y - x"] by simp
    then show ?thesis using r by simp
  qed (use r in simp)
  moreover from this r have "\<bar>f32_round (x - y)\<bar> < 2 ^ 128" by simp
  ultimately show ?thesis by (simp add: to_f32_def Let_def)
qed

lemma band_distance: "0 \<le> w \<Longrightarrow> w \<le> 1 \<Longrightarrow> \<bar>band v - w\<bar> \<le> 1"
  using band_bounds[of v] by linarith

lemma f32_round_mono_unit: "0 \<le> x \<Longrightarrow> x \<le> y \<Longrightarrow> y \<le> 1 \<Longrightarrow> f32_round x \<le> f32_round y"
  by (rule f32_round_mono) auto

lemma min_by_stays: "(\<And>x. x \<in> set xs \<Longrightarrow> \<not> lt x best) \<Longrightarrow> min_by lt best xs = best"
  by (induction xs) auto

lemma from_weight_high:
  assumes "3 / 4 \<le> w" "w \<le> 1"
  shows "from_weight (Fin w) = SevHigh"
  unfolding from_weight_def
proof (rule min_by_stays)
  fix v assume v: "v \<in> set [SevMedium, SevLow, SevInfo]"
  then have "band v \<le> band SevMedium" by auto
  then have "\<bar>band SevHigh - w\<bar> \<le> \<bar>band v - w\<bar>" using assms by simp
  moreover have "\<bar>band SevHigh - w\<bar> \<le> 1" "\<bar>band v - w\<bar> \<le> 1" using band_distance assms by simp_all
  moreover from calculation have "f32_round \<bar>band SevHigh - w\<bar> \<le> f32_round \<bar>band v - w\<bar>" by (intro f32_round_mono_unit) linarith+
  ultimately show "\<not> total_less (f32_abs (f32_sub (sev_weight v) (Fin w))) (f32_abs (f32_sub (sev_weight SevHigh) (Fin w)))"
    unfolding total_less_def sev_weight_band by (simp only: f32_abs_sub f32_less.simps f32.distinct) simp
qed

lemma f32_round_pos: "1 / 16777216 \<le> x \<Longrightarrow> x \<le> 1 \<Longrightarrow> 0 < f32_round x"
  using f32_round_mono[of "1 / 16777216" x] f32_round_eqI[of "- 24" "1 / 16777216" 8388608] by (simp add: pow2_def)

text \<open>Every band is the nearest to its own weight.\<close>

lemma from_weight_own: "from_weight (sev_weight v) = v"
proof -
  define d where "d u = f32_round \<bar>band u - band v\<bar>" for u
  have le: "\<bar>band u - band v\<bar> \<le> 1" for u using band_distance band_bounds[of v] by simp
  have "1 / 16777216 \<le> \<bar>band u - band v\<bar>" if "u \<noteq> v" for u using that by (cases u; cases v) simp_all
  then have "u \<noteq> v \<Longrightarrow> 0 < d u" for u unfolding d_def using f32_round_pos le by blast
  moreover have "d v = 0" by (simp add: d_def)
  moreover have "total_less (f32_abs (f32_sub (sev_weight u) (sev_weight v))) (f32_abs (f32_sub (sev_weight u') (sev_weight v))) \<longleftrightarrow> d u < d u'" for u u'
    unfolding total_less_def sev_weight_band d_def by (simp only: f32_abs_sub[OF le] f32_less.simps f32.distinct) simp
  ultimately show ?thesis unfolding from_weight_def by (cases v) (auto simp: not_less intro: less_imp_le)
qed

lemma rule_hits_weight_max:
  "\<exists>y. rule_hits_weight hits = Fin y \<and> 0 \<le> y \<and> y < 1 \<and> (\<forall>h \<in> set hits. band (rh_severity h) \<le> y)"
proof -
  have "\<exists>y. foldl f32_max (Fin a) (map (\<lambda>h. sev_weight (rh_severity h)) hs) = Fin y \<and> a \<le> y \<and> y < 1 \<and>
    (\<forall>h \<in> set hs. band (rh_severity h) \<le> y)" if "a < 1" for a hs
    using that
  proof (induction hs arbitrary: a)
    case (Cons h hs)
    let ?m = "max a (band (rh_severity h))"
    have "f32_max (Fin a) (sev_weight (rh_severity h)) = Fin ?m" by (simp add: sev_weight_band f32_max_def max_def)
    moreover have "?m < 1" using Cons.prems band_bounds by simp
    ultimately show ?case using Cons.IH[of ?m] by auto
  qed simp
  from this[of 0 hits] show ?thesis unfolding rule_hits_weight_def by simp
qed

section \<open>Rarity falls with familiarity\<close>

lemma to_f32_finite: "0 \<le> x \<Longrightarrow> x \<le> 2 ^ 100 \<Longrightarrow> to_f32 x = Fin (f32_round x) \<and> 0 \<le> f32_round x \<and> f32_round x \<le> 2 ^ 100"
proof -
  assume x: "0 \<le> x" "x \<le> 2 ^ 100"
  have "f32_round (2 ^ 100) = 2 ^ 100" using f32_round_eqI[of 100 "2 ^ 100" "2 ^ 23"] by (simp add: pow2_def)
  then have "f32_round x \<le> 2 ^ 100" using f32_round_mono[of x "2 ^ 100"] x by simp
  moreover have "0 \<le> f32_round x" using f32_round_nonneg[of x] x by simp
  ultimately show ?thesis by (simp add: to_f32_def)
qed

lemma of_nat_u64: "n < 2 ^ 64 \<Longrightarrow> (of_nat n :: rat) \<le> 2 ^ 64"
  by (metis less_imp_le of_nat_le_iff of_nat_numeral of_nat_power)

definition rarity_rat :: "rat \<Rightarrow> nat \<Rightarrow> rat" where
  "rarity_rat k n = f32_round (1 / f32_round (1 + f32_round (f32_round (of_nat n) / k)))"

lemma rarity_steps:
  assumes "1 / 2 \<le> k" "n < 2 ^ 64"
  shows "f32_round (of_nat n) / k \<le> 2 ^ 66" "0 \<le> f32_round (of_nat n) / k"
    "1 \<le> f32_round (1 + f32_round (f32_round (of_nat n) / k))"
    "f32_round (1 + f32_round (f32_round (of_nat n) / k)) \<le> 2 ^ 68"
    "rarity k n = Fin (rarity_rat k n)"
proof -
  have p: "f32_round (2 ^ 64) = 2 ^ 64" "f32_round (2 ^ 66) = 2 ^ 66" "f32_round (2 ^ 68) = 2 ^ 68"
    using f32_round_eqI[of 64 "2 ^ 64" "2 ^ 23"] f32_round_eqI[of 66 "2 ^ 66" "2 ^ 23"] f32_round_eqI[of 68 "2 ^ 68" "2 ^ 23"]
    by (simp_all add: pow2_def)
  have n: "(of_nat n :: rat) \<le> 2 ^ 64" using assms(2) by (rule of_nat_u64)
  then have x: "0 \<le> f32_round (of_nat n)" "f32_round (of_nat n) \<le> 2 ^ 64"
    using f32_round_mono[of "of_nat n" "2 ^ 64"] f32_round_nonneg[of "of_nat n"] p by auto
  have "f32_round (of_nat n) / k \<le> f32_round (of_nat n) / (1 / 2)" using assms(1) x by (intro divide_left_mono) auto
  then show q: "f32_round (of_nat n) / k \<le> 2 ^ 66" "0 \<le> f32_round (of_nat n) / k" using x assms(1) by auto
  let ?q = "f32_round (f32_round (of_nat n) / k)"
  have r: "0 \<le> ?q" "?q \<le> 2 ^ 66" using q f32_round_mono[of "f32_round (of_nat n) / k" "2 ^ 66"] f32_round_nonneg p by auto
  show d: "1 \<le> f32_round (1 + ?q)" "f32_round (1 + ?q) \<le> 2 ^ 68"
    using f32_round_mono[of 1 "1 + ?q"] f32_round_mono[of "1 + ?q" "2 ^ 68"] r p by auto
  have "to_f32 (of_nat n) = Fin (f32_round (of_nat n))" "to_f32 (f32_round (of_nat n) / k) = Fin ?q" "to_f32 (1 + ?q) = Fin (f32_round (1 + ?q))"
    using to_f32_finite n q r by auto
  moreover have "to_f32 (1 / f32_round (1 + ?q)) = Fin (f32_round (1 / f32_round (1 + ?q)))" using d by (intro to_f32_unit) auto
  ultimately show "rarity k n = Fin (rarity_rat k n)" by (simp add: rarity_def rarity_rat_def fin_def f32_div_def)
qed

lemma rarity_antitone:
  assumes "1 / 2 \<le> k" "m \<le> n" "n < 2 ^ 64"
  shows "rarity_rat k n \<le> rarity_rat k m"
proof -
  have "f32_round (of_nat m) \<le> f32_round (of_nat n)"
    using of_nat_u64[OF assms(3)] assms(2) by (intro f32_round_mono) auto
  then have a: "f32_round (of_nat m) / k \<le> f32_round (of_nat n) / k" using assms(1) by (simp add: divide_right_mono)
  have "m < 2 ^ 64" using assms by simp
  note sm = rarity_steps[OF assms(1) this] and sn = rarity_steps[OF assms(1,3)]
  have b: "f32_round (f32_round (of_nat m) / k) \<le> f32_round (f32_round (of_nat n) / k)"
    using a sm(2) sn(1) by (intro f32_round_mono) auto
  have "f32_round (f32_round (of_nat m) / k) \<ge> 0" using sm by (intro f32_round_nonneg) auto
  moreover have "f32_round (f32_round (of_nat n) / k) \<le> 2 ^ 66"
    using f32_round_mono[of "f32_round (of_nat n) / k" "2 ^ 66"] sn f32_round_eqI[of 66 "2 ^ 66" "2 ^ 23"] by (simp add: pow2_def)
  ultimately have "f32_round (1 + f32_round (f32_round (of_nat m) / k)) \<le> f32_round (1 + f32_round (f32_round (of_nat n) / k))"
    using b by (intro f32_round_mono) auto
  then show ?thesis unfolding rarity_rat_def using sm(3) by (intro f32_round_mono_unit) (auto simp: frac_le)
qed

lemma rarity_range:
  assumes "1 / 2 \<le> k" "n < 2 ^ 64"
  shows "0 < rarity_rat k n" "rarity_rat k n \<le> 1"
proof -
  note st = rarity_steps(3,4)[OF assms]
  let ?d = "f32_round (1 + f32_round (f32_round (of_nat n) / k))"
  have "1 / 2 ^ 68 \<le> 1 / ?d" using st by (intro divide_left_mono) auto
  then have "f32_round (1 / 2 ^ 68) \<le> f32_round (1 / ?d)" using st by (intro f32_round_mono_unit) auto
  moreover have "f32_round (1 / 2 ^ 68) = 1 / 2 ^ 68" using f32_round_eqI[of "- 68" "1 / 2 ^ 68" "2 ^ 23"] by (simp add: pow2_def)
  ultimately show "0 < rarity_rat k n" by (simp add: rarity_rat_def)
  show "rarity_rat k n \<le> 1" unfolding rarity_rat_def using f32_round_mono_unit[of "1 / ?d" 1] st by simp
qed

text \<open>
  Familiarity lowers a score and never makes it vanish: the score of a binary seen \<open>n\<close> times lies above
  zero and at most at one, and seeing it more often does not raise it, with every rounding of the
  single-precision computation counted.
\<close>

theorem familiarity_lowers_score:
  assumes "m \<le> n" "n < 2 ^ 64"
  shows "\<exists>x y. rarity DEFAULT_HALF_LIFE m = Fin x \<and> rarity DEFAULT_HALF_LIFE n = Fin y \<and> 0 < y \<and> y \<le> x \<and> x \<le> 1"
proof -
  have k: "1 / 2 \<le> DEFAULT_HALF_LIFE" by (simp add: DEFAULT_HALF_LIFE_def)
  have "m < 2 ^ 64" using assms by simp
  then show ?thesis
    using rarity_steps(5)[OF k] rarity_antitone[OF k assms] rarity_range[OF k] assms(2) by blast
qed

theorem familiarity_lowers_score_witness:
  "\<exists>x y. rarity DEFAULT_HALF_LIFE 1 = Fin x \<and> rarity DEFAULT_HALF_LIFE 100 = Fin y \<and> 0 < y \<and> y \<le> x \<and> x \<le> 1"
  by (rule familiarity_lowers_score) simp_all

section \<open>Hits and episodes\<close>

lemma leading_foldl:
  fixes lt defines "lt \<equiv> (\<lambda>b x. f32_less (sev_weight (rh_severity b)) (sev_weight (rh_severity x)))"
  shows "\<exists>pre post. h # hs = pre @ foldl (\<lambda>b x. if lt b x then x else b) h hs # post \<and>
    (\<forall>x \<in> set pre. band (rh_severity x) < band (rh_severity (foldl (\<lambda>b x. if lt b x then x else b) h hs))) \<and>
    (\<forall>x \<in> set post. band (rh_severity x) \<le> band (rh_severity (foldl (\<lambda>b x. if lt b x then x else b) h hs)))"
proof (induction hs rule: rev_induct)
  case (snoc x hs)
  let ?b = "foldl (\<lambda>b x. if lt b x then x else b) h hs"
  obtain pre post where pp: "h # hs = pre @ ?b # post" "\<forall>x \<in> set pre. band (rh_severity x) < band (rh_severity ?b)"
    "\<forall>x \<in> set post. band (rh_severity x) \<le> band (rh_severity ?b)" using snoc by blast
  have lt: "lt ?b x \<longleftrightarrow> band (rh_severity ?b) < band (rh_severity x)" by (simp add: lt_def sev_weight_band)
  show ?case
  proof (cases "lt ?b x")
    case True
    moreover have "\<forall>y \<in> set (h # hs). band (rh_severity y) < band (rh_severity x)"
      unfolding pp(1) using pp(2,3) True lt by fastforce
    ultimately show ?thesis by (intro exI[of _ "h # hs"] exI[of _ "[]"]) simp
  next
    case False
    then show ?thesis using pp lt by (intro exI[of _ pre] exI[of _ "post @ [x]"]) auto
  qed
qed (intro exI[of _ "[]"], simp)

lemma leading_hit_first:
  assumes "leading_hit v = Some h"
  obtains pre post where "vd_rule_hits v = pre @ h # post" "\<forall>x \<in> set pre. band (rh_severity x) < band (rh_severity h)"
    "\<forall>x \<in> set post. band (rh_severity x) \<le> band (rh_severity h)"
proof (cases "vd_rule_hits v")
  case (Cons a hs)
  then have "h = foldl (\<lambda>b x. if f32_less (sev_weight (rh_severity b)) (sev_weight (rh_severity x)) then x else b) a hs"
    using assms by (simp add: leading_hit_def)
  with leading_foldl[of a hs] Cons that show ?thesis by auto
qed (use assms in \<open>simp add: leading_hit_def\<close>)

lemma operator_rule_matches:
  "operator_rule_check r e \<noteq> None \<longleftrightarrow>
     (or_exe_prefix r \<noteq> None \<or> or_comm r \<noteq> None \<or> or_arg_substr r \<noteq> None) \<and>
     (\<forall>pre. or_exe_prefix r = Some pre \<longrightarrow> (\<exists>p. ev_exe_path (ep_root e) = Some p \<and> starts_with p pre)) \<and>
     (\<forall>c. or_comm r = Some c \<longrightarrow> ev_comm (ep_root e) = c) \<and>
     (\<forall>n. or_arg_substr r = Some n \<longrightarrow> list_ex (str_contains n) (ev_args (ep_root e)))"
  by (auto simp: operator_rule_check_def Let_def split: option.splits)

end
