(* ===== verification/Pipeline.thy ===== *)
theory Pipeline
  imports Claims Detections Suppress Proc_Table Mass_Write Exec_Rules
begin

text \<open>
  What the agent does with an event, \<open>crates/bowery-agent/src/pipeline.rs\<close>: recording it, and the handling of
  file opens, changes of watched files, loads of kernel modules, \<open>ptrace\<close> calls and inbound connections. The
  stores are those of the other theories. What a handler reads of the world while it runs (\<open>/proc\<close>, hashes
  of files, clocks, whether a write or a submission fails) is its argument, one field for each reading. The
  texts that explain a rule to the operator are parameters.
\<close>

section \<open>State\<close>

record pipeline =
  pl_writer :: "log_writer option"
  pl_procs :: proc_table
  pl_mass_writes :: "mass_write_tracker option"
  pl_packages :: provenance_cache
  pl_suppressor :: alert_suppressor
  pl_inbox :: inbox
  pl_detections :: detection_stats
  pl_claims :: "corr_engine option"
  pl_emitted :: "(string \<times> f32) list"
  pl_submitted :: "string list"
  pl_llm_shed :: "string list"

record pipeline_config =
  pf_originator_fp :: fingerprint
  pf_backend_label :: string
  pf_llm_threshold :: f32
  pf_suppress_window :: nat
  pf_half_window :: nat
  pf_suspicion :: f32
  pf_explained_suspicion :: f32

text \<open>An alert is built at \<open>built\<close>, stored at \<open>appended\<close>, and announced when it was stored.\<close>

definition emit :: "u64 \<Rightarrow> alert \<Rightarrow> f32 \<Rightarrow> pipeline \<Rightarrow> bool \<times> pipeline" where
  "emit appended a susp st =
     (case inbox_append appended a (pl_inbox st) of (r, ib) \<Rightarrow>
        (stored r, st\<lparr>pl_inbox := ib, pl_emitted := (if stored r then pl_emitted st @ [(al_episode_id a, susp)] else pl_emitted st)\<rparr>))"

definition count_rule :: "u64 \<Rightarrow> string \<Rightarrow> pipeline \<Rightarrow> pipeline" where
  "count_rule now r st = st\<lparr>pl_detections := detection_record now r (pl_detections st)\<rparr>"

text \<open>The digest and the MD5 sum of a file as they are read, and the stamps of the package database.\<close>

record file_view =
  fv_sha256 :: "string \<Rightarrow> bytes option"
  fv_md5 :: "string \<Rightarrow> bytes option"
  fv_mtimes :: "string \<Rightarrow> db_mtimes"

definition hash_and_classify :: "file_view \<Rightarrow> string option \<Rightarrow> pipeline \<Rightarrow> (bytes option \<times> provenance) \<times> pipeline" where
  "hash_and_classify fv exe st =
     (case exe of None \<Rightarrow> ((None, Unknown), st)
      | Some e \<Rightarrow>
          (case fv_sha256 fv e of None \<Rightarrow> ((None, Unknown), st)
           | Some sha \<Rightarrow>
               (case cache_classify (fv_mtimes fv) (fv_md5 fv e) e sha (pl_packages st) of
                  (prov, pc) \<Rightarrow> ((Some sha, prov), st\<lparr>pl_packages := pc\<rparr>))))"

section \<open>Context\<close>

definition arrow :: string where "arrow = '' '' @ [CHR 0xE2, CHR 0x86, CHR 0x92] @ '' ''"

definition pid_tag :: "string \<Rightarrow> u32 \<Rightarrow> string" where
  "pid_tag comm pid = comm @ ''['' @ dec (unat pid) @ '']''"

text \<open>What \<open>/proc\<close> gives for a process: arguments, ancestors with the nearest first, peers of its sockets.\<close>

record proc_view =
  pv_cmdline :: "string list option"
  pv_ancestry :: "(u32 \<times> string) list"
  pv_connections :: "string list option"

definition file_open_context :: "proc_view \<Rightarrow> file_open \<Rightarrow> string option \<Rightarrow> attribute list" where
  "file_open_context pv fo exe =
     [attribute_new ''pid'' (dec (unat (fo_pid fo)))] @
     (case exe of None \<Rightarrow> [] | Some e \<Rightarrow> [attribute_new ''exe'' e]) @
     (if fo_comm fo \<noteq> [] then [attribute_new ''comm'' (fo_comm fo)] else []) @
     (case pv_cmdline pv of None \<Rightarrow> [] | Some args \<Rightarrow> if args \<noteq> [] then [attribute_new ''cmdline'' (join_with '' '' args)] else []) @
     (if pv_ancestry pv \<noteq> []
      then [attribute_new ''ancestry'' (join_with arrow
              (rev (map (\<lambda>(pid, comm). pid_tag comm pid) (pv_ancestry pv)) @ [pid_tag (fo_comm fo) (fo_pid fo)]))]
      else []) @
     (case pv_connections pv of None \<Rightarrow> [] | Some cs \<Rightarrow> if cs \<noteq> [] then [attribute_new ''connections'' (join_with '', '' cs)] else [])"

section \<open>File opens\<close>

record impact_texts =
  it_rationale :: "mass_write_burst \<Rightarrow> string"
  it_note_rationale :: "note_fanout \<Rightarrow> string"
  it_why :: "file_watch_hit \<Rightarrow> string"

record open_env =
  oe_hashing :: hashing
  oe_mono1 :: nat
  oe_exe1 :: "string option"
  oe_exe2 :: "string option"
  oe_exe3 :: "string option"
  oe_files :: file_view
  oe_files2 :: file_view
  oe_wall :: int
  oe_mono2 :: nat
  oe_ms :: "nat \<Rightarrow> u64"
  oe_proc1 :: proc_view
  oe_proc2 :: proc_view
  oe_log_fails :: bool
  oe_submit_ok :: bool

definition impact_finding_to_report ::
    "impact_texts \<Rightarrow> open_env \<Rightarrow> impact_finding \<Rightarrow> pipeline \<Rightarrow> (string \<times> string) option \<times> pipeline" where
  "impact_finding_to_report tx env finding st =
     (case finding of
        Sweep burst \<Rightarrow> (Some (SWEEP_RULE_ID, it_rationale tx burst), st)
      | Note note \<Rightarrow>
          (case hash_and_classify (oe_files env) (oe_exe1 env) st of ((_, prov), st1) \<Rightarrow>
             if writer_is_package_tool (oe_exe1 env) prov then (None, st1)
             else (Some (NOTE_RULE_ID, it_note_rationale tx note), st1)))"

definition file_episode :: "string \<Rightarrow> u64 \<Rightarrow> string" where
  "file_episode rule_id ms = ''file-'' @ rule_id @ ''-'' @ dec (unat ms)"

text \<open>The first half: sweeps over many files, whatever they are.\<close>

definition observe_mass_write :: "pipeline_config \<Rightarrow> impact_texts \<Rightarrow> open_env \<Rightarrow> file_open \<Rightarrow> pipeline \<Rightarrow> pipeline" where
  "observe_mass_write cfg tx env fo st =
     (if fo_sensitive_read fo then st
      else case pl_mass_writes st of None \<Rightarrow> st
        | Some mass \<Rightarrow>
            (case mass_observe (oe_hashing env) (fo_pid fo) (fo_path fo) (oe_mono1 env) mass of
               (None, m) \<Rightarrow> st\<lparr>pl_mass_writes := Some m\<rparr>
             | (Some finding, m) \<Rightarrow>
                 (case impact_finding_to_report tx env finding (st\<lparr>pl_mass_writes := Some m\<rparr>) of
                    (None, st1) \<Rightarrow> st1
                  | (Some (rule_id, why), st1) \<Rightarrow>
                      let ep = file_episode rule_id (oe_ms env 1);
                          a = builder_context (file_open_context (oe_proc1 env) fo (oe_exe2 env)) (builder_subject (fo_path fo)
                            (builder_raw (oe_ms env 2) (pf_originator_fp cfg) (pf_backend_label cfg) rule_id ep (to_f32 (95 / 100)) why))
                      in snd (emit (oe_ms env 3) a (to_f32 (95 / 100)) (count_rule (oe_ms env 0) rule_id st1)))))"

definition note_access :: "open_env \<Rightarrow> file_open \<Rightarrow> string option \<Rightarrow> pipeline \<Rightarrow> pipeline" where
  "note_access env fo exe st =
     (case (pl_writer st, exe) of
        (Some w, Some e) \<Rightarrow>
          st\<lparr>pl_writer := Some (w\<lparr>lw_log := record_file_access (oe_log_fails env) (fo_pid fo) (fo_comm fo) e (fo_path fo)
            (fo_sensitive_read fo) (fo_ts fo) (lw_log w)\<rparr>)\<rparr>
      | _ \<Rightarrow> st)"

definition hit_rationale :: "impact_texts \<Rightarrow> file_watch_hit \<Rightarrow> file_open \<Rightarrow> string option \<Rightarrow> string \<Rightarrow> string option \<Rightarrow> string" where
  "hit_rationale tx hit fo exe folded hk =
     category_label (fh_category hit) @ '' '' @ (if fo_sensitive_read fo then ''read of'' else ''write to'') @ '' '' @ fo_path fo @
     (if fo_truncated fo then '' (path truncated by the sensor)'' else []) @ '' by '' @
     (case exe of Some e \<Rightarrow> e | None \<Rightarrow> if fo_comm fo = [] then ''an unnamed process'' else fo_comm fo) @
     '' (pid '' @ dec (unat (fo_pid fo)) @ '') '' @ em_dash @ '' '' @ it_why tx hit @ folded @
     (case hk of None \<Rightarrow> [] | Some why \<Rightarrow> '' '' @ em_dash @ '' '' @ why)"

definition hit_severity :: "file_watch_hit \<Rightarrow> string option \<Rightarrow> f32" where
  "hit_severity hit hk = (if hk \<noteq> None then damp_housekeeping (fh_severity hit) else fh_severity hit)"

definition hit_alert ::
    "pipeline_config \<Rightarrow> impact_texts \<Rightarrow> open_env \<Rightarrow> file_watch_hit \<Rightarrow> file_open \<Rightarrow> string option \<Rightarrow> bytes option \<Rightarrow> nat \<Rightarrow> string option \<Rightarrow> alert" where
  "hit_alert cfg tx env hit fo exe sha folded hk =
     builder_context (file_open_context (oe_proc2 env) fo exe)
       (builder_exe_sha256_hex (case sha of None \<Rightarrow> [] | Some s \<Rightarrow> hex_lower s) (builder_subject (fo_path fo)
         (builder_raw (oe_ms env 5) (pf_originator_fp cfg) (pf_backend_label cfg) (fh_rule_id hit)
           (file_episode (fh_rule_id hit) (oe_ms env 4)) (hit_severity hit hk)
           (hit_rationale tx hit fo exe (folded_note folded (pf_suppress_window cfg)) hk))))"

definition ask_model :: "pipeline_config \<Rightarrow> open_env \<Rightarrow> bool \<Rightarrow> string option \<Rightarrow> f32 \<Rightarrow> string \<Rightarrow> pipeline \<Rightarrow> pipeline" where
  "ask_model cfg env was_stored hk severity ep st =
     (if was_stored \<and> hk = None \<and> f32_le (pf_llm_threshold cfg) severity
      then (if oe_submit_ok env then st\<lparr>pl_submitted := pl_submitted st @ [ep]\<rparr> else st\<lparr>pl_llm_shed := pl_llm_shed st @ [ep]\<rparr>)
      else st)"

definition claim_access :: "pipeline_config \<Rightarrow> open_env \<Rightarrow> file_open \<Rightarrow> string option \<Rightarrow> string \<Rightarrow> pipeline \<Rightarrow> pipeline" where
  "claim_access cfg env fo exe ep st =
     (case pl_claims st of None \<Rightarrow> st
      | Some en \<Rightarrow>
          (case file_claim_for (oe_ms env 8) exe (Option.bind exe (package_for (pc_index (pl_packages st)))) (fo_path fo)
             (fo_sensitive_read fo) ep (fo_ts fo) (pf_half_window cfg) (pf_explained_suspicion cfg) of
             None \<Rightarrow> st
           | Some cl \<Rightarrow> st\<lparr>pl_claims := Some (snd (raise_claim cl en))\<rparr>))"

text \<open>The second half, for a path that a rule watches.\<close>

definition report_access ::
    "pipeline_config \<Rightarrow> impact_texts \<Rightarrow> open_env \<Rightarrow> file_watch_hit \<Rightarrow> file_open \<Rightarrow> string option \<Rightarrow> bytes option \<Rightarrow> nat \<Rightarrow> string option
     \<Rightarrow> pipeline \<Rightarrow> pipeline" where
  "report_access cfg tx env hit fo exe sha folded hk st =
     (let a = hit_alert cfg tx env hit fo exe sha folded hk in
      case emit (oe_ms env 7) a (hit_severity hit hk) (count_rule (oe_ms env 6) (fh_rule_id hit) st) of
        (was_stored, st1) \<Rightarrow>
          claim_access cfg env fo exe (al_episode_id a) (ask_model cfg env was_stored hk (hit_severity hit hk) (al_episode_id a) st1))"

definition process_hit :: "pipeline_config \<Rightarrow> impact_texts \<Rightarrow> open_env \<Rightarrow> file_watch_hit \<Rightarrow> file_open \<Rightarrow> pipeline \<Rightarrow> pipeline" where
  "process_hit cfg tx env hit fo st =
     (let exe = accessor_exe (\<lambda>_. oe_exe3 env) (pl_procs st) (fo_pid fo) (fo_ts fo) in
      case hash_and_classify (oe_files2 env) exe st of ((sha, prov), st1) \<Rightarrow>
        let st2 = note_access env fo exe st1 in
        if reader_is_sanctioned hit exe prov then st2
        else let hk = housekeeping (fv_mtimes (oe_files2 env)) (oe_wall env) (pl_packages st2) (fo_path fo) (Some prov) in
          (case observe (fh_rule_id hit) (fo_path fo) exe (oe_mono2 env) (pl_suppressor st2) of
             (Suppress, s) \<Rightarrow> st2\<lparr>pl_suppressor := s\<rparr>
           | (Report folded, s) \<Rightarrow> report_access cfg tx env hit fo exe sha folded hk (st2\<lparr>pl_suppressor := s\<rparr>)))"

definition process_file_open :: "pipeline_config \<Rightarrow> impact_texts \<Rightarrow> open_env \<Rightarrow> file_open \<Rightarrow> pipeline \<Rightarrow> pipeline" where
  "process_file_open cfg tx env fo st =
     (let st1 = observe_mass_write cfg tx env fo st in
      case open_hit fo of None \<Rightarrow> st1 | Some hit \<Rightarrow> process_hit cfg tx env hit fo st1)"

section \<open>Modules and ptrace\<close>

definition MODULE_RULE_ID :: string where "MODULE_RULE_ID = ''persist.kernel_module_untrusted''"
definition INJECTION_RULE_ID :: string where "INJECTION_RULE_ID = ''defense_evasion.ptrace_inject''"

fun hex_nat :: "nat \<Rightarrow> string" where
  "hex_nat n = (if n < 16 then [hex_digit n] else hex_nat (n div 16) @ [hex_digit (n mod 16)])"

declare hex_nat.simps [simp del]

definition process_module_load ::
    "pipeline_config \<Rightarrow> (module_load \<Rightarrow> string \<Rightarrow> string) \<Rightarrow> (nat \<Rightarrow> u64) \<Rightarrow> module_load \<Rightarrow> pipeline \<Rightarrow> pipeline" where
  "process_module_load cfg text_of ms m st =
     (case taint_reason m of None \<Rightarrow> st
      | Some reason \<Rightarrow>
          let ep = ''mod-'' @ ml_name m @ ''-'' @ dec (unat (ms 1));
              a = builder_context [attribute_new ''module'' (ml_name m), attribute_new ''loaded_by'' (ml_comm m),
                    attribute_new ''pid'' (dec (unat (ml_pid m))), attribute_new ''taints'' (''0x'' @ hex_nat (unat (ml_taints m))),
                    attribute_new ''taint_reason'' reason]
                  (builder_subject (ml_name m) (builder_raw (ms 2) (pf_originator_fp cfg) (pf_backend_label cfg) MODULE_RULE_ID ep
                    (to_f32 (95 / 100)) (text_of m reason)))
          in snd (emit (ms 3) a (to_f32 (95 / 100)) (count_rule (ms 0) MODULE_RULE_ID st)))"

definition DEBUGGERS :: "string list" where
  "DEBUGGERS = [''/usr/bin/gdb'', ''/usr/bin/gdbserver'', ''/usr/bin/lldb'', ''/usr/bin/lldb-server'', ''/usr/bin/strace'',
     ''/usr/bin/ltrace'', ''/usr/bin/gcore'', ''/usr/bin/perf'', ''/usr/bin/criu'', ''/usr/bin/rr'', ''/usr/bin/valgrind'',
     ''/usr/bin/dotnet-dump'', ''/usr/bin/java'', ''/bin/gdb'', ''/bin/strace'', ''/usr/lib/systemd/systemd-coredump'',
     ''/lib/systemd/systemd-coredump'', ''/usr/bin/apport'', ''/usr/share/apport/apport'']"

definition request_name :: "u32 \<Rightarrow> string" where
  "request_name r =
     (if r = 4 then ''POKETEXT (write to its code)'' else if r = 5 then ''POKEDATA (write to its data)''
      else if r = 13 then ''SETREGS (redirect its execution)'' else if r = 16 then ''ATTACH''
      else if r = 0xFFFFFFFF then ''process_vm_writev (wrote its memory directly)''
      else if r = 0x4206 then ''SEIZE'' else ''control request'')"

definition is_sanctioned_debugger :: "string option \<Rightarrow> provenance \<Rightarrow> bool" where
  "is_sanctioned_debugger exe prov =
     (case exe of None \<Rightarrow> False | Some e \<Rightarrow> prov = PackagedIntact \<and> e \<in> set DEBUGGERS)"

record ptrace_env =
  tv_exe :: "string option"
  tv_files :: file_view
  tv_mono :: nat
  tv_ms :: "nat \<Rightarrow> u64"

definition process_ptrace ::
    "pipeline_config \<Rightarrow> (ptrace_event \<Rightarrow> string option \<Rightarrow> string \<Rightarrow> string) \<Rightarrow> ptrace_env \<Rightarrow> ptrace_event \<Rightarrow> pipeline \<Rightarrow> pipeline" where
  "process_ptrace cfg text_of env t st =
     (let exe = (case tv_exe env of Some e \<Rightarrow> Some e | None \<Rightarrow> exe_at (pl_procs st) (pte_pid t) (pte_ts t)) in
      case hash_and_classify (tv_files env) exe st of ((_, prov), st1) \<Rightarrow>
        if is_sanctioned_debugger exe prov then st1
        else
          (case observe INJECTION_RULE_ID (dec (unat (pte_pid t)) @ ''->'' @ dec (unat (pte_target_pid t))) exe (tv_mono env) (pl_suppressor st1) of
             (Suppress, s) \<Rightarrow> st1\<lparr>pl_suppressor := s\<rparr>
           | (Report folded, s) \<Rightarrow>
               let ep = ''inject-'' @ dec (unat (pte_pid t)) @ ''-'' @ dec (unat (tv_ms env 1));
                   a = builder_context [attribute_new ''pid'' (dec (unat (pte_pid t))), attribute_new ''target_pid'' (dec (unat (pte_target_pid t))),
                         attribute_new ''request'' (request_name (pte_request t)), attribute_new ''comm'' (pte_comm t)]
                       (builder_subject (case exe of Some e \<Rightarrow> e | None \<Rightarrow> pte_comm t)
                         (builder_raw (tv_ms env 2) (pf_originator_fp cfg) (pf_backend_label cfg) INJECTION_RULE_ID ep (to_f32 (9 / 10))
                           (text_of t exe (folded_note folded (pf_suppress_window cfg)))))
               in snd (emit (tv_ms env 3) a (to_f32 (9 / 10)) (count_rule (tv_ms env 0) INJECTION_RULE_ID (st1\<lparr>pl_suppressor := s\<rparr>)))))"

section \<open>Files the operator watches\<close>

record file_rule_spec =
  fr_id :: string
  fr_path :: string
  fr_ops :: "file_op list"
  fr_severity :: rule_severity

definition severity_weight :: "rule_severity \<Rightarrow> f32" where
  "severity_weight v = (case v of SevInfo \<Rightarrow> to_f32 (1 / 10) | SevLow \<Rightarrow> to_f32 (3 / 10) | SevMedium \<Rightarrow> to_f32 (6 / 10) | SevHigh \<Rightarrow> to_f32 (9 / 10))"

definition process_file_change ::
    "pipeline_config \<Rightarrow> file_rule_spec list \<Rightarrow> file_view \<Rightarrow> int \<Rightarrow> (nat \<Rightarrow> u64) \<Rightarrow> file_change \<Rightarrow> pipeline \<Rightarrow> pipeline" where
  "process_file_change cfg rules fv wall ms c st =
     (case find (\<lambda>r. path_key (fr_path r) = path_key (fc_path c) \<and> fc_op c \<in> set (fr_ops r)) rules of None \<Rightarrow> st
      | Some r \<Rightarrow>
          let hk = housekeeping (fv_mtimes fv) wall (pl_packages st) (fc_path c) None;
              susp = (if hk \<noteq> None then damp_housekeeping (severity_weight (fr_severity r)) else severity_weight (fr_severity r));
              a = builder_exe_sha256_hex (case fv_sha256 fv (fc_path c) of Some sha \<Rightarrow> hex_lower sha | None \<Rightarrow> [])
                    (builder_subject (fc_path c)
                      (builder_raw (ms 1) (pf_originator_fp cfg) (pf_backend_label cfg) (fr_id r) (file_episode (fr_id r) (ms 0)) susp
                        (''file rule `'' @ fr_id r @ ''`: '' @ fc_path c @ '' was '' @ file_op_label (fc_op c) @
                         (case hk of None \<Rightarrow> [] | Some why \<Rightarrow> '' '' @ em_dash @ '' '' @ why))))
          in snd (emit (ms 2) a susp st))"

section \<open>Inbound connections and the bookkeeping before a handler\<close>

definition process_inbound :: "pipeline_config \<Rightarrow> u64 \<Rightarrow> network_connect \<Rightarrow> pipeline \<Rightarrow> pipeline" where
  "process_inbound cfg now e st =
     (case pl_claims st of None \<Rightarrow> st
      | Some en \<Rightarrow>
          (case net_claim_for now e (pf_half_window cfg) (pf_suspicion cfg) of None \<Rightarrow> st
           | Some cl \<Rightarrow> st\<lparr>pl_claims := Some (snd (raise_claim cl en))\<rparr>))"

definition record_event :: "event \<Rightarrow> pipeline \<Rightarrow> pipeline" where
  "record_event ev st =
     (let st1 = (case pl_writer st of None \<Rightarrow> st | Some w \<Rightarrow> st\<lparr>pl_writer := Some (log_record ev w)\<rparr>) in
      case ev of
        ProcessExec e \<Rightarrow> (case ev_exe_path e of None \<Rightarrow> st1 | Some exe \<Rightarrow> st1\<lparr>pl_procs := proc_record (ev_pid e) exe (ev_ts e) (pl_procs st1)\<rparr>)
      | Fork e \<Rightarrow> st1\<lparr>pl_procs := record_fork (fk_parent_pid e) (fk_child_pid e) (fk_ts e) (pl_procs st1)\<rparr>
      | ProcessExit e \<Rightarrow> st1\<lparr>pl_procs := forget (ex_pid e) (ex_ts e) (pl_procs st1),
          pl_mass_writes := map_option (mass_forget (ex_pid e)) (pl_mass_writes st1)\<rparr>
      | _ \<Rightarrow> st1)"

section \<open>What becomes of a watched access\<close>

lemma hash_and_classify_keeps [simp]:
  "pl_inbox (snd (hash_and_classify fv exe st)) = pl_inbox st"
  "pl_suppressor (snd (hash_and_classify fv exe st)) = pl_suppressor st"
  "pl_procs (snd (hash_and_classify fv exe st)) = pl_procs st"
  "pl_writer (snd (hash_and_classify fv exe st)) = pl_writer st"
  "pl_claims (snd (hash_and_classify fv exe st)) = pl_claims st"
  by (simp_all add: hash_and_classify_def split: option.split prod.split)

lemma note_access_keeps [simp]:
  "pl_inbox (note_access env fo exe st) = pl_inbox st"
  "pl_suppressor (note_access env fo exe st) = pl_suppressor st"
  "pl_claims (note_access env fo exe st) = pl_claims st"
  by (simp_all add: note_access_def split: option.split)

lemma later_steps_keep [simp]:
  "pl_inbox (ask_model cfg env b hk sev ep st) = pl_inbox st" "pl_inbox (claim_access cfg env fo exe ep st) = pl_inbox st"
  "pl_writer (ask_model cfg env b hk sev ep st) = pl_writer st" "pl_writer (claim_access cfg env fo exe ep st) = pl_writer st"
  "pl_claims (ask_model cfg env b hk sev ep st) = pl_claims st"
  "pl_inbox (count_rule now r st) = pl_inbox st" "pl_writer (count_rule now r st) = pl_writer st" "pl_claims (count_rule now r st) = pl_claims st"
  by (simp_all add: ask_model_def claim_access_def count_rule_def split: option.split)

lemma emit_keeps [simp]: "pl_writer (snd (emit t a v st)) = pl_writer st" "pl_claims (snd (emit t a v st)) = pl_claims st"
  "pl_inbox (snd (emit t a v st)) = snd (inbox_append t a (pl_inbox st))"
  by (simp_all add: emit_def split: prod.split)

lemma report_access_inbox:
  "pl_inbox (report_access cfg tx env hit fo exe sha folded hk st) =
     snd (inbox_append (oe_ms env 7) (hit_alert cfg tx env hit fo exe sha folded hk) (pl_inbox st))"
  by (simp add: report_access_def Let_def split: prod.split) (metis emit_keeps(3) later_steps_keep(6) snd_conv)

lemma report_access_writer: "pl_writer (report_access cfg tx env hit fo exe sha folded hk st) = pl_writer st"
  by (simp add: report_access_def Let_def split: prod.split) (metis emit_keeps(1) later_steps_keep(7) snd_conv)

text \<open>Who is behind an access, and what the package database says of that binary.\<close>

definition accessor :: "open_env \<Rightarrow> file_open \<Rightarrow> pipeline \<Rightarrow> string option" where
  "accessor env fo st = accessor_exe (\<lambda>_. oe_exe3 env) (pl_procs st) (fo_pid fo) (fo_ts fo)"

definition accessor_provenance :: "open_env \<Rightarrow> file_open \<Rightarrow> pipeline \<Rightarrow> provenance" where
  "accessor_provenance env fo st = snd (fst (hash_and_classify (oe_files2 env) (accessor env fo st) st))"

definition exempt :: "open_env \<Rightarrow> file_watch_hit \<Rightarrow> file_open \<Rightarrow> pipeline \<Rightarrow> bool" where
  "exempt env hit fo st \<longleftrightarrow> (\<exists>e. accessor env fo st = Some e \<and> e \<in> set (fh_sanctioned_readers hit) \<and>
     accessor_provenance env fo st = PackagedIntact)"

lemma exempt_iff: "reader_is_sanctioned hit (accessor env fo st) (accessor_provenance env fo st) \<longleftrightarrow> exempt env hit fo st"
  by (auto simp: reader_is_sanctioned_def exempt_def split: option.splits)

lemma process_hit_cases:
  fixes cfg tx env hit fo st
  defines "st2 \<equiv> note_access env fo (accessor env fo st) (snd (hash_and_classify (oe_files2 env) (accessor env fo st) st))"
  shows "process_hit cfg tx env hit fo st =
    (if exempt env hit fo st then st2
     else case observe (fh_rule_id hit) (fo_path fo) (accessor env fo st) (oe_mono2 env) (pl_suppressor st) of
       (Suppress, s) \<Rightarrow> st2\<lparr>pl_suppressor := s\<rparr>
     | (Report folded, s) \<Rightarrow> report_access cfg tx env hit fo (accessor env fo st)
         (fst (fst (hash_and_classify (oe_files2 env) (accessor env fo st) st))) folded
         (housekeeping (fv_mtimes (oe_files2 env)) (oe_wall env) (pl_packages st2) (fo_path fo) (Some (accessor_provenance env fo st)))
         (st2\<lparr>pl_suppressor := s\<rparr>))"
  unfolding process_hit_def Let_def st2_def exempt_iff[symmetric] accessor_provenance_def accessor_def
  by (simp add: case_prod_beta)

lemma rule_severities:
  "\<exists>ns :: nat list. map wr_severity (RULES @ READ_RULES) = map (\<lambda>n. to_f32 (of_nat n / 100)) ns \<and> list_all (\<lambda>n. n \<le> 100) ns"
  by (rule exI[of _ "[80, 97, 85, 85, 90, 95, 93, 80, 80, 70, 70, 95, 90, 88, 85, 92, 85, 85,
      90, 88, 90, 85, 90, 90, 88, 85, 85, 85, 85, 85, 88, 85, 80, 70, 60]"])
    (simp add: RULES_def READ_RULES_def file_rule_def)

lemma score_to_f32: "0 \<le> q \<Longrightarrow> q \<le> 1 \<Longrightarrow> \<exists>x. score (to_f32 q) x"
  using f32_round_unit[of q] f32_round_idem[of q] by (auto simp: score_def to_f32_unit)

lemma hit_severity_score:
  assumes "open_hit fo = Some hit"
  shows "\<exists>x. score (hit_severity hit hk) x"
proof -
  have "\<exists>r. hit = hit_of r \<and> r \<in> set (RULES @ READ_RULES)"
    using assms by (auto simp: open_hit_def classify_read_def classify_def classify_in_Some split: if_splits dest!: find_Some_member)
  then obtain r where h: "hit = hit_of r" and r1: "r \<in> set (RULES @ READ_RULES)" by blast
  then have r: "fh_severity hit = wr_severity r" by (simp add: hit_of_def)
  obtain ns :: "nat list" where ns: "map wr_severity (RULES @ READ_RULES) = map (\<lambda>n. to_f32 (of_nat n / 100)) ns" "\<forall>n \<in> set ns. n \<le> 100"
    using rule_severities by (auto simp: list_all_iff)
  from r1 have "wr_severity r \<in> set (map wr_severity (RULES @ READ_RULES))" by auto
  then obtain n :: nat where n: "wr_severity r = to_f32 (of_nat n / 100)" "n \<le> 100"
    unfolding ns(1) using ns(2) by auto
  then have unit: "0 \<le> (of_nat n / 100 :: rat)" "(of_nat n / 100 :: rat) \<le> 1" by simp_all
  from score_to_f32[OF this] n r obtain x where x: "score (fh_severity hit) x" by auto
  have "f32_mul (Fin x) (to_f32 (15 / 100)) = Fin (f32_round (x * f32_round (15 / 100)))"
    using x f32_round_unit[of "15 / 100"] f32_mul_unit[of x "f32_round (15 / 100)"] to_f32_unit[of "15 / 100"] by (simp add: score_def)
  moreover have "0 \<le> x * f32_round (15 / 100)" "x * f32_round (15 / 100) \<le> 1"
    using x f32_round_unit[of "15 / 100"] by (simp_all add: score_def mult_le_one)
  ultimately have "\<exists>y. score (damp_housekeeping (fh_severity hit)) y"
    using x f32_round_unit[of "x * f32_round (15 / 100)"] f32_round_idem[of "x * f32_round (15 / 100)"]
    by (auto simp: score_def damp_housekeeping_def)
  then show ?thesis using x by (auto simp: hit_severity_def)
qed

lemma damp_inherit_exe_path [simp]:
  "al_exe_path (damp_for_recognition a) = al_exe_path a" "al_exe_path (inherit_confirmation items a) = al_exe_path a"
  by (auto simp: damp_for_recognition_def inherit_confirmation_def Let_def split: option.splits)

lemma append_unsilenced:
  assumes "unsilenced now a ib" "score (al_suspicion a) x"
  shows "\<exists>a' y. last (ib_items (snd (inbox_append now a ib))) = a' \<and> al_rule_id a' = al_rule_id a \<and> al_exe_path a' = al_exe_path a \<and>
    al_episode_id a' = al_episode_id a \<and> al_suspicion a' = Fin y \<and> f32_round (x * recognition_floor) \<le> y \<and> y \<le> x"
proof -
  let ?i = "inherit_confirmation (ib_items ib) a"
  have "snd (inbox_append now a ib) = push_alert (damp_for_recognition ?i) ib"
    by (simp add: inbox_append_def apply_silences_unsilenced[OF assms(1)])
  moreover have "score (al_suspicion ?i) x" using assms(2) by simp
  then obtain y where "al_suspicion (damp_for_recognition ?i) = Fin y" "f32_round (x * recognition_floor) \<le> y" "y \<le> x"
    using damp_bounds by blast
  ultimately show ?thesis by (simp add: push_alert_items)
qed

lemma hit_alert_fields [simp]:
  "al_rule_id (hit_alert cfg tx env hit fo exe sha folded hk) = fh_rule_id hit"
  "al_exe_path (hit_alert cfg tx env hit fo exe sha folded hk) = fo_path fo"
  "al_suspicion (hit_alert cfg tx env hit fo exe sha folded hk) = hit_severity hit hk"
  "al_episode_id (hit_alert cfg tx env hit fo exe sha folded hk) = file_episode (fh_rule_id hit) (oe_ms env 4)"
  by (simp_all add: hit_alert_def builder_context_def builder_exe_sha256_hex_def builder_subject_def builder_raw_def)

text \<open>
  A package upgrade is behind an access: a transaction is running, the file is a conffile of a package,
  and the accessing binary is one its package vouches for.
\<close>

definition upgrade_access :: "open_env \<Rightarrow> file_open \<Rightarrow> pipeline \<Rightarrow> bool" where
  "upgrade_access env fo st \<longleftrightarrow>
     (let idx = pc_index (pl_packages (snd (hash_and_classify (oe_files2 env) (accessor env fo st) st))) in
      accessor_provenance env fo st = PackagedIntact \<and> conffile_package idx (fo_path fo) \<noteq> None \<and>
      transaction_active (fv_mtimes (oe_files2 env)) (oe_wall env) idx)"

lemma note_access_packages: "pl_packages (note_access env fo exe st) = pl_packages st"
  by (simp add: note_access_def split: option.split)

lemma housekeeping_upgrade:
  "(housekeeping (fv_mtimes (oe_files2 env)) (oe_wall env)
      (pl_packages (note_access env fo (accessor env fo st) (snd (hash_and_classify (oe_files2 env) (accessor env fo st) st))))
      (fo_path fo) (Some (accessor_provenance env fo st)) \<noteq> None) = upgrade_access env fo st"
  by (auto simp: housekeeping_def upgrade_access_def note_access_packages Let_def split: option.split)


definition demo_pipeline :: pipeline where
  "demo_pipeline = \<lparr>pl_writer = None, pl_procs = proc_new 1000, pl_mass_writes = None, pl_packages = cache_empty,
     pl_suppressor = suppressor_new 60, pl_inbox = inbox_new 4 1000, pl_detections = detections_new [], pl_claims = None,
     pl_emitted = [], pl_submitted = [], pl_llm_shed = []\<rparr>"

definition demo_config :: pipeline_config where
  "demo_config = \<lparr>pf_originator_fp = [1], pf_backend_label = [], pf_llm_threshold = Fin 1, pf_suppress_window = 60, pf_half_window = 5,
     pf_suspicion = Fin 1, pf_explained_suspicion = Fin 0\<rparr>"

definition demo_texts :: impact_texts where
  "demo_texts = \<lparr>it_rationale = (\<lambda>_. []), it_note_rationale = (\<lambda>_. []), it_why = (\<lambda>_. [])\<rparr>"

definition demo_env :: "string option \<Rightarrow> open_env" where
  "demo_env exe = \<lparr>oe_hashing = \<lparr>hs_hash = (\<lambda>_. 0), hs_order = id\<rparr>, oe_mono1 = 0, oe_exe1 = None, oe_exe2 = None, oe_exe3 = exe,
     oe_files = \<lparr>fv_sha256 = (\<lambda>_. None), fv_md5 = (\<lambda>_. None), fv_mtimes = (\<lambda>_. (None, None))\<rparr>,
     oe_files2 = \<lparr>fv_sha256 = (\<lambda>_. None), fv_md5 = (\<lambda>_. None), fv_mtimes = (\<lambda>_. (None, None))\<rparr>,
     oe_wall = 0, oe_mono2 = 0, oe_ms = (\<lambda>_. 7), oe_proc1 = \<lparr>pv_cmdline = None, pv_ancestry = [], pv_connections = None\<rparr>,
     oe_proc2 = \<lparr>pv_cmdline = None, pv_ancestry = [], pv_connections = None\<rparr>, oe_log_fails = False, oe_submit_ok = True\<rparr>"

lemma demo_netrc: "classify_read ''/root/.netrc'' = Some \<lparr>fh_rule_id = ''cred.read_netrc'', fh_category = Credential,
    fh_severity = to_f32 (85 / 100), fh_sanctioned_readers = GIT_TOOLS\<rparr>"
  by (simp add: classify_read_def classify_in_def is_matchable_def READ_RULES_def file_rule_def suffix_drop hit_of_def)


section \<open>A host that sees nothing wrong can still testify\<close>

lemma process_hit_writer:
  assumes "accessor env fo st = Some e" "\<not> oe_log_fails env" "pl_writer st = Some w"
  shows "pl_writer (process_hit cfg tx env hit fo st) = Some (w\<lparr>lw_log := record_file_access False (fo_pid fo) (fo_comm fo) e
    (fo_path fo) (fo_sensitive_read fo) (fo_ts fo) (lw_log w)\<rparr>)"
  using assms by (simp add: process_hit_cases report_access_writer note_access_def split: prod.split suppress_decision.split)

lemma observe_mass_write_writer: "pl_writer (observe_mass_write cfg tx env fo st) = pl_writer st"
proof -
  have "pl_writer (snd (impact_finding_to_report tx env finding st)) = pl_writer st" for finding st
    by (cases finding) (auto simp: impact_finding_to_report_def case_prod_beta)
  then show ?thesis
    by (auto simp: observe_mass_write_def Let_def split: option.split prod.split) (metis pipeline.select_convs(1) pipeline.surjective pipeline.update_convs(3) snd_conv)+
qed

lemma access_entry_row:
  "access_row e path is_read (access_entry pid comm e path is_read ts)"
  by (simp add: access_row_def access_entry_def Let_def blank_row_def)

lemma access_entry_ts:
  assumes "0 \<le> ts" "event_ms ts < 2 ^ 63"
  shows "row_ts (access_entry pid comm e path is_read ts) = int (event_ms ts)"
  using assms by (simp add: access_entry_def Let_def blank_row_def event_ms_def I64_MAX_def pos_imp_zdiv_nonneg_iff)

lemma recorded_access_is_seen:
  assumes "access_entry pid comm e path is_read ts \<in> snd ` set (elg_rows el)" "0 \<le> ts" "event_ms ts < 2 ^ 63"
    and "unat start \<le> event_ms ts" "event_ms ts \<le> unat stop"
  shows "file_access_evidence False e also_exe path is_read start stop el = Some Seen"
proof -
  have "in_span start stop (access_entry pid comm e path is_read ts)"
  proof (intro in_spanI)
    have "int (unat start) \<le> int (event_ms ts)" "int (event_ms ts) \<le> int (unat stop)" using assms(4,5) by linarith+
    then show "uint start \<le> row_ts (access_entry pid comm e path is_read ts)" "row_ts (access_entry pid comm e path is_read ts) \<le> uint stop"
      by (simp_all add: access_entry_ts[OF assms(2,3)])
    have "int (event_ms ts) < int (2 ^ 63)" using assms(3) by linarith
    then show "row_ts (access_entry pid comm e path is_read ts) \<le> I64_MAX" by (simp add: access_entry_ts[OF assms(2,3)] I64_MAX_def)
  qed
  then have "list_ex (\<lambda>r. access_row e path is_read r \<and> in_span start stop r) (map snd (elg_rows el))"
    using assms(1) access_entry_row unfolding list_ex_iff set_map by blast
  then show ?thesis by (simp add: file_access_evidence_def Let_def)
qed

text \<open>
  An access that is no finding here can still explain one elsewhere. Whenever the pipeline could name the
  binary behind a watched access and its row was written, the host answers a question about that binary,
  path and kind of access with a corroboration, if its history reaches back to the start of the searched
  window and the access lies in it. That the program was exempt, or the finding folded or silenced, makes
  no difference.
\<close>

theorem attributed_access_is_corroborated:
  assumes "open_hit fo = Some hit" "pl_writer st = Some w" "\<not> oe_log_fails env"
    and "accessor env fo (observe_mass_write cfg tx env fo st) = Some e"
    and "attribute_value (cq_subject q) ATTR_EXE = Some e" "attribute_value (cq_subject q) ATTR_PATH = Some (fo_path fo)"
    and "attribute_value (cq_subject q) ATTR_ACCESS = Some (op_label (fo_sensitive_read fo))"
    and "0 \<le> fo_ts fo" "event_ms (fo_ts fo) < 2 ^ 63"
    and "unat (clamp_start FILE_MAX_WINDOW_MS q) \<le> event_ms (fo_ts fo)" "event_ms (fo_ts fo) \<le> unat (cq_window_end_unix_ms q)"
    and "\<not> af_covers f" "\<not> af_evidence f" "\<not> af_panics f"
    and "pl_writer (process_file_open cfg tx env fo st) = Some w'"
    and "covers_since False (clamp_start FILE_MAX_WINDOW_MS q) (lw_log w') = Some True"
  shows "corroboration_of (file_respond f package_paths (lw_log w') asker q) = Corroborated"
proof -
  let ?st1 = "observe_mass_write cfg tx env fo st"
  have "pl_writer ?st1 = Some w" using assms(2) by (simp add: observe_mass_write_writer)
  from process_hit_writer[OF assms(4,3) this, of cfg tx hit]
  have "lw_log w' = insert_row (access_entry (fo_pid fo) (fo_comm fo) e (fo_path fo) (fo_sensitive_read fo) (fo_ts fo)) (lw_log w)"
    using assms(1,15) by (auto simp: process_file_open_def record_file_access_row)
  then have "access_entry (fo_pid fo) (fo_comm fo) e (fo_path fo) (fo_sensitive_read fo) (fo_ts fo) \<in> snd ` set (elg_rows (lw_log w'))"
    by (simp add: insert_row_def)
  from recorded_access_is_seen[OF this assms(8-11)]
  have look: "access_lookup f e also_exe (fo_path fo) (fo_sensitive_read fo) (clamp_start FILE_MAX_WINDOW_MS q) (cq_window_end_unix_ms q) (lw_log w')
      = Some (Seen, None)" for also_exe
    using assms(12,13,16) by (simp add: access_lookup_def)
  have op: "op_label (fo_sensitive_read fo) = ''read'' \<longleftrightarrow> fo_sensitive_read fo" "op_label (fo_sensitive_read fo) \<noteq> ''read'' \<longleftrightarrow> op_label (fo_sensitive_read fo) = ''write''"
    by (simp_all add: op_label_def)
  have "(if fo_sensitive_read fo then classify_read (fo_path fo) else classify (fo_path fo)) = Some hit"
    using assms(1) by (simp add: open_hit_def)
  then show ?thesis using op look assms(14) by (simp add: file_respond_def assms(5-7) Let_def)
qed

definition demo_open :: "string \<Rightarrow> file_open" where
  "demo_open p = \<lparr>fo_pid = 9, fo_comm = ''git'', fo_path = p, fo_flags = 0, fo_truncated = False, fo_sensitive_read = True, fo_ts = 5000000\<rparr>"

definition demo_access_query :: corroboration_query where
  "demo_access_query = \<lparr>cq_query_id = ''q'', cq_kind = KIND_FILE_ACCESS_CLAIM, cq_deadline_unix_ms = 10, cq_window_start_unix_ms = 5,
     cq_window_end_unix_ms = 10, cq_subject = [attribute_new ATTR_EXE ''/usr/bin/git'', attribute_new ATTR_PATH ''/root/.netrc'',
       attribute_new ATTR_ACCESS ''read'']\<rparr>"

lemmas demo_pipe_defs = demo_open_def demo_access_query_def demo_env_def demo_pipeline_def attribute_value_def attribute_new_def
  ATTR_EXE_def ATTR_PATH_def ATTR_ACCESS_def op_label_def event_ms_def

theorem attributed_access_is_corroborated_witness:
  "\<exists>w'. pl_writer (process_file_open demo_config demo_texts (demo_env (Some ''/usr/bin/git'')) (demo_open ''/root/.netrc'')
       (demo_pipeline\<lparr>pl_writer := Some (writer_new 4 eventlog_open)\<rparr>)) = Some w' \<and>
     corroboration_of (file_respond \<lparr>af_covers = False, af_evidence = False, af_habit = False, af_panics = False\<rparr> (\<lambda>_. []) (lw_log w') [7]
       demo_access_query) = Corroborated"
proof -
  let ?st = "demo_pipeline\<lparr>pl_writer := Some (writer_new 4 eventlog_open)\<rparr>" let ?env = "demo_env (Some ''/usr/bin/git'')"
  let ?fo = "demo_open ''/root/.netrc''"
  have hit: "open_hit ?fo = classify_read ''/root/.netrc''" by (simp add: open_hit_def demo_open_def)
  have m: "observe_mass_write demo_config demo_texts ?env ?fo ?st = ?st" by (simp add: observe_mass_write_def demo_open_def)
  have acc: "accessor ?env ?fo ?st = Some ''/usr/bin/git''" by (simp add: accessor_def accessor_exe_def demo_env_def)
  have st: "pl_writer ?st = Some (writer_new 4 eventlog_open)" "\<not> oe_log_fails ?env" "lw_log (writer_new 4 eventlog_open) = eventlog_open"
    by (simp_all add: demo_env_def writer_new_def)
  have fo: "fo_pid ?fo = 9" "fo_comm ?fo = ''git''" "fo_path ?fo = ''/root/.netrc''" "fo_sensitive_read ?fo" "fo_ts ?fo = 5000000"
    by (simp_all add: demo_open_def)
  define w' where "w' = (writer_new 4 eventlog_open)\<lparr>lw_log := insert_row (access_entry 9 ''git'' ''/usr/bin/git'' ''/root/.netrc'' True 5000000) eventlog_open\<rparr>"
  have w': "pl_writer (process_file_open demo_config demo_texts ?env ?fo ?st) = Some w'"
    by (simp only: process_file_open_def hit demo_netrc m Let_def option.case process_hit_writer[OF acc st(2,1)] record_file_access_row
        if_False st(3) fo w'_def fo(4)[THEN eqTrueI])
  have log: "lw_log w' = insert_row (access_entry 9 ''git'' ''/usr/bin/git'' ''/root/.netrc'' True 5000000) eventlog_open"
    by (simp add: w'_def)
  have cl: "clamp_start FILE_MAX_WINDOW_MS demo_access_query = 5"
    by (simp add: clamp_start_def demo_access_query_def FILE_MAX_WINDOW_MS_def saturating_sub_def max_def)
  have "covers_since False 5 (lw_log w') = Some True"
    by (simp add: log covers_since_def oldest_ts_def insert_row_def eventlog_open_def access_entry_ts event_ms_def)
  then have "corroboration_of (file_respond \<lparr>af_covers = False, af_evidence = False, af_habit = False, af_panics = False\<rparr> (\<lambda>_. []) (lw_log w') [7]
      demo_access_query) = Corroborated"
    by (intro attributed_access_is_corroborated[OF _ _ _ _ _ _ _ _ _ _ _ _ _ _ w'])
      (simp_all add: hit demo_netrc m acc cl, simp_all add: demo_pipe_defs)
  then show ?thesis using w' by blast
qed

section \<open>Where findings get mixed up\<close>

text \<open>
  A verdict on one finding is applied to another. The episode of a file finding is its rule and the
  millisecond; two accesses to different files within one millisecond share it, and what the model says
  about the first is written to both alerts, with the lowered score.
\<close>

theorem same_millisecond_findings_share_verdict:
  assumes "oe_ms env2 4 = oe_ms env1 4"
    and "ib_items ib = pre @ [hit_alert cfg tx env1 hit fo1 exe1 sha1 n1 None, hit_alert cfg tx env2 hit fo2 exe2 sha2 n2 None]"
  shows "\<exists>pre'. ib_items (judge ib (al_episode_id (hit_alert cfg tx env1 hit fo1 exe1 sha1 n1 None), v, why, b)) =
    pre' @ [model_verdict_on v why b (hit_alert cfg tx env1 hit fo1 exe1 sha1 n1 None),
      model_verdict_on v why b (hit_alert cfg tx env2 hit fo2 exe2 sha2 n2 None)]"
  using assms by (simp add: judge_items judge_alert_def file_episode_def)

theorem same_millisecond_findings_share_verdict_witness:
  "\<exists>hit a1 a2. a1 = hit_alert demo_config demo_texts (demo_env None) hit (demo_open ''/root/.netrc'') None None 0 None \<and>
     a2 = hit_alert demo_config demo_texts (demo_env None) hit (demo_open ''/home/u/.netrc'') None None 0 None \<and> al_exe_path a1 \<noteq> al_exe_path a2 \<and>
     ib_items (judge (inbox_new 4 1000 \<lparr>ib_items := [a1, a2]\<rparr>) (al_episode_id a1, Fin 0, ''ok'', [])) =
       [model_verdict_on (Fin 0) ''ok'' [] a1, model_verdict_on (Fin 0) ''ok'' [] a2]"
proof -
  let ?hit = "the (classify_read ''/root/.netrc'')"
  let ?a = "\<lambda>p. hit_alert demo_config demo_texts (demo_env None) ?hit (demo_open p) None None 0 None"
  have "\<exists>pre'. ib_items (judge (inbox_new 4 1000 \<lparr>ib_items := [?a ''/root/.netrc'', ?a ''/home/u/.netrc'']\<rparr>)
      (al_episode_id (?a ''/root/.netrc''), Fin 0, ''ok'', [])) =
    pre' @ [model_verdict_on (Fin 0) ''ok'' [] (?a ''/root/.netrc''), model_verdict_on (Fin 0) ''ok'' [] (?a ''/home/u/.netrc'')]"
    by (rule same_millisecond_findings_share_verdict[where pre = "[]"]) simp_all
  then have "ib_items (judge (inbox_new 4 1000 \<lparr>ib_items := [?a ''/root/.netrc'', ?a ''/home/u/.netrc'']\<rparr>)
      (al_episode_id (?a ''/root/.netrc''), Fin 0, ''ok'', [])) =
    [model_verdict_on (Fin 0) ''ok'' [] (?a ''/root/.netrc''), model_verdict_on (Fin 0) ''ok'' [] (?a ''/home/u/.netrc'')]"
    by (auto simp: judge_items)
  moreover have "fo_path (demo_open p) = p" for p by (simp add: demo_open_def)
  ultimately show ?thesis by (intro exI[of _ ?hit] exI conjI) (rule refl, rule refl, simp_all)
qed

end
