(* ===== verification/Exec_Args.thy ===== *)
theory Exec_Args
  imports Prelude Text_Lines F32 Inbox Mass_Write
begin

text \<open>
  What the arguments and the parent of an exec say: \<open>bowery-analysis/src/invocation.rs\<close> (the names a program
  answers to), \<open>defense.rs\<close> (switching off the defences of the host) and \<open>lineage.rs\<close> (a service or a
  scheduler that starts a shell, a downloader or an interpreter). A finding is its rule and its severity; the
  sentences that explain it are left out.
\<close>

section \<open>Names\<close>

definition base_name :: "string \<Rightarrow> string" where
  "base_name p = rev (takeWhile (\<lambda>c. c \<noteq> CHR ''/'') (rev p))"

definition is_dashed :: "string \<Rightarrow> bool" where
  "is_dashed s \<longleftrightarrow> starts_with s ''-''"

definition names :: "string \<Rightarrow> string list \<Rightarrow> string list" where
  "names exe_path args =
     (let out = (case args of [] \<Rightarrow> []
            | argv0 # _ \<Rightarrow> let base = base_name argv0 in if base \<noteq> [] \<and> \<not> is_dashed base then [base] else []);
          exe = base_name exe_path
      in if exe \<noteq> [] \<and> exe \<notin> set out then out @ [exe] else out)"

fun find_map :: "('a \<Rightarrow> 'b option) \<Rightarrow> 'a list \<Rightarrow> 'b option" where
  "find_map f [] = None"
| "find_map f (x # xs) = (case f x of None \<Rightarrow> find_map f xs | Some y \<Rightarrow> Some y)"

section \<open>Defences switched off\<close>

record defense_hit =
  dh_rule_id :: string
  dh_severity_pct :: nat

definition defense_severity :: "defense_hit \<Rightarrow> f32" where
  "defense_severity h = f32_div (of_nat (dh_severity_pct h)) 100"

definition FIREWALL_RULE_ID :: string where "FIREWALL_RULE_ID = ''defense_evasion.firewall_flushed''"
definition SERVICE_RULE_ID :: string where "SERVICE_RULE_ID = ''defense_evasion.security_service_stopped''"
definition MAC_RULE_ID :: string where "MAC_RULE_ID = ''defense_evasion.mac_disabled''"

definition SECURITY_SERVICES :: "string list" where
  "SECURITY_SERVICES = [''auditd'', ''apparmor'', ''snapd.apparmor'', ''firewalld'', ''ufw'', ''nftables'', ''iptables'',
     ''ip6tables'', ''netfilter-persistent'', ''selinux'', ''selinux-autorelabel'', ''falco'', ''falcod'', ''osqueryd'',
     ''wazuh-agent'', ''clamav-daemon'', ''clamav-freshclam'', ''fail2ban'', ''aide'', ''rsyslog'', ''systemd-journald'',
     ''sysstat'']"

definition STOPPING_VERBS :: "string list" where
  "STOPPING_VERBS = [''stop'', ''disable'', ''mask'', ''kill'']"

definition strip_suffix :: "string \<Rightarrow> string \<Rightarrow> string option" where
  "strip_suffix suf s = (if drop (length s - length suf) s = suf \<and> length suf \<le> length s then Some (take (length s - length suf) s) else None)"

definition unit_stem :: "string \<Rightarrow> string" where
  "unit_stem u =
     (let stem = (case find_map (\<lambda>suf. strip_suffix suf u) [''.service'', ''.socket'', ''.timer'', ''.target''] of
            None \<Rightarrow> u | Some s \<Rightarrow> s)
      in takeWhile (\<lambda>c. c \<noteq> CHR ''@'') stem)"

definition defense_finding :: "string \<Rightarrow> nat \<Rightarrow> defense_hit" where
  "defense_finding r pct = \<lparr>dh_rule_id = r, dh_severity_pct = pct\<rparr>"

text \<open>The iterator over the operands is the rest of the list; \<open>-P\<close> consumes the chain and looks at the policy.\<close>

function iptables :: "string list \<Rightarrow> defense_hit option" where
  "iptables [] = None"
| "iptables (arg # rest) =
     (if (arg = ''-F'' \<or> arg = ''--flush'') \<and> (rest = [] \<or> is_dashed (hd rest))
      then Some (defense_finding FIREWALL_RULE_ID 90)
      else if arg = ''-P'' \<or> arg = ''--policy''
      then (if drop 1 rest \<noteq> [] \<and> map ascii_lower (hd (drop 1 rest)) = ''accept''
            then Some (defense_finding FIREWALL_RULE_ID 85) else iptables (drop 1 rest))
      else iptables rest)"
  by pat_completeness auto
termination by (relation "measure length") auto

definition nft :: "string list \<Rightarrow> defense_hit option" where
  "nft operands =
     (let joined = join_with '' '' operands in
      if str_contains ''flush ruleset'' joined then Some (defense_finding FIREWALL_RULE_ID 90)
      else if str_contains ''delete table'' joined then Some (defense_finding FIREWALL_RULE_ID 85) else None)"

definition ufw :: "string list \<Rightarrow> defense_hit option" where
  "ufw operands =
     (case find (\<lambda>a. \<not> is_dashed a) operands of None \<Rightarrow> None
      | Some verb \<Rightarrow> if verb = ''disable'' \<or> verb = ''reset'' then Some (defense_finding FIREWALL_RULE_ID 90) else None)"

definition firewall_cmd :: "string list \<Rightarrow> defense_hit option" where
  "firewall_cmd operands =
     (if ''--panic-off'' \<in> set operands then None
      else if ''--set-default-zone=trusted'' \<in> set operands then Some (defense_finding FIREWALL_RULE_ID 85) else None)"

definition service_control :: "string \<Rightarrow> string list \<Rightarrow> defense_hit option" where
  "service_control name operands =
     (let positional = filter (\<lambda>a. \<not> is_dashed a) operands in
      case (if name = ''service'' then (case positional of u # verb # _ \<Rightarrow> Some (verb, [u]) | _ \<Rightarrow> None)
            else (case positional of [] \<Rightarrow> None | verb # rest \<Rightarrow> Some (verb, rest))) of
        None \<Rightarrow> None
      | Some (verb, units) \<Rightarrow>
          if verb \<notin> set STOPPING_VERBS then None
          else map_option (\<lambda>_. defense_finding SERVICE_RULE_ID 90)
            (find (\<lambda>stem. stem \<in> set SECURITY_SERVICES) (map unit_stem units)))"

definition setenforce :: "string list \<Rightarrow> defense_hit option" where
  "setenforce operands =
     (case operands of [] \<Rightarrow> None
      | m # _ \<Rightarrow> if m = ''0'' \<or> map ascii_lower m = ''permissive'' then Some (defense_finding MAC_RULE_ID 90) else None)"

definition classify_named :: "string \<Rightarrow> string list \<Rightarrow> defense_hit option" where
  "classify_named name operands =
     (if name \<in> {''iptables'', ''ip6tables'', ''iptables-legacy'', ''ip6tables-legacy''} then iptables operands
      else if name = ''nft'' then nft operands
      else if name = ''ufw'' then ufw operands
      else if name = ''firewall-cmd'' then firewall_cmd operands
      else if name \<in> {''systemctl'', ''service''} then service_control name operands
      else if name = ''setenforce'' then setenforce operands
      else if name \<in> {''aa-disable'', ''aa-teardown''} then Some (defense_finding MAC_RULE_ID 90)
      else None)"

definition defense_classify :: "string \<Rightarrow> string list \<Rightarrow> defense_hit option" where
  "defense_classify program args = find_map (\<lambda>name. classify_named name (drop 1 args)) (names program args)"

section \<open>Lineage\<close>

definition NETWORK_SERVICES :: "string list" where
  "NETWORK_SERVICES = [''nginx'', ''apache2'', ''httpd'', ''php-fpm'', ''lighttpd'', ''node'', ''java'', ''tomcat'', ''postgres'',
     ''mysqld'', ''mariadbd'', ''redis-server'', ''memcached'', ''mongod'', ''smbd'', ''vsftpd'', ''proftpd'', ''exim4'', ''postfix'']"

definition SHELLS :: "string list" where
  "SHELLS = [''sh'', ''bash'', ''dash'', ''zsh'', ''ksh'', ''ash'', ''busybox'', ''fish'']"

definition NETWORK_TOOLS :: "string list" where
  "NETWORK_TOOLS = [''curl'', ''wget'', ''nc'', ''ncat'', ''netcat'', ''socat'', ''ftp'', ''tftp'']"

definition INTERPRETERS :: "string list" where
  "INTERPRETERS = [''python3'', ''python'', ''perl'', ''ruby'', ''php'', ''lua'']"

definition SCHEDULERS :: "string list" where
  "SCHEDULERS = [''cron'', ''crond'', ''atd'', ''anacron'', ''systemd'']"

definition is_version_char :: "char \<Rightarrow> bool" where
  "is_version_char c \<longleftrightarrow> c = CHR ''.'' \<or> (let n = (of_char c :: nat) in 48 \<le> n \<and> n \<le> 57)"

definition is_versioned :: "string \<Rightarrow> string \<Rightarrow> bool" where
  "is_versioned base name \<longleftrightarrow>
     base = name \<or> starts_with base name \<and> drop (length name) base \<noteq> [] \<and> list_all is_version_char (drop (length name) base)"

definition is_interpreter :: "string \<Rightarrow> bool" where
  "is_interpreter base = list_ex (is_versioned base) INTERPRETERS"

record lineage_hit =
  lh_rule_id :: string
  lh_severity :: f32

definition lineage_rule_ids :: "string list" where
  "lineage_rule_ids = [''lineage.service_spawned_shell'', ''lineage.service_spawned_downloader'',
     ''lineage.service_spawned_interpreter'', ''lineage.scheduled_downloader'']"

definition lineage_classify :: "string \<Rightarrow> string \<Rightarrow> lineage_hit option" where
  "lineage_classify parent_comm child0 =
     (let par = base_name (trim parent_comm); child = base_name (trim child0) in
      if par = [] \<or> child = [] then None
      else if par \<in> set NETWORK_SERVICES \<and> child \<in> set SHELLS
      then Some \<lparr>lh_rule_id = ''lineage.service_spawned_shell'', lh_severity = to_f32 (95 / 100)\<rparr>
      else if par \<in> set NETWORK_SERVICES \<and> child \<in> set NETWORK_TOOLS
      then Some \<lparr>lh_rule_id = ''lineage.service_spawned_downloader'', lh_severity = to_f32 (9 / 10)\<rparr>
      else if par \<in> set NETWORK_SERVICES \<and> is_interpreter child
      then Some \<lparr>lh_rule_id = ''lineage.service_spawned_interpreter'', lh_severity = to_f32 (75 / 100)\<rparr>
      else if par \<in> set SCHEDULERS \<and> child \<in> set NETWORK_TOOLS
      then Some \<lparr>lh_rule_id = ''lineage.scheduled_downloader'', lh_severity = to_f32 (8 / 10)\<rparr>
      else None)"

definition classify_exec :: "string \<Rightarrow> string \<Rightarrow> string list \<Rightarrow> lineage_hit option" where
  "classify_exec parent_comm child_exe child_args = find_map (lineage_classify parent_comm) (names child_exe child_args)"

section \<open>A false name hides nothing\<close>

lemma find_map_None: "find_map f xs = None \<longleftrightarrow> (\<forall>x \<in> set xs. f x = None)"
  by (induction xs) (auto split: option.split)

lemma find_map_Some: "find_map f xs = Some y \<Longrightarrow> \<exists>x \<in> set xs. f x = Some y"
  by (induction xs) (auto split: option.splits)

lemma names_exe: "base_name exe \<noteq> [] \<Longrightarrow> base_name exe \<in> set (names exe args)"
  by (auto simp: names_def Let_def split: list.split)

lemma base_name_idem [simp]: "base_name (base_name p) = base_name p"
proof -
  have "takeWhile P (takeWhile P xs) = takeWhile P xs" for P :: "char \<Rightarrow> bool" and xs
    by (simp add: takeWhile_eq_all_conv set_takeWhileD)
  then show ?thesis by (simp add: base_name_def)
qed

lemma classify_named_empty [simp]: "classify_named [] ops = None"
  by (simp add: classify_named_def)

lemma lineage_classify_empty [simp]: "lineage_classify p [] = None"
  by (simp add: lineage_classify_def Let_def trim_def base_name_def)

text \<open>
  C18. A program cannot hide behind the name it is called by. Whatever an attacker passes as the name of the
  program, an exec whose binary and operands switch a defence off, and one whose binary is what its parent
  should not start, are findings: the false name can only add to what the resolved path shows.
\<close>

theorem false_name_hides_nothing:
  assumes "given # operands = args"
  shows "(classify_named (base_name exe) operands \<noteq> None \<longrightarrow> defense_classify exe args \<noteq> None) \<and>
    (lineage_classify parent_comm (base_name exe) \<noteq> None \<longrightarrow> classify_exec parent_comm exe args \<noteq> None)"
proof (cases "base_name exe = []")
  case False
  have "drop 1 args = operands" using assms by auto
  then show ?thesis using names_exe[OF False, of args] by (auto simp: defense_classify_def classify_exec_def find_map_None)
qed simp

theorem false_name_hides_nothing_witness:
  "defense_classify ''/usr/sbin/nft'' [''harmless'', ''flush'', ''ruleset''] \<noteq> None \<and>
   classify_exec ''nginx'' ''/usr/bin/dash'' [''harmless'', ''flush'', ''ruleset''] \<noteq> None"
proof -
  have "classify_named (base_name ''/usr/sbin/nft'') [''flush'', ''ruleset''] \<noteq> None"
    "lineage_classify ''nginx'' (base_name ''/usr/bin/dash'') \<noteq> None" by code_simp+
  then show ?thesis
    using false_name_hides_nothing[OF refl, where given = "''harmless''" and operands = "[''flush'', ''ruleset'']" and exe = "''/usr/sbin/nft''"]
      false_name_hides_nothing[OF refl, where given = "''harmless''" and operands = "[''flush'', ''ruleset'']" and exe = "''/usr/bin/dash''"]
    by blast
qed

text \<open>
  A false name lowers a finding. The names are tried in order, the given one first, and the first finding
  is returned: a service that starts a shell under the name of an interpreter is reported as one that started
  an interpreter, at 0.75 in place of 0.95.
\<close>

theorem false_name_lowers_finding:
  assumes "base_name (trim parent_comm) \<in> set NETWORK_SERVICES" "base_name exe \<in> set SHELLS" "given \<in> set INTERPRETERS"
  shows "lineage_classify parent_comm (base_name exe) = Some \<lparr>lh_rule_id = ''lineage.service_spawned_shell'', lh_severity = to_f32 (95 / 100)\<rparr> \<and>
    classify_exec parent_comm exe (given # rest) =
      Some \<lparr>lh_rule_id = ''lineage.service_spawned_interpreter'', lh_severity = to_f32 (75 / 100)\<rparr>"
proof -
  have "list_all (\<lambda>a. base_name (trim a) = a \<and> base_name a = a \<and> \<not> is_dashed a \<and> a \<noteq> [] \<and> a \<notin> set SHELLS \<and>
      a \<notin> set NETWORK_TOOLS \<and> is_interpreter a) INTERPRETERS" "list_all (\<lambda>a. base_name (trim a) = a \<and> a \<noteq> []) SHELLS"
    by code_simp+
  then have "base_name (trim given) = given \<and> base_name given = given \<and> \<not> is_dashed given \<and> given \<noteq> [] \<and>
      given \<notin> set SHELLS \<and> given \<notin> set NETWORK_TOOLS \<and> is_interpreter given"
    "base_name (trim (base_name exe)) = base_name exe \<and> base_name exe \<noteq> []"
    using assms(2,3) by (simp_all only: list_all_iff) blast+
  moreover have "base_name (trim parent_comm) \<noteq> []" using assms(1) unfolding NETWORK_SERVICES_def by auto
  ultimately show ?thesis using assms by (simp add: lineage_classify_def classify_exec_def names_def Let_def)
qed

theorem false_name_lowers_finding_witness:
  "lineage_classify ''nginx'' (base_name ''/usr/bin/dash'') = Some \<lparr>lh_rule_id = ''lineage.service_spawned_shell'', lh_severity = to_f32 (95 / 100)\<rparr> \<and>
   classify_exec ''nginx'' ''/usr/bin/dash'' [''php'', ''-i''] =
     Some \<lparr>lh_rule_id = ''lineage.service_spawned_interpreter'', lh_severity = to_f32 (75 / 100)\<rparr>"
proof -
  have "base_name (trim ''nginx'') \<in> set NETWORK_SERVICES" "base_name ''/usr/bin/dash'' \<in> set SHELLS" "''php'' \<in> set INTERPRETERS"
    by code_simp+
  then show ?thesis by (rule false_name_lowers_finding)
qed

section \<open>Stopping a security service\<close>

definition UNIT_SUFFIXES :: "string list" where
  "UNIT_SUFFIXES = [[], ''.service'', ''.socket'', ''.timer'', ''.target'']"

lemma strip_suffix_SomeD: "strip_suffix suf s = Some r \<Longrightarrow> s = r @ suf"
  by (auto simp: strip_suffix_def split: if_splits) (metis append_take_drop_id)

lemma takeWhile_sep: "c \<notin> set x \<Longrightarrow> takeWhile (\<lambda>d. d \<noteq> c) (x @ c # y) = x"
  by (induction x) auto

lemma unit_stem_template:
  assumes "CHR ''@'' \<notin> set s"
  shows "unit_stem (s @ CHR ''@'' # inst) = s"
proof -
  note tw = takeWhile_sep[OF assms]
  show ?thesis
  proof (cases "find_map (\<lambda>suf. strip_suffix suf (s @ CHR ''@'' # inst)) [''.service'', ''.socket'', ''.timer'', ''.target'']")
    case (Some r)
    from find_map_Some[OF this] obtain suf where suf: "suf \<in> set [''.service'', ''.socket'', ''.timer'', ''.target'']"
      "strip_suffix suf (s @ CHR ''@'' # inst) = Some r" by blast
    note split = strip_suffix_SomeD[OF suf(2)]
    have "CHR ''@'' \<notin> set suf" using suf(1) by auto
    moreover have "CHR ''@'' \<in> set (r @ suf)" unfolding split[symmetric] by simp
    ultimately have "CHR ''@'' \<in> set r" by simp
    then obtain a b where r: "r = a @ CHR ''@'' # b" "CHR ''@'' \<notin> set a" by (metis split_list_first)
    have "s = takeWhile (\<lambda>d. d \<noteq> CHR ''@'') (r @ suf)" unfolding split[symmetric] by (rule tw[symmetric])
    also have "\<dots> = a" unfolding r(1) append.assoc append_Cons by (rule takeWhile_sep[OF r(2)])
    finally have "s = takeWhile (\<lambda>d. d \<noteq> CHR ''@'') r" unfolding r(1) takeWhile_sep[OF r(2)] .
    then show ?thesis unfolding unit_stem_def Some Let_def option.case by (rule sym)
  qed (simp add: unit_stem_def tw)
qed

lemma unit_stem_plain: "s \<in> set SECURITY_SERVICES \<Longrightarrow> suf \<in> set UNIT_SUFFIXES \<Longrightarrow> unit_stem (s @ suf) = s"
proof -
  have "list_all (\<lambda>s. list_all (\<lambda>suf. unit_stem (s @ suf) = s) UNIT_SUFFIXES) SECURITY_SERVICES" by code_simp
  then show "s \<in> set SECURITY_SERVICES \<Longrightarrow> suf \<in> set UNIT_SUFFIXES \<Longrightarrow> unit_stem (s @ suf) = s" by (simp add: list_all_iff)
qed

definition names_unit :: "string \<Rightarrow> string \<Rightarrow> bool" where
  "names_unit s u \<longleftrightarrow> (\<exists>suf \<in> set UNIT_SUFFIXES. u = s @ suf) \<or> (\<exists>inst. u = s @ CHR ''@'' # inst)"

lemma unit_stem_names:
  assumes "s \<in> set SECURITY_SERVICES" "names_unit s u"
  shows "unit_stem u = s"
proof -
  have "list_all (\<lambda>s. CHR ''@'' \<notin> set s) SECURITY_SERVICES" by code_simp
  then have "CHR ''@'' \<notin> set s" using assms(1) unfolding list_all_iff by blast
  then show ?thesis using assms unit_stem_template unit_stem_plain by (auto simp: names_unit_def)
qed

lemma stopping_found:
  assumes "verb \<in> set STOPPING_VERBS" "filter (\<lambda>a. \<not> is_dashed a) operands = verb # units" "u \<in> set units"
    and "s \<in> set SECURITY_SERVICES" "names_unit s u"
  shows "classify_named ''systemctl'' operands = Some (defense_finding SERVICE_RULE_ID 90)"
proof -
  have "find (\<lambda>stem. stem \<in> set SECURITY_SERVICES) (map unit_stem units) \<noteq> None"
    using assms(3,4) unit_stem_names[OF assms(4,5)] by (auto simp: find_None_iff)
  then show ?thesis using assms(1,2) by (auto simp: classify_named_def service_control_def Let_def)
qed

end
