(* ===== verification/Escalation.thy ===== *)
theory Escalation
  imports Provenance Bounded_Map Exec_Args
begin

text \<open>
  Privilege transitions and reconnaissance, \<open>bowery-analysis/src/escalation.rs\<close>. A transition is judged from
  the uids of a process and its parent and from what is known of the helper between them; the tracker of
  discovery bursts counts the different reconnaissance commands of a parent within a window. Instants are
  readings of a monotonic clock in nanoseconds, and their differences saturate at zero.
\<close>

section \<open>Transitions to root\<close>

record escalation_hit =
  eh_rule_id :: string
  eh_severity :: f32

definition uid_transition :: "u32 \<Rightarrow> u32 option \<Rightarrow> provenance \<Rightarrow> bool \<Rightarrow> bool \<Rightarrow> escalation_hit option" where
  "uid_transition child_uid parent_uid prov exe_is_setuid parent_is_privilege_helper =
     (if child_uid \<noteq> 0 then None
      else case parent_uid of None \<Rightarrow> None
        | Some u \<Rightarrow>
            if u = 0 then None
            else if parent_is_privilege_helper then None
            else if exe_is_setuid \<and> prov = PackagedIntact then None
            else if exe_is_setuid
            then Some \<lparr>eh_rule_id = ''privesc.uid_transition_untrusted_setuid'', eh_severity = to_f32 (95 / 100)\<rparr>
            else Some \<lparr>eh_rule_id = ''privesc.uid_transition_no_helper'', eh_severity = to_f32 (9 / 10)\<rparr>)"

section \<open>Discovery bursts\<close>

definition RECON :: "string list" where
  "RECON = [''whoami'', ''id'', ''groups'', ''logname'', ''hostname'', ''uname'', ''lsb_release'', ''hostnamectl'', ''dmidecode'', ''lscpu'',
     ''w'', ''who'', ''users'', ''last'', ''lastlog'', ''finger'', ''ps'', ''pstree'', ''top'', ''lsof'', ''systemctl'', ''service'',
     ''netstat'', ''ss'', ''ifconfig'', ''ip'', ''route'', ''arp'', ''iptables'', ''nft'', ''dig'', ''nslookup'', ''host'',
     ''mount'', ''df'', ''lsblk'', ''blkid'', ''findmnt'', ''dpkg'', ''rpm'', ''apt'', ''yum'', ''crontab'', ''getent'', ''getcap'', ''sestatus'']"

definition DISCOVERY_RULE_ID :: string where "DISCOVERY_RULE_ID = ''discovery.recon_burst''"

record discovery_tracker =
  dt_inner :: "(u32 \<times> (nat \<times> string) list) list"
  dt_window :: nat
  dt_threshold :: nat
  dt_max_tracked :: nat

definition tracker_new :: "nat \<Rightarrow> nat \<Rightarrow> discovery_tracker" where
  "tracker_new window threshold = \<lparr>dt_inner = [], dt_window = window, dt_threshold = max threshold 2, dt_max_tracked = 1024\<rparr>"

definition observe_exec :: "u32 \<Rightarrow> string \<Rightarrow> nat \<Rightarrow> discovery_tracker \<Rightarrow> string list option \<times> discovery_tracker" where
  "observe_exec parent_pid exe_or_comm now tr =
     (let name = base_name exe_or_comm in
      if name \<notin> set RECON then (None, tr)
      else let inner = empty_if_full (dt_max_tracked tr) parent_pid (dt_inner tr);
               kept = filter (\<lambda>(since, _). now - since < dt_window tr) (case map_of inner parent_pid of None \<Rightarrow> [] | Some l \<Rightarrow> l);
               seen = (if name \<in> snd ` set kept then kept else kept @ [(now, name)])
           in if length seen < dt_threshold tr then (None, tr\<lparr>dt_inner := AList.update parent_pid seen inner\<rparr>)
              else (Some (map snd seen), tr\<lparr>dt_inner := AList.delete parent_pid inner\<rparr>))"

section \<open>Sequences of execs\<close>

type_synonym recon_obs = "u32 \<times> string \<times> nat"

text \<open>The bursts reported while execs are observed, each with its parent and time, and the tracker in the end.\<close>

fun tracker_run :: "recon_obs list \<Rightarrow> discovery_tracker \<Rightarrow> (u32 \<times> nat \<times> string list) list \<times> discovery_tracker" where
  "tracker_run [] tr = ([], tr)"
| "tracker_run ((p, n, now) # obs) tr =
     (case observe_exec p n now tr of (r, tr1) \<Rightarrow>
        case tracker_run obs tr1 of (bs, tr2) \<Rightarrow> ((case r of None \<Rightarrow> bs | Some cmds \<Rightarrow> (p, now, cmds) # bs), tr2))"

definition recon_names :: "u32 \<Rightarrow> recon_obs list \<Rightarrow> string set" where
  "recon_names p obs = set (filter (\<lambda>c. c \<in> set RECON) (map (\<lambda>(_, n, _). base_name n) (filter (\<lambda>(q, _, _). q = p) obs)))"

lemma recon_names_Cons:
  "recon_names p ((q, n, t) # obs) =
     (if q = p \<and> base_name n \<in> set RECON then insert (base_name n) (recon_names p obs) else recon_names p obs)"
  unfolding recon_names_def by (simp del: set_filter set_map)

definition tracked :: "discovery_tracker \<Rightarrow> u32 \<Rightarrow> (nat \<times> string) list" where
  "tracked tr p = (case map_of (dt_inner tr) p of None \<Rightarrow> [] | Some l \<Rightarrow> l)"

text \<open>The effect of an observation on the commands tracked for a process, while the table does not overflow.\<close>

lemma observe_exec_frame:
  assumes "observe_exec p n now tr = (r, tr1)"
  shows "dt_window tr1 = dt_window tr" "dt_threshold tr1 = dt_threshold tr" "dt_max_tracked tr1 = dt_max_tracked tr"
  using assms by (auto simp: observe_exec_def Let_def split: if_splits)

lemma observe_exec_keys:
  assumes "observe_exec p n now tr = (r, tr1)" "distinct (map fst (dt_inner tr))"
  shows "distinct (map fst (dt_inner tr1))" "fst ` set (dt_inner tr1) \<subseteq> insert p (fst ` set (dt_inner tr))"
proof -
  let ?i = "empty_if_full (dt_max_tracked tr) p (dt_inner tr)"
  have i: "distinct (map fst ?i)" "fst ` set ?i \<subseteq> fst ` set (dt_inner tr)" using assms(2) by (auto simp: empty_if_full_def)
  have del: "fst ` set (AList.delete p ?i) \<subseteq> fst ` set ?i" by (rule dom_delete_subset)
  have "dt_inner tr1 = dt_inner tr \<or> (\<exists>v. dt_inner tr1 = AList.update p v ?i) \<or> dt_inner tr1 = AList.delete p ?i"
    using assms(1) by (auto simp: observe_exec_def Let_def split: if_splits)
  moreover have "fst ` set (AList.update p v ?i) \<subseteq> insert p (fst ` set (dt_inner tr))" for v using i(2) by (auto simp only: dom_update)
  moreover have "fst ` set (AList.delete p ?i) \<subseteq> insert p (fst ` set (dt_inner tr))" using i(2) del by (meson subset_insertI2 subset_trans)
  ultimately show "distinct (map fst (dt_inner tr1))" "fst ` set (dt_inner tr1) \<subseteq> insert p (fst ` set (dt_inner tr))"
    using i(1) assms(2) by (metis distinct_update distinct_delete, metis subset_insertI)
qed

lemma observe_exec_tracked:
  assumes "observe_exec p n now tr = (r, tr1)" "empty_if_full (dt_max_tracked tr) p (dt_inner tr) = dt_inner tr"
  shows "q \<noteq> p \<Longrightarrow> tracked tr1 q = tracked tr q"
    and "base_name n \<notin> set RECON \<Longrightarrow> r = None \<and> tr1 = tr"
    and "base_name n \<in> set RECON \<Longrightarrow>
      (let kept = filter (\<lambda>(since, _). now - since < dt_window tr) (tracked tr p);
           seen = (if base_name n \<in> snd ` set kept then kept else kept @ [(now, base_name n)])
       in if length seen < dt_threshold tr then r = None \<and> tracked tr1 p = seen else r = Some (map snd seen) \<and> tracked tr1 p = [])"
  using assms by (auto simp: observe_exec_def tracked_def Let_def update_conv' delete_conv' split: if_splits)

section \<open>Bursts are found\<close>

lemma burst_found:
  assumes "distinct (map fst (dt_inner tr))" "fst ` set (dt_inner tr) \<union> fst ` set obs \<subseteq> K" "finite K" "card K \<le> dt_max_tracked tr"
    and "\<forall>(since, _) \<in> set (tracked tr p). start \<le> since" "length (tracked tr p) < dt_threshold tr"
    and "\<forall>(q, n, t) \<in> set obs. q = p \<longrightarrow> start \<le> t \<and> t < start + dt_window tr"
    and "dt_threshold tr \<le> card (snd ` set (tracked tr p) \<union> recon_names p obs)"
  shows "\<exists>t cmds. (p, t, cmds) \<in> set (fst (tracker_run obs tr))"
  using assms
proof (induction obs arbitrary: tr)
  case Nil
  then have "dt_threshold tr \<le> card (snd ` set (tracked tr p))" by (simp add: recon_names_def)
  also have "\<dots> \<le> length (tracked tr p)" by (metis card_length length_map set_map)
  finally show ?case using Nil.prems(6) by simp
next
  case (Cons ob obs)
  obtain q n now where ob: "ob = (q, n, now)" by (cases ob)
  obtain r tr1 where o1: "observe_exec q n now tr = (r, tr1)" by fastforce
  have fits: "empty_if_full (dt_max_tracked tr) q (dt_inner tr) = dt_inner tr"
    using Cons.prems(1-4) ob by (intro empty_if_full_fits) auto
  note fr = observe_exec_frame[OF o1] and ks = observe_exec_keys[OF o1 Cons.prems(1)] and tk = observe_exec_tracked[OF o1 fits]
  have keys: "fst ` set (dt_inner tr1) \<union> fst ` set obs \<subseteq> K" using ks(2) Cons.prems(2) ob by auto
  have run: "r \<noteq> None \<and> q = p \<or> (\<exists>t cmds. (p, t, cmds) \<in> set (fst (tracker_run obs tr1))) \<Longrightarrow> ?case"
    by (auto simp: ob o1 split: option.splits prod.splits) fastforce+
  have IH: "\<exists>t cmds. (p, t, cmds) \<in> set (fst (tracker_run obs tr1))"
    if "\<forall>(since, _) \<in> set (tracked tr1 p). start \<le> since" "length (tracked tr1 p) < dt_threshold tr"
      "snd ` set (tracked tr1 p) \<union> recon_names p obs = snd ` set (tracked tr p) \<union> recon_names p (ob # obs)"
    using that Cons.prems(3,4,7,8) by (intro Cons.IH[OF ks(1) keys]) (simp_all add: fr)
  show ?case
  proof (cases "q = p \<and> base_name n \<in> set RECON")
    case False
    then have "recon_names p (ob # obs) = recon_names p obs" by (auto simp: recon_names_Cons ob)
    moreover have "tracked tr1 p = tracked tr p" using False tk(1)[of p] tk(2) by metis
    ultimately show ?thesis using IH Cons.prems(5,6) by (intro run disjI2) simp
  next
    case True
    then have names: "recon_names p (ob # obs) = insert (base_name n) (recon_names p obs)" by (simp add: recon_names_Cons ob)
    have now: "start \<le> now" "now < start + dt_window tr" using Cons.prems(7) True ob by auto
    have kept: "filter (\<lambda>(since, _). now - since < dt_window tr) (tracked tr p) = tracked tr p"
      using Cons.prems(5) now by (auto simp: filter_id_conv)
    define seen where "seen = (if base_name n \<in> snd ` set (tracked tr p) then tracked tr p else tracked tr p @ [(now, base_name n)])"
    have seen: "snd ` set seen = insert (base_name n) (snd ` set (tracked tr p))" "\<forall>(since, _) \<in> set seen. start \<le> since"
      using Cons.prems(5) now by (auto simp: seen_def)
    have "if length seen < dt_threshold tr then r = None \<and> tracked tr1 p = seen else r = Some (map snd seen)"
      using tk(3) True unfolding Let_def by (simp only: kept seen_def[symmetric] split: if_splits) auto
    then show ?thesis using IH seen names True by (cases "length seen < dt_threshold tr") (auto intro!: run)
  qed
qed

text \<open>
  C17. A burst is reported, whatever runs beside it. Let a process that the tracker does not follow yet start
  as many different reconnaissance commands as the threshold asks for, all within one window, with repeats
  and other programs in between and with other processes doing the same, of which the table can hold all.
  Then a burst of this process is reported.
\<close>

theorem recon_burst_is_reported:
  assumes "distinct (map fst (dt_inner tr))" "map_of (dt_inner tr) p = None" "0 < dt_threshold tr"
    and "card (fst ` set (dt_inner tr) \<union> fst ` set obs) \<le> dt_max_tracked tr"
    and "\<forall>(q, n, t) \<in> set obs. q = p \<longrightarrow> start \<le> t \<and> t < start + dt_window tr"
    and "dt_threshold tr \<le> card (recon_names p obs)"
  shows "\<exists>t cmds. (p, t, cmds) \<in> set (fst (tracker_run obs tr))"
  by (rule burst_found[where K = "fst ` set (dt_inner tr) \<union> fst ` set obs" and start = start])
    (use assms in \<open>simp_all add: tracked_def\<close>)

theorem recon_burst_is_reported_witness:
  "\<exists>t cmds. (7, t, cmds) \<in> set (fst (tracker_run [(7, ''/usr/bin/id'', 0), (9, ''w'', 1), (7, ''/usr/bin/id'', 2), (7, ''w'', 3)] (tracker_new 60 2)))"
proof (rule recon_burst_is_reported[where start = 0])
  show "dt_threshold (tracker_new 60 2) \<le> card (recon_names 7 [(7, ''/usr/bin/id'', 0), (9, ''w'', 1), (7, ''/usr/bin/id'', 2), (7, ''w'', 3)])"
    by code_simp
  show "card (fst ` set (dt_inner (tracker_new 60 2)) \<union>
      fst ` set [(7 :: u32, ''/usr/bin/id'', 0 :: nat), (9, ''w'', 1), (7, ''/usr/bin/id'', 2), (7, ''w'', 3)]) \<le> dt_max_tracked (tracker_new 60 2)"
    by (simp add: tracker_new_def card_insert_if)
qed (simp_all add: tracker_new_def)

section \<open>Bursts are real\<close>

definition observed_in :: "recon_obs list \<Rightarrow> discovery_tracker \<Rightarrow> bool" where
  "observed_in obs tr \<longleftrightarrow> (\<forall>p l. map_of (dt_inner tr) p = Some l \<longrightarrow> distinct (map snd l) \<and>
     (\<forall>(t, c) \<in> set l. \<exists>n. (p, n, t) \<in> set obs \<and> base_name n = c \<and> c \<in> set RECON))"

lemma observe_exec_observed:
  assumes "observed_in obs tr" "observe_exec p n now tr = (r, tr1)"
  shows "observed_in (obs @ [(p, n, now)]) tr1"
    and "r = Some cmds \<Longrightarrow> distinct cmds \<and> dt_threshold tr \<le> length cmds \<and>
      (\<forall>c \<in> set cmds. c \<in> set RECON \<and> (\<exists>m t. (p, m, t) \<in> set (obs @ [(p, n, now)]) \<and> base_name m = c \<and> now - t < max 1 (dt_window tr)))"
proof -
  let ?inner = "empty_if_full (dt_max_tracked tr) p (dt_inner tr)"
  define kept where "kept = filter (\<lambda>(since, _). now - since < dt_window tr) (case map_of ?inner p of None \<Rightarrow> [] | Some l \<Rightarrow> l)"
  define seen where "seen = (if base_name n \<in> snd ` set kept then kept else kept @ [(now, base_name n)])"
  have old: "distinct (map snd l) \<and> (\<forall>(t, c) \<in> set l. \<exists>n. (q, n, t) \<in> set obs \<and> base_name n = c \<and> c \<in> set RECON)"
    if "map_of ?inner q = Some l" for q l
    using map_of_empty_if_full_Some[OF that] assms(1) by (auto simp: observed_in_def)
  have kept: "distinct (map snd kept)" "\<forall>(t, c) \<in> set kept. now - t < dt_window tr \<and> (\<exists>n. (p, n, t) \<in> set obs \<and> base_name n = c \<and> c \<in> set RECON)"
  proof -
    show "distinct (map snd kept)" using old[of p] by (auto simp: kept_def distinct_map_filter split: option.split)
    show "\<forall>(t, c) \<in> set kept. now - t < dt_window tr \<and> (\<exists>n. (p, n, t) \<in> set obs \<and> base_name n = c \<and> c \<in> set RECON)"
    proof (cases "map_of ?inner p")
      case (Some l)
      with old[OF Some] show ?thesis by (auto simp: kept_def)
    qed (simp add: kept_def)
  qed
  have seen: "distinct (map snd seen)" using kept(1) by (auto simp: seen_def)
  have real: "now - t < max 1 (dt_window tr) \<and> (\<exists>m. (p, m, t) \<in> set (obs @ [(p, n, now)]) \<and> base_name m = c \<and> c \<in> set RECON)"
    if "base_name n \<in> set RECON" "(t, c) \<in> set seen" for t c
  proof (cases "(t, c) \<in> set kept")
    case True
    from bspec[OF kept(2) this] have k: "now - t < dt_window tr" "\<exists>m. (p, m, t) \<in> set obs \<and> base_name m = c \<and> c \<in> set RECON"
      by (simp_all only: prod.case)
    then have "now - t < max 1 (dt_window tr)" by linarith
    moreover have "set obs \<subseteq> set (obs @ [(p, n, now)])" by auto
    moreover obtain m where "(p, m, t) \<in> set obs" "base_name m = c" "c \<in> set RECON" using k(2) by blast
    ultimately show ?thesis by (intro conjI exI[of _ m]) auto
  next
    case False
    then have "t = now" "c = base_name n" using that(2) by (simp_all add: seen_def split: if_splits)
    moreover have "(p, n, now) \<in> set (obs @ [(p, n, now)])" by simp
    moreover have "now - now < max 1 (dt_window tr)" by simp
    ultimately show ?thesis using that(1) by blast
  qed
  have res: "(r, tr1) = (if base_name n \<notin> set RECON then (None, tr)
     else if length seen < dt_threshold tr then (None, tr\<lparr>dt_inner := AList.update p seen ?inner\<rparr>)
     else (Some (map snd seen), tr\<lparr>dt_inner := AList.delete p ?inner\<rparr>))"
    using assms(2) by (simp only: observe_exec_def Let_def kept_def[symmetric] seen_def[symmetric])
  show "observed_in (obs @ [(p, n, now)]) tr1"
  proof (cases "base_name n \<in> set RECON")
    case False
    then show ?thesis using res assms(1) by (fastforce simp: observed_in_def)
  next
    case True
    have upd: "distinct (map snd l) \<and> (\<forall>(t, c) \<in> set l. \<exists>m. (q, m, t) \<in> set (obs @ [(p, n, now)]) \<and> base_name m = c \<and> c \<in> set RECON)"
      if "map_of (dt_inner tr1) q = Some l" for q l
    proof -
      have "q = p \<and> l = seen \<or> map_of ?inner q = Some l"
        using that res True by (auto simp: update_conv' delete_conv' split: if_splits)
      then show ?thesis
      proof
        assume "q = p \<and> l = seen"
        then show ?thesis using seen real[OF True] by blast
      next
        assume "map_of ?inner q = Some l"
        note o = old[OF this]
        have "case x of (t, c) \<Rightarrow> \<exists>m. (q, m, t) \<in> set (obs @ [(p, n, now)]) \<and> base_name m = c \<and> c \<in> set RECON" if "x \<in> set l" for x
          using bspec[OF conjunct2[OF o] that] by (cases x) auto
        then show ?thesis using conjunct1[OF o] by blast
      qed
    qed
    then show ?thesis by (simp only: observed_in_def) blast
  qed
  assume "r = Some cmds"
  then have "base_name n \<in> set RECON" "cmds = map snd seen" "dt_threshold tr \<le> length seen" using res by (auto split: if_splits)
  then show "distinct cmds \<and> dt_threshold tr \<le> length cmds \<and>
      (\<forall>c \<in> set cmds. c \<in> set RECON \<and> (\<exists>m t. (p, m, t) \<in> set (obs @ [(p, n, now)]) \<and> base_name m = c \<and> now - t < max 1 (dt_window tr)))"
    using seen real by (simp only: length_map set_map) (metis (no_types, lifting) imageE prod.collapse)
qed

lemma tracker_run_append:
  "tracker_run (xs @ ys) tr = (case tracker_run xs tr of (bs, tr1) \<Rightarrow> case tracker_run ys tr1 of (cs, tr2) \<Rightarrow> (bs @ cs, tr2))"
  by (induction xs tr rule: tracker_run.induct) (auto split: prod.split option.split)

lemma tracker_run_frame: "dt_window (snd (tracker_run obs tr)) = dt_window tr" "dt_threshold (snd (tracker_run obs tr)) = dt_threshold tr"
  by (induction obs tr rule: tracker_run.induct) (auto dest: observe_exec_frame split: prod.split)

lemma tracker_run_observed: "observed_in obs (snd (tracker_run obs (tracker_new w k)))"
proof (induction obs rule: rev_induct)
  case Nil
  then show ?case by (simp add: observed_in_def tracker_new_def)
next
  case (snoc ob obs)
  obtain p n now where ob: "ob = (p, n, now)" by (cases ob)
  obtain r tr1 where "observe_exec p n now (snd (tracker_run obs (tracker_new w k))) = (r, tr1)" by fastforce
  from observe_exec_observed(1)[OF snoc this] this show ?case
    by (simp add: ob tracker_run_append split_beta split: option.split)
qed

text \<open>
  A reported burst is real: it names at least as many commands as the threshold, all different and all
  reconnaissance, and each was run by this process within the window before the report.
\<close>

theorem recon_burst_is_real:
  assumes "observe_exec p n now (snd (tracker_run obs (tracker_new window threshold))) = (Some cmds, tr)" "0 < window"
  shows "distinct cmds \<and> max threshold 2 \<le> length cmds \<and>
    (\<forall>c \<in> set cmds. c \<in> set RECON \<and> (\<exists>m t. (p, m, t) \<in> set (obs @ [(p, n, now)]) \<and> base_name m = c \<and> now - t < window))"
proof -
  have "max 1 window = window" using assms(2) by simp
  then show ?thesis
    using observe_exec_observed(2)[OF tracker_run_observed assms(1) refl] tracker_run_frame[of obs "tracker_new window threshold"]
    by (simp add: tracker_new_def)
qed

theorem recon_burst_is_real_witness:
  "\<exists>cmds tr. observe_exec 7 ''w'' 3 (snd (tracker_run [(7, ''/usr/bin/id'', 0)] (tracker_new 60 2))) = (Some cmds, tr) \<and>
     distinct cmds \<and> max 2 2 \<le> length cmds"
proof -
  have r: "''w'' \<in> set RECON" "''id'' \<in> set RECON" "base_name ''w'' = ''w''" "base_name ''/usr/bin/id'' = ''id''" by code_simp+
  have "fst (observe_exec 7 ''w'' 3 (snd (tracker_run [(7, ''/usr/bin/id'', 0)] (tracker_new 60 2)))) = Some [''id'', ''w'']"
    by (auto simp: observe_exec_def tracker_new_def empty_if_full_def Let_def r)
  then obtain tr where o: "observe_exec 7 ''w'' 3 (snd (tracker_run [(7, ''/usr/bin/id'', 0)] (tracker_new 60 2))) = (Some [''id'', ''w''], tr)"
    by (metis prod.collapse)
  from recon_burst_is_real[OF this] o show ?thesis by auto
qed

text \<open>A report clears the history of the process, so the same commands are reported again within the same window.\<close>

lemma burst_clears: "observe_exec p n now tr = (Some cmds, tr1) \<Longrightarrow> tracked tr1 p = []"
  by (auto simp: observe_exec_def tracked_def Let_def delete_conv' split: if_splits)

text \<open>
  A repeated command can hide a burst. The tracker keeps the time a command was first seen and does not
  renew it. Five different commands within one second are not a burst under the default of five when one of
  them was also run a minute before: its entry expires, although the command was repeated since.
\<close>

theorem repeat_hides_burst:
  assumes "distinct [a, b, c, d, e]" "set [a, b, c, d, e] \<subseteq> set RECON" "list_all (\<lambda>x. base_name x = x) [a, b, c, d, e]" "0 < w"
  shows "fst (tracker_run [(p, a, 0), (p, a, w - 1), (p, b, w), (p, c, w), (p, d, w), (p, e, w)] (tracker_new w 5)) = []"
proof -
  let ?tr = "\<lambda>l. \<lparr>dt_inner = [(p, l)], dt_window = w, dt_threshold = 5, dt_max_tracked = 1024\<rparr>"
  have names: "base_name a = a" "base_name b = b" "base_name c = c" "base_name d = d" "base_name e = e"
    and recon: "a \<in> set RECON" "b \<in> set RECON" "c \<in> set RECON" "d \<in> set RECON" "e \<in> set RECON"
    and diff: "b \<noteq> c" "b \<noteq> d" "b \<noteq> e" "c \<noteq> d" "c \<noteq> e" "d \<noteq> e" using assms(1-3) by auto
  have step: "observe_exec p n t (?tr l) = (None, ?tr (l' @ (if n \<in> snd ` set l' then [] else [(t, n)])))"
    if "base_name n = n" "n \<in> set RECON" "filter (\<lambda>(since, _). t - since < w) l = l'" "length l' < 4" for n t l l'
    using that by (auto simp: observe_exec_def Let_def empty_if_full_def)
  have "observe_exec p a 0 (tracker_new w 5) = (None, ?tr [(0, a)])"
    by (simp add: observe_exec_def tracker_new_def empty_if_full_def Let_def names recon)
  moreover have "observe_exec p a (w - 1) (?tr [(0, a)]) = (None, ?tr [(0, a)])"
    using step[of a "w - 1" "[(0, a)]" "[(0, a)]"] assms(4) names recon by simp
  moreover have "observe_exec p b w (?tr [(0, a)]) = (None, ?tr [(w, b)])" using step[of b w "[(0, a)]" "[]"] names recon by simp
  moreover have "observe_exec p c w (?tr [(w, b)]) = (None, ?tr [(w, b), (w, c)])"
    using step[of c w "[(w, b)]" "[(w, b)]"] assms(4) names recon diff by simp
  moreover have "observe_exec p d w (?tr [(w, b), (w, c)]) = (None, ?tr [(w, b), (w, c), (w, d)])"
    using step[of d w "[(w, b), (w, c)]" "[(w, b), (w, c)]"] assms(4) names recon diff by simp
  moreover have "observe_exec p e w (?tr [(w, b), (w, c), (w, d)]) = (None, ?tr [(w, b), (w, c), (w, d), (w, e)])"
    using step[of e w "[(w, b), (w, c), (w, d)]" "[(w, b), (w, c), (w, d)]"] assms(4) names recon diff by simp
  ultimately show ?thesis by simp
qed

theorem repeat_hides_burst_witness:
  "fst (tracker_run [(7, ''id'', 0), (7, ''id'', 59), (7, ''w'', 60), (7, ''ps'', 60), (7, ''ss'', 60), (7, ''df'', 60)] (tracker_new 60 5)) = []"
proof -
  have "set [''id'', ''w'', ''ps'', ''ss'', ''df''] \<subseteq> set RECON" "list_all (\<lambda>x. base_name x = x) [''id'', ''w'', ''ps'', ''ss'', ''df'']"
    by code_simp+
  from repeat_hides_burst[OF _ this, where w = 60 and p = 7] show ?thesis by simp
qed

end
