(* ===== verification/Exec_Path.thy ===== *)
theory Exec_Path
  imports Pipeline Escalation Seen
begin

text \<open>
  The way of an exec through \<open>process_exec\<close> of \<open>crates/bowery-agent/src/pipeline.rs\<close>: the verdict of the
  pre-filter, what provenance does to it, the findings folded into it (set-id files, rewritten packages,
  privilege transitions, reconnaissance, defences switched off, lineage), the baseline, and the routing to
  the model, to the neighbours and to the inbox. The checks for a privilege helper are those of \<open>agent.rs\<close> and
  \<open>pipeline.rs\<close>. Each reading of the world (\<open>/proc\<close>, digests and modes of files, clocks, failures) is a field
  of \<open>exec_env\<close>; the explanatory sentences are parameters.
\<close>

section \<open>State and surroundings\<close>

record exec_state =
  xs_pipe :: pipeline
  xs_baseline :: baseline
  xs_discovery :: discovery_tracker
  xs_described :: recently_seen
  xs_triggers :: "(string \<times> bytes \<times> verdict) list"
  xs_recorded :: "(bytes \<times> upsert_outcome) list"
  xs_analyzed :: "verdict list"

record exec_config =
  xc_pipe :: pipeline_config
  xc_analyzer :: analyzer
  xc_uid_transitions :: bool
  xc_discovery_bursts :: bool
  xc_defense_tampering :: bool
  xc_whisper_threshold :: f32
  xc_alert_threshold :: f32
  xc_platform :: string

datatype helper_check =
    SelfExecHelper string
  | Helper
  | ParentGone
  | NotSetuid string
  | NotPackaged string provenance

record exec_texts =
  xt_setid :: "string \<Rightarrow> string"
  xt_modified :: string
  xt_transition :: "string \<Rightarrow> u32 option \<Rightarrow> string"
  xt_helper :: "helper_check \<Rightarrow> string"
  xt_discovery :: "u32 \<Rightarrow> string list \<Rightarrow> string"
  xt_defense :: "string \<Rightarrow> string list \<Rightarrow> string"
  xt_lineage :: "string \<Rightarrow> string"

text \<open>How a helper's file is seen: owner and mode, its contents, and whether the blocking task is lost.\<close>

record helper_view =
  hv_mode :: "string \<Rightarrow> (u32 \<times> u32) option"
  hv_files :: file_view
  hv_lost :: bool

record exec_view =
  xv_cwd :: "string option"
  xv_ancestry :: "(u32 \<times> string) list"
  xv_open :: "(string list \<times> nat) option"
  xv_peers :: "string list"

record exec_env =
  xe_lower :: "string \<Rightarrow> string"
  xe_sha256 :: "bytes option"
  xe_lookup :: "string option"
  xe_analyze_lost :: bool
  xe_files :: file_view
  xe_classify_lost :: bool
  xe_mode :: "(u32 \<times> u32) option"
  xe_parent_uid :: "u32 option"
  xe_previous :: helper_view
  xe_parent_exe :: "string option"
  xe_parent :: helper_view
  xe_mono :: nat
  xe_hit_ms :: "nat \<Rightarrow> u64"
  xe_ms :: "nat \<Rightarrow> u64"
  xe_upsert_fails :: bool
  xe_upsert_time :: "nat option"
  xe_described_at :: nat
  xe_size :: "u64 option"
  xe_descriptor_fails :: bool
  xe_descriptor_time :: "nat option"
  xe_view :: exec_view
  xe_submit_ok :: bool
  xe_whisper_open :: bool

section \<open>Privilege helpers\<close>

fun is_helper :: "helper_check \<Rightarrow> bool" where
  "is_helper Helper = True"
| "is_helper (SelfExecHelper _) = True"
| "is_helper _ = False"

definition self_exec_privilege_helper :: "helper_view \<Rightarrow> process_exec \<Rightarrow> pipeline \<Rightarrow> helper_check option \<times> pipeline" where
  "self_exec_privilege_helper hv exec st =
     (case previous_exe (pl_procs st) (ev_pid exec) (ev_ts exec) of None \<Rightarrow> (None, st)
      | Some prev \<Rightarrow>
          (case setid_bits (hv_mode hv prev) of None \<Rightarrow> (None, st)
           | Some (setuid, _) \<Rightarrow>
               if \<not> setuid \<or> hv_lost hv then (None, st)
               else (case fv_sha256 (hv_files hv) prev of None \<Rightarrow> (None, st)
                 | Some sha \<Rightarrow>
                     (case cache_classify (fv_mtimes (hv_files hv)) (fv_md5 (hv_files hv) prev) prev sha (pl_packages st) of
                        (prov, pc) \<Rightarrow> (if is_privilege_helper True prov then Some (SelfExecHelper prev) else None, st\<lparr>pl_packages := pc\<rparr>)))))"

definition parent_privilege_helper :: "helper_view \<Rightarrow> string option \<Rightarrow> string option \<Rightarrow> pipeline \<Rightarrow> helper_check \<times> pipeline" where
  "parent_privilege_helper hv proc_exe remembered st =
     (case (case proc_exe of Some e \<Rightarrow> Some e | None \<Rightarrow> remembered) of None \<Rightarrow> (ParentGone, st)
      | Some e \<Rightarrow>
          (case setid_bits (hv_mode hv e) of None \<Rightarrow> (ParentGone, st)
           | Some (setuid, _) \<Rightarrow>
               if \<not> setuid then (NotSetuid e, st)
               else if hv_lost hv then (ParentGone, st)
               else (case fv_sha256 (hv_files hv) e of None \<Rightarrow> (ParentGone, st)
                 | Some sha \<Rightarrow>
                     (case cache_classify (fv_mtimes (hv_files hv)) (fv_md5 (hv_files hv) e) e sha (pl_packages st) of
                        (prov, pc) \<Rightarrow>
                          (if is_privilege_helper True prov then Helper else NotPackaged e prov, st\<lparr>pl_packages := pc\<rparr>)))))"

section \<open>Context and descriptors\<close>

definition exec_context :: "exec_view \<Rightarrow> process_exec \<Rightarrow> attribute list" where
  "exec_context xv exec =
     [attribute_new ''uid'' (dec (unat (ev_uid exec)))] @
     (if ev_args exec \<noteq> [] then [attribute_new ''cmdline'' (join_with '' '' (ev_args exec))] else []) @
     (case xv_cwd xv of None \<Rightarrow> [] | Some d \<Rightarrow> [attribute_new ''cwd'' d]) @
     (if xv_ancestry xv \<noteq> []
      then [attribute_new ''ancestry'' (join_with arrow
              (rev (pid_tag (ev_comm exec) (ev_pid exec) # map (\<lambda>(pid, comm). pid_tag comm pid) (xv_ancestry xv))))]
      else []) @
     (case xv_open xv of
        None \<Rightarrow> [attribute_new ''open_files'' (''not sampled '' @ em_dash @ '' the process had already exited'')]
      | Some (paths, sockets) \<Rightarrow>
          (if paths \<noteq> [] then [attribute_new ''open_files'' (join_with '', '' paths)] else []) @
          (if xv_peers xv \<noteq> [] then [attribute_new ''connections'' (join_with '', '' (xv_peers xv))]
           else if sockets \<noteq> 0 then [attribute_new ''connections'' (dec sockets @ '' socket(s), none resolvable to a TCP peer'')]
           else []))"

definition describe_binary :: "exec_config \<Rightarrow> exec_env \<Rightarrow> process_exec \<Rightarrow> pipeline \<Rightarrow> binary_descriptor" where
  "describe_binary cfg env exec st =
     \<lparr>bd_exe_path = ev_exe_path exec, bd_size_bytes = Option.bind (ev_exe_path exec) (\<lambda>_. xe_size env),
      bd_pkg = Option.bind (ev_exe_path exec) (package_for (pc_index (pl_packages st))), bd_platform = Some (xc_platform cfg)\<rparr>"

section \<open>Findings folded into the verdict\<close>

definition fold_verdict :: "string \<Rightarrow> f32 \<Rightarrow> string \<Rightarrow> verdict \<Rightarrow> verdict" where
  "fold_verdict r severity why v =
     v\<lparr>vd_suspicion := (if f32_less (vd_suspicion v) severity then severity else vd_suspicion v),
       vd_score := (vd_score v)\<lparr>bs_reason := bs_reason (vd_score v) @ '' | '' @ why\<rparr>,
       vd_rule_hits := vd_rule_hits v @ [\<lparr>rh_rule_id = r, rh_severity = from_weight severity, rh_reason = why\<rparr>]\<rparr>"

definition fold_finding :: "u64 \<Rightarrow> string \<Rightarrow> f32 \<Rightarrow> string \<Rightarrow> verdict \<times> pipeline \<Rightarrow> verdict \<times> pipeline" where
  "fold_finding now r severity why x = (fold_verdict r severity why (fst x), count_rule now r (snd x))"

fun count_hits :: "(nat \<Rightarrow> u64) \<Rightarrow> rule_hit list \<Rightarrow> pipeline \<Rightarrow> pipeline" where
  "count_hits ms [] st = st"
| "count_hits ms (h # hs) st = count_hits (\<lambda>i. ms (Suc i)) hs (count_rule (ms 0) (rh_rule_id h) st)"

text \<open>Provenance of the binary and what it does to the score; a lost task leaves both alone.\<close>

definition provenance_stage :: "exec_env \<Rightarrow> string \<Rightarrow> bytes \<Rightarrow> verdict \<times> pipeline \<Rightarrow> provenance \<times> verdict \<times> pipeline" where
  "provenance_stage env e sha x =
     (if xe_classify_lost env then (Unknown, x)
      else case cache_classify (fv_mtimes (xe_files env)) (fv_md5 (xe_files env) e) e sha (pl_packages (snd x)) of
        (prov, pc) \<Rightarrow>
          (case adjust_score (vd_suspicion (fst x)) prov of (adjusted, why) \<Rightarrow>
             (prov, (fst x)\<lparr>vd_suspicion := adjusted,
                vd_score := (vd_score (fst x))\<lparr>bs_reason := bs_reason (vd_score (fst x)) @ '' ('' @ why @ '')''\<rparr>\<rparr>,
              (snd x)\<lparr>pl_packages := pc\<rparr>)))"

definition setid_stage :: "exec_texts \<Rightarrow> exec_env \<Rightarrow> provenance \<Rightarrow> verdict \<times> pipeline \<Rightarrow> bool \<times> verdict \<times> pipeline" where
  "setid_stage tx env prov x =
     (case setid_bits (xe_mode env) of None \<Rightarrow> (False, x)
      | Some (setuid, setgid) \<Rightarrow>
          (case setid_finding setuid setgid prov of None \<Rightarrow> (False, x)
           | Some (r, severity) \<Rightarrow> (True, fold_finding (xe_ms env 0) r severity (xt_setid tx r) x)))"

definition modified_stage :: "exec_texts \<Rightarrow> exec_env \<Rightarrow> provenance \<Rightarrow> bool \<Rightarrow> verdict \<times> pipeline \<Rightarrow> verdict \<times> pipeline" where
  "modified_stage tx env prov setid_reported x =
     (if prov = PackagedModified \<and> \<not> setid_reported
      then fold_finding (xe_ms env 1) (fst modified_finding) (snd modified_finding) (xt_modified tx) x else x)"

definition uid_stage :: "exec_config \<Rightarrow> exec_texts \<Rightarrow> exec_env \<Rightarrow> process_exec \<Rightarrow> provenance \<Rightarrow> verdict \<times> pipeline \<Rightarrow> verdict \<times> pipeline" where
  "uid_stage cfg tx env exec prov x =
     (if \<not> (xc_uid_transitions cfg \<and> ev_uid exec = 0) then x
      else
        let (helper, st) =
          (if (case xe_parent_uid env of None \<Rightarrow> False | Some u \<Rightarrow> u \<noteq> 0)
           then (case self_exec_privilege_helper (xe_previous env) exec (snd x) of
                   (Some check, st) \<Rightarrow> (check, st)
                 | (None, st) \<Rightarrow>
                     parent_privilege_helper (xe_parent env) (xe_parent_exe env)
                       (remembered_parent_exe (pl_procs st) (ev_ppid exec) (ev_ts exec)) st)
           else (Helper, snd x))
        in case uid_transition (ev_uid exec) (xe_parent_uid env) prov
                  (case setid_bits (xe_mode env) of None \<Rightarrow> False | Some (setuid, _) \<Rightarrow> setuid) (is_helper helper) of
             None \<Rightarrow> (fst x, st)
           | Some hit \<Rightarrow>
               fold_finding (xe_ms env 2) (eh_rule_id hit) (eh_severity hit)
                 (xt_transition tx (eh_rule_id hit) (xe_parent_uid env) @ xt_helper tx helper) (fst x, st))"

definition discovery_stage ::
    "exec_config \<Rightarrow> exec_texts \<Rightarrow> exec_env \<Rightarrow> process_exec \<Rightarrow> (verdict \<times> pipeline) \<times> discovery_tracker \<Rightarrow> (verdict \<times> pipeline) \<times> discovery_tracker" where
  "discovery_stage cfg tx env exec y =
     (if \<not> xc_discovery_bursts cfg then y
      else case (case ev_exe_path exec of Some p \<Rightarrow> Some p | None \<Rightarrow> if ev_comm exec \<noteq> [] then Some (ev_comm exec) else None) of
        None \<Rightarrow> y
      | Some name \<Rightarrow>
          (case observe_exec (ev_ppid exec) name (xe_mono env) (snd y) of
             (None, tr) \<Rightarrow> (fst y, tr)
           | (Some cmds, tr) \<Rightarrow>
               (fold_finding (xe_ms env 3) DISCOVERY_RULE_ID (to_f32 (75 / 100)) (xt_discovery tx (ev_ppid exec) cmds) (fst y), tr)))"

definition defense_stage :: "exec_config \<Rightarrow> exec_texts \<Rightarrow> exec_env \<Rightarrow> process_exec \<Rightarrow> verdict \<times> pipeline \<Rightarrow> verdict \<times> pipeline" where
  "defense_stage cfg tx env exec x =
     (if \<not> xc_defense_tampering cfg then x
      else case ev_exe_path exec of None \<Rightarrow> x
        | Some e \<Rightarrow>
            (case defense_classify e (ev_args exec) of None \<Rightarrow> x
             | Some hit \<Rightarrow> fold_finding (xe_ms env 4) (dh_rule_id hit) (defense_severity hit) (xt_defense tx e (ev_args exec)) x))"

definition lineage_stage :: "exec_texts \<Rightarrow> exec_env \<Rightarrow> process_exec \<Rightarrow> verdict \<times> pipeline \<Rightarrow> verdict \<times> pipeline" where
  "lineage_stage tx env exec x =
     (if ev_parent_comm exec = [] then x
      else case ev_exe_path exec of None \<Rightarrow> x
        | Some child \<Rightarrow>
            (case classify_exec (ev_parent_comm exec) child (ev_args exec) of None \<Rightarrow> x
             | Some hit \<Rightarrow>
                 fold_finding (xe_ms env 5) (lh_rule_id hit) (lh_severity hit)
                   (ev_parent_comm exec @ '' spawned '' @ child @ '': '' @ xt_lineage tx (lh_rule_id hit)) x))"

definition prefilter :: "exec_config \<Rightarrow> exec_env \<Rightarrow> process_exec \<Rightarrow> bytes \<Rightarrow> exec_state \<Rightarrow> verdict" where
  "prefilter cfg env exec sha st = analyze (xe_lower env) (xe_lookup env) (xc_analyzer cfg) (xs_baseline st) (from_exec exec) sha"

text \<open>The verdict after provenance and before any finding is folded in.\<close>

definition settled :: "exec_config \<Rightarrow> exec_env \<Rightarrow> process_exec \<Rightarrow> string \<Rightarrow> bytes \<Rightarrow> exec_state \<Rightarrow> provenance \<times> verdict \<times> pipeline" where
  "settled cfg env exec e sha st =
     provenance_stage env e sha
       (prefilter cfg env exec sha st, count_hits (xe_hit_ms env) (vd_rule_hits (prefilter cfg env exec sha st)) (xs_pipe st))"

definition folded_exec :: "exec_config \<Rightarrow> exec_texts \<Rightarrow> exec_env \<Rightarrow> process_exec \<Rightarrow> provenance \<Rightarrow> verdict \<times> pipeline \<Rightarrow> discovery_tracker
    \<Rightarrow> (verdict \<times> pipeline) \<times> discovery_tracker" where
  "folded_exec cfg tx env exec prov x1 tr =
     (let (reported, x2) = setid_stage tx env prov x1
      in discovery_stage cfg tx env exec (uid_stage cfg tx env exec prov (modified_stage tx env prov reported x2), tr))"

text \<open>The verdict on an exec: the pre-filter and every stage after it.\<close>

definition judge_exec :: "exec_config \<Rightarrow> exec_texts \<Rightarrow> exec_env \<Rightarrow> process_exec \<Rightarrow> string \<Rightarrow> bytes \<Rightarrow> exec_state \<Rightarrow> verdict \<times> exec_state" where
  "judge_exec cfg tx env exec e sha st =
     (let (prov, x1) = settled cfg env exec e sha st;
          (x5, tr) = folded_exec cfg tx env exec prov x1 (xs_discovery st);
          x = lineage_stage tx env exec (defense_stage cfg tx env exec x5)
      in (fst x, st\<lparr>xs_pipe := snd x, xs_discovery := tr\<rparr>))"

section \<open>Routing\<close>

definition exec_alert :: "exec_config \<Rightarrow> exec_env \<Rightarrow> process_exec \<Rightarrow> bytes \<Rightarrow> verdict \<Rightarrow> alert" where
  "exec_alert cfg env exec sha v =
     builder_context (exec_context (xe_view env) exec)
       (builder_exe_sha256_hex (hex_lower sha) (builder_subject (case ev_exe_path exec of None \<Rightarrow> [] | Some p \<Rightarrow> p)
         (builder_raw (xe_ms env 6) (pf_originator_fp (xc_pipe cfg)) (pf_backend_label (xc_pipe cfg)) (leading_rule_id v)
           (vd_episode_id v) (vd_suspicion v)
           (case leading_rule_message v of None \<Rightarrow> ''pre-filter score above threshold'' | Some m \<Rightarrow> m))))"

definition describe_stage :: "exec_config \<Rightarrow> exec_env \<Rightarrow> process_exec \<Rightarrow> bytes \<Rightarrow> exec_state \<Rightarrow> exec_state" where
  "describe_stage cfg env exec sha st =
     (case check_and_record_seen (xe_described_at env) ''descriptor'' (hex_lower sha) (xs_described st) of
        (False, s) \<Rightarrow> st\<lparr>xs_described := s\<rparr>
      | (True, s) \<Rightarrow>
          st\<lparr>xs_described := s,
             xs_baseline := snd (record_descriptor (xe_descriptor_fails env) (xs_baseline st) sha
               (describe_binary cfg env exec (xs_pipe st)) (xe_descriptor_time env))\<rparr>)"

definition model_stage :: "exec_config \<Rightarrow> exec_env \<Rightarrow> verdict \<Rightarrow> pipeline \<Rightarrow> pipeline" where
  "model_stage cfg env v st =
     (if \<not> f32_le (xc_whisper_threshold cfg) (vd_suspicion v) \<and> f32_le (pf_llm_threshold (xc_pipe cfg)) (vd_suspicion v)
      then (if xe_submit_ok env then st\<lparr>pl_submitted := pl_submitted st @ [vd_episode_id v]\<rparr>
            else st\<lparr>pl_llm_shed := pl_llm_shed st @ [vd_episode_id v]\<rparr>)
      else st)"

definition alert_stage :: "exec_config \<Rightarrow> exec_env \<Rightarrow> process_exec \<Rightarrow> bytes \<Rightarrow> verdict \<Rightarrow> pipeline \<Rightarrow> pipeline" where
  "alert_stage cfg env exec sha v st =
     (if f32_le (xc_alert_threshold cfg) (vd_suspicion v)
      then snd (emit (xe_ms env 7) (exec_alert cfg env exec sha v) (vd_suspicion v) st) else st)"

definition route_stage :: "exec_config \<Rightarrow> exec_env \<Rightarrow> process_exec \<Rightarrow> bytes \<Rightarrow> verdict \<Rightarrow> exec_state \<Rightarrow> exec_state" where
  "route_stage cfg env exec sha v st =
     st\<lparr>xs_pipe := alert_stage cfg env exec sha v (model_stage cfg env v (xs_pipe st)),
        xs_triggers := (if f32_le (xc_whisper_threshold cfg) (vd_suspicion v) \<and> xe_whisper_open env
                        then xs_triggers st @ [(vd_episode_id v, sha, v)] else xs_triggers st),
        xs_analyzed := xs_analyzed st @ [v]\<rparr>"

definition process_exec_event :: "exec_config \<Rightarrow> exec_texts \<Rightarrow> exec_env \<Rightarrow> process_exec \<Rightarrow> exec_state \<Rightarrow> exec_state" where
  "process_exec_event cfg tx env exec st =
     (case ev_exe_path exec of None \<Rightarrow> st
      | Some e \<Rightarrow>
          (case xe_sha256 env of None \<Rightarrow> st
           | Some sha \<Rightarrow>
               if xe_analyze_lost env then st
               else (case judge_exec cfg tx env exec e sha st of (v, st1) \<Rightarrow>
                 (case upsert_binary (xe_upsert_fails env) (xs_baseline st1) sha (xe_upsert_time env) of
                    (None, _) \<Rightarrow> st1
                  | (Some outcome, b) \<Rightarrow>
                      route_stage cfg env exec sha v
                        ((describe_stage cfg env exec sha (st1\<lparr>xs_baseline := b\<rparr>))\<lparr>xs_recorded := xs_recorded st1 @ [(sha, outcome)]\<rparr>)))))"

section \<open>Scores along the way\<close>

lemma score_unit: "score (Fin 1) 1" "score (Fin 0) 0"
  by (simp_all add: score_def)

lemma score_one: "\<exists>q. score (Fin 1) q"
  using score_unit(1) by blast

lemma score_max:
  assumes "score a x" "score b y"
  shows "score (f32_max a b) (max x y)"
  using assms by (auto simp: score_def f32_max_def max_def)

lemma sev_weight_score: "\<exists>x. score (sev_weight v) x"
  by (cases v) (simp_all add: sev_weight.simps score_to_f32)

lemma rule_hits_weight_score: "\<exists>x. score (rule_hits_weight hits) x"
proof -
  have "\<exists>x. score (foldl f32_max a (map (\<lambda>h. sev_weight (rh_severity h)) hs)) x" if "\<exists>x. score a x" for a hs
    using that
  proof (induction hs arbitrary: a)
    case (Cons h hs)
    then show ?case using score_max sev_weight_score by (metis (no_types, lifting) foldl_Cons list.simps(9))
  qed simp
  then show ?thesis using score_unit(2) by (auto simp: rule_hits_weight_def)
qed

lemma score_or_default_score:
  assumes "1 / 2 \<le> k"
  shows "\<exists>x. score (bs_value (score_or_default lookup k b sha)) x"
proof -
  have "score (rarity k n) (rarity_rat k n)" if "n < 2 ^ 64" for n
  proof -
    let ?d = "f32_round (1 + f32_round (f32_round (of_nat n) / k))"
    have "f32_round (rarity_rat k n) = rarity_rat k n"
      unfolding rarity_rat_def using rarity_steps(3)[OF assms that] by (intro f32_round_idem) auto
    then show ?thesis using rarity_steps(5)[OF assms that] rarity_range[OF assms that] by (simp add: score_def)
  qed
  then have "\<exists>x. score (rarity k (unat (n :: u64))) x" for n using unsigned_less[of n] by auto
  then show ?thesis using score_unit(1) score_to_f32[of "1 / 2"] by (auto simp: score_or_default_def split: option.split)
qed

text \<open>A later verdict extends an earlier one: its score is no lower and its hits are more.\<close>

definition extends :: "verdict \<Rightarrow> verdict \<Rightarrow> bool" where
  "extends v w \<longleftrightarrow> vd_episode_id w = vd_episode_id v \<and> (\<exists>hs. vd_rule_hits w = vd_rule_hits v @ hs) \<and>
     (\<exists>x y. score (vd_suspicion v) x \<and> score (vd_suspicion w) y \<and> x \<le> y)"

lemma extends_refl: "\<exists>x. score (vd_suspicion v) x \<Longrightarrow> extends v v"
  by (auto simp: extends_def)

lemma extends_trans: "extends u v \<Longrightarrow> extends v w \<Longrightarrow> extends u w"
  unfolding extends_def by (metis append.assoc f32.inject(2) order_trans score_def)

lemma extends_scores: "extends v w \<Longrightarrow> (\<exists>x. score (vd_suspicion v) x) \<and> (\<exists>x. score (vd_suspicion w) x)"
  by (auto simp: extends_def)

lemma fold_verdict_extends:
  assumes "\<exists>x. score (vd_suspicion v) x" "score severity s"
  shows "extends v (fold_verdict r severity why v)" "\<exists>y. score (vd_suspicion (fold_verdict r severity why v)) y \<and> s \<le> y"
  using assms by (auto simp: extends_def fold_verdict_def score_def)

lemma fold_finding_simps [simp]:
  "fst (fold_finding now r severity why x) = fold_verdict r severity why (fst x)"
  "pl_inbox (snd (fold_finding now r severity why x)) = pl_inbox (snd x)"
  "pl_submitted (snd (fold_finding now r severity why x)) = pl_submitted (snd x)"
  "pl_llm_shed (snd (fold_finding now r severity why x)) = pl_llm_shed (snd x)"
  "pl_packages (snd (fold_finding now r severity why x)) = pl_packages (snd x)"
  by (simp_all add: fold_finding_def count_rule_def)

text \<open>What a stage does to a verdict and keeps of the pipeline.\<close>

definition folds :: "verdict \<times> pipeline \<Rightarrow> verdict \<times> pipeline \<Rightarrow> bool" where
  "folds x y \<longleftrightarrow> extends (fst x) (fst y) \<and> pl_inbox (snd y) = pl_inbox (snd x) \<and> pl_submitted (snd y) = pl_submitted (snd x) \<and>
     pl_llm_shed (snd y) = pl_llm_shed (snd x)"

lemma folds_refl: "\<exists>x. score (vd_suspicion (fst y)) x \<Longrightarrow> folds y y"
  by (simp add: folds_def extends_refl)

lemma folds_trans: "folds x y \<Longrightarrow> folds y z \<Longrightarrow> folds x z"
  by (auto simp: folds_def intro: extends_trans)

lemma folds_scores: "folds x y \<Longrightarrow> \<exists>q. score (vd_suspicion (fst y)) q"
  using extends_scores by (auto simp: folds_def)

lemma folds_finding:
  assumes "\<exists>q. score (vd_suspicion (fst x)) q" "\<exists>q. score severity q"
  shows "folds x (fold_finding now r severity why x)"
  using assms fold_verdict_extends(1)[OF assms(1)] by (auto simp: folds_def)

lemma setid_finding_score: "setid_finding a b prov = Some (r, severity) \<Longrightarrow> \<exists>q. score severity q"
  by (auto simp: setid_finding_def score_to_f32 intro: score_one split: if_splits provenance.splits)

lemma uid_transition_score: "uid_transition a b prov c d = Some hit \<Longrightarrow> \<exists>q. score (eh_severity hit) q"
  by (auto simp: uid_transition_def score_to_f32 split: if_splits option.splits)

lemma lineage_score: "classify_exec pc e args = Some hit \<Longrightarrow> \<exists>q. score (lh_severity hit) q"
  by (auto simp: score_to_f32 classify_exec_def lineage_classify_def Let_def split: if_splits dest!: find_map_Some)

lemma defense_score: "defense_classify e args = Some hit \<Longrightarrow> \<exists>q. score (defense_severity hit) q"
proof -
  assume "defense_classify e args = Some hit"
  then obtain name where "classify_named name (drop 1 args) = Some hit" unfolding defense_classify_def using find_map_Some by metis
  moreover have "iptables ops = Some h \<Longrightarrow> dh_severity_pct h \<le> 100" for ops h
    by (induction ops rule: iptables.induct) (auto simp: defense_finding_def split: if_splits)
  moreover have "nft ops = Some h \<Longrightarrow> dh_severity_pct h \<le> 100" "ufw ops = Some h \<Longrightarrow> dh_severity_pct h \<le> 100"
    "firewall_cmd ops = Some h \<Longrightarrow> dh_severity_pct h \<le> 100" "setenforce ops = Some h \<Longrightarrow> dh_severity_pct h \<le> 100" for ops h
    by (auto simp: nft_def ufw_def firewall_cmd_def setenforce_def defense_finding_def Let_def split: if_splits option.splits list.splits)
  moreover have "service_control n ops = Some h \<Longrightarrow> dh_severity_pct h \<le> 100" for n ops h
    unfolding service_control_def Let_def by (auto simp: defense_finding_def split: if_splits option.splits prod.splits)
  moreover have "dh_severity_pct (defense_finding MAC_RULE_ID 90) \<le> 100" by (simp add: defense_finding_def)
  ultimately have "dh_severity_pct hit \<le> 100" unfolding classify_named_def by (metis option.distinct(1) option.inject)
  then show ?thesis by (simp add: defense_severity_def f32_div_def score_to_f32)
qed

section \<open>Stages\<close>

lemma setid_stage_folds:
  assumes "\<exists>q. score (vd_suspicion (fst x)) q"
  shows "folds x (snd (setid_stage tx env prov x))"
  using assms setid_finding_score
  by (auto simp: setid_stage_def intro: folds_refl folds_finding split: option.split prod.split)

lemma modified_stage_folds:
  assumes "\<exists>q. score (vd_suspicion (fst x)) q"
  shows "folds x (modified_stage tx env prov b x)"
  using assms by (auto simp: modified_stage_def modified_finding_def intro: folds_refl folds_finding score_one)

lemma helper_keeps:
  "pl_inbox (snd (self_exec_privilege_helper hv exec st)) = pl_inbox st"
  "pl_submitted (snd (self_exec_privilege_helper hv exec st)) = pl_submitted st"
  "pl_llm_shed (snd (self_exec_privilege_helper hv exec st)) = pl_llm_shed st"
  "pl_inbox (snd (parent_privilege_helper hv a b st)) = pl_inbox st"
  "pl_submitted (snd (parent_privilege_helper hv a b st)) = pl_submitted st"
  "pl_llm_shed (snd (parent_privilege_helper hv a b st)) = pl_llm_shed st"
  by (auto simp: self_exec_privilege_helper_def parent_privilege_helper_def split: option.split prod.split)

text \<open>The helper between a process that became root and its parent.\<close>

definition helper_of :: "exec_env \<Rightarrow> process_exec \<Rightarrow> pipeline \<Rightarrow> helper_check \<times> pipeline" where
  "helper_of env exec st =
     (if (case xe_parent_uid env of None \<Rightarrow> False | Some u \<Rightarrow> u \<noteq> 0)
      then (case self_exec_privilege_helper (xe_previous env) exec st of
              (Some check, st) \<Rightarrow> (check, st)
            | (None, st) \<Rightarrow>
                parent_privilege_helper (xe_parent env) (xe_parent_exe env)
                  (remembered_parent_exe (pl_procs st) (ev_ppid exec) (ev_ts exec)) st)
      else (Helper, st))"

definition exe_setuid :: "exec_env \<Rightarrow> bool" where
  "exe_setuid env = (case setid_bits (xe_mode env) of None \<Rightarrow> False | Some (setuid, _) \<Rightarrow> setuid)"

lemma uid_stage_eq:
  "uid_stage cfg tx env exec prov x =
     (if \<not> (xc_uid_transitions cfg \<and> ev_uid exec = 0) then x
      else case uid_transition (ev_uid exec) (xe_parent_uid env) prov (exe_setuid env) (is_helper (fst (helper_of env exec (snd x)))) of
        None \<Rightarrow> (fst x, snd (helper_of env exec (snd x)))
      | Some hit \<Rightarrow> fold_finding (xe_ms env 2) (eh_rule_id hit) (eh_severity hit)
          (xt_transition tx (eh_rule_id hit) (xe_parent_uid env) @ xt_helper tx (fst (helper_of env exec (snd x))))
          (fst x, snd (helper_of env exec (snd x))))"
  by (simp add: uid_stage_def helper_of_def[symmetric] exe_setuid_def[symmetric] split_beta)

lemma helper_of_keeps:
  "pl_inbox (snd (helper_of env exec st)) = pl_inbox st" "pl_submitted (snd (helper_of env exec st)) = pl_submitted st"
  "pl_llm_shed (snd (helper_of env exec st)) = pl_llm_shed st"
  using helper_keeps(1-3)[of "xe_previous env" exec st] helper_keeps(4-6)[of "xe_parent env" "xe_parent_exe env"]
  by (auto simp: helper_of_def split: prod.split option.split)

lemma uid_stage_folds:
  assumes "\<exists>q. score (vd_suspicion (fst x)) q"
  shows "folds x (uid_stage cfg tx env exec prov x)"
proof -
  have 1: "folds x (fst x, snd (helper_of env exec (snd x)))" using assms by (simp add: folds_def extends_refl helper_of_keeps)
  moreover have "folds x (fold_finding now (eh_rule_id hit) (eh_severity hit) why (fst x, snd (helper_of env exec (snd x))))"
    if "uid_transition a b prov c d = Some hit" for a b c d hit now why
  proof (rule folds_trans[OF 1], rule folds_finding)
    show "\<exists>q. score (vd_suspicion (fst (fst x, snd (helper_of env exec (snd x))))) q" using assms by (simp only: fst_conv)
  qed (rule uid_transition_score[OF that])
  ultimately show ?thesis using folds_refl[OF assms] by (auto simp: uid_stage_eq split: option.split)
qed

lemma discovery_stage_folds:
  assumes "\<exists>q. score (vd_suspicion (fst x)) q"
  shows "folds x (fst (discovery_stage cfg tx env exec (x, tr)))"
  using assms score_to_f32[of "75 / 100"]
  by (auto simp: discovery_stage_def intro!: folds_refl folds_finding split: option.split prod.split)

lemma defense_stage_folds:
  assumes "\<exists>q. score (vd_suspicion (fst x)) q"
  shows "folds x (defense_stage cfg tx env exec x)"
  using assms defense_score by (auto simp: defense_stage_def intro: folds_refl folds_finding split: option.split)

lemma lineage_stage_folds:
  assumes "\<exists>q. score (vd_suspicion (fst x)) q"
  shows "folds x (lineage_stage tx env exec x)"
  using assms lineage_score by (auto simp: lineage_stage_def intro: folds_refl folds_finding split: option.split)

section \<open>The verdict as a whole\<close>

lemma count_hits_keeps [simp]:
  "pl_inbox (count_hits ms hs st) = pl_inbox st" "pl_submitted (count_hits ms hs st) = pl_submitted st"
  "pl_llm_shed (count_hits ms hs st) = pl_llm_shed st" "pl_packages (count_hits ms hs st) = pl_packages st"
  by (induction ms hs st rule: count_hits.induct) (simp_all add: count_rule_def)

lemma prefilter_score:
  assumes "1 / 2 \<le> an_half_life (xc_analyzer cfg)"
  shows "\<exists>q. score (vd_suspicion (prefilter cfg env exec sha st)) q"
  using score_or_default_score[OF assms] rule_hits_weight_score score_max by (fastforce simp: prefilter_def analyze_def Let_def)

lemma provenance_stage_cases:
  assumes "provenance_stage env e sha x = (prov, v, pl)"
  shows "vd_suspicion v = (if xe_classify_lost env then vd_suspicion (fst x) else fst (adjust_score (vd_suspicion (fst x)) prov))"
    "vd_rule_hits v = vd_rule_hits (fst x)" "vd_episode_id v = vd_episode_id (fst x)"
    "pl_inbox pl = pl_inbox (snd x)" "pl_submitted pl = pl_submitted (snd x)" "pl_llm_shed pl = pl_llm_shed (snd x)"
  using assms by (auto simp: provenance_stage_def split: if_splits prod.splits)

lemma adjust_score_score:
  assumes "score a x"
  shows "\<exists>y. score (fst (adjust_score a prov)) y"
proof -
  have "\<exists>y. score (f32_mul a (to_f32 (15 / 100))) y"
  proof -
    obtain d where d: "score (to_f32 (15 / 100)) d" using score_to_f32[of "15 / 100"] by auto
    have "f32_mul a (to_f32 (15 / 100)) = to_f32 (x * d)" using assms d by (simp add: score_def)
    moreover have "0 \<le> x * d" "x * d \<le> 1" using assms d by (simp_all add: score_def mult_le_one)
    ultimately show ?thesis using score_to_f32 by metis
  qed
  then show ?thesis using assms score_one by (auto simp: adjust_score_def split: provenance.split)
qed

lemma settled_score:
  assumes "settled cfg env exec e sha st = (prov, x1)" "1 / 2 \<le> an_half_life (xc_analyzer cfg)"
  shows "\<exists>q. score (vd_suspicion (fst x1)) q"
proof -
  obtain v pl where x1: "x1 = (v, pl)" by (cases x1)
  show ?thesis
    using provenance_stage_cases(1)[OF assms(1)[unfolded settled_def x1]] prefilter_score[OF assms(2)] adjust_score_score
    by (metis (no_types, lifting) fst_conv x1)
qed

lemma folded_exec_folds:
  assumes "\<exists>q. score (vd_suspicion (fst x1)) q" "folded_exec cfg tx env exec prov x1 tr = (x5, tr5)"
  shows "folds x1 x5"
proof -
  obtain reported x2 where s: "setid_stage tx env prov x1 = (reported, x2)" by (cases "setid_stage tx env prov x1")
  let ?x3 = "modified_stage tx env prov reported x2"
  have 2: "folds x1 x2" using setid_stage_folds[OF assms(1), of tx env prov] s by simp
  have 3: "folds x2 ?x3" by (rule modified_stage_folds[OF folds_scores[OF 2]])
  have 4: "folds ?x3 (uid_stage cfg tx env exec prov ?x3)" by (rule uid_stage_folds[OF folds_scores[OF 3]])
  have 5: "folds (uid_stage cfg tx env exec prov ?x3) x5"
    using discovery_stage_folds[OF folds_scores[OF 4], of cfg tx env exec tr] assms(2) by (simp add: folded_exec_def s)
  show ?thesis using 2 3 4 5 folds_trans by blast
qed

lemma judge_exec_cases:
  assumes "judge_exec cfg tx env exec e sha st = (v, st1)" "1 / 2 \<le> an_half_life (xc_analyzer cfg)"
  obtains prov x1 x5 tr pl where "settled cfg env exec e sha st = (prov, x1)"
    "folded_exec cfg tx env exec prov x1 (xs_discovery st) = (x5, tr)" "folds x1 x5"
    "lineage_stage tx env exec (defense_stage cfg tx env exec x5) = (v, pl)" "folds x5 (defense_stage cfg tx env exec x5)"
    "folds (defense_stage cfg tx env exec x5) (v, pl)" "st1 = st\<lparr>xs_pipe := pl, xs_discovery := tr\<rparr>"
    "pl_inbox pl = pl_inbox (xs_pipe st)" "pl_submitted pl = pl_submitted (xs_pipe st)" "pl_llm_shed pl = pl_llm_shed (xs_pipe st)"
proof -
  obtain prov x1 where 1: "settled cfg env exec e sha st = (prov, x1)" by (cases "settled cfg env exec e sha st")
  obtain x5 tr where 5: "folded_exec cfg tx env exec prov x1 (xs_discovery st) = (x5, tr)" by (cases "folded_exec cfg tx env exec prov x1 (xs_discovery st)")
  obtain v' pl where 7: "lineage_stage tx env exec (defense_stage cfg tx env exec x5) = (v', pl)"
    by (cases "lineage_stage tx env exec (defense_stage cfg tx env exec x5)")
  have v: "v' = v" "st1 = st\<lparr>xs_pipe := pl, xs_discovery := tr\<rparr>" using assms(1) by (simp_all add: judge_exec_def 1 5 7)
  have f5: "folds x1 x5" by (rule folded_exec_folds[OF settled_score[OF 1 assms(2)] 5])
  have f6: "folds x5 (defense_stage cfg tx env exec x5)" by (rule defense_stage_folds[OF folds_scores[OF f5]])
  have f7: "folds (defense_stage cfg tx env exec x5) (v, pl)"
    using lineage_stage_folds[OF folds_scores[OF f6], of tx env exec] 7 v(1) by simp
  have keep: "pl_inbox (snd x1) = pl_inbox (xs_pipe st)" "pl_submitted (snd x1) = pl_submitted (xs_pipe st)"
    "pl_llm_shed (snd x1) = pl_llm_shed (xs_pipe st)"
    using provenance_stage_cases(4-6)[of env e sha _ prov "fst x1" "snd x1"] 1 by (auto simp: settled_def)
  show ?thesis using that[OF 1 5 f5 _ f6 f7 v(2)] 7 v(1) keep f5 f6 f7 by (simp add: folds_def)
qed

section \<open>Late findings reach the operator\<close>

definition setuid_at :: "helper_view \<Rightarrow> string option \<Rightarrow> bool" where
  "setuid_at hv p = (case Option.bind p (\<lambda>p. setid_bits (hv_mode hv p)) of None \<Rightarrow> False | Some (setuid, _) \<Rightarrow> setuid)"

text \<open>The program the process ran before, and its parent's.\<close>

definition program_before :: "process_exec \<Rightarrow> pipeline \<Rightarrow> string option" where
  "program_before exec st = previous_exe (pl_procs st) (ev_pid exec) (ev_ts exec)"

definition program_of_parent :: "exec_env \<Rightarrow> process_exec \<Rightarrow> pipeline \<Rightarrow> string option" where
  "program_of_parent env exec st =
     (case xe_parent_exe env of Some e \<Rightarrow> Some e | None \<Rightarrow> remembered_parent_exe (pl_procs st) (ev_ppid exec) (ev_ts exec))"

text \<open>
  A finding that does not depend on provenance or rarity: a child its parent should not start, a defence
  switched off, or a root process whose parent is not root, where none of its program, the one it ran
  before and its parent's is set-uid.
\<close>

definition late_finding :: "exec_config \<Rightarrow> exec_env \<Rightarrow> process_exec \<Rightarrow> pipeline \<Rightarrow> string \<Rightarrow> f32 \<Rightarrow> bool" where
  "late_finding cfg env exec st e severity \<longleftrightarrow>
     ev_parent_comm exec \<noteq> [] \<and> (\<exists>h. classify_exec (ev_parent_comm exec) e (ev_args exec) = Some h \<and> severity = lh_severity h) \<or>
     xc_defense_tampering cfg \<and> (\<exists>h. defense_classify e (ev_args exec) = Some h \<and> severity = defense_severity h) \<or>
     xc_uid_transitions cfg \<and> ev_uid exec = 0 \<and> (\<exists>u. xe_parent_uid env = Some u \<and> u \<noteq> 0) \<and>
       \<not> setuid_at (xe_previous env) (program_before exec st) \<and> \<not> setuid_at (xe_parent env) (program_of_parent env exec st) \<and>
       \<not> exe_setuid env \<and> severity = to_f32 (9 / 10)"

lemma self_exec_unsanctioned:
  assumes "\<not> setuid_at hv (program_before exec st)"
  shows "self_exec_privilege_helper hv exec st = (None, st)"
proof (cases "previous_exe (pl_procs st) (ev_pid exec) (ev_ts exec)")
  case (Some prev)
  then show ?thesis
    using assms by (cases "setid_bits (hv_mode hv prev)")
      (auto simp: self_exec_privilege_helper_def setuid_at_def program_before_def)
qed (simp add: self_exec_privilege_helper_def)

lemma helper_of_unsanctioned:
  assumes "\<not> setuid_at (xe_previous env) (program_before exec st)" "\<not> setuid_at (xe_parent env) (program_of_parent env exec st)"
    and "xe_parent_uid env = Some u" "u \<noteq> 0"
  shows "\<not> is_helper (fst (helper_of env exec st))"
proof -
  have "helper_of env exec st = parent_privilege_helper (xe_parent env) (xe_parent_exe env)
      (remembered_parent_exe (pl_procs st) (ev_ppid exec) (ev_ts exec)) st"
    using assms(3,4) by (simp add: helper_of_def self_exec_unsanctioned[OF assms(1)])
  moreover have "\<not> is_helper (fst (parent_privilege_helper (xe_parent env) (xe_parent_exe env)
      (remembered_parent_exe (pl_procs st) (ev_ppid exec) (ev_ts exec)) st))"
  proof (cases "program_of_parent env exec st")
    case (Some e)
    then show ?thesis
      using assms(2) by (cases "setid_bits (hv_mode (xe_parent env) e)")
        (auto simp: parent_privilege_helper_def setuid_at_def program_of_parent_def)
  qed (simp add: parent_privilege_helper_def program_of_parent_def)
  ultimately show ?thesis by simp
qed

lemma program_cong:
  "pl_procs st = pl_procs st' \<Longrightarrow> program_before exec st = program_before exec st'"
  "pl_procs st = pl_procs st' \<Longrightarrow> program_of_parent env exec st = program_of_parent env exec st'"
  by (simp_all add: program_before_def program_of_parent_def split: option.split)

lemma count_hits_procs: "pl_procs (count_hits ms hs st) = pl_procs st"
  by (induction ms hs st rule: count_hits.induct) (simp_all add: count_rule_def)

lemma stages_keep_procs:
  "settled cfg env exec e sha st = (prov, x1) \<Longrightarrow> pl_procs (snd x1) = pl_procs (xs_pipe st)"
  "setid_stage tx env prov x = (b, y) \<Longrightarrow> pl_procs (snd y) = pl_procs (snd x)"
  "pl_procs (snd (modified_stage tx env prov b x)) = pl_procs (snd x)"
  by (auto simp: settled_def provenance_stage_def setid_stage_def modified_stage_def fold_finding_def count_rule_def count_hits_procs
      split: if_splits option.splits prod.splits)

lemma folds_severity: "folds x y \<Longrightarrow> score (vd_suspicion (fst x)) q \<Longrightarrow> \<exists>r. score (vd_suspicion (fst y)) r \<and> q \<le> r"
  unfolding folds_def extends_def by (metis f32.inject(2) score_def)

lemma uid_stage_severity:
  assumes "\<exists>q. score (vd_suspicion (fst x)) q" "xc_uid_transitions cfg" "ev_uid exec = 0" "xe_parent_uid env = Some u" "u \<noteq> 0"
    and "\<not> setuid_at (xe_previous env) (program_before exec (snd x))" "\<not> setuid_at (xe_parent env) (program_of_parent env exec (snd x))"
    and "\<not> exe_setuid env" "score (to_f32 (9 / 10)) s"
  shows "\<exists>r. score (vd_suspicion (fst (uid_stage cfg tx env exec prov x))) r \<and> s \<le> r"
proof -
  have "uid_transition (ev_uid exec) (xe_parent_uid env) prov (exe_setuid env) (is_helper (fst (helper_of env exec (snd x)))) =
      Some \<lparr>eh_rule_id = ''privesc.uid_transition_no_helper'', eh_severity = to_f32 (9 / 10)\<rparr>"
    using helper_of_unsanctioned[OF assms(6,7,4,5)] assms(3-5,8) by (simp add: uid_transition_def)
  then show ?thesis using fold_verdict_extends(2)[OF assms(1,9)] assms(2,3) by (simp add: uid_stage_eq)
qed

lemma folded_exec_severity:
  assumes "\<exists>q. score (vd_suspicion (fst x1)) q" "folded_exec cfg tx env exec prov x1 tr = (x5, tr5)"
    and "xc_uid_transitions cfg" "ev_uid exec = 0" "xe_parent_uid env = Some u" "u \<noteq> 0"
    and "\<not> setuid_at (xe_previous env) (program_before exec (snd x1))" "\<not> setuid_at (xe_parent env) (program_of_parent env exec (snd x1))"
    and "\<not> exe_setuid env" "score (to_f32 (9 / 10)) s"
  shows "\<exists>r. score (vd_suspicion (fst x5)) r \<and> s \<le> r"
proof -
  obtain reported x2 where s: "setid_stage tx env prov x1 = (reported, x2)" by (cases "setid_stage tx env prov x1")
  let ?x3 = "modified_stage tx env prov reported x2"
  have 2: "folds x1 x2" using setid_stage_folds[OF assms(1), of tx env prov] s by simp
  have 3: "folds x2 ?x3" by (rule modified_stage_folds[OF folds_scores[OF 2]])
  have 4: "folds ?x3 (uid_stage cfg tx env exec prov ?x3)" by (rule uid_stage_folds[OF folds_scores[OF 3]])
  have 5: "folds (uid_stage cfg tx env exec prov ?x3) x5"
    using discovery_stage_folds[OF folds_scores[OF 4], of cfg tx env exec tr] assms(2) by (simp add: folded_exec_def s)
  have procs: "program_before exec (snd ?x3) = program_before exec (snd x1)" "program_of_parent env exec (snd ?x3) = program_of_parent env exec (snd x1)"
    using stages_keep_procs(2)[OF s] stages_keep_procs(3)[of tx env prov reported x2]
    by (simp_all only: program_cong[of "snd ?x3" "snd x1"])
  obtain r where "score (vd_suspicion (fst (uid_stage cfg tx env exec prov ?x3))) r" "s \<le> r"
    using uid_stage_severity[OF folds_scores[OF 3] assms(3-6) _ _ assms(9,10)] assms(7,8) procs by metis
  with folds_severity[OF 5] show ?thesis by (meson order_trans)
qed

lemma late_finding_counts:
  assumes "judge_exec cfg tx env exec e sha st = (v, st1)" "1 / 2 \<le> an_half_life (xc_analyzer cfg)"
    and "late_finding cfg env exec (xs_pipe st) e severity" "ev_exe_path exec = Some e" "score severity s"
  shows "\<exists>r. score (vd_suspicion v) r \<and> s \<le> r"
proof -
  obtain prov x1 x5 tr pl where c: "settled cfg env exec e sha st = (prov, x1)"
    "folded_exec cfg tx env exec prov x1 (xs_discovery st) = (x5, tr)" "folds x1 x5"
    "lineage_stage tx env exec (defense_stage cfg tx env exec x5) = (v, pl)" "folds x5 (defense_stage cfg tx env exec x5)"
    "folds (defense_stage cfg tx env exec x5) (v, pl)"
    by (rule judge_exec_cases[OF assms(1,2)])
  let ?x6 = "defense_stage cfg tx env exec x5"
  consider (lineage) h where "ev_parent_comm exec \<noteq> []" "classify_exec (ev_parent_comm exec) e (ev_args exec) = Some h" "severity = lh_severity h"
    | (defense) h where "xc_defense_tampering cfg" "defense_classify e (ev_args exec) = Some h" "severity = defense_severity h"
    | (uid) u where "xc_uid_transitions cfg" "ev_uid exec = 0" "xe_parent_uid env = Some u" "u \<noteq> 0"
        "\<not> setuid_at (xe_previous env) (program_before exec (xs_pipe st))" "\<not> setuid_at (xe_parent env) (program_of_parent env exec (xs_pipe st))"
        "\<not> exe_setuid env" "severity = to_f32 (9 / 10)"
    using assms(3) unfolding late_finding_def by blast
  then show ?thesis
  proof cases
    case lineage
    then have "v = fst (lineage_stage tx env exec ?x6)" using c(4) by simp
    then show ?thesis using fold_verdict_extends(2)[OF folds_scores[OF c(5)] assms(5)] lineage assms(4)
      by (simp add: lineage_stage_def)
  next
    case defense
    then have "\<exists>r. score (vd_suspicion (fst ?x6)) r \<and> s \<le> r"
      using fold_verdict_extends(2)[OF folds_scores[OF c(3)] assms(5)] assms(4) by (simp add: defense_stage_def)
    with folds_severity[OF c(6)] show ?thesis by (metis fst_conv order_trans)
  next
    case uid
    have "score (to_f32 (9 / 10)) s" using assms(5) uid(8) by simp
    moreover have "program_before exec (snd x1) = program_before exec (xs_pipe st)"
      "program_of_parent env exec (snd x1) = program_of_parent env exec (xs_pipe st)"
      using stages_keep_procs(1)[OF c(1)] by (simp_all only: program_cong[of "snd x1" "xs_pipe st"])
    ultimately obtain r where r: "score (vd_suspicion (fst x5)) r" "s \<le> r"
      using folded_exec_severity[OF settled_score[OF c(1) assms(2)] c(2) uid(1-4) _ _ uid(7), of s] uid(5,6) by metis
    obtain r6 where r6: "score (vd_suspicion (fst ?x6)) r6" "r \<le> r6" using folds_severity[OF c(5) r(1)] by blast
    obtain r7 where "score (vd_suspicion (fst (v, pl))) r7" "r6 \<le> r7" using folds_severity[OF c(6) r6(1)] by blast
    then show ?thesis using r(2) r6(2) by (intro exI[of _ r7]) auto
  qed
qed

lemma exec_alert_fields [simp]:
  "al_rule_id (exec_alert cfg env exec sha v) = leading_rule_id v"
  "al_exe_path (exec_alert cfg env exec sha v) = (case ev_exe_path exec of None \<Rightarrow> [] | Some p \<Rightarrow> p)"
  "al_suspicion (exec_alert cfg env exec sha v) = vd_suspicion v"
  "al_episode_id (exec_alert cfg env exec sha v) = vd_episode_id v"
  by (simp_all add: exec_alert_def builder_context_def builder_exe_sha256_hex_def builder_subject_def builder_raw_def)

lemma describe_stage_pipe [simp]: "xs_pipe (describe_stage cfg env exec sha st) = xs_pipe st"
  "xs_triggers (describe_stage cfg env exec sha st) = xs_triggers st"
  by (simp_all add: describe_stage_def split: prod.split bool.split)

lemma model_stage_inbox [simp]: "pl_inbox (model_stage cfg env v st) = pl_inbox st"
  by (simp add: model_stage_def)

lemma alert_stage_inbox:
  "pl_inbox (alert_stage cfg env exec sha v st) =
     (if f32_le (xc_alert_threshold cfg) (vd_suspicion v) then snd (inbox_append (xe_ms env 7) (exec_alert cfg env exec sha v) (pl_inbox st))
      else pl_inbox st)"
  by (simp add: alert_stage_def emit_def split: prod.split)

lemma process_exec_inbox:
  assumes "ev_exe_path exec = Some e" "xe_sha256 env = Some sha" "\<not> xe_analyze_lost env" "\<not> xe_upsert_fails env"
    and "judge_exec cfg tx env exec e sha st = (v, st1)"
  shows "pl_inbox (xs_pipe (process_exec_event cfg tx env exec st)) =
     (if f32_le (xc_alert_threshold cfg) (vd_suspicion v)
      then snd (inbox_append (xe_ms env 7) (exec_alert cfg env exec sha v) (pl_inbox (xs_pipe st1))) else pl_inbox (xs_pipe st1))"
  using assms by (simp add: process_exec_event_def upsert_binary_def route_stage_def alert_stage_inbox split: prod.split)

lemma f32_le_above: "f32_le t (Fin x) \<Longrightarrow> x \<le> y \<Longrightarrow> f32_le t (Fin y)"
  by (cases t) (auto simp: f32_le_def)

text \<open>
  C15. What an exec does is not excused by what it is. A child its parent should not start, a defence
  switched off, and a root process whose parent is not root while neither its program, nor the one it ran
  before, nor its parent's is set-uid, become the newest alert of the inbox, whatever the provenance of
  the binary and however often it was seen: if the exec can be hashed, its analysis is not lost, the
  baseline counts it, the severity reaches the threshold for alerts and no silence covers an alert of this
  path and episode, then it is stored under the episode and path of the exec, with at least four tenths of
  a score that is at least this severity.
\<close>

theorem late_finding_reaches_operator:
  assumes "late_finding cfg env exec (xs_pipe st) e severity" "f32_le (xc_alert_threshold cfg) severity"
    and "ev_exe_path exec = Some e" "xe_sha256 env = Some sha" "\<not> xe_analyze_lost env" "\<not> xe_upsert_fails env"
    and "1 / 2 \<le> an_half_life (xc_analyzer cfg)" "score severity s"
    and "\<forall>a. al_exe_path a = e \<and> al_episode_id a = ep_id (from_exec exec) \<longrightarrow> unsilenced (xe_ms env 7) a (pl_inbox (xs_pipe st))"
  shows "\<exists>a x y. last (ib_items (pl_inbox (xs_pipe (process_exec_event cfg tx env exec st)))) = a \<and>
    al_exe_path a = e \<and> al_episode_id a = ep_id (from_exec exec) \<and> s \<le> x \<and>
    al_suspicion a = Fin y \<and> f32_round (x * recognition_floor) \<le> y \<and> y \<le> x"
proof -
  obtain v st1 where j: "judge_exec cfg tx env exec e sha st = (v, st1)" by (cases "judge_exec cfg tx env exec e sha st")
  obtain r where r: "score (vd_suspicion v) r" "s \<le> r" using late_finding_counts[OF j assms(7,1,3,8)] by blast
  obtain prov x1 x5 tr pl where c: "settled cfg env exec e sha st = (prov, x1)" "folds x1 x5" "folds x5 (defense_stage cfg tx env exec x5)"
    "folds (defense_stage cfg tx env exec x5) (v, pl)" "st1 = st\<lparr>xs_pipe := pl, xs_discovery := tr\<rparr>" "pl_inbox pl = pl_inbox (xs_pipe st)"
    by (rule judge_exec_cases[OF j assms(7)])
  have "vd_episode_id (fst x1) = ep_id (from_exec exec)"
    using provenance_stage_cases(3)[of env e sha _ prov "fst x1" "snd x1"] c(1) by (auto simp: settled_def prefilter_def analyze_def Let_def)
  then have ep: "vd_episode_id v = ep_id (from_exec exec)" using c(2-4) by (simp add: folds_def extends_def)
  have "f32_le (xc_alert_threshold cfg) (vd_suspicion v)"
    using f32_le_above[of "xc_alert_threshold cfg" s r] assms(2,8) r by (simp add: score_def)
  then have ib: "pl_inbox (xs_pipe (process_exec_event cfg tx env exec st)) =
      snd (inbox_append (xe_ms env 7) (exec_alert cfg env exec sha v) (pl_inbox (xs_pipe st)))"
    using process_exec_inbox[OF assms(3-6) j] c(5,6) by simp
  have "score (al_suspicion (exec_alert cfg env exec sha v)) r" using r(1) by simp
  moreover have "unsilenced (xe_ms env 7) (exec_alert cfg env exec sha v) (pl_inbox (xs_pipe st))" using assms(3,9) ep by simp
  ultimately show ?thesis
    using append_unsilenced[of "xe_ms env 7" "exec_alert cfg env exec sha v" "pl_inbox (xs_pipe st)" r] r(2) ep assms(3)
    unfolding ib by (simp only: exec_alert_fields option.case) blast
qed

definition demo_helper :: helper_view where
  "demo_helper = \<lparr>hv_mode = (\<lambda>_. None), hv_files = \<lparr>fv_sha256 = (\<lambda>_. None), fv_md5 = (\<lambda>_. None), fv_mtimes = (\<lambda>_. (None, None))\<rparr>, hv_lost = False\<rparr>"

definition demo_exec_env :: "bool \<Rightarrow> exec_env" where
  "demo_exec_env fails = \<lparr>xe_lower = map ascii_lower, xe_sha256 = Some [1], xe_lookup = None, xe_analyze_lost = False,
     xe_files = \<lparr>fv_sha256 = (\<lambda>_. None), fv_md5 = (\<lambda>_. None), fv_mtimes = (\<lambda>_. (None, None))\<rparr>, xe_classify_lost = False, xe_mode = None,
     xe_parent_uid = None, xe_previous = demo_helper, xe_parent_exe = None, xe_parent = demo_helper, xe_mono = 0,
     xe_hit_ms = (\<lambda>_. 0), xe_ms = (\<lambda>_. 0), xe_upsert_fails = fails, xe_upsert_time = Some 0, xe_described_at = 0, xe_size = None,
     xe_descriptor_fails = False, xe_descriptor_time = Some 0,
     xe_view = \<lparr>xv_cwd = None, xv_ancestry = [], xv_open = None, xv_peers = []\<rparr>, xe_submit_ok = True, xe_whisper_open = True\<rparr>"

definition demo_exec_config :: exec_config where
  "demo_exec_config = \<lparr>xc_pipe = demo_config, xc_analyzer = analyzer_of [], xc_uid_transitions = True, xc_discovery_bursts = True,
     xc_defense_tampering = True, xc_whisper_threshold = to_f32 (6 / 10), xc_alert_threshold = to_f32 (7 / 10), xc_platform = []\<rparr>"

definition demo_exec_texts :: exec_texts where
  "demo_exec_texts = \<lparr>xt_setid = (\<lambda>_. []), xt_modified = [], xt_transition = (\<lambda>_ _. []), xt_helper = (\<lambda>_. []),
     xt_discovery = (\<lambda>_ _. []), xt_defense = (\<lambda>_ _. []), xt_lineage = (\<lambda>_. [])\<rparr>"

definition demo_exec_state :: "package_index \<Rightarrow> exec_state" where
  "demo_exec_state px = \<lparr>xs_pipe = demo_pipeline\<lparr>pl_packages := cache_install px cache_empty\<rparr>, xs_baseline = open_in_memory,
     xs_discovery = tracker_new 60 5, xs_described = seen_new 60 10, xs_triggers = [], xs_recorded = [], xs_analyzed = []\<rparr>"

definition demo_exec :: "string \<Rightarrow> string \<Rightarrow> string list \<Rightarrow> process_exec" where
  "demo_exec par e args = \<lparr>ev_pid = 9, ev_ppid = 7, ev_parent_comm = par, ev_uid = 1000, ev_comm = [], ev_exe_path = Some e, ev_args = args, ev_ts = 5\<rparr>"

lemma demo_threshold: "f32_le (to_f32 (7 / 10)) (to_f32 (9 / 10))" "f32_le (to_f32 (7 / 10)) (to_f32 (95 / 100))"
  using f32_round_mono_unit[of "7 / 10" "9 / 10"] f32_round_mono_unit[of "7 / 10" "95 / 100"] by (auto simp: to_f32_unit f32_le_def)

lemma demo_silences: "unsilenced now a (pl_inbox (xs_pipe (demo_exec_state px)))"
  by (simp add: demo_exec_state_def demo_pipeline_def unsilenced_def inbox_new_def)

lemma demo_exec_fields [simp]:
  "ev_exe_path (demo_exec par e args) = Some e" "ev_args (demo_exec par e args) = args" "ev_parent_comm (demo_exec par e args) = par"
  "ev_uid (demo_exec par e args) = 1000" "xe_sha256 (demo_exec_env b) = Some [1]" "\<not> xe_analyze_lost (demo_exec_env b)"
  "xe_upsert_fails (demo_exec_env b) = b" "xc_defense_tampering demo_exec_config" "xc_alert_threshold demo_exec_config = to_f32 (7 / 10)"
  "an_half_life (xc_analyzer demo_exec_config) = 8" "an_rules (xc_analyzer demo_exec_config) = default_rules"
  by (simp_all add: demo_exec_def demo_exec_env_def demo_exec_config_def analyzer_of_def DEFAULT_HALF_LIFE_def)

theorem late_finding_reaches_operator_witness:
  "\<exists>a. last (ib_items (pl_inbox (xs_pipe (process_exec_event demo_exec_config demo_exec_texts (demo_exec_env False)
       (demo_exec [] ''/usr/bin/systemctl'' [''systemctl'', ''stop'', ''auditd.service'']) (demo_exec_state index_unavailable))))) = a \<and>
     al_exe_path a = ''/usr/bin/systemctl''"
proof -
  let ?ex = "demo_exec [] ''/usr/bin/systemctl'' [''systemctl'', ''stop'', ''auditd.service'']"
  have hit: "defense_classify ''/usr/bin/systemctl'' [''systemctl'', ''stop'', ''auditd.service''] = Some (defense_finding SERVICE_RULE_ID 90)"
    by code_simp
  have sev: "defense_severity (defense_finding SERVICE_RULE_ID 90) = to_f32 (9 / 10)"
    by (simp add: defense_severity_def defense_finding_def f32_div_def)
  have late: "late_finding demo_exec_config (demo_exec_env False) ?ex (xs_pipe (demo_exec_state index_unavailable)) ''/usr/bin/systemctl'' (to_f32 (9 / 10))"
    unfolding late_finding_def using hit sev by simp
  obtain s where "score (to_f32 (9 / 10)) s" using score_to_f32[of "9 / 10"] by auto
  from late_finding_reaches_operator[OF late, where sha = "[1]" and tx = demo_exec_texts, OF _ _ _ _ _ _ this]
  show ?thesis using demo_threshold(1) demo_silences by fastforce
qed

section \<open>Findings that are lost on the way\<close>

lemma process_exec_unrouted:
  assumes "ev_exe_path exec = Some e \<Longrightarrow> xe_sha256 env = Some sha \<Longrightarrow> judge_exec cfg tx env exec e sha st = (v, st1) \<Longrightarrow>
      xe_upsert_fails env \<or> \<not> f32_le (xc_alert_threshold cfg) (vd_suspicion v) \<and> \<not> f32_le (xc_whisper_threshold cfg) (vd_suspicion v) \<and>
        \<not> f32_le (pf_llm_threshold (xc_pipe cfg)) (vd_suspicion v)"
    and "ev_exe_path exec = Some e" "xe_sha256 env = Some sha" "judge_exec cfg tx env exec e sha st = (v, st1)"
    and "1 / 2 \<le> an_half_life (xc_analyzer cfg)"
  shows "pl_inbox (xs_pipe (process_exec_event cfg tx env exec st)) = pl_inbox (xs_pipe st) \<and>
    xs_triggers (process_exec_event cfg tx env exec st) = xs_triggers st \<and>
    pl_submitted (xs_pipe (process_exec_event cfg tx env exec st)) = pl_submitted (xs_pipe st)"
proof -
  obtain pl tr where c: "st1 = st\<lparr>xs_pipe := pl, xs_discovery := tr\<rparr>" "pl_inbox pl = pl_inbox (xs_pipe st)"
    "pl_submitted pl = pl_submitted (xs_pipe st)"
    by (rule judge_exec_cases[OF assms(4,5)])
  show ?thesis using assms(1)[OF assms(2-4)] assms(2-4) c
    by (auto simp: process_exec_event_def upsert_binary_def route_stage_def alert_stage_def model_stage_def split: prod.splits)
qed

text \<open>The rule for execs without a path cannot fire: such an exec is dropped before the rules are evaluated.\<close>

lemma missing_path_is_unseen: "ev_exe_path exec = None \<Longrightarrow> process_exec_event cfg tx env exec st = st"
  by (simp add: process_exec_event_def)

text \<open>
  A failing write to the baseline loses the finding. The exec has been judged and its rules counted when
  the binary is recorded; if that write fails, the handler returns, and no alert is stored, no neighbour and
  no model is asked, whatever was found.
\<close>

theorem failed_upsert_loses_finding:
  assumes "xe_upsert_fails env" "1 / 2 \<le> an_half_life (xc_analyzer cfg)"
  shows "pl_inbox (xs_pipe (process_exec_event cfg tx env exec st)) = pl_inbox (xs_pipe st) \<and>
    xs_triggers (process_exec_event cfg tx env exec st) = xs_triggers st \<and>
    pl_submitted (xs_pipe (process_exec_event cfg tx env exec st)) = pl_submitted (xs_pipe st)"
proof (cases "\<exists>e sha. ev_exe_path exec = Some e \<and> xe_sha256 env = Some sha")
  case True
  then obtain e sha where e: "ev_exe_path exec = Some e" "xe_sha256 env = Some sha" by blast
  obtain v st1 where "judge_exec cfg tx env exec e sha st = (v, st1)" by (cases "judge_exec cfg tx env exec e sha st")
  from process_exec_unrouted[OF _ e this assms(2)] assms(1) show ?thesis by blast
qed (auto simp: process_exec_event_def split: option.split)

theorem failed_upsert_loses_finding_witness:
  "late_finding demo_exec_config (demo_exec_env True) (demo_exec ''nginx'' ''/usr/bin/dash'' [''sh'']) (xs_pipe (demo_exec_state index_unavailable)) ''/usr/bin/dash'' (to_f32 (95 / 100)) \<and>
   pl_inbox (xs_pipe (process_exec_event demo_exec_config demo_exec_texts (demo_exec_env True) (demo_exec ''nginx'' ''/usr/bin/dash'' [''sh''])
     (demo_exec_state index_unavailable))) = pl_inbox (xs_pipe (demo_exec_state index_unavailable))"
proof -
  have "classify_exec ''nginx'' ''/usr/bin/dash'' [''sh''] = Some \<lparr>lh_rule_id = ''lineage.service_spawned_shell'', lh_severity = to_f32 (95 / 100)\<rparr>"
  proof -
    have "names ''/usr/bin/dash'' [''sh''] = [''sh'', ''dash'']" by code_simp
    moreover have "base_name (trim ''nginx'') \<in> set NETWORK_SERVICES \<and> base_name (trim ''nginx'') \<noteq> []" "base_name (trim ''sh'') \<in> set SHELLS \<and> base_name (trim ''sh'') \<noteq> []"
      by code_simp+
    ultimately show ?thesis by (simp add: classify_exec_def lineage_classify_def Let_def)
  qed
  then have "late_finding demo_exec_config (demo_exec_env True) (demo_exec ''nginx'' ''/usr/bin/dash'' [''sh'']) (xs_pipe (demo_exec_state index_unavailable)) ''/usr/bin/dash'' (to_f32 (95 / 100))"
    by (simp add: late_finding_def)
  then show ?thesis using failed_upsert_loses_finding[of "demo_exec_env True" demo_exec_config] by simp
qed

text \<open>The verdict on an intact packaged binary in which no later stage finds anything.\<close>

lemma settled_intact:
  assumes "settled cfg env exec e sha st = (PackagedIntact, x1)" "1 / 2 \<le> an_half_life (xc_analyzer cfg)"
  shows "\<exists>q. vd_suspicion (fst x1) = Fin q \<and> q \<le> f32_round (15 / 100)"
proof -
  obtain v pl where x1: "x1 = (v, pl)" by (cases x1)
  note ps = provenance_stage_cases(1)[OF assms(1)[unfolded settled_def x1]]
  have "\<not> xe_classify_lost env" using assms(1) by (auto simp: settled_def provenance_stage_def)
  then have v: "vd_suspicion v = f32_mul (vd_suspicion (prefilter cfg env exec sha st)) (to_f32 (15 / 100))"
    using ps by (simp add: adjust_score_def)
  obtain q where q: "score (vd_suspicion (prefilter cfg env exec sha st)) q" using prefilter_score[OF assms(2)] by blast
  let ?d = "f32_round (15 / 100)"
  have d: "0 \<le> ?d" "?d \<le> 1" "f32_round ?d = ?d" using f32_round_unit[of "15 / 100"] f32_round_idem[of "15 / 100"] by auto
  have "vd_suspicion v = Fin (f32_round (q * ?d))"
    using v q d f32_mul_unit[of q ?d] by (simp only: score_def to_f32_unit[of "15 / 100"])
  moreover have "q * ?d \<le> ?d" "0 \<le> q * ?d" using q d by (simp_all add: score_def mult_left_le_one_le)
  then have "f32_round (q * ?d) \<le> f32_round ?d" using d(2) by (intro f32_round_mono_unit)
  ultimately show ?thesis using d(3) x1 by simp
qed

lemma quiet_stages:
  assumes "settled cfg env exec e sha st = (PackagedIntact, x1)" "ev_exe_path exec = Some e" "ev_uid exec \<noteq> 0 \<or> \<not> xc_uid_transitions cfg"
    and "base_name e \<notin> set RECON \<or> \<not> xc_discovery_bursts cfg" "defense_classify e (ev_args exec) = None \<or> \<not> xc_defense_tampering cfg"
    and "classify_exec (ev_parent_comm exec) e (ev_args exec) = None \<or> ev_parent_comm exec = []"
  shows "fst (judge_exec cfg tx env exec e sha st) = fst x1"
proof -
  have "setid_stage tx env PackagedIntact x1 = (False, x1)" by (simp add: setid_stage_def setid_finding_def split: option.split prod.split)
  moreover have "fst (discovery_stage cfg tx env exec (x1, xs_discovery st)) = x1"
    using assms(2,4) by (auto simp: discovery_stage_def observe_exec_def Let_def)
  ultimately have "fst (folded_exec cfg tx env exec PackagedIntact x1 (xs_discovery st)) = x1"
    using assms(3) by (auto simp: folded_exec_def modified_stage_def uid_stage_eq)
  moreover have "lineage_stage tx env exec (defense_stage cfg tx env exec x1) = x1"
    using assms(2,5,6) by (auto simp: lineage_stage_def defense_stage_def)
  ultimately show ?thesis by (simp add: judge_exec_def assms(1) split_beta Let_def)
qed

text \<open>
  A rule is mute on packaged programs. The damping for binaries a package vouches for is applied to the
  score of the pre-filter with the hits of its rules in it, so neither a built-in rule nor one the operator
  wrote, of whatever severity, leads to an alert, a question or a request to the model on such a program,
  once the thresholds exceed 0.15: a reverse shell through the distribution's \<open>bash\<close> is not reported.
\<close>

theorem packaged_program_mutes_rules:
  assumes "settled cfg env exec e sha st = (PackagedIntact, x1)" "ev_exe_path exec = Some e" "xe_sha256 env = Some sha"
    and "ev_uid exec \<noteq> 0 \<or> \<not> xc_uid_transitions cfg" "base_name e \<notin> set RECON \<or> \<not> xc_discovery_bursts cfg"
    and "defense_classify e (ev_args exec) = None \<or> \<not> xc_defense_tampering cfg"
    and "classify_exec (ev_parent_comm exec) e (ev_args exec) = None \<or> ev_parent_comm exec = []"
    and "1 / 2 \<le> an_half_life (xc_analyzer cfg)"
    and "\<forall>t \<in> {xc_alert_threshold cfg, xc_whisper_threshold cfg, pf_llm_threshold (xc_pipe cfg)}. f32_less (to_f32 (15 / 100)) t"
  shows "pl_inbox (xs_pipe (process_exec_event cfg tx env exec st)) = pl_inbox (xs_pipe st) \<and>
    xs_triggers (process_exec_event cfg tx env exec st) = xs_triggers st \<and>
    pl_submitted (xs_pipe (process_exec_event cfg tx env exec st)) = pl_submitted (xs_pipe st)"
proof -
  obtain v st1 where j: "judge_exec cfg tx env exec e sha st = (v, st1)" by (cases "judge_exec cfg tx env exec e sha st")
  then have v: "v = fst x1" using quiet_stages[OF assms(1,2,4-7), of tx] by simp
  obtain q where q: "vd_suspicion v = Fin q" "q \<le> f32_round (15 / 100)" using settled_intact[OF assms(1,8)] v by blast
  have "\<not> f32_le t (vd_suspicion v)" if "f32_less (to_f32 (15 / 100)) t" for t
    using that q by (cases t) (auto simp: to_f32_unit f32_le_def)
  then show ?thesis using process_exec_unrouted[OF _ assms(2,3) j assms(8)] assms(9) by blast
qed

definition demo_bash_index :: package_index where
  "demo_bash_index = index_unavailable\<lparr>px_by_path := [path_key ''/usr/bin/bash'' \<mapsto> [2]], px_available := True\<rparr>"

definition demo_md5_env :: "u8 \<Rightarrow> exec_env" where
  "demo_md5_env b = (demo_exec_env False)\<lparr>xe_files := \<lparr>fv_sha256 = (\<lambda>_. None), fv_md5 = (\<lambda>_. Some [b]), fv_mtimes = (\<lambda>_. (None, None))\<rparr>\<rparr>"

lemma demo_settled:
  "fst (settled demo_exec_config (demo_md5_env b) exec ''/usr/bin/bash'' [1] (demo_exec_state demo_bash_index)) =
     (if b = 2 then PackagedIntact else PackagedModified)"
  by (simp add: settled_def provenance_stage_def demo_md5_env_def demo_exec_env_def demo_exec_state_def demo_bash_index_def
      cache_classify_def cache_install_def cache_empty_def memoised_def settle_provenance_def index_classify_def database_moved_def
      index_unavailable_def split_beta)

theorem packaged_program_mutes_rules_witness:
  "suspicious_args_check (map ascii_lower) (from_exec (demo_exec [] ''/usr/bin/bash'' [''bash'', ''-i''])) \<noteq> None \<and>
   pl_inbox (xs_pipe (process_exec_event demo_exec_config demo_exec_texts (demo_md5_env 2) (demo_exec [] ''/usr/bin/bash'' [''bash'', ''-i''])
     (demo_exec_state demo_bash_index))) = pl_inbox (xs_pipe (demo_exec_state demo_bash_index))"
proof -
  let ?ex = "demo_exec [] ''/usr/bin/bash'' [''bash'', ''-i'']" let ?st = "demo_exec_state demo_bash_index"
  have sus: "suspicious_args_check (map ascii_lower) (from_exec ?ex) \<noteq> None" by code_simp
  obtain x1 where x1: "settled demo_exec_config (demo_md5_env 2) ?ex ''/usr/bin/bash'' [1] ?st = (PackagedIntact, x1)"
    using demo_settled[of 2 ?ex] by (metis prod.collapse)
  have "f32_less (to_f32 (15 / 100)) t" if "t \<in> {to_f32 (7 / 10), to_f32 (6 / 10), Fin 1}" for t
  proof -
    have "f32_round (15 / 100) < 1 / 2" "1 / 2 \<le> f32_round (6 / 10)" "f32_round (6 / 10) \<le> f32_round (7 / 10)"
      using f32_round_eqI[of "- 3" "15 / 100" 10066330] f32_round_eqI[of "- 1" "6 / 10" 10066330] f32_round_mono_unit[of "6 / 10" "7 / 10"]
      by (simp_all add: pow2_def)
    then show ?thesis using that by (auto simp: to_f32_unit)
  qed
  then have t: "\<forall>t \<in> {xc_alert_threshold demo_exec_config, xc_whisper_threshold demo_exec_config,
      pf_llm_threshold (xc_pipe demo_exec_config)}. f32_less (to_f32 (15 / 100)) t"
    by (simp add: demo_exec_config_def demo_config_def)
  have "base_name ''/usr/bin/bash'' \<notin> set RECON" "defense_classify ''/usr/bin/bash'' [''bash'', ''-i''] = None" by code_simp+
  from packaged_program_mutes_rules[OF x1 _ _ _ _ _ _ _ t, of demo_exec_texts] this sus
  show ?thesis by (simp add: demo_md5_env_def)
qed

section \<open>Which rule names the alert\<close>

lemma leading_hit_early:
  assumes "vd_rule_hits v = early @ later" "h \<in> set early" "rh_severity h = SevHigh"
  shows "\<exists>l \<in> set early. leading_hit v = Some l"
proof -
  have "vd_rule_hits v \<noteq> []" using assms(1,2) by auto
  then obtain l where l: "leading_hit v = Some l" by (cases "vd_rule_hits v") (simp_all add: leading_hit_def)
  obtain pre post where pp: "vd_rule_hits v = pre @ l # post" "\<forall>x \<in> set pre. band (rh_severity x) < band (rh_severity l)"
    by (rule leading_hit_first[OF l])
  have "band (rh_severity l) \<le> band SevHigh" by (cases "rh_severity l") simp_all
  then have "h \<notin> set pre" using pp(2) assms(3) by fastforce
  then have "l \<in> set early"
  proof -
    have "length early \<le> length pre \<Longrightarrow> set early \<subseteq> set pre"
    proof -
      assume le: "length early \<le> length pre"
      have "take (length early) (early @ later) = take (length early) (pre @ l # post)" using assms(1) pp(1) by simp
      then have "early = take (length early) pre" using le by simp
      then show "set early \<subseteq> set pre" by (metis set_take_subset)
    qed
    with assms(2) \<open>h \<notin> set pre\<close> have lt: "length pre < length early" by (meson not_le subsetD)
    have "(early @ later) ! length pre = l" using assms(1) pp(1) by (metis nth_append_length)
    then show ?thesis using lt by (metis nth_append nth_mem)
  qed
  then show ?thesis using l by blast
qed

text \<open>
  A rewritten system binary can be excused by what it was started with. The findings about rewritten
  packages are exempt from the damping for programs the neighbours know, by the rule that names the alert;
  but severities are compared in bands, and of several hits in the highest band the first one names it. When
  a pre-filter rule of that band also fired, the alert about a binary that no longer matches its package, at
  a score of one, carries the name of the other rule and is damped like any other.
\<close>

theorem rewritten_binary_can_be_excused:
  assumes "settled cfg env exec e sha st = (PackagedModified, x1)" "judge_exec cfg tx env exec e sha st = (v, st1)"
    and "h \<in> set (vd_rule_hits (prefilter cfg env exec sha st))" "rh_severity h = SevHigh"
    and "\<forall>x \<in> set (vd_rule_hits (prefilter cfg env exec sha st)). rh_rule_id x \<notin> set TAMPER_RULES"
    and "1 / 2 \<le> an_half_life (xc_analyzer cfg)" "\<not> confirmed c" "peers_familiar c \<noteq> 0"
    and "\<forall>x \<in> set (vd_rule_hits (prefilter cfg env exec sha st)). \<not> str_contains RECOGNITION_MARKER (rh_rule_id x @ '': '' @ rh_reason x)"
  shows "al_suspicion (exec_alert cfg env exec sha v) = Fin 1 \<and>
    al_suspicion (damp_for_recognition ((exec_alert cfg env exec sha v)\<lparr>al_confirmation := Some c\<rparr>)) = explained_suspicion (Fin 1) c"
proof -
  obtain prov y1 x5 tr pl where c: "settled cfg env exec e sha st = (prov, y1)" "folds y1 x5" "folds x5 (defense_stage cfg tx env exec x5)"
    "folds (defense_stage cfg tx env exec x5) (v, pl)"
    by (rule judge_exec_cases[OF assms(2,6)])
  have prov: "prov = PackagedModified" "y1 = x1" using c(1) assms(1) by simp_all
  have "folds x1 (v, pl)" using c(2-4) folds_trans prov(2) by blast
  then have ext: "extends (fst x1) v" by (simp add: folds_def)
  obtain w q where x1: "x1 = (w, q)" by (cases x1)
  note ps = provenance_stage_cases(1,2)[OF assms(1)[unfolded settled_def x1]]
  have "\<not> xe_classify_lost env" using assms(1) by (auto simp: settled_def provenance_stage_def)
  then have "vd_suspicion w = Fin 1" using ps(1) by (simp add: adjust_score_def)
  then have v1: "vd_suspicion v = Fin 1" using ext x1 by (auto simp: extends_def score_def)
  obtain later where "vd_rule_hits v = vd_rule_hits (prefilter cfg env exec sha st) @ later" using ext x1 ps(2) by (auto simp: extends_def)
  from leading_hit_early[OF this assms(3,4)] obtain l where l: "l \<in> set (vd_rule_hits (prefilter cfg env exec sha st))" "leading_hit v = Some l"
    by blast
  have "al_rule_id (exec_alert cfg env exec sha v) \<notin> set TAMPER_RULES" using l assms(5) by (simp add: leading_rule_id_def)
  moreover have "al_rationale (exec_alert cfg env exec sha v) = rh_rule_id l @ '': '' @ rh_reason l"
    by (simp add: exec_alert_def leading_rule_message_def l(2) builder_context_def builder_exe_sha256_hex_def builder_subject_def builder_raw_def)
  ultimately show ?thesis using assms(7-9) l(1) v1 by (simp add: damp_for_recognition_def Let_def)
qed

theorem rewritten_binary_can_be_excused_witness:
  "let ex = demo_exec [] ''/usr/bin/bash'' [''bash'', ''-i''];
       v = fst (judge_exec demo_exec_config demo_exec_texts (demo_md5_env 3) ex ''/usr/bin/bash'' [1] (demo_exec_state demo_bash_index));
       c = \<lparr>peers_asked = 1, peers_unseen = 0, peers_seen = 0, peers_no_reply = 0, peers_refused = 0, peers_incomparable = 0,
         peers_familiar = 1, ac_quorum = 2, confirmed = False\<rparr>;
       a = exec_alert demo_exec_config (demo_md5_env 3) ex [1] v
   in al_suspicion a = Fin 1 \<and> al_suspicion (damp_for_recognition (a\<lparr>al_confirmation := Some c\<rparr>)) = explained_suspicion (Fin 1) c"
  unfolding Let_def
proof (rule rewritten_binary_can_be_excused[where h = "\<lparr>rh_rule_id = ''exec_suspicious_args'', rh_severity = SevHigh,
    rh_reason = ''suspicious argv pattern: bash -i''\<rparr>" and sha = "[1]" and e = "''/usr/bin/bash''"])
  let ?ex = "demo_exec [] ''/usr/bin/bash'' [''bash'', ''-i'']" let ?st = "demo_exec_state demo_bash_index"
  show "settled demo_exec_config (demo_md5_env 3) ?ex ''/usr/bin/bash'' [1] ?st =
      (PackagedModified, snd (settled demo_exec_config (demo_md5_env 3) ?ex ''/usr/bin/bash'' [1] ?st))"
    using demo_settled[of 3 ?ex] by (simp add: prod_eq_iff)
  have "evaluate_all (map ascii_lower) default_rules (from_exec ?ex) =
      [\<lparr>rh_rule_id = ''exec_suspicious_args'', rh_severity = SevHigh, rh_reason = ''suspicious argv pattern: bash -i''\<rparr>]"
    by code_simp
  then have hits: "vd_rule_hits (prefilter demo_exec_config (demo_md5_env 3) ?ex [1] ?st) =
      [\<lparr>rh_rule_id = ''exec_suspicious_args'', rh_severity = SevHigh, rh_reason = ''suspicious argv pattern: bash -i''\<rparr>]"
    by (simp add: prefilter_def analyze_def Let_def demo_md5_env_def demo_exec_env_def)
  show "\<lparr>rh_rule_id = ''exec_suspicious_args'', rh_severity = SevHigh, rh_reason = ''suspicious argv pattern: bash -i''\<rparr> \<in>
      set (vd_rule_hits (prefilter demo_exec_config (demo_md5_env 3) ?ex [1] ?st))" by (simp add: hits)
  show "\<forall>x \<in> set (vd_rule_hits (prefilter demo_exec_config (demo_md5_env 3) ?ex [1] ?st)). rh_rule_id x \<notin> set TAMPER_RULES"
    by (simp add: hits TAMPER_RULES_def MODIFIED_RULE_def)
  have "\<not> str_contains RECOGNITION_MARKER ''exec_suspicious_args: suspicious argv pattern: bash -i''" by code_simp
  then show "\<forall>x \<in> set (vd_rule_hits (prefilter demo_exec_config (demo_md5_env 3) ?ex [1] ?st)).
      \<not> str_contains RECOGNITION_MARKER (rh_rule_id x @ '': '' @ rh_reason x)" by (simp add: hits)
qed (simp_all add: prod_eq_iff)

end
