(* ===== verification/Watchdog.thy ===== *)
theory Watchdog
  imports Enrollment Corroborate "HOL-Library.AList" "HOL-Library.Char_ord" "HOL-Library.List_Lexorder"
begin

text \<open>
  The two watchdogs of an agent: \<open>crates/bowery-agent/src/probe_watchdog.rs\<close> on the health of the kernel
  sensor (\<open>ProbeHealth\<close> of \<open>bowery-events/src/source.rs\<close>), and \<open>peer_watchdog.rs\<close> on neighbours that stop
  gossiping. A task is the sequence of its checks; times of the monotonic clock are milliseconds, what the
  wall clock shows is an argument.
\<close>

section \<open>Health of the sensor\<close>

definition PROBE_COUNT :: nat where "PROBE_COUNT = 7"

definition PROBE_NAMES :: "string list" where
  "PROBE_NAMES = [''exec'', ''exit'', ''connect'', ''file'', ''module'', ''ptrace'', ''fork'']"

record loaded_object =
  lo_path :: string
  lo_sha256 :: string

record probe_health =
  ph_attached :: "bool list"
  ph_emitted :: "u64 list"
  ph_parse_failed :: "u64 list"
  ph_kernel_drops :: "u64 list"
  ph_kernel_drops_available :: bool
  ph_last_event_unix_ms :: "u64 list"
  ph_stopped :: "string option"
  ph_object :: "loaded_object option"

definition probe_health_new :: probe_health where
  "probe_health_new = \<lparr>ph_attached = replicate PROBE_COUNT False, ph_emitted = replicate PROBE_COUNT 0,
     ph_parse_failed = replicate PROBE_COUNT 0, ph_kernel_drops = replicate PROBE_COUNT 0, ph_kernel_drops_available = False,
     ph_last_event_unix_ms = replicate PROBE_COUNT 0, ph_stopped = None, ph_object = None\<rparr>"

definition mark_attached :: "nat \<Rightarrow> probe_health \<Rightarrow> probe_health" where
  "mark_attached probe h = (if probe < PROBE_COUNT then h\<lparr>ph_attached := (ph_attached h)[probe := True]\<rparr> else h)"

text \<open>The counters wrap.\<close>

definition probe_record_event :: "nat \<Rightarrow> u64 \<Rightarrow> probe_health \<Rightarrow> probe_health" where
  "probe_record_event probe now h =
     (if probe < PROBE_COUNT
      then h\<lparr>ph_emitted := (ph_emitted h)[probe := ph_emitted h ! probe + 1],
             ph_last_event_unix_ms := (ph_last_event_unix_ms h)[probe := now]\<rparr>
      else h)"

definition record_parse_failure :: "nat \<Rightarrow> probe_health \<Rightarrow> probe_health" where
  "record_parse_failure probe h =
     (if probe < PROBE_COUNT then h\<lparr>ph_parse_failed := (ph_parse_failed h)[probe := ph_parse_failed h ! probe + 1]\<rparr> else h)"

definition set_kernel_drops :: "nat \<Rightarrow> u64 \<Rightarrow> probe_health \<Rightarrow> probe_health" where
  "set_kernel_drops probe drops h =
     (if probe < PROBE_COUNT
      then h\<lparr>ph_kernel_drops := (ph_kernel_drops h)[probe := drops], ph_kernel_drops_available := True\<rparr> else h)"

definition set_object :: "crypto \<Rightarrow> string \<Rightarrow> bytes \<Rightarrow> probe_health \<Rightarrow> probe_health" where
  "set_object c path0 bs h = h\<lparr>ph_object := Some \<lparr>lo_path = path0, lo_sha256 = hex_lower (sha256 c bs)\<rparr>\<rparr>"

definition mark_stopped :: "string \<Rightarrow> probe_health \<Rightarrow> probe_health" where
  "mark_stopped reason h = h\<lparr>ph_stopped := Some reason\<rparr>"

definition is_watching :: "probe_health \<Rightarrow> bool" where
  "is_watching h \<longleftrightarrow> ph_stopped h = None \<and> list_ex (\<lambda>a. a) (ph_attached h)"

definition total_kernel_drops :: "probe_health \<Rightarrow> u64" where
  "total_kernel_drops h = sum_list (ph_kernel_drops h)"

record probe_snapshot =
  ss_name :: string
  ss_attached :: bool
  ss_emitted :: u64
  ss_parse_failed :: u64
  ss_kernel_drops :: "u64 option"
  ss_last_event :: "u64 option"

definition probe_snapshots :: "probe_health \<Rightarrow> probe_snapshot list" where
  "probe_snapshots h =
     map (\<lambda>i. \<lparr>ss_name = PROBE_NAMES ! i, ss_attached = ph_attached h ! i, ss_emitted = ph_emitted h ! i,
       ss_parse_failed = ph_parse_failed h ! i,
       ss_kernel_drops = (if ph_kernel_drops_available h then Some (ph_kernel_drops h ! i) else None),
       ss_last_event = (if ph_last_event_unix_ms h ! i = 0 then None else Some (ph_last_event_unix_ms h ! i))\<rparr>) [0..<PROBE_COUNT]"

section \<open>The probe watchdog\<close>

definition SENSOR_RULE :: string where "SENSOR_RULE = ''probe.sensor_blind''"
definition PROBE_REMIND_AFTER :: nat where "PROBE_REMIND_AFTER = 3600000"
definition PROBE_STARTUP_GRACE :: nat where "PROBE_STARTUP_GRACE = 30000"
definition SENSOR_SUSPICION :: f32 where "SENSOR_SUSPICION = to_f32 (95 / 100)"

datatype sensor_verdict = SensorHealthy | SensorBlind string | SensorDropping u64 u64 | SensorStarting

fun is_healthy :: "sensor_verdict \<Rightarrow> bool" where
  "is_healthy SensorHealthy = True"
| "is_healthy SensorStarting = True"
| "is_healthy _ = False"

fun sensor_kind :: "sensor_verdict \<Rightarrow> string" where
  "sensor_kind SensorHealthy = ''healthy''"
| "sensor_kind (SensorBlind _) = ''blind''"
| "sensor_kind (SensorDropping _ _) = ''dropping''"
| "sensor_kind SensorStarting = ''starting''"

definition assess :: "probe_health option \<Rightarrow> u64 \<Rightarrow> nat \<Rightarrow> sensor_verdict" where
  "assess health previous_drops since_start =
     (case health of
        None \<Rightarrow> SensorBlind ''no kernel event source: the BPF object is missing or failed to load, so this agent observes no execs, exits, or connections''
      | Some h \<Rightarrow>
          (case ph_stopped h of
             Some reason \<Rightarrow> SensorBlind (''kernel event source stopped: '' @ reason)
           | None \<Rightarrow>
               if \<not> is_watching h
               then (if since_start < PROBE_STARTUP_GRACE then SensorStarting
                     else SensorBlind (''no kernel probe attached within '' @ dec (PROBE_STARTUP_GRACE div 1000) @ ''s of start''))
               else let tot = total_kernel_drops h in
                 if previous_drops < tot then SensorDropping tot (tot - previous_drops) else SensorHealthy))"

fun sensor_rationale :: "sensor_verdict \<Rightarrow> string" where
  "sensor_rationale SensorHealthy = ''kernel sensor healthy''"
| "sensor_rationale SensorStarting = ''kernel sensor still attaching''"
| "sensor_rationale (SensorBlind reason) =
     ''SENSOR BLIND '' @ em_dash @ '' '' @ reason @ ''. Every detection on this host is inactive while this persists; its whisper answers '' @
     ''should not be trusted as evidence of absence.''"
| "sensor_rationale (SensorDropping tot since_last) =
     ''SENSOR DROPPING EVENTS '' @ em_dash @ '' the kernel discarded '' @ dec (unat since_last) @ '' event(s) since the last check ('' @
     dec (unat tot) @ '' total) because a ring buffer was full. History on this host has gaps; consider raising the ring sizes in '' @
     ''the BPF object if this recurs.''"

text \<open>
  The task: the drops of the last check, the kind and time of the last alert, and the alerts handed to the
  inbox. A check reads the clock twice.
\<close>

record sensor_check =
  sc_health :: "probe_health option"
  sc_since_start :: nat
  sc_now :: nat
  sc_unix_ms :: "nat \<Rightarrow> u64"

record sensor_watch =
  sw_previous_drops :: u64
  sw_last_alert :: "(string \<times> nat) option"

definition sensor_watch_start :: sensor_watch where
  "sensor_watch_start = \<lparr>sw_previous_drops = 0, sw_last_alert = None\<rparr>"

definition sensor_due :: "sensor_verdict \<Rightarrow> nat \<Rightarrow> (string \<times> nat) option \<Rightarrow> bool" where
  "sensor_due v now last_alert =
     (case last_alert of None \<Rightarrow> True | Some (kind, t) \<Rightarrow> kind \<noteq> sensor_kind v \<or> PROBE_REMIND_AFTER \<le> now - t)"

definition sensor_alert :: "fingerprint \<Rightarrow> string \<Rightarrow> sensor_verdict \<Rightarrow> (nat \<Rightarrow> u64) \<Rightarrow> alert" where
  "sensor_alert me backend v ms =
     builder_raw (ms 1) me backend SENSOR_RULE (''sensor-'' @ sensor_kind v @ ''-'' @ dec (unat (ms 0))) SENSOR_SUSPICION (sensor_rationale v)"

definition sensor_step :: "fingerprint \<Rightarrow> string \<Rightarrow> sensor_check \<Rightarrow> sensor_watch \<Rightarrow> alert option \<times> sensor_watch" where
  "sensor_step me backend ck w =
     (let v = assess (sc_health ck) (sw_previous_drops w) (sc_since_start ck);
          w1 = (case v of SensorDropping tot _ \<Rightarrow> w\<lparr>sw_previous_drops := tot\<rparr> | _ \<Rightarrow> w)
      in if is_healthy v then (None, w1\<lparr>sw_last_alert := None\<rparr>)
         else if \<not> sensor_due v (sc_now ck) (sw_last_alert w1) then (None, w1)
         else (Some (sensor_alert me backend v (sc_unix_ms ck)), w1\<lparr>sw_last_alert := Some (sensor_kind v, sc_now ck)\<rparr>))"

definition tell_alert :: "u64 \<Rightarrow> alert \<Rightarrow> inbox \<times> (string \<times> f32) list \<Rightarrow> inbox \<times> (string \<times> f32) list" where
  "tell_alert now a s =
     (case inbox_append now a (fst s) of (r, ib) \<Rightarrow> (ib, if stored r then snd s @ [(al_episode_id a, al_suspicion a)] else snd s))"

definition sensor_tick ::
    "fingerprint \<Rightarrow> string \<Rightarrow> sensor_check \<Rightarrow> sensor_watch \<times> inbox \<times> (string \<times> f32) list \<Rightarrow> sensor_watch \<times> inbox \<times> (string \<times> f32) list" where
  "sensor_tick me backend ck s =
     (case sensor_step me backend ck (fst s) of
        (None, w) \<Rightarrow> (w, snd s)
      | (Some a, w) \<Rightarrow> (w, tell_alert (sc_unix_ms ck 2) a (snd s)))"

section \<open>The peer watchdog\<close>

definition PEER_RULE :: string where "PEER_RULE = ''peer.silent''"
definition PEER_DEFAULT_GRACE :: nat where "PEER_DEFAULT_GRACE = 300000"
definition PEER_STARTUP_GRACE :: nat where "PEER_STARTUP_GRACE = 120000"
definition PEER_REMIND_AFTER :: nat where "PEER_REMIND_AFTER = 3600000"

datatype fleet_verdict = FleetStarting | FleetHealthy | FleetMissing "fingerprint list" | FleetIsolated nat

text \<open>The hash maps are association lists; what iterates over them sorts or counts.\<close>

record peer_liveness =
  lv_last_seen :: "(fingerprint \<times> nat) list"
  lv_reported :: "(fingerprint \<times> nat) list"
  lv_isolated_reported :: "nat option"
  lv_grace :: nat

definition liveness_new :: "nat \<Rightarrow> peer_liveness" where
  "liveness_new grace = \<lparr>lv_last_seen = [], lv_reported = [], lv_isolated_reported = None, lv_grace = grace\<rparr>"

definition see_peer :: "nat \<Rightarrow> peer_liveness \<Rightarrow> peer_info \<Rightarrow> peer_liveness" where
  "see_peer now st p =
     st\<lparr>lv_last_seen := AList.update (pi_fingerprint p) now (lv_last_seen st),
        lv_reported := AList.delete (pi_fingerprint p) (lv_reported st)\<rparr>"

definition see_peers :: "peer_info list \<Rightarrow> nat \<Rightarrow> peer_liveness \<Rightarrow> peer_liveness" where
  "see_peers live now st =
     (let st1 = foldl (see_peer now) st live in if live \<noteq> [] then st1\<lparr>lv_isolated_reported := None\<rparr> else st1)"

definition is_missing :: "nat \<Rightarrow> peer_liveness \<Rightarrow> fingerprint \<times> nat \<Rightarrow> bool" where
  "is_missing now st x \<longleftrightarrow> lv_grace st \<le> now - snd x \<and>
     (case map_of (lv_reported st) (fst x) of None \<Rightarrow> True | Some t \<Rightarrow> PEER_REMIND_AFTER \<le> now - t)"

definition missing_peers :: "crypto \<Rightarrow> nat \<Rightarrow> peer_liveness \<Rightarrow> fingerprint list" where
  "missing_peers c now st = sort_key (to_hex c) (map fst (filter (is_missing now st) (lv_last_seen st)))"

definition observe_peers :: "crypto \<Rightarrow> peer_info list \<Rightarrow> nat \<Rightarrow> nat \<Rightarrow> peer_liveness \<Rightarrow> fleet_verdict \<times> peer_liveness" where
  "observe_peers c live since_start now st =
     (let st1 = see_peers live now st in
      if since_start < PEER_STARTUP_GRACE then (FleetStarting, st1)
      else if lv_last_seen st1 = [] then (FleetHealthy, st1)
      else if live = []
      then (if list_all (\<lambda>x. lv_grace st1 \<le> now - snd x) (lv_last_seen st1) then (FleetIsolated (length (lv_last_seen st1)), st1)
            else (FleetHealthy, st1))
      else let missing = missing_peers c now st1 in
        if missing = [] then (FleetHealthy, st1)
        else (FleetMissing missing, st1\<lparr>lv_reported := foldl (\<lambda>r fp. AList.update fp now r) (lv_reported st1) missing\<rparr>))"

definition isolation_is_new :: "nat \<Rightarrow> peer_liveness \<Rightarrow> bool" where
  "isolation_is_new now st = (case lv_isolated_reported st of None \<Rightarrow> True | Some t \<Rightarrow> PEER_REMIND_AFTER \<le> now - t)"

definition mark_isolated_reported :: "nat \<Rightarrow> peer_liveness \<Rightarrow> peer_liveness" where
  "mark_isolated_reported now st = st\<lparr>lv_isolated_reported := Some now\<rparr>"

definition missing_alert :: "crypto \<Rightarrow> fingerprint \<Rightarrow> string \<Rightarrow> fingerprint \<Rightarrow> nat \<Rightarrow> nat \<Rightarrow> u64 \<Rightarrow> u64 \<Rightarrow> alert" where
  "missing_alert c me backend peer still_visible grace ms built =
     builder_context
       [attribute_new ''peer_fp'' (to_hex c peer), attribute_new ''peers_still_visible'' (dec still_visible),
        attribute_new ''silent_for_at_least'' (dec (grace div 60000) @ ''m'')]
       (builder_raw built me backend PEER_RULE (''peer-silent-'' @ to_hex c peer @ ''-'' @ dec (unat ms)) (to_f32 (9 / 10))
         (''peer '' @ to_hex c peer @ '' stopped gossiping more than '' @ dec (grace div 60000) @ ''m ago while '' @ dec still_visible @
          '' other peer(s) remain visible from here, so this is that host rather than this one. An agent that is not running detects nothing '' @
          ''and answers no corroboration query '' @ em_dash @ '' check whether it was stopped, and by whom''))"

definition isolated_alert :: "fingerprint \<Rightarrow> string \<Rightarrow> nat \<Rightarrow> u64 \<Rightarrow> u64 \<Rightarrow> alert" where
  "isolated_alert me backend known ms built =
     builder_context [attribute_new ''peers_known'' (dec known)]
       (builder_raw built me backend PEER_RULE (''peer-isolated-'' @ dec (unat ms)) (to_f32 (8 / 10))
         (''this agent can no longer see any of the '' @ dec known @ '' peer(s) it had been gossiping with. That is reported about this host '' @
          ''rather than about them: when every peer disappears at once the usual cause is this machine'' @ [CHR 0x27] @
          ''s own network, and accusing '' @ dec known @ '' neighbours would be '' @ dec known @
          '' false findings. While isolated this agent cannot corroborate anything, so its alerts carry no neighbourhood evidence''))"

record peer_check =
  pc_live :: "peer_info list"
  pc_since_start :: nat
  pc_now :: nat
  pc_unix_ms :: "nat \<Rightarrow> u64"

text \<open>The alerts a check hands to the inbox, with the time of the append.\<close>

definition peer_step :: "crypto \<Rightarrow> fingerprint \<Rightarrow> string \<Rightarrow> peer_check \<Rightarrow> peer_liveness \<Rightarrow> (alert \<times> u64) list \<times> peer_liveness" where
  "peer_step c me backend ck st =
     (let ms = pc_unix_ms ck in
      case observe_peers c (pc_live ck) (pc_since_start ck) (pc_now ck) st of
        (FleetMissing missing, st1) \<Rightarrow>
          (map (\<lambda>(i, peer). (missing_alert c me backend peer (length (pc_live ck)) (lv_grace st) (ms (3 * i)) (ms (3 * i + 1)), ms (3 * i + 2)))
             (enumerate 0 missing), st1)
      | (FleetIsolated known, st1) \<Rightarrow>
          if isolation_is_new (pc_now ck) st1
          then ([(isolated_alert me backend known (ms 0) (ms 1), ms 2)], mark_isolated_reported (pc_now ck) st1)
          else ([], st1)
      | (_, st1) \<Rightarrow> ([], st1))"

definition peer_tick ::
    "crypto \<Rightarrow> fingerprint \<Rightarrow> string \<Rightarrow> peer_check \<Rightarrow> peer_liveness \<times> inbox \<times> (string \<times> f32) list \<Rightarrow> peer_liveness \<times> inbox \<times> (string \<times> f32) list" where
  "peer_tick c me backend ck s =
     (case peer_step c me backend ck (fst s) of (alerts, st) \<Rightarrow> (st, foldl (\<lambda>x (a, now). tell_alert now a x) (snd s) alerts))"

section \<open>Neighbours\<close>

definition live_fps :: "peer_check \<Rightarrow> fingerprint set" where
  "live_fps ck = pi_fingerprint ` set (pc_live ck)"

definition peer_run :: "crypto \<Rightarrow> fingerprint \<Rightarrow> string \<Rightarrow> nat \<Rightarrow> peer_check list \<Rightarrow> peer_liveness" where
  "peer_run c me backend grace hist = foldl (\<lambda>st ck. snd (peer_step c me backend ck st)) (liveness_new grace) hist"

definition accuses :: "crypto \<Rightarrow> peer_check \<Rightarrow> peer_liveness \<Rightarrow> fingerprint \<Rightarrow> bool" where
  "accuses c ck st fp \<longleftrightarrow>
     (case fst (observe_peers c (pc_live ck) (pc_since_start ck) (pc_now ck) st) of FleetMissing ms \<Rightarrow> fp \<in> set ms | _ \<Rightarrow> False)"

text \<open>When a peer was last live, from the history of the checks.\<close>

definition last_live :: "fingerprint \<Rightarrow> peer_check list \<Rightarrow> nat option" where
  "last_live fp hist = map_option pc_now (find (\<lambda>ck. fp \<in> live_fps ck) (rev hist))"

lemma see_peers_fold:
  "map_of (lv_last_seen (foldl (see_peer now) st live)) fp = (if fp \<in> pi_fingerprint ` set live then Some now else map_of (lv_last_seen st) fp)"
  "map_of (lv_reported (foldl (see_peer now) st live)) fp = (if fp \<in> pi_fingerprint ` set live then None else map_of (lv_reported st) fp)"
  "lv_grace (foldl (see_peer now) st live) = lv_grace st"
  "distinct (map fst (lv_last_seen st)) \<Longrightarrow> distinct (map fst (lv_last_seen (foldl (see_peer now) st live)))"
  by (induction live arbitrary: st) (auto simp: see_peer_def update_conv' delete_conv' distinct_update)

lemma see_peers_facts:
  "map_of (lv_last_seen (see_peers live now st)) fp = (if fp \<in> pi_fingerprint ` set live then Some now else map_of (lv_last_seen st) fp)"
  "map_of (lv_reported (see_peers live now st)) fp = (if fp \<in> pi_fingerprint ` set live then None else map_of (lv_reported st) fp)"
  "lv_grace (see_peers live now st) = lv_grace st"
  "distinct (map fst (lv_last_seen st)) \<Longrightarrow> distinct (map fst (lv_last_seen (see_peers live now st)))"
  by (simp_all add: see_peers_def Let_def see_peers_fold)

lemma report_fold: "map_of (foldl (\<lambda>r fp. AList.update fp now r) r ms) fp = (if fp \<in> set ms then Some now else map_of r fp)"
  by (induction ms arbitrary: r) (auto simp: update_conv')

lemma accuses_iff:
  assumes "distinct (map fst (lv_last_seen st))"
  shows "accuses c ck st fp \<longleftrightarrow> PEER_STARTUP_GRACE \<le> pc_since_start ck \<and> pc_live ck \<noteq> [] \<and>
    (\<exists>t. map_of (lv_last_seen (see_peers (pc_live ck) (pc_now ck) st)) fp = Some t \<and> is_missing (pc_now ck) (see_peers (pc_live ck) (pc_now ck) st) (fp, t))"
proof -
  define s1 where "s1 = see_peers (pc_live ck) (pc_now ck) st"
  have "fp \<in> set (missing_peers c (pc_now ck) s1) \<longleftrightarrow> (\<exists>t. (fp, t) \<in> set (lv_last_seen s1) \<and> is_missing (pc_now ck) s1 (fp, t))"
    by (force simp: missing_peers_def)
  moreover have "distinct (map fst (lv_last_seen s1))" unfolding s1_def by (rule see_peers_facts(4) [OF assms])
  ultimately have m: "fp \<in> set (missing_peers c (pc_now ck) s1) \<longleftrightarrow> (\<exists>t. map_of (lv_last_seen s1) fp = Some t \<and> is_missing (pc_now ck) s1 (fp, t))"
    by simp
  have "lv_last_seen s1 = [] \<Longrightarrow> missing_peers c (pc_now ck) s1 = []" by (simp add: missing_peers_def)
  then show ?thesis unfolding s1_def [symmetric] m [symmetric]
    by (auto simp: accuses_def observe_peers_def s1_def [symmetric] Let_def)
qed

lemma peer_step_state:
  "lv_last_seen (snd (peer_step c me backend ck st)) = lv_last_seen (see_peers (pc_live ck) (pc_now ck) st)"
  "lv_grace (snd (peer_step c me backend ck st)) = lv_grace st"
  "map_of (lv_reported (snd (peer_step c me backend ck st))) fp =
     (if accuses c ck st fp then Some (pc_now ck) else map_of (lv_reported (see_peers (pc_live ck) (pc_now ck) st)) fp)"
  by (auto simp: peer_step_def observe_peers_def accuses_def Let_def mark_isolated_reported_def report_fold see_peers_facts(3))

lemma peer_run_snoc [simp]:
  "peer_run c me backend grace [] = liveness_new grace"
  "peer_run c me backend grace (hist @ [ck]) = snd (peer_step c me backend ck (peer_run c me backend grace hist))"
  by (simp_all add: peer_run_def)

lemma peer_run_facts:
  "distinct (map fst (lv_last_seen (peer_run c me backend grace hist)))" "lv_grace (peer_run c me backend grace hist) = grace"
  "map_of (lv_last_seen (peer_run c me backend grace hist)) fp = last_live fp hist"
proof (induction hist rule: rev_induct)
  case Nil
  { case 1 show ?case by (simp add: liveness_new_def) }
  { case 2 show ?case by (simp add: liveness_new_def) }
  { case 3 show ?case by (simp add: liveness_new_def last_live_def) }
next
  case (snoc ck hist)
  { case 1 show ?case using snoc by (simp add: peer_step_state see_peers_facts) }
  { case 2 show ?case using snoc by (simp add: peer_step_state) }
  { case 3 show ?case using snoc by (simp add: peer_step_state see_peers_facts last_live_def live_fps_def) }
qed

text \<open>
  No neighbour is accused without standing. When a check reports a peer missing, the agent is past its
  startup, it sees some other peer, and the peer was live at an earlier check, the last of which is at
  least the grace period ago.
\<close>

theorem accusation_needs_standing:
  assumes "0 < grace" "accuses c ck (peer_run c me backend grace hist) fp"
  shows "PEER_STARTUP_GRACE \<le> pc_since_start ck \<and> live_fps ck \<noteq> {} \<and> fp \<notin> live_fps ck \<and>
    (\<exists>t. last_live fp hist = Some t \<and> grace \<le> pc_now ck - t)"
proof -
  let ?s = "peer_run c me backend grace hist"
  from assms(2) obtain t where t: "PEER_STARTUP_GRACE \<le> pc_since_start ck" "pc_live ck \<noteq> []"
      "map_of (lv_last_seen (see_peers (pc_live ck) (pc_now ck) ?s)) fp = Some t" "is_missing (pc_now ck) (see_peers (pc_live ck) (pc_now ck) ?s) (fp, t)"
    unfolding accuses_iff [OF peer_run_facts(1)] by blast
  have g: "grace \<le> pc_now ck - t" using t(4) by (simp add: is_missing_def see_peers_facts peer_run_facts)
  moreover have fp: "fp \<notin> live_fps ck" using t(3) g assms(1) by (auto simp: see_peers_facts live_fps_def)
  moreover have "last_live fp hist = Some t" using t(3) fp by (simp add: see_peers_facts live_fps_def peer_run_facts)
  ultimately show ?thesis using t(1,2) by (simp add: live_fps_def)
qed

lemma reported_was_accused:
  "map_of (lv_reported (peer_run c me backend grace hist)) fp = Some t \<Longrightarrow>
   \<exists>h1 ck h2. hist = h1 @ ck # h2 \<and> pc_now ck = t \<and> accuses c ck (peer_run c me backend grace h1) fp \<and> (\<forall>k \<in> set h2. fp \<notin> live_fps k)"
proof (induction hist rule: rev_induct)
  case (snoc ck hist)
  show ?case
  proof (cases "accuses c ck (peer_run c me backend grace hist) fp")
    case True
    with snoc.prems have "pc_now ck = t" by (simp add: peer_step_state)
    with True show ?thesis by (intro exI [of _ hist] exI [of _ ck] exI [of _ "[]"]) simp
  next
    case False
    with snoc.prems have "fp \<notin> live_fps ck" "map_of (lv_reported (peer_run c me backend grace hist)) fp = Some t"
      by (auto simp: peer_step_state see_peers_facts live_fps_def split: if_splits)
    with snoc.IH obtain h1 k h2 where "hist = h1 @ k # h2" "pc_now k = t" "accuses c k (peer_run c me backend grace h1) fp"
      "\<forall>x \<in> set h2. fp \<notin> live_fps x" by blast
    with \<open>fp \<notin> live_fps ck\<close> show ?thesis by (intro exI [of _ h1] exI [of _ k] exI [of _ "h2 @ [ck]"]) auto
  qed
qed (simp add: liveness_new_def)

text \<open>An alert that names a peer as silent.\<close>

definition names_peer :: "crypto \<Rightarrow> fingerprint \<Rightarrow> alert \<Rightarrow> bool" where
  "names_peer c fp a \<longleftrightarrow> al_rule_id a = PEER_RULE \<and> attribute_new ''peer_fp'' (to_hex c fp) \<in> set (al_context a)"

lemma accused_is_named:
  assumes "accuses c ck st fp"
  shows "\<exists>(a, now) \<in> set (fst (peer_step c me backend ck st)). names_peer c fp a"
proof -
  obtain ms st1 where ob: "observe_peers c (pc_live ck) (pc_since_start ck) (pc_now ck) st = (FleetMissing ms, st1)" and fp: "fp \<in> set ms"
    using assms by (cases "observe_peers c (pc_live ck) (pc_since_start ck) (pc_now ck) st") (auto simp: accuses_def split: fleet_verdict.splits)
  obtain i where "i < length ms" "ms ! i = fp" using fp by (auto simp: in_set_conv_nth)
  then have "(i, fp) \<in> set (enumerate 0 ms)" by (auto simp: in_set_enumerate_eq)
  moreover have "names_peer c fp (missing_alert c me backend fp n g x y)" for n g x y
    by (simp add: names_peer_def missing_alert_def builder_context_def builder_raw_def)
  ultimately show ?thesis unfolding peer_step_def ob Let_def by force
qed

text \<open>
  C22. A neighbour that falls silent is reported. If a peer was live at some check and at none since, the grace
  period is over, the agent is past its startup and still sees some peer, then this check or one within
  the last hour and after the peer was last seen hands the inbox an alert that names it.
\<close>

theorem silent_peer_is_reported:
  assumes "0 < grace" "fp \<in> live_fps seen" "\<forall>k \<in> set after. fp \<notin> live_fps k" "fp \<notin> live_fps ck"
    and "PEER_STARTUP_GRACE \<le> pc_since_start ck" "pc_live ck \<noteq> []" "pc_now seen + grace \<le> pc_now ck"
  shows "\<exists>h1 k h2. after @ [ck] = h1 @ k # h2 \<and> pc_now ck - pc_now k < PEER_REMIND_AFTER \<and>
    (\<exists>(a, now) \<in> set (fst (peer_step c me backend k (peer_run c me backend grace (before @ seen # h1)))). names_peer c fp a)"
proof -
  let ?hist = "before @ seen # after"
  let ?s = "peer_run c me backend grace ?hist"
  have "find (\<lambda>k. fp \<in> live_fps k) (rev ?hist) = Some seen"
  proof -
    have "find (\<lambda>k. fp \<in> live_fps k) (rev after @ xs) = find (\<lambda>k. fp \<in> live_fps k) xs" for xs
      using assms(3) by (induction after arbitrary: xs rule: rev_induct) auto
    then show ?thesis using assms(2) by simp
  qed
  then have ll: "last_live fp ?hist = Some (pc_now seen)" by (simp add: last_live_def)
  have ls: "map_of (lv_last_seen (see_peers (pc_live ck) (pc_now ck) ?s)) fp = Some (pc_now seen)"
    using assms(4) ll by (simp add: see_peers_facts peer_run_facts live_fps_def)
  have rp: "map_of (lv_reported (see_peers (pc_live ck) (pc_now ck) ?s)) fp = map_of (lv_reported ?s) fp"
    using assms(4) by (simp add: see_peers_facts live_fps_def)
  show ?thesis
  proof (cases "accuses c ck ?s fp")
    case True
    from accused_is_named [OF this] show ?thesis
      by (intro exI [of _ after] exI [of _ ck] exI [of _ "[]"]) (simp add: PEER_REMIND_AFTER_def)
  next
    case False
    then have "\<not> is_missing (pc_now ck) (see_peers (pc_live ck) (pc_now ck) ?s) (fp, pc_now seen)"
      using assms(5,6) ls unfolding accuses_iff [OF peer_run_facts(1)] by blast
    then obtain t where t: "map_of (lv_reported ?s) fp = Some t" "pc_now ck - t < PEER_REMIND_AFTER"
      using assms(7) rp by (auto simp: is_missing_def see_peers_facts peer_run_facts split: option.splits)
    from reported_was_accused [OF t(1)] obtain h1 k h2 where k: "?hist = h1 @ k # h2" "pc_now k = t"
      "accuses c k (peer_run c me backend grace h1) fp" "\<forall>x \<in> set h2. fp \<notin> live_fps x" by blast
    have "fp \<notin> live_fps k" using accusation_needs_standing [OF assms(1) k(3)] by blast
    with k(1,4) assms(2) obtain g where g: "h1 = before @ seen # g" "after = g @ k # h2"
      by (auto simp: append_eq_append_conv2 append_eq_Cons_conv Cons_eq_append_conv)
    from accused_is_named [OF k(3)] show ?thesis unfolding g
      using t(2) k(2) by (intro exI [of _ g] exI [of _ k] exI [of _ "h2 @ [ck]"]) simp
  qed
qed

definition demo_live :: "fingerprint \<Rightarrow> peer_info" where
  "demo_live fp = \<lparr>pi_fingerprint = fp, pi_verifying_key = [], pi_whisper_addr = [], pi_agent_version = [], pi_platform = [],
     pi_role_vector = None, pi_bloom_advert = None, pi_membership_grant = None, pi_log_report = None\<rparr>"

definition demo_check :: "fingerprint list \<Rightarrow> nat \<Rightarrow> peer_check" where
  "demo_check fps t = \<lparr>pc_live = map demo_live fps, pc_since_start = t, pc_now = t, pc_unix_ms = (\<lambda>_. 0)\<rparr>"

theorem silent_peer_is_reported_witness:
  "\<exists>h1 k h2. [demo_check [[2]] 200000] @ [demo_check [[2]] 400000] = h1 @ k # h2 \<and>
    (\<exists>(a, now) \<in> set (fst (peer_step demo_crypto [9] ''none'' k (peer_run demo_crypto [9] ''none'' PEER_DEFAULT_GRACE
       ([] @ demo_check [[1], [2]] 0 # h1)))). names_peer demo_crypto [1] a)"
proof -
  have "0 < PEER_DEFAULT_GRACE" "[1] \<in> live_fps (demo_check [[1], [2]] 0)" "\<forall>k \<in> set [demo_check [[2]] 200000]. [1] \<notin> live_fps k"
    "[1] \<notin> live_fps (demo_check [[2]] 400000)" "PEER_STARTUP_GRACE \<le> pc_since_start (demo_check [[2]] 400000)"
    "pc_live (demo_check [[2]] 400000) \<noteq> []" "pc_now (demo_check [[1], [2]] 0) + PEER_DEFAULT_GRACE \<le> pc_now (demo_check [[2]] 400000)"
    by (simp_all add: demo_check_def live_fps_def demo_live_def PEER_DEFAULT_GRACE_def PEER_STARTUP_GRACE_def)
  from silent_peer_is_reported [OF this, of demo_crypto "[9]" "''none''" "[]"] show ?thesis by blast
qed

text \<open>
  An agent that comes back from a partition accuses its neighbours. After a check that found the agent
  isolated, the first check that sees a single peer reports every other known peer missing, unless it was
  reported within the hour, although all that is known is that this agent saw nobody.
\<close>

theorem reconnecting_observer_accuses:
  assumes "fst (observe_peers c [] ss t (peer_run c me backend grace hist)) = FleetIsolated n"
    and "pc_live k = []" "pc_now k = t" "pc_live ck = [p]" "t \<le> pc_now ck" "PEER_STARTUP_GRACE \<le> pc_since_start ck"
    and "last_live q hist \<noteq> None" "q \<noteq> pi_fingerprint p" "map_of (lv_reported (peer_run c me backend grace hist)) q = None"
  shows "accuses c ck (peer_run c me backend grace (hist @ [k])) q"
proof -
  let ?s = "peer_run c me backend grace hist"
  obtain u where u: "map_of (lv_last_seen ?s) q = Some u" using assms(7) by (auto simp: peer_run_facts)
  have "list_all (\<lambda>x. grace \<le> t - snd x) (lv_last_seen ?s)"
    using assms(1) by (auto simp: observe_peers_def see_peers_def Let_def peer_run_facts split: if_splits)
  with map_of_SomeD [OF u] have old: "grace \<le> t - u" by (force simp: list_all_iff)
  have k: "see_peers (pc_live k) (pc_now k) ?s = ?s" by (simp add: assms(2) see_peers_def)
  have "\<not> accuses c k ?s q" unfolding accuses_iff [OF peer_run_facts(1)] using assms(2) by simp
  then have st: "map_of (lv_last_seen (peer_run c me backend grace (hist @ [k]))) q = Some u"
    "map_of (lv_reported (peer_run c me backend grace (hist @ [k]))) q = None"
    using u assms(9) by (simp_all add: peer_step_state k)
  have "is_missing (pc_now ck) (see_peers (pc_live ck) (pc_now ck) (peer_run c me backend grace (hist @ [k]))) (q, u)"
    using old assms(4,5,8) st(2) unfolding is_missing_def by (simp add: see_peers_facts peer_run_facts(2) del: peer_run_snoc)
  then show ?thesis unfolding accuses_iff [OF peer_run_facts(1)]
    using assms(4,6,8) st(1) by (simp add: see_peers_facts del: peer_run_snoc)
qed

section \<open>The sensor\<close>

definition sensor_run :: "fingerprint \<Rightarrow> string \<Rightarrow> sensor_check list \<Rightarrow> sensor_watch" where
  "sensor_run me backend hist = foldl (\<lambda>w ck. snd (sensor_step me backend ck w)) sensor_watch_start hist"

definition blind :: "sensor_check \<Rightarrow> bool" where
  "blind ck \<longleftrightarrow> (case sc_health ck of None \<Rightarrow> True
     | Some h \<Rightarrow> ph_stopped h \<noteq> None \<or> \<not> list_ex (\<lambda>a. a) (ph_attached h) \<and> PROBE_STARTUP_GRACE \<le> sc_since_start ck)"

lemma blind_assess: "(\<exists>r. assess (sc_health ck) d (sc_since_start ck) = SensorBlind r) \<longleftrightarrow> blind ck"
  by (auto simp: assess_def blind_def is_watching_def Let_def split: option.splits)

definition sensor_prefix :: "string \<Rightarrow> string" where
  "sensor_prefix kind = ''sensor-'' @ kind"

definition sensor_reports :: "fingerprint \<Rightarrow> string \<Rightarrow> string \<Rightarrow> sensor_check \<Rightarrow> sensor_watch \<Rightarrow> bool" where
  "sensor_reports me backend kind ck w \<longleftrightarrow>
     (\<exists>a. fst (sensor_step me backend ck w) = Some a \<and> al_rule_id a = SENSOR_RULE \<and> starts_with (al_episode_id a) (sensor_prefix kind))"

lemma sensor_alert_kind:
  "al_rule_id (sensor_alert me backend v ms) = SENSOR_RULE" "starts_with (al_episode_id (sensor_alert me backend v ms)) (sensor_prefix (sensor_kind v))"
  by (simp_all add: sensor_alert_def builder_raw_def starts_with_def sensor_prefix_def)

lemma last_alert_was_raised:
  "sw_last_alert (sensor_run me backend hist) = Some (kind, t) \<Longrightarrow>
   \<exists>h1 k h2. hist = h1 @ k # h2 \<and> sc_now k = t \<and> sensor_reports me backend kind k (sensor_run me backend h1)"
proof (induction hist rule: rev_induct)
  case (snoc ck hist)
  let ?w = "sensor_run me backend hist"
  have run: "sensor_run me backend (hist @ [ck]) = snd (sensor_step me backend ck ?w)" by (simp add: sensor_run_def)
  show ?case
  proof (cases "fst (sensor_step me backend ck ?w)")
    case None
    with snoc.prems have "sw_last_alert ?w = Some (kind, t)"
      unfolding run by (auto simp: sensor_step_def Let_def split: if_splits sensor_verdict.splits)
    with snoc.IH obtain h1 k h2 where "hist = h1 @ k # h2" "sc_now k = t" "sensor_reports me backend kind k (sensor_run me backend h1)" by blast
    then show ?thesis by (intro exI [of _ h1] exI [of _ k] exI [of _ "h2 @ [ck]"]) simp
  next
    case (Some a)
    then have "sc_now ck = t \<and> sensor_reports me backend kind ck ?w"
      using snoc.prems unfolding run sensor_reports_def
      by (auto simp: sensor_step_def Let_def sensor_alert_kind split: if_splits)
    then show ?thesis by (intro exI [of _ hist] exI [of _ ck] exI [of _ "[]"]) simp
  qed
qed (simp add: sensor_run_def sensor_watch_start_def)

text \<open>
  C23. Blindness is told. Whenever a check finds no source, a stopped one, or no probe attached after the time
  allowed, that check or one within the last hour hands the inbox an alert about a blind sensor.
\<close>

theorem blind_sensor_is_reported:
  assumes "blind ck"
  shows "\<exists>h1 k h2. hist @ [ck] = h1 @ k # h2 \<and> sc_now ck - sc_now k < PROBE_REMIND_AFTER \<and>
    sensor_reports me backend ''blind'' k (sensor_run me backend h1)"
proof -
  let ?w = "sensor_run me backend hist"
  obtain r where v: "assess (sc_health ck) (sw_previous_drops ?w) (sc_since_start ck) = SensorBlind r" using assms blind_assess by metis
  show ?thesis
  proof (cases "sensor_due (SensorBlind r) (sc_now ck) (sw_last_alert ?w)")
    case True
    then have "sensor_reports me backend ''blind'' ck ?w"
      using sensor_alert_kind [of me backend "SensorBlind r" "sc_unix_ms ck"] by (simp add: sensor_reports_def sensor_step_def v Let_def)
    then show ?thesis by (intro exI [of _ hist] exI [of _ ck] exI [of _ "[]"]) (simp add: PROBE_REMIND_AFTER_def)
  next
    case False
    then obtain kind t where l: "sw_last_alert ?w = Some (kind, t)" by (cases "sw_last_alert ?w") (auto simp: sensor_due_def)
    with False have t: "sw_last_alert ?w = Some (''blind'', t)" "sc_now ck - t < PROBE_REMIND_AFTER" by (simp_all add: sensor_due_def)
    from last_alert_was_raised [OF t(1)] t(2) obtain h1 k h2 where "hist = h1 @ k # h2" "sc_now ck - sc_now k < PROBE_REMIND_AFTER"
      "sensor_reports me backend ''blind'' k (sensor_run me backend h1)" by auto
    then show ?thesis by (intro exI [of _ h1] exI [of _ k] exI [of _ "h2 @ [ck]"]) simp
  qed
qed

theorem blind_sensor_is_reported_witness:
  "\<exists>h1 k h2. [] @ [\<lparr>sc_health = None, sc_since_start = 0, sc_now = 0, sc_unix_ms = (\<lambda>_. 0)\<rparr>] = h1 @ k # h2 \<and>
    sensor_reports [9] ''none'' ''blind'' k (sensor_run [9] ''none'' h1)"
proof -
  have "blind \<lparr>sc_health = None, sc_since_start = 0, sc_now = 0, sc_unix_ms = (\<lambda>_. 0)\<rparr>" by (simp add: blind_def)
  from blind_sensor_is_reported [OF this, of "[]" "[9]" "''none''"] show ?thesis by blast
qed

text \<open>A sensor with a single probe attached, whichever it is, counts as watching.\<close>

lemma one_probe_is_enough:
  "i < PROBE_COUNT \<Longrightarrow> assess (Some (mark_attached i probe_health_new)) d t = SensorHealthy"
proof -
  assume i: "i < PROBE_COUNT"
  define h where "h = mark_attached i probe_health_new"
  have "list_ex (\<lambda>a. a) (ph_attached h)"
    using i set_update_memI [of i "replicate PROBE_COUNT False" True] by (auto simp: h_def mark_attached_def probe_health_new_def list_ex_iff)
  moreover have "ph_stopped h = None" "total_kernel_drops h = 0"
    using i by (simp_all add: h_def mark_attached_def probe_health_new_def total_kernel_drops_def sum_list_replicate)
  ultimately show "assess (Some (mark_attached i probe_health_new)) d t = SensorHealthy"
    unfolding h_def [symmetric] by (simp add: assess_def is_watching_def Let_def)
qed

text \<open>Drops are counted once: while the counters do not run backwards, the losses told since the start add up to the counter.\<close>

fun told_drops :: "sensor_verdict \<Rightarrow> nat" where
  "told_drops (SensorDropping _ n) = unat n"
| "told_drops _ = 0"

lemma drops_add_up:
  assumes "sw_previous_drops w \<le> total_kernel_drops h" "ph_stopped h = None" "is_watching h" "sc_health ck = Some h"
  shows "unat (sw_previous_drops w) + told_drops (assess (sc_health ck) (sw_previous_drops w) (sc_since_start ck)) = unat (total_kernel_drops h) \<and>
    sw_previous_drops (snd (sensor_step me backend ck w)) = total_kernel_drops h"
proof (cases "sw_previous_drops w = total_kernel_drops h")
  case True
  with assms show ?thesis by (simp add: assess_def sensor_step_def Let_def)
next
  case False
  then have "sw_previous_drops w < total_kernel_drops h" using assms(1) by simp
  with assms show ?thesis by (simp add: assess_def sensor_step_def Let_def unat_sub word_le_nat_alt)
qed

end
