(* ===== verification/Log_Witness.thy ===== *)
theory Log_Witness
  imports Enrollment Eventlog Detections Corroborate
begin

text \<open>
  Neighbours that remember how much history a host had: \<open>crates/bowery-analysis/src/log_witness.rs\<close> and the
  task of \<open>crates/bowery-agent/src/agent.rs\<close> that publishes the height of the event log and checks what
  the peers publish. The protobuf codec of a report is an argument.
\<close>

section \<open>The witness\<close>

record witnessed_report =
  wr_highest_seq :: u64
  wr_reported_unix_ms :: u64

record rollback_finding =
  rf_host_fp_hex :: string
  rf_witnessed_seq :: u64
  rf_reported_seq :: u64
  rf_lost :: u64

definition ROLLBACK_RULE :: string where "ROLLBACK_RULE = ''evade.event_log_rollback''"

definition rollback_rationale :: "rollback_finding \<Rightarrow> string" where
  "rollback_rationale f =
     ''host '' @ take (min (length (rf_host_fp_hex f)) 16) (rf_host_fp_hex f) @ '' reports its event log at sequence '' @ dec (unat (rf_reported_seq f)) @
     '', and this agent previously witnessed it at '' @ dec (unat (rf_witnessed_seq f)) @ '' '' @ em_dash @ '' '' @ dec (unat (rf_lost f)) @
     '' events of history are gone. That number only ever rises: it survives a restart, and retention prunes old rows without reissuing '' @
     ''sequence numbers, so there is no path to a lower one inside the agent. Clearing that log is how an intrusion removes its own record, '' @
     ''and this host cannot report it about itself once the record is gone. Reinstalling the agent, wiping /var/lib/bowery, or restoring '' @
     ''the host from an older image produce the same evidence and are worth ruling out first''"

record log_witness =
  lw_seen :: "string \<Rightarrow> witnessed_report option"
  lw_tracked :: nat
  lw_max_tracked :: nat

text \<open>\<open>lw_tracked\<close> is the number of entries of the map.\<close>

definition log_witness_new :: log_witness where
  "log_witness_new = \<lparr>lw_seen = (\<lambda>_. None), lw_tracked = 0, lw_max_tracked = 1024\<rparr>"

definition witness_insert :: "string \<Rightarrow> witnessed_report \<Rightarrow> log_witness \<Rightarrow> log_witness" where
  "witness_insert host r w =
     w\<lparr>lw_seen := (lw_seen w)(host \<mapsto> r), lw_tracked := (if lw_seen w host = None then lw_tracked w + 1 else lw_tracked w)\<rparr>"

definition witness_observe :: "string \<Rightarrow> witnessed_report \<Rightarrow> log_witness \<Rightarrow> rollback_finding option \<times> log_witness" where
  "witness_observe host r w =
     (if lw_max_tracked w \<le> lw_tracked w \<and> lw_seen w host = None then (None, w)
      else case lw_seen w host of
        None \<Rightarrow> (None, witness_insert host r w)
      | Some previous \<Rightarrow>
          if wr_reported_unix_ms r < wr_reported_unix_ms previous then (None, w)
          else if wr_highest_seq previous \<le> wr_highest_seq r then (None, witness_insert host r w)
          else (Some \<lparr>rf_host_fp_hex = host, rf_witnessed_seq = wr_highest_seq previous, rf_reported_seq = wr_highest_seq r,
                  rf_lost = wr_highest_seq previous - wr_highest_seq r\<rparr>, witness_insert host r w))"

section \<open>Publishing\<close>

record report_codec =
  rpc_encode :: "log_report \<Rightarrow> bytes"
  rpc_decode :: "bytes \<Rightarrow> log_report option"

definition decode_log_report :: "crypto \<Rightarrow> report_codec \<Rightarrow> string \<Rightarrow> log_report option" where
  "decode_log_report c k encoded = Option.bind (b64_decode c encoded) (rpc_decode k)"

text \<open>\<open>None\<close>: nothing is published, as there is no log or its height cannot be read.\<close>

definition publish_log_report :: "crypto \<Rightarrow> report_codec \<Rightarrow> identity \<Rightarrow> (bool \<times> event_log) option \<Rightarrow> u64 \<Rightarrow> string option" where
  "publish_log_report c k ident store now =
     (case store of None \<Rightarrow> None
      | Some (fails, el) \<Rightarrow>
          if fails then None
          else let highest = word_of_nat (lst_highest_seq (eventlog_stats el)); fp = fingerprint_of c ident in
            Some (b64_encode c (rpc_encode k \<lparr>lr_host_fp = fp, lr_highest_seq = highest, lr_reported_unix_ms = now,
              lr_signature = sign c ident (lr_signing_input_for fp highest now)\<rparr>)))"

section \<open>Checking the peers\<close>

definition verified_report :: "crypto \<Rightarrow> report_codec \<Rightarrow> peer_info \<Rightarrow> log_report option" where
  "verified_report c k p =
     Option.bind (pi_log_report p) (\<lambda>encoded.
     Option.bind (decode_log_report c k encoded) (\<lambda>r.
     if lr_host_fp r \<noteq> pi_fingerprint p then None
     else Option.bind (lr_signing_input r) (\<lambda>input.
       Option.bind (to_array 64 (lr_signature r)) (\<lambda>sig.
       if is_ok (verify c (pi_verifying_key p) input sig) then Some r else None))))"

text \<open>The stores a round changes, and the episodes told to the listeners of the agent.\<close>

record witness_state =
  wi_witness :: log_witness
  wi_detections :: detection_stats
  wi_inbox :: inbox
  wi_emitted :: "(string \<times> f32) list"

definition rollback_alert :: "fingerprint \<Rightarrow> string \<Rightarrow> rollback_finding \<Rightarrow> u64 \<Rightarrow> u64 \<Rightarrow> alert" where
  "rollback_alert me backend f ms built =
     builder_context
       [attribute_new ''peer'' (rf_host_fp_hex f), attribute_new ''witnessed_seq'' (dec (unat (rf_witnessed_seq f))),
        attribute_new ''reported_seq'' (dec (unat (rf_reported_seq f))), attribute_new ''events_lost'' (dec (unat (rf_lost f)))]
       (builder_raw built me backend ROLLBACK_RULE (''peer-'' @ ROLLBACK_RULE @ ''-'' @ dec (unat ms)) (to_f32 (9 / 10)) (rollback_rationale f))"

definition report_rollback :: "fingerprint \<Rightarrow> string \<Rightarrow> (nat \<Rightarrow> u64) \<Rightarrow> rollback_finding \<Rightarrow> witness_state \<Rightarrow> witness_state" where
  "report_rollback me backend ms f s =
     (let a = rollback_alert me backend f (ms 1) (ms 2) in
      case inbox_append (ms 3) a (wi_inbox s) of (r, ib) \<Rightarrow>
        s\<lparr>wi_detections := detection_record (ms 0) ROLLBACK_RULE (wi_detections s), wi_inbox := ib,
          wi_emitted := (if stored r then wi_emitted s @ [(al_episode_id a, al_suspicion a)] else wi_emitted s)\<rparr>)"

definition witness_peer ::
    "crypto \<Rightarrow> report_codec \<Rightarrow> fingerprint \<Rightarrow> string \<Rightarrow> (nat \<Rightarrow> u64) \<Rightarrow> peer_info \<Rightarrow> rollback_finding list \<times> witness_state
     \<Rightarrow> rollback_finding list \<times> witness_state" where
  "witness_peer c k me backend ms p x =
     (case verified_report c k p of None \<Rightarrow> x
      | Some r \<Rightarrow>
          (case witness_observe (to_hex c (pi_fingerprint p)) \<lparr>wr_highest_seq = lr_highest_seq r, wr_reported_unix_ms = lr_reported_unix_ms r\<rparr>
                  (wi_witness (snd x)) of
             (None, w) \<Rightarrow> (fst x, (snd x)\<lparr>wi_witness := w\<rparr>)
           | (Some f, w) \<Rightarrow> (fst x @ [f], report_rollback me backend ms f ((snd x)\<lparr>wi_witness := w\<rparr>))))"

text \<open>One round over the peers the mesh shows; the findings are listed in the order they are reported.\<close>

definition witness_peer_logs ::
    "crypto \<Rightarrow> report_codec \<Rightarrow> fingerprint \<Rightarrow> string \<Rightarrow> (nat \<Rightarrow> nat \<Rightarrow> u64) \<Rightarrow> peer_info list \<Rightarrow> witness_state
     \<Rightarrow> rollback_finding list \<times> witness_state" where
  "witness_peer_logs c k me backend ms names s =
     foldl (\<lambda>x (i, p). witness_peer c k me backend (ms i) p x) ([], s) (enumerate 0 names)"

text \<open>The task: what the mesh shows at each tick.\<close>

fun witness_rounds ::
    "crypto \<Rightarrow> report_codec \<Rightarrow> fingerprint \<Rightarrow> string \<Rightarrow> (nat \<Rightarrow> nat \<Rightarrow> u64) \<Rightarrow> peer_info list list \<Rightarrow> witness_state
     \<Rightarrow> rollback_finding list \<times> witness_state" where
  "witness_rounds c k me backend ms [] s = ([], s)"
| "witness_rounds c k me backend ms (ps # rounds) s =
     (case witness_peer_logs c k me backend ms ps s of (fs, s1) \<Rightarrow>
        case witness_rounds c k me backend ms rounds s1 of (gs, s2) \<Rightarrow> (fs @ gs, s2))"

section \<open>Heights only rise\<close>

text \<open>What the agent does to its log: batches are appended and old rows are pruned, whether or not a transaction fails.\<close>

inductive log_evolves :: "event_log \<Rightarrow> event_log \<Rightarrow> bool" where
  log_same: "log_evolves el el"
| log_append: "log_evolves el el1 \<Longrightarrow> log_evolves el (snd (append_batch fails evs el1))"
| log_prune: "log_evolves el el1 \<Longrightarrow> log_evolves el (snd (prune fails rt now el1))"

lemma insert_rows_height: "elg_seq el \<le> elg_seq (fold (\<lambda>ev. insert_row (row_from_event ev)) evs el)"
proof (induction evs arbitrary: el)
  case (Cons ev evs)
  from Cons.IH [of "insert_row (row_from_event ev) el"] show ?case by (simp add: insert_row_def)
qed simp

lemma log_evolves_height: "log_evolves el el1 \<Longrightarrow> elg_seq el \<le> elg_seq el1"
proof (induction rule: log_evolves.induct)
  case (log_append el el1 fails evs)
  then show ?case using insert_rows_height [of el1] by (auto simp: append_batch_def intro: order_trans)
next
  case (log_prune el el1 fails rt now)
  then show ?case by (simp add: prune_def Let_def)
qed simp

section \<open>Honest hosts\<close>

lemma verified_report_SomeD:
  assumes "verified_report c k p = Some r"
  shows "lr_host_fp r = pi_fingerprint p" "length (pi_fingerprint p) = 32"
    "\<exists>sig. verify_strict c (pi_verifying_key p) (lr_signing_input_for (pi_fingerprint p) (lr_highest_seq r) (lr_reported_unix_ms r)) sig"
  using assms by (auto simp: verified_report_def bind_eq_Some_conv lr_signing_input_def verify_def is_ok_iff to_array_def split: if_splits)

lemma report_rollback_witness [simp]: "wi_witness (report_rollback me backend ms f s) = wi_witness s"
  by (simp add: report_rollback_def Let_def split: prod.split)

text \<open>A report is one of those issued, by its height and its stamp.\<close>

definition witness_sound :: "string \<Rightarrow> (u64 \<times> u64) set \<Rightarrow> log_witness \<Rightarrow> bool" where
  "witness_sound host issued w \<longleftrightarrow> (\<forall>r. lw_seen w host = Some r \<longrightarrow> (wr_highest_seq r, wr_reported_unix_ms r) \<in> issued)"

definition heights_rise :: "(u64 \<times> u64) set \<Rightarrow> bool" where
  "heights_rise issued \<longleftrightarrow> (\<forall>(n, t) \<in> issued. \<forall>(n1, t1) \<in> issued. t \<le> t1 \<longrightarrow> n \<le> n1)"

lemma witness_observe_sound:
  assumes "witness_sound host issued w" "heights_rise issued" "witness_observe h r w = (f, w1)"
    and "h = host \<Longrightarrow> (wr_highest_seq r, wr_reported_unix_ms r) \<in> issued"
  shows "witness_sound host issued w1 \<and> (\<forall>x. f = Some x \<longrightarrow> rf_host_fp_hex x \<noteq> host)"
proof (cases "lw_seen w h")
  case None
  with assms show ?thesis by (auto simp: witness_observe_def witness_sound_def witness_insert_def split: if_splits)
next
  case (Some previous)
  have w1: "w1 = w \<or> w1 = witness_insert h r w" using assms(3) Some by (auto simp: witness_observe_def split: if_splits)
  then have "witness_sound host issued w1" using assms(1,4) by (auto simp: witness_sound_def witness_insert_def split: if_splits)
  moreover have "rf_host_fp_hex x \<noteq> host" if "f = Some x" for x
  proof
    assume x: "rf_host_fp_hex x = host"
    then have h: "h = host" "wr_reported_unix_ms previous \<le> wr_reported_unix_ms r" "wr_highest_seq r < wr_highest_seq previous"
      using assms(3) Some that by (auto simp: witness_observe_def split: if_splits)
    then have "(wr_highest_seq previous, wr_reported_unix_ms previous) \<in> issued" "(wr_highest_seq r, wr_reported_unix_ms r) \<in> issued"
      using assms(1,4) Some by (simp_all add: witness_sound_def)
    with assms(2) h(2) have "wr_highest_seq previous \<le> wr_highest_seq r" unfolding heights_rise_def by fastforce
    with h(3) show False by simp
  qed
  ultimately show ?thesis by blast
qed

lemma witness_peer_sound:
  assumes "witness_sound host issued (wi_witness (snd x))" "heights_rise issued" "\<forall>f \<in> set (fst x). rf_host_fp_hex f \<noteq> host"
    and "\<And>r. verified_report c k p = Some r \<Longrightarrow> to_hex c (pi_fingerprint p) = host \<Longrightarrow> (lr_highest_seq r, lr_reported_unix_ms r) \<in> issued"
  shows "witness_sound host issued (wi_witness (snd (witness_peer c k me backend ms p x))) \<and>
    (\<forall>f \<in> set (fst (witness_peer c k me backend ms p x)). rf_host_fp_hex f \<noteq> host)"
proof (cases "verified_report c k p")
  case (Some r)
  let ?r = "\<lparr>wr_highest_seq = lr_highest_seq r, wr_reported_unix_ms = lr_reported_unix_ms r\<rparr>"
  obtain f w where ob: "witness_observe (to_hex c (pi_fingerprint p)) ?r (wi_witness (snd x)) = (f, w)"
    by (cases "witness_observe (to_hex c (pi_fingerprint p)) ?r (wi_witness (snd x))")
  from witness_observe_sound [OF assms(1,2) ob] assms(4) [OF Some] have
    "witness_sound host issued w \<and> (\<forall>x. f = Some x \<longrightarrow> rf_host_fp_hex x \<noteq> host)" by simp
  then show ?thesis using assms(3) by (cases f) (simp_all add: witness_peer_def Some ob)
qed (use assms in \<open>simp add: witness_peer_def\<close>)

lemma witness_peers_sound:
  assumes "\<forall>p \<in> snd ` set xs. \<forall>r. verified_report c k p = Some r \<longrightarrow> to_hex c (pi_fingerprint p) = host \<longrightarrow>
      (lr_highest_seq r, lr_reported_unix_ms r) \<in> issued"
    and "witness_sound host issued (wi_witness (snd x))" "heights_rise issued" "\<forall>f \<in> set (fst x). rf_host_fp_hex f \<noteq> host"
  shows "witness_sound host issued (wi_witness (snd (foldl (\<lambda>x (i, p). witness_peer c k me backend (ms i) p x) x xs))) \<and>
    (\<forall>f \<in> set (fst (foldl (\<lambda>x (i, p). witness_peer c k me backend (ms i) p x) x xs)). rf_host_fp_hex f \<noteq> host)"
  using assms
proof (induction xs arbitrary: x)
  case (Cons y xs)
  obtain i p where y: "y = (i, p)" by (cases y)
  have "witness_sound host issued (wi_witness (snd (witness_peer c k me backend (ms i) p x))) \<and>
      (\<forall>f \<in> set (fst (witness_peer c k me backend (ms i) p x)). rf_host_fp_hex f \<noteq> host)"
    using Cons.prems y by (intro witness_peer_sound) auto
  with Cons.IH [of "witness_peer c k me backend (ms i) p x"] Cons.prems show ?case by (auto simp: y)
qed simp

lemma witness_rounds_sound:
  assumes "\<And>ps p r. ps \<in> set rounds \<Longrightarrow> p \<in> set ps \<Longrightarrow> verified_report c k p = Some r \<Longrightarrow> to_hex c (pi_fingerprint p) = host \<Longrightarrow>
      (lr_highest_seq r, lr_reported_unix_ms r) \<in> issued"
    and "witness_sound host issued (wi_witness s)" "heights_rise issued"
  shows "\<forall>f \<in> set (fst (witness_rounds c k me backend ms rounds s)). rf_host_fp_hex f \<noteq> host"
  using assms
proof (induction rounds arbitrary: s)
  case (Cons ps rounds)
  obtain fs s1 where r1: "witness_peer_logs c k me backend ms ps s = (fs, s1)" by fastforce
  obtain gs s2 where r2: "witness_rounds c k me backend ms rounds s1 = (gs, s2)" by fastforce
  have "witness_sound host issued (wi_witness s1) \<and> (\<forall>f \<in> set fs. rf_host_fp_hex f \<noteq> host)"
  proof -
    have "\<forall>p \<in> snd ` set (enumerate 0 ps). \<forall>r. verified_report c k p = Some r \<longrightarrow> to_hex c (pi_fingerprint p) = host \<longrightarrow>
        (lr_highest_seq r, lr_reported_unix_ms r) \<in> issued"
      using Cons.prems(1) [of ps] by (simp flip: list.set_map)
    from witness_peers_sound [OF this, where x = "([], s)" and me = me and backend = backend and ms = ms] Cons.prems(2,3) r1
    show ?thesis by (simp add: witness_peer_logs_def)
  qed
  moreover from this have "\<forall>f \<in> set gs. rf_host_fp_hex f \<noteq> host" using Cons.IH [of s1] Cons.prems r2 by auto
  ultimately show ?case by (auto simp: r1 r2)
qed simp


text \<open>A host that published twice, and whose key signed nothing else.\<close>

definition demo_height :: "nat \<Rightarrow> event_log" where
  "demo_height n = \<lparr>elg_rows = [], elg_seq = n\<rparr>"

definition report_signer :: crypto where
  "report_signer = demo_crypto\<lparr>sha256 := (\<lambda>x. x), verify_strict := (\<lambda>vk m sig.
     m = lr_signing_input_for (fingerprint_of (demo_crypto\<lparr>sha256 := (\<lambda>x. x)\<rparr>) demo_identity) 5 1000)\<rparr>"


section \<open>What is witnessed\<close>

text \<open>
  A host that goes back is reported. When the witness has a height for a host and the host's verified
  report shows a lower one with a stamp that is not older, the round reports exactly the loss.
\<close>

lemma rollback_is_witnessed:
  assumes "verified_report c k p = Some r" "lw_seen (wi_witness s) (to_hex c (pi_fingerprint p)) = Some previous"
    and "wr_reported_unix_ms previous \<le> lr_reported_unix_ms r" "lr_highest_seq r < wr_highest_seq previous"
  shows "fst (witness_peer c k me backend ms p (fs, s)) = fs @ [\<lparr>rf_host_fp_hex = to_hex c (pi_fingerprint p),
      rf_witnessed_seq = wr_highest_seq previous, rf_reported_seq = lr_highest_seq r, rf_lost = wr_highest_seq previous - lr_highest_seq r\<rparr>]"
  using assms by (simp add: witness_peer_def witness_observe_def not_le)

text \<open>The answers about one host, and the state after reports of others.\<close>

definition witness_all :: "(string \<times> witnessed_report) list \<Rightarrow> log_witness \<Rightarrow> log_witness" where
  "witness_all xs w = foldl (\<lambda>w (h, r). snd (witness_observe h r w)) w xs"

lemma witness_observe_frame:
  assumes "witness_observe h r w = (f, w1)"
  shows "lw_max_tracked w1 = lw_max_tracked w" "lw_tracked w \<le> lw_tracked w1" "h1 \<noteq> h \<Longrightarrow> lw_seen w1 h1 = lw_seen w h1"
    "lw_max_tracked w \<le> lw_tracked w \<Longrightarrow> lw_seen w h = None \<Longrightarrow> f = None \<and> w1 = w"
    "lw_seen w h = None \<Longrightarrow> lw_tracked w < lw_max_tracked w \<Longrightarrow> lw_tracked w1 = Suc (lw_tracked w)"
  using assms by (auto simp: witness_observe_def witness_insert_def split: option.splits if_splits)

lemma strangers_fill:
  assumes "distinct (map fst xs)" "\<forall>h \<in> fst ` set xs. lw_seen w h = None" "lw_tracked w + length xs \<le> lw_max_tracked w" "h1 \<notin> fst ` set xs"
  shows "lw_tracked (witness_all xs w) = lw_tracked w + length xs \<and> lw_max_tracked (witness_all xs w) = lw_max_tracked w \<and>
    lw_seen (witness_all xs w) h1 = lw_seen w h1"
  using assms
proof (induction xs arbitrary: w)
  case (Cons x xs)
  obtain h r where x: "x = (h, r)" by (cases x)
  obtain f w1 where ob: "witness_observe h r w = (f, w1)" by fastforce
  note fr = witness_observe_frame [OF ob]
  have "lw_seen w h = None" "lw_tracked w < lw_max_tracked w" using Cons.prems x by auto
  with fr have t: "lw_tracked w1 = Suc (lw_tracked w)" "lw_max_tracked w1 = lw_max_tracked w" by simp_all
  have "lw_seen w1 g = None" if "g \<in> fst ` set xs" for g
  proof -
    have "g \<noteq> h" "lw_seen w g = None" using that Cons.prems(1,2) by (auto simp: x)
    with fr(3) show ?thesis by simp
  qed
  moreover have "h1 \<noteq> h" using Cons.prems(4) x by auto
  ultimately show ?case using Cons.IH [of w1] Cons.prems(1,3,4) t fr(3) by (simp add: witness_all_def x ob)
qed (simp add: witness_all_def)

text \<open>
  Strangers can blind a witness. The reports are verified but their senders need not be pinned: whoever
  reaches the gossip port can invent identities that sign their own reports. After 1024 of them the table
  is full, no report of any other host is remembered, and its rollbacks are not seen.
\<close>

theorem strangers_blind_witness:
  assumes "distinct (map fst strangers)" "length strangers = 1024" "host \<notin> fst ` set strangers"
  shows "fst (witness_observe host r (witness_all (map (Pair host) rs) (witness_all strangers log_witness_new))) = None"
proof -
  let ?w = "witness_all strangers log_witness_new"
  have full: "lw_tracked ?w = 1024 \<and> lw_max_tracked ?w = 1024 \<and> lw_seen ?w host = None"
    using strangers_fill [of strangers log_witness_new host] assms by (simp add: log_witness_new_def)
  have stuck: "witness_observe host q ?w = (None, ?w)" for q using full by (simp add: witness_observe_def)
  have "witness_all (map (Pair host) rs) ?w = ?w" by (induction rs) (simp_all add: witness_all_def stuck [unfolded witness_all_def])
  then show ?thesis using stuck by simp
qed

theorem strangers_blind_witness_witness:
  "fst (witness_observe ''h'' \<lparr>wr_highest_seq = 1, wr_reported_unix_ms = 9\<rparr>
     (witness_all (map (Pair ''h'') [\<lparr>wr_highest_seq = 7, wr_reported_unix_ms = 8\<rparr>])
       (witness_all (map (\<lambda>n. (''x'' @ dec n, \<lparr>wr_highest_seq = 0, wr_reported_unix_ms = 0\<rparr>)) [0..<1024]) log_witness_new))) = None"
proof (rule strangers_blind_witness)
  have "inj (\<lambda>n. ''x'' @ dec n)" by (rule injI) (metis append_Cons append_Nil list.inject undec_dec)
  then show "distinct (map fst (map (\<lambda>n. (''x'' @ dec n, \<lparr>wr_highest_seq = 0, wr_reported_unix_ms = 0\<rparr>)) [0..<1024]))"
    by (simp add: comp_def distinct_map inj_on_def inj_def)
qed auto

end
