(* ===== verification/Virustotal.thy ===== *)
theory Virustotal
  imports Inbox Mass_Write
begin

text \<open>
  Hash lookups, \<open>crates/bowery-cli/src/virustotal.rs\<close>: verdicts, the reading of a response, the memo of
  verdicts, the client with its exhausted quota, and the file with the key. The responses of the service
  are arguments, with their JSON read to the statistics they hold.
\<close>

section \<open>Characters\<close>

text \<open>
  \<open>str::chars\<close> on the bytes of a text, each character as its bytes; \<open>char::is_control\<close> and
  \<open>char::is_whitespace\<close> are those of Unicode.
\<close>

function utf8_chars :: "string \<Rightarrow> string list" where
  "utf8_chars [] = []"
| "utf8_chars (c # s) = (c # takeWhile is_continuation s) # utf8_chars (dropWhile is_continuation s)"
  by pat_completeness auto
termination by (relation "measure length") (auto simp: le_imp_less_Suc length_dropWhile_le)

fun char_is_control :: "string \<Rightarrow> bool" where
  "char_is_control [c] \<longleftrightarrow> of_char c < (32 :: nat) \<or> of_char c = (127 :: nat)"
| "char_is_control [c, d] \<longleftrightarrow> of_char c = (0xC2 :: nat) \<and> 0x80 \<le> (of_char d :: nat) \<and> (of_char d :: nat) < 0xA0"
| "char_is_control _ \<longleftrightarrow> False"

fun char_is_whitespace :: "string \<Rightarrow> bool" where
  "char_is_whitespace [c] \<longleftrightarrow> is_white c"
| "char_is_whitespace [c, d] \<longleftrightarrow> of_char c = (0xC2 :: nat) \<and> (of_char d :: nat) \<in> {0x85, 0xA0}"
| "char_is_whitespace [c, d, e] \<longleftrightarrow>
     (of_char c, of_char d, of_char e) = (0xE1 :: nat, 0x9A :: nat, 0x80 :: nat) \<or>
     (of_char c, of_char d) = (0xE2 :: nat, 0x80 :: nat) \<and>
       ((of_char e :: nat) \<in> {0x80..0x8A} \<or> (of_char e :: nat) \<in> {0xA8, 0xA9, 0xAF}) \<or>
     (of_char c, of_char d, of_char e) = (0xE2 :: nat, 0x81 :: nat, 0x9F :: nat) \<or>
     (of_char c, of_char d, of_char e) = (0xE3 :: nat, 0x80 :: nat, 0x80 :: nat)"
| "char_is_whitespace _ \<longleftrightarrow> False"

definition trim_chars :: "string list \<Rightarrow> string list" where
  "trim_chars cs = rev (dropWhile char_is_whitespace (rev (dropWhile char_is_whitespace cs)))"

section \<open>Verdicts\<close>

datatype vt_verdict = Malicious u32 u32 | Clean u32 | UnknownHash | Unavailable string

fun may_suppress :: "vt_verdict \<Rightarrow> bool" where
  "may_suppress (Clean _) = True"
| "may_suppress _ = False"

fun is_malicious :: "vt_verdict \<Rightarrow> bool" where
  "is_malicious (Malicious _ _) = True"
| "is_malicious _ = False"

fun verdict_summary :: "vt_verdict \<Rightarrow> string" where
  "verdict_summary (Malicious m t) = ''VirusTotal: '' @ dec (unat m) @ ''/'' @ dec (unat t) @ '' engines flag this''"
| "verdict_summary (Clean t) = ''VirusTotal: 0/'' @ dec (unat t) @ '' engines flag this''"
| "verdict_summary UnknownHash = ''VirusTotal: hash unknown to VT''"
| "verdict_summary (Unavailable why) = ''VirusTotal: not checked ('' @ why @ '')''"

text \<open>
  \<open>resp\<close> is \<open>data.attributes.last_analysis_stats\<close> of the response: \<open>None\<close> for a body that is no JSON, \<open>Some None\<close> when
  it is absent; a field that is absent or no natural number counts as zero. In a release build the sums wrap.
\<close>

type_synonym analysis_stats = "string \<Rightarrow> u64 option"

definition u32_or :: "u32 \<Rightarrow> u64 \<Rightarrow> u32" where
  "u32_or d n = (if unat n < 2 ^ 32 then ucast n else d)"

definition stat :: "analysis_stats \<Rightarrow> string \<Rightarrow> u64" where
  "stat stats k = (case stats k of None \<Rightarrow> 0 | Some n \<Rightarrow> n)"

definition parse_verdict :: "analysis_stats option option \<Rightarrow> vt_verdict" where
  "parse_verdict resp =
     (case resp of None \<Rightarrow> Unavailable ''unparseable response''
      | Some None \<Rightarrow> Unavailable ''response had no analysis stats''
      | Some (Some stats) \<Rightarrow>
          let malicious = u32_or (- 1) (stat stats ''malicious'');
              suspicious = u32_or 0 (stat stats ''suspicious'');
              total = u32_or (- 1) (stat stats ''malicious'' + stat stats ''suspicious'' + stat stats ''undetected'' + stat stats ''harmless'')
          in if total = 0 then Unavailable ''no engine results in response''
             else if 0 < malicious + suspicious then Malicious (malicious + suspicious) total
             else Clean total)"

section \<open>The memo\<close>

definition str_lower :: "string \<Rightarrow> string" where
  "str_lower s = map ascii_lower s"

type_synonym vt_cache = "string \<Rightarrow> (vt_verdict \<times> u64) option"

definition CACHE_TTL :: nat where "CACHE_TTL = 7 * 24 * 3600"

definition vt_get :: "vt_cache \<Rightarrow> string \<Rightarrow> u64 \<Rightarrow> vt_verdict option" where
  "vt_get c sha now =
     (case c (str_lower sha) of None \<Rightarrow> None
      | Some (v, fetched) \<Rightarrow> if CACHE_TTL < unat (saturating_sub now fetched) then None else Some v)"

definition vt_put :: "vt_cache \<Rightarrow> string \<Rightarrow> vt_verdict \<Rightarrow> u64 \<Rightarrow> vt_cache" where
  "vt_put c sha v now = (case v of Unavailable _ \<Rightarrow> c | _ \<Rightarrow> c(str_lower sha \<mapsto> (v, now)))"

text \<open>The file of the memo: absent, unreadable or garbled files count as empty.\<close>

definition vt_load :: "vt_cache option \<Rightarrow> vt_cache" where
  "vt_load f = (case f of None \<Rightarrow> (\<lambda>_. None) | Some c \<Rightarrow> c)"

section \<open>The client\<close>

text \<open>
  What a request meets: no response, a status with a body that can or cannot be read. The client remembers
  that the quota is spent.
\<close>

datatype vt_reply = VtFailed string | VtReply nat "string + analysis_stats option option"

definition vt_lookup :: "bool \<Rightarrow> vt_reply \<Rightarrow> vt_verdict \<times> bool" where
  "vt_lookup exhausted r =
     (if exhausted then (Unavailable ''daily/minute quota exhausted'', True)
      else case r of VtFailed e \<Rightarrow> (Unavailable (''request failed: '' @ e), False)
        | VtReply status b \<Rightarrow>
            if status = 200 then (case b of Inr resp \<Rightarrow> (parse_verdict resp, False) | Inl e \<Rightarrow> (Unavailable (''reading response: '' @ e), False))
            else if status = 404 then (UnknownHash, False)
            else if status \<in> {401, 403} then (Unavailable ''API key rejected'', False)
            else if status = 429 then (Unavailable ''rate limited (4/min, 500/day on the public API)'', True)
            else (Unavailable (''HTTP '' @ dec status), False))"

text \<open>A file with a secret: its permission bits and its text, if it can be read.\<close>

datatype secret_error = SecretMissing | SecretExposed | SecretUnreadable | SecretEmpty

definition read_api_key :: "(u32 \<times> string option) option \<Rightarrow> secret_error + string" where
  "read_api_key f =
     (case f of None \<Rightarrow> Inl SecretMissing
      | Some (perm, text) \<Rightarrow>
          if perm AND 63 \<noteq> 0 then Inl SecretExposed
          else case text of None \<Rightarrow> Inl SecretUnreadable
            | Some t \<Rightarrow> let key = concat (trim_chars (utf8_chars t)) in if key = [] then Inl SecretEmpty else Inr key)"

section \<open>Laws\<close>

lemma concat_utf8_chars [simp]: "concat (utf8_chars s) = s"
  by (induction s rule: utf8_chars.induct) auto

lemma set_trim_chars: "set (trim_chars cs) \<subseteq> set cs"
  unfolding trim_chars_def by (auto dest!: set_dropWhileD)

text \<open>Only an answer is remembered, a remembered one is found for a week under any case of the hash.\<close>

lemma vt_put_get:
  assumes "\<not> (\<exists>why. v = Unavailable why)" "str_lower sha = str_lower sha'" "now \<le> later"
  shows "vt_get (vt_put c sha v now) sha' later = (if CACHE_TTL < unat later - unat now then None else Some v)"
  using assms by (cases v) (simp_all add: vt_get_def vt_put_def unat_saturating_sub)

text \<open>
  A clean verdict needs a report in which some engine has an opinion and none of the flagging counts is
  positive, as long as the counts stay below two to the thirty.
\<close>

lemma parse_verdict_Clean:
  assumes "parse_verdict resp = Clean n"
    and "\<And>stats k. resp = Some (Some stats) \<Longrightarrow> unat (stat stats k) < 2 ^ 30"
  shows "\<exists>stats. resp = Some (Some stats) \<and> stat stats ''malicious'' = 0 \<and> stat stats ''suspicious'' = 0 \<and>
    0 < unat (stat stats ''undetected'') + unat (stat stats ''harmless'') \<and>
    unat n = unat (stat stats ''undetected'') + unat (stat stats ''harmless'')"
proof -
  obtain stats where r: "resp = Some (Some stats)"
    using assms(1) by (auto simp: parse_verdict_def split: option.splits)
  let ?m = "stat stats ''malicious''" and ?s = "stat stats ''suspicious''" and ?u = "stat stats ''undetected''" and ?h = "stat stats ''harmless''"
  have b: "unat ?m < 2 ^ 30" "unat ?s < 2 ^ 30" "unat ?u < 2 ^ 30" "unat ?h < 2 ^ 30" using assms(2) [OF r] by auto
  have uc: "unat (ucast w :: u32) = unat w" if "unat w < 2 ^ 32" for w :: u64
    using that by (simp add: unsigned_ucast_eq unsigned_take_bit_eq take_bit_nat_eq_self)
  have "unat (?m + ?s) = unat ?m + unat ?s" using b by (simp add: unat_word_ariths)
  moreover have "unat (?m + ?s + ?u) = unat (?m + ?s) + unat ?u" using b calculation by (simp add: unat_word_ariths)
  ultimately have tot: "unat (?m + ?s + ?u + ?h) = unat ?m + unat ?s + unat ?u + unat ?h" using b by (simp add: unat_word_ariths)
  let ?t = "?m + ?s + ?u + ?h"
  have t32: "unat ?t < 2 ^ 32" using tot b by simp
  have ms: "unat (ucast ?m + ucast ?s :: u32) = unat ?m + unat ?s"
    using b uc [of ?m] uc [of ?s] by (simp add: unat_word_ariths)
  have c: "(ucast ?t :: u32) \<noteq> 0 \<and> \<not> (0 :: u32) < ucast ?m + ucast ?s \<and> n = ucast ?t"
    using assms(1) b t32 unfolding r parse_verdict_def u32_or_def by (auto simp: Let_def split: if_splits)
  then have "unat ?m + unat ?s = 0" using ms by (metis word_gt_0 unat_0)
  then have z: "unat ?m = 0" "unat ?s = 0" by simp_all
  moreover have "unat n = unat ?u + unat ?h" using c uc [OF t32] tot z by simp
  moreover have "unat n \<noteq> 0" using c by (metis unat_eq_0)
  moreover have "?m = 0" "?s = 0" using z by (simp_all only: unat_eq_zero)
  ultimately show ?thesis using r by simp
qed

end
