(* ===== verification/Mail.thy ===== *)
theory Mail
  imports Virustotal
begin

text \<open>
  The two renderings of a digest, \<open>crates/bowery-cli/src/notify.rs\<close>: cleaning and escaping of fields, the
  wrapped lines of the text, the subject, the text and the HTML body. How a time stamp and a fingerprint
  are printed (the crates \<open>time\<close> and \<open>hex\<close>) are arguments.
\<close>

section \<open>Fields\<close>

definition ellipsis :: string where "ellipsis = [CHR 0xE2, CHR 0x80, CHR 0xA6]"

definition sanitize :: "string \<Rightarrow> nat \<Rightarrow> string" where
  "sanitize s cap =
     (let trimmed = trim_chars (map (\<lambda>g. if char_is_control g then '' '' else g) (utf8_chars s)) in
      if length trimmed \<le> cap then concat trimmed
      else concat (take cap trimmed) @ ellipsis @ '' ['' @ dec (length trimmed - cap) @ '' more characters; see `bowery alerts`]'')"

definition FIELD_CAP :: nat where "FIELD_CAP = 512"
definition MAX_ENUMERATED :: nat where "MAX_ENUMERATED = 25"
definition CONTEXT_CAP :: nat where "CONTEXT_CAP = 1024"
definition RATIONALE_CAP :: nat where "RATIONALE_CAP = 4096"
definition WRAP_COLS :: nat where "WRAP_COLS = 78"
definition LABEL_W :: nat where "LABEL_W = 10"

definition esc_char :: "char \<Rightarrow> string" where
  \<open>esc_char c =
     (if c = CHR ''&'' then ''&amp;'' else if c = CHR ''<'' then ''&lt;'' else if c = CHR ''>'' then ''&gt;''
      else if c = CHR 0x22 then ''&quot;'' else if c = CHR 0x27 then ''&#39;'' else [c])\<close>

definition esc :: "string \<Rightarrow> string" where
  "esc s = concat (map esc_char s)"

definition field :: "string \<Rightarrow> nat \<Rightarrow> string" where
  "field s cap = esc (sanitize s cap)"

section \<open>Text\<close>

fun split_whitespace :: "string list \<Rightarrow> string list \<Rightarrow> string list list" where
  "split_whitespace word [] = (if word = [] then [] else [word])"
| "split_whitespace word (g # cs) =
     (if char_is_whitespace g then (if word = [] then split_whitespace [] cs else word # split_whitespace [] cs)
      else split_whitespace (word @ [g]) cs)"

fun wrap_words :: "nat \<Rightarrow> string list \<Rightarrow> string list list \<Rightarrow> string list list" where
  "wrap_words avail line [] = (if line = [] then [] else [line])"
| "wrap_words avail line (w # ws) =
     (if line \<noteq> [] \<and> avail < length line + 1 + length w then line # wrap_words avail w ws
      else wrap_words avail (if line = [] then w else line @ ['' ''] @ w) ws)"

definition blanks :: "nat \<Rightarrow> string" where
  "blanks n = replicate n (CHR '' '')"

definition pad_label :: "string \<Rightarrow> string" where
  "pad_label label = label @ blanks (LABEL_W - length (utf8_chars label))"

definition labelled_avail :: nat where
  "labelled_avail = max (WRAP_COLS - (2 + LABEL_W + 2)) 24"

definition labelled :: "string \<Rightarrow> string \<Rightarrow> string" where
  "labelled label v =
     (case wrap_words labelled_avail [] (split_whitespace [] (utf8_chars v)) of
        [] \<Rightarrow> ''  '' @ pad_label label @ '':'' @ [NL]
      | l # ls \<Rightarrow> ''  '' @ pad_label label @ '': '' @ concat l @ [NL] @
          concat (map (\<lambda>m. blanks (2 + LABEL_W + 2) @ concat m @ [NL]) ls))"

definition confirmation_parts :: "alert_confirmation \<Rightarrow> string list" where
  "confirmation_parts c = concat (map (\<lambda>(n, what). if 0 < n then [dec (unat n) @ '' '' @ what] else [])
     [(peers_unseen c, ''no record''), (peers_seen c, ''have it''), (peers_familiar c, ''same program, other build''),
      (peers_incomparable c, ''could not compare''), (peers_refused c, ''declined''), (peers_no_reply c, ''did not reply'')])"

definition confirmation_tally :: "alert_confirmation \<Rightarrow> string" where
  "confirmation_tally c =
     (if confirmation_parts c = [] then dec (unat (peers_asked c)) @ '' peer(s) asked''
      else join_with '', '' (confirmation_parts c) @ '' of '' @ dec (unat (peers_asked c)) @ '' asked (quorum '' @ dec (unat (ac_quorum c)) @ '')'')"

record host_alerts =
  ha_host :: string
  ha_alerts :: "alert list"

type_synonym verdict_map = "string \<Rightarrow> vt_verdict option"

definition vt_flagged :: "verdict_map \<Rightarrow> alert \<Rightarrow> bool" where
  "vt_flagged vt a \<longleftrightarrow> (case vt (str_lower (al_exe_sha256_hex a)) of None \<Rightarrow> False | Some v \<Rightarrow> is_malicious v)"

definition is_confirmed :: "alert \<Rightarrow> bool" where
  "is_confirmed a \<longleftrightarrow> (case al_confirmation a of None \<Rightarrow> False | Some c \<Rightarrow> confirmed c)"

definition all_alerts :: "host_alerts list \<Rightarrow> alert list" where
  "all_alerts hosts = concat (map ha_alerts hosts)"

definition subject :: "host_alerts list \<Rightarrow> verdict_map \<Rightarrow> string" where
  "subject hosts vt =
     (let total = length (all_alerts hosts);
          n_confirmed = length (filter is_confirmed (all_alerts hosts));
          names = map ha_host (filter (\<lambda>h. ha_alerts h \<noteq> []) hosts);
          place = (case names of [] \<Rightarrow> [] | [a] \<Rightarrow> '' on '' @ a | [a, b] \<Rightarrow> '' on '' @ a @ '', '' @ b
            | a # b # _ \<Rightarrow> '' on '' @ a @ '', '' @ b @ '' +'' @ dec (length names - 2));
          flagged = length (filter (vt_flagged vt) (all_alerts hosts));
          remark = (if 0 < flagged then '' ['' @ dec flagged @ '' VT-FLAGGED]''
            else if 0 < n_confirmed then '' ['' @ dec n_confirmed @ '' confirmed]'' else [])
      in ''[bowery] '' @ dec total @ '' alert'' @ (if total = 1 then [] else ''s'') @ place @ remark)"

definition confirmation_note :: "alert \<Rightarrow> string" where
  "confirmation_note a =
     (case al_confirmation a of None \<Rightarrow> []
      | Some c \<Rightarrow>
          if confirmed c then ''  CONFIRMED by '' @ dec (unat (peers_unseen c)) @ ''/'' @ dec (unat (peers_asked c)) @ '' peers with no record of it''
          else if 0 < peers_familiar c \<and> peers_unseen c = 0
          then ''  (known program: '' @ dec (unat (peers_familiar c)) @ ''/'' @ dec (unat (peers_asked c)) @ '' peers have it built differently)''
          else if ac_comparable c = 0 \<and> 0 < peers_incomparable c
          then ''  (NOT CHECKED: '' @ dec (unat (peers_incomparable c)) @ ''/'' @ dec (unat (peers_asked c)) @ '' peers run a different platform)''
          else ''  (not confirmed: '' @ confirmation_tally c @ '')'')"

record rendering =
  rd_format_ts :: "u64 \<Rightarrow> string"
  rd_to_hex :: "fingerprint \<Rightarrow> string"

definition fingerprint_hex :: "rendering \<Rightarrow> bytes \<Rightarrow> string option" where
  "fingerprint_hex r fp = map_option (rd_to_hex r) (to_array 32 fp)"

definition line_of :: "string \<Rightarrow> string \<Rightarrow> string" where
  "line_of label v = (if v = [] then [] else label @ sanitize v FIELD_CAP @ [NL])"

definition alert_text :: "rendering \<Rightarrow> verdict_map \<Rightarrow> alert \<Rightarrow> string" where
  "alert_text r vt a =
     [NL] @ ''  suspicion : '' @ fmt2 (al_suspicion a) @ confirmation_note a @ [NL] @
     ''  when      : '' @ rd_format_ts r (al_ts_unix_ms a) @ [NL] @
     ''  episode   : '' @ sanitize (al_episode_id a) FIELD_CAP @ [NL] @
     line_of ''  rule      : '' (al_rule_id a) @
     line_of ''  exe       : '' (al_exe_path a) @
     line_of ''  sha256    : '' (al_exe_sha256_hex a) @
     labelled ''why'' (sanitize (al_rationale a) RATIONALE_CAP) @
     (if al_model_explanation a = [] then [] else labelled ''model says'' (sanitize (al_model_explanation a) RATIONALE_CAP)) @
     (case vt (str_lower (al_exe_sha256_hex a)) of None \<Rightarrow> [] | Some v \<Rightarrow> ''  vt        : '' @ verdict_summary v @ [NL]) @
     concat (map (\<lambda>x. labelled (sanitize (at_key x) 16) (sanitize (at_value x) CONTEXT_CAP)) (al_context a))"

definition host_text :: "rendering \<Rightarrow> verdict_map \<Rightarrow> host_alerts \<Rightarrow> string" where
  "host_text r vt h =
     ''== '' @ ha_host h @ '' ('' @ dec (length (ha_alerts h)) @ '' alert(s))'' @
     (case ha_alerts h of [] \<Rightarrow> [] | a # _ \<Rightarrow> (case fingerprint_hex r (al_originator_fp a) of None \<Rightarrow> [] | Some fp \<Rightarrow> ''  fp='' @ fp)) @ [NL] @
     concat (map (alert_text r vt) (take MAX_ENUMERATED (ha_alerts h))) @
     (if MAX_ENUMERATED < length (ha_alerts h)
      then [NL] @ ''  '' @ ellipsis @ '' and '' @ dec (length (ha_alerts h) - MAX_ENUMERATED) @ '' more, not listed.'' @ [NL] else []) @ [NL]"

definition SILENCE_HELP_TEXT :: string where
  \<open>SILENCE_HELP_TEXT =
     [NL] @ ''To silence one of these across the mesh, take its episode id above:'' @ [NL, NL] @
     ''  bowery alerts silence <episode> '' @ [CHR 0x5C, NL] @
     ''      --reason "<why this is benign>" --fanout '' @ [CHR 0x5C, NL] @
     ''      --agent-addr <addr> --agent-fp <fp> --agent-pubkey-b64 <key> '' @ [CHR 0x5C, NL] @
     ''      --operator-key <path> --cluster-id <cluster>'' @ [NL, NL] @
     ''The episode id is only the handle. What gets signed is the rule, the'' @ [NL] @
     ''binary'' @ [CHR 0x27] @ ''s hash and the path that alert stands for '' @ em_dash @ '' the episode itself'' @ [NL] @
     ''never recurs. Add --weight 0.5 to damp rather than silence, and'' @ [NL] @
     ''`bowery alerts unsilence <id>` undoes it.'' @ [NL]\<close>

definition body_text :: "rendering \<Rightarrow> host_alerts list \<Rightarrow> verdict_map \<Rightarrow> string" where
  "body_text r hosts vt =
     dec (length (all_alerts hosts)) @ '' new alert(s) from the Bowery mesh.'' @ [NL, NL] @
     concat (map (host_text r vt) (filter (\<lambda>h. ha_alerts h \<noteq> []) hosts)) @ SILENCE_HELP_TEXT @
     [NL] @ ''--'' @ [NL] @ ''Fields above come from the monitored host and are'' @ [NL] @
     ''attacker-influenceable; treat them as leads, not facts.'' @ [NL] @ ''Verify against the signed source:'' @ [NL] @
     [NL] @ ''  bowery alerts tail --agent-addr <addr> --agent-fp <fp> '' @ ellipsis @ [NL] @
     [NL] @ ''Sent by `bowery notify`. Nothing was stored off-host.'' @ [NL]"

section \<open>HTML\<close>

text \<open>The templates write tags bare or with a style.\<close>

definition tag :: "string \<Rightarrow> string" where
  "tag t = ''<'' @ t @ ''>''"

definition open_tag :: "string \<Rightarrow> string \<Rightarrow> string" where
  \<open>open_tag name css = ''<'' @ name @ '' style="'' @ css @ ''">''\<close>

definition severity_color :: "f32 \<Rightarrow> string" where
  "severity_color v =
     (if f32_le (to_f32 (8 / 10)) v then ''#b3261e'' else if f32_le (to_f32 (5 / 10)) v then ''#b26a00'' else ''#5f6368'')"

definition MONO :: string where
  "MONO = ''font-family:ui-monospace,SFMono-Regular,Menlo,Consolas,monospace''"

definition SANS :: string where
  "SANS = ''font-family:-apple-system,BlinkMacSystemFont,'' @ [CHR 0x27] @ ''Segoe UI'' @ [CHR 0x27] @ '',Roboto,Helvetica,Arial,sans-serif''"

definition html_row :: "string \<Rightarrow> string \<Rightarrow> bool \<Rightarrow> string" where
  \<open>html_row label v fixed_width =
     tag ''tr'' @ open_tag ''td'' ''color:#5f6368;font-size:12px;padding:2px 10px 2px 0;vertical-align:top;white-space:nowrap'' @ label @
     tag ''/td'' @ open_tag ''td'' ((if fixed_width then MONO @ '';font-size:13px;word-break:break-all'' else ''font-size:13px'') @ '';padding:2px 0;vertical-align:top'') @ v @ tag ''/td'' @ tag ''/tr''\<close>

definition card_header :: "rendering \<Rightarrow> alert \<Rightarrow> string" where
  \<open>card_header r a =
     open_tag ''table'' ''border-collapse:collapse;width:100%;margin-bottom:8px'' @ tag ''tr'' @ open_tag ''td'' ''padding:0;vertical-align:baseline'' @
     open_tag ''span'' (''font-size:16px;font-weight:600;color:'' @ severity_color (al_suspicion a)) @ fmt2 (al_suspicion a) @ tag ''/span'' @
     open_tag ''span'' (MONO @ '';font-size:13px;margin-left:10px'') @ field (al_rule_id a) FIELD_CAP @ tag ''/span'' @ tag ''/td'' @
     open_tag ''td'' ''padding:0;text-align:right;color:#5f6368;font-size:12px;white-space:nowrap;vertical-align:baseline'' @
     esc (rd_format_ts r (al_ts_unix_ms a)) @ tag ''/td'' @ tag ''/tr'' @ tag ''/table''\<close>

definition badge_content :: "alert_confirmation \<Rightarrow> string \<times> string \<times> string" where
  "badge_content c =
     (if confirmed c
      then (''#fce8e6'', ''#b3261e'', ''CONFIRMED '' @ em_dash @ '' '' @ dec (unat (peers_unseen c)) @ ''/'' @ dec (unat (peers_asked c)) @
        '' peers have no record of this binary'')
      else if 0 < peers_familiar c \<and> peers_unseen c = 0
      then (''#e6f4ea'', ''#137333'', ''KNOWN PROGRAM '' @ em_dash @ '' '' @ dec (unat (peers_familiar c)) @ ''/'' @ dec (unat (peers_asked c)) @
        '' peers run this same program, built differently'')
      else if ac_comparable c = 0 \<and> 0 < peers_incomparable c
      then (''#fef7e0'', ''#8a6116'', ''NOT CHECKED '' @ em_dash @ '' '' @ dec (unat (peers_incomparable c)) @ ''/'' @ dec (unat (peers_asked c)) @
        '' peers run a different platform, so they could not have this binary either way'')
      else (''#f1f3f4'', ''#5f6368'', ''not confirmed '' @ em_dash @ '' '' @ confirmation_tally c))"

definition confirmation_badge :: "alert \<Rightarrow> string" where
  \<open>confirmation_badge a =
     (case al_confirmation a of None \<Rightarrow> []
      | Some c \<Rightarrow> (case badge_content c of (bg, fg, text) \<Rightarrow>
          open_tag ''div'' (''background:'' @ bg @ '';color:'' @ fg @ '';font-size:12px;font-weight:600;padding:5px 8px;border-radius:4px;margin-bottom:8px'') @
          esc text @ tag ''/div''))\<close>

text \<open>\<open>trim_start_matches\<close> removes the prefix as often as it is there.\<close>

function trim_start_matches :: "string \<Rightarrow> string \<Rightarrow> string" where
  "trim_start_matches p s = (if p \<noteq> [] \<and> starts_with s p then trim_start_matches p (drop (length p) s) else s)"
  by pat_completeness auto
termination
  by (relation "measure (\<lambda>(p, s). length s)") (auto simp: starts_with_def intro!: diff_less)

declare trim_start_matches.simps [simp del]

definition neighbour_line :: "attribute \<Rightarrow> string" where
  \<open>neighbour_line x =
     open_tag ''div'' ''font-size:12px;margin-top:2px'' @ open_tag ''span'' (MONO @ '';color:#3c4043'') @
     field (trim_start_matches ''peer.'' (at_key x)) FIELD_CAP @ tag ''/span'' @ '' '' @ open_tag ''span'' ''color:#5f6368'' @
     field (at_value x) CONTEXT_CAP @ tag ''/span'' @ tag ''/div''\<close>

definition neighbour_block :: "alert \<Rightarrow> string" where
  \<open>neighbour_block a =
     (let peers = filter (\<lambda>x. starts_with (at_key x) ''peer.'') (al_context a) in
      if peers = [] then []
      else open_tag ''div'' ''background:#f8f9fa;border-radius:4px;padding:8px 10px;margin-bottom:8px'' @
        open_tag ''div'' ''color:#5f6368;font-size:11px;text-transform:uppercase;letter-spacing:.4px;margin-bottom:4px'' @ ''what the neighbours said'' @ tag ''/div'' @
        concat (map neighbour_line peers) @ tag ''/div'')\<close>

definition silence_command :: "rendering \<Rightarrow> alert \<Rightarrow> string" where
  \<open>silence_command r a =
     (case fingerprint_hex r (al_originator_fp a) of None \<Rightarrow> []
      | Some fp \<Rightarrow>
          open_tag ''div'' ''margin-top:8px'' @ open_tag ''div'' ''color:#5f6368;font-size:11px;margin-bottom:3px'' @
          ''plus your usual --operator-key / --agent-addr / --agent-pubkey-b64 / --cluster-id'' @ tag ''/div'' @
          open_tag ''div'' (MONO @ '';font-size:11px;color:#3c4043;word-break:break-all;user-select:all'') @ ''bowery alerts silence '' @
          field (al_episode_id a) FIELD_CAP @ '' --agent-fp '' @ esc fp @
          '' --reason &quot;&lt;why this is benign&gt;&quot; --fanout'' @ tag ''/div'' @ tag ''/div'')\<close>

definition silence_block :: "rendering \<Rightarrow> alert \<Rightarrow> string" where
  \<open>silence_block r a =
     open_tag ''div'' ''background:#f8f9fa;border-radius:4px;padding:8px 10px;margin-top:10px'' @
     open_tag ''div'' ''color:#5f6368;font-size:11px;text-transform:uppercase;letter-spacing:.4px;margin-bottom:3px'' @ ''episode id '' @ em_dash @
     '' the handle to silence this'' @ tag ''/div'' @ open_tag ''div'' (MONO @ '';font-size:13px;word-break:break-all;user-select:all'') @
     field (al_episode_id a) FIELD_CAP @ tag ''/div'' @ silence_command r a @ tag ''/div''\<close>

definition is_ascii_hexdigit :: "char \<Rightarrow> bool" where
  "is_ascii_hexdigit c \<longleftrightarrow> c \<in> set ''0123456789abcdefABCDEF''"

definition sha_cell :: "string \<Rightarrow> string" where
  \<open>sha_cell sha =
     (if length sha = 64 \<and> list_all is_ascii_hexdigit sha
      then ''<a href="https://www.virustotal.com/gui/file/'' @ field sha FIELD_CAP @ ''" style="color:#1a73e8;text-decoration:none">'' @
        field sha FIELD_CAP @ tag ''/a''
      else field sha FIELD_CAP)\<close>

definition alert_card :: "rendering \<Rightarrow> verdict_map \<Rightarrow> alert \<Rightarrow> string" where
  \<open>alert_card r vt a =
     open_tag ''div'' (''border:1px solid #dadce0;border-left:4px solid '' @ severity_color (al_suspicion a) @ '';border-radius:6px;padding:12px 14px;margin:0 0 12px'') @
     card_header r a @ confirmation_badge a @ neighbour_block a @ open_tag ''table'' ''border-collapse:collapse;width:100%'' @
     (if al_exe_path a = [] then [] else html_row ''exe'' (field (al_exe_path a) FIELD_CAP) True) @
     (if al_exe_sha256_hex a = [] then [] else html_row ''sha256'' (sha_cell (al_exe_sha256_hex a)) True) @
     (case vt (str_lower (al_exe_sha256_hex a)) of None \<Rightarrow> []
      | Some v \<Rightarrow> html_row ''virustotal'' (field (verdict_summary v) FIELD_CAP) False) @
     html_row ''why'' (field (al_rationale a) RATIONALE_CAP) False @
     (if al_model_explanation a = [] then [] else html_row ''model says'' (field (al_model_explanation a) RATIONALE_CAP) False) @
     concat (map (\<lambda>x. html_row (field (at_key x) 16) (field (at_value x) CONTEXT_CAP) True) (al_context a)) @
     tag ''/table'' @ silence_block r a @ tag ''/div''\<close>

definition host_html :: "rendering \<Rightarrow> verdict_map \<Rightarrow> host_alerts \<Rightarrow> string" where
  \<open>host_html r vt h =
     open_tag ''h2'' ''font-size:15px;margin:20px 0 10px;padding-bottom:4px;border-bottom:1px solid #dadce0'' @ field (ha_host h) FIELD_CAP @
     open_tag ''span'' ''font-weight:400;color:#5f6368'' @ '' '' @ em_dash @ '' '' @ dec (length (ha_alerts h)) @ '' alert(s)'' @ tag ''/span'' @ tag ''/h2'' @
     concat (map (alert_card r vt) (take MAX_ENUMERATED (ha_alerts h))) @
     (if MAX_ENUMERATED < length (ha_alerts h)
      then open_tag ''p'' ''color:#5f6368;margin:0 0 12px'' @ ellipsis @ '' and '' @ dec (length (ha_alerts h) - MAX_ENUMERATED) @ '' more, not listed.'' @ tag ''/p''
      else [])\<close>

definition html_footer :: string where
  \<open>html_footer =
     open_tag ''div'' ''border-top:1px solid #dadce0;margin-top:20px;padding-top:12px;color:#5f6368;font-size:12px'' @
     open_tag ''p'' ''margin:0 0 8px'' @ ''Fields above come from the monitored host and are attacker-influenceable; '' @
     ''treat them as leads, not facts. Verify against the signed source with '' @ open_tag ''code'' MONO @ ''bowery alerts tail'' @ tag ''/code'' @ ''.'' @ tag ''/p'' @
     open_tag ''p'' ''margin:0 0 8px'' @ ''Silencing signs the rule, the binary'' @ [CHR 0x27] @ ''s hash and the path an alert stands for '' @ em_dash @
     '' not the episode, which never recurs. '' @ open_tag ''code'' MONO @ ''--weight 0.5'' @ tag ''/code'' @ '' damps instead of silencing, and '' @ open_tag ''code'' MONO @ ''bowery alerts unsilence &lt;id&gt;'' @ tag ''/code'' @ '' undoes it.'' @ tag ''/p'' @ open_tag ''p'' ''margin:0'' @ ''Sent by '' @ open_tag ''code'' MONO @ ''bowery notify'' @ tag ''/code'' @ ''. '' @
     ''Nothing was stored off-host.'' @ tag ''/p'' @ tag ''/div'' @ tag ''/div''\<close>

definition body_html :: "rendering \<Rightarrow> host_alerts list \<Rightarrow> verdict_map \<Rightarrow> string" where
  \<open>body_html r hosts vt =
     open_tag ''div'' (SANS @ '';font-size:14px;line-height:1.5;color:#202124;max-width:860px'') @ open_tag ''p'' ''margin:0 0 16px'' @ tag ''strong'' @
     dec (length (all_alerts hosts)) @ tag ''/strong'' @ '' new alert(s) from the Bowery mesh.'' @ tag ''/p'' @
     concat (map (host_html r vt) (filter (\<lambda>h. ha_alerts h \<noteq> []) hosts)) @ html_footer\<close>

definition compose :: "rendering \<Rightarrow> host_alerts list \<Rightarrow> verdict_map \<Rightarrow> string option \<Rightarrow> string \<times> string" where
  \<open>compose r hosts vt held_back =
     (body_text r hosts vt @
        (case held_back of None \<Rightarrow> []
         | Some l \<Rightarrow> [NL] @ l @ [NL] @ ''Held-back alerts remain readable with `bowery alerts`.'' @ [NL]),
      body_html r hosts vt @
        (case held_back of None \<Rightarrow> []
         | Some l \<Rightarrow> open_tag ''p'' (SANS @ '';font-size:12px;color:#5f6368'') @ esc l @
             tag ''br'' @ ''Held-back alerts remain readable with '' @ open_tag ''code'' MONO @ ''bowery alerts'' @ tag ''/code'' @ ''.'' @ tag ''/p''))\<close>

section \<open>Markup\<close>

text \<open>
  What a reader of HTML sees as tags: a tag runs from \<open><\<close> to the next \<open>>\<close> outside a quoted value. A
  harmless tag is one of a few elements, bare or with a style that can name no resource, or the link to a
  hash of 64 hexadecimal digits.
\<close>

datatype html_pos = InText | InTag string | InValue string

fun html_step :: "html_pos \<Rightarrow> char \<Rightarrow> html_pos \<times> string list" where
  "html_step InText c = (if c = CHR ''<'' then (InTag [], []) else (InText, []))"
| "html_step (InTag t) c = (if c = CHR ''>'' then (InText, [t]) else if c = CHR 0x22 then (InValue (t @ [c]), []) else (InTag (t @ [c]), []))"
| "html_step (InValue t) c = (if c = CHR 0x22 then (InTag (t @ [c]), []) else (InValue (t @ [c]), []))"

fun html_scan :: "html_pos \<Rightarrow> string \<Rightarrow> html_pos \<times> string list" where
  "html_scan pos [] = (pos, [])"
| "html_scan pos (c # s) = (let (pos1, out) = html_step pos c; (pos2, rest) = html_scan pos1 s in (pos2, out @ rest))"

definition style_char :: "char \<Rightarrow> bool" where
  "style_char c \<longleftrightarrow> (let n = (of_char c :: nat) in
     n = 32 \<or> n = 35 \<or> n = 37 \<or> n = 39 \<or> 44 \<le> n \<and> n \<le> 46 \<or> 48 \<le> n \<and> n \<le> 59 \<or> 65 \<le> n \<and> n \<le> 90 \<or> 97 \<le> n \<and> n \<le> 122)"

definition STYLED :: "string list" where
  "STYLED = [''code'', ''div'', ''h2'', ''p'', ''span'', ''table'', ''td'']"

definition bare_tag :: "string \<Rightarrow> bool" where
  "bare_tag t \<longleftrightarrow> t \<in> set [''tr'', ''br'', ''strong'', ''/a'', ''/code'', ''/div'', ''/h2'', ''/p'', ''/span'', ''/strong'', ''/table'', ''/td'', ''/tr'']"

definition styled_tag :: "string \<Rightarrow> bool" where
  \<open>styled_tag t \<longleftrightarrow>
     (let name = takeWhile (\<lambda>c. c \<noteq> CHR '' '') t; rest = dropWhile (\<lambda>c. c \<noteq> CHR '' '') t in
      name \<in> set STYLED \<and> starts_with rest '' style="'' \<and>
      drop 8 rest \<noteq> [] \<and> last rest = CHR 0x22 \<and> list_all style_char (butlast (drop 8 rest)))\<close>

definition vt_link :: "string \<Rightarrow> string" where
  \<open>vt_link sha = ''a href="https://www.virustotal.com/gui/file/'' @ sha @ ''" style="color:#1a73e8;text-decoration:none"''\<close>

definition link_tag :: "string \<Rightarrow> bool" where
  "link_tag t \<longleftrightarrow> (let sha = take 64 (drop 44 t) in t = vt_link sha \<and> length sha = 64 \<and> list_all is_ascii_hexdigit sha)"

definition harmless_tag :: "string \<Rightarrow> bool" where
  "harmless_tag t \<longleftrightarrow> bare_tag t \<or> styled_tag t \<or> link_tag t"

definition harmless_html :: "string \<Rightarrow> bool" where
  "harmless_html s \<longleftrightarrow> fst (html_scan InText s) = InText \<and> list_all harmless_tag (snd (html_scan InText s))"

lemma html_scan_append:
  "html_scan pos (s @ t) = (let (pos1, out) = html_scan pos s; (pos2, rest) = html_scan pos1 t in (pos2, out @ rest))"
  by (induction s arbitrary: pos) (simp_all add: split_beta Let_def)

lemma harmless_append [simp]: "harmless_html s \<Longrightarrow> harmless_html (s @ t) \<longleftrightarrow> harmless_html t"
  by (cases "html_scan InText s"; cases "html_scan InText t") (simp add: harmless_html_def html_scan_append)

lemma harmless_Nil [simp]: "harmless_html []"
  by (simp add: harmless_html_def)

lemma harmless_Cons [simp]: "c \<noteq> CHR ''<'' \<Longrightarrow> harmless_html (c # s) \<longleftrightarrow> harmless_html s"
  by (simp add: harmless_html_def split_beta)

lemma harmless_concat [simp]: "\<forall>x \<in> set xs. harmless_html (f x) \<Longrightarrow> harmless_html (concat (map f xs))"
  by (induction xs) auto

lemma harmless_if [simp]: "harmless_html s \<Longrightarrow> harmless_html t \<Longrightarrow> harmless_html (if b then s else t)"
  by simp

lemma harmless_option [simp]: "\<forall>x. harmless_html (f x) \<Longrightarrow> harmless_html (case m of None \<Rightarrow> [] | Some x \<Rightarrow> f x)"
  by (cases m) simp_all

lemma html_scan_text: "CHR ''<'' \<notin> set s \<Longrightarrow> html_scan InText s = (InText, [])"
  by (induction s) auto

lemma harmless_text: "CHR ''<'' \<notin> set s \<Longrightarrow> harmless_html s"
  by (simp add: harmless_html_def html_scan_text)

lemma html_scan_value: "CHR 0x22 \<notin> set s \<Longrightarrow> html_scan (InValue t) s = (InValue (t @ s), [])"
  by (induction s arbitrary: t) auto

subsection \<open>Fields hold no markup\<close>

lemma esc_no_markup: "CHR ''<'' \<notin> set (esc s) \<and> CHR ''>'' \<notin> set (esc s) \<and> CHR 0x22 \<notin> set (esc s) \<and> CHR 0x27 \<notin> set (esc s)"
  by (induction s) (simp_all add: esc_def esc_char_def)

lemma harmless_esc [simp]: "harmless_html (esc s)"
  by (rule harmless_text) (simp add: esc_no_markup)

lemma harmless_field [simp]: "harmless_html (field s cap)"
  by (simp add: field_def)

lemma dec_digit: "c \<in> set (dec n) \<Longrightarrow> 48 \<le> (of_char c :: nat) \<and> (of_char c :: nat) < 58"
proof (induction n rule: dec.induct)
  case (1 n)
  have d: "48 \<le> (of_char (char_of (48 + n mod 10) :: char) :: nat) \<and> (of_char (char_of (48 + n mod 10) :: char) :: nat) < 58"
    using digit [of "n mod 10"] by simp
  show ?case
  proof (cases "n < 10")
    case True
    with 1(2) have "c = char_of (48 + n mod 10)" by (subst (asm) dec.simps) simp
    with d show ?thesis by (simp only: )
  next
    case False
    then have "c \<in> set (dec (n div 10)) \<or> c = char_of (48 + n mod 10)" using 1(2) by (subst (asm) dec.simps) auto
    then show ?thesis using 1(1) [OF False] d by (elim disjE) (simp_all only: )
  qed
qed

lemma dec_no_lt: "CHR ''<'' \<notin> set (dec n)"
  using dec_digit [of "CHR ''<''" n] by auto

lemma harmless_dec [simp]: "harmless_html (dec n)"
  by (rule harmless_text) (rule dec_no_lt)

lemma harmless_fmt2 [simp]: "harmless_html (fmt2 v)"
  by (rule harmless_text) (simp add: fmt2_def dec_no_lt Let_def split: f32.splits)

subsection \<open>The templates\<close>

lemma html_scan_tag: "CHR ''>'' \<notin> set s \<Longrightarrow> CHR 0x22 \<notin> set s \<Longrightarrow> html_scan (InTag t) s = (InTag (t @ s), [])"
  by (induction s arbitrary: t) auto

lemma bare_tag_chars: "bare_tag t \<Longrightarrow> CHR ''>'' \<notin> set t \<and> CHR 0x22 \<notin> set t"
  unfolding bare_tag_def by auto

lemma harmless_bare [simp]:
  assumes "bare_tag t"
  shows "harmless_html (tag t)"
  using html_scan_tag [of t "[]"] bare_tag_chars [OF assms] assms
  by (simp add: harmless_html_def tag_def html_scan_append harmless_tag_def)

lemma styled_name: "name \<in> set STYLED \<Longrightarrow> CHR '' '' \<notin> set name \<and> CHR ''>'' \<notin> set name \<and> CHR 0x22 \<notin> set name"
  unfolding STYLED_def by auto

lemma style_char_plain: "list_all style_char css \<Longrightarrow> CHR 0x22 \<notin> set css"
  by (auto simp: list_all_iff style_char_def Let_def)

lemma styled_tag_open:
  assumes "name \<in> set STYLED" "list_all style_char css"
  shows \<open>styled_tag (name @ '' style="'' @ css @ [CHR 0x22])\<close>
proof -
  let ?t = \<open>name @ '' style="'' @ css @ [CHR 0x22]\<close>
  have t: "takeWhile (\<lambda>c. c \<noteq> CHR '' '') ?t = name" and d: \<open>dropWhile (\<lambda>c. c \<noteq> CHR '' '') ?t = '' style="'' @ css @ [CHR 0x22]\<close>
    using styled_name [OF assms(1)] by (auto simp: takeWhile_append dropWhile_append)
  show ?thesis unfolding styled_tag_def t d using assms by (simp add: starts_with_def)
qed

lemma harmless_open [simp]:
  assumes "name \<in> set STYLED" "list_all style_char css"
  shows "harmless_html (open_tag name css)"
proof -
  have "html_scan InText (open_tag name css) = (InText, [name @ '' style='' @ [CHR 0x22] @ css @ [CHR 0x22]])"
    unfolding open_tag_def using styled_name [OF assms(1)] html_scan_tag [of name "[]"]
      html_scan_value [OF style_char_plain [OF assms(2)]]
    by (simp add: html_scan_append)
  then show ?thesis using styled_tag_open [OF assms] by (simp add: harmless_html_def harmless_tag_def)
qed

lemma styles [simp]: "list_all style_char MONO" "list_all style_char SANS" "list_all style_char (severity_color v)"
  by (simp_all add: MONO_def SANS_def severity_color_def style_char_def)

lemma dashes [simp]: "harmless_html em_dash" "harmless_html ellipsis"
  by (simp_all add: em_dash_def ellipsis_def)

lemmas template_simps = bare_tag_def STYLED_def style_char_def

lemma harmless_html_row [simp]: "harmless_html label \<Longrightarrow> harmless_html v \<Longrightarrow> harmless_html (html_row label v w)"
  by (simp add: html_row_def template_simps)

lemma harmless_card_header [simp]: "harmless_html (card_header r a)"
  by (simp add: card_header_def template_simps)

lemma harmless_badge [simp]: "harmless_html (confirmation_badge a)"
proof -
  have "list_all style_char (fst (badge_content c)) \<and> list_all style_char (fst (snd (badge_content c)))" for c
    by (simp add: badge_content_def style_char_def)
  then show ?thesis by (simp add: confirmation_badge_def template_simps split_beta split: option.splits)
qed

lemma harmless_neighbour_line [simp]: "harmless_html (neighbour_line x)"
  by (simp add: neighbour_line_def template_simps)

lemma harmless_neighbours [simp]: "harmless_html (neighbour_block a)"
  by (simp add: neighbour_block_def template_simps Let_def)

lemma harmless_silence_block [simp]: "harmless_html (silence_block r a)"
  by (simp add: silence_block_def silence_command_def template_simps split: option.splits)

lemma utf8_chars_ascii: "list_all (\<lambda>c. \<not> is_continuation c) s \<Longrightarrow> utf8_chars s = map (\<lambda>c. [c]) s"
proof (induction s rule: utf8_chars.induct)
  case (2 c s)
  then have "takeWhile is_continuation s = []" "dropWhile is_continuation s = s" by (cases s; simp)+
  with 2 show ?case by simp
qed simp

lemma trim_chars_none: "\<forall>g \<in> set cs. \<not> char_is_whitespace g \<Longrightarrow> trim_chars cs = cs"
proof -
  have "dropWhile char_is_whitespace ds = ds" if "\<forall>g \<in> set ds. \<not> char_is_whitespace g" for ds
    using that by (cases ds) simp_all
  from this [of cs] this [of "rev cs"] show "\<forall>g \<in> set cs. \<not> char_is_whitespace g \<Longrightarrow> trim_chars cs = cs"
    by (simp add: trim_chars_def)
qed

definition plain_char :: "char \<Rightarrow> bool" where
  "plain_char c \<longleftrightarrow> (let n = (of_char c :: nat) in 33 \<le> n \<and> n \<le> 126 \<and> n \<notin> {34, 38, 39, 60, 62})"

text \<open>A field of printing characters without markup is printed as it is, when it fits.\<close>

lemma field_plain:
  assumes "list_all plain_char s" "length s \<le> cap"
  shows "field s cap = s"
proof -
  have p: "\<not> is_continuation c \<and> \<not> char_is_control [c] \<and> \<not> is_white c \<and> esc_char c = [c]" if "plain_char c" for c
  proof (intro conjI)
    have "of_char c \<le> (126 :: nat)" "33 \<le> (of_char c :: nat)" "of_char c \<noteq> (127 :: nat)" using that by (auto simp: plain_char_def Let_def)
    moreover have "n div 64 \<noteq> 2" if "n \<le> 126" for n :: nat using div_le_mono [OF that, of 64] by simp
    ultimately show "\<not> is_continuation c" "\<not> char_is_control [c]" unfolding is_continuation_def by simp_all
    have "is_white c \<Longrightarrow> of_char c < (33 :: nat)" unfolding is_white_def by auto
    then show "\<not> is_white c" using \<open>33 \<le> (of_char c :: nat)\<close> by linarith
    have "of_char c \<notin> {34, 38, 39, 60, 62 :: nat}" using that unfolding plain_char_def Let_def by blast
    then have "c \<noteq> CHR 0x22 \<and> c \<noteq> CHR ''&'' \<and> c \<noteq> CHR 0x27 \<and> c \<noteq> CHR ''<'' \<and> c \<noteq> CHR ''>''" by (intro conjI) (rule notI, simp)+
    then show "esc_char c = [c]" unfolding esc_char_def by simp
  qed
  have u: "utf8_chars s = map (\<lambda>c. [c]) s" using assms(1) p by (intro utf8_chars_ascii) (auto simp: list_all_iff)
  have "map (\<lambda>g. if char_is_control g then '' '' else g) (utf8_chars s) = map (\<lambda>c. [c]) s"
    using assms(1) p by (simp add: u list_all_iff)
  moreover have "trim_chars (map (\<lambda>c. [c]) s) = map (\<lambda>c. [c]) s"
    using assms(1) p by (intro trim_chars_none) (auto simp: list_all_iff)
  moreover have "esc s = concat (map (\<lambda>c. [c]) s)" using assms(1) p unfolding esc_def by (auto simp: list_all_iff cong: map_cong)
  ultimately show ?thesis using assms(2) by (simp add: field_def sanitize_def Let_def)
qed

lemma hexdigit_plain: "is_ascii_hexdigit c \<Longrightarrow> plain_char c"
proof -
  have "list_all plain_char ''0123456789abcdefABCDEF''" by code_simp
  then show "is_ascii_hexdigit c \<Longrightarrow> plain_char c" by (auto simp: is_ascii_hexdigit_def list_all_iff)
qed

lemma harmless_sha_cell [simp]: "harmless_html (sha_cell sha)"
proof (cases "length sha = 64 \<and> list_all is_ascii_hexdigit sha")
  case True
  then have pl: "list_all plain_char sha" using hexdigit_plain by (auto simp: list_all_iff)
  then have f: "field sha FIELD_CAP = sha" using True by (intro field_plain) (simp_all add: FIELD_CAP_def)
  have q: "CHR 0x22 \<notin> set sha" using pl by (auto simp: list_all_iff plain_char_def)
  let ?open = \<open>''<a href="https://www.virustotal.com/gui/file/'' @ sha @ ''" style="color:#1a73e8;text-decoration:none">''\<close>
  have "html_scan InText ?open = (InText, [vt_link sha])"
    using html_scan_value [OF q] by (simp add: html_scan_append vt_link_def)
  moreover have "link_tag (vt_link sha)" using True by (simp add: link_tag_def vt_link_def)
  ultimately have "harmless_html ?open" unfolding harmless_html_def harmless_tag_def by simp
  moreover have "sha_cell sha = ?open @ field sha FIELD_CAP @ tag ''/a''" using True f unfolding sha_cell_def by (simp only: if_P append_assoc)
  ultimately show ?thesis by (simp only: harmless_append harmless_field) (simp add: bare_tag_def)
qed (auto simp: sha_cell_def)

lemma harmless_alert_card [simp]: "harmless_html (alert_card r vt a)"
  by (simp add: alert_card_def template_simps del: if_split)

lemma harmless_host [simp]: "harmless_html (host_html r vt h)"
  by (simp add: host_html_def template_simps del: if_split)

lemma harmless_footer [simp]: "harmless_html html_footer"
  by (simp add: html_footer_def template_simps)

text \<open>
  C35. No field of an alert becomes markup. Whatever the agents report and the service answers, the HTML of the
  mail is read to its end outside any tag, and every tag in it is one of the bare elements of the template,
  one with a style that names no resource, or the link to a hash of 64 hexadecimal digits.
\<close>

theorem mail_markup_harmless:
  "harmless_html (snd (compose r hosts vt held_back))"
proof -
  have "harmless_html (body_html r hosts vt)" by (simp add: body_html_def template_simps)
  then show ?thesis by (simp add: compose_def template_simps)
qed

section \<open>What is shown\<close>

text \<open>The characters a reader of HTML shows for a text without tags.\<close>

function html_text :: "string \<Rightarrow> string" where
  "html_text [] = []"
| "html_text (c # s) =
     (if c \<noteq> CHR ''&'' then c # html_text s
      else if starts_with s ''amp;'' then CHR ''&'' # html_text (drop 4 s)
      else if starts_with s ''lt;'' then CHR ''<'' # html_text (drop 3 s)
      else if starts_with s ''gt;'' then CHR ''>'' # html_text (drop 3 s)
      else if starts_with s ''quot;'' then CHR 0x22 # html_text (drop 5 s)
      else if starts_with s ''#39;'' then CHR 0x27 # html_text (drop 4 s)
      else c # html_text s)"
  by pat_completeness auto
termination by (relation "measure length") auto

lemma html_text_esc_char: "html_text (esc_char c @ t) = c # html_text t"
  by (simp add: esc_char_def starts_with_def)

lemma html_text_esc: "html_text (esc s) = s"
  by (induction s) (simp_all add: esc_def html_text_esc_char)

text \<open>A byte that is a control character by itself.\<close>

definition control_byte :: "char \<Rightarrow> bool" where
  "control_byte c \<longleftrightarrow> of_char c < (32 :: nat) \<or> of_char c = (127 :: nat)"

lemma utf8_chars_cont: "g \<in> set (utf8_chars s) \<Longrightarrow> \<exists>c cs. g = c # cs \<and> list_all is_continuation cs"
proof (induction s rule: utf8_chars.induct)
  case (2 c s)
  have "list_all is_continuation (takeWhile is_continuation s)" by (auto simp: list_all_iff dest: set_takeWhileD)
  with 2 show ?case by auto
qed simp

lemma continuation_not_control: "is_continuation c \<Longrightarrow> \<not> control_byte c"
proof
  assume a: "is_continuation c" "control_byte c"
  then have "of_char c \<le> (127 :: nat)" by (auto simp: control_byte_def)
  from div_le_mono [OF this, of 64] a(1) show False by (simp add: is_continuation_def)
qed

text \<open>The leading byte of a longer character is none either, in text that is UTF-8.\<close>

definition utf8_text :: "string \<Rightarrow> bool" where
  "utf8_text s \<longleftrightarrow> list_all (\<lambda>g. 1 < length g \<longrightarrow> 128 \<le> (of_char (hd g) :: nat)) (utf8_chars s)"

lemma sanitize_no_control:
  assumes "utf8_text s" "c \<in> set (sanitize s cap)"
  shows "\<not> control_byte c"
proof -
  let ?cleaned = "map (\<lambda>g. if char_is_control g then '' '' else g) (utf8_chars s)"
  have clean: "\<not> control_byte x" if "g \<in> set ?cleaned" "x \<in> set g" for g x
  proof (cases "g = '' ''")
    case False
    with that(1) have g: "g \<in> set (utf8_chars s)" "\<not> char_is_control g" by (auto split: if_splits)
    obtain d ds where d: "g = d # ds" "list_all is_continuation ds" using utf8_chars_cont [OF g(1)] by blast
    show ?thesis
    proof (cases ds)
      case Nil
      with d g(2) that(2) show ?thesis by (simp add: control_byte_def)
    next
      case (Cons e es)
      then have "128 \<le> (of_char d :: nat)" using assms(1) g(1) d(1) by (auto simp: utf8_text_def list_all_iff)
      then have "\<not> control_byte d" by (simp add: control_byte_def)
      with that(2) d continuation_not_control show ?thesis by (auto simp: list_all_iff)
    qed
  qed (use that in \<open>auto simp: control_byte_def\<close>)
  have tail: "list_all (\<lambda>x. \<not> control_byte x) (ellipsis @ '' ['')" "list_all (\<lambda>x. \<not> control_byte x) '' more characters; see `bowery alerts`]''"
    by code_simp+
  have decs: "x \<in> set (dec n) \<Longrightarrow> \<not> control_byte x" for x n using dec_digit [of x n] by (auto simp: control_byte_def)
  have sub: "set (trim_chars ?cleaned) \<subseteq> set ?cleaned" by (rule set_trim_chars)
  from assms(2) consider g where "g \<in> set (trim_chars ?cleaned)" "c \<in> set g"
    | "c \<in> set (ellipsis @ '' ['')" | n where "c \<in> set (dec n)" | "c \<in> set '' more characters; see `bowery alerts`]''"
    unfolding sanitize_def Let_def by (simp only: if_splits set_append set_concat Un_iff UN_iff split: if_splits) (blast dest: in_set_takeD)+
  then show ?thesis
    using clean sub decs tail unfolding list_all_iff by cases blast+
qed

text \<open>
  A field is shown as it was cleaned, and cleaned it breaks no line: what a reader of the HTML is shown for
  a field is exactly its cleaned text, of a text in UTF-8 no byte of that is a control character, and it
  has no markup of its own.
\<close>

theorem field_shows_sanitized:
  "html_text (field s cap) = sanitize s cap \<and>
   (utf8_text s \<longrightarrow> list_all (\<lambda>c. \<not> control_byte c) (sanitize s cap)) \<and>
   list_all (\<lambda>c. c \<notin> {CHR ''<'', CHR ''>'', CHR 0x22, CHR 0x27}) (field s cap)"
  using sanitize_no_control [of s] esc_no_markup [of "sanitize s cap"]
  by (auto simp: field_def html_text_esc list_all_iff)

theorem field_shows_sanitized_witness:
  \<open>utf8_text [CHR 0x0A, CHR ''<'', CHR ''b'', CHR ''>''] \<and>
   list_all (\<lambda>c. \<not> control_byte c) (sanitize [CHR 0x0A, CHR ''<'', CHR ''b'', CHR ''>''] 512) \<and>
   field [CHR 0x0A, CHR ''<'', CHR ''b'', CHR ''>''] 512 = ''&lt;b&gt;''\<close>
proof -
  have "utf8_text [CHR 0x0A, CHR ''<'', CHR ''b'', CHR ''>'']" by code_simp
  moreover have "field [CHR 0x0A, CHR ''<'', CHR ''b'', CHR ''>''] 512 = ''&lt;b&gt;''" by code_simp
  ultimately show ?thesis using field_shows_sanitized [of "[CHR 0x0A, CHR ''<'', CHR ''b'', CHR ''>'']" 512] by blast
qed

subsection \<open>Wrapped lines\<close>

text \<open>Wrapping keeps the words in their order and every line within the width, but for a line of one long word.\<close>

lemma wrap_words_width:
  "l \<in> set (wrap_words avail line ws) \<Longrightarrow> length line \<le> avail \<or> line \<in> set ws0 \<Longrightarrow> set ws \<subseteq> set ws0 \<Longrightarrow> length l \<le> avail \<or> l \<in> set ws0"
proof (induction avail line ws rule: wrap_words.induct)
  case (2 avail line w ws)
  then show ?case by (auto split: if_splits)
qed (auto split: if_splits)

lemma split_whitespace_nonempty: "w \<in> set (split_whitespace word cs) \<Longrightarrow> w \<noteq> []"
  by (induction word cs rule: split_whitespace.induct) (auto split: if_splits)

lemma join_merge: "join_with sep ((a @ sep @ b) # r) = join_with sep (a # b # r)"
  by (cases r) simp_all

lemma wrap_words_Nil: "line \<noteq> [] \<Longrightarrow> wrap_words avail line ws \<noteq> []"
  by (induction avail line ws rule: wrap_words.induct) simp_all

lemma wrap_words_join:
  "\<forall>w \<in> set ws. w \<noteq> [] \<Longrightarrow>
   join_with '' '' (map concat (wrap_words avail line ws)) = join_with '' '' (map concat ((if line = [] then [] else [line]) @ ws))"
proof (induction avail line ws rule: wrap_words.induct)
  case (2 avail line w ws)
  show ?case
  proof (cases "line \<noteq> [] \<and> avail < length line + 1 + length w")
    case True
    with 2 wrap_words_Nil [of w avail ws] show ?thesis by (cases "wrap_words avail w ws") auto
  next
    case False
    with 2 show ?thesis using join_merge [of "'' ''" "concat line" "concat w" "map concat ws"] by auto
  qed
qed simp

end
