(* ===== verification/Notify.thy ===== *)
theory Notify
  imports Mail "HOL-Library.AList" "HOL-Library.Char_ord" "HOL-Library.List_Lexorder"
begin

text \<open>
  Mail to the operator, \<open>crates/bowery-cli/src/notify.rs\<close>: what a run polls, filters, collapses, screens
  against the hash service and sends, and when the cursors move. What arrives from the agents, the mail
  server, the answers of the service and the operator's files are arguments.
\<close>

section \<open>Selection\<close>

record filter_config =
  fc_min_suspicion :: f32
  fc_confirmed_only :: bool

definition passes :: "alert \<Rightarrow> filter_config \<Rightarrow> bool" where
  "passes a f =
     (if f32_less (al_suspicion a) (fc_min_suspicion f) then False
      else if fc_confirmed_only f \<and> \<not> is_confirmed a then False else True)"

text \<open>
  The newest alert of each episode, of equally new ones the first; alerts without an episode stay apart.
  The map of episodes is ordered by its keys.
\<close>

definition keep_newest :: "(string \<times> alert) list \<times> alert list \<Rightarrow> alert \<Rightarrow> (string \<times> alert) list \<times> alert list" where
  "keep_newest acc a =
     (if al_episode_id a = [] then (fst acc, snd acc @ [a])
      else case map_of (fst acc) (al_episode_id a) of
        Some prev \<Rightarrow> if al_ts_unix_ms a \<le> al_ts_unix_ms prev then acc else (AList.update (al_episode_id a) a (fst acc), snd acc)
      | None \<Rightarrow> (AList.update (al_episode_id a) a (fst acc), snd acc))"

text \<open>Most suspicious first, then the newest; the sort is stable.\<close>

definition comes_before :: "alert \<Rightarrow> alert \<Rightarrow> bool" where
  "comes_before a b \<longleftrightarrow> f32_less (al_suspicion b) (al_suspicion a) \<or>
     \<not> f32_less (al_suspicion a) (al_suspicion b) \<and> al_ts_unix_ms b < al_ts_unix_ms a"

fun insert_by :: "('a \<Rightarrow> 'a \<Rightarrow> bool) \<Rightarrow> 'a \<Rightarrow> 'a list \<Rightarrow> 'a list" where
  "insert_by before x [] = [x]"
| "insert_by before x (y # ys) = (if before x y then x # y # ys else y # insert_by before x ys)"

definition sort_by :: "('a \<Rightarrow> 'a \<Rightarrow> bool) \<Rightarrow> 'a list \<Rightarrow> 'a list" where
  "sort_by before xs = foldl (\<lambda>acc x. insert_by before x acc) [] xs"

definition dedup_by_episode :: "alert list \<Rightarrow> alert list" where
  "dedup_by_episode alerts =
     (case foldl keep_newest ([], []) alerts of (by_episode, unkeyed) \<Rightarrow>
        sort_by comes_before (map snd (sort_key fst by_episode) @ unkeyed))"

section \<open>Screening\<close>

record vt_outcome =
  vo_looked_up :: nat
  vo_suppressed :: nat
  vo_flagged :: nat
  vo_unknown :: nat
  vo_unavailable :: nat

definition vt_outcome_line :: "vt_outcome \<Rightarrow> string option" where
  "vt_outcome_line v =
     (if vo_looked_up v = 0 then None
      else Some (''VirusTotal: '' @ dec (vo_looked_up v) @ '' hash(es) checked'' @
        (if 0 < vo_flagged v then '', '' @ dec (vo_flagged v) @ '' FLAGGED'' else []) @
        (if 0 < vo_unknown v then '', '' @ dec (vo_unknown v) @ '' unknown to VT'' else []) @
        (if 0 < vo_suppressed v then '', '' @ dec (vo_suppressed v) @ '' alert(s) held back as known-clean'' else []) @
        (if 0 < vo_unavailable v then '', '' @ dec (vo_unavailable v) @ '' could not be checked (sent anyway)'' else [])))"

definition vt_decision :: "vt_verdict \<Rightarrow> bool \<Rightarrow> bool" where
  "vt_decision v suppress_known_clean = (if may_suppress v \<and> suppress_known_clean then False else True)"

record vt_config =
  vc_enabled :: bool
  vc_api_key_file :: bool
  vc_suppress_known_clean :: bool
  vc_max_lookups :: nat

definition vt_config_default :: vt_config where
  "vt_config_default = \<lparr>vc_enabled = False, vc_api_key_file = False, vc_suppress_known_clean = True, vc_max_lookups = 20\<rparr>"

text \<open>
  The state of a screening: the memo, the lookups left, how many were made, whether the quota is spent,
  what was counted, and the verdicts told to the reader.
\<close>

record screening =
  sg_cache :: vt_cache
  sg_budget :: nat
  sg_lookups :: nat
  sg_exhausted :: bool
  sg_outcome :: vt_outcome
  sg_verdicts :: verdict_map

definition count_verdict :: "vt_verdict \<Rightarrow> vt_outcome \<Rightarrow> vt_outcome" where
  "count_verdict v cnt =
     (let cnt1 = cnt\<lparr>vo_looked_up := vo_looked_up cnt + 1\<rparr>;
          cnt2 = (if is_malicious v then cnt1\<lparr>vo_flagged := vo_flagged cnt1 + 1\<rparr> else cnt1)
      in case v of Unavailable _ \<Rightarrow> cnt2\<lparr>vo_unavailable := vo_unavailable cnt2 + 1\<rparr>
         | UnknownHash \<Rightarrow> cnt2\<lparr>vo_unknown := vo_unknown cnt2 + 1\<rparr> | _ \<Rightarrow> cnt2)"

text \<open>\<open>reply i sha\<close> is what the \<open>i\<close>-th lookup, for the hash \<open>sha\<close>, would meet.\<close>

type_synonym vt_service = "nat \<Rightarrow> string \<Rightarrow> vt_reply"

definition find_verdict :: "vt_service \<Rightarrow> u64 \<Rightarrow> string \<Rightarrow> screening \<Rightarrow> (vt_verdict \<times> screening) option" where
  "find_verdict reply now sha s =
     (case vt_get (sg_cache s) sha now of
        Some v \<Rightarrow> Some (v, s)
      | None \<Rightarrow>
          if sg_budget s = 0 then None
          else (case vt_lookup (sg_exhausted s) (reply (sg_lookups s) sha) of (v, exhausted) \<Rightarrow>
            Some (v, s\<lparr>sg_budget := sg_budget s - 1, sg_lookups := sg_lookups s + 1, sg_exhausted := exhausted,
              sg_cache := vt_put (sg_cache s) sha v now\<rparr>)))"

definition screen_alert :: "vt_config \<Rightarrow> vt_service \<Rightarrow> u64 \<Rightarrow> alert \<Rightarrow> screening \<Rightarrow> bool \<times> screening" where
  "screen_alert cfg reply now a s =
     (if al_exe_sha256_hex a = [] then (True, s)
      else case find_verdict reply now (al_exe_sha256_hex a) s of
        None \<Rightarrow> (True, s\<lparr>sg_outcome := (sg_outcome s)\<lparr>vo_unavailable := vo_unavailable (sg_outcome s) + 1\<rparr>\<rparr>)
      | Some (v, s1) \<Rightarrow>
          let s2 = s1\<lparr>sg_outcome := count_verdict v (sg_outcome s1), sg_verdicts := (sg_verdicts s1)(str_lower (al_exe_sha256_hex a) \<mapsto> v)\<rparr> in
          if vt_decision v (vc_suppress_known_clean cfg) then (True, s2)
          else (False, s2\<lparr>sg_outcome := (sg_outcome s2)\<lparr>vo_suppressed := vo_suppressed (sg_outcome s2) + 1\<rparr>\<rparr>))"

fun screen_alerts :: "vt_config \<Rightarrow> vt_service \<Rightarrow> u64 \<Rightarrow> alert list \<Rightarrow> screening \<Rightarrow> alert list \<times> screening" where
  "screen_alerts cfg reply now [] s = ([], s)"
| "screen_alerts cfg reply now (a # as) s =
     (case screen_alert cfg reply now a s of (keep, s1) \<Rightarrow>
        case screen_alerts cfg reply now as s1 of (kept, s2) \<Rightarrow> (if keep then a # kept else kept, s2))"

fun screen_hosts :: "vt_config \<Rightarrow> vt_service \<Rightarrow> u64 \<Rightarrow> host_alerts list \<Rightarrow> screening \<Rightarrow> host_alerts list \<times> screening" where
  "screen_hosts cfg reply now [] s = ([], s)"
| "screen_hosts cfg reply now (h # hs) s =
     (case screen_alerts cfg reply now (ha_alerts h) s of (kept, s1) \<Rightarrow>
        case screen_hosts cfg reply now hs s1 of (rest, s2) \<Rightarrow>
          (h\<lparr>ha_alerts := sort_by (\<lambda>a b. vt_flagged (sg_verdicts s1) a \<and> \<not> vt_flagged (sg_verdicts s1) b) kept\<rparr> # rest, s2))"

definition screening_start :: "vt_config \<Rightarrow> vt_cache \<Rightarrow> screening" where
  "screening_start cfg cache =
     \<lparr>sg_cache = cache, sg_budget = vc_max_lookups cfg, sg_lookups = 0, sg_exhausted = False,
      sg_outcome = \<lparr>vo_looked_up = 0, vo_suppressed = 0, vo_flagged = 0, vo_unknown = 0, vo_unavailable = 0\<rparr>,
      sg_verdicts = (\<lambda>_. None)\<rparr>"

text \<open>
  \<open>key\<close> is the key file; \<open>client\<close> tells whether a client can be built. The second result is the memo to be
  saved, if the screening ran.
\<close>

definition screen_with_virustotal ::
    "vt_config \<Rightarrow> (u32 \<times> string option) option \<Rightarrow> bool \<Rightarrow> vt_service \<Rightarrow> vt_cache option \<Rightarrow> u64 \<Rightarrow> host_alerts list
     \<Rightarrow> host_alerts list \<times> vt_cache option \<times> vt_outcome \<times> verdict_map" where
  "screen_with_virustotal cfg key client reply cache_file now hosts =
     (if \<not> vc_enabled cfg \<or> \<not> vc_api_key_file cfg \<or> \<not> is_ok (read_api_key key) \<or> \<not> client
      then (hosts, None, sg_outcome (screening_start cfg (\<lambda>_. None)), \<lambda>_. None)
      else case screen_hosts cfg reply now hosts (screening_start cfg (vt_load cache_file)) of
        (screened, s) \<Rightarrow> (screened, Some (sg_cache s), sg_outcome s, sg_verdicts s))"

section \<open>A run\<close>

record manifest_peer =
  mp_name :: string
  mp_fp :: string
  mp_addr :: "string option"

record notify_config =
  nc_filter :: filter_config
  nc_virustotal :: vt_config

type_synonym cursors = "string \<Rightarrow> u64 option"

definition cursor_since :: "cursors \<Rightarrow> string \<Rightarrow> u64" where
  "cursor_since c fp = (case c fp of None \<Rightarrow> 0 | Some t \<Rightarrow> t)"

text \<open>The cursor file: absent, unreadable, not the expected JSON, or cursors.\<close>

datatype cursor_file = CfAbsent | CfUnreadable | CfGarbled | CfStored cursors

definition load_cursors :: "cursor_file \<Rightarrow> cursors option" where
  "load_cursors f =
     (case f of CfAbsent \<Rightarrow> Some (\<lambda>_. None) | CfUnreadable \<Rightarrow> None | CfGarbled \<Rightarrow> Some (\<lambda>_. None) | CfStored c \<Rightarrow> Some c)"

datatype notify_error = NConfig | NManifest | NCursors | NEmptyManifest | NSave | NHtml | NSend | NArchive nat | NUnpolled nat

record poll_outcome =
  po_hosts :: "host_alerts list"
  po_archive_failures :: nat
  po_archived_agents :: nat
  po_advanced :: cursors
  po_poll_failures :: nat

text \<open>
  The surroundings of a run: the files it loads, which addresses parse, what arrives from an agent asked for
  what is not older than a time (\<open>None\<close>: no connection), the archive (if it opens, and for which agents a
  write fails), the service, and the outcomes of writing files (with what a failed write leaves), of the
  preview and of the mail server.
\<close>

record notify_env =
  nv_config :: "notify_config option"
  nv_manifest :: "manifest_peer list option"
  nv_addr_ok :: "string \<Rightarrow> bool"
  nv_recv :: "manifest_peer \<Rightarrow> u64 \<Rightarrow> received list option"
  nv_archive_opens :: bool
  nv_archive_fails :: "manifest_peer \<Rightarrow> bool"
  nv_key :: "(u32 \<times> string option) option"
  nv_client :: bool
  nv_reply :: vt_service
  nv_cache_leaves :: "vt_cache option option"
  nv_now :: u64
  nv_save_leaves :: "cursor_file option"
  nv_html_fails :: bool
  nv_dry_run :: bool
  nv_send_fails :: bool
  nv_rendering :: rendering

record notify_state =
  ns_cursor_file :: cursor_file
  ns_vt_cache :: "vt_cache option"
  ns_archive :: "(string \<times> alert list) list"
  ns_sent :: "(string \<times> string \<times> string) list"

definition poll_answer :: "notify_env \<Rightarrow> cursors \<Rightarrow> manifest_peer \<Rightarrow> (alert list \<times> u64) option" where
  "poll_answer env cur p =
     (let since = cursor_since cur (mp_fp p) in
      case nv_recv env p since of None \<Rightarrow> None
      | Some frames \<Rightarrow> (case poll_loop [] since frames of Inl _ \<Rightarrow> None | Inr r \<Rightarrow> Some r))"

definition archive_alerts :: "notify_env \<Rightarrow> manifest_peer \<Rightarrow> alert list \<Rightarrow> poll_outcome \<times> notify_state \<Rightarrow> poll_outcome \<times> notify_state" where
  "archive_alerts env p alerts x =
     (if nv_archive_opens env
      then ((fst x)\<lparr>po_archived_agents := po_archived_agents (fst x) + 1,
              po_archive_failures := po_archive_failures (fst x) + (if nv_archive_fails env p then 1 else 0)\<rparr>,
            if nv_archive_fails env p then snd x else (snd x)\<lparr>ns_archive := ns_archive (snd x) @ [(mp_name p, alerts)]\<rparr>)
      else x)"

definition select_alerts :: "notify_config \<Rightarrow> alert list \<Rightarrow> alert list" where
  "select_alerts cfg alerts = dedup_by_episode (filter (\<lambda>a. passes a (nc_filter cfg)) alerts)"

definition add_host :: "notify_config \<Rightarrow> manifest_peer \<Rightarrow> alert list \<Rightarrow> u64 \<Rightarrow> poll_outcome \<Rightarrow> poll_outcome" where
  "add_host cfg p alerts cursor out =
     out\<lparr>po_advanced := (po_advanced out)(mp_fp p \<mapsto> cursor),
       po_hosts := (if select_alerts cfg alerts \<noteq> [] then po_hosts out @ [\<lparr>ha_host = mp_name p, ha_alerts = select_alerts cfg alerts\<rparr>]
         else po_hosts out)\<rparr>"

definition poll_peer :: "notify_config \<Rightarrow> notify_env \<Rightarrow> cursors \<Rightarrow> manifest_peer \<Rightarrow> poll_outcome \<times> notify_state \<Rightarrow> poll_outcome \<times> notify_state" where
  "poll_peer cfg env cur p x =
     (case mp_addr p of None \<Rightarrow> x
      | Some addr \<Rightarrow>
          if \<not> nv_addr_ok env addr then ((fst x)\<lparr>po_poll_failures := po_poll_failures (fst x) + 1\<rparr>, snd x)
          else case poll_answer env cur p of
            None \<Rightarrow> ((fst x)\<lparr>po_poll_failures := po_poll_failures (fst x) + 1\<rparr>, snd x)
          | Some (alerts, cursor) \<Rightarrow> (case archive_alerts env p alerts x of (out, st) \<Rightarrow> (add_host cfg p alerts cursor out, st)))"

definition poll_fleet :: "notify_config \<Rightarrow> notify_env \<Rightarrow> cursors \<Rightarrow> manifest_peer list \<Rightarrow> notify_state \<Rightarrow> poll_outcome \<times> notify_state" where
  "poll_fleet cfg env cur ps st =
     fold (poll_peer cfg env cur) ps
       (\<lparr>po_hosts = [], po_archive_failures = 0, po_archived_agents = 0, po_advanced = (\<lambda>_. None), po_poll_failures = 0\<rparr>, st)"

definition archive_verdict :: "poll_outcome \<Rightarrow> notify_error option" where
  "archive_verdict out =
     (if 0 < po_archive_failures out \<and> po_archive_failures out = po_archived_agents out then Some (NArchive (po_archived_agents out)) else None)"

definition unpolled :: "poll_outcome \<Rightarrow> notify_error option" where
  "unpolled out = (if 0 < po_poll_failures out then Some (NUnpolled (po_poll_failures out)) else None)"

definition save_cursors :: "notify_env \<Rightarrow> cursors \<Rightarrow> notify_state \<Rightarrow> notify_error option \<times> notify_state" where
  "save_cursors env c st =
     (case nv_save_leaves env of None \<Rightarrow> (None, st\<lparr>ns_cursor_file := CfStored c\<rparr>)
      | Some f \<Rightarrow> (Some NSave, st\<lparr>ns_cursor_file := f\<rparr>))"

definition save_cache :: "notify_env \<Rightarrow> vt_cache option \<Rightarrow> notify_state \<Rightarrow> notify_state" where
  "save_cache env c st =
     (case c of None \<Rightarrow> st
      | Some c1 \<Rightarrow> st\<lparr>ns_vt_cache := (case nv_cache_leaves env of None \<Rightarrow> Some c1 | Some f \<Rightarrow> f)\<rparr>)"

text \<open>The checks after the cursors are saved, in their order; the first error is the result of the run.\<close>

definition finish_run :: "notify_env \<Rightarrow> cursors \<Rightarrow> poll_outcome \<Rightarrow> notify_state \<Rightarrow> notify_error option \<times> notify_state" where
  "finish_run env cur out st =
     (case save_cursors env (cur ++ po_advanced out) st of
        (Some e, st1) \<Rightarrow> (Some e, st1)
      | (None, st1) \<Rightarrow> (case archive_verdict out of Some e \<Rightarrow> (Some e, st1) | None \<Rightarrow> (unpolled out, st1)))"

definition send_digest :: "notify_env \<Rightarrow> cursors \<Rightarrow> poll_outcome \<Rightarrow> host_alerts list \<Rightarrow> vt_outcome \<Rightarrow> verdict_map \<Rightarrow> notify_state
    \<Rightarrow> notify_error option \<times> notify_state" where
  "send_digest env cur out hosts counted vt st =
     (let mail = (subject hosts vt, compose (nv_rendering env) hosts vt (vt_outcome_line counted)) in
      if nv_html_fails env then (Some NHtml, st)
      else if nv_dry_run env then (None, st)
      else if nv_send_fails env then (Some NSend, st)
      else finish_run env cur out (st\<lparr>ns_sent := ns_sent st @ [mail]\<rparr>))"

definition screen_and_send :: "notify_config \<Rightarrow> notify_env \<Rightarrow> cursors \<Rightarrow> poll_outcome \<Rightarrow> notify_state \<Rightarrow> notify_error option \<times> notify_state" where
  "screen_and_send cfg env cur out st =
     (case screen_with_virustotal (nc_virustotal cfg) (nv_key env) (nv_client env) (nv_reply env) (ns_vt_cache st) (nv_now env) (po_hosts out) of
        (hosts, cache, counted, vt) \<Rightarrow>
          let st1 = save_cache env cache st in
          if list_all (\<lambda>h. ha_alerts h = []) hosts then save_cursors env (cur ++ po_advanced out) st1
          else send_digest env cur out hosts counted vt st1)"

definition notify_run :: "notify_env \<Rightarrow> notify_state \<Rightarrow> notify_error option \<times> notify_state" where
  "notify_run env st =
     (case nv_config env of None \<Rightarrow> (Some NConfig, st)
      | Some cfg \<Rightarrow>
          (case nv_manifest env of None \<Rightarrow> (Some NManifest, st)
           | Some ps \<Rightarrow>
               (case load_cursors (ns_cursor_file st) of None \<Rightarrow> (Some NCursors, st)
                | Some cur \<Rightarrow>
                    if ps = [] then (Some NEmptyManifest, st)
                    else (case poll_fleet cfg env cur ps st of (out, st1) \<Rightarrow>
                      if po_hosts out = [] then finish_run env cur out st1 else screen_and_send cfg env cur out st1))))"

section \<open>Selection is complete\<close>

lemma set_insert_by [simp]: "set (insert_by before x ys) = insert x (set ys)"
  by (induction ys) auto

lemma set_sort_by [simp]: "set (sort_by before xs) = set xs"
  unfolding sort_by_def by (induction xs rule: rev_induct) simp_all

lemma length_insert_by [simp]: "length (insert_by before x ys) = Suc (length ys)"
  by (induction ys) auto

lemma length_sort_by [simp]: "length (sort_by before xs) = length xs"
  unfolding sort_by_def by (induction xs rule: rev_induct) simp_all

text \<open>An alert stands for an older one of its episode, and every alert for itself.\<close>

definition supersedes :: "alert \<Rightarrow> alert \<Rightarrow> bool" where
  "supersedes b a \<longleftrightarrow> b = a \<or> al_episode_id a \<noteq> [] \<and> al_episode_id b = al_episode_id a \<and> al_ts_unix_ms a \<le> al_ts_unix_ms b"

definition newest_inv :: "alert list \<Rightarrow> (string \<times> alert) list \<times> alert list \<Rightarrow> bool" where
  "newest_inv seen acc \<longleftrightarrow> distinct (map fst (fst acc)) \<and> set (snd acc) = {a \<in> set seen. al_episode_id a = []} \<and>
     (\<forall>a \<in> set seen. al_episode_id a \<noteq> [] \<longrightarrow> (\<exists>b. map_of (fst acc) (al_episode_id a) = Some b \<and> supersedes b a)) \<and>
     (\<forall>k b. map_of (fst acc) k = Some b \<longrightarrow> k = al_episode_id b \<and> b \<in> set seen)"

lemma keep_newest_inv:
  assumes "newest_inv seen acc"
  shows "newest_inv (seen @ [a]) (keep_newest acc a)"
proof (cases "al_episode_id a = []")
  case True
  with assms show ?thesis by (auto simp: newest_inv_def keep_newest_def)
next
  case False
  obtain byep un where acc: "acc = (byep, un)" by (cases acc)
  note inv = assms [unfolded newest_inv_def acc fst_conv snd_conv]
  show ?thesis
  proof (cases "\<exists>prev. map_of byep (al_episode_id a) = Some prev \<and> al_ts_unix_ms a \<le> al_ts_unix_ms prev")
    case True
    then obtain prev where pv: "map_of byep (al_episode_id a) = Some prev" "al_ts_unix_ms a \<le> al_ts_unix_ms prev" by blast
    then have "supersedes prev a" using inv False by (auto simp: supersedes_def)
    moreover have "keep_newest acc a = acc" using pv False by (simp add: keep_newest_def acc)
    ultimately show ?thesis using inv pv(1) False by (auto simp: newest_inv_def acc)
  next
    case new: False
    then have k: "keep_newest acc a = (AList.update (al_episode_id a) a byep, un)"
      using False by (auto simp: keep_newest_def acc split: option.splits)
    have "supersedes a b" if "b \<in> set seen" "al_episode_id b = al_episode_id a" for b
    proof -
      have "al_episode_id b \<noteq> []" using that False by simp
      with that(1) inv obtain c where c: "map_of byep (al_episode_id b) = Some c" "supersedes c b" by blast
      then have "al_ts_unix_ms c < al_ts_unix_ms a" using new that(2) by fastforce
      with c(2) that False show ?thesis by (auto simp: supersedes_def)
    qed
    moreover have "supersedes a a" by (simp add: supersedes_def)
    moreover have "\<exists>c. ((map_of byep)(al_episode_id a \<mapsto> a)) (al_episode_id b) = Some c \<and> supersedes c b"
      if "b \<in> set (seen @ [a])" "al_episode_id b \<noteq> []" for b
    proof (cases "al_episode_id b = al_episode_id a")
      case True
      with that calculation show ?thesis by auto
    next
      case other: False
      then have "b \<in> set seen" using that(1) by auto
      with inv that(2) other show ?thesis by (metis fun_upd_apply)
    qed
    moreover have "k = al_episode_id b \<and> b \<in> set (seen @ [a])" if "((map_of byep)(al_episode_id a \<mapsto> a)) k = Some b" for k b
      using that inv by (cases "k = al_episode_id a") auto
    moreover have "set un = {b \<in> set (seen @ [a]). al_episode_id b = []}" using inv False by auto
    ultimately show ?thesis using inv unfolding newest_inv_def k fst_conv snd_conv update_conv'
      by (intro conjI ballI allI impI) (blast intro: distinct_update)+
  qed
qed

lemma newest_fold_inv: "newest_inv alerts (foldl keep_newest ([], []) alerts)"
  by (induction alerts rule: rev_induct) (simp_all add: keep_newest_inv, simp add: newest_inv_def)

lemma set_dedup_by_episode:
  "set (dedup_by_episode alerts) = snd ` set (fst (foldl keep_newest ([], []) alerts)) \<union> set (snd (foldl keep_newest ([], []) alerts))"
  by (simp add: dedup_by_episode_def split_beta)

lemma dedup_subset: "set (dedup_by_episode alerts) \<subseteq> set alerts"
  using newest_fold_inv [of alerts] unfolding set_dedup_by_episode newest_inv_def by (auto simp: map_of_eq_Some_iff)

lemma dedup_supersedes:
  assumes "a \<in> set alerts"
  shows "\<exists>b \<in> set (dedup_by_episode alerts). supersedes b a"
proof (cases "al_episode_id a = []")
  case True
  then have "a \<in> set (dedup_by_episode alerts)" using newest_fold_inv [of alerts] assms
    unfolding set_dedup_by_episode newest_inv_def by blast
  then show ?thesis by (auto simp: supersedes_def)
next
  case False
  then obtain b where b: "map_of (fst (foldl keep_newest ([], []) alerts)) (al_episode_id a) = Some b" "supersedes b a"
    using newest_fold_inv [of alerts] assms unfolding newest_inv_def by blast
  from map_of_SomeD [OF b(1)] have "b \<in> set (dedup_by_episode alerts)" unfolding set_dedup_by_episode by force
  with b(2) show ?thesis by blast
qed

lemma select_supersedes:
  "a \<in> set alerts \<Longrightarrow> passes a (nc_filter cfg) \<Longrightarrow> \<exists>b \<in> set (select_alerts cfg alerts). supersedes b a"
  unfolding select_alerts_def by (rule dedup_supersedes) simp

text \<open>Of an episode only its newest alert is mailed.\<close>

lemma dedup_keyed:
  assumes "a \<in> set (dedup_by_episode alerts)" "al_episode_id a \<noteq> []"
  shows "map_of (fst (foldl keep_newest ([], []) alerts)) (al_episode_id a) = Some a"
proof -
  define r where "r = foldl keep_newest ([], []) alerts"
  have inv: "newest_inv alerts r" unfolding r_def by (rule newest_fold_inv)
  have "a \<notin> set (snd r)" using inv assms(2) by (simp add: newest_inv_def)
  with assms(1) obtain k where "(k, a) \<in> set (fst r)" unfolding set_dedup_by_episode r_def [symmetric] by auto
  moreover have "distinct (map fst (fst r))" using inv by (simp add: newest_inv_def)
  ultimately have m: "map_of (fst r) k = Some a" by simp
  with inv have "k = al_episode_id a" by (simp add: newest_inv_def)
  with m show ?thesis by (simp add: r_def)
qed

lemma dedup_one_per_episode:
  assumes "a \<in> set (dedup_by_episode alerts)" "b \<in> set (dedup_by_episode alerts)" "al_episode_id a = al_episode_id b" "al_episode_id a \<noteq> []"
  shows "a = b"
proof -
  have "map_of (fst (foldl keep_newest ([], []) alerts)) (al_episode_id a) = Some b"
    unfolding assms(3) by (rule dedup_keyed [OF assms(2)]) (use assms(3,4) in simp)
  with dedup_keyed [OF assms(1,4)] show ?thesis by (metis option.inject)
qed

section \<open>Screening removes only the known clean\<close>

text \<open>
  The lookups a screening makes of the service, each with its number and the hash asked for: it asks if the
  memo has no fresh verdict, the budget allows it and the quota is not known to be used up.
\<close>

fun lookups :: "vt_config \<Rightarrow> vt_service \<Rightarrow> u64 \<Rightarrow> alert list \<Rightarrow> screening \<Rightarrow> (nat \<times> string) list" where
  "lookups cfg reply now [] s = []"
| "lookups cfg reply now (a # as) s =
     (let s1 = snd (screen_alert cfg reply now a s) in
      (if sg_lookups s < sg_lookups s1 \<and> \<not> sg_exhausted s then [(sg_lookups s, al_exe_sha256_hex a)] else []) @ lookups cfg reply now as s1)"

text \<open>A hash is known to be clean: the memo says so and is fresh, or one of the lookups made, for that hash, was answered so.\<close>

definition clean_source :: "vt_service \<Rightarrow> u64 \<Rightarrow> vt_cache \<Rightarrow> (nat \<times> string) list \<Rightarrow> string \<Rightarrow> bool" where
  "clean_source reply now memo made sha \<longleftrightarrow>
     (\<exists>n. vt_get memo sha now = Some (Clean n) \<or>
       (\<exists>i asked resp. (i, asked) \<in> set made \<and> str_lower asked = str_lower sha \<and> reply i asked = VtReply 200 (Inr resp) \<and> parse_verdict resp = Clean n))"

definition memo_sound :: "vt_service \<Rightarrow> u64 \<Rightarrow> vt_cache \<Rightarrow> (nat \<times> string) list \<Rightarrow> vt_cache \<Rightarrow> bool" where
  "memo_sound reply now memo made c \<longleftrightarrow> (\<forall>sha n. vt_get c sha now = Some (Clean n) \<longrightarrow> clean_source reply now memo made sha)"

lemma lookups_append:
  "lookups cfg reply now (as @ bs) s = lookups cfg reply now as s @ lookups cfg reply now bs (snd (screen_alerts cfg reply now as s))"
  by (induction as arbitrary: s) (simp_all add: Let_def split_beta)

lemma vt_lookup_Clean: "vt_lookup ex r = (Clean n, ex') \<Longrightarrow> \<not> ex \<and> (\<exists>resp. r = VtReply 200 (Inr resp) \<and> parse_verdict resp = Clean n)"
  by (auto simp: vt_lookup_def split: if_splits vt_reply.splits sum.splits)

lemma vt_get_put: "vt_get (vt_put c sha v now) sha1 now = Some w \<Longrightarrow>
    str_lower sha1 = str_lower sha \<and> v = w \<or> vt_get c sha1 now = Some w"
  by (cases v) (auto simp: vt_get_def vt_put_def split: if_splits option.splits)

lemma find_verdict_sound:
  assumes "memo_sound reply now memo made (sg_cache s)" "find_verdict reply now sha s = Some (v, s1)"
    "sg_lookups s < sg_lookups s1 \<and> \<not> sg_exhausted s \<Longrightarrow> (sg_lookups s, sha) \<in> set made"
  shows "memo_sound reply now memo made (sg_cache s1) \<and> (may_suppress v \<longrightarrow> clean_source reply now memo made sha)"
proof (cases "vt_get (sg_cache s) sha now")
  case (Some w)
  with assms show ?thesis by (cases v) (auto simp: find_verdict_def memo_sound_def)
next
  case None
  obtain w ex where l: "vt_lookup (sg_exhausted s) (reply (sg_lookups s) sha) = (w, ex)" by fastforce
  with assms(2) None have s1: "v = w" "sg_cache s1 = vt_put (sg_cache s) sha v now" "sg_lookups s < sg_lookups s1"
    by (auto simp: find_verdict_def split: if_splits)
  have new: "clean_source reply now memo made sha1" if "str_lower sha1 = str_lower sha" "v = Clean n" for sha1 n
    using vt_lookup_Clean [of "sg_exhausted s" "reply (sg_lookups s) sha" n ex] l s1(1,3) assms(3) that unfolding clean_source_def by metis
  have "clean_source reply now memo made sha1" if "vt_get (vt_put (sg_cache s) sha v now) sha1 now = Some (Clean n)" for sha1 n
    using vt_get_put [OF that] assms(1) new [of sha1 n] unfolding memo_sound_def by blast
  then have "memo_sound reply now memo made (sg_cache s1)" unfolding memo_sound_def s1(2) by blast
  moreover have "may_suppress v \<longrightarrow> clean_source reply now memo made sha" using new [OF refl] by (cases v) simp_all
  ultimately show ?thesis by blast
qed

lemma screen_alert_lookups: "find_verdict reply now (al_exe_sha256_hex a) s = Some (v, s1) \<Longrightarrow> al_exe_sha256_hex a \<noteq> [] \<Longrightarrow>
    sg_lookups (snd (screen_alert cfg reply now a s)) = sg_lookups s1"
  by (simp add: screen_alert_def Let_def)

lemma screen_alert_sound:
  assumes "memo_sound reply now memo made (sg_cache s)" "screen_alert cfg reply now a s = (keep, s1)"
    "set (lookups cfg reply now [a] s) \<subseteq> set made"
  shows "memo_sound reply now memo made (sg_cache s1) \<and>
    (\<not> keep \<longrightarrow> vc_suppress_known_clean cfg \<and> clean_source reply now memo made (al_exe_sha256_hex a))"
proof (cases "al_exe_sha256_hex a = []")
  case False
  show ?thesis
  proof (cases "find_verdict reply now (al_exe_sha256_hex a) s")
    case None
    with assms False show ?thesis by (auto simp: screen_alert_def)
  next
    case (Some x)
    obtain v s2 where x: "x = (v, s2)" by (cases x)
    have "(sg_lookups s, al_exe_sha256_hex a) \<in> set made" if "sg_lookups s < sg_lookups s2 \<and> \<not> sg_exhausted s"
      using assms(3) that screen_alert_lookups [OF Some [unfolded x] False, of cfg] by (simp add: Let_def)
    from find_verdict_sound [OF assms(1) Some [unfolded x] this] assms(2) False show ?thesis
      by (auto simp: screen_alert_def Some x Let_def vt_decision_def split: if_splits)
  qed
qed (use assms in \<open>auto simp: screen_alert_def\<close>)

text \<open>\<open>screen_alerts\<close> and \<open>screen_hosts\<close> remove an alert only if its hash is known to be clean.\<close>

lemma screen_alerts_sound:
  assumes "memo_sound reply now memo made (sg_cache s)" "screen_alerts cfg reply now as s = (kept, s1)" "set (lookups cfg reply now as s) \<subseteq> set made"
  shows "memo_sound reply now memo made (sg_cache s1) \<and> set kept \<subseteq> set as \<and>
    (\<forall>a \<in> set as. a \<in> set kept \<or> vc_suppress_known_clean cfg \<and> clean_source reply now memo made (al_exe_sha256_hex a))"
  using assms
proof (induction as arbitrary: s kept s1)
  case (Cons a as)
  obtain keep s2 where a: "screen_alert cfg reply now a s = (keep, s2)" by fastforce
  obtain rest s3 where r: "screen_alerts cfg reply now as s2 = (rest, s3)" by fastforce
  have made: "set (lookups cfg reply now [a] s) \<subseteq> set made" "set (lookups cfg reply now as s2) \<subseteq> set made"
    using Cons.prems(3) a by (simp_all add: Let_def split: if_splits)
  from screen_alert_sound [OF Cons.prems(1) a made(1)] have m: "memo_sound reply now memo made (sg_cache s2)"
    and k: "\<not> keep \<longrightarrow> vc_suppress_known_clean cfg \<and> clean_source reply now memo made (al_exe_sha256_hex a)" by blast+
  from Cons.IH [OF m r made(2)] Cons.prems(2) a r k show ?case by (auto split: if_splits)
qed simp

lemma screen_hosts_sound:
  assumes "memo_sound reply now memo made (sg_cache s)" "screen_hosts cfg reply now hs s = (hs1, s1)"
    "h \<in> set hs" "a \<in> set (ha_alerts h)" "set (lookups cfg reply now (concat (map ha_alerts hs)) s) \<subseteq> set made"
  shows "(\<exists>h1 \<in> set hs1. ha_host h1 = ha_host h \<and> a \<in> set (ha_alerts h1)) \<or>
    vc_suppress_known_clean cfg \<and> clean_source reply now memo made (al_exe_sha256_hex a)"
  using assms
proof (induction hs arbitrary: s hs1 s1)
  case (Cons g hs)
  obtain kept s2 where a: "screen_alerts cfg reply now (ha_alerts g) s = (kept, s2)" by fastforce
  obtain rest s3 where r: "screen_hosts cfg reply now hs s2 = (rest, s3)" by fastforce
  have made: "set (lookups cfg reply now (ha_alerts g) s) \<subseteq> set made" "set (lookups cfg reply now (concat (map ha_alerts hs)) s2) \<subseteq> set made"
    using Cons.prems(5) a by (simp_all add: lookups_append)
  note snd = screen_alerts_sound [OF Cons.prems(1) a made(1)]
  have hs1: "hs1 = g\<lparr>ha_alerts := sort_by (\<lambda>a b. vt_flagged (sg_verdicts s2) a \<and> \<not> vt_flagged (sg_verdicts s2) b) kept\<rparr> # rest"
    using Cons.prems(2) a r by simp
  show ?case
  proof (cases "h = g")
    case True
    with snd Cons.prems(4) show ?thesis unfolding hs1 by auto
  next
    case False
    then have "h \<in> set hs" using Cons.prems(3) by simp
    from Cons.IH [OF conjunct1 [OF snd] r this Cons.prems(4) made(2)] show ?thesis unfolding hs1 by auto
  qed
qed simp

lemma screen_with_virustotal_sound:
  assumes "screen_with_virustotal cfg key client reply cache_file now hosts = (hosts1, cache, counted, vt)"
    "h \<in> set hosts" "a \<in> set (ha_alerts h)"
  shows "(\<exists>h1 \<in> set hosts1. ha_host h1 = ha_host h \<and> a \<in> set (ha_alerts h1)) \<or>
    vc_enabled cfg \<and> vc_suppress_known_clean cfg \<and> clean_source reply now (vt_load cache_file) (lookups cfg reply now (concat (map ha_alerts hosts)) (screening_start cfg (vt_load cache_file)))
      (al_exe_sha256_hex a)"
proof (cases "\<not> vc_enabled cfg \<or> \<not> vc_api_key_file cfg \<or> \<not> is_ok (read_api_key key) \<or> \<not> client")
  case True
  with assms show ?thesis unfolding screen_with_virustotal_def by auto
next
  case False
  obtain hs s where sc: "screen_hosts cfg reply now hosts (screening_start cfg (vt_load cache_file)) = (hs, s)" by fastforce
  have "memo_sound reply now (vt_load cache_file) made (sg_cache (screening_start cfg (vt_load cache_file)))"
    for made by (auto simp: memo_sound_def screening_start_def clean_source_def)
  from screen_hosts_sound [OF this sc assms(2,3) subset_refl] assms(1) sc False show ?thesis
    unfolding screen_with_virustotal_def by auto
qed

section \<open>Nothing is lost\<close>

lemma archive_alerts_frame [simp]:
  "ns_cursor_file (snd (archive_alerts env p as x)) = ns_cursor_file (snd x)" "ns_sent (snd (archive_alerts env p as x)) = ns_sent (snd x)"
  "ns_vt_cache (snd (archive_alerts env p as x)) = ns_vt_cache (snd x)" "po_hosts (fst (archive_alerts env p as x)) = po_hosts (fst x)"
  by (simp_all add: archive_alerts_def)

lemma poll_peer_frame:
  "ns_cursor_file (snd (poll_peer cfg env cur p x)) = ns_cursor_file (snd x)"
  "ns_sent (snd (poll_peer cfg env cur p x)) = ns_sent (snd x)"
  "ns_vt_cache (snd (poll_peer cfg env cur p x)) = ns_vt_cache (snd x)"
  "set (po_hosts (fst x)) \<subseteq> set (po_hosts (fst (poll_peer cfg env cur p x)))"
  by (auto simp: poll_peer_def add_host_def split_beta split: option.splits prod.splits)

lemma poll_peer_host:
  assumes "mp_addr p = Some addr" "nv_addr_ok env addr" "poll_answer env cur p = Some (alerts, cursor)" "select_alerts cfg alerts \<noteq> []"
  shows "\<lparr>ha_host = mp_name p, ha_alerts = select_alerts cfg alerts\<rparr> \<in> set (po_hosts (fst (poll_peer cfg env cur p x)))"
  using assms by (simp add: poll_peer_def add_host_def split_beta)

lemma poll_peers_frame:
  "ns_cursor_file (snd (fold (poll_peer cfg env cur) ps x)) = ns_cursor_file (snd x) \<and>
   ns_sent (snd (fold (poll_peer cfg env cur) ps x)) = ns_sent (snd x) \<and>
   ns_vt_cache (snd (fold (poll_peer cfg env cur) ps x)) = ns_vt_cache (snd x) \<and>
   set (po_hosts (fst x)) \<subseteq> set (po_hosts (fst (fold (poll_peer cfg env cur) ps x)))"
proof (induction ps arbitrary: x)
  case (Cons p ps)
  from Cons.IH [of "poll_peer cfg env cur p x"] subset_trans [OF poll_peer_frame(4) [of x cfg env cur p]] show ?case
    by (simp add: poll_peer_frame)
qed simp

lemma poll_peers_host:
  assumes "p \<in> set ps" "mp_addr p = Some addr" "nv_addr_ok env addr" "poll_answer env cur p = Some (alerts, cursor)" "select_alerts cfg alerts \<noteq> []"
  shows "\<lparr>ha_host = mp_name p, ha_alerts = select_alerts cfg alerts\<rparr> \<in> set (po_hosts (fst (fold (poll_peer cfg env cur) ps x)))"
  using assms(1)
proof (induction ps arbitrary: x)
  case (Cons q ps)
  show ?case
  proof (cases "p = q")
    case True
    with poll_peer_host [OF assms(2-5), of x] poll_peers_frame [of cfg env cur ps "poll_peer cfg env cur q x"] show ?thesis by auto
  next
    case False
    with Cons show ?thesis by simp
  qed
qed simp

text \<open>
  A mail tells an alert \<open>b\<close> of the agent \<open>name\<close>. Both parts have the section of the agent, in which \<open>b\<close> has
  the position \<open>i\<close>. If that is one of the first 25, the text of the alert and its card are there; if not, the
  section says how many alerts it does not list.
\<close>

definition occurs_in :: "string \<Rightarrow> string \<Rightarrow> bool" where
  "occurs_in t s \<longleftrightarrow> (\<exists>u v. s = u @ t @ v)"

definition mails :: "notify_env \<Rightarrow> string \<times> string \<times> string \<Rightarrow> string \<Rightarrow> alert \<Rightarrow> bool" where
  "mails env mail name b \<longleftrightarrow>
     (\<exists>vt h i. ha_host h = name \<and> i < length (ha_alerts h) \<and> ha_alerts h ! i = b \<and>
        occurs_in (host_text (nv_rendering env) vt h) (fst (snd mail)) \<and> occurs_in (host_html (nv_rendering env) vt h) (snd (snd mail)) \<and>
        (if i < MAX_ENUMERATED
         then occurs_in (alert_text (nv_rendering env) vt b) (host_text (nv_rendering env) vt h) \<and>
           occurs_in (alert_card (nv_rendering env) vt b) (host_html (nv_rendering env) vt h)
         else occurs_in (dec (length (ha_alerts h) - MAX_ENUMERATED) @ '' more, not listed.'') (host_text (nv_rendering env) vt h)))"

lemma occurs_in_refl [simp]: "occurs_in t t"
  unfolding occurs_in_def by (intro exI [of _ "[]"]) simp

lemma occurs_in_append: "occurs_in t u \<Longrightarrow> occurs_in t (u @ v)" "occurs_in t v \<Longrightarrow> occurs_in t (u @ v)"
  unfolding occurs_in_def by (metis append.assoc)+

lemma occurs_in_trans: "occurs_in t u \<Longrightarrow> occurs_in u v \<Longrightarrow> occurs_in t v"
  unfolding occurs_in_def by (metis append.assoc)

lemma occurs_in_concat: "x \<in> set xs \<Longrightarrow> occurs_in (f x) (concat (map f xs))"
  by (induction xs) (auto intro: occurs_in_append)

lemma body_text_hosts: "h \<in> set hosts \<Longrightarrow> ha_alerts h \<noteq> [] \<Longrightarrow> occurs_in (host_text r vt h) (body_text r hosts vt)"
  unfolding body_text_def by (intro occurs_in_append(2) occurs_in_append(1) occurs_in_concat) auto

lemma body_html_hosts: "h \<in> set hosts \<Longrightarrow> ha_alerts h \<noteq> [] \<Longrightarrow> occurs_in (host_html r vt h) (body_html r hosts vt)"
  unfolding body_html_def append_assoc [symmetric] by (rule occurs_in_append(1), rule occurs_in_append(2), rule occurs_in_concat) auto

lemma host_text_alerts: "b \<in> set (take MAX_ENUMERATED (ha_alerts h)) \<Longrightarrow> occurs_in (alert_text r vt b) (host_text r vt h)"
  unfolding host_text_def append_assoc [symmetric]
  by (rule occurs_in_append(1), rule occurs_in_append(1), rule occurs_in_append(2), rule occurs_in_concat)

lemma host_html_alerts: "b \<in> set (take MAX_ENUMERATED (ha_alerts h)) \<Longrightarrow> occurs_in (alert_card r vt b) (host_html r vt h)"
  unfolding host_html_def append_assoc [symmetric] by (rule occurs_in_append(1), rule occurs_in_append(2), rule occurs_in_concat)

lemma host_text_omitted:
  assumes "MAX_ENUMERATED < length (ha_alerts h)"
  shows "occurs_in (dec (length (ha_alerts h) - MAX_ENUMERATED) @ '' more, not listed.'') (host_text r vt h)"
proof -
  let ?n = "dec (length (ha_alerts h) - MAX_ENUMERATED)"
  have "occurs_in (?n @ '' more, not listed.'') ((([NL] @ ''  '' @ ellipsis @ '' and '') @ ?n @ '' more, not listed.'') @ [NL])"
    by (intro occurs_in_append(1) occurs_in_append(2) occurs_in_refl)
  then have "occurs_in (?n @ '' more, not listed.'') ([NL] @ ''  '' @ ellipsis @ '' and '' @ ?n @ '' more, not listed.'' @ [NL])" by simp
  with assms show ?thesis unfolding host_text_def append_assoc [symmetric] by (simp only: if_True) (rule occurs_in_append(1), rule occurs_in_append(2))
qed

lemma digest_tells:
  assumes "h \<in> set hosts" "b \<in> set (ha_alerts h)"
  shows "mails env (sb, compose (nv_rendering env) hosts vt held) (ha_host h) b"
proof -
  let ?r = "nv_rendering env" and ?m = "compose (nv_rendering env) hosts vt held"
  have "ha_alerts h \<noteq> []" using assms(2) by auto
  then have h: "occurs_in (host_text ?r vt h) (fst ?m)" "occurs_in (host_html ?r vt h) (snd ?m)"
    using body_text_hosts [OF assms(1), of ?r vt] body_html_hosts [OF assms(1), of ?r vt] by (simp_all add: compose_def occurs_in_append(1))
  obtain i where i: "i < length (ha_alerts h)" "ha_alerts h ! i = b" using assms(2) by (auto simp: in_set_conv_nth)
  have "b \<in> set (take MAX_ENUMERATED (ha_alerts h))" if "i < MAX_ENUMERATED" using that i by (force simp: in_set_conv_nth)
  then have "if i < MAX_ENUMERATED then occurs_in (alert_text ?r vt b) (host_text ?r vt h) \<and> occurs_in (alert_card ?r vt b) (host_html ?r vt h)
      else occurs_in (dec (length (ha_alerts h) - MAX_ENUMERATED) @ '' more, not listed.'') (host_text ?r vt h)"
    using host_text_alerts [of b h ?r vt] host_html_alerts [of b h ?r vt] host_text_omitted [of h ?r vt] i(1) by simp
  with h i show ?thesis unfolding mails_def snd_conv by blast
qed

lemma save_cursors_sent: "save_cursors env c st = (e, st1) \<Longrightarrow> ns_sent st1 = ns_sent st"
  by (auto simp: save_cursors_def split: option.splits)

lemma finish_run_sent: "finish_run env cur out st = (e, st1) \<Longrightarrow> ns_sent st1 = ns_sent st"
  by (auto simp: finish_run_def dest: save_cursors_sent split: prod.splits option.splits)

lemma save_cache_frame [simp]:
  "ns_sent (save_cache env c st) = ns_sent st" "ns_cursor_file (save_cache env c st) = ns_cursor_file st"
  by (simp_all add: save_cache_def split: option.splits)

lemma send_digest_delivers:
  assumes "send_digest env cur out hosts counted vt st = (e, st1)" "ns_cursor_file st1 \<noteq> ns_cursor_file st"
  shows "ns_sent st1 = ns_sent st @ [(subject hosts vt, compose (nv_rendering env) hosts vt (vt_outcome_line counted))]"
  using assms by (auto simp: send_digest_def Let_def dest: finish_run_sent split: if_splits)

text \<open>The lookups the screening of the alerts of a poll makes.\<close>

definition run_lookups :: "notify_config \<Rightarrow> notify_env \<Rightarrow> poll_outcome \<Rightarrow> notify_state \<Rightarrow> (nat \<times> string) list" where
  "run_lookups cfg env out st = lookups (nc_virustotal cfg) (nv_reply env) (nv_now env) (concat (map ha_alerts (po_hosts out)))
     (screening_start (nc_virustotal cfg) (vt_load (ns_vt_cache st)))"

lemma screen_and_send_delivers:
  assumes "screen_and_send cfg env cur out st = (e, st1)" "ns_cursor_file st1 \<noteq> ns_cursor_file st"
    "h \<in> set (po_hosts out)" "b \<in> set (ha_alerts h)"
  shows "(\<exists>mail. ns_sent st1 = ns_sent st @ [mail] \<and> mails env mail (ha_host h) b) \<or>
    vc_enabled (nc_virustotal cfg) \<and> vc_suppress_known_clean (nc_virustotal cfg) \<and>
      clean_source (nv_reply env) (nv_now env) (vt_load (ns_vt_cache st)) (run_lookups cfg env out st) (al_exe_sha256_hex b)"
proof -
  obtain hosts cache counted vt where sc: "screen_with_virustotal (nc_virustotal cfg) (nv_key env) (nv_client env) (nv_reply env)
      (ns_vt_cache st) (nv_now env) (po_hosts out) = (hosts, cache, counted, vt)"
    by (cases "screen_with_virustotal (nc_virustotal cfg) (nv_key env) (nv_client env) (nv_reply env) (ns_vt_cache st) (nv_now env) (po_hosts out)")
  from screen_with_virustotal_sound [OF sc assms(3,4), folded run_lookups_def] show ?thesis
  proof (elim disjE bexE conjE)
    fix h1 assume h1: "h1 \<in> set hosts" "ha_host h1 = ha_host h" "b \<in> set (ha_alerts h1)"
    then have "\<not> list_all (\<lambda>h. ha_alerts h = []) hosts" by (force simp: list_all_iff)
    with assms(1) have "send_digest env cur out hosts counted vt (save_cache env cache st) = (e, st1)"
      by (simp add: screen_and_send_def sc)
    from send_digest_delivers [OF this] assms(2)
    have "ns_sent st1 = ns_sent st @ [(subject hosts vt, compose (nv_rendering env) hosts vt (vt_outcome_line counted))]" by simp
    moreover have "mails env (subject hosts vt, compose (nv_rendering env) hosts vt (vt_outcome_line counted)) (ha_host h) b"
      using digest_tells [OF h1(1,3)] h1(2) by simp
    ultimately show ?thesis by blast
  qed blast
qed

lemma run_delivers:
  assumes run: "notify_run env st = (e, st1)" and moved: "ns_cursor_file st1 \<noteq> ns_cursor_file st"
    and env: "nv_config env = Some cfg" "nv_manifest env = Some ps" "load_cursors (ns_cursor_file st) = Some cur"
    and p: "p \<in> set ps" "mp_addr p = Some addr" "nv_addr_ok env addr" "poll_answer env cur p = Some (alerts, cursor)"
    and b: "b \<in> set (select_alerts cfg alerts)"
  shows "(\<exists>mail. ns_sent st1 = ns_sent st @ [mail] \<and> mails env mail (mp_name p) b) \<or>
    vc_enabled (nc_virustotal cfg) \<and> vc_suppress_known_clean (nc_virustotal cfg) \<and>
      clean_source (nv_reply env) (nv_now env) (vt_load (ns_vt_cache st))
        (run_lookups cfg env (fst (poll_fleet cfg env cur ps st)) st) (al_exe_sha256_hex b)"
proof -
  obtain out st2 where pf: "poll_fleet cfg env cur ps st = (out, st2)" by fastforce
  let ?h = "\<lparr>ha_host = mp_name p, ha_alerts = select_alerts cfg alerts\<rparr>"
  from b have "select_alerts cfg alerts \<noteq> []" by auto
  from poll_peers_host [OF p this] pf have h: "?h \<in> set (po_hosts out)" unfolding poll_fleet_def by (metis fst_conv)
  have fr: "ns_cursor_file st2 = ns_cursor_file st" "ns_sent st2 = ns_sent st" "ns_vt_cache st2 = ns_vt_cache st"
    using poll_peers_frame [of cfg env cur ps] pf unfolding poll_fleet_def by (metis snd_conv)+
  have "ps \<noteq> []" "po_hosts out \<noteq> []" using p(1) h by auto
  then have "screen_and_send cfg env cur out st2 = (e, st1)" using run env pf by (simp add: notify_run_def)
  from screen_and_send_delivers [OF this _ h] moved b show ?thesis by (simp add: fr pf run_lookups_def)
qed

lemma poll_answer_chunks:
  assumes "nv_recv env p (cursor_since cur (mp_fp p)) = Some (map RecvAlerts (alerts_chunks len items cursor))"
  shows "poll_answer env cur p = Some (items, cursor)"
proof -
  obtain ms b where "alerts_chunks len items cursor = ms @ [\<lparr>am_items = b, am_cursor_unix_ms = cursor, am_end = True\<rparr>]"
    "\<forall>m \<in> set ms. \<not> am_end m" "concat (map am_items ms) @ b = items" using alerts_chunks_split [of len items cursor] by blast
  then show ?thesis using assms poll_loop_more [of ms "[]"] by (simp add: poll_answer_def Let_def)
qed

text \<open>
  C34. No alert is lost between an agent and the mail. Suppose an agent of the manifest answers a run with its
  inbox from the stored cursor on, and the run moves the cursors. Then every alert the inbox holds that is
  not older than the cursor and passes the operator's filter, or a newer alert of its episode that passes, is
  told by the mail of that run: with its text and its card if it is one of the first 25 of the agent's
  section, else by the number of alerts that the section does not list. Or it was held back because screening
  and suppression are on and its hash is known to be clean, by the memo or by the answer to a lookup this
  run made for it. An alert that enters the inbox with a time before the cursor is not told
  (\<open>late_alert_never_delivered\<close>).
\<close>

theorem run_loses_no_alert:
  assumes "notify_run env st = (e, st1)" "ns_cursor_file st1 \<noteq> ns_cursor_file st"
    and "nv_config env = Some cfg" "nv_manifest env = Some ps" "load_cursors (ns_cursor_file st) = Some cur"
    and "p \<in> set ps" "mp_addr p = Some addr" "nv_addr_ok env addr"
    and "read_since now (cursor_since cur (mp_fp p)) 0 ib = ((items, cursor), ib1)"
    and "nv_recv env p (cursor_since cur (mp_fp p)) = Some (map RecvAlerts (alerts_chunks len items cursor))"
    and "a \<in> set (ib_items (sweep now ib))" "length (ib_items (sweep now ib)) < 2 ^ 64"
    and "cursor_since cur (mp_fp p) \<le> al_ts_unix_ms a" "passes a (nc_filter cfg)"
  shows "\<exists>b. supersedes b a \<and> passes b (nc_filter cfg) \<and>
    ((\<exists>mail. ns_sent st1 = ns_sent st @ [mail] \<and> mails env mail (mp_name p) b) \<or>
     vc_enabled (nc_virustotal cfg) \<and> vc_suppress_known_clean (nc_virustotal cfg) \<and>
       clean_source (nv_reply env) (nv_now env) (vt_load (ns_vt_cache st))
        (run_lookups cfg env (fst (poll_fleet cfg env cur ps st)) st) (al_exe_sha256_hex b))"
proof -
  let ?since = "cursor_since cur (mp_fp p)"
  have "items = due now ?since 0 ib" using assms(9) by (simp add: read_since_eq)
  moreover have "length (filter (\<lambda>a. ?since \<le> al_ts_unix_ms a) (ib_items (sweep now ib))) \<le> page_cap 0"
    by (rule order_trans [OF length_filter_le]) (use assms(12) in \<open>simp add: page_cap_def\<close>)
  ultimately have "a \<in> set items" using assms(11,13) by (simp add: due_def)
  then obtain b where b: "b \<in> set (select_alerts cfg items)" "supersedes b a" using select_supersedes assms(14) by blast
  have "passes b (nc_filter cfg)" using b(1) dedup_subset unfolding select_alerts_def by fastforce
  with b(2) run_delivers [OF assms(1-8) poll_answer_chunks [OF assms(10)] b(1)] show ?thesis by blast
qed

definition demo_mp :: "string \<Rightarrow> manifest_peer" where
  "demo_mp name = \<lparr>mp_name = name, mp_fp = name, mp_addr = Some name\<rparr>"

definition demo_notify_config :: "bool \<Rightarrow> notify_config" where
  "demo_notify_config vt = \<lparr>nc_filter = \<lparr>fc_min_suspicion = Fin (1 / 2), fc_confirmed_only = False\<rparr>,
     nc_virustotal = vt_config_default\<lparr>vc_enabled := vt, vc_api_key_file := True\<rparr>\<rparr>"

text \<open>The agent \<open>a\<close> answers with the alerts given, others are silent.\<close>

definition demo_notify_env :: "bool \<Rightarrow> string list \<Rightarrow> alert list \<Rightarrow> u64 \<Rightarrow> notify_env" where
  "demo_notify_env vt names items cursor = \<lparr>
     nv_config = Some (demo_notify_config vt), nv_manifest = Some (map demo_mp names), nv_addr_ok = (\<lambda>_. True),
     nv_recv = (\<lambda>p _. if mp_name p = ''a'' then Some (map RecvAlerts (alerts_chunks (\<lambda>_. 100) items cursor)) else None),
     nv_archive_opens = False, nv_archive_fails = (\<lambda>_. False), nv_key = Some (384, Some ''k''), nv_client = True,
     nv_reply = (\<lambda>_ _. VtFailed []), nv_cache_leaves = None, nv_now = 9, nv_save_leaves = None, nv_html_fails = False,
     nv_dry_run = False, nv_send_fails = False,
     nv_rendering = \<lparr>rd_format_ts = (\<lambda>_. []), rd_to_hex = (\<lambda>_. [])\<rparr>\<rparr>"

definition demo_notify_state :: notify_state where
  "demo_notify_state = \<lparr>ns_cursor_file = CfAbsent, ns_vt_cache = Some [''ab'' \<mapsto> (Clean 70, 8)], ns_archive = [], ns_sent = []\<rparr>"

lemma demo_poll:
  "poll_answer (demo_notify_env vt names items cursor) cur (demo_mp ''a'') = Some (items, cursor)"
  by (rule poll_answer_chunks [where len = "\<lambda>_. 100"]) (simp add: demo_notify_env_def demo_mp_def)

lemma demo_no_poll: "poll_answer (demo_notify_env vt names items cursor) cur (demo_mp ''b'') = None"
  by (simp add: poll_answer_def demo_notify_env_def demo_mp_def)

lemma demo_notify_fields [simp]:
  "mp_addr (demo_mp n) = Some n" "mp_name (demo_mp n) = n" "mp_fp (demo_mp n) = n"
  "nv_addr_ok (demo_notify_env vt names items cursor) = (\<lambda>_. True)"
  "nv_archive_opens (demo_notify_env vt names items cursor) = False"
  "nv_config (demo_notify_env vt names items cursor) = Some (demo_notify_config vt)"
  "nv_manifest (demo_notify_env vt names items cursor) = Some (map demo_mp names)"
  "nv_save_leaves (demo_notify_env vt names items cursor) = None"
  "nv_html_fails (demo_notify_env vt names items cursor) = False"
  "nv_dry_run (demo_notify_env vt names items cursor) = False"
  "nv_send_fails (demo_notify_env vt names items cursor) = False"
  "ns_cursor_file demo_notify_state = CfAbsent" "ns_sent demo_notify_state = []"
  by (simp_all add: demo_mp_def demo_notify_env_def demo_notify_state_def)

lemma demo_notify_load: "load_cursors (ns_cursor_file demo_notify_state) = Some (\<lambda>_. None)"
  by (simp add: load_cursors_def demo_notify_state_def)

theorem run_loses_no_alert_witness:
  "\<exists>e st1 a b mail. notify_run (demo_notify_env False [''a''] (ib_items demo_inbox) 8) demo_notify_state = (e, st1) \<and>
     a \<in> set (ib_items demo_inbox) \<and> supersedes b a \<and> ns_sent st1 = [mail] \<and>
     mails (demo_notify_env False [''a''] (ib_items demo_inbox) 8) mail ''a'' b"
proof -
  let ?env = "demo_notify_env False [''a''] (ib_items demo_inbox) 8" and ?cfg = "demo_notify_config False"
  let ?a = "builder_raw 7 [1] ''pre-filter'' ''r'' ''ep-1'' (Fin (1 / 2)) ''found''"
  have pass: "passes ?a (nc_filter ?cfg)" by (simp add: passes_def demo_notify_config_def builder_raw_def)
  have a: "?a \<in> set (ib_items demo_inbox)" by (simp add: demo_inbox_items)
  have sw: "sweep 7 demo_inbox = demo_inbox"
    by (simp add: sweep_def demo_inbox_items demo_inbox_def inbox_append_frame inbox_new_def u64_or_max_def saturating_sub_def)
  have rd: "read_since 7 (cursor_since (\<lambda>_. None) (mp_fp (demo_mp ''a''))) 0 demo_inbox = ((ib_items demo_inbox, 8), demo_inbox)"
    by (simp add: read_since_eq due_def sw demo_inbox_items page_cap_def builder_raw_def saturating_add_def cursor_since_def)
  have sel: "select_alerts ?cfg (ib_items demo_inbox) \<noteq> []" using select_supersedes [OF a pass] by auto
  obtain e st1 where run: "notify_run ?env demo_notify_state = (e, st1)" by fastforce
  obtain out st2 where pf: "poll_fleet ?cfg ?env (\<lambda>_. None) [demo_mp ''a''] demo_notify_state = (out, st2)" by fastforce
  then have out: "po_hosts out = [\<lparr>ha_host = ''a'', ha_alerts = select_alerts ?cfg (ib_items demo_inbox)\<rparr>]" "st2 = demo_notify_state"
    using sel by (auto simp: poll_fleet_def poll_peer_def demo_poll add_host_def archive_alerts_def)
  have off: "screen_with_virustotal (nc_virustotal ?cfg) k c r f n h = (h, None, sg_outcome (screening_start (nc_virustotal ?cfg) (\<lambda>_. None)), \<lambda>_. None)"
    for k c r f n h by (simp add: screen_with_virustotal_def demo_notify_config_def vt_config_default_def)
  have "screen_and_send ?cfg ?env (\<lambda>_. None) out demo_notify_state = (e, st1)"
    using run pf out by (simp add: notify_run_def load_cursors_def)
  then have "send_digest ?env (\<lambda>_. None) out (po_hosts out) (sg_outcome (screening_start (nc_virustotal ?cfg) (\<lambda>_. None))) (\<lambda>_. None)
      demo_notify_state = (e, st1)"
    using sel by (simp add: screen_and_send_def off save_cache_def out(1))
  then have "ns_cursor_file st1 \<noteq> ns_cursor_file demo_notify_state"
    by (auto simp: send_digest_def finish_run_def save_cursors_def Let_def split: option.splits)
  moreover have "nv_recv ?env (demo_mp ''a'') (cursor_since (\<lambda>_. None) (mp_fp (demo_mp ''a''))) = Some (map RecvAlerts (alerts_chunks (\<lambda>_. 100) (ib_items demo_inbox) 8))"
    by (simp add: demo_notify_env_def)
  moreover have "cursor_since (\<lambda>_. None) (mp_fp (demo_mp ''a'')) \<le> al_ts_unix_ms ?a" "length (ib_items (sweep 7 demo_inbox)) < 2 ^ 64"
    by (simp_all add: cursor_since_def sw demo_inbox_items)
  moreover have "\<not> vc_enabled (nc_virustotal ?cfg)" by (simp add: demo_notify_config_def)
  ultimately obtain b mail where "supersedes b ?a" "ns_sent st1 = [mail]" "mails ?env mail ''a'' b"
    using run_loses_no_alert [OF run _ _ _ demo_notify_load, of ?cfg "[demo_mp ''a'']" "demo_mp ''a''" "''a''" 7 demo_inbox "ib_items demo_inbox" 8
      demo_inbox "\<lambda>_. 100" ?a] a pass rd sw by auto
  with run a show ?thesis by blast
qed

text \<open>
  The filter runs before the episodes are collapsed. A passing alert that a newer one of its episode
  replaces with a lower score is mailed all the same, in place of the newer one, if that one does not pass.
\<close>

theorem superseded_alert_is_mailed:
  assumes "a \<in> set alerts" "b \<in> set alerts" "supersedes b a" "passes a (nc_filter cfg)" "\<not> passes b (nc_filter cfg)"
    and "\<And>c. c \<in> set alerts \<Longrightarrow> al_episode_id c = al_episode_id a \<Longrightarrow> passes c (nc_filter cfg) \<Longrightarrow> c = a"
  shows "a \<in> set (select_alerts cfg alerts) \<and> b \<notin> set (select_alerts cfg alerts)"
proof -
  have sub: "set (select_alerts cfg alerts) \<subseteq> {c \<in> set alerts. passes c (nc_filter cfg)}"
    using dedup_subset unfolding select_alerts_def by fastforce
  obtain c where c: "c \<in> set (select_alerts cfg alerts)" "supersedes c a" using select_supersedes [OF assms(1,4)] by blast
  moreover have "al_episode_id c = al_episode_id a" using c(2) by (auto simp: supersedes_def)
  ultimately have "c = a" using sub assms(6) by blast
  with c(1) sub assms(5) show ?thesis by blast
qed

theorem superseded_alert_is_mailed_witness:
  "\<exists>a b. supersedes b a \<and> f32_less (al_suspicion b) (al_suspicion a) \<and> a \<in> set (select_alerts (demo_notify_config False) [a, b]) \<and>
     b \<notin> set (select_alerts (demo_notify_config False) [a, b])"
proof -
  let ?a = "builder_raw 7 [1] ''pre-filter'' ''r'' ''ep-1'' (Fin 1) ''found''" and ?b = "builder_raw 8 [1] ''llm'' ''r'' ''ep-1'' (Fin (1 / 4)) ''explained''"
  have "supersedes ?b ?a" "f32_less (al_suspicion ?b) (al_suspicion ?a)" "passes ?a (nc_filter (demo_notify_config False))"
    "\<not> passes ?b (nc_filter (demo_notify_config False))"
    by (simp_all add: supersedes_def builder_raw_def passes_def demo_notify_config_def)
  with superseded_alert_is_mailed [of ?a "[?a, ?b]" ?b "demo_notify_config False"] show ?thesis by auto
qed

text \<open>
  A run whose whole digest is held back reports success. Agents that could not be polled, and an archive
  that recorded nothing, make every other run an error; this one returns without looking at them.
\<close>

theorem held_back_run_hides_failures:
  assumes "nv_config env = Some cfg" "nv_manifest env = Some ps" "ps \<noteq> []" "load_cursors (ns_cursor_file st) = Some cur"
    and "poll_fleet cfg env cur ps st = (out, st1)" "po_hosts out \<noteq> []" "0 < po_poll_failures out" "nv_save_leaves env = None"
    and "list_all (\<lambda>h. ha_alerts h = []) (fst (screen_with_virustotal (nc_virustotal cfg) (nv_key env) (nv_client env) (nv_reply env)
      (ns_vt_cache st1) (nv_now env) (po_hosts out)))"
  shows "\<exists>st2. notify_run env st = (None, st2) \<and> ns_cursor_file st2 = CfStored (cur ++ po_advanced out)"
  using assms by (simp add: notify_run_def screen_and_send_def split_beta Let_def save_cursors_def)

theorem held_back_run_hides_failures_witness:
  "\<exists>st2. notify_run (demo_notify_env True [''a'', ''b''] [builder_exe_sha256_hex ''AB'' (demo_alert ''r'' 7)] 8) demo_notify_state = (None, st2) \<and>
     ns_sent st2 = []"
proof -
  let ?x = "builder_exe_sha256_hex ''AB'' (demo_alert ''r'' 7)" and ?cfg = "demo_notify_config True"
  let ?env = "demo_notify_env True [''a'', ''b''] [?x] 8"
  have pass: "passes ?x (nc_filter ?cfg)"
    by (simp add: passes_def demo_notify_config_def builder_raw_def demo_alert_def builder_confirmation_def builder_exe_sha256_hex_def)
  have sel: "select_alerts ?cfg [?x] = [?x]"
    using pass by (simp add: select_alerts_def dedup_by_episode_def keep_newest_def sort_by_def)
  obtain out st1 where pf: "poll_fleet ?cfg ?env (\<lambda>_. None) [demo_mp ''a'', demo_mp ''b''] demo_notify_state = (out, st1)" by fastforce
  then have out: "po_hosts out = [\<lparr>ha_host = ''a'', ha_alerts = [?x]\<rparr>]" "po_poll_failures out = 1" "st1 = demo_notify_state"
    by (auto simp: poll_fleet_def poll_peer_def demo_poll demo_no_poll add_host_def archive_alerts_def sel)
  have sha: "al_exe_sha256_hex ?x = ''AB''" by (simp add: builder_exe_sha256_hex_def)
  have low: "str_lower ''AB'' = ''ab''" by code_simp
  have "vt_get (vt_load (ns_vt_cache demo_notify_state)) ''AB'' 9 = Some (Clean 70)"
    by (simp add: vt_get_def low vt_load_def demo_notify_state_def CACHE_TTL_def saturating_sub_def)
  then have "fst (screen_alerts (nc_virustotal ?cfg) (nv_reply ?env) 9 [?x] (screening_start (nc_virustotal ?cfg) (vt_load (ns_vt_cache demo_notify_state)))) = []"
    by (simp add: screen_alert_def sha find_verdict_def screening_start_def vt_decision_def demo_notify_config_def vt_config_default_def Let_def)
  moreover have "is_ok (read_api_key (nv_key ?env))" unfolding demo_notify_env_def by code_simp
  moreover have "nv_client ?env" "nv_now ?env = 9" by (simp_all add: demo_notify_env_def)
  moreover have "vc_enabled (nc_virustotal ?cfg)" "vc_api_key_file (nc_virustotal ?cfg)" by (simp_all add: demo_notify_config_def)
  ultimately have empty: "list_all (\<lambda>h. ha_alerts h = []) (fst (screen_with_virustotal (nc_virustotal ?cfg) (nv_key ?env) (nv_client ?env) (nv_reply ?env)
      (ns_vt_cache st1) (nv_now ?env) (po_hosts out)))"
    by (simp add: screen_with_virustotal_def out split_beta sort_by_def del: screen_alerts.simps)
  with held_back_run_hides_failures [of ?env ?cfg "[demo_mp ''a'', demo_mp ''b'']" demo_notify_state "\<lambda>_. None" out st1] pf out demo_notify_load
  obtain st2 where st2: "notify_run ?env demo_notify_state = (None, st2)" by auto
  moreover have "ns_sent st2 = []"
  proof -
    have "screen_and_send ?cfg ?env (\<lambda>_. None) out demo_notify_state = (None, st2)"
      using st2 pf out by (simp add: notify_run_def load_cursors_def)
    then show ?thesis using empty by (auto simp: screen_and_send_def out Let_def split: prod.splits dest!: save_cursors_sent)
  qed
  ultimately show ?thesis by blast
qed

end
