(* ===== verification/Round_Alerts.thy ===== *)
theory Round_Alerts
  imports Llm
begin

text \<open>
  The end of a whisper round, \<open>finish_round\<close> of \<open>crates/bowery-agent/src/whisper_qa.rs\<close>: what each peer said as
  context for the model and for the operator, the alerts for a confirmed and for a recognised program, the
  settling of held actions and the submission to the model. The theorems follow an episode through the
  inbox: what a round adds stays with it whatever the model says later.
\<close>

section \<open>What the peers said\<close>

definition reply_text :: "peer_reply \<Rightarrow> string" where
  "reply_text r =
     (case r of
        Observed s \<Rightarrow> if 0 < ls_seen_count s then ''has this exact binary ('' @ dec (unat (ls_seen_count s)) @ '' times)'' else ''no record of this binary''
      | Familiar pkg_builds by_path_only \<Rightarrow>
          ''has this program, built differently '' @ em_dash @ '' '' @
          (if by_path_only then ''same path, different binary''
           else if pkg_builds = 0 then ''same package, installed but never run here''
           else ''same package, '' @ dec (unat pkg_builds) @ '' build(s) run here'')
      | Incomparable platform \<Rightarrow> ''cannot compare: runs '' @ platform
      | Refused reason \<Rightarrow> ''declined: '' @ reason
      | Silent \<Rightarrow> ''did not reply'')"

definition short_fp :: "crypto \<Rightarrow> fingerprint \<Rightarrow> string" where
  "short_fp c fp = take_chars 16 (to_hex c fp)"

definition peer_verdicts :: "crypto \<Rightarrow> whisper_context \<Rightarrow> (string \<times> string) list" where
  "peer_verdicts c ctx = map (\<lambda>p. (''peer.'' @ short_fp c (ps_peer p), reply_text (ps_reply p) @ '' (similarity '' @ fmt2 (ps_similarity p) @ '')'')) (wc_peers ctx)"

definition peer_attributes :: "crypto \<Rightarrow> whisper_context \<Rightarrow> attribute list" where
  "peer_attributes c ctx = map (\<lambda>(k, v). attribute_new k v) (peer_verdicts c ctx)"

definition inject_whisper_context :: "crypto \<Rightarrow> whisper_context \<Rightarrow> analysis_context \<Rightarrow> analysis_context" where
  "inject_whisper_context c ctx_in ctx =
     ctx\<lparr>ax_extra := ax_extra ctx @
       [(''neighborhood'', ''asked '' @ dec (length (wc_peers ctx_in)) @ '' peer'' @ (if length (wc_peers ctx_in) = 1 then [] else ''s'') @ '', '' @
          dec (wc_corroborating_peers ctx_in) @ '' corroborating, '' @ dec (unat (wc_total_seen_count ctx_in)) @ '' total observations across them'')] @
       peer_verdicts c ctx_in\<rparr>"

definition confirmation_rationale :: "alert_confirmation \<Rightarrow> string" where
  "confirmation_rationale v =
     ''confirmed by the neighbourhood: '' @ dec (unat (peers_unseen v)) @ ''/'' @ dec (unat (peers_asked v)) @ '' role-similar peers have never seen this binary'' @
     (if 0 < peers_seen v then '' ('' @ dec (unat (peers_seen v)) @ '' have seen it)'' else []) @
     (if 0 < peers_refused v then '', '' @ dec (unat (peers_refused v)) @ '' could not say (too little observed)'' else []) @
     (if 0 < peers_familiar v then '', '' @ dec (unat (peers_familiar v)) @ '' have the same program built differently'' else []) @
     (if 0 < peers_incomparable v then '', '' @ dec (unat (peers_incomparable v)) @ '' could not be compared (different platform)'' else []) @
     (if 0 < peers_no_reply v then '', '' @ dec (unat (peers_no_reply v)) @ '' did not reply'' else [])"

section \<open>The alerts of a round\<close>

record confirm_sink =
  cs_originator_fp :: fingerprint
  cs_alert_threshold :: f32
  cs_backend_label :: string
  cs_quorum :: nat

record round_state =
  rd_inbox :: inbox
  rd_hold :: hold_state
  rd_queue :: inference_queue
  rd_emitted :: "(string \<times> f32) list"
  rd_ready :: "whisper_context list"
  rd_shed :: "(string \<times> shed_reason) list"

definition round_alert :: "crypto \<Rightarrow> confirm_sink \<Rightarrow> u64 \<Rightarrow> analysis_context \<Rightarrow> whisper_context \<Rightarrow> f32 \<Rightarrow> alert_confirmation \<Rightarrow> string \<Rightarrow> alert" where
  "round_alert c sink built ctx wc pre v rationale =
     builder_confirmation v
       (builder_context (peer_attributes c wc)
         (builder_exe_sha256_hex (case ax_exe_sha256_hex ctx of None \<Rightarrow> [] | Some h \<Rightarrow> h)
           (builder_subject (case ax_exe_path ctx of None \<Rightarrow> [] | Some p \<Rightarrow> p)
             (builder_raw built (cs_originator_fp sink) (cs_backend_label sink) (leading_rule_id (ax_pre_verdict ctx)) (wc_episode_id wc) pre rationale))))"

definition append_round_alert :: "u64 \<Rightarrow> alert \<Rightarrow> f32 \<Rightarrow> round_state \<Rightarrow> round_state" where
  "append_round_alert now a told st =
     (case inbox_append now a (rd_inbox st) of (r, ib) \<Rightarrow>
        st\<lparr>rd_inbox := ib, rd_emitted := (if stored r then rd_emitted st @ [(al_episode_id a, told)] else rd_emitted st)\<rparr>)"

definition recognition_rationale :: "alert_confirmation \<Rightarrow> string" where
  "recognition_rationale v =
     dec (unat (peers_familiar v)) @ '' of '' @ dec (unat (peers_asked v)) @
     '' peers asked run this same program built differently, so it is fleet-normal software rather than something only this host has.''"

definition append_recognition_alert ::
    "crypto \<Rightarrow> confirm_sink \<Rightarrow> (nat \<Rightarrow> u64) \<Rightarrow> analysis_context \<Rightarrow> whisper_context \<Rightarrow> f32 \<Rightarrow> alert_confirmation \<Rightarrow> round_state \<Rightarrow> round_state" where
  "append_recognition_alert c sink ms ctx wc pre v st =
     (if confirmed v \<or> peers_familiar v = 0 \<or> f32_less pre (cs_alert_threshold sink) then st
      else append_round_alert (ms 1) (round_alert c sink (ms 0) ctx wc pre v (recognition_rationale v)) (explained_suspicion pre v) st)"

definition append_confirmed_alert ::
    "crypto \<Rightarrow> confirm_sink \<Rightarrow> (nat \<Rightarrow> u64) \<Rightarrow> analysis_context \<Rightarrow> whisper_context \<Rightarrow> f32 \<Rightarrow> alert_confirmation \<Rightarrow> round_state \<Rightarrow> round_state" where
  "append_confirmed_alert c sink ms ctx wc pre v st =
     (if confirmed v \<and> f32_le (cs_alert_threshold sink) pre
      then append_round_alert (ms 3) (round_alert c sink (ms 2) ctx wc pre v (confirmation_rationale v)) pre st
      else st)"

definition submit_judged :: "f32 \<Rightarrow> f32 \<Rightarrow> analysis_context \<Rightarrow> round_state \<Rightarrow> round_state" where
  "submit_judged llm_threshold pre ctx st =
     (if f32_le llm_threshold pre
      then (case queue_submit ctx (rd_queue st) of
        (Inr _, q) \<Rightarrow> st\<lparr>rd_queue := q\<rparr>
      | (Inl reason, q) \<Rightarrow> st\<lparr>rd_queue := q, rd_shed := rd_shed st @ [(episode_of ctx, reason)]\<rparr>)
      else st)"

text \<open>\<open>ms i\<close> is the \<open>i\<close>-th reading of the wall clock, \<open>now\<close> the monotonic one.\<close>

definition end_round ::
    "crypto \<Rightarrow> confirm_sink \<Rightarrow> f32 \<Rightarrow> (nat \<Rightarrow> u64) \<Rightarrow> nat \<Rightarrow> analysis_context \<Rightarrow> whisper_context \<Rightarrow> f32 \<Rightarrow> round_state \<Rightarrow> round_state" where
  "end_round c sink llm_threshold ms now trigger wc pre st =
     (let ctx = inject_whisper_context c wc trigger;
          v = quorum_verdict (wc_peers wc) (cs_quorum sink);
          st1 = st\<lparr>rd_hold := settle_round (cs_quorum sink) wc now (rd_hold st)\<rparr>;
          st2 = append_recognition_alert c sink ms ctx wc pre v st1;
          st3 = append_confirmed_alert c sink ms ctx wc pre v st2;
          st4 = st3\<lparr>rd_ready := rd_ready st3 @ [wc]\<rparr>
      in submit_judged llm_threshold pre ctx st4)"

section \<open>A round refines the routing\<close>

lemma append_round_alert_frame [simp]:
  "rd_hold (append_round_alert now a t st) = rd_hold st" "rd_queue (append_round_alert now a t st) = rd_queue st"
  "rd_ready (append_round_alert now a t st) = rd_ready st" "rd_shed (append_round_alert now a t st) = rd_shed st"
  by (simp_all add: append_round_alert_def split: prod.splits)

lemma round_alerts_frame [simp]:
  "rd_hold (append_recognition_alert c sink ms ctx wc pre v st) = rd_hold st"
  "rd_queue (append_recognition_alert c sink ms ctx wc pre v st) = rd_queue st"
  "rd_hold (append_confirmed_alert c sink ms ctx wc pre v st) = rd_hold st"
  "rd_queue (append_confirmed_alert c sink ms ctx wc pre v st) = rd_queue st"
  "rd_shed (append_recognition_alert c sink ms ctx wc pre v st) = rd_shed st"
  "rd_shed (append_confirmed_alert c sink ms ctx wc pre v st) = rd_shed st"
  by (simp_all add: append_recognition_alert_def append_confirmed_alert_def)

text \<open>
  The end of a round does to held actions and to the model what the routing, for which the response path is
  proved, does: the held actions are settled, and the episode goes to the model exactly if the score
  reaches the threshold; a request the queue refuses is told.
\<close>

lemma end_round_implements_routing:
  assumes "episode_of trigger = wc_episode_id wc" "fl_hold s = rd_hold st"
    and "map episode_of (iq_pending (rd_queue st)) @ map fst (rd_shed st) = fl_llm s" "rd_shed st = []"
    and "iq_running (rd_queue st)" "length (iq_pending (rd_queue st)) < iq_capacity (rd_queue st)"
    and "st1 = end_round c sink llm_threshold ms now trigger wc pre st"
    and "s1 = finish_round \<lparr>fc_whisper_threshold = w, fc_llm_threshold = llm_threshold\<rparr> (cs_quorum sink) pre wc now s"
  shows "fl_hold s1 = rd_hold st1 \<and> map episode_of (iq_pending (rd_queue st1)) = fl_llm s1"
proof -
  have "episode_of (inject_whisper_context c wc trigger) = wc_episode_id wc"
    using assms(1) by (simp add: episode_of_def inject_whisper_context_def)
  then show ?thesis using assms(2-)
    by (simp add: end_round_def finish_round_def submit_judged_def queue_submit_def Let_def)
qed

section \<open>What a round adds stays\<close>

text \<open>A list of alerts in which the latest one of an episode carries the confirmation \<open>v\<close>.\<close>

definition latest_has :: "string \<Rightarrow> alert_confirmation \<Rightarrow> alert list \<Rightarrow> bool" where
  "latest_has ep v items \<longleftrightarrow> (let own = filter (\<lambda>a. al_episode_id a = ep) items in own \<noteq> [] \<and> al_confirmation (last own) = Some v)"

lemma find_rev_last:
  "filter P xs \<noteq> [] \<Longrightarrow> R (last (filter P xs)) \<Longrightarrow> (\<forall>x. R x \<longrightarrow> P x) \<Longrightarrow> find R (rev xs) = Some (last (filter P xs))"
proof (induction xs rule: rev_induct)
  case (snoc x xs)
  show ?case
  proof (cases "P x")
    case False
    then have "\<not> R x" using snoc.prems(3) by blast
    with False snoc show ?thesis by simp
  qed (use snoc.prems in simp)
qed simp

lemma inherit_latest:
  assumes "latest_has ep v items" "ep \<noteq> []" "al_episode_id a = ep" "al_confirmation a = None"
  shows "al_confirmation (inherit_confirmation items a) = Some v"
proof -
  let ?own = "filter (\<lambda>a. al_episode_id a = ep) items"
  have own: "?own \<noteq> []" "al_confirmation (last ?own) = Some v" using assms(1) by (simp_all add: latest_has_def Let_def)
  have "find (\<lambda>e. al_episode_id e = ep \<and> al_confirmation e \<noteq> None) (rev items) = Some (last ?own)"
    by (rule find_rev_last) (use own last_in_set [OF own(1)] in auto)
  then show ?thesis using assms(2-4) own(2) by (simp add: inherit_confirmation_def)
qed

lemma latest_has_snoc:
  "latest_has ep v (items @ [a]) \<longleftrightarrow> (if al_episode_id a = ep then al_confirmation a = Some v else latest_has ep v items)"
  by (simp add: latest_has_def Let_def)

lemma append_keeps_latest:
  assumes "latest_has ep v (ib_items ib)" "ep \<noteq> []" "al_confirmation a = None" "length (ib_items ib) < ib_capacity ib"
  shows "latest_has ep v (ib_items (snd (inbox_append now a ib)))"
proof -
  obtain r ib1 where ap: "apply_silences now a ib = (r, ib1)" by fastforce
  note f = apply_silences_fields [OF ap]
  show ?thesis
  proof (cases r)
    case (Inl i)
    with ap f(1) assms(1) show ?thesis by (simp add: inbox_append_def)
  next
    case (Inr b)
    let ?b = "damp_for_recognition (inherit_confirmation (ib_items ib) b)"
    have b: "al_episode_id ?b = al_episode_id a" "al_confirmation b = None" using f(5,8) [OF Inr] assms(3) by simp_all
    have "al_confirmation ?b = Some v" if "al_episode_id a = ep"
      using inherit_latest [OF assms(1,2), of b] that b f(5) [OF Inr] by simp
    then have "latest_has ep v (ib_items ib @ [?b])" using assms(1) b(1) by (simp add: latest_has_snoc)
    then show ?thesis using ap Inr f(1,2) assms(4) by (simp add: inbox_append_def push_alert_def)
  qed
qed

lemma judged_keeps_latest:
  assumes "latest_has ep v (ib_items ib)"
  shows "latest_has ep v (ib_items (snd (apply_model_verdict e to_score why backend ib)))"
proof -
  let ?f = "\<lambda>a. if al_episode_id a = e then model_verdict_on to_score why backend a else a"
  have f: "al_episode_id (?f a) = al_episode_id a" "al_confirmation (?f a) = al_confirmation a" for a
    by (simp_all add: model_verdict_on_def Let_def)
  have "filter (\<lambda>a. al_episode_id a = ep) (map ?f xs) = map ?f (filter (\<lambda>a. al_episode_id a = ep) xs)" for xs
    using f(1) by (simp add: filter_map comp_def)
  then show ?thesis using assms f(2) by (auto simp: latest_has_def Let_def apply_model_verdict_def last_map)
qed

text \<open>Outcomes with the readings of the clocks, in the order the agent receives them.\<close>

definition handle_all :: "fingerprint \<Rightarrow> f32 \<Rightarrow> engine \<Rightarrow> ((nat \<Rightarrow> u64) \<times> nat \<times> inference_outcome) list \<Rightarrow> outcome_state \<Rightarrow> outcome_state" where
  "handle_all me threshold eng outs st = foldl (\<lambda>s (ms, now, x). handle_llm_outcome me threshold eng ms now x s) st outs"

lemma handle_inbox:
  assumes "latest_has ep v (ib_items (ou_inbox st))" "ep \<noteq> []" "length (ib_items (ou_inbox st)) < ib_capacity (ou_inbox st)"
  shows "latest_has ep v (ib_items (ou_inbox (handle_llm_outcome me threshold eng ms now x st)))"
    "length (ib_items (ou_inbox (handle_llm_outcome me threshold eng ms now x st))) \<le> length (ib_items (ou_inbox st)) + 1"
    "ib_capacity (ou_inbox (handle_llm_outcome me threshold eng ms now x st)) = ib_capacity (ou_inbox st)"
proof -
  have len: "length (ib_items (snd (inbox_append t a ib))) \<le> length (ib_items ib) + 1" for t a ib
    by (rule inbox_append_items [of t a ib]) auto
  have r: "al_confirmation (refined_alert me (ms 0) e ctx u) = None" for e ctx u
    by (simp add: refined_alert_def builder_raw_def builder_subject_def builder_exe_sha256_hex_def builder_context_def
        builder_model_explanation_def builder_suggested_actions_def)
  have eq: "ou_inbox (handle_llm_outcome me threshold eng ms now x st) =
      (case x of IoVerdict e ctx u \<Rightarrow>
         if \<not> ax_refine_in_place ctx \<and> f32_le threshold (mv_suspicion u) then snd (inbox_append (ms 1) (refined_alert me (ms 0) e ctx u) (ou_inbox st))
         else snd (apply_model_verdict e (mv_suspicion u) (mv_rationale u) (mv_backend u) (ou_inbox st))
       | _ \<Rightarrow> ou_inbox st)"
    by (cases x) (simp_all add: judge_alert_of_def Let_def split: prod.splits)
  have judged: "length (ib_items (snd (apply_model_verdict e t w b ib))) = length (ib_items ib)" "ib_capacity (snd (apply_model_verdict e t w b ib)) = ib_capacity ib"
    for e t w b ib by (simp_all add: apply_model_verdict_def)
  show "latest_has ep v (ib_items (ou_inbox (handle_llm_outcome me threshold eng ms now x st)))"
    unfolding eq using append_keeps_latest [OF assms(1,2) r assms(3)] judged_keeps_latest [OF assms(1)] assms(1) by (simp split: inference_outcome.splits)
  show "length (ib_items (ou_inbox (handle_llm_outcome me threshold eng ms now x st))) \<le> length (ib_items (ou_inbox st)) + 1"
    unfolding eq using len judged(1) by (simp split: inference_outcome.splits)
  show "ib_capacity (ou_inbox (handle_llm_outcome me threshold eng ms now x st)) = ib_capacity (ou_inbox st)"
    unfolding eq by (simp add: judged(2) inbox_append_frame(1) split: inference_outcome.splits)
qed

lemma handle_all_latest:
  assumes "latest_has ep v (ib_items (ou_inbox st))" "ep \<noteq> []" "length (ib_items (ou_inbox st)) + length outs \<le> ib_capacity (ou_inbox st)"
  shows "latest_has ep v (ib_items (ou_inbox (handle_all me threshold eng outs st)))"
  using assms
proof (induction outs arbitrary: st)
  case (Cons y outs)
  obtain ms now x where y: "y = (ms, now, x)" by (cases y)
  let ?st = "handle_llm_outcome me threshold eng ms now x st"
  note h = handle_inbox [OF Cons.prems(1,2), of me threshold eng ms now x]
  have "latest_has ep v (ib_items (ou_inbox (handle_all me threshold eng outs ?st)))"
    using Cons.IH [of ?st] Cons.prems(2,3) h by simp
  then show ?case by (simp add: handle_all_def y)
qed (simp add: handle_all_def)

text \<open>
  C12. A confirmation reaches the operator and stays. When a quorum of peers has no record of the binary of a
  finding that reaches the threshold, and no silence matches, the newest alert of the inbox says so with
  the score of the pre-filter; and whatever the model answers afterwards, about this episode and others,
  the latest alert of the episode carries that confirmation while the inbox is not full.
\<close>

theorem confirmation_stays:
  assumes "v = quorum_verdict (wc_peers wc) (cs_quorum sink)" "confirmed v" "f32_le (cs_alert_threshold sink) pre" "wc_episode_id wc \<noteq> []"
    and "a = round_alert c sink (ms 2) (inject_whisper_context c wc trigger) wc pre v (confirmation_rationale v)"
    and "unsilenced (ms 3) a (rd_inbox st)" "st1 = end_round c sink llm_threshold ms now trigger wc pre st"
    and "ou_inbox s = rd_inbox st1" "length (ib_items (rd_inbox st1)) + length outs \<le> ib_capacity (rd_inbox st1)"
  shows "last (ib_items (rd_inbox st1)) = a \<and> al_suspicion a = pre \<and> al_confirmation a = Some v \<and>
    latest_has (wc_episode_id wc) v (ib_items (ou_inbox (handle_all me threshold eng outs s)))"
proof -
  have a: "al_episode_id a = wc_episode_id wc" "al_confirmation a = Some v" "al_suspicion a = pre"
    by (simp_all add: assms(5) round_alert_def builder_raw_def builder_subject_def builder_exe_sha256_hex_def builder_context_def
        builder_confirmation_def)
  have "damp_for_recognition (inherit_confirmation items a) = a" for items
    using a(2) assms(2) by (simp add: inherit_confirmation_def damp_for_recognition_def)
  then have app: "inbox_append (ms 3) a (rd_inbox st) = (Stored, push_alert a (rd_inbox st))"
    by (simp add: inbox_append_def apply_silences_unsilenced [OF assms(6)])
  have "rd_inbox st1 = push_alert a (rd_inbox st)"
    using assms(2,3) app unfolding assms(7) end_round_def Let_def append_recognition_alert_def append_confirmed_alert_def
    by (simp add: assms(1) [symmetric] assms(5) [symmetric] append_round_alert_def submit_judged_def split: prod.splits sum.splits)
  then have items: "\<exists>old. ib_items (rd_inbox st1) = old @ [a]" by (simp add: push_alert_def)
  then have "latest_has (wc_episode_id wc) v (ib_items (ou_inbox s))" using a assms(8) by (auto simp: latest_has_snoc)
  from handle_all_latest [OF this assms(4), of outs me threshold eng] assms(8,9) items a show ?thesis by auto
qed

definition demo_sink :: confirm_sink where
  "demo_sink = \<lparr>cs_originator_fp = [9], cs_alert_threshold = Fin (1 / 4), cs_backend_label = ''pre-filter'', cs_quorum = 1\<rparr>"

definition demo_round_state :: "host \<Rightarrow> round_state" where
  "demo_round_state h = \<lparr>rd_inbox = inbox_new 10 1000, rd_hold = hold_init h, rd_queue = queue_start 4, rd_emitted = [], rd_ready = [], rd_shed = []\<rparr>"

definition demo_ended :: "host \<Rightarrow> round_state" where
  "demo_ended h = end_round demo_crypto demo_sink (Fin 1) (\<lambda>_. 8) 0 (demo_context ''/bin/x'') Response_Path.demo_round (Fin (1 / 2)) (demo_round_state h)"

theorem confirmation_stays_witness:
  "\<forall>h. latest_has ''e'' (quorum_verdict (wc_peers Response_Path.demo_round) 1) (ib_items (ou_inbox (handle_all [9] (Fin (1 / 16)) cautious_engine
     [(\<lambda>_. 9, 0, IoVerdict ''e'' (demo_context ''/bin/x'') \<lparr>mv_suspicion = Fin (1 / 16), mv_rationale = ''fine'', mv_suggested_actions = [],
        mv_whisper_query = [], mv_backend = ''m''\<rparr>)]
     \<lparr>ou_inbox = rd_inbox (demo_ended h), ou_hold = rd_hold (demo_ended h), ou_emitted = [], ou_told = []\<rparr>)))"
proof
  fix h
  let ?v = "quorum_verdict (wc_peers Response_Path.demo_round) 1"
  let ?wc = "Response_Path.demo_round" let ?ms = "\<lambda>_ :: nat. 8 :: u64"
  let ?a = "round_alert demo_crypto demo_sink 8 (inject_whisper_context demo_crypto ?wc (demo_context ''/bin/x'')) ?wc (Fin (1 / 2)) ?v (confirmation_rationale ?v)"
  have v: "?v = quorum_verdict (wc_peers ?wc) (cs_quorum demo_sink)" "confirmed ?v" using demo_round_confirmed by (simp_all add: demo_sink_def)
  have t: "f32_le (cs_alert_threshold demo_sink) (Fin (1 / 2))" "wc_episode_id ?wc \<noteq> []" by (simp_all add: demo_sink_def f32_le_def)
  have u: "unsilenced (?ms 3) ?a (rd_inbox (demo_round_state h))" by (simp add: unsilenced_def demo_round_state_def inbox_new_def)
  have len: "length (ib_items (rd_inbox (demo_ended h))) \<le> 1" "ib_capacity (rd_inbox (demo_ended h)) = 10"
    by (simp_all add: demo_ended_def end_round_def Let_def submit_judged_def append_confirmed_alert_def append_recognition_alert_def
        append_round_alert_def demo_round_state_def inbox_append_def apply_silences_def push_alert_def inbox_new_def f32_le_def split: prod.splits sum.splits)
  note confirmation_stays [OF v t refl u demo_ended_def, of "\<lparr>ou_inbox = rd_inbox (demo_ended h), ou_hold = rd_hold (demo_ended h), ou_emitted = [], ou_told = []\<rparr>"
      "[(\<lambda>_. 9, 0, IoVerdict ''e'' (demo_context ''/bin/x'') \<lparr>mv_suspicion = Fin (1 / 16), mv_rationale = ''fine'', mv_suggested_actions = [],
        mv_whisper_query = [], mv_backend = ''m''\<rparr>)]" "[9]" "Fin (1 / 16)" cautious_engine]
  with len show "latest_has ''e'' ?v (ib_items (ou_inbox (handle_all [9] (Fin (1 / 16)) cautious_engine
     [(\<lambda>_. 9, 0, IoVerdict ''e'' (demo_context ''/bin/x'') \<lparr>mv_suspicion = Fin (1 / 16), mv_rationale = ''fine'', mv_suggested_actions = [],
        mv_whisper_query = [], mv_backend = ''m''\<rparr>)]
     \<lparr>ou_inbox = rd_inbox (demo_ended h), ou_hold = rd_hold (demo_ended h), ou_emitted = [], ou_told = []\<rparr>)))" by simp
qed

text \<open>
  The confirmation replaces the evidence. The alert of a confirmed round has the tally for its rationale and
  the peers for its context, and the mail takes the newer alert of the episode: what the rule found, the
  command line and the ancestry, which the alert of the pre-filter has, are not in it.
\<close>

theorem confirmation_replaces_evidence:
  assumes "v = quorum_verdict (wc_peers wc) (cs_quorum sink)" "confirmed v" "f32_le (cs_alert_threshold sink) pre"
    and "ib_items (rd_inbox st) = [old]" "1 < ib_capacity (rd_inbox st)" "ib_silences (rd_inbox st) = None"
    and "al_episode_id old = wc_episode_id wc" "wc_episode_id wc \<noteq> []" "al_ts_unix_ms old < ms 2"
  shows "\<exists>a. dedup_by_episode (ib_items (rd_inbox (end_round c sink llm_threshold ms now trigger wc pre st))) = [a] \<and>
    al_rationale a = confirmation_rationale v \<and> al_context a = peer_attributes c wc"
proof -
  let ?a = "round_alert c sink (ms 2) (inject_whisper_context c wc trigger) wc pre v (confirmation_rationale v)"
  have a: "al_episode_id ?a = wc_episode_id wc" "al_confirmation ?a = Some v" "al_ts_unix_ms ?a = ms 2" "al_rationale ?a = confirmation_rationale v"
    "al_context ?a = peer_attributes c wc"
    by (simp_all add: round_alert_def builder_raw_def builder_subject_def builder_exe_sha256_hex_def builder_context_def builder_confirmation_def)
  have "damp_for_recognition (inherit_confirmation items ?a) = ?a" for items
    using a(2) assms(2) by (simp add: inherit_confirmation_def damp_for_recognition_def)
  then have "inbox_append (ms 3) ?a (rd_inbox st) = (Stored, push_alert ?a (rd_inbox st))"
    using assms(6) by (simp add: inbox_append_def apply_silences_def)
  then have "rd_inbox (end_round c sink llm_threshold ms now trigger wc pre st) = push_alert ?a (rd_inbox st)"
    using assms(2,3) unfolding end_round_def Let_def append_recognition_alert_def append_confirmed_alert_def
    by (simp add: assms(1) [symmetric] append_round_alert_def submit_judged_def split: prod.splits sum.splits)
  then have "ib_items (rd_inbox (end_round c sink llm_threshold ms now trigger wc pre st)) = [old, ?a]" using assms(4,5) by (simp add: push_alert_def)
  moreover have "dedup_by_episode [old, ?a] = [?a]"
    using assms(7-9) a by (simp add: dedup_by_episode_def keep_newest_def sort_by_def not_le)
  ultimately show ?thesis using a(4,5) by simp
qed

end
