(* ===== verification/Spec2Isabelle.thy ===== *)
theory Spec2Isabelle
  imports Enrollment Bpf_Lsm Silence_Store Response_Path Propagation Exec_Path Watchdog Log_Witness Round_Alerts
begin

text \<open>
  The Bowery is a mesh of agents that watch hosts. An agent observes processes, keeps a baseline of
  what is normal, asks its neighbours about what is not, lets a local model judge, acts under a policy,
  records what it did, and serves an operator. This development models the parts that decide whom to
  trust, what to believe, what to do and what to tell, and proves what makes them correct. Everything
  is translated from the Rust sources under \<open>src/crates\<close>; where the code has a flaw, the model has it
  too, and a theorem says so.

  \<^bold>\<open>Foundations.\<close> \<open>Prelude\<close> has results and guards, words with saturating operations, byte strings and
  the lemmas the components share. \<open>Storage\<close> is a file system with faults: every write, rename, open
  and read can fail, and a failed write leaves some part of the contents. \<open>Text_Lines\<close> is the
  line structure of the append-only files. \<open>F32\<close> is binary32 arithmetic with round-half-even on
  rationals. \<open>Crypto\<close> is \<open>bowery-crypto\<close>: Ed25519, SHA-256, hex, base64 and TOML are parameters, and
  \<open>crypto_ok\<close> states what is documented of them. Unforgeability is not assumed globally: a theorem names the
  messages a key has signed, of whatever kind, says what those in its own domain are, and assumes of the
  signatures that arrive (\<open>unforged\<close>) that what they verify was signed. The keys sign envelopes, log
  reports, audit records, silences and authorisations; that these are not confused rests on the domains in the signing inputs.

  \<^bold>\<open>Messages.\<close> \<open>Proto\<close> has the signed records of \<open>bowery-proto\<close> with their signing inputs, which are
  injective and disjoint between record types. \<open>Replay\<close> (\<open>bowery-whisper/src/replay.rs\<close>) refines its
  bitmap window to sets of accepted nonces. \<open>Envelope\<close> (\<open>envelope.rs\<close>) shows that what opens was sealed
  for this host by that sender, and is delivered once.

  \<^bold>\<open>Trust.\<close> \<open>Mesh_Trust\<close> (\<open>mesh_trust.rs\<close>) has grants and the revocation store, \<open>Known_Neighbors\<close>
  (\<open>known_neighbors.rs\<close>) the pin store with its critical sections as steps of an interleaving relation,
  \<open>Enrollment\<close> the gossip peers (\<open>bowery-mesh\<close>) and the pin task of \<open>agent.rs\<close>. Only granted, unrevoked
  peers are pinned, and revoked ones are evicted; a revocation between the check and the write of a pin is
  missed, and a lemma says so.

  \<^bold>\<open>Belief.\<close> \<open>Baseline\<close> (\<open>bowery-baseline\<close>) is the SQL store of observations, \<open>Bloom\<close>
  (\<open>fingerprint.rs\<close>, \<open>bloom_publisher.rs\<close>) the published filters, \<open>Whisper_Round\<close> (\<open>qa.rs\<close>,
  \<open>whisper_qa.rs\<close>, \<open>peer_select.rs\<close>) the round of questions with what a responder knows and how
  answers become a verdict. \<open>Provenance\<close> (\<open>provenance.rs\<close>) decides which files a package vouches for.
  \<open>Log_Witness\<close> (\<open>log_witness.rs\<close> and its task in \<open>agent.rs\<close>) has the heights neighbours remember of each
  other's logs: an honest host is not accused, and how the table can be filled.

  \<^bold>\<open>Detection.\<close> \<open>Events\<close> (\<open>bowery-events\<close>) has the observations. \<open>File_Watch\<close> (\<open>file_watch.rs\<close>, the open hook
  of \<open>bowery-ebpf\<close> and the decoder of the loader) shows that the filter in the kernel misses no watched
  file but those it names; \<open>Mass_Write\<close> (\<open>mass_write.rs\<close>), on the table of \<open>Bounded_Map\<close>, finds sweeps and
  ransom notes; \<open>Proc_Table\<close> (\<open>proc_table.rs\<close>) refines a history of processes, since its limit last emptied it; \<open>Suppress\<close>
  (\<open>suppress.rs\<close>) folds repeats and \<open>Detections\<close> (\<open>detection_stats.rs\<close>) counts. \<open>Pipeline\<close>
  (\<open>pipeline.rs\<close>) composes them with the stores of the agent: what happens from a system call to the alert.
  For execs, \<open>Exec_Rules\<close> (\<open>rule.rs\<close>, \<open>score.rs\<close>, \<open>analyzer.rs\<close>) has the verdict of the pre-filter,
  \<open>Exec_Args\<close> (\<open>invocation.rs\<close>, \<open>defense.rs\<close>, \<open>lineage.rs\<close>) what arguments and parents show, \<open>Escalation\<close>
  (\<open>escalation.rs\<close>) transitions to root and reconnaissance, and \<open>Exec_Path\<close> the whole of \<open>process_exec\<close>: which
  findings reach the operator whatever the binary is, and which are lost on the way. The lines of the routing
  are there twice, over the stores of the pipeline (\<open>route_stage\<close>, \<open>model_stage\<close>) and over the rounds and held
  actions of the response path (\<open>route_exec\<close>); the lemma at the end shows that they agree. \<open>Watchdog\<close> (\<open>probe_watchdog.rs\<close>, \<open>peer_watchdog.rs\<close>,
  \<open>bowery-events/src/source.rs\<close>) is about those who stop detecting: a blind sensor and a silent neighbour
  are reported.

  \<^bold>\<open>Corroboration.\<close> \<open>Eventlog\<close> (\<open>bowery-eventlog\<close>, \<open>eventlog_writer.rs\<close>) is the recorded history with its
  writer, its pruning and what it can be asked; \<open>Corroborate\<close> (\<open>corroboration/mod.rs\<close>) the engine that
  turns claims into rounds, and the dispatch of questions to responders under the interface
  \<open>responder_contract\<close>; \<open>Claims\<close> (\<open>net_inbound.rs\<close>, \<open>file_access.rs\<close>) the two kinds of claims: a host
  that made a connection does not deny it, and a peer learns only about its own traffic.

  \<^bold>\<open>Action.\<close> \<open>Response\<close> (\<open>bowery-response\<close>) has the actions, the policy and the engines, behind the
  interface \<open>response_engine\<close>; \<open>Bpf_Lsm\<close> the exec blocker of the loader and the hook of the eBPF object;
  \<open>Audit_Log\<close> the signed log and its verifier, under which logs that share a record agree up to it; \<open>Response_Path\<close> the way of an action from a suggestion
  through corroboration to the engine (\<open>agent.rs\<close>, \<open>pending_actions.rs\<close>).

  \<^bold>\<open>Telling.\<close> \<open>Silence\<close> and \<open>Silence_Store\<close> have the operators' silences, which only an operator's signature
  brings into the store and which survive a restart; \<open>Inbox\<close> (\<open>inbox.rs\<close>,
  \<open>alert_builder.rs\<close>, \<open>bowery-cli/src/alerts.rs\<close>) what happens to a finding until an operator reads it;
  \<open>Seen\<close> and \<open>Yara_Store\<close> the set of handled keys and the store of distributed rules; \<open>Operator\<close>
  (\<open>operator.rs\<close>, \<open>forwarding.rs\<close>) the commands of an operator, directly or through a relay.
  \<open>Flooding\<close> states the laws under which a record spreads through a network as interfaces and proves
  that floods end, and when they reach everyone; \<open>Propagation\<close> shows that the handlers of \<open>operator.rs\<close>
  obey them, and where the hop limit of the code falls short. \<open>Virustotal\<close>, \<open>Mail\<close> and \<open>Notify\<close>
  (\<open>virustotal.rs\<close> and \<open>notify.rs\<close> of \<open>bowery-cli\<close>) are the mails to the operator: hash lookups, the two
  renderings, of which the HTML carries no markup of an alert, and the run, which loses no alert that is not
  older than its cursor.

  \<^bold>\<open>The model.\<close> \<open>Llm\<close> (\<open>bowery-llm\<close> and \<open>handle_llm_outcome\<close> of \<open>agent.rs\<close>) has the prompt, whose turns no
  observed text can forge, the reading of answers, the queue, which answers in order, and what the agent does
  with a verdict; the inference and the JSON parser are arguments. \<open>Round_Alerts\<close> is the end of a whisper round
  in \<open>whisper_qa.rs\<close> with its alerts: a confirmation stays with its episode whatever the model says.

  \<^bold>\<open>Conventions.\<close> State is passed explicitly; an operation under a lock is one step. What the world
  contributes is an argument: the clocks, the answers of packages that are not in the repository, faults
  of the disk, and which sends succeed. Machine integers are words of their width, \<open>usize\<close> and
  durations are naturals where no code relies on their wrapping; the counts of the baseline's SQL rows are
  naturals too, which is exact up to SQLite's limit of \<open>2\<^sup>6\<^sup>3\<close>. Loops are recursive functions on lists;
  \<open>sql_chunks\<close> and \<open>poll_loop\<close> have fuel, which their callers set to the number of rows or frames, and
  every other function terminates by structure or measure.

  \<^bold>\<open>Not modelled.\<close> Starting tasks, channels and signal handling in \<open>agent.rs\<close>; TLS, QUIC and the
  connection pool; the tracepoint programs and the loading of the eBPF object; the SQL tables over
  \<open>/proc\<close>; the beacons of outbound connections; the inference of the language model and the
  chat of the console; the texts of findings, which are parameters; the command line, console and web front ends beyond the
  audit verifier, the alert reader and the mails. They move data between the kernel, packages and screens.
\<close>

section \<open>The exec path and the response path\<close>

lemma judge_exec_episode:
  assumes "judge_exec cfg tx env exec e sha st = (v, st1)" "1 / 2 \<le> an_half_life (xc_analyzer cfg)"
  shows "vd_episode_id v = ep_id (from_exec exec)"
proof -
  obtain prov x1 x5 pl where c: "settled cfg env exec e sha st = (prov, x1)" "folds x1 x5" "folds x5 (defense_stage cfg tx env exec x5)"
    "folds (defense_stage cfg tx env exec x5) (v, pl)"
    by (rule judge_exec_cases[OF assms])
  have "vd_episode_id (fst x1) = ep_id (from_exec exec)"
    using provenance_stage_cases(3)[of env e sha _ prov "fst x1" "snd x1"] c(1) by (auto simp: settled_def prefilter_def analyze_def Let_def)
  then show ?thesis using c(2-4) by (simp add: folds_def extends_def)
qed

definition waiting_rounds :: "exec_state \<Rightarrow> (string \<times> f32) list" where
  "waiting_rounds st = map (\<lambda>(ep, _, v). (ep, vd_suspicion v)) (xs_triggers st)"

text \<open>
  \<open>route_exec\<close> of the response path and \<open>route_stage\<close> of the exec path are the same lines of \<open>pipeline.rs\<close> over
  two states, one with the held actions and rounds, one with the stores of the pipeline. This lemma keeps
  them together: while the channels are open, both hand the same episodes to the neighbours and the model.
\<close>

lemma process_exec_implements_routing:
  assumes "ev_exe_path exec = Some e" "xe_sha256 env = Some sha" "\<not> xe_analyze_lost env" "\<not> xe_upsert_fails env"
    and "judge_exec cfg tx env exec e sha st = (v, st1)" "1 / 2 \<le> an_half_life (xc_analyzer cfg)" "xe_whisper_open env" "xe_submit_ok env"
    and "fl_triggers s = waiting_rounds st" "fl_llm s = pl_submitted (xs_pipe st)"
    and "s' = route_exec \<lparr>fc_whisper_threshold = xc_whisper_threshold cfg, fc_llm_threshold = pf_llm_threshold (xc_pipe cfg)\<rparr>
      (ep_id (from_exec exec)) (vd_suspicion v) s"
  shows "fl_triggers s' = waiting_rounds (process_exec_event cfg tx env exec st) \<and> fl_llm s' = pl_submitted (xs_pipe (process_exec_event cfg tx env exec st))"
proof -
  obtain tr pl where c: "st1 = st\<lparr>xs_pipe := pl, xs_discovery := tr\<rparr>" "pl_submitted pl = pl_submitted (xs_pipe st)"
    by (rule judge_exec_cases[OF assms(5,6)])
  have "pl_submitted (alert_stage cfg env exec sha v p) = pl_submitted p" for p
    by (simp add: alert_stage_def emit_def split: prod.split)
  then show ?thesis using assms c judge_exec_episode[OF assms(5,6)]
    by (simp add: process_exec_event_def upsert_binary_def route_stage_def model_stage_def route_exec_def waiting_rounds_def Let_def split: prod.split)
qed

end
